(* ===== verification/Prelude.thy ===== *)
theory Prelude
  imports Main "HOL-Library.Word"
begin

text \<open>
  Shared vocabulary of the development: machine words and byte strings, Rust's
  \<open>Result\<close> as a sum type with the \<open>?\<close> operator as \<open>rbind\<close>, big- and little-endian
  integer encodings, and the collections of hints the component proofs use.
\<close>

section \<open>Types\<close>

type_synonym byte = "8 word"
type_synonym bytes = "byte list"
type_synonym u16 = "16 word"
type_synonym u32 = "32 word"
type_synonym u64 = "64 word"

text \<open>The collections: \<open>codec_simps\<close> holds the equations that push a writer or a reader
  through a sequence of fields, \<open>result_simps\<close> the inversion of \<open>?\<close>-chains.\<close>

named_theorems codec_simps
named_theorems result_simps

section \<open>Results\<close>

text \<open>\<open>Result<T, E>\<close> is \<open>'e + 'a\<close> with \<open>Inl\<close> for \<open>Err\<close>; \<open>rbind m f\<close> is \<open>f(m?)\<close>.\<close>

definition rbind :: "'e + 'a \<Rightarrow> ('a \<Rightarrow> 'e + 'b) \<Rightarrow> 'e + 'b" where
  "rbind m f = (case m of Inl e \<Rightarrow> Inl e | Inr x \<Rightarrow> f x)"

text \<open>\<open>map_err\<close> and \<open>Option::ok_or\<close>.\<close>

definition map_err :: "('e \<Rightarrow> 'f) \<Rightarrow> 'e + 'a \<Rightarrow> 'f + 'a" where
  "map_err g m = (case m of Inl e \<Rightarrow> Inl (g e) | Inr x \<Rightarrow> Inr x)"

definition ok_or :: "'a option \<Rightarrow> 'e \<Rightarrow> 'e + 'a" where
  "ok_or m e = (case m of None \<Rightarrow> Inl e | Some x \<Rightarrow> Inr x)"

lemma rbind_Inl [simp]: "rbind (Inl e) f = Inl e"
  by (simp add: rbind_def)

lemma rbind_Inr [simp]: "rbind (Inr x) f = f x"
  by (simp add: rbind_def)

lemma rbind_assoc: "rbind (rbind m f) g = rbind m (\<lambda>x. rbind (f x) g)"
  by (cases m) simp_all

lemma rbind_eq_Inr [result_simps]:
  "rbind m f = Inr y \<longleftrightarrow> (\<exists>x. m = Inr x \<and> f x = Inr y)"
  by (cases m) simp_all

lemma rbind_eq_Inl:
  "rbind m f = Inl e \<longleftrightarrow> m = Inl e \<or> (\<exists>x. m = Inr x \<and> f x = Inl e)"
  by (cases m) simp_all

lemma rbind_cong [fundef_cong]:
  "m = n \<Longrightarrow> (\<And>x. n = Inr x \<Longrightarrow> f x = g x) \<Longrightarrow> rbind m f = rbind n g"
  by (cases n) (simp_all add: rbind_def)

lemma map_err_simps [simp]:
  "map_err g (Inl e) = Inl (g e)" "map_err g (Inr x) = Inr x"
  by (simp_all add: map_err_def)

lemma map_err_eq_Inr [result_simps]: "map_err g m = Inr x \<longleftrightarrow> m = Inr x"
  by (cases m) simp_all

lemma ok_or_simps [simp]: "ok_or None e = Inl e" "ok_or (Some x) e = Inr x"
  by (simp_all add: ok_or_def)

lemma ok_or_eq_Inr [result_simps]: "ok_or m e = Inr x \<longleftrightarrow> m = Some x"
  by (cases m) simp_all

lemma map_err_eq_Inl: "map_err g m = Inl e \<longleftrightarrow> (\<exists>x. m = Inl x \<and> e = g x)"
  by (cases m) auto

lemma ok_or_eq_Inl: "ok_or m e = Inl e' \<longleftrightarrow> m = None \<and> e' = e"
  by (cases m) auto

text \<open>An early return.\<close>

lemma guard_Inr: "(if b then Inl e else m) = Inr x \<longleftrightarrow> \<not> b \<and> m = Inr x"
  by simp

lemma guard_Inl: "(if b then Inl e else m) = Inl e' \<longleftrightarrow> (b \<and> e = e') \<or> (\<not> b \<and> m = Inl e')"
  by auto

lemmas result_errors = rbind_eq_Inl map_err_eq_Inl ok_or_eq_Inl

section \<open>Lists\<close>

lemma in_map_filter: "y \<in> set (List.map_filter f xs) \<longleftrightarrow> (\<exists>x \<in> set xs. f x = Some y)"
  by (induction xs) (auto simp: List.map_filter_simps split: option.splits)

section \<open>Checked and saturating arithmetic on \<open>u64\<close>\<close>

definition checked_add :: "u64 \<Rightarrow> u64 \<Rightarrow> u64 option" where
  "checked_add a b = (if unat a + unat b < 2 ^ 64 then Some (a + b) else None)"

definition checked_mul :: "u64 \<Rightarrow> u64 \<Rightarrow> u64 option" where
  "checked_mul a b = (if unat a * unat b < 2 ^ 64 then Some (a * b) else None)"

definition saturating_add :: "u64 \<Rightarrow> u64 \<Rightarrow> u64" where
  "saturating_add a b = (if unat a + unat b < 2 ^ 64 then a + b else -1)"

definition saturating_sub :: "u64 \<Rightarrow> u64 \<Rightarrow> u64" where
  "saturating_sub a b = (if b \<le> a then a - b else 0)"

definition saturating_mul :: "u64 \<Rightarrow> u64 \<Rightarrow> u64" where
  "saturating_mul a b = (if unat a * unat b < 2 ^ 64 then a * b else -1)"

lemma checked_add_Some: "checked_add a b = Some c \<longleftrightarrow> unat a + unat b < 2 ^ 64 \<and> unat c = unat a + unat b"
proof -
  have "unat (a + b) = unat a + unat b" if "unat a + unat b < 2 ^ 64"
    using that by (simp add: unat_word_ariths)
  moreover have "c = a + b" if "unat c = unat a + unat b" "unat a + unat b < 2 ^ 64"
    using that by (simp add: word_unat_eq_iff unat_word_ariths)
  ultimately show ?thesis by (auto simp: checked_add_def)
qed

lemma checked_add_None: "checked_add a b = None \<longleftrightarrow> 2 ^ 64 \<le> unat a + unat b"
  by (auto simp: checked_add_def)

section \<open>Fixed-width integers as byte strings\<close>

text \<open>\<open>be_bytes n v\<close> is the \<open>n\<close>-byte big-endian form of \<open>v\<close> (\<open>to_be_bytes\<close>), \<open>be_val\<close>
  reads one (\<open>from_be_bytes\<close>); the little-endian forms are their reversals.\<close>

fun be_bytes :: "nat \<Rightarrow> nat \<Rightarrow> bytes" where
  "be_bytes 0 v = []"
| "be_bytes (Suc n) v = word_of_nat (v div 256 ^ n) # be_bytes n (v mod 256 ^ n)"

fun be_val :: "bytes \<Rightarrow> nat" where
  "be_val [] = 0"
| "be_val (b # bs) = unat b * 256 ^ length bs + be_val bs"

definition le_bytes :: "nat \<Rightarrow> nat \<Rightarrow> bytes" where
  "le_bytes n v = rev (be_bytes n v)"

definition le_val :: "bytes \<Rightarrow> nat" where
  "le_val bs = be_val (rev bs)"

lemma length_be_bytes [simp]: "length (be_bytes n v) = n"
  by (induction n arbitrary: v) simp_all

lemma length_le_bytes [simp]: "length (le_bytes n v) = n"
  by (simp add: le_bytes_def)

lemma unat_byte_less [simp]: "unat (b :: byte) < 256"
  using unsigned_less [of b] by simp

lemma unat_byte_Suc_le: "Suc (unat (b :: byte)) \<le> 256"
  using unat_byte_less [of b] by (simp only: Suc_le_eq)

lemma be_val_less: "be_val bs < 256 ^ length bs"
proof (induction bs)
  case (Cons b bs)
  have "unat b * 256 ^ length bs + be_val bs < unat b * 256 ^ length bs + 256 ^ length bs"
    using Cons by simp
  also have "\<dots> = Suc (unat b) * 256 ^ length bs" by simp
  also have "\<dots> \<le> 256 * 256 ^ length bs"
    by (rule mult_right_mono [OF unat_byte_Suc_le]) simp
  finally show ?case by simp
qed simp

lemma unat_word_of_nat_byte: "unat (word_of_nat k :: byte) = k mod 256"
  by (simp add: unat_of_nat)

lemma be_val_be_bytes: "v < 256 ^ n \<Longrightarrow> be_val (be_bytes n v) = v"
proof (induction n arbitrary: v)
  case (Suc n)
  from Suc.prems have "v div 256 ^ n < 256" by (simp add: less_mult_imp_div_less)
  moreover have "be_val (be_bytes n (v mod 256 ^ n)) = v mod 256 ^ n"
    by (intro Suc.IH) simp
  ultimately show ?case
    by (simp add: unat_word_of_nat_byte del: add_mult_distrib2) (rule div_mult_mod_eq)
qed simp

lemma be_bytes_be_val: "be_bytes (length bs) (be_val bs) = bs"
proof (induction bs)
  case (Cons b bs)
  have "be_val bs < 256 ^ length bs" by (rule be_val_less)
  then show ?case using Cons by simp
qed simp

lemma le_val_le_bytes: "v < 256 ^ n \<Longrightarrow> le_val (le_bytes n v) = v"
  by (simp add: le_val_def le_bytes_def be_val_be_bytes)

lemma le_bytes_le_val: "length bs = n \<Longrightarrow> le_bytes n (le_val bs) = bs"
  using be_bytes_be_val [of "rev bs"] by (auto simp: le_val_def le_bytes_def)

text \<open>The words of the code: \<open>u16\<close>, \<open>u32\<close>, \<open>u64\<close> and their widths in bytes.\<close>

lemma unat_u16_bound: "unat (v :: u16) < 256 ^ 2"
  using unsigned_less [of v] by simp

lemma unat_u32_bound: "unat (v :: u32) < 256 ^ 4"
  using unsigned_less [of v] by simp

lemma unat_u64_bound: "unat (v :: u64) < 256 ^ 8"
  using unsigned_less [of v] by simp

lemma be_val_u16: "word_of_nat (be_val (be_bytes 2 (unat v))) = (v :: u16)"
  using be_val_be_bytes [OF unat_u16_bound, of v] by simp

lemma be_val_u32: "word_of_nat (be_val (be_bytes 4 (unat v))) = (v :: u32)"
  using be_val_be_bytes [OF unat_u32_bound, of v] by simp

lemma be_val_u64: "word_of_nat (be_val (be_bytes 8 (unat v))) = (v :: u64)"
  using be_val_be_bytes [OF unat_u64_bound, of v] by simp

lemma le_val_u64: "word_of_nat (le_val (le_bytes 8 (unat v))) = (v :: u64)"
  using le_val_le_bytes [OF unat_u64_bound, of v] by simp

lemma be_bytes_u16: "length bs = 2 \<Longrightarrow> be_bytes 2 (unat (word_of_nat (be_val bs) :: u16)) = bs"
  using be_val_less [of bs] be_bytes_be_val [of bs] by (simp add: unat_of_nat)

lemma be_bytes_u32: "length bs = 4 \<Longrightarrow> be_bytes 4 (unat (word_of_nat (be_val bs) :: u32)) = bs"
  using be_val_less [of bs] be_bytes_be_val [of bs] by (simp add: unat_of_nat)

lemma be_bytes_u64: "length bs = 8 \<Longrightarrow> be_bytes 8 (unat (word_of_nat (be_val bs) :: u64)) = bs"
  using be_val_less [of bs] be_bytes_be_val [of bs] by (simp add: unat_of_nat)

lemma le_bytes_u64: "length bs = 8 \<Longrightarrow> le_bytes 8 (unat (word_of_nat (le_val bs) :: u64)) = bs"
  using be_val_less [of "rev bs"] le_bytes_le_val [of bs 8]
  by (simp add: unat_of_nat le_val_def)

section \<open>Lists\<close>

lemma append_eq_same_length:
  "length a = length c \<Longrightarrow> a @ b = c @ d \<longleftrightarrow> a = c \<and> b = d"
  by simp

lemma split_at_length: "n \<le> length bs \<Longrightarrow> \<exists>xs ys. bs = xs @ ys \<and> length xs = n"
  by (metis append_take_drop_id length_take min.absorb2)

end
