(* ===== verification/Primitives.thy ===== *)
theory Primitives
  imports Prelude
begin

text \<open>
  \<^verbatim>\<open>crates/encoding/src/primitives.rs\<close> and \<^verbatim>\<open>error.rs\<close>: the append-only \<open>Writer\<close>,
  the strict \<open>Reader\<close> with its position, the primitive encodings, and every reason
  for which the decoder rejects. A method with \<open>&mut self\<close> returns the new state; a
  \<open>usize\<close> is a \<open>nat\<close>. The NFC test of the \<^verbatim>\<open>unicode_normalization\<close> package is the
  parameter \<open>is_nfc\<close> of the functions that call it.
\<close>

section \<open>Errors and limits\<close>

datatype decode_error =
    ShortInput nat nat
  | TrailingBytes nat
  | InvalidBool byte
  | LengthOverrun u64 nat
  | InvalidUtf8
  | NonNfcText
  | TextTooLong nat nat
  | UnknownEnum string u32
  | SetNotAscending
  | SetTooLong nat nat
  | InvalidPresenceByte byte
  | UnknownTypeId u16
  | WrongTypeId u16 u16
  | FileScopeMalformed
  | RecoveryIdMismatch
  | StreamsNotAscending
  | NonCanonical

definition MAX_TEXT :: nat where
  "MAX_TEXT = 1024"

section \<open>The writer\<close>

record writer =
  w_buf :: bytes

definition writer_new :: writer where
  "writer_new = \<lparr>w_buf = []\<rparr>"

definition into_bytes :: "writer \<Rightarrow> bytes" where
  "into_bytes w = w_buf w"

definition w_u8 :: "byte \<Rightarrow> writer \<Rightarrow> writer" where
  "w_u8 v w = w\<lparr>w_buf := w_buf w @ [v]\<rparr>"

definition w_u16 :: "u16 \<Rightarrow> writer \<Rightarrow> writer" where
  "w_u16 v w = w\<lparr>w_buf := w_buf w @ be_bytes 2 (unat v)\<rparr>"

definition w_u32 :: "u32 \<Rightarrow> writer \<Rightarrow> writer" where
  "w_u32 v w = w\<lparr>w_buf := w_buf w @ be_bytes 4 (unat v)\<rparr>"

definition w_u64 :: "u64 \<Rightarrow> writer \<Rightarrow> writer" where
  "w_u64 v w = w\<lparr>w_buf := w_buf w @ be_bytes 8 (unat v)\<rparr>"

definition w_bool :: "bool \<Rightarrow> writer \<Rightarrow> writer" where
  "w_bool v w = w\<lparr>w_buf := w_buf w @ [if v then 1 else 0]\<rparr>"

definition w_fixed :: "bytes \<Rightarrow> writer \<Rightarrow> writer" where
  "w_fixed b w = w\<lparr>w_buf := w_buf w @ b\<rparr>"

text \<open>\<open>b.len() as u32\<close> truncates, as \<open>word_of_nat\<close> does.\<close>

definition w_var :: "bytes \<Rightarrow> writer \<Rightarrow> writer" where
  "w_var b w = (let w = w_u32 (word_of_nat (length b)) w in w\<lparr>w_buf := w_buf w @ b\<rparr>)"

definition w_text :: "bytes \<Rightarrow> writer \<Rightarrow> writer" where
  "w_text s w = w_var s w"

section \<open>The reader\<close>

record reader =
  r_buf :: bytes
  r_pos :: nat

definition reader_new :: "bytes \<Rightarrow> reader" where
  "reader_new bs = \<lparr>r_buf = bs, r_pos = 0\<rparr>"

definition remaining :: "reader \<Rightarrow> nat" where
  "remaining r = length (r_buf r) - r_pos r"

definition r_take :: "nat \<Rightarrow> reader \<Rightarrow> decode_error + (bytes \<times> reader)" where
  "r_take n r =
     (if remaining r < n then Inl (ShortInput n (remaining r))
      else Inr (take n (drop (r_pos r) (r_buf r)), r\<lparr>r_pos := r_pos r + n\<rparr>))"

definition r_u8 :: "reader \<Rightarrow> decode_error + (byte \<times> reader)" where
  "r_u8 r = rbind (r_take 1 r) (\<lambda>(b, r). Inr (b ! 0, r))"

definition r_u16 :: "reader \<Rightarrow> decode_error + (u16 \<times> reader)" where
  "r_u16 r = rbind (r_take 2 r) (\<lambda>(b, r). Inr (word_of_nat (be_val b), r))"

definition r_u32 :: "reader \<Rightarrow> decode_error + (u32 \<times> reader)" where
  "r_u32 r = rbind (r_take 4 r) (\<lambda>(b, r). Inr (word_of_nat (be_val b), r))"

definition r_u64 :: "reader \<Rightarrow> decode_error + (u64 \<times> reader)" where
  "r_u64 r = rbind (r_take 8 r) (\<lambda>(b, r). Inr (word_of_nat (be_val b), r))"

definition r_bool :: "reader \<Rightarrow> decode_error + (bool \<times> reader)" where
  "r_bool r = rbind (r_u8 r) (\<lambda>(b, r).
     if b = 0 then Inr (False, r)
     else if b = 1 then Inr (True, r)
     else Inl (InvalidBool b))"

definition r_fixed :: "nat \<Rightarrow> reader \<Rightarrow> decode_error + (bytes \<times> reader)" where
  "r_fixed n r = rbind (r_take n r) (\<lambda>(s, r). Inr (s, r))"

definition r_var :: "reader \<Rightarrow> decode_error + (bytes \<times> reader)" where
  "r_var r = rbind (r_u32 r) (\<lambda>(l, r).
     let len = unat l in
     if len > remaining r then Inl (LengthOverrun (word_of_nat len) (remaining r))
     else rbind (r_take len r) (\<lambda>(s, r). Inr (s, r)))"

text \<open>\<open>core::str::from_utf8\<close>: the well-formed byte sequences of the Unicode standard
  (no overlong forms, no surrogates, nothing above U+10FFFF).\<close>

definition utf8_cont :: "byte \<Rightarrow> bool" where
  "utf8_cont b \<longleftrightarrow> 0x80 \<le> b \<and> b \<le> 0xBF"

fun utf8_valid :: "bytes \<Rightarrow> bool" where
  "utf8_valid [] = True"
| "utf8_valid (b # bs) =
     (if b < 0x80 then utf8_valid bs
      else if 0xC2 \<le> b \<and> b \<le> 0xDF then
        (case bs of c # rest \<Rightarrow> utf8_cont c \<and> utf8_valid rest | _ \<Rightarrow> False)
      else if 0xE0 \<le> b \<and> b \<le> 0xEF then
        (case bs of c # d # rest \<Rightarrow>
           utf8_cont c \<and> utf8_cont d \<and> (b = 0xE0 \<longrightarrow> 0xA0 \<le> c) \<and> (b = 0xED \<longrightarrow> c \<le> 0x9F)
             \<and> utf8_valid rest
         | _ \<Rightarrow> False)
      else if 0xF0 \<le> b \<and> b \<le> 0xF4 then
        (case bs of c # d # e # rest \<Rightarrow>
           utf8_cont c \<and> utf8_cont d \<and> utf8_cont e
             \<and> (b = 0xF0 \<longrightarrow> 0x90 \<le> c) \<and> (b = 0xF4 \<longrightarrow> c \<le> 0x8F) \<and> utf8_valid rest
         | _ \<Rightarrow> False)
      else False)"

definition r_text :: "(bytes \<Rightarrow> bool) \<Rightarrow> reader \<Rightarrow> decode_error + (bytes \<times> reader)" where
  "r_text is_nfc r = rbind (r_var r) (\<lambda>(bs, r).
     if length bs > MAX_TEXT then Inl (TextTooLong (length bs) MAX_TEXT)
     else if \<not> utf8_valid bs then Inl InvalidUtf8
     else if \<not> is_nfc bs then Inl NonNfcText
     else Inr (bs, r))"

definition finish :: "reader \<Rightarrow> decode_error + unit" where
  "finish r = (if remaining r \<noteq> 0 then Inl (TrailingBytes (remaining r)) else Inr ())"

section \<open>Readers as a consumed prefix and a remaining input\<close>

text \<open>A reader whose position lies inside its buffer is \<open>rd pre rest\<close>: \<open>pre\<close> is read,
  \<open>rest\<close> is not. Every operation moves bytes from the second to the first.\<close>

definition rd :: "bytes \<Rightarrow> bytes \<Rightarrow> reader" where
  "rd pre rest = \<lparr>r_buf = pre @ rest, r_pos = length pre\<rparr>"

lemma reader_new_rd: "reader_new bs = rd [] bs"
  by (simp add: reader_new_def rd_def)

lemma rd_cases:
  assumes "r_pos r \<le> length (r_buf r)"
  shows "r = rd (take (r_pos r) (r_buf r)) (drop (r_pos r) (r_buf r))"
  using assms by (cases r) (simp add: rd_def)

lemma remaining_rd [simp]: "remaining (rd pre rest) = length rest"
  by (simp add: remaining_def rd_def)

lemma rd_eq_iff: "rd p a = rd q b \<longleftrightarrow> p = q \<and> a = b"
  by (auto simp: rd_def append_eq_append_conv)

lemma r_take_rd:
  "r_take n (rd pre bs) =
     (if length bs < n then Inl (ShortInput n (length bs))
      else Inr (take n bs, rd (pre @ take n bs) (drop n bs)))"
  unfolding r_take_def remaining_rd by (auto simp: rd_def)

lemma r_take_append [codec_simps]:
  "length xs = n \<Longrightarrow> r_take n (rd pre (xs @ rest)) = Inr (xs, rd (pre @ xs) rest)"
  by (simp add: r_take_rd)

lemma r_take_Inr:
  "r_take n (rd pre bs) = Inr (xs, r) \<longleftrightarrow>
     (\<exists>rest. bs = xs @ rest \<and> length xs = n \<and> r = rd (pre @ xs) rest)"
  by (auto simp: r_take_rd rd_eq_iff intro: exI [of _ "drop n bs"])

lemma finish_rd [simp]: "finish (rd pre rest) =
    (if rest = [] then Inr () else Inl (TrailingBytes (length rest)))"
  by (simp add: finish_def)

lemma w_buf_writer_new [simp]: "w_buf writer_new = []"
  by (simp add: writer_new_def)

lemma w_buf_prims [codec_simps]:
  "w_buf (w_u8 b w) = w_buf w @ [b]"
  "w_buf (w_u16 h w) = w_buf w @ be_bytes 2 (unat h)"
  "w_buf (w_u32 i w) = w_buf w @ be_bytes 4 (unat i)"
  "w_buf (w_u64 l w) = w_buf w @ be_bytes 8 (unat l)"
  "w_buf (w_bool x w) = w_buf w @ [if x then 1 else 0]"
  "w_buf (w_fixed s w) = w_buf w @ s"
  "w_buf (w_var s w) = w_buf w @ be_bytes 4 (unat (word_of_nat (length s) :: u32)) @ s"
  "w_buf (w_text s w) = w_buf w @ be_bytes 4 (unat (word_of_nat (length s) :: u32)) @ s"
  by (simp_all add: w_u8_def w_u16_def w_u32_def w_u64_def w_bool_def w_fixed_def w_var_def
      w_text_def)

end
