(* ===== verification/Field_Types.thy ===== *)
theory Field_Types
  imports Primitives
begin

text \<open>
  \<^verbatim>\<open>crates/encoding/src/types.rs\<close>: the identifier, text and enum types of the signed
  structures and their \<open>Field\<close> implementations. The trait is the locale \<open>field_codec\<close>:
  \<open>put\<close> appends one canonical byte form, \<open>get\<close> accepts exactly that form. A fixed
  array \<open>[u8; N]\<close> is a byte list whose length the \<open>ok\<close> predicate of its type fixes.
\<close>

section \<open>The Field trait\<close>

text \<open>The bytes a value contributes are what \<open>put\<close> leaves in an empty writer.\<close>

definition field_bytes :: "('a \<Rightarrow> writer \<Rightarrow> writer) \<Rightarrow> 'a \<Rightarrow> bytes" where
  "field_bytes put v = into_bytes (put v writer_new)"

lemma w_buf_put_new: "w_buf (put v writer_new) = field_bytes put v"
  by (simp add: field_bytes_def into_bytes_def)

locale field_codec =
  fixes put :: "'a \<Rightarrow> writer \<Rightarrow> writer"
    and get :: "reader \<Rightarrow> decode_error + ('a \<times> reader)"
    and ok :: "'a \<Rightarrow> bool"
  assumes put_appends: "w_buf (put v w) = w_buf w @ field_bytes put v"
    and get_put: "ok v \<Longrightarrow>
      get (rd pre (field_bytes put v @ rest)) = Inr (v, rd (pre @ field_bytes put v) rest)"
    and get_exact: "get (rd pre bs) = Inr (v, r) \<Longrightarrow>
      ok v \<and> (\<exists>rest. bs = field_bytes put v @ rest \<and> r = rd (pre @ field_bytes put v) rest)"
begin

lemma get_put_end: "ok v \<Longrightarrow>
    get (rd pre (field_bytes put v)) = Inr (v, rd (pre @ field_bytes put v) [])"
  using get_put [of v pre "[]"] by simp

lemma get_iff: "get (rd pre bs) = Inr (v, r) \<longleftrightarrow>
    ok v \<and> (\<exists>rest. bs = field_bytes put v @ rest \<and> r = rd (pre @ field_bytes put v) rest)"
  using get_exact get_put by blast

text \<open>No valid value's bytes are a proper prefix of another's.\<close>

lemma prefix_free:
  assumes "ok v" and "ok v'" and "field_bytes put v @ s = field_bytes put v' @ s'"
  shows "v = v' \<and> s = s'"
proof -
  have 1: "get (rd [] (field_bytes put v @ s)) = Inr (v, rd ([] @ field_bytes put v) s)"
    by (rule get_put [OF assms(1)])
  have 2: "get (rd [] (field_bytes put v' @ s')) = Inr (v', rd ([] @ field_bytes put v') s')"
    by (rule get_put [OF assms(2)])
  have "(v, rd ([] @ field_bytes put v) s) = (v', rd ([] @ field_bytes put v') s')"
    using 1 unfolding assms(3) 2 by (rule sum.inject(2) [THEN iffD1, OF sym])
  then have "v = v'" and eq: "rd ([] @ field_bytes put v) s = rd ([] @ field_bytes put v') s'"
    by (blast dest: prod.inject [THEN iffD1])+
  from eq have "s = s'" by (simp only: rd_eq_iff)
  with \<open>v = v'\<close> show ?thesis by blast
qed

lemma field_bytes_inj:
  assumes "ok v" and "ok v'" and "field_bytes put v = field_bytes put v'"
  shows "v = v'"
proof -
  have "field_bytes put v @ [] = field_bytes put v' @ []" using assms(3) by simp
  from prefix_free [OF assms(1,2) this] show ?thesis by simp
qed

end

section \<open>Integers and booleans\<close>

definition put_u8 :: "byte \<Rightarrow> writer \<Rightarrow> writer" where "put_u8 v w = w_u8 v w"
definition get_u8 :: "reader \<Rightarrow> decode_error + (byte \<times> reader)" where "get_u8 r = r_u8 r"
definition put_u16 :: "u16 \<Rightarrow> writer \<Rightarrow> writer" where "put_u16 v w = w_u16 v w"
definition get_u16 :: "reader \<Rightarrow> decode_error + (u16 \<times> reader)" where "get_u16 r = r_u16 r"
definition put_u32 :: "u32 \<Rightarrow> writer \<Rightarrow> writer" where "put_u32 v w = w_u32 v w"
definition get_u32 :: "reader \<Rightarrow> decode_error + (u32 \<times> reader)" where "get_u32 r = r_u32 r"
definition put_u64 :: "u64 \<Rightarrow> writer \<Rightarrow> writer" where "put_u64 v w = w_u64 v w"
definition get_u64 :: "reader \<Rightarrow> decode_error + (u64 \<times> reader)" where "get_u64 r = r_u64 r"
definition put_bool :: "bool \<Rightarrow> writer \<Rightarrow> writer" where "put_bool v w = w_bool v w"
definition get_bool :: "reader \<Rightarrow> decode_error + (bool \<times> reader)" where "get_bool r = r_bool r"

lemma r_u8_rd: "r_u8 (rd pre bs) =
    (case bs of [] \<Rightarrow> Inl (ShortInput 1 0) | b # rest \<Rightarrow> Inr (b, rd (pre @ [b]) rest))"
  by (cases bs) (simp_all add: r_u8_def r_take_rd)

lemma r_u8_Cons [codec_simps]: "r_u8 (rd pre (b # rest)) = Inr (b, rd (pre @ [b]) rest)"
  by (simp add: r_u8_rd)

lemma r_u8_Inr: "r_u8 (rd pre bs) = Inr (b, r) \<longleftrightarrow>
    (\<exists>rest. bs = b # rest \<and> r = rd (pre @ [b]) rest)"
  by (cases bs) (auto simp: r_u8_rd)

interpretation u8: field_codec put_u8 get_u8 "\<lambda>_. True"
  by unfold_locales
    (auto simp: put_u8_def get_u8_def field_bytes_def into_bytes_def codec_simps r_u8_Inr)

interpretation u16: field_codec put_u16 get_u16 "\<lambda>_. True"
  by unfold_locales
    (auto simp: put_u16_def get_u16_def field_bytes_def into_bytes_def codec_simps r_u16_def
      be_val_u16 be_bytes_u16 r_take_Inr result_simps)

interpretation u32: field_codec put_u32 get_u32 "\<lambda>_. True"
  by unfold_locales
    (auto simp: put_u32_def get_u32_def field_bytes_def into_bytes_def codec_simps r_u32_def
      be_val_u32 be_bytes_u32 r_take_Inr result_simps)

interpretation u64: field_codec put_u64 get_u64 "\<lambda>_. True"
  by unfold_locales
    (auto simp: put_u64_def get_u64_def field_bytes_def into_bytes_def codec_simps r_u64_def
      be_val_u64 be_bytes_u64 r_take_Inr result_simps)

lemma field_bytes_put_bool: "field_bytes put_bool v = [if v then 1 else 0]"
  by (simp add: put_bool_def field_bytes_def into_bytes_def codec_simps)

interpretation bool: field_codec put_bool get_bool "\<lambda>_. True"
proof
  fix v w pre bs rest r
  show "w_buf (put_bool v w) = w_buf w @ field_bytes put_bool v"
    by (simp add: field_bytes_put_bool put_bool_def codec_simps)
  show "get_bool (rd pre (field_bytes put_bool v @ rest)) =
      Inr (v, rd (pre @ field_bytes put_bool v) rest)"
    by (cases v) (simp_all add: field_bytes_put_bool get_bool_def r_bool_def codec_simps)
  show "True \<and> (\<exists>rest. bs = field_bytes put_bool v @ rest \<and>
      r = rd (pre @ field_bytes put_bool v) rest)"
    if "get_bool (rd pre bs) = Inr (v, r)"
  proof -
    from that obtain b r1 where "r_u8 (rd pre bs) = Inr (b, r1)"
      and eq: "(if b = 0 then Inr (False, r1) else if b = 1 then Inr (True, r1)
        else Inl (InvalidBool b)) = Inr (v, r)"
      by (auto simp: get_bool_def r_bool_def rbind_eq_Inr)
    then obtain rest where "bs = b # rest" and "r1 = rd (pre @ [b]) rest"
      by (auto simp: r_u8_Inr)
    moreover from eq have "b = (if v then 1 else 0)" and "r1 = r"
      by (auto split: if_splits)
    ultimately have "bs = field_bytes put_bool v @ rest"
      and "r = rd (pre @ field_bytes put_bool v) rest"
      unfolding field_bytes_put_bool by (simp_all only: append.simps)
    then show ?thesis by blast
  qed
qed

section \<open>Optional fields\<close>

text \<open>\<open>option<T>\<close>: a presence byte 0x00, or 0x01 and the value.\<close>

fun put_option :: "('a \<Rightarrow> writer \<Rightarrow> writer) \<Rightarrow> 'a option \<Rightarrow> writer \<Rightarrow> writer" where
  "put_option put None w = w_u8 0 w"
| "put_option put (Some v) w = (let w = w_u8 1 w in put v w)"

definition get_option ::
  "(reader \<Rightarrow> decode_error + ('a \<times> reader)) \<Rightarrow> reader \<Rightarrow> decode_error + ('a option \<times> reader)" where
  "get_option get r = rbind (r_u8 r) (\<lambda>(b, r).
     if b = 0 then Inr (None, r)
     else if b = 1 then rbind (get r) (\<lambda>(v, r). Inr (Some v, r))
     else Inl (InvalidPresenceByte b))"

fun ok_option :: "('a \<Rightarrow> bool) \<Rightarrow> 'a option \<Rightarrow> bool" where
  "ok_option ok None = True"
| "ok_option ok (Some v) = ok v"

locale option_field = base: field_codec

sublocale option_field \<subseteq> opt: field_codec "put_option put" "get_option get" "ok_option ok"
proof
  have fb: "field_bytes (put_option put) v =
      (case v of None \<Rightarrow> [0] | Some x \<Rightarrow> 1 # field_bytes put x)" for v
    by (cases v) (simp_all add: field_bytes_def [of "put_option put"] into_bytes_def
        codec_simps base.put_appends Let_def)
  fix v w pre bs rest r
  show "w_buf (put_option put v w) = w_buf w @ field_bytes (put_option put) v"
    unfolding fb by (cases v) (simp_all add: codec_simps base.put_appends Let_def)
  show "get_option get (rd pre (field_bytes (put_option put) v @ rest)) =
      Inr (v, rd (pre @ field_bytes (put_option put) v) rest)" if "ok_option ok v"
    using that unfolding fb get_option_def
    by (cases v) (simp_all add: codec_simps base.get_put)
  show "ok_option ok v \<and> (\<exists>rest. bs = field_bytes (put_option put) v @ rest \<and>
      r = rd (pre @ field_bytes (put_option put) v) rest)"
    if "get_option get (rd pre bs) = Inr (v, r)"
    using that unfolding fb get_option_def
    by (auto simp: r_u8_Inr result_simps base.get_iff split: if_splits)
qed

section \<open>Identifiers and fixed byte strings\<close>

datatype ident = Id (id_raw: bytes)
datatype bytes32 = Bytes32 (b32_raw: bytes)
datatype mlkem_pub = MlKemPub (mlkem_raw: bytes)
datatype timestamp = Timestamp (ts_raw: u64)

definition MLKEM768_PUB_LEN :: nat where
  "MLKEM768_PUB_LEN = 1184"

definition ok_id :: "ident \<Rightarrow> bool" where "ok_id v \<longleftrightarrow> length (id_raw v) = 16"
definition ok_b32 :: "bytes32 \<Rightarrow> bool" where "ok_b32 v \<longleftrightarrow> length (b32_raw v) = 32"
definition ok_mlkem :: "mlkem_pub \<Rightarrow> bool" where
  "ok_mlkem v \<longleftrightarrow> length (mlkem_raw v) = MLKEM768_PUB_LEN"

definition put_id :: "ident \<Rightarrow> writer \<Rightarrow> writer" where
  "put_id v w = w_fixed (id_raw v) w"

definition get_id :: "reader \<Rightarrow> decode_error + (ident \<times> reader)" where
  "get_id r = rbind (r_fixed 16 r) (\<lambda>(b, r). Inr (Id b, r))"

definition put_b32 :: "bytes32 \<Rightarrow> writer \<Rightarrow> writer" where
  "put_b32 v w = w_fixed (b32_raw v) w"

definition get_b32 :: "reader \<Rightarrow> decode_error + (bytes32 \<times> reader)" where
  "get_b32 r = rbind (r_fixed 32 r) (\<lambda>(b, r). Inr (Bytes32 b, r))"

definition put_mlkem :: "mlkem_pub \<Rightarrow> writer \<Rightarrow> writer" where
  "put_mlkem v w = w_fixed (mlkem_raw v) w"

definition get_mlkem :: "reader \<Rightarrow> decode_error + (mlkem_pub \<times> reader)" where
  "get_mlkem r = rbind (r_fixed MLKEM768_PUB_LEN r) (\<lambda>(b, r). Inr (MlKemPub b, r))"

definition put_timestamp :: "timestamp \<Rightarrow> writer \<Rightarrow> writer" where
  "put_timestamp v w = w_u64 (ts_raw v) w"

definition get_timestamp :: "reader \<Rightarrow> decode_error + (timestamp \<times> reader)" where
  "get_timestamp r = rbind (r_u64 r) (\<lambda>(b, r). Inr (Timestamp b, r))"

lemma field_bytes_fixed:
  "field_bytes put_id v = id_raw v"
  "field_bytes put_b32 x = b32_raw x"
  "field_bytes put_mlkem m = mlkem_raw m"
  "field_bytes put_timestamp t = be_bytes 8 (unat (ts_raw t))"
  by (simp_all add: field_bytes_def into_bytes_def put_id_def put_b32_def put_mlkem_def
      put_timestamp_def codec_simps)

text \<open>One law for every fixed-width newtype over raw bytes.\<close>

lemma fixed_codec:
  assumes put: "\<And>v w. put v w = w_fixed (raw v) w"
    and get: "\<And>r. get r = rbind (r_fixed n r) (\<lambda>(b, r). Inr (mk b, r))"
    and mk: "\<And>v. mk (raw v) = v" "\<And>b. raw (mk b) = b"
  shows "field_codec put get (\<lambda>v. length (raw v) = n)"
proof
  have fb: "field_bytes put v = raw v" for v
    by (simp add: field_bytes_def into_bytes_def put codec_simps)
  fix v w pre bs rest r
  show "w_buf (put v w) = w_buf w @ field_bytes put v" by (simp add: fb put codec_simps)
  show "get (rd pre (field_bytes put v @ rest)) = Inr (v, rd (pre @ field_bytes put v) rest)"
    if "length (raw v) = n"
    using that by (simp add: fb get r_fixed_def codec_simps mk)
  show "length (raw v) = n \<and>
      (\<exists>rest. bs = field_bytes put v @ rest \<and> r = rd (pre @ field_bytes put v) rest)"
    if "get (rd pre bs) = Inr (v, r)"
    using that by (auto simp: fb get r_fixed_def rbind_eq_Inr r_take_Inr mk)
qed

interpretation ident: option_field put_id get_id ok_id
  unfolding option_field_def ok_id_def
  by (rule fixed_codec [where mk = Id]) (simp_all add: put_id_def get_id_def)

interpretation b32: option_field put_b32 get_b32 ok_b32
  unfolding option_field_def ok_b32_def
  by (rule fixed_codec [where mk = Bytes32]) (simp_all add: put_b32_def get_b32_def)

interpretation mlkem: option_field put_mlkem get_mlkem ok_mlkem
  unfolding option_field_def ok_mlkem_def
  by (rule fixed_codec [where mk = MlKemPub]) (simp_all add: put_mlkem_def get_mlkem_def)

interpretation timestamp: field_codec put_timestamp get_timestamp "\<lambda>_. True"
proof
  fix v w pre bs rest r
  show "w_buf (put_timestamp v w) = w_buf w @ field_bytes put_timestamp v"
    by (simp add: field_bytes_fixed put_timestamp_def codec_simps)
  show "get_timestamp (rd pre (field_bytes put_timestamp v @ rest)) =
      Inr (v, rd (pre @ field_bytes put_timestamp v) rest)"
    by (simp add: field_bytes_fixed get_timestamp_def r_u64_def codec_simps be_val_u64)
  show "True \<and> (\<exists>rest. bs = field_bytes put_timestamp v @ rest \<and>
      r = rd (pre @ field_bytes put_timestamp v) rest)"
    if "get_timestamp (rd pre bs) = Inr (v, r)"
    using that by (auto simp: field_bytes_fixed get_timestamp_def r_u64_def rbind_eq_Inr
        r_take_Inr be_bytes_u64)
qed

section \<open>Text\<close>

text \<open>A \<open>String\<close> is its UTF-8 byte sequence. \<open>to_nfc\<close> and \<open>is_nfc\<close> are the
  \<^verbatim>\<open>unicode_normalization\<close> package's.\<close>

datatype utext = Text (text_str: bytes)

definition text_new :: "(bytes \<Rightarrow> bytes) \<Rightarrow> bytes \<Rightarrow> decode_error + utext" where
  "text_new to_nfc s =
     (let n = to_nfc s in
      if length n > MAX_TEXT then Inl (TextTooLong (length n) MAX_TEXT) else Inr (Text n))"

definition put_text :: "utext \<Rightarrow> writer \<Rightarrow> writer" where
  "put_text v w = w_text (text_str v) w"

definition get_text :: "(bytes \<Rightarrow> bool) \<Rightarrow> reader \<Rightarrow> decode_error + (utext \<times> reader)" where
  "get_text is_nfc r = rbind (r_text is_nfc r) (\<lambda>(s, r). Inr (Text s, r))"

definition ok_text :: "(bytes \<Rightarrow> bool) \<Rightarrow> utext \<Rightarrow> bool" where
  "ok_text is_nfc v \<longleftrightarrow>
     utf8_valid (text_str v) \<and> is_nfc (text_str v) \<and> length (text_str v) \<le> MAX_TEXT"

lemma r_var_append:
  assumes "length s < 2 ^ 32"
  shows "r_var (rd pre (be_bytes 4 (length s) @ s @ rest)) =
    Inr (s, rd (pre @ be_bytes 4 (length s) @ s) rest)"
proof -
  have "length s < 256 ^ 4" using assms by simp
  then have "unat (word_of_nat (be_val (be_bytes 4 (length s))) :: u32) = length s"
    using assms by (simp add: be_val_be_bytes unat_of_nat)
  then show ?thesis by (simp add: r_var_def r_u32_def codec_simps)
qed

lemma r_var_Inr:
  assumes "r_var (rd pre bs) = Inr (s, r)"
  shows "length s < 2 ^ 32 \<and> (\<exists>rest. bs = be_bytes 4 (length s) @ s @ rest \<and>
      r = rd (pre @ be_bytes 4 (length s) @ s) rest)"
proof -
  from assms obtain l rest where l: "length l = 4" "bs = l @ rest"
    and rest: "(let len = unat (word_of_nat (be_val l) :: u32) in
      if len > length rest then Inl (LengthOverrun (word_of_nat len) (remaining (rd (pre @ l) rest)))
      else rbind (r_take len (rd (pre @ l) rest)) (\<lambda>(s, r). Inr (s, r))) = Inr (s, r)"
    by (auto simp: r_var_def r_u32_def rbind_eq_Inr r_take_Inr Let_def)
  have v: "be_val l < 2 ^ 32" using be_val_less [of l] l by simp
  then have len: "unat (word_of_nat (be_val l) :: u32) = be_val l" by (simp add: unat_of_nat)
  from rest obtain rest' where "rest = s @ rest'" and "length s = be_val l"
    and "r = rd (pre @ l @ s) rest'"
    by (auto simp: len Let_def rbind_eq_Inr r_take_Inr split: if_splits)
  with l v show ?thesis using be_bytes_be_val [of l] by auto
qed

lemma field_bytes_text:
  "length (text_str v) \<le> MAX_TEXT \<Longrightarrow>
    field_bytes put_text v = be_bytes 4 (length (text_str v)) @ text_str v"
  by (simp add: field_bytes_def into_bytes_def put_text_def codec_simps unat_of_nat MAX_TEXT_def)

interpretation utext: field_codec put_text "get_text is_nfc" "ok_text is_nfc" for is_nfc
proof
  fix v w pre bs rest r
  show "w_buf (put_text v w) = w_buf w @ field_bytes put_text v"
    by (simp add: field_bytes_def into_bytes_def put_text_def codec_simps)
  show "get_text is_nfc (rd pre (field_bytes put_text v @ rest)) =
      Inr (v, rd (pre @ field_bytes put_text v) rest)" if ok: "ok_text is_nfc v"
  proof -
    from ok have len: "length (text_str v) \<le> MAX_TEXT" by (simp add: ok_text_def)
    then have "length (text_str v) < 2 ^ 32" by (simp add: MAX_TEXT_def)
    with ok show ?thesis
      by (simp add: field_bytes_text [OF len] get_text_def r_text_def r_var_append ok_text_def)
  qed
  show "ok_text is_nfc v \<and> (\<exists>rest. bs = field_bytes put_text v @ rest \<and>
      r = rd (pre @ field_bytes put_text v) rest)"
    if "get_text is_nfc (rd pre bs) = Inr (v, r)"
  proof -
    from that have "r_var (rd pre bs) = Inr (text_str v, r)" and ok: "ok_text is_nfc v"
      by (auto simp: get_text_def r_text_def rbind_eq_Inr ok_text_def split: if_splits)
    moreover from ok have "length (text_str v) \<le> MAX_TEXT" by (simp add: ok_text_def)
    ultimately show ?thesis using ok by (auto simp: field_bytes_text dest!: r_var_Inr)
  qed
qed

end
