(* ===== verification/Enum_Types.thy ===== *)
theory Enum_Types
  imports Field_Types
begin

text \<open>
  The enums and the role set of \<^verbatim>\<open>crates/encoding/src/types.rs\<close>, and the two list
  shapes of the format: a counted list in the given order, and a counted list whose
  keys must strictly ascend. An unknown codepoint is an error, never a default.
\<close>

section \<open>Counted lists\<close>

fun write_many :: "('a \<Rightarrow> writer \<Rightarrow> writer) \<Rightarrow> 'a list \<Rightarrow> writer \<Rightarrow> writer" where
  "write_many put [] w = w"
| "write_many put (v # vs) w = write_many put vs (put v w)"

fun read_many :: "(reader \<Rightarrow> decode_error + ('a \<times> reader)) \<Rightarrow> nat \<Rightarrow> 'a list \<Rightarrow> reader
    \<Rightarrow> decode_error + ('a list \<times> reader)" where
  "read_many get 0 acc r = Inr (acc, r)"
| "read_many get (Suc n) acc r = rbind (get r) (\<lambda>(v, r). read_many get n (acc @ [v]) r)"

text \<open>The loop of \<open>RoleSet::get\<close> and of the manifest's streams: each element's key must
  exceed the previous one's.\<close>

fun read_ascending :: "('a \<Rightarrow> byte) \<Rightarrow> decode_error \<Rightarrow> (reader \<Rightarrow> decode_error + ('a \<times> reader))
    \<Rightarrow> nat \<Rightarrow> byte option \<Rightarrow> 'a list \<Rightarrow> reader \<Rightarrow> decode_error + ('a list \<times> reader)" where
  "read_ascending key e get 0 prev acc r = Inr (acc, r)"
| "read_ascending key e get (Suc n) prev acc r =
     rbind (get r) (\<lambda>(v, r).
       if (case prev of Some p \<Rightarrow> key v \<le> p | None \<Rightarrow> False) then Inl e
       else read_ascending key e get n (Some (key v)) (acc @ [v]) r)"

text \<open>\<open>Vec::dedup_by_key\<close> drops an element whose key equals that of the one kept before it.\<close>

fun dedup_by_key :: "('a \<Rightarrow> 'k) \<Rightarrow> 'a list \<Rightarrow> 'a list" where
  "dedup_by_key key [] = []"
| "dedup_by_key key [x] = [x]"
| "dedup_by_key key (x # y # xs) =
     (if key x = key y then dedup_by_key key (x # xs) else x # dedup_by_key key (y # xs))"

fun ascending :: "('a \<Rightarrow> byte) \<Rightarrow> byte option \<Rightarrow> 'a list \<Rightarrow> bool" where
  "ascending key prev [] = True"
| "ascending key prev (v # vs) =
     ((case prev of Some p \<Rightarrow> p < key v | None \<Rightarrow> True) \<and> ascending key (Some (key v)) vs)"

definition strictly_ascending :: "('a \<Rightarrow> byte) \<Rightarrow> 'a list \<Rightarrow> bool" where
  "strictly_ascending key vs \<longleftrightarrow> sorted_wrt (\<lambda>a b. key a < key b) vs"

lemma ascending_Some:
  "ascending key (Some p) vs \<longleftrightarrow> (\<forall>v \<in> set vs. p < key v) \<and> strictly_ascending key vs"
  by (induction vs arbitrary: p) (auto simp: strictly_ascending_def)

lemma ascending_None: "ascending key None vs \<longleftrightarrow> strictly_ascending key vs"
  by (cases vs) (auto simp: ascending_Some strictly_ascending_def)

lemma ascending_dedup: "strictly_ascending key vs \<Longrightarrow> dedup_by_key key vs = vs"
  unfolding strictly_ascending_def
  by (induction key vs rule: dedup_by_key.induct) auto

lemma set_dedup: "set (dedup_by_key key vs) \<subseteq> set vs"
  by (induction key vs rule: dedup_by_key.induct) auto

lemma dedup_ascending:
  assumes "sorted_wrt (\<lambda>a b. key a \<le> key b) vs"
  shows "strictly_ascending key (dedup_by_key key vs)"
  using assms
proof (induction key vs rule: dedup_by_key.induct)
  case (3 key x y xs)
  show ?case
  proof (cases "key x = key y")
    case False
    with "3.prems" have "\<forall>z \<in> set (y # xs). key x < key z" by fastforce
    then have "\<forall>z \<in> set (dedup_by_key key (y # xs)). key x < key z"
      using set_dedup [of key "y # xs"] by blast
    with False 3 show ?thesis by (simp add: strictly_ascending_def)
  qed (use 3 in simp)
qed (simp_all add: strictly_ascending_def)

lemma ascending_sort:
  assumes "strictly_ascending key vs" shows "sort_key key vs = vs"
proof -
  have "sorted_wrt (\<lambda>a b. key a \<le> key b) vs"
    using assms unfolding strictly_ascending_def
    by (rule sorted_wrt_mono_rel [rotated]) (simp add: order_less_imp_le)
  then show ?thesis by (simp add: sort_key_id_if_sorted sorted_map)
qed

lemma ascending_canonical:
  "strictly_ascending key vs \<Longrightarrow> dedup_by_key key (sort_key key vs) = vs"
  by (simp add: ascending_sort ascending_dedup)

lemma strictly_ascending_distinct: "strictly_ascending key vs \<Longrightarrow> distinct (map key vs)"
  unfolding strictly_ascending_def
  by (induction vs) auto

context field_codec
begin

abbreviation list_bytes :: "'a list \<Rightarrow> bytes" where
  "list_bytes vs \<equiv> concat (map (field_bytes put) vs)"

lemma write_many_buf: "w_buf (write_many put vs w) = w_buf w @ list_bytes vs"
  by (induction vs arbitrary: w) (simp_all add: put_appends)

lemma read_many_put:
  "\<forall>v \<in> set vs. ok v \<Longrightarrow> read_many get (length vs) acc (rd pre (list_bytes vs @ rest)) =
     Inr (acc @ vs, rd (pre @ list_bytes vs) rest)"
  by (induction vs arbitrary: acc pre) (simp_all add: get_put)

lemma read_many_exact:
  "read_many get n acc (rd pre bs) = Inr (out, r) \<Longrightarrow>
     \<exists>vs rest. length vs = n \<and> (\<forall>v \<in> set vs. ok v) \<and> out = acc @ vs \<and>
       bs = list_bytes vs @ rest \<and> r = rd (pre @ list_bytes vs) rest"
proof (induction n arbitrary: acc pre bs)
  case (Suc n)
  from Suc.prems obtain v rest where v: "ok v" and bs: "bs = field_bytes put v @ rest"
    and "read_many get n (acc @ [v]) (rd (pre @ field_bytes put v) rest) = Inr (out, r)"
    by (auto simp: rbind_eq_Inr get_iff)
  with Suc.IH obtain vs rest' where "length vs = n" "\<forall>v \<in> set vs. ok v"
    "out = (acc @ [v]) @ vs" "rest = list_bytes vs @ rest'"
    "r = rd ((pre @ field_bytes put v) @ list_bytes vs) rest'"
    by blast
  with v bs show ?case by (intro exI [of _ "v # vs"] exI [of _ rest']) auto
qed auto

lemma read_ascending_put:
  "\<forall>v \<in> set vs. ok v \<Longrightarrow> ascending key prev vs \<Longrightarrow>
     read_ascending key e get (length vs) prev acc (rd pre (list_bytes vs @ rest)) =
       Inr (acc @ vs, rd (pre @ list_bytes vs) rest)"
  by (induction vs arbitrary: acc pre prev) (auto simp: get_put not_less split: option.splits)

lemma read_ascending_exact:
  "read_ascending key e get n prev acc (rd pre bs) = Inr (out, r) \<Longrightarrow>
     \<exists>vs rest. length vs = n \<and> (\<forall>v \<in> set vs. ok v) \<and> ascending key prev vs \<and> out = acc @ vs \<and>
       bs = list_bytes vs @ rest \<and> r = rd (pre @ list_bytes vs) rest"
proof (induction n arbitrary: acc pre bs prev)
  case (Suc n)
  from Suc.prems obtain v rest where v: "ok v" and bs: "bs = field_bytes put v @ rest"
    and prev: "\<forall>p. prev = Some p \<longrightarrow> p < key v"
    and "read_ascending key e get n (Some (key v)) (acc @ [v])
      (rd (pre @ field_bytes put v) rest) = Inr (out, r)"
    by (auto simp: rbind_eq_Inr get_iff not_le split: if_splits option.splits)
  with Suc.IH obtain vs rest' where "length vs = n" "\<forall>v \<in> set vs. ok v"
    "ascending key (Some (key v)) vs"
    "out = (acc @ [v]) @ vs" "rest = list_bytes vs @ rest'"
    "r = rd ((pre @ field_bytes put v) @ list_bytes vs) rest'"
    by blast
  with v bs prev show ?case
    by (intro exI [of _ "v # vs"] exI [of _ rest']) (auto split: option.splits)
qed auto

end

section \<open>One-byte enums\<close>

lemma enum8_codec:
  assumes put: "\<And>v w. put v w = w_u8 (cp v) w"
    and get: "\<And>r. get r = rbind (r_u8 r) (\<lambda>(b, r). sel b r)"
    and sel: "\<And>b r v r'. sel b r = Inr (v, r') \<longleftrightarrow> b = cp v \<and> r' = r"
  shows "field_codec put get (\<lambda>_. True)"
proof
  have fb: "field_bytes put v = [cp v]" for v
    by (simp add: field_bytes_def into_bytes_def put codec_simps)
  fix v w pre bs rest r
  show "w_buf (put v w) = w_buf w @ field_bytes put v" by (simp add: fb put codec_simps)
  have "sel (cp v) r = Inr (v, r)" for r using sel by blast
  then show "get (rd pre (field_bytes put v @ rest)) = Inr (v, rd (pre @ field_bytes put v) rest)"
    by (simp add: fb get codec_simps)
  show "True \<and> (\<exists>rest. bs = field_bytes put v @ rest \<and> r = rd (pre @ field_bytes put v) rest)"
    if "get (rd pre bs) = Inr (v, r)"
    using that by (auto simp: fb get rbind_eq_Inr r_u8_Inr sel)
qed

datatype role = RoleUser | RoleAdmin

fun role_cp :: "role \<Rightarrow> byte" where
  "role_cp RoleUser = 0x01"
| "role_cp RoleAdmin = 0x02"

text \<open>\<open>#[derive(PartialOrd, Ord)]\<close>: the order of declaration.\<close>

instantiation role :: linorder
begin

definition less_eq_role :: "role \<Rightarrow> role \<Rightarrow> bool" where
  "less_eq_role a b \<longleftrightarrow> role_cp a \<le> role_cp b"

definition less_role :: "role \<Rightarrow> role \<Rightarrow> bool" where
  "less_role a b \<longleftrightarrow> role_cp a < role_cp b"

instance
proof
  fix x y z :: role
  show "(x < y) = (x \<le> y \<and> \<not> y \<le> x)" by (auto simp: less_eq_role_def less_role_def)
  show "x \<le> x" by (simp add: less_eq_role_def)
  show "x \<le> y \<Longrightarrow> y \<le> z \<Longrightarrow> x \<le> z" by (simp add: less_eq_role_def)
  show "x \<le> y \<Longrightarrow> y \<le> x \<Longrightarrow> x = y" by (cases x; cases y) (simp_all add: less_eq_role_def word_le_nat_alt)
  show "x \<le> y \<or> y \<le> x" by (auto simp: less_eq_role_def)
qed

end

definition put_role :: "role \<Rightarrow> writer \<Rightarrow> writer" where
  "put_role v w = w_u8 (role_cp v) w"

definition get_role :: "reader \<Rightarrow> decode_error + (role \<times> reader)" where
  "get_role r = rbind (r_u8 r) (\<lambda>(b, r).
     if b = 0x01 then Inr (RoleUser, r)
     else if b = 0x02 then Inr (RoleAdmin, r)
     else Inl (UnknownEnum ''Role'' (ucast b)))"

interpretation role: option_field put_role get_role "\<lambda>_. True"
  unfolding option_field_def
proof (rule enum8_codec [OF put_role_def get_role_def])
  fix b r v r'
  show "(if b = 0x01 then Inr (RoleUser, r) else if b = 0x02 then Inr (RoleAdmin, r)
     else Inl (UnknownEnum ''Role'' (ucast b))) = Inr (v, r') \<longleftrightarrow> b = role_cp v \<and> r' = r"
    by (cases v) auto
qed

datatype recipient_type = RtUser | RtRecovery

fun recipient_type_cp :: "recipient_type \<Rightarrow> byte" where
  "recipient_type_cp RtUser = 0x01"
| "recipient_type_cp RtRecovery = 0x02"

definition put_recipient_type :: "recipient_type \<Rightarrow> writer \<Rightarrow> writer" where
  "put_recipient_type v w = w_u8 (recipient_type_cp v) w"

definition get_recipient_type :: "reader \<Rightarrow> decode_error + (recipient_type \<times> reader)" where
  "get_recipient_type r = rbind (r_u8 r) (\<lambda>(b, r).
     if b = 0x01 then Inr (RtUser, r)
     else if b = 0x02 then Inr (RtRecovery, r)
     else Inl (UnknownEnum ''RecipientType'' (ucast b)))"

interpretation recipient_type: field_codec put_recipient_type get_recipient_type "\<lambda>_. True"
proof (rule enum8_codec [OF put_recipient_type_def get_recipient_type_def])
  fix b r v r'
  show "(if b = 0x01 then Inr (RtUser, r) else if b = 0x02 then Inr (RtRecovery, r)
     else Inl (UnknownEnum ''RecipientType'' (ucast b))) = Inr (v, r') \<longleftrightarrow>
      b = recipient_type_cp v \<and> r' = r"
    by (cases v) auto
qed

datatype stream_type = StContent | StMetadata | StThumbnail | StPreview

fun stream_type_cp :: "stream_type \<Rightarrow> byte" where
  "stream_type_cp StContent = 0x01"
| "stream_type_cp StMetadata = 0x02"
| "stream_type_cp StThumbnail = 0x03"
| "stream_type_cp StPreview = 0x04"

definition put_stream_type :: "stream_type \<Rightarrow> writer \<Rightarrow> writer" where
  "put_stream_type v w = w_u8 (stream_type_cp v) w"

definition get_stream_type :: "reader \<Rightarrow> decode_error + (stream_type \<times> reader)" where
  "get_stream_type r = rbind (r_u8 r) (\<lambda>(b, r).
     if b = 0x01 then Inr (StContent, r)
     else if b = 0x02 then Inr (StMetadata, r)
     else if b = 0x03 then Inr (StThumbnail, r)
     else if b = 0x04 then Inr (StPreview, r)
     else Inl (UnknownEnum ''StreamType'' (ucast b)))"

interpretation stream_type: field_codec put_stream_type get_stream_type "\<lambda>_. True"
proof (rule enum8_codec [OF put_stream_type_def get_stream_type_def])
  fix b r v r'
  show "(if b = 0x01 then Inr (StContent, r) else if b = 0x02 then Inr (StMetadata, r)
     else if b = 0x03 then Inr (StThumbnail, r) else if b = 0x04 then Inr (StPreview, r)
     else Inl (UnknownEnum ''StreamType'' (ucast b))) = Inr (v, r') \<longleftrightarrow>
      b = stream_type_cp v \<and> r' = r"
    by (cases v) auto
qed

datatype compression = CompNone | CompZstd

fun compression_cp :: "compression \<Rightarrow> byte" where
  "compression_cp CompNone = 0x00"
| "compression_cp CompZstd = 0x01"

definition put_compression :: "compression \<Rightarrow> writer \<Rightarrow> writer" where
  "put_compression v w = w_u8 (compression_cp v) w"

definition get_compression :: "reader \<Rightarrow> decode_error + (compression \<times> reader)" where
  "get_compression r = rbind (r_u8 r) (\<lambda>(b, r).
     if b = 0x00 then Inr (CompNone, r)
     else if b = 0x01 then Inr (CompZstd, r)
     else Inl (UnknownEnum ''Compression'' (ucast b)))"

interpretation compression: field_codec put_compression get_compression "\<lambda>_. True"
proof (rule enum8_codec [OF put_compression_def get_compression_def])
  fix b r v r'
  show "(if b = 0x00 then Inr (CompNone, r) else if b = 0x01 then Inr (CompZstd, r)
     else Inl (UnknownEnum ''Compression'' (ucast b))) = Inr (v, r') \<longleftrightarrow>
      b = compression_cp v \<and> r' = r"
    by (cases v) auto
qed

datatype file_type = FtVideo | FtImage | FtBlog | FtGeneric | FtBundle

fun file_type_cp :: "file_type \<Rightarrow> byte" where
  "file_type_cp FtVideo = 0x01"
| "file_type_cp FtImage = 0x02"
| "file_type_cp FtBlog = 0x03"
| "file_type_cp FtGeneric = 0x04"
| "file_type_cp FtBundle = 0x05"

definition put_file_type :: "file_type \<Rightarrow> writer \<Rightarrow> writer" where
  "put_file_type v w = w_u8 (file_type_cp v) w"

definition get_file_type :: "reader \<Rightarrow> decode_error + (file_type \<times> reader)" where
  "get_file_type r = rbind (r_u8 r) (\<lambda>(b, r).
     if b = 0x01 then Inr (FtVideo, r)
     else if b = 0x02 then Inr (FtImage, r)
     else if b = 0x03 then Inr (FtBlog, r)
     else if b = 0x04 then Inr (FtGeneric, r)
     else if b = 0x05 then Inr (FtBundle, r)
     else Inl (UnknownEnum ''FileType'' (ucast b)))"

interpretation file_type: field_codec put_file_type get_file_type "\<lambda>_. True"
proof (rule enum8_codec [OF put_file_type_def get_file_type_def])
  fix b r v r'
  show "(if b = 0x01 then Inr (FtVideo, r) else if b = 0x02 then Inr (FtImage, r)
     else if b = 0x03 then Inr (FtBlog, r) else if b = 0x04 then Inr (FtGeneric, r)
     else if b = 0x05 then Inr (FtBundle, r)
     else Inl (UnknownEnum ''FileType'' (ucast b))) = Inr (v, r') \<longleftrightarrow>
      b = file_type_cp v \<and> r' = r"
    by (cases v) auto
qed

section \<open>Suite and file scope\<close>

datatype suite = SuiteV1 | SuiteV2

fun suite_cp :: "suite \<Rightarrow> u16" where
  "suite_cp SuiteV1 = 0x0001"
| "suite_cp SuiteV2 = 0x0002"

definition put_suite :: "suite \<Rightarrow> writer \<Rightarrow> writer" where
  "put_suite v w = w_u16 (suite_cp v) w"

definition get_suite :: "reader \<Rightarrow> decode_error + (suite \<times> reader)" where
  "get_suite r = rbind (r_u16 r) (\<lambda>(c, r).
     if c = 0x0001 then Inr (SuiteV1, r)
     else if c = 0x0002 then Inr (SuiteV2, r)
     else Inl (UnknownEnum ''Suite'' (ucast c)))"

lemma field_bytes_u16: "field_bytes put_u16 c = be_bytes 2 (unat c)"
  by (simp add: field_bytes_def into_bytes_def put_u16_def codec_simps)

interpretation suite: field_codec put_suite get_suite "\<lambda>_. True"
proof
  have fb: "field_bytes put_suite v = field_bytes put_u16 (suite_cp v)" for v
    by (simp add: field_bytes_def into_bytes_def put_suite_def put_u16_def)
  have get: "get_suite r = rbind (get_u16 r) (\<lambda>(c, r).
     if c = 0x0001 then Inr (SuiteV1, r) else if c = 0x0002 then Inr (SuiteV2, r)
     else Inl (UnknownEnum ''Suite'' (ucast c)))" for r
    by (simp add: get_suite_def get_u16_def)
  fix v w pre bs rest r
  show "w_buf (put_suite v w) = w_buf w @ field_bytes put_suite v"
    by (simp add: fb put_suite_def field_bytes_u16 codec_simps)
  show "get_suite (rd pre (field_bytes put_suite v @ rest)) =
      Inr (v, rd (pre @ field_bytes put_suite v) rest)"
    by (cases v) (simp_all add: fb get u16.get_put)
  show "True \<and> (\<exists>rest. bs = field_bytes put_suite v @ rest \<and>
      r = rd (pre @ field_bytes put_suite v) rest)"
    if "get_suite (rd pre bs) = Inr (v, r)"
    using that unfolding fb get
    by (auto simp: rbind_eq_Inr u16.get_iff split: if_splits)
qed

datatype file_scope = Specific ident | AccountWide

fun put_file_scope :: "file_scope \<Rightarrow> writer \<Rightarrow> writer" where
  "put_file_scope (Specific i) w = (let w = w_u8 0x01 w in put_id i w)"
| "put_file_scope AccountWide w = w_u8 0x02 w"

definition get_file_scope :: "reader \<Rightarrow> decode_error + (file_scope \<times> reader)" where
  "get_file_scope r = rbind (r_u8 r) (\<lambda>(b, r).
     if b = 0x01 then rbind (get_id r) (\<lambda>(i, r). Inr (Specific i, r))
     else if b = 0x02 then Inr (AccountWide, r)
     else Inl (UnknownEnum ''FileScope'' (ucast b)))"

fun ok_file_scope :: "file_scope \<Rightarrow> bool" where
  "ok_file_scope (Specific i) = ok_id i"
| "ok_file_scope AccountWide = True"

interpretation file_scope: field_codec put_file_scope get_file_scope ok_file_scope
proof
  have fb: "field_bytes put_file_scope v =
      (case v of Specific i \<Rightarrow> 0x01 # field_bytes put_id i | AccountWide \<Rightarrow> [0x02])" for v
    by (cases v) (simp_all add: field_bytes_def [of put_file_scope] into_bytes_def codec_simps
        ident.base.put_appends Let_def)
  fix v w pre bs rest r
  show "w_buf (put_file_scope v w) = w_buf w @ field_bytes put_file_scope v"
    unfolding fb by (cases v) (simp_all add: codec_simps ident.base.put_appends Let_def)
  show "get_file_scope (rd pre (field_bytes put_file_scope v @ rest)) =
      Inr (v, rd (pre @ field_bytes put_file_scope v) rest)" if "ok_file_scope v"
    using that unfolding fb get_file_scope_def
    by (cases v) (simp_all add: codec_simps ident.base.get_put)
  show "ok_file_scope v \<and> (\<exists>rest. bs = field_bytes put_file_scope v @ rest \<and>
      r = rd (pre @ field_bytes put_file_scope v) rest)"
    if "get_file_scope (rd pre bs) = Inr (v, r)"
    using that unfolding fb get_file_scope_def
    by (auto simp: r_u8_Inr rbind_eq_Inr ident.base.get_iff split: if_splits)
qed

section \<open>Role sets\<close>

datatype role_set = RoleSet (roles: "role list")

definition role_set_new :: "role list \<Rightarrow> role_set" where
  "role_set_new rs = (let v = sort rs in RoleSet (dedup_by_key (\<lambda>r. r) v))"

definition ROLE_REGISTRY_SIZE :: nat where
  "ROLE_REGISTRY_SIZE = 2"

definition put_role_set :: "role_set \<Rightarrow> writer \<Rightarrow> writer" where
  "put_role_set v w =
     (let w = w_u8 (word_of_nat (length (roles v))) w in write_many put_role (roles v) w)"

definition get_role_set :: "reader \<Rightarrow> decode_error + (role_set \<times> reader)" where
  "get_role_set r = rbind (r_u8 r) (\<lambda>(b, r).
     let count = unat b in
     if count > ROLE_REGISTRY_SIZE then Inl (SetTooLong count ROLE_REGISTRY_SIZE)
     else rbind (read_ascending role_cp SetNotAscending get_role count None [] r) (\<lambda>(rs, r).
       Inr (RoleSet (dedup_by_key (\<lambda>r. r) (sort rs)), r)))"

definition ok_role_set :: "role_set \<Rightarrow> bool" where
  "ok_role_set v \<longleftrightarrow> strictly_ascending role_cp (roles v)"

lemma role_cp_inj [simp]: "role_cp a = role_cp b \<longleftrightarrow> a = b"
  by (cases a; cases b) simp_all

lemma role_sort: "sort rs = sort_key role_cp rs"
proof -
  have "insort_key (\<lambda>x. x) = insort_key role_cp"
  proof (intro ext)
    fix r and rs :: "role list"
    show "insort r rs = insort_key role_cp r rs"
      by (induction rs) (simp_all add: less_eq_role_def)
  qed
  then show ?thesis by (simp only: sort_key_def)
qed

lemma role_dedup: "dedup_by_key (\<lambda>r. r) rs = dedup_by_key role_cp rs"
  by (induction "\<lambda>r::role. r" rs rule: dedup_by_key.induct) simp_all

lemma ascending_roles_length:
  assumes "strictly_ascending role_cp rs" shows "length rs \<le> ROLE_REGISTRY_SIZE"
proof -
  have "distinct rs"
    using strictly_ascending_distinct [OF assms] by (simp add: distinct_map)
  then have "length rs = card (set rs)" by (simp add: distinct_card)
  also have "\<dots> \<le> card {RoleUser, RoleAdmin}"
    by (intro card_mono) (auto intro: role.exhaust)
  finally show ?thesis by (simp add: ROLE_REGISTRY_SIZE_def)
qed

lemma role_set_new_ok: "ok_role_set (role_set_new rs)"
proof -
  have "sorted_wrt (\<lambda>a b. role_cp a \<le> role_cp b) (sort_key role_cp rs)"
    using sorted_sort_key [of role_cp rs] by (simp add: sorted_map)
  then show ?thesis
    by (simp add: role_set_new_def ok_role_set_def role_sort role_dedup dedup_ascending)
qed

interpretation role_set: field_codec put_role_set get_role_set ok_role_set
proof
  have fb: "field_bytes put_role_set v =
      word_of_nat (length (roles v)) # concat (map (field_bytes put_role) (roles v))" for v
    by (simp add: field_bytes_def [of put_role_set] into_bytes_def put_role_set_def codec_simps
        role.base.write_many_buf Let_def)
  fix v w pre bs rest r
  show "w_buf (put_role_set v w) = w_buf w @ field_bytes put_role_set v"
    unfolding fb by (simp add: put_role_set_def codec_simps role.base.write_many_buf Let_def)
  show "get_role_set (rd pre (field_bytes put_role_set v @ rest)) =
      Inr (v, rd (pre @ field_bytes put_role_set v) rest)" if ok: "ok_role_set v"
  proof -
    from ok have asc: "strictly_ascending role_cp (roles v)" by (simp add: ok_role_set_def)
    then have len: "length (roles v) \<le> 2"
      using ascending_roles_length by (simp add: ROLE_REGISTRY_SIZE_def)
    then have "unat (word_of_nat (length (roles v)) :: byte) = length (roles v)"
      by (simp add: unat_of_nat)
    then show ?thesis
      using asc len role.base.read_ascending_put
        [of "roles v" role_cp None SetNotAscending "[]" "pre @ [word_of_nat (length (roles v))]" rest]
      by (simp add: fb get_role_set_def codec_simps ROLE_REGISTRY_SIZE_def ascending_None
          role_sort role_dedup ascending_canonical Let_def)
  qed
  show "ok_role_set v \<and> (\<exists>rest. bs = field_bytes put_role_set v @ rest \<and>
      r = rd (pre @ field_bytes put_role_set v) rest)"
    if "get_role_set (rd pre bs) = Inr (v, r)"
  proof -
    from that obtain b bs' rs where bs: "bs = b # bs'"
      and read: "read_ascending role_cp SetNotAscending get_role (unat b) None []
        (rd (pre @ [b]) bs') = Inr (rs, r)"
      and v: "v = RoleSet (dedup_by_key role_cp (sort_key role_cp rs))"
      by (auto simp: get_role_set_def rbind_eq_Inr r_u8_Inr role_sort role_dedup Let_def
          split: if_splits)
    from role.base.read_ascending_exact [OF read] obtain rest where "length rs = unat b"
      and asc: "strictly_ascending role_cp rs"
      and "bs' = concat (map (field_bytes put_role) rs) @ rest"
      and "r = rd ((pre @ [b]) @ concat (map (field_bytes put_role) rs)) rest"
      by (auto simp: ascending_None)
    moreover have "v = RoleSet rs" using v by (simp add: ascending_canonical [OF asc])
    moreover have "word_of_nat (unat b) = b" by simp
    ultimately show ?thesis unfolding fb ok_role_set_def using bs by (auto simp: asc)
  qed
qed

end
