(* ===== verification/Canonical.thy ===== *)
theory Canonical
  imports Enum_Types
begin

text \<open>
  \<^verbatim>\<open>crates/encoding/src/lib.rs\<close>: the type registry, \<open>encode\<close>, the strict \<open>decode\<close>
  with its re-encode guard, and the framing of what is signed. The trait \<open>Canonical\<close>
  is the locale \<open>canonical_struct\<close>; its lemmas hold for each structure that
  \<^verbatim>\<open>Structs.thy\<close> interprets it on.
\<close>

section \<open>Constants\<close>

definition RECOVERY_ID :: ident where
  "RECOVERY_ID = Id (replicate 16 0)"

definition GENESIS_HEAD :: bytes32 where
  "GENESIS_HEAD = Bytes32 (replicate 32 0)"

definition SUITE_V1 :: u16 where "SUITE_V1 = 0x0001"
definition SUITE_V2 :: u16 where "SUITE_V2 = 0x0002"

section \<open>The registry and the strict decoder\<close>

definition is_registered :: "u16 \<Rightarrow> bool" where
  "is_registered tid \<longleftrightarrow> tid \<in> set [0x0001, 0x0002, 0x0003, 0x0005, 0x0006, 0x0007, 0x0008,
     0x0009, 0x000A, 0x000B, 0x000C, 0x000D, 0x000E, 0x000F]"

definition read_struct :: "u16 \<Rightarrow> (reader \<Rightarrow> decode_error + ('a \<times> reader)) \<Rightarrow> reader
    \<Rightarrow> decode_error + ('a \<times> reader)" where
  "read_struct type_id decode_body r = rbind (r_u16 r) (\<lambda>(tid, r).
     if tid \<noteq> type_id then
       Inl (if is_registered tid then WrongTypeId type_id tid else UnknownTypeId tid)
     else decode_body r)"

definition put_struct :: "u16 \<Rightarrow> ('a \<Rightarrow> writer \<Rightarrow> writer) \<Rightarrow> 'a \<Rightarrow> writer \<Rightarrow> writer" where
  "put_struct type_id encode_body v w = (let w = w_u16 type_id w in encode_body v w)"

definition encode :: "u16 \<Rightarrow> ('a \<Rightarrow> writer \<Rightarrow> writer) \<Rightarrow> 'a \<Rightarrow> bytes" where
  "encode type_id encode_body v =
     (let w = writer_new; w = w_u16 type_id w; w = encode_body v w in into_bytes w)"

definition decode :: "u16 \<Rightarrow> ('a \<Rightarrow> writer \<Rightarrow> writer) \<Rightarrow> (reader \<Rightarrow> decode_error + ('a \<times> reader))
    \<Rightarrow> bytes \<Rightarrow> decode_error + 'a" where
  "decode type_id encode_body decode_body bs =
     rbind (read_struct type_id decode_body (reader_new bs)) (\<lambda>(v, r).
     rbind (finish r) (\<lambda>_.
     if encode type_id encode_body v \<noteq> bs then Inl NonCanonical else Inr v))"

text \<open>The decoder without its last check, to state that the check is redundant.\<close>

definition decode_unguarded :: "u16 \<Rightarrow> (reader \<Rightarrow> decode_error + ('a \<times> reader))
    \<Rightarrow> bytes \<Rightarrow> decode_error + 'a" where
  "decode_unguarded type_id decode_body bs =
     rbind (read_struct type_id decode_body (reader_new bs)) (\<lambda>(v, r).
     rbind (finish r) (\<lambda>_. Inr v))"

lemma r_u16_be_bytes [codec_simps]:
  "r_u16 (rd pre (be_bytes 2 (unat tid) @ rest)) = Inr (tid, rd (pre @ be_bytes 2 (unat tid)) rest)"
  by (simp add: r_u16_def codec_simps be_val_u16)

lemma r_u16_Inr: "r_u16 (rd pre bs) = Inr (tid, r) \<longleftrightarrow>
    (\<exists>rest. bs = be_bytes 2 (unat tid) @ rest \<and> r = rd (pre @ be_bytes 2 (unat tid)) rest)"
  using u16.get_iff [of pre bs tid r] by (simp add: get_u16_def field_bytes_u16)

locale canonical_struct = field_codec put get ok
  for put :: "'a \<Rightarrow> writer \<Rightarrow> writer"
    and get :: "reader \<Rightarrow> decode_error + ('a \<times> reader)"
    and ok :: "'a \<Rightarrow> bool" +
  fixes type_id :: u16

sublocale canonical_struct \<subseteq> tagged: field_codec "put_struct type_id put" "read_struct type_id get" ok
proof
  have fb: "field_bytes (put_struct type_id put) v =
      be_bytes 2 (unat type_id) @ field_bytes put v" for v
    by (simp add: field_bytes_def [of "put_struct type_id put"] into_bytes_def put_struct_def
        put_appends codec_simps Let_def)
  fix v w pre bs rest r
  show "w_buf (put_struct type_id put v w) = w_buf w @ field_bytes (put_struct type_id put) v"
    by (simp add: fb put_struct_def put_appends codec_simps Let_def)
  show "read_struct type_id get (rd pre (field_bytes (put_struct type_id put) v @ rest)) =
      Inr (v, rd (pre @ field_bytes (put_struct type_id put) v) rest)" if "ok v"
    using that by (simp add: fb read_struct_def codec_simps get_put)
  show "ok v \<and> (\<exists>rest. bs = field_bytes (put_struct type_id put) v @ rest \<and>
      r = rd (pre @ field_bytes (put_struct type_id put) v) rest)"
    if "read_struct type_id get (rd pre bs) = Inr (v, r)"
    using that unfolding fb read_struct_def
    by (auto simp: rbind_eq_Inr r_u16_Inr get_iff split: if_splits)
qed

context canonical_struct
begin

lemma encode_eq: "encode type_id put v = be_bytes 2 (unat type_id) @ field_bytes put v"
  by (simp add: encode_def into_bytes_def put_appends codec_simps Let_def)

lemma encode_tagged: "encode type_id put v = field_bytes (put_struct type_id put) v"
  by (simp add: encode_def put_struct_def field_bytes_def Let_def)

lemma decode_encode: "ok v \<Longrightarrow> decode type_id put get (encode type_id put v) = Inr v"
  using tagged.get_put [of v "[]" "[]"]
  by (simp add: decode_def encode_tagged reader_new_rd)

lemma decode_unguarded_iff:
  "decode_unguarded type_id get bs = Inr v \<longleftrightarrow> ok v \<and> bs = encode type_id put v"
proof -
  have "decode_unguarded type_id get bs = Inr v \<longleftrightarrow>
      (\<exists>r. read_struct type_id get (rd [] bs) = Inr (v, r) \<and> finish r = Inr ())"
    by (auto simp: decode_unguarded_def reader_new_rd rbind_eq_Inr)
  also have "\<dots> \<longleftrightarrow> ok v \<and> bs = encode type_id put v"
    by (auto simp: tagged.get_iff encode_tagged split: if_splits)
  finally show ?thesis .
qed

lemma guard_redundant: "decode type_id put get bs = decode_unguarded type_id get bs"
proof (cases "decode_unguarded type_id get bs")
  case (Inl e)
  then show ?thesis
    by (auto simp: decode_def decode_unguarded_def rbind_eq_Inl split: sum.splits prod.splits)
next
  case (Inr v)
  then have "ok v" and "bs = encode type_id put v" by (simp_all add: decode_unguarded_iff)
  then show ?thesis using Inr by (simp add: decode_encode)
qed

lemma decode_iff: "decode type_id put get bs = Inr v \<longleftrightarrow> ok v \<and> bs = encode type_id put v"
  by (simp add: guard_redundant decode_unguarded_iff)

lemma encode_inj: "ok v \<Longrightarrow> ok v' \<Longrightarrow> encode type_id put v = encode type_id put v' \<Longrightarrow> v = v'"
  unfolding encode_tagged by (rule tagged.field_bytes_inj)

lemma decode_trailing:
  "ok v \<Longrightarrow> s \<noteq> [] \<Longrightarrow>
    decode type_id put get (encode type_id put v @ s) = Inl (TrailingBytes (length s))"
  using tagged.get_put [of v "[]" s]
  by (simp add: decode_def encode_tagged reader_new_rd)

lemma decode_foreign:
  "tid \<noteq> type_id \<Longrightarrow> decode type_id put get (be_bytes 2 (unat tid) @ s) =
    Inl (if is_registered tid then WrongTypeId type_id tid else UnknownTypeId tid)"
  by (simp add: decode_def read_struct_def reader_new_rd codec_simps)

end

section \<open>Signing framing\<close>

definition str_bytes :: "string \<Rightarrow> bytes" where
  "str_bytes s = map of_char s"

definition signing_input :: "string \<Rightarrow> bytes \<Rightarrow> bytes" where
  "signing_input label canonical_bytes =
     (let w = writer_new; w = w_var (str_bytes label) w; w = w_fixed canonical_bytes w
      in into_bytes w)"

definition signing_message ::
  "string \<Rightarrow> u16 \<Rightarrow> ('a \<Rightarrow> writer \<Rightarrow> writer) \<Rightarrow> 'a \<Rightarrow> bytes" where
  "signing_message label type_id encode_body v = signing_input label (encode type_id encode_body v)"

definition L_DIRBINDING :: string where "L_DIRBINDING = ''MaxSecu-dirbinding-v1''"
definition L_MANIFEST :: string where "L_MANIFEST = ''MaxSecu-manifest-v1''"
definition L_GRANT :: string where "L_GRANT = ''MaxSecu-grant-v1''"
definition L_GENESIS :: string where "L_GENESIS = ''MaxSecu-genesis-v1''"
definition L_REVOCATION :: string where "L_REVOCATION = ''MaxSecu-revocation-v1''"
definition L_REINSTATEMENT :: string where "L_REINSTATEMENT = ''MaxSecu-reinstatement-v1''"
definition L_KEY_COMPROMISE :: string where "L_KEY_COMPROMISE = ''MaxSecu-key-compromise-v1''"
definition L_AUTH :: string where "L_AUTH = ''MaxSecu-auth-v1''"
definition L_SINK_HEAD :: string where "L_SINK_HEAD = ''MaxSecu-sink-head-v1''"
definition L_SINK_CHECKPOINT :: string where "L_SINK_CHECKPOINT = ''MaxSecu-sink-checkpoint-v1''"
definition L_KT_CHECKPOINT :: string where "L_KT_CHECKPOINT = ''MaxSecu-kt-checkpoint-v1''"
definition L_UPDATE_MANIFEST :: string where "L_UPDATE_MANIFEST = ''MaxSecu-update-v1''"
definition L_DIRECTORY_DELEGATION :: string where
  "L_DIRECTORY_DELEGATION = ''maxsecu/directory-delegation/v1''"

definition labels :: "string list" where
  "labels = [L_DIRBINDING, L_MANIFEST, L_GRANT, L_GENESIS, L_REVOCATION, L_REINSTATEMENT,
     L_KEY_COMPROMISE, L_AUTH, L_SINK_HEAD, L_SINK_CHECKPOINT, L_KT_CHECKPOINT,
     L_UPDATE_MANIFEST, L_DIRECTORY_DELEGATION]"

lemmas label_defs = L_DIRBINDING_def L_MANIFEST_def L_GRANT_def L_GENESIS_def L_REVOCATION_def
  L_REINSTATEMENT_def L_KEY_COMPROMISE_def L_AUTH_def L_SINK_HEAD_def L_SINK_CHECKPOINT_def
  L_KT_CHECKPOINT_def L_UPDATE_MANIFEST_def L_DIRECTORY_DELEGATION_def

text \<open>A head is \<open>chain_seq (8, big-endian) || head (32)\<close>; a checkpoint \<open>tree_size || root\<close>.\<close>

definition sink_head_signing_input :: "u64 \<Rightarrow> bytes \<Rightarrow> bytes" where
  "sink_head_signing_input chain_seq head =
     (let m = be_bytes 8 (unat chain_seq) @ head in signing_input L_SINK_HEAD m)"

definition sink_checkpoint_signing_input :: "u64 \<Rightarrow> bytes \<Rightarrow> bytes" where
  "sink_checkpoint_signing_input tree_size root =
     (let m = be_bytes 8 (unat tree_size) @ root in signing_input L_SINK_CHECKPOINT m)"

definition kt_checkpoint_signing_input :: "u64 \<Rightarrow> bytes \<Rightarrow> bytes" where
  "kt_checkpoint_signing_input tree_size root =
     (let m = be_bytes 8 (unat tree_size) @ root in signing_input L_KT_CHECKPOINT m)"

lemma signing_input_eq:
  "signing_input label c =
    be_bytes 4 (unat (word_of_nat (length label) :: u32)) @ str_bytes label @ c"
  by (simp add: signing_input_def into_bytes_def codec_simps str_bytes_def Let_def)

lemma str_bytes_inj: "str_bytes a = str_bytes b \<longleftrightarrow> a = b"
proof -
  have "inj (of_char :: char \<Rightarrow> byte)"
  proof (rule injI)
    fix c d :: char assume "(of_char c :: byte) = of_char d"
    then have "unat (word_of_nat (of_char c) :: byte) = unat (word_of_nat (of_char d) :: byte)"
      by (simp only: of_nat_of_char)
    then show "c = d" by (simp add: unat_of_nat)
  qed
  then show ?thesis by (simp add: str_bytes_def inj_map_eq_map)
qed

lemma signing_input_inj:
  assumes "length l < 2 ^ 32" and "length l' < 2 ^ 32"
    and "signing_input l c = signing_input l' c'"
  shows "l = l' \<and> c = c'"
proof -
  have len: "be_bytes 4 (length l) = be_bytes 4 (length l')"
    and rest: "str_bytes l @ c = str_bytes l' @ c'"
    using assms by (simp_all add: signing_input_eq unat_of_nat)
  from len have "be_val (be_bytes 4 (length l)) = be_val (be_bytes 4 (length l'))" by simp
  then have "length l = length l'" using assms by (simp add: be_val_be_bytes)
  with rest show ?thesis by (simp add: str_bytes_def str_bytes_inj [unfolded str_bytes_def])
qed

end
