(* ===== verification/Structs.thy ===== *)
theory Structs
  imports Canonical
begin

text \<open>
  \<^verbatim>\<open>crates/encoding/src/structs.rs\<close>: the structures that are signed, hashed or used
  as associated data, each a record with \<open>put_*\<close> (\<open>encode_body\<close>), \<open>get_*\<close>
  (\<open>decode_body\<close>), the type invariant \<open>ok_*\<close> that its Rust types and decoder
  guarantee, and the interpretation of \<open>canonical_struct\<close>.
\<close>

lemmas field_appends = codec_simps u8.put_appends u16.put_appends u32.put_appends u64.put_appends
  bool.put_appends ident.base.put_appends ident.opt.put_appends b32.base.put_appends
  mlkem.opt.put_appends timestamp.put_appends utext.put_appends role.opt.put_appends
  recipient_type.put_appends stream_type.put_appends compression.put_appends file_type.put_appends
  suite.put_appends file_scope.put_appends role_set.put_appends

lemma ok_option_True: "ok_option (\<lambda>_. True) v"
  by (cases v) simp_all

lemmas field_gets = codec_simps u8.get_put u16.get_put u32.get_put u64.get_put
  bool.get_put ident.base.get_put ident.opt.get_put b32.base.get_put
  mlkem.opt.get_put timestamp.get_put utext.get_put role.opt.get_put [OF ok_option_True]
  recipient_type.get_put stream_type.get_put compression.get_put file_type.get_put
  suite.get_put file_scope.get_put role_set.get_put

lemmas field_exacts = rbind_eq_Inr u8.get_iff u16.get_iff u32.get_iff u64.get_iff
  bool.get_iff ident.base.get_iff ident.opt.get_iff b32.base.get_iff
  mlkem.opt.get_iff timestamp.get_iff utext.get_iff role.opt.get_iff
  recipient_type.get_iff stream_type.get_iff compression.get_iff file_type.get_iff
  suite.get_iff file_scope.get_iff role_set.get_iff

section \<open>Type identifiers\<close>

definition TYPE_DIR_BINDING :: u16 where "TYPE_DIR_BINDING = 0x0001"
definition TYPE_MANIFEST :: u16 where "TYPE_MANIFEST = 0x0002"
definition TYPE_GRANT :: u16 where "TYPE_GRANT = 0x0003"
definition TYPE_GENESIS :: u16 where "TYPE_GENESIS = 0x0005"
definition TYPE_REVOCATION :: u16 where "TYPE_REVOCATION = 0x0006"
definition TYPE_REINSTATEMENT :: u16 where "TYPE_REINSTATEMENT = 0x0007"
definition TYPE_KEY_COMPROMISE :: u16 where "TYPE_KEY_COMPROMISE = 0x0008"
definition TYPE_AUTH_PROOF_CONTEXT :: u16 where "TYPE_AUTH_PROOF_CONTEXT = 0x0009"
definition TYPE_WRAP_CONTEXT :: u16 where "TYPE_WRAP_CONTEXT = 0x000A"
definition TYPE_CHUNK_AAD :: u16 where "TYPE_CHUNK_AAD = 0x000B"
definition TYPE_FINGERPRINT_INPUT :: u16 where "TYPE_FINGERPRINT_INPUT = 0x000C"
definition TYPE_STREAM :: u16 where "TYPE_STREAM = 0x000D"
definition TYPE_BUNDLE_BODY :: u16 where "TYPE_BUNDLE_BODY = 0x000E"
definition TYPE_BACKUP_INDEX :: u16 where "TYPE_BACKUP_INDEX = 0x000F"

lemmas type_id_defs = TYPE_DIR_BINDING_def TYPE_MANIFEST_def TYPE_GRANT_def TYPE_GENESIS_def TYPE_REVOCATION_def TYPE_REINSTATEMENT_def
  TYPE_KEY_COMPROMISE_def TYPE_AUTH_PROOF_CONTEXT_def TYPE_WRAP_CONTEXT_def
  TYPE_CHUNK_AAD_def TYPE_FINGERPRINT_INPUT_def TYPE_STREAM_def TYPE_BUNDLE_BODY_def TYPE_BACKUP_INDEX_def

section \<open>Directory binding\<close>

record dir_binding =
  db_username :: utext
  db_user_id :: ident
  db_enc_pub :: bytes32
  db_sig_pub :: bytes32
  db_key_version :: u64
  db_roles :: role_set
  db_not_before :: timestamp
  db_not_after :: timestamp
  db_mlkem_pub :: "mlkem_pub option"

definition put_dir_binding :: "dir_binding \<Rightarrow> writer \<Rightarrow> writer" where
  "put_dir_binding v w =
     (let w = put_text (db_username v) w;
         w = put_id (db_user_id v) w;
         w = put_b32 (db_enc_pub v) w;
         w = put_b32 (db_sig_pub v) w;
         w = put_u64 (db_key_version v) w;
         w = put_role_set (db_roles v) w;
         w = put_timestamp (db_not_before v) w;
         w = put_timestamp (db_not_after v) w;
         w = put_option put_mlkem (db_mlkem_pub v) w
      in w)"

definition get_dir_binding :: "(bytes \<Rightarrow> bool) \<Rightarrow> reader \<Rightarrow> decode_error + (dir_binding \<times> reader)" where
  "get_dir_binding is_nfc r =
     rbind (get_text is_nfc r) (\<lambda>(username', r).
     rbind (get_id r) (\<lambda>(user_id', r).
     rbind (get_b32 r) (\<lambda>(enc_pub', r).
     rbind (get_b32 r) (\<lambda>(sig_pub', r).
     rbind (get_u64 r) (\<lambda>(key_version', r).
     rbind (get_role_set r) (\<lambda>(roles', r).
     rbind (get_timestamp r) (\<lambda>(not_before', r).
     rbind (get_timestamp r) (\<lambda>(not_after', r).
     rbind (get_option get_mlkem r) (\<lambda>(mlkem_pub', r).
     Inr (\<lparr>db_username = username', db_user_id = user_id', db_enc_pub = enc_pub',
       db_sig_pub = sig_pub', db_key_version = key_version', db_roles = roles',
       db_not_before = not_before', db_not_after = not_after', db_mlkem_pub = mlkem_pub'\<rparr>,
       r))))))))))"

definition ok_dir_binding :: "(bytes \<Rightarrow> bool) \<Rightarrow> dir_binding \<Rightarrow> bool" where
  "ok_dir_binding is_nfc v \<longleftrightarrow>
     ok_text is_nfc (db_username v) \<and> ok_id (db_user_id v) \<and>
     ok_b32 (db_enc_pub v) \<and> ok_b32 (db_sig_pub v) \<and> ok_role_set (db_roles v) \<and>
     ok_option ok_mlkem (db_mlkem_pub v)"

lemma dir_binding_bytes: "field_bytes put_dir_binding v =
     field_bytes put_text (db_username v) @ field_bytes put_id (db_user_id v) @
     field_bytes put_b32 (db_enc_pub v) @ field_bytes put_b32 (db_sig_pub v) @
     field_bytes put_u64 (db_key_version v) @ field_bytes put_role_set (db_roles v) @
     field_bytes put_timestamp (db_not_before v) @ field_bytes put_timestamp (db_not_after v) @
     field_bytes (put_option put_mlkem) (db_mlkem_pub v)"
  by (simp add: field_bytes_def [of put_dir_binding] into_bytes_def put_dir_binding_def field_appends Let_def)

interpretation dir_binding: canonical_struct put_dir_binding "get_dir_binding is_nfc" "ok_dir_binding is_nfc" TYPE_DIR_BINDING for is_nfc
  unfolding canonical_struct_def
proof
  fix v w pre bs rest r
  show "w_buf (put_dir_binding v w) = w_buf w @ field_bytes put_dir_binding v"
    by (simp add: dir_binding_bytes put_dir_binding_def field_appends Let_def)
  show "get_dir_binding is_nfc (rd pre (field_bytes put_dir_binding v @ rest)) = Inr (v, rd (pre @ field_bytes put_dir_binding v) rest)"
    if "ok_dir_binding is_nfc v"
    using that by (cases v) (simp add: dir_binding_bytes get_dir_binding_def ok_dir_binding_def field_gets)
  show "ok_dir_binding is_nfc v \<and> (\<exists>rest. bs = field_bytes put_dir_binding v @ rest \<and>
      r = rd (pre @ field_bytes put_dir_binding v) rest)"
    if "get_dir_binding is_nfc (rd pre bs) = Inr (v, r)"
    using that by (auto simp: dir_binding_bytes get_dir_binding_def ok_dir_binding_def field_exacts)
qed

section \<open>Stream\<close>

record stream =
  sm_stream_type :: stream_type
  sm_compression :: compression
  sm_chunk_count :: u64
  sm_digest :: bytes32

definition put_stream :: "stream \<Rightarrow> writer \<Rightarrow> writer" where
  "put_stream v w =
     (let w = put_stream_type (sm_stream_type v) w;
         w = put_compression (sm_compression v) w;
         w = put_u64 (sm_chunk_count v) w;
         w = put_b32 (sm_digest v) w
      in w)"

definition get_stream :: "reader \<Rightarrow> decode_error + (stream \<times> reader)" where
  "get_stream r =
     rbind (get_stream_type r) (\<lambda>(stream_type', r).
     rbind (get_compression r) (\<lambda>(compression', r).
     rbind (get_u64 r) (\<lambda>(chunk_count', r).
     rbind (get_b32 r) (\<lambda>(digest', r).
     Inr (\<lparr>sm_stream_type = stream_type', sm_compression = compression',
       sm_chunk_count = chunk_count', sm_digest = digest'\<rparr>, r)))))"

definition ok_stream :: "stream \<Rightarrow> bool" where
  "ok_stream v \<longleftrightarrow>
     ok_b32 (sm_digest v)"

lemma stream_bytes: "field_bytes put_stream v =
     field_bytes put_stream_type (sm_stream_type v) @
     field_bytes put_compression (sm_compression v) @ field_bytes put_u64 (sm_chunk_count v) @
     field_bytes put_b32 (sm_digest v)"
  by (simp add: field_bytes_def [of put_stream] into_bytes_def put_stream_def field_appends Let_def)

interpretation stream: canonical_struct put_stream get_stream ok_stream TYPE_STREAM
  unfolding canonical_struct_def
proof
  fix v w pre bs rest r
  show "w_buf (put_stream v w) = w_buf w @ field_bytes put_stream v"
    by (simp add: stream_bytes put_stream_def field_appends Let_def)
  show "get_stream (rd pre (field_bytes put_stream v @ rest)) = Inr (v, rd (pre @ field_bytes put_stream v) rest)"
    if "ok_stream v"
    using that by (cases v) (simp add: stream_bytes get_stream_def ok_stream_def field_gets)
  show "ok_stream v \<and> (\<exists>rest. bs = field_bytes put_stream v @ rest \<and>
      r = rd (pre @ field_bytes put_stream v) rest)"
    if "get_stream (rd pre bs) = Inr (v, r)"
    using that by (auto simp: stream_bytes get_stream_def ok_stream_def field_exacts)
qed

section \<open>Manifest\<close>

record manifest =
  ma_file_id :: ident
  ma_version :: u64
  ma_file_type :: file_type
  ma_alg :: suite
  ma_chunk_size :: u32
  ma_dek_commit :: bytes32
  ma_streams :: "stream list"
  ma_recovery_present :: bool
  ma_author_id :: ident
  ma_created_at :: timestamp

definition stream_key :: "stream \<Rightarrow> byte" where
  "stream_key s = stream_type_cp (sm_stream_type s)"

definition put_manifest :: "manifest \<Rightarrow> writer \<Rightarrow> writer" where
  "put_manifest v w =
     (let w = put_id (ma_file_id v) w;
         w = put_u64 (ma_version v) w;
         w = put_file_type (ma_file_type v) w;
         w = put_suite (ma_alg v) w;
         w = put_u32 (ma_chunk_size v) w;
         w = put_b32 (ma_dek_commit v) w;
         w = w_u8 (word_of_nat (length (ma_streams v))) w;
         w = write_many (put_struct TYPE_STREAM put_stream) (ma_streams v) w;
         w = put_bool (ma_recovery_present v) w;
         w = put_id (ma_author_id v) w;
         w = put_timestamp (ma_created_at v) w
      in w)"

definition get_manifest :: "reader \<Rightarrow> decode_error + (manifest \<times> reader)" where
  "get_manifest r =
     rbind (get_id r) (\<lambda>(file_id', r).
     rbind (get_u64 r) (\<lambda>(version', r).
     rbind (get_file_type r) (\<lambda>(file_type', r).
     rbind (get_suite r) (\<lambda>(alg', r).
     rbind (get_u32 r) (\<lambda>(chunk_size', r).
     rbind (get_b32 r) (\<lambda>(dek_commit', r).
     rbind (r_u8 r) (\<lambda>(count, r).
     rbind (read_ascending stream_key StreamsNotAscending (read_struct TYPE_STREAM get_stream)
         (unat count) None [] r) (\<lambda>(streams, r).
     let streams' = dedup_by_key stream_key (sort_key stream_key streams) in
     rbind (get_bool r) (\<lambda>(recovery_present', r).
     rbind (get_id r) (\<lambda>(author_id', r).
     rbind (get_timestamp r) (\<lambda>(created_at', r).
     Inr (\<lparr>ma_file_id = file_id', ma_version = version', ma_file_type = file_type',
       ma_alg = alg', ma_chunk_size = chunk_size', ma_dek_commit = dek_commit',
       ma_streams = streams', ma_recovery_present = recovery_present',
       ma_author_id = author_id', ma_created_at = created_at'\<rparr>, r))))))))))))"

definition ok_manifest :: "manifest \<Rightarrow> bool" where
  "ok_manifest v \<longleftrightarrow>
     ok_id (ma_file_id v) \<and> ok_b32 (ma_dek_commit v) \<and> ok_id (ma_author_id v) \<and>
     (\<forall>s \<in> set (ma_streams v). ok_stream s) \<and> strictly_ascending stream_key (ma_streams v)"

lemma manifest_bytes: "field_bytes put_manifest v =
     field_bytes put_id (ma_file_id v) @ field_bytes put_u64 (ma_version v) @
     field_bytes put_file_type (ma_file_type v) @ field_bytes put_suite (ma_alg v) @
     field_bytes put_u32 (ma_chunk_size v) @ field_bytes put_b32 (ma_dek_commit v) @
     word_of_nat (length (ma_streams v)) #
     concat (map (field_bytes (put_struct TYPE_STREAM put_stream)) (ma_streams v)) @
     field_bytes put_bool (ma_recovery_present v) @ field_bytes put_id (ma_author_id v) @
     field_bytes put_timestamp (ma_created_at v)"
  by (simp add: field_bytes_def [of put_manifest] into_bytes_def put_manifest_def field_appends
      stream.tagged.write_many_buf Let_def)

text \<open>At most one stream per type, so the one-byte count cannot overflow.\<close>

lemma stream_key_range: "stream_key s \<in> {1, 2, 3, 4}"
  unfolding stream_key_def by (cases "sm_stream_type s") simp_all

lemma streams_count:
  assumes "strictly_ascending stream_key ss"
  shows "length ss \<le> 4" and "unat (word_of_nat (length ss) :: byte) = length ss"
proof -
  have "length ss = card (set (map stream_key ss))"
    using distinct_card [OF strictly_ascending_distinct [OF assms]] by simp
  also have "\<dots> \<le> card {1, 2, 3, 4 :: byte}"
    using stream_key_range by (intro card_mono) auto
  also have "\<dots> \<le> 4" by (simp add: card_insert_if)
  finally show "length ss \<le> 4" .
  then show "unat (word_of_nat (length ss) :: byte) = length ss" by (simp add: unat_of_nat)
qed

interpretation manifest: canonical_struct put_manifest get_manifest ok_manifest TYPE_MANIFEST
  unfolding canonical_struct_def
proof
  fix v w pre bs rest r
  show "w_buf (put_manifest v w) = w_buf w @ field_bytes put_manifest v"
    by (simp add: manifest_bytes put_manifest_def field_appends stream.tagged.write_many_buf
        Let_def)
  show "get_manifest (rd pre (field_bytes put_manifest v @ rest)) =
      Inr (v, rd (pre @ field_bytes put_manifest v) rest)" if ok: "ok_manifest v"
  proof -
    from ok have asc: "strictly_ascending stream_key (ma_streams v)"
      and streams: "\<forall>s \<in> set (ma_streams v). ok_stream s"
      by (simp_all add: ok_manifest_def)
    from asc have streams_asc: "ascending stream_key None (ma_streams v)"
      by (simp add: ascending_None)
    note streams_read = stream.tagged.read_ascending_put [OF streams streams_asc]
    from ok have "ok_id (ma_file_id v)" "ok_b32 (ma_dek_commit v)" "ok_id (ma_author_id v)"
      by (simp_all add: ok_manifest_def)
    then show ?thesis
      by (simp add: manifest_bytes get_manifest_def field_gets r_u8_Cons streams_count (2) [OF asc]
          streams_read ascending_canonical [OF asc] Let_def)
  qed
  show "ok_manifest v \<and> (\<exists>rest. bs = field_bytes put_manifest v @ rest \<and>
      r = rd (pre @ field_bytes put_manifest v) rest)"
    if "get_manifest (rd pre bs) = Inr (v, r)"
    using that
    by (auto simp: manifest_bytes get_manifest_def ok_manifest_def field_exacts r_u8_Inr
        ascending_None ascending_canonical Let_def
        dest!: stream.tagged.read_ascending_exact)
qed

section \<open>Grant\<close>

record grant =
  gr_file_id :: ident
  gr_file_version :: u64
  gr_recipient_id :: ident
  gr_recipient_type :: recipient_type
  gr_dek_commit :: bytes32
  gr_granted_by :: ident
  gr_created_at :: timestamp

definition put_grant :: "grant \<Rightarrow> writer \<Rightarrow> writer" where
  "put_grant v w =
     (let w = put_id (gr_file_id v) w;
         w = put_u64 (gr_file_version v) w;
         w = put_id (gr_recipient_id v) w;
         w = put_recipient_type (gr_recipient_type v) w;
         w = put_b32 (gr_dek_commit v) w;
         w = put_id (gr_granted_by v) w;
         w = put_timestamp (gr_created_at v) w
      in w)"

text \<open>A recovery recipient must carry the recovery id; this is checked before the rest is read.\<close>

definition get_grant :: "reader \<Rightarrow> decode_error + (grant \<times> reader)" where
  "get_grant r =
     rbind (get_id r) (\<lambda>(file_id', r).
     rbind (get_u64 r) (\<lambda>(file_version', r).
     rbind (get_id r) (\<lambda>(recipient_id', r).
     rbind (get_recipient_type r) (\<lambda>(recipient_type', r).
     if recipient_type' = RtRecovery \<and> recipient_id' \<noteq> RECOVERY_ID then Inl RecoveryIdMismatch else
     rbind (get_b32 r) (\<lambda>(dek_commit', r).
     rbind (get_id r) (\<lambda>(granted_by', r).
     rbind (get_timestamp r) (\<lambda>(created_at', r).
     Inr (\<lparr>gr_file_id = file_id', gr_file_version = file_version',
       gr_recipient_id = recipient_id', gr_recipient_type = recipient_type',
       gr_dek_commit = dek_commit', gr_granted_by = granted_by',
       gr_created_at = created_at'\<rparr>, r))))))))"

definition ok_grant :: "grant \<Rightarrow> bool" where
  "ok_grant v \<longleftrightarrow>
     ok_id (gr_file_id v) \<and> ok_id (gr_recipient_id v) \<and>
     ok_b32 (gr_dek_commit v) \<and> ok_id (gr_granted_by v) \<and>
     (gr_recipient_type v = RtRecovery \<longrightarrow> gr_recipient_id v = RECOVERY_ID)"

lemma grant_bytes: "field_bytes put_grant v =
     field_bytes put_id (gr_file_id v) @ field_bytes put_u64 (gr_file_version v) @
     field_bytes put_id (gr_recipient_id v) @
     field_bytes put_recipient_type (gr_recipient_type v) @
     field_bytes put_b32 (gr_dek_commit v) @ field_bytes put_id (gr_granted_by v) @
     field_bytes put_timestamp (gr_created_at v)"
  by (simp add: field_bytes_def [of put_grant] into_bytes_def put_grant_def field_appends Let_def)

interpretation grant: canonical_struct put_grant get_grant ok_grant TYPE_GRANT
  unfolding canonical_struct_def
proof
  fix v w pre bs rest r
  show "w_buf (put_grant v w) = w_buf w @ field_bytes put_grant v"
    by (simp add: grant_bytes put_grant_def field_appends Let_def)
  show "get_grant (rd pre (field_bytes put_grant v @ rest)) = Inr (v, rd (pre @ field_bytes put_grant v) rest)"
    if "ok_grant v"
    using that by (cases v) (simp add: grant_bytes get_grant_def ok_grant_def field_gets)
  show "ok_grant v \<and> (\<exists>rest. bs = field_bytes put_grant v @ rest \<and>
      r = rd (pre @ field_bytes put_grant v) rest)"
    if "get_grant (rd pre bs) = Inr (v, r)"
    using that by (auto simp: grant_bytes get_grant_def ok_grant_def field_exacts split: if_splits)
qed

section \<open>Genesis\<close>

record genesis =
  ge_file_id :: ident
  ge_owner_id :: ident
  ge_owner_key_version :: u64
  ge_created_at :: timestamp

definition put_genesis :: "genesis \<Rightarrow> writer \<Rightarrow> writer" where
  "put_genesis v w =
     (let w = put_id (ge_file_id v) w;
         w = put_id (ge_owner_id v) w;
         w = put_u64 (ge_owner_key_version v) w;
         w = put_timestamp (ge_created_at v) w
      in w)"

definition get_genesis :: "reader \<Rightarrow> decode_error + (genesis \<times> reader)" where
  "get_genesis r =
     rbind (get_id r) (\<lambda>(file_id', r).
     rbind (get_id r) (\<lambda>(owner_id', r).
     rbind (get_u64 r) (\<lambda>(owner_key_version', r).
     rbind (get_timestamp r) (\<lambda>(created_at', r).
     Inr (\<lparr>ge_file_id = file_id', ge_owner_id = owner_id',
       ge_owner_key_version = owner_key_version', ge_created_at = created_at'\<rparr>, r)))))"

definition ok_genesis :: "genesis \<Rightarrow> bool" where
  "ok_genesis v \<longleftrightarrow>
     ok_id (ge_file_id v) \<and> ok_id (ge_owner_id v)"

lemma genesis_bytes: "field_bytes put_genesis v =
     field_bytes put_id (ge_file_id v) @ field_bytes put_id (ge_owner_id v) @
     field_bytes put_u64 (ge_owner_key_version v) @ field_bytes put_timestamp (ge_created_at v)"
  by (simp add: field_bytes_def [of put_genesis] into_bytes_def put_genesis_def field_appends Let_def)

interpretation genesis: canonical_struct put_genesis get_genesis ok_genesis TYPE_GENESIS
  unfolding canonical_struct_def
proof
  fix v w pre bs rest r
  show "w_buf (put_genesis v w) = w_buf w @ field_bytes put_genesis v"
    by (simp add: genesis_bytes put_genesis_def field_appends Let_def)
  show "get_genesis (rd pre (field_bytes put_genesis v @ rest)) = Inr (v, rd (pre @ field_bytes put_genesis v) rest)"
    if "ok_genesis v"
    using that by (cases v) (simp add: genesis_bytes get_genesis_def ok_genesis_def field_gets)
  show "ok_genesis v \<and> (\<exists>rest. bs = field_bytes put_genesis v @ rest \<and>
      r = rd (pre @ field_bytes put_genesis v) rest)"
    if "get_genesis (rd pre bs) = Inr (v, r)"
    using that by (auto simp: genesis_bytes get_genesis_def ok_genesis_def field_exacts)
qed

section \<open>Control-log records\<close>

record revocation =
  rv_scope :: file_scope
  rv_revoked_user_id :: ident
  rv_revoked_capability :: "role option"
  rv_from_version :: u64
  rv_revocation_epoch :: u64
  rv_prev_head :: bytes32
  rv_issued_by :: ident
  rv_co_signed_by :: "ident option"
  rv_created_at :: timestamp

definition put_revocation :: "revocation \<Rightarrow> writer \<Rightarrow> writer" where
  "put_revocation v w =
     (let w = put_file_scope (rv_scope v) w;
         w = put_id (rv_revoked_user_id v) w;
         w = put_option put_role (rv_revoked_capability v) w;
         w = put_u64 (rv_from_version v) w;
         w = put_u64 (rv_revocation_epoch v) w;
         w = put_b32 (rv_prev_head v) w;
         w = put_id (rv_issued_by v) w;
         w = put_option put_id (rv_co_signed_by v) w;
         w = put_timestamp (rv_created_at v) w
      in w)"

definition get_revocation :: "reader \<Rightarrow> decode_error + (revocation \<times> reader)" where
  "get_revocation r =
     rbind (get_file_scope r) (\<lambda>(scope', r).
     rbind (get_id r) (\<lambda>(revoked_user_id', r).
     rbind (get_option get_role r) (\<lambda>(revoked_capability', r).
     rbind (get_u64 r) (\<lambda>(from_version', r).
     rbind (get_u64 r) (\<lambda>(revocation_epoch', r).
     rbind (get_b32 r) (\<lambda>(prev_head', r).
     rbind (get_id r) (\<lambda>(issued_by', r).
     rbind (get_option get_id r) (\<lambda>(co_signed_by', r).
     rbind (get_timestamp r) (\<lambda>(created_at', r).
     Inr (\<lparr>rv_scope = scope', rv_revoked_user_id = revoked_user_id',
       rv_revoked_capability = revoked_capability', rv_from_version = from_version',
       rv_revocation_epoch = revocation_epoch', rv_prev_head = prev_head',
       rv_issued_by = issued_by', rv_co_signed_by = co_signed_by',
       rv_created_at = created_at'\<rparr>, r))))))))))"

definition ok_revocation :: "revocation \<Rightarrow> bool" where
  "ok_revocation v \<longleftrightarrow>
     ok_file_scope (rv_scope v) \<and> ok_id (rv_revoked_user_id v) \<and>
     ok_b32 (rv_prev_head v) \<and> ok_id (rv_issued_by v) \<and>
     ok_option ok_id (rv_co_signed_by v)"

lemma revocation_bytes: "field_bytes put_revocation v =
     field_bytes put_file_scope (rv_scope v) @ field_bytes put_id (rv_revoked_user_id v) @
     field_bytes (put_option put_role) (rv_revoked_capability v) @
     field_bytes put_u64 (rv_from_version v) @ field_bytes put_u64 (rv_revocation_epoch v) @
     field_bytes put_b32 (rv_prev_head v) @ field_bytes put_id (rv_issued_by v) @
     field_bytes (put_option put_id) (rv_co_signed_by v) @
     field_bytes put_timestamp (rv_created_at v)"
  by (simp add: field_bytes_def [of put_revocation] into_bytes_def put_revocation_def field_appends Let_def)

interpretation revocation: canonical_struct put_revocation get_revocation ok_revocation TYPE_REVOCATION
  unfolding canonical_struct_def
proof
  fix v w pre bs rest r
  show "w_buf (put_revocation v w) = w_buf w @ field_bytes put_revocation v"
    by (simp add: revocation_bytes put_revocation_def field_appends Let_def)
  show "get_revocation (rd pre (field_bytes put_revocation v @ rest)) = Inr (v, rd (pre @ field_bytes put_revocation v) rest)"
    if "ok_revocation v"
    using that by (cases v) (simp add: revocation_bytes get_revocation_def ok_revocation_def field_gets)
  show "ok_revocation v \<and> (\<exists>rest. bs = field_bytes put_revocation v @ rest \<and>
      r = rd (pre @ field_bytes put_revocation v) rest)"
    if "get_revocation (rd pre bs) = Inr (v, r)"
    using that by (auto simp: revocation_bytes get_revocation_def ok_revocation_def field_exacts)
qed

record reinstatement =
  ri_scope :: file_scope
  ri_reinstated_user_id :: ident
  ri_supersedes_epoch :: u64
  ri_reinstatement_epoch :: u64
  ri_prev_head :: bytes32
  ri_issued_by :: ident
  ri_co_signed_by :: ident
  ri_created_at :: timestamp

definition put_reinstatement :: "reinstatement \<Rightarrow> writer \<Rightarrow> writer" where
  "put_reinstatement v w =
     (let w = put_file_scope (ri_scope v) w;
         w = put_id (ri_reinstated_user_id v) w;
         w = put_u64 (ri_supersedes_epoch v) w;
         w = put_u64 (ri_reinstatement_epoch v) w;
         w = put_b32 (ri_prev_head v) w;
         w = put_id (ri_issued_by v) w;
         w = put_id (ri_co_signed_by v) w;
         w = put_timestamp (ri_created_at v) w
      in w)"

definition get_reinstatement :: "reader \<Rightarrow> decode_error + (reinstatement \<times> reader)" where
  "get_reinstatement r =
     rbind (get_file_scope r) (\<lambda>(scope', r).
     rbind (get_id r) (\<lambda>(reinstated_user_id', r).
     rbind (get_u64 r) (\<lambda>(supersedes_epoch', r).
     rbind (get_u64 r) (\<lambda>(reinstatement_epoch', r).
     rbind (get_b32 r) (\<lambda>(prev_head', r).
     rbind (get_id r) (\<lambda>(issued_by', r).
     rbind (get_id r) (\<lambda>(co_signed_by', r).
     rbind (get_timestamp r) (\<lambda>(created_at', r).
     Inr (\<lparr>ri_scope = scope', ri_reinstated_user_id = reinstated_user_id',
       ri_supersedes_epoch = supersedes_epoch', ri_reinstatement_epoch = reinstatement_epoch',
       ri_prev_head = prev_head', ri_issued_by = issued_by', ri_co_signed_by = co_signed_by',
       ri_created_at = created_at'\<rparr>, r)))))))))"

definition ok_reinstatement :: "reinstatement \<Rightarrow> bool" where
  "ok_reinstatement v \<longleftrightarrow>
     ok_file_scope (ri_scope v) \<and> ok_id (ri_reinstated_user_id v) \<and>
     ok_b32 (ri_prev_head v) \<and> ok_id (ri_issued_by v) \<and> ok_id (ri_co_signed_by v)"

lemma reinstatement_bytes: "field_bytes put_reinstatement v =
     field_bytes put_file_scope (ri_scope v) @ field_bytes put_id (ri_reinstated_user_id v) @
     field_bytes put_u64 (ri_supersedes_epoch v) @
     field_bytes put_u64 (ri_reinstatement_epoch v) @ field_bytes put_b32 (ri_prev_head v) @
     field_bytes put_id (ri_issued_by v) @ field_bytes put_id (ri_co_signed_by v) @
     field_bytes put_timestamp (ri_created_at v)"
  by (simp add: field_bytes_def [of put_reinstatement] into_bytes_def put_reinstatement_def field_appends Let_def)

interpretation reinstatement: canonical_struct put_reinstatement get_reinstatement ok_reinstatement TYPE_REINSTATEMENT
  unfolding canonical_struct_def
proof
  fix v w pre bs rest r
  show "w_buf (put_reinstatement v w) = w_buf w @ field_bytes put_reinstatement v"
    by (simp add: reinstatement_bytes put_reinstatement_def field_appends Let_def)
  show "get_reinstatement (rd pre (field_bytes put_reinstatement v @ rest)) = Inr (v, rd (pre @ field_bytes put_reinstatement v) rest)"
    if "ok_reinstatement v"
    using that by (cases v) (simp add: reinstatement_bytes get_reinstatement_def ok_reinstatement_def field_gets)
  show "ok_reinstatement v \<and> (\<exists>rest. bs = field_bytes put_reinstatement v @ rest \<and>
      r = rd (pre @ field_bytes put_reinstatement v) rest)"
    if "get_reinstatement (rd pre bs) = Inr (v, r)"
    using that by (auto simp: reinstatement_bytes get_reinstatement_def ok_reinstatement_def field_exacts)
qed

record key_compromise =
  kc_user_id :: ident
  kc_key_version :: u64
  kc_effective_from :: timestamp
  kc_prev_head :: bytes32
  kc_issued_by :: ident
  kc_co_signed_by :: ident
  kc_created_at :: timestamp

definition put_key_compromise :: "key_compromise \<Rightarrow> writer \<Rightarrow> writer" where
  "put_key_compromise v w =
     (let w = put_id (kc_user_id v) w;
         w = put_u64 (kc_key_version v) w;
         w = put_timestamp (kc_effective_from v) w;
         w = put_b32 (kc_prev_head v) w;
         w = put_id (kc_issued_by v) w;
         w = put_id (kc_co_signed_by v) w;
         w = put_timestamp (kc_created_at v) w
      in w)"

definition get_key_compromise :: "reader \<Rightarrow> decode_error + (key_compromise \<times> reader)" where
  "get_key_compromise r =
     rbind (get_id r) (\<lambda>(user_id', r).
     rbind (get_u64 r) (\<lambda>(key_version', r).
     rbind (get_timestamp r) (\<lambda>(effective_from', r).
     rbind (get_b32 r) (\<lambda>(prev_head', r).
     rbind (get_id r) (\<lambda>(issued_by', r).
     rbind (get_id r) (\<lambda>(co_signed_by', r).
     rbind (get_timestamp r) (\<lambda>(created_at', r).
     Inr (\<lparr>kc_user_id = user_id', kc_key_version = key_version',
       kc_effective_from = effective_from', kc_prev_head = prev_head', kc_issued_by = issued_by',
       kc_co_signed_by = co_signed_by', kc_created_at = created_at'\<rparr>, r))))))))"

definition ok_key_compromise :: "key_compromise \<Rightarrow> bool" where
  "ok_key_compromise v \<longleftrightarrow>
     ok_id (kc_user_id v) \<and> ok_b32 (kc_prev_head v) \<and> ok_id (kc_issued_by v) \<and>
     ok_id (kc_co_signed_by v)"

lemma key_compromise_bytes: "field_bytes put_key_compromise v =
     field_bytes put_id (kc_user_id v) @ field_bytes put_u64 (kc_key_version v) @
     field_bytes put_timestamp (kc_effective_from v) @ field_bytes put_b32 (kc_prev_head v) @
     field_bytes put_id (kc_issued_by v) @ field_bytes put_id (kc_co_signed_by v) @
     field_bytes put_timestamp (kc_created_at v)"
  by (simp add: field_bytes_def [of put_key_compromise] into_bytes_def put_key_compromise_def field_appends Let_def)

interpretation key_compromise: canonical_struct put_key_compromise get_key_compromise ok_key_compromise TYPE_KEY_COMPROMISE
  unfolding canonical_struct_def
proof
  fix v w pre bs rest r
  show "w_buf (put_key_compromise v w) = w_buf w @ field_bytes put_key_compromise v"
    by (simp add: key_compromise_bytes put_key_compromise_def field_appends Let_def)
  show "get_key_compromise (rd pre (field_bytes put_key_compromise v @ rest)) = Inr (v, rd (pre @ field_bytes put_key_compromise v) rest)"
    if "ok_key_compromise v"
    using that by (cases v) (simp add: key_compromise_bytes get_key_compromise_def ok_key_compromise_def field_gets)
  show "ok_key_compromise v \<and> (\<exists>rest. bs = field_bytes put_key_compromise v @ rest \<and>
      r = rd (pre @ field_bytes put_key_compromise v) rest)"
    if "get_key_compromise (rd pre bs) = Inr (v, r)"
    using that by (auto simp: key_compromise_bytes get_key_compromise_def ok_key_compromise_def field_exacts)
qed

section \<open>Contexts\<close>

record auth_proof_context =
  ap_server_id :: utext
  ap_tls_exporter :: bytes32
  ap_nonce :: bytes32
  ap_timestamp :: timestamp

definition put_auth_proof_context :: "auth_proof_context \<Rightarrow> writer \<Rightarrow> writer" where
  "put_auth_proof_context v w =
     (let w = put_text (ap_server_id v) w;
         w = put_b32 (ap_tls_exporter v) w;
         w = put_b32 (ap_nonce v) w;
         w = put_timestamp (ap_timestamp v) w
      in w)"

definition get_auth_proof_context :: "(bytes \<Rightarrow> bool) \<Rightarrow> reader \<Rightarrow> decode_error + (auth_proof_context \<times> reader)" where
  "get_auth_proof_context is_nfc r =
     rbind (get_text is_nfc r) (\<lambda>(server_id', r).
     rbind (get_b32 r) (\<lambda>(tls_exporter', r).
     rbind (get_b32 r) (\<lambda>(nonce', r).
     rbind (get_timestamp r) (\<lambda>(timestamp', r).
     Inr (\<lparr>ap_server_id = server_id', ap_tls_exporter = tls_exporter', ap_nonce = nonce',
       ap_timestamp = timestamp'\<rparr>, r)))))"

definition ok_auth_proof_context :: "(bytes \<Rightarrow> bool) \<Rightarrow> auth_proof_context \<Rightarrow> bool" where
  "ok_auth_proof_context is_nfc v \<longleftrightarrow>
     ok_text is_nfc (ap_server_id v) \<and> ok_b32 (ap_tls_exporter v) \<and>
     ok_b32 (ap_nonce v)"

lemma auth_proof_context_bytes: "field_bytes put_auth_proof_context v =
     field_bytes put_text (ap_server_id v) @ field_bytes put_b32 (ap_tls_exporter v) @
     field_bytes put_b32 (ap_nonce v) @ field_bytes put_timestamp (ap_timestamp v)"
  by (simp add: field_bytes_def [of put_auth_proof_context] into_bytes_def put_auth_proof_context_def field_appends Let_def)

interpretation auth_proof_context: canonical_struct put_auth_proof_context "get_auth_proof_context is_nfc" "ok_auth_proof_context is_nfc" TYPE_AUTH_PROOF_CONTEXT for is_nfc
  unfolding canonical_struct_def
proof
  fix v w pre bs rest r
  show "w_buf (put_auth_proof_context v w) = w_buf w @ field_bytes put_auth_proof_context v"
    by (simp add: auth_proof_context_bytes put_auth_proof_context_def field_appends Let_def)
  show "get_auth_proof_context is_nfc (rd pre (field_bytes put_auth_proof_context v @ rest)) = Inr (v, rd (pre @ field_bytes put_auth_proof_context v) rest)"
    if "ok_auth_proof_context is_nfc v"
    using that by (cases v) (simp add: auth_proof_context_bytes get_auth_proof_context_def ok_auth_proof_context_def field_gets)
  show "ok_auth_proof_context is_nfc v \<and> (\<exists>rest. bs = field_bytes put_auth_proof_context v @ rest \<and>
      r = rd (pre @ field_bytes put_auth_proof_context v) rest)"
    if "get_auth_proof_context is_nfc (rd pre bs) = Inr (v, r)"
    using that by (auto simp: auth_proof_context_bytes get_auth_proof_context_def ok_auth_proof_context_def field_exacts)
qed

record wrap_context =
  wc_file_id :: ident
  wc_version :: u64
  wc_recipient_id :: ident

definition put_wrap_context :: "wrap_context \<Rightarrow> writer \<Rightarrow> writer" where
  "put_wrap_context v w =
     (let w = put_id (wc_file_id v) w;
         w = put_u64 (wc_version v) w;
         w = put_id (wc_recipient_id v) w
      in w)"

definition get_wrap_context :: "reader \<Rightarrow> decode_error + (wrap_context \<times> reader)" where
  "get_wrap_context r =
     rbind (get_id r) (\<lambda>(file_id', r).
     rbind (get_u64 r) (\<lambda>(version', r).
     rbind (get_id r) (\<lambda>(recipient_id', r).
     Inr (\<lparr>wc_file_id = file_id', wc_version = version',
       wc_recipient_id = recipient_id'\<rparr>, r))))"

definition ok_wrap_context :: "wrap_context \<Rightarrow> bool" where
  "ok_wrap_context v \<longleftrightarrow>
     ok_id (wc_file_id v) \<and> ok_id (wc_recipient_id v)"

lemma wrap_context_bytes: "field_bytes put_wrap_context v =
     field_bytes put_id (wc_file_id v) @ field_bytes put_u64 (wc_version v) @
     field_bytes put_id (wc_recipient_id v)"
  by (simp add: field_bytes_def [of put_wrap_context] into_bytes_def put_wrap_context_def field_appends Let_def)

interpretation wrap_context: canonical_struct put_wrap_context get_wrap_context ok_wrap_context TYPE_WRAP_CONTEXT
  unfolding canonical_struct_def
proof
  fix v w pre bs rest r
  show "w_buf (put_wrap_context v w) = w_buf w @ field_bytes put_wrap_context v"
    by (simp add: wrap_context_bytes put_wrap_context_def field_appends Let_def)
  show "get_wrap_context (rd pre (field_bytes put_wrap_context v @ rest)) = Inr (v, rd (pre @ field_bytes put_wrap_context v) rest)"
    if "ok_wrap_context v"
    using that by (cases v) (simp add: wrap_context_bytes get_wrap_context_def ok_wrap_context_def field_gets)
  show "ok_wrap_context v \<and> (\<exists>rest. bs = field_bytes put_wrap_context v @ rest \<and>
      r = rd (pre @ field_bytes put_wrap_context v) rest)"
    if "get_wrap_context (rd pre bs) = Inr (v, r)"
    using that by (auto simp: wrap_context_bytes get_wrap_context_def ok_wrap_context_def field_exacts)
qed

record chunk_aad =
  ca_file_id :: ident
  ca_version :: u64
  ca_stream_type :: stream_type
  ca_chunk_index :: u64
  ca_is_last :: bool

definition put_chunk_aad :: "chunk_aad \<Rightarrow> writer \<Rightarrow> writer" where
  "put_chunk_aad v w =
     (let w = put_id (ca_file_id v) w;
         w = put_u64 (ca_version v) w;
         w = put_stream_type (ca_stream_type v) w;
         w = put_u64 (ca_chunk_index v) w;
         w = put_bool (ca_is_last v) w
      in w)"

definition get_chunk_aad :: "reader \<Rightarrow> decode_error + (chunk_aad \<times> reader)" where
  "get_chunk_aad r =
     rbind (get_id r) (\<lambda>(file_id', r).
     rbind (get_u64 r) (\<lambda>(version', r).
     rbind (get_stream_type r) (\<lambda>(stream_type', r).
     rbind (get_u64 r) (\<lambda>(chunk_index', r).
     rbind (get_bool r) (\<lambda>(is_last', r).
     Inr (\<lparr>ca_file_id = file_id', ca_version = version', ca_stream_type = stream_type',
       ca_chunk_index = chunk_index', ca_is_last = is_last'\<rparr>, r))))))"

definition ok_chunk_aad :: "chunk_aad \<Rightarrow> bool" where
  "ok_chunk_aad v \<longleftrightarrow>
     ok_id (ca_file_id v)"

lemma chunk_aad_bytes: "field_bytes put_chunk_aad v =
     field_bytes put_id (ca_file_id v) @ field_bytes put_u64 (ca_version v) @
     field_bytes put_stream_type (ca_stream_type v) @ field_bytes put_u64 (ca_chunk_index v) @
     field_bytes put_bool (ca_is_last v)"
  by (simp add: field_bytes_def [of put_chunk_aad] into_bytes_def put_chunk_aad_def field_appends Let_def)

interpretation chunk_aad: canonical_struct put_chunk_aad get_chunk_aad ok_chunk_aad TYPE_CHUNK_AAD
  unfolding canonical_struct_def
proof
  fix v w pre bs rest r
  show "w_buf (put_chunk_aad v w) = w_buf w @ field_bytes put_chunk_aad v"
    by (simp add: chunk_aad_bytes put_chunk_aad_def field_appends Let_def)
  show "get_chunk_aad (rd pre (field_bytes put_chunk_aad v @ rest)) = Inr (v, rd (pre @ field_bytes put_chunk_aad v) rest)"
    if "ok_chunk_aad v"
    using that by (cases v) (simp add: chunk_aad_bytes get_chunk_aad_def ok_chunk_aad_def field_gets)
  show "ok_chunk_aad v \<and> (\<exists>rest. bs = field_bytes put_chunk_aad v @ rest \<and>
      r = rd (pre @ field_bytes put_chunk_aad v) rest)"
    if "get_chunk_aad (rd pre bs) = Inr (v, r)"
    using that by (auto simp: chunk_aad_bytes get_chunk_aad_def ok_chunk_aad_def field_exacts)
qed

record fingerprint_input =
  fi_enc_pub :: bytes32
  fi_sig_pub :: bytes32

definition put_fingerprint_input :: "fingerprint_input \<Rightarrow> writer \<Rightarrow> writer" where
  "put_fingerprint_input v w =
     (let w = put_b32 (fi_enc_pub v) w;
         w = put_b32 (fi_sig_pub v) w
      in w)"

definition get_fingerprint_input :: "reader \<Rightarrow> decode_error + (fingerprint_input \<times> reader)" where
  "get_fingerprint_input r =
     rbind (get_b32 r) (\<lambda>(enc_pub', r).
     rbind (get_b32 r) (\<lambda>(sig_pub', r).
     Inr (\<lparr>fi_enc_pub = enc_pub', fi_sig_pub = sig_pub'\<rparr>, r)))"

definition ok_fingerprint_input :: "fingerprint_input \<Rightarrow> bool" where
  "ok_fingerprint_input v \<longleftrightarrow>
     ok_b32 (fi_enc_pub v) \<and> ok_b32 (fi_sig_pub v)"

lemma fingerprint_input_bytes: "field_bytes put_fingerprint_input v =
     field_bytes put_b32 (fi_enc_pub v) @ field_bytes put_b32 (fi_sig_pub v)"
  by (simp add: field_bytes_def [of put_fingerprint_input] into_bytes_def put_fingerprint_input_def field_appends Let_def)

interpretation fingerprint_input: canonical_struct put_fingerprint_input get_fingerprint_input ok_fingerprint_input TYPE_FINGERPRINT_INPUT
  unfolding canonical_struct_def
proof
  fix v w pre bs rest r
  show "w_buf (put_fingerprint_input v w) = w_buf w @ field_bytes put_fingerprint_input v"
    by (simp add: fingerprint_input_bytes put_fingerprint_input_def field_appends Let_def)
  show "get_fingerprint_input (rd pre (field_bytes put_fingerprint_input v @ rest)) = Inr (v, rd (pre @ field_bytes put_fingerprint_input v) rest)"
    if "ok_fingerprint_input v"
    using that by (cases v) (simp add: fingerprint_input_bytes get_fingerprint_input_def ok_fingerprint_input_def field_gets)
  show "ok_fingerprint_input v \<and> (\<exists>rest. bs = field_bytes put_fingerprint_input v @ rest \<and>
      r = rd (pre @ field_bytes put_fingerprint_input v) rest)"
    if "get_fingerprint_input (rd pre bs) = Inr (v, r)"
    using that by (auto simp: fingerprint_input_bytes get_fingerprint_input_def ok_fingerprint_input_def field_exacts)
qed

section \<open>Bundle body\<close>

record bundle_member =
  bm_file_id :: ident
  bm_file_type :: file_type

definition put_bundle_member :: "bundle_member \<Rightarrow> writer \<Rightarrow> writer" where
  "put_bundle_member v w =
     (let w = put_id (bm_file_id v) w;
         w = put_file_type (bm_file_type v) w
      in w)"

definition get_bundle_member :: "reader \<Rightarrow> decode_error + (bundle_member \<times> reader)" where
  "get_bundle_member r =
     rbind (get_id r) (\<lambda>(file_id', r).
     rbind (get_file_type r) (\<lambda>(file_type', r).
     Inr (\<lparr>bm_file_id = file_id', bm_file_type = file_type'\<rparr>, r)))"

definition ok_bundle_member :: "bundle_member \<Rightarrow> bool" where
  "ok_bundle_member v \<longleftrightarrow>
     ok_id (bm_file_id v)"

lemma bundle_member_bytes: "field_bytes put_bundle_member v =
     field_bytes put_id (bm_file_id v) @ field_bytes put_file_type (bm_file_type v)"
  by (simp add: field_bytes_def [of put_bundle_member] into_bytes_def put_bundle_member_def field_appends Let_def)

interpretation bundle_member: field_codec put_bundle_member get_bundle_member ok_bundle_member
proof
  fix v w pre bs rest r
  show "w_buf (put_bundle_member v w) = w_buf w @ field_bytes put_bundle_member v"
    by (simp add: bundle_member_bytes put_bundle_member_def field_appends Let_def)
  show "get_bundle_member (rd pre (field_bytes put_bundle_member v @ rest)) = Inr (v, rd (pre @ field_bytes put_bundle_member v) rest)"
    if "ok_bundle_member v"
    using that by (cases v) (simp add: bundle_member_bytes get_bundle_member_def ok_bundle_member_def field_gets)
  show "ok_bundle_member v \<and> (\<exists>rest. bs = field_bytes put_bundle_member v @ rest \<and>
      r = rd (pre @ field_bytes put_bundle_member v) rest)"
    if "get_bundle_member (rd pre bs) = Inr (v, r)"
    using that by (auto simp: bundle_member_bytes get_bundle_member_def ok_bundle_member_def field_exacts)
qed

record bundle_body =
  bb_members :: "bundle_member list"

definition put_bundle_body :: "bundle_body \<Rightarrow> writer \<Rightarrow> writer" where
  "put_bundle_body v w =
     (let w = w_u16 (word_of_nat (length (bb_members v))) w
      in write_many put_bundle_member (bb_members v) w)"

definition get_bundle_body :: "reader \<Rightarrow> decode_error + (bundle_body \<times> reader)" where
  "get_bundle_body r =
     rbind (r_u16 r) (\<lambda>(count, r).
     rbind (read_many get_bundle_member (unat count) [] r) (\<lambda>(members, r).
     Inr (\<lparr>bb_members = members\<rparr>, r)))"

definition ok_bundle_body :: "bundle_body \<Rightarrow> bool" where
  "ok_bundle_body v \<longleftrightarrow>
     length (bb_members v) < 2 ^ 16 \<and> (\<forall>m \<in> set (bb_members v). ok_bundle_member m)"

lemma bundle_body_bytes: "field_bytes put_bundle_body v =
     be_bytes 2 (unat (word_of_nat (length (bb_members v)) :: u16)) @
     concat (map (field_bytes put_bundle_member) (bb_members v))"
  by (simp add: field_bytes_def [of put_bundle_body] into_bytes_def put_bundle_body_def
      codec_simps bundle_member.write_many_buf Let_def)

interpretation bundle_body:
  canonical_struct put_bundle_body get_bundle_body ok_bundle_body TYPE_BUNDLE_BODY
  unfolding canonical_struct_def
proof
  fix v w pre bs rest r
  show "w_buf (put_bundle_body v w) = w_buf w @ field_bytes put_bundle_body v"
    by (simp add: bundle_body_bytes put_bundle_body_def codec_simps bundle_member.write_many_buf
        Let_def)
  show "get_bundle_body (rd pre (field_bytes put_bundle_body v @ rest)) =
      Inr (v, rd (pre @ field_bytes put_bundle_body v) rest)" if ok: "ok_bundle_body v"
  proof -
    from ok have len: "unat (word_of_nat (length (bb_members v)) :: u16) = length (bb_members v)"
      by (simp add: ok_bundle_body_def unat_of_nat)
    have "r_u16 (rd pre (be_bytes 2 (length (bb_members v)) @ s)) =
        Inr (word_of_nat (length (bb_members v)), rd (pre @ be_bytes 2 (length (bb_members v))) s)" for s
      using r_u16_be_bytes [of pre "word_of_nat (length (bb_members v))" s] by (simp only: len)
    with ok len show ?thesis
      by (cases v) (simp add: bundle_body_bytes get_bundle_body_def ok_bundle_body_def
          bundle_member.read_many_put)
  qed
  show "ok_bundle_body v \<and> (\<exists>rest. bs = field_bytes put_bundle_body v @ rest \<and>
      r = rd (pre @ field_bytes put_bundle_body v) rest)"
    if "get_bundle_body (rd pre bs) = Inr (v, r)"
  proof -
    from that obtain count members r1 where "r_u16 (rd pre bs) = Inr (count, r1)"
      and read1: "read_many get_bundle_member (unat count) [] r1 = Inr (members, r)"
      and v: "v = \<lparr>bb_members = members\<rparr>"
      by (auto simp: get_bundle_body_def rbind_eq_Inr)
    then obtain bs' where bs: "bs = be_bytes 2 (unat count) @ bs'"
      and r1: "r1 = rd (pre @ be_bytes 2 (unat count)) bs'"
      by (auto simp: r_u16_Inr)
    note read = read1 [unfolded r1]
    from bundle_member.read_many_exact [OF read] obtain rest where
      len: "length members = unat count" and "\<forall>m \<in> set members. ok_bundle_member m"
      and "bs' = concat (map (field_bytes put_bundle_member) members) @ rest"
      and "r = rd ((pre @ be_bytes 2 (unat count)) @
        concat (map (field_bytes put_bundle_member) members)) rest"
      by auto
    moreover have "length members < 2 ^ 16" unfolding len using unsigned_less [of count] by simp
    moreover have "word_of_nat (length members) = count" by (simp add: len)
    ultimately show ?thesis
      unfolding bundle_body_bytes ok_bundle_body_def using bs v by auto
  qed
qed

section \<open>Backup index\<close>

record backup_entry =
  bent_path :: utext
  bent_len :: u64
  bent_digest :: bytes32

definition put_backup_entry :: "backup_entry \<Rightarrow> writer \<Rightarrow> writer" where
  "put_backup_entry v w =
     (let w = put_text (bent_path v) w;
         w = put_u64 (bent_len v) w;
         w = put_b32 (bent_digest v) w
      in w)"

definition get_backup_entry :: "(bytes \<Rightarrow> bool) \<Rightarrow> reader \<Rightarrow> decode_error + (backup_entry \<times> reader)" where
  "get_backup_entry is_nfc r =
     rbind (get_text is_nfc r) (\<lambda>(path', r).
     rbind (get_u64 r) (\<lambda>(len', r).
     rbind (get_b32 r) (\<lambda>(digest', r).
     Inr (\<lparr>bent_path = path', bent_len = len', bent_digest = digest'\<rparr>, r))))"

definition ok_backup_entry :: "(bytes \<Rightarrow> bool) \<Rightarrow> backup_entry \<Rightarrow> bool" where
  "ok_backup_entry is_nfc v \<longleftrightarrow>
     ok_text is_nfc (bent_path v) \<and> ok_b32 (bent_digest v)"

lemma backup_entry_bytes: "field_bytes put_backup_entry v =
     field_bytes put_text (bent_path v) @ field_bytes put_u64 (bent_len v) @
     field_bytes put_b32 (bent_digest v)"
  by (simp add: field_bytes_def [of put_backup_entry] into_bytes_def put_backup_entry_def field_appends Let_def)

interpretation backup_entry: field_codec put_backup_entry "get_backup_entry is_nfc" "ok_backup_entry is_nfc" for is_nfc
proof
  fix v w pre bs rest r
  show "w_buf (put_backup_entry v w) = w_buf w @ field_bytes put_backup_entry v"
    by (simp add: backup_entry_bytes put_backup_entry_def field_appends Let_def)
  show "get_backup_entry is_nfc (rd pre (field_bytes put_backup_entry v @ rest)) = Inr (v, rd (pre @ field_bytes put_backup_entry v) rest)"
    if "ok_backup_entry is_nfc v"
    using that by (cases v) (simp add: backup_entry_bytes get_backup_entry_def ok_backup_entry_def field_gets)
  show "ok_backup_entry is_nfc v \<and> (\<exists>rest. bs = field_bytes put_backup_entry v @ rest \<and>
      r = rd (pre @ field_bytes put_backup_entry v) rest)"
    if "get_backup_entry is_nfc (rd pre bs) = Inr (v, r)"
    using that by (auto simp: backup_entry_bytes get_backup_entry_def ok_backup_entry_def field_exacts)
qed

record backup_part =
  bpart_len :: u64
  bpart_digest :: bytes32

definition put_backup_part :: "backup_part \<Rightarrow> writer \<Rightarrow> writer" where
  "put_backup_part v w =
     (let w = put_u64 (bpart_len v) w;
         w = put_b32 (bpart_digest v) w
      in w)"

definition get_backup_part :: "reader \<Rightarrow> decode_error + (backup_part \<times> reader)" where
  "get_backup_part r =
     rbind (get_u64 r) (\<lambda>(len', r).
     rbind (get_b32 r) (\<lambda>(digest', r).
     Inr (\<lparr>bpart_len = len', bpart_digest = digest'\<rparr>, r)))"

definition ok_backup_part :: "backup_part \<Rightarrow> bool" where
  "ok_backup_part v \<longleftrightarrow>
     ok_b32 (bpart_digest v)"

lemma backup_part_bytes: "field_bytes put_backup_part v =
     field_bytes put_u64 (bpart_len v) @ field_bytes put_b32 (bpart_digest v)"
  by (simp add: field_bytes_def [of put_backup_part] into_bytes_def put_backup_part_def field_appends Let_def)

interpretation backup_part: field_codec put_backup_part get_backup_part ok_backup_part
proof
  fix v w pre bs rest r
  show "w_buf (put_backup_part v w) = w_buf w @ field_bytes put_backup_part v"
    by (simp add: backup_part_bytes put_backup_part_def field_appends Let_def)
  show "get_backup_part (rd pre (field_bytes put_backup_part v @ rest)) = Inr (v, rd (pre @ field_bytes put_backup_part v) rest)"
    if "ok_backup_part v"
    using that by (cases v) (simp add: backup_part_bytes get_backup_part_def ok_backup_part_def field_gets)
  show "ok_backup_part v \<and> (\<exists>rest. bs = field_bytes put_backup_part v @ rest \<and>
      r = rd (pre @ field_bytes put_backup_part v) rest)"
    if "get_backup_part (rd pre bs) = Inr (v, r)"
    using that by (auto simp: backup_part_bytes get_backup_part_def ok_backup_part_def field_exacts)
qed

record backup_index =
  bx_git_sha :: utext
  bx_entries :: "backup_entry list"
  bx_parts :: "backup_part list"
  bx_created_at :: timestamp

definition put_backup_index :: "backup_index \<Rightarrow> writer \<Rightarrow> writer" where
  "put_backup_index v w =
     (let w = put_text (bx_git_sha v) w;
         w = w_u32 (word_of_nat (length (bx_entries v))) w;
         w = write_many put_backup_entry (bx_entries v) w;
         w = w_u32 (word_of_nat (length (bx_parts v))) w;
         w = write_many put_backup_part (bx_parts v) w;
         w = put_timestamp (bx_created_at v) w
      in w)"

text \<open>\<open>Vec::with_capacity\<close> only reserves memory, so the cap on it has no counterpart here.\<close>

definition get_backup_index ::
  "(bytes \<Rightarrow> bool) \<Rightarrow> reader \<Rightarrow> decode_error + (backup_index \<times> reader)" where
  "get_backup_index is_nfc r =
     rbind (get_text is_nfc r) (\<lambda>(git_sha', r).
     rbind (r_u32 r) (\<lambda>(entry_count, r).
     rbind (read_many (get_backup_entry is_nfc) (unat entry_count) [] r) (\<lambda>(entries', r).
     rbind (r_u32 r) (\<lambda>(part_count, r).
     rbind (read_many get_backup_part (unat part_count) [] r) (\<lambda>(parts', r).
     rbind (get_timestamp r) (\<lambda>(created_at', r).
     Inr (\<lparr>bx_git_sha = git_sha', bx_entries = entries', bx_parts = parts',
       bx_created_at = created_at'\<rparr>, r)))))))"

definition ok_backup_index :: "(bytes \<Rightarrow> bool) \<Rightarrow> backup_index \<Rightarrow> bool" where
  "ok_backup_index is_nfc v \<longleftrightarrow>
     ok_text is_nfc (bx_git_sha v) \<and>
     length (bx_entries v) < 2 ^ 32 \<and> (\<forall>e \<in> set (bx_entries v). ok_backup_entry is_nfc e) \<and>
     length (bx_parts v) < 2 ^ 32 \<and> (\<forall>p \<in> set (bx_parts v). ok_backup_part p)"

lemma field_bytes_u32: "field_bytes put_u32 c = be_bytes 4 (unat c)"
  by (simp add: field_bytes_def into_bytes_def put_u32_def codec_simps)

lemma backup_index_bytes: "field_bytes put_backup_index v =
     field_bytes put_text (bx_git_sha v) @
     field_bytes put_u32 (word_of_nat (length (bx_entries v))) @
     concat (map (field_bytes put_backup_entry) (bx_entries v)) @
     field_bytes put_u32 (word_of_nat (length (bx_parts v))) @
     concat (map (field_bytes put_backup_part) (bx_parts v)) @
     field_bytes put_timestamp (bx_created_at v)"
  by (simp add: field_bytes_def [of put_backup_index] into_bytes_def put_backup_index_def
      field_appends field_bytes_u32 backup_entry.write_many_buf backup_part.write_many_buf Let_def)

lemma counted_list_exact:
  assumes "length vs = unat (c :: u32)"
  shows "length vs < 2 ^ 32" and "word_of_nat (length vs) = c"
  using assms unsigned_less [of c] by simp_all

lemma u32_less: "unat (c :: u32) < 4294967296"
  using unsigned_less [of c] by simp

interpretation backup_index: canonical_struct put_backup_index "get_backup_index is_nfc"
  "ok_backup_index is_nfc" TYPE_BACKUP_INDEX for is_nfc
  unfolding canonical_struct_def
proof
  have get: "get_backup_index is_nfc r =
     rbind (get_text is_nfc r) (\<lambda>(git_sha', r).
     rbind (get_u32 r) (\<lambda>(entry_count, r).
     rbind (read_many (get_backup_entry is_nfc) (unat entry_count) [] r) (\<lambda>(entries', r).
     rbind (get_u32 r) (\<lambda>(part_count, r).
     rbind (read_many get_backup_part (unat part_count) [] r) (\<lambda>(parts', r).
     rbind (get_timestamp r) (\<lambda>(created_at', r).
     Inr (\<lparr>bx_git_sha = git_sha', bx_entries = entries', bx_parts = parts',
       bx_created_at = created_at'\<rparr>, r)))))))" for r
    by (simp add: get_backup_index_def get_u32_def)
  fix v w pre bs rest r
  show "w_buf (put_backup_index v w) = w_buf w @ field_bytes put_backup_index v"
    by (simp add: backup_index_bytes put_backup_index_def field_appends field_bytes_u32
        backup_entry.write_many_buf backup_part.write_many_buf Let_def)
  show "get_backup_index is_nfc (rd pre (field_bytes put_backup_index v @ rest)) =
      Inr (v, rd (pre @ field_bytes put_backup_index v) rest)" if ok: "ok_backup_index is_nfc v"
  proof -
    have "unat (word_of_nat (length (bx_entries v)) :: u32) = length (bx_entries v)"
      "unat (word_of_nat (length (bx_parts v)) :: u32) = length (bx_parts v)"
      using ok by (simp_all add: ok_backup_index_def unat_of_nat)
    with ok show ?thesis
      by (cases v) (simp add: backup_index_bytes get ok_backup_index_def field_gets
          backup_entry.read_many_put backup_part.read_many_put)
  qed
  show "ok_backup_index is_nfc v \<and> (\<exists>rest. bs = field_bytes put_backup_index v @ rest \<and>
      r = rd (pre @ field_bytes put_backup_index v) rest)"
    if "get_backup_index is_nfc (rd pre bs) = Inr (v, r)"
    using that unfolding get
    by (auto simp: backup_index_bytes ok_backup_index_def field_exacts counted_list_exact u32_less
        dest!: backup_entry.read_many_exact backup_part.read_many_exact)
qed

end
