(* ===== verification/Encoding_Laws.thy ===== *)
theory Encoding_Laws
  imports Structs "HOL-Library.Sublist"
begin

text \<open>
  What the encoding crate promises of its structures taken together: the decoder accepts
  exactly the canonical byte strings, the re-encode guard of \<open>decode\<close> never has to fire,
  no structure's bytes extend another's, and a signature made under one label is over bytes
  that no other label can produce. Each law is the interpretation's lemma of
  \<open>canonical_struct\<close> for every structure of \<^verbatim>\<open>structs.rs\<close>.
\<close>

section \<open>Exactness\<close>

definition exact_codec :: "u16 \<Rightarrow> ('a \<Rightarrow> writer \<Rightarrow> writer)
    \<Rightarrow> (reader \<Rightarrow> decode_error + ('a \<times> reader)) \<Rightarrow> ('a \<Rightarrow> bool) \<Rightarrow> bool" where
  "exact_codec tid put get ok \<longleftrightarrow>
     (\<forall>bs v. decode tid put get bs = Inr v \<longleftrightarrow> ok v \<and> bs = encode tid put v)"

context canonical_struct
begin

lemma exact: "exact_codec type_id put get ok"
  by (simp add: exact_codec_def decode_iff)

text \<open>No structure's bytes are a proper prefix of another's.\<close>

lemma decode_truncated:
  assumes "ok v" and "k < length (encode type_id put v)"
  shows "decode type_id put get (take k (encode type_id put v)) \<noteq> Inr v'"
proof
  assume "decode type_id put get (take k (encode type_id put v)) = Inr v'"
  then have "ok v'" and take: "take k (encode type_id put v) = encode type_id put v'"
    by (simp_all add: decode_iff)
  have "encode type_id put v = encode type_id put v' @ drop k (encode type_id put v)"
    by (simp add: take [symmetric])
  then have "field_bytes (put_struct type_id put) v @ [] =
      field_bytes (put_struct type_id put) v' @ drop k (encode type_id put v)"
    by (simp add: encode_tagged)
  from tagged.prefix_free [OF assms(1) \<open>ok v'\<close> this]
  have "[] = drop k (encode type_id put v)" by (rule conjunct2)
  with assms(2) show False by simp
qed

end

text \<open>C8: For each of the fourteen registered structures, \<open>decode\<close> returns a value exactly
  when that value is well formed and the input is its own encoding: every well-formed value
  round-trips and no second byte string is ever accepted for it.\<close>

theorem structures_decode_exactly:
  "exact_codec TYPE_DIR_BINDING put_dir_binding (get_dir_binding is_nfc) (ok_dir_binding is_nfc) \<and>
   exact_codec TYPE_MANIFEST put_manifest get_manifest ok_manifest \<and>
   exact_codec TYPE_GRANT put_grant get_grant ok_grant \<and>
   exact_codec TYPE_GENESIS put_genesis get_genesis ok_genesis \<and>
   exact_codec TYPE_REVOCATION put_revocation get_revocation ok_revocation \<and>
   exact_codec TYPE_REINSTATEMENT put_reinstatement get_reinstatement ok_reinstatement \<and>
   exact_codec TYPE_KEY_COMPROMISE put_key_compromise get_key_compromise ok_key_compromise \<and>
   exact_codec TYPE_AUTH_PROOF_CONTEXT put_auth_proof_context (get_auth_proof_context is_nfc)
     (ok_auth_proof_context is_nfc) \<and>
   exact_codec TYPE_WRAP_CONTEXT put_wrap_context get_wrap_context ok_wrap_context \<and>
   exact_codec TYPE_CHUNK_AAD put_chunk_aad get_chunk_aad ok_chunk_aad \<and>
   exact_codec TYPE_FINGERPRINT_INPUT put_fingerprint_input get_fingerprint_input
     ok_fingerprint_input \<and>
   exact_codec TYPE_STREAM put_stream get_stream ok_stream \<and>
   exact_codec TYPE_BUNDLE_BODY put_bundle_body get_bundle_body ok_bundle_body \<and>
   exact_codec TYPE_BACKUP_INDEX put_backup_index (get_backup_index is_nfc)
     (ok_backup_index is_nfc)"
  by (intro conjI dir_binding.exact manifest.exact grant.exact genesis.exact revocation.exact
      reinstatement.exact key_compromise.exact auth_proof_context.exact wrap_context.exact
      chunk_aad.exact fingerprint_input.exact stream.exact bundle_body.exact backup_index.exact)

text \<open>The last check of \<open>decode\<close> (re-encoding and comparing with the input) never
  rejects: the field rules alone already force the canonical form, so \<open>NonCanonical\<close> is a
  second line of defence that is not reached, for every structure.\<close>

theorem reencode_guard_is_redundant:
  "decode TYPE_DIR_BINDING put_dir_binding (get_dir_binding is_nfc) bs =
     decode_unguarded TYPE_DIR_BINDING (get_dir_binding is_nfc) bs \<and>
   decode TYPE_MANIFEST put_manifest get_manifest bs = decode_unguarded TYPE_MANIFEST get_manifest bs \<and>
   decode TYPE_GRANT put_grant get_grant bs = decode_unguarded TYPE_GRANT get_grant bs \<and>
   decode TYPE_GENESIS put_genesis get_genesis bs = decode_unguarded TYPE_GENESIS get_genesis bs \<and>
   decode TYPE_REVOCATION put_revocation get_revocation bs =
     decode_unguarded TYPE_REVOCATION get_revocation bs \<and>
   decode TYPE_REINSTATEMENT put_reinstatement get_reinstatement bs =
     decode_unguarded TYPE_REINSTATEMENT get_reinstatement bs \<and>
   decode TYPE_KEY_COMPROMISE put_key_compromise get_key_compromise bs =
     decode_unguarded TYPE_KEY_COMPROMISE get_key_compromise bs \<and>
   decode TYPE_AUTH_PROOF_CONTEXT put_auth_proof_context (get_auth_proof_context is_nfc) bs =
     decode_unguarded TYPE_AUTH_PROOF_CONTEXT (get_auth_proof_context is_nfc) bs \<and>
   decode TYPE_BUNDLE_BODY put_bundle_body get_bundle_body bs =
     decode_unguarded TYPE_BUNDLE_BODY get_bundle_body bs \<and>
   decode TYPE_BACKUP_INDEX put_backup_index (get_backup_index is_nfc) bs =
     decode_unguarded TYPE_BACKUP_INDEX (get_backup_index is_nfc) bs"
  by (intro conjI dir_binding.guard_redundant manifest.guard_redundant grant.guard_redundant
      genesis.guard_redundant revocation.guard_redundant reinstatement.guard_redundant
      key_compromise.guard_redundant auth_proof_context.guard_redundant
      bundle_body.guard_redundant backup_index.guard_redundant)

section \<open>Framing\<close>

definition manifest0 :: manifest where
  "manifest0 = \<lparr>ma_file_id = Id (replicate 16 7), ma_version = 1, ma_file_type = FtGeneric,
     ma_alg = SuiteV1, ma_chunk_size = 65536, ma_dek_commit = Bytes32 (replicate 32 9),
     ma_streams = [\<lparr>sm_stream_type = StContent, sm_compression = CompNone, sm_chunk_count = 1,
       sm_digest = Bytes32 (replicate 32 5)\<rparr>],
     ma_recovery_present = True, ma_author_id = Id (replicate 16 3), ma_created_at = Timestamp 8\<rparr>"

lemma ok_manifest0: "ok_manifest manifest0"
  by (simp add: manifest0_def ok_manifest_def ok_id_def ok_b32_def ok_stream_def
      strictly_ascending_def)

text \<open>A manifest's bytes are self-delimiting: cut anywhere they do not decode at all, and
  anything appended is reported as that many trailing bytes.\<close>

theorem manifest_self_delimiting:
  assumes "ok_manifest m"
  shows "(k < length (encode TYPE_MANIFEST put_manifest m) \<longrightarrow>
      decode TYPE_MANIFEST put_manifest get_manifest
        (take k (encode TYPE_MANIFEST put_manifest m)) \<noteq> Inr m') \<and>
    (s \<noteq> [] \<longrightarrow> decode TYPE_MANIFEST put_manifest get_manifest
        (encode TYPE_MANIFEST put_manifest m @ s) = Inl (TrailingBytes (length s)))"
  by (simp add: manifest.decode_truncated [OF assms] manifest.decode_trailing [OF assms])

theorem manifest_self_delimiting_witness:
  "decode TYPE_MANIFEST put_manifest get_manifest
     (take 0 (encode TYPE_MANIFEST put_manifest manifest0)) \<noteq> Inr manifest0 \<and>
   decode TYPE_MANIFEST put_manifest get_manifest
     (encode TYPE_MANIFEST put_manifest manifest0 @ [0, 1]) = Inl (TrailingBytes 2)"
  using manifest_self_delimiting [OF ok_manifest0, of 0 manifest0 "[0, 1]"]
  by (simp add: manifest.encode_eq)

text \<open>A structure tag that is not the expected one is never decoded: the error says
  whether the tag is a registered structure of another kind or no structure at all. In
  particular the retired write-grant tag \<open>0x0004\<close> is unknown.\<close>

theorem foreign_tag_rejected:
  "decode TYPE_GRANT put_grant get_grant (be_bytes 2 (unat tid) @ s) =
     (if tid = TYPE_GRANT then decode TYPE_GRANT put_grant get_grant (be_bytes 2 (unat TYPE_GRANT) @ s)
      else if is_registered tid then Inl (WrongTypeId TYPE_GRANT tid) else Inl (UnknownTypeId tid)) \<and>
   decode TYPE_GRANT put_grant get_grant (be_bytes 2 4 @ s) = Inl (UnknownTypeId 4)"
  using grant.decode_foreign [of tid s] grant.decode_foreign [of 4 s]
  by (simp add: TYPE_GRANT_def is_registered_def)

section \<open>Field rules\<close>

text \<open>A grant addressed to the recovery recipient is accepted only under the recovery id:
  the encoding of any grant with well-formed fields decodes to that grant, or to
  \<open>RecoveryIdMismatch\<close> exactly when it names a recovery recipient with another id.\<close>

theorem grant_recovery_binding:
  assumes "ok_id (gr_file_id g)" and "ok_id (gr_recipient_id g)"
    and "ok_b32 (gr_dek_commit g)" and "ok_id (gr_granted_by g)"
  shows "decode TYPE_GRANT put_grant get_grant (encode TYPE_GRANT put_grant g) =
    (if gr_recipient_type g = RtRecovery \<and> gr_recipient_id g \<noteq> RECOVERY_ID
     then Inl RecoveryIdMismatch else Inr g)"
proof (cases "gr_recipient_type g = RtRecovery \<and> gr_recipient_id g \<noteq> RECOVERY_ID")
  case True
  then show ?thesis using assms
    by (simp add: decode_def read_struct_def grant.encode_eq reader_new_rd codec_simps get_grant_def
        grant_bytes field_gets)
next
  case False
  with assms have "ok_grant g" by (auto simp: ok_grant_def)
  with False show ?thesis by (simp add: grant.decode_encode)
qed

theorem grant_recovery_binding_witness:
  "decode TYPE_GRANT put_grant get_grant (encode TYPE_GRANT put_grant
     \<lparr>gr_file_id = Id (replicate 16 1), gr_file_version = 1, gr_recipient_id = Id (replicate 16 2),
      gr_recipient_type = RtRecovery, gr_dek_commit = Bytes32 (replicate 32 3),
      gr_granted_by = Id (replicate 16 4), gr_created_at = Timestamp 5\<rparr>) = Inl RecoveryIdMismatch"
  by (subst grant_recovery_binding) (simp_all add: ok_id_def ok_b32_def RECOVERY_ID_def)

lemma key_set_dedup: "key ` set (dedup_by_key key vs) = key ` set vs"
  by (induction key vs rule: dedup_by_key.induct) auto

lemma role_set_new_set: "set (roles (role_set_new rs)) = set rs"
  using key_set_dedup [of "\<lambda>r. r" "sort rs"] by (simp add: role_set_new_def)

text \<open>A role set built from any list of roles is canonical: it holds exactly the given
  roles, it is well formed, and encoding and decoding it gives it back.\<close>

theorem role_set_new_canonical:
  "set (roles (role_set_new rs)) = set rs \<and> ok_role_set (role_set_new rs) \<and>
   get_role_set (rd pre (field_bytes put_role_set (role_set_new rs) @ rest)) =
     Inr (role_set_new rs, rd (pre @ field_bytes put_role_set (role_set_new rs)) rest)"
  using role_set_new_ok [of rs] role_set_new_set [of rs] role_set.get_put [OF role_set_new_ok, of pre rs rest] by simp

section \<open>Domain separation\<close>

lemma labels_short: "l \<in> set labels \<Longrightarrow> length l < 2 ^ 32"
  by (auto simp: labels_def label_defs)

text \<open>The thirteen signing labels are distinct and none is a prefix of another.\<close>

theorem labels_prefix_free:
  "distinct labels \<and> [(a, b) \<leftarrow> List.product labels labels. a \<noteq> b \<and> prefix a b] = []"
  by (rule conjI) code_simp+

text \<open>C9: A signature made in one role is never valid in another: under the labels of the
  program two signing inputs are equal only for the same label and the same bytes, so the
  message signed for a structure determines both the role and the structure's encoding.\<close>

theorem signatures_bind_role:
  assumes "l \<in> set labels" and "l' \<in> set labels"
  shows "signing_message l tid put v = signing_message l' tid' put' v' \<longleftrightarrow>
    l = l' \<and> encode tid put v = encode tid' put' v'"
  unfolding signing_message_def
  using signing_input_inj [OF labels_short [OF assms(1)] labels_short [OF assms(2)]] by auto

theorem signatures_bind_role_witness:
  "signing_message L_MANIFEST TYPE_MANIFEST put_manifest manifest0 \<noteq>
   signing_message L_GRANT TYPE_MANIFEST put_manifest manifest0"
proof -
  have "L_MANIFEST \<in> set labels" and "L_GRANT \<in> set labels" by (simp_all add: labels_def)
  from signatures_bind_role [OF this, of TYPE_MANIFEST put_manifest manifest0 TYPE_MANIFEST
      put_manifest manifest0]
  show ?thesis by (simp add: label_defs)
qed

end
