(* ===== verification/Merkle.thy ===== *)
theory Merkle
  imports Prelude "HOL-Library.While_Combinator"
begin

unbundle bit_operations_syntax

text \<open>
  \<^verbatim>\<open>crates/crypto/src/merkle.rs\<close>: RFC 6962 Merkle trees. The prover's root, audit path and
  consistency path, and the two verifiers with their \<open>u64\<close> node counters. \<open>sha256\<close> is the
  parameter \<open>sha\<close>; a panic (an assertion or a slice out of range) is \<open>None\<close>.
\<close>

section \<open>Hashing\<close>

definition leaf_hash :: "(bytes \<Rightarrow> bytes) \<Rightarrow> bytes \<Rightarrow> bytes" where
  "leaf_hash sha x = sha (0x00 # x)"

definition node_hash :: "(bytes \<Rightarrow> bytes) \<Rightarrow> bytes \<Rightarrow> bytes \<Rightarrow> bytes" where
  "node_hash sha l r = sha (0x01 # l @ r)"

section \<open>The prover\<close>

definition largest_pow2_below :: "nat \<Rightarrow> nat" where
  "largest_pow2_below n = while (\<lambda>k. 2 * k < n) (\<lambda>k. 2 * k) 1"

text \<open>For \<open>n > 1\<close> the loop ends at the power of two with \<open>k < n \<le> 2 * k\<close>.\<close>

lemma largest_pow2_below:
  assumes "1 < n"
  obtains j where "largest_pow2_below n = 2 ^ j" and "2 ^ j < n" and "n \<le> 2 * 2 ^ j"
proof -
  have "(\<exists>j. largest_pow2_below n = 2 ^ j) \<and> largest_pow2_below n < n \<and>
      n \<le> 2 * largest_pow2_below n"
    unfolding largest_pow2_below_def
  proof (rule while_rule [where P = "\<lambda>k. (\<exists>j. k = 2 ^ j) \<and> k < n" and r = "measure (\<lambda>k. n - k)"])
    show "(\<exists>j. 1 = 2 ^ j) \<and> 1 < n" using assms by (metis power_0)
    show "(\<exists>j. 2 * k = 2 ^ j) \<and> 2 * k < n"
      if "(\<exists>j. k = 2 ^ j) \<and> k < n" "2 * k < n" for k
      using that by (metis power_Suc)
    show "(2 * k, k) \<in> measure (\<lambda>k. n - k)" if "(\<exists>j. k = 2 ^ j) \<and> k < n" "2 * k < n" for k
      using that by (auto intro!: diff_less_mono2)
  qed auto
  then show ?thesis using that by metis
qed

lemma largest_pow2_below_bounds:
  assumes "1 < n"
  shows "0 < largest_pow2_below n" and "largest_pow2_below n < n"
  using largest_pow2_below [OF assms] by (metis zero_less_power zero_less_numeral, metis)

lemma halves_shorter:
  assumes "\<not> length xs \<le> 1"
  shows "length (take (largest_pow2_below (length xs)) xs) < length xs"
    and "length (drop (largest_pow2_below (length xs)) xs) < length xs"
  using largest_pow2_below_bounds [of "length xs"] assms by auto

lemma nonempty_halves_shorter:
  assumes "length xs \<noteq> 0" and "length xs \<noteq> 1"
  shows "length (take (largest_pow2_below (length xs)) xs) < length xs"
    and "length (drop (largest_pow2_below (length xs)) xs) < length xs"
proof -
  from assms have "\<not> length xs \<le> 1" by linarith
  note * = halves_shorter [OF this]
  show "length (take (largest_pow2_below (length xs)) xs) < length xs" by (rule * (1))
  show "length (drop (largest_pow2_below (length xs)) xs) < length xs" by (rule * (2))
qed

function merkle_root :: "(bytes \<Rightarrow> bytes) \<Rightarrow> bytes list \<Rightarrow> bytes" where
  "merkle_root sha leaves =
     (if length leaves = 0 then sha []
      else if length leaves = 1 then leaf_hash sha (leaves ! 0)
      else let k = largest_pow2_below (length leaves) in
        node_hash sha (merkle_root sha (take k leaves)) (merkle_root sha (drop k leaves)))"
  by auto
termination
  by (relation "measure (\<lambda>(sha, leaves). length leaves)")
    (use nonempty_halves_shorter in \<open>auto simp del: length_take length_drop\<close>)

declare merkle_root.simps [simp del]

function inclusion_path :: "(bytes \<Rightarrow> bytes) \<Rightarrow> nat \<Rightarrow> bytes list \<Rightarrow> bytes list option" where
  "inclusion_path sha index leaves =
     (if \<not> index < length leaves then None
      else if length leaves \<le> 1 then Some []
      else let k = largest_pow2_below (length leaves) in
        if index < k then
          map_option (\<lambda>p. p @ [merkle_root sha (drop k leaves)])
            (inclusion_path sha index (take k leaves))
        else
          map_option (\<lambda>p. p @ [merkle_root sha (take k leaves)])
            (inclusion_path sha (index - k) (drop k leaves)))"
  by auto
termination
  by (relation "measure (\<lambda>(sha, index, leaves). length leaves)")
    (use halves_shorter in \<open>auto simp del: length_take length_drop\<close>)

declare inclusion_path.simps [simp del]

text \<open>\<open>consistency_subproof(m, d, b)\<close>; its callers keep \<open>0 < m \<le> n\<close>. The \<open>n \<le> 1\<close> test only
  serves termination: with \<open>m \<noteq> n\<close> and \<open>0 < m \<le> n\<close> it is never met.\<close>

function consistency_subproof :: "(bytes \<Rightarrow> bytes) \<Rightarrow> nat \<Rightarrow> bytes list \<Rightarrow> bool \<Rightarrow> bytes list" where
  "consistency_subproof sha m d b =
     (if m = length d then (if b then [] else [merkle_root sha d])
      else if length d \<le> 1 then []
      else let k = largest_pow2_below (length d) in
        if m \<le> k then consistency_subproof sha m (take k d) b @ [merkle_root sha (drop k d)]
        else consistency_subproof sha (m - k) (drop k d) False @ [merkle_root sha (take k d)])"
  by auto
termination
  by (relation "measure (\<lambda>(sha, m, d, b). length d)")
    (use halves_shorter in \<open>auto simp del: length_take length_drop\<close>)

declare consistency_subproof.simps [simp del]

definition consistency_path ::
  "(bytes \<Rightarrow> bytes) \<Rightarrow> bytes list \<Rightarrow> u64 \<Rightarrow> u64 \<Rightarrow> bytes list option" where
  "consistency_path sha leaves m n =
     (if m = 0 \<or> n < m then Some []
      else if length leaves < unat n then None
      else Some (consistency_subproof sha (unat m) (take (unat n) leaves) True))"

section \<open>Inclusion verification\<close>

lemma unat_half [simp]: "unat (drop_bit (Suc 0) (w :: u64)) = unat w div 2"
  by (simp add: drop_bit_eq_div unat_div_distrib)

lemma unat_and_one: "unat ((w :: u64) AND 1) = unat w mod 2"
  by (simp add: and_one_eq unat_mod_distrib)

lemma and_one_odd: "(w :: u64) AND 1 = 1 \<longleftrightarrow> odd (unat w)"
  by (metis unat_and_one unsigned_1 word_unat_eq_iff odd_iff_mod_2_eq_one)

lemma and_one_even: "(w :: u64) AND 1 = 0 \<longleftrightarrow> even (unat w)"
  by (metis unat_and_one unsigned_0 word_unat_eq_iff even_iff_mod_2_eq_zero)

lemma half_less: "(w :: u64) \<noteq> 0 \<Longrightarrow> unat w div 2 < unat w"
  by (simp add: unat_gt_0)

text \<open>The inner loop: right-shift both counters while \<open>fnode\<close> is even and not 0.\<close>

function shift_even :: "u64 \<Rightarrow> u64 \<Rightarrow> u64 \<times> u64" where
  "shift_even fnode snode =
     (if fnode AND 1 = 0 \<and> fnode \<noteq> 0 then shift_even (drop_bit 1 fnode) (drop_bit 1 snode)
      else (fnode, snode))"
  by auto
termination
  by (relation "measure (\<lambda>(f, s). unat f)") (auto simp: half_less)

declare shift_even.simps [simp del]

fun inclusion_loop :: "(bytes \<Rightarrow> bytes) \<Rightarrow> bytes list \<Rightarrow> u64 \<Rightarrow> u64 \<Rightarrow> bytes \<Rightarrow> (u64 \<times> bytes) option"
where
  "inclusion_loop sha [] fnode snode r = Some (snode, r)"
| "inclusion_loop sha (p # path) fnode snode r =
     (if snode = 0 then None
      else if fnode AND 1 = 1 \<or> fnode = snode then
        (let r = node_hash sha p r;
             (fnode, snode) = (if fnode AND 1 = 0 then shift_even fnode snode else (fnode, snode))
         in inclusion_loop sha path (drop_bit 1 fnode) (drop_bit 1 snode) r)
      else inclusion_loop sha path (drop_bit 1 fnode) (drop_bit 1 snode) (node_hash sha r p))"

definition verify_inclusion ::
  "(bytes \<Rightarrow> bytes) \<Rightarrow> bytes \<Rightarrow> u64 \<Rightarrow> u64 \<Rightarrow> bytes list \<Rightarrow> bytes \<Rightarrow> bool" where
  "verify_inclusion sha leaf index tree_size path root =
     (if tree_size \<le> index then False
      else case inclusion_loop sha path index (tree_size - 1) (leaf_hash sha leaf) of
        None \<Rightarrow> False
      | Some (snode, r) \<Rightarrow> snode = 0 \<and> r = root)"

section \<open>Consistency verification\<close>

function climb_right_edge :: "u64 \<Rightarrow> u64 \<Rightarrow> u64 \<times> u64" where
  "climb_right_edge node last_node =
     (if node AND 1 = 1 then climb_right_edge (drop_bit 1 node) (drop_bit 1 last_node)
      else (node, last_node))"
  by auto
termination
  by (relation "measure (\<lambda>(n, l). unat n)")
    (auto simp: and_one_odd dest: odd_pos)

declare climb_right_edge.simps [simp del]

text \<open>The two folding loops. \<open>proof[idx]\<close> with \<open>idx += 1\<close> takes the head of the rest of the
  proof; an index past the end rejects.\<close>

function fold_both :: "(bytes \<Rightarrow> bytes) \<Rightarrow> u64 \<Rightarrow> u64 \<Rightarrow> bytes \<Rightarrow> bytes \<Rightarrow> bytes list
    \<Rightarrow> (u64 \<times> bytes \<times> bytes \<times> bytes list) option" where
  "fold_both sha node last_node hash_m hash_n proof' =
     (if 0 < node then
        (if node AND 1 = 1 then
           (case proof' of [] \<Rightarrow> None
            | h # rest \<Rightarrow> fold_both sha (drop_bit 1 node) (drop_bit 1 last_node)
                (node_hash sha h hash_m) (node_hash sha h hash_n) rest)
         else if node < last_node then
           (case proof' of [] \<Rightarrow> None
            | h # rest \<Rightarrow> fold_both sha (drop_bit 1 node) (drop_bit 1 last_node)
                hash_m (node_hash sha hash_n h) rest)
         else fold_both sha (drop_bit 1 node) (drop_bit 1 last_node) hash_m hash_n proof')
      else Some (last_node, hash_m, hash_n, proof'))"
  by auto
termination
  by (relation "measure (\<lambda>(sha, node, _). unat node)")
    (auto simp: word_gt_0 half_less)

declare fold_both.simps [simp del]

function fold_larger :: "(bytes \<Rightarrow> bytes) \<Rightarrow> u64 \<Rightarrow> bytes \<Rightarrow> bytes list
    \<Rightarrow> (bytes \<times> bytes list) option" where
  "fold_larger sha last_node hash_n proof' =
     (if 0 < last_node then
        (case proof' of [] \<Rightarrow> None
         | h # rest \<Rightarrow> fold_larger sha (drop_bit 1 last_node) (node_hash sha hash_n h) rest)
      else Some (hash_n, proof'))"
  by auto
termination
  by (relation "measure (\<lambda>(sha, l, _). unat l)") (auto simp: word_gt_0 half_less)

declare fold_larger.simps [simp del]

definition verify_consistency ::
  "(bytes \<Rightarrow> bytes) \<Rightarrow> u64 \<Rightarrow> bytes \<Rightarrow> u64 \<Rightarrow> bytes \<Rightarrow> bytes list \<Rightarrow> bool" where
  "verify_consistency sha m root_m n root_n proof' =
     (if n < m then False
      else if m = n then proof' = [] \<and> root_m = root_n
      else if m = 0 then proof' = []
      else case proof' of [] \<Rightarrow> False
        | seed # rest \<Rightarrow>
          (let (node, last_node) = climb_right_edge (m - 1) (n - 1);
               (hash_m, hash_n, proof1) =
                 (if 0 < node then (seed, seed, rest) else (root_m, root_m, proof'))
           in case fold_both sha node last_node hash_m hash_n proof1 of
                None \<Rightarrow> False
              | Some (last_node, hash_m, hash_n, proof2) \<Rightarrow>
                  (case fold_larger sha last_node hash_n proof2 of
                     None \<Rightarrow> False
                   | Some (hash_n, proof3) \<Rightarrow>
                       hash_m = root_m \<and> hash_n = root_n \<and> proof3 = [])))"

end
