(* ===== verification/Merkle_Levels.thy ===== *)
theory Merkle_Levels
  imports Merkle
begin

text \<open>
  The level view of a Merkle tree, against which the prover and the verifiers of
  \<^verbatim>\<open>Merkle.thy\<close> are proved. \<open>compress\<close> hashes one level into the next (an odd last node
  is promoted); the root, an audit path and a node are read off the levels. The code's
  top-down split at a power of two and its counters both amount to this.
\<close>

section \<open>Levels\<close>

fun compress :: "(bytes \<Rightarrow> bytes) \<Rightarrow> bytes list \<Rightarrow> bytes list" where
  "compress sha (a # b # hs) = node_hash sha a b # compress sha hs"
| "compress sha hs = hs"

lemma length_compress: "length (compress sha hs) = (length hs + 1) div 2"
  by (induction sha hs rule: compress.induct) auto

lemma compress_single [simp]: "compress sha [h] = [h]" and compress_Nil [simp]: "compress sha [] = []"
  by simp_all

lemma compress_append:
  "even (length xs) \<Longrightarrow> compress sha (xs @ ys) = compress sha xs @ compress sha ys"
  by (induction sha xs rule: compress.induct) auto

lemma compress_take:
  "2 * q \<le> length hs \<Longrightarrow> compress sha (take (2 * q) hs) = take q (compress sha hs)"
proof (induction q arbitrary: hs)
  case (Suc q)
  then obtain a b hs' where "hs = a # b # hs'" by (cases hs; cases "tl hs") auto
  with Suc show ?case by simp
qed simp

lemma compress_nth:
  "i < length hs \<Longrightarrow> compress sha hs ! (i div 2) =
     (if odd i then node_hash sha (hs ! (i - 1)) (hs ! i)
      else if i = length hs - 1 then hs ! i
      else node_hash sha (hs ! i) (hs ! (i + 1)))"
proof (induction sha hs arbitrary: i rule: compress.induct)
  case (1 sha a b hs)
  show ?case
  proof (cases "i < 2")
    case True
    then have "i = 0 \<or> i = 1" by auto
    then show ?thesis by auto
  next
    case False
    then obtain j where i: "i = j + 2" by (metis add.commute le_add_diff_inverse not_less)
    with 1 have j: "j < length hs" by simp
    from 1(1) [OF this] j show ?thesis
      by (cases j) (auto simp: i nth_Cons' le_Suc_eq)
  qed
qed auto

function level_root :: "(bytes \<Rightarrow> bytes) \<Rightarrow> bytes list \<Rightarrow> bytes" where
  "level_root sha hs = (if length hs \<le> 1 then hs ! 0 else level_root sha (compress sha hs))"
  by auto
termination
  by (relation "measure (\<lambda>(sha, hs). length hs)") (auto simp: length_compress)

declare level_root.simps [simp del]

lemma level_root_single [simp]: "level_root sha [h] = h"
  by (simp add: level_root.simps)

lemma level_root_compress: "level_root sha (compress sha hs) = level_root sha hs"
proof (cases "length hs \<le> 1")
  case True
  then have "compress sha hs = hs" by (cases hs; cases "tl hs") auto
  then show ?thesis by simp
next
  case False
  then show ?thesis by (subst (2) level_root.simps) simp
qed

lemma compress_nonempty [simp]: "compress sha hs = [] \<longleftrightarrow> hs = []"
  by (cases "(sha, hs)" rule: compress.cases) auto

text \<open>Splitting a level at a power of two.\<close>

lemma level_root_append:
  "length xs = 2 ^ j \<Longrightarrow> ys \<noteq> [] \<Longrightarrow> length ys \<le> 2 ^ j \<Longrightarrow>
     level_root sha (xs @ ys) = node_hash sha (level_root sha xs) (level_root sha ys)"
proof (induction j arbitrary: xs ys)
  case 0
  then obtain a b where "xs = [a]" "ys = [b]"
    by (metis One_nat_def le_antisym length_0_conv length_Suc_conv less_one not_less power_0)
  then show ?case by (simp add: level_root.simps [of _ "[a, b]"])
next
  case (Suc j)
  have "level_root sha (xs @ ys) = level_root sha (compress sha xs @ compress sha ys)"
    using Suc.prems level_root_compress [of sha "xs @ ys"] by (simp add: compress_append)
  also have "\<dots> = node_hash sha (level_root sha (compress sha xs)) (level_root sha (compress sha ys))"
    using Suc.prems by (intro Suc.IH) (auto simp: length_compress)
  finally show ?case by (simp add: level_root_compress)
qed

theorem merkle_root_levels:
  "leaves \<noteq> [] \<Longrightarrow> merkle_root sha leaves = level_root sha (map (leaf_hash sha) leaves)"
proof (induction sha leaves rule: merkle_root.induct)
  case (1 sha leaves)
  show ?case
  proof (cases "length leaves = 1")
    case True
    then obtain a where "leaves = [a]" by (metis length_0_conv length_Suc_conv One_nat_def)
    then show ?thesis by (simp add: merkle_root.simps)
  next
    case False
    with 1(3) have n: "1 < length leaves" by (cases leaves) auto
    define k where "k = largest_pow2_below (length leaves)"
    obtain j where j: "k = 2 ^ j" "k < length leaves" "length leaves \<le> 2 * k"
      using largest_pow2_below [OF n] unfolding k_def by metis
    have "merkle_root sha leaves =
        node_hash sha (merkle_root sha (take k leaves)) (merkle_root sha (drop k leaves))"
      using n by (subst merkle_root.simps) (auto simp: k_def Let_def)
    also have "merkle_root sha (take k leaves) = level_root sha (map (leaf_hash sha) (take k leaves))"
      using 1 n j by (intro 1(1) [OF _ _ k_def]) auto
    also have "merkle_root sha (drop k leaves) = level_root sha (map (leaf_hash sha) (drop k leaves))"
      using 1 n j by (intro 1(2) [OF _ _ k_def]) auto
    also have "node_hash sha (level_root sha (map (leaf_hash sha) (take k leaves)))
        (level_root sha (map (leaf_hash sha) (drop k leaves))) =
        level_root sha (map (leaf_hash sha) (take k leaves) @ map (leaf_hash sha) (drop k leaves))"
      using j by (intro level_root_append [symmetric]) auto
    finally show ?thesis by (simp flip: map_append)
  qed
qed

section \<open>Audit paths\<close>

text \<open>The siblings met on the way from node \<open>i\<close> of a level to the root.\<close>

function level_path :: "(bytes \<Rightarrow> bytes) \<Rightarrow> bytes list \<Rightarrow> nat \<Rightarrow> bytes list" where
  "level_path sha hs i =
     (if length hs \<le> 1 then []
      else (if odd i then [hs ! (i - 1)] else if i < length hs - 1 then [hs ! (i + 1)] else [])
        @ level_path sha (compress sha hs) (i div 2))"
  by auto
termination
  by (relation "measure (\<lambda>(sha, hs, i). length hs)") (auto simp: length_compress)

declare level_path.simps [simp del]

lemma level_path_single [simp]: "level_path sha [h] i = []"
  by (simp add: level_path.simps)

text \<open>The step equation also holds on a root, at its only node.\<close>

lemma level_path_step:
  "i < length hs \<Longrightarrow> level_path sha hs i =
     (if odd i then [hs ! (i - 1)] else if i < length hs - 1 then [hs ! (i + 1)] else [])
       @ level_path sha (compress sha hs) (i div 2)"
proof (cases "length hs \<le> 1")
  case True
  assume "i < length hs"
  with True obtain h where "hs = [h]" "i = 0" by (cases hs; cases "tl hs") auto
  then show ?thesis by simp
next
  case False
  then show ?thesis by (subst level_path.simps) simp
qed

lemma level_path_append:
  "length xs = 2 ^ j \<Longrightarrow> ys \<noteq> [] \<Longrightarrow> length ys \<le> 2 ^ j \<Longrightarrow> i < length xs + length ys \<Longrightarrow>
     level_path sha (xs @ ys) i =
       (if i < length xs then level_path sha xs i @ [level_root sha ys]
        else level_path sha ys (i - length xs) @ [level_root sha xs])"
proof (induction j arbitrary: xs ys i)
  case 0
  then obtain a b where "xs = [a]" "ys = [b]"
    by (metis One_nat_def le_antisym length_0_conv length_Suc_conv less_one not_less power_0)
  with 0 show ?case by (auto simp: level_path_step [of i "[a, b]"] less_2_cases_iff)
next
  case (Suc j)
  have ev: "even (length xs)" using Suc.prems by simp
  have "level_path sha (compress sha xs @ compress sha ys) (i div 2) =
      (if i div 2 < length (compress sha xs)
       then level_path sha (compress sha xs) (i div 2) @ [level_root sha (compress sha ys)]
       else level_path sha (compress sha ys) (i div 2 - length (compress sha xs))
         @ [level_root sha (compress sha xs)])"
    using Suc.prems by (intro Suc.IH) (auto simp: length_compress)
  moreover have "i div 2 < length (compress sha xs) \<longleftrightarrow> i < length xs"
    using Suc.prems by (auto simp: length_compress)
  moreover have "i div 2 - length (compress sha xs) = (i - length xs) div 2"
    if "\<not> i < length xs"
    using Suc.prems that by (auto simp: length_compress elim!: evenE)
  ultimately have tail: "level_path sha (compress sha (xs @ ys)) (i div 2) =
      (if i < length xs then level_path sha (compress sha xs) (i div 2) @ [level_root sha ys]
       else level_path sha (compress sha ys) ((i - length xs) div 2) @ [level_root sha xs])"
    by (simp add: compress_append [OF ev] level_root_compress)
  show ?case
  proof (cases "i < length xs")
    case True
    moreover have "even i \<Longrightarrow> i \<noteq> length xs - 1" using ev True by auto
    ultimately show ?thesis
      using Suc.prems(2) by (auto simp: level_path_step [of i "xs @ ys"] level_path_step [of i xs]
          tail nth_append)
  next
    case False
    then obtain d where i: "i = length xs + d" by (metis le_add_diff_inverse not_less)
    then have "d < length ys" and "odd i = odd d" using Suc.prems ev by auto
    moreover have "odd d \<Longrightarrow> \<not> length xs + d - 1 < length xs" by (cases d) auto
    ultimately show ?thesis
      using level_path_step [of d ys] ev Suc.prems(2)
      by (auto simp: i level_path_step [of "length xs + d" "xs @ ys"] tail [unfolded i] nth_append)
  qed
qed

theorem inclusion_path_levels:
  "i < length leaves \<Longrightarrow>
     inclusion_path sha i leaves = Some (level_path sha (map (leaf_hash sha) leaves) i)"
proof (induction sha i leaves rule: inclusion_path.induct)
  case (1 sha i leaves)
  show ?case
  proof (cases "length leaves \<le> 1")
    case True
    then show ?thesis using 1(3) by (simp add: inclusion_path.simps level_path.simps)
  next
    case False
    then have n: "1 < length leaves" by simp
    define k where "k = largest_pow2_below (length leaves)"
    define xs where "xs = map (leaf_hash sha) (take k leaves)"
    define ys where "ys = map (leaf_hash sha) (drop k leaves)"
    obtain j where j: "k = 2 ^ j" "k < length leaves" "length leaves \<le> 2 * k"
      using largest_pow2_below [OF n] unfolding k_def by metis
    have roots: "merkle_root sha (take k leaves) = level_root sha xs"
      "merkle_root sha (drop k leaves) = level_root sha ys"
      using j by (auto simp: xs_def ys_def intro!: merkle_root_levels)
    have "level_path sha (xs @ ys) i =
       (if i < length xs then level_path sha xs i @ [level_root sha ys]
        else level_path sha ys (i - length xs) @ [level_root sha xs])"
      using j 1(3) by (intro level_path_append) (auto simp: xs_def ys_def)
    moreover have "xs @ ys = map (leaf_hash sha) leaves"
      by (simp add: xs_def ys_def flip: map_append)
    moreover have "length xs = k" using j by (simp add: xs_def)
    moreover have "i < k \<Longrightarrow> inclusion_path sha i (take k leaves) = Some (level_path sha xs i)"
      unfolding xs_def using 1 False j by (intro 1(1) [OF _ _ k_def]) auto
    moreover have "\<not> i < k \<Longrightarrow>
        inclusion_path sha (i - k) (drop k leaves) = Some (level_path sha ys (i - k))"
      unfolding ys_def using 1 False j by (intro 1(2) [OF _ _ k_def]) auto
    ultimately show ?thesis
      using 1(3) False by (subst inclusion_path.simps) (simp add: Let_def k_def [symmetric] roots)
  qed
qed

end
