(* ===== verification/Merkle_Inclusion.thy ===== *)
theory Merkle_Inclusion
  imports Merkle_Levels
begin

text \<open>
  Inclusion proofs: \<open>climb\<close> is the verifier's walk with one step per tree level. It is
  complete and sound for \<open>level_path\<close>, and the code's loop over \<open>u64\<close> counters, which
  skips promoted nodes only after it has taken the next path element, computes it.
\<close>

section \<open>Climbing the levels\<close>

function climb :: "(bytes \<Rightarrow> bytes) \<Rightarrow> bytes list \<Rightarrow> nat \<Rightarrow> nat \<Rightarrow> bytes \<Rightarrow> bytes option" where
  "climb sha path i edge r =
     (if edge = 0 then (if path = [] then Some r else None)
      else if even i \<and> i = edge then climb sha path (i div 2) (edge div 2) r
      else case path of [] \<Rightarrow> None
        | p # path \<Rightarrow> climb sha path (i div 2) (edge div 2)
            (if odd i then node_hash sha p r else node_hash sha r p))"
  by auto
termination
  by (relation "measure (\<lambda>(sha, path, i, edge, r). edge)") auto

declare climb.simps [simp del]

lemma climb_promoted: "even i \<Longrightarrow> climb sha path i i r = climb sha path (i div 2) (i div 2) r"
  by (subst climb.simps) (auto simp: climb.simps [of sha path 0 0])

text \<open>What climbing hashes, to say which inputs must not collide.\<close>

function climb_inputs :: "(bytes \<Rightarrow> bytes) \<Rightarrow> bytes list \<Rightarrow> nat \<Rightarrow> nat \<Rightarrow> bytes \<Rightarrow> bytes set" where
  "climb_inputs sha path i edge r =
     (if edge = 0 then {}
      else if even i \<and> i = edge then climb_inputs sha path (i div 2) (edge div 2) r
      else case path of [] \<Rightarrow> {}
        | p # path \<Rightarrow>
          (let (a, b) = (if odd i then (p, r) else (r, p)) in
           insert (0x01 # a @ b) (climb_inputs sha path (i div 2) (edge div 2) (node_hash sha a b))))"
  by auto
termination
  by (relation "measure (\<lambda>(sha, path, i, edge, r). edge)") (auto split: if_splits)

declare climb_inputs.simps [simp del]

lemma climb_inputs_promoted:
  "even i \<Longrightarrow> climb_inputs sha path i i r = climb_inputs sha path (i div 2) (i div 2) r"
  by (subst climb_inputs.simps) (auto simp: climb_inputs.simps [of sha path 0 0])

text \<open>The inputs of the interior nodes of a tree over the level \<open>hs\<close>.\<close>

fun level_inputs :: "bytes list \<Rightarrow> bytes set" where
  "level_inputs (a # b # hs) = insert (0x01 # a @ b) (level_inputs hs)"
| "level_inputs hs = {}"

function node_inputs :: "(bytes \<Rightarrow> bytes) \<Rightarrow> bytes list \<Rightarrow> bytes set" where
  "node_inputs sha hs =
     (if length hs \<le> 1 then {} else level_inputs hs \<union> node_inputs sha (compress sha hs))"
  by auto
termination
  by (relation "measure (\<lambda>(sha, hs). length hs)") (auto simp: length_compress)

declare node_inputs.simps [simp del]

lemma level_inputs_nth:
  "i < length hs \<Longrightarrow> odd i \<Longrightarrow> 0x01 # hs ! (i - 1) @ hs ! i \<in> level_inputs hs"
proof (induction hs arbitrary: i rule: level_inputs.induct)
  case (1 a b hs)
  show ?case
  proof (cases "i = 1")
    case False
    with 1(3) have "2 \<le> i" by presburger
    then obtain j where i: "i = j + 2" by (metis le_add_diff_inverse2)
    with 1 have "0x01 # hs ! (j - 1) @ hs ! j \<in> level_inputs hs" by (intro 1(1)) auto
    then show ?thesis using 1(3) by (cases j) (auto simp: i)
  qed simp
qed auto

lemma node_inputs_level: "level_inputs hs \<subseteq> node_inputs sha hs"
proof (cases "length hs \<le> 1")
  case True
  then show ?thesis by (cases hs; cases "tl hs") auto
next
  case False
  then show ?thesis by (subst node_inputs.simps) auto
qed

lemma node_inputs_compress: "node_inputs sha (compress sha hs) \<subseteq> node_inputs sha hs"
proof (cases "length hs \<le> 1")
  case True
  then have "compress sha hs = hs" by (cases hs; cases "tl hs") auto
  then show ?thesis by simp
next
  case False
  then show ?thesis by (subst (2) node_inputs.simps) auto
qed

definition tree_inputs :: "(bytes \<Rightarrow> bytes) \<Rightarrow> bytes list \<Rightarrow> bytes set" where
  "tree_inputs sha leaves =
     (\<lambda>x. 0x00 # x) ` set leaves \<union> node_inputs sha (map (leaf_hash sha) leaves)"

definition no_collision :: "(bytes \<Rightarrow> bytes) \<Rightarrow> bytes set \<Rightarrow> bytes set \<Rightarrow> bool" where
  "no_collision sha A B \<longleftrightarrow> (\<forall>x \<in> A. \<forall>y \<in> B. sha x = sha y \<longrightarrow> x = y)"

lemma no_collisionD: "no_collision sha A B \<Longrightarrow> sha x = sha y \<Longrightarrow> x \<in> A \<Longrightarrow> y \<in> B \<Longrightarrow> x = y"
  by (auto simp: no_collision_def)

lemma no_collision_mono:
  "no_collision sha A B \<Longrightarrow> A' \<subseteq> A \<Longrightarrow> B' \<subseteq> B \<Longrightarrow> no_collision sha A' B'"
  by (auto simp: no_collision_def)

lemma compress_lengths:
  "\<forall>h \<in> set hs. length h = 32 \<Longrightarrow> \<forall>x. length (sha x) = 32 \<Longrightarrow>
     \<forall>h \<in> set (compress sha hs). length h = 32"
  by (induction sha hs rule: compress.induct) (auto simp: node_hash_def)

lemma node_hash_inj:
  assumes "node_hash sha a b = node_hash sha c d" and "no_collision sha A B"
    and "0x01 # a @ b \<in> A" and "0x01 # c @ d \<in> B" and "length a = length c"
  shows "a = c \<and> b = d"
proof -
  from assms(1) have "sha (0x01 # a @ b) = sha (0x01 # c @ d)" by (simp add: node_hash_def)
  from no_collisionD [OF assms(2) this assms(3,4)] assms(5) show ?thesis by simp
qed

section \<open>Completeness and soundness\<close>

theorem climb_level_path:
  "i < length hs \<Longrightarrow>
     climb sha (level_path sha hs i) i (length hs - 1) (hs ! i) = Some (level_root sha hs)"
proof (induction sha hs i rule: level_path.induct)
  case (1 sha hs i)
  show ?case
  proof (cases "length hs \<le> 1")
    case True
    with 1(2) obtain h where "hs = [h]" "i = 0" by (cases hs; cases "tl hs") auto
    then show ?thesis by (simp add: climb.simps)
  next
    case False
    have half: "i div 2 < length (compress sha hs)" using 1(2) by (auto simp: length_compress)
    have last: "length (compress sha hs) - 1 = (length hs - 1) div 2"
      using False by (auto simp: length_compress elim!: oddE)
    show ?thesis
      using 1(1) [OF False half, unfolded last level_root_compress] False 1(2)
        level_path_step [OF 1(2), of sha] compress_nth [OF 1(2), of sha]
      by (subst climb.simps) auto
  qed
qed

theorem climb_sound:
  assumes "climb sha path i (length hs - 1) r = Some (level_root sha hs)"
    and "i < length hs" and "length r = 32" and "\<forall>h \<in> set hs. length h = 32"
    and "\<forall>p \<in> set path. length p = 32" and "\<forall>x. length (sha x) = 32"
    and "no_collision sha (climb_inputs sha path i (length hs - 1) r) (node_inputs sha hs)"
  shows "r = hs ! i \<and> path = level_path sha hs i"
  using assms
proof (induction sha hs i arbitrary: path r rule: level_path.induct)
  case (1 sha hs i)
  show ?case
  proof (cases "length hs \<le> 1")
    case True
    with 1(3) obtain h where "hs = [h]" "i = 0" by (cases hs; cases "tl hs") auto
    with 1(2) show ?thesis by (auto simp: climb.simps split: if_splits)
  next
    case False
    have half: "i div 2 < length (compress sha hs)" using 1(3) by (auto simp: length_compress)
    have last: "length (compress sha hs) - 1 = (length hs - 1) div 2"
      using False by (auto simp: length_compress elim!: oddE)
    have IH: "r' = compress sha hs ! (i div 2) \<and>
        path' = level_path sha (compress sha hs) (i div 2)"
      if "climb sha path' (i div 2) ((length hs - 1) div 2) r' = Some (level_root sha hs)"
        and "length r' = 32" and "\<forall>p \<in> set path'. length p = 32"
        and "no_collision sha (climb_inputs sha path' (i div 2) ((length hs - 1) div 2) r')
          (node_inputs sha hs)" for path' r'
    proof (rule 1(1) [OF False, unfolded last level_root_compress])
      show "\<forall>h \<in> set (compress sha hs). length h = 32" using 1(5,7) by (rule compress_lengths)
      show "no_collision sha (climb_inputs sha path' (i div 2) ((length hs - 1) div 2) r')
          (node_inputs sha (compress sha hs))"
        using that(4) by (rule no_collision_mono) (simp_all add: node_inputs_compress)
    qed (use that half 1(7) in auto)
    note step = level_path_step [OF 1(3), of sha] and node = compress_nth [OF 1(3), of sha]
    show ?thesis
    proof (cases "even i \<and> i = length hs - 1")
      case True
      then have ev: "even i" and e: "i = length hs - 1" and ne: "\<not> i < length hs - 1" by auto
      have "even (length hs - 1)" using ev e by (simp only:)
      then have "climb sha path i (length hs - 1) r =
          climb sha path (i div 2) ((length hs - 1) div 2) r"
        unfolding e by (intro climb_promoted)
      moreover have "climb_inputs sha path i (length hs - 1) r =
          climb_inputs sha path (i div 2) ((length hs - 1) div 2) r"
        using \<open>even (length hs - 1)\<close> unfolding e by (intro climb_inputs_promoted)
      moreover have "level_path sha hs i = level_path sha (compress sha hs) (i div 2)"
        using step ev ne by simp
      moreover have "compress sha hs ! (i div 2) = hs ! i"
        using node ev e by (simp only: if_True if_False simp_thms)
      ultimately show ?thesis using IH [of path r] 1(2,4,6,8) by (simp only:)
    next
      case inner: False
      then obtain p path' where path: "path = p # path'"
        and up: "climb sha path' (i div 2) ((length hs - 1) div 2)
          (if odd i then node_hash sha p r else node_hash sha r p) = Some (level_root sha hs)"
        using 1(2) False by (subst (asm) climb.simps) (auto split: list.splits)
      define a b where "a = (if odd i then p else r)" and "b = (if odd i then r else p)"
      have inputs: "climb_inputs sha path i (length hs - 1) r = insert (0x01 # a @ b)
          (climb_inputs sha path' (i div 2) ((length hs - 1) div 2) (node_hash sha a b))"
        using inner False by (subst climb_inputs.simps) (auto simp: path a_def b_def)
      from up have "climb sha path' (i div 2) ((length hs - 1) div 2) (node_hash sha a b) =
          Some (level_root sha hs)"
        by (auto simp: a_def b_def split: if_splits)
      moreover have "length (node_hash sha a b) = 32" using 1(7) by (simp add: node_hash_def)
      moreover have "\<forall>p \<in> set path'. length p = 32" using 1(6) by (simp add: path)
      moreover have "no_collision sha (climb_inputs sha path' (i div 2) ((length hs - 1) div 2)
          (node_hash sha a b)) (node_inputs sha hs)"
        by (rule no_collision_mono [OF 1(8)]) (unfold inputs, blast+)
      ultimately have eq: "node_hash sha a b = compress sha hs ! (i div 2)"
        and path': "path' = level_path sha (compress sha hs) (i div 2)"
        using IH by blast+
      define j where "j = (if odd i then i else i + 1)"
      have j: "j < length hs" "odd j" using inner 1(3) by (auto simp: j_def)
      have "a = hs ! (j - 1) \<and> b = hs ! j"
      proof (rule node_hash_inj [OF _ 1(8)])
        show "node_hash sha a b = node_hash sha (hs ! (j - 1)) (hs ! j)"
          using inner by (auto simp: eq node j_def)
        show "0x01 # hs ! (j - 1) @ hs ! j \<in> node_inputs sha hs"
          using level_inputs_nth [OF j] node_inputs_level by blast
        have "hs ! (j - 1) \<in> set hs" using j by simp
        then show "length a = length (hs ! (j - 1))"
          using 1(4-6) by (auto simp: a_def path)
      qed (unfold inputs, rule insertI1)
      with inner 1(3) show ?thesis
        by (auto simp: step path path' a_def b_def j_def split: if_splits)
    qed
  qed
qed

section \<open>The loop of the code\<close>

text \<open>Skipping: while the node is even and not 0, both counters halve together.\<close>

lemma climb_shift_even:
  assumes "f \<noteq> 0" and "s = f" and "shift_even f s = (f', s')"
  shows "f' = s' \<and> odd (unat f') \<and>
    climb sha path (unat f) (unat s) r = climb sha path (unat f') (unat s') r"
  using assms
proof (induction f s rule: shift_even.induct)
  case (1 f s)
  show ?case
  proof (cases "f AND 1 = 0")
    case True
    then have ev: "even (unat f)" by (simp add: and_one_even)
    have half: "drop_bit 1 f \<noteq> 0"
    proof
      assume "drop_bit 1 f = 0"
      then have "unat f div 2 = 0" using unat_half [of f] by simp
      with ev 1(2) show False by (auto simp: unat_eq_0 elim!: evenE)
    qed
    moreover have "shift_even (drop_bit 1 f) (drop_bit 1 s) = (f', s')"
      using 1(2,4) True by (subst (asm) shift_even.simps) simp
    ultimately have "f' = s'" "odd (unat f')" and
      "climb sha path (unat f div 2) (unat f div 2) r = climb sha path (unat f') (unat s') r"
      using 1(1) True 1(2,3) by auto
    then show ?thesis using climb_promoted [OF ev, of sha path r] 1(3) by simp
  next
    case False
    then have "odd (unat f)" using and_one_even [of f] by simp
    with False 1(2-4) show ?thesis by (subst (asm) shift_even.simps) auto
  qed
qed

lemma climb_Nil: "i \<le> edge \<Longrightarrow> climb sha [] i edge r = (if edge = 0 then Some r else None)"
proof (induction edge arbitrary: i rule: less_induct)
  case (less edge)
  show ?case
  proof (cases "even i \<and> i = edge \<and> edge \<noteq> 0")
    case True
    then have "edge div 2 < edge" "edge div 2 \<noteq> 0" by (auto elim!: evenE)
    with less.IH [of "edge div 2" "edge div 2"] True show ?thesis by (subst climb.simps) simp
  next
    case False
    then show ?thesis by (subst climb.simps) auto
  qed
qed

theorem inclusion_loop_climb:
  "f \<le> s \<Longrightarrow> (case inclusion_loop sha path f s r of None \<Rightarrow> None
      | Some (s', r') \<Rightarrow> if s' = 0 then Some r' else None) = climb sha path (unat f) (unat s) r"
proof (induction path arbitrary: f s r)
  case Nil
  then show ?case by (simp add: climb_Nil word_le_nat_alt unat_eq_0)
next
  case (Cons p path)
  have half: "drop_bit 1 f' \<le> drop_bit 1 s'" if "f' \<le> s'" for f' s' :: u64
    using that by (simp add: word_le_nat_alt div_le_mono)
  show ?case
  proof (cases "s = 0")
    case True
    then show ?thesis by (simp add: climb.simps)
  next
    case s: False
    then have s0: "unat s \<noteq> 0" by (simp add: unat_eq_0)
    consider (odd) "odd (unat f)" | (edge) "even (unat f)" "f = s" | (left) "even (unat f)" "f \<noteq> s"
      by blast
    then show ?thesis
    proof cases
      case odd
      with s s0 show ?thesis using Cons.IH [OF half [OF Cons.prems], of "node_hash sha p r"]
        by (subst climb.simps) (auto simp: and_one_odd and_one_even)
    next
      case edge
      obtain f' s' where sh: "shift_even f s = (f', s')" by (cases "shift_even f s")
      have "f \<noteq> 0" using edge s by simp
      from climb_shift_even [OF this edge(2) [symmetric] sh, of sha "p # path" r]
      have "f' = s'" "odd (unat f')"
        and eq: "climb sha (p # path) (unat f) (unat s) r = climb sha (p # path) (unat f') (unat s') r"
        by blast+
      have loop: "inclusion_loop sha (p # path) f s r =
          inclusion_loop sha path (drop_bit 1 s') (drop_bit 1 s') (node_hash sha p r)"
        using edge s sh \<open>f' = s'\<close> by (simp add: and_one_even)
      have up: "climb sha (p # path) (unat f') (unat s') r =
          climb sha path (unat s' div 2) (unat s' div 2) (node_hash sha p r)"
        using \<open>odd (unat f')\<close> \<open>f' = s'\<close> by (subst climb.simps) (auto dest: odd_pos)
      show ?thesis
        unfolding loop eq up using Cons.IH [OF half [OF order_refl], of s' "node_hash sha p r"]
        by simp
    next
      case left
      then have "unat f \<noteq> unat s" by (simp add: word_unat_eq_iff)
      with left s s0 show ?thesis
        using Cons.IH [OF half [OF Cons.prems], of "node_hash sha r p"]
        by (subst climb.simps) (auto simp: and_one_odd and_one_even)
    qed
  qed
qed

section \<open>The verifier\<close>

lemma verify_inclusion_climb:
  "verify_inclusion sha leaf index n path root \<longleftrightarrow>
     index < n \<and> climb sha path (unat index) (unat n - 1) (leaf_hash sha leaf) = Some root"
proof (cases "index < n")
  case True
  then have "n \<noteq> 0" by auto
  then have n: "unat (n - 1) = unat n - 1" by (simp add: unat_minus_one)
  with True have le: "index \<le> n - 1" by (simp add: word_le_nat_alt word_less_nat_alt)
  show ?thesis
    using True inclusion_loop_climb [OF le, of sha path "leaf_hash sha leaf"] n
    by (auto simp: verify_inclusion_def not_le split: option.splits if_splits)
qed (simp add: verify_inclusion_def not_less)

definition inclusion_inputs ::
  "(bytes \<Rightarrow> bytes) \<Rightarrow> bytes \<Rightarrow> u64 \<Rightarrow> u64 \<Rightarrow> bytes list \<Rightarrow> bytes set" where
  "inclusion_inputs sha leaf index n path =
     insert (0x00 # leaf) (climb_inputs sha path (unat index) (unat n - 1) (leaf_hash sha leaf))"

lemma leaf_hash_inj:
  "leaf_hash sha x = leaf_hash sha y \<Longrightarrow> no_collision sha A B \<Longrightarrow> 0x00 # x \<in> A \<Longrightarrow> 0x00 # y \<in> B \<Longrightarrow>
     x = y"
  unfolding leaf_hash_def by (drule (3) no_collisionD) simp

lemma leaf_hashes_32:
  "\<forall>x. length (sha x) = 32 \<Longrightarrow> \<forall>h \<in> set (map (leaf_hash sha) leaves). length h = 32"
  by (simp add: leaf_hash_def)

lemma merkle_included_complete:
  assumes "i < length leaves" and "length leaves < 2 ^ 64"
  shows "\<exists>path. inclusion_path sha i leaves = Some path \<and>
    verify_inclusion sha (leaves ! i) (word_of_nat i) (word_of_nat (length leaves)) path
      (merkle_root sha leaves)"
proof -
  let ?hs = "map (leaf_hash sha) leaves"
  have nat: "unat (word_of_nat i :: u64) = i"
    "unat (word_of_nat (length leaves) :: u64) = length leaves"
    using assms by (simp_all add: unat_of_nat)
  have "climb sha (level_path sha ?hs i) i (length ?hs - 1) (?hs ! i) = Some (level_root sha ?hs)"
    using assms(1) by (intro climb_level_path) simp
  moreover have "leaves \<noteq> []" using assms(1) by auto
  ultimately have "verify_inclusion sha (leaves ! i) (word_of_nat i) (word_of_nat (length leaves))
      (level_path sha ?hs i) (merkle_root sha leaves)"
    using assms(1) by (simp add: verify_inclusion_climb nat merkle_root_levels word_less_nat_alt)
  with inclusion_path_levels [OF assms(1), of sha] show ?thesis by blast
qed

text \<open>A 32-byte function to instantiate the hash parameter with in concrete runs.\<close>

definition toy_sha :: "bytes \<Rightarrow> bytes" where
  "toy_sha x = take 32 (x @ replicate 32 0)"

lemma length_toy_sha [simp]: "length (toy_sha x) = 32"
  by (simp add: toy_sha_def)

lemma merkle_included_iff:
  assumes "unat n = length leaves" and "\<forall>p \<in> set path. length p = 32"
    and "\<forall>x. length (sha x) = 32"
    and "no_collision sha (inclusion_inputs sha leaf index n path) (tree_inputs sha leaves)"
  shows "verify_inclusion sha leaf index n path (merkle_root sha leaves) \<longleftrightarrow>
    index < n \<and> leaf = leaves ! unat index \<and> inclusion_path sha (unat index) leaves = Some path"
proof (cases "index < n")
  case True
  let ?hs = "map (leaf_hash sha) leaves"
  from True have i: "unat index < length leaves" using assms(1) by (simp add: word_less_nat_alt)
  then have root: "merkle_root sha leaves = level_root sha ?hs" by (intro merkle_root_levels) auto
  have nc: "no_collision sha (climb_inputs sha path (unat index) (length ?hs - 1) (leaf_hash sha leaf))
      (node_inputs sha ?hs)"
    by (rule no_collision_mono [OF assms(4)])
      (auto simp: inclusion_inputs_def tree_inputs_def assms(1))
  have "leaf = leaves ! unat index \<and> path = level_path sha ?hs (unat index)"
    if "climb sha path (unat index) (length ?hs - 1) (leaf_hash sha leaf) = Some (level_root sha ?hs)"
  proof -
    from climb_sound [OF that _ _ leaf_hashes_32 assms(2,3) nc] i assms(3)
    have "leaf_hash sha leaf = leaf_hash sha (leaves ! unat index)"
      and "path = level_path sha ?hs (unat index)" by (auto simp: leaf_hash_def)
    with leaf_hash_inj [OF _ assms(4)] i show ?thesis
      by (auto simp: inclusion_inputs_def tree_inputs_def)
  qed
  moreover have "climb sha (level_path sha ?hs (unat index)) (unat index) (length ?hs - 1)
      (leaf_hash sha (leaves ! unat index)) = Some (level_root sha ?hs)"
    using climb_level_path [of "unat index" ?hs sha] i by simp
  ultimately show ?thesis
    using True by (auto simp: verify_inclusion_climb root inclusion_path_levels [OF i] assms(1))
qed (simp add: verify_inclusion_climb)

lemma toy_no_collision:
  "no_collision toy_sha (inclusion_inputs toy_sha [2] 1 2 [toy_sha [0, 1]]) (tree_inputs toy_sha [[1], [2]])"
proof -
  have "inclusion_inputs toy_sha [2] 1 2 [toy_sha [0, 1]] =
      {[0, 2], 1 # toy_sha [0, 1] @ toy_sha [0, 2]}"
    by (simp add: inclusion_inputs_def climb_inputs.simps leaf_hash_def)
  moreover have "tree_inputs toy_sha [[1], [2]] =
      {[0, 1], [0, 2], 1 # toy_sha [0, 1] @ toy_sha [0, 2]}"
    by (auto simp: tree_inputs_def node_inputs.simps leaf_hash_def)
  ultimately show ?thesis by (simp add: no_collision_def toy_sha_def)
qed

end
