(* ===== verification/Merkle_Consistency.thy ===== *)
theory Merkle_Consistency
  imports Merkle_Inclusion
begin

text \<open>
  Consistency proofs: the proof for sizes \<open>m < n\<close> is the audit path, in the larger tree, of
  the largest complete subtree that ends the first \<open>m\<close> leaves, and the verifier rebuilds
  both roots along it. Accepting means the larger log extends the smaller one.
\<close>

section \<open>The starting node\<close>

text \<open>Climbing while the node is a right child: the complete subtree that ends at it.\<close>

function climb_ones :: "(bytes \<Rightarrow> bytes) \<Rightarrow> bytes list \<Rightarrow> nat \<Rightarrow> bytes list \<times> nat" where
  "climb_ones sha hs i =
     (if odd i then climb_ones sha (compress sha hs) (i div 2) else (hs, i))"
  by auto
termination
  by (relation "measure (\<lambda>(sha, hs, i). i)") (auto elim: oddE)

declare climb_ones.simps [simp del]

lemma climb_ones_invariant:
  assumes "climb_ones sha hs i = (B, node)" and "i < length hs"
  shows "node < length B \<and> even node \<and> (Suc i < length hs \<longrightarrow> Suc node < length B) \<and> level_root sha B = level_root sha hs \<and>
    level_root sha (take (Suc node) B) = level_root sha (take (Suc i) hs) \<and>
    node_inputs sha B \<subseteq> node_inputs sha hs \<and>
    ((\<forall>h \<in> set hs. length h = 32) \<and> (\<forall>x. length (sha x) = 32) \<longrightarrow> (\<forall>h \<in> set B. length h = 32))"
  using assms
proof (induction sha hs i rule: climb_ones.induct)
  case (1 sha hs i)
  show ?case
  proof (cases "odd i")
    case True
    have B: "climb_ones sha (compress sha hs) (i div 2) = (B, node)"
      using 1(2) True by (subst (asm) climb_ones.simps) simp
    have half: "i div 2 < length (compress sha hs)" using 1(3) by (auto simp: length_compress)
    have "take (Suc (i div 2)) (compress sha hs) = compress sha (take (2 * Suc (i div 2)) hs)"
      using True 1(3) by (intro compress_take [symmetric]) (auto elim!: oddE)
    also have "2 * Suc (i div 2) = Suc i" using True by (auto elim!: oddE)
    finally have "level_root sha (take (Suc (i div 2)) (compress sha hs)) =
        level_root sha (take (Suc i) hs)"
      by (simp only: level_root_compress)
    note prefix = this
    note IH = 1(1) [OF True B half]
    from IH have "node < length B" "even node" by blast+
    moreover have "Suc node < length B" if "Suc i < length hs"
    proof -
      from that True have "Suc (i div 2) < length (compress sha hs)"
        by (auto simp: length_compress elim!: oddE)
      with IH show ?thesis by blast
    qed
    moreover from IH have "level_root sha B = level_root sha hs"
      by (simp only: level_root_compress)
    moreover from IH have "level_root sha (take (Suc node) B) = level_root sha (take (Suc i) hs)"
      by (simp only: prefix)
    moreover from IH have "node_inputs sha B \<subseteq> node_inputs sha hs"
      using node_inputs_compress [of sha hs] by blast
    moreover from IH have "(\<forall>h \<in> set hs. length h = 32) \<and> (\<forall>x. length (sha x) = 32) \<longrightarrow>
        (\<forall>h \<in> set B. length h = 32)"
      using compress_lengths [of hs sha] by blast
    ultimately show ?thesis by blast
  next
    case False
    then show ?thesis using 1(2,3) by (subst (asm) climb_ones.simps) auto
  qed
qed

lemma climb_right_edge_levels:
  "climb_right_edge node lst = (node', lst') \<Longrightarrow> unat lst = length hs - 1 \<Longrightarrow> hs \<noteq> [] \<Longrightarrow>
     \<exists>B. climb_ones sha hs (unat node) = (B, unat node') \<and> unat lst' = length B - 1 \<and> B \<noteq> []"
proof (induction node lst arbitrary: hs rule: climb_right_edge.induct)
  case (1 node lst)
  show ?case
  proof (cases "node AND 1 = 1")
    case True
    have "\<exists>B. climb_ones sha (compress sha hs) (unat (drop_bit 1 node)) = (B, unat node') \<and>
        unat lst' = length B - 1 \<and> B \<noteq> []"
      using 1(2-4) True by (intro 1(1) [OF True])
        (auto simp: climb_right_edge.simps [of node lst] length_compress)
    with True show ?thesis by (subst climb_ones.simps) (simp add: and_one_odd)
  next
    case False
    then show ?thesis using 1(2-4)
      by (subst climb_ones.simps) (auto simp: climb_right_edge.simps [of node lst] and_one_odd)
  qed
qed

section \<open>The two folds\<close>

text \<open>The smaller root takes only the left siblings of the path.\<close>

function climb_smaller :: "(bytes \<Rightarrow> bytes) \<Rightarrow> bytes list \<Rightarrow> nat \<Rightarrow> nat \<Rightarrow> bytes \<Rightarrow> bytes" where
  "climb_smaller sha path i edge h =
     (if i = 0 then h
      else if even i \<and> edge \<le> i then climb_smaller sha path (i div 2) (edge div 2) h
      else case path of [] \<Rightarrow> h
        | p # path \<Rightarrow> climb_smaller sha path (i div 2) (edge div 2)
            (if odd i then node_hash sha p h else h))"
  by auto
termination
  by (relation "measure (\<lambda>(sha, path, i, edge, h). i)") auto

declare climb_smaller.simps [simp del]

lemma fold_larger_climb:
  "(case fold_larger sha s h ps of None \<Rightarrow> None
     | Some (h', rest) \<Rightarrow> if rest = [] then Some h' else None) = climb sha ps 0 (unat s) h"
proof (induction sha s h ps rule: fold_larger.induct)
  case (1 sha s h ps)
  show ?case
  proof (cases "0 < s")
    case True
    then have "unat s \<noteq> 0" by (simp add: word_gt_0 unat_eq_0)
    with True 1 show ?thesis
      by (subst fold_larger.simps, subst climb.simps) (auto split: list.splits)
  next
    case False
    then show ?thesis by (simp add: fold_larger.simps climb.simps word_gt_0)
  qed
qed

lemma fold_both_climb:
  "f \<le> s \<Longrightarrow> (case fold_both sha f s hm hn ps of None \<Rightarrow> None
     | Some (s', hm', hn', ps') \<Rightarrow>
         map_option (Pair hm') (climb sha ps' 0 (unat s') hn')) =
   map_option (Pair (climb_smaller sha ps (unat f) (unat s) hm)) (climb sha ps (unat f) (unat s) hn)"
proof (induction sha f s hm hn ps rule: fold_both.induct)
  case (1 sha f s hm hn ps)
  have half: "drop_bit 1 f \<le> drop_bit 1 s"
    using 1(4) by (simp add: word_le_nat_alt div_le_mono)
  show ?case
  proof (cases "0 < f")
    case pos: True
    then have "unat f \<noteq> 0" by (simp add: word_gt_0 unat_eq_0)
    then have "unat s \<noteq> 0" and "0 < unat f" using 1(4) by (simp_all add: word_le_nat_alt)
    note eqs = fold_both.simps [of sha f s hm hn] climb.simps [of sha _ "unat f" "unat s" hn]
      climb_smaller.simps [of sha _ "unat f" "unat s" hm]
    consider (odd) "odd (unat f)" | (left) "even (unat f)" "f < s" | (edge) "even (unat f)" "f = s"
      using 1(4) by fastforce
    then show ?thesis
    proof cases
      case odd
      then have "f AND 1 = 1" by (simp add: and_one_odd)
      then show ?thesis using pos odd \<open>unat s \<noteq> 0\<close> \<open>0 < unat f\<close> 1(1) [OF pos _ _ half]
        by (cases ps) (simp_all add: eqs)
    next
      case left
      then have "f AND 1 \<noteq> 1" and "unat f < unat s" by (simp_all add: and_one_odd word_less_nat_alt)
      then show ?thesis using pos left \<open>unat s \<noteq> 0\<close> \<open>0 < unat f\<close> 1(2) [OF pos _ _ _ half]
        by (cases ps) (simp_all add: eqs)
    next
      case edge
      then have "f AND 1 \<noteq> 1" and "\<not> f < s" by (simp_all add: and_one_odd)
      then show ?thesis
        using pos edge \<open>unat s \<noteq> 0\<close> \<open>0 < unat f\<close> 1(3) [OF pos _ _ half]
        by (simp add: eqs [unfolded edge(2)])
    qed
  next
    case False
    then show ?thesis by (simp add: fold_both.simps climb_smaller.simps word_gt_0)
  qed
qed

lemma climb_smaller_level_path:
  assumes "i < length B" and "length A = Suc i" and "take i A = take i B"
  shows "climb_smaller sha (level_path sha B i) i (length B - 1) (A ! i) = level_root sha A"
  using assms
proof (induction sha B i arbitrary: A rule: level_path.induct)
  case (1 sha B i)
  show ?case
  proof (cases "i = 0")
    case True
    with 1(3) obtain a where "A = [a]" by (cases A) auto
    with True show ?thesis by (simp add: climb_smaller.simps)
  next
    case pos: False
    with 1(2) have long: "\<not> length B \<le> 1" by auto
    have last: "length (compress sha B) - 1 = (length B - 1) div 2"
      using long by (auto simp: length_compress elim!: oddE)
    have half: "i div 2 < length (compress sha B)" using 1(2) by (auto simp: length_compress)
    have len: "length (compress sha A) = Suc (i div 2)" using 1(3) by (simp add: length_compress)
    have "take (2 * (i div 2)) A = take (2 * (i div 2)) B"
      using arg_cong [OF 1(4), of "take (2 * (i div 2))"] by (simp add: min_def split: if_splits)
    then have "take (i div 2) (compress sha A) = take (i div 2) (compress sha B)"
      using compress_take [of "i div 2" A sha] compress_take [of "i div 2" B sha] 1(2,3) by simp
    note IH = 1(1) [OF long half len this, unfolded last level_root_compress]
    have A: "compress sha A ! (i div 2) = (if odd i then node_hash sha (B ! (i - 1)) (A ! i) else A ! i)"
    proof -
      have "A ! (i - 1) = B ! (i - 1)"
        using arg_cong [OF 1(4), of "\<lambda>xs. xs ! (i - 1)"] pos by simp
      then show ?thesis using compress_nth [of i A sha] 1(3) by simp
    qed
    show ?thesis
      using IH pos 1(2) by (subst climb_smaller.simps) (auto simp: A level_path_step [OF 1(2)])
  qed
qed

section \<open>The verifier on levels\<close>

text \<open>What the general case does, over the levels of the larger tree.\<close>

definition rebuild :: "(bytes \<Rightarrow> bytes) \<Rightarrow> bytes list \<Rightarrow> nat \<Rightarrow> bytes \<Rightarrow> bytes list
    \<Rightarrow> (bytes \<times> bytes) option" where
  "rebuild sha B node seed rest =
     map_option (Pair (climb_smaller sha rest node (length B - 1) seed))
       (climb sha rest node (length B - 1) seed)"

lemma verify_consistency_levels:
  assumes "0 < m" and "m < n" and "unat n = length hs"
    and B: "climb_ones sha hs (unat m - 1) = (B, node)"
  shows "verify_consistency sha m root_m n root_n proof' \<longleftrightarrow>
    (case proof' of [] \<Rightarrow> False
     | seed # rest \<Rightarrow>
         (if 0 < node then rebuild sha B node seed rest else rebuild sha B 0 root_m proof')
           = Some (root_m, root_n))"
proof (cases proof')
  case Nil
  then show ?thesis using assms by (auto simp: verify_consistency_def)
next
  case (Cons seed rest)
  obtain node' lst' where edge: "climb_right_edge (m - 1) (n - 1) = (node', lst')"
    by (cases "climb_right_edge (m - 1) (n - 1)")
  have "m \<noteq> 0" "n \<noteq> 0" using assms(1,2) by auto
  then have pred: "unat (m - 1) = unat m - 1" "unat (n - 1) = unat n - 1"
    by (simp_all add: unat_minus_one)
  have "hs \<noteq> []" using assms(3) \<open>n \<noteq> 0\<close> by (auto simp: unat_eq_0)
  from climb_right_edge_levels [OF edge _ this, of sha] B pred assms(3)
  have node: "unat node' = node" and last: "unat lst' = length B - 1" by auto
  have i: "unat m - 1 < length hs" using assms(2,3) by (simp add: word_less_nat_alt)
  from climb_ones_invariant [OF B i] have le: "node' \<le> lst'"
    by (auto simp: word_le_nat_alt node last)
  have pos: "0 < node' \<longleftrightarrow> 0 < node" using node by (simp add: word_less_nat_alt)
  have folds: "(case fold_both sha node' lst' seed' seed' ps of None \<Rightarrow> False
      | Some (last_node, hash_m, hash_n, ps2) \<Rightarrow>
          (case fold_larger sha last_node hash_n ps2 of None \<Rightarrow> False
           | Some (hash_n, ps3) \<Rightarrow> hash_m = root_m \<and> hash_n = root_n \<and> ps3 = [])) \<longleftrightarrow>
      rebuild sha B node seed' ps = Some (root_m, root_n)" for seed' ps
  proof -
    have larger: "(case fold_larger sha s h qs of None \<Rightarrow> False
        | Some (hash_n, ps3) \<Rightarrow> hash_m = root_m \<and> hash_n = root_n \<and> ps3 = []) \<longleftrightarrow>
        map_option (Pair hash_m) (climb sha qs 0 (unat s) h) = Some (root_m, root_n)" for s h qs hash_m
      using fold_larger_climb [of sha s h qs]
      by (auto split: option.splits if_splits prod.splits)
    have "(case fold_both sha node' lst' seed' seed' ps of None \<Rightarrow> None
     | Some (s', hm', hn', ps') \<Rightarrow> map_option (Pair hm') (climb sha ps' 0 (unat s') hn')) =
        rebuild sha B node seed' ps"
      unfolding rebuild_def fold_both_climb [OF le] node last ..
    then show ?thesis
      unfolding larger by (auto split: option.splits prod.splits)
  qed
  have "\<not> n < m" "m \<noteq> n" using assms(2) by auto
  then show ?thesis
    using \<open>m \<noteq> 0\<close> folds [of seed rest] folds [of root_m proof']
    by (cases "0 < node") (simp_all add: verify_consistency_def Cons edge pos)
qed

section \<open>The prover on levels\<close>

text \<open>The proof: the starting node, unless the verifier holds its root, and its audit path.\<close>

definition level_proof :: "(bytes \<Rightarrow> bytes) \<Rightarrow> bytes list \<Rightarrow> nat \<Rightarrow> bool \<Rightarrow> bytes list" where
  "level_proof sha hs i b =
     (let (B, node) = climb_ones sha hs i in
      (if 0 < node \<or> \<not> b then [B ! node] else []) @ level_path sha B node)"

lemma level_proof_odd: "odd i \<Longrightarrow> level_proof sha hs i b = level_proof sha (compress sha hs) (i div 2) b"
  by (simp add: level_proof_def climb_ones.simps [of sha hs i])

lemma level_proof_even: "even i \<Longrightarrow>
    level_proof sha hs i b = (if 0 < i \<or> \<not> b then [hs ! i] else []) @ level_path sha hs i"
  by (simp add: level_proof_def climb_ones.simps [of sha hs i])

lemma level_proof_left:
  "length xs = 2 ^ j \<Longrightarrow> ys \<noteq> [] \<Longrightarrow> length ys \<le> 2 ^ j \<Longrightarrow> i < length xs \<Longrightarrow>
     level_proof sha (xs @ ys) i b = level_proof sha xs i b @ [level_root sha ys]"
proof (induction j arbitrary: xs ys i)
  case 0
  then have "i = 0" by simp
  with 0 level_path_append [of xs 0 ys 0 sha] show ?case
    by (simp add: level_proof_even nth_append)
next
  case (Suc j)
  show ?case
  proof (cases "odd i")
    case True
    have "level_proof sha (compress sha xs @ compress sha ys) (i div 2) b =
        level_proof sha (compress sha xs) (i div 2) b @ [level_root sha (compress sha ys)]"
      using Suc.prems by (intro Suc.IH) (auto simp: length_compress)
    then show ?thesis
      using True Suc.prems by (simp add: level_proof_odd compress_append level_root_compress)
  next
    case False
    then show ?thesis
      using Suc.prems level_path_append [of xs "Suc j" ys i sha]
      by (simp add: level_proof_even nth_append)
  qed
qed

lemma level_proof_right:
  "length xs = 2 ^ j \<Longrightarrow> length ys \<le> 2 ^ j \<Longrightarrow> Suc i < length ys \<Longrightarrow>
     level_proof sha (xs @ ys) (length xs + i) b = level_proof sha ys i False @ [level_root sha xs]"
proof (induction j arbitrary: xs ys i)
  case (Suc j)
  show ?case
  proof (cases "odd i")
    case True
    have half: "(length xs + i) div 2 = length (compress sha xs) + i div 2"
      using Suc.prems(1) by (simp add: length_compress)
    have "level_proof sha (compress sha xs @ compress sha ys) (length (compress sha xs) + i div 2) b =
        level_proof sha (compress sha ys) (i div 2) False @ [level_root sha (compress sha xs)]"
      using Suc.prems True by (intro Suc.IH) (auto simp: length_compress elim!: oddE)
    then show ?thesis
      using True Suc.prems
      by (simp add: level_proof_odd half compress_append level_root_compress length_compress)
  next
    case False
    have "ys \<noteq> []" using Suc.prems(3) by auto
    with False show ?thesis
      using Suc.prems level_path_append [of xs "Suc j" ys "length xs + i" sha]
      by (auto simp: level_proof_even nth_append)
  qed
qed simp

lemma level_proof_root:
  "length hs = 2 ^ j \<Longrightarrow> level_proof sha hs (length hs - 1) b = (if b then [] else [level_root sha hs])"
proof (induction j arbitrary: hs)
  case 0
  then obtain h where "hs = [h]" by (metis length_0_conv length_Suc_conv power_0 One_nat_def)
  then show ?case by (simp add: level_proof_even)
next
  case (Suc j)
  have "odd (length hs - 1)" using Suc.prems by simp
  moreover have "(length hs - 1) div 2 = length (compress sha hs) - 1"
    using Suc.prems by (simp add: length_compress)
  ultimately show ?case
    using Suc.IH [of "compress sha hs"] Suc.prems
    by (simp add: level_proof_odd level_root_compress length_compress)
qed

theorem consistency_subproof_levels:
  "0 < m \<Longrightarrow> m < length d \<or> m = length d \<and> length d = 2 ^ j \<Longrightarrow>
     consistency_subproof sha m d b = level_proof sha (map (leaf_hash sha) d) (m - 1) b"
proof (induction sha m d b arbitrary: j rule: consistency_subproof.induct)
  case (1 sha m d b)
  show ?case
  proof (cases "m = length d")
    case True
    then have "d \<noteq> []" using 1(3) by auto
    with True 1(4) level_proof_root [of "map (leaf_hash sha) d" j sha b] show ?thesis
      by (subst consistency_subproof.simps) (auto simp: merkle_root_levels)
  next
    case False
    then have n: "1 < length d" "m < length d" using 1(3,4) by auto
    define k where "k = largest_pow2_below (length d)"
    define xs where "xs = map (leaf_hash sha) (take k d)"
    define ys where "ys = map (leaf_hash sha) (drop k d)"
    obtain i where i: "k = 2 ^ i" "k < length d" "length d \<le> 2 * k"
      using largest_pow2_below [OF n(1)] unfolding k_def by metis
    have roots: "merkle_root sha (take k d) = level_root sha xs"
      "merkle_root sha (drop k d) = level_root sha ys"
      using i by (auto simp: xs_def ys_def intro!: merkle_root_levels)
    have d: "map (leaf_hash sha) d = xs @ ys" by (simp add: xs_def ys_def flip: map_append)
    have lens: "length xs = 2 ^ i" "length ys \<le> 2 ^ i" "ys \<noteq> []" "length ys = length d - k"
      using i by (auto simp: xs_def ys_def)
    show ?thesis
    proof (cases "m \<le> k")
      case True
      have "consistency_subproof sha m (take k d) b = level_proof sha xs (m - 1) b"
        unfolding xs_def using False n True i 1(3) by (intro 1(1) [OF _ _ k_def, of i]) auto
      moreover have "m - 1 < length xs" using True i lens 1(3) by simp
      ultimately show ?thesis
        using False n True level_proof_left [OF lens(1,3,2), of "m - 1" sha b]
        by (subst consistency_subproof.simps) (simp add: Let_def k_def [symmetric] roots d lens)
    next
      case right: False
      have "consistency_subproof sha (m - k) (drop k d) False = level_proof sha ys (m - k - 1) False"
        unfolding ys_def using False n right i by (intro 1(2) [OF _ _ k_def, of i]) auto
      moreover have "m - 1 = length xs + (m - k - 1)" using right i lens by simp
      ultimately show ?thesis
        using False n right level_proof_right [OF lens(1,2), of "m - k - 1" sha b]
        by (subst consistency_subproof.simps) (simp add: Let_def k_def [symmetric] roots d lens)
    qed
  qed
qed

section \<open>Completeness and soundness\<close>

lemma take_Suc_node:
  "i < length B \<Longrightarrow> climb_smaller sha (level_path sha B i) i (length B - 1) (B ! i) =
     level_root sha (take (Suc i) B)"
  using climb_smaller_level_path [of i B "take (Suc i) B" sha] by simp

lemma rebuild_level_path:
  "i < length B \<Longrightarrow> rebuild sha B i (B ! i) (level_path sha B i) =
     Some (level_root sha (take (Suc i) B), level_root sha B)"
  by (simp add: rebuild_def climb_level_path [unfolded One_nat_def]
      take_Suc_node [unfolded One_nat_def])

lemma merkle_extends_complete:
  assumes "m \<le> n" and "unat n \<le> length leaves"
  shows "\<exists>p. consistency_path sha leaves m n = Some p \<and>
    verify_consistency sha m (merkle_root sha (take (unat m) leaves)) n
      (merkle_root sha (take (unat n) leaves)) p"
proof (cases "0 < m \<and> m < n")
  case False
  then have "m = 0 \<or> m = n" using assms(1) by (auto simp: word_gt_0)
  then show ?thesis
  proof
    assume "m = n"
    then show ?thesis using assms(2)
      by (simp add: consistency_path_def verify_consistency_def consistency_subproof.simps)
  qed (simp add: consistency_path_def verify_consistency_def)
next
  case True
  then have lt: "unat m < unat n" "0 < unat m" by (simp_all add: word_less_nat_alt)
  let ?d = "take (unat n) leaves"
  let ?hs = "map (leaf_hash sha) ?d"
  have len: "unat n = length ?hs" using assms(2) by simp
  obtain B node where B: "climb_ones sha ?hs (unat m - 1) = (B, node)"
    by (cases "climb_ones sha ?hs (unat m - 1)")
  have i: "unat m - 1 < length ?hs" using len lt by simp
  note inv = climb_ones_invariant [OF B i]
  have "Suc (unat m - 1) = unat m" using lt by simp
  with inv have node: "node < length B"
    and roots: "level_root sha B = level_root sha ?hs"
      "level_root sha (take (Suc node) B) = level_root sha (take (unat m) ?hs)" by auto
  have ne: "?d \<noteq> []" "take (unat m) leaves \<noteq> []" using lt assms(2) by auto
  have "take (unat m) ?hs = map (leaf_hash sha) (take (unat m) leaves)"
    using lt by (simp add: take_map min_absorb1)
  note mroots = merkle_root_levels [OF ne(1), of sha]
    merkle_root_levels [OF ne(2), of sha, folded this]
  have "consistency_subproof sha (unat m) ?d True = level_proof sha ?hs (unat m - 1) True"
    using lt len by (intro consistency_subproof_levels) auto
  then have path: "consistency_path sha leaves m n =
      Some ((if 0 < node then [B ! node] else []) @ level_path sha B node)"
    using True assms by (auto simp: consistency_path_def level_proof_def B [unfolded One_nat_def])
  have long: "Suc node < length B" using inv lt len by auto
  then have "verify_consistency sha m (level_root sha (take (Suc node) B)) n (level_root sha B)
      ((if 0 < node then [B ! node] else []) @ level_path sha B node)"
    using rebuild_level_path [OF node, of sha] level_path_step [OF node, of sha]
    unfolding verify_consistency_levels [OF conjunct1 [OF True] conjunct2 [OF True] len B]
    by (cases B) auto
  then show ?thesis unfolding path mroots roots by blast
qed

text \<open>Equal roots over equally many leaves mean equal leaves.\<close>

lemma compress_inj:
  "compress sha xs = compress sha ys \<Longrightarrow> length xs = length ys \<Longrightarrow>
     \<forall>h \<in> set xs. length h = 32 \<Longrightarrow> \<forall>h \<in> set ys. length h = 32 \<Longrightarrow>
     no_collision sha (level_inputs xs) (level_inputs ys) \<Longrightarrow> xs = ys"
proof (induction sha xs arbitrary: ys rule: compress.induct [case_names pair empty single])
  case (pair sha a b xs)
  note 1 = pair
  from 1(3) obtain c d ys' where ys: "ys = c # d # ys'"
    by (cases ys; cases "tl ys") auto
  have "a = c \<and> b = d"
    by (rule node_hash_inj [OF _ 1(6)]) (use 1(2,4,5) in \<open>auto simp: ys\<close>)
  moreover have "xs = ys'"
    using 1(2-5) no_collision_mono [OF 1(6), of "level_inputs xs" "level_inputs ys'"]
    by (intro 1(1)) (auto simp: ys)
  ultimately show ?case by (simp add: ys)
next
  case (single sha h)
  then show ?case by (cases ys; cases "tl ys") auto
qed simp

lemma level_root_inj:
  "level_root sha xs = level_root sha ys \<Longrightarrow> length xs = length ys \<Longrightarrow> xs \<noteq> [] \<Longrightarrow>
     \<forall>h \<in> set xs. length h = 32 \<Longrightarrow> \<forall>h \<in> set ys. length h = 32 \<Longrightarrow> \<forall>x. length (sha x) = 32 \<Longrightarrow>
     no_collision sha (node_inputs sha xs) (node_inputs sha ys) \<Longrightarrow> xs = ys"
proof (induction sha xs arbitrary: ys rule: level_root.induct)
  case (1 sha xs)
  show ?case
  proof (cases "length xs \<le> 1")
    case True
    with 1(3,4) obtain x y where "xs = [x]" "ys = [y]"
      by (cases xs; cases ys; cases "tl xs"; cases "tl ys") auto
    with 1(2) show ?thesis by simp
  next
    case False
    have "compress sha xs = compress sha ys"
    proof (rule 1(1) [OF False _ _ _ _ _ 1(7)])
      show "level_root sha (compress sha xs) = level_root sha (compress sha ys)"
        using 1(2) by (simp only: level_root_compress)
      show "no_collision sha (node_inputs sha (compress sha xs)) (node_inputs sha (compress sha ys))"
        by (rule no_collision_mono [OF 1(8) node_inputs_compress node_inputs_compress])
    qed (use 1(3,4) compress_lengths [OF 1(5,7)] compress_lengths [OF 1(6,7)]
        in \<open>simp_all add: length_compress\<close>)
    moreover have "no_collision sha (level_inputs xs) (level_inputs ys)"
      by (rule no_collision_mono [OF 1(8) node_inputs_level node_inputs_level])
    ultimately show ?thesis using 1(3,5,6) compress_inj by blast
  qed
qed

theorem merkle_root_inj:
  assumes "merkle_root sha xs = merkle_root sha ys" and "length xs = length ys"
    and "\<forall>x. length (sha x) = 32" and "no_collision sha (tree_inputs sha xs) (tree_inputs sha ys)"
  shows "xs = ys"
proof (cases "xs = []")
  case False
  with assms(2) have "ys \<noteq> []" by auto
  have "no_collision sha (node_inputs sha (map (leaf_hash sha) xs))
      (node_inputs sha (map (leaf_hash sha) ys))"
    by (rule no_collision_mono [OF assms(4)]) (simp_all add: tree_inputs_def)
  then have "map (leaf_hash sha) xs = map (leaf_hash sha) ys"
    using False \<open>ys \<noteq> []\<close> assms(1-3)
    by (intro level_root_inj leaf_hashes_32) (simp_all add: merkle_root_levels)
  moreover have "leaf_hash sha x = leaf_hash sha y \<Longrightarrow> x = y" if "x \<in> set xs" "y \<in> set ys" for x y
    using leaf_hash_inj [OF _ assms(4), of x y] that by (auto simp: tree_inputs_def)
  ultimately show ?thesis
    using assms(2) by (auto simp: list_eq_iff_nth_eq)
qed (use assms(2) in simp)

text \<open>What the verifier hashes towards the larger root.\<close>

definition consistency_inputs ::
  "(bytes \<Rightarrow> bytes) \<Rightarrow> u64 \<Rightarrow> bytes \<Rightarrow> u64 \<Rightarrow> bytes list \<Rightarrow> bytes set" where
  "consistency_inputs sha m root_m n proof' =
     (let (node, last_node) = climb_right_edge (m - 1) (n - 1) in
      case proof' of [] \<Rightarrow> {}
      | seed # rest \<Rightarrow>
          if 0 < node then climb_inputs sha rest (unat node) (unat last_node) seed
          else climb_inputs sha proof' 0 (unat last_node) root_m)"

lemma rebuild_sound:
  assumes "rebuild sha B i seed ps = Some (h, level_root sha B)" and "i < length B"
    and "length seed = 32" and "\<forall>h \<in> set B. length h = 32" and "\<forall>p \<in> set ps. length p = 32"
    and "\<forall>x. length (sha x) = 32"
    and "no_collision sha (climb_inputs sha ps i (length B - 1) seed) (node_inputs sha B)"
  shows "h = level_root sha (take (Suc i) B)"
proof -
  from assms(1) have climb: "climb sha ps i (length B - 1) seed = Some (level_root sha B)"
    and h: "h = climb_smaller sha ps i (length B - 1) seed"
    by (auto simp: rebuild_def)
  from climb_sound [OF climb assms(2-7)] show ?thesis
    unfolding h using take_Suc_node [OF assms(2)] by simp
qed

lemma merkle_extends_sound:
  assumes "verify_consistency sha m (merkle_root sha old) n (merkle_root sha new) proof'"
    and "unat m = length old" and "unat n = length new" and "\<forall>p \<in> set proof'. length p = 32"
    and "\<forall>x. length (sha x) = 32"
    and "no_collision sha (consistency_inputs sha m (merkle_root sha old) n proof')
      (tree_inputs sha new)"
    and "no_collision sha (tree_inputs sha old) (tree_inputs sha (take (length old) new))"
  shows "take (length old) new = old"
proof (cases "0 < m \<and> m < n")
  case False
  from assms(1) have "m \<le> n" by (auto simp: verify_consistency_def split: if_splits)
  with False have "m = 0 \<or> m = n" by (auto simp: word_gt_0)
  then show ?thesis
  proof
    assume "m = n"
    with assms(1) have "merkle_root sha old = merkle_root sha new" by (simp add: verify_consistency_def)
    moreover have len: "length old = length new" using assms(2,3) \<open>m = n\<close> by simp
    ultimately show ?thesis using merkle_root_inj [OF _ len assms(5)] assms(7) by simp
  qed (use assms(2) in simp)
next
  case True
  then have lt: "0 < unat m" "unat m < unat n" by (simp_all add: word_less_nat_alt)
  let ?hs = "map (leaf_hash sha) new"
  have len: "unat n = length ?hs" using assms(3) by simp
  obtain B node where B: "climb_ones sha ?hs (unat m - 1) = (B, node)"
    by (cases "climb_ones sha ?hs (unat m - 1)")
  have i: "unat m - 1 < length ?hs" using len lt by simp
  note inv = climb_ones_invariant [OF B i]
  obtain node' lst where edge: "climb_right_edge (m - 1) (n - 1) = (node', lst)"
    by (cases "climb_right_edge (m - 1) (n - 1)")
  have "m \<noteq> 0" "n \<noteq> 0" using True by auto
  then have pred: "unat (m - 1) = unat m - 1" "unat (n - 1) = length ?hs - 1"
    using len by (simp_all add: unat_minus_one)
  have "?hs \<noteq> []" using lt len by auto
  from climb_right_edge_levels [OF edge pred(2) this, of sha] B
  have node: "unat node' = node" and last: "unat lst = length B - 1" by (auto simp: pred)
  have pos: "0 < node' \<longleftrightarrow> 0 < node" using node by (simp add: word_less_nat_alt)
  from assms(1) obtain seed rest where proof': "proof' = seed # rest"
    and built: "(if 0 < node then rebuild sha B node seed rest
      else rebuild sha B 0 (merkle_root sha old) proof') = Some (merkle_root sha old, merkle_root sha new)"
    unfolding verify_consistency_levels [OF conjunct1 [OF True] conjunct2 [OF True] len B]
    by (cases proof') auto
  have nodeB: "node < length B" using inv by blast
  have root_new: "merkle_root sha new = level_root sha B"
    using inv \<open>?hs \<noteq> []\<close> by (simp add: merkle_root_levels)
  have inputs: "node_inputs sha B \<subseteq> tree_inputs sha new"
    using inv unfolding tree_inputs_def by blast
  have B32: "\<forall>h \<in> set B. length h = 32" using inv leaf_hashes_32 [OF assms(5)] assms(5) by blast
  have old32: "length (merkle_root sha old) = 32"
    using assms(5) by (subst merkle_root.simps) (simp add: leaf_hash_def node_hash_def Let_def)
  have "merkle_root sha old = level_root sha (take (Suc node) B)"
  proof (cases "0 < node")
    case True
    have nc: "no_collision sha (climb_inputs sha rest node (length B - 1) seed) (node_inputs sha B)"
      using no_collision_mono [OF assms(6) subset_refl inputs] True
      by (simp add: consistency_inputs_def edge proof' pos node last)
    show ?thesis
      by (rule rebuild_sound [OF _ _ _ B32 _ assms(5) nc])
        (use built True nodeB assms(4) in \<open>auto simp: root_new proof'\<close>)
  next
    case False
    have nc: "no_collision sha (climb_inputs sha proof' 0 (length B - 1) (merkle_root sha old))
        (node_inputs sha B)"
      using no_collision_mono [OF assms(6) subset_refl inputs] False
      by (simp add: consistency_inputs_def edge proof' pos last)
    have "merkle_root sha old = level_root sha (take (Suc 0) B)"
      by (rule rebuild_sound [OF _ _ old32 B32 assms(4,5) nc])
        (use built False nodeB in \<open>auto simp: root_new\<close>)
    with False show ?thesis by simp
  qed
  also have "\<dots> = level_root sha (take (unat m) ?hs)" using inv lt by simp
  also have "\<dots> = merkle_root sha (take (unat m) new)"
    using lt len by (subst merkle_root_levels) (auto simp: take_map)
  finally have "merkle_root sha old = merkle_root sha (take (length old) new)"
    by (simp add: assms(2))
  then show ?thesis
    using merkle_root_inj [OF _ _ assms(5,7)] lt assms(2,3) by simp
qed

lemma toy_no_collision_consistency:
  "no_collision toy_sha (consistency_inputs toy_sha 1 (toy_sha [0, 1]) 2 [toy_sha [0, 2]])
     (tree_inputs toy_sha [[1], [2]])"
  "no_collision toy_sha (tree_inputs toy_sha [[1]]) (tree_inputs toy_sha [[1]])"
proof -
  have "consistency_inputs toy_sha 1 (toy_sha [0, 1]) 2 [toy_sha [0, 2]] =
      {1 # toy_sha [0, 1] @ toy_sha [0, 2]}"
    by (simp add: consistency_inputs_def climb_right_edge.simps climb_inputs.simps)
  moreover have "tree_inputs toy_sha [[1], [2]] =
      {[0, 1], [0, 2], 1 # toy_sha [0, 1] @ toy_sha [0, 2]}"
    by (auto simp: tree_inputs_def node_inputs.simps leaf_hash_def)
  ultimately show "no_collision toy_sha (consistency_inputs toy_sha 1 (toy_sha [0, 1]) 2
      [toy_sha [0, 2]]) (tree_inputs toy_sha [[1], [2]])"
    by (simp add: no_collision_def toy_sha_def)
  show "no_collision toy_sha (tree_inputs toy_sha [[1]]) (tree_inputs toy_sha [[1]])"
    by (simp add: tree_inputs_def node_inputs.simps no_collision_def)
qed

end
