(* ===== verification/Merkle_Log.thy ===== *)
theory Merkle_Log
  imports Merkle_Consistency
begin

text \<open>
  The contract the transparency components rely on: a log has a root, every leaf can be proved
  included, every earlier state can be proved a prefix, and accepted proofs mean just that.
  \<open>authenticated_log\<close> states it, with \<open>incl_safe\<close> and \<open>ext_safe\<close> for the absence of hash
  collisions among what a proof and the log hash; RFC 6962 trees provide it.
\<close>

locale authenticated_log =
  fixes root :: "bytes list \<Rightarrow> bytes"
    and included :: "bytes \<Rightarrow> u64 \<Rightarrow> u64 \<Rightarrow> bytes list \<Rightarrow> bytes \<Rightarrow> bool"
    and extends :: "u64 \<Rightarrow> bytes \<Rightarrow> u64 \<Rightarrow> bytes \<Rightarrow> bytes list \<Rightarrow> bool"
    and incl_path :: "nat \<Rightarrow> bytes list \<Rightarrow> bytes list option"
    and cons_path :: "bytes list \<Rightarrow> u64 \<Rightarrow> u64 \<Rightarrow> bytes list option"
    and incl_safe :: "bytes \<Rightarrow> u64 \<Rightarrow> u64 \<Rightarrow> bytes list \<Rightarrow> bytes list \<Rightarrow> bool"
    and ext_safe :: "bytes list \<Rightarrow> bytes list \<Rightarrow> bytes list \<Rightarrow> bool"
  assumes included_complete: "i < length leaves \<Longrightarrow> length leaves < 2 ^ 64 \<Longrightarrow>
      \<exists>path. incl_path i leaves = Some path \<and>
        included (leaves ! i) (word_of_nat i) (word_of_nat (length leaves)) path (root leaves)"
    and included_iff: "unat n = length leaves \<Longrightarrow> incl_safe leaf index n path leaves \<Longrightarrow>
      included leaf index n path (root leaves) \<longleftrightarrow>
        index < n \<and> leaf = leaves ! unat index \<and> incl_path (unat index) leaves = Some path"
    and extends_complete: "m \<le> n \<Longrightarrow> unat n \<le> length leaves \<Longrightarrow>
      \<exists>p. cons_path leaves m n = Some p \<and>
        extends m (root (take (unat m) leaves)) n (root (take (unat n) leaves)) p"
    and extends_sound: "extends m (root old) n (root new) p \<Longrightarrow> unat m = length old \<Longrightarrow>
      unat n = length new \<Longrightarrow> ext_safe old new p \<Longrightarrow> take (length old) new = old"
begin

text \<open>A leaf proved included in a log stays at its index in every log proved to extend it.\<close>

lemma included_in_extension:
  assumes "included leaf index m path (root old)" and "incl_safe leaf index m path old"
    and "extends m (root old) n (root new) p" and "ext_safe old new p"
    and "unat m = length old" and "unat n = length new"
  shows "unat index < length new \<and> new ! unat index = leaf"
proof -
  from included_iff [OF assms(5,2)] assms(1) have "index < m" "leaf = old ! unat index" by simp_all
  moreover from this have i: "unat index < length old" using assms(5) by (simp add: word_less_nat_alt)
  moreover from extends_sound [OF assms(3,5,6,4)] have "take (length old) new = old" .
  ultimately show ?thesis by (metis length_take min_less_iff_conj nth_take)
qed

end

text \<open>The collision conditions of the two proofs.\<close>

definition merkle_incl_safe :: "(bytes \<Rightarrow> bytes) \<Rightarrow> bytes \<Rightarrow> u64 \<Rightarrow> u64 \<Rightarrow> bytes list \<Rightarrow> bytes list \<Rightarrow> bool"
where
  "merkle_incl_safe sha leaf index n path leaves \<longleftrightarrow>
     (\<forall>p \<in> set path. length p = 32) \<and> (\<forall>x. length (sha x) = 32) \<and>
     no_collision sha (inclusion_inputs sha leaf index n path) (tree_inputs sha leaves)"

definition merkle_ext_safe :: "(bytes \<Rightarrow> bytes) \<Rightarrow> bytes list \<Rightarrow> bytes list \<Rightarrow> bytes list \<Rightarrow> bool" where
  "merkle_ext_safe sha old new p \<longleftrightarrow>
     (\<forall>h \<in> set p. length h = 32) \<and> (\<forall>x. length (sha x) = 32) \<and>
     no_collision sha (consistency_inputs sha (word_of_nat (length old)) (merkle_root sha old)
       (word_of_nat (length new)) p) (tree_inputs sha new) \<and>
     no_collision sha (tree_inputs sha old) (tree_inputs sha (take (length old) new))"

lemma word_of_length: "unat (n :: u64) = k \<Longrightarrow> word_of_nat k = n"
  by auto

interpretation merkle: authenticated_log "merkle_root sha" "verify_inclusion sha"
  "verify_consistency sha" "inclusion_path sha" "consistency_path sha" "merkle_incl_safe sha"
  "merkle_ext_safe sha" for sha
proof
  fix m n :: u64 and old new :: "bytes list" and p :: "bytes list"
  assume ext: "verify_consistency sha m (merkle_root sha old) n (merkle_root sha new) p"
    and len: "unat m = length old" "unat n = length new" and "merkle_ext_safe sha old new p"
  then show "take (length old) new = old"
    using merkle_extends_sound [OF ext len]
    by (simp add: merkle_ext_safe_def word_of_length [OF len(1)] word_of_length [OF len(2)])
qed (auto intro: merkle_included_complete merkle_extends_complete simp: merkle_included_iff
    merkle_incl_safe_def)

text \<open>Every leaf of a log has an inclusion proof and the verifier accepts it: for any index
  within the log the prover returns a path, and \<open>verify_inclusion\<close> accepts it against the
  log's root, at every tree size below \<open>2^64\<close>.\<close>

theorem inclusion_complete:
  assumes "i < length leaves" and "length leaves < 2 ^ 64"
  shows "\<exists>path. inclusion_path sha i leaves = Some path \<and>
    verify_inclusion sha (leaves ! i) (word_of_nat i) (word_of_nat (length leaves)) path
      (merkle_root sha leaves)"
  using assms by (rule merkle.included_complete)

theorem inclusion_complete_witness:
  "\<exists>path. inclusion_path toy_sha 2 [[1], [2], [3]] = Some path \<and>
    verify_inclusion toy_sha [3] 2 3 path (merkle_root toy_sha [[1], [2], [3]])"
  using inclusion_complete [of 2 "[[1], [2], [3]]" toy_sha] by simp

text \<open>C17: The verifier accepts nothing but that proof: when no input it hashes collides with
  one the log hashed, it accepts a leaf at an index of the log exactly if that is the
  log's leaf there and the path is the one the prover produces.\<close>

theorem inclusion_sound:
  assumes "unat n = length leaves" and "merkle_incl_safe sha leaf index n path leaves"
  shows "verify_inclusion sha leaf index n path (merkle_root sha leaves) \<longleftrightarrow>
    index < n \<and> leaf = leaves ! unat index \<and> inclusion_path sha (unat index) leaves = Some path"
  using assms by (rule merkle.included_iff)

theorem inclusion_sound_witness:
  "verify_inclusion toy_sha [2] 1 2 [toy_sha [0, 1]] (merkle_root toy_sha [[1], [2]]) \<longleftrightarrow>
    inclusion_path toy_sha 1 [[1], [2]] = Some [toy_sha [0, 1]]"
  using inclusion_sound [of 2 "[[1], [2]]" toy_sha "[2]" 1 "[toy_sha [0, 1]]"] toy_no_collision
  by (simp add: merkle_incl_safe_def)

text \<open>A log that grows only by appending can always prove it: for sizes \<open>m \<le> n\<close> up to the
  log's length the prover returns a consistency proof, and \<open>verify_consistency\<close> accepts it for
  the roots of the first \<open>m\<close> and the first \<open>n\<close> leaves.\<close>

theorem consistency_complete:
  assumes "m \<le> n" and "unat n \<le> length leaves"
  shows "\<exists>p. consistency_path sha leaves m n = Some p \<and>
    verify_consistency sha m (merkle_root sha (take (unat m) leaves)) n
      (merkle_root sha (take (unat n) leaves)) p"
  using assms by (rule merkle.extends_complete)

theorem consistency_complete_witness:
  "\<exists>p. consistency_path toy_sha [[1], [2], [3]] 2 3 = Some p \<and>
    verify_consistency toy_sha 2 (merkle_root toy_sha [[1], [2]]) 3
      (merkle_root toy_sha [[1], [2], [3]]) p"
  using consistency_complete [of 2 3 "[[1], [2], [3]]" toy_sha] by simp

text \<open>C16: An accepted consistency proof means the larger log extends the smaller one: if the
  verifier accepts a proof from the root a client holds for its \<open>m\<close>-leaf log to the root of an
  \<open>n\<close>-leaf log, the client's log is exactly the first \<open>m\<close> leaves of the larger one, so no leaf
  was removed, changed or reordered (unless two different inputs hash alike).\<close>

theorem consistency_append_only:
  assumes "verify_consistency sha m (merkle_root sha old) n (merkle_root sha new) p"
    and "unat m = length old" and "unat n = length new" and "merkle_ext_safe sha old new p"
  shows "take (length old) new = old"
  using assms by (rule merkle.extends_sound)

theorem consistency_append_only_witness:
  "verify_consistency toy_sha 1 (toy_sha [0, 1]) 2 (merkle_root toy_sha [[1], [2]]) [toy_sha [0, 2]]
    \<and> take 1 [[1], [2]] = [[1 :: byte]]"
proof -
  have root: "merkle_root toy_sha [[1]] = toy_sha [0, 1]"
    by (simp add: merkle_root.simps leaf_hash_def)
  have "verify_consistency toy_sha 1 (merkle_root toy_sha [[1]]) 2 (merkle_root toy_sha [[1], [2]])
      [toy_sha [0, 2]]"
    by (simp add: verify_consistency_levels [of 1 2 "map (leaf_hash toy_sha) [[1], [2]]" toy_sha
          "map (leaf_hash toy_sha) [[1], [2]]" 0] climb_ones.simps rebuild_def climb.simps
        climb_smaller.simps merkle_root_levels leaf_hash_def level_root.simps)
  from consistency_append_only [OF this] toy_no_collision_consistency this
  show ?thesis by (simp add: root merkle_ext_safe_def)
qed

end
