(* ===== verification/Signing.thy ===== *)
theory Signing
  imports Canonical
begin

text \<open>
  \<^verbatim>\<open>crates/crypto/src/sign.rs\<close>, the error type of \<^verbatim>\<open>crates/crypto/src/lib.rs\<close> and the
  allowlist check of \<^verbatim>\<open>crates/client-core/src/util.rs\<close>. Ed25519 is the
  \<^verbatim>\<open>ed25519_dalek\<close> package's: \<open>vk_valid\<close> says whether 32 bytes are a public key,
  \<open>strict\<close> is its \<open>verify_strict\<close>, \<open>ed_sign\<close> its signing function on a secret.
\<close>

datatype crypto_error = AeadError | WrapOpen | SignatureError | BadPublicKey | DekCommitMismatch
  | Framing string | BelowArgonFloor | Argon2Error | BadLength | DelegationExpired

type_synonym vk_check = "bytes \<Rightarrow> bool"
type_synonym ed_strict = "bytes \<Rightarrow> bytes \<Rightarrow> bytes \<Rightarrow> bool"

definition vk_from_bytes :: "vk_check \<Rightarrow> bytes \<Rightarrow> crypto_error + bytes" where
  "vk_from_bytes vk_valid b = (if vk_valid b then Inr b else Inl BadPublicKey)"

definition verify_raw :: "ed_strict \<Rightarrow> bytes \<Rightarrow> bytes \<Rightarrow> bytes \<Rightarrow> crypto_error + unit" where
  "verify_raw strict vk msg sig = (if strict vk msg sig then Inr () else Inl SignatureError)"

definition verify_canonical :: "ed_strict \<Rightarrow> bytes \<Rightarrow> string \<Rightarrow> u16 \<Rightarrow> ('a \<Rightarrow> writer \<Rightarrow> writer)
    \<Rightarrow> 'a \<Rightarrow> bytes \<Rightarrow> crypto_error + unit" where
  "verify_canonical strict vk label tid put v sig =
     verify_raw strict vk (signing_message label tid put v) sig"

definition sign_canonical :: "(bytes \<Rightarrow> bytes \<Rightarrow> bytes) \<Rightarrow> bytes \<Rightarrow> string \<Rightarrow> u16
    \<Rightarrow> ('a \<Rightarrow> writer \<Rightarrow> writer) \<Rightarrow> 'a \<Rightarrow> bytes" where
  "sign_canonical ed_sign sk label tid put v = ed_sign sk (signing_message label tid put v)"

text \<open>\<open>.is_ok()\<close>.\<close>

definition is_ok :: "'e + 'a \<Rightarrow> bool" where
  "is_ok r \<longleftrightarrow> (case r of Inl _ \<Rightarrow> False | Inr _ \<Rightarrow> True)"

lemma is_ok_simps [simp]: "is_ok (Inl e) = False" "is_ok (Inr x) = True"
  by (simp_all add: is_ok_def)

definition any_key_verifies :: "vk_check \<Rightarrow> ed_strict \<Rightarrow> bytes list \<Rightarrow> bytes \<Rightarrow> bytes \<Rightarrow> bool" where
  "any_key_verifies vk_valid strict pubs msg sig \<longleftrightarrow>
     list_ex (\<lambda>pk. is_ok (rbind (vk_from_bytes vk_valid pk) (\<lambda>vk. verify_raw strict vk msg sig))) pubs"

lemma verify_raw_Inr [simp]: "verify_raw strict vk msg sig = Inr u \<longleftrightarrow> strict vk msg sig"
  by (simp add: verify_raw_def)

lemma is_ok_verify_raw [simp]: "is_ok (verify_raw strict vk msg sig) \<longleftrightarrow> strict vk msg sig"
  by (simp add: verify_raw_def)

lemma vk_from_bytes_Inr [simp]: "vk_from_bytes vk_valid b = Inr vk \<longleftrightarrow> vk_valid b \<and> vk = b"
  by (auto simp: vk_from_bytes_def)

lemma any_key_verifies_iff:
  "any_key_verifies vk_valid strict pubs msg sig \<longleftrightarrow>
     (\<exists>pk \<in> set pubs. vk_valid pk \<and> strict pk msg sig)"
  by (auto simp: any_key_verifies_def list_ex_iff vk_from_bytes_def)

text \<open>An empty allowlist validates nothing.\<close>

lemma any_key_verifies_empty [simp]: "\<not> any_key_verifies vk_valid strict [] msg sig"
  by (simp add: any_key_verifies_iff)

end
