(* ===== verification/Delegation.thy ===== *)
theory Delegation
  imports Signing
begin

text \<open>
  \<^verbatim>\<open>crates/crypto/src/delegation.rs\<close>: the directory-delegation certificate, a fixed
  little-endian body of 49 bytes and a 64-byte signature. A slice \<open>bytes[a..b]\<close> is
  \<open>take (b - a) (drop a bytes)\<close>, used only after the length check.
\<close>

definition DELEGATION_BODY_LEN :: nat where "DELEGATION_BODY_LEN = 1 + 32 + 8 + 8"
definition DELEGATION_WIRE_LEN :: nat where "DELEGATION_WIRE_LEN = DELEGATION_BODY_LEN + 64"
definition DELEGATION_VERSION :: byte where "DELEGATION_VERSION = 1"
definition DELEGATION_CLOCK_SKEW_SECS :: u64 where "DELEGATION_CLOCK_SKEW_SECS = 24 * 3600"

record directory_delegation =
  dd_version :: byte
  dd_operational_pub :: bytes
  dd_valid_from :: u64
  dd_valid_until :: u64
  dd_signature :: bytes

definition body_bytes :: "bytes \<Rightarrow> u64 \<Rightarrow> u64 \<Rightarrow> bytes" where
  "body_bytes operational_pub valid_from valid_until =
     DELEGATION_VERSION # operational_pub @ le_bytes 8 (unat valid_from) @ le_bytes 8 (unat valid_until)"

definition dd_serialize :: "directory_delegation \<Rightarrow> bytes" where
  "dd_serialize c =
     body_bytes (dd_operational_pub c) (dd_valid_from c) (dd_valid_until c) @ dd_signature c"

definition dd_sign :: "(bytes \<Rightarrow> bytes \<Rightarrow> bytes) \<Rightarrow> bytes \<Rightarrow> bytes \<Rightarrow> u64 \<Rightarrow> u64 \<Rightarrow> bytes" where
  "dd_sign ed_sign d5_secret operational_pub valid_from valid_until =
     (let body = body_bytes operational_pub valid_from valid_until;
          sig = ed_sign d5_secret (signing_input L_DIRECTORY_DELEGATION body)
      in body @ sig)"

definition dd_parse :: "bytes \<Rightarrow> crypto_error + directory_delegation" where
  "dd_parse bs =
     (if length bs \<noteq> DELEGATION_WIRE_LEN then Inl BadLength
      else if bs ! 0 \<noteq> DELEGATION_VERSION then Inl BadLength
      else Inr \<lparr>dd_version = bs ! 0,
        dd_operational_pub = take 32 (drop 1 bs),
        dd_valid_from = word_of_nat (le_val (take 8 (drop 33 bs))),
        dd_valid_until = word_of_nat (le_val (take 8 (drop 41 bs))),
        dd_signature = take 64 (drop 49 bs)\<rparr>)"

definition dd_verify :: "vk_check \<Rightarrow> ed_strict \<Rightarrow> bytes \<Rightarrow> bytes \<Rightarrow> u64 \<Rightarrow> crypto_error + bytes" where
  "dd_verify vk_valid strict d5_pub bs now =
     rbind (dd_parse bs) (\<lambda>cert.
     rbind (vk_from_bytes vk_valid d5_pub) (\<lambda>vk.
     let body = body_bytes (dd_operational_pub cert) (dd_valid_from cert) (dd_valid_until cert) in
     rbind (verify_raw strict vk (signing_input L_DIRECTORY_DELEGATION body) (dd_signature cert)) (\<lambda>_.
     if now < dd_valid_from cert \<or> dd_valid_until cert < now then Inl DelegationExpired
     else Inr (dd_operational_pub cert))))"

definition ok_delegation :: "directory_delegation \<Rightarrow> bool" where
  "ok_delegation c \<longleftrightarrow> dd_version c = DELEGATION_VERSION \<and> length (dd_operational_pub c) = 32 \<and>
     length (dd_signature c) = 64"

lemma dd_parse_serialize: "ok_delegation c \<Longrightarrow> dd_parse (dd_serialize c) = Inr c"
  by (cases c) (simp add: ok_delegation_def dd_parse_def dd_serialize_def body_bytes_def
      DELEGATION_WIRE_LEN_def DELEGATION_BODY_LEN_def le_val_u64)

lemma dd_parse_exact:
  assumes "dd_parse bs = Inr c"
  shows "ok_delegation c \<and> bs = dd_serialize c"
proof -
  from assms have len: "length bs = 113" and v: "bs ! 0 = DELEGATION_VERSION"
    and c: "c = \<lparr>dd_version = bs ! 0, dd_operational_pub = take 32 (drop 1 bs),
        dd_valid_from = word_of_nat (le_val (take 8 (drop 33 bs))),
        dd_valid_until = word_of_nat (le_val (take 8 (drop 41 bs))),
        dd_signature = take 64 (drop 49 bs)\<rparr>"
    by (auto simp: dd_parse_def DELEGATION_WIRE_LEN_def DELEGATION_BODY_LEN_def split: if_splits)
  have "bs = bs ! 0 # take 32 (drop 1 bs) @ take 8 (drop 33 bs) @ take 8 (drop 41 bs) @ drop 49 bs"
  proof -
    have "take 8 (drop 41 bs) @ drop 49 bs = drop 41 bs"
      using append_take_drop_id [of 8 "drop 41 bs"] by simp
    then have "take 8 (drop 33 bs) @ take 8 (drop 41 bs) @ drop 49 bs = drop 33 bs"
      using append_take_drop_id [of 8 "drop 33 bs"] by simp
    then have "take 32 (drop 1 bs) @ take 8 (drop 33 bs) @ take 8 (drop 41 bs) @ drop 49 bs = drop 1 bs"
      using append_take_drop_id [of 32 "drop 1 bs"] by simp
    then show ?thesis using len by (cases bs) auto
  qed
  then show ?thesis
    using len v by (simp add: c ok_delegation_def dd_serialize_def body_bytes_def le_bytes_u64)
qed

text \<open>A delegation certificate has one wire form: parsing accepts exactly the 113-byte
  serialisations of well-formed certificates, so no two byte strings denote the same one.\<close>

theorem delegation_wire_exact:
  "dd_parse bs = Inr c \<longleftrightarrow> ok_delegation c \<and> bs = dd_serialize c"
  using dd_parse_exact dd_parse_serialize by blast

lemma dd_verify_exact:
  "(dd_verify vk_valid strict d5_pub bs now = Inr p \<longleftrightarrow>
     (\<exists>c. ok_delegation c \<and> bs = dd_serialize c \<and> dd_operational_pub c = p \<and> vk_valid d5_pub \<and>
        strict d5_pub (signing_input L_DIRECTORY_DELEGATION
          (body_bytes p (dd_valid_from c) (dd_valid_until c))) (dd_signature c) \<and>
        dd_valid_from c \<le> now \<and> now \<le> dd_valid_until c)) \<and>
   (dd_verify vk_valid strict d5_pub bs now = Inl DelegationExpired \<longleftrightarrow>
     (\<exists>c. ok_delegation c \<and> bs = dd_serialize c \<and> vk_valid d5_pub \<and>
        strict d5_pub (signing_input L_DIRECTORY_DELEGATION
          (body_bytes (dd_operational_pub c) (dd_valid_from c) (dd_valid_until c))) (dd_signature c) \<and>
        (now < dd_valid_from c \<or> dd_valid_until c < now)))"
proof (cases "dd_parse bs")
  case (Inl e)
  then have "e = BadLength" by (auto simp: dd_parse_def split: if_splits)
  moreover have "\<not> (ok_delegation c \<and> bs = dd_serialize c)" for c
    using Inl delegation_wire_exact [of bs c] by simp
  ultimately show ?thesis using Inl by (auto simp: dd_verify_def)
next
  case (Inr c)
  then have c: "ok_delegation c" "bs = dd_serialize c" by (simp_all add: delegation_wire_exact)
  have ex: "(\<exists>c'. ok_delegation c' \<and> bs = dd_serialize c' \<and> P c') \<longleftrightarrow> P c" for P
    using c Inr delegation_wire_exact [of bs] by (metis Inr_inject)
  show ?thesis
    unfolding ex by (auto simp: Inr dd_verify_def vk_from_bytes_def verify_raw_def Let_def not_less)
qed

text \<open>Verification is fail-closed and exact: it returns an operational key precisely when the
  bytes are the certificate of that key for a window containing \<open>now\<close> (both ends inclusive) and
  the pinned root's signature over the domain-separated body verifies; outside the window the
  error is the distinct \<open>DelegationExpired\<close>, and only for a correctly signed certificate.\<close>

theorem delegation_verify_exact:
  "(dd_verify vk_valid strict d5_pub bs now = Inr p \<longleftrightarrow>
     (\<exists>c. ok_delegation c \<and> bs = dd_serialize c \<and> dd_operational_pub c = p \<and> vk_valid d5_pub \<and>
        strict d5_pub (signing_input L_DIRECTORY_DELEGATION
          (body_bytes p (dd_valid_from c) (dd_valid_until c))) (dd_signature c) \<and>
        dd_valid_from c \<le> now \<and> now \<le> dd_valid_until c)) \<and>
   (dd_verify vk_valid strict d5_pub bs now = Inl DelegationExpired \<longleftrightarrow>
     (\<exists>c. ok_delegation c \<and> bs = dd_serialize c \<and> vk_valid d5_pub \<and>
        strict d5_pub (signing_input L_DIRECTORY_DELEGATION
          (body_bytes (dd_operational_pub c) (dd_valid_from c) (dd_valid_until c))) (dd_signature c) \<and>
        (now < dd_valid_from c \<or> dd_valid_until c < now)))"
  by (rule dd_verify_exact)

text \<open>What the root signs verifies: a certificate from \<open>dd_sign\<close> is accepted at every time of
  its window and rejected as expired at every time outside it.\<close>

theorem delegation_sign_verify:
  assumes "length op_pub = 32" and "\<And>m. length (ed_sign sk m) = 64"
    and "\<And>m. strict pk m (ed_sign sk m)" and "vk_valid pk"
  shows "dd_verify vk_valid strict pk (dd_sign ed_sign sk op_pub vf vu) now =
    (if vf \<le> now \<and> now \<le> vu then Inr op_pub else Inl DelegationExpired)"
proof -
  let ?c = "\<lparr>dd_version = DELEGATION_VERSION, dd_operational_pub = op_pub, dd_valid_from = vf,
    dd_valid_until = vu, dd_signature = ed_sign sk (signing_input L_DIRECTORY_DELEGATION
      (body_bytes op_pub vf vu))\<rparr>"
  have "ok_delegation ?c" using assms by (simp add: ok_delegation_def)
  moreover have "dd_sign ed_sign sk op_pub vf vu = dd_serialize ?c"
    by (simp add: dd_sign_def dd_serialize_def Let_def)
  ultimately have "dd_parse (dd_sign ed_sign sk op_pub vf vu) = Inr ?c"
    using dd_parse_serialize by simp
  then show ?thesis using assms by (auto simp: dd_verify_def vk_from_bytes_def verify_raw_def not_less not_le)
qed

theorem delegation_sign_verify_witness:
  "dd_verify (\<lambda>_. True) (\<lambda>pk m s. s = replicate 64 7) [1]
     (dd_sign (\<lambda>sk m. replicate 64 7) [2] (replicate 32 5) 10 20) 21 = Inl DelegationExpired"
  by (subst delegation_sign_verify) simp_all

end
