(* ===== verification/ControlLog.thy ===== *)
theory ControlLog
  imports Structs Signing
begin

text \<open>
  The hash-chained control log, as its three parties see it: the external sink that stores it
  (\<^verbatim>\<open>crates/sink-server/src/chain.rs\<close>, \<^verbatim>\<open>position.rs\<close>), the server's projection of a posted
  record (\<^verbatim>\<open>crates/server/src/control.rs\<close>) and the client's decoded record
  (\<open>Decoded\<close> of \<^verbatim>\<open>crates/client-core/src/revocation.rs\<close>). \<open>linked\<close> is the chain they share.
\<close>

section \<open>Decoded records\<close>

datatype decoded = DRevocation revocation | DReinstatement reinstatement | DKeyCompromise key_compromise

datatype tombstone_error = Gap | BrokenChain | TMalformed | UnknownIssuer | BadAuthority
  | NotAdmin | DualControlMissing

definition peek_type_id :: "bytes \<Rightarrow> u16 option" where
  "peek_type_id b = (case b of hi # lo # _ \<Rightarrow> Some (word_of_nat (be_val [hi, lo])) | _ \<Rightarrow> None)"

definition from_bytes :: "bytes \<Rightarrow> tombstone_error + decoded" where
  "from_bytes b = (case peek_type_id b of None \<Rightarrow> Inl TMalformed
     | Some tid \<Rightarrow>
         let m = (\<lambda>_. TMalformed) in
         if tid = 0x0006 then
           rbind (map_err m (decode TYPE_REVOCATION put_revocation get_revocation b))
             (\<lambda>r. Inr (DRevocation r))
         else if tid = 0x0007 then
           rbind (map_err m (decode TYPE_REINSTATEMENT put_reinstatement get_reinstatement b))
             (\<lambda>r. Inr (DReinstatement r))
         else if tid = 0x0008 then
           rbind (map_err m (decode TYPE_KEY_COMPROMISE put_key_compromise get_key_compromise b))
             (\<lambda>r. Inr (DKeyCompromise r))
         else Inl TMalformed)"

fun d_prev_head :: "decoded \<Rightarrow> bytes" where
  "d_prev_head (DRevocation r) = b32_raw (rv_prev_head r)"
| "d_prev_head (DReinstatement r) = b32_raw (ri_prev_head r)"
| "d_prev_head (DKeyCompromise r) = b32_raw (kc_prev_head r)"

text \<open>The canonical bytes of a decoded record.\<close>

fun d_bytes :: "decoded \<Rightarrow> bytes" where
  "d_bytes (DRevocation r) = encode TYPE_REVOCATION put_revocation r"
| "d_bytes (DReinstatement r) = encode TYPE_REINSTATEMENT put_reinstatement r"
| "d_bytes (DKeyCompromise r) = encode TYPE_KEY_COMPROMISE put_key_compromise r"

fun d_ok :: "decoded \<Rightarrow> bool" where
  "d_ok (DRevocation r) = ok_revocation r"
| "d_ok (DReinstatement r) = ok_reinstatement r"
| "d_ok (DKeyCompromise r) = ok_key_compromise r"

lemma be_bytes_two: "be_bytes 2 v = [word_of_nat (v div 256), word_of_nat (v mod 256)]"
  by (simp add: numeral_2_eq_2)

lemma peek_encode:
  "peek_type_id (encode TYPE_REVOCATION put_revocation r) = Some 6"
  "peek_type_id (encode TYPE_REINSTATEMENT put_reinstatement ri) = Some 7"
  "peek_type_id (encode TYPE_KEY_COMPROMISE put_key_compromise kc) = Some 8"
  unfolding peek_type_id_def revocation.encode_eq reinstatement.encode_eq key_compromise.encode_eq
  by (simp_all add: TYPE_REVOCATION_def TYPE_REINSTATEMENT_def TYPE_KEY_COMPROMISE_def
      be_bytes_two)

lemma from_bytes_iff: "from_bytes b = Inr d \<longleftrightarrow> d_ok d \<and> b = d_bytes d"
proof
  assume "from_bytes b = Inr d"
  then show "d_ok d \<and> b = d_bytes d"
    by (auto simp: from_bytes_def rbind_eq_Inr map_err_eq_Inr revocation.decode_iff
        reinstatement.decode_iff key_compromise.decode_iff Let_def
        split: option.splits if_splits)
next
  assume "d_ok d \<and> b = d_bytes d"
  then show "from_bytes b = Inr d"
    by (cases d) (simp_all add: from_bytes_def peek_encode revocation.decode_encode
        reinstatement.decode_encode key_compromise.decode_encode)
qed

section \<open>The sink\<close>

record anchored_head =
  ah_chain_seq :: u64
  ah_head :: bytes

datatype append_error = NotAppending | AMalformed

definition peek_prev_head :: "bytes \<Rightarrow> append_error + bytes" where
  "peek_prev_head bs = (case peek_type_id bs of None \<Rightarrow> Inl AMalformed
     | Some tid \<Rightarrow>
         let m = (\<lambda>_. AMalformed) in
         if tid = 0x0006 then
           rbind (map_err m (decode TYPE_REVOCATION put_revocation get_revocation bs))
             (\<lambda>r. Inr (b32_raw (rv_prev_head r)))
         else if tid = 0x0007 then
           rbind (map_err m (decode TYPE_REINSTATEMENT put_reinstatement get_reinstatement bs))
             (\<lambda>r. Inr (b32_raw (ri_prev_head r)))
         else if tid = 0x0008 then
           rbind (map_err m (decode TYPE_KEY_COMPROMISE put_key_compromise get_key_compromise bs))
             (\<lambda>r. Inr (b32_raw (kc_prev_head r)))
         else Inl AMalformed)"

text \<open>The sink and the client read the same link out of a record.\<close>

lemma peek_prev_head_from_bytes:
  "peek_prev_head bs = (case from_bytes bs of Inl _ \<Rightarrow> Inl AMalformed | Inr d \<Rightarrow> Inr (d_prev_head d))"
  by (auto simp: peek_prev_head_def from_bytes_def rbind_def map_err_def Let_def
      split: option.splits sum.splits)

record control_log_store =
  cl_records :: "bytes list"
  cl_head :: bytes
  cl_chain_seq :: u64

definition control_log_new :: control_log_store where
  "control_log_new = \<lparr>cl_records = [], cl_head = b32_raw GENESIS_HEAD, cl_chain_seq = 0\<rparr>"

definition control_log_head :: "control_log_store \<Rightarrow> anchored_head" where
  "control_log_head s = \<lparr>ah_chain_seq = cl_chain_seq s, ah_head = cl_head s\<rparr>"

text \<open>\<open>append\<close> returns the store with its result: an error leaves it as it was.\<close>

definition control_log_append :: "(bytes \<Rightarrow> bytes) \<Rightarrow> bytes \<Rightarrow> control_log_store
    \<Rightarrow> (append_error + anchored_head) \<times> control_log_store" where
  "control_log_append sha rec s = (case peek_prev_head rec of
       Inl e \<Rightarrow> (Inl e, s)
     | Inr prev_head \<Rightarrow>
         if prev_head \<noteq> cl_head s then (Inl NotAppending, s)
         else
           let s = s\<lparr>cl_head := sha rec\<rparr>;
               s = s\<lparr>cl_records := cl_records s @ [rec]\<rparr>;
               s = s\<lparr>cl_chain_seq := cl_chain_seq s + 1\<rparr>
           in (Inr (control_log_head s), s))"

definition control_log_records :: "u64 \<Rightarrow> nat \<Rightarrow> control_log_store \<Rightarrow> (u64 \<times> bytes) list" where
  "control_log_records since_seq limit s =
     take limit [p \<leftarrow> map (\<lambda>(i, b). (word_of_nat i + 1, b)) (enumerate 0 (cl_records s)).
       since_seq < fst p]"

section \<open>Positions\<close>

record position_log =
  next_pos :: u64
  control_pos :: "u64 list"
  genesis_pos :: "bytes \<rightharpoonup> u64"

definition position_log_new :: position_log where
  "position_log_new = \<lparr>next_pos = 0, control_pos = [], genesis_pos = Map.empty\<rparr>"

definition record_control :: "position_log \<Rightarrow> u64 \<times> position_log" where
  "record_control l =
     (let pos = next_pos l;
          l = l\<lparr>next_pos := next_pos l + 1\<rparr>;
          l = l\<lparr>control_pos := control_pos l @ [pos]\<rparr>
      in (pos, l))"

definition anchor_genesis :: "bytes \<Rightarrow> position_log \<Rightarrow> u64 \<times> position_log" where
  "anchor_genesis file_id l = (case genesis_pos l file_id of
       Some pos \<Rightarrow> (pos, l)
     | None \<Rightarrow>
         let pos = next_pos l;
             l = l\<lparr>next_pos := next_pos l + 1\<rparr>;
             l = l\<lparr>genesis_pos := (genesis_pos l)(file_id \<mapsto> pos)\<rparr>
         in (pos, l))"

definition control_pos_at :: "u64 \<Rightarrow> position_log \<Rightarrow> u64 option" where
  "control_pos_at chain_seq l =
     (if chain_seq = 0 then None
      else let i = unat (chain_seq - 1) in
        if i < length (control_pos l) then Some (control_pos l ! i) else None)"

definition genesis_pos_of :: "bytes \<Rightarrow> position_log \<Rightarrow> u64 option" where
  "genesis_pos_of file_id l = genesis_pos l file_id"

section \<open>The server's projection\<close>

record decoded_control =
  dc_kind :: nat
  dc_prev_head :: bytes
  dc_head :: bytes
  dc_subject_user_id :: bytes
  dc_is_account_wide :: bool
  dc_scope_file_id :: "bytes option"
  dc_revoked_capability :: "byte option"
  dc_from_version :: "u64 option"
  dc_scope_epoch :: "u64 option"
  dc_supersedes_epoch :: "u64 option"
  dc_compromised_key_version :: "u64 option"
  dc_effective_from_ms :: "u64 option"
  dc_issued_by :: bytes
  dc_co_signed_by :: "bytes option"

fun scope_file :: "file_scope \<Rightarrow> bytes option" where
  "scope_file (Specific i) = Some (id_raw i)"
| "scope_file AccountWide = None"

fun is_account_wide :: "file_scope \<Rightarrow> bool" where
  "is_account_wide AccountWide = True"
| "is_account_wide (Specific _) = False"

text \<open>\<open>as i64\<close> keeps the 64 bits; the projection columns are kept as those bits.\<close>

definition decode_control :: "(bytes \<Rightarrow> bytes) \<Rightarrow> bytes \<Rightarrow> decoded_control option" where
  "decode_control sha bs = (case peek_type_id bs of None \<Rightarrow> None
     | Some tid \<Rightarrow>
         let head = sha bs in
         if tid = 0x0006 then
           (case decode TYPE_REVOCATION put_revocation get_revocation bs of Inl _ \<Rightarrow> None
            | Inr r \<Rightarrow> Some \<lparr>dc_kind = 6, dc_prev_head = b32_raw (rv_prev_head r), dc_head = head,
                dc_subject_user_id = id_raw (rv_revoked_user_id r),
                dc_is_account_wide = is_account_wide (rv_scope r),
                dc_scope_file_id = scope_file (rv_scope r),
                dc_revoked_capability = map_option role_cp (rv_revoked_capability r),
                dc_from_version = Some (rv_from_version r),
                dc_scope_epoch = Some (rv_revocation_epoch r), dc_supersedes_epoch = None,
                dc_compromised_key_version = None, dc_effective_from_ms = None,
                dc_issued_by = id_raw (rv_issued_by r),
                dc_co_signed_by = map_option id_raw (rv_co_signed_by r)\<rparr>)
         else if tid = 0x0007 then
           (case decode TYPE_REINSTATEMENT put_reinstatement get_reinstatement bs of Inl _ \<Rightarrow> None
            | Inr r \<Rightarrow> Some \<lparr>dc_kind = 7, dc_prev_head = b32_raw (ri_prev_head r), dc_head = head,
                dc_subject_user_id = id_raw (ri_reinstated_user_id r),
                dc_is_account_wide = is_account_wide (ri_scope r),
                dc_scope_file_id = scope_file (ri_scope r), dc_revoked_capability = None,
                dc_from_version = None, dc_scope_epoch = Some (ri_reinstatement_epoch r),
                dc_supersedes_epoch = Some (ri_supersedes_epoch r),
                dc_compromised_key_version = None, dc_effective_from_ms = None,
                dc_issued_by = id_raw (ri_issued_by r),
                dc_co_signed_by = Some (id_raw (ri_co_signed_by r))\<rparr>)
         else if tid = 0x0008 then
           (case decode TYPE_KEY_COMPROMISE put_key_compromise get_key_compromise bs of Inl _ \<Rightarrow> None
            | Inr r \<Rightarrow> Some \<lparr>dc_kind = 8, dc_prev_head = b32_raw (kc_prev_head r), dc_head = head,
                dc_subject_user_id = id_raw (kc_user_id r), dc_is_account_wide = False,
                dc_scope_file_id = None, dc_revoked_capability = None, dc_from_version = None,
                dc_scope_epoch = None, dc_supersedes_epoch = None,
                dc_compromised_key_version = Some (kc_key_version r),
                dc_effective_from_ms = Some (ts_raw (kc_effective_from r)),
                dc_issued_by = id_raw (kc_issued_by r),
                dc_co_signed_by = Some (id_raw (kc_co_signed_by r))\<rparr>)
         else None)"

lemma decode_control_link:
  "map_option (\<lambda>d. (dc_prev_head d, dc_head d)) (decode_control sha bs) =
     (case from_bytes bs of Inl _ \<Rightarrow> None | Inr d \<Rightarrow> Some (d_prev_head d, sha bs))"
  by (auto simp: decode_control_def from_bytes_def rbind_def map_err_def Let_def
      split: option.splits sum.splits)

section \<open>Chains\<close>

text \<open>\<open>linked sha h recs h'\<close>: the records chain from head \<open>h\<close> to head \<open>h'\<close>.\<close>

fun linked :: "(bytes \<Rightarrow> bytes) \<Rightarrow> bytes \<Rightarrow> bytes list \<Rightarrow> bytes \<Rightarrow> bool" where
  "linked sha h [] h' \<longleftrightarrow> h' = h"
| "linked sha h (b # bs) h' \<longleftrightarrow> (case from_bytes b of Inl _ \<Rightarrow> False
     | Inr d \<Rightarrow> d_prev_head d = h \<and> linked sha (sha b) bs h')"

lemma linked_append:
  "linked sha h (bs @ cs) h' \<longleftrightarrow> (\<exists>m. linked sha h bs m \<and> linked sha m cs h')"
  by (induction bs arbitrary: h) (auto split: sum.splits)

lemma linked_snoc:
  "linked sha h (bs @ [b]) h' \<longleftrightarrow>
     (\<exists>d. from_bytes b = Inr d \<and> linked sha h bs (d_prev_head d) \<and> h' = sha b)"
  by (cases "from_bytes b") (auto simp: linked_append)

text \<open>A chain is determined by its head, as long as no two of its records hash alike and none
  hashes to the genesis head.\<close>

lemma linked_inj:
  assumes "linked sha g xs h" and "linked sha g ys h" and "inj_on sha (set xs \<union> set ys)"
    and "\<forall>x \<in> set xs \<union> set ys. sha x \<noteq> g"
  shows "xs = ys"
  using assms
proof (induction xs arbitrary: ys h rule: rev_induct)
  case Nil
  then show ?case by (cases ys rule: rev_cases) (auto simp: linked_snoc)
next
  case (snoc x xs)
  show ?case
  proof (cases ys rule: rev_cases)
    case Nil
    with snoc.prems show ?thesis by (auto simp: linked_snoc)
  next
    case ys: (snoc ys' y)
    from snoc.prems(1) obtain d where x: "from_bytes x = Inr d" "linked sha g xs (d_prev_head d)"
      "h = sha x" by (auto simp: linked_snoc)
    from snoc.prems(2) obtain e where y: "from_bytes y = Inr e" "linked sha g ys' (d_prev_head e)"
      "h = sha y" by (auto simp: linked_snoc ys)
    have "sha x = sha y" using x(3) y(3) by simp
    with snoc.prems(3) have "x = y" by (rule inj_onD) (simp_all add: ys)
    have "d = e" using x(1) y(1) unfolding \<open>x = y\<close> by simp
    have "xs = ys'"
    proof (rule snoc.IH)
      show "linked sha g xs (d_prev_head d)" by (rule x)
      show "linked sha g ys' (d_prev_head d)" using y \<open>d = e\<close> by simp
      show "inj_on sha (set xs \<union> set ys')"
        using snoc.prems(3) by (rule inj_on_subset) (auto simp: ys)
      show "\<forall>x \<in> set xs \<union> set ys'. sha x \<noteq> g" using snoc.prems(4) by (auto simp: ys)
    qed
    with \<open>x = y\<close> ys show ?thesis by simp
  qed
qed

text \<open>The contract of a party that serves the log: what it serves chains from the genesis head
  to the head it reports. The sink and the server's store both provide it.\<close>

locale chained_log =
  fixes sha :: "bytes \<Rightarrow> bytes"
    and recs :: "'s \<Rightarrow> bytes list"
    and tip :: "'s \<Rightarrow> bytes"
    and inv :: "'s \<Rightarrow> bool"
  assumes chained: "inv s \<Longrightarrow> linked sha (b32_raw GENESIS_HEAD) (recs s) (tip s)"
begin

lemma determined:
  assumes "inv s" and "linked sha (b32_raw GENESIS_HEAD) served (tip s)"
    and "inj_on sha (set served \<union> set (recs s))"
    and "\<forall>x \<in> set served \<union> set (recs s). sha x \<noteq> b32_raw GENESIS_HEAD"
  shows "served = recs s"
  by (rule linked_inj [OF assms(2) chained [OF assms(1)] assms(3,4)])

end

text \<open>Stores reached from the empty one by appends, accepted or refused.\<close>

inductive sink_reach :: "(bytes \<Rightarrow> bytes) \<Rightarrow> control_log_store \<Rightarrow> bool" for sha where
  fresh: "sink_reach sha control_log_new"
| step: "sink_reach sha s \<Longrightarrow> control_log_append sha rec s = (res, s') \<Longrightarrow> sink_reach sha s'"

lemma control_log_append_cases:
  assumes "control_log_append sha rec s = (res, s')"
  obtains (refused) e where "res = Inl e" and "s' = s"
  | (accepted) d where "from_bytes rec = Inr d" and "d_prev_head d = cl_head s"
      and "res = Inr (control_log_head s')"
      and "s' = \<lparr>cl_records = cl_records s @ [rec], cl_head = sha rec, cl_chain_seq = cl_chain_seq s + 1\<rparr>"
proof (cases "from_bytes rec")
  case (Inl e)
  with assms show ?thesis
    by (intro refused [of AMalformed]) (auto simp: control_log_append_def peek_prev_head_from_bytes)
next
  case (Inr d)
  show ?thesis
  proof (cases "d_prev_head d = cl_head s")
    case True
    with Inr assms show ?thesis
      by (intro accepted [OF Inr True])
        (auto simp: control_log_append_def peek_prev_head_from_bytes Let_def)
  next
    case False
    with Inr assms show ?thesis
      by (intro refused [of NotAppending])
        (auto simp: control_log_append_def peek_prev_head_from_bytes)
  qed
qed

lemma sink_reach_linked:
  "sink_reach sha s \<Longrightarrow> linked sha (b32_raw GENESIS_HEAD) (cl_records s) (cl_head s) \<and>
     cl_chain_seq s = word_of_nat (length (cl_records s))"
proof (induction rule: sink_reach.induct)
  case fresh
  then show ?case by (simp add: control_log_new_def)
next
  case (step s rec res s')
  from step(2) show ?case
    by (cases rule: control_log_append_cases) (use step.IH in \<open>auto simp: linked_snoc add.commute\<close>)
qed

interpretation sink: chained_log sha cl_records cl_head "sink_reach sha" for sha
  by unfold_locales (simp add: sink_reach_linked)

text \<open>The sink's log only ever grows: an append either is refused and changes nothing, or
  appends exactly the given record, which is a canonical control record linking to the old head,
  moves the head to its hash and bumps the sequence number; every earlier record stays in place.\<close>

theorem sink_append_only:
  "(case control_log_append sha rec s of
      (Inl e, s') \<Rightarrow> s' = s \<and> (if is_ok (from_bytes rec) then e = NotAppending else e = AMalformed)
    | (Inr h, s') \<Rightarrow> cl_records s' = cl_records s @ [rec] \<and> h = control_log_head s' \<and>
        cl_head s' = sha rec \<and> cl_chain_seq s' = cl_chain_seq s + 1 \<and>
        map_err (\<lambda>_. ()) (from_bytes rec) = Inr (projr (from_bytes rec)) \<and>
        d_prev_head (projr (from_bytes rec)) = cl_head s)"
  by (cases "from_bytes rec")
    (auto simp: control_log_append_def peek_prev_head_from_bytes Let_def)

section \<open>Positions are ordered\<close>

definition positions_ok :: "position_log \<Rightarrow> bool" where
  "positions_ok l \<longleftrightarrow> sorted_wrt (<) (control_pos l) \<and> (\<forall>p \<in> set (control_pos l). p < next_pos l) \<and>
     (\<forall>p \<in> ran (genesis_pos l). p < next_pos l \<and> p \<notin> set (control_pos l)) \<and>
     inj_on (genesis_pos l) (dom (genesis_pos l))"

lemma next_pos_less: "next_pos l \<noteq> - 1 \<Longrightarrow> next_pos l < next_pos l + 1"
  using unatSuc [of "next_pos l"]
  by (simp add: word_less_nat_alt add_eq_0_iff add.commute [of _ 1])

lemma positions_ok_new: "positions_ok position_log_new"
  by (simp add: positions_ok_def position_log_new_def)

lemma record_control_ok:
  assumes "positions_ok l" and "next_pos l \<noteq> - 1"
  shows "positions_ok (snd (record_control l))"
proof -
  note less = next_pos_less [OF assms(2)]
  have "p < next_pos l + 1" if "p < next_pos l" for p using that less by (rule less_trans)
  with assms less show ?thesis
    by (auto simp: positions_ok_def record_control_def Let_def sorted_wrt_append)
qed

lemma anchor_genesis_ok:
  assumes "positions_ok l" and "next_pos l \<noteq> - 1"
  shows "positions_ok (snd (anchor_genesis f l))"
proof (cases "genesis_pos l f")
  case None
  note less = next_pos_less [OF assms(2)]
  have "p < next_pos l + 1" if "p < next_pos l" for p using that less by (rule less_trans)
  moreover have "genesis_pos l g \<noteq> Some (next_pos l)" for g
    using assms(1) by (fastforce simp: positions_ok_def ran_def)
  ultimately show ?thesis
    using assms less None
    by (auto simp: positions_ok_def anchor_genesis_def Let_def inj_on_def dom_def)
qed (use assms in \<open>simp add: anchor_genesis_def\<close>)

text \<open>A genesis cannot be backdated past a control record: one anchored for the first time
  after a record reached the sink gets a strictly later position than that record, and keeps it
  under every later anchoring of the same file, whose attempt changes nothing.\<close>

theorem genesis_not_backdated:
  assumes "positions_ok l" and "next_pos l \<noteq> - 1" and "control_pos_at n l = Some p"
    and "genesis_pos_of f l = None" and "anchor_genesis f l = (q, l')"
  shows "p < q \<and> genesis_pos_of f l' = Some q \<and> control_pos_at n l' = Some p \<and> positions_ok l' \<and>
    anchor_genesis f l' = (q, l')"
proof -
  have l': "q = next_pos l" "l' = l\<lparr>next_pos := next_pos l + 1, genesis_pos := (genesis_pos l)(f \<mapsto> q)\<rparr>"
    using assms(4,5) by (auto simp: anchor_genesis_def genesis_pos_of_def Let_def)
  have "p \<in> set (control_pos l)"
    using assms(3) by (auto simp: control_pos_at_def Let_def split: if_splits)
  with assms(1) have "p < q" by (auto simp: positions_ok_def l')
  moreover have "positions_ok l'" using anchor_genesis_ok [OF assms(1,2), of f] assms(5) by simp
  ultimately show ?thesis
    using assms(3)
    by (auto simp: l' genesis_pos_of_def control_pos_at_def anchor_genesis_def Let_def
        split: if_splits)
qed

theorem genesis_not_backdated_witness:
  "fst (anchor_genesis [7] (snd (record_control position_log_new))) = 1 \<and> (0 :: u64) < 1"
proof -
  let ?l = "snd (record_control position_log_new)"
  have "positions_ok ?l" by (intro record_control_ok positions_ok_new) (simp add: position_log_new_def)
  moreover have "control_pos_at 1 ?l = Some 0" "genesis_pos_of [7] ?l = None" "next_pos ?l \<noteq> - 1"
    by (simp_all add: record_control_def position_log_new_def control_pos_at_def genesis_pos_of_def)
  moreover have "fst (anchor_genesis [7] ?l) = 1"
    by (simp add: record_control_def position_log_new_def anchor_genesis_def)
  ultimately show ?thesis
    using genesis_not_backdated [of ?l 1 0 "[7]" 1 "snd (anchor_genesis [7] ?l)"]
    by (metis prod.collapse)
qed

end
