(* ===== verification/Revocation.thy ===== *)
theory Revocation
  imports ControlLog
begin

text \<open>
  \<^verbatim>\<open>crates/client-core/src/revocation.rs\<close>: the client's evaluation of the control log. A
  \<open>TombstoneSet\<close> is the list of its decoded records; the directory lookup \<open>issuer\<close> is the
  closure the caller passes, Ed25519 the parameters of \<^verbatim>\<open>Signing.thy\<close>.
\<close>

section \<open>Records\<close>

record issuer_info =
  ii_sig_pub :: bytes
  ii_roles :: "role list"
  ii_key_version :: u64

record control_record_in =
  cr_bytes :: bytes
  cr_sig :: bytes
  cr_co_sig :: "bytes option"

datatype tombstone_set = TombstoneSet (ts_records: "decoded list")

fun d_issued_by :: "decoded \<Rightarrow> ident" where
  "d_issued_by (DRevocation r) = rv_issued_by r"
| "d_issued_by (DReinstatement r) = ri_issued_by r"
| "d_issued_by (DKeyCompromise r) = kc_issued_by r"

fun d_co_signed_by :: "decoded \<Rightarrow> ident option" where
  "d_co_signed_by (DRevocation r) = rv_co_signed_by r"
| "d_co_signed_by (DReinstatement r) = Some (ri_co_signed_by r)"
| "d_co_signed_by (DKeyCompromise r) = Some (kc_co_signed_by r)"

fun requires_dual_control :: "decoded \<Rightarrow> bool" where
  "requires_dual_control (DRevocation r) = is_account_wide (rv_scope r)"
| "requires_dual_control (DReinstatement r) = True"
| "requires_dual_control (DKeyCompromise r) = True"

fun verify_canonical_of :: "ed_strict \<Rightarrow> bytes \<Rightarrow> bytes \<Rightarrow> decoded \<Rightarrow> crypto_error + unit" where
  "verify_canonical_of strict vk sig (DRevocation r) =
     verify_canonical strict vk L_REVOCATION TYPE_REVOCATION put_revocation r sig"
| "verify_canonical_of strict vk sig (DReinstatement r) =
     verify_canonical strict vk L_REINSTATEMENT TYPE_REINSTATEMENT put_reinstatement r sig"
| "verify_canonical_of strict vk sig (DKeyCompromise r) =
     verify_canonical strict vk L_KEY_COMPROMISE TYPE_KEY_COMPROMISE put_key_compromise r sig"

definition verify_sig :: "vk_check \<Rightarrow> ed_strict \<Rightarrow> bytes \<Rightarrow> bytes \<Rightarrow> decoded \<Rightarrow> bool" where
  "verify_sig vk_valid strict pubkey sig d = (case vk_from_bytes vk_valid pubkey of
       Inl _ \<Rightarrow> False
     | Inr vk \<Rightarrow> is_ok (verify_canonical_of strict vk sig d))"

section \<open>Evaluation\<close>

definition revocations_in :: "decoded list \<Rightarrow> revocation list" where
  "revocations_in records =
     List.map_filter (\<lambda>d. case d of DRevocation r \<Rightarrow> Some r | _ \<Rightarrow> None) records"

definition is_superseded_in :: "decoded list \<Rightarrow> revocation \<Rightarrow> bool" where
  "is_superseded_in records rvk = list_ex (\<lambda>d. case d of
       DReinstatement r \<Rightarrow> ri_scope r = rv_scope rvk \<and>
         ri_reinstated_user_id r = rv_revoked_user_id rvk \<and>
         ri_supersedes_epoch r = rv_revocation_epoch rvk
     | _ \<Rightarrow> False) records"

fun scope_matches_file :: "file_scope \<Rightarrow> bytes \<Rightarrow> bool" where
  "scope_matches_file AccountWide file_id = True"
| "scope_matches_file (Specific i) file_id \<longleftrightarrow> id_raw i = file_id"

definition effective_roles_in :: "decoded list \<Rightarrow> bytes \<Rightarrow> role list \<Rightarrow> role list" where
  "effective_roles_in records user_id ceiling =
     [role \<leftarrow> ceiling. \<not> list_ex (\<lambda>r. id_raw (rv_revoked_user_id r) = user_id \<and>
        rv_revoked_capability r = Some role \<and> \<not> is_superseded_in records r) (revocations_in records)]"

definition prefix_is_admin :: "decoded list \<Rightarrow> ident \<Rightarrow> role list \<Rightarrow> bool" where
  "prefix_is_admin records user_id ceiling \<longleftrightarrow>
     RoleAdmin \<in> set (effective_roles_in records (id_raw user_id) ceiling)"

definition is_account_revoked :: "tombstone_set \<Rightarrow> bytes \<Rightarrow> bool" where
  "is_account_revoked ts user_id = list_ex (\<lambda>r. is_account_wide (rv_scope r) \<and>
       id_raw (rv_revoked_user_id r) = user_id \<and> rv_revoked_capability r = None \<and>
       \<not> is_superseded_in (ts_records ts) r) (revocations_in (ts_records ts))"

definition is_revoked :: "tombstone_set \<Rightarrow> bytes \<Rightarrow> bytes \<Rightarrow> u64 \<Rightarrow> bool" where
  "is_revoked ts user_id file_id version = list_ex (\<lambda>r.
       id_raw (rv_revoked_user_id r) = user_id \<and> rv_revoked_capability r = None \<and>
       rv_from_version r \<le> version \<and> scope_matches_file (rv_scope r) file_id \<and>
       \<not> is_superseded_in (ts_records ts) r) (revocations_in (ts_records ts))"

definition effective_roles :: "tombstone_set \<Rightarrow> bytes \<Rightarrow> role list \<Rightarrow> role list" where
  "effective_roles ts user_id ceiling = effective_roles_in (ts_records ts) user_id ceiling"

definition key_compromise_for :: "tombstone_set \<Rightarrow> bytes \<Rightarrow> u64 \<Rightarrow> key_compromise option" where
  "key_compromise_for ts user_id key_version =
     find (\<lambda>kc. id_raw (kc_user_id kc) = user_id \<and> kc_key_version kc = key_version)
       (List.map_filter (\<lambda>d. case d of DKeyCompromise kc \<Rightarrow> Some kc | _ \<Rightarrow> None) (ts_records ts))"

section \<open>Verification\<close>

fun ts_verify_loop :: "(bytes \<Rightarrow> bytes) \<Rightarrow> bytes list \<Rightarrow> bytes \<Rightarrow> decoded list
    \<Rightarrow> tombstone_error + (bytes \<times> decoded list)" where
  "ts_verify_loop sha [] head acc = Inr (head, acc)"
| "ts_verify_loop sha (b # bs) head acc = rbind (from_bytes b) (\<lambda>d.
     if d_prev_head d \<noteq> head then Inl BrokenChain
     else ts_verify_loop sha bs (sha b) (acc @ [d]))"

definition ts_verify :: "(bytes \<Rightarrow> bytes) \<Rightarrow> bytes list \<Rightarrow> bytes \<Rightarrow> tombstone_error + tombstone_set" where
  "ts_verify sha records anchored_head =
     rbind (ts_verify_loop sha records (b32_raw GENESIS_HEAD) []) (\<lambda>(head, ds).
       if head \<noteq> anchored_head then Inl Gap else Inr (TombstoneSet ds))"

definition authenticate_authority :: "vk_check \<Rightarrow> ed_strict \<Rightarrow> decoded \<Rightarrow> control_record_in
    \<Rightarrow> decoded list \<Rightarrow> (ident \<Rightarrow> issuer_info option) \<Rightarrow> tombstone_error + unit" where
  "authenticate_authority vk_valid strict d rec pre issuer =
     (let issued_by = d_issued_by d in
      rbind (ok_or (issuer issued_by) UnknownIssuer) (\<lambda>info.
      if \<not> verify_sig vk_valid strict (ii_sig_pub info) (cr_sig rec) d then Inl BadAuthority
      else if \<not> prefix_is_admin pre issued_by (ii_roles info) then Inl NotAdmin
      else if requires_dual_control d then
        rbind (ok_or (d_co_signed_by d) DualControlMissing) (\<lambda>co_id.
        rbind (ok_or (cr_co_sig rec) DualControlMissing) (\<lambda>co_sig.
        if co_id = issued_by then Inl DualControlMissing
        else rbind (ok_or (issuer co_id) UnknownIssuer) (\<lambda>co_info.
          if \<not> verify_sig vk_valid strict (ii_sig_pub co_info) co_sig d then Inl BadAuthority
          else if \<not> prefix_is_admin pre co_id (ii_roles co_info) then Inl NotAdmin
          else Inr ())))
      else Inr ()))"

fun ts_auth_loop :: "(bytes \<Rightarrow> bytes) \<Rightarrow> vk_check \<Rightarrow> ed_strict \<Rightarrow> (ident \<Rightarrow> issuer_info option)
    \<Rightarrow> control_record_in list \<Rightarrow> bytes \<Rightarrow> decoded list \<Rightarrow> tombstone_error + (bytes \<times> decoded list)"
where
  "ts_auth_loop sha vk_valid strict issuer [] head acc = Inr (head, acc)"
| "ts_auth_loop sha vk_valid strict issuer (rec # recs) head acc = rbind (from_bytes (cr_bytes rec)) (\<lambda>d.
     if d_prev_head d \<noteq> head then Inl BrokenChain
     else rbind (authenticate_authority vk_valid strict d rec acc issuer) (\<lambda>_.
       ts_auth_loop sha vk_valid strict issuer recs (sha (cr_bytes rec)) (acc @ [d])))"

definition verify_authenticated :: "(bytes \<Rightarrow> bytes) \<Rightarrow> vk_check \<Rightarrow> ed_strict
    \<Rightarrow> control_record_in list \<Rightarrow> bytes \<Rightarrow> (ident \<Rightarrow> issuer_info option)
    \<Rightarrow> tombstone_error + tombstone_set" where
  "verify_authenticated sha vk_valid strict records anchored_head issuer =
     rbind (ts_auth_loop sha vk_valid strict issuer records (b32_raw GENESIS_HEAD) [])
       (\<lambda>(head, ds). if head \<noteq> anchored_head then Inl Gap else Inr (TombstoneSet ds))"

definition verify_authenticated_unanchored :: "(bytes \<Rightarrow> bytes) \<Rightarrow> vk_check \<Rightarrow> ed_strict
    \<Rightarrow> control_record_in list \<Rightarrow> (ident \<Rightarrow> issuer_info option) \<Rightarrow> tombstone_error + tombstone_set" where
  "verify_authenticated_unanchored sha vk_valid strict records issuer =
     rbind (ts_auth_loop sha vk_valid strict issuer records (b32_raw GENESIS_HEAD) [])
       (\<lambda>(head, ds). Inr (TombstoneSet ds))"

section \<open>The verified set is the chain\<close>

lemma ts_verify_loop_Inr:
  "ts_verify_loop sha bs head acc = Inr (h', ds) \<longleftrightarrow>
     linked sha head bs h' \<and> (\<exists>es. ds = acc @ es \<and> map from_bytes bs = map Inr es)"
proof (induction bs arbitrary: head acc)
  case (Cons b bs)
  show ?case
  proof (cases "from_bytes b")
    case (Inr d)
    with Cons show ?thesis by (auto simp: Cons_eq_map_conv)
  qed auto
qed auto

lemma ts_verify_iff:
  "ts_verify sha records anchored = Inr (TombstoneSet ds) \<longleftrightarrow>
     linked sha (b32_raw GENESIS_HEAD) records anchored \<and> map from_bytes records = map Inr ds"
  by (auto simp: ts_verify_def rbind_eq_Inr ts_verify_loop_Inr split: if_splits)

lemma linked_decodes: "linked sha h bs h' \<Longrightarrow> \<exists>ds. map from_bytes bs = map Inr ds"
proof (induction bs arbitrary: h)
  case (Cons b bs)
  then obtain d where "from_bytes b = Inr d" and "linked sha (sha b) bs h'"
    by (auto split: sum.splits)
  with Cons.IH obtain ds where "map from_bytes bs = map Inr ds" by blast
  with \<open>from_bytes b = Inr d\<close> have "map from_bytes (b # bs) = map Inr (d # ds)" by simp
  then show ?case by blast
qed simp

context chained_log
begin

text \<open>A client accepts what an honest server of the log serves.\<close>

lemma served_accepted:
  assumes "inv s"
  shows "\<exists>ds. ts_verify sha (recs s) (tip s) = Inr (TombstoneSet ds) \<and>
    map from_bytes (recs s) = map Inr ds"
  using chained [OF assms] linked_decodes [OF chained [OF assms]] by (auto simp: ts_verify_iff)

text \<open>And nothing else, at the head it reports.\<close>

lemma only_served_accepted:
  assumes "inv s" and "ts_verify sha served (tip s) = Inr ts"
    and "inj_on sha (set served \<union> set (recs s))"
    and "\<forall>x \<in> set served \<union> set (recs s). sha x \<noteq> b32_raw GENESIS_HEAD"
  shows "served = recs s"
proof -
  from assms(2) have "linked sha (b32_raw GENESIS_HEAD) served (tip s)"
    by (cases ts) (simp add: ts_verify_iff)
  with assms show ?thesis by (intro determined)
qed

end

section \<open>Concrete records\<close>

definition rv0 :: revocation where
  "rv0 = \<lparr>rv_scope = AccountWide, rv_revoked_user_id = Id (replicate 16 9),
     rv_revoked_capability = None, rv_from_version = 2, rv_revocation_epoch = 1,
     rv_prev_head = GENESIS_HEAD, rv_issued_by = Id (replicate 16 1),
     rv_co_signed_by = Some (Id (replicate 16 2)), rv_created_at = Timestamp 5\<rparr>"

lemma from_bytes_rv0: "from_bytes (d_bytes (DRevocation rv0)) = Inr (DRevocation rv0)"
  by (subst from_bytes_iff) (simp add: rv0_def ok_revocation_def ok_id_def ok_b32_def GENESIS_HEAD_def)

definition sink0 :: control_log_store where
  "sink0 = snd (control_log_append (\<lambda>x. x) (d_bytes (DRevocation rv0)) control_log_new)"

lemma sink0: "sink_reach (\<lambda>x. x) sink0" "cl_records sink0 = [d_bytes (DRevocation rv0)]"
  "cl_head sink0 = d_bytes (DRevocation rv0)"
proof -
  show "sink_reach (\<lambda>x. x) sink0"
    unfolding sink0_def by (rule step [OF fresh]) (rule prod.collapse [symmetric])
  have "peek_prev_head (d_bytes (DRevocation rv0)) = Inr (b32_raw GENESIS_HEAD)"
    unfolding peek_prev_head_from_bytes from_bytes_rv0 by (simp add: rv0_def)
  then show "cl_records sink0 = [d_bytes (DRevocation rv0)]"
    "cl_head sink0 = d_bytes (DRevocation rv0)"
    by (simp_all add: sink0_def control_log_append_def control_log_new_def Let_def del: d_bytes.simps)
qed

lemma rv0_not_genesis: "d_bytes (DRevocation rv0) \<noteq> b32_raw GENESIS_HEAD"
proof
  assume "d_bytes (DRevocation rv0) = b32_raw GENESIS_HEAD"
  then have "peek_type_id (d_bytes (DRevocation rv0)) = peek_type_id (b32_raw GENESIS_HEAD)" by simp
  moreover have "replicate 32 (0 :: byte) = 0 # 0 # replicate 30 0" by (simp flip: replicate_Suc)
  ultimately show False by (simp add: peek_encode) (simp add: peek_type_id_def GENESIS_HEAD_def)
qed

text \<open>C11: At the head a sink attests, a client accepts exactly the sink's records: whatever list a
  server serves, verification succeeds only for the complete log, so records can be neither
  withheld nor rolled back, reordered or replaced (unless two records hash alike or one hashes to
  the genesis head), and the complete log is always accepted.\<close>

theorem sink_log_exactly_accepted:
  assumes "sink_reach sha s" and "inj_on sha (set served \<union> set (cl_records s))"
    and "\<forall>x \<in> set served \<union> set (cl_records s). sha x \<noteq> b32_raw GENESIS_HEAD"
  shows "(\<exists>ts. ts_verify sha served (cl_head s) = Inr ts) \<longleftrightarrow> served = cl_records s"
  using sink.served_accepted [OF assms(1)] sink.only_served_accepted [OF assms(1) _ assms(2,3)]
  by blast

theorem sink_log_exactly_accepted_witness:
  "(\<exists>ts. ts_verify (\<lambda>x. x) [] (cl_head sink0) = Inr ts) \<longleftrightarrow> [] = cl_records sink0"
  using sink_log_exactly_accepted [OF sink0(1), of "[]"] rv0_not_genesis by (simp add: sink0)

section \<open>Authority\<close>

text \<open>A record is authorised over a prefix when its issuer is known, signed it and is an effective
  admin there, and, under dual control, a second, different admin did the same.\<close>

definition admin_signed :: "vk_check \<Rightarrow> ed_strict \<Rightarrow> (ident \<Rightarrow> issuer_info option) \<Rightarrow> decoded list
    \<Rightarrow> decoded \<Rightarrow> ident \<Rightarrow> bytes \<Rightarrow> bool" where
  "admin_signed vk_valid strict issuer pre d who sig \<longleftrightarrow>
     (\<exists>info. issuer who = Some info \<and> verify_sig vk_valid strict (ii_sig_pub info) sig d \<and>
        prefix_is_admin pre who (ii_roles info))"

definition authorised :: "vk_check \<Rightarrow> ed_strict \<Rightarrow> (ident \<Rightarrow> issuer_info option) \<Rightarrow> decoded list
    \<Rightarrow> decoded \<Rightarrow> control_record_in \<Rightarrow> bool" where
  "authorised vk_valid strict issuer pre d rec \<longleftrightarrow>
     admin_signed vk_valid strict issuer pre d (d_issued_by d) (cr_sig rec) \<and>
     (requires_dual_control d \<longrightarrow> (\<exists>co co_sig. d_co_signed_by d = Some co \<and> cr_co_sig rec = Some co_sig \<and>
        co \<noteq> d_issued_by d \<and> admin_signed vk_valid strict issuer pre d co co_sig))"

definition all_authorised :: "vk_check \<Rightarrow> ed_strict \<Rightarrow> (ident \<Rightarrow> issuer_info option) \<Rightarrow> decoded list
    \<Rightarrow> decoded list \<Rightarrow> control_record_in list \<Rightarrow> bool" where
  "all_authorised vk_valid strict issuer pre ds recs \<longleftrightarrow> length ds = length recs \<and>
     (\<forall>i < length recs. authorised vk_valid strict issuer (pre @ take i ds) (ds ! i) (recs ! i))"

lemma authenticate_authority_Inr:
  "authenticate_authority vk_valid strict d rec pre issuer = Inr u \<longleftrightarrow>
     authorised vk_valid strict issuer pre d rec"
  by (auto simp: authenticate_authority_def authorised_def admin_signed_def rbind_eq_Inr
      ok_or_eq_Inr Let_def split: if_splits)

lemma all_authorised_Cons:
  "all_authorised vk_valid strict issuer pre (d # ds) (rec # recs) \<longleftrightarrow>
     authorised vk_valid strict issuer pre d rec \<and>
     all_authorised vk_valid strict issuer (pre @ [d]) ds recs"
  by (auto simp: all_authorised_def less_Suc_eq_0_disj)

lemma ts_auth_loop_Inr:
  "ts_auth_loop sha vk_valid strict issuer recs head acc = Inr (h', ds) \<longleftrightarrow>
     linked sha head (map cr_bytes recs) h' \<and>
     (\<exists>es. ds = acc @ es \<and> map (from_bytes \<circ> cr_bytes) recs = map Inr es \<and>
        all_authorised vk_valid strict issuer acc es recs)"
proof (induction recs arbitrary: head acc)
  case (Cons rec recs)
  show ?case
  proof (cases "from_bytes (cr_bytes rec)")
    case (Inr d)
    have "ts_auth_loop sha vk_valid strict issuer (rec # recs) head acc = Inr (h', ds) \<longleftrightarrow>
        d_prev_head d = head \<and> authorised vk_valid strict issuer acc d rec \<and>
        ts_auth_loop sha vk_valid strict issuer recs (sha (cr_bytes rec)) (acc @ [d]) = Inr (h', ds)"
      by (auto simp: Inr rbind_eq_Inr authenticate_authority_Inr split: if_splits)
    also have "\<dots> \<longleftrightarrow> linked sha head (map cr_bytes (rec # recs)) h' \<and>
        (\<exists>es. ds = acc @ d # es \<and> map (from_bytes \<circ> cr_bytes) recs = map Inr es \<and>
           all_authorised vk_valid strict issuer acc (d # es) (rec # recs))"
      unfolding Cons.IH by (auto simp: Inr all_authorised_Cons)
    also have "(\<exists>es. ds = acc @ d # es \<and> map (from_bytes \<circ> cr_bytes) recs = map Inr es \<and>
           all_authorised vk_valid strict issuer acc (d # es) (rec # recs)) \<longleftrightarrow>
        (\<exists>es. ds = acc @ es \<and> map (from_bytes \<circ> cr_bytes) (rec # recs) = map Inr es \<and>
           all_authorised vk_valid strict issuer acc es (rec # recs))"
      by (auto simp: Inr Cons_eq_map_conv)
    finally show ?thesis .
  qed (auto simp: Cons_eq_map_conv)
qed (auto simp: all_authorised_def)

text \<open>C10: The authenticated set contains only authorised records: verification succeeds precisely
  when the served records chain to the anchored head and each one, over the records before it, was
  signed by an issuer who was then still an effective admin, and by a second, different
  effective admin where dual control is required.\<close>

theorem authenticated_iff_authorised:
  "verify_authenticated sha vk_valid strict recs anchored issuer = Inr (TombstoneSet ds) \<longleftrightarrow>
     linked sha (b32_raw GENESIS_HEAD) (map cr_bytes recs) anchored \<and>
     map (from_bytes \<circ> cr_bytes) recs = map Inr ds \<and>
     all_authorised vk_valid strict issuer [] ds recs"
  by (auto simp: verify_authenticated_def rbind_eq_Inr ts_auth_loop_Inr split: if_splits)

text \<open>Dropping the external anchor drops the gap check and nothing else: with the derived head
  as target both verifications agree, and every other error is the same.\<close>

lemma ts_auth_loop_head:
  "ts_auth_loop sha vk_valid strict issuer recs head acc = Inr (h', ds) \<Longrightarrow>
     h' = (if recs = [] then head else sha (cr_bytes (last recs)))"
  by (induction recs arbitrary: head acc) (auto simp: rbind_eq_Inr split: if_splits)

theorem unanchored_only_skips_gap:
  "verify_authenticated sha vk_valid strict recs anchored issuer =
     (case verify_authenticated_unanchored sha vk_valid strict recs issuer of
        Inl e \<Rightarrow> Inl e
      | Inr ts \<Rightarrow>
          if anchored = (if recs = [] then b32_raw GENESIS_HEAD else sha (cr_bytes (last recs)))
          then Inr ts else Inl Gap)"
proof (cases "ts_auth_loop sha vk_valid strict issuer recs (b32_raw GENESIS_HEAD) []")
  case (Inr p)
  obtain h ds where p: "p = (h, ds)" by (cases p)
  from Inr ts_auth_loop_head [of sha vk_valid strict issuer recs _ "[]" h ds]
  show ?thesis
    by (auto simp: verify_authenticated_def verify_authenticated_unanchored_def p)
qed (simp add: verify_authenticated_def verify_authenticated_unanchored_def)

section \<open>Effect of the records\<close>

lemma revocations_in_append: "revocations_in (ds @ es) = revocations_in ds @ revocations_in es"
  by (induction ds) (auto simp: revocations_in_def List.map_filter_simps split: decoded.splits)

lemma set_revocations_in: "r \<in> set (revocations_in ds) \<longleftrightarrow> DRevocation r \<in> set ds"
  by (induction ds) (auto simp: revocations_in_def List.map_filter_simps split: decoded.splits)

lemma is_superseded_append:
  "is_superseded_in (ds @ es) r \<longleftrightarrow> is_superseded_in ds r \<or> is_superseded_in es r"
  by (simp add: is_superseded_in_def)

lemma is_superseded_iff:
  "is_superseded_in ds r \<longleftrightarrow> (\<exists>ri. DReinstatement ri \<in> set ds \<and> ri_scope ri = rv_scope r \<and>
     ri_reinstated_user_id ri = rv_revoked_user_id r \<and> ri_supersedes_epoch ri = rv_revocation_epoch r)"
  by (induction ds) (auto simp: is_superseded_in_def split: decoded.splits)

lemma is_revoked_iff:
  "is_revoked (TombstoneSet ds) u f v \<longleftrightarrow> (\<exists>r. DRevocation r \<in> set ds \<and>
     id_raw (rv_revoked_user_id r) = u \<and> rv_revoked_capability r = None \<and> rv_from_version r \<le> v \<and>
     scope_matches_file (rv_scope r) f \<and> \<not> is_superseded_in ds r)"
  by (auto simp: is_revoked_def list_ex_iff set_revocations_in)

text \<open>The users a list of records reinstates.\<close>

definition reinstated_users :: "decoded list \<Rightarrow> bytes set" where
  "reinstated_users ds = {id_raw (ri_reinstated_user_id ri) | ri. DReinstatement ri \<in> set ds}"

text \<open>C15: A tombstone is permanent until lifted: as the log grows, a user revoked from a file at a
  version stays revoked there and at every later version, unless a reinstatement names that
  user.\<close>

theorem revocation_persists:
  assumes "is_revoked (TombstoneSet ds) u f v" and "u \<notin> reinstated_users es" and "v \<le> w"
  shows "is_revoked (TombstoneSet (ds @ es)) u f w"
proof -
  from assms(1) obtain r where r: "DRevocation r \<in> set ds" "id_raw (rv_revoked_user_id r) = u"
    "rv_revoked_capability r = None" "rv_from_version r \<le> v" "scope_matches_file (rv_scope r) f"
    "\<not> is_superseded_in ds r" by (auto simp: is_revoked_iff)
  have "\<not> is_superseded_in es r"
    using assms(2) r(2) by (auto simp: is_superseded_iff reinstated_users_def)
  moreover have "rv_from_version r \<le> w" using r(4) assms(3) by (rule order_trans)
  ultimately show ?thesis
    using r unfolding is_revoked_iff by (auto simp: is_superseded_append)
qed

theorem revocation_persists_witness:
  "is_revoked (TombstoneSet ([DRevocation rv0] @ [DRevocation rv0])) (replicate 16 9) [4] 7"
  by (rule revocation_persists [where v = 2])
    (auto simp: is_revoked_iff is_superseded_in_def rv0_def reinstated_users_def)

text \<open>C14: De-admin takes effect at once: after a role-narrowing tombstone against an admin that no
  reinstatement lifts, any record that user issues with a valid signature is rejected as
  \<open>NotAdmin\<close>, whatever ceiling the directory still grants.\<close>

theorem deadmin_strips_authority:
  assumes "DRevocation r \<in> set pre" and "rv_revoked_capability r = Some RoleAdmin"
    and "\<not> is_superseded_in pre r" and "d_issued_by d = rv_revoked_user_id r"
    and "issuer (d_issued_by d) = Some info"
    and "verify_sig vk_valid strict (ii_sig_pub info) (cr_sig rec) d"
  shows "authenticate_authority vk_valid strict d rec pre issuer = Inl NotAdmin"
proof -
  have "\<not> prefix_is_admin pre (d_issued_by d) (ii_roles info)"
    using assms(1-4)
    by (auto simp: prefix_is_admin_def effective_roles_in_def list_ex_iff set_revocations_in)
  then show ?thesis using assms(5,6) by (simp add: authenticate_authority_def)
qed

theorem deadmin_strips_authority_witness:
  "authenticate_authority (\<lambda>_. True) (\<lambda>vk m s. True)
     (DRevocation (rv0\<lparr>rv_issued_by := Id (replicate 16 9)\<rparr>)) \<lparr>cr_bytes = [], cr_sig = [], cr_co_sig = None\<rparr>
     [DRevocation (rv0\<lparr>rv_revoked_capability := Some RoleAdmin\<rparr>)]
     (\<lambda>_. Some \<lparr>ii_sig_pub = [], ii_roles = [RoleAdmin], ii_key_version = 1\<rparr>) = Inl NotAdmin"
  by (rule deadmin_strips_authority [where r = "rv0\<lparr>rv_revoked_capability := Some RoleAdmin\<rparr>"])
    (simp_all add: rv0_def is_superseded_in_def verify_sig_def vk_from_bytes_def verify_canonical_def)

end
