(* ===== verification/Transparency.thy ===== *)
theory Transparency
  imports Merkle_Log Signing ControlLog
begin

text \<open>
  The two transparency logs and the client that checks them: the directory log
  (\<^verbatim>\<open>crates/sink-server/src/dirlog.rs\<close>), the sink's head anchoring
  (\<^verbatim>\<open>crates/sink-server/src/anchor.rs\<close>), the client's gossip verification
  (\<^verbatim>\<open>crates/client-core/src/transparency.rs\<close>) and its anchor-proof check
  (\<open>verify_anchor_proof\<close> of \<^verbatim>\<open>crates/client-core/src/sink.rs\<close>). \<open>ed_sign\<close> and \<open>ed_pub\<close> are
  the dalek package's signing and public-key functions on a secret key.
\<close>

section \<open>The directory log\<close>

record kt_checkpoint =
  kc_tree_size :: u64
  kc_root :: bytes
  kc_sig :: bytes

record inclusion_proof =
  ip_index :: u64
  ip_tree_size :: u64
  ip_path :: "bytes list"

record dir_log =
  dl_log_key :: bytes
  dl_leaves :: "bytes list"

definition dir_log_new :: "bytes \<Rightarrow> dir_log" where
  "dir_log_new log_key = \<lparr>dl_log_key = log_key, dl_leaves = []\<rparr>"

definition dir_log_append :: "bytes \<Rightarrow> dir_log \<Rightarrow> u64 \<times> dir_log" where
  "dir_log_append binding_bytes l =
     (let index = word_of_nat (length (dl_leaves l));
          l = l\<lparr>dl_leaves := dl_leaves l @ [binding_bytes]\<rparr>
      in (index, l))"

definition dir_log_tree_size :: "dir_log \<Rightarrow> u64" where
  "dir_log_tree_size l = word_of_nat (length (dl_leaves l))"

definition dir_log_checkpoint ::
  "(bytes \<Rightarrow> bytes) \<Rightarrow> (bytes \<Rightarrow> bytes \<Rightarrow> bytes) \<Rightarrow> dir_log \<Rightarrow> kt_checkpoint" where
  "dir_log_checkpoint sha ed_sign l =
     (let tree_size = word_of_nat (length (dl_leaves l));
          root = merkle_root sha (dl_leaves l);
          sig = ed_sign (dl_log_key l) (kt_checkpoint_signing_input tree_size root)
      in \<lparr>kc_tree_size = tree_size, kc_root = root, kc_sig = sig\<rparr>)"

text \<open>The outer option is a panic of \<open>inclusion_path\<close>, the inner one the function's result.\<close>

definition dir_log_inclusion :: "(bytes \<Rightarrow> bytes) \<Rightarrow> u64 \<Rightarrow> dir_log \<Rightarrow> inclusion_proof option option"
where
  "dir_log_inclusion sha index l =
     (if word_of_nat (length (dl_leaves l)) \<le> index then Some None
      else map_option (\<lambda>path. Some \<lparr>ip_index = index,
          ip_tree_size = word_of_nat (length (dl_leaves l)), ip_path = path\<rparr>)
        (inclusion_path sha (unat index) (dl_leaves l)))"

definition dir_log_consistency :: "(bytes \<Rightarrow> bytes) \<Rightarrow> u64 \<Rightarrow> dir_log \<Rightarrow> bytes list option" where
  "dir_log_consistency sha from_size l =
     consistency_path sha (dl_leaves l) from_size (word_of_nat (length (dl_leaves l)))"

definition dir_log_public :: "(bytes \<Rightarrow> bytes) \<Rightarrow> dir_log \<Rightarrow> bytes" where
  "dir_log_public ed_pub l = ed_pub (dl_log_key l)"

section \<open>The client's gossip check\<close>

datatype kt_error = BadCheckpoint | NotIncluded | SplitView | Regression

text \<open>The store keeps the latest accepted checkpoint.\<close>

type_synonym kt_store = "kt_checkpoint option"

definition verify_checkpoint_sig :: "vk_check \<Rightarrow> ed_strict \<Rightarrow> kt_checkpoint \<Rightarrow> bytes list \<Rightarrow> bool" where
  "verify_checkpoint_sig vk_valid strict checkpoint log_pubs =
     any_key_verifies vk_valid strict log_pubs
       (kt_checkpoint_signing_input (kc_tree_size checkpoint) (kc_root checkpoint)) (kc_sig checkpoint)"

definition check_gossip :: "(bytes \<Rightarrow> bytes) \<Rightarrow> kt_checkpoint \<Rightarrow> bytes list \<Rightarrow> kt_store \<Rightarrow> kt_error + unit"
where
  "check_gossip sha checkpoint consistency store = (case store of
       None \<Rightarrow> Inr ()
     | Some prev \<Rightarrow>
         if kc_tree_size checkpoint < kc_tree_size prev then Inl Regression
         else if kc_tree_size checkpoint = kc_tree_size prev then
           (if kc_root checkpoint \<noteq> kc_root prev then Inl SplitView else Inr ())
         else if \<not> verify_consistency sha (kc_tree_size prev) (kc_root prev)
             (kc_tree_size checkpoint) (kc_root checkpoint) consistency
         then Inl SplitView
         else Inr ())"

text \<open>The result carries the store after the call; on an error it is the store before it.\<close>

definition verify_binding_in_log :: "(bytes \<Rightarrow> bytes) \<Rightarrow> vk_check \<Rightarrow> ed_strict \<Rightarrow> bytes
    \<Rightarrow> inclusion_proof \<Rightarrow> kt_checkpoint \<Rightarrow> bytes list \<Rightarrow> bytes list \<Rightarrow> kt_store
    \<Rightarrow> (kt_error + unit) \<times> kt_store" where
  "verify_binding_in_log sha vk_valid strict binding_bytes inclusion checkpoint consistency log_pubs store =
     (if \<not> verify_checkpoint_sig vk_valid strict checkpoint log_pubs then (Inl BadCheckpoint, store)
      else case check_gossip sha checkpoint consistency store of
        Inl e \<Rightarrow> (Inl e, store)
      | Inr _ \<Rightarrow>
          if ip_tree_size inclusion \<noteq> kc_tree_size checkpoint \<or>
             \<not> verify_inclusion sha binding_bytes (ip_index inclusion) (ip_tree_size inclusion)
                 (ip_path inclusion) (kc_root checkpoint)
          then (Inl NotIncluded, store)
          else (Inr (), Some checkpoint))"

definition confirm_binding_logged :: "(bytes \<Rightarrow> bytes) \<Rightarrow> vk_check \<Rightarrow> ed_strict \<Rightarrow> bytes
    \<Rightarrow> inclusion_proof \<Rightarrow> kt_checkpoint \<Rightarrow> bytes list \<Rightarrow> kt_store
    \<Rightarrow> (kt_error + unit) \<times> kt_store" where
  "confirm_binding_logged sha vk_valid strict binding_bytes inclusion checkpoint log_pubs store =
     verify_binding_in_log sha vk_valid strict binding_bytes inclusion checkpoint [] log_pubs store"

section \<open>Anchoring heads\<close>

datatype anchor_proof =
    CustodianCoSig (ap_sig: bytes)
  | TransparencyInclusion (ap_checkpoint_sig: bytes) (ap_tree_size: u64) (ap_root: bytes)
      (ap_index: u64) (ap_path: "bytes list")

record anchor_bundle =
  ab_cosig :: anchor_proof
  ab_transparency :: anchor_proof

record anchorer =
  an_custodian :: bytes
  an_log :: bytes
  an_leaves :: "bytes list"
  an_history :: "(anchored_head \<times> anchor_bundle) list"

definition anchorer_new :: "bytes \<Rightarrow> bytes \<Rightarrow> anchorer" where
  "anchorer_new custodian log =
     \<lparr>an_custodian = custodian, an_log = log, an_leaves = [], an_history = []\<rparr>"

definition head_signing_bytes :: "anchored_head \<Rightarrow> bytes" where
  "head_signing_bytes h = sink_head_signing_input (ah_chain_seq h) (ah_head h)"

definition anchor :: "(bytes \<Rightarrow> bytes) \<Rightarrow> (bytes \<Rightarrow> bytes \<Rightarrow> bytes) \<Rightarrow> anchored_head \<Rightarrow> anchorer
    \<Rightarrow> (anchor_bundle \<times> anchorer) option" where
  "anchor sha ed_sign head a =
     (let leaf = sink_head_signing_input (ah_chain_seq head) (ah_head head);
          a = a\<lparr>an_leaves := an_leaves a @ [leaf]\<rparr>;
          tree_size = word_of_nat (length (an_leaves a));
          index = length (an_leaves a) - 1;
          root = merkle_root sha (an_leaves a) in
      case inclusion_path sha index (an_leaves a) of None \<Rightarrow> None
      | Some path \<Rightarrow>
        (let checkpoint_sig = ed_sign (an_log a) (sink_checkpoint_signing_input tree_size root);
             cosig_sig = ed_sign (an_custodian a)
               (sink_head_signing_input (ah_chain_seq head) (ah_head head));
             bundle = \<lparr>ab_cosig = CustodianCoSig cosig_sig,
               ab_transparency = TransparencyInclusion checkpoint_sig tree_size root
                 (word_of_nat index) path\<rparr>;
             a = a\<lparr>an_history := an_history a @ [(head, bundle)]\<rparr>
         in Some (bundle, a)))"

datatype sink_error = BadProof | Unreachable | NotAnchored

definition verify_anchor_proof :: "(bytes \<Rightarrow> bytes) \<Rightarrow> vk_check \<Rightarrow> ed_strict \<Rightarrow> anchored_head
    \<Rightarrow> anchor_proof \<Rightarrow> bytes list \<Rightarrow> bytes list \<Rightarrow> sink_error + unit" where
  "verify_anchor_proof sha vk_valid strict head proof' custodian_pubs transparency_log_pubs =
     (let ok = (case proof' of
          CustodianCoSig sig \<Rightarrow>
            any_key_verifies vk_valid strict custodian_pubs (head_signing_bytes head) sig
        | TransparencyInclusion checkpoint_sig tree_size root index path \<Rightarrow>
            any_key_verifies vk_valid strict transparency_log_pubs
              (sink_checkpoint_signing_input tree_size root) checkpoint_sig \<and>
            verify_inclusion sha (head_signing_bytes head) index tree_size path root)
      in if ok then Inr () else Inl BadProof)"

text \<open>\<open>confirm_anchored\<close> on what \<open>fetch_head_all_proofs\<close> returned.\<close>

definition confirm_anchored :: "(bytes \<Rightarrow> bytes) \<Rightarrow> vk_check \<Rightarrow> ed_strict
    \<Rightarrow> sink_error + (anchored_head \<times> anchor_proof list) \<Rightarrow> bytes list \<Rightarrow> bytes list \<Rightarrow> anchored_head
    \<Rightarrow> sink_error + unit" where
  "confirm_anchored sha vk_valid strict fetched custodian_pubs log_pubs expected =
     rbind fetched (\<lambda>(head, proofs).
       let verified = list_ex (\<lambda>p. is_ok (verify_anchor_proof sha vk_valid strict head p
             custodian_pubs log_pubs)) proofs in
       if \<not> verified then Inl BadProof
       else if head = expected then Inr () else Inl NotAnchored)"

section \<open>What acceptance means\<close>

text \<open>A checkpoint commits to a log when it has its size and root.\<close>

definition commits :: "(bytes \<Rightarrow> bytes) \<Rightarrow> kt_checkpoint \<Rightarrow> bytes list \<Rightarrow> bool" where
  "commits sha cp log \<longleftrightarrow> unat (kc_tree_size cp) = length log \<and> kc_root cp = merkle_root sha log"

definition root_safe :: "(bytes \<Rightarrow> bytes) \<Rightarrow> bytes list \<Rightarrow> bytes list \<Rightarrow> bool" where
  "root_safe sha old new \<longleftrightarrow> (\<forall>x. length (sha x) = 32) \<and>
     no_collision sha (tree_inputs sha old) (tree_inputs sha new)"

lemma verify_binding_in_log_Inr:
  "verify_binding_in_log sha vk_valid strict b incl cp cons pubs store = (Inr (), store') \<longleftrightarrow>
     verify_checkpoint_sig vk_valid strict cp pubs \<and> check_gossip sha cp cons store = Inr () \<and>
     ip_tree_size incl = kc_tree_size cp \<and>
     verify_inclusion sha b (ip_index incl) (kc_tree_size cp) (ip_path incl) (kc_root cp) \<and>
     store' = Some cp"
  by (auto simp: verify_binding_in_log_def split: sum.splits)

lemma check_gossip_extends:
  assumes "check_gossip sha cp cons (Some prev) = Inr ()" and "commits sha prev old"
    and "commits sha cp new" and "merkle_ext_safe sha old new cons" and "root_safe sha old new"
  shows "take (length old) new = old"
proof (cases "kc_tree_size cp = kc_tree_size prev")
  case True
  with assms have "merkle_root sha old = merkle_root sha new" and len: "length old = length new"
    by (auto simp: check_gossip_def commits_def split: if_splits)
  with merkle_root_inj [OF this] assms(5) show ?thesis by (simp add: root_safe_def)
next
  case False
  with assms(1-3) have "verify_consistency sha (kc_tree_size prev) (merkle_root sha old)
      (kc_tree_size cp) (merkle_root sha new) cons"
    by (auto simp: check_gossip_def commits_def split: if_splits)
  from merkle.extends_sound [OF this] assms show ?thesis by (simp add: commits_def)
qed

lemma binding_extends_view:
  assumes "verify_binding_in_log sha vk_valid strict b incl cp cons pubs (Some prev) = (Inr (), store')"
    and "commits sha prev old" and "commits sha cp new"
    and "merkle_ext_safe sha old new cons" and "root_safe sha old new"
    and "merkle_incl_safe sha b (ip_index incl) (kc_tree_size cp) (ip_path incl) new"
  shows "take (length old) new = old \<and> unat (ip_index incl) < length new \<and>
    new ! unat (ip_index incl) = b \<and> store' = Some cp"
proof -
  from assms(1) have gossip: "check_gossip sha cp cons (Some prev) = Inr ()"
    and incl: "verify_inclusion sha b (ip_index incl) (kc_tree_size cp) (ip_path incl) (kc_root cp)"
    and "store' = Some cp" by (auto simp: verify_binding_in_log_Inr)
  moreover from check_gossip_extends [OF gossip assms(2-5)] have "take (length old) new = old" .
  moreover from assms(3) have n: "unat (kc_tree_size cp) = length new"
    and root: "kc_root cp = merkle_root sha new" by (simp_all add: commits_def)
  from merkle.included_iff [OF n assms(6)] incl
  have "ip_index incl < kc_tree_size cp" "b = new ! unat (ip_index incl)" by (simp_all add: root)
  ultimately show ?thesis using n by (simp add: word_less_nat_alt)
qed

text \<open>C18: No split view: when a client that has gossiped the checkpoint of one log accepts a binding
  under the checkpoint of another, the new log extends the old one leaf for leaf, the binding is
  the new log's leaf at the claimed index, and the client remembers the new checkpoint.\<close>

theorem accepted_binding_extends_view:
  assumes "verify_binding_in_log sha vk_valid strict b incl cp cons pubs (Some prev) = (Inr (), store')"
    and "commits sha prev old" and "commits sha cp new"
    and "merkle_ext_safe sha old new cons" and "root_safe sha old new"
    and "merkle_incl_safe sha b (ip_index incl) (kc_tree_size cp) (ip_path incl) new"
  shows "take (length old) new = old \<and> unat (ip_index incl) < length new \<and>
    new ! unat (ip_index incl) = b \<and> store' = Some cp"
  using assms by (rule binding_extends_view)

text \<open>Rejection is fail-closed: whatever is served, an unsuccessful verification leaves the
  gossip state as it was, and with no pinned key every checkpoint is refused.\<close>

theorem rejected_binding_keeps_view:
  "(case verify_binding_in_log sha vk_valid strict b incl cp cons pubs store of
      (Inl e, store') \<Rightarrow> store' = store
    | (Inr _, store') \<Rightarrow> store' = Some cp \<and> verify_checkpoint_sig vk_valid strict cp pubs \<and>
        pubs \<noteq> [] \<and> (store = None \<or> kc_tree_size (the store) \<le> kc_tree_size cp))"
  by (cases "pubs = []")
    (auto simp: verify_binding_in_log_def check_gossip_def verify_checkpoint_sig_def
      split: sum.splits option.splits if_splits)

section \<open>What honest logs serve is accepted\<close>

lemma own_key_verifies:
  "vk_valid (ed_pub sk) \<Longrightarrow> strict (ed_pub sk) m (ed_sign sk m) \<Longrightarrow> ed_pub sk \<in> set pubs \<Longrightarrow>
     any_key_verifies vk_valid strict pubs m (ed_sign sk m)"
  by (auto simp: any_key_verifies_iff)

text \<open>Server and client agree: for every leaf of a directory log, the inclusion proof, the
  checkpoint and the consistency proof the log serves are accepted by a client that pinned the
  log's key and last saw any earlier state of it, and the client advances to the new state.\<close>

theorem honest_directory_accepted:
  assumes "dl_leaves l = dl_leaves l0 @ later" and "dl_log_key l0 = dl_log_key l"
    and "i < length (dl_leaves l)" and "length (dl_leaves l) < 2 ^ 64"
    and "vk_valid (ed_pub (dl_log_key l))"
    and "\<And>m. strict (ed_pub (dl_log_key l)) m (ed_sign (dl_log_key l) m)"
  shows "\<exists>incl cons. dir_log_inclusion sha (word_of_nat i) l = Some (Some incl) \<and>
    dir_log_consistency sha (dir_log_tree_size l0) l = Some cons \<and>
    verify_binding_in_log sha vk_valid strict (dl_leaves l ! i) incl (dir_log_checkpoint sha ed_sign l)
      cons [dir_log_public ed_pub l] (Some (dir_log_checkpoint sha ed_sign l0)) =
      (Inr (), Some (dir_log_checkpoint sha ed_sign l))"
proof -
  let ?L = "dl_leaves l" and ?n = "word_of_nat (length (dl_leaves l)) :: u64"
  let ?m = "word_of_nat (length (dl_leaves l0)) :: u64"
  have "length (dl_leaves l0) \<le> length ?L" using assms(1) by simp
  then have "length (dl_leaves l0) < 2 ^ 64" "i < 2 ^ 64" using assms(3,4) by linarith+
  with assms(4) have len: "unat ?n = length ?L" "unat ?m = length (dl_leaves l0)"
    "unat (word_of_nat i :: u64) = i"
    by (simp_all add: unat_of_nat)
  have i: "\<not> ?n \<le> word_of_nat i" using assms(3) by (simp add: word_le_nat_alt len)
  have le: "?m \<le> ?n" using \<open>length (dl_leaves l0) \<le> length ?L\<close> by (simp add: word_le_nat_alt len)
  from merkle.included_complete [OF assms(3,4), of sha] obtain path where
    path: "inclusion_path sha i ?L = Some path"
    "verify_inclusion sha (?L ! i) (word_of_nat i) ?n path (merkle_root sha ?L)" by blast
  have "take (length (dl_leaves l0)) ?L = dl_leaves l0" using assms(1) by simp
  with merkle.extends_complete [OF le, of ?L sha, unfolded len] obtain cons where
    cons: "consistency_path sha ?L ?m ?n = Some cons"
    "verify_consistency sha ?m (merkle_root sha (dl_leaves l0)) ?n (merkle_root sha ?L) cons"
    by auto
  have same: "?n = ?m \<Longrightarrow> dl_leaves l0 = ?L"
    using arg_cong [of ?n ?m unat, unfolded len] assms(1) by simp
  show ?thesis
    using path cons i le same assms(5,6)
    by (auto simp: dir_log_inclusion_def dir_log_consistency_def dir_log_tree_size_def len
        verify_binding_in_log_Inr verify_checkpoint_sig_def check_gossip_def dir_log_checkpoint_def
        dir_log_public_def Let_def not_less intro!: own_key_verifies)
qed

text \<open>The anchorer's states.\<close>

inductive anchor_reach :: "(bytes \<Rightarrow> bytes) \<Rightarrow> (bytes \<Rightarrow> bytes \<Rightarrow> bytes) \<Rightarrow> bytes \<Rightarrow> bytes \<Rightarrow> anchorer \<Rightarrow> bool"
  for sha ed_sign custodian log where
  fresh: "anchor_reach sha ed_sign custodian log (anchorer_new custodian log)"
| step: "anchor_reach sha ed_sign custodian log a \<Longrightarrow> anchor sha ed_sign head a = Some (b, a') \<Longrightarrow>
    anchor_reach sha ed_sign custodian log a'"

definition bundle_verifies :: "(bytes \<Rightarrow> bytes) \<Rightarrow> vk_check \<Rightarrow> ed_strict \<Rightarrow> bytes \<Rightarrow> bytes
    \<Rightarrow> anchored_head \<times> anchor_bundle \<Rightarrow> bool" where
  "bundle_verifies sha vk_valid strict custodian_pub log_pub p = (case p of (h, b) \<Rightarrow>
     verify_anchor_proof sha vk_valid strict h (ab_cosig b) [custodian_pub] [] = Inr () \<and>
     verify_anchor_proof sha vk_valid strict h (ab_transparency b) [] [log_pub] = Inr ())"

lemma anchor_total:
  "\<exists>b a'. anchor sha ed_sign head a = Some (b, a') \<and> an_leaves a' = an_leaves a @
     [head_signing_bytes head] \<and> an_history a' = an_history a @ [(head, b)] \<and>
     an_custodian a' = an_custodian a \<and> an_log a' = an_log a"
proof -
  have "length (an_leaves a) < length (an_leaves a @ [head_signing_bytes head])" by simp
  from inclusion_path_levels [OF this, of sha] show ?thesis
    by (simp add: anchor_def head_signing_bytes_def Let_def)
qed

lemma anchor_bundle_verifies:
  assumes "anchor sha ed_sign head a = Some (b, a')" and "length (an_leaves a') < 2 ^ 64"
    and "vk_valid (ed_pub (an_custodian a))" and "vk_valid (ed_pub (an_log a))"
    and "\<And>sk m. strict (ed_pub sk) m (ed_sign sk m)"
  shows "bundle_verifies sha vk_valid strict (ed_pub (an_custodian a)) (ed_pub (an_log a)) (head, b)"
proof -
  let ?L = "an_leaves a @ [head_signing_bytes head]"
  have len: "length ?L < 2 ^ 64" using assms(1,2) anchor_total [of sha ed_sign head a] by auto
  have i: "length (an_leaves a) < length ?L" by simp
  from merkle.included_complete [OF i len, of sha] obtain path where
    "inclusion_path sha (length (an_leaves a)) ?L = Some path"
    "verify_inclusion sha (head_signing_bytes head) (word_of_nat (length (an_leaves a)))
       (word_of_nat (length ?L)) path (merkle_root sha ?L)" by auto
  with assms(1,3-5) show ?thesis
    by (auto simp: bundle_verifies_def anchor_def verify_anchor_proof_def head_signing_bytes_def Let_def
        intro!: own_key_verifies)
qed

lemma anchor_reach_keys:
  "anchor_reach sha ed_sign c lg a \<Longrightarrow> an_custodian a = c \<and> an_log a = lg"
proof (induction rule: anchor_reach.induct)
  case (step a head b a')
  with anchor_total [of sha ed_sign head a] show ?case by auto
qed (simp add: anchorer_new_def)

text \<open>Every head a sink has ever anchored stays verifiable: in each state reached by anchoring,
  both proof forms of every head in the history are accepted by a client that pins the
  custodian's or the log's public key.\<close>

theorem anchored_history_verifies:
  assumes "anchor_reach sha ed_sign c lg a" and "length (an_leaves a) < 2 ^ 64"
    and "vk_valid (ed_pub c)" and "vk_valid (ed_pub lg)" and "\<And>sk m. strict (ed_pub sk) m (ed_sign sk m)"
  shows "list_all (bundle_verifies sha vk_valid strict (ed_pub c) (ed_pub lg)) (an_history a)"
  using assms(1,2)
proof (induction rule: anchor_reach.induct)
  case fresh
  then show ?case by (simp add: anchorer_new_def)
next
  case (step a head b a')
  note keys = anchor_reach_keys [OF step(1)]
  have "bundle_verifies sha vk_valid strict (ed_pub c) (ed_pub lg) (head, b)"
    using anchor_bundle_verifies [where vk_valid = vk_valid and strict = strict and ed_pub = ed_pub,
        OF step(2,4)] assms(3-5) keys by simp
  with step anchor_total [of sha ed_sign head a] show ?case by auto
qed

section \<open>Concrete runs\<close>

theorem honest_directory_accepted_witness:
  "\<exists>incl cons. dir_log_inclusion toy_sha 2 \<lparr>dl_log_key = [1], dl_leaves = [[1], [2], [3]]\<rparr> = Some (Some incl) \<and>
    dir_log_consistency toy_sha 2 \<lparr>dl_log_key = [1], dl_leaves = [[1], [2], [3]]\<rparr> = Some cons"
  using honest_directory_accepted [of "\<lparr>dl_log_key = [1], dl_leaves = [[1], [2], [3]]\<rparr>"
      "\<lparr>dl_log_key = [1], dl_leaves = [[1], [2]]\<rparr>" "[[3]]" 2 "\<lambda>_. True" "\<lambda>sk. sk" "\<lambda>pk m s. s = pk @ m"
      "\<lambda>sk m. sk @ m" toy_sha]
  by (auto simp: dir_log_tree_size_def)

theorem anchored_history_verifies_witness:
  "list_all (bundle_verifies toy_sha (\<lambda>_. True) (\<lambda>pk m s. s = pk @ m) [1] [2])
     (an_history (snd (the (anchor toy_sha (\<lambda>sk m. sk @ m) \<lparr>ah_chain_seq = 1, ah_head = [4]\<rparr>
        (anchorer_new [1] [2])))))"
proof -
  let ?h = "\<lparr>ah_chain_seq = 1, ah_head = [4]\<rparr> :: anchored_head"
  obtain b a' where a': "anchor toy_sha (\<lambda>sk m. sk @ m) ?h (anchorer_new [1] [2]) = Some (b, a')"
    and "an_leaves a' = [head_signing_bytes ?h]"
    using anchor_total [of toy_sha "\<lambda>sk m. sk @ m" ?h "anchorer_new [1] [2]"]
    by (auto simp: anchorer_new_def)
  moreover have "anchor_reach toy_sha (\<lambda>sk m. sk @ m) [1] [2] a'"
    by (rule anchor_reach.step [OF anchor_reach.fresh a'])
  ultimately show ?thesis
    using anchored_history_verifies [of toy_sha "\<lambda>sk m. sk @ m" "[1]" "[2]" a' "\<lambda>_. True" "\<lambda>sk. sk"
        "\<lambda>pk m s. s = pk @ m"] by simp
qed

lemma toy_root: "merkle_root toy_sha [[1]] = toy_sha [0, 1]"
  by (simp add: merkle_root.simps leaf_hash_def)

lemma toy_consistent:
  "verify_consistency toy_sha 1 (toy_sha [0, 1]) 2 (merkle_root toy_sha [[1], [2]]) [toy_sha [0, 2]]"
  by (simp add: verify_consistency_levels [of 1 2 "map (leaf_hash toy_sha) [[1], [2]]" toy_sha
        "map (leaf_hash toy_sha) [[1], [2]]" 0] climb_ones.simps rebuild_def climb.simps
      climb_smaller.simps merkle_root_levels leaf_hash_def level_root.simps)

lemma toy_included:
  "verify_inclusion toy_sha [2] 1 2 [toy_sha [0, 1]] (merkle_root toy_sha [[1], [2]])"
  by (simp add: verify_inclusion_climb climb.simps merkle_root_levels leaf_hash_def level_root.simps)

theorem accepted_binding_extends_view_witness:
  "fst (verify_binding_in_log toy_sha (\<lambda>_. True) (\<lambda>pk m s. True) [2]
      \<lparr>ip_index = 1, ip_tree_size = 2, ip_path = [toy_sha [0, 1]]\<rparr>
      \<lparr>kc_tree_size = 2, kc_root = merkle_root toy_sha [[1], [2]], kc_sig = []\<rparr> [toy_sha [0, 2]] [[5]]
      (Some \<lparr>kc_tree_size = 1, kc_root = toy_sha [0, 1], kc_sig = []\<rparr>)) = Inr () \<and>
   take 1 [[1], [2]] = [[1 :: byte]]"
proof -
  let ?cp = "\<lparr>kc_tree_size = 2, kc_root = merkle_root toy_sha [[1], [2]], kc_sig = []\<rparr>"
  let ?prev = "\<lparr>kc_tree_size = 1, kc_root = toy_sha [0, 1], kc_sig = []\<rparr>"
  let ?incl = "\<lparr>ip_index = 1, ip_tree_size = 2, ip_path = [toy_sha [0, 1]]\<rparr>"
  have run: "verify_binding_in_log toy_sha (\<lambda>_. True) (\<lambda>pk m s. True) [2] ?incl ?cp [toy_sha [0, 2]]
      [[5]] (Some ?prev) = (Inr (), Some ?cp)"
    using toy_consistent toy_included
    by (simp add: verify_binding_in_log_Inr verify_checkpoint_sig_def any_key_verifies_iff check_gossip_def)
  have "no_collision toy_sha (tree_inputs toy_sha [[1]]) (tree_inputs toy_sha [[1], [2]])"
    by (auto simp: tree_inputs_def node_inputs.simps no_collision_def toy_sha_def leaf_hash_def)
  with accepted_binding_extends_view [OF run, of "[[1]]" "[[1], [2]]"] toy_no_collision
    toy_no_collision_consistency
  show ?thesis
    by (simp add: run commits_def toy_root root_safe_def merkle_ext_safe_def merkle_incl_safe_def)
qed

end
