(* ===== verification/ServerFiles.thy ===== *)
theory ServerFiles
  imports Encoding_Laws
begin

text \<open>
  \<^verbatim>\<open>crates/server/src/files.rs\<close>: the file records a client posts, their bounds and the coarse
  checks of \<open>parse_stage\<close>. \<open>i16\<close> and \<open>i32\<close> columns are kept as their 16 and 32 bits; the
  code only compares them for equality.
\<close>

type_synonym i16 = "16 word"
type_synonym i32 = "32 word"

record store_error =
  se_context :: string
  se_detail :: string

definition CHUNK_SIZE_MIN :: u32 where "CHUNK_SIZE_MIN = 4 * 1024"
definition CHUNK_SIZE_MAX :: u32 where "CHUNK_SIZE_MAX = 8 * 1024 * 1024"
definition MAX_ADDRESSABLE_BYTES :: u64 where "MAX_ADDRESSABLE_BYTES = 256 * 1024 * 1024 * 1024"

record wrap_input =
  wi_recipient_id :: bytes
  wi_recipient_type :: i16
  wi_wrapped_dek :: bytes
  wi_wrap_alg :: i32
  wi_granted_by :: bytes
  wi_grant_bytes :: bytes
  wi_grant_sig :: bytes

record genesis_input =
  gi_genesis_bytes :: bytes
  gi_genesis_sig :: bytes

record stage_input =
  si_file_id :: bytes
  si_caller_id :: bytes
  si_file_type_advisory :: i16
  si_genesis :: "genesis_input option"
  si_manifest_bytes :: bytes
  si_manifest_sig :: bytes
  si_wraps :: "wrap_input list"
  si_stream_totals :: "(i16 \<times> u64) list"
  si_proposed_version :: u64
  si_listed :: bool
  si_bundle_id :: "bytes option"

record stream_row =
  sr_stream_type :: i16
  sr_compression :: i16
  sr_chunk_size :: u32
  sr_chunk_count :: u64
  sr_total_bytes :: u64
  sr_digest :: bytes
  sr_blob_ref :: string

record genesis_row =
  gw_owner_id :: bytes
  gw_owner_key_version :: u64
  gw_genesis_bytes :: bytes
  gw_genesis_sig :: bytes

record parsed_stage =
  ps_file_id :: bytes
  ps_file_type :: i16
  ps_version :: u64
  ps_author_id :: bytes
  ps_alg :: i32
  ps_manifest_bytes :: bytes
  ps_manifest_sig :: bytes
  ps_genesis :: "genesis_row option"
  ps_streams :: "stream_row list"
  ps_wraps :: "wrap_input list"
  ps_recovery_present :: bool
  ps_listed :: bool
  ps_bundle_id :: "bytes option"

datatype stage_error = BadManifest | BadGenesis | FileIdMismatch | StNotOwner | ChunkSizeOutOfRange
  | SizeBoundExceeded | MissingRecoveryWrap | MismatchedRecoveryWrap | VersionMismatch
  | GenesisRequired | GenesisUnexpected | NoSuchFile | StAlreadyFinalized | StStore store_error

datatype finalize_error = FzNotOwner | NoSuchVersion | VersionConflict u64 u64 | FzAlreadyFinalized
  | FzStore store_error

datatype add_wrap_error = NoAccess | BadRequest | AwStore store_error

datatype delete_wrap_error = DwNotFound | NotAuthorized | RecoveryProtected | DwStore store_error

datatype discard_error = DcNotFound | HasFinalizedVersion | DcStore store_error

datatype delete_error = DlNotFound | DlStore store_error

datatype version_selector = Latest | SpecificVersion u64

datatype list_sort = Newest | Oldest

record list_filter =
  lf_file_type :: "i16 option"
  lf_limit :: nat
  lf_offset :: u64
  lf_sort :: list_sort
  lf_owner_only :: bool
  lf_caller_id :: bytes

definition for_caller :: "bytes \<Rightarrow> list_filter" where
  "for_caller caller_id = \<lparr>lf_file_type = None, lf_limit = 50, lf_offset = 0, lf_sort = Newest,
     lf_owner_only = False, lf_caller_id = caller_id\<rparr>"

section \<open>Blob references\<close>

definition digit_char :: "nat \<Rightarrow> char" where
  "digit_char n = ''0123456789abcdef'' ! n"

definition hex2 :: "byte \<Rightarrow> string" where
  "hex2 b = [digit_char (unat b div 16), digit_char (unat b mod 16)]"

fun dec :: "nat \<Rightarrow> string" where
  "dec n = (if n < 10 then [digit_char n] else dec (n div 10) @ [digit_char (n mod 10)])"

declare dec.simps [simp del]

definition blob_ref :: "bytes \<Rightarrow> u64 \<Rightarrow> byte \<Rightarrow> string" where
  "blob_ref file_id version stream_type =
     (let hex = concat (map hex2 file_id)
      in hex @ ''/'' @ dec (unat version) @ ''/'' @ dec (unat stream_type))"

section \<open>Staging\<close>

fun check_sizes :: "u32 \<Rightarrow> stream list \<Rightarrow> stage_error + unit" where
  "check_sizes chunk_size [] = Inr ()"
| "check_sizes chunk_size (s # ss) =
     rbind (ok_or (checked_mul (sm_chunk_count s) (ucast chunk_size)) SizeBoundExceeded) (\<lambda>product.
     if MAX_ADDRESSABLE_BYTES < product then Inl SizeBoundExceeded else check_sizes chunk_size ss)"

text \<open>\<open>(w.recipient_type == 2) != (w.recipient_id == RECOVERY_ID)\<close>.\<close>

definition half_recovery :: "wrap_input \<Rightarrow> bool" where
  "half_recovery w \<longleftrightarrow> (wi_recipient_type w = 2) \<noteq> (wi_recipient_id w = id_raw RECOVERY_ID)"

definition is_recovery_wrap :: "wrap_input \<Rightarrow> bool" where
  "is_recovery_wrap w \<longleftrightarrow> wi_recipient_type w = 2 \<and> wi_recipient_id w = id_raw RECOVERY_ID"

definition parse_genesis :: "stage_input \<Rightarrow> manifest \<Rightarrow> stage_error + genesis_row option" where
  "parse_genesis input manifest = (case (si_genesis input, ma_version manifest = 1) of
       (Some g, True) \<Rightarrow>
         rbind (map_err (\<lambda>_. BadGenesis) (decode TYPE_GENESIS put_genesis get_genesis (gi_genesis_bytes g)))
           (\<lambda>decoded.
         if id_raw (ge_file_id decoded) \<noteq> si_file_id input then Inl FileIdMismatch
         else if id_raw (ge_owner_id decoded) \<noteq> si_caller_id input then Inl StNotOwner
         else Inr (Some \<lparr>gw_owner_id = id_raw (ge_owner_id decoded),
           gw_owner_key_version = ge_owner_key_version decoded,
           gw_genesis_bytes = gi_genesis_bytes g, gw_genesis_sig = gi_genesis_sig g\<rparr>))
     | (Some _, False) \<Rightarrow> Inl GenesisUnexpected
     | (None, True) \<Rightarrow> Inl GenesisRequired
     | (None, False) \<Rightarrow> Inr None)"

definition stream_row_of :: "stage_input \<Rightarrow> manifest \<Rightarrow> stream \<Rightarrow> stream_row" where
  "stream_row_of input manifest s =
     (let st = stream_type_cp (sm_stream_type s);
          total_bytes = (case find (\<lambda>(t, _). t = ucast st) (si_stream_totals input) of
              Some (_, b) \<Rightarrow> b | None \<Rightarrow> 0)
      in \<lparr>sr_stream_type = ucast st, sr_compression = ucast (compression_cp (sm_compression s)),
          sr_chunk_size = ma_chunk_size manifest, sr_chunk_count = sm_chunk_count s,
          sr_total_bytes = total_bytes, sr_digest = b32_raw (sm_digest s),
          sr_blob_ref = blob_ref (si_file_id input) (ma_version manifest) st\<rparr>)"

definition parse_stage :: "stage_input \<Rightarrow> stage_error + parsed_stage" where
  "parse_stage input =
     rbind (map_err (\<lambda>_. BadManifest) (decode TYPE_MANIFEST put_manifest get_manifest
       (si_manifest_bytes input))) (\<lambda>manifest.
     if id_raw (ma_file_id manifest) \<noteq> si_file_id input then Inl FileIdMismatch
     else if ma_chunk_size manifest < CHUNK_SIZE_MIN \<or> CHUNK_SIZE_MAX < ma_chunk_size manifest
       then Inl ChunkSizeOutOfRange
     else rbind (check_sizes (ma_chunk_size manifest) (ma_streams manifest)) (\<lambda>_.
     if id_raw (ma_author_id manifest) \<noteq> si_caller_id input then Inl StNotOwner
     else if list_ex half_recovery (si_wraps input) then Inl MismatchedRecoveryWrap
     else if \<not> list_ex is_recovery_wrap (si_wraps input) then Inl MissingRecoveryWrap
     else if si_proposed_version input \<noteq> ma_version manifest then Inl VersionMismatch
     else rbind (parse_genesis input manifest) (\<lambda>genesis.
     let streams = map (stream_row_of input manifest) (ma_streams manifest) in
     Inr \<lparr>ps_file_id = si_file_id input,
          ps_file_type = ucast (file_type_cp (ma_file_type manifest)),
          ps_version = ma_version manifest, ps_author_id = id_raw (ma_author_id manifest),
          ps_alg = (case ma_alg manifest of SuiteV1 \<Rightarrow> 1 | SuiteV2 \<Rightarrow> 2),
          ps_manifest_bytes = si_manifest_bytes input, ps_manifest_sig = si_manifest_sig input,
          ps_genesis = genesis, ps_streams = streams, ps_wraps = si_wraps input,
          ps_recovery_present = ma_recovery_present manifest, ps_listed = si_listed input,
          ps_bundle_id = si_bundle_id input\<rparr>)))"

section \<open>Blob references are unique\<close>

lemma digit_char_inj: "m < 16 \<Longrightarrow> n < 16 \<Longrightarrow> digit_char m = digit_char n \<longleftrightarrow> m = n"
proof -
  have "distinct ''0123456789abcdef''" by simp
  then show "m < 16 \<Longrightarrow> n < 16 \<Longrightarrow> digit_char m = digit_char n \<longleftrightarrow> m = n"
    unfolding digit_char_def by (subst nth_eq_iff_index_eq) simp_all
qed

lemma hex2_inj: "hex2 a = hex2 b \<longleftrightarrow> a = b"
proof
  assume "hex2 a = hex2 b"
  then have "digit_char (unat a div 16) = digit_char (unat b div 16)"
    "digit_char (unat a mod 16) = digit_char (unat b mod 16)" by (simp_all add: hex2_def)
  moreover have "unat a div 16 < 16" "unat b div 16 < 16"
    using unat_byte_less [of a] unat_byte_less [of b] by (simp_all add: less_mult_imp_div_less)
  ultimately have "unat a div 16 = unat b div 16" "unat a mod 16 = unat b mod 16"
    by (simp_all add: digit_char_inj)
  then have "unat a = unat b" by (metis div_mult_mod_eq)
  then show "a = b" by (simp add: word_unat_eq_iff)
qed simp

lemma concat_hex2_inj:
  "length xs = length ys \<Longrightarrow> concat (map hex2 xs) @ s = concat (map hex2 ys) @ t \<Longrightarrow> xs = ys \<and> s = t"
proof (induction xs ys rule: list_induct2)
  case (Cons x xs y ys)
  then have "hex2 x @ concat (map hex2 xs) @ s = hex2 y @ concat (map hex2 ys) @ t" by simp
  moreover have "length (hex2 x) = length (hex2 y)" by (simp add: hex2_def)
  ultimately have "hex2 x = hex2 y" "concat (map hex2 xs) @ s = concat (map hex2 ys) @ t"
    by (simp_all only: append_eq_same_length)
  with Cons.IH show ?case by (simp add: hex2_inj)
qed simp

definition undec :: "string \<Rightarrow> nat" where
  "undec s = foldl (\<lambda>a c. 10 * a + (of_char c - 48)) 0 s"

lemma digit_char_code: "n < 10 \<Longrightarrow> of_char (digit_char n) = (48 + n :: nat)"
proof -
  assume "n < 10"
  then have "n \<in> {0, 1, 2, 3, 4, 5, 6, 7, 8, 9}" by auto
  then show ?thesis by (auto simp: digit_char_def)
qed

lemma undec_dec: "undec (dec n) = n"
proof (induction n rule: dec.induct)
  case (1 n)
  show ?case
  proof (cases "n < 10")
    case True
    then show ?thesis by (simp add: dec.simps undec_def digit_char_code)
  next
    case False
    with 1 have "foldl (\<lambda>a c. 10 * a + (of_char c - 48)) 0 (dec (n div 10)) = n div 10"
      by (simp add: undec_def)
    with False show ?thesis by (subst dec.simps) (simp add: undec_def digit_char_code)
  qed
qed

lemma slash_not_in_dec: "CHR ''/'' \<notin> set (dec n)"
proof (induction n rule: dec.induct)
  case (1 n)
  have "of_char (digit_char k) \<noteq> (of_char CHR ''/'' :: nat)" if "k < 10" for k
    using that by (simp add: digit_char_code)
  then have "digit_char k \<noteq> CHR ''/''" if "k < 10" for k using that by metis
  with 1 show ?case by (subst dec.simps) (auto dest: sym)
qed

lemma dec_inj: "dec m = dec n \<longleftrightarrow> m = n"
  by (metis undec_dec)

lemma slash_split:
  assumes "a @ CHR ''/'' # b = c @ CHR ''/'' # d" and "CHR ''/'' \<notin> set a" and "CHR ''/'' \<notin> set c"
  shows "a = c \<and> b = d"
proof -
  have "takeWhile (\<lambda>x. x \<noteq> CHR ''/'') (a @ CHR ''/'' # b) = a"
    using assms(2) by (subst takeWhile_append2) auto
  moreover have "takeWhile (\<lambda>x. x \<noteq> CHR ''/'') (c @ CHR ''/'' # d) = c"
    using assms(3) by (subst takeWhile_append2) auto
  ultimately have "a = c" using assms(1) by simp
  then show ?thesis using assms(1) by simp
qed

text \<open>Two streams never share a blob slot: for 16-byte file ids the reference determines the
  file, the version and the stream type.\<close>

theorem blob_ref_injective:
  assumes "length f = 16" and "length f' = 16"
  shows "blob_ref f v t = blob_ref f' v' t' \<longleftrightarrow> f = f' \<and> v = v' \<and> t = t'"
proof
  assume "blob_ref f v t = blob_ref f' v' t'"
  then have "concat (map hex2 f) @ ''/'' @ dec (unat v) @ ''/'' @ dec (unat t) =
      concat (map hex2 f') @ ''/'' @ dec (unat v') @ ''/'' @ dec (unat t')"
    by (simp add: blob_ref_def)
  from concat_hex2_inj [OF _ this] assms
  have "f = f'" and rest: "dec (unat v) @ CHR ''/'' # dec (unat t) = dec (unat v') @ CHR ''/'' # dec (unat t')"
    by simp_all
  from slash_split [OF rest slash_not_in_dec slash_not_in_dec]
  show "f = f' \<and> v = v' \<and> t = t'" using \<open>f = f'\<close> by (simp add: dec_inj word_unat_eq_iff)
qed simp

theorem blob_ref_injective_witness:
  "blob_ref (replicate 16 1) 2 3 \<noteq> blob_ref (replicate 16 1) 23 3"
  by (subst blob_ref_injective) simp_all

section \<open>What a parsed stage guarantees\<close>

lemma unat_ucast_widen:
  assumes "LENGTH('a::len) \<le> LENGTH('b::len)"
  shows "unat (ucast (c :: 'a word) :: 'b word) = unat c"
proof -
  have "unat c < 2 ^ LENGTH('a)" by (rule unsigned_less)
  also have "\<dots> \<le> 2 ^ LENGTH('b)" using assms by simp
  finally show ?thesis by (simp add: unsigned_ucast_eq take_bit_nat_eq_self_iff)
qed

lemma check_sizes_Inr:
  "check_sizes c ss = Inr u \<longleftrightarrow>
     (\<forall>s \<in> set ss. unat (sm_chunk_count s) * unat c \<le> unat MAX_ADDRESSABLE_BYTES)"
proof (induction ss)
  case (Cons s ss)
  have c: "unat (ucast c :: u64) = unat c" by (rule unat_ucast_widen) simp
  have "checked_mul (sm_chunk_count s) (ucast c) = Some p \<and> \<not> MAX_ADDRESSABLE_BYTES < p \<longleftrightarrow>
      p = sm_chunk_count s * ucast c \<and> unat (sm_chunk_count s) * unat c \<le> unat MAX_ADDRESSABLE_BYTES" for p
  proof (cases "unat (sm_chunk_count s) * unat c < 2 ^ 64")
    case True
    then have "unat (sm_chunk_count s * ucast c) = unat (sm_chunk_count s) * unat c"
      using unat_mult_lem [of "sm_chunk_count s" "ucast c"] by (simp add: c)
    with True show ?thesis by (auto simp: checked_mul_def c word_less_nat_alt not_less)
  next
    case False
    then show ?thesis by (auto simp: checked_mul_def c MAX_ADDRESSABLE_BYTES_def)
  qed
  then show ?case
    using Cons by (auto simp: rbind_eq_Inr ok_or_eq_Inr)
qed simp

definition stage_guarantees :: "stage_input \<Rightarrow> parsed_stage \<Rightarrow> bool" where
  "stage_guarantees input p \<longleftrightarrow> (\<exists>m.
     ok_manifest m \<and> ps_manifest_bytes p = encode TYPE_MANIFEST put_manifest m \<and>
     id_raw (ma_file_id m) = ps_file_id p \<and> ps_file_id p = si_file_id input \<and>
     ps_version p = ma_version m \<and> ps_author_id p = si_caller_id input \<and>
     id_raw (ma_author_id m) = si_caller_id input \<and>
     (\<forall>s \<in> set (ma_streams m). unat (sm_chunk_count s) * unat (ma_chunk_size m) \<le> 2 ^ 38) \<and>
     length (ps_streams p) = length (ma_streams m) \<and> distinct (map sr_stream_type (ps_streams p)) \<and>
     list_all (\<lambda>w. \<not> half_recovery w) (ps_wraps p) \<and> list_ex is_recovery_wrap (ps_wraps p) \<and>
     (case ps_genesis p of None \<Rightarrow> ps_version p \<noteq> 1
      | Some g \<Rightarrow> ps_version p = 1 \<and> gw_owner_id g = si_caller_id input))"

lemma parse_genesis_Inr:
  "parse_genesis input m = Inr g \<Longrightarrow> (case g of None \<Rightarrow> ma_version m \<noteq> 1
     | Some g \<Rightarrow> ma_version m = 1 \<and> gw_owner_id g = si_caller_id input)"
  by (auto simp: parse_genesis_def rbind_eq_Inr split: option.splits bool.splits if_splits)

lemma byte_to_i16: "unat (ucast (b :: byte) :: i16) = unat b"
  by (rule unat_ucast_widen) simp

lemma stream_types_distinct:
  assumes "ok_manifest m"
  shows "distinct (map (sr_stream_type \<circ> stream_row_of input m) (ma_streams m))"
proof -
  have "inj (ucast :: byte \<Rightarrow> i16)"
    by (rule injI) (simp only: word_unat_eq_iff byte_to_i16)
  moreover have "distinct (map stream_key (ma_streams m))"
    using assms by (intro strictly_ascending_distinct) (simp add: ok_manifest_def)
  ultimately have "distinct (map (ucast \<circ> stream_key) (ma_streams m) :: i16 list)"
    by (auto simp: distinct_map intro: comp_inj_on inj_on_subset)
  then show ?thesis by (simp add: stream_row_of_def stream_key_def Let_def comp_def)
qed

text \<open>A parsed stage is what the client signed and within the server's bounds: the manifest bytes
  are a canonical manifest of this file by this caller, each stream's framing fits in 256 GiB without
  overflow, every wrap sets both halves of the recovery pair or neither and one sets both, and a
  genesis by the caller is present exactly on version 1.\<close>

theorem parse_stage_guarantees:
  assumes "parse_stage input = Inr p"
  shows "stage_guarantees input p"
proof -
  from assms obtain m where m: "decode TYPE_MANIFEST put_manifest get_manifest (si_manifest_bytes input) = Inr m"
    and sizes: "check_sizes (ma_chunk_size m) (ma_streams m) = Inr ()"
    and checks: "id_raw (ma_file_id m) = si_file_id input" "id_raw (ma_author_id m) = si_caller_id input"
      "\<not> list_ex half_recovery (si_wraps input)" "list_ex is_recovery_wrap (si_wraps input)"
    and gen: "parse_genesis input m = Inr (ps_genesis p)"
    and p: "ps_file_id p = si_file_id input" "ps_version p = ma_version m"
      "ps_author_id p = id_raw (ma_author_id m)" "ps_manifest_bytes p = si_manifest_bytes input"
      "ps_wraps p = si_wraps input" "ps_streams p = map (stream_row_of input m) (ma_streams m)"
    by (auto simp: parse_stage_def rbind_eq_Inr map_err_eq_Inr Let_def split: if_splits)
  from m have "ok_manifest m" "si_manifest_bytes input = encode TYPE_MANIFEST put_manifest m"
    by (simp_all add: manifest.decode_iff)
  with sizes checks p stream_types_distinct [of m input] parse_genesis_Inr [OF gen] show ?thesis
    unfolding stage_guarantees_def
    by (intro exI [of _ m])
      (auto simp: check_sizes_Inr MAX_ADDRESSABLE_BYTES_def list_all_iff list_ex_iff comp_def
        split: option.splits)
qed

section \<open>A staging request that passes\<close>

definition genesis0 :: genesis where
  "genesis0 = \<lparr>ge_file_id = Id (replicate 16 7), ge_owner_id = Id (replicate 16 3),
     ge_owner_key_version = 1, ge_created_at = Timestamp 8\<rparr>"

definition recovery_wrap0 :: wrap_input where
  "recovery_wrap0 = \<lparr>wi_recipient_id = id_raw RECOVERY_ID, wi_recipient_type = 2, wi_wrapped_dek = [1],
     wi_wrap_alg = 1, wi_granted_by = replicate 16 3, wi_grant_bytes = [2],
     wi_grant_sig = replicate 64 0\<rparr>"

definition self_wrap0 :: wrap_input where
  "self_wrap0 = \<lparr>wi_recipient_id = replicate 16 3, wi_recipient_type = 1, wi_wrapped_dek = [4],
     wi_wrap_alg = 1, wi_granted_by = replicate 16 3, wi_grant_bytes = [5],
     wi_grant_sig = replicate 64 0\<rparr>"

definition stage0 :: stage_input where
  "stage0 = \<lparr>si_file_id = replicate 16 7, si_caller_id = replicate 16 3, si_file_type_advisory = 1,
     si_genesis = Some \<lparr>gi_genesis_bytes = encode TYPE_GENESIS put_genesis genesis0,
       gi_genesis_sig = replicate 64 0\<rparr>,
     si_manifest_bytes = encode TYPE_MANIFEST put_manifest manifest0,
     si_manifest_sig = replicate 64 0, si_wraps = [self_wrap0, recovery_wrap0],
     si_stream_totals = [(1, 16)], si_proposed_version = 1, si_listed = True, si_bundle_id = None\<rparr>"

lemma ok_genesis0: "ok_genesis genesis0"
  by (simp add: genesis0_def ok_genesis_def ok_id_def)

lemma parse_stage0: "\<exists>p. parse_stage stage0 = Inr p"
proof -
  have "decode TYPE_MANIFEST put_manifest get_manifest (si_manifest_bytes stage0) = Inr manifest0"
    by (simp add: stage0_def manifest.decode_encode ok_manifest0)
  moreover have "decode TYPE_GENESIS put_genesis get_genesis
      (encode TYPE_GENESIS put_genesis genesis0) = Inr genesis0"
    by (rule genesis.decode_encode [OF ok_genesis0])
  ultimately show ?thesis
    by (simp add: parse_stage_def parse_genesis_def stage0_def manifest0_def genesis0_def
        half_recovery_def is_recovery_wrap_def self_wrap0_def recovery_wrap0_def RECOVERY_ID_def
        CHUNK_SIZE_MIN_def CHUNK_SIZE_MAX_def MAX_ADDRESSABLE_BYTES_def checked_mul_def Let_def)
qed

theorem parse_stage_guarantees_witness: "\<exists>p. stage_guarantees stage0 p"
  using parse_stage0 parse_stage_guarantees by blast

lemma advisory_unread:
  "stream_row_of (input\<lparr>si_file_type_advisory := t\<rparr>) = stream_row_of input"
  "parse_genesis (input\<lparr>si_file_type_advisory := t\<rparr>) = parse_genesis input"
  by (simp_all add: fun_eq_iff stream_row_of_def parse_genesis_def
      cong: if_cong option.case_cong bool.case_cong)

text \<open>The advisory file type of the request has no influence: the row's type always is the
  signed manifest's, and a contradicting advisory value is not reported.\<close>

theorem advisory_type_ignored:
  "parse_stage (input\<lparr>si_file_type_advisory := t\<rparr>) = parse_stage input"
  by (simp add: parse_stage_def advisory_unread cong: if_cong)

end
