(* ===== verification/ServerAccounts.thy ===== *)
theory ServerAccounts
  imports ServerFiles Revocation "HOL-Library.AList"
begin

text \<open>
  \<^verbatim>\<open>crates/server/src/store.rs\<close>: the state of \<open>MemoryStore\<close> and its operations on users, login
  nonces, sessions, bindings, registration keys, the recovery account and the control log. Every
  operation holds the one mutex for its whole body, so each is one atomic step on \<open>inner\<close>.
  A \<open>HashMap\<close> that the code iterates is an association list, one it only looks up is a map;
  \<open>random_array()\<close> is the argument \<open>fresh\<close>. The file records of the same state are in
  \<open>ServerRecords\<close>.
\<close>

section \<open>State\<close>

definition BUNDLE_FILE_TYPE :: i16 where
  "BUNDLE_FILE_TYPE = ucast (file_type_cp FtBundle)"

record user_record =
  us_user_id :: bytes
  us_enc_pub :: bytes
  us_sig_pub :: bytes

record recovery_account =
  ra_enc_pub :: bytes
  ra_sig_pub :: bytes
  ra_mlkem_pub :: "bytes option"

record nonce_record =
  no_username :: string
  no_expires_at_ms :: u64
  no_used :: bool

record prune_counts =
  pc_sessions :: u64
  pc_nonces :: u64

record session_record =
  se_user_id :: bytes
  se_tls_exporter :: bytes
  se_expires_at_ms :: u64
  se_revoked :: bool

record stored_binding =
  sb_binding_bytes :: bytes
  sb_signature :: bytes

record stored_control_record =
  sc_kind :: i16
  sc_record_bytes :: bytes
  sc_sig :: bytes
  sc_co_sig :: "bytes option"
  sc_head :: bytes

datatype enroll_outcome = KeyInvalid | UsernameTaken | Enrolled bool

datatype control_append_error = CaConflict | CaMalformed | CaStore store_error

record version_entry =
  ve_manifest_bytes :: bytes
  ve_manifest_sig :: bytes
  ve_finalized :: bool
  ve_streams :: "stream_row list"
  ve_wraps :: "wrap_input list"

record file_entry =
  fe_owner_id :: bytes
  fe_file_type :: i16
  fe_listed :: bool
  fe_bundle_id :: "bytes option"
  fe_current_version :: u64
  fe_updated_at_ms :: u64
  fe_genesis_bytes :: bytes
  fe_genesis_sig :: bytes
  fe_versions :: "(u64 \<times> version_entry) list"

record inner =
  in_users :: "string \<rightharpoonup> user_record"
  in_nonces :: "(bytes \<times> nonce_record) list"
  in_sessions :: "(bytes \<times> session_record) list"
  in_reg_keys :: "bytes set"
  in_first_admin_claimed :: bool
  in_recovery_account :: "recovery_account option"
  in_bindings :: "bytes \<rightharpoonup> u64 \<times> stored_binding"
  in_control_log :: "stored_control_record list"
  in_control_head :: bytes
  in_files :: "(bytes \<times> file_entry) list"

definition store_new :: inner where
  "store_new = \<lparr>in_users = Map.empty, in_nonces = [], in_sessions = [], in_reg_keys = {},
     in_first_admin_claimed = False, in_recovery_account = None, in_bindings = Map.empty,
     in_control_log = [], in_control_head = replicate 32 0, in_files = []\<rparr>"

section \<open>Users, nonces and sessions\<close>

definition create_user :: "string \<Rightarrow> bytes \<Rightarrow> bytes \<Rightarrow> bytes \<Rightarrow> inner \<Rightarrow> bytes option \<times> inner" where
  "create_user username enc_pub sig_pub fresh s =
     (if in_users s username \<noteq> None then (None, s)
      else (Some fresh, s\<lparr>in_users := (in_users s)(username \<mapsto>
        \<lparr>us_user_id = fresh, us_enc_pub = enc_pub, us_sig_pub = sig_pub\<rparr>)\<rparr>))"

definition user_by_name :: "string \<Rightarrow> inner \<Rightarrow> user_record option" where
  "user_by_name username s = in_users s username"

definition insert_nonce :: "bytes \<Rightarrow> string \<Rightarrow> u64 \<Rightarrow> inner \<Rightarrow> inner" where
  "insert_nonce nonce username expires_at_ms s = s\<lparr>in_nonces := AList.update nonce
     \<lparr>no_username = username, no_expires_at_ms = expires_at_ms, no_used = False\<rparr> (in_nonces s)\<rparr>"

definition outstanding_nonces :: "string \<Rightarrow> u64 \<Rightarrow> inner \<Rightarrow> bytes list" where
  "outstanding_nonces username now_ms s = map fst [(n, r) \<leftarrow> in_nonces s.
     no_username r = username \<and> \<not> no_used r \<and> now_ms < no_expires_at_ms r]"

definition consume_nonce :: "bytes \<Rightarrow> inner \<Rightarrow> inner" where
  "consume_nonce nonce s = (case map_of (in_nonces s) nonce of None \<Rightarrow> s
     | Some r \<Rightarrow> s\<lparr>in_nonces := AList.update nonce (r\<lparr>no_used := True\<rparr>) (in_nonces s)\<rparr>)"

definition insert_session :: "bytes \<Rightarrow> session_record \<Rightarrow> inner \<Rightarrow> inner" where
  "insert_session token_hash rec s = s\<lparr>in_sessions := AList.update token_hash rec (in_sessions s)\<rparr>"

definition get_session :: "bytes \<Rightarrow> inner \<Rightarrow> session_record option" where
  "get_session token_hash s = map_of (in_sessions s) token_hash"

definition revoke_session :: "bytes \<Rightarrow> inner \<Rightarrow> inner" where
  "revoke_session token_hash s = (case map_of (in_sessions s) token_hash of None \<Rightarrow> s
     | Some r \<Rightarrow> s\<lparr>in_sessions := AList.update token_hash (r\<lparr>se_revoked := True\<rparr>) (in_sessions s)\<rparr>)"

text \<open>One bounded sweep of a table.\<close>

definition sweep :: "('r \<Rightarrow> u64) \<Rightarrow> u64 \<Rightarrow> nat \<Rightarrow> (bytes \<times> 'r) list \<Rightarrow> u64 \<times> (bytes \<times> 'r) list" where
  "sweep expiry cutoff_ms limit table =
     (let doomed = take limit (map fst [(h, r) \<leftarrow> table. expiry r < cutoff_ms])
      in (word_of_nat (length doomed), fold AList.delete doomed table))"

definition prune_expired_auth_rows :: "u64 \<Rightarrow> u64 \<Rightarrow> u32 \<Rightarrow> inner \<Rightarrow> prune_counts \<times> inner" where
  "prune_expired_auth_rows now_ms grace_ms batch_limit s =
     (let cutoff_ms = saturating_sub now_ms grace_ms;
          limit = unat batch_limit;
          (sessions, table) = sweep se_expires_at_ms cutoff_ms limit (in_sessions s);
          s = s\<lparr>in_sessions := table\<rparr>;
          (nonces, table) = sweep no_expires_at_ms cutoff_ms limit (in_nonces s);
          s = s\<lparr>in_nonces := table\<rparr>
      in (\<lparr>pc_sessions = sessions, pc_nonces = nonces\<rparr>, s))"

section \<open>Bindings and enrolment\<close>

definition put_binding :: "bytes \<Rightarrow> u64 \<Rightarrow> bytes \<Rightarrow> bytes \<Rightarrow> inner \<Rightarrow> inner" where
  "put_binding user_id key_version binding_bytes sig s =
     (let rec = \<lparr>sb_binding_bytes = binding_bytes, sb_signature = sig\<rparr>
      in case in_bindings s user_id of
        Some (old_version, _) \<Rightarrow>
          if old_version \<le> key_version
          then s\<lparr>in_bindings := (in_bindings s)(user_id \<mapsto> (key_version, rec))\<rparr> else s
      | None \<Rightarrow> s\<lparr>in_bindings := (in_bindings s)(user_id \<mapsto> (key_version, rec))\<rparr>)"

definition binding_by_username :: "string \<Rightarrow> inner \<Rightarrow> stored_binding option" where
  "binding_by_username username s = (case in_users s username of None \<Rightarrow> None
     | Some user \<Rightarrow> map_option snd (in_bindings s (us_user_id user)))"

definition binding_by_user_id :: "bytes \<Rightarrow> inner \<Rightarrow> stored_binding option" where
  "binding_by_user_id user_id s = map_option snd (in_bindings s user_id)"

definition issue_registration_key :: "bytes \<Rightarrow> inner \<Rightarrow> inner" where
  "issue_registration_key key_hash s = s\<lparr>in_reg_keys := insert key_hash (in_reg_keys s)\<rparr>"

definition consume_registration_key :: "bytes \<Rightarrow> inner \<Rightarrow> bool \<times> inner" where
  "consume_registration_key key_hash s =
     (key_hash \<in> in_reg_keys s, s\<lparr>in_reg_keys := in_reg_keys s - {key_hash}\<rparr>)"

definition claim_first_admin :: "inner \<Rightarrow> bool \<times> inner" where
  "claim_first_admin s = (if in_first_admin_claimed s then (False, s)
     else (True, s\<lparr>in_first_admin_claimed := True\<rparr>))"

definition enroll :: "bytes \<Rightarrow> bytes \<Rightarrow> string \<Rightarrow> bytes \<Rightarrow> bytes \<Rightarrow> stored_binding \<Rightarrow> stored_binding
    \<Rightarrow> inner \<Rightarrow> enroll_outcome \<times> inner" where
  "enroll reg_key_hash user_id username enc_pub sig_pub user_binding admin_binding s =
     (if reg_key_hash \<notin> in_reg_keys s then (KeyInvalid, s)
      else if in_users s username \<noteq> None then (UsernameTaken, s)
      else
        let is_admin = (\<not> in_first_admin_claimed s);
            binding = (if is_admin then admin_binding else user_binding);
            s = s\<lparr>in_reg_keys := in_reg_keys s - {reg_key_hash}\<rparr>;
            s = s\<lparr>in_first_admin_claimed := True\<rparr>;
            s = s\<lparr>in_users := (in_users s)(username \<mapsto>
              \<lparr>us_user_id = user_id, us_enc_pub = enc_pub, us_sig_pub = sig_pub\<rparr>)\<rparr>;
            s = s\<lparr>in_bindings := (in_bindings s)(user_id \<mapsto> (1,
              \<lparr>sb_binding_bytes = sb_binding_bytes binding, sb_signature = sb_signature binding\<rparr>))\<rparr>
        in (Enrolled is_admin, s))"

definition set_recovery_account :: "bytes \<Rightarrow> bytes \<Rightarrow> bytes option \<Rightarrow> inner \<Rightarrow> bool \<times> inner" where
  "set_recovery_account enc_pub sig_pub mlkem_pub s =
     (if in_recovery_account s \<noteq> None then (False, s)
      else (True, s\<lparr>in_recovery_account :=
        Some \<lparr>ra_enc_pub = enc_pub, ra_sig_pub = sig_pub, ra_mlkem_pub = mlkem_pub\<rparr>\<rparr>))"

definition get_recovery_account :: "inner \<Rightarrow> recovery_account option" where
  "get_recovery_account s = in_recovery_account s"

section \<open>The control log\<close>

definition append_control :: "(bytes \<Rightarrow> bytes) \<Rightarrow> bytes \<Rightarrow> bytes \<Rightarrow> bytes option \<Rightarrow> inner
    \<Rightarrow> (control_append_error + bytes) \<times> inner" where
  "append_control sha record_bytes sig co_sig s = (case decode_control sha record_bytes of
       None \<Rightarrow> (Inl CaMalformed, s)
     | Some d \<Rightarrow>
         if dc_prev_head d \<noteq> in_control_head s then (Inl CaConflict, s)
         else
           let s = s\<lparr>in_control_head := dc_head d\<rparr>;
               s = s\<lparr>in_control_log := in_control_log s @ [\<lparr>sc_kind = word_of_nat (dc_kind d),
                 sc_record_bytes = record_bytes, sc_sig = sig, sc_co_sig = co_sig,
                 sc_head = dc_head d\<rparr>]\<rparr>
           in (Inr (dc_head d), s))"

definition control_records :: "inner \<Rightarrow> stored_control_record list" where
  "control_records s = in_control_log s"

definition control_head :: "inner \<Rightarrow> bytes" where
  "control_head s = in_control_head s"

end
