(* ===== verification/ServerRecords.thy ===== *)
theory ServerRecords
  imports ServerAccounts "HOL-Library.List_Lexorder"
begin

text \<open>
  \<^verbatim>\<open>crates/server/src/store.rs\<close>: the file half of \<open>MemoryStore\<close>. A file is staged version by
  version, finalized one strict step at a time, read through the caller's own wrap, re-shared,
  soft-revoked, discarded and deleted. Each operation returns its result and the state, which an
  error leaves as it was. \<open>current_version + 1\<close> wraps here where a debug build would panic; the
  counter moves by one per finalized version, so neither happens.
\<close>

section \<open>Served views\<close>

record wrap_view =
  wv_wrapped_dek :: bytes
  wv_grant_bytes :: bytes
  wv_grant_sig :: bytes
  wv_ancestor_grants :: "(bytes \<times> bytes) list"

record recipient_view =
  rc_recipient_id :: bytes
  rc_granted_by :: bytes
  rc_grant_bytes :: bytes
  rc_grant_sig :: bytes
  rc_ancestor_grants :: "(bytes \<times> bytes) list"

record stream_view =
  sv_stream_type :: i16
  sv_chunk_count :: u64
  sv_chunk_size :: u32
  sv_blob_ref :: string

record file_view =
  fv_version :: u64
  fv_manifest_bytes :: bytes
  fv_manifest_sig :: bytes
  fv_genesis_bytes :: bytes
  fv_genesis_sig :: bytes
  fv_my_wrap :: wrap_view
  fv_recovery_grant :: "(bytes \<times> bytes) option"
  fv_streams :: "stream_view list"

record file_list_entry =
  fl_file_id :: bytes
  fl_file_type :: i16
  fl_version :: u64
  fl_updated_at_ms :: u64
  fl_small_streams :: "(i16 \<times> u64) list"

record file_list_page =
  fp_entries :: "file_list_entry list"
  fp_total :: u64

record chunk_slot =
  cs_stream_type :: i16
  cs_blob_ref :: string
  cs_chunk_count :: u64
  cs_chunk_size :: u32

record version_meta_view =
  vm_owner_id :: bytes
  vm_finalized :: bool
  vm_streams :: "chunk_slot list"

record file_meta =
  fm_owner_id :: bytes
  fm_file_type :: i16
  fm_listed :: bool
  fm_bundle_id :: "bytes option"

section \<open>Grant chains\<close>

definition MAX_ANCESTOR_CHAIN :: nat where "MAX_ANCESTOR_CHAIN = 32"

definition find_wrap :: "bytes \<Rightarrow> wrap_input list \<Rightarrow> wrap_input option" where
  "find_wrap who ws = find (\<lambda>w. wi_recipient_id w = who) ws"

text \<open>The \<open>while\<close> loop with \<open>out\<close>, \<open>seen\<close> and \<open>granted_by\<close>; \<open>seen.insert\<close> is the membership test.\<close>

function ancestor_loop :: "wrap_input list \<Rightarrow> bytes \<Rightarrow> (bytes \<times> bytes) list \<Rightarrow> bytes set \<Rightarrow> bytes
    \<Rightarrow> (bytes \<times> bytes) list" where
  "ancestor_loop wraps author out seen granted_by =
     (if granted_by \<noteq> author \<and> length out < MAX_ANCESTOR_CHAIN \<and> granted_by \<notin> seen then
        (case find_wrap granted_by wraps of
           None \<Rightarrow> out
         | Some anc \<Rightarrow> ancestor_loop wraps author (out @ [(wi_grant_bytes anc, wi_grant_sig anc)])
             (insert granted_by seen) (wi_granted_by anc))
      else out)"
  by pat_completeness auto
termination
  by (relation "measure (\<lambda>(_, _, out, _, _). MAX_ANCESTOR_CHAIN - length out)") auto

declare ancestor_loop.simps [simp del]

definition ancestor_chain :: "wrap_input list \<Rightarrow> wrap_input \<Rightarrow> bytes \<Rightarrow> (bytes \<times> bytes) list" where
  "ancestor_chain wraps leaf author = ancestor_loop wraps author [] {} (wi_granted_by leaf)"

section \<open>Staging and finalizing\<close>

definition put_file :: "bytes \<Rightarrow> file_entry \<Rightarrow> inner \<Rightarrow> inner" where
  "put_file file_id entry s = s\<lparr>in_files := AList.update file_id entry (in_files s)\<rparr>"

definition put_version :: "u64 \<Rightarrow> version_entry \<Rightarrow> file_entry \<Rightarrow> file_entry" where
  "put_version version ver entry = entry\<lparr>fe_versions := AList.update version ver (fe_versions entry)\<rparr>"

definition version_finalized :: "file_entry \<Rightarrow> u64 \<Rightarrow> bool" where
  "version_finalized entry version = (case map_of (fe_versions entry) version of None \<Rightarrow> False
     | Some v \<Rightarrow> ve_finalized v)"

definition stage_version :: "parsed_stage \<Rightarrow> u64 \<Rightarrow> inner \<Rightarrow> (stage_error + u64) \<times> inner" where
  "stage_version parsed now_ms s =
     (if list_ex half_recovery (ps_wraps parsed) then (Inl MismatchedRecoveryWrap, s)
      else
        let version = ps_version parsed;
            new_ver = \<lparr>ve_manifest_bytes = ps_manifest_bytes parsed,
              ve_manifest_sig = ps_manifest_sig parsed, ve_finalized = False,
              ve_streams = ps_streams parsed, ve_wraps = ps_wraps parsed\<rparr>
        in case ps_genesis parsed of
          Some g \<Rightarrow>
            (case map_of (in_files s) (ps_file_id parsed) of
               Some f \<Rightarrow>
                 if version_finalized f version then (Inl StAlreadyFinalized, s)
                 else (Inr version, put_file (ps_file_id parsed) (put_version version new_ver f) s)
             | None \<Rightarrow>
                 let entry = \<lparr>fe_owner_id = gw_owner_id g, fe_file_type = ps_file_type parsed,
                   fe_listed = ps_listed parsed, fe_bundle_id = ps_bundle_id parsed,
                   fe_current_version = 0, fe_updated_at_ms = now_ms,
                   fe_genesis_bytes = gw_genesis_bytes g, fe_genesis_sig = gw_genesis_sig g,
                   fe_versions = []\<rparr>
                 in (Inr version, put_file (ps_file_id parsed) (put_version version new_ver entry) s))
        | None \<Rightarrow>
            (case map_of (in_files s) (ps_file_id parsed) of
               None \<Rightarrow> (Inl NoSuchFile, s)
             | Some entry \<Rightarrow>
                 if fe_owner_id entry \<noteq> ps_author_id parsed then (Inl StNotOwner, s)
                 else if version_finalized entry version then (Inl StAlreadyFinalized, s)
                 else (Inr version, put_file (ps_file_id parsed) (put_version version new_ver entry) s)))"

definition clear_version :: "version_entry \<Rightarrow> version_entry" where
  "clear_version v = v\<lparr>ve_streams := [], ve_wraps := []\<rparr>"

definition finalize_version :: "bytes \<Rightarrow> u64 \<Rightarrow> bytes \<Rightarrow> u64 \<Rightarrow> inner
    \<Rightarrow> (finalize_error + unit) \<times> inner" where
  "finalize_version file_id version caller_id now_ms s = (case map_of (in_files s) file_id of
       None \<Rightarrow> (Inl NoSuchVersion, s)
     | Some entry \<Rightarrow>
         if fe_owner_id entry \<noteq> caller_id then (Inl FzNotOwner, s)
         else (case map_of (fe_versions entry) version of
             None \<Rightarrow> (Inl NoSuchVersion, s)
           | Some v \<Rightarrow>
               if ve_finalized v then (Inl FzAlreadyFinalized, s)
               else
                 let expected = fe_current_version entry + 1 in
                 if version \<noteq> expected then (Inl (VersionConflict expected version), s)
                 else
                   let prior = fe_current_version entry;
                       entry = put_version version (v\<lparr>ve_finalized := True\<rparr>) entry;
                       entry = entry\<lparr>fe_current_version := version\<rparr>;
                       entry = entry\<lparr>fe_updated_at_ms := now_ms\<rparr>;
                       entry = (if 1 \<le> prior then
                           (case map_of (fe_versions entry) prior of
                              Some pv \<Rightarrow> put_version prior (clear_version pv) entry
                            | None \<Rightarrow> entry)
                         else entry)
                   in (Inr (), put_file file_id entry s)))"

section \<open>Reading\<close>

definition wrap_for :: "version_entry \<Rightarrow> bytes \<Rightarrow> wrap_input option" where
  "wrap_for ver caller_id = find_wrap caller_id (ve_wraps ver)"

definition stream_view_of :: "stream_row \<Rightarrow> stream_view" where
  "stream_view_of r = \<lparr>sv_stream_type = sr_stream_type r, sv_chunk_count = sr_chunk_count r,
     sv_chunk_size = sr_chunk_size r, sv_blob_ref = sr_blob_ref r\<rparr>"

definition get_file :: "bytes \<Rightarrow> version_selector \<Rightarrow> bytes \<Rightarrow> inner \<Rightarrow> file_view option" where
  "get_file file_id selector caller_id s = (case map_of (in_files s) file_id of
       None \<Rightarrow> None
     | Some entry \<Rightarrow>
         let version = (case selector of Latest \<Rightarrow> fe_current_version entry | SpecificVersion v \<Rightarrow> v) in
         if version = 0 then None
         else (case map_of (fe_versions entry) version of
             None \<Rightarrow> None
           | Some ver \<Rightarrow>
               if \<not> ve_finalized ver then None
               else (case wrap_for ver caller_id of
                   None \<Rightarrow> None
                 | Some my \<Rightarrow>
                     let ancestor_grants = ancestor_chain (ve_wraps ver) my (fe_owner_id entry);
                         recovery_grant = map_option (\<lambda>w. (wi_grant_bytes w, wi_grant_sig w))
                           (find (\<lambda>w. wi_recipient_type w = 2) (ve_wraps ver))
                     in Some \<lparr>fv_version = version, fv_manifest_bytes = ve_manifest_bytes ver,
                          fv_manifest_sig = ve_manifest_sig ver,
                          fv_genesis_bytes = fe_genesis_bytes entry,
                          fv_genesis_sig = fe_genesis_sig entry,
                          fv_my_wrap = \<lparr>wv_wrapped_dek = wi_wrapped_dek my,
                            wv_grant_bytes = wi_grant_bytes my, wv_grant_sig = wi_grant_sig my,
                            wv_ancestor_grants = ancestor_grants\<rparr>,
                          fv_recovery_grant = recovery_grant,
                          fv_streams = map stream_view_of (ve_streams ver)\<rparr>)))"

text \<open>\<open>sort_by\<close> is a stable sort by a comparison; \<open>le\<close> is \<open>compare(a, b) != Greater\<close>.\<close>

fun insert_by :: "('a \<Rightarrow> 'a \<Rightarrow> bool) \<Rightarrow> 'a \<Rightarrow> 'a list \<Rightarrow> 'a list" where
  "insert_by le x [] = [x]"
| "insert_by le x (y # ys) = (if le x y then x # y # ys else y # insert_by le x ys)"

definition sort_by :: "('a \<Rightarrow> 'a \<Rightarrow> bool) \<Rightarrow> 'a list \<Rightarrow> 'a list" where
  "sort_by le xs = foldr (insert_by le) xs []"

fun sort_le :: "list_sort \<Rightarrow> file_list_entry \<Rightarrow> file_list_entry \<Rightarrow> bool" where
  "sort_le Newest a b \<longleftrightarrow> fl_updated_at_ms b < fl_updated_at_ms a \<or>
     fl_updated_at_ms a = fl_updated_at_ms b \<and> fl_file_id a \<le> fl_file_id b"
| "sort_le Oldest a b \<longleftrightarrow> fl_updated_at_ms a < fl_updated_at_ms b \<or>
     fl_updated_at_ms a = fl_updated_at_ms b \<and> fl_file_id a \<le> fl_file_id b"

definition listed_for :: "list_filter \<Rightarrow> file_entry \<Rightarrow> bool" where
  "listed_for filt f \<longleftrightarrow>
     1 \<le> fe_current_version f \<and> fe_listed f \<and>
     (case map_of (fe_versions f) (fe_current_version f) of None \<Rightarrow> False
      | Some v \<Rightarrow> list_ex (\<lambda>w. wi_recipient_id w = lf_caller_id filt) (ve_wraps v)) \<and>
     (case lf_file_type filt of None \<Rightarrow> True | Some t \<Rightarrow> t = fe_file_type f) \<and>
     (\<not> lf_owner_only filt \<or> fe_owner_id f = lf_caller_id filt)"

definition list_entry :: "bytes \<times> file_entry \<Rightarrow> file_list_entry option" where
  "list_entry p = (let (i, f) = p in
     case map_of (fe_versions f) (fe_current_version f) of None \<Rightarrow> None
     | Some ver \<Rightarrow> Some \<lparr>fl_file_id = i, fl_file_type = fe_file_type f,
         fl_version = fe_current_version f, fl_updated_at_ms = fe_updated_at_ms f,
         fl_small_streams = map (\<lambda>s. (sr_stream_type s, sr_total_bytes s))
           [s \<leftarrow> ve_streams ver. sr_stream_type s \<noteq> 1]\<rparr>)"

definition list_files :: "list_filter \<Rightarrow> inner \<Rightarrow> file_list_page" where
  "list_files filt s =
     (let out = List.map_filter list_entry [p \<leftarrow> in_files s. listed_for filt (snd p)];
          total = word_of_nat (length out);
          out = sort_by (sort_le (lf_sort filt)) out;
          skip = unat (lf_offset filt)
      in \<lparr>fp_entries = take (lf_limit filt) (drop skip out), fp_total = total\<rparr>)"

definition version_meta :: "bytes \<Rightarrow> u64 \<Rightarrow> inner \<Rightarrow> version_meta_view option" where
  "version_meta file_id version s = (case map_of (in_files s) file_id of
       None \<Rightarrow> None
     | Some entry \<Rightarrow> (case map_of (fe_versions entry) version of
           None \<Rightarrow> None
         | Some ver \<Rightarrow> Some \<lparr>vm_owner_id = fe_owner_id entry, vm_finalized = ve_finalized ver,
             vm_streams = map (\<lambda>r. \<lparr>cs_stream_type = sr_stream_type r, cs_blob_ref = sr_blob_ref r,
               cs_chunk_count = sr_chunk_count r, cs_chunk_size = sr_chunk_size r\<rparr>) (ve_streams ver)\<rparr>))"

definition get_file_meta :: "bytes \<Rightarrow> inner \<Rightarrow> file_meta option" where
  "get_file_meta file_id s = (case map_of (in_files s) file_id of
       None \<Rightarrow> None
     | Some entry \<Rightarrow> Some \<lparr>fm_owner_id = fe_owner_id entry, fm_file_type = fe_file_type entry,
         fm_listed = fe_listed entry, fm_bundle_id = fe_bundle_id entry\<rparr>)"

section \<open>Sharing\<close>

definition add_wrap :: "bytes \<Rightarrow> wrap_input \<Rightarrow> bytes \<Rightarrow> u64 \<Rightarrow> inner
    \<Rightarrow> (add_wrap_error + unit) \<times> inner" where
  "add_wrap file_id wrap caller_id now_ms s =
     (if wi_granted_by wrap \<noteq> caller_id \<or> wi_recipient_type wrap \<noteq> 1 \<or>
         wi_recipient_id wrap = id_raw RECOVERY_ID then (Inl BadRequest, s)
      else (case map_of (in_files s) file_id of
          None \<Rightarrow> (Inl NoAccess, s)
        | Some entry \<Rightarrow>
            let version = fe_current_version entry in
            if version = 0 then (Inl NoAccess, s)
            else (case map_of (fe_versions entry) version of
                None \<Rightarrow> (Inl NoAccess, s)
              | Some ver \<Rightarrow>
                  if \<not> ve_finalized ver then (Inl NoAccess, s)
                  else if \<not> list_ex (\<lambda>w. wi_recipient_id w = caller_id) (ve_wraps ver)
                    then (Inl NoAccess, s)
                  else
                    let ws = [w \<leftarrow> ve_wraps ver. wi_recipient_id w \<noteq> wi_recipient_id wrap] @ [wrap];
                        entry = put_version version (ver\<lparr>ve_wraps := ws\<rparr>) entry;
                        entry = entry\<lparr>fe_updated_at_ms := now_ms\<rparr>
                    in (Inr (), put_file file_id entry s))))"

definition delete_wrap :: "bytes \<Rightarrow> bytes \<Rightarrow> bytes \<Rightarrow> inner \<Rightarrow> (delete_wrap_error + unit) \<times> inner" where
  "delete_wrap file_id recipient_id caller_id s =
     (if recipient_id = id_raw RECOVERY_ID then (Inl RecoveryProtected, s)
      else (case map_of (in_files s) file_id of
          None \<Rightarrow> (Inl DwNotFound, s)
        | Some entry \<Rightarrow>
            let owner_id = fe_owner_id entry; version = fe_current_version entry in
            if version = 0 then (Inl DwNotFound, s)
            else (case map_of (fe_versions entry) version of
                None \<Rightarrow> (Inl DwNotFound, s)
              | Some ver \<Rightarrow>
                  (case find_wrap recipient_id (ve_wraps ver) of
                     None \<Rightarrow> (Inl DwNotFound, s)
                   | Some target \<Rightarrow>
                       if wi_recipient_type target = 2 then (Inl RecoveryProtected, s)
                       else if caller_id \<noteq> owner_id \<and> caller_id \<noteq> wi_granted_by target
                         then (Inl NotAuthorized, s)
                       else
                         let ws = [w \<leftarrow> ve_wraps ver. wi_recipient_id w \<noteq> recipient_id]
                         in (Inr (), put_file file_id
                              (put_version version (ver\<lparr>ve_wraps := ws\<rparr>) entry) s)))))"

definition list_recipients :: "bytes \<Rightarrow> bytes \<Rightarrow> inner \<Rightarrow> recipient_view list option" where
  "list_recipients file_id caller_id s = (case map_of (in_files s) file_id of
       None \<Rightarrow> None
     | Some entry \<Rightarrow>
         if fe_owner_id entry \<noteq> caller_id then None
         else
           let version = fe_current_version entry in
           if version = 0 then None
           else (case map_of (fe_versions entry) version of
               None \<Rightarrow> None
             | Some ver \<Rightarrow> Some (map (\<lambda>w. \<lparr>rc_recipient_id = wi_recipient_id w,
                   rc_granted_by = wi_granted_by w, rc_grant_bytes = wi_grant_bytes w,
                   rc_grant_sig = wi_grant_sig w,
                   rc_ancestor_grants = ancestor_chain (ve_wraps ver) w (fe_owner_id entry)\<rparr>)
                 [w \<leftarrow> ve_wraps ver. wi_recipient_type w = 1])))"

section \<open>Removing\<close>

definition blob_refs_of :: "version_entry \<Rightarrow> string list" where
  "blob_refs_of v = map sr_blob_ref (ve_streams v)"

definition discard_unfinalized :: "bytes \<Rightarrow> bytes \<Rightarrow> inner \<Rightarrow> (discard_error + string list) \<times> inner" where
  "discard_unfinalized file_id caller_id s = (case map_of (in_files s) file_id of
       None \<Rightarrow> (Inr [], s)
     | Some entry \<Rightarrow>
         if fe_owner_id entry \<noteq> caller_id then (Inl DcNotFound, s)
         else if 1 \<le> fe_current_version entry then (Inl HasFinalizedVersion, s)
         else
           let staged = [p \<leftarrow> fe_versions entry. \<not> ve_finalized (snd p)];
               blob_refs = concat (map (blob_refs_of \<circ> snd) staged);
               entry = entry\<lparr>fe_versions := fold AList.delete (map fst staged) (fe_versions entry)\<rparr>
           in (Inr blob_refs, put_file file_id entry s))"

fun remove_all :: "bytes list \<Rightarrow> (bytes \<times> file_entry) list \<Rightarrow> string list \<times> (bytes \<times> file_entry) list" where
  "remove_all [] files = ([], files)"
| "remove_all (i # ids) files = (case map_of files i of
       None \<Rightarrow> remove_all ids files
     | Some entry \<Rightarrow>
         let (refs, files) = remove_all ids (AList.delete i files)
         in (concat (map (blob_refs_of \<circ> snd) (fe_versions entry)) @ refs, files))"

definition delete_file :: "bytes \<Rightarrow> bytes \<Rightarrow> inner \<Rightarrow> (delete_error + string list) \<times> inner" where
  "delete_file file_id owner_id s = (case map_of (in_files s) file_id of
       None \<Rightarrow> (Inl DlNotFound, s)
     | Some target \<Rightarrow>
         if fe_owner_id target \<noteq> owner_id then (Inl DlNotFound, s)
         else
           let is_bundle = (fe_file_type target = BUNDLE_FILE_TYPE);
               members = (if is_bundle then map fst [p \<leftarrow> in_files s.
                 fe_bundle_id (snd p) = Some file_id \<and> fe_owner_id (snd p) = owner_id] else []);
               (blob_refs, files) = remove_all (file_id # members) (in_files s)
           in (Inr blob_refs, s\<lparr>in_files := files\<rparr>))"

end
