(* ===== verification/ServerAccounts_Laws.thy ===== *)
theory ServerAccounts_Laws
  imports ServerAccounts
begin

text \<open>
  What the account half of the server's store promises over any interleaving of its operations:
  one first administrator, registration keys and login nonces that are used once, a housekeeping
  sweep that only removes expired rows, and a control log in lockstep with the sink's.
\<close>

section \<open>Interleavings\<close>

datatype account_op =
    CreateUser string bytes bytes bytes
  | InsertNonce bytes string u64
  | ConsumeNonce bytes
  | InsertSession bytes session_record
  | RevokeSession bytes
  | Prune u64 u64 u32
  | PutBinding bytes u64 bytes bytes
  | IssueKey bytes
  | ConsumeKey bytes
  | ClaimFirstAdmin
  | Enroll bytes bytes string bytes bytes stored_binding stored_binding
  | SetRecovery bytes bytes "bytes option"
  | AppendControl bytes bytes "bytes option"

datatype account_result =
    RUnit | RUser "bytes option" | RPrune prune_counts | RBool bool | REnroll enroll_outcome
  | RHead "control_append_error + bytes"

fun account_step :: "(bytes \<Rightarrow> bytes) \<Rightarrow> account_op \<Rightarrow> inner \<Rightarrow> account_result \<times> inner" where
  "account_step sha (CreateUser u e k f) s = map_prod RUser id (create_user u e k f s)"
| "account_step sha (InsertNonce n u t) s = (RUnit, insert_nonce n u t s)"
| "account_step sha (ConsumeNonce n) s = (RUnit, consume_nonce n s)"
| "account_step sha (InsertSession h r) s = (RUnit, insert_session h r s)"
| "account_step sha (RevokeSession h) s = (RUnit, revoke_session h s)"
| "account_step sha (Prune t g l) s = map_prod RPrune id (prune_expired_auth_rows t g l s)"
| "account_step sha (PutBinding u v b g) s = (RUnit, put_binding u v b g s)"
| "account_step sha (IssueKey h) s = (RUnit, issue_registration_key h s)"
| "account_step sha (ConsumeKey h) s = map_prod RBool id (consume_registration_key h s)"
| "account_step sha ClaimFirstAdmin s = map_prod RBool id (claim_first_admin s)"
| "account_step sha (Enroll h i u e k b a) s = map_prod REnroll id (enroll h i u e k b a s)"
| "account_step sha (SetRecovery e k m) s = map_prod RBool id (set_recovery_account e k m s)"
| "account_step sha (AppendControl r g c) s = map_prod RHead id (append_control sha r g c s)"

text \<open>A run returns every operation with its result and the final state.\<close>

fun account_run :: "(bytes \<Rightarrow> bytes) \<Rightarrow> account_op list \<Rightarrow> inner
    \<Rightarrow> (account_op \<times> account_result) list \<times> inner" where
  "account_run sha [] s = ([], s)"
| "account_run sha (p # ps) s =
     (let (r, s) = account_step sha p s; (es, s) = account_run sha ps s in ((p, r) # es, s))"

lemma account_run_append:
  "account_run sha (ps @ qs) s =
     (let (es, s) = account_run sha ps s; (fs, s) = account_run sha qs s in (es @ fs, s))"
  by (induction ps arbitrary: s) (auto simp: Let_def split: prod.splits)

text \<open>An invariant of every step is one of every run.\<close>

lemma account_run_invariant:
  assumes "P s" and "\<And>p s. p \<in> set ps \<Longrightarrow> P s \<Longrightarrow> P (snd (account_step sha p s))"
  shows "P (snd (account_run sha ps s))"
  using assms
proof (induction ps arbitrary: s)
  case (Cons p ps)
  from Cons.prems have "P (snd (account_step sha p s))" by simp
  from Cons.IH [OF this] Cons.prems(2) show ?case by (auto simp: Let_def split: prod.splits)
qed simp

lemmas account_defs = create_user_def insert_nonce_def consume_nonce_def insert_session_def
  revoke_session_def prune_expired_auth_rows_def put_binding_def issue_registration_key_def
  consume_registration_key_def claim_first_admin_def enroll_def set_recovery_account_def
  append_control_def

section \<open>One first administrator\<close>

fun admin_granted :: "account_op \<times> account_result \<Rightarrow> bool" where
  "admin_granted (ClaimFirstAdmin, RBool b) = b"
| "admin_granted (Enroll _ _ _ _ _ _ _, REnroll (Enrolled b)) = b"
| "admin_granted _ = False"

lemma admin_step:
  "account_step sha p s = (r, s') \<Longrightarrow>
     of_bool (admin_granted (p, r)) + (of_bool (in_first_admin_claimed s) :: nat) =
     of_bool (in_first_admin_claimed s')"
  by (cases p) (auto simp: account_defs Let_def split: option.splits if_splits prod.splits)

lemma admin_run:
  "account_run sha ps s = (es, s') \<Longrightarrow>
     length (filter admin_granted es) + of_bool (in_first_admin_claimed s) =
     of_bool (in_first_admin_claimed s')"
proof (induction ps arbitrary: s es)
  case (Cons p ps)
  then obtain r s1 fs where step: "account_step sha p s = (r, s1)"
    and rest: "account_run sha ps s1 = (fs, s')" and es: "es = (p, r) # fs"
    by (auto simp: Let_def split: prod.splits)
  have "length (filter admin_granted es) =
      of_bool (admin_granted (p, r)) + length (filter admin_granted fs)" by (simp add: es)
  with admin_step [OF step] Cons.IH [OF rest] show ?case by linarith
qed simp

text \<open>However requests interleave, the store hands out the first-administrator role at most once,
  by the claim or by an enrolment, and exactly once as soon as anyone has claimed or enrolled.\<close>

theorem one_first_admin:
  "length (filter admin_granted (fst (account_run sha ps store_new))) =
     of_bool (in_first_admin_claimed (snd (account_run sha ps store_new)))"
  using admin_run [of sha ps store_new "fst (account_run sha ps store_new)"
      "snd (account_run sha ps store_new)"]
  by (simp add: store_new_def)

section \<open>Registration keys\<close>

fun key_used :: "bytes \<Rightarrow> account_op \<times> account_result \<Rightarrow> bool" where
  "key_used h (ConsumeKey h', RBool b) \<longleftrightarrow> h' = h \<and> b"
| "key_used h (Enroll h' _ _ _ _ _ _, REnroll (Enrolled _)) \<longleftrightarrow> h' = h"
| "key_used h _ \<longleftrightarrow> False"

lemma key_step:
  "account_step sha p s = (r, s') \<Longrightarrow>
     of_bool (key_used h (p, r)) + (of_bool (h \<in> in_reg_keys s') :: nat) \<le>
     of_bool (p = IssueKey h) + of_bool (h \<in> in_reg_keys s)"
  by (cases p) (auto simp: account_defs Let_def split: option.splits if_splits prod.splits)

lemma key_run:
  "account_run sha ps s = (es, s') \<Longrightarrow>
     length (filter (key_used h) es) + of_bool (h \<in> in_reg_keys s') \<le>
     length (filter (\<lambda>p. p = IssueKey h) ps) + of_bool (h \<in> in_reg_keys s)"
proof (induction ps arbitrary: s es)
  case (Cons p ps)
  then obtain r s1 fs where step: "account_step sha p s = (r, s1)"
    and rest: "account_run sha ps s1 = (fs, s')" and es: "es = (p, r) # fs"
    by (auto simp: Let_def split: prod.splits)
  have "length (filter (key_used h) es) = of_bool (key_used h (p, r)) + length (filter (key_used h) fs)"
    "length (filter (\<lambda>p. p = IssueKey h) (p # ps)) =
      of_bool (p = IssueKey h) + length (filter (\<lambda>p. p = IssueKey h) ps)" by (simp_all add: es)
  with key_step [OF step, of h] Cons.IH [OF rest] show ?case by linarith
qed simp

text \<open>A registration key is worth one account: in every run it is redeemed at most as often as it
  was issued.\<close>

theorem registration_key_single_use:
  "length (filter (key_used h) (fst (account_run sha ps store_new))) \<le>
     length (filter (\<lambda>p. p = IssueKey h) ps)"
  using key_run [of sha ps store_new "fst (account_run sha ps store_new)"
      "snd (account_run sha ps store_new)" h]
  by (simp add: store_new_def)

text \<open>Enrolment is all or nothing: a refusal leaves the store as it was; a success stores the
  account with the binding of the role it got, burns the key and the name, and touches no other
  account.\<close>

theorem enroll_atomic:
  "(case enroll h i u e k ub ab s of
      (KeyInvalid, s') \<Rightarrow> h \<notin> in_reg_keys s \<and> s' = s
    | (UsernameTaken, s') \<Rightarrow> user_by_name u s \<noteq> None \<and> s' = s
    | (Enrolled is_admin, s') \<Rightarrow> is_admin = (\<not> in_first_admin_claimed s) \<and>
        binding_by_username u s' = Some (if is_admin then ab else ub) \<and>
        user_by_name u s' = Some \<lparr>us_user_id = i, us_enc_pub = e, us_sig_pub = k\<rparr> \<and>
        fst (enroll h i' u' e' k' ub' ab' s') = KeyInvalid \<and>
        fst (enroll h' i' u e' k' ub' ab' s') \<in> {KeyInvalid, UsernameTaken} \<and>
        fst (claim_first_admin s') = False \<and>
        (u' = u \<or> user_by_name u' s' = user_by_name u' s) \<and>
        (j = i \<or> binding_by_user_id j s' = binding_by_user_id j s))"
  by (auto simp: enroll_def user_by_name_def binding_by_username_def binding_by_user_id_def
      claim_first_admin_def Let_def split: enroll_outcome.splits if_splits)

section \<open>Tables\<close>

lemma map_of_fold_delete:
  "map_of (fold AList.delete ks m) = (map_of m) |` (- set ks)"
  by (induction ks arbitrary: m)
    (auto simp: AList.delete_conv' restrict_map_def fun_eq_iff)

lemma distinct_fold_delete: "distinct (map fst m) \<Longrightarrow> distinct (map fst (fold AList.delete ks m))"
  by (induction ks arbitrary: m) (simp_all add: distinct_delete)

lemma set_fold_delete: "set (fold AList.delete ks m) = {p \<in> set m. fst p \<notin> set ks}"
  by (induction ks arbitrary: m) (auto simp: AList.delete_eq)

definition tables_ok :: "inner \<Rightarrow> bool" where
  "tables_ok s \<longleftrightarrow> distinct (map fst (in_nonces s)) \<and> distinct (map fst (in_sessions s))"

lemma sweep_distinct:
  "distinct (map fst m) \<Longrightarrow> distinct (map fst (snd (sweep expiry c l m)))"
  by (simp add: sweep_def Let_def distinct_fold_delete)

lemma tables_ok_step: "tables_ok s \<Longrightarrow> tables_ok (snd (account_step sha p s))"
  by (cases p)
    (auto simp: account_defs tables_ok_def Let_def distinct_update sweep_def distinct_fold_delete
      split: option.splits prod.splits)

lemma tables_ok_run: "tables_ok (snd (account_run sha ps store_new))"
  by (rule account_run_invariant) (simp_all add: tables_ok_step, simp add: tables_ok_def store_new_def)

section \<open>Login nonces\<close>

definition spent :: "bytes \<Rightarrow> inner \<Rightarrow> bool" where
  "spent n s \<longleftrightarrow> (case map_of (in_nonces s) n of None \<Rightarrow> True | Some r \<Rightarrow> no_used r)"

lemma spent_step:
  assumes "spent n s" and "\<forall>u t. p \<noteq> InsertNonce n u t"
  shows "spent n (snd (account_step sha p s))"
  using assms
  by (cases p)
    (auto simp: account_defs spent_def Let_def AList.update_conv' sweep_def map_of_fold_delete
      restrict_map_def split: option.splits prod.splits)

lemma spent_consume: "spent n (consume_nonce n s)"
  by (auto simp: spent_def consume_nonce_def AList.update_conv' split: option.splits)

lemma spent_not_outstanding:
  assumes "spent n s" and "distinct (map fst (in_nonces s))"
  shows "n \<notin> set (outstanding_nonces u now s)"
proof
  assume "n \<in> set (outstanding_nonces u now s)"
  then obtain r where "(n, r) \<in> set (in_nonces s)" and "\<not> no_used r"
    by (auto simp: outstanding_nonces_def)
  moreover from this(1) have "map_of (in_nonces s) n = Some r" using assms(2) by simp
  ultimately show False using assms(1) by (simp add: spent_def)
qed

fun inserts_nonce :: "bytes \<Rightarrow> account_op \<Rightarrow> bool" where
  "inserts_nonce n (InsertNonce n' _ _) \<longleftrightarrow> n' = n"
| "inserts_nonce n _ \<longleftrightarrow> False"

text \<open>A login challenge answers once: after it is consumed it is never outstanding again for any
  user at any time, whatever else happens, unless the same 32 bytes are issued again.\<close>

theorem consumed_nonce_stays_spent:
  assumes "\<forall>p \<in> set qs. \<not> inserts_nonce n p"
  shows "n \<notin> set (outstanding_nonces u now (snd (account_run sha (ps @ ConsumeNonce n # qs) store_new)))"
proof (rule spent_not_outstanding)
  let ?s = "snd (account_run sha ps store_new)"
  have "spent n (snd (account_run sha qs (consume_nonce n ?s)))"
    by (rule account_run_invariant [where P = "spent n"])
      (use assms in \<open>auto simp: spent_consume intro!: spent_step\<close>)
  then show "spent n (snd (account_run sha (ps @ ConsumeNonce n # qs) store_new))"
    by (simp add: account_run_append Let_def split_def)
  show "distinct (map fst (in_nonces (snd (account_run sha (ps @ ConsumeNonce n # qs) store_new))))"
    using tables_ok_run [of sha "ps @ ConsumeNonce n # qs"] by (simp add: tables_ok_def)
qed

theorem consumed_nonce_stays_spent_witness:
  "[7] \<in> set (outstanding_nonces ''eve'' 0 (snd (account_run (\<lambda>x. x) [InsertNonce [7] ''eve'' 9] store_new))) \<and>
   [7] \<notin> set (outstanding_nonces ''eve'' 0 (snd (account_run (\<lambda>x. x)
     ([InsertNonce [7] ''eve'' 9] @ ConsumeNonce [7] # [InsertNonce [8] ''eve'' 9]) store_new)))"
proof
  show "[7] \<in> set (outstanding_nonces ''eve'' 0 (snd (account_run (\<lambda>x. x) [InsertNonce [7] ''eve'' 9] store_new)))"
    by (simp add: outstanding_nonces_def insert_nonce_def store_new_def)
  show "[7] \<notin> set (outstanding_nonces ''eve'' 0 (snd (account_run (\<lambda>x. x)
     ([InsertNonce [7] ''eve'' 9] @ ConsumeNonce [7] # [InsertNonce [8] ''eve'' 9]) store_new)))"
    by (rule consumed_nonce_stays_spent) simp
qed

section \<open>Housekeeping\<close>

lemma length_fold_delete:
  assumes "distinct (map fst m)" and "distinct ks" and "set ks \<subseteq> set (map fst m)"
  shows "length (fold AList.delete ks m) + length ks = length m"
proof -
  have "distinct m" using assms(1) by (simp add: distinct_map)
  have "fst ` (set m - set (fold AList.delete ks m)) = set ks"
    using assms(3) by (auto simp: set_fold_delete image_iff)
  moreover have "inj_on fst (set m - set (fold AList.delete ks m))"
    using assms(1) by (auto simp: distinct_map intro: inj_on_subset)
  ultimately have "card (set m - set (fold AList.delete ks m)) = length ks"
    using assms(2) by (metis card_image distinct_card)
  moreover have "distinct (fold AList.delete ks m)"
    using distinct_fold_delete [OF assms(1), of ks] by (simp add: distinct_map)
  moreover have "set (fold AList.delete ks m) \<subseteq> set m" by (auto simp: set_fold_delete)
  ultimately show ?thesis
    using \<open>distinct m\<close> by (metis card_Diff_subset card_mono distinct_card finite_set le_add_diff_inverse)
qed

definition expired_rows :: "('r \<Rightarrow> u64) \<Rightarrow> u64 \<Rightarrow> (bytes \<times> 'r) list \<Rightarrow> (bytes \<times> 'r) list" where
  "expired_rows expiry cutoff m = [p \<leftarrow> m. expiry (snd p) < cutoff]"

text \<open>What one bounded sweep does to a table: only expired rows go, never more than the bound, and if
  fewer went then none is left.\<close>

definition swept :: "('r \<Rightarrow> u64) \<Rightarrow> u64 \<Rightarrow> u32 \<Rightarrow> (bytes \<times> 'r) list \<Rightarrow> u64 \<Rightarrow> (bytes \<times> 'r) list \<Rightarrow> bool" where
  "swept expiry cutoff limit m n m' \<longleftrightarrow>
     set m' \<subseteq> set m \<and> set m - set m' \<subseteq> set (expired_rows expiry cutoff m) \<and>
     length m' + unat n = length m \<and>
     unat n = min (unat limit) (length (expired_rows expiry cutoff m))"

lemma sweep_swept:
  assumes "distinct (map fst m)" and "sweep expiry cutoff (unat (limit :: u32)) m = (n, m')"
  shows "swept expiry cutoff limit m n m'"
proof -
  define ks where "ks = take (unat limit) (map fst (expired_rows expiry cutoff m))"
  have ks: "n = word_of_nat (length ks)" "m' = fold AList.delete ks m"
    using assms(2) by (simp_all add: sweep_def ks_def expired_rows_def Let_def split_def)
  have sub: "set ks \<subseteq> fst ` set (expired_rows expiry cutoff m)"
    using set_take_subset [of "unat limit" "map fst (expired_rows expiry cutoff m)"] by (simp add: ks_def)
  have "unat limit < 2 ^ 32" using unsigned_less [of limit] by simp
  then have "length ks < 2 ^ 64" by (simp add: ks_def)
  then have n: "unat n = length ks" by (simp add: ks unat_of_nat)
  have "distinct ks"
    using assms(1) by (simp add: ks_def expired_rows_def distinct_map_filter distinct_take)
  moreover have "set ks \<subseteq> set (map fst m)" using sub by (auto simp: expired_rows_def)
  ultimately have len: "length m' + unat n = length m"
    using length_fold_delete [OF assms(1)] by (simp add: ks(2) n)
  have "p \<in> set (expired_rows expiry cutoff m)" if "p \<in> set m" "p \<notin> set m'" for p
  proof -
    from that have "fst p \<in> set ks" by (simp add: ks(2) set_fold_delete)
    with sub obtain q where "q \<in> set (expired_rows expiry cutoff m)" "fst q = fst p" by auto
    with that(1) assms(1) have "q = p" by (auto simp: expired_rows_def distinct_map dest: inj_onD)
    then show ?thesis using \<open>q \<in> _\<close> by simp
  qed
  then show ?thesis
    using len n by (auto simp: swept_def ks(2) set_fold_delete ks_def min.commute)
qed

text \<open>The housekeeping sweep is safe on every reachable store: it removes only sessions and nonces
  that expired more than the grace period ago (never an unexpired one, revoked or used or not), at
  most \<open>batch_limit\<close> of each, reports exactly what it removed, and leaves no prunable row when it
  removed fewer; everything else is untouched.\<close>

theorem prune_only_expired:
  "let s = snd (account_run sha ps store_new); cutoff = saturating_sub now grace;
       (c, s') = prune_expired_auth_rows now grace limit s
   in swept se_expires_at_ms cutoff limit (in_sessions s) (pc_sessions c) (in_sessions s') \<and>
      swept no_expires_at_ms cutoff limit (in_nonces s) (pc_nonces c) (in_nonces s') \<and>
      s' = s\<lparr>in_sessions := in_sessions s', in_nonces := in_nonces s'\<rparr>"
proof -
  define s where "s = snd (account_run sha ps store_new)"
  have ok: "distinct (map fst (in_nonces s))" "distinct (map fst (in_sessions s))"
    using tables_ok_run [of sha ps] by (simp_all add: tables_ok_def s_def)
  show ?thesis
    unfolding s_def [symmetric]
    by (auto simp: Let_def prune_expired_auth_rows_def split: prod.splits
        intro: sweep_swept ok)
qed

section \<open>The control log\<close>

text \<open>The server's log as the sink would hold it.\<close>

definition control_view :: "inner \<Rightarrow> control_log_store" where
  "control_view s = \<lparr>cl_records = map sc_record_bytes (in_control_log s), cl_head = in_control_head s,
     cl_chain_seq = word_of_nat (length (in_control_log s))\<rparr>"

lemma decode_control_None: "decode_control sha b = None \<longleftrightarrow> \<not> is_ok (from_bytes b)"
  using decode_control_link [of sha b]
  by (cases "decode_control sha b") (auto split: sum.splits)

lemma decode_control_Some:
  "decode_control sha b = Some d \<Longrightarrow>
     \<exists>x. from_bytes b = Inr x \<and> dc_prev_head d = d_prev_head x \<and> dc_head d = sha b"
  using decode_control_link [of sha b] by (auto split: sum.splits)

text \<open>The sink's name for each refusal of the server.\<close>

fun sink_refusal :: "control_append_error \<Rightarrow> append_error" where
  "sink_refusal CaMalformed = AMalformed"
| "sink_refusal CaConflict = NotAppending"
| "sink_refusal (CaStore _) = NotAppending"

lemma append_control_view:
  assumes "append_control sha rec sig co s = (res, s')"
  shows "control_log_append sha rec (control_view s) =
     (map_sum sink_refusal (\<lambda>h. \<lparr>ah_chain_seq = cl_chain_seq (control_view s'), ah_head = h\<rparr>) res,
      control_view s')"
proof (cases "decode_control sha rec")
  case None
  then obtain e where "from_bytes rec = Inl e" by (cases "from_bytes rec") (auto simp: decode_control_None)
  with None assms show ?thesis
    by (auto simp: append_control_def control_log_append_def peek_prev_head_from_bytes)
next
  case (Some d)
  from decode_control_Some [OF Some] obtain x where "from_bytes rec = Inr x"
    "dc_prev_head d = d_prev_head x" "dc_head d = sha rec" by blast
  with Some assms show ?thesis
    by (auto simp: append_control_def control_log_append_def peek_prev_head_from_bytes Let_def
        control_view_def control_log_head_def add.commute split: if_splits)
qed

lemma control_view_step:
  "control_view (snd (account_step sha p s)) = (case p of
      AppendControl r g c \<Rightarrow> snd (control_log_append sha r (control_view s))
    | _ \<Rightarrow> control_view s)"
proof (cases p)
  case (AppendControl r g c)
  then show ?thesis
    using append_control_view [of sha r g c s] by (cases "append_control sha r g c s") simp
qed (auto simp: account_defs control_view_def Let_def split: option.splits prod.splits)

text \<open>The records posted in a run, with the server's answers, and a sink fed with the same posts.\<close>

fun posted :: "(account_op \<times> account_result) list \<Rightarrow> (bytes \<times> (control_append_error + bytes)) list" where
  "posted ((AppendControl r _ _, RHead res) # es) = (r, res) # posted es"
| "posted (_ # es) = posted es"
| "posted [] = []"

fun sink_run :: "(bytes \<Rightarrow> bytes) \<Rightarrow> bytes list \<Rightarrow> control_log_store
    \<Rightarrow> (append_error + bytes) list \<times> control_log_store" where
  "sink_run sha [] l = ([], l)"
| "sink_run sha (r # rs) l =
     (let (res, l) = control_log_append sha r l; (outs, l) = sink_run sha rs l
      in (map_sum id ah_head res # outs, l))"

lemma posted_step:
  "account_step sha p s = (r, s') \<Longrightarrow> posted ((p, r) # es) = (case p of
      AppendControl b g c \<Rightarrow> (b, fst (append_control sha b g c s)) # posted es | _ \<Rightarrow> posted es)"
  by (cases p) (auto simp: map_prod_def split: prod.splits)

lemma lockstep:
  "account_run sha ps s = (es, s') \<Longrightarrow>
     sink_run sha (map fst (posted es)) (control_view s) =
     (map (map_sum sink_refusal id \<circ> snd) (posted es), control_view s')"
proof (induction ps arbitrary: s es)
  case (Cons p ps)
  then obtain r s1 fs where step: "account_step sha p s = (r, s1)"
    and rest: "account_run sha ps s1 = (fs, s')" and es: "es = (p, r) # fs"
    by (auto simp: Let_def split: prod.splits)
  have view: "control_view s1 = (case p of
      AppendControl r g c \<Rightarrow> snd (control_log_append sha r (control_view s))
    | _ \<Rightarrow> control_view s)"
    using control_view_step [of sha p s] unfolding step snd_conv .
  show ?case
  proof (cases p)
    case (AppendControl b g c)
    obtain res where "append_control sha b g c s = (res, s1)"
      using step by (cases "append_control sha b g c s") (auto simp: AppendControl)
    with Cons.IH [OF rest] append_control_view [OF this] posted_step [OF step, of fs] show ?thesis
      by (cases res) (simp_all add: es AppendControl)
  qed (use Cons.IH [OF rest] view posted_step [OF step, of fs] in \<open>simp_all add: es\<close>)
qed simp

text \<open>The server's control log refines the sink's: over any run of the store, a sink that receives
  the same posted records answers each one as the server did (the same new head, or the matching
  refusal) and ends up with the same records, head and length.\<close>

theorem server_log_refines_sink:
  "let (es, s) = account_run sha ps store_new in
   sink_run sha (map fst (posted es)) control_log_new =
     (map (map_sum sink_refusal id \<circ> snd) (posted es), control_view s)"
proof -
  have "control_view store_new = control_log_new"
    by (simp add: control_view_def store_new_def control_log_new_def GENESIS_HEAD_def)
  then show ?thesis using lockstep [of sha ps store_new] by (auto split: prod.splits)
qed

inductive server_reach :: "(bytes \<Rightarrow> bytes) \<Rightarrow> inner \<Rightarrow> bool" for sha where
  fresh: "server_reach sha store_new"
| step: "server_reach sha s \<Longrightarrow> server_reach sha (snd (account_step sha p s))"

lemma sink_reach_server: "server_reach sha s \<Longrightarrow> sink_reach sha (control_view s)"
proof (induction rule: server_reach.induct)
  case fresh
  have "control_view store_new = control_log_new"
    by (simp add: control_view_def store_new_def control_log_new_def GENESIS_HEAD_def)
  then show ?case by (simp add: sink_reach.fresh)
next
  case (step s p)
  then show ?case
    by (auto simp: control_view_step split: account_op.splits
        intro: sink_reach.step [OF _ surjective_pairing])
qed

interpretation server_log: chained_log sha "map sc_record_bytes \<circ> control_records" control_head
  "server_reach sha" for sha
proof unfold_locales
  fix s
  assume "server_reach sha s"
  from sink_reach_linked [OF sink_reach_server [OF this]]
  show "linked sha (b32_raw GENESIS_HEAD) ((map sc_record_bytes \<circ> control_records) s) (control_head s)"
    by (simp add: control_view_def control_records_def control_head_def)
qed

text \<open>A client that fetches a server's whole log always verifies it against that server's head,
  in every state the server can reach.\<close>

theorem server_log_accepted:
  "let s = snd (account_run sha ps store_new)
   in \<exists>ts. ts_verify sha (map sc_record_bytes (control_records s)) (control_head s) = Inr ts"
proof -
  have "server_reach sha (snd (account_run sha ps store_new))"
    by (rule account_run_invariant) (auto intro: server_reach.intros)
  from server_log.served_accepted [OF this] show ?thesis unfolding Let_def comp_def by blast
qed

end
