(* ===== verification/ServerRecords_Laws.thy ===== *)
theory ServerRecords_Laws
  imports ServerRecords ServerAccounts_Laws
begin

text \<open>
  What the server keeps true of the files it stores, over any sequence of authenticated requests:
  the finalized versions are exactly \<open>1\<close> up to the current one, only the current one still holds
  keys, and its recovery wrap cannot be removed; who can read, share, revoke, list and delete; and
  two places where the coarse gates do less than they say.
\<close>

section \<open>Requests\<close>

text \<open>One authenticated request; a staging request goes through \<open>parse_stage\<close> first.\<close>

datatype store_op =
    Stage stage_input u64
  | Finalize bytes u64 bytes u64
  | AddWrap bytes wrap_input bytes u64
  | DeleteWrap bytes bytes bytes
  | Discard bytes bytes
  | Delete bytes bytes
  | Account account_op

fun store_next :: "(bytes \<Rightarrow> bytes) \<Rightarrow> store_op \<Rightarrow> inner \<Rightarrow> inner" where
  "store_next sha (Stage input t) s = (case parse_stage input of Inl _ \<Rightarrow> s
     | Inr p \<Rightarrow> snd (stage_version p t s))"
| "store_next sha (Finalize i v c t) s = snd (finalize_version i v c t s)"
| "store_next sha (AddWrap i w c t) s = snd (add_wrap i w c t s)"
| "store_next sha (DeleteWrap i r c) s = snd (delete_wrap i r c s)"
| "store_next sha (Discard i c) s = snd (discard_unfinalized i c s)"
| "store_next sha (Delete i c) s = snd (delete_file i c s)"
| "store_next sha (Account p) s = snd (account_step sha p s)"

definition store_run :: "(bytes \<Rightarrow> bytes) \<Rightarrow> store_op list \<Rightarrow> inner" where
  "store_run sha ps = fold (store_next sha) ps store_new"

lemma files_account_step: "in_files (snd (account_step sha p s)) = in_files s"
  by (cases p) (auto simp: account_defs Let_def split: option.splits prod.splits)

lemma one_le_word: "(1 :: u64) \<le> v \<longleftrightarrow> v \<noteq> 0"
  by (simp add: word_le_nat_alt Suc_le_eq unat_gt_0)

section \<open>The invariant of a file\<close>

definition has_recovery :: "version_entry \<Rightarrow> bool" where
  "has_recovery e \<longleftrightarrow> list_ex is_recovery_wrap (ve_wraps e)"

text \<open>\<open>n\<close> bounds the number of requests so far, so that the version counter has not wrapped.\<close>

definition file_ok :: "nat \<Rightarrow> file_entry \<Rightarrow> bool" where
  "file_ok n f \<longleftrightarrow> distinct (map fst (fe_versions f)) \<and> unat (fe_current_version f) \<le> n \<and>
     (\<forall>v. version_finalized f v \<longleftrightarrow> 1 \<le> v \<and> v \<le> fe_current_version f) \<and>
     (\<forall>v e. map_of (fe_versions f) v = Some e \<longrightarrow>
        \<not> list_ex half_recovery (ve_wraps e) \<and>
        (if ve_finalized e \<and> v \<noteq> fe_current_version f then ve_wraps e = [] \<and> ve_streams e = []
         else has_recovery e))"

definition files_ok :: "nat \<Rightarrow> inner \<Rightarrow> bool" where
  "files_ok n s \<longleftrightarrow> distinct (map fst (in_files s)) \<and>
     (\<forall>i f. map_of (in_files s) i = Some f \<longrightarrow> file_ok n f)"

lemma in_files_put [simp]: "in_files (put_file i f s) = AList.update i f (in_files s)"
  by (simp add: put_file_def)

lemma put_version_simps [simp]:
  "fe_owner_id (put_version v e f) = fe_owner_id f"
  "fe_file_type (put_version v e f) = fe_file_type f"
  "fe_listed (put_version v e f) = fe_listed f"
  "fe_bundle_id (put_version v e f) = fe_bundle_id f"
  "fe_current_version (put_version v e f) = fe_current_version f"
  "fe_genesis_bytes (put_version v e f) = fe_genesis_bytes f"
  "fe_versions (put_version v e f) = AList.update v e (fe_versions f)"
  by (simp_all add: put_version_def)

lemma files_ok_put: "files_ok n s \<Longrightarrow> file_ok n f \<Longrightarrow> files_ok n (put_file i f s)"
  by (auto simp: files_ok_def AList.update_conv' distinct_update)

lemma file_ok_mono: "file_ok n f \<Longrightarrow> n \<le> m \<Longrightarrow> file_ok m f"
  by (auto simp: file_ok_def)

lemma files_ok_mono: "files_ok n s \<Longrightarrow> n \<le> m \<Longrightarrow> files_ok m s"
  unfolding files_ok_def by (blast intro: file_ok_mono)

text \<open>Staging an entry that is not finalized yet.\<close>

lemma file_ok_stage:
  assumes "file_ok n f" and "\<not> version_finalized f v" and "\<not> ve_finalized e" and "has_recovery e"
    and "\<not> list_ex half_recovery (ve_wraps e)"
  shows "file_ok n (put_version v e f)"
  using assms by (auto simp: file_ok_def version_finalized_def AList.update_conv' distinct_update
      split: if_splits)

text \<open>Replacing the wraps of the current version.\<close>

lemma file_ok_rewrap:
  assumes "file_ok n f" and "fe_current_version f \<noteq> 0"
    and "map_of (fe_versions f) (fe_current_version f) = Some e"
    and "list_ex is_recovery_wrap ws" and "\<not> list_ex half_recovery ws"
  shows "file_ok n (put_version (fe_current_version f) (e\<lparr>ve_wraps := ws\<rparr>) f)"
proof -
  have "version_finalized f (fe_current_version f)"
    using assms(1,2) by (simp add: file_ok_def one_le_word)
  then have "ve_finalized e" using assms(3) by (simp add: version_finalized_def)
  with assms show ?thesis
    by (auto simp: file_ok_def version_finalized_def AList.update_conv' distinct_update
        has_recovery_def split: if_splits)
qed

lemma files_ok_file: "files_ok n s \<Longrightarrow> map_of (in_files s) i = Some f \<Longrightarrow> file_ok n f"
  by (auto simp: files_ok_def)

lemma file_ok_current:
  assumes "file_ok n f" and "fe_current_version f \<noteq> 0"
  obtains e where "map_of (fe_versions f) (fe_current_version f) = Some e" and "ve_finalized e"
    and "has_recovery e"
proof -
  have "version_finalized f (fe_current_version f)"
    using assms by (simp add: file_ok_def one_le_word)
  then obtain e where "map_of (fe_versions f) (fe_current_version f) = Some e" "ve_finalized e"
    by (auto simp: version_finalized_def split: option.splits)
  with assms(1) that show ?thesis by (auto simp: file_ok_def split: if_splits)
qed

section \<open>Every request keeps the invariant\<close>

lemma stage_version_cases:
  assumes "stage_version p t s = (res, s')"
  obtains (refused) e where "res = Inl e" and "s' = s"
  | (staged) f where "res = Inr (ps_version p)" and "\<not> list_ex half_recovery (ps_wraps p)"
      and "\<not> version_finalized f (ps_version p)"
      and "s' = put_file (ps_file_id p) (put_version (ps_version p)
        \<lparr>ve_manifest_bytes = ps_manifest_bytes p, ve_manifest_sig = ps_manifest_sig p,
          ve_finalized = False, ve_streams = ps_streams p, ve_wraps = ps_wraps p\<rparr> f) s"
      and "map_of (in_files s) (ps_file_id p) = Some f \<or>
        map_of (in_files s) (ps_file_id p) = None \<and> fe_current_version f = 0 \<and> fe_versions f = []"
  using assms unfolding stage_version_def
  by (auto simp: Let_def version_finalized_def split: if_splits option.splits)

lemma files_ok_stage:
  assumes "files_ok n s" and "list_ex is_recovery_wrap (ps_wraps p)"
  shows "files_ok n (snd (stage_version p t s))"
proof (cases "stage_version p t s" rule: prod.exhaust)
  case (Pair res s')
  from Pair show ?thesis
  proof (cases rule: stage_version_cases)
    case refused
    then show ?thesis using Pair assms by simp
  next
    case (staged f)
    have "file_ok n f"
      using staged(5) assms(1)
      by (auto simp: file_ok_def version_finalized_def one_le_word files_ok_def)
    then show ?thesis
      using assms staged(2,3)
      by (simp add: Pair staged(4) files_ok_put file_ok_stage has_recovery_def)
  qed
qed

text \<open>A finalized entry: the version becomes current and its predecessor is emptied.\<close>

definition finalized_entry :: "u64 \<Rightarrow> version_entry \<Rightarrow> u64 \<Rightarrow> file_entry \<Rightarrow> file_entry" where
  "finalized_entry v e t f =
     (let entry = put_version v (e\<lparr>ve_finalized := True\<rparr>) f\<lparr>fe_current_version := v, fe_updated_at_ms := t\<rparr>
      in case (if 1 \<le> fe_current_version f then map_of (fe_versions entry) (fe_current_version f) else None) of
           None \<Rightarrow> entry
         | Some pv \<Rightarrow> put_version (fe_current_version f) (clear_version pv) entry)"

lemma finalize_version_cases:
  assumes "finalize_version i v c t s = (res, s')"
  obtains (refused) e where "res = Inl e" and "s' = s"
  | (finalized) f e where "res = Inr ()" and "map_of (in_files s) i = Some f" and "fe_owner_id f = c"
      and "map_of (fe_versions f) v = Some e" and "\<not> ve_finalized e"
      and "v = fe_current_version f + 1" and "s' = put_file i (finalized_entry v e t f) s"
  using assms unfolding finalize_version_def finalized_entry_def
  by (auto simp: Let_def split: if_splits option.splits)

lemma unat_plus_one: "unat (v :: u64) < 2 ^ 64 - 1 \<Longrightarrow> unat (v + 1) = unat v + 1"
  using unat_add_lem [of v 1] by simp

lemma le_plus_one:
  assumes "unat (v :: u64) < 2 ^ 64 - 1"
  shows "w \<le> v + 1 \<longleftrightarrow> w \<le> v \<or> w = v + 1" and "v + 1 \<noteq> v" and "\<not> v + 1 \<le> v" and "v + 1 \<noteq> 0"
  using assms by (auto simp: word_le_nat_alt word_unat_eq_iff unat_plus_one)

lemma file_ok_finalize:
  assumes "file_ok n f" and "n < 2 ^ 64 - 1" and "v = fe_current_version f + 1"
    and "map_of (fe_versions f) v = Some e" and "\<not> ve_finalized e"
  shows "file_ok (Suc n) (finalized_entry v e t f)"
proof -
  define c where "c = fe_current_version f"
  have bound: "unat c < 2 ^ 64 - 1" using assms(1,2) by (simp add: file_ok_def c_def)
  note step = le_plus_one [OF bound]
  have lookup: "map_of (fe_versions (finalized_entry v e t f)) w =
      (if w = v then Some (e\<lparr>ve_finalized := True\<rparr>)
       else if w = c \<and> c \<noteq> 0 then map_option clear_version (map_of (fe_versions f) w)
       else map_of (fe_versions f) w)" for w
    using assms(3) step
    by (auto simp: finalized_entry_def Let_def AList.update_conv' c_def one_le_word split: option.split)
  have current: "fe_current_version (finalized_entry v e t f) = c + 1"
    by (simp add: finalized_entry_def Let_def assms(3) c_def split: option.split)
  have fin: "version_finalized (finalized_entry v e t f) w \<longleftrightarrow> 1 \<le> w \<and> w \<le> c + 1" for w
  proof -
    have "version_finalized (finalized_entry v e t f) w \<longleftrightarrow> w = v \<or> version_finalized f w"
      by (auto simp: version_finalized_def lookup clear_version_def split: option.splits)
    also have "\<dots> \<longleftrightarrow> w = c + 1 \<or> 1 \<le> w \<and> w \<le> c"
      using assms(1,3) by (simp add: file_ok_def c_def)
    finally show ?thesis using step by (auto simp: one_le_word)
  qed
  have "distinct (map fst (fe_versions (finalized_entry v e t f)))"
    using assms(1) by (auto simp: finalized_entry_def Let_def file_ok_def distinct_update split: option.split)
  moreover have "unat (c + 1) \<le> Suc n"
    using assms(1) bound by (simp add: unat_plus_one file_ok_def c_def)
  moreover have "\<not> list_ex half_recovery (ve_wraps d) \<and>
      (if ve_finalized d \<and> w \<noteq> c + 1 then ve_wraps d = [] \<and> ve_streams d = [] else has_recovery d)"
    if d: "map_of (fe_versions (finalized_entry v e t f)) w = Some d" for w d
  proof -
    consider "w = v" "d = e\<lparr>ve_finalized := True\<rparr>"
      | d0 where "w = c" "c \<noteq> 0" "w \<noteq> v" "map_of (fe_versions f) w = Some d0" "d = clear_version d0"
      | "w \<noteq> v" "w \<noteq> c \<or> c = 0" "map_of (fe_versions f) w = Some d"
      using d by (auto simp: lookup split: if_splits)
    then show ?thesis
    proof cases
      case 1
      with assms show ?thesis by (auto simp: file_ok_def c_def has_recovery_def split: if_splits)
    next
      case 2
      with assms(1) have "version_finalized f w" by (simp add: file_ok_def c_def one_le_word)
      with 2 step show ?thesis by (auto simp: version_finalized_def clear_version_def)
    next
      case 3
      have "w \<noteq> c" if "ve_finalized d"
      proof -
        from that 3 have "version_finalized f w" by (simp add: version_finalized_def)
        with assms(1) 3 show ?thesis by (auto simp: file_ok_def one_le_word c_def)
      qed
      with 3 assms(1,3) show ?thesis by (auto simp: file_ok_def c_def split: if_splits)
    qed
  qed
  ultimately show ?thesis by (simp add: file_ok_def current fin)
qed

lemma files_ok_finalize:
  assumes "files_ok n s" and "n < 2 ^ 64 - 1"
  shows "files_ok (Suc n) (snd (finalize_version i v c t s))"
proof (cases "finalize_version i v c t s" rule: prod.exhaust)
  case (Pair res s')
  from Pair show ?thesis
  proof (cases rule: finalize_version_cases)
    case refused
    then show ?thesis using Pair assms files_ok_mono [of n s "Suc n"] by simp
  next
    case (finalized f e)
    have "file_ok (Suc n) (finalized_entry v e t f)"
      using files_ok_file [OF assms(1) finalized(2)] assms(2) finalized
      by (intro file_ok_finalize)
    then show ?thesis
      using files_ok_mono [OF assms(1), of "Suc n"] by (simp add: Pair finalized(7) files_ok_put)
  qed
qed

lemma add_wrap_cases:
  assumes "add_wrap i w c t s = (res, s')"
  obtains (refused) e where "res = Inl e" and "s' = s"
  | (shared) f e where "res = Inr ()" and "wi_granted_by w = c" and "wi_recipient_type w = 1"
      and "wi_recipient_id w \<noteq> id_raw RECOVERY_ID" and "map_of (in_files s) i = Some f"
      and "fe_current_version f \<noteq> 0"
      and "map_of (fe_versions f) (fe_current_version f) = Some e" and "ve_finalized e"
      and "\<exists>w \<in> set (ve_wraps e). wi_recipient_id w = c"
      and "s' = put_file i (put_version (fe_current_version f)
        (e\<lparr>ve_wraps := [x \<leftarrow> ve_wraps e. wi_recipient_id x \<noteq> wi_recipient_id w] @ [w]\<rparr>) f
        \<lparr>fe_updated_at_ms := t\<rparr>) s"
  using assms unfolding add_wrap_def
  by (auto simp: Let_def list_ex_iff split: if_splits option.splits)

lemma delete_wrap_cases:
  assumes "delete_wrap i r c s = (res, s')"
  obtains (refused) e where "res = Inl e" and "s' = s"
  | (removed) f e w where "res = Inr ()" and "r \<noteq> id_raw RECOVERY_ID"
      and "map_of (in_files s) i = Some f" and "fe_current_version f \<noteq> 0"
      and "map_of (fe_versions f) (fe_current_version f) = Some e"
      and "find_wrap r (ve_wraps e) = Some w" and "wi_recipient_type w \<noteq> 2"
      and "c = fe_owner_id f \<or> c = wi_granted_by w"
      and "s' = put_file i (put_version (fe_current_version f)
        (e\<lparr>ve_wraps := [x \<leftarrow> ve_wraps e. wi_recipient_id x \<noteq> r]\<rparr>) f) s"
  using assms unfolding delete_wrap_def
  by (auto simp: Let_def split: if_splits option.splits)

text \<open>Dropping the rows of a recipient other than the escrow keeps the recovery wrap.\<close>

lemma recovery_survives_filter:
  assumes "r \<noteq> id_raw RECOVERY_ID"
  shows "list_ex is_recovery_wrap [x \<leftarrow> ws. wi_recipient_id x \<noteq> r] \<longleftrightarrow> list_ex is_recovery_wrap ws"
  using assms by (auto simp: list_ex_iff is_recovery_wrap_def)

lemma half_filter: "\<not> list_ex half_recovery ws \<Longrightarrow> \<not> list_ex half_recovery (filter P ws)"
  by (auto simp: list_ex_iff)

lemma file_ok_touch: "file_ok n (f\<lparr>fe_updated_at_ms := t\<rparr>) \<longleftrightarrow> file_ok n f"
  by (simp add: file_ok_def version_finalized_def)

lemma file_ok_wraps:
  assumes "file_ok n f" and "fe_current_version f \<noteq> 0"
    and "map_of (fe_versions f) (fe_current_version f) = Some e"
  shows "list_ex is_recovery_wrap (ve_wraps e)" and "\<not> list_ex half_recovery (ve_wraps e)"
  using assms(1,3) file_ok_current [OF assms(1,2)]
  by (auto simp: has_recovery_def file_ok_def split: if_splits)

lemma files_ok_add_wrap:
  assumes "files_ok n s"
  shows "files_ok n (snd (add_wrap i w c t s))"
proof (cases "add_wrap i w c t s" rule: prod.exhaust)
  case (Pair res s')
  from Pair show ?thesis
  proof (cases rule: add_wrap_cases)
    case refused
    then show ?thesis using Pair assms by simp
  next
    case (shared f e)
    note ok = files_ok_file [OF assms shared(5)]
    have "\<not> half_recovery w" using shared(3,4) by (simp add: half_recovery_def)
    with shared file_ok_wraps [OF ok shared(6,7)] have
      "file_ok n (put_version (fe_current_version f)
        (e\<lparr>ve_wraps := [x \<leftarrow> ve_wraps e. wi_recipient_id x \<noteq> wi_recipient_id w] @ [w]\<rparr>) f)"
      by (intro file_ok_rewrap ok) (simp_all add: recovery_survives_filter half_filter)
    then show ?thesis using assms by (simp add: Pair shared(10) files_ok_put file_ok_touch)
  qed
qed

lemma files_ok_delete_wrap:
  assumes "files_ok n s"
  shows "files_ok n (snd (delete_wrap i r c s))"
proof (cases "delete_wrap i r c s" rule: prod.exhaust)
  case (Pair res s')
  from Pair show ?thesis
  proof (cases rule: delete_wrap_cases)
    case refused
    then show ?thesis using Pair assms by simp
  next
    case (removed f e w)
    note ok = files_ok_file [OF assms removed(3)]
    with removed file_ok_wraps [OF ok removed(4,5)] have
      "file_ok n (put_version (fe_current_version f)
        (e\<lparr>ve_wraps := [x \<leftarrow> ve_wraps e. wi_recipient_id x \<noteq> r]\<rparr>) f)"
      by (intro file_ok_rewrap ok) (simp_all add: recovery_survives_filter half_filter)
    then show ?thesis using assms by (simp add: Pair removed(9) files_ok_put)
  qed
qed

lemma files_ok_discard:
  assumes "files_ok n s"
  shows "files_ok n (snd (discard_unfinalized i c s))"
proof (cases "map_of (in_files s) i")
  case (Some f)
  define ks where "ks = map fst [p \<leftarrow> fe_versions f. \<not> ve_finalized (snd p)]"
  have ok: "file_ok n f" by (rule files_ok_file [OF assms Some])
  then have "v \<notin> set ks" if "version_finalized f v" for v
    using that by (auto simp: ks_def file_ok_def version_finalized_def split: option.splits)
  with ok have "file_ok n (f\<lparr>fe_versions := fold AList.delete ks (fe_versions f)\<rparr>)"
    by (auto simp: file_ok_def version_finalized_def map_of_fold_delete restrict_map_def
        distinct_fold_delete split: if_splits option.splits)
  then show ?thesis using assms by (simp add: discard_unfinalized_def Some Let_def ks_def files_ok_put)
qed (use assms in \<open>simp add: discard_unfinalized_def\<close>)

lemma snd_remove_all: "snd (remove_all ids files) = fold AList.delete ids files"
proof (induction ids arbitrary: files)
  case (Cons i ids)
  have "AList.delete i files = files" if "map_of files i = None"
    using that by (simp add: map_of_eq_None_iff AList.delete_id)
  then show ?case using Cons by (auto split: option.split prod.split) (metis snd_conv)+
qed simp

text \<open>The files a permanent delete removes.\<close>

definition doomed_files :: "bytes \<Rightarrow> bytes \<Rightarrow> file_entry \<Rightarrow> inner \<Rightarrow> bytes list" where
  "doomed_files i c f s = i # (if fe_file_type f = BUNDLE_FILE_TYPE then
     map fst [p \<leftarrow> in_files s. fe_bundle_id (snd p) = Some i \<and> fe_owner_id (snd p) = c] else [])"

lemma delete_file_cases:
  assumes "delete_file i c s = (res, s')"
  obtains (refused) "res = Inl DlNotFound" and "s' = s"
      and "\<forall>f. map_of (in_files s) i = Some f \<longrightarrow> fe_owner_id f \<noteq> c"
  | (deleted) f where "map_of (in_files s) i = Some f" and "fe_owner_id f = c"
      and "res = Inr (fst (remove_all (doomed_files i c f s) (in_files s)))"
      and "s' = s\<lparr>in_files := fold AList.delete (doomed_files i c f s) (in_files s)\<rparr>"
  using assms unfolding delete_file_def doomed_files_def
  by (auto simp: Let_def split_def snd_remove_all simp del: remove_all.simps fold.simps
      split: option.splits if_splits)

lemma files_ok_delete:
  assumes "files_ok n s"
  shows "files_ok n (snd (delete_file i c s))"
proof -
  have "files_ok n (s\<lparr>in_files := fold AList.delete ids (in_files s)\<rparr>)" for ids
    using assms by (simp add: files_ok_def distinct_fold_delete map_of_fold_delete restrict_map_def)
  with assms show ?thesis
    by (cases "delete_file i c s" rule: prod.exhaust) (auto elim: delete_file_cases)
qed

lemma parse_stage_recovery:
  "parse_stage input = Inr p \<Longrightarrow> list_ex is_recovery_wrap (ps_wraps p)"
  by (auto simp: parse_stage_def rbind_eq_Inr map_err_eq_Inr Let_def split: if_splits)

lemma files_ok_next:
  assumes "files_ok n s" and "n < 2 ^ 64 - 1"
  shows "files_ok (Suc n) (store_next sha p s)"
proof (cases p)
  case (Stage input t)
  then show ?thesis
    using assms files_ok_mono [OF assms(1), of "Suc n"]
    by (auto simp: parse_stage_recovery intro!: files_ok_stage split: sum.split)
next
  case (Account q)
  then show ?thesis
    using files_ok_mono [OF assms(1), of "Suc n"] by (simp add: files_ok_def files_account_step)
qed (use assms files_ok_mono [OF assms(1), of "Suc n"] in
    \<open>simp_all add: files_ok_finalize files_ok_add_wrap files_ok_delete_wrap files_ok_discard
      files_ok_delete\<close>)

lemma files_ok_run:
  assumes "length ps < 2 ^ 64"
  shows "files_ok (length ps) (store_run sha ps)"
  using assms
proof (induction ps rule: rev_induct)
  case Nil
  then show ?case by (simp add: store_run_def store_new_def files_ok_def)
next
  case (snoc p ps)
  then show ?case using files_ok_next [of "length ps" "store_run sha ps" sha p]
    by (simp add: store_run_def)
qed

section \<open>A small server\<close>

text \<open>One file, staged and finalized by its owner.\<close>

abbreviation owner0 :: bytes where "owner0 \<equiv> replicate 16 3"
abbreviation file0 :: bytes where "file0 \<equiv> replicate 16 7"

definition parsed0 :: parsed_stage where
  "parsed0 = projr (parse_stage stage0)"

lemma parsed0: "parse_stage stage0 = Inr parsed0"
  using parse_stage0 by (auto simp: parsed0_def)

lemma parse_stage_fields:
  assumes "parse_stage input = Inr p"
    and "decode TYPE_MANIFEST put_manifest get_manifest (si_manifest_bytes input) = Inr m"
  shows "ps_file_id p = si_file_id input \<and> ps_version p = ma_version m \<and>
     ps_author_id p = id_raw (ma_author_id m) \<and> ps_wraps p = si_wraps input \<and>
     parse_genesis input m = Inr (ps_genesis p)"
  using assms unfolding parse_stage_def by (auto simp: rbind_eq_Inr Let_def split: if_splits)

lemma parsed0_simps [simp]:
  "ps_file_id parsed0 = file0" "ps_version parsed0 = 1" "ps_author_id parsed0 = owner0"
  "ps_wraps parsed0 = [self_wrap0, recovery_wrap0]"
  "\<exists>g. ps_genesis parsed0 = Some g \<and> gw_owner_id g = owner0"
proof -
  have m: "decode TYPE_MANIFEST put_manifest get_manifest (si_manifest_bytes stage0) = Inr manifest0"
    by (simp add: stage0_def manifest.decode_encode ok_manifest0)
  from parse_stage_fields [OF parsed0 m] have "ps_file_id parsed0 = si_file_id stage0 \<and> ps_version parsed0 = ma_version manifest0 \<and>
      ps_author_id parsed0 = id_raw (ma_author_id manifest0) \<and> ps_wraps parsed0 = si_wraps stage0 \<and>
      parse_genesis stage0 manifest0 = Inr (ps_genesis parsed0)"
    by simp
  then show "ps_file_id parsed0 = file0" "ps_version parsed0 = 1" "ps_author_id parsed0 = owner0"
    "ps_wraps parsed0 = [self_wrap0, recovery_wrap0]"
    "\<exists>g. ps_genesis parsed0 = Some g \<and> gw_owner_id g = owner0"
    using parse_genesis_Inr [of stage0 manifest0 "ps_genesis parsed0"]
    by (auto simp: stage0_def manifest0_def split: option.splits)
qed

definition requests0 :: "store_op list" where
  "requests0 = [Stage stage0 5, Finalize file0 1 owner0 6]"

definition server0 :: inner where
  "server0 = store_run (\<lambda>x. x) requests0"

lemma self_wrap0_recipient: "wi_recipient_id self_wrap0 = owner0" "wi_recipient_type self_wrap0 = 1"
  "wi_granted_by self_wrap0 = owner0"
  by (simp_all add: self_wrap0_def)

lemma recovery_wrap0_recipient: "wi_recipient_id recovery_wrap0 = id_raw RECOVERY_ID"
  "wi_recipient_type recovery_wrap0 = 2"
  by (simp_all add: recovery_wrap0_def)

lemma owner0_not_recovery [simp]: "owner0 \<noteq> id_raw RECOVERY_ID" "id_raw RECOVERY_ID \<noteq> owner0"
  by (simp_all add: RECOVERY_ID_def)

lemma no_half0: "\<not> list_ex half_recovery [self_wrap0, recovery_wrap0]"
  by (simp add: half_recovery_def self_wrap0_recipient recovery_wrap0_recipient)

lemma server0:
  "\<exists>f e. map_of (in_files server0) file0 = Some f \<and> fe_owner_id f = owner0 \<and>
     fe_current_version f = 1 \<and> map_of (fe_versions f) 1 = Some e \<and> ve_finalized e \<and>
     ve_wraps e = [self_wrap0, recovery_wrap0]"
proof -
  obtain g where g: "ps_genesis parsed0 = Some g" "gw_owner_id g = owner0"
    using parsed0_simps(5) by blast
  have "in_files (snd (stage_version parsed0 5 store_new)) =
      [(file0, \<lparr>fe_owner_id = owner0, fe_file_type = ps_file_type parsed0,
        fe_listed = ps_listed parsed0, fe_bundle_id = ps_bundle_id parsed0, fe_current_version = 0,
        fe_updated_at_ms = 5, fe_genesis_bytes = gw_genesis_bytes g, fe_genesis_sig = gw_genesis_sig g,
        fe_versions = [(1, \<lparr>ve_manifest_bytes = ps_manifest_bytes parsed0,
          ve_manifest_sig = ps_manifest_sig parsed0, ve_finalized = False,
          ve_streams = ps_streams parsed0, ve_wraps = [self_wrap0, recovery_wrap0]\<rparr>)]\<rparr>)]"
    using no_half0 g by (simp add: stage_version_def store_new_def Let_def put_version_def)
  then show ?thesis
    by (simp add: server0_def requests0_def store_run_def parsed0 finalize_version_def Let_def put_version_def)
qed

section \<open>Versions and keys\<close>

text \<open>C23: Versions are committed one strict step at a time and only the current one keeps keys: after any
  sequence of requests the finalized versions of a file are exactly \<open>1\<close> up to its current version, and
  every superseded one has lost its wraps and streams.\<close>

theorem finalized_versions_contiguous:
  assumes "length ps < 2 ^ 64" and "map_of (in_files (store_run sha ps)) i = Some f"
  shows "(version_finalized f v \<longleftrightarrow> 1 \<le> v \<and> v \<le> fe_current_version f) \<and>
     (\<forall>e. map_of (fe_versions f) v = Some e \<longrightarrow> ve_finalized e \<longrightarrow> v \<noteq> fe_current_version f \<longrightarrow>
        ve_wraps e = [] \<and> ve_streams e = [])"
  using files_ok_file [OF files_ok_run [OF assms(1)] assms(2)] by (auto simp: file_ok_def)

theorem finalized_versions_contiguous_witness:
  "\<exists>f. map_of (in_files server0) file0 = Some f \<and> version_finalized f 1 \<and> \<not> version_finalized f 2"
proof -
  obtain f where f: "map_of (in_files server0) file0 = Some f" "fe_current_version f = 1"
    using server0 by blast
  have "length requests0 < 2 ^ 64" by (simp add: requests0_def)
  from finalized_versions_contiguous [OF this f(1) [unfolded server0_def], of 1]
    finalized_versions_contiguous [OF this f(1) [unfolded server0_def], of 2] f
  show ?thesis by (auto simp: word_le_nat_alt)
qed

text \<open>C24: The escrow keeps access: after any sequence of requests by anyone, owner included, the current
  version of every finalized file still has the recovery wrap, both halves of the pair set, and
  whoever can open the file is served a recovery grant.\<close>

theorem escrow_wrap_survives:
  assumes "length ps < 2 ^ 64" and "map_of (in_files (store_run sha ps)) i = Some f"
    and "fe_current_version f \<noteq> 0"
  shows "(\<exists>e. map_of (fe_versions f) (fe_current_version f) = Some e \<and> has_recovery e) \<and>
     (\<forall>c view. get_file i Latest c (store_run sha ps) = Some view \<longrightarrow> fv_recovery_grant view \<noteq> None)"
proof -
  obtain e where e: "map_of (fe_versions f) (fe_current_version f) = Some e" "has_recovery e"
    by (rule file_ok_current [OF files_ok_file [OF files_ok_run [OF assms(1)] assms(2)] assms(3)])
  then have "find (\<lambda>w. wi_recipient_type w = 2) (ve_wraps e) \<noteq> None"
    by (auto simp: has_recovery_def list_ex_iff is_recovery_wrap_def find_None_iff)
  with e assms(2,3) show ?thesis
    by (auto simp: get_file_def Let_def split: option.splits if_splits)
qed

theorem escrow_wrap_survives_witness:
  "\<exists>f e. map_of (in_files server0) file0 = Some f \<and>
     map_of (fe_versions f) (fe_current_version f) = Some e \<and> has_recovery e"
proof -
  obtain f where f: "map_of (in_files server0) file0 = Some f" "fe_current_version f \<noteq> 0"
    using server0 by fastforce
  have "length requests0 < 2 ^ 64" by (simp add: requests0_def)
  from escrow_wrap_survives [OF this f(1) [unfolded server0_def] f(2)] f show ?thesis by blast
qed

section \<open>Readers\<close>

text \<open>The users a file opens for: the abstract access set that the requests manipulate.\<close>

definition readers :: "bytes \<Rightarrow> inner \<Rightarrow> bytes set" where
  "readers i s = {c. get_file i Latest c s \<noteq> None}"

lemma find_wrap_None: "find_wrap c ws = None \<longleftrightarrow> c \<notin> wi_recipient_id ` set ws"
  by (auto simp: find_wrap_def find_None_iff)

lemma find_in_append:
  "find P (xs @ ys) = (case find P xs of None \<Rightarrow> find P ys | Some x \<Rightarrow> Some x)"
  by (induction xs) auto

lemma readers_eq:
  "readers i s = (case map_of (in_files s) i of None \<Rightarrow> {}
     | Some f \<Rightarrow> if fe_current_version f = 0 then {}
         else (case map_of (fe_versions f) (fe_current_version f) of None \<Rightarrow> {}
           | Some e \<Rightarrow> if ve_finalized e then wi_recipient_id ` set (ve_wraps e) else {}))"
  by (auto simp: readers_def get_file_def Let_def wrap_for_def find_wrap_None image_iff split: option.splits)

lemma readers_other:
  "j \<noteq> i \<Longrightarrow> readers j (put_file i f s) = readers j s"
  by (simp add: readers_eq AList.update_conv')

lemma add_wrap_readers:
  assumes "add_wrap i w c t s = (Inr u, s')"
  shows "c \<in> readers i s \<and> wi_granted_by w = c \<and>
      readers i s' = insert (wi_recipient_id w) (readers i s) \<and> (j \<noteq> i \<longrightarrow> readers j s' = readers j s)"
  using assms
proof (cases rule: add_wrap_cases)
  case (shared f e)
  moreover from shared(9) have "c \<in> wi_recipient_id ` set (ve_wraps e)" by auto
  ultimately show ?thesis
    by (auto simp: readers_other) (auto simp: readers_eq AList.update_conv')
qed simp

lemma delete_wrap_readers:
  assumes "delete_wrap i r c s = (Inr u, s')" and "files_ok n s"
  shows "r \<in> readers i s \<and> r \<noteq> id_raw RECOVERY_ID \<and> readers i s' = readers i s - {r} \<and>
      (j \<noteq> i \<longrightarrow> readers j s' = readers j s)"
  using assms(1)
proof (cases rule: delete_wrap_cases)
  case (removed f e w)
  from removed(6) have "r \<in> wi_recipient_id ` set (ve_wraps e)"
    by (metis find_wrap_None option.distinct(1))
  moreover have "ve_finalized e"
    by (rule file_ok_current [OF files_ok_file [OF assms(2) removed(3)] removed(4)])
      (use removed(5) in simp)
  ultimately show ?thesis
    using removed by (auto simp: readers_other) (auto simp: readers_eq AList.update_conv')
qed simp

lemma add_wrap_refused: "add_wrap i w c t s = (Inl e, s') \<Longrightarrow> s' = s"
  by (erule add_wrap_cases) simp_all

lemma delete_wrap_refused: "delete_wrap i r c s = (Inl e, s') \<Longrightarrow> s' = s"
  by (erule delete_wrap_cases) simp_all

text \<open>C25: Sharing implements an access set. In every reachable state a re-share succeeds only for someone
  who can open the file and adds exactly its recipient; a soft-revoke removes exactly a current reader
  other than the escrow; a refused request changes nothing, and no other file's readers move.\<close>

theorem sharing_refines_reader_set:
  assumes "length ps < 2 ^ 64" and "s = store_run sha ps"
  shows "(case add_wrap i w c t s of
        (Inl _, s') \<Rightarrow> s' = s
      | (Inr _, s') \<Rightarrow> c \<in> readers i s \<and> wi_granted_by w = c \<and>
          readers i s' = insert (wi_recipient_id w) (readers i s) \<and> (j = i \<or> readers j s' = readers j s)) \<and>
     (case delete_wrap i r c s of
        (Inl _, s') \<Rightarrow> s' = s
      | (Inr _, s') \<Rightarrow> r \<in> readers i s \<and> r \<noteq> id_raw RECOVERY_ID \<and>
          readers i s' = readers i s - {r} \<and> (j = i \<or> readers j s' = readers j s))"
proof -
  have ok: "files_ok (length ps) s" unfolding assms(2) by (rule files_ok_run [OF assms(1)])
  show ?thesis
    by (auto split: prod.split sum.split dest: add_wrap_refused delete_wrap_refused
        add_wrap_readers delete_wrap_readers [OF _ ok])
qed

definition share0 :: wrap_input where
  "share0 = self_wrap0\<lparr>wi_recipient_id := replicate 16 4\<rparr>"

lemma share0_simps [simp]: "wi_recipient_id share0 = replicate 16 4" "wi_recipient_type share0 = 1"
  "wi_granted_by share0 = owner0"
  by (simp_all add: share0_def self_wrap0_recipient)

lemma readers_server0: "readers file0 server0 = {owner0, id_raw RECOVERY_ID}"
  using server0 by (auto simp: readers_eq self_wrap0_recipient recovery_wrap0_recipient)

lemma is_ok_fst_cases: "is_ok (fst x) \<Longrightarrow> \<exists>v y. x = (Inr v, y)"
  by (cases x; cases "fst x") auto

lemma share0_accepted: "is_ok (fst (add_wrap file0 share0 owner0 9 server0))"
proof -
  obtain f e where f: "map_of (in_files server0) file0 = Some f" "fe_current_version f = 1"
    "map_of (fe_versions f) 1 = Some e" "ve_finalized e" "ve_wraps e = [self_wrap0, recovery_wrap0]"
    using server0 by blast
  show ?thesis
    by (simp add: add_wrap_def f Let_def self_wrap0_recipient RECOVERY_ID_def)
qed

theorem sharing_refines_reader_set_witness:
  "readers file0 (snd (add_wrap file0 share0 owner0 9 server0)) =
     {replicate 16 4, owner0, id_raw RECOVERY_ID}"
proof -
  note share0_accepted
  then obtain u s' where res: "add_wrap file0 share0 owner0 9 server0 = (Inr u, s')"
    using is_ok_fst_cases by blast
  have "length requests0 < 2 ^ 64" by (simp add: requests0_def)
  from sharing_refines_reader_set [OF this server0_def, where i = file0 and w = share0 and c = owner0 and t = 9]
  show ?thesis by (simp add: res readers_server0)
qed

text \<open>Whoever can open a file can take it away from anybody else, its owner included: the re-share
  replaces the victim's wrap and so makes the caller its granter, after which the owner-or-granter gate
  of the soft-revoke lets the caller remove it.\<close>

theorem reader_can_evict_anyone:
  assumes "get_file i Latest c s = Some view" and "victim \<noteq> id_raw RECOVERY_ID"
    and "wi_granted_by w = c" and "wi_recipient_type w = 1" and "wi_recipient_id w = victim"
  shows "case add_wrap i w c t s of (res, s1) \<Rightarrow> (case delete_wrap i victim c s1 of (res', s2) \<Rightarrow>
     res = Inr () \<and> res' = Inr () \<and> get_file i Latest victim s2 = None)"
proof -
  from assms(1) obtain f e where f: "map_of (in_files s) i = Some f" "fe_current_version f \<noteq> 0"
    "map_of (fe_versions f) (fe_current_version f) = Some e" "ve_finalized e" and "wrap_for e c \<noteq> None"
    by (auto simp: get_file_def Let_def split: option.splits if_splits)
  then have holds: "list_ex (\<lambda>w. wi_recipient_id w = c) (ve_wraps e)"
    by (auto simp: wrap_for_def find_wrap_None list_ex_iff)
  define ws where "ws = [x \<leftarrow> ve_wraps e. wi_recipient_id x \<noteq> victim] @ [w]"
  have "find_wrap victim [x \<leftarrow> ve_wraps e. wi_recipient_id x \<noteq> victim] = None"
    by (auto simp: find_wrap_None)
  then have found: "find_wrap victim ws = Some w"
    unfolding ws_def find_wrap_def by (simp add: find_in_append assms(5))
  have gone: "find_wrap victim [x \<leftarrow> ws. wi_recipient_id x \<noteq> victim] = None"
    by (auto simp: find_wrap_None)
  obtain s1 where add: "add_wrap i w c t s = (Inr (), s1)" and s1: "s1 = put_file i
      (put_version (fe_current_version f) (e\<lparr>ve_wraps := ws\<rparr>) f\<lparr>fe_updated_at_ms := t\<rparr>) s"
    using assms f holds by (simp add: add_wrap_def Let_def ws_def)
  have "delete_wrap i victim c s1 = (Inr (), put_file i (put_version (fe_current_version f)
      (e\<lparr>ve_wraps := [x \<leftarrow> ws. wi_recipient_id x \<noteq> victim]\<rparr>)
      (put_version (fe_current_version f) (e\<lparr>ve_wraps := ws\<rparr>) f\<lparr>fe_updated_at_ms := t\<rparr>)) s1)"
    using assms f(2) found by (simp add: delete_wrap_def s1 AList.update_conv' Let_def)
  then show ?thesis
    using gone by (simp add: add s1 get_file_def Let_def AList.update_conv' wrap_for_def)
qed

theorem reader_can_evict_anyone_witness:
  "\<exists>s1 s2. add_wrap file0 (share0\<lparr>wi_recipient_id := owner0, wi_granted_by := replicate 16 4\<rparr>)
       (replicate 16 4) 10 (snd (add_wrap file0 share0 owner0 9 server0)) = (Inr (), s1) \<and>
     delete_wrap file0 owner0 (replicate 16 4) s1 = (Inr (), s2) \<and>
     get_file file0 Latest owner0 s2 = None"
proof -
  let ?s = "snd (add_wrap file0 share0 owner0 9 server0)"
  from share0_accepted obtain u s' where res: "add_wrap file0 share0 owner0 9 server0 = (Inr u, s')"
    using is_ok_fst_cases by blast
  from add_wrap_readers [OF res] have "replicate 16 4 \<in> readers file0 ?s" by (simp add: res)
  then obtain view where "get_file file0 Latest (replicate 16 4) ?s = Some view"
    by (auto simp: readers_def)
  from reader_can_evict_anyone [OF this, of owner0
      "share0\<lparr>wi_recipient_id := owner0, wi_granted_by := replicate 16 4\<rparr>" 10]
  show ?thesis by (auto split: prod.splits)
qed

end
