(* ===== verification/ServerRecords_Serving.thy ===== *)
theory ServerRecords_Serving
  imports ServerRecords_Laws "HOL-Library.Multiset"
begin

text \<open>
  What the server hands out: a committed version is served as it was staged, grant chains are bounded
  walks along the granter edges, every listed file can be opened, and a delete stays within the files of
  its owner. Two requests whose coarse checks fall short are stated as they behave.
\<close>

section \<open>Committing\<close>

text \<open>What is committed is what was staged: finalizing a freshly staged version serves its manifest,
  signature and streams, to exactly the recipients of its wraps, and the version it supersedes is no
  longer served to anyone.\<close>

theorem finalize_serves_staged:
  assumes "stage_version p t s = (Inr v, s1)" and "finalize_version (ps_file_id p) v c t' s1 = (Inr u, s2)"
    and "v \<noteq> 0"
  shows "readers (ps_file_id p) s2 = wi_recipient_id ` set (ps_wraps p) \<and>
     (\<forall>who view. get_file (ps_file_id p) Latest who s2 = Some view \<longrightarrow>
        fv_version view = v \<and> fv_manifest_bytes view = ps_manifest_bytes p \<and>
        fv_manifest_sig view = ps_manifest_sig p \<and>
        fv_streams view = map stream_view_of (ps_streams p)) \<and>
     get_file (ps_file_id p) (SpecificVersion (v - 1)) who' s2 = None"
  using assms(2)
proof (cases rule: finalize_version_cases)
  case (finalized f e)
  define prior where "prior = fe_current_version f"
  define g where "g = finalized_entry v e t' f"
  have v: "v = prior + 1" and "v \<noteq> prior" using finalized(6) by (simp_all add: prior_def)
  from assms(1) obtain f0 where s1: "s1 = put_file (ps_file_id p) f0 s" and
    f0: "map_of (fe_versions f0) v = Some \<lparr>ve_manifest_bytes = ps_manifest_bytes p,
        ve_manifest_sig = ps_manifest_sig p, ve_finalized = False, ve_streams = ps_streams p,
        ve_wraps = ps_wraps p\<rparr>"
    by (cases rule: stage_version_cases) (auto simp: AList.update_conv')
  have "f = f0" using finalized(2) s1 by (simp add: AList.update_conv')
  then have e: "e = \<lparr>ve_manifest_bytes = ps_manifest_bytes p, ve_manifest_sig = ps_manifest_sig p,
      ve_finalized = False, ve_streams = ps_streams p, ve_wraps = ps_wraps p\<rparr>"
    using finalized(4) f0 by simp
  have here: "map_of (fe_versions g) v = Some (e\<lparr>ve_finalized := True\<rparr>)"
    using \<open>v \<noteq> prior\<close> by (auto simp: g_def finalized_entry_def Let_def AList.update_conv' prior_def
        split: option.split)
  have there: "map_of (fe_versions g) prior = Some d \<Longrightarrow> prior \<noteq> 0 \<Longrightarrow> ve_wraps d = []" for d
    using \<open>v \<noteq> prior\<close>
    by (auto simp: g_def finalized_entry_def Let_def AList.update_conv' prior_def one_le_word
        clear_version_def split: option.splits)
  have g: "map_of (in_files s2) (ps_file_id p) = Some g" "fe_current_version g = v"
    using finalized(7) by (auto simp: g_def AList.update_conv' finalized_entry_def Let_def split: option.split)
  have "readers (ps_file_id p) s2 = wi_recipient_id ` set (ps_wraps p)"
    using g here assms(3) by (simp add: readers_eq e)
  moreover have "fv_version view = v \<and> fv_manifest_bytes view = ps_manifest_bytes p \<and>
      fv_manifest_sig view = ps_manifest_sig p \<and> fv_streams view = map stream_view_of (ps_streams p)"
    if "get_file (ps_file_id p) Latest who s2 = Some view" for who view
    using that g here by (auto simp: get_file_def Let_def e split: if_splits option.splits)
  moreover have "get_file (ps_file_id p) (SpecificVersion (v - 1)) who' s2 = None"
    using g there v
    by (auto simp: get_file_def Let_def wrap_for_def find_wrap_def split: option.split)
  ultimately show ?thesis by blast
qed simp

theorem finalize_serves_staged_witness:
  "readers file0 server0 = wi_recipient_id ` set (ps_wraps parsed0)"
proof -
  obtain g where "ps_genesis parsed0 = Some g" using parsed0_simps(5) by blast
  then obtain s1 where s1: "stage_version parsed0 5 store_new = (Inr 1, s1)"
    using no_half0 by (simp add: stage_version_def store_new_def Let_def)
  have s0: "server0 = snd (finalize_version (ps_file_id parsed0) 1 owner0 6 s1)"
    using s1 by (simp add: server0_def requests0_def store_run_def parsed0)
  have "is_ok (fst (finalize_version (ps_file_id parsed0) 1 owner0 6 s1))"
    using s1 \<open>ps_genesis parsed0 = Some g\<close> parsed0_simps(5) no_half0
    by (auto simp: stage_version_def store_new_def Let_def finalize_version_def put_version_def)
  then obtain u s2 where "finalize_version (ps_file_id parsed0) 1 owner0 6 s1 = (Inr u, s2)"
    using is_ok_fst_cases by blast
  from finalize_serves_staged [OF s1 this] s0 this show ?thesis by simp
qed

section \<open>Restaging somebody else's file\<close>

text \<open>The in-memory store does not check the owner when version 1 is staged again: anybody whose
  request passes \<open>parse_stage\<close> replaces the manifest, streams and wraps of another user's file that is not
  finalized yet. The owner stays, so it is the owner's own finalize that publishes the intruder's
  manifest.\<close>

theorem foreign_restage_accepted:
  assumes "map_of (in_files s) (ps_file_id p) = Some f" and "\<not> version_finalized f (ps_version p)"
    and "ps_genesis p = Some g" and "\<not> list_ex half_recovery (ps_wraps p)"
    and "fe_owner_id f \<noteq> ps_author_id p" and "fe_current_version f + 1 = ps_version p" and "ps_version p \<noteq> 0"
  shows "(case stage_version p t s of (res, s1) \<Rightarrow>
     (case finalize_version (ps_file_id p) (ps_version p) (fe_owner_id f) t' s1 of (res', s2) \<Rightarrow>
        res = Inr (ps_version p) \<and> res' = Inr () \<and>
        readers (ps_file_id p) s2 = wi_recipient_id ` set (ps_wraps p) \<and>
        get_file_meta (ps_file_id p) s2 = get_file_meta (ps_file_id p) s))"
proof -
  obtain s1 f1 e1 where s1: "stage_version p t s = (Inr (ps_version p), s1)"
    and f1: "map_of (in_files s1) (ps_file_id p) = Some f1" "fe_owner_id f1 = fe_owner_id f"
      "fe_current_version f1 = fe_current_version f" "fe_file_type f1 = fe_file_type f"
      "fe_listed f1 = fe_listed f" "fe_bundle_id f1 = fe_bundle_id f"
      "map_of (fe_versions f1) (ps_version p) = Some e1" "\<not> ve_finalized e1" "ve_wraps e1 = ps_wraps p"
    using assms by (simp add: stage_version_def Let_def AList.update_conv')
  have fin: "finalize_version (ps_file_id p) (ps_version p) (fe_owner_id f) t' s1 =
      (Inr (), put_file (ps_file_id p) (finalized_entry (ps_version p) e1 t' f1) s1)"
    using f1 assms(6) by (simp add: finalize_version_def finalized_entry_def Let_def split: option.split)
  have "ps_version p \<noteq> fe_current_version f" using assms(6) by auto
  then have "map_of (fe_versions (finalized_entry (ps_version p) e1 t' f1)) (ps_version p) =
      Some (e1\<lparr>ve_finalized := True\<rparr>)"
    using f1 by (auto simp: finalized_entry_def Let_def AList.update_conv' split: option.split)
  moreover have "fe_current_version (finalized_entry (ps_version p) e1 t' f1) = ps_version p"
    "fe_owner_id (finalized_entry (ps_version p) e1 t' f1) = fe_owner_id f"
    "fe_file_type (finalized_entry (ps_version p) e1 t' f1) = fe_file_type f"
    "fe_listed (finalized_entry (ps_version p) e1 t' f1) = fe_listed f"
    "fe_bundle_id (finalized_entry (ps_version p) e1 t' f1) = fe_bundle_id f"
    using f1 by (auto simp: finalized_entry_def Let_def split: option.split)
  ultimately show ?thesis
    using f1 assms by (simp add: s1 fin readers_eq AList.update_conv' get_file_meta_def)
qed

definition intruder0 :: parsed_stage where
  "intruder0 = parsed0\<lparr>ps_author_id := replicate 16 9, ps_genesis := Some \<lparr>gw_owner_id = replicate 16 9,
     gw_owner_key_version = 1, gw_genesis_bytes = [], gw_genesis_sig = []\<rparr>,
     ps_wraps := [self_wrap0\<lparr>wi_recipient_id := replicate 16 9\<rparr>, recovery_wrap0]\<rparr>"

theorem foreign_restage_accepted_witness:
  "case stage_version intruder0 7 (snd (stage_version parsed0 5 store_new)) of (res, s1) \<Rightarrow>
     (case finalize_version file0 1 owner0 8 s1 of (res', s2) \<Rightarrow>
        res = Inr 1 \<and> res' = Inr () \<and> readers file0 s2 = {replicate 16 9, id_raw RECOVERY_ID})"
proof -
  obtain g where g: "ps_genesis parsed0 = Some g" "gw_owner_id g = owner0"
    using parsed0_simps(5) by blast
  let ?s = "snd (stage_version parsed0 5 store_new)"
  obtain f where f: "map_of (in_files ?s) file0 = Some f" "\<not> version_finalized f 1"
    "fe_owner_id f = owner0" "fe_current_version f = 0"
    using no_half0 g
    by (simp add: stage_version_def store_new_def Let_def put_version_def version_finalized_def)
  have i: "ps_file_id intruder0 = file0" "ps_version intruder0 = 1" "ps_author_id intruder0 = replicate 16 9"
    "ps_genesis intruder0 = Some \<lparr>gw_owner_id = replicate 16 9, gw_owner_key_version = 1,
       gw_genesis_bytes = [], gw_genesis_sig = []\<rparr>"
    "wi_recipient_id ` set (ps_wraps intruder0) = {replicate 16 9, id_raw RECOVERY_ID}"
    by (simp_all add: intruder0_def recovery_wrap0_recipient)
  have "\<not> list_ex half_recovery (ps_wraps intruder0)"
    by (simp add: intruder0_def half_recovery_def self_wrap0_recipient recovery_wrap0_recipient RECOVERY_ID_def)
  moreover have "fe_owner_id f \<noteq> replicate 16 9" "fe_current_version f + 1 = 1" "(1 :: u64) \<noteq> 0"
    using f(3,4) by simp_all
  ultimately show ?thesis
    using foreign_restage_accepted [of ?s intruder0 f, unfolded i, OF f(1,2) refl, of 8 7] f(3)
    by (simp add: split_def)
qed

section \<open>Refusals\<close>

lemma stage_refused: "stage_version p t s = (Inl e, s') \<Longrightarrow> s' = s"
  by (erule stage_version_cases) simp_all

lemma finalize_refused: "finalize_version i v c t s = (Inl e, s') \<Longrightarrow> s' = s"
  by (erule finalize_version_cases) simp_all

lemma discard_refused: "discard_unfinalized i c s = (Inl e, s') \<Longrightarrow> s' = s"
  by (auto simp: discard_unfinalized_def Let_def split: option.splits if_splits)

lemma delete_refused: "delete_file i c s = (Inl e, s') \<Longrightarrow> s' = s"
  by (erule delete_file_cases) simp_all

lemmas refused = stage_refused finalize_refused add_wrap_refused delete_wrap_refused discard_refused
  delete_refused

text \<open>Errors are atomic: whichever request is refused, for whatever reason, the store is exactly what
  it was before.\<close>

theorem refusals_change_nothing:
  "(case stage_version p t s of (Inl _, s') \<Rightarrow> s' = s | _ \<Rightarrow> True) \<and>
   (case finalize_version i v c t s of (Inl _, s') \<Rightarrow> s' = s | _ \<Rightarrow> True) \<and>
   (case add_wrap i w c t s of (Inl _, s') \<Rightarrow> s' = s | _ \<Rightarrow> True) \<and>
   (case delete_wrap i r c s of (Inl _, s') \<Rightarrow> s' = s | _ \<Rightarrow> True) \<and>
   (case discard_unfinalized i c s of (Inl _, s') \<Rightarrow> s' = s | _ \<Rightarrow> True) \<and>
   (case delete_file i c s of (Inl _, s') \<Rightarrow> s' = s | _ \<Rightarrow> True)"
  by (auto split: prod.split sum.split dest: refused)

section \<open>Deleting\<close>

text \<open>C26: A delete stays with its owner: it needs the owner of the named file, removes that file and, for
  a bundle, exactly the members the same user owns, and leaves every other file, in particular every
  file of somebody else, untouched.\<close>

theorem delete_stays_with_owner:
  assumes "length ps < 2 ^ 64" and "s = store_run sha ps" and "delete_file i c s = (Inr refs, s')"
  shows "\<exists>target. map_of (in_files s) i = Some target \<and> fe_owner_id target = c \<and>
     (\<forall>j f. map_of (in_files s) j = Some f \<longrightarrow> map_of (in_files s') j =
        (if fe_owner_id f = c \<and> (j = i \<or> fe_file_type target = BUNDLE_FILE_TYPE \<and> fe_bundle_id f = Some i)
         then None else Some f)) \<and>
     (\<forall>j. map_of (in_files s) j = None \<longrightarrow> map_of (in_files s') j = None)"
  using assms(3)
proof (cases rule: delete_file_cases)
  case (deleted f)
  have "distinct (map fst (in_files s))"
    using files_ok_run [OF assms(1), of sha] by (simp add: assms(2) files_ok_def)
  then have member: "(j, g) \<in> set (in_files s) \<longleftrightarrow> map_of (in_files s) j = Some g" for j g by simp
  have "j \<in> set (doomed_files i c f s) \<longleftrightarrow> j = i \<or>
      fe_file_type f = BUNDLE_FILE_TYPE \<and> fe_bundle_id g = Some i \<and> fe_owner_id g = c"
    if "map_of (in_files s) j = Some g" for j g
  proof -
    have "(j, h) \<in> set (in_files s) \<longleftrightarrow> h = g" for h using that by (simp only: member) auto
    then show ?thesis by (auto simp: doomed_files_def image_iff)
  qed
  then show ?thesis
    using deleted by (intro exI [of _ f]) (auto simp: map_of_fold_delete restrict_map_def)
qed simp

theorem delete_stays_with_owner_witness:
  "map_of (in_files (snd (delete_file file0 owner0 server0))) file0 = None"
proof -
  obtain f where f: "map_of (in_files server0) file0 = Some f" "fe_owner_id f = owner0"
    using server0 by blast
  then obtain refs s' where d: "delete_file file0 owner0 server0 = (Inr refs, s')"
    by (simp add: delete_file_def Let_def split_def)
  have "length requests0 < 2 ^ 64" by (simp add: requests0_def)
  from delete_stays_with_owner [OF this server0_def d] f show ?thesis by (auto simp: d)
qed

text \<open>Discarding is not oracle-free: for a file id that is not the caller's, the answer is an error
  exactly when the id is in use by somebody else, and success when it is free.\<close>

theorem discard_reveals_existence:
  "(fst (discard_unfinalized i c s) = Inl DcNotFound \<longleftrightarrow>
      (\<exists>f. map_of (in_files s) i = Some f \<and> fe_owner_id f \<noteq> c)) \<and>
   (map_of (in_files s) i = None \<longleftrightarrow>
      discard_unfinalized i c s = (Inr [], s) \<and> get_file_meta i s = None)"
  by (auto simp: discard_unfinalized_def get_file_meta_def Let_def split: option.splits if_splits)

section \<open>Grant chains\<close>

text \<open>The granters met on the way up from \<open>g\<close>: each is the granter of the previous one's wrap.\<close>

fun granter_path :: "wrap_input list \<Rightarrow> bytes \<Rightarrow> wrap_input list \<Rightarrow> bool" where
  "granter_path wraps g [] \<longleftrightarrow> True"
| "granter_path wraps g (w # ws) \<longleftrightarrow> find_wrap g wraps = Some w \<and> granter_path wraps (wi_granted_by w) ws"

lemma find_wrap_Some: "find_wrap g wraps = Some w \<Longrightarrow> w \<in> set wraps \<and> wi_recipient_id w = g"
  by (auto simp: find_wrap_def find_Some_iff)

text \<open>The loop appends such a path, up to the author, a missing wrap, a granter seen before, or the bound.\<close>

definition end_of :: "bytes \<Rightarrow> wrap_input list \<Rightarrow> bytes" where
  "end_of g ws = (if ws = [] then g else wi_granted_by (last ws))"

lemma end_of_Cons [simp]: "end_of g (w # ws) = end_of (wi_granted_by w) ws"
  by (cases ws) (simp_all add: end_of_def)

lemma end_of_Nil [simp]: "end_of g [] = g"
  by (simp add: end_of_def)

lemma ancestor_loop_path:
  assumes "length out \<le> MAX_ANCESTOR_CHAIN"
  shows "\<exists>path. ancestor_loop wraps author out seen g = out @ map (\<lambda>w. (wi_grant_bytes w, wi_grant_sig w)) path \<and>
     granter_path wraps g path \<and> length out + length path \<le> MAX_ANCESTOR_CHAIN \<and>
     distinct (map wi_recipient_id path) \<and> author \<notin> wi_recipient_id ` set path \<and>
     seen \<inter> wi_recipient_id ` set path = {} \<and>
     (end_of g path = author \<or> length out + length path = MAX_ANCESTOR_CHAIN \<or>
      find_wrap (end_of g path) wraps = None \<or> end_of g path \<in> seen \<union> wi_recipient_id ` set path)"
  using assms
proof (induction wraps author out seen g rule: ancestor_loop.induct)
  case (1 wraps author out seen g)
  show ?case
  proof (cases "g \<noteq> author \<and> length out < MAX_ANCESTOR_CHAIN \<and> g \<notin> seen")
    case False
    then show ?thesis
      using "1.prems" by (intro exI [of _ "[]"]) (auto simp: ancestor_loop.simps [of wraps author out seen g])
  next
    case True
    show ?thesis
    proof (cases "find_wrap g wraps")
      case None
      with True "1.prems" show ?thesis
        by (intro exI [of _ "[]"]) (auto simp: ancestor_loop.simps [of wraps author out seen g])
    next
      case (Some anc)
      from "1.IH" [OF True Some] True obtain path where path:
        "ancestor_loop wraps author (out @ [(wi_grant_bytes anc, wi_grant_sig anc)]) (insert g seen)
          (wi_granted_by anc) = (out @ [(wi_grant_bytes anc, wi_grant_sig anc)]) @
          map (\<lambda>w. (wi_grant_bytes w, wi_grant_sig w)) path"
        "granter_path wraps (wi_granted_by anc) path"
        "length (out @ [(wi_grant_bytes anc, wi_grant_sig anc)]) + length path \<le> MAX_ANCESTOR_CHAIN"
        "distinct (map wi_recipient_id path)" "author \<notin> wi_recipient_id ` set path"
        "insert g seen \<inter> wi_recipient_id ` set path = {}"
        "end_of (wi_granted_by anc) path = author \<or>
         length (out @ [(wi_grant_bytes anc, wi_grant_sig anc)]) + length path = MAX_ANCESTOR_CHAIN \<or>
         find_wrap (end_of (wi_granted_by anc) path) wraps = None \<or>
         end_of (wi_granted_by anc) path \<in> insert g seen \<union> wi_recipient_id ` set path"
        by auto
      have "ancestor_loop wraps author out seen g = out @
          map (\<lambda>w. (wi_grant_bytes w, wi_grant_sig w)) (anc # path)"
        using True Some path(1) by (simp add: ancestor_loop.simps [of wraps author out seen g])
      then show ?thesis
        using Some True path(2-7) find_wrap_Some [OF Some] by (intro exI [of _ "anc # path"]) auto
    qed
  qed
qed

text \<open>The ancestor chain served with a wrap is a bounded walk: the grants of at most 32 distinct
  granters, each the granter of the one before, starting at the wrap's own granter and never the author;
  it stops early only at the author, at a granter without a wrap, or at one already on the path.\<close>

theorem ancestor_chain_bounded_path:
  "\<exists>path. ancestor_chain wraps leaf author = map (\<lambda>w. (wi_grant_bytes w, wi_grant_sig w)) path \<and>
     granter_path wraps (wi_granted_by leaf) path \<and> length path \<le> 32 \<and>
     distinct (map wi_recipient_id path) \<and> author \<notin> wi_recipient_id ` set path \<and>
     (let stop = end_of (wi_granted_by leaf) path in
      stop = author \<or> length path = 32 \<or> find_wrap stop wraps = None \<or>
      stop \<in> wi_recipient_id ` set path)"
  using ancestor_loop_path [of "[]" wraps author "{}" "wi_granted_by leaf"]
  by (simp add: ancestor_chain_def MAX_ANCESTOR_CHAIN_def Let_def)

section \<open>Listing\<close>

lemma mset_insert_by: "mset (insert_by le x xs) = add_mset x (mset xs)"
  by (induction xs) auto

lemma mset_sort_by: "mset (sort_by le xs) = mset xs"
  by (induction xs) (simp_all add: sort_by_def mset_insert_by)

lemma set_insert_by: "set (insert_by le x xs) = insert x (set xs)"
  by (induction xs) auto

lemma sorted_insert_by:
  assumes "\<And>a b. le a b \<or> le b a" and "\<And>a b c. le a b \<Longrightarrow> le b c \<Longrightarrow> le a c" and "sorted_wrt le xs"
  shows "sorted_wrt le (insert_by le x xs)"
  using assms(3)
proof (induction xs)
  case (Cons y ys)
  show ?case
  proof (cases "le x y")
    case True
    then show ?thesis using Cons.prems assms(2) by auto
  next
    case False
    then have "le y x" using assms(1) by blast
    with Cons False show ?thesis by (simp add: set_insert_by)
  qed
qed simp

lemma sorted_sort_by:
  assumes "\<And>a b. le a b \<or> le b a" and "\<And>a b c. le a b \<Longrightarrow> le b c \<Longrightarrow> le a c"
  shows "sorted_wrt le (sort_by le xs)"
  by (induction xs) (simp_all add: sort_by_def sorted_insert_by [OF assms])

lemma sort_le_total: "sort_le m a b \<or> sort_le m b a"
  by (cases m) auto

lemma sort_le_trans: "sort_le m a b \<Longrightarrow> sort_le m b c \<Longrightarrow> sort_le m a c"
  by (cases m) auto

definition listing :: "list_filter \<Rightarrow> inner \<Rightarrow> file_list_entry list" where
  "listing filt s = sort_by (sort_le (lf_sort filt))
     (List.map_filter list_entry [p \<leftarrow> in_files s. listed_for filt (snd p)])"

lemma list_files_window:
  "list_files filt s = \<lparr>fp_entries = take (lf_limit filt) (drop (unat (lf_offset filt)) (listing filt s)),
     fp_total = word_of_nat (length (listing filt s))\<rparr>"
proof -
  have "length (sort_by le xs) = length xs" for le and xs :: "file_list_entry list"
    by (metis mset_sort_by size_mset)
  then show ?thesis by (simp add: list_files_def listing_def Let_def)
qed

lemma listed_has_entry:
  "listed_for filt f \<Longrightarrow> \<exists>e. list_entry (i, f) = Some e \<and> fl_file_id e = i \<and> fl_version e = fe_current_version f"
  by (auto simp: listed_for_def list_entry_def split: option.splits)

lemma listing_ids:
  "map fl_file_id (List.map_filter list_entry [p \<leftarrow> xs. listed_for filt (snd p)]) =
     map fst [p \<leftarrow> xs. listed_for filt (snd p)]"
proof (induction xs)
  case (Cons p xs)
  then show ?case
    using listed_has_entry [of filt "snd p" "fst p"]
    by (cases p) (auto simp: List.map_filter_simps)
qed simp

lemma set_listing: "e \<in> set (listing filt s) \<longleftrightarrow>
    (\<exists>i f. (i, f) \<in> set (in_files s) \<and> listed_for filt f \<and> list_entry (i, f) = Some e)"
proof -
  have "set (sort_by le xs) = set xs" for le and xs :: "file_list_entry list"
    by (metis mset_sort_by set_mset_mset)
  then show ?thesis by (auto simp: listing_def List.map_filter_def image_iff) force+
qed

definition in_filter :: "list_filter \<Rightarrow> file_entry \<Rightarrow> bool" where
  "in_filter filt f \<longleftrightarrow> fe_listed f \<and> (case lf_file_type filt of None \<Rightarrow> True | Some t \<Rightarrow> t = fe_file_type f) \<and>
     (\<not> lf_owner_only filt \<or> fe_owner_id f = lf_caller_id filt)"

lemma list_ex_recipient:
  "list_ex (\<lambda>w. wi_recipient_id w = c) ws \<longleftrightarrow> c \<in> wi_recipient_id ` set ws"
  by (induction ws) auto

lemma listed_iff_reader:
  assumes "files_ok n s" and f: "map_of (in_files s) i = Some f"
  shows "listed_for filt f \<longleftrightarrow> lf_caller_id filt \<in> readers i s \<and> in_filter filt f"
proof (cases "fe_current_version f = 0")
  case False
  obtain e where "map_of (fe_versions f) (fe_current_version f) = Some e" "ve_finalized e"
    by (rule file_ok_current [OF files_ok_file [OF assms(1) f] False])
  with f False show ?thesis
    by (auto simp: listed_for_def in_filter_def readers_eq one_le_word list_ex_recipient)
qed (simp add: listed_for_def readers_eq f)

lemma listing_distinct:
  assumes "distinct (map fst (in_files s))"
  shows "distinct (map fl_file_id (listing filt s))"
proof -
  have "mset (map fl_file_id (listing filt s)) = mset (map fst [p \<leftarrow> in_files s. listed_for filt (snd p)])"
    unfolding listing_def by (metis listing_ids mset_map mset_sort_by)
  moreover have "distinct (map fst [p \<leftarrow> in_files s. listed_for filt (snd p)])"
    using assms by (simp add: distinct_map_filter)
  ultimately show ?thesis by (metis mset_eq_imp_distinct_iff)
qed

lemma listing_members:
  assumes "files_ok n s"
  shows "i \<in> fl_file_id ` set (listing filt s) \<longleftrightarrow>
    lf_caller_id filt \<in> readers i s \<and> (\<exists>f. map_of (in_files s) i = Some f \<and> in_filter filt f)"
proof -
  have "distinct (map fst (in_files s))" using assms by (simp add: files_ok_def)
  then have set: "(j, f) \<in> set (in_files s) \<longleftrightarrow> map_of (in_files s) j = Some f" for j f by simp
  have "i \<in> fl_file_id ` set (listing filt s) \<longleftrightarrow>
      (\<exists>j f e. map_of (in_files s) j = Some f \<and> listed_for filt f \<and> list_entry (j, f) = Some e \<and>
        fl_file_id e = i)"
    unfolding image_iff Bex_def set_listing set by blast
  also have "\<dots> \<longleftrightarrow> (\<exists>f. map_of (in_files s) i = Some f \<and> listed_for filt f)"
    using listed_has_entry by (metis option.inject)
  finally show ?thesis using listed_iff_reader [OF assms] by blast
qed

lemma listing_opens:
  assumes "files_ok n s" and "e \<in> set (listing filt s)"
  shows "\<exists>view. get_file (fl_file_id e) Latest (lf_caller_id filt) s = Some view \<and> fv_version view = fl_version e"
proof -
  have "distinct (map fst (in_files s))" using assms(1) by (simp add: files_ok_def)
  with assms(2) obtain i f where
    f: "map_of (in_files s) i = Some f" "listed_for filt f" "list_entry (i, f) = Some e"
    by (auto simp: set_listing)
  with listed_has_entry [of filt f i] have e: "fl_file_id e = i" "fl_version e = fe_current_version f"
    by auto
  from listed_iff_reader [OF assms(1) f(1)] f(2) obtain view where
    view: "get_file i Latest (lf_caller_id filt) s = Some view" by (auto simp: readers_def)
  then have "fv_version view = fe_current_version f"
    using f(1) by (auto simp: get_file_def Let_def split: option.splits if_splits)
  with view e show ?thesis by simp
qed

text \<open>The listing agrees with what the caller can open. In every reachable state there is one ordered
  list, without duplicates, of exactly the visible files of the filter that open for the caller, with the
  version that opening would serve; every page is its window and \<open>total\<close> is its length, whatever the
  limit and offset.\<close>

theorem listing_agrees_with_access:
  assumes "length ps < 2 ^ 64" and "s = store_run sha ps"
  shows "\<exists>es. sorted_wrt (sort_le (lf_sort filt)) es \<and> distinct (map fl_file_id es) \<and>
     (\<forall>i. i \<in> fl_file_id ` set es \<longleftrightarrow> lf_caller_id filt \<in> readers i s \<and>
        (\<exists>f. map_of (in_files s) i = Some f \<and> in_filter filt f)) \<and>
     (\<forall>e \<in> set es. \<exists>view. get_file (fl_file_id e) Latest (lf_caller_id filt) s = Some view \<and>
        fv_version view = fl_version e) \<and>
     (\<forall>limit offset. list_files (filt\<lparr>lf_limit := limit, lf_offset := offset\<rparr>) s =
        \<lparr>fp_entries = take limit (drop (unat offset) es), fp_total = word_of_nat (length es)\<rparr>)"
proof -
  have ok: "files_ok (length ps) s" unfolding assms(2) by (rule files_ok_run [OF assms(1)])
  have same: "listing (filt\<lparr>lf_limit := limit, lf_offset := offset\<rparr>) s = listing filt s" for limit offset
    by (simp add: listing_def listed_for_def cong: filter_cong option.case_cong)
  have sorted: "sorted_wrt (sort_le (lf_sort filt)) (listing filt s)"
    unfolding listing_def by (rule sorted_sort_by [OF sort_le_total sort_le_trans])
  have "distinct (map fl_file_id (listing filt s))"
    using ok by (intro listing_distinct) (simp add: files_ok_def)
  with sorted listing_members [OF ok] listing_opens [OF ok] same show ?thesis
    by (intro exI [of _ "listing filt s"]) (simp add: list_files_window)
qed

theorem listing_agrees_with_access_witness:
  "\<exists>es. distinct (map fl_file_id es) \<and>
     list_files (for_caller owner0) server0 =
       \<lparr>fp_entries = take 50 es, fp_total = word_of_nat (length es)\<rparr>"
proof -
  have "length requests0 < 2 ^ 64" by (simp add: requests0_def)
  from listing_agrees_with_access [OF this server0_def, of "for_caller owner0"] obtain es where
    es: "distinct (map fl_file_id es)" "\<And>limit offset. list_files ((for_caller owner0)
      \<lparr>lf_limit := limit, lf_offset := offset\<rparr>) server0 =
      \<lparr>fp_entries = take limit (drop (unat offset) es), fp_total = word_of_nat (length es)\<rparr>" by blast
  have "(for_caller owner0)\<lparr>lf_limit := 50, lf_offset := 0\<rparr> = for_caller owner0"
    by (simp add: for_caller_def)
  with es show ?thesis by (metis drop0 unat_0)
qed

end
