(* ===== verification/Aead.thy ===== *)
theory Aead
  imports Structs Signing
begin

text \<open>
  \<^verbatim>\<open>crates/crypto/src/aead.rs\<close>: chunk-framed AES-256-GCM. The cipher is the \<^verbatim>\<open>aes_gcm\<close> package's:
  \<open>gcm_seal key nonce aad message\<close> is its \<open>encrypt\<close> (infallible for these sizes, as the code's \<open>expect\<close>
  relies on) and \<open>gcm_open\<close> its \<open>decrypt\<close>. A \<open>Read\<close> source is the list of what its \<open>read\<close> calls find:
  pieces of data or a failure, and end of input when the list is empty.
\<close>

type_synonym gcm_seal = "bytes \<Rightarrow> bytes \<Rightarrow> bytes \<Rightarrow> bytes \<Rightarrow> bytes"
type_synonym gcm_open = "bytes \<Rightarrow> bytes \<Rightarrow> bytes \<Rightarrow> bytes \<Rightarrow> bytes option"

definition TAG_LEN :: nat where "TAG_LEN = 16"

definition nonce_for :: "u64 \<Rightarrow> bytes" where
  "nonce_for chunk_index = replicate 4 0 @ be_bytes 8 (unat chunk_index)"

definition seal_chunk :: "gcm_seal \<Rightarrow> bytes \<Rightarrow> chunk_aad \<Rightarrow> bytes \<Rightarrow> bytes" where
  "seal_chunk gcm_seal ck aad plaintext =
     gcm_seal ck (nonce_for (ca_chunk_index aad)) (encode TYPE_CHUNK_AAD put_chunk_aad aad) plaintext"

definition open_chunk :: "gcm_open \<Rightarrow> bytes \<Rightarrow> chunk_aad \<Rightarrow> bytes \<Rightarrow> crypto_error + bytes" where
  "open_chunk gcm_open ck aad ciphertext =
     ok_or (gcm_open ck (nonce_for (ca_chunk_index aad)) (encode TYPE_CHUNK_AAD put_chunk_aad aad)
       ciphertext) AeadError"

record sealed_stream =
  ss_chunks :: "bytes list"
  ss_chunk_count :: u64
  ss_digest :: bytes

text \<open>\<open>slice::chunks\<close>, and the last \<open>TAG_LEN\<close> bytes of a chunk (all of a shorter one).\<close>

function slices :: "nat \<Rightarrow> bytes \<Rightarrow> bytes list" where
  "slices n bs = (if bs = [] \<or> n = 0 then [] else take n bs # slices n (drop n bs))"
  by pat_completeness auto
termination by (relation "measure (\<lambda>(_, bs). length bs)") auto

declare slices.simps [simp del]

definition chunk_tag :: "bytes \<Rightarrow> bytes" where
  "chunk_tag ct = drop (length ct - TAG_LEN) ct"

definition stream_digest :: "(bytes \<Rightarrow> bytes) \<Rightarrow> bytes list \<Rightarrow> bytes" where
  "stream_digest sha chunks = sha (concat (map chunk_tag chunks))"

definition chunk_aad_at :: "ident \<Rightarrow> u64 \<Rightarrow> stream_type \<Rightarrow> u64 \<Rightarrow> bool \<Rightarrow> chunk_aad" where
  "chunk_aad_at file_id version stream_type i is_last =
     \<lparr>ca_file_id = file_id, ca_version = version, ca_stream_type = stream_type, ca_chunk_index = i,
      ca_is_last = is_last\<rparr>"

definition stream_frames :: "nat \<Rightarrow> bytes \<Rightarrow> bytes list" where
  "stream_frames chunk_size plaintext =
     (let frames = slices chunk_size plaintext in if frames = [] then [[]] else frames)"

text \<open>\<open>seal_stream\<close>; a zero \<open>chunk_size\<close> panics (\<open>assert!\<close>) and is \<open>None\<close>.\<close>

definition seal_stream :: "(bytes \<Rightarrow> bytes) \<Rightarrow> gcm_seal \<Rightarrow> bytes \<Rightarrow> ident \<Rightarrow> u64 \<Rightarrow> stream_type \<Rightarrow> nat
    \<Rightarrow> bytes \<Rightarrow> sealed_stream option" where
  "seal_stream sha gcm_seal ck file_id version stream_type chunk_size plaintext =
     (if chunk_size = 0 then None
      else
        let frames = stream_frames chunk_size plaintext;
            n = length frames;
            chunks = map (\<lambda>(i, frame). seal_chunk gcm_seal ck
              (chunk_aad_at file_id version stream_type (word_of_nat i) (i = n - 1)) frame)
              (enumerate 0 frames)
        in Some \<lparr>ss_chunks = chunks, ss_chunk_count = word_of_nat n, ss_digest = stream_digest sha chunks\<rparr>)"

text \<open>The loop of \<open>open_stream\<close> over the enumerated chunks, with \<open>out\<close>.\<close>

fun open_loop :: "gcm_open \<Rightarrow> bytes \<Rightarrow> ident \<Rightarrow> u64 \<Rightarrow> stream_type \<Rightarrow> nat \<Rightarrow> (nat \<times> bytes) list \<Rightarrow> bytes
    \<Rightarrow> crypto_error + bytes" where
  "open_loop gcm_open ck file_id version stream_type n [] out = Inr out"
| "open_loop gcm_open ck file_id version stream_type n ((i, ct) # cts) out =
     rbind (open_chunk gcm_open ck
       (chunk_aad_at file_id version stream_type (word_of_nat i) (i = n - 1)) ct) (\<lambda>pt.
     open_loop gcm_open ck file_id version stream_type n cts (out @ pt))"

definition open_stream :: "gcm_open \<Rightarrow> bytes \<Rightarrow> ident \<Rightarrow> u64 \<Rightarrow> stream_type \<Rightarrow> bytes list
    \<Rightarrow> crypto_error + bytes" where
  "open_stream gcm_open ck file_id version stream_type chunks =
     (if chunks = [] then Inl (Framing ''empty stream'')
      else open_loop gcm_open ck file_id version stream_type (length chunks) (enumerate 0 chunks) [])"

section \<open>Streaming\<close>

datatype read_result = RData bytes | RFail

fun read :: "nat \<Rightarrow> read_result list \<Rightarrow> (bytes option) \<times> read_result list" where
  "read want [] = (Some [], [])"
| "read want (RFail # r) = (None, r)"
| "read want (RData p # r) =
     (Some (take want p), if length p \<le> want then r else RData (drop want p) # r)"

function read_upto_loop :: "nat \<Rightarrow> bytes \<Rightarrow> read_result list
    \<Rightarrow> (crypto_error + bytes) \<times> read_result list" where
  "read_upto_loop cap buf r =
     (if length buf < cap then
        (let want = min (cap - length buf) 8192 in
         case read want r of
           (None, r) \<Rightarrow> (Inl (Framing ''stream read''), r)
         | (Some d, r) \<Rightarrow> if d = [] then (Inr buf, r) else read_upto_loop cap (buf @ d) r)
      else (Inr buf, r))"
  by pat_completeness auto
termination
  by (relation "measure (\<lambda>(cap, buf, _). cap - length buf)") (auto simp flip: length_greater_0_conv)

declare read_upto_loop.simps [simp del]

definition read_upto :: "nat \<Rightarrow> read_result list \<Rightarrow> (crypto_error + bytes) \<times> read_result list" where
  "read_upto cap r = read_upto_loop cap [] r"

fun reader_size :: "read_result list \<Rightarrow> nat" where
  "reader_size [] = 0"
| "reader_size (RFail # r) = reader_size r"
| "reader_size (RData p # r) = length p + reader_size r"

lemma read_size: "read want r = (Some d, r') \<Longrightarrow> reader_size r' + length d = reader_size r"
  by (cases "(want, r)" rule: read.cases) (auto split: if_splits)

lemma read_fail_size: "read want r = (None, r') \<Longrightarrow> reader_size r' = reader_size r"
  by (cases "(want, r)" rule: read.cases) (auto split: if_splits)

lemma read_upto_loop_size:
  "read_upto_loop cap buf r = (Inr b, r') \<Longrightarrow> reader_size r' + length b = reader_size r + length buf"
proof (induction cap buf r arbitrary: b r' rule: read_upto_loop.induct)
  case (1 cap buf r)
  show ?case
  proof (cases "length buf < cap")
    case True
    obtain d r1 where rd: "read (min (cap - length buf) 8192) r = (d, r1)" by fastforce
    show ?thesis
    proof (cases "d = None \<or> d = Some []")
      case False
      then obtain x where x: "d = Some x" "x \<noteq> []" by auto
      with "1.prems" True rd have "read_upto_loop cap (buf @ x) r1 = (Inr b, r')"
        by (simp add: read_upto_loop.simps [of cap buf r] Let_def)
      from "1.IH" [OF True refl rd [symmetric] x this] read_size [OF rd [unfolded x]] show ?thesis by simp
    qed (use "1.prems" True rd read_size [of _ r "[]" r1] in
        \<open>auto simp: read_upto_loop.simps [of cap buf r] Let_def\<close>)
  qed (use "1.prems" in \<open>simp add: read_upto_loop.simps [of cap buf r]\<close>)
qed

text \<open>The body of \<open>seal_stream_streaming\<close>: \<open>emit\<close> acts on a state of the caller's, which is returned
  whether or not the seal succeeds.\<close>

function seal_streaming_loop :: "gcm_seal \<Rightarrow> bytes \<Rightarrow> ident \<Rightarrow> u64 \<Rightarrow> stream_type \<Rightarrow> nat
    \<Rightarrow> (u64 \<Rightarrow> bytes \<Rightarrow> 's \<Rightarrow> (crypto_error + unit) \<times> 's) \<Rightarrow> u64 \<Rightarrow> bytes \<Rightarrow> bytes \<Rightarrow> read_result list \<Rightarrow> 's
    \<Rightarrow> (crypto_error + (u64 \<times> bytes)) \<times> 's" where
  "seal_streaming_loop gcm_seal ck file_id version stream_type chunk_size emit index tags cur r s =
     (case (if length cur < chunk_size then (Inr [], r) else read_upto chunk_size r) of
        (Inl e, _) \<Rightarrow> (Inl e, s)
      | (Inr nxt, r) \<Rightarrow>
          let is_last = (nxt = []);
              ct = seal_chunk gcm_seal ck (chunk_aad_at file_id version stream_type index is_last) cur;
              tags = tags @ chunk_tag ct
          in case emit index ct s of
               (Inl e, s) \<Rightarrow> (Inl e, s)
             | (Inr _, s) \<Rightarrow>
                 if is_last then (Inr (index + 1, tags), s)
                 else seal_streaming_loop gcm_seal ck file_id version stream_type chunk_size emit
                   (index + 1) tags nxt r s)"
  by pat_completeness auto
termination
  by (relation "measure (\<lambda>(_, _, _, _, _, _, _, _, _, _, r, _). reader_size r)")
    (auto simp: read_upto_def simp flip: length_greater_0_conv split: if_splits
      dest!: read_upto_loop_size [OF sym])

declare seal_streaming_loop.simps [simp del]

definition seal_stream_streaming :: "(bytes \<Rightarrow> bytes) \<Rightarrow> gcm_seal \<Rightarrow> bytes \<Rightarrow> ident \<Rightarrow> u64 \<Rightarrow> stream_type
    \<Rightarrow> nat \<Rightarrow> read_result list \<Rightarrow> (u64 \<Rightarrow> bytes \<Rightarrow> 's \<Rightarrow> (crypto_error + unit) \<times> 's) \<Rightarrow> 's
    \<Rightarrow> ((crypto_error + (u64 \<times> bytes)) \<times> 's) option" where
  "seal_stream_streaming sha gcm_seal ck file_id version stream_type chunk_size reader emit s =
     (if chunk_size = 0 then None
      else Some (case read_upto chunk_size reader of
          (Inl e, _) \<Rightarrow> (Inl e, s)
        | (Inr cur, r) \<Rightarrow>
            (case seal_streaming_loop gcm_seal ck file_id version stream_type chunk_size emit 0 [] cur r s of
               (Inl e, s) \<Rightarrow> (Inl e, s)
             | (Inr (index, tags), s) \<Rightarrow> (Inr (index, sha tags), s))))"

text \<open>\<open>open_stream_streaming\<close>: \<open>fetch\<close> and \<open>sink\<close> share the caller's state.\<close>

fun open_streaming_loop :: "gcm_open \<Rightarrow> bytes \<Rightarrow> ident \<Rightarrow> u64 \<Rightarrow> stream_type \<Rightarrow> u64
    \<Rightarrow> (u64 \<Rightarrow> 's \<Rightarrow> (crypto_error + bytes) \<times> 's) \<Rightarrow> (bytes \<Rightarrow> 's \<Rightarrow> (crypto_error + unit) \<times> 's)
    \<Rightarrow> u64 list \<Rightarrow> 's \<Rightarrow> (crypto_error + unit) \<times> 's" where
  "open_streaming_loop gcm_open ck file_id version stream_type chunk_count fetch sink [] s = (Inr (), s)"
| "open_streaming_loop gcm_open ck file_id version stream_type chunk_count fetch sink (i # is) s =
     (case fetch i s of
        (Inl e, s) \<Rightarrow> (Inl e, s)
      | (Inr ct, s) \<Rightarrow>
          (case open_chunk gcm_open ck
              (chunk_aad_at file_id version stream_type i (i = chunk_count - 1)) ct of
             Inl e \<Rightarrow> (Inl e, s)
           | Inr pt \<Rightarrow> (case sink pt s of
                 (Inl e, s) \<Rightarrow> (Inl e, s)
               | (Inr _, s) \<Rightarrow>
                   open_streaming_loop gcm_open ck file_id version stream_type chunk_count fetch sink is s)))"

definition open_stream_streaming :: "gcm_open \<Rightarrow> bytes \<Rightarrow> ident \<Rightarrow> u64 \<Rightarrow> stream_type \<Rightarrow> u64
    \<Rightarrow> (u64 \<Rightarrow> 's \<Rightarrow> (crypto_error + bytes) \<times> 's) \<Rightarrow> (bytes \<Rightarrow> 's \<Rightarrow> (crypto_error + unit) \<times> 's)
    \<Rightarrow> 's \<Rightarrow> (crypto_error + unit) \<times> 's" where
  "open_stream_streaming gcm_open ck file_id version stream_type chunk_count fetch sink s =
     (if chunk_count = 0 then (Inl (Framing ''empty stream''), s)
      else open_streaming_loop gcm_open ck file_id version stream_type chunk_count fetch sink
        (map word_of_nat [0..<unat chunk_count]) s)"

text \<open>The one-shot pair: the caller's nonce and associated data.\<close>

definition seal1 :: "gcm_seal \<Rightarrow> bytes \<Rightarrow> bytes \<Rightarrow> bytes \<Rightarrow> bytes \<Rightarrow> bytes" where
  "seal1 gcm_seal key nonce aad plaintext = gcm_seal key nonce aad plaintext"

definition open1 :: "gcm_open \<Rightarrow> bytes \<Rightarrow> bytes \<Rightarrow> bytes \<Rightarrow> bytes \<Rightarrow> crypto_error + bytes" where
  "open1 gcm_open key nonce aad ciphertext = ok_or (gcm_open key nonce aad ciphertext) AeadError"

end
