(* ===== verification/DekWrap.thy ===== *)
theory DekWrap
  imports Aead
begin

text \<open>
  The file key and its wraps: \<^verbatim>\<open>crates/crypto/src/dek.rs\<close>, \<^verbatim>\<open>wrap.rs\<close>, \<^verbatim>\<open>hybrid.rs\<close> and the wrap
  carrier of \<^verbatim>\<open>crates/client-core/src/upload.rs\<close>. The primitives are packages'; a record of functions
  stands for them, with the randomness they draw as an argument. Zeroization has no counterpart.
\<close>

section \<open>Primitives\<close>

text \<open>\<open>sha2\<close>, \<open>hkdf\<close> (32 bytes, empty salt), \<open>aes_gcm\<close>, \<open>ed25519_dalek\<close>, \<open>hpke\<close> base mode over X25519 (the
  three \<open>from_bytes\<close> checks, key generation, single-shot seal and open), \<open>x25519_dalek\<close> and \<open>ml_kem\<close>.\<close>

record primitives =
  pr_sha :: "bytes \<Rightarrow> bytes"
  pr_hkdf :: "bytes \<Rightarrow> bytes \<Rightarrow> bytes"
  pr_gcm_seal :: gcm_seal
  pr_gcm_open :: gcm_open
  pr_vk_valid :: vk_check
  pr_strict :: ed_strict
  pr_ed_sign :: "bytes \<Rightarrow> bytes \<Rightarrow> bytes"
  pr_ed_pub :: "bytes \<Rightarrow> bytes"
  pr_hpke_pub_ok :: "bytes \<Rightarrow> bool"
  pr_hpke_priv_ok :: "bytes \<Rightarrow> bool"
  pr_hpke_enc_ok :: "bytes \<Rightarrow> bool"
  pr_hpke_gen :: "bytes \<Rightarrow> bytes \<times> bytes"
  pr_hpke_seal :: "bytes \<Rightarrow> bytes \<Rightarrow> bytes \<Rightarrow> bytes \<Rightarrow> bytes \<Rightarrow> (bytes \<times> bytes) option"
  pr_hpke_open :: "bytes \<Rightarrow> bytes \<Rightarrow> bytes \<Rightarrow> bytes \<Rightarrow> bytes \<Rightarrow> bytes option"
  pr_x_pub :: "bytes \<Rightarrow> bytes"
  pr_x_dh :: "bytes \<Rightarrow> bytes \<Rightarrow> bytes"
  pr_mlkem_gen :: "bytes \<Rightarrow> bytes \<times> bytes"
  pr_mlkem_pub :: "bytes \<Rightarrow> bytes option"
  pr_mlkem_ek_ok :: "bytes \<Rightarrow> bool"
  pr_mlkem_encaps :: "bytes \<Rightarrow> bytes \<Rightarrow> bytes \<times> bytes"
  pr_mlkem_decaps :: "bytes \<Rightarrow> bytes \<Rightarrow> bytes option"

section \<open>The file key\<close>

definition DEK_COMMIT_INFO :: bytes where "DEK_COMMIT_INFO = str_bytes ''MaxSecu-dek-commit-v1''"

fun stream_info :: "stream_type \<Rightarrow> bytes" where
  "stream_info StContent = str_bytes ''MaxSecu-content-v1''"
| "stream_info StMetadata = str_bytes ''MaxSecu-metadata-v1''"
| "stream_info StThumbnail = str_bytes ''MaxSecu-thumbnail-v1''"
| "stream_info StPreview = str_bytes ''MaxSecu-preview-v1''"

datatype dek = Dek (dek_raw: bytes)

definition dek_from_bytes :: "bytes \<Rightarrow> dek" where "dek_from_bytes b = Dek b"
definition dek_expose :: "dek \<Rightarrow> bytes" where "dek_expose d = dek_raw d"
definition dek_generate :: "bytes \<Rightarrow> dek" where "dek_generate random = Dek random"

definition commit :: "primitives \<Rightarrow> dek \<Rightarrow> bytes" where
  "commit P d = pr_hkdf P (dek_expose d) DEK_COMMIT_INFO"

definition stream_subkey :: "primitives \<Rightarrow> dek \<Rightarrow> stream_type \<Rightarrow> bytes" where
  "stream_subkey P d t = pr_hkdf P (dek_expose d) (stream_info t)"

definition fingerprint :: "primitives \<Rightarrow> bytes \<Rightarrow> bytes \<Rightarrow> bytes" where
  "fingerprint P enc_pub sig_pub = pr_sha P (encode TYPE_FINGERPRINT_INPUT put_fingerprint_input
     \<lparr>fi_enc_pub = Bytes32 enc_pub, fi_sig_pub = Bytes32 sig_pub\<rparr>)"

section \<open>Classical wrap\<close>

record wrapped_dek =
  wd_enc :: bytes
  wd_ct :: bytes

definition ser32 :: "bytes \<Rightarrow> crypto_error + bytes" where
  "ser32 b = (if length b \<noteq> 32 then Inl BadLength else Inr b)"

text \<open>\<open>None\<close> is the panic of an \<open>expect\<close>.\<close>

definition generate_enc_keypair :: "primitives \<Rightarrow> bytes \<Rightarrow> (bytes \<times> bytes) option" where
  "generate_enc_keypair P random =
     (case pr_hpke_gen P random of (sk, pk) \<Rightarrow>
        (case (ser32 sk, ser32 pk) of (Inr skb, Inr pkb) \<Rightarrow> Some (skb, pkb) | _ \<Rightarrow> None))"

definition wrap_dek :: "primitives \<Rightarrow> bytes \<Rightarrow> bytes \<Rightarrow> dek \<Rightarrow> wrap_context \<Rightarrow> crypto_error + wrapped_dek" where
  "wrap_dek P random recipient dek ctx =
     (if \<not> pr_hpke_pub_ok P recipient then Inl BadPublicKey
      else
        let info = encode TYPE_WRAP_CONTEXT put_wrap_context ctx in
        rbind (ok_or (pr_hpke_seal P random recipient info (dek_expose dek) []) WrapOpen) (\<lambda>(encapped, ct).
        rbind (ser32 encapped) (\<lambda>enc.
        Inr \<lparr>wd_enc = enc, wd_ct = ct\<rparr>)))"

definition unwrap_dek :: "primitives \<Rightarrow> bytes \<Rightarrow> wrapped_dek \<Rightarrow> wrap_context \<Rightarrow> crypto_error + dek" where
  "unwrap_dek P recipient wrapped ctx =
     (if \<not> pr_hpke_priv_ok P recipient then Inl BadPublicKey
      else if \<not> pr_hpke_enc_ok P (wd_enc wrapped) then Inl WrapOpen
      else
        let info = encode TYPE_WRAP_CONTEXT put_wrap_context ctx in
        rbind (ok_or (pr_hpke_open P recipient (wd_enc wrapped) info (wd_ct wrapped) []) WrapOpen) (\<lambda>pt.
        if length pt \<noteq> 32 then Inl BadLength else Inr (dek_from_bytes pt)))"

section \<open>Hybrid wrap\<close>

definition HYBRID_WRAP_LABEL :: bytes where "HYBRID_WRAP_LABEL = str_bytes ''MaxSecu-hybrid-wrap-v2''"
definition X25519_LEN :: nat where "X25519_LEN = 32"
definition DEK_LEN :: nat where "DEK_LEN = 32"
definition ZERO_NONCE :: bytes where "ZERO_NONCE = replicate 12 0"
definition MLKEM_CT_LEN :: nat where "MLKEM_CT_LEN = 1088"
definition AEAD_CT_LEN :: nat where "AEAD_CT_LEN = 48"
definition HYBRID_WRAP_LEN :: nat where "HYBRID_WRAP_LEN = X25519_LEN + MLKEM_CT_LEN + AEAD_CT_LEN"

record hybrid_public =
  hp_x25519 :: bytes
  hp_mlkem :: bytes

record hybrid_secret =
  hs_x25519 :: bytes
  hs_mlkem_seed :: bytes

record hybrid_wrapped =
  hw_eph_x_pub :: bytes
  hw_ct_pq :: bytes
  hw_aead_ct :: bytes

definition from_components :: "bytes \<Rightarrow> bytes \<Rightarrow> hybrid_secret" where
  "from_components x25519 mlkem_seed = \<lparr>hs_x25519 = x25519, hs_mlkem_seed = mlkem_seed\<rparr>"

definition mlkem_public_from_seed :: "primitives \<Rightarrow> bytes \<Rightarrow> crypto_error + bytes" where
  "mlkem_public_from_seed P seed = ok_or (pr_mlkem_pub P seed) BadPublicKey"

definition generate_hybrid_keypair :: "primitives \<Rightarrow> bytes \<Rightarrow> bytes \<Rightarrow> hybrid_secret \<times> hybrid_public" where
  "generate_hybrid_keypair P x_sec random =
     (let x_pub = pr_x_pub P x_sec;
          (mlkem_seed, mlkem_pub) = pr_mlkem_gen P random
      in (\<lparr>hs_x25519 = x_sec, hs_mlkem_seed = mlkem_seed\<rparr>, \<lparr>hp_x25519 = x_pub, hp_mlkem = mlkem_pub\<rparr>))"

definition derive_kek :: "primitives \<Rightarrow> bytes \<Rightarrow> bytes \<Rightarrow> wrap_context \<Rightarrow> bytes \<Rightarrow> bytes \<Rightarrow> bytes" where
  "derive_kek P ss1 ss2 ctx eph_x_pub ct_pq =
     (let ikm = ss1 @ ss2;
          ctx_enc = encode TYPE_WRAP_CONTEXT put_wrap_context ctx;
          info = HYBRID_WRAP_LABEL @ ctx_enc @ eph_x_pub @ ct_pq
      in pr_hkdf P ikm info)"

text \<open>\<open>eph\<close> is the fresh X25519 secret, \<open>random\<close> what the encapsulation draws.\<close>

definition wrap_dek_hybrid :: "primitives \<Rightarrow> bytes \<Rightarrow> bytes \<Rightarrow> hybrid_public \<Rightarrow> dek \<Rightarrow> wrap_context
    \<Rightarrow> crypto_error + hybrid_wrapped" where
  "wrap_dek_hybrid P eph random recipient dek ctx =
     (let eph_x_pub = pr_x_pub P eph;
          ss1 = pr_x_dh P eph (hp_x25519 recipient)
      in if \<not> pr_mlkem_ek_ok P (hp_mlkem recipient) then Inl BadPublicKey
         else
           let (ct_pq, ss2) = pr_mlkem_encaps P (hp_mlkem recipient) random;
               kek = derive_kek P ss1 ss2 ctx eph_x_pub ct_pq;
               aead_ct = seal1 (pr_gcm_seal P) kek ZERO_NONCE [] (dek_expose dek)
           in Inr \<lparr>hw_eph_x_pub = eph_x_pub, hw_ct_pq = ct_pq, hw_aead_ct = aead_ct\<rparr>)"

text \<open>\<open>pr_mlkem_decaps\<close> is the key reconstruction from the seed and \<open>decapsulate_slice\<close>; both failures map to
  \<open>WrapOpen\<close>.\<close>

definition unwrap_dek_hybrid :: "primitives \<Rightarrow> hybrid_secret \<Rightarrow> hybrid_wrapped \<Rightarrow> wrap_context
    \<Rightarrow> crypto_error + dek" where
  "unwrap_dek_hybrid P recipient wrapped ctx =
     (if length (hw_ct_pq wrapped) \<noteq> MLKEM_CT_LEN \<or> length (hw_aead_ct wrapped) \<noteq> AEAD_CT_LEN
      then Inl WrapOpen
      else
        let ss1 = pr_x_dh P (hs_x25519 recipient) (hw_eph_x_pub wrapped) in
        rbind (ok_or (pr_mlkem_decaps P (hs_mlkem_seed recipient) (hw_ct_pq wrapped)) WrapOpen) (\<lambda>ss2.
        let kek = derive_kek P ss1 ss2 ctx (hw_eph_x_pub wrapped) (hw_ct_pq wrapped) in
        rbind (map_err (\<lambda>_. WrapOpen) (open1 (pr_gcm_open P) kek ZERO_NONCE [] (hw_aead_ct wrapped))) (\<lambda>pt.
        if length pt \<noteq> DEK_LEN then Inl WrapOpen else Inr (dek_from_bytes pt))))"

definition serialize_hybrid_wrap :: "hybrid_wrapped \<Rightarrow> bytes" where
  "serialize_hybrid_wrap w = hw_eph_x_pub w @ hw_ct_pq w @ hw_aead_ct w"

definition deserialize_hybrid_wrap :: "bytes \<Rightarrow> crypto_error + hybrid_wrapped" where
  "deserialize_hybrid_wrap b =
     (if length b \<noteq> HYBRID_WRAP_LEN then Inl BadLength
      else Inr \<lparr>hw_eph_x_pub = take X25519_LEN b,
        hw_ct_pq = take MLKEM_CT_LEN (drop X25519_LEN b),
        hw_aead_ct = drop (X25519_LEN + MLKEM_CT_LEN) b\<rparr>)"

section \<open>The carrier\<close>

definition pack_hybrid_wrap :: "hybrid_wrapped \<Rightarrow> wrapped_dek" where
  "pack_hybrid_wrap h =
     (let bytes = serialize_hybrid_wrap h in \<lparr>wd_enc = take 32 bytes, wd_ct = drop 32 bytes\<rparr>)"

definition unpack_hybrid_wrap :: "wrapped_dek \<Rightarrow> crypto_error + hybrid_wrapped" where
  "unpack_hybrid_wrap w = deserialize_hybrid_wrap (wd_enc w @ wd_ct w)"

section \<open>Wire form and carrier are inverse\<close>

definition ok_hybrid :: "hybrid_wrapped \<Rightarrow> bool" where
  "ok_hybrid h \<longleftrightarrow> length (hw_eph_x_pub h) = X25519_LEN \<and> length (hw_ct_pq h) = MLKEM_CT_LEN \<and>
     length (hw_aead_ct h) = AEAD_CT_LEN"

lemmas hybrid_lengths = X25519_LEN_def MLKEM_CT_LEN_def AEAD_CT_LEN_def HYBRID_WRAP_LEN_def

lemma deserialize_serialize [simp]:
  "ok_hybrid h \<Longrightarrow> deserialize_hybrid_wrap (serialize_hybrid_wrap h) = Inr h"
  by (simp add: deserialize_hybrid_wrap_def serialize_hybrid_wrap_def ok_hybrid_def HYBRID_WRAP_LEN_def)

lemma split_three: "take m b @ take n (drop m b) @ drop (m + n) b = b"
  by (metis add.commute append_take_drop_id drop_drop)

lemma deserialize_eq_Inr:
  "deserialize_hybrid_wrap b = Inr h \<longleftrightarrow> ok_hybrid h \<and> b = serialize_hybrid_wrap h"
proof
  assume h: "deserialize_hybrid_wrap b = Inr h"
  then have "b = serialize_hybrid_wrap h"
    using split_three [of X25519_LEN b MLKEM_CT_LEN]
    by (auto simp: deserialize_hybrid_wrap_def serialize_hybrid_wrap_def split: if_splits)
  moreover from h have "ok_hybrid h"
    by (auto simp: deserialize_hybrid_wrap_def ok_hybrid_def hybrid_lengths split: if_splits)
  ultimately show "ok_hybrid h \<and> b = serialize_hybrid_wrap h" by blast
qed simp

lemma unpack_pack [simp]: "unpack_hybrid_wrap (pack_hybrid_wrap h) = deserialize_hybrid_wrap (serialize_hybrid_wrap h)"
  by (simp add: unpack_hybrid_wrap_def pack_hybrid_wrap_def Let_def)

end
