(* ===== verification/Download.thy ===== *)
theory Download
  imports DekWrap Revocation
begin

text \<open>
  \<^verbatim>\<open>crates/client-core/src/download.rs\<close> with its limits and errors: the verification ladder a client runs
  over what a server returns for one file version, and the four ways to open a verified file (whole
  buffer, streamed, small streams only, random access). \<open>ok_or\<close>, \<open>map_err\<close> and \<open>?\<close> are those of the
  prelude; signatures are byte strings of the length the transport fixes.
\<close>

section \<open>Limits and errors\<close>

definition CHUNK_SIZE_MIN :: u32 where "CHUNK_SIZE_MIN = 4 * 1024"
definition CHUNK_SIZE_MAX :: u32 where "CHUNK_SIZE_MAX = 8 * 1024 * 1024"
definition MAX_ADDRESSABLE_BYTES :: u64 where "MAX_ADDRESSABLE_BYTES = 256 * 1024 * 1024 * 1024"
definition FIRST_CONTACT_VERSION_CEILING :: u64 where "FIRST_CONTACT_VERSION_CEILING = 1000000"
definition MAX_GRANT_CHAIN_DEPTH :: nat where "MAX_GRANT_CHAIN_DEPTH = 32"

text \<open>The source's error type. \<open>ArithmeticPanic\<close> is not one of its constructors: it is the panic of a
  \<open>u64\<close> operation that overflows (\<^verbatim>\<open>overflow-checks = true\<close> in every profile), which ends the call.\<close>

datatype download_error = BadManifest | BadGenesis | BadGrant | ManifestSignature | GenesisSignature
  | GrantSignature | AuthorNotOwner | FileIdMismatch | VersionRollback u64 u64 | VersionTooHigh u64 u64
  | FirstContactCeiling u64 | VersionForked u64 | GrantMismatch string | GrantChainBroken
  | GrantChainTooDeep | GrantChainCycle | GranterKeyUnknown | DekUnwrap | PqKeyMissing
  | DownloadDekCommitMismatch | StreamMissing stream_type | StreamFraming stream_type
  | StreamDigestMismatch stream_type | FramingBoundsExceeded string | CompressionUnsupported
  | AuthorRevoked | RecipientRevoked | GenesisAfterCompromise
  | ArithmeticPanic

section \<open>What a server returns and what the caller resolved\<close>

record stream_chunks =
  sc_stream_type :: stream_type
  sc_chunks :: "bytes list"

record download_bundle =
  db_manifest_bytes :: bytes
  db_manifest_sig :: bytes
  db_genesis_bytes :: bytes
  db_genesis_sig :: bytes
  db_wrapped_dek :: wrapped_dek
  db_grant_bytes :: bytes
  db_grant_sig :: bytes
  db_ancestor_grants :: "(bytes \<times> bytes) list"
  db_recovery_grant_bytes :: bytes
  db_recovery_grant_sig :: bytes
  db_streams :: "stream_chunks list"

record compromise_check =
  cc_genesis_sink_pos :: "u64 option"
  cc_cutoff :: "ident \<Rightarrow> u64 \<Rightarrow> u64 option"

record verify_context =
  vx_file_id :: ident
  vx_author_sig_pub :: bytes
  vx_owner_sig_pub :: bytes
  vx_recipient_id :: ident
  vx_recipient_type :: recipient_type
  vx_recipient_secret :: bytes
  vx_recipient_mlkem_seed :: "bytes option"
  vx_seen_max_version :: "u64 option"
  vx_granter_sig_pub :: "ident \<Rightarrow> bytes option"
  vx_admin_sig_pub :: "ident \<Rightarrow> bytes option"
  vx_tombstones :: "tombstone_set option"
  vx_compromise :: "compromise_check option"

definition no_granters :: "ident \<Rightarrow> bytes option" where "no_granters i = None"

record opened_stream =
  os_stream_type :: stream_type
  os_plaintext :: bytes

record opened_file =
  of_version :: u64
  of_file_type :: file_type
  of_content_digest :: bytes
  of_recovery_grant_ok :: bool
  of_streams :: "opened_stream list"

section \<open>The header ladder\<close>

definition version_acceptable :: "u64 \<Rightarrow> u64 option \<Rightarrow> download_error + unit" where
  "version_acceptable served seen_max =
     (case seen_max of
        None \<Rightarrow> if served > FIRST_CONTACT_VERSION_CEILING then Inl (FirstContactCeiling served) else Inr ()
      | Some seen \<Rightarrow>
          if served < seen then Inl (VersionRollback seen served)
          else (case checked_add seen 1 of
              None \<Rightarrow> Inl ArithmeticPanic
            | Some upper \<Rightarrow> if served > upper then Inl (VersionTooHigh seen served) else Inr ()))"

definition verify :: "primitives \<Rightarrow> bytes \<Rightarrow> string \<Rightarrow> u16 \<Rightarrow> ('a \<Rightarrow> writer \<Rightarrow> writer) \<Rightarrow> 'a \<Rightarrow> bytes \<Rightarrow> bool" where
  "verify P pubkey label tid put v sig = is_ok (rbind (vk_from_bytes (pr_vk_valid P) pubkey) (\<lambda>vk.
     verify_canonical (pr_strict P) vk label tid put v sig))"

definition check_grant_fields :: "grant \<Rightarrow> manifest \<Rightarrow> verify_context \<Rightarrow> download_error + unit" where
  "check_grant_fields g m ctx =
     (if gr_file_id g \<noteq> vx_file_id ctx then Inl (GrantMismatch ''file_id'')
      else if gr_file_version g \<noteq> ma_version m then Inl (GrantMismatch ''file_version'')
      else if gr_recipient_id g \<noteq> vx_recipient_id ctx then Inl (GrantMismatch ''recipient_id'')
      else if gr_recipient_type g \<noteq> vx_recipient_type ctx then Inl (GrantMismatch ''recipient_type'')
      else if gr_dek_commit g \<noteq> ma_dek_commit m then Inl (GrantMismatch ''dek_commit'')
      else Inr ())"

definition check_ancestor_fields :: "grant \<Rightarrow> ident \<Rightarrow> u64 \<Rightarrow> bytes32 \<Rightarrow> download_error + unit" where
  "check_ancestor_fields g file_id version dek_commit =
     (if gr_file_id g \<noteq> file_id then Inl (GrantMismatch ''ancestor file_id'')
      else if gr_file_version g \<noteq> version then Inl (GrantMismatch ''ancestor file_version'')
      else if gr_dek_commit g \<noteq> dek_commit then Inl (GrantMismatch ''ancestor dek_commit'')
      else if gr_recipient_type g \<noteq> RtUser then Inl (GrantMismatch ''ancestor recipient_type'')
      else Inr ())"

definition decode_grant :: "bytes \<Rightarrow> decode_error + grant" where
  "decode_grant bs = decode TYPE_GRANT put_grant get_grant bs"

text \<open>The two loops of \<open>verify_grant_chain\<close>: the index of the ancestors by recipient (a later one
  replaces an earlier one), and the walk. The \<open>contains_key\<close> test and the later \<open>get\<close> are one lookup.\<close>

fun index_ancestors :: "(bytes \<times> bytes) list \<Rightarrow> ident \<Rightarrow> u64 \<Rightarrow> bytes32
    \<Rightarrow> (ident \<rightharpoonup> grant \<times> bytes) \<Rightarrow> download_error + (ident \<rightharpoonup> grant \<times> bytes)" where
  "index_ancestors [] file_id version dek_commit by_recipient = Inr by_recipient"
| "index_ancestors ((bytes, sig) # rest) file_id version dek_commit by_recipient =
     rbind (map_err (\<lambda>_. BadGrant) (decode_grant bytes)) (\<lambda>g.
     rbind (check_ancestor_fields g file_id version dek_commit) (\<lambda>_.
     index_ancestors rest file_id version dek_commit (by_recipient(gr_recipient_id g \<mapsto> (g, sig)))))"

function chain_walk :: "primitives \<Rightarrow> ident \<Rightarrow> bytes \<Rightarrow> (ident \<Rightarrow> bytes option)
    \<Rightarrow> (ident \<Rightarrow> bytes option) option \<Rightarrow> (ident \<rightharpoonup> grant \<times> bytes) \<Rightarrow> ident set \<Rightarrow> grant \<Rightarrow> bytes \<Rightarrow> nat
    \<Rightarrow> download_error + unit" where
  "chain_walk P author_id author_sig_pub granter_sig_pub admin_sig_pub by_recipient visited current
       current_sig depth =
     (let granter = gr_granted_by current in
      if granter = author_id then
        (if \<not> verify P author_sig_pub L_GRANT TYPE_GRANT put_grant current current_sig
         then Inl GrantSignature else Inr ())
      else case by_recipient granter of
        None \<Rightarrow>
          (case Option.bind admin_sig_pub (\<lambda>admin_res. admin_res granter) of
             Some admin_pub \<Rightarrow>
               if \<not> verify P admin_pub L_GRANT TYPE_GRANT put_grant current current_sig
               then Inl GrantSignature else Inr ()
           | None \<Rightarrow> Inl GrantChainBroken)
      | Some (nxt, nxt_sig) \<Rightarrow>
          if MAX_GRANT_CHAIN_DEPTH \<le> depth then Inl GrantChainTooDeep
          else rbind (ok_or (granter_sig_pub granter) GranterKeyUnknown) (\<lambda>granter_pub.
            if \<not> verify P granter_pub L_GRANT TYPE_GRANT put_grant current current_sig
            then Inl GrantSignature
            else if granter \<in> visited then Inl GrantChainCycle
            else chain_walk P author_id author_sig_pub granter_sig_pub admin_sig_pub by_recipient
              (insert granter visited) nxt nxt_sig (depth + 1)))"
  by pat_completeness auto
termination
  by (relation "measure (\<lambda>(_, _, _, _, _, _, _, _, _, depth). MAX_GRANT_CHAIN_DEPTH - depth)") auto

declare chain_walk.simps [simp del]

definition verify_grant_chain :: "primitives \<Rightarrow> grant \<Rightarrow> bytes \<Rightarrow> (bytes \<times> bytes) list \<Rightarrow> ident \<Rightarrow> u64
    \<Rightarrow> bytes32 \<Rightarrow> ident \<Rightarrow> bytes \<Rightarrow> (ident \<Rightarrow> bytes option) \<Rightarrow> (ident \<Rightarrow> bytes option) option
    \<Rightarrow> download_error + unit" where
  "verify_grant_chain P leaf leaf_sig ancestors file_id version dek_commit author_id author_sig_pub
       granter_sig_pub admin_sig_pub =
     rbind (index_ancestors ancestors file_id version dek_commit Map.empty) (\<lambda>by_recipient.
     chain_walk P author_id author_sig_pub granter_sig_pub admin_sig_pub by_recipient {} leaf leaf_sig 0)"

definition recovery_grant_valid :: "primitives \<Rightarrow> bytes \<Rightarrow> bytes \<Rightarrow> manifest \<Rightarrow> bytes \<Rightarrow> ident \<Rightarrow> bool" where
  "recovery_grant_valid P recovery_grant_bytes recovery_grant_sig m author_pub owner_id =
     (case decode_grant recovery_grant_bytes of
        Inl _ \<Rightarrow> False
      | Inr g \<Rightarrow>
          verify P author_pub L_GRANT TYPE_GRANT put_grant g recovery_grant_sig \<and>
          gr_recipient_type g = RtRecovery \<and> gr_recipient_id g = RECOVERY_ID \<and>
          gr_file_id g = ma_file_id m \<and> gr_file_version g = ma_version m \<and>
          gr_dek_commit g = ma_dek_commit m \<and> gr_granted_by g = owner_id)"

text \<open>Steps (1) to (7); the unwrap of step (7) is \<open>unwrap_for\<close>.\<close>

definition unwrap_for :: "primitives \<Rightarrow> verify_context \<Rightarrow> manifest \<Rightarrow> wrapped_dek \<Rightarrow> download_error + dek" where
  "unwrap_for P ctx manifest wrapped_dek =
     (let wrap_ctx = \<lparr>wc_file_id = vx_file_id ctx, wc_version = ma_version manifest,
        wc_recipient_id = vx_recipient_id ctx\<rparr>
      in case ma_alg manifest of
        SuiteV1 \<Rightarrow> map_err (\<lambda>_. DekUnwrap) (unwrap_dek P (vx_recipient_secret ctx) wrapped_dek wrap_ctx)
      | SuiteV2 \<Rightarrow>
          rbind (ok_or (vx_recipient_mlkem_seed ctx) PqKeyMissing) (\<lambda>seed.
          rbind (map_err (\<lambda>_. DekUnwrap) (unpack_hybrid_wrap wrapped_dek)) (\<lambda>hybrid.
          let hsk = from_components (vx_recipient_secret ctx) seed in
          map_err (\<lambda>_. DekUnwrap) (unwrap_dek_hybrid P hsk hybrid wrap_ctx))))"

definition genesis_after_compromise :: "verify_context \<Rightarrow> genesis \<Rightarrow> bool" where
  "genesis_after_compromise ctx genesis =
     (case vx_compromise ctx of
        None \<Rightarrow> False
      | Some chk \<Rightarrow> (case cc_cutoff chk (ge_owner_id genesis) (ge_owner_key_version genesis) of
            None \<Rightarrow> False
          | Some cutoff_pos \<Rightarrow>
              let predates = (case cc_genesis_sink_pos chk of None \<Rightarrow> False | Some g \<Rightarrow> g < cutoff_pos)
              in \<not> predates))"

definition check_tombstones :: "verify_context \<Rightarrow> manifest \<Rightarrow> download_error + unit" where
  "check_tombstones ctx manifest =
     (case vx_tombstones ctx of
        None \<Rightarrow> Inr ()
      | Some ts \<Rightarrow>
          if is_account_revoked ts (id_raw (ma_author_id manifest)) then Inl AuthorRevoked
          else if is_revoked ts (id_raw (vx_recipient_id ctx)) (id_raw (vx_file_id ctx)) (ma_version manifest)
          then Inl RecipientRevoked else Inr ())"

definition verify_header :: "primitives \<Rightarrow> verify_context \<Rightarrow> bytes \<Rightarrow> bytes \<Rightarrow> bytes \<Rightarrow> bytes \<Rightarrow> bytes
    \<Rightarrow> bytes \<Rightarrow> (bytes \<times> bytes) list \<Rightarrow> bytes \<Rightarrow> bytes \<Rightarrow> wrapped_dek
    \<Rightarrow> download_error + (manifest \<times> dek \<times> bool)" where
  "verify_header P ctx manifest_bytes manifest_sig genesis_bytes genesis_sig grant_bytes grant_sig
       ancestor_grants recovery_grant_bytes recovery_grant_sig wrapped_dek =
     rbind (map_err (\<lambda>_. BadManifest) (decode TYPE_MANIFEST put_manifest get_manifest manifest_bytes)) (\<lambda>manifest.
     if ma_file_id manifest \<noteq> vx_file_id ctx then Inl FileIdMismatch
     else if ma_chunk_size manifest < CHUNK_SIZE_MIN \<or> ma_chunk_size manifest > CHUNK_SIZE_MAX
     then Inl (FramingBoundsExceeded ''chunk_size out of range'')
     else if \<not> verify P (vx_author_sig_pub ctx) L_MANIFEST TYPE_MANIFEST put_manifest manifest manifest_sig
     then Inl ManifestSignature
     else rbind (map_err (\<lambda>_. BadGenesis) (decode TYPE_GENESIS put_genesis get_genesis genesis_bytes)) (\<lambda>genesis.
     if ge_file_id genesis \<noteq> vx_file_id ctx then Inl FileIdMismatch
     else if \<not> verify P (vx_owner_sig_pub ctx) L_GENESIS TYPE_GENESIS put_genesis genesis genesis_sig
     then Inl GenesisSignature
     else if genesis_after_compromise ctx genesis then Inl GenesisAfterCompromise
     else if ma_author_id manifest \<noteq> ge_owner_id genesis then Inl AuthorNotOwner
     else rbind (check_tombstones ctx manifest) (\<lambda>_.
     rbind (version_acceptable (ma_version manifest) (vx_seen_max_version ctx)) (\<lambda>_.
     rbind (map_err (\<lambda>_. BadGrant) (decode_grant grant_bytes)) (\<lambda>grant.
     rbind (check_grant_fields grant manifest ctx) (\<lambda>_.
     rbind (verify_grant_chain P grant grant_sig ancestor_grants (ma_file_id manifest)
       (ma_version manifest) (ma_dek_commit manifest) (ma_author_id manifest) (vx_author_sig_pub ctx)
       (vx_granter_sig_pub ctx) (Some (vx_admin_sig_pub ctx))) (\<lambda>_.
     let recovery_grant_ok = recovery_grant_valid P recovery_grant_bytes recovery_grant_sig manifest
       (vx_author_sig_pub ctx) (ge_owner_id genesis) in
     rbind (unwrap_for P ctx manifest wrapped_dek) (\<lambda>dek.
     if commit P dek \<noteq> b32_raw (ma_dek_commit manifest) then Inl DownloadDekCommitMismatch
     else Inr (manifest, dek, recovery_grant_ok)))))))))"

section \<open>Whole-buffer open\<close>

text \<open>\<open>checked_mul\<close> of the framing against the addressable bound.\<close>

definition addressable :: "manifest \<Rightarrow> stream \<Rightarrow> bool" where
  "addressable manifest ms =
     (case checked_mul (sm_chunk_count ms) (ucast (ma_chunk_size manifest)) of
        Some b \<Rightarrow> b \<le> MAX_ADDRESSABLE_BYTES
      | None \<Rightarrow> False)"

definition open_declared :: "primitives \<Rightarrow> verify_context \<Rightarrow> manifest \<Rightarrow> dek \<Rightarrow> stream \<Rightarrow> stream_chunks
    \<Rightarrow> download_error + opened_stream" where
  "open_declared P ctx manifest dek ms provided =
     (if stream_digest (pr_sha P) (sc_chunks provided) \<noteq> b32_raw (sm_digest ms)
      then Inl (StreamDigestMismatch (sm_stream_type ms))
      else
        let ck = stream_subkey P dek (sm_stream_type ms) in
        rbind (map_err (\<lambda>_. StreamFraming (sm_stream_type ms))
          (open_stream (pr_gcm_open P) ck (vx_file_id ctx) (ma_version manifest) (sm_stream_type ms)
            (sc_chunks provided))) (\<lambda>plaintext.
        Inr \<lparr>os_stream_type = sm_stream_type ms, os_plaintext = plaintext\<rparr>))"

text \<open>The loop of step (8), with \<open>streams\<close> and \<open>content_digest\<close>.\<close>

fun open_streams :: "primitives \<Rightarrow> verify_context \<Rightarrow> manifest \<Rightarrow> dek \<Rightarrow> stream_chunks list \<Rightarrow> stream list
    \<Rightarrow> opened_stream list \<Rightarrow> bytes \<Rightarrow> download_error + (opened_stream list \<times> bytes)" where
  "open_streams P ctx manifest dek served [] streams content_digest = Inr (streams, content_digest)"
| "open_streams P ctx manifest dek served (ms # mss) streams content_digest =
     (if sm_compression ms \<noteq> CompNone then Inl CompressionUnsupported
      else rbind (ok_or (find (\<lambda>s. sc_stream_type s = sm_stream_type ms) served)
        (StreamMissing (sm_stream_type ms))) (\<lambda>provided.
      if word_of_nat (length (sc_chunks provided)) \<noteq> sm_chunk_count ms
      then Inl (FramingBoundsExceeded ''chunk_count mismatch'')
      else if \<not> addressable manifest ms then Inl (FramingBoundsExceeded ''addressable size'')
      else rbind (open_declared P ctx manifest dek ms provided) (\<lambda>opened.
      open_streams P ctx manifest dek served mss (streams @ [opened])
        (if sm_stream_type ms = StContent then b32_raw (sm_digest ms) else content_digest))))"

definition verify_and_open :: "primitives \<Rightarrow> verify_context \<Rightarrow> download_bundle \<Rightarrow> download_error + opened_file" where
  "verify_and_open P ctx bundle =
     rbind (verify_header P ctx (db_manifest_bytes bundle) (db_manifest_sig bundle)
       (db_genesis_bytes bundle) (db_genesis_sig bundle) (db_grant_bytes bundle) (db_grant_sig bundle)
       (db_ancestor_grants bundle) (db_recovery_grant_bytes bundle) (db_recovery_grant_sig bundle)
       (db_wrapped_dek bundle)) (\<lambda>(manifest, dek, recovery_grant_ok).
     rbind (open_streams P ctx manifest dek (db_streams bundle) (ma_streams manifest) []
       (replicate 32 0)) (\<lambda>(streams, content_digest).
     Inr \<lparr>of_version = ma_version manifest, of_file_type = ma_file_type manifest,
       of_content_digest = content_digest, of_recovery_grant_ok = recovery_grant_ok,
       of_streams = streams\<rparr>))"

end
