(* ===== verification/Aead_Laws.thy ===== *)
theory Aead_Laws
  imports Aead "HOL-Library.Sublist"
begin

text \<open>
  What the chunk framing adds to the cipher. Sealing and opening are inverse; the streaming seal agrees
  with the whole-buffer one whatever the pieces the source delivers; and if a subkey has only ever sealed
  the frames of one stream, an opened stream is that stream: chunks cannot be dropped, appended,
  reordered or taken from another file, version or stream.
\<close>

section \<open>The cipher's documented behaviour\<close>

definition aead_correct :: "gcm_seal \<Rightarrow> gcm_open \<Rightarrow> bool" where
  "aead_correct gcm_seal gcm_open \<longleftrightarrow> (\<forall>k n a m. gcm_open k n a (gcm_seal k n a m) = Some m)"

text \<open>Ciphertext integrity for a key that has sealed exactly the frames of one stream.\<close>

definition sealed_only :: "gcm_open \<Rightarrow> bytes \<Rightarrow> ident \<Rightarrow> u64 \<Rightarrow> stream_type \<Rightarrow> bytes list \<Rightarrow> bool" where
  "sealed_only gcm_open ck file_id version stream_type frames \<longleftrightarrow>
     (\<forall>n a c m. gcm_open ck n a c = Some m \<longrightarrow> (\<exists>i < length frames. n = nonce_for (word_of_nat i) \<and>
        a = encode TYPE_CHUNK_AAD put_chunk_aad
          (chunk_aad_at file_id version stream_type (word_of_nat i) (i = length frames - 1)) \<and>
        m = frames ! i))"

section \<open>Frames\<close>

lemma stream_frames_step:
  "0 < cs \<Longrightarrow> stream_frames cs d =
     take cs d # (if drop cs d = [] then [] else stream_frames cs (drop cs d))"
  by (auto simp: stream_frames_def Let_def slices.simps [of cs d] slices.simps [of cs "drop cs d"]
      slices.simps [of cs "[]"])

lemma stream_frames_nonempty [simp]: "stream_frames cs d \<noteq> []"
  by (simp add: stream_frames_def Let_def)

lemma concat_stream_frames: "0 < cs \<Longrightarrow> concat (stream_frames cs d) = d"
proof (induction "length d" arbitrary: d rule: less_induct)
  case less
  show ?case
  proof (cases "drop cs d = []")
    case True
    then show ?thesis using less(2) by (simp add: stream_frames_step [of cs d])
  next
    case False
    then have "length (drop cs d) < length d" using less(2) by simp
    from less(1) [OF this less(2)] False show ?thesis
      by (simp add: stream_frames_step [of cs d] less(2))
  qed
qed

section \<open>Sealing as one list\<close>

fun seal_frames :: "gcm_seal \<Rightarrow> bytes \<Rightarrow> ident \<Rightarrow> u64 \<Rightarrow> stream_type \<Rightarrow> nat \<Rightarrow> bytes list \<Rightarrow> bytes list" where
  "seal_frames gcm_seal ck fid v t i [] = []"
| "seal_frames gcm_seal ck fid v t i (f # fs) =
     seal_chunk gcm_seal ck (chunk_aad_at fid v t (word_of_nat i) (fs = [])) f #
     seal_frames gcm_seal ck fid v t (Suc i) fs"

lemma length_seal_frames [simp]: "length (seal_frames gs ck fid v t i fs) = length fs"
  by (induction fs arbitrary: i) simp_all

lemma seal_frames_enumerate:
  "n = k + length fs \<Longrightarrow> map (\<lambda>(i, frame). seal_chunk gs ck
     (chunk_aad_at fid v t (word_of_nat i) (i = n - 1)) frame) (enumerate k fs) =
   seal_frames gs ck fid v t k fs"
  by (induction fs arbitrary: k) auto

lemma seal_stream_frames:
  "0 < cs \<Longrightarrow> seal_stream sha gs ck fid v t cs pt =
     Some \<lparr>ss_chunks = seal_frames gs ck fid v t 0 (stream_frames cs pt),
       ss_chunk_count = word_of_nat (length (stream_frames cs pt)),
       ss_digest = stream_digest sha (seal_frames gs ck fid v t 0 (stream_frames cs pt))\<rparr>"
  unfolding seal_stream_def Let_def seal_frames_enumerate [of "length fs" 0 fs for fs, OF add_0 [symmetric]]
  by simp

lemma open_loop_seal_frames:
  assumes "aead_correct gs go" and "n = k + length fs"
  shows "open_loop go ck fid v t n (enumerate k (seal_frames gs ck fid v t k fs)) out = Inr (out @ concat fs)"
  using assms(2)
proof (induction fs arbitrary: k out)
  case (Cons f fs)
  have last: "(k = n - 1) = (fs = [])" using Cons.prems by auto
  have "open_chunk go ck (chunk_aad_at fid v t (word_of_nat k) (fs = []))
      (seal_chunk gs ck (chunk_aad_at fid v t (word_of_nat k) (fs = [])) f) = Inr f"
    using assms(1) by (simp add: open_chunk_def seal_chunk_def chunk_aad_at_def aead_correct_def)
  then show ?case using Cons.IH [of "Suc k" "out @ f"] Cons.prems by (simp add: last [simplified])
qed simp

text \<open>What was sealed opens: for any positive chunk size the sealed stream has at least one chunk, its
  digest is the one a downloader recomputes over the chunks, and opening them returns the plaintext.\<close>

theorem seal_open_stream:
  assumes "aead_correct gs go" and "0 < chunk_size"
  shows "\<exists>s. seal_stream sha gs ck fid v t chunk_size pt = Some s \<and> ss_chunks s \<noteq> [] \<and>
     ss_chunk_count s = word_of_nat (length (ss_chunks s)) \<and>
     ss_digest s = stream_digest sha (ss_chunks s) \<and>
     open_stream go ck fid v t (ss_chunks s) = Inr pt"
proof -
  have "seal_frames gs ck fid v t 0 (stream_frames chunk_size pt) \<noteq> []"
    using length_seal_frames [of gs ck fid v t 0 "stream_frames chunk_size pt"]
    by (metis length_0_conv stream_frames_nonempty)
  then show ?thesis
    using open_loop_seal_frames [OF assms(1), of _ 0] assms(2)
    by (simp add: seal_stream_frames open_stream_def concat_stream_frames)
qed

text \<open>A cipher to run the properties on: the tag is 16 zero bytes and a key opens only what is in its
  table.\<close>

definition toy_gcm_seal :: gcm_seal where
  "toy_gcm_seal k n a m = m @ replicate 16 0"

definition toy_gcm_open :: gcm_open where
  "toy_gcm_open k n a c = Some (take (length c - 16) c)"

theorem seal_open_stream_witness:
  "\<exists>s. seal_stream (\<lambda>x. x) toy_gcm_seal [] (Id []) 1 StContent 4 [1, 2, 3, 4, 5] = Some s \<and>
     open_stream toy_gcm_open [] (Id []) 1 StContent (ss_chunks s) = Inr [1, 2, 3, 4, 5]"
proof -
  have "aead_correct toy_gcm_seal toy_gcm_open"
    by (simp add: aead_correct_def toy_gcm_seal_def toy_gcm_open_def)
  from seal_open_stream [OF this, of 4] show ?thesis by fastforce
qed

section \<open>Integrity\<close>

lemma nonce_for_inj: "nonce_for i = nonce_for j \<longleftrightarrow> i = j"
  by (metis be_val_u64 nonce_for_def same_append_eq)

lemma chunk_aad_inj:
  assumes "ok_id fid" and "ok_id fid'"
    and "encode TYPE_CHUNK_AAD put_chunk_aad (chunk_aad_at fid v t i b) =
      encode TYPE_CHUNK_AAD put_chunk_aad (chunk_aad_at fid' v' t' j b')"
  shows "fid = fid' \<and> v = v' \<and> t = t' \<and> i = j \<and> b = b'"
proof -
  have "chunk_aad_at fid v t i b = chunk_aad_at fid' v' t' j b'"
    by (rule chunk_aad.encode_inj [OF _ _ assms(3)])
      (use assms(1,2) in \<open>simp_all add: ok_chunk_aad_def chunk_aad_at_def\<close>)
  then show ?thesis by (simp add: chunk_aad_at_def)
qed

lemma opened_chunk_position:
  assumes "sealed_only go ck fid v t frames" and "ok_id fid" and "ok_id fid'"
    and "length frames < 2 ^ 64" and "k < 2 ^ 64"
    and "open_chunk go ck (chunk_aad_at fid' v' t' (word_of_nat k) b) ct = Inr pt"
  shows "fid' = fid \<and> v' = v \<and> t' = t \<and> k < length frames \<and> b = (k = length frames - 1) \<and> pt = frames ! k"
proof -
  from assms(6) have "go ck (nonce_for (word_of_nat k)) (encode TYPE_CHUNK_AAD put_chunk_aad
      (chunk_aad_at fid' v' t' (word_of_nat k) b)) ct = Some pt"
    by (simp add: open_chunk_def ok_or_eq_Inr chunk_aad_at_def)
  with assms(1) obtain i where i: "i < length frames" "nonce_for (word_of_nat k) = nonce_for (word_of_nat i)"
    "encode TYPE_CHUNK_AAD put_chunk_aad (chunk_aad_at fid' v' t' (word_of_nat k) b) =
      encode TYPE_CHUNK_AAD put_chunk_aad
        (chunk_aad_at fid v t (word_of_nat i) (i = length frames - 1))" "pt = frames ! i"
    unfolding sealed_only_def by blast
  from i(2) have "unat (word_of_nat k :: u64) = unat (word_of_nat i :: u64)" by (simp add: nonce_for_inj)
  then have "k = i" using assms(4,5) i(1) by (simp add: unat_of_nat)
  with i chunk_aad_inj [OF assms(3,2) i(3)] show ?thesis by simp
qed

lemma open_loop_positions:
  assumes "sealed_only go ck fid v t frames" and "ok_id fid" and "ok_id fid'" and "length frames < 2 ^ 64"
    and "n < 2 ^ 64"
    and "open_loop go ck fid' v' t' n (enumerate k cts) out = Inr res" and "n = k + length cts" and "cts \<noteq> []"
  shows "fid' = fid \<and> v' = v \<and> t' = t \<and> n = length frames \<and> res = out @ concat (drop k frames)"
  using assms(6-8)
proof (induction cts arbitrary: k out)
  case (Cons ct cts)
  from Cons.prems obtain pt where pt: "open_chunk go ck (chunk_aad_at fid' v' t' (word_of_nat k) (k = n - 1)) ct = Inr pt"
    and rest: "open_loop go ck fid' v' t' n (enumerate (Suc k) cts) (out @ pt) = Inr res"
    by (auto simp: rbind_eq_Inr)
  have "k < 2 ^ 64" using Cons.prems(2) assms(5) by simp
  from opened_chunk_position [OF assms(1-4) this pt]
  have here: "fid' = fid \<and> v' = v \<and> t' = t" "k < length frames" "(k = n - 1) = (k = length frames - 1)"
    "pt = frames ! k" by simp_all
  show ?case
  proof (cases "cts = []")
    case True
    then have "n = length frames" using here(2,3) Cons.prems(2) by auto
    then show ?thesis using True rest here Cons.prems(2)
      by (simp add: Cons_nth_drop_Suc [symmetric])
  next
    case False
    from Cons.IH [OF rest _ False] Cons.prems(2) here show ?thesis
      by (simp add: Cons_nth_drop_Suc [symmetric])
  qed
qed simp

text \<open>C6: An opened stream is the sealed one: if the subkey only ever sealed the frames of one plaintext
  under one file, version and stream type, then whatever chunk list opens, under whatever claimed file,
  version and type, is exactly that stream in full: nothing is truncated, extended, reordered, repeated
  or spliced in.\<close>

theorem opened_stream_is_sealed_stream:
  assumes "sealed_only go ck fid v t (stream_frames chunk_size pt)" and "0 < chunk_size"
    and "ok_id fid" and "ok_id fid'" and "length (stream_frames chunk_size pt) < 2 ^ 64"
    and "length chunks < 2 ^ 64" and "open_stream go ck fid' v' t' chunks = Inr out"
  shows "out = pt \<and> fid' = fid \<and> v' = v \<and> t' = t \<and> length chunks = length (stream_frames chunk_size pt)"
proof -
  from assms(7) have "chunks \<noteq> []" and
    "open_loop go ck fid' v' t' (length chunks) (enumerate 0 chunks) [] = Inr out"
    by (auto simp: open_stream_def split: if_splits)
  from open_loop_positions [OF assms(1,3,4,5,6) this(2) _ this(1)] show ?thesis
    by (simp add: concat_stream_frames assms(2))
qed

text \<open>A table cipher: it opens exactly the sealed frames.\<close>

definition toy_table_open :: "ident \<Rightarrow> u64 \<Rightarrow> stream_type \<Rightarrow> bytes list \<Rightarrow> gcm_open" where
  "toy_table_open fid v t frames k n a c =
     map_option (\<lambda>i. frames ! i) (find (\<lambda>i. n = nonce_for (word_of_nat i) \<and>
        a = encode TYPE_CHUNK_AAD put_chunk_aad
          (chunk_aad_at fid v t (word_of_nat i) (i = length frames - 1)) \<and>
        c = frames ! i @ replicate 16 0) [0..<length frames])"

lemma toy_sealed_only: "sealed_only (toy_table_open fid v t frames) ck fid v t frames"
  by (auto simp: sealed_only_def toy_table_open_def find_Some_iff)

lemma toy_frames: "stream_frames 4 [1, 2, 3, 4, 5] = [[1, 2, 3, 4], [5]]"
  by (simp add: stream_frames_step)

lemma toy_opens:
  "open_stream (toy_table_open (Id (replicate 16 7)) 1 StContent [[1, 2, 3, 4], [5]]) [] (Id (replicate 16 7)) 1
     StContent [[1, 2, 3, 4] @ replicate 16 0, [5] @ replicate 16 0] = Inr [1, 2, 3, 4, 5]"
  by (simp add: open_stream_def open_chunk_def toy_table_open_def chunk_aad_at_def nonce_for_inj
      upt_conv_Cons numeral_2_eq_2)

theorem opened_stream_is_sealed_stream_witness:
  "[1, 2, 3, 4, 5] = ([1, 2, 3, 4, 5] :: bytes) \<and>
   length [[1, 2, 3, 4] @ replicate 16 0, [5] @ replicate 16 (0 :: byte)] =
     length (stream_frames 4 [1, 2, 3, 4, 5])"
  using opened_stream_is_sealed_stream [OF toy_sealed_only [of "Id (replicate 16 7)" 1 StContent
        "stream_frames 4 [1, 2, 3, 4, 5]" "[]"], of "Id (replicate 16 7)"
      "[[1, 2, 3, 4] @ replicate 16 0, [5] @ replicate 16 0]" 1 StContent "[1, 2, 3, 4, 5]"] toy_opens
  by (simp add: toy_frames ok_id_def)

section \<open>Streaming\<close>

text \<open>A source that delivers \<open>d\<close> in some non-empty pieces.\<close>

definition delivers :: "read_result list \<Rightarrow> bytes \<Rightarrow> bool" where
  "delivers r d \<longleftrightarrow> (\<exists>ps. r = map RData ps \<and> [] \<notin> set ps \<and> concat ps = d)"

lemma delivers_Nil: "delivers [] d \<longleftrightarrow> d = []"
  by (auto simp: delivers_def)

lemma delivers_Fail: "\<not> delivers (RFail # r) d"
  by (auto simp: delivers_def Cons_eq_map_conv)

lemma delivers_Data: "delivers (RData p # r) d \<longleftrightarrow> p \<noteq> [] \<and> (\<exists>e. d = p @ e \<and> delivers r e)"
proof
  assume "delivers (RData p # r) d"
  then obtain ps where ps: "RData p # r = map RData ps" "[] \<notin> set ps" "concat ps = d"
    unfolding delivers_def by (elim exE conjE)
  then obtain qs where "ps = p # qs" "r = map RData qs" by (auto simp: Cons_eq_map_conv)
  with ps show "p \<noteq> [] \<and> (\<exists>e. d = p @ e \<and> delivers r e)"
    by (auto simp: delivers_def intro: exI [of _ qs])
next
  assume "p \<noteq> [] \<and> (\<exists>e. d = p @ e \<and> delivers r e)"
  then obtain qs where "p \<noteq> []" "d = p @ concat qs" "r = map RData qs" "[] \<notin> set qs"
    by (auto simp: delivers_def)
  then show "delivers (RData p # r) d" by (auto simp: delivers_def intro: exI [of _ "p # qs"])
qed

lemma read_delivers:
  assumes "delivers r d" and "0 < want"
  shows "\<exists>x r'. read want r = (Some x, r') \<and> delivers r' (drop (length x) d) \<and> x = take (length x) d \<and>
     length x \<le> want \<and> (x = [] \<longleftrightarrow> d = [])"
proof (cases r)
  case Nil
  with assms show ?thesis by (simp add: delivers_Nil)
next
  case (Cons p q)
  with assms obtain x e where p: "p = RData x" "x \<noteq> []" "d = x @ e" "delivers q e"
    by (cases p) (auto simp: delivers_Data delivers_Fail)
  show ?thesis
  proof (cases "length x \<le> want")
    case True
    with Cons p show ?thesis by simp
  next
    case False
    then have "delivers (RData (drop want x) # q) (drop want d)"
      using p by (simp add: delivers_Data)
    with Cons p False assms(2) show ?thesis by simp
  qed
qed

lemma read_upto_loop_delivers:
  assumes "delivers r d"
  shows "\<exists>r'. read_upto_loop cap buf r = (Inr (buf @ take (cap - length buf) d), r') \<and>
     delivers r' (drop (cap - length buf) d)"
  using assms
proof (induction cap buf r arbitrary: d rule: read_upto_loop.induct)
  case (1 cap buf r)
  show ?case
  proof (cases "length buf < cap")
    case True
    define want where "want = min (cap - length buf) 8192"
    have "0 < want" using True by (simp add: want_def)
    from read_delivers [OF "1.prems" this] obtain x r1 where rd: "read want r = (Some x, r1)"
      "delivers r1 (drop (length x) d)" "x = take (length x) d" "length x \<le> want" "x = [] \<longleftrightarrow> d = []" by blast
    show ?thesis
    proof (cases "x = []")
      case True
      then show ?thesis using rd \<open>length buf < cap\<close>
        by (auto simp: read_upto_loop.simps [of cap buf r] Let_def want_def)
    next
      case False
      from "1.IH" [OF True want_def rd(1) [symmetric] refl False rd(2)] obtain r' where
        r': "read_upto_loop cap (buf @ x) r1 = (Inr ((buf @ x) @ take (cap - length (buf @ x)) (drop (length x) d)), r')"
        "delivers r' (drop (cap - length (buf @ x)) (drop (length x) d))" by blast
      have le: "length x \<le> cap - length buf" using rd(4) by (simp add: want_def)
      then have eq: "length x + (cap - length (buf @ x)) = cap - length buf" by simp
      then have "take (cap - length buf) d = take (length x + (cap - length (buf @ x))) d" by (simp only:)
      also have "\<dots> = x @ take (cap - length (buf @ x)) (drop (length x) d)"
        by (simp only: take_add rd(3) [symmetric])
      finally have "x @ take (cap - length (buf @ x)) (drop (length x) d) = take (cap - length buf) d" ..
      moreover have "drop (cap - length (buf @ x)) (drop (length x) d) = drop (cap - length buf) d"
        by (simp only: drop_drop eq add.commute [of _ "length x"])
      ultimately show ?thesis using r' True False rd(1)
        by (simp add: read_upto_loop.simps [of cap buf r] Let_def want_def)
    qed
  next
    case False
    then show ?thesis using "1.prems" by (simp add: read_upto_loop.simps [of cap buf r])
  qed
qed

lemma read_upto_delivers:
  assumes "delivers r d"
  obtains r' where "read_upto cap r = (Inr (take cap d), r')" and "delivers r' (drop cap d)"
  using read_upto_loop_delivers [OF assms, of cap "[]"] by (auto simp: read_upto_def)

text \<open>An \<open>emit\<close> that keeps what it is given.\<close>

definition collect :: "u64 \<Rightarrow> bytes \<Rightarrow> (u64 \<times> bytes) list \<Rightarrow> (crypto_error + unit) \<times> (u64 \<times> bytes) list" where
  "collect i ct acc = (Inr (), acc @ [(i, ct)])"

fun numbered :: "nat \<Rightarrow> bytes list \<Rightarrow> (u64 \<times> bytes) list" where
  "numbered i [] = []"
| "numbered i (ct # cts) = (word_of_nat i, ct) # numbered (Suc i) cts"

lemma seal_streaming_loop_frames:
  assumes "0 < cs" and "delivers r (drop cs d)"
  shows "seal_streaming_loop gs ck fid v t cs collect (word_of_nat i) tags (take cs d) r acc =
     (let cts = seal_frames gs ck fid v t i (stream_frames cs d)
      in (Inr (word_of_nat (i + length cts), tags @ concat (map chunk_tag cts)), acc @ numbered i cts))"
  using assms(2)
proof (induction "length d" arbitrary: d r i tags acc rule: less_induct)
  case less
  note step = seal_streaming_loop.simps [of gs ck fid v t cs collect "word_of_nat i" tags "take cs d" r acc]
  obtain r' where upto: "read_upto cs r = (Inr (take cs (drop cs d)), r')" "delivers r' (drop cs (drop cs d))"
    by (rule read_upto_delivers [OF less.prems])
  have nxt: "(if length (take cs d) < cs then (Inr [], r) else read_upto cs r) =
      (Inr (take cs (drop cs d)), if length (take cs d) < cs then r else r')"
    using upto by auto
  show ?case
  proof (cases "drop cs d = []")
    case True
    then have "take cs (drop cs d) = []" by simp
    then show ?thesis
      unfolding step nxt
      by (simp add: stream_frames_step [OF assms(1), of d] True Let_def collect_def add.commute)
  next
    case False
    then have "length (drop cs d) < length d" "take cs (drop cs d) \<noteq> []" "\<not> length (take cs d) < cs"
      using assms(1) by simp_all
    note rec = less.hyps [OF this(1) upto(2), of "Suc i"
        "tags @ chunk_tag (seal_chunk gs ck (chunk_aad_at fid v t (word_of_nat i) False) (take cs d))"
        "acc @ [(word_of_nat i, seal_chunk gs ck (chunk_aad_at fid v t (word_of_nat i) False) (take cs d))]"]
    have suc: "(word_of_nat i :: u64) + 1 = word_of_nat (Suc i)" by (simp add: add.commute)
    from False \<open>take cs (drop cs d) \<noteq> []\<close> \<open>\<not> length (take cs d) < cs\<close> rec show ?thesis
      unfolding step nxt
      by (simp add: stream_frames_step [OF assms(1), of d] Let_def collect_def suc
          del: of_nat_Suc of_nat_add)
  qed
qed

lemma streaming_seal_whole:
  assumes "delivers reader pt"
  shows "seal_stream_streaming sha gs ck fid v t chunk_size reader collect [] =
     map_option (\<lambda>s. (Inr (ss_chunk_count s, ss_digest s), numbered 0 (ss_chunks s)))
       (seal_stream sha gs ck fid v t chunk_size pt)"
proof (cases "chunk_size = 0")
  case True
  then show ?thesis by (simp add: seal_stream_streaming_def seal_stream_def)
next
  case False
  obtain r where r: "read_upto chunk_size reader = (Inr (take chunk_size pt), r)"
    "delivers r (drop chunk_size pt)" by (rule read_upto_delivers [OF assms])
  have "seal_streaming_loop gs ck fid v t chunk_size collect 0 [] (take chunk_size pt) r [] =
     (let cts = seal_frames gs ck fid v t 0 (stream_frames chunk_size pt)
      in (Inr (word_of_nat (length cts), concat (map chunk_tag cts)), numbered 0 cts))"
    using seal_streaming_loop_frames [OF _ r(2), of gs ck fid v t 0 "[]" "[]"] False by simp
  with False r(1) show ?thesis
    by (simp add: seal_stream_streaming_def seal_stream_frames stream_digest_def Let_def)
qed

text \<open>Streaming changes nothing: however a source splits its bytes over \<open>read\<close> calls, the streaming
  seal emits exactly the chunks of the whole-buffer seal, numbered from zero, and returns the same count
  and digest. In particular it always ends.\<close>

theorem streaming_seal_equals_whole:
  assumes "delivers reader pt"
  shows "seal_stream_streaming sha gs ck fid v t chunk_size reader collect [] =
     map_option (\<lambda>s. (Inr (ss_chunk_count s, ss_digest s), numbered 0 (ss_chunks s)))
       (seal_stream sha gs ck fid v t chunk_size pt)"
  using assms by (rule streaming_seal_whole)

theorem streaming_seal_equals_whole_witness:
  "seal_stream_streaming (\<lambda>x. x) toy_gcm_seal [] (Id []) 1 StContent 4 [RData [1], RData [2, 3, 4, 5]] collect [] =
     map_option (\<lambda>s. (Inr (ss_chunk_count s, ss_digest s), numbered 0 (ss_chunks s)))
       (seal_stream (\<lambda>x. x) toy_gcm_seal [] (Id []) 1 StContent 4 [1, 2, 3, 4, 5])"
  by (rule streaming_seal_equals_whole) (simp add: delivers_Data delivers_Nil)

section \<open>Opening chunk by chunk\<close>

text \<open>A sink that keeps what is released, over any further state of the fetcher.\<close>

definition release :: "bytes \<Rightarrow> 's \<times> bytes list \<Rightarrow> (crypto_error + unit) \<times> ('s \<times> bytes list)" where
  "release pt = (\<lambda>(x, acc). (Inr (), (x, acc @ [pt])))"

definition fetching :: "(u64 \<Rightarrow> 's \<Rightarrow> (crypto_error + bytes) \<times> 's) \<Rightarrow> u64 \<Rightarrow> 's \<times> bytes list
    \<Rightarrow> (crypto_error + bytes) \<times> ('s \<times> bytes list)" where
  "fetching fetch i = (\<lambda>(x, acc). case fetch i x of (r, x) \<Rightarrow> (r, (x, acc)))"

lemma open_streaming_loop_prefix:
  assumes "sealed_only go ck fid v t frames" and "ok_id fid" and "length frames < 2 ^ 64"
    and "n = word_of_nat (length frames)" and "k \<le> length frames" and "acc = take k frames"
    and "open_streaming_loop go ck fid v t n (fetching fetch) release
      (map word_of_nat [k..<length frames]) (x, acc) = (res, (x', acc'))"
  shows "prefix acc' frames \<and> (res = Inr () \<longrightarrow> acc' = frames)"
  using assms(5-7)
proof (induction "length frames - k" arbitrary: k x acc)
  case 0
  then show ?case by simp
next
  case (Suc m)
  then have k: "k < length frames" by simp
  then have list: "map word_of_nat [k..<length frames] =
      (word_of_nat k :: u64) # map word_of_nat [Suc k..<length frames]" by (simp add: upt_conv_Cons)
  obtain r x1 where f: "fetch (word_of_nat k) x = (r, x1)" by fastforce
  show ?case
  proof (cases "\<exists>ct pt. r = Inr ct \<and> open_chunk go ck (chunk_aad_at fid v t (word_of_nat k) (word_of_nat k = n - 1)) ct = Inr pt")
    case False
    then show ?thesis using Suc.prems f k unfolding list
      by (auto simp: fetching_def take_is_prefix split: sum.splits)
  next
    case True
    then obtain ct pt where pt: "r = Inr ct"
      "open_chunk go ck (chunk_aad_at fid v t (word_of_nat k) (word_of_nat k = n - 1)) ct = Inr pt" by blast
    have "k < 2 ^ 64" using k assms(3) by simp
    from opened_chunk_position [OF assms(1,2,2,3) this pt(2)] have "pt = frames ! k" by simp
    with Suc.prems f pt have "open_streaming_loop go ck fid v t n (fetching fetch) release
        (map word_of_nat [Suc k..<length frames]) (x1, take (Suc k) frames) = (res, (x', acc'))"
      unfolding list by (simp add: fetching_def release_def take_Suc_conv_app_nth k)
    from Suc.hyps(1) [OF _ _ refl this] Suc.hyps(2) k show ?thesis by simp
  qed
qed

text \<open>Decrypt-while-play releases nothing unverified: under the same cipher assumption, and with the
  signed chunk count, whatever the server returns and whenever it stops, the frames handed to the sink
  are the first frames of the sealed plaintext in order, and all of them when the call succeeds.\<close>

theorem streaming_open_releases_prefix:
  assumes "sealed_only go ck fid v t (stream_frames chunk_size pt)" and "ok_id fid"
    and "length (stream_frames chunk_size pt) < 2 ^ 64" and "0 < chunk_size"
    and "open_stream_streaming go ck fid v t (word_of_nat (length (stream_frames chunk_size pt)))
      (fetching fetch) release (x, []) = (res, (x', released))"
  shows "prefix (concat released) pt \<and> (res = Inr () \<longrightarrow> concat released = pt)"
proof -
  let ?fs = "stream_frames chunk_size pt"
  have "unat (word_of_nat (length ?fs) :: u64) = length ?fs" using assms(3) by (simp add: unat_of_nat)
  moreover have "0 < length ?fs" by simp
  ultimately have "(word_of_nat (length ?fs) :: u64) \<noteq> 0" by (metis less_numeral_extra(3) unat_0)
  with assms(5) \<open>unat _ = _\<close> have "open_streaming_loop go ck fid v t (word_of_nat (length ?fs)) (fetching fetch)
      release (map word_of_nat [0..<length ?fs]) (x, []) = (res, (x', released))"
    by (simp add: open_stream_streaming_def)
  from open_streaming_loop_prefix [OF assms(1-3) refl _ _ this]
  have "prefix released ?fs \<and> (res = Inr () \<longrightarrow> released = ?fs)" by simp
  then show ?thesis using concat_stream_frames [OF assms(4), of pt]
    by (metis concat_append prefix_def)
qed

text \<open>The server returns the first chunk, then garbage.\<close>

definition toy_fetch :: "u64 \<Rightarrow> unit \<Rightarrow> (crypto_error + bytes) \<times> unit" where
  "toy_fetch i x = (Inr (if i = 0 then [1, 2, 3, 4] @ replicate 16 0 else []), x)"

lemma toy_fetch_stops:
  "open_stream_streaming (toy_table_open (Id (replicate 16 7)) 1 StContent [[1, 2, 3, 4], [5]]) [] (Id (replicate 16 7)) 1
     StContent 2 (fetching toy_fetch) release ((), []) = (Inl AeadError, ((), [[1, 2, 3, 4]]))"
proof -
  have "[0..<2] = [0, 1 :: nat]" by (simp add: upt_rec)
  then show ?thesis
    by (simp add: open_stream_streaming_def open_chunk_def toy_table_open_def chunk_aad_at_def nonce_for_inj
        toy_fetch_def fetching_def release_def)
qed

theorem streaming_open_releases_prefix_witness:
  "prefix (concat [[1, 2, 3, 4]]) [1, 2, 3, 4, 5 :: byte]"
  using streaming_open_releases_prefix [OF toy_sealed_only [of "Id (replicate 16 7)" 1 StContent
        "stream_frames 4 [1, 2, 3, 4, 5]" "[]"], of toy_fetch "()" "Inl AeadError" "()" "[[1, 2, 3, 4]]"]
    toy_fetch_stops
  by (simp add: toy_frames ok_id_def)

end
