(* ===== verification/GrantChain.thy ===== *)
theory GrantChain
  imports Download Aead_Laws
begin

text \<open>
  What \<open>verify_grant_chain\<close> accepts. Reading \<open>by_recipient\<close> as a graph, a grant is rooted when following
  \<open>granted_by\<close> over signed edges ends at the version author or, on the download path, at an administrator.
  The walk accepts exactly the grants rooted within the depth bound; in particular its cycle guard never
  refuses a chain that would end.
\<close>

definition signed_grant :: "primitives \<Rightarrow> bytes \<Rightarrow> grant \<Rightarrow> bytes \<Rightarrow> bool" where
  "signed_grant P pub g sig \<longleftrightarrow> verify P pub L_GRANT TYPE_GRANT put_grant g sig"

text \<open>\<open>rooted ... n g sig\<close>: \<open>g\<close> reaches its root over \<open>n\<close> re-share edges.\<close>

inductive rooted :: "primitives \<Rightarrow> ident \<Rightarrow> bytes \<Rightarrow> (ident \<Rightarrow> bytes option) \<Rightarrow> (ident \<Rightarrow> bytes option) option
    \<Rightarrow> (ident \<rightharpoonup> grant \<times> bytes) \<Rightarrow> nat \<Rightarrow> grant \<Rightarrow> bytes \<Rightarrow> bool"
  for P author_id author_pub granter_pub admin_pub by_recipient where
  author_edge: "gr_granted_by g = author_id \<Longrightarrow> signed_grant P author_pub g sig \<Longrightarrow>
    rooted P author_id author_pub granter_pub admin_pub by_recipient 0 g sig"
| operator_edge: "gr_granted_by g \<noteq> author_id \<Longrightarrow> by_recipient (gr_granted_by g) = None \<Longrightarrow>
    admin_pub = Some admins \<Longrightarrow> admins (gr_granted_by g) = Some pub \<Longrightarrow> signed_grant P pub g sig \<Longrightarrow>
    rooted P author_id author_pub granter_pub admin_pub by_recipient 0 g sig"
| reshare_edge: "gr_granted_by g \<noteq> author_id \<Longrightarrow> by_recipient (gr_granted_by g) = Some (g', sig') \<Longrightarrow>
    granter_pub (gr_granted_by g) = Some pub \<Longrightarrow> signed_grant P pub g sig \<Longrightarrow>
    rooted P author_id author_pub granter_pub admin_pub by_recipient n g' sig' \<Longrightarrow>
    rooted P author_id author_pub granter_pub admin_pub by_recipient (Suc n) g sig"

inductive_cases rooted_0: "rooted P a ap gp ad idx 0 g sig"
inductive_cases rooted_Suc: "rooted P a ap gp ad idx (Suc n) g sig"

lemma rooted_unique:
  "rooted P a ap gp ad idx n g sig \<Longrightarrow> rooted P a ap gp ad idx m g sig \<Longrightarrow> n = m"
proof (induction arbitrary: m rule: rooted.induct)
  case (reshare_edge g g' sig' pub sig n)
  from reshare_edge.prems reshare_edge.hyps(1,2) show ?case
    by (cases rule: rooted.cases) (auto dest: reshare_edge.IH)
qed (auto elim: rooted.cases)

lemma walk_rooted:
  "chain_walk P a ap gp ad idx visited g sig d = Inr () \<Longrightarrow>
     \<exists>n. rooted P a ap gp ad idx n g sig \<and> (n = 0 \<or> d + n \<le> MAX_GRANT_CHAIN_DEPTH)"
proof (induction P a ap gp ad idx visited g sig d rule: chain_walk.induct)
  case (1 P a ap gp ad idx visited g sig d)
  note walk = "1.prems" [unfolded chain_walk.simps [of P a ap gp ad idx visited g sig d] Let_def]
  consider (author) "gr_granted_by g = a" | (none) "gr_granted_by g \<noteq> a" "idx (gr_granted_by g) = None"
    | (some) g' sig' where "gr_granted_by g \<noteq> a" "idx (gr_granted_by g) = Some (g', sig')"
    by fastforce
  then show ?case
  proof cases
    case author
    with walk have "signed_grant P ap g sig" by (simp add: signed_grant_def split: if_splits)
    from rooted.author_edge [OF author this] show ?thesis by blast
  next
    case none
    with walk obtain admins pub where "ad = Some admins" "admins (gr_granted_by g) = Some pub"
      "signed_grant P pub g sig"
      by (auto simp: signed_grant_def Option.bind_eq_Some_conv split: option.splits if_splits)
    with none show ?thesis by (blast intro: rooted.operator_edge)
  next
    case some
    with walk obtain pub where pub: "\<not> MAX_GRANT_CHAIN_DEPTH \<le> d" "gp (gr_granted_by g) = Some pub"
      "signed_grant P pub g sig" "gr_granted_by g \<notin> visited"
      "chain_walk P a ap gp ad idx (insert (gr_granted_by g) visited) g' sig' (d + 1) = Inr ()"
      by (auto simp: signed_grant_def result_simps split: if_splits)
    from "1.IH" [OF refl some(1,2) refl pub(1) _ _ pub(4,5)] pub obtain n
      where "rooted P a ap gp ad idx n g' sig'" "n = 0 \<or> Suc d + n \<le> MAX_GRANT_CHAIN_DEPTH"
      by (auto simp: signed_grant_def)
    moreover from this(1) some pub(2,3) have "rooted P a ap gp ad idx (Suc n) g sig"
      by (blast intro: rooted.reshare_edge)
    ultimately show ?thesis using pub(1) by (intro exI [of _ "Suc n"]) auto
  qed
qed

text \<open>A visited granter starts a chain at least as long as the one still to walk, so it cannot be met
  again.\<close>

lemma rooted_walk:
  "rooted P a ap gp ad idx n g sig \<Longrightarrow> n = 0 \<or> d + n \<le> MAX_GRANT_CHAIN_DEPTH \<Longrightarrow>
     (\<And>v. v \<in> visited \<Longrightarrow> \<exists>g' s' m. idx v = Some (g', s') \<and> rooted P a ap gp ad idx m g' s' \<and> n \<le> m) \<Longrightarrow>
     chain_walk P a ap gp ad idx visited g sig d = Inr ()"
proof (induction arbitrary: d visited rule: rooted.induct)
  case (author_edge g sig)
  then show ?case unfolding chain_walk.simps [of P a ap gp ad idx visited g sig d]
    by (simp add: signed_grant_def)
next
  case (operator_edge g admins pub sig)
  then show ?case unfolding chain_walk.simps [of P a ap gp ad idx visited g sig d]
    by (simp add: signed_grant_def)
next
  case (reshare_edge g g' sig' pub sig n)
  have "gr_granted_by g \<notin> visited"
  proof
    assume "gr_granted_by g \<in> visited"
    from reshare_edge.prems(2) [OF this] reshare_edge.hyps(2) obtain m
      where "rooted P a ap gp ad idx m g' sig'" "Suc n \<le> m" by auto
    with rooted_unique [OF reshare_edge.hyps(5)] show False by auto
  qed
  moreover have "chain_walk P a ap gp ad idx (insert (gr_granted_by g) visited) g' sig' (d + 1) = Inr ()"
  proof (rule reshare_edge.IH)
    show "n = 0 \<or> d + 1 + n \<le> MAX_GRANT_CHAIN_DEPTH" using reshare_edge.prems(1) by auto
    show "\<exists>g' s' m. idx v = Some (g', s') \<and> rooted P a ap gp ad idx m g' s' \<and> n \<le> m"
      if "v \<in> insert (gr_granted_by g) visited" for v
    proof (cases "v = gr_granted_by g")
      case True
      with reshare_edge.hyps(2,5) show ?thesis by blast
    next
      case False
      with that reshare_edge.prems(2) [of v] show ?thesis by (meson Suc_leD insertE)
    qed
  qed
  moreover have "\<not> MAX_GRANT_CHAIN_DEPTH \<le> d" using reshare_edge.prems(1) by auto
  ultimately show ?case using reshare_edge.hyps(1-4)
    by (simp add: chain_walk.simps [of P a ap gp ad idx visited g sig d] signed_grant_def)
qed

text \<open>The bundle of ancestors as an index: every record decodes and binds file, version and key.\<close>

definition binds :: "grant \<Rightarrow> ident \<Rightarrow> u64 \<Rightarrow> bytes32 \<Rightarrow> bool" where
  "binds g file_id version dek_commit \<longleftrightarrow> gr_file_id g = file_id \<and> gr_file_version g = version \<and>
     gr_dek_commit g = dek_commit \<and> gr_recipient_type g = RtUser"

lemma check_ancestor_fields_Inr: "check_ancestor_fields g f v c = Inr u \<longleftrightarrow> binds g f v c"
  by (auto simp: check_ancestor_fields_def binds_def)

lemma decode_grant_iff: "decode_grant bs = Inr g \<longleftrightarrow> ok_grant g \<and> bs = encode TYPE_GRANT put_grant g"
  by (simp add: decode_grant_def grant.decode_iff)

lemma index_ancestors_ok:
  "(\<exists>idx'. index_ancestors as f v c idx = Inr idx') \<longleftrightarrow>
     (\<forall>(b, s) \<in> set as. \<exists>g. decode_grant b = Inr g \<and> binds g f v c)"
proof (induction as arbitrary: idx)
  case (Cons x as)
  obtain b s where x: "x = (b, s)" by fastforce
  show ?case
  proof (cases "\<exists>g. decode_grant b = Inr g \<and> binds g f v c")
    case True
    then obtain g where "decode_grant b = Inr g" "check_ancestor_fields g f v c = Inr ()"
      by (auto simp: check_ancestor_fields_Inr)
    with Cons.IH True show ?thesis by (auto simp: x)
  qed (auto simp: x result_simps check_ancestor_fields_Inr)
qed simp

text \<open>What an entry of the index is: one of the served records, with its recipient as the key.\<close>

definition served_grant :: "(bytes \<times> bytes) list \<Rightarrow> ident \<Rightarrow> u64 \<Rightarrow> bytes32 \<Rightarrow> ident \<Rightarrow> grant \<Rightarrow> bytes \<Rightarrow> bool" where
  "served_grant as f v c i g sig \<longleftrightarrow> (encode TYPE_GRANT put_grant g, sig) \<in> set as \<and> ok_grant g \<and>
     binds g f v c \<and> gr_recipient_id g = i"

lemma index_ancestors_entry:
  "index_ancestors as f v c idx = Inr idx' \<Longrightarrow> idx' i = Some (g, sig) \<Longrightarrow>
     idx i = Some (g, sig) \<or> served_grant as f v c i g sig"
proof (induction as arbitrary: idx)
  case (Cons x as)
  then show ?case
    by (cases x) (force simp: result_simps check_ancestor_fields_Inr decode_grant_iff served_grant_def
        split: if_splits dest!: Cons.IH)
qed simp

section \<open>The verification\<close>

lemma grant_chain_rooted:
  "verify_grant_chain P leaf leaf_sig ancestors f v c a ap gp ad = Inr () \<longleftrightarrow>
     (\<exists>idx n. index_ancestors ancestors f v c Map.empty = Inr idx \<and> n \<le> MAX_GRANT_CHAIN_DEPTH \<and>
        rooted P a ap gp ad idx n leaf leaf_sig)"
proof -
  have "chain_walk P a ap gp ad idx {} leaf leaf_sig 0 = Inr () \<longleftrightarrow>
      (\<exists>n \<le> MAX_GRANT_CHAIN_DEPTH. rooted P a ap gp ad idx n leaf leaf_sig)" for idx
    using walk_rooted [of P a ap gp ad idx "{}" leaf leaf_sig 0]
      rooted_walk [of P a ap gp ad idx _ leaf leaf_sig 0 "{}"] by fastforce
  then show ?thesis by (auto simp: verify_grant_chain_def result_simps)
qed

text \<open>C3: A grant is accepted exactly when its records and its path are right: every served ancestor decodes
  and binds this file, version and key, and from the leaf, over at most \<open>MAX_GRANT_CHAIN_DEPTH\<close> re-share
  edges each signed under the granter's directory key, the path ends in an edge signed by the version
  author or, where administrators are allowed, by one of them. The walk always terminates, and the cycle
  guard rejects nothing that the depth bound would accept.\<close>

theorem grant_chain_exact:
  "verify_grant_chain P leaf leaf_sig ancestors f v c a ap gp ad = Inr () \<longleftrightarrow>
     (\<exists>idx n. index_ancestors ancestors f v c Map.empty = Inr idx \<and> n \<le> MAX_GRANT_CHAIN_DEPTH \<and>
        rooted P a ap gp ad idx n leaf leaf_sig)"
  by (rule grant_chain_rooted)

text \<open>The path as a list: the leaf first, each next grant served for the granter of the one before.\<close>

fun grant_path :: "primitives \<Rightarrow> (ident \<Rightarrow> bytes option) \<Rightarrow> (grant \<times> bytes) list \<Rightarrow> bool" where
  "grant_path P gp [] = False"
| "grant_path P gp [(g, sig)] = True"
| "grant_path P gp ((g, sig) # (g', sig') # p) \<longleftrightarrow> gr_recipient_id g' = gr_granted_by g \<and>
     (\<exists>pub. gp (gr_granted_by g) = Some pub \<and> signed_grant P pub g sig) \<and> grant_path P gp ((g', sig') # p)"

lemma rooted_path:
  "rooted P a ap gp ad idx n g sig \<Longrightarrow> (\<And>i g s. idx i = Some (g, s) \<Longrightarrow> served_grant as f v c i g s) \<Longrightarrow>
     ad = None \<Longrightarrow> \<exists>p. hd p = (g, sig) \<and> length p = Suc n \<and> grant_path P gp p \<and>
       (\<forall>(g, s) \<in> set (tl p). binds g f v c) \<and>
       gr_granted_by (fst (List.last p)) = a \<and> signed_grant P ap (fst (List.last p)) (snd (List.last p))"
proof (induction rule: rooted.induct)
  case (author_edge g sig)
  then show ?case by (intro exI [of _ "[(g, sig)]"]) simp
next
  case (reshare_edge g g' sig' pub sig n)
  then obtain p where p: "hd p = (g', sig')" "length p = Suc n" "grant_path P gp p"
    "\<forall>(g, s) \<in> set (tl p). binds g f v c" "gr_granted_by (fst (List.last p)) = a"
    "signed_grant P ap (fst (List.last p)) (snd (List.last p))" by blast
  then obtain q where q: "p = (g', sig') # q" by (cases p) auto
  from reshare_edge.prems(1) [OF reshare_edge.hyps(2)] have "binds g' f v c" "gr_recipient_id g' = gr_granted_by g"
    by (simp_all add: served_grant_def)
  with p q reshare_edge.hyps(3,4) show ?case by (intro exI [of _ "(g, sig) # p"]) auto
qed simp

text \<open>Carry-forward needs possession: without the administrator terminal (rotation), an accepted leaf
  comes with a path of at most 33 grants that share its file, version and key, where each granter's own
  grant is the next one and the last was signed by the version author.\<close>

theorem carried_grant_has_author_path:
  assumes "verify_grant_chain P leaf leaf_sig ancestors f v c a ap gp None = Inr ()"
  shows "\<exists>p. hd p = (leaf, leaf_sig) \<and> length p \<le> Suc MAX_GRANT_CHAIN_DEPTH \<and> grant_path P gp p \<and>
    (\<forall>(g, s) \<in> set (tl p). binds g f v c) \<and>
    gr_granted_by (fst (List.last p)) = a \<and> signed_grant P ap (fst (List.last p)) (snd (List.last p))"
proof -
  from assms obtain idx n where "index_ancestors ancestors f v c Map.empty = Inr idx"
    "n \<le> MAX_GRANT_CHAIN_DEPTH" "rooted P a ap gp None idx n leaf leaf_sig"
    unfolding grant_chain_rooted by blast
  with rooted_path [OF this(3)] index_ancestors_entry [OF this(1)] show ?thesis by fastforce
qed

section \<open>A re-shared grant\<close>

text \<open>User 2 holds an author grant and re-shares to user 3; every signature is its signer's key.\<close>

definition uid :: "byte \<Rightarrow> ident" where "uid b = Id (replicate 16 b)"

definition grant_from :: "byte \<Rightarrow> byte \<Rightarrow> grant" where
  "grant_from granter recipient = \<lparr>gr_file_id = uid 7, gr_file_version = 1, gr_recipient_id = uid recipient,
     gr_recipient_type = RtUser, gr_dek_commit = Bytes32 (replicate 32 0), gr_granted_by = uid granter,
     gr_created_at = Timestamp 0\<rparr>"

definition toy_prims_with :: "gcm_open \<Rightarrow> primitives" where
  "toy_prims_with go = \<lparr>pr_sha = (\<lambda>x. x), pr_hkdf = (\<lambda>k i. replicate 32 0), pr_gcm_seal = toy_gcm_seal,
     pr_gcm_open = go, pr_vk_valid = (\<lambda>_. True), pr_strict = (\<lambda>k m s. s = k),
     pr_ed_sign = (\<lambda>k m. k), pr_ed_pub = (\<lambda>k. k), pr_hpke_pub_ok = (\<lambda>_. True), pr_hpke_priv_ok = (\<lambda>_. True),
     pr_hpke_enc_ok = (\<lambda>_. True), pr_hpke_gen = (\<lambda>r. (r, r)),
     pr_hpke_seal = (\<lambda>r k i m a. Some (replicate 32 0, m)), pr_hpke_open = (\<lambda>k e i c a. Some c),
     pr_x_pub = (\<lambda>k. replicate 32 0), pr_x_dh = (\<lambda>k p. replicate 32 0), pr_mlkem_gen = (\<lambda>r. (r, r)),
     pr_mlkem_pub = Some, pr_mlkem_ek_ok = (\<lambda>_. True),
     pr_mlkem_encaps = (\<lambda>p r. (replicate 1088 0, replicate 32 0)),
     pr_mlkem_decaps = (\<lambda>s c. Some (replicate 32 0))\<rparr>"

abbreviation toy_prims :: primitives where "toy_prims \<equiv> toy_prims_with toy_gcm_open"

lemma verify_toy [simp]: "verify (toy_prims_with go) pub l t put v sig \<longleftrightarrow> sig = pub"
  by (simp add: verify_def toy_prims_with_def vk_from_bytes_def verify_canonical_def)

definition toy_granters :: "ident \<Rightarrow> bytes option" where
  "toy_granters i = (if i = uid 2 then Some [2] else None)"

lemma uid_eq [simp]: "uid a = uid b \<longleftrightarrow> a = b"
  by (simp add: uid_def)

lemma ok_uid [simp]: "ok_id (uid a)"
  by (simp add: uid_def ok_id_def)

lemma grant_from_simps [simp]:
  "gr_granted_by (grant_from a b) = uid a" "gr_recipient_id (grant_from a b) = uid b"
  "ok_grant (grant_from a b)"
  "check_ancestor_fields (grant_from a b) (uid 7) 1 (Bytes32 (replicate 32 0)) = Inr ()"
  by (simp_all add: grant_from_def ok_grant_def ok_b32_def check_ancestor_fields_def)

lemma reshare_accepted:
  "verify_grant_chain toy_prims (grant_from 2 3) [2] [(encode TYPE_GRANT put_grant (grant_from 1 2), [1])]
     (uid 7) 1 (Bytes32 (replicate 32 0)) (uid 1) [1] toy_granters None = Inr ()"
proof -
  have ok: "decode_grant (encode TYPE_GRANT put_grant (grant_from 1 2)) = Inr (grant_from 1 2)"
    by (simp add: decode_grant_iff)
  show ?thesis
    by (simp add: verify_grant_chain_def ok chain_walk.simps [of _ _ _ _ _ _ _ "grant_from 2 3"]
        chain_walk.simps [of _ _ _ _ _ _ _ "grant_from 1 2"] toy_granters_def
        MAX_GRANT_CHAIN_DEPTH_def Let_def)
qed

theorem carried_grant_has_author_path_witness:
  "\<exists>p. hd p = (grant_from 2 3, [2 :: byte]) \<and> length p \<le> 33 \<and> gr_granted_by (fst (List.last p)) = uid 1"
  using carried_grant_has_author_path [OF reshare_accepted] unfolding MAX_GRANT_CHAIN_DEPTH_def by force

end
