(* ===== verification/DownloadStream.thy ===== *)
theory DownloadStream
  imports Download
begin

text \<open>
  The other ways \<^verbatim>\<open>crates/client-core/src/download.rs\<close> opens a verified version: small streams whole and
  content chunk by chunk through the caller's \<open>fetch\<close> and \<open>sink\<close>, small streams only, and a decryptor for
  ranges of content chunks.
\<close>

record stream_header =
  sh_manifest_bytes :: bytes
  sh_manifest_sig :: bytes
  sh_genesis_bytes :: bytes
  sh_genesis_sig :: bytes
  sh_wrapped_dek :: wrapped_dek
  sh_grant_bytes :: bytes
  sh_grant_sig :: bytes
  sh_ancestor_grants :: "(bytes \<times> bytes) list"
  sh_recovery_grant_bytes :: bytes
  sh_recovery_grant_sig :: bytes
  sh_small_streams :: "stream_chunks list"

record opened_header =
  oh_version :: u64
  oh_file_type :: file_type
  oh_content_digest :: bytes
  oh_recovery_grant_ok :: bool
  oh_content_chunk_count :: u64
  oh_small_streams :: "opened_stream list"

text \<open>The call of \<open>verify_header\<close> the three functions below share.\<close>

definition header_of :: "primitives \<Rightarrow> verify_context \<Rightarrow> stream_header
    \<Rightarrow> download_error + (manifest \<times> dek \<times> bool)" where
  "header_of P ctx header =
     verify_header P ctx (sh_manifest_bytes header) (sh_manifest_sig header)
       (sh_genesis_bytes header) (sh_genesis_sig header) (sh_grant_bytes header) (sh_grant_sig header)
       (sh_ancestor_grants header) (sh_recovery_grant_bytes header) (sh_recovery_grant_sig header)
       (sh_wrapped_dek header)"

section \<open>Small streams\<close>

fun open_small_loop :: "primitives \<Rightarrow> verify_context \<Rightarrow> manifest \<Rightarrow> dek \<Rightarrow> stream_chunks list \<Rightarrow> stream list
    \<Rightarrow> opened_stream list \<Rightarrow> stream option \<Rightarrow> download_error + (opened_stream list \<times> stream option)" where
  "open_small_loop P ctx manifest dek served [] small content_ms = Inr (small, content_ms)"
| "open_small_loop P ctx manifest dek served (ms # mss) small content_ms =
     (if sm_compression ms \<noteq> CompNone then Inl CompressionUnsupported
      else if sm_stream_type ms = StContent
      then open_small_loop P ctx manifest dek served mss small (Some ms)
      else rbind (ok_or (find (\<lambda>s. sc_stream_type s = sm_stream_type ms) served)
        (StreamMissing (sm_stream_type ms))) (\<lambda>provided.
      if word_of_nat (length (sc_chunks provided)) \<noteq> sm_chunk_count ms
      then Inl (FramingBoundsExceeded ''chunk_count mismatch'')
      else rbind (open_declared P ctx manifest dek ms provided) (\<lambda>opened.
      open_small_loop P ctx manifest dek served mss (small @ [opened]) content_ms)))"

definition open_small_streams :: "primitives \<Rightarrow> verify_context \<Rightarrow> manifest \<Rightarrow> dek \<Rightarrow> stream_chunks list
    \<Rightarrow> download_error + (opened_stream list \<times> stream)" where
  "open_small_streams P ctx manifest dek small_streams =
     rbind (open_small_loop P ctx manifest dek small_streams (ma_streams manifest) [] None) (\<lambda>(small, found).
     rbind (ok_or found (StreamMissing StContent)) (\<lambda>content_ms.
     if \<not> addressable manifest content_ms then Inl (FramingBoundsExceeded ''addressable size'')
     else Inr (small, content_ms)))"

section \<open>Streaming the content\<close>

text \<open>The bridges: a caller error is kept in the cell \<open>user_err\<close>, beside the caller's state, and a
  sentinel goes to the crypto layer.\<close>

definition fetch_bridge :: "(u64 \<Rightarrow> 's \<Rightarrow> (download_error + bytes) \<times> 's) \<Rightarrow> u64
    \<Rightarrow> 's \<times> download_error option \<Rightarrow> (crypto_error + bytes) \<times> ('s \<times> download_error option)" where
  "fetch_bridge fetch i = (\<lambda>(s, user_err). case fetch i s of
       (Inl e, s) \<Rightarrow> (Inl (Framing ''fetch''), (s, Some e))
     | (Inr ct, s) \<Rightarrow> (Inr ct, (s, user_err)))"

definition sink_bridge :: "(bytes \<Rightarrow> 's \<Rightarrow> (download_error + unit) \<times> 's) \<Rightarrow> bytes
    \<Rightarrow> 's \<times> download_error option \<Rightarrow> (crypto_error + unit) \<times> ('s \<times> download_error option)" where
  "sink_bridge sink frame = (\<lambda>(s, user_err). case sink frame s of
       (Inl e, s) \<Rightarrow> (Inl (Framing ''sink''), (s, Some e))
     | (Inr u, s) \<Rightarrow> (Inr u, (s, user_err)))"

definition opened_header_of :: "manifest \<Rightarrow> bool \<Rightarrow> stream \<Rightarrow> opened_stream list \<Rightarrow> opened_header" where
  "opened_header_of manifest recovery_grant_ok content_ms small =
     \<lparr>oh_version = ma_version manifest, oh_file_type = ma_file_type manifest,
      oh_content_digest = b32_raw (sm_digest content_ms), oh_recovery_grant_ok = recovery_grant_ok,
      oh_content_chunk_count = sm_chunk_count content_ms, oh_small_streams = small\<rparr>"

definition verify_and_stream_content :: "primitives \<Rightarrow> verify_context \<Rightarrow> stream_header
    \<Rightarrow> (u64 \<Rightarrow> 's \<Rightarrow> (download_error + bytes) \<times> 's) \<Rightarrow> (bytes \<Rightarrow> 's \<Rightarrow> (download_error + unit) \<times> 's) \<Rightarrow> 's
    \<Rightarrow> (download_error + opened_header) \<times> 's" where
  "verify_and_stream_content P ctx header fetch sink s =
     (case rbind (header_of P ctx header) (\<lambda>(manifest, dek, recovery_grant_ok).
         rbind (open_small_streams P ctx manifest dek (sh_small_streams header)) (\<lambda>(small, content_ms).
         Inr (manifest, dek, recovery_grant_ok, small, content_ms))) of
        Inl e \<Rightarrow> (Inl e, s)
      | Inr (manifest, dek, recovery_grant_ok, small, content_ms) \<Rightarrow>
          let ck = stream_subkey P dek StContent in
          case open_stream_streaming (pr_gcm_open P) ck (vx_file_id ctx) (ma_version manifest) StContent
              (sm_chunk_count content_ms) (fetch_bridge fetch) (sink_bridge sink) (s, None) of
            (Inl _, (s, user_err)) \<Rightarrow>
              (Inl (case user_err of Some e \<Rightarrow> e | None \<Rightarrow> StreamFraming StContent), s)
          | (Inr _, (s, _)) \<Rightarrow> (Inr (opened_header_of manifest recovery_grant_ok content_ms small), s))"

definition verify_and_open_headers :: "primitives \<Rightarrow> verify_context \<Rightarrow> stream_header
    \<Rightarrow> download_error + opened_header" where
  "verify_and_open_headers P ctx header =
     rbind (header_of P ctx header) (\<lambda>(manifest, dek, recovery_grant_ok).
     rbind (open_small_streams P ctx manifest dek (sh_small_streams header)) (\<lambda>(small, content_ms).
     Inr (opened_header_of manifest recovery_grant_ok content_ms small)))"

section \<open>Random access\<close>

record content_decryptor =
  cd_content_subkey :: bytes
  cd_file_id :: ident
  cd_version :: u64
  cd_content_chunk_count :: u64

text \<open>The loop of \<open>open_range\<close>; \<open>chunk_start + j\<close> stays below the checked end.\<close>

fun open_range_loop :: "primitives \<Rightarrow> content_decryptor \<Rightarrow> u64 \<Rightarrow> u64 \<Rightarrow> (nat \<times> bytes) list \<Rightarrow> bytes
    \<Rightarrow> download_error + bytes" where
  "open_range_loop P d chunk_start last_index [] out = Inr out"
| "open_range_loop P d chunk_start last_index ((j, ct) # cts) out =
     (let i = chunk_start + word_of_nat j;
          aad = \<lparr>ca_file_id = cd_file_id d, ca_version = cd_version d, ca_stream_type = StContent,
            ca_chunk_index = i, ca_is_last = (i = last_index)\<rparr>
      in rbind (map_err (\<lambda>_. StreamFraming StContent)
        (open_chunk (pr_gcm_open P) (cd_content_subkey d) aad ct)) (\<lambda>pt.
      open_range_loop P d chunk_start last_index cts (out @ pt)))"

definition open_range :: "primitives \<Rightarrow> content_decryptor \<Rightarrow> u64 \<Rightarrow> bytes list \<Rightarrow> download_error + bytes" where
  "open_range P d chunk_start chunks_ciphertext =
     (let len = word_of_nat (length chunks_ciphertext);
          in_range = (case checked_add chunk_start len of
              Some end_index \<Rightarrow> end_index \<le> cd_content_chunk_count d | None \<Rightarrow> False)
      in if \<not> in_range then Inl (FramingBoundsExceeded ''content fragment range'')
         else if cd_content_chunk_count d = 0 then Inl ArithmeticPanic
         else
           let last_index = cd_content_chunk_count d - 1
           in open_range_loop P d chunk_start last_index (enumerate 0 chunks_ciphertext) [])"

text \<open>The search of \<open>open_content_decryptor\<close> stops at the content stream.\<close>

fun find_content :: "stream list \<Rightarrow> download_error + stream option" where
  "find_content [] = Inr None"
| "find_content (ms # mss) =
     (if sm_stream_type ms = StContent
      then (if sm_compression ms \<noteq> CompNone then Inl CompressionUnsupported else Inr (Some ms))
      else find_content mss)"

definition open_content_decryptor :: "primitives \<Rightarrow> verify_context \<Rightarrow> stream_header
    \<Rightarrow> download_error + content_decryptor" where
  "open_content_decryptor P ctx header =
     rbind (header_of P ctx header) (\<lambda>(manifest, dek, _).
     rbind (find_content (ma_streams manifest)) (\<lambda>found.
     rbind (ok_or found (StreamMissing StContent)) (\<lambda>content_ms.
     if sm_chunk_count content_ms = 0 then Inl (StreamFraming StContent)
     else if \<not> addressable manifest content_ms then Inl (FramingBoundsExceeded ''addressable size'')
     else Inr \<lparr>cd_content_subkey = stream_subkey P dek StContent, cd_file_id = vx_file_id ctx,
       cd_version = ma_version manifest, cd_content_chunk_count = sm_chunk_count content_ms\<rparr>)))"

end
