(* ===== verification/Download_Laws.thy ===== *)
theory Download_Laws
  imports GrantChain DownloadStream
begin

text \<open>
  What a verified download means: the ladder accepts exactly authentic versions, the ways of opening a file
  agree with one another, and a range of chunks is the corresponding slice of the sealed content.
\<close>

section \<open>The header ladder as one condition\<close>

definition signed_manifest :: "primitives \<Rightarrow> verify_context \<Rightarrow> bytes \<Rightarrow> bytes \<Rightarrow> manifest \<Rightarrow> bool" where
  "signed_manifest P ctx mb ms m \<longleftrightarrow> ok_manifest m \<and> mb = encode TYPE_MANIFEST put_manifest m \<and>
     ma_file_id m = vx_file_id ctx \<and> CHUNK_SIZE_MIN \<le> ma_chunk_size m \<and> ma_chunk_size m \<le> CHUNK_SIZE_MAX \<and>
     verify P (vx_author_sig_pub ctx) L_MANIFEST TYPE_MANIFEST put_manifest m ms"

definition owner_genesis :: "primitives \<Rightarrow> verify_context \<Rightarrow> bytes \<Rightarrow> bytes \<Rightarrow> ident \<Rightarrow> bool" where
  "owner_genesis P ctx gb gs owner \<longleftrightarrow> (\<exists>g. ok_genesis g \<and> gb = encode TYPE_GENESIS put_genesis g \<and>
     ge_file_id g = vx_file_id ctx \<and> ge_owner_id g = owner \<and>
     verify P (vx_owner_sig_pub ctx) L_GENESIS TYPE_GENESIS put_genesis g gs \<and> \<not> genesis_after_compromise ctx g)"

definition unrevoked :: "verify_context \<Rightarrow> manifest \<Rightarrow> bool" where
  "unrevoked ctx m \<longleftrightarrow> (case vx_tombstones ctx of None \<Rightarrow> True
     | Some ts \<Rightarrow> \<not> is_account_revoked ts (id_raw (ma_author_id m)) \<and>
         \<not> is_revoked ts (id_raw (vx_recipient_id ctx)) (id_raw (vx_file_id ctx)) (ma_version m))"

definition fresh_version :: "u64 \<Rightarrow> u64 option \<Rightarrow> bool" where
  "fresh_version served seen_max \<longleftrightarrow> (case seen_max of None \<Rightarrow> served \<le> FIRST_CONTACT_VERSION_CEILING
     | Some seen \<Rightarrow> seen \<noteq> -1 \<and> (served = seen \<or> served = seen + 1))"

definition granted_read :: "primitives \<Rightarrow> verify_context \<Rightarrow> bytes \<Rightarrow> bytes \<Rightarrow> (bytes \<times> bytes) list \<Rightarrow> manifest \<Rightarrow> bool" where
  "granted_read P ctx grb grs ancestors m \<longleftrightarrow> (\<exists>g. ok_grant g \<and> grb = encode TYPE_GRANT put_grant g \<and>
     gr_file_id g = vx_file_id ctx \<and> gr_file_version g = ma_version m \<and>
     gr_recipient_id g = vx_recipient_id ctx \<and> gr_recipient_type g = vx_recipient_type ctx \<and>
     gr_dek_commit g = ma_dek_commit m \<and>
     verify_grant_chain P g grs ancestors (ma_file_id m) (ma_version m) (ma_dek_commit m) (ma_author_id m)
       (vx_author_sig_pub ctx) (vx_granter_sig_pub ctx) (Some (vx_admin_sig_pub ctx)) = Inr ())"

lemma unat_Suc_word:
  assumes "(seen :: u64) \<noteq> -1"
  shows "unat (seen + 1) = unat seen + 1" "unat seen + 1 < 2 ^ 64"
proof -
  have "unat seen \<noteq> unat (-1 :: u64)" using assms by (simp add: word_unat_eq_iff)
  then have "unat seen \<noteq> 2 ^ 64 - 1" by (simp add: unsigned_minus_1_eq_mask mask_eq_exp_minus_1)
  then show 1: "unat seen + 1 < 2 ^ 64" using unat_u64_bound [of seen] by simp
  then show "unat (seen + 1) = unat seen + 1" by (simp add: unat_word_ariths)
qed

lemma checked_add_one: "checked_add seen 1 = (if seen = -1 then None else Some (seen + 1))"
  using unat_Suc_word [of seen] by (auto simp: checked_add_def unsigned_minus_1_eq_mask mask_eq_exp_minus_1)

lemma version_acceptable_Inr:
  "version_acceptable served seen_max = Inr u \<longleftrightarrow> fresh_version served seen_max"
proof (cases seen_max)
  case (Some seen)
  have "\<not> served < seen \<and> \<not> seen + 1 < served \<longleftrightarrow> served = seen \<or> served = seen + 1" if "seen \<noteq> -1"
    using unat_Suc_word(1) [OF that] by (auto simp: word_less_nat_alt word_unat_eq_iff)
  then show ?thesis
    by (auto simp: Some version_acceptable_def fresh_version_def checked_add_one split: if_splits)
qed (auto simp: version_acceptable_def fresh_version_def not_less)

lemma check_tombstones_Inr: "check_tombstones ctx m = Inr u \<longleftrightarrow> unrevoked ctx m"
  by (auto simp: check_tombstones_def unrevoked_def split: option.splits)

lemma check_grant_fields_Inr:
  "check_grant_fields g m ctx = Inr u \<longleftrightarrow> gr_file_id g = vx_file_id ctx \<and> gr_file_version g = ma_version m \<and>
     gr_recipient_id g = vx_recipient_id ctx \<and> gr_recipient_type g = vx_recipient_type ctx \<and>
     gr_dek_commit g = ma_dek_commit m"
  by (auto simp: check_grant_fields_def)

lemma verify_header_Inr:
  "verify_header P ctx mb ms gb gs grb grs ancestors rb rs w = Inr (m, dek, r) \<longleftrightarrow>
     signed_manifest P ctx mb ms m \<and> owner_genesis P ctx gb gs (ma_author_id m) \<and> unrevoked ctx m \<and>
     fresh_version (ma_version m) (vx_seen_max_version ctx) \<and> granted_read P ctx grb grs ancestors m \<and>
     unwrap_for P ctx m w = Inr dek \<and> commit P dek = b32_raw (ma_dek_commit m) \<and>
     r = recovery_grant_valid P rb rs m (vx_author_sig_pub ctx) (ma_author_id m)"
    (is "?header = _ \<longleftrightarrow> ?accepted")
proof
  assume "?header = Inr (m, dek, r)"
  then show ?accepted
    unfolding verify_header_def rbind_eq_Inr guard_Inr map_err_eq_Inr manifest.decode_iff genesis.decode_iff
      decode_grant_iff check_tombstones_Inr version_acceptable_Inr check_grant_fields_Inr Let_def
    by (clarsimp simp: signed_manifest_def owner_genesis_def granted_read_def not_less guard_Inr) blast
next
  assume acc: ?accepted
  then have m: "decode TYPE_MANIFEST put_manifest get_manifest mb = Inr m"
    by (simp add: signed_manifest_def manifest.decode_iff)
  from acc obtain ge where ge: "decode TYPE_GENESIS put_genesis get_genesis gb = Inr ge"
    "ge_file_id ge = vx_file_id ctx" "ge_owner_id ge = ma_author_id m" "\<not> genesis_after_compromise ctx ge"
    "verify P (vx_owner_sig_pub ctx) L_GENESIS TYPE_GENESIS put_genesis ge gs"
    unfolding owner_genesis_def genesis.decode_iff by blast
  from acc obtain g where g: "decode_grant grb = Inr g" "check_grant_fields g m ctx = Inr ()"
    "verify_grant_chain P g grs ancestors (ma_file_id m) (ma_version m) (ma_dek_commit m) (ma_author_id m)
       (vx_author_sig_pub ctx) (vx_granter_sig_pub ctx) (Some (vx_admin_sig_pub ctx)) = Inr ()"
    unfolding granted_read_def decode_grant_iff check_grant_fields_Inr by blast
  from acc have "check_tombstones ctx m = Inr ()"
    "version_acceptable (ma_version m) (vx_seen_max_version ctx) = Inr ()"
    unfolding check_tombstones_Inr version_acceptable_Inr by blast+
  with acc m ge g show "?header = Inr (m, dek, r)"
    unfolding verify_header_def by (simp add: signed_manifest_def not_less)
qed

section \<open>Whole-buffer open\<close>

definition stream_opens :: "primitives \<Rightarrow> verify_context \<Rightarrow> manifest \<Rightarrow> dek \<Rightarrow> stream_chunks list \<Rightarrow> stream
    \<Rightarrow> opened_stream \<Rightarrow> bool" where
  "stream_opens P ctx m dek served ms os \<longleftrightarrow> sm_compression ms = CompNone \<and> addressable m ms \<and>
     (\<exists>p. find (\<lambda>s. sc_stream_type s = sm_stream_type ms) served = Some p \<and>
        word_of_nat (length (sc_chunks p)) = sm_chunk_count ms \<and> open_declared P ctx m dek ms p = Inr os)"

definition content_digest_of :: "stream list \<Rightarrow> bytes \<Rightarrow> bytes" where
  "content_digest_of mss d = fold (\<lambda>ms d. if sm_stream_type ms = StContent then b32_raw (sm_digest ms) else d) mss d"

lemma open_streams_Inr:
  "open_streams P ctx m dek served mss acc d = Inr (ss, d') \<longleftrightarrow>
     (\<exists>new. ss = acc @ new \<and> list_all2 (stream_opens P ctx m dek served) mss new) \<and> d' = content_digest_of mss d"
proof (induction mss arbitrary: acc d)
  case (Cons ms mss)
  show ?case
    by (auto simp: Cons.IH result_simps guard_Inr stream_opens_def content_digest_of_def list_all2_Cons1)
qed (auto simp: content_digest_of_def)

lemma opened_type: "stream_opens P ctx m dek served ms os \<Longrightarrow> os_stream_type os = sm_stream_type ms"
  by (auto simp: stream_opens_def open_declared_def result_simps guard_Inr Let_def)

lemma verify_and_open_Inr:
  "verify_and_open P ctx b = Inr f \<longleftrightarrow>
     (\<exists>m dek. signed_manifest P ctx (db_manifest_bytes b) (db_manifest_sig b) m \<and>
        owner_genesis P ctx (db_genesis_bytes b) (db_genesis_sig b) (ma_author_id m) \<and>
        unrevoked ctx m \<and> fresh_version (ma_version m) (vx_seen_max_version ctx) \<and>
        granted_read P ctx (db_grant_bytes b) (db_grant_sig b) (db_ancestor_grants b) m \<and>
        unwrap_for P ctx m (db_wrapped_dek b) = Inr dek \<and> commit P dek = b32_raw (ma_dek_commit m) \<and>
        list_all2 (stream_opens P ctx m dek (db_streams b)) (ma_streams m) (of_streams f) \<and>
        of_version f = ma_version m \<and> of_file_type f = ma_file_type m \<and>
        of_content_digest f = content_digest_of (ma_streams m) (replicate 32 0) \<and>
        of_recovery_grant_ok f = recovery_grant_valid P (db_recovery_grant_bytes b)
          (db_recovery_grant_sig b) m (vx_author_sig_pub ctx) (ma_author_id m))"
  by (cases f) (auto simp: verify_and_open_def result_simps verify_header_Inr open_streams_Inr)

section \<open>Small streams\<close>

abbreviation is_content :: "stream \<Rightarrow> bool" where "is_content ms \<equiv> sm_stream_type ms = StContent"

lemma open_small_loop_agrees:
  "list_all2 (stream_opens P ctx m dek served) mss new \<Longrightarrow>
     open_small_loop P ctx m dek served mss acc found =
       Inr (acc @ filter (\<lambda>s. os_stream_type s \<noteq> StContent) new,
         fold (\<lambda>ms found. if is_content ms then Some ms else found) mss found)"
proof (induction mss new arbitrary: acc found rule: list_all2_induct)
  case (Cons ms mss s new)
  then show ?case using opened_type [OF Cons.hyps(1)] by (auto simp: stream_opens_def)
qed simp

lemma ascending_one_content:
  "strictly_ascending stream_key mss \<Longrightarrow> ms \<in> set mss \<Longrightarrow> is_content ms \<Longrightarrow> filter is_content mss = [ms]"
proof -
  assume asc: "strictly_ascending stream_key mss" and ms: "ms \<in> set mss" "is_content ms"
  have "distinct (map stream_key mss)" by (rule strictly_ascending_distinct [OF asc])
  then have "x = ms" if "x \<in> set mss" "is_content x" for x
    using that ms by (auto simp: distinct_map stream_key_def inj_on_def)
  with ms have "set (filter is_content mss) = {ms}" unfolding set_filter by blast
  moreover have "distinct (filter is_content mss)"
    using \<open>distinct (map stream_key mss)\<close> by (simp add: distinct_map)
  ultimately have "length (filter is_content mss) = 1" using distinct_card [of "filter is_content mss"] by simp
  with \<open>set (filter is_content mss) = {ms}\<close> show ?thesis
    by (cases "filter is_content mss") auto
qed

lemma fold_found: "fold (\<lambda>ms found. if is_content ms then Some ms else found) mss found =
   (case filter is_content mss of [] \<Rightarrow> found | xs \<Rightarrow> Some (List.last xs))"
  by (induction mss arbitrary: found) (auto split: list.splits)

lemma fold_digest: "content_digest_of mss d =
   (case filter is_content mss of [] \<Rightarrow> d | xs \<Rightarrow> b32_raw (sm_digest (List.last xs)))"
  unfolding content_digest_of_def by (induction mss arbitrary: d) (auto split: list.splits)

lemma find_content_filter: "\<forall>ms \<in> set mss. sm_compression ms = CompNone \<Longrightarrow>
   find_content mss = Inr (case filter is_content mss of [] \<Rightarrow> None | ms # _ \<Rightarrow> Some ms)"
  by (induction mss) auto

section \<open>The content chunk by chunk\<close>

lemma word_of_nat_eq: "i < 2 ^ 64 \<Longrightarrow> j < 2 ^ 64 \<Longrightarrow> (word_of_nat i :: u64) = word_of_nat j \<longleftrightarrow> i = j"
proof
  assume ij: "i < 2 ^ 64" "j < 2 ^ 64" and "(word_of_nat i :: u64) = word_of_nat j"
  then have "unat (word_of_nat i :: u64) = unat (word_of_nat j :: u64)" by simp
  with ij show "i = j" by (simp add: unat_of_nat)
qed simp

lemma word_last: "k < n \<Longrightarrow> n < 2 ^ 64 \<Longrightarrow> (word_of_nat k :: u64) = word_of_nat n - 1 \<longleftrightarrow> k = n - 1"
proof -
  assume kn: "k < n" "n < 2 ^ 64"
  then have "word_of_nat n = (word_of_nat (n - 1) + 1 :: u64)" by (metis Suc_pred' add.commute gr_implies_not_zero
        not_gr_zero of_nat_Suc)
  then have last_i: "word_of_nat n - 1 = (word_of_nat (n - 1) :: u64)" by (metis add_diff_cancel_right')
  show ?thesis unfolding last_i by (rule word_of_nat_eq) (use kn in simp_all)
qed

text \<open>A fetcher that serves a list of chunks and a sink that keeps what it is given.\<close>

definition serve_chunks :: "bytes list \<Rightarrow> u64 \<Rightarrow> 's \<Rightarrow> (download_error + bytes) \<times> 's" where
  "serve_chunks chunks i s = (Inr (chunks ! unat i), s)"

definition collect_content :: "bytes \<Rightarrow> bytes \<Rightarrow> (download_error + unit) \<times> bytes" where
  "collect_content pt s = (Inr (), s @ pt)"

lemma streams_like_open:
  assumes "length chunks < 2 ^ 64" and "k \<le> length chunks"
    and "open_loop go ck fid v t (length chunks) (enumerate k (drop k chunks)) out = Inr res"
  shows "open_streaming_loop go ck fid v t (word_of_nat (length chunks)) (fetch_bridge (serve_chunks chunks))
    (sink_bridge collect_content) (map word_of_nat [k..<length chunks]) (out, None) = (Inr (), (res, None))"
  using assms(2,3)
proof (induction "length chunks - k" arbitrary: k out)
  case (Suc m)
  then have k: "k < length chunks" by simp
  have enum: "enumerate k (drop k chunks) = (k, chunks ! k) # enumerate (Suc k) (drop (Suc k) chunks)"
    using k by (simp add: Cons_nth_drop_Suc [symmetric])
  have upt: "[k..<length chunks] = k # [Suc k..<length chunks]" using k by (simp add: upt_conv_Cons)
  have un: "unat (word_of_nat k :: u64) = k" using k assms(1) by (simp add: unat_of_nat)
  from Suc.prems(2) obtain pt where pt: "open_chunk go ck (chunk_aad_at fid v t (word_of_nat k) (k = length chunks - 1))
      (chunks ! k) = Inr pt" "open_loop go ck fid v t (length chunks) (enumerate (Suc k) (drop (Suc k) chunks))
      (out @ pt) = Inr res" unfolding enum by (auto simp: result_simps)
  from Suc.hyps(1) [OF _ _ pt(2)] Suc.hyps(2) k pt(1) show ?case
    by (simp add: upt un word_last [OF k assms(1)] fetch_bridge_def sink_bridge_def serve_chunks_def
        collect_content_def)
qed simp

text \<open>One chunk of a range is the same chunk of the stream.\<close>

lemma open_range_loop_Inr:
  assumes "open_range_loop P d start last_i (enumerate k cts) out = Inr res"
    and "sealed_only (pr_gcm_open P) (cd_content_subkey d) fid v StContent frames" and "ok_id fid"
    and "ok_id (cd_file_id d)" and "length frames < 2 ^ 64" and "unat start + k + length cts \<le> length frames"
  shows "res = out @ concat (take (length cts) (drop (unat start + k) frames))"
  using assms(1,6)
proof (induction cts arbitrary: k out)
  case (Cons ct cts)
  let ?i = "unat start + k"
  have i: "start + word_of_nat k = (word_of_nat ?i :: u64)" by simp
  from Cons.prems(1) obtain pt where pt: "open_chunk (pr_gcm_open P) (cd_content_subkey d)
      (chunk_aad_at (cd_file_id d) (cd_version d) StContent (start + word_of_nat k) (start + word_of_nat k = last_i)) ct = Inr pt"
    and rest: "open_range_loop P d start last_i (enumerate (Suc k) cts) (out @ pt) = Inr res"
    by (auto simp: result_simps Let_def chunk_aad_at_def)
  note pt = pt [unfolded i]
  have "?i < 2 ^ 64" using Cons.prems(2) assms(5) by simp
  from opened_chunk_position [OF assms(2-5) this pt] have "pt = frames ! ?i" by simp
  moreover have "drop ?i frames = frames ! ?i # drop (Suc ?i) frames"
    using Cons.prems(2) by (intro Cons_nth_drop_Suc [symmetric]) simp
  moreover have "res = (out @ pt) @ concat (take (length cts) (drop (unat start + Suc k) frames))"
    by (rule Cons.IH [OF rest]) (use Cons.prems(2) in simp)
  ultimately show ?case by simp
qed simp

lemma open_range_loop_whole:
  "k + length cts = n \<Longrightarrow> n < 2 ^ 64 \<Longrightarrow>
     open_range_loop P d 0 (word_of_nat n - 1) (enumerate k cts) out =
       map_err (\<lambda>_. StreamFraming StContent) (open_loop (pr_gcm_open P) (cd_content_subkey d) (cd_file_id d)
         (cd_version d) StContent n (enumerate k cts) out)"
proof (induction cts arbitrary: k out)
  case (Cons ct cts)
  then have "k < n" by simp
  from Cons show ?case
    by (cases "open_chunk (pr_gcm_open P) (cd_content_subkey d) (chunk_aad_at (cd_file_id d) (cd_version d)
        StContent (word_of_nat k) (k = n - 1)) ct")
      (simp_all add: word_last [OF \<open>k < n\<close>] chunk_aad_at_def)
qed simp

section \<open>The ways of opening agree\<close>

text \<open>C2: A whole-buffer open succeeds exactly on an authentic version: the manifest is canonical, for the
  requested file and signed by the author's key; the owner signed the genesis, is the author and is not
  compromised before it; neither author nor reader is revoked; the version is fresh; the reader's grant
  binds file, version, reader and key and chains to the author or an administrator; the wrap opens to the
  committed key; and every declared stream is uncompressed, served with the declared number of chunks and
  digest, and decrypts under its own subkey.\<close>

theorem opens_iff_authentic:
  "verify_and_open P ctx b = Inr f \<longleftrightarrow>
     (\<exists>m dek. signed_manifest P ctx (db_manifest_bytes b) (db_manifest_sig b) m \<and>
        owner_genesis P ctx (db_genesis_bytes b) (db_genesis_sig b) (ma_author_id m) \<and>
        unrevoked ctx m \<and> fresh_version (ma_version m) (vx_seen_max_version ctx) \<and>
        granted_read P ctx (db_grant_bytes b) (db_grant_sig b) (db_ancestor_grants b) m \<and>
        unwrap_for P ctx m (db_wrapped_dek b) = Inr dek \<and> commit P dek = b32_raw (ma_dek_commit m) \<and>
        list_all2 (stream_opens P ctx m dek (db_streams b)) (ma_streams m) (of_streams f) \<and>
        of_version f = ma_version m \<and> of_file_type f = ma_file_type m \<and>
        of_content_digest f = content_digest_of (ma_streams m) (replicate 32 0) \<and>
        of_recovery_grant_ok f = recovery_grant_valid P (db_recovery_grant_bytes b)
          (db_recovery_grant_sig b) m (vx_author_sig_pub ctx) (ma_author_id m))"
  by (rule verify_and_open_Inr)

text \<open>The records of a bundle with all its streams offered as small streams.\<close>

definition header_from :: "download_bundle \<Rightarrow> stream_header" where
  "header_from b = \<lparr>sh_manifest_bytes = db_manifest_bytes b, sh_manifest_sig = db_manifest_sig b,
     sh_genesis_bytes = db_genesis_bytes b, sh_genesis_sig = db_genesis_sig b,
     sh_wrapped_dek = db_wrapped_dek b, sh_grant_bytes = db_grant_bytes b, sh_grant_sig = db_grant_sig b,
     sh_ancestor_grants = db_ancestor_grants b, sh_recovery_grant_bytes = db_recovery_grant_bytes b,
     sh_recovery_grant_sig = db_recovery_grant_sig b, sh_small_streams = db_streams b\<rparr>"

lemma opened_content:
  assumes "list_all2 (stream_opens P ctx m dek served) mss new" and "cs \<in> set new"
    and "os_stream_type cs = StContent"
  obtains ms where "ms \<in> set mss" "is_content ms" "stream_opens P ctx m dek served ms cs"
  using assms by (metis list_all2_conv_all_nth in_set_conv_nth opened_type)

lemma opened_header_facts:
  assumes "header_of P ctx h = Inr (m, dek, r)" and "filter is_content (ma_streams m) = [ms]"
    and "list_all2 (stream_opens P ctx m dek (sh_small_streams h)) (ma_streams m) new"
  shows "open_small_streams P ctx m dek (sh_small_streams h) =
      Inr (filter (\<lambda>s. os_stream_type s \<noteq> StContent) new, ms)"
    and "find_content (ma_streams m) = Inr (Some ms)"
proof -
  from assms(2) have ms: "ms \<in> set (ma_streams m)" by (metis list.set_intros(1) filter_is_subset subsetD)
  have opens: "sm_compression x = CompNone \<and> addressable m x" if "x \<in> set (ma_streams m)" for x
    using assms(3) that by (auto simp: list_all2_conv_all_nth in_set_conv_nth stream_opens_def)
  show "find_content (ma_streams m) = Inr (Some ms)"
    using opens find_content_filter [of "ma_streams m"] assms(2) by simp
  show "open_small_streams P ctx m dek (sh_small_streams h) =
      Inr (filter (\<lambda>s. os_stream_type s \<noteq> StContent) new, ms)"
    using opens [OF ms] assms(2)
    by (simp add: open_small_streams_def open_small_loop_agrees [OF assms(3)] fold_found)
qed

lemma opened_declared_content:
  assumes "open_declared P ctx m dek ms p = Inr cs" and "is_content ms" and "length (sc_chunks p) < 2 ^ 64"
    and "word_of_nat (length (sc_chunks p)) = sm_chunk_count ms"
  shows "open_stream_streaming (pr_gcm_open P) (stream_subkey P dek StContent) (vx_file_id ctx) (ma_version m)
      StContent (sm_chunk_count ms) (fetch_bridge (serve_chunks (sc_chunks p))) (sink_bridge collect_content)
      ([], None) = (Inr (), (os_plaintext cs, None))" (is ?stream)
    and "sm_chunk_count ms \<noteq> 0"
    and "open_range P \<lparr>cd_content_subkey = stream_subkey P dek StContent, cd_file_id = vx_file_id ctx,
      cd_version = ma_version m, cd_content_chunk_count = sm_chunk_count ms\<rparr> 0 (sc_chunks p) =
      Inr (os_plaintext cs)" (is ?range)
proof -
  let ?cts = "sc_chunks p"
  have op: "open_stream (pr_gcm_open P) (stream_subkey P dek StContent) (vx_file_id ctx) (ma_version m) StContent
      ?cts = Inr (os_plaintext cs)"
    using assms(1,2) by (auto simp: open_declared_def result_simps guard_Inr Let_def)
  then have ne: "?cts \<noteq> []" and loop: "open_loop (pr_gcm_open P) (stream_subkey P dek StContent)
      (vx_file_id ctx) (ma_version m) StContent (length ?cts) (enumerate 0 ?cts) [] = Inr (os_plaintext cs)"
    by (auto simp: open_stream_def split: if_splits)
  have un: "unat (sm_chunk_count ms) = length ?cts" using assms(3) assms(4) [symmetric] by (simp add: unat_of_nat)
  with ne show pos: "sm_chunk_count ms \<noteq> 0" by (metis length_0_conv unat_0)
  from streams_like_open [OF assms(3), of 0] loop pos show ?stream
    by (simp add: open_stream_streaming_def un) (simp add: assms(4))
  have "checked_add 0 (sm_chunk_count ms) = Some (sm_chunk_count ms)"
    using unat_u64_bound [of "sm_chunk_count ms"] by (simp add: checked_add_def)
  then show ?range using pos loop open_range_loop_whole [of 0 ?cts, OF add_0 assms(3)]
    by (simp add: open_range_def Let_def assms(4))
qed

lemma paths_agree_lemma:
  assumes "verify_and_open P ctx b = Inr f" and "cs \<in> set (of_streams f)" and "os_stream_type cs = StContent"
    and "find (\<lambda>s. sc_stream_type s = StContent) (db_streams b) = Some p" and "length (sc_chunks p) < 2 ^ 64"
  shows "\<exists>oh d. verify_and_open_headers P ctx (header_from b) = Inr oh \<and>
    verify_and_stream_content P ctx (header_from b) (serve_chunks (sc_chunks p)) collect_content [] =
      (Inr oh, os_plaintext cs) \<and>
    open_content_decryptor P ctx (header_from b) = Inr d \<and>
    open_range P d 0 (sc_chunks p) = Inr (os_plaintext cs) \<and>
    oh_version oh = of_version f \<and> oh_file_type oh = of_file_type f \<and>
    oh_content_digest oh = of_content_digest f \<and> oh_recovery_grant_ok oh = of_recovery_grant_ok f \<and>
    oh_small_streams oh = filter (\<lambda>s. os_stream_type s \<noteq> StContent) (of_streams f)"
proof -
  from assms(1) obtain m dek where
    hd: "header_of P ctx (header_from b) = Inr (m, dek, of_recovery_grant_ok f)"
    and opens: "list_all2 (stream_opens P ctx m dek (sh_small_streams (header_from b))) (ma_streams m) (of_streams f)"
    and f: "of_version f = ma_version m" "of_file_type f = ma_file_type m"
      "of_content_digest f = content_digest_of (ma_streams m) (replicate 32 0)" and m: "ok_manifest m"
    unfolding verify_and_open_Inr by (auto simp: header_of_def header_from_def verify_header_Inr signed_manifest_def)
  from opened_content [OF opens assms(2,3)] obtain ms where ms: "ms \<in> set (ma_streams m)" "is_content ms"
    "stream_opens P ctx m dek (sh_small_streams (header_from b)) ms cs" .
  from m have "strictly_ascending stream_key (ma_streams m)" by (simp add: ok_manifest_def)
  from ascending_one_content [OF this ms(1,2)] have one: "filter is_content (ma_streams m) = [ms]" .
  from ms(2,3) assms(4) have p: "open_declared P ctx m dek ms p = Inr cs"
    "word_of_nat (length (sc_chunks p)) = sm_chunk_count ms" "addressable m ms"
    by (auto simp: stream_opens_def header_from_def)
  note content = opened_declared_content [OF p(1) ms(2) assms(5) p(2)]
  note small = opened_header_facts [OF hd one opens]
  show ?thesis
    using content(2) p(3)
    by (simp add: verify_and_open_headers_def verify_and_stream_content_def open_content_decryptor_def hd small
        content opened_header_of_def f fold_digest one)
qed

text \<open>The four ways of opening agree: when a version with a content stream opens whole, then over the
  same records the header-only open succeeds with the same version, type, content digest, recovery flag and
  small streams; streaming the content returns the same header and delivers exactly the content; and the
  random-access decryptor opens the full range to it.\<close>

theorem opening_paths_agree:
  assumes "verify_and_open P ctx b = Inr f" and "cs \<in> set (of_streams f)" and "os_stream_type cs = StContent"
    and "find (\<lambda>s. sc_stream_type s = StContent) (db_streams b) = Some p" and "length (sc_chunks p) < 2 ^ 64"
  shows "\<exists>oh d. verify_and_open_headers P ctx (header_from b) = Inr oh \<and>
    verify_and_stream_content P ctx (header_from b) (serve_chunks (sc_chunks p)) collect_content [] =
      (Inr oh, os_plaintext cs) \<and>
    open_content_decryptor P ctx (header_from b) = Inr d \<and>
    open_range P d 0 (sc_chunks p) = Inr (os_plaintext cs) \<and>
    oh_version oh = of_version f \<and> oh_file_type oh = of_file_type f \<and>
    oh_content_digest oh = of_content_digest f \<and> oh_recovery_grant_ok oh = of_recovery_grant_ok f \<and>
    oh_small_streams oh = filter (\<lambda>s. os_stream_type s \<noteq> StContent) (of_streams f)"
  using assms by (rule paths_agree_lemma)

section \<open>Random access\<close>

lemma decryptor_facts:
  assumes "open_content_decryptor P ctx h = Inr d"
  shows "ok_id (cd_file_id d)" "cd_content_chunk_count d \<noteq> 0"
proof -
  from assms obtain m dek r where "header_of P ctx h = Inr (m, dek, r)" "cd_file_id d = vx_file_id ctx"
    "cd_content_chunk_count d \<noteq> 0"
    by (auto simp: open_content_decryptor_def result_simps guard_Inr)
  then show "ok_id (cd_file_id d)" "cd_content_chunk_count d \<noteq> 0"
    by (auto simp: header_of_def verify_header_Inr signed_manifest_def ok_manifest_def)
qed

lemma open_range_loop_no_panic: "open_range_loop P d start last_i cts out \<noteq> Inl ArithmeticPanic"
proof (induction cts arbitrary: out)
  case (Cons x cts)
  obtain j ct where "x = (j, ct)" by fastforce
  with Cons.IH show ?case by (auto simp: Let_def rbind_eq_Inl map_err_def split: sum.splits)
qed simp

text \<open>Random access returns slices: a decryptor never panics; and if its subkey only ever sealed the
  frames of the version with the signed chunk count, then whatever ciphertexts the server returns for a
  range, an accepted answer is exactly those frames of the plaintext, in place and in order.\<close>

theorem random_access_is_slice:
  assumes "open_content_decryptor P ctx h = Inr d"
    and "sealed_only (pr_gcm_open P) (cd_content_subkey d) fid v StContent frames" and "ok_id fid"
    and "cd_content_chunk_count d = word_of_nat (length frames)" and "length frames < 2 ^ 64"
    and "length cts < 2 ^ 64" and "open_range P d start cts = res"
  shows "res \<noteq> Inl ArithmeticPanic \<and>
    (case res of Inl _ \<Rightarrow> True | Inr out \<Rightarrow> out = concat (take (length cts) (drop (unat start) frames)))"
proof (cases res)
  case (Inl e)
  with assms(7) decryptor_facts(2) [OF assms(1)] open_range_loop_no_panic
  show ?thesis by (auto simp: open_range_def Let_def split: if_splits)
next
  case (Inr out)
  have un: "unat (word_of_nat (length cts) :: u64) = length cts" "unat (word_of_nat (length frames) :: u64) = length frames"
    using assms(5,6) by (simp_all add: unat_of_nat)
  from Inr assms(7) have "open_range_loop P d start (cd_content_chunk_count d - 1) (enumerate 0 cts) [] = Inr out"
    and range: "\<exists>e. checked_add start (word_of_nat (length cts)) = Some e \<and> e \<le> cd_content_chunk_count d"
    by (auto simp: open_range_def Let_def split: if_splits option.splits)
  moreover have "unat start + 0 + length cts \<le> length frames"
  proof -
    from range have sum: "unat start + length cts < 2 ^ 64"
      and "start + word_of_nat (length cts) \<le> (word_of_nat (length frames) :: u64)"
      by (auto simp: checked_add_def un assms(4) split: if_splits)
    then have "unat (start + word_of_nat (length cts)) \<le> length frames" by (simp add: word_le_nat_alt un(2))
    with sum show ?thesis by (simp add: unat_word_ariths un(1))
  qed
  ultimately have "out = [] @ concat (take (length cts) (drop (unat start + 0) frames))"
    using open_range_loop_Inr [OF _ assms(2,3) decryptor_facts(1) [OF assms(1)] assms(5)] by blast
  with Inr show ?thesis by simp
qed

section \<open>A concrete download\<close>

text \<open>User 1 owns file 7 and grants user 3; two content chunks; every primitive is a toy.\<close>

definition toy_stream :: stream where
  "toy_stream = \<lparr>sm_stream_type = StContent, sm_compression = CompNone, sm_chunk_count = 2,
     sm_digest = Bytes32 (replicate 32 0)\<rparr>"

definition toy_manifest :: "stream list \<Rightarrow> manifest" where
  "toy_manifest streams = \<lparr>ma_file_id = uid 7, ma_version = 1, ma_file_type = FtBlog, ma_alg = SuiteV1,
     ma_chunk_size = 4096, ma_dek_commit = Bytes32 (replicate 32 0), ma_streams = streams,
     ma_recovery_present = True, ma_author_id = uid 1, ma_created_at = Timestamp 0\<rparr>"

definition toy_genesis :: genesis where
  "toy_genesis = \<lparr>ge_file_id = uid 7, ge_owner_id = uid 1, ge_owner_key_version = 1, ge_created_at = Timestamp 0\<rparr>"

definition toy_ctx :: verify_context where
  "toy_ctx = \<lparr>vx_file_id = uid 7, vx_author_sig_pub = [1], vx_owner_sig_pub = [1], vx_recipient_id = uid 3,
     vx_recipient_type = RtUser, vx_recipient_secret = [], vx_recipient_mlkem_seed = None,
     vx_seen_max_version = None, vx_granter_sig_pub = no_granters, vx_admin_sig_pub = no_granters,
     vx_tombstones = None, vx_compromise = None\<rparr>"

definition toy_chunks :: stream_chunks where
  "toy_chunks = \<lparr>sc_stream_type = StContent, sc_chunks = [1 # replicate 16 0, 2 # replicate 16 0]\<rparr>"

definition toy_bundle :: "stream list \<Rightarrow> download_bundle" where
  "toy_bundle streams = \<lparr>db_manifest_bytes = encode TYPE_MANIFEST put_manifest (toy_manifest streams),
     db_manifest_sig = [1], db_genesis_bytes = encode TYPE_GENESIS put_genesis toy_genesis,
     db_genesis_sig = [1], db_wrapped_dek = \<lparr>wd_enc = replicate 32 0, wd_ct = replicate 32 0\<rparr>,
     db_grant_bytes = encode TYPE_GRANT put_grant (grant_from 1 3), db_grant_sig = [1],
     db_ancestor_grants = [], db_recovery_grant_bytes = [], db_recovery_grant_sig = [],
     db_streams = [toy_chunks]\<rparr>"

lemma toy_simps [simp]:
  "ma_version (toy_manifest ss) = 1" "ma_file_type (toy_manifest ss) = FtBlog"
  "ma_dek_commit (toy_manifest ss) = Bytes32 (replicate 32 0)" "ma_streams (toy_manifest ss) = ss"
  "ma_author_id (toy_manifest ss) = uid 1" "ma_file_id (toy_manifest ss) = uid 7"
  "db_manifest_sig (toy_bundle ss) = [1]" "db_genesis_sig (toy_bundle ss) = [1]"
  "db_grant_sig (toy_bundle ss) = [1]" "db_ancestor_grants (toy_bundle ss) = []"
  "db_recovery_grant_bytes (toy_bundle ss) = []" "db_streams (toy_bundle ss) = [toy_chunks]"
  by (simp_all add: toy_manifest_def toy_bundle_def)

definition toy_content :: opened_stream where
  "toy_content = \<lparr>os_stream_type = StContent, os_plaintext = [1, 2]\<rparr>"

definition toy_file :: "opened_stream list \<Rightarrow> opened_file" where
  "toy_file ss = \<lparr>of_version = 1, of_file_type = FtBlog, of_content_digest = replicate 32 0,
     of_recovery_grant_ok = False, of_streams = ss\<rparr>"

lemma toy_chain: "verify_grant_chain (toy_prims_with go) (grant_from 1 3) [1] [] (uid 7) 1 (Bytes32 (replicate 32 0)) (uid 1) [1]
    no_granters (Some no_granters) = Inr ()"
  by (simp add: verify_grant_chain_def chain_walk.simps [of _ _ _ _ _ _ _ "grant_from 1 3"])

lemma toy_no_recovery: "\<not> recovery_grant_valid P [] s m a i"
proof -
  have "length (encode TYPE_GRANT put_grant g) \<noteq> 0" for g
    by (simp add: grant.encode_eq)
  then have "decode_grant [] \<noteq> Inr g" for g using decode_grant_iff [of "[]" g] by (metis list.size(3))
  then show ?thesis by (auto simp: recovery_grant_valid_def split: sum.splits)
qed

lemma toy_content_opens:
  "stream_opens toy_prims toy_ctx (toy_manifest ss) (Dek (replicate 32 0)) [toy_chunks] toy_stream toy_content"
  by (simp add: stream_opens_def toy_stream_def toy_chunks_def addressable_def checked_mul_def toy_manifest_def
      MAX_ADDRESSABLE_BYTES_def open_declared_def stream_digest_def chunk_tag_def TAG_LEN_def toy_prims_with_def
      open_stream_def open_chunk_def toy_gcm_open_def toy_content_def Let_def flip: replicate_add)

lemma toy_header:
  assumes "strictly_ascending stream_key ss" and "\<forall>s \<in> set ss. ok_stream s"
  shows "header_of (toy_prims_with go) toy_ctx (header_from (toy_bundle ss)) =
    Inr (toy_manifest ss, Dek (replicate 32 0), False)"
proof -
  let ?P = "toy_prims_with go"
  have "signed_manifest ?P toy_ctx (db_manifest_bytes (toy_bundle ss)) [1] (toy_manifest ss)"
    using assms by (simp add: signed_manifest_def toy_bundle_def toy_manifest_def toy_ctx_def ok_manifest_def ok_b32_def
        CHUNK_SIZE_MIN_def CHUNK_SIZE_MAX_def)
  moreover have "owner_genesis ?P toy_ctx (db_genesis_bytes (toy_bundle ss)) [1] (uid 1)"
    unfolding owner_genesis_def by (intro exI [of _ toy_genesis])
      (simp add: toy_bundle_def toy_genesis_def toy_ctx_def ok_genesis_def genesis_after_compromise_def)
  moreover have "granted_read ?P toy_ctx (db_grant_bytes (toy_bundle ss)) [1] [] (toy_manifest ss)"
    unfolding granted_read_def using toy_chain by (intro exI [of _ "grant_from 1 3"])
      (simp add: toy_bundle_def toy_ctx_def, simp add: grant_from_def)
  moreover have "unrevoked toy_ctx (toy_manifest ss)" "fresh_version 1 (vx_seen_max_version toy_ctx)"
    by (simp_all add: unrevoked_def fresh_version_def toy_ctx_def FIRST_CONTACT_VERSION_CEILING_def)
  moreover have "unwrap_for ?P toy_ctx (toy_manifest ss) (db_wrapped_dek (toy_bundle ss)) = Inr (Dek (replicate 32 0))"
    by (simp add: unwrap_for_def toy_manifest_def toy_bundle_def unwrap_dek_def toy_prims_with_def dek_from_bytes_def Let_def)
  moreover have "commit ?P (Dek (replicate 32 0)) = replicate 32 0" by (simp add: commit_def toy_prims_with_def)
  ultimately show ?thesis by (simp add: header_of_def header_from_def verify_header_Inr toy_no_recovery)
qed

lemma toy_open:
  assumes "strictly_ascending stream_key ss" and "\<forall>s \<in> set ss. ok_stream s"
    and "list_all2 (stream_opens toy_prims toy_ctx (toy_manifest ss) (Dek (replicate 32 0)) [toy_chunks]) ss os"
    and "content_digest_of ss (replicate 32 0) = replicate 32 0"
  shows "verify_and_open toy_prims toy_ctx (toy_bundle ss) = Inr (toy_file os)"
proof -
  have "open_streams toy_prims toy_ctx (toy_manifest ss) (Dek (replicate 32 0)) [toy_chunks] ss [] (replicate 32 0) =
      Inr (os, replicate 32 0)" using assms(3,4) by (simp add: open_streams_Inr)
  with toy_header [OF assms(1,2), of toy_gcm_open] show ?thesis
    by (simp add: verify_and_open_def header_of_def header_from_def toy_file_def)
qed

lemma toy_stream_ok: "strictly_ascending stream_key [toy_stream]" "\<forall>s \<in> set [toy_stream]. ok_stream s"
    "content_digest_of [toy_stream] (replicate 32 0) = replicate 32 0"
  by (simp_all add: strictly_ascending_def toy_stream_def ok_stream_def ok_b32_def content_digest_of_def)

lemma toy_opened: "verify_and_open toy_prims toy_ctx (toy_bundle [toy_stream]) = Inr (toy_file [toy_content])"
  by (rule toy_open) (use toy_stream_ok toy_content_opens in simp_all)

theorem opening_paths_agree_witness:
  "\<exists>oh d. verify_and_open_headers toy_prims toy_ctx (header_from (toy_bundle [toy_stream])) = Inr oh \<and>
    open_content_decryptor toy_prims toy_ctx (header_from (toy_bundle [toy_stream])) = Inr d \<and>
    open_range toy_prims d 0 (sc_chunks toy_chunks) = Inr [1, 2]"
proof -
  have "toy_content \<in> set (of_streams (toy_file [toy_content]))" "os_stream_type toy_content = StContent"
    "find (\<lambda>s. sc_stream_type s = StContent) (db_streams (toy_bundle [toy_stream])) = Some toy_chunks"
    "length (sc_chunks toy_chunks) < 2 ^ 64" "os_plaintext toy_content = [1, 2]"
    by (simp_all add: toy_file_def toy_content_def toy_bundle_def toy_chunks_def)
  with opening_paths_agree [OF toy_opened this(1-4)] show ?thesis by auto
qed

theorem random_access_is_slice_witness:
  "\<exists>d. open_content_decryptor (toy_prims_with (toy_table_open (uid 7) 1 StContent [[1], [2]])) toy_ctx
      (header_from (toy_bundle [toy_stream])) = Inr d \<and>
    open_range (toy_prims_with (toy_table_open (uid 7) 1 StContent [[1], [2]])) d 1 [2 # replicate 16 0] = Inr [2]"
proof -
  let ?P = "toy_prims_with (toy_table_open (uid 7) 1 StContent [[1], [2]])"
  obtain d where d: "open_content_decryptor ?P toy_ctx (header_from (toy_bundle [toy_stream])) = Inr d"
    "cd_content_chunk_count d = 2" "cd_file_id d = uid 7" "cd_version d = 1"
    using toy_header [OF toy_stream_ok(1,2)]
    by (auto simp: open_content_decryptor_def toy_stream_def addressable_def checked_mul_def toy_manifest_def
        MAX_ADDRESSABLE_BYTES_def toy_ctx_def)
  have opened: "open_range ?P d 1 [2 # replicate 16 0] = Inr [2]"
    by (simp add: open_range_def checked_add_def d(2-4) toy_prims_with_def open_chunk_def toy_table_open_def
        chunk_aad_at_def nonce_for_inj upt_conv_Cons Let_def)
  have "sealed_only (pr_gcm_open ?P) (cd_content_subkey d) (uid 7) 1 StContent [[1], [2]]"
    by (simp add: toy_prims_with_def toy_sealed_only)
  from random_access_is_slice [OF d(1) this _ _ _ _ opened] d opened show ?thesis by auto
qed

section \<open>No content stream\<close>

text \<open>Only the whole-buffer open accepts a version that declares no content stream: it succeeds with
  the all-zero content digest, so two such contents of one version are one content to the version memory,
  while the header, streaming and random-access opens refuse the same records.\<close>

theorem no_content_only_whole_open:
  assumes "verify_and_open P ctx b = Inr f" and "StContent \<notin> os_stream_type ` set (of_streams f)"
  shows "of_content_digest f = replicate 32 0 \<and>
    verify_and_open_headers P ctx (header_from b) = Inl (StreamMissing StContent) \<and>
    verify_and_stream_content P ctx (header_from b) fetch sink s = (Inl (StreamMissing StContent), s) \<and>
    open_content_decryptor P ctx (header_from b) = Inl (StreamMissing StContent)"
proof -
  from assms(1) obtain m dek where
    hd: "header_of P ctx (header_from b) = Inr (m, dek, of_recovery_grant_ok f)"
    and opens: "list_all2 (stream_opens P ctx m dek (sh_small_streams (header_from b))) (ma_streams m) (of_streams f)"
    and f: "of_content_digest f = content_digest_of (ma_streams m) (replicate 32 0)"
    unfolding verify_and_open_Inr by (auto simp: header_of_def header_from_def verify_header_Inr)
  have "filter is_content (ma_streams m) = []"
  proof (rule ccontr)
    assume "filter is_content (ma_streams m) \<noteq> []"
    then obtain ms where "ms \<in> set (ma_streams m)" "is_content ms" by (auto simp: filter_empty_conv)
    with opens obtain s where "s \<in> set (of_streams f)" "os_stream_type s = StContent"
      by (metis in_set_conv_nth list_all2_conv_all_nth opened_type)
    with assms(2) show False by (metis image_eqI)
  qed
  moreover have "find_content mss = Inr None" if "filter is_content mss = []" for mss
    using that by (induction mss) (auto split: if_splits)
  ultimately show ?thesis
    by (simp add: f fold_digest verify_and_open_headers_def verify_and_stream_content_def
        open_content_decryptor_def hd open_small_streams_def open_small_loop_agrees [OF opens] fold_found)
qed

theorem no_content_only_whole_open_witness:
  "of_content_digest (toy_file []) = replicate 32 0 \<and>
   verify_and_open_headers toy_prims toy_ctx (header_from (toy_bundle [])) = Inl (StreamMissing StContent)"
proof -
  have "verify_and_open toy_prims toy_ctx (toy_bundle []) = Inr (toy_file [])"
    by (rule toy_open) (simp_all add: strictly_ascending_def content_digest_of_def)
  from no_content_only_whole_open [OF this, of "\<lambda>i x. (Inr [], x)" "\<lambda>b x. (Inr (), x)" "()"]
  show ?thesis by (simp add: toy_file_def)
qed

end
