(* ===== verification/VersionMemory.thy ===== *)
theory VersionMemory
  imports Download_Laws
begin

text \<open>
  \<^verbatim>\<open>crates/client-core/src/version_memory.rs\<close>: the trust-on-last-use memory of file versions. The trait
  \<open>VersionStore\<close> is the locale \<open>version_store\<close>; \<open>open_and_remember\<close> works over any of its instances, and the
  in-memory store is one.
\<close>

record file_version_record =
  fv_version :: u64
  fv_content_digest :: bytes

type_synonym memory_version_store = "bytes \<rightharpoonup> file_version_record"

definition memory_store_new :: memory_version_store where "memory_store_new = Map.empty"

definition memory_get :: "memory_version_store \<Rightarrow> bytes \<Rightarrow> file_version_record option" where
  "memory_get store file_id = store file_id"

definition memory_put :: "memory_version_store \<Rightarrow> bytes \<Rightarrow> file_version_record \<Rightarrow> memory_version_store" where
  "memory_put store file_id record = store(file_id \<mapsto> record)"

definition open_and_remember :: "('m \<Rightarrow> bytes \<Rightarrow> file_version_record option)
    \<Rightarrow> ('m \<Rightarrow> bytes \<Rightarrow> file_version_record \<Rightarrow> 'm) \<Rightarrow> primitives \<Rightarrow> 'm \<Rightarrow> verify_context \<Rightarrow> download_bundle
    \<Rightarrow> (download_error + opened_file) \<times> 'm" where
  "open_and_remember get put P store ctx bundle =
     (let file_id = id_raw (vx_file_id ctx);
          prior = get store file_id;
          c = ctx\<lparr>vx_seen_max_version := map_option fv_version prior\<rparr>
      in case verify_and_open P c bundle of
           Inl e \<Rightarrow> (Inl e, store)
         | Inr opened \<Rightarrow>
             let forked = (case prior of None \<Rightarrow> False
               | Some r \<Rightarrow> of_version opened = fv_version r \<and> of_content_digest opened \<noteq> fv_content_digest r)
             in if forked then (Inl (VersionForked (of_version opened)), store)
                else (Inr opened, put store file_id
                  \<lparr>fv_version = of_version opened, fv_content_digest = of_content_digest opened\<rparr>))"

section \<open>What one open does to the memory\<close>

lemma opened_version_fresh:
  "verify_and_open P ctx b = Inr f \<Longrightarrow> fresh_version (of_version f) (vx_seen_max_version ctx)"
  by (auto simp: verify_and_open_Inr)

text \<open>An accepted file after a remembered one: the same version with the same content, or the next.\<close>

definition follows :: "file_version_record \<Rightarrow> file_version_record \<Rightarrow> bool" where
  "follows r r' \<longleftrightarrow> r' = r \<or> unat (fv_version r') = unat (fv_version r) + 1"

definition first_contact :: "file_version_record \<Rightarrow> bool" where
  "first_contact r \<longleftrightarrow> fv_version r \<le> FIRST_CONTACT_VERSION_CEILING"

definition record_of :: "opened_file \<Rightarrow> file_version_record" where
  "record_of f = \<lparr>fv_version = of_version f, fv_content_digest = of_content_digest f\<rparr>"

lemma open_and_remember_cases:
  obtains (refused) e where "open_and_remember get put P m ctx b = (Inl e, m)"
  | (opened) f where "open_and_remember get put P m ctx b = (Inr f, put m (id_raw (vx_file_id ctx)) (record_of f))"
      "case get m (id_raw (vx_file_id ctx)) of None \<Rightarrow> first_contact (record_of f) | Some r \<Rightarrow> follows r (record_of f)"
proof (cases "verify_and_open P (ctx\<lparr>vx_seen_max_version :=
    map_option fv_version (get m (id_raw (vx_file_id ctx)))\<rparr>) b")
  case (Inl e)
  then show ?thesis using refused by (simp add: open_and_remember_def Let_def)
next
  case (Inr f)
  note fresh = opened_version_fresh [OF Inr]
  show ?thesis
  proof (cases "get m (id_raw (vx_file_id ctx))")
    case None
    with Inr fresh show ?thesis
      using opened [of f] by (simp add: open_and_remember_def Let_def record_of_def first_contact_def fresh_version_def)
  next
    case (Some r)
    show ?thesis
    proof (cases "of_version f = fv_version r \<and> of_content_digest f \<noteq> fv_content_digest r")
      case True
      with Inr Some show ?thesis using refused by (simp add: open_and_remember_def Let_def)
    next
      case False
      with fresh Some have "follows r (record_of f)"
        by (auto simp: fresh_version_def follows_def record_of_def unat_Suc_word)
      with False Inr Some show ?thesis
        using opened [of f] by (auto simp: open_and_remember_def Let_def record_of_def)
    qed
  qed
qed

section \<open>Where the checked addition can overflow\<close>

lemma index_no_panic: "index_ancestors as f v c idx \<noteq> Inl ArithmeticPanic"
proof (induction as arbitrary: idx)
  case (Cons x as)
  then show ?case by (cases x) (auto simp: result_errors check_ancestor_fields_def split: if_splits)
qed simp

lemma walk_no_panic: "chain_walk P a ap gp ad idx visited g sig d \<noteq> Inl ArithmeticPanic"
proof (induction P a ap gp ad idx visited g sig d rule: chain_walk.induct)
  case (1 P a ap gp ad idx visited g sig d)
  then show ?case unfolding chain_walk.simps [of P a ap gp ad idx visited g sig d] Let_def
    by (auto simp: result_errors split: option.splits if_splits)
qed

lemma open_streams_no_panic: "open_streams P ctx m dek served mss ss d \<noteq> Inl ArithmeticPanic"
proof (induction mss arbitrary: ss d)
  case (Cons ms mss)
  then show ?case by (auto simp: result_errors open_declared_def Let_def split: if_splits)
qed simp

lemma verify_and_open_panic:
  "verify_and_open P ctx b = Inl ArithmeticPanic \<Longrightarrow> vx_seen_max_version ctx = Some (-1)"
  unfolding verify_and_open_def verify_header_def
  by (auto simp: result_errors open_streams_no_panic verify_grant_chain_def index_no_panic walk_no_panic
      check_tombstones_def check_grant_fields_def unwrap_for_def version_acceptable_def checked_add_one Let_def
      split: if_splits option.splits suite.splits)

section \<open>Any sequence of opens\<close>

fun remember_all :: "('m \<Rightarrow> bytes \<Rightarrow> file_version_record option) \<Rightarrow> ('m \<Rightarrow> bytes \<Rightarrow> file_version_record \<Rightarrow> 'm)
    \<Rightarrow> primitives \<Rightarrow> 'm \<Rightarrow> (verify_context \<times> download_bundle) list \<Rightarrow> (bytes \<times> (download_error + opened_file)) list" where
  "remember_all get put P m [] = []"
| "remember_all get put P m ((ctx, b) # ds) =
     (case open_and_remember get put P m ctx b of
        (r, m') \<Rightarrow> (id_raw (vx_file_id ctx), r) # remember_all get put P m' ds)"

text \<open>What was accepted for one file, in order.\<close>

fun accepted :: "bytes \<Rightarrow> (bytes \<times> (download_error + opened_file)) list \<Rightarrow> file_version_record list" where
  "accepted file [] = []"
| "accepted file ((k, Inl e) # rs) = accepted file rs"
| "accepted file ((k, Inr f) # rs) = (if k = file then [record_of f] else []) @ accepted file rs"

fun follow_on :: "file_version_record option \<Rightarrow> file_version_record list \<Rightarrow> bool" where
  "follow_on prior [] = True"
| "follow_on None (r # rs) \<longleftrightarrow> first_contact r \<and> follow_on (Some r) rs"
| "follow_on (Some p) (r # rs) \<longleftrightarrow> follows p r \<and> follow_on (Some r) rs"

locale version_store =
  fixes get :: "'m \<Rightarrow> bytes \<Rightarrow> file_version_record option"
    and put :: "'m \<Rightarrow> bytes \<Rightarrow> file_version_record \<Rightarrow> 'm"
  assumes get_put: "get (put m k r) k' = (if k' = k then Some r else get m k')"
begin

lemma remembered_follow_on: "follow_on (get m file) (accepted file (remember_all get put P m ds))"
proof (induction ds arbitrary: m)
  case (Cons d ds)
  obtain ctx b where d: "d = (ctx, b)" by fastforce
  show ?case
  proof (cases rule: open_and_remember_cases [of get put P m ctx b])
    case refused
    with Cons.IH [of m] show ?thesis by (simp add: d)
  next
    case (opened f)
    let ?k = "id_raw (vx_file_id ctx)"
    from Cons.IH [of "put m ?k (record_of f)"] opened show ?thesis
      by (cases "?k = file"; cases "get m ?k") (auto simp: d get_put)
  qed
qed simp

text \<open>A memory that never overflows: no version above the ceiling by more than the opens so far.\<close>

definition bounded_by :: "nat \<Rightarrow> 'm \<Rightarrow> bool" where
  "bounded_by n m \<longleftrightarrow> (\<forall>k r. get m k = Some r \<longrightarrow> unat (fv_version r) \<le> 1000000 + n)"

lemma bounded_step:
  assumes "bounded_by n m"
  shows "bounded_by (Suc n) (snd (open_and_remember get put P m ctx b))"
proof (cases rule: open_and_remember_cases [of get put P m ctx b])
  case (refused e)
  with assms show ?thesis by (fastforce simp: bounded_by_def)
next
  case (opened f)
  have "unat (of_version f) \<le> 1000000 + Suc n"
  proof (cases "get m (id_raw (vx_file_id ctx))")
    case None
    with opened(2) have "of_version f \<le> 1000000"
      by (simp add: first_contact_def record_of_def FIRST_CONTACT_VERSION_CEILING_def)
    then show ?thesis by (simp add: word_le_nat_alt)
  next
    case (Some r)
    with assms opened(2) show ?thesis by (fastforce simp: bounded_by_def follows_def record_of_def)
  qed
  with assms opened(1) show ?thesis
    by (fastforce simp: bounded_by_def get_put record_of_def)
qed

end

interpretation memory: version_store memory_get memory_put
  by unfold_locales (simp add: memory_get_def memory_put_def)

section \<open>The guarantees\<close>

text \<open>C4: The client's memory rules out rollback and forks: over any sequence of downloads from a fresh
  memory, whatever the servers return, the versions accepted for a file start under the first-contact
  ceiling, never decrease, advance by at most one, and keep one content digest per version.\<close>

theorem versions_never_roll_back:
  "follow_on None (accepted file (remember_all memory_get memory_put P memory_store_new ds))"
proof -
  have "memory_get memory_store_new file = None" by (simp add: memory_get_def memory_store_new_def)
  then show ?thesis by (metis memory.remembered_follow_on)
qed

lemma memory_no_panic:
  "memory.bounded_by n m \<Longrightarrow> 1000000 + n + length ds < 2 ^ 64 - 1 \<Longrightarrow>
     (k, Inl ArithmeticPanic) \<notin> set (remember_all memory_get memory_put P m ds)"
proof (induction ds arbitrary: m n)
  case (Cons d ds)
  obtain ctx b where d: "d = (ctx, b)" by fastforce
  obtain r m' where o: "open_and_remember memory_get memory_put P m ctx b = (r, m')" by fastforce
  from memory.bounded_step [OF Cons.prems(1), of P ctx b] o have "memory.bounded_by (Suc n) m'" by simp
  moreover have "r \<noteq> Inl ArithmeticPanic"
  proof
    assume "r = Inl ArithmeticPanic"
    with o have "verify_and_open P (ctx\<lparr>vx_seen_max_version :=
        map_option fv_version (memory_get m (id_raw (vx_file_id ctx)))\<rparr>) b = Inl ArithmeticPanic"
      by (auto simp: open_and_remember_def Let_def split: sum.splits if_splits)
    from verify_and_open_panic [OF this] obtain r where "memory_get m (id_raw (vx_file_id ctx)) = Some r"
      "fv_version r = -1" by auto
    moreover from this(1) Cons.prems(1) have "unat (fv_version r) \<le> 1000000 + n"
      unfolding memory.bounded_by_def by blast
    ultimately have "unat (-1 :: u64) \<le> 1000000 + n" by simp
    with Cons.prems(2) show False by (simp add: unsigned_minus_1_eq_mask mask_eq_exp_minus_1)
  qed
  ultimately show ?case using Cons.IH [of "Suc n" m'] Cons.prems(2) by (simp add: d o)
qed simp

text \<open>The checked version arithmetic never panics: from a fresh memory, no sequence of fewer than
  \<open>2 ^ 63\<close> downloads reaches the overflow of \<open>seen + 1\<close>, whatever the servers return.\<close>

theorem version_memory_never_overflows:
  assumes "length ds < 2 ^ 63"
  shows "(k, Inl ArithmeticPanic) \<notin> set (remember_all memory_get memory_put P memory_store_new ds)"
proof (rule memory_no_panic)
  show "memory.bounded_by 0 memory_store_new"
    by (simp add: memory.bounded_by_def memory_get_def memory_store_new_def)
  show "1000000 + 0 + length ds < 2 ^ 64 - 1" using assms by simp
qed

theorem version_memory_never_overflows_witness:
  "(replicate 16 7, Inl ArithmeticPanic) \<notin>
     set (remember_all memory_get memory_put toy_prims memory_store_new [(toy_ctx, toy_bundle [toy_stream])])"
  by (rule version_memory_never_overflows) simp

lemma toy_remembered:
  "remember_all memory_get memory_put toy_prims memory_store_new [(toy_ctx, toy_bundle [toy_stream])] =
     [(replicate 16 7, Inr (toy_file [toy_content]))]"
proof -
  have "toy_ctx\<lparr>vx_seen_max_version := None\<rparr> = toy_ctx" "id_raw (vx_file_id toy_ctx) = replicate 16 7"
    by (simp_all add: toy_ctx_def uid_def)
  with toy_opened show ?thesis
    by (simp add: open_and_remember_def memory_get_def memory_store_new_def)
qed

end
