(* ===== verification/Identity.thy ===== *)
theory Identity
  imports DekWrap
begin

text \<open>
  \<^verbatim>\<open>crates/client-core/src/identity.rs\<close> and \<^verbatim>\<open>auth.rs\<close>: the unlocked identity of a user and the
  channel-bound login proof. Fresh keys are drawn from the random bytes given as arguments; \<open>None\<close> is the
  panic of an \<open>expect\<close>.
\<close>

section \<open>Identity\<close>

record mlkem_keypair =
  mk_seed :: bytes
  mk_public :: bytes

record identity =
  idn_enc_sk :: bytes
  idn_enc_pk :: bytes
  idn_sig :: bytes
  idn_mlkem :: "mlkem_keypair option"

definition identity_generate :: "primitives \<Rightarrow> bytes \<Rightarrow> bytes \<Rightarrow> bytes \<Rightarrow> identity option" where
  "identity_generate P r_enc r_mlkem r_sig =
     (case generate_enc_keypair P r_enc of
        None \<Rightarrow> None
      | Some (enc_sk, enc_pk) \<Rightarrow>
          (case pr_mlkem_gen P r_mlkem of (mlkem_seed, mlkem_pub) \<Rightarrow>
             Some \<lparr>idn_enc_sk = enc_sk, idn_enc_pk = enc_pk, idn_sig = r_sig,
               idn_mlkem = Some \<lparr>mk_seed = mlkem_seed, mk_public = mlkem_pub\<rparr>\<rparr>))"

definition from_secret_bytes :: "primitives \<Rightarrow> bytes \<Rightarrow> bytes \<Rightarrow> bytes \<Rightarrow> bytes option \<Rightarrow> identity option" where
  "from_secret_bytes P enc_sk enc_pk sig_seed mlkem_seed =
     (case mlkem_seed of
        None \<Rightarrow> Some \<lparr>idn_enc_sk = enc_sk, idn_enc_pk = enc_pk, idn_sig = sig_seed, idn_mlkem = None\<rparr>
      | Some seed \<Rightarrow>
          (case mlkem_public_from_seed P seed of
             Inl _ \<Rightarrow> None
           | Inr public \<Rightarrow> Some \<lparr>idn_enc_sk = enc_sk, idn_enc_pk = enc_pk, idn_sig = sig_seed,
               idn_mlkem = Some \<lparr>mk_seed = seed, mk_public = public\<rparr>\<rparr>))"

definition enc_pub_bytes :: "identity \<Rightarrow> bytes" where "enc_pub_bytes i = idn_enc_pk i"

definition mlkem_pub_bytes :: "identity \<Rightarrow> bytes option" where
  "mlkem_pub_bytes i = map_option mk_public (idn_mlkem i)"

definition sig_pub_bytes :: "primitives \<Rightarrow> identity \<Rightarrow> bytes" where
  "sig_pub_bytes P i = pr_ed_pub P (idn_sig i)"

definition identity_fingerprint :: "primitives \<Rightarrow> identity \<Rightarrow> bytes" where
  "identity_fingerprint P i = fingerprint P (enc_pub_bytes i) (sig_pub_bytes P i)"

definition enc_secret :: "identity \<Rightarrow> bytes" where "enc_secret i = idn_enc_sk i"

definition mlkem_seed_of :: "identity \<Rightarrow> bytes option" where
  "mlkem_seed_of i = map_option mk_seed (idn_mlkem i)"

definition secret_bytes :: "identity \<Rightarrow> bytes \<times> bytes \<times> bytes \<times> bytes option" where
  "secret_bytes i = (idn_enc_sk i, idn_enc_pk i, idn_sig i, mlkem_seed_of i)"

definition id_sign :: "primitives \<Rightarrow> identity \<Rightarrow> string \<Rightarrow> u16 \<Rightarrow> ('a \<Rightarrow> writer \<Rightarrow> writer) \<Rightarrow> 'a \<Rightarrow> bytes" where
  "id_sign P i label tid put v = sign_canonical (pr_ed_sign P) (idn_sig i) label tid put v"

text \<open>An identity stored as its secret bytes comes back whole when its ML-KEM public half is the seed's.\<close>

lemma from_secret_bytes_secret_bytes:
  assumes "\<And>kp. idn_mlkem i = Some kp \<Longrightarrow> pr_mlkem_pub P (mk_seed kp) = Some (mk_public kp)"
  shows "(case secret_bytes i of (sk, pk, sig, seed) \<Rightarrow> from_secret_bytes P sk pk sig seed) = Some i"
  using assms by (cases i; cases "idn_mlkem i")
    (auto simp: from_secret_bytes_def secret_bytes_def mlkem_seed_of_def mlkem_public_from_seed_def)

section \<open>Login proof\<close>

text \<open>The client's error type (\<^verbatim>\<open>error.rs\<close>).\<close>

datatype password_error = TooShort nat | TooLong nat | Breached

datatype client_error = WrongPassword | CorruptBlob | ClientBelowArgonFloor | UnsupportedBlobVersion byte
  | Password password_error | BadChallenge | BadProof

definition auth_context :: "(bytes \<Rightarrow> bytes) \<Rightarrow> bytes \<Rightarrow> bytes \<Rightarrow> bytes \<Rightarrow> u64 \<Rightarrow> client_error + auth_proof_context" where
  "auth_context to_nfc server_id tls_exporter nonce timestamp =
     rbind (map_err (\<lambda>_. BadChallenge) (text_new to_nfc server_id)) (\<lambda>sid.
     Inr \<lparr>ap_server_id = sid, ap_tls_exporter = Bytes32 tls_exporter, ap_nonce = Bytes32 nonce,
       ap_timestamp = Timestamp timestamp\<rparr>)"

definition build_login_proof :: "primitives \<Rightarrow> (bytes \<Rightarrow> bytes) \<Rightarrow> identity \<Rightarrow> bytes \<Rightarrow> bytes \<Rightarrow> bytes \<Rightarrow> u64
    \<Rightarrow> client_error + bytes" where
  "build_login_proof P to_nfc i server_id tls_exporter nonce timestamp =
     rbind (auth_context to_nfc server_id tls_exporter nonce timestamp) (\<lambda>ctx.
     Inr (id_sign P i L_AUTH TYPE_AUTH_PROOF_CONTEXT put_auth_proof_context ctx))"

definition verify_login_proof :: "primitives \<Rightarrow> (bytes \<Rightarrow> bytes) \<Rightarrow> bytes \<Rightarrow> bytes \<Rightarrow> bytes \<Rightarrow> bytes \<Rightarrow> u64
    \<Rightarrow> bytes \<Rightarrow> client_error + unit" where
  "verify_login_proof P to_nfc sig_pub server_id tls_exporter nonce timestamp proof =
     rbind (auth_context to_nfc server_id tls_exporter nonce timestamp) (\<lambda>ctx.
     rbind (map_err (\<lambda>_. BadProof) (vk_from_bytes (pr_vk_valid P) sig_pub)) (\<lambda>vk.
     map_err (\<lambda>_. BadProof) (verify_canonical (pr_strict P) vk L_AUTH TYPE_AUTH_PROOF_CONTEXT
       put_auth_proof_context ctx proof)))"

end
