(* ===== verification/Upload.thy ===== *)
theory Upload
  imports Identity Download
begin

text \<open>
  \<^verbatim>\<open>crates/client-core/src/upload.rs\<close>: what a client builds for a new file. A fresh file key seals each
  stream under its own subkey, the owner signs manifest and genesis, and the key is wrapped to the owner and
  to the recovery account, each with a signed grant. A \<open>draw\<close> is the randomness of one wrap.
\<close>

definition FIRST_VERSION :: u64 where "FIRST_VERSION = 1"

text \<open>\<open>UploadPanic\<close> is not a constructor of the source: it is the panic of an \<open>expect\<close> or \<open>assert!\<close>.\<close>

datatype upload_error = ChunkSizeOutOfRange u32 | UploadCrypto crypto_error | WrapSelfCheckFailed
  | UploadPanic

type_synonym draw = "bytes \<times> bytes"

record plaintext_streams =
  ps_content :: bytes
  ps_metadata :: "bytes option"
  ps_thumbnail :: "bytes option"
  ps_preview :: "bytes option"

record upload_params =
  up_owner :: identity
  up_owner_id :: ident
  up_owner_key_version :: u64
  up_file_id :: ident
  up_file_type :: file_type
  up_chunk_size :: u32
  up_recovery_pub :: bytes
  up_recovery_mlkem_pub :: "bytes option"
  up_created_at :: timestamp

record sealed_stream_out =
  so_stream_type :: stream_type
  so_compression :: compression
  so_chunk_size :: u32
  so_chunk_count :: u64
  so_digest :: bytes
  so_total_bytes :: u64
  so_chunks :: "bytes list"

record small_streams =
  sl_metadata :: "bytes option"
  sl_thumbnail :: "bytes option"
  sl_preview :: "bytes option"

record wrap_out =
  wo_recipient_id :: ident
  wo_recipient_type :: recipient_type
  wo_wrapped_dek :: wrapped_dek
  wo_granted_by :: ident
  wo_grant :: grant
  wo_grant_sig :: bytes

record upload_bundle =
  ub_file_id :: ident
  ub_file_type :: file_type
  ub_genesis :: genesis
  ub_genesis_sig :: bytes
  ub_manifest :: manifest
  ub_manifest_sig :: bytes
  ub_streams :: "sealed_stream_out list"
  ub_wraps :: "wrap_out list"

record upload_records =
  ur_file_id :: ident
  ur_file_type :: file_type
  ur_genesis :: genesis
  ur_genesis_sig :: bytes
  ur_manifest :: manifest
  ur_manifest_sig :: bytes
  ur_wraps :: "wrap_out list"
  ur_small_streams :: "sealed_stream_out list"

section \<open>Sealing\<close>

text \<open>The loop of \<open>seal_inputs\<close>.\<close>

fun seal_inputs :: "primitives \<Rightarrow> dek \<Rightarrow> ident \<Rightarrow> u64 \<Rightarrow> u32 \<Rightarrow> (stream_type \<times> bytes) list
    \<Rightarrow> upload_error + (stream list \<times> sealed_stream_out list)" where
  "seal_inputs P dek file_id version chunk_size [] = Inr ([], [])"
| "seal_inputs P dek file_id version chunk_size ((st, plaintext) # inputs) =
     (let frame = unat chunk_size;
          ck = stream_subkey P dek st
      in rbind (ok_or (seal_stream (pr_sha P) (pr_gcm_seal P) ck file_id version st frame plaintext)
          UploadPanic) (\<lambda>sealed.
        let total_bytes = sum_list (map (\<lambda>c. word_of_nat (length c)) (ss_chunks sealed));
            ms = \<lparr>sm_stream_type = st, sm_compression = CompNone, sm_chunk_count = ss_chunk_count sealed,
              sm_digest = Bytes32 (ss_digest sealed)\<rparr>;
            out = \<lparr>so_stream_type = st, so_compression = CompNone, so_chunk_size = chunk_size,
              so_chunk_count = ss_chunk_count sealed, so_digest = ss_digest sealed,
              so_total_bytes = total_bytes, so_chunks = ss_chunks sealed\<rparr>
        in rbind (seal_inputs P dek file_id version chunk_size inputs) (\<lambda>(manifest_streams, sealed_out).
           Inr (ms # manifest_streams, out # sealed_out))))"

text \<open>The pushes of \<open>if let Some(x)\<close>.\<close>

definition present :: "stream_type \<Rightarrow> bytes option \<Rightarrow> (stream_type \<times> bytes) list" where
  "present t x = (case x of None \<Rightarrow> [] | Some b \<Rightarrow> [(t, b)])"

definition small_inputs :: "small_streams \<Rightarrow> (stream_type \<times> bytes) list" where
  "small_inputs small = present StMetadata (sl_metadata small) @ present StThumbnail (sl_thumbnail small) @
     present StPreview (sl_preview small)"

definition plaintext_inputs :: "plaintext_streams \<Rightarrow> (stream_type \<times> bytes) list" where
  "plaintext_inputs streams = (StContent, ps_content streams) # present StMetadata (ps_metadata streams) @
     present StThumbnail (ps_thumbnail streams) @ present StPreview (ps_preview streams)"

definition seal_streams :: "primitives \<Rightarrow> dek \<Rightarrow> ident \<Rightarrow> u64 \<Rightarrow> u32 \<Rightarrow> plaintext_streams
    \<Rightarrow> upload_error + (stream list \<times> sealed_stream_out list)" where
  "seal_streams P dek file_id version chunk_size streams =
     seal_inputs P dek file_id version chunk_size (plaintext_inputs streams)"

section \<open>Wraps and grants\<close>

definition build_grant :: "primitives \<Rightarrow> identity \<Rightarrow> ident \<Rightarrow> u64 \<Rightarrow> ident \<Rightarrow> recipient_type \<Rightarrow> bytes \<Rightarrow> ident
    \<Rightarrow> timestamp \<Rightarrow> grant \<times> bytes" where
  "build_grant P signer file_id version recipient_id recipient_type dek_commit granted_by created_at =
     (let grant = \<lparr>gr_file_id = file_id, gr_file_version = version, gr_recipient_id = recipient_id,
        gr_recipient_type = recipient_type, gr_dek_commit = Bytes32 dek_commit,
        gr_granted_by = granted_by, gr_created_at = created_at\<rparr>
      in (grant, id_sign P signer L_GRANT TYPE_GRANT put_grant grant))"

definition wrap_out_of :: "primitives \<Rightarrow> identity \<Rightarrow> ident \<Rightarrow> u64 \<Rightarrow> ident \<Rightarrow> recipient_type \<Rightarrow> bytes \<Rightarrow> ident
    \<Rightarrow> timestamp \<Rightarrow> wrapped_dek \<Rightarrow> wrap_out" where
  "wrap_out_of P signer file_id version recipient_id recipient_type dek_commit granted_by created_at wrapped_dek =
     (case build_grant P signer file_id version recipient_id recipient_type dek_commit granted_by created_at of
        (grant, grant_sig) \<Rightarrow>
          \<lparr>wo_recipient_id = recipient_id, wo_recipient_type = recipient_type, wo_wrapped_dek = wrapped_dek,
           wo_granted_by = granted_by, wo_grant = grant, wo_grant_sig = grant_sig\<rparr>)"

definition wrap_and_grant :: "primitives \<Rightarrow> draw \<Rightarrow> identity \<Rightarrow> ident \<Rightarrow> u64 \<Rightarrow> ident \<Rightarrow> recipient_type \<Rightarrow> bytes
    \<Rightarrow> dek \<Rightarrow> bytes \<Rightarrow> ident \<Rightarrow> timestamp \<Rightarrow> bytes option \<Rightarrow> upload_error + wrap_out" where
  "wrap_and_grant P r signer file_id version recipient_id recipient_type recipient_pub dek dek_commit
       granted_by created_at self_secret =
     (let ctx = \<lparr>wc_file_id = file_id, wc_version = version, wc_recipient_id = recipient_id\<rparr> in
      rbind (map_err UploadCrypto (wrap_dek P (snd r) recipient_pub dek ctx)) (\<lambda>wrapped_dek.
      rbind (case self_secret of
          None \<Rightarrow> Inr ()
        | Some sk \<Rightarrow> rbind (map_err UploadCrypto (unwrap_dek P sk wrapped_dek ctx)) (\<lambda>reopened.
            if commit P reopened \<noteq> dek_commit then Inl WrapSelfCheckFailed else Inr ())) (\<lambda>_.
      Inr (wrap_out_of P signer file_id version recipient_id recipient_type dek_commit granted_by
        created_at wrapped_dek))))"

definition wrap_and_grant_hybrid :: "primitives \<Rightarrow> draw \<Rightarrow> identity \<Rightarrow> ident \<Rightarrow> u64 \<Rightarrow> ident \<Rightarrow> recipient_type
    \<Rightarrow> hybrid_public \<Rightarrow> dek \<Rightarrow> bytes \<Rightarrow> ident \<Rightarrow> timestamp \<Rightarrow> hybrid_secret option \<Rightarrow> upload_error + wrap_out" where
  "wrap_and_grant_hybrid P r signer file_id version recipient_id recipient_type recipient_pub dek dek_commit
       granted_by created_at self_secret =
     (let ctx = \<lparr>wc_file_id = file_id, wc_version = version, wc_recipient_id = recipient_id\<rparr> in
      rbind (map_err UploadCrypto (wrap_dek_hybrid P (fst r) (snd r) recipient_pub dek ctx)) (\<lambda>hybrid.
      rbind (case self_secret of
          None \<Rightarrow> Inr ()
        | Some sk \<Rightarrow> rbind (map_err UploadCrypto (unwrap_dek_hybrid P sk hybrid ctx)) (\<lambda>reopened.
            if commit P reopened \<noteq> dek_commit then Inl WrapSelfCheckFailed else Inr ())) (\<lambda>_.
      Inr (wrap_out_of P signer file_id version recipient_id recipient_type dek_commit granted_by
        created_at (pack_hybrid_wrap hybrid)))))"

section \<open>Assembly\<close>

text \<open>\<open>Option::zip\<close>.\<close>

definition opt_zip :: "'a option \<Rightarrow> 'b option \<Rightarrow> ('a \<times> 'b) option" where
  "opt_zip a b = (case (a, b) of (Some x, Some y) \<Rightarrow> Some (x, y) | _ \<Rightarrow> None)"

definition upload_wraps :: "primitives \<Rightarrow> draw \<Rightarrow> draw \<Rightarrow> dek \<Rightarrow> bytes \<Rightarrow> upload_params \<Rightarrow> (bytes \<times> bytes) option
    \<Rightarrow> upload_error + wrap_out list" where
  "upload_wraps P r1 r2 dek dek_commit params pq =
     (let owner = up_owner params in
      case pq of
        Some (owner_mlkem, recovery_mlkem) \<Rightarrow>
          rbind (ok_or (mlkem_seed_of owner) UploadPanic) (\<lambda>seed.
          let owner_hybrid_pub = \<lparr>hp_x25519 = enc_pub_bytes owner, hp_mlkem = owner_mlkem\<rparr>;
              owner_hybrid_sec = from_components (enc_secret owner) seed;
              recovery_hybrid_pub = \<lparr>hp_x25519 = up_recovery_pub params, hp_mlkem = recovery_mlkem\<rparr>
          in rbind (wrap_and_grant_hybrid P r1 owner (up_file_id params) FIRST_VERSION (up_owner_id params)
               RtUser owner_hybrid_pub dek dek_commit (up_owner_id params) (up_created_at params)
               (Some owner_hybrid_sec)) (\<lambda>self_wrap.
             rbind (wrap_and_grant_hybrid P r2 owner (up_file_id params) FIRST_VERSION RECOVERY_ID RtRecovery
               recovery_hybrid_pub dek dek_commit (up_owner_id params) (up_created_at params) None) (\<lambda>rec_wrap.
             Inr [self_wrap, rec_wrap])))
      | None \<Rightarrow>
          rbind (wrap_and_grant P r1 owner (up_file_id params) FIRST_VERSION (up_owner_id params) RtUser
            (enc_pub_bytes owner) dek dek_commit (up_owner_id params) (up_created_at params)
            (Some (enc_secret owner))) (\<lambda>self_wrap.
          rbind (wrap_and_grant P r2 owner (up_file_id params) FIRST_VERSION RECOVERY_ID RtRecovery
            (up_recovery_pub params) dek dek_commit (up_owner_id params) (up_created_at params) None) (\<lambda>rec_wrap.
          Inr [self_wrap, rec_wrap])))"

definition assemble_records :: "primitives \<Rightarrow> draw \<Rightarrow> draw \<Rightarrow> dek \<Rightarrow> bytes \<Rightarrow> upload_params \<Rightarrow> stream list
    \<Rightarrow> upload_error + (manifest \<times> bytes \<times> genesis \<times> bytes \<times> wrap_out list)" where
  "assemble_records P r1 r2 dek dek_commit params manifest_streams =
     (let owner = up_owner params;
          pq = opt_zip (mlkem_pub_bytes owner) (up_recovery_mlkem_pub params);
          suite = (if pq \<noteq> None then SuiteV2 else SuiteV1);
          manifest = \<lparr>ma_file_id = up_file_id params, ma_version = FIRST_VERSION,
            ma_file_type = up_file_type params, ma_alg = suite, ma_chunk_size = up_chunk_size params,
            ma_dek_commit = Bytes32 dek_commit, ma_streams = manifest_streams, ma_recovery_present = True,
            ma_author_id = up_owner_id params, ma_created_at = up_created_at params\<rparr>;
          manifest_sig = id_sign P owner L_MANIFEST TYPE_MANIFEST put_manifest manifest;
          genesis = \<lparr>ge_file_id = up_file_id params, ge_owner_id = up_owner_id params,
            ge_owner_key_version = up_owner_key_version params, ge_created_at = up_created_at params\<rparr>;
          genesis_sig = id_sign P owner L_GENESIS TYPE_GENESIS put_genesis genesis
      in rbind (upload_wraps P r1 r2 dek dek_commit params pq) (\<lambda>wraps.
         Inr (manifest, manifest_sig, genesis, genesis_sig, wraps)))"

definition build_upload_inner :: "primitives \<Rightarrow> draw \<Rightarrow> draw \<Rightarrow> dek \<Rightarrow> upload_params \<Rightarrow> plaintext_streams
    \<Rightarrow> upload_error + upload_bundle" where
  "build_upload_inner P r1 r2 dek params streams =
     (if up_chunk_size params < CHUNK_SIZE_MIN \<or> up_chunk_size params > CHUNK_SIZE_MAX
      then Inl (ChunkSizeOutOfRange (up_chunk_size params))
      else
        let dek_commit = commit P dek in
        rbind (seal_streams P dek (up_file_id params) FIRST_VERSION (up_chunk_size params) streams)
          (\<lambda>(manifest_streams, sealed_out).
        rbind (assemble_records P r1 r2 dek dek_commit params manifest_streams)
          (\<lambda>(manifest, manifest_sig, genesis, genesis_sig, wraps).
        Inr \<lparr>ub_file_id = up_file_id params, ub_file_type = up_file_type params, ub_genesis = genesis,
          ub_genesis_sig = genesis_sig, ub_manifest = manifest, ub_manifest_sig = manifest_sig,
          ub_streams = sealed_out, ub_wraps = wraps\<rparr>)))"

definition build_upload :: "primitives \<Rightarrow> bytes \<Rightarrow> draw \<Rightarrow> draw \<Rightarrow> upload_params \<Rightarrow> plaintext_streams
    \<Rightarrow> upload_error + upload_bundle" where
  "build_upload P random r1 r2 params streams =
     build_upload_inner P r1 r2 (dek_generate random) params streams"

section \<open>The streaming path\<close>

record content_stream_sealer =
  css_subkey :: bytes
  css_file_id :: ident
  css_version :: u64
  css_stream_type :: stream_type
  css_chunk_size :: nat

definition sealer_new :: "primitives \<Rightarrow> dek \<Rightarrow> ident \<Rightarrow> u64 \<Rightarrow> stream_type \<Rightarrow> nat \<Rightarrow> content_stream_sealer" where
  "sealer_new P dek file_id version stream_type chunk_size =
     \<lparr>css_subkey = stream_subkey P dek stream_type, css_file_id = file_id, css_version = version,
      css_stream_type = stream_type, css_chunk_size = chunk_size\<rparr>"

definition seal_from_reader :: "primitives \<Rightarrow> content_stream_sealer \<Rightarrow> read_result list
    \<Rightarrow> (u64 \<Rightarrow> bytes \<Rightarrow> 's \<Rightarrow> (crypto_error + unit) \<times> 's) \<Rightarrow> 's
    \<Rightarrow> ((crypto_error + (u64 \<times> bytes)) \<times> 's) option" where
  "seal_from_reader P c reader emit s =
     seal_stream_streaming (pr_sha P) (pr_gcm_seal P) (css_subkey c) (css_file_id c) (css_version c)
       (css_stream_type c) (css_chunk_size c) reader emit s"

definition sealer_seal_chunk :: "primitives \<Rightarrow> content_stream_sealer \<Rightarrow> u64 \<Rightarrow> bytes \<Rightarrow> bool \<Rightarrow> bytes" where
  "sealer_seal_chunk P c index plaintext is_last =
     (let aad = \<lparr>ca_file_id = css_file_id c, ca_version = css_version c,
        ca_stream_type = css_stream_type c, ca_chunk_index = index, ca_is_last = is_last\<rparr>
      in seal_chunk (pr_gcm_seal P) (css_subkey c) aad plaintext)"

definition build_records_inner :: "primitives \<Rightarrow> draw \<Rightarrow> draw \<Rightarrow> dek \<Rightarrow> upload_params \<Rightarrow> small_streams \<Rightarrow> bytes
    \<Rightarrow> u64 \<Rightarrow> upload_error + upload_records" where
  "build_records_inner P r1 r2 dek params small content_digest content_chunk_count =
     (if up_chunk_size params < CHUNK_SIZE_MIN \<or> up_chunk_size params > CHUNK_SIZE_MAX
      then Inl (ChunkSizeOutOfRange (up_chunk_size params))
      else
        let dek_commit = commit P dek in
        rbind (seal_inputs P dek (up_file_id params) FIRST_VERSION (up_chunk_size params) (small_inputs small))
          (\<lambda>(small_manifest, small_sealed).
        let manifest_streams = \<lparr>sm_stream_type = StContent, sm_compression = CompNone,
              sm_chunk_count = content_chunk_count, sm_digest = Bytes32 content_digest\<rparr> # small_manifest
        in rbind (assemble_records P r1 r2 dek dek_commit params manifest_streams)
          (\<lambda>(manifest, manifest_sig, genesis, genesis_sig, wraps).
        Inr \<lparr>ur_file_id = up_file_id params, ur_file_type = up_file_type params, ur_genesis = genesis,
          ur_genesis_sig = genesis_sig, ur_manifest = manifest, ur_manifest_sig = manifest_sig,
          ur_wraps = wraps, ur_small_streams = small_sealed\<rparr>)))"

text \<open>\<open>StreamingUploadBuilder\<close> owns the file key; \<open>finish\<close> consumes it.\<close>

datatype streaming_upload_builder = StreamingUploadBuilder (sb_dek: dek)

definition builder_new :: "bytes \<Rightarrow> streaming_upload_builder" where
  "builder_new random = StreamingUploadBuilder (dek_generate random)"

definition content_sealer :: "primitives \<Rightarrow> streaming_upload_builder \<Rightarrow> upload_params \<Rightarrow> content_stream_sealer" where
  "content_sealer P builder params =
     sealer_new P (sb_dek builder) (up_file_id params) FIRST_VERSION StContent (unat (up_chunk_size params))"

definition builder_finish :: "primitives \<Rightarrow> draw \<Rightarrow> draw \<Rightarrow> streaming_upload_builder \<Rightarrow> upload_params \<Rightarrow> small_streams
    \<Rightarrow> bytes \<Rightarrow> u64 \<Rightarrow> upload_error + upload_records" where
  "builder_finish P r1 r2 builder params small content_digest content_chunk_count =
     build_records_inner P r1 r2 (sb_dek builder) params small content_digest content_chunk_count"

section \<open>Resuming\<close>

definition recover_dek :: "primitives \<Rightarrow> bytes \<Rightarrow> wrapped_dek \<Rightarrow> wrap_context \<Rightarrow> crypto_error + dek" where
  "recover_dek P self_secret wrapped_dek ctx = unwrap_dek P self_secret wrapped_dek ctx"

definition recover_dek_hybrid :: "primitives \<Rightarrow> hybrid_secret \<Rightarrow> wrapped_dek \<Rightarrow> wrap_context \<Rightarrow> crypto_error + dek" where
  "recover_dek_hybrid P self_secret wrapped_dek ctx =
     rbind (unpack_hybrid_wrap wrapped_dek) (\<lambda>h. unwrap_dek_hybrid P self_secret h ctx)"

definition resume_content_sealer :: "primitives \<Rightarrow> identity \<Rightarrow> wrapped_dek \<Rightarrow> wrap_context \<Rightarrow> suite \<Rightarrow> ident \<Rightarrow> u64
    \<Rightarrow> u32 \<Rightarrow> upload_error + content_stream_sealer" where
  "resume_content_sealer P owner self_wrapped_dek ctx suite file_id version chunk_size =
     rbind (case suite of
         SuiteV1 \<Rightarrow> map_err UploadCrypto (recover_dek P (enc_secret owner) self_wrapped_dek ctx)
       | SuiteV2 \<Rightarrow>
           rbind (ok_or (mlkem_seed_of owner) (UploadCrypto WrapOpen)) (\<lambda>seed.
           let sk = from_components (enc_secret owner) seed in
           map_err UploadCrypto (recover_dek_hybrid P sk self_wrapped_dek ctx))) (\<lambda>dek.
     Inr (sealer_new P dek file_id version StContent (unat chunk_size)))"

end
