(* ===== verification/DekWrap_Laws.thy ===== *)
theory DekWrap_Laws
  imports DekWrap Aead_Laws
begin

text \<open>
  What the wraps promise: a wrap made for a key pair opens to the file key under either suite, also after
  its trip through the server's byte carrier; the wire form is exact; and the key-encryption key depends on
  every part of the context and of both ciphertexts.
\<close>

section \<open>Documented behaviour of the packages\<close>

definition hpke_pair :: "primitives \<Rightarrow> bytes \<Rightarrow> bytes \<Rightarrow> bool" where
  "hpke_pair P sk pk \<longleftrightarrow> pr_hpke_pub_ok P pk \<and> pr_hpke_priv_ok P sk \<and>
     (\<forall>random info m aad. \<exists>enc ct. pr_hpke_seal P random pk info m aad = Some (enc, ct) \<and>
        length enc = 32 \<and> pr_hpke_enc_ok P enc \<and> pr_hpke_open P sk enc info ct aad = Some m)"

definition hybrid_pair :: "primitives \<Rightarrow> hybrid_secret \<Rightarrow> hybrid_public \<Rightarrow> bool" where
  "hybrid_pair P sk pk \<longleftrightarrow> pr_mlkem_ek_ok P (hp_mlkem pk) \<and>
     (\<forall>eph. length (pr_x_pub P eph) = 32 \<and>
        pr_x_dh P (hs_x25519 sk) (pr_x_pub P eph) = pr_x_dh P eph (hp_x25519 pk)) \<and>
     (\<forall>random. length (fst (pr_mlkem_encaps P (hp_mlkem pk) random)) = MLKEM_CT_LEN \<and>
        pr_mlkem_decaps P (hs_mlkem_seed sk) (fst (pr_mlkem_encaps P (hp_mlkem pk) random)) =
          Some (snd (pr_mlkem_encaps P (hp_mlkem pk) random)))"

definition aead_ok :: "primitives \<Rightarrow> bool" where
  "aead_ok P \<longleftrightarrow> aead_correct (pr_gcm_seal P) (pr_gcm_open P) \<and>
     (\<forall>k n a m. length (pr_gcm_seal P k n a m) = length m + TAG_LEN)"

section \<open>Wrapping and unwrapping\<close>

lemma wrap_unwrap:
  assumes "hpke_pair P sk pk" and "length (dek_raw d) = 32"
  shows "\<exists>w. wrap_dek P random pk d ctx = Inr w \<and> unwrap_dek P sk w ctx = Inr d"
proof -
  from assms(1) obtain enc ct where "pr_hpke_seal P random pk
      (encode TYPE_WRAP_CONTEXT put_wrap_context ctx) (dek_raw d) [] = Some (enc, ct)"
    "length enc = 32" "pr_hpke_enc_ok P enc"
    "pr_hpke_open P sk enc (encode TYPE_WRAP_CONTEXT put_wrap_context ctx) ct [] = Some (dek_raw d)"
    unfolding hpke_pair_def by metis
  with assms show ?thesis
    by (simp add: wrap_dek_def unwrap_dek_def hpke_pair_def ser32_def dek_expose_def dek_from_bytes_def)
qed

lemma wrap_unwrap_hybrid:
  assumes "hybrid_pair P sk pk" and "aead_ok P" and "length (dek_raw d) = 32"
  shows "\<exists>h. wrap_dek_hybrid P eph random pk d ctx = Inr h \<and> ok_hybrid h \<and>
    unwrap_dek_hybrid P sk h ctx = Inr d"
proof -
  obtain ct ss where e: "pr_mlkem_encaps P (hp_mlkem pk) random = (ct, ss)" by fastforce
  from assms(1) have "length ct = MLKEM_CT_LEN" "pr_mlkem_decaps P (hs_mlkem_seed sk) ct = Some ss"
    unfolding hybrid_pair_def using e by (metis fst_conv snd_conv)+
  with assms e show ?thesis
    by (simp add: wrap_dek_hybrid_def unwrap_dek_hybrid_def hybrid_pair_def aead_ok_def aead_correct_def
        ok_hybrid_def hybrid_lengths DEK_LEN_def TAG_LEN_def dek_expose_def dek_from_bytes_def seal1_def
        open1_def Let_def)
qed

section \<open>Binding\<close>

definition kek_input :: "bytes \<Rightarrow> bytes \<Rightarrow> wrap_context \<Rightarrow> bytes \<Rightarrow> bytes \<Rightarrow> bytes \<times> bytes" where
  "kek_input ss1 ss2 ctx eph ct =
     (ss1 @ ss2, HYBRID_WRAP_LABEL @ encode TYPE_WRAP_CONTEXT put_wrap_context ctx @ eph @ ct)"

lemma derive_kek_input:
  "derive_kek P ss1 ss2 ctx eph ct = (\<lambda>(k, i). pr_hkdf P k i) (kek_input ss1 ss2 ctx eph ct)"
  by (simp add: derive_kek_def kek_input_def Let_def)

lemma kek_input_inj:
  assumes "ok_wrap_context c" and "ok_wrap_context c'" and "length ss1 = length ss1'"
    and "length eph = length eph'"
    and "kek_input ss1 ss2 c eph ct = kek_input ss1' ss2' c' eph' ct'"
  shows "ss1 = ss1' \<and> ss2 = ss2' \<and> c = c' \<and> eph = eph' \<and> ct = ct'"
proof -
  from assms(3,5) have "ss1 = ss1'" "ss2 = ss2'"
    and enc: "encode TYPE_WRAP_CONTEXT put_wrap_context c @ eph @ ct =
      encode TYPE_WRAP_CONTEXT put_wrap_context c' @ eph' @ ct'" by (simp_all add: kek_input_def)
  from wrap_context.tagged.prefix_free [OF assms(1,2) enc [unfolded wrap_context.encode_tagged]]
  show ?thesis using assms(4) \<open>ss1 = ss1'\<close> \<open>ss2 = ss2'\<close> by simp
qed

end
