(* ===== verification/Upload_Laws.thy ===== *)
theory Upload_Laws
  imports Upload DekWrap_Laws Download_Laws
begin

text \<open>
  The two ends of the file protocol together: what \<open>build_upload\<close> produces, a reader with the matching keys
  opens to the same plaintext; the streaming upload builds the same records; and a resumed upload continues
  with the same key.
\<close>

section \<open>Sealed streams open\<close>

definition sealed_chunks :: "primitives \<Rightarrow> dek \<Rightarrow> ident \<Rightarrow> u64 \<Rightarrow> u32 \<Rightarrow> stream_type \<Rightarrow> bytes \<Rightarrow> bytes list" where
  "sealed_chunks P dek f v cs t b =
     seal_frames (pr_gcm_seal P) (stream_subkey P dek t) f v t 0 (stream_frames (unat cs) b)"

definition manifest_entry :: "primitives \<Rightarrow> dek \<Rightarrow> ident \<Rightarrow> u64 \<Rightarrow> u32 \<Rightarrow> stream_type \<times> bytes \<Rightarrow> stream" where
  "manifest_entry P dek f v cs = (\<lambda>(t, b). \<lparr>sm_stream_type = t, sm_compression = CompNone,
     sm_chunk_count = word_of_nat (length (stream_frames (unat cs) b)),
     sm_digest = Bytes32 (stream_digest (pr_sha P) (sealed_chunks P dek f v cs t b))\<rparr>)"

definition sealed_entry :: "primitives \<Rightarrow> dek \<Rightarrow> ident \<Rightarrow> u64 \<Rightarrow> u32 \<Rightarrow> stream_type \<times> bytes \<Rightarrow> sealed_stream_out" where
  "sealed_entry P dek f v cs = (\<lambda>(t, b). \<lparr>so_stream_type = t, so_compression = CompNone, so_chunk_size = cs,
     so_chunk_count = word_of_nat (length (stream_frames (unat cs) b)),
     so_digest = stream_digest (pr_sha P) (sealed_chunks P dek f v cs t b),
     so_total_bytes = sum_list (map (\<lambda>c. word_of_nat (length c)) (sealed_chunks P dek f v cs t b)),
     so_chunks = sealed_chunks P dek f v cs t b\<rparr>)"

lemma seal_inputs_Inr:
  "0 < unat cs \<Longrightarrow> seal_inputs P dek f v cs ins =
     Inr (map (manifest_entry P dek f v cs) ins, map (sealed_entry P dek f v cs) ins)"
proof (induction ins)
  case (Cons x ins)
  then show ?case
    by (cases x) (simp add: seal_stream_frames manifest_entry_def sealed_entry_def sealed_chunks_def Let_def)
qed simp

text \<open>The framing of one stream stays within the addressable bound.\<close>

definition fits :: "u32 \<Rightarrow> bytes \<Rightarrow> bool" where
  "fits cs b \<longleftrightarrow> length (stream_frames (unat cs) b) * unat cs \<le> 256 * 1024 * 1024 * 1024"

lemma fits_addressable:
  assumes "fits cs b" and "0 < unat cs" and "ma_chunk_size m = cs"
  shows "addressable m (manifest_entry P dek f v cs (t, b))" "length (stream_frames (unat cs) b) < 2 ^ 64"
proof -
  let ?n = "length (stream_frames (unat cs) b)"
  have bound: "?n * unat cs \<le> 274877906944" using assms(1) by (simp add: fits_def)
  have "?n \<le> ?n * unat cs" using assms(2) by simp
  from order_trans [OF this bound] show n: "?n < 2 ^ 64" by simp
  then have un: "unat (word_of_nat ?n :: u64) = ?n" by (simp add: unat_of_nat)
  have uc: "unat (ucast cs :: u64) = unat cs" using unat_u32_bound [of cs] by (simp add: unsigned_ucast_eq take_bit_nat_eq_self)
  have "unat (word_of_nat ?n * ucast cs :: u64) = ?n * unat cs"
    using bound by (simp add: unat_word_ariths un uc)
  then show "addressable m (manifest_entry P dek f v cs (t, b))"
    using bound by (simp add: addressable_def manifest_entry_def assms(3) checked_mul_def un uc
        MAX_ADDRESSABLE_BYTES_def word_le_nat_alt)
qed

definition served_chunks :: "sealed_stream_out \<Rightarrow> stream_chunks" where
  "served_chunks out = \<lparr>sc_stream_type = so_stream_type out, sc_chunks = so_chunks out\<rparr>"

lemma find_served:
  "distinct (map fst ins) \<Longrightarrow> (t, b) \<in> set ins \<Longrightarrow>
     find (\<lambda>s. sc_stream_type s = t) (map (served_chunks \<circ> sealed_entry P dek f v cs) ins) =
       Some \<lparr>sc_stream_type = t, sc_chunks = sealed_chunks P dek f v cs t b\<rparr>"
  by (induction ins) (force simp: served_chunks_def sealed_entry_def)+

lemma sealed_stream_opens:
  assumes "aead_ok P" and "0 < unat cs" and "fits cs b" and "ma_chunk_size m = cs" and "ma_version m = v"
    and "vx_file_id ctx = f" and "distinct (map fst ins)" and "(t, b) \<in> set ins"
  shows "stream_opens P ctx m dek (map (served_chunks \<circ> sealed_entry P dek f v cs) ins)
    (manifest_entry P dek f v cs (t, b)) \<lparr>os_stream_type = t, os_plaintext = b\<rparr>"
proof -
  let ?fs = "stream_frames (unat cs) b"
  have "sealed_chunks P dek f v cs t b \<noteq> []"
    by (metis length_0_conv length_seal_frames sealed_chunks_def stream_frames_nonempty)
  moreover have "open_loop (pr_gcm_open P) (stream_subkey P dek t) f v t (length ?fs)
      (enumerate 0 (sealed_chunks P dek f v cs t b)) [] = Inr b"
    using open_loop_seal_frames [of "pr_gcm_seal P" "pr_gcm_open P" "length ?fs" 0 ?fs] assms(1)
    by (simp add: aead_ok_def sealed_chunks_def concat_stream_frames [OF assms(2)])
  ultimately have "open_stream (pr_gcm_open P) (stream_subkey P dek t) f v t (sealed_chunks P dek f v cs t b) = Inr b"
    by (simp add: open_stream_def sealed_chunks_def)
  moreover have "length (sealed_chunks P dek f v cs t b) = length ?fs" by (simp add: sealed_chunks_def)
  ultimately show ?thesis
    using fits_addressable(1) [OF assms(3,2,4)] find_served [OF assms(7,8)] assms(5,6)
    by (auto simp: stream_opens_def open_declared_def manifest_entry_def Let_def)
qed

section \<open>Wraps open for their keys\<close>

definition key_pair :: "primitives \<Rightarrow> bytes \<Rightarrow> bytes option \<Rightarrow> bytes \<Rightarrow> bytes option \<Rightarrow> bool" where
  "key_pair P sk seed pk mlkem \<longleftrightarrow> hpke_pair P sk pk \<and> (case mlkem of None \<Rightarrow> True
     | Some ek \<Rightarrow> (case seed of None \<Rightarrow> False
         | Some s \<Rightarrow> hybrid_pair P (from_components sk s) \<lparr>hp_x25519 = pk, hp_mlkem = ek\<rparr>))"

definition opens_as :: "primitives \<Rightarrow> suite \<Rightarrow> bytes \<Rightarrow> bytes option \<Rightarrow> wrapped_dek \<Rightarrow> wrap_context \<Rightarrow> dek \<Rightarrow> bool" where
  "opens_as P suite secret seed w c d \<longleftrightarrow> (case suite of SuiteV1 \<Rightarrow> unwrap_dek P secret w c = Inr d
     | SuiteV2 \<Rightarrow> (case seed of None \<Rightarrow> False
         | Some s \<Rightarrow> rbind (unpack_hybrid_wrap w) (\<lambda>h. unwrap_dek_hybrid P (from_components secret s) h c) = Inr d))"

lemma wrap_and_grant_opens:
  assumes "hpke_pair P sk pk" and "length (dek_raw d) = 32" and "self = None \<or> self = Some sk"
  obtains w where "wrap_and_grant P r signer f v rid rt pk d (commit P d) by_id t self =
      Inr (wrap_out_of P signer f v rid rt (commit P d) by_id t w)"
    "opens_as P SuiteV1 sk seed w \<lparr>wc_file_id = f, wc_version = v, wc_recipient_id = rid\<rparr> d"
  using wrap_unwrap [OF assms(1,2), of "snd r" "\<lparr>wc_file_id = f, wc_version = v, wc_recipient_id = rid\<rparr>"] assms(3)
  by (auto simp: wrap_and_grant_def opens_as_def Let_def)

lemma wrap_and_grant_hybrid_opens:
  assumes "hybrid_pair P (from_components sk s) pk" and "aead_ok P" and "length (dek_raw d) = 32"
    and "self = None \<or> self = Some (from_components sk s)"
  obtains w where "wrap_and_grant_hybrid P r signer f v rid rt pk d (commit P d) by_id t self =
      Inr (wrap_out_of P signer f v rid rt (commit P d) by_id t w)"
    "opens_as P SuiteV2 sk (Some s) w \<lparr>wc_file_id = f, wc_version = v, wc_recipient_id = rid\<rparr> d"
  using wrap_unwrap_hybrid [OF assms(1-3), of "fst r" "snd r" "\<lparr>wc_file_id = f, wc_version = v, wc_recipient_id = rid\<rparr>"]
    assms(4) by (auto simp: wrap_and_grant_hybrid_def opens_as_def Let_def)

lemma unwrap_for_opens:
  assumes "opens_as P (ma_alg m) (vx_recipient_secret ctx) (vx_recipient_mlkem_seed ctx) w
    \<lparr>wc_file_id = vx_file_id ctx, wc_version = ma_version m, wc_recipient_id = vx_recipient_id ctx\<rparr> d"
  shows "unwrap_for P ctx m w = Inr d"
  using assms by (auto simp: unwrap_for_def opens_as_def result_simps Let_def split: suite.splits option.splits)

lemma upload_wraps_open:
  assumes "key_pair P (enc_secret o1) (mlkem_seed_of o1) (enc_pub_bytes o1) (mlkem_pub_bytes o1)"
    and "key_pair P rsk rseed (up_recovery_pub params) (up_recovery_mlkem_pub params)" and "aead_ok P"
    and "length (dek_raw d) = 32" and "up_owner params = o1"
    and "suite = (if opt_zip (mlkem_pub_bytes o1) (up_recovery_mlkem_pub params) \<noteq> None then SuiteV2 else SuiteV1)"
  obtains w1 w2 where "upload_wraps P r1 r2 d (commit P d) params
      (opt_zip (mlkem_pub_bytes o1) (up_recovery_mlkem_pub params)) =
      Inr [wrap_out_of P o1 (up_file_id params) 1 (up_owner_id params) RtUser (commit P d) (up_owner_id params)
             (up_created_at params) w1,
           wrap_out_of P o1 (up_file_id params) 1 RECOVERY_ID RtRecovery (commit P d) (up_owner_id params)
             (up_created_at params) w2]"
    "opens_as P suite (enc_secret o1) (mlkem_seed_of o1) w1
      \<lparr>wc_file_id = up_file_id params, wc_version = 1, wc_recipient_id = up_owner_id params\<rparr> d"
    "opens_as P suite rsk rseed w2
      \<lparr>wc_file_id = up_file_id params, wc_version = 1, wc_recipient_id = RECOVERY_ID\<rparr> d"
proof (cases "opt_zip (mlkem_pub_bytes o1) (up_recovery_mlkem_pub params)")
  case None
  from assms(1,2) have pairs: "hpke_pair P (enc_secret o1) (enc_pub_bytes o1)" "hpke_pair P rsk (up_recovery_pub params)"
    by (simp_all add: key_pair_def)
  obtain w1 where w1: "wrap_and_grant P r1 o1 (up_file_id params) 1 (up_owner_id params) RtUser (enc_pub_bytes o1) d
      (commit P d) (up_owner_id params) (up_created_at params) (Some (enc_secret o1)) =
      Inr (wrap_out_of P o1 (up_file_id params) 1 (up_owner_id params) RtUser (commit P d) (up_owner_id params)
        (up_created_at params) w1)" "opens_as P SuiteV1 (enc_secret o1) (mlkem_seed_of o1) w1
      \<lparr>wc_file_id = up_file_id params, wc_version = 1, wc_recipient_id = up_owner_id params\<rparr> d"
    by (rule wrap_and_grant_opens [OF pairs(1) assms(4) disjI2 [OF refl]])
  obtain w2 where w2: "wrap_and_grant P r2 o1 (up_file_id params) 1 RECOVERY_ID RtRecovery (up_recovery_pub params) d
      (commit P d) (up_owner_id params) (up_created_at params) None =
      Inr (wrap_out_of P o1 (up_file_id params) 1 RECOVERY_ID RtRecovery (commit P d) (up_owner_id params)
        (up_created_at params) w2)" "opens_as P SuiteV1 rsk rseed w2
      \<lparr>wc_file_id = up_file_id params, wc_version = 1, wc_recipient_id = RECOVERY_ID\<rparr> d"
    by (rule wrap_and_grant_opens [OF pairs(2) assms(4) disjI1 [OF refl]])
  from w1 w2 None show ?thesis by (intro that [of w1 w2]) (simp_all add: upload_wraps_def FIRST_VERSION_def assms(5,6) Let_def)
next
  case (Some pq)
  then obtain om rm where m: "mlkem_pub_bytes o1 = Some om" "up_recovery_mlkem_pub params = Some rm" "pq = (om, rm)"
    by (auto simp: opt_zip_def split: option.splits)
  with assms(1,2) obtain s rs where s: "mlkem_seed_of o1 = Some s" "rseed = Some rs"
    and pairs: "hybrid_pair P (from_components (enc_secret o1) s) \<lparr>hp_x25519 = enc_pub_bytes o1, hp_mlkem = om\<rparr>"
      "hybrid_pair P (from_components rsk rs) \<lparr>hp_x25519 = up_recovery_pub params, hp_mlkem = rm\<rparr>"
    by (auto simp: key_pair_def split: option.splits)
  obtain w1 where w1: "wrap_and_grant_hybrid P r1 o1 (up_file_id params) 1 (up_owner_id params) RtUser
      \<lparr>hp_x25519 = enc_pub_bytes o1, hp_mlkem = om\<rparr> d (commit P d) (up_owner_id params) (up_created_at params)
      (Some (from_components (enc_secret o1) s)) =
      Inr (wrap_out_of P o1 (up_file_id params) 1 (up_owner_id params) RtUser (commit P d) (up_owner_id params)
        (up_created_at params) w1)" "opens_as P SuiteV2 (enc_secret o1) (Some s) w1
      \<lparr>wc_file_id = up_file_id params, wc_version = 1, wc_recipient_id = up_owner_id params\<rparr> d"
    by (rule wrap_and_grant_hybrid_opens [OF pairs(1) assms(3,4) disjI2 [OF refl]])
  obtain w2 where w2: "wrap_and_grant_hybrid P r2 o1 (up_file_id params) 1 RECOVERY_ID RtRecovery
      \<lparr>hp_x25519 = up_recovery_pub params, hp_mlkem = rm\<rparr> d (commit P d) (up_owner_id params)
      (up_created_at params) None =
      Inr (wrap_out_of P o1 (up_file_id params) 1 RECOVERY_ID RtRecovery (commit P d) (up_owner_id params)
        (up_created_at params) w2)" "opens_as P SuiteV2 rsk (Some rs) w2
      \<lparr>wc_file_id = up_file_id params, wc_version = 1, wc_recipient_id = RECOVERY_ID\<rparr> d"
    by (rule wrap_and_grant_hybrid_opens [OF pairs(2) assms(3,4) disjI1 [OF refl]])
  from w1 w2 m s Some show ?thesis
    by (intro that [of w1 w2]) (simp_all add: upload_wraps_def FIRST_VERSION_def assms(5,6) Let_def)
qed

section \<open>Upload and download\<close>

text \<open>Documented behaviour of the packages an upload relies on: the cipher, the lengths of HKDF and SHA-256
  outputs, and signatures that verify under the signer's key.\<close>

definition primitives_ok :: "primitives \<Rightarrow> bool" where
  "primitives_ok P \<longleftrightarrow> aead_ok P \<and> (\<forall>k i. length (pr_hkdf P k i) = 32) \<and> (\<forall>x. length (pr_sha P x) = 32) \<and>
     (\<forall>sk. pr_vk_valid P (pr_ed_pub P sk) \<and> (\<forall>m. pr_strict P (pr_ed_pub P sk) m (pr_ed_sign P sk m)))"

lemma own_signature: "primitives_ok P \<Longrightarrow> verify P (sig_pub_bytes P i) l tid put v (id_sign P i l tid put v)"
  by (simp add: primitives_ok_def verify_def sig_pub_bytes_def id_sign_def sign_canonical_def verify_canonical_def
      vk_from_bytes_def)

definition upload_ok :: "primitives \<Rightarrow> dek \<Rightarrow> upload_params \<Rightarrow> plaintext_streams \<Rightarrow> bool" where
  "upload_ok P d params streams \<longleftrightarrow> ok_id (up_file_id params) \<and> ok_id (up_owner_id params) \<and>
     CHUNK_SIZE_MIN \<le> up_chunk_size params \<and> up_chunk_size params \<le> CHUNK_SIZE_MAX \<and> length (dek_raw d) = 32 \<and>
     key_pair P (enc_secret (up_owner params)) (mlkem_seed_of (up_owner params)) (enc_pub_bytes (up_owner params))
       (mlkem_pub_bytes (up_owner params)) \<and>
     list_all (\<lambda>(t, b). fits (up_chunk_size params) b) (plaintext_inputs streams)"

text \<open>What a server serves to the recipient of the wrap \<open>w\<close>: the records as uploaded, the recovery grant
  from the recovery wrap.\<close>

definition bundle_for :: "upload_bundle \<Rightarrow> wrap_out \<Rightarrow> wrap_out \<Rightarrow> download_bundle" where
  "bundle_for ub w recovery = \<lparr>db_manifest_bytes = encode TYPE_MANIFEST put_manifest (ub_manifest ub),
     db_manifest_sig = ub_manifest_sig ub, db_genesis_bytes = encode TYPE_GENESIS put_genesis (ub_genesis ub),
     db_genesis_sig = ub_genesis_sig ub, db_wrapped_dek = wo_wrapped_dek w,
     db_grant_bytes = encode TYPE_GRANT put_grant (wo_grant w), db_grant_sig = wo_grant_sig w,
     db_ancestor_grants = [], db_recovery_grant_bytes = encode TYPE_GRANT put_grant (wo_grant recovery),
     db_recovery_grant_sig = wo_grant_sig recovery, db_streams = map served_chunks (ub_streams ub)\<rparr>"

text \<open>A reader of the version: it resolved the owner's key, has the recipient's keys, has seen no later
  version, and holds neither tombstones nor compromises against it.\<close>

definition reader_of :: "primitives \<Rightarrow> upload_params \<Rightarrow> ident \<Rightarrow> recipient_type \<Rightarrow> bytes \<Rightarrow> bytes option
    \<Rightarrow> verify_context \<Rightarrow> bool" where
  "reader_of P params rid rt secret seed ctx \<longleftrightarrow> vx_file_id ctx = up_file_id params \<and>
     vx_author_sig_pub ctx = sig_pub_bytes P (up_owner params) \<and>
     vx_owner_sig_pub ctx = sig_pub_bytes P (up_owner params) \<and> vx_recipient_id ctx = rid \<and>
     vx_recipient_type ctx = rt \<and> vx_recipient_secret ctx = secret \<and> vx_recipient_mlkem_seed ctx = seed \<and>
     fresh_version 1 (vx_seen_max_version ctx) \<and> vx_tombstones ctx = None \<and> vx_compromise ctx = None"

definition opened_plaintext :: "plaintext_streams \<Rightarrow> opened_stream list" where
  "opened_plaintext streams = map (\<lambda>(t, b). \<lparr>os_stream_type = t, os_plaintext = b\<rparr>) (plaintext_inputs streams)"

lemma plaintext_inputs_distinct: "distinct (map fst (plaintext_inputs streams))"
  by (auto simp: plaintext_inputs_def present_def split: option.splits)

lemma manifest_entries_ascending:
  "strictly_ascending stream_key (map (manifest_entry P d f v cs) (plaintext_inputs streams))"
  by (auto simp: plaintext_inputs_def present_def manifest_entry_def strictly_ascending_def stream_key_def
      split: option.splits)

lemma manifest_entries_ok:
  "primitives_ok P \<Longrightarrow> s \<in> set (map (manifest_entry P d f v cs) ins) \<Longrightarrow> ok_stream s"
  by (auto simp: manifest_entry_def ok_stream_def ok_b32_def stream_digest_def primitives_ok_def)

lemma author_grant_accepted:
  "gr_granted_by g = a \<Longrightarrow> verify P ap L_GRANT TYPE_GRANT put_grant g sig \<Longrightarrow>
     verify_grant_chain P g sig [] f v c a ap gp ad = Inr ()"
  by (simp add: verify_grant_chain_def chain_walk.simps [of _ _ _ _ _ _ _ g])

lemma ok_recovery_id [simp]: "ok_id RECOVERY_ID"
  by (simp add: RECOVERY_ID_def ok_id_def)

lemma authored_manifest_ok:
  assumes "primitives_ok P" and "ma_dek_commit m = Bytes32 (commit P d)" and "ok_id (ma_file_id m)" "ok_id (ma_author_id m)"
    and "ma_streams m = map (manifest_entry P d f v cs) (plaintext_inputs streams)"
  shows "ok_manifest m"
  using assms manifest_entries_ascending manifest_entries_ok [OF assms(1)]
  by (auto simp: ok_manifest_def ok_b32_def primitives_ok_def commit_def)

text \<open>Any version an author seals and signs opens for the holder of a wrap's keys.\<close>

lemma authored_version_opens:
  assumes "primitives_ok P"
    and m: "m = \<lparr>ma_file_id = f, ma_version = v, ma_file_type = ft, ma_alg = suite, ma_chunk_size = cs,
      ma_dek_commit = Bytes32 (commit P d), ma_streams = map (manifest_entry P d f v cs) (plaintext_inputs streams),
      ma_recovery_present = True, ma_author_id = aid, ma_created_at = t\<rparr>"
    and ids: "ok_id f" "ok_id aid" "ok_id rid" "rt = RtRecovery \<Longrightarrow> rid = RECOVERY_ID" and cs: "CHUNK_SIZE_MIN \<le> cs" "cs \<le> CHUNK_SIZE_MAX"
    and fits: "list_all (\<lambda>(t, b). fits cs b) (plaintext_inputs streams)"
    and ctx: "vx_file_id ctx = f" "vx_author_sig_pub ctx = sig_pub_bytes P author" "vx_recipient_id ctx = rid"
      "vx_recipient_type ctx = rt" "vx_recipient_secret ctx = secret" "vx_recipient_mlkem_seed ctx = seed"
    and gen: "owner_genesis P ctx gb gs aid" and unrevoked: "unrevoked ctx m"
    and fresh: "fresh_version v (vx_seen_max_version ctx)"
    and w: "w = wrap_out_of P author f v rid rt (commit P d) aid t wd"
    and rec: "recovery = wrap_out_of P author f v RECOVERY_ID RtRecovery (commit P d) aid t wd'"
    and opens: "opens_as P suite secret seed wd \<lparr>wc_file_id = f, wc_version = v, wc_recipient_id = rid\<rparr> d"
    and b: "b = \<lparr>db_manifest_bytes = encode TYPE_MANIFEST put_manifest m,
      db_manifest_sig = id_sign P author L_MANIFEST TYPE_MANIFEST put_manifest m, db_genesis_bytes = gb,
      db_genesis_sig = gs, db_wrapped_dek = wo_wrapped_dek w,
      db_grant_bytes = encode TYPE_GRANT put_grant (wo_grant w), db_grant_sig = wo_grant_sig w,
      db_ancestor_grants = [], db_recovery_grant_bytes = encode TYPE_GRANT put_grant (wo_grant recovery),
      db_recovery_grant_sig = wo_grant_sig recovery,
      db_streams = map (served_chunks \<circ> sealed_entry P d f v cs) (plaintext_inputs streams)\<rparr>"
  shows "verify_and_open P ctx b = Inr \<lparr>of_version = v, of_file_type = ft,
    of_content_digest = content_digest_of (ma_streams m) (replicate 32 0), of_recovery_grant_ok = True,
    of_streams = opened_plaintext streams\<rparr>"
proof -
  let ?ins = "plaintext_inputs streams"
  have cs0: "0 < unat cs" using cs by (auto simp: CHUNK_SIZE_MIN_def word_le_nat_alt)
  have c32: "length (commit P d) = 32" using assms(1) by (simp add: primitives_ok_def commit_def)
  note g = wrap_out_of_def build_grant_def
  have "signed_manifest P ctx (encode TYPE_MANIFEST put_manifest m)
      (id_sign P author L_MANIFEST TYPE_MANIFEST put_manifest m) m"
    using authored_manifest_ok [OF assms(1), of m d f v cs streams] ids cs ctx own_signature [OF assms(1)]
    by (simp add: signed_manifest_def m)
  moreover have "granted_read P ctx (encode TYPE_GRANT put_grant (wo_grant w)) (wo_grant_sig w) [] m"
    unfolding granted_read_def w g using ids ctx c32 own_signature [OF assms(1)]
    by (intro exI conjI [OF _ conjI [OF refl]]) (auto simp: m ok_grant_def ok_b32_def Let_def intro!: author_grant_accepted)
  moreover have "unwrap_for P ctx m (wo_wrapped_dek w) = Inr d"
    by (rule unwrap_for_opens) (use opens ctx in \<open>simp add: m w g Let_def\<close>)
  moreover have "list_all2 (stream_opens P ctx m d (map (served_chunks \<circ> sealed_entry P d f v cs) ?ins)) (ma_streams m)
      (opened_plaintext streams)"
    using sealed_stream_opens [of P cs _ m v ctx f ?ins] plaintext_inputs_distinct assms(1) ctx cs0 fits
    by (auto simp: m opened_plaintext_def list_all2_map1 list_all2_map2 list.rel_map primitives_ok_def
        list_all_iff split_def intro!: list.rel_refl_strong)
  moreover have "recovery_grant_valid P (encode TYPE_GRANT put_grant (wo_grant recovery)) (wo_grant_sig recovery) m
      (vx_author_sig_pub ctx) aid"
  proof -
    have "ok_grant (wo_grant recovery)" using ids c32 by (simp add: rec g Let_def ok_grant_def ok_b32_def)
    then have "decode_grant (encode TYPE_GRANT put_grant (wo_grant recovery)) = Inr (wo_grant recovery)"
      by (simp add: decode_grant_iff)
    with ctx own_signature [OF assms(1)] show ?thesis
      by (simp add: recovery_grant_valid_def rec g Let_def m)
  qed
  moreover have "ma_version m = v" "ma_file_type m = ft" "ma_author_id m = aid" "ma_dek_commit m = Bytes32 (commit P d)"
    by (simp_all add: m)
  ultimately show ?thesis
    using gen unrevoked fresh by (simp add: verify_and_open_Inr b exI [of _ m] exI [of _ d])
qed

lemma built_wrap_opens:
  assumes "primitives_ok P" and "upload_ok P d params streams" and "reader_of P params rid rt secret seed ctx"
    and "assemble_records P r1 r2 d (commit P d) params
      (map (manifest_entry P d (up_file_id params) 1 (up_chunk_size params)) (plaintext_inputs streams)) =
      Inr (m, ms, ge, gs, wraps)"
    and "w = wrap_out_of P (up_owner params) (up_file_id params) 1 rid rt (commit P d) (up_owner_id params)
      (up_created_at params) wd"
    and "recovery = wrap_out_of P (up_owner params) (up_file_id params) 1 RECOVERY_ID RtRecovery (commit P d)
      (up_owner_id params) (up_created_at params) wd'"
    and "opens_as P (ma_alg m) secret seed wd \<lparr>wc_file_id = up_file_id params, wc_version = 1, wc_recipient_id = rid\<rparr> d"
    and "ok_id rid" and "rt = RtRecovery \<Longrightarrow> rid = RECOVERY_ID"
    and "ub_manifest ub = m" "ub_manifest_sig ub = ms" "ub_genesis ub = ge" "ub_genesis_sig ub = gs"
      "ub_streams ub = map (sealed_entry P d (up_file_id params) 1 (up_chunk_size params)) (plaintext_inputs streams)"
  obtains f where "verify_and_open P ctx (bundle_for ub w recovery) = Inr f" "of_version f = 1"
    "of_file_type f = up_file_type params" "of_recovery_grant_ok f" "of_streams f = opened_plaintext streams"
proof -
  note ctx = assms(3) [unfolded reader_of_def] and up = assms(2) [unfolded upload_ok_def]
  let ?suite = "ma_alg m" and ?f = "up_file_id params" and ?cs = "up_chunk_size params"
  have m: "m = \<lparr>ma_file_id = ?f, ma_version = 1, ma_file_type = up_file_type params, ma_alg = ?suite, ma_chunk_size = ?cs,
      ma_dek_commit = Bytes32 (commit P d), ma_streams = map (manifest_entry P d ?f 1 ?cs) (plaintext_inputs streams),
      ma_recovery_present = True, ma_author_id = up_owner_id params, ma_created_at = up_created_at params\<rparr>"
    and sigs: "ms = id_sign P (up_owner params) L_MANIFEST TYPE_MANIFEST put_manifest m"
      "gs = id_sign P (up_owner params) L_GENESIS TYPE_GENESIS put_genesis ge"
    and ge: "ge_file_id ge = up_file_id params" "ge_owner_id ge = up_owner_id params"
    using assms(4) by (auto simp: assemble_records_def result_simps FIRST_VERSION_def Let_def)
  have gen: "owner_genesis P ctx (encode TYPE_GENESIS put_genesis ge) gs (up_owner_id params)"
    unfolding owner_genesis_def using up ctx own_signature [OF assms(1)]
    by (intro exI [of _ ge]) (simp add: ge sigs ok_genesis_def genesis_after_compromise_def)
  have b: "bundle_for ub w recovery = \<lparr>db_manifest_bytes = encode TYPE_MANIFEST put_manifest m,
      db_manifest_sig = id_sign P (up_owner params) L_MANIFEST TYPE_MANIFEST put_manifest m,
      db_genesis_bytes = encode TYPE_GENESIS put_genesis ge, db_genesis_sig = gs, db_wrapped_dek = wo_wrapped_dek w,
      db_grant_bytes = encode TYPE_GRANT put_grant (wo_grant w), db_grant_sig = wo_grant_sig w,
      db_ancestor_grants = [], db_recovery_grant_bytes = encode TYPE_GRANT put_grant (wo_grant recovery),
      db_recovery_grant_sig = wo_grant_sig recovery,
      db_streams = map (served_chunks \<circ> sealed_entry P d ?f 1 ?cs) (plaintext_inputs streams)\<rparr>"
    by (simp add: bundle_for_def assms(10-14) sigs)
  have "verify_and_open P ctx (bundle_for ub w recovery) = Inr \<lparr>of_version = 1, of_file_type = up_file_type params,
    of_content_digest = content_digest_of (ma_streams m) (replicate 32 0), of_recovery_grant_ok = True,
    of_streams = opened_plaintext streams\<rparr>"
    by (rule authored_version_opens [OF assms(1) m _ _ assms(8,9) _ _ _ _ _ _ _ _ _ gen _ _ assms(5,6,7) b])
      (use up ctx in \<open>auto simp: unrevoked_def\<close>)
  from that [OF this] show ?thesis by simp
qed

lemma upload_builds:
  assumes "primitives_ok P" and "upload_ok P d params streams"
    and "key_pair P rsk rseed (up_recovery_pub params) (up_recovery_mlkem_pub params)"
    and "o1 = up_owner params" and "cs = up_chunk_size params" and "f = up_file_id params" and "oid = up_owner_id params"
    and "ins = plaintext_inputs streams"
  obtains m ms ge gs w1 w2 ws wr ub where "build_upload_inner P r1 r2 d params streams = Inr ub"
    "assemble_records P r1 r2 d (commit P d) params (map (manifest_entry P d f 1 cs) ins) = Inr (m, ms, ge, gs, [ws, wr])"
    "ub = \<lparr>ub_file_id = f, ub_file_type = up_file_type params, ub_genesis = ge, ub_genesis_sig = gs, ub_manifest = m,
       ub_manifest_sig = ms, ub_streams = map (sealed_entry P d f 1 cs) ins, ub_wraps = [ws, wr]\<rparr>"
    "ws = wrap_out_of P o1 f 1 oid RtUser (commit P d) oid (up_created_at params) w1"
    "wr = wrap_out_of P o1 f 1 RECOVERY_ID RtRecovery (commit P d) oid (up_created_at params) w2"
    "opens_as P (ma_alg m) (enc_secret o1) (mlkem_seed_of o1) w1 \<lparr>wc_file_id = f, wc_version = 1, wc_recipient_id = oid\<rparr> d"
    "opens_as P (ma_alg m) rsk rseed w2 \<lparr>wc_file_id = f, wc_version = 1, wc_recipient_id = RECOVERY_ID\<rparr> d"
proof -
  note up = assms(2) [unfolded upload_ok_def]
  let ?pq = "opt_zip (mlkem_pub_bytes o1) (up_recovery_mlkem_pub params)"
  have cs: "0 < unat cs" using up by (auto simp: CHUNK_SIZE_MIN_def word_le_nat_alt assms(5))
  have kp: "key_pair P (enc_secret o1) (mlkem_seed_of o1) (enc_pub_bytes o1) (mlkem_pub_bytes o1)"
    and dl: "length (dek_raw d) = 32" and aead: "aead_ok P" using up assms(1) by (simp_all add: primitives_ok_def assms(4))
  obtain w1 w2 where w: "upload_wraps P r1 r2 d (commit P d) params ?pq =
      Inr [wrap_out_of P o1 f 1 oid RtUser (commit P d) oid (up_created_at params) w1,
           wrap_out_of P o1 f 1 RECOVERY_ID RtRecovery (commit P d) oid (up_created_at params) w2]" (is "_ = Inr [?ws, ?wr]")
    and o: "opens_as P (if ?pq \<noteq> None then SuiteV2 else SuiteV1) (enc_secret o1) (mlkem_seed_of o1) w1
        \<lparr>wc_file_id = f, wc_version = 1, wc_recipient_id = oid\<rparr> d"
      "opens_as P (if ?pq \<noteq> None then SuiteV2 else SuiteV1) rsk rseed w2
        \<lparr>wc_file_id = f, wc_version = 1, wc_recipient_id = RECOVERY_ID\<rparr> d"
    by (rule upload_wraps_open [OF kp assms(3) aead dl assms(4) [symmetric] refl]) (use assms(6,7) in auto)
  obtain m ms ge gs where asm: "assemble_records P r1 r2 d (commit P d) params (map (manifest_entry P d f 1 cs) ins) =
      Inr (m, ms, ge, gs, [?ws, ?wr])" and alg: "ma_alg m = (if ?pq \<noteq> None then SuiteV2 else SuiteV1)"
    using w by (auto simp: assemble_records_def Let_def assms(4))
  show ?thesis
    by (rule that [OF _ asm refl refl refl o [folded alg]])
      (use up asm in \<open>simp add: build_upload_inner_def seal_streams_def seal_inputs_Inr [OF cs [unfolded assms(5)]]
        not_less FIRST_VERSION_def assms(5-8) Let_def\<close>)
qed

text \<open>C1: What is uploaded can be read: for valid parameters \<open>build_upload\<close> succeeds with two wraps, and what
  the server then serves opens in full, under either suite: the owner through the first wrap and the recovery
  account through the second recover exactly the plaintext streams in order, as version 1 with a valid
  recovery grant.\<close>

theorem uploaded_file_opens:
  assumes "primitives_ok P" and "upload_ok P d params streams"
    and "key_pair P rsk rseed (up_recovery_pub params) (up_recovery_mlkem_pub params)"
    and "reader_of P params (up_owner_id params) RtUser (enc_secret (up_owner params))
      (mlkem_seed_of (up_owner params)) ctx1"
    and "reader_of P params RECOVERY_ID RtRecovery rsk rseed ctx2"
  shows "\<exists>ub ws wr f1 f2. build_upload_inner P r1 r2 d params streams = Inr ub \<and> ub_wraps ub = [ws, wr] \<and>
    verify_and_open P ctx1 (bundle_for ub ws wr) = Inr f1 \<and> verify_and_open P ctx2 (bundle_for ub wr wr) = Inr f2 \<and>
    of_streams f1 = opened_plaintext streams \<and> of_streams f2 = opened_plaintext streams \<and>
    of_version f1 = 1 \<and> of_version f2 = 1 \<and> of_recovery_grant_ok f1 \<and> of_recovery_grant_ok f2"
proof -
  obtain m ms ge gs w1 w2 ws wr ub where ub: "build_upload_inner P r1 r2 d params streams = Inr ub"
    and asm: "assemble_records P r1 r2 d (commit P d) params (map (manifest_entry P d (up_file_id params) 1
      (up_chunk_size params)) (plaintext_inputs streams)) = Inr (m, ms, ge, gs, [ws, wr])"
    and fields: "ub = \<lparr>ub_file_id = up_file_id params, ub_file_type = up_file_type params, ub_genesis = ge,
      ub_genesis_sig = gs, ub_manifest = m, ub_manifest_sig = ms, ub_streams = map (sealed_entry P d
      (up_file_id params) 1 (up_chunk_size params)) (plaintext_inputs streams), ub_wraps = [ws, wr]\<rparr>"
    and ws: "ws = wrap_out_of P (up_owner params) (up_file_id params) 1 (up_owner_id params) RtUser (commit P d)
      (up_owner_id params) (up_created_at params) w1"
    and wr: "wr = wrap_out_of P (up_owner params) (up_file_id params) 1 RECOVERY_ID RtRecovery (commit P d)
      (up_owner_id params) (up_created_at params) w2"
    and opens: "opens_as P (ma_alg m) (enc_secret (up_owner params)) (mlkem_seed_of (up_owner params)) w1
        \<lparr>wc_file_id = up_file_id params, wc_version = 1, wc_recipient_id = up_owner_id params\<rparr> d"
      "opens_as P (ma_alg m) rsk rseed w2
        \<lparr>wc_file_id = up_file_id params, wc_version = 1, wc_recipient_id = RECOVERY_ID\<rparr> d"
    by (rule upload_builds [OF assms(1-3) refl refl refl refl refl, of r1 r2])
  have flds: "ub_manifest ub = m" "ub_manifest_sig ub = ms" "ub_genesis ub = ge" "ub_genesis_sig ub = gs"
    "ub_streams ub = map (sealed_entry P d (up_file_id params) 1 (up_chunk_size params)) (plaintext_inputs streams)"
    "ub_wraps ub = [ws, wr]" by (simp_all add: fields)
  obtain f1 where f1: "verify_and_open P ctx1 (bundle_for ub ws wr) = Inr f1" "of_version f1 = 1"
    "of_recovery_grant_ok f1" "of_streams f1 = opened_plaintext streams"
    by (rule built_wrap_opens [OF assms(1,2,4) asm ws wr opens(1) _ _ flds(1-5)])
      (use assms(2) in \<open>auto simp: upload_ok_def\<close>)
  obtain f2 where f2: "verify_and_open P ctx2 (bundle_for ub wr wr) = Inr f2" "of_version f2 = 1"
    "of_recovery_grant_ok f2" "of_streams f2 = opened_plaintext streams"
    by (rule built_wrap_opens [OF assms(1,2,5) asm wr wr opens(2) _ _ flds(1-5)]) auto
  from ub flds(6) f1 f2 show ?thesis by blast
qed

section \<open>The streaming upload\<close>

definition small_of :: "plaintext_streams \<Rightarrow> small_streams" where
  "small_of streams = \<lparr>sl_metadata = ps_metadata streams, sl_thumbnail = ps_thumbnail streams,
     sl_preview = ps_preview streams\<rparr>"

text \<open>The records of a streamed upload, its content held as the emitted chunks, as a bundle.\<close>

definition bundle_of_records :: "upload_records \<Rightarrow> sealed_stream_out \<Rightarrow> upload_bundle" where
  "bundle_of_records ur content = \<lparr>ub_file_id = ur_file_id ur, ub_file_type = ur_file_type ur,
     ub_genesis = ur_genesis ur, ub_genesis_sig = ur_genesis_sig ur, ub_manifest = ur_manifest ur,
     ub_manifest_sig = ur_manifest_sig ur, ub_streams = content # ur_small_streams ur, ub_wraps = ur_wraps ur\<rparr>"

text \<open>A streamed upload is the same upload: however the source delivers the content, the sealer emits the
  content chunks of the whole-buffer upload in order, and finishing with the digest and count it returned
  yields the same signed records, wraps and small streams, or fails with the same error.\<close>

theorem streamed_upload_is_upload:
  assumes "delivers reader (ps_content streams)" and "CHUNK_SIZE_MIN \<le> up_chunk_size params"
  shows "\<exists>content. seal_from_reader P (content_sealer P (builder_new random) params) reader collect [] =
      Some (Inr (so_chunk_count content, so_digest content), numbered 0 (so_chunks content)) \<and>
    build_upload P random r1 r2 params streams =
      rbind (builder_finish P r1 r2 (builder_new random) params (small_of streams) (so_digest content)
        (so_chunk_count content)) (\<lambda>ur. Inr (bundle_of_records ur content))"
proof (intro exI conjI)
  let ?d = "dek_generate random" and ?cs = "up_chunk_size params"
  let ?c = "sealed_entry P ?d (up_file_id params) 1 ?cs (StContent, ps_content streams)"
  have cs: "0 < unat ?cs" using assms(2) by (auto simp: CHUNK_SIZE_MIN_def word_le_nat_alt)
  show "seal_from_reader P (content_sealer P (builder_new random) params) reader collect [] =
      Some (Inr (so_chunk_count ?c, so_digest ?c), numbered 0 (so_chunks ?c))"
    using cs by (simp add: seal_from_reader_def streaming_seal_whole [OF assms(1)] content_sealer_def sealer_new_def
        builder_new_def seal_stream_frames sealed_entry_def sealed_chunks_def FIRST_VERSION_def)
  have "plaintext_inputs streams = (StContent, ps_content streams) # small_inputs (small_of streams)"
    by (simp add: plaintext_inputs_def small_inputs_def small_of_def)
  then show "build_upload P random r1 r2 params streams =
      rbind (builder_finish P r1 r2 (builder_new random) params (small_of streams) (so_digest ?c) (so_chunk_count ?c))
        (\<lambda>ur. Inr (bundle_of_records ur ?c))"
    by (simp add: build_upload_def build_upload_inner_def builder_finish_def build_records_inner_def builder_new_def
        seal_streams_def seal_inputs_Inr [OF cs] FIRST_VERSION_def bundle_of_records_def rbind_assoc Let_def
        del: seal_inputs.simps)
      (simp add: manifest_entry_def sealed_entry_def split_def rbind_def split: sum.splits)
qed

section \<open>A resumed upload\<close>

lemma seal_frames_nth:
  "seal_frames gs ck f v t 0 fs =
     map (\<lambda>i. seal_chunk gs ck (chunk_aad_at f v t (word_of_nat i) (i = length fs - 1)) (fs ! i)) [0..<length fs]"
  by (rule nth_equalityI)
    (simp_all add: seal_frames_enumerate [of "length fs" 0 fs, symmetric] nth_enumerate_eq)

text \<open>A resumed upload continues the same stream: from the owner's wrap in the uploaded records the
  sealer is rebuilt, under either suite, and sealing frame by frame with it gives byte for byte the content
  chunks of the original upload.\<close>

theorem resumed_upload_continues:
  assumes "primitives_ok P" and "upload_ok P d params streams"
    and "key_pair P rsk rseed (up_recovery_pub params) (up_recovery_mlkem_pub params)"
    and "build_upload_inner P r1 r2 d params streams = Inr ub"
  shows "\<exists>c. resume_content_sealer P (up_owner params) (wo_wrapped_dek (hd (ub_wraps ub)))
      \<lparr>wc_file_id = up_file_id params, wc_version = 1, wc_recipient_id = up_owner_id params\<rparr>
      (ma_alg (ub_manifest ub)) (up_file_id params) 1 (up_chunk_size params) = Inr c \<and>
    (let frames = stream_frames (unat (up_chunk_size params)) (ps_content streams) in
     so_chunks (hd (ub_streams ub)) = map (\<lambda>i. sealer_seal_chunk P c (word_of_nat i) (frames ! i)
       (i = length frames - 1)) [0..<length frames])"
proof -
  obtain m ms ge gs w1 w2 ws wr ub' where b: "build_upload_inner P r1 r2 d params streams = Inr ub'"
    and fields: "ub' = \<lparr>ub_file_id = up_file_id params, ub_file_type = up_file_type params, ub_genesis = ge,
      ub_genesis_sig = gs, ub_manifest = m, ub_manifest_sig = ms, ub_streams = map (sealed_entry P d
      (up_file_id params) 1 (up_chunk_size params)) (plaintext_inputs streams), ub_wraps = [ws, wr]\<rparr>"
    and ws: "ws = wrap_out_of P (up_owner params) (up_file_id params) 1 (up_owner_id params) RtUser (commit P d)
      (up_owner_id params) (up_created_at params) w1"
    and opens: "opens_as P (ma_alg m) (enc_secret (up_owner params)) (mlkem_seed_of (up_owner params)) w1
        \<lparr>wc_file_id = up_file_id params, wc_version = 1, wc_recipient_id = up_owner_id params\<rparr> d"
    by (rule upload_builds [OF assms(1-3) refl refl refl refl refl, of r1 r2])
  have "wo_wrapped_dek ws = w1" by (simp add: ws wrap_out_of_def build_grant_def Let_def)
  with opens have "resume_content_sealer P (up_owner params) (wo_wrapped_dek ws)
      \<lparr>wc_file_id = up_file_id params, wc_version = 1, wc_recipient_id = up_owner_id params\<rparr> (ma_alg m)
      (up_file_id params) 1 (up_chunk_size params) =
      Inr (sealer_new P d (up_file_id params) 1 StContent (unat (up_chunk_size params)))"
    by (auto simp: resume_content_sealer_def opens_as_def recover_dek_def recover_dek_hybrid_def Let_def
        split: option.splits suite.splits)
  with b assms(4) show ?thesis
    by (auto simp: fields plaintext_inputs_def sealed_entry_def sealed_chunks_def seal_frames_nth
        sealer_seal_chunk_def sealer_new_def chunk_aad_at_def Let_def)
qed

section \<open>A concrete upload\<close>

definition toy_up_prims :: primitives where
  "toy_up_prims = toy_prims\<lparr>pr_sha := (\<lambda>_. replicate 32 0)\<rparr>"

definition toy_identity :: identity where
  "toy_identity = \<lparr>idn_enc_sk = [], idn_enc_pk = [], idn_sig = [1],
     idn_mlkem = Some \<lparr>mk_seed = [5], mk_public = [5]\<rparr>\<rparr>"

definition toy_params :: upload_params where
  "toy_params = \<lparr>up_owner = toy_identity, up_owner_id = uid 1, up_owner_key_version = 1, up_file_id = uid 7,
     up_file_type = FtBlog, up_chunk_size = 4096, up_recovery_pub = [], up_recovery_mlkem_pub = Some [6],
     up_created_at = Timestamp 0\<rparr>"

definition toy_streams :: plaintext_streams where
  "toy_streams = \<lparr>ps_content = [1, 2, 3], ps_metadata = Some [9], ps_thumbnail = None, ps_preview = None\<rparr>"

definition toy_reader :: "ident \<Rightarrow> recipient_type \<Rightarrow> bytes option \<Rightarrow> verify_context" where
  "toy_reader rid rt seed = \<lparr>vx_file_id = uid 7, vx_author_sig_pub = [1], vx_owner_sig_pub = [1],
     vx_recipient_id = rid, vx_recipient_type = rt, vx_recipient_secret = [], vx_recipient_mlkem_seed = seed,
     vx_seen_max_version = None, vx_granter_sig_pub = no_granters, vx_admin_sig_pub = no_granters,
     vx_tombstones = None, vx_compromise = None\<rparr>"

lemmas toy_up_defs = toy_up_prims_def toy_prims_with_def toy_identity_def toy_params_def toy_streams_def

lemma toy_primitives_ok: "primitives_ok toy_up_prims" "aead_ok toy_up_prims"
  by (simp_all add: primitives_ok_def aead_ok_def aead_correct_def toy_up_defs toy_gcm_seal_def toy_gcm_open_def TAG_LEN_def)

lemma toy_key_pair: "key_pair toy_up_prims sk (Some s) pk (Some ek)"
  by (simp add: key_pair_def hpke_pair_def hybrid_pair_def toy_up_defs from_components_def MLKEM_CT_LEN_def)

lemma toy_small_stream: "length b < 4096 \<Longrightarrow> fits 4096 b"
  by (simp add: fits_def stream_frames_step)

lemma toy_upload_ok: "upload_ok toy_up_prims (Dek (replicate 32 1)) toy_params toy_streams"
  using toy_key_pair [of "[]" "[5]" "[]" "[5]"]
  by (simp add: upload_ok_def toy_params_def toy_identity_def toy_streams_def plaintext_inputs_def present_def
      toy_small_stream CHUNK_SIZE_MIN_def CHUNK_SIZE_MAX_def enc_secret_def mlkem_seed_of_def enc_pub_bytes_def
      mlkem_pub_bytes_def)

lemma toy_reader_of:
  "reader_of toy_up_prims toy_params rid rt [] seed (toy_reader rid rt seed)"
  by (simp add: reader_of_def toy_reader_def toy_params_def toy_identity_def sig_pub_bytes_def toy_up_prims_def
      toy_prims_with_def fresh_version_def FIRST_CONTACT_VERSION_CEILING_def)

theorem uploaded_file_opens_witness:
  "\<exists>ub ws wr f. build_upload_inner toy_up_prims ([], []) ([], []) (Dek (replicate 32 1)) toy_params toy_streams = Inr ub \<and>
     verify_and_open toy_up_prims (toy_reader (uid 1) RtUser (Some [5])) (bundle_for ub ws wr) = Inr f \<and>
     of_streams f = [\<lparr>os_stream_type = StContent, os_plaintext = [1, 2, 3]\<rparr>, \<lparr>os_stream_type = StMetadata, os_plaintext = [9]\<rparr>]"
proof -
  have fields: "up_owner_id toy_params = uid 1" "enc_secret (up_owner toy_params) = []"
    "mlkem_seed_of (up_owner toy_params) = Some [5]" "up_recovery_mlkem_pub toy_params = Some [6]"
    by (simp_all add: toy_params_def toy_identity_def enc_secret_def mlkem_seed_of_def)
  have "opened_plaintext toy_streams =
      [\<lparr>os_stream_type = StContent, os_plaintext = [1, 2, 3]\<rparr>, \<lparr>os_stream_type = StMetadata, os_plaintext = [9]\<rparr>]"
    by (simp add: opened_plaintext_def plaintext_inputs_def present_def toy_streams_def)
  with uploaded_file_opens [OF toy_primitives_ok(1) toy_upload_ok, of "[]" "Some [6]"
      "toy_reader (uid 1) RtUser (Some [5])" "toy_reader RECOVERY_ID RtRecovery (Some [6])" "([], [])" "([], [])"]
    toy_key_pair toy_reader_of show ?thesis by (auto simp: fields)
qed

theorem streamed_upload_is_upload_witness:
  "\<exists>content :: sealed_stream_out. seal_from_reader toy_up_prims (content_sealer toy_up_prims (builder_new []) toy_params)
      [RData [1], RData [2, 3]] collect [] =
    Some (Inr (so_chunk_count content, so_digest content), numbered 0 (so_chunks content))"
proof -
  have "delivers [RData [1], RData [2, 3]] (ps_content toy_streams)" "CHUNK_SIZE_MIN \<le> up_chunk_size toy_params"
    by (simp_all add: delivers_Data delivers_Nil toy_streams_def toy_params_def CHUNK_SIZE_MIN_def)
  from streamed_upload_is_upload [OF this, of toy_up_prims "[]" "([], [])" "([], [])"] show ?thesis by blast
qed

theorem resumed_upload_continues_witness:
  "\<exists>ub c. build_upload_inner toy_up_prims ([], []) ([], []) (Dek (replicate 32 1)) toy_params toy_streams = Inr ub \<and>
     so_chunks (hd (ub_streams ub)) = [sealer_seal_chunk toy_up_prims c 0 [1, 2, 3] True]"
proof -
  have pk: "up_recovery_mlkem_pub toy_params = Some [6]" by (simp add: toy_params_def)
  have frames: "stream_frames (unat (up_chunk_size toy_params)) (ps_content toy_streams) = [[1, 2, 3]]"
    by (simp add: toy_params_def toy_streams_def stream_frames_step)
  have kp: "key_pair toy_up_prims [] (Some [6]) (up_recovery_pub toy_params) (up_recovery_mlkem_pub toy_params)"
    unfolding pk by (rule toy_key_pair)
  obtain ub where ub: "build_upload_inner toy_up_prims ([], []) ([], []) (Dek (replicate 32 1)) toy_params toy_streams = Inr ub"
    by (rule upload_builds [OF toy_primitives_ok(1) toy_upload_ok kp refl refl refl refl refl, of "([], [])" "([], [])"])
  from resumed_upload_continues [OF toy_primitives_ok(1) toy_upload_ok kp ub] ub
  show ?thesis by (auto simp: frames Let_def)
qed

end
