(* ===== verification/KeyBlob.thy ===== *)
theory KeyBlob
  imports Identity Aead_Laws
begin

text \<open>
  The client's secrets at rest: \<^verbatim>\<open>crates/crypto/src/pwkdf.rs\<close> and, in \<^verbatim>\<open>crates/client-core/src\<close>,
  \<^verbatim>\<open>keyblob.rs\<close> (an identity), \<^verbatim>\<open>seedblob.rs\<close> (the directory root's seed) and \<^verbatim>\<open>password.rs\<close>. \<open>argon2\<close>
  is the package's key derivation, \<open>None\<close> when it refuses its parameters; salt and nonce are drawn by the
  caller.
\<close>

section \<open>Password key derivation\<close>

record argon2_params =
  ar_m_kib :: u32
  ar_t :: u32
  ar_p :: u32

definition ARGON2_FLOOR :: argon2_params where
  "ARGON2_FLOOR = \<lparr>ar_m_kib = 19 * 1024, ar_t = 2, ar_p = 1\<rparr>"

definition meets_floor :: "argon2_params \<Rightarrow> bool" where
  "meets_floor a \<longleftrightarrow> ar_m_kib ARGON2_FLOOR \<le> ar_m_kib a \<and> ar_t ARGON2_FLOOR \<le> ar_t a \<and> 1 \<le> ar_p a"

type_synonym argon2 = "argon2_params \<Rightarrow> bytes \<Rightarrow> bytes \<Rightarrow> bytes option"

definition derive_key :: "argon2 \<Rightarrow> bytes \<Rightarrow> bytes \<Rightarrow> argon2_params \<Rightarrow> crypto_error + bytes" where
  "derive_key argon2 password salt params =
     (if \<not> meets_floor params then Inl BelowArgonFloor
      else ok_or (argon2 params password salt) Argon2Error)"

section \<open>The key blob\<close>

definition KB_MAGIC :: bytes where "KB_MAGIC = str_bytes ''MXKB''"
definition VERSION_V1 :: byte where "VERSION_V1 = 1"
definition VERSION_V2 :: byte where "VERSION_V2 = 2"
definition HEADER_LEN :: nat where "HEADER_LEN = 4 + 1 + 4 + 4 + 4 + 16 + 12"
definition PLAINTEXT_V1_LEN :: nat where "PLAINTEXT_V1_LEN = 32 + 32 + 32"
definition PLAINTEXT_V2_LEN :: nat where "PLAINTEXT_V2_LEN = PLAINTEXT_V1_LEN + 64"
definition BLOB_V1_LEN :: nat where "BLOB_V1_LEN = HEADER_LEN + PLAINTEXT_V1_LEN + TAG_LEN"
definition BLOB_V2_LEN :: nat where "BLOB_V2_LEN = HEADER_LEN + PLAINTEXT_V2_LEN + TAG_LEN"

text \<open>The header of both blobs: magic, version, parameters, salt and nonce.\<close>

definition header_with :: "bytes \<Rightarrow> byte \<Rightarrow> argon2_params \<Rightarrow> bytes \<Rightarrow> bytes \<Rightarrow> bytes" where
  "header_with magic version params salt nonce =
     magic @ [version] @ be_bytes 4 (unat (ar_m_kib params)) @ be_bytes 4 (unat (ar_t params)) @
     be_bytes 4 (unat (ar_p params)) @ salt @ nonce"

definition kb_build_header :: "byte \<Rightarrow> argon2_params \<Rightarrow> bytes \<Rightarrow> bytes \<Rightarrow> bytes" where
  "kb_build_header version params salt nonce = header_with KB_MAGIC version params salt nonce"

definition kb_seal :: "primitives \<Rightarrow> argon2 \<Rightarrow> bytes \<Rightarrow> bytes \<Rightarrow> bytes \<Rightarrow> identity \<Rightarrow> argon2_params
    \<Rightarrow> client_error + bytes" where
  "kb_seal P argon2 salt nonce password i params =
     rbind (map_err (\<lambda>_. ClientBelowArgonFloor) (derive_key argon2 password salt params)) (\<lambda>pw_key.
     case secret_bytes i of (enc_sk, enc_pk, sig_seed, mlkem_seed) \<Rightarrow>
       let (version, plaintext) = (case mlkem_seed of
             Some seed \<Rightarrow> (VERSION_V2, enc_sk @ enc_pk @ sig_seed @ seed)
           | None \<Rightarrow> (VERSION_V1, enc_sk @ enc_pk @ sig_seed));
           header = kb_build_header version params salt nonce;
           ct = seal1 (pr_gcm_seal P) pw_key nonce header plaintext
       in Inr (header @ ct))"

text \<open>\<open>bslice a b bs\<close> is \<open>bs[a..b]\<close>; the fields read from a header.\<close>

definition bslice :: "nat \<Rightarrow> nat \<Rightarrow> bytes \<Rightarrow> bytes" where
  "bslice a b bs = take (b - a) (drop a bs)"

definition header_params :: "bytes \<Rightarrow> argon2_params" where
  "header_params blob = \<lparr>ar_m_kib = word_of_nat (be_val (bslice 5 9 blob)),
     ar_t = word_of_nat (be_val (bslice 9 13 blob)), ar_p = word_of_nat (be_val (bslice 13 17 blob))\<rparr>"

definition kb_lengths :: "byte \<Rightarrow> (nat \<times> nat) option" where
  "kb_lengths version =
     (if version = VERSION_V1 then Some (BLOB_V1_LEN, PLAINTEXT_V1_LEN)
      else if version = VERSION_V2 then Some (BLOB_V2_LEN, PLAINTEXT_V2_LEN) else None)"

text \<open>\<open>unlock\<close>; the outer \<open>None\<close> is the panic of \<open>Identity::from_secret_bytes\<close>.\<close>

definition kb_unlock :: "primitives \<Rightarrow> argon2 \<Rightarrow> bytes \<Rightarrow> bytes \<Rightarrow> client_error + identity option" where
  "kb_unlock P argon2 password blob =
     (if length blob < HEADER_LEN then Inl CorruptBlob
      else if bslice 0 4 blob \<noteq> KB_MAGIC then Inl CorruptBlob
      else
        let version = blob ! 4 in
        case kb_lengths version of
          None \<Rightarrow> Inl (UnsupportedBlobVersion version)
        | Some (blob_len, plaintext_len) \<Rightarrow>
            if length blob \<noteq> blob_len then Inl CorruptBlob
            else
              let params = header_params blob; salt = bslice 17 33 blob; nonce = bslice 33 45 blob;
                  header = bslice 0 HEADER_LEN blob; ct = drop HEADER_LEN blob in
              rbind (map_err (\<lambda>_. ClientBelowArgonFloor) (derive_key argon2 password salt params)) (\<lambda>pw_key.
              rbind (map_err (\<lambda>_. WrongPassword) (open1 (pr_gcm_open P) pw_key nonce header ct)) (\<lambda>plaintext.
              if length plaintext \<noteq> plaintext_len then Inl CorruptBlob
              else
                let enc_sk = bslice 0 32 plaintext; enc_pk = bslice 32 64 plaintext;
                    sig_seed = bslice 64 96 plaintext;
                    mlkem_seed = (if version = VERSION_V2 then Some (bslice 96 160 plaintext) else None)
                in Inr (from_secret_bytes P enc_sk enc_pk sig_seed mlkem_seed))))"

definition kb_reseal :: "primitives \<Rightarrow> argon2 \<Rightarrow> bytes \<Rightarrow> bytes \<Rightarrow> bytes \<Rightarrow> bytes \<Rightarrow> bytes \<Rightarrow> argon2_params
    \<Rightarrow> client_error + bytes option" where
  "kb_reseal P argon2 salt nonce blob old_password new_password params =
     rbind (kb_unlock P argon2 old_password blob) (\<lambda>unlocked.
     case unlocked of
       None \<Rightarrow> Inr None
     | Some i \<Rightarrow> rbind (kb_seal P argon2 salt nonce new_password i params) (\<lambda>b. Inr (Some b)))"

section \<open>The seed blob\<close>

definition SD_MAGIC :: bytes where "SD_MAGIC = str_bytes ''MXD5''"
definition SEED_LEN :: nat where "SEED_LEN = 32"
definition SEEDBLOB_V1_LEN :: nat where "SEEDBLOB_V1_LEN = HEADER_LEN + SEED_LEN + TAG_LEN"

definition sd_build_header :: "argon2_params \<Rightarrow> bytes \<Rightarrow> bytes \<Rightarrow> bytes" where
  "sd_build_header params salt nonce = header_with SD_MAGIC VERSION_V1 params salt nonce"

definition seal_seed :: "primitives \<Rightarrow> argon2 \<Rightarrow> bytes \<Rightarrow> bytes \<Rightarrow> bytes \<Rightarrow> bytes \<Rightarrow> argon2_params
    \<Rightarrow> client_error + bytes" where
  "seal_seed P argon2 salt nonce password seed params =
     rbind (map_err (\<lambda>_. ClientBelowArgonFloor) (derive_key argon2 password salt params)) (\<lambda>pw_key.
     let header = sd_build_header params salt nonce;
         ct = seal1 (pr_gcm_seal P) pw_key nonce header seed
     in Inr (header @ ct))"

definition unseal_seed :: "primitives \<Rightarrow> argon2 \<Rightarrow> bytes \<Rightarrow> bytes \<Rightarrow> client_error + bytes" where
  "unseal_seed P argon2 password blob =
     (if length blob \<noteq> SEEDBLOB_V1_LEN then Inl CorruptBlob
      else if bslice 0 4 blob \<noteq> SD_MAGIC then Inl CorruptBlob
      else if blob ! 4 \<noteq> VERSION_V1 then Inl (UnsupportedBlobVersion (blob ! 4))
      else
        let params = header_params blob; salt = bslice 17 33 blob; nonce = bslice 33 45 blob;
            header = bslice 0 HEADER_LEN blob; ct = drop HEADER_LEN blob in
        rbind (map_err (\<lambda>_. ClientBelowArgonFloor) (derive_key argon2 password salt params)) (\<lambda>pw_key.
        rbind (map_err (\<lambda>_. WrongPassword) (open1 (pr_gcm_open P) pw_key nonce header ct)) (\<lambda>plaintext.
        if length plaintext \<noteq> SEED_LEN then Inl CorruptBlob else Inr plaintext)))"

section \<open>Password policy\<close>

definition MIN_LEN :: nat where "MIN_LEN = 15"
definition MAX_LEN :: nat where "MAX_LEN = 128"

definition BLOCKLIST :: "bytes list" where
  "BLOCKLIST = map str_bytes [''passwordpassword'', ''password12345678'', ''123456789012345'',
     ''1234567890123456'', ''qwertyuiopasdfgh'', ''iloveyouiloveyou'', ''adminadminadmin1'',
     ''letmeinletmein12'', ''aaaaaaaaaaaaaaaa'', ''correcthorsebatterystaple'']"

text \<open>\<open>chars().count()\<close> counts the bytes that start a UTF-8 sequence; \<open>lower\<close> is the standard library's
  Unicode \<open>to_lowercase\<close>.\<close>

definition chars_count :: "bytes \<Rightarrow> nat" where
  "chars_count s = length (filter (\<lambda>b. \<not> utf8_cont b) s)"

definition password_check :: "(bytes \<Rightarrow> bytes) \<Rightarrow> bytes \<Rightarrow> password_error + unit" where
  "password_check lower password =
     (let len = chars_count password in
      if len < MIN_LEN then Inl (TooShort MIN_LEN)
      else if len > MAX_LEN then Inl (TooLong MAX_LEN)
      else let lowered = lower password in
        if list_ex (\<lambda>b. b = lowered) BLOCKLIST then Inl Breached else Inr ())"

end
