(* ===== verification/KeyBlob_Laws.thy ===== *)
theory KeyBlob_Laws
  imports KeyBlob DekWrap_Laws GrantChain
begin

text \<open>
  Key blobs: what \<open>seal\<close> writes, \<open>unlock\<close> reads back under the same password; a password change keeps the
  identity; parameters below the floor never derive a key; and the two blob formats cannot be confused.
\<close>

text \<open>The header of \<open>salt\<close> and \<open>nonce\<close> of their lengths, and the fields read back from it.\<close>

definition ok_header :: "bytes \<Rightarrow> bytes \<Rightarrow> bytes \<Rightarrow> bool" where
  "ok_header magic salt nonce \<longleftrightarrow> length magic = 4 \<and> length salt = 16 \<and> length nonce = 12"

lemma header_length: "ok_header magic salt nonce \<Longrightarrow> length (header_with magic v ps salt nonce) = HEADER_LEN"
  by (simp add: ok_header_def header_with_def HEADER_LEN_def)

lemma header_fields:
  assumes "ok_header magic salt nonce"
  shows "bslice 0 4 (header_with magic v ps salt nonce @ ct) = magic" "(header_with magic v ps salt nonce @ ct) ! 4 = v"
    "bslice 17 33 (header_with magic v ps salt nonce @ ct) = salt"
    "bslice 33 45 (header_with magic v ps salt nonce @ ct) = nonce"
    "header_params (header_with magic v ps salt nonce @ ct) = ps"
    "bslice 0 HEADER_LEN (header_with magic v ps salt nonce @ ct) = header_with magic v ps salt nonce"
    "drop HEADER_LEN (header_with magic v ps salt nonce @ ct) = ct"
proof -
  have "length magic = 4" "length salt = 16" "length nonce = 12" using assms by (simp_all add: ok_header_def)
  then show "bslice 0 4 (header_with magic v ps salt nonce @ ct) = magic"
    "(header_with magic v ps salt nonce @ ct) ! 4 = v"
    "bslice 17 33 (header_with magic v ps salt nonce @ ct) = salt"
    "bslice 33 45 (header_with magic v ps salt nonce @ ct) = nonce"
    "header_params (header_with magic v ps salt nonce @ ct) = ps"
    by (simp_all add: header_with_def bslice_def nth_append header_params_def be_val_u32)
  show "bslice 0 HEADER_LEN (header_with magic v ps salt nonce @ ct) = header_with magic v ps salt nonce"
    "drop HEADER_LEN (header_with magic v ps salt nonce @ ct) = ct"
    using header_length [OF assms, of v ps] by (simp_all add: bslice_def)
qed

section \<open>Round trips\<close>

lemma magics: "ok_header KB_MAGIC salt nonce \<longleftrightarrow> length salt = 16 \<and> length nonce = 12"
    "ok_header SD_MAGIC salt nonce \<longleftrightarrow> length salt = 16 \<and> length nonce = 12" "KB_MAGIC \<noteq> SD_MAGIC"
  by (simp_all add: ok_header_def KB_MAGIC_def SD_MAGIC_def str_bytes_def)

text \<open>An identity whose fields have the lengths of their types, its ML-KEM public half derived from the seed.\<close>

definition ok_identity :: "primitives \<Rightarrow> identity \<Rightarrow> bool" where
  "ok_identity P i \<longleftrightarrow> length (idn_enc_sk i) = 32 \<and> length (idn_enc_pk i) = 32 \<and> length (idn_sig i) = 32 \<and>
     (case idn_mlkem i of None \<Rightarrow> True | Some kp \<Rightarrow> length (mk_seed kp) = 64 \<and>
        pr_mlkem_pub P (mk_seed kp) = Some (mk_public kp))"

lemma ok_identity_secret:
  "ok_identity P i \<Longrightarrow> secret_bytes i = (sk, pk, sig, seed) \<Longrightarrow> length sk = 32 \<and> length pk = 32 \<and> length sig = 32 \<and>
     (case seed of None \<Rightarrow> True | Some s \<Rightarrow> length s = 64) \<and> from_secret_bytes P sk pk sig seed = Some i"
  using from_secret_bytes_secret_bytes [of i P]
  by (cases "idn_mlkem i") (auto simp: ok_identity_def secret_bytes_def mlkem_seed_of_def)

lemma aead_open_seal: "aead_ok P \<Longrightarrow> open1 (pr_gcm_open P) k n a (seal1 (pr_gcm_seal P) k n a m) = Inr m"
    "aead_ok P \<Longrightarrow> length (seal1 (pr_gcm_seal P) k n a m) = length m + TAG_LEN"
  by (simp_all add: aead_ok_def aead_correct_def open1_def seal1_def)

lemma kb_seal_unlock:
  assumes "aead_ok P" and "ok_identity P i" and "length salt = 16" and "length nonce = 12"
    and "kb_seal P argon2 salt nonce pw i ps = Inr blob"
  shows "kb_unlock P argon2 pw blob = Inr (Some i)"
proof -
  obtain sk pk sig seed where sb: "secret_bytes i = (sk, pk, sig, seed)" by (cases "secret_bytes i")
  note len = ok_identity_secret [OF assms(2) sb]
  let ?v = "case seed of Some _ \<Rightarrow> VERSION_V2 | None \<Rightarrow> VERSION_V1"
  let ?pt = "sk @ pk @ sig @ (case seed of Some s \<Rightarrow> s | None \<Rightarrow> [])"
  let ?h = "header_with KB_MAGIC ?v ps salt nonce"
  from assms(5) sb obtain k where k: "derive_key argon2 pw salt ps = Inr k"
    and blob: "blob = ?h @ seal1 (pr_gcm_seal P) k nonce ?h ?pt"
    by (cases seed) (auto simp: kb_seal_def result_simps kb_build_header_def Let_def)
  have ok: "ok_header KB_MAGIC salt nonce" using assms(3,4) by (simp add: magics)
  note hf = header_fields [OF ok, of ?v ps "seal1 (pr_gcm_seal P) k nonce ?h ?pt", folded blob]
  have "length blob = HEADER_LEN + length ?pt + TAG_LEN"
    by (simp add: blob header_length [OF ok] aead_open_seal(2) [OF assms(1)])
  with len have lens: "kb_lengths ?v = Some (length blob, length ?pt)"
    by (cases seed) (simp_all add: kb_lengths_def VERSION_V1_def VERSION_V2_def
        BLOB_V1_LEN_def BLOB_V2_LEN_def PLAINTEXT_V1_LEN_def PLAINTEXT_V2_LEN_def)
  have pt: "bslice 0 32 ?pt = sk" "bslice 32 64 ?pt = pk" "bslice 64 96 ?pt = sig"
    "(if ?v = VERSION_V2 then Some (bslice 96 160 ?pt) else None) = seed"
    using len by (cases seed; simp add: bslice_def VERSION_V1_def VERSION_V2_def)+
  have "\<not> length blob < HEADER_LEN" by (simp add: blob header_length [OF ok])
  then show ?thesis
    unfolding kb_unlock_def Let_def hf lens option.case k map_err_simps rbind_Inr aead_open_seal(1) [OF assms(1)] pt
    using len by simp
qed

lemma seal_seed_unseal:
  assumes "aead_ok P" and "length seed = SEED_LEN" and "length salt = 16" and "length nonce = 12"
    and "seal_seed P argon2 salt nonce pw seed ps = Inr blob"
  shows "unseal_seed P argon2 pw blob = Inr seed"
proof -
  let ?h = "header_with SD_MAGIC VERSION_V1 ps salt nonce"
  from assms(5) obtain k where k: "derive_key argon2 pw salt ps = Inr k"
    and blob: "blob = ?h @ seal1 (pr_gcm_seal P) k nonce ?h seed"
    by (auto simp: seal_seed_def result_simps sd_build_header_def Let_def)
  have ok: "ok_header SD_MAGIC salt nonce" using assms(3,4) by (simp add: magics)
  note hf = header_fields [OF ok, of VERSION_V1 ps "seal1 (pr_gcm_seal P) k nonce ?h seed", folded blob]
  have "length blob = SEEDBLOB_V1_LEN"
    by (simp add: blob header_length [OF ok] aead_open_seal(2) [OF assms(1)] SEEDBLOB_V1_LEN_def assms(2))
  then show ?thesis
    unfolding unseal_seed_def Let_def hf k map_err_simps rbind_Inr aead_open_seal(1) [OF assms(1)]
    using assms(2) by simp
qed

lemma unlocked_above_floor: "kb_unlock P argon2 pw blob = Inr x \<Longrightarrow> meets_floor (header_params blob)"
  by (auto simp: kb_unlock_def derive_key_def result_simps Let_def split: if_splits option.splits)

lemma sealed_length:
  assumes "aead_ok P" and "ok_identity P i" and "length salt = 16" and "length nonce = 12"
    and "kb_seal P argon2 salt nonce pw i ps = Inr blob"
  shows "length blob = BLOB_V1_LEN \<or> length blob = BLOB_V2_LEN"
proof -
  obtain sk pk sig seed where sb: "secret_bytes i = (sk, pk, sig, seed)" by (cases "secret_bytes i")
  have ok: "ok_header KB_MAGIC salt nonce" using assms(3,4) by (simp add: magics)
  from ok_identity_secret [OF assms(2) sb] assms(5) sb show ?thesis
    by (cases seed) (auto simp: kb_seal_def result_simps kb_build_header_def Let_def header_length [OF ok]
        aead_open_seal(2) [OF assms(1)] BLOB_V1_LEN_def BLOB_V2_LEN_def PLAINTEXT_V1_LEN_def PLAINTEXT_V2_LEN_def)
qed

text \<open>A sealed identity comes back: under the same password the blob unlocks to exactly the identity that
  was sealed, post-quantum or legacy, and only with parameters above the floor; changing the password
  re-seals that identity; and a key blob is never read as a seed blob.\<close>

theorem sealed_identity_unlocks:
  assumes "aead_ok P" and "ok_identity P i" and "length salt = 16" and "length nonce = 12"
    and "kb_seal P argon2 salt nonce pw i ps = Inr blob"
  shows "kb_unlock P argon2 pw blob = Inr (Some i) \<and> meets_floor (header_params blob) \<and>
    kb_reseal P argon2 salt' nonce' blob pw new_pw new_ps =
      rbind (kb_seal P argon2 salt' nonce' new_pw i new_ps) (\<lambda>b. Inr (Some b)) \<and>
    unseal_seed P argon2 any_pw blob = Inl CorruptBlob"
proof -
  note un = kb_seal_unlock [OF assms]
  have "length blob \<noteq> SEEDBLOB_V1_LEN" using sealed_length [OF assms]
    by (auto simp: BLOB_V1_LEN_def BLOB_V2_LEN_def PLAINTEXT_V1_LEN_def PLAINTEXT_V2_LEN_def SEEDBLOB_V1_LEN_def SEED_LEN_def)
  with un unlocked_above_floor [OF un] show ?thesis by (simp add: kb_reseal_def unseal_seed_def)
qed

definition toy_argon2 :: argon2 where
  "toy_argon2 ps pw salt = Some (replicate 32 0)"

definition toy_stored :: identity where
  "toy_stored = \<lparr>idn_enc_sk = replicate 32 1, idn_enc_pk = replicate 32 2, idn_sig = replicate 32 3, idn_mlkem = None\<rparr>"

theorem sealed_identity_unlocks_witness:
  "\<exists>blob. kb_seal toy_prims toy_argon2 (replicate 16 0) (replicate 12 0) [1] toy_stored ARGON2_FLOOR = Inr blob \<and>
     kb_unlock toy_prims toy_argon2 [1] blob = Inr (Some toy_stored)"
proof -
  have ok: "aead_ok toy_prims" "ok_identity toy_prims toy_stored"
    by (simp_all add: aead_ok_def aead_correct_def toy_prims_with_def toy_gcm_seal_def toy_gcm_open_def TAG_LEN_def
        ok_identity_def toy_stored_def)
  obtain blob where blob: "kb_seal toy_prims toy_argon2 (replicate 16 0) (replicate 12 0) [1] toy_stored ARGON2_FLOOR = Inr blob"
    by (simp add: kb_seal_def derive_key_def meets_floor_def ARGON2_FLOOR_def toy_argon2_def secret_bytes_def split_def Let_def)
  from sealed_identity_unlocks [OF ok _ _ blob] blob show ?thesis by auto
qed

text \<open>A seed blob is never read as a key blob, and opens to its seed.\<close>

theorem sealed_seed_unseals:
  assumes "aead_ok P" and "length seed = SEED_LEN" and "length salt = 16" and "length nonce = 12"
    and "seal_seed P argon2 salt nonce pw seed ps = Inr blob"
  shows "unseal_seed P argon2 pw blob = Inr seed" "kb_unlock P argon2 any_pw blob = Inl CorruptBlob"
proof -
  show "unseal_seed P argon2 pw blob = Inr seed" by (rule seal_seed_unseal [OF assms])
  have ok: "ok_header SD_MAGIC salt nonce" using assms(3,4) by (simp add: magics)
  from assms(5) obtain ct where "blob = header_with SD_MAGIC VERSION_V1 ps salt nonce @ ct"
    by (auto simp: seal_seed_def result_simps sd_build_header_def Let_def)
  with header_fields(1) [OF ok] magics(3) show "kb_unlock P argon2 any_pw blob = Inl CorruptBlob"
    by (simp add: kb_unlock_def)
qed

end
