(* ===== verification/ClientPolicies.thy ===== *)
theory ClientPolicies
  imports Signing Merkle
begin

text \<open>
  Pure decisions of the client, in \<^verbatim>\<open>crates/client-core/src\<close>: verification of software updates
  (\<^verbatim>\<open>update.rs\<close>), export file names (\<^verbatim>\<open>sanitize.rs\<close>) and the choice how to open a file (\<^verbatim>\<open>budget.rs\<close>); and
  the connection code of \<^verbatim>\<open>crates/crypto/src/pin_fp.rs\<close>. Strings are their UTF-8 bytes.
\<close>

section \<open>Software updates\<close>

record update_manifest =
  um_version :: u64
  um_min_version :: u64
  um_artifact_sha256 :: bytes

record log_inclusion =
  li_checkpoint_sig :: bytes
  li_tree_size :: u64
  li_root :: bytes
  li_index :: u64
  li_path :: "bytes list"

datatype update_error = Downgrade | BadSignature | NotLogged | ArtifactMismatch

definition manifest_signing_bytes :: "update_manifest \<Rightarrow> bytes" where
  "manifest_signing_bytes m =
     (let body = be_bytes 8 (unat (um_version m)) @ be_bytes 8 (unat (um_min_version m)) @ um_artifact_sha256 m
      in signing_input L_UPDATE_MANIFEST body)"

definition update_any_key_verifies :: "vk_check \<Rightarrow> ed_strict \<Rightarrow> bytes list \<Rightarrow> bytes \<Rightarrow> bytes \<Rightarrow> bool" where
  "update_any_key_verifies vk_valid strict pubs msg sig \<longleftrightarrow>
     list_ex (\<lambda>pk. is_ok (rbind (vk_from_bytes vk_valid pk) (\<lambda>vk. verify_raw strict vk msg sig))) pubs"

text \<open>The result carries the version, as \<open>Verified\<close> does.\<close>

definition verify_update :: "(bytes \<Rightarrow> bytes) \<Rightarrow> vk_check \<Rightarrow> ed_strict \<Rightarrow> update_manifest \<Rightarrow> bytes \<Rightarrow> log_inclusion
    \<Rightarrow> bytes list \<Rightarrow> bytes list \<Rightarrow> u64 \<Rightarrow> bytes \<Rightarrow> update_error + u64" where
  "verify_update sha vk_valid strict manifest manifest_sig inclusion release_pubs log_pubs current_version
       artifact_sha256 =
     (if um_version manifest \<le> current_version \<or> current_version < um_min_version manifest then Inl Downgrade
      else if artifact_sha256 \<noteq> um_artifact_sha256 manifest then Inl ArtifactMismatch
      else
        let leaf = manifest_signing_bytes manifest in
        if \<not> update_any_key_verifies vk_valid strict release_pubs leaf manifest_sig then Inl BadSignature
        else
          let logged = update_any_key_verifies vk_valid strict log_pubs
                (sink_checkpoint_signing_input (li_tree_size inclusion) (li_root inclusion))
                (li_checkpoint_sig inclusion) \<and>
              verify_inclusion sha leaf (li_index inclusion) (li_tree_size inclusion) (li_path inclusion)
                (li_root inclusion)
          in if \<not> logged then Inl NotLogged else Inr (um_version manifest))"

section \<open>Opening within a RAM budget\<close>

datatype audit_event = AuditDiskUnlock u64 u64 | PlaintextExport bytes

datatype unlock_plan = PlanStream | WholeInMemory | PlanDiskUnlock audit_event

definition plan_unlock :: "u64 \<Rightarrow> u64 \<Rightarrow> bool \<Rightarrow> unlock_plan" where
  "plan_unlock plaintext_size ram_budget streamable =
     (if streamable then PlanStream
      else if plaintext_size \<le> ram_budget then WholeInMemory
      else PlanDiskUnlock (AuditDiskUnlock plaintext_size ram_budget))"

section \<open>Export file names\<close>

datatype sanitize_error = Empty | ControlCharacter | AbsolutePath | AlternateDataStream | PathSeparator
  | ParentTraversal | TrailingDotOrSpace | ReservedName | EscapesExportDir

definition RESERVED_STEMS :: "bytes list" where
  "RESERVED_STEMS = map str_bytes [''CON'', ''PRN'', ''AUX'', ''NUL'', ''COM1'', ''COM2'', ''COM3'',
     ''COM4'', ''COM5'', ''COM6'', ''COM7'', ''COM8'', ''COM9'', ''LPT1'', ''LPT2'', ''LPT3'', ''LPT4'',
     ''LPT5'', ''LPT6'', ''LPT7'', ''LPT8'', ''LPT9'']"

text \<open>\<open>char::is_control\<close> on the UTF-8 form: C0 and DEL are single bytes, C1 is \<open>C2\<close> followed by \<open>80..9F\<close>.\<close>

fun has_control :: "bytes \<Rightarrow> bool" where
  "has_control [] = False"
| "has_control (b # bs) \<longleftrightarrow> b < 0x20 \<or> b = 0x7F \<or>
     (b = 0xC2 \<and> (case bs of [] \<Rightarrow> False | c # _ \<Rightarrow> 0x80 \<le> c \<and> c \<le> 0x9F)) \<or> has_control bs"

definition is_ascii_alphabetic :: "byte \<Rightarrow> bool" where
  "is_ascii_alphabetic b \<longleftrightarrow> (0x41 \<le> b \<and> b \<le> 0x5A) \<or> (0x61 \<le> b \<and> b \<le> 0x7A)"

definition to_ascii_upper :: "byte \<Rightarrow> byte" where
  "to_ascii_upper b = (if 0x61 \<le> b \<and> b \<le> 0x7A then b - 0x20 else b)"

definition starts_with :: "bytes \<Rightarrow> byte \<Rightarrow> bool" where
  "starts_with s b \<longleftrightarrow> (case s of [] \<Rightarrow> False | c # _ \<Rightarrow> c = b)"

definition ends_with :: "bytes \<Rightarrow> byte \<Rightarrow> bool" where
  "ends_with s b \<longleftrightarrow> s \<noteq> [] \<and> List.last s = b"

abbreviation (input) slash :: byte where "slash \<equiv> 0x2F"
abbreviation (input) backslash :: byte where "backslash \<equiv> 0x5C"
abbreviation (input) colon :: byte where "colon \<equiv> 0x3A"
abbreviation (input) dot :: byte where "dot \<equiv> 0x2E"
abbreviation (input) space :: byte where "space \<equiv> 0x20"

definition sanitize_filename :: "bytes \<Rightarrow> sanitize_error + bytes" where
  "sanitize_filename raw =
     (if raw = [] then Inl Empty
      else if has_control raw then Inl ControlCharacter
      else
        let drive_qualified = (2 \<le> length raw \<and> is_ascii_alphabetic (raw ! 0) \<and> raw ! 1 = colon) in
        if starts_with raw slash \<or> starts_with raw backslash \<or> drive_qualified then Inl AbsolutePath
        else if colon \<in> set raw then Inl AlternateDataStream
        else if slash \<in> set raw \<or> backslash \<in> set raw then Inl PathSeparator
        else if raw = [dot] \<or> raw = [dot, dot] then Inl ParentTraversal
        else if ends_with raw dot \<or> ends_with raw space then Inl TrailingDotOrSpace
        else
          let stem = takeWhile (\<lambda>b. b \<noteq> dot) raw;
              stem_upper = map to_ascii_upper stem
          in if stem_upper \<in> set RESERVED_STEMS then Inl ReservedName else Inr raw)"

section \<open>Connection code\<close>

definition DOMAIN_SEP :: bytes where "DOMAIN_SEP = str_bytes ''MAXSECU-PINS-v1''"

definition BASE32_ALPHABET :: bytes where
  "BASE32_ALPHABET = str_bytes ''ABCDEFGHIJKLMNOPQRSTUVWXYZ234567''"

text \<open>The inner \<open>while\<close> and outer \<open>for\<close> loops of \<open>base32_no_pad\<close>, with \<open>buffer\<close> and \<open>bits\<close>.\<close>

function base32_emit :: "u32 \<Rightarrow> nat \<Rightarrow> bytes \<Rightarrow> nat \<times> bytes" where
  "base32_emit buffer bits out =
     (if 5 \<le> bits then
        let bits = bits - 5; idx = unat ((drop_bit bits buffer) AND 0x1f)
        in base32_emit buffer bits (out @ [BASE32_ALPHABET ! idx])
      else (bits, out))"
  by pat_completeness auto
termination by (relation "measure (\<lambda>(_, bits, _). bits)") auto

declare base32_emit.simps [simp del]

fun base32_loop :: "bytes \<Rightarrow> u32 \<Rightarrow> nat \<Rightarrow> bytes \<Rightarrow> u32 \<times> nat \<times> bytes" where
  "base32_loop [] buffer bits out = (buffer, bits, out)"
| "base32_loop (byte # input) buffer bits out =
     (let buffer = (push_bit 8 buffer) OR (ucast byte) in
      case base32_emit buffer (bits + 8) out of (bits, out) \<Rightarrow> base32_loop input buffer bits out)"

definition base32_no_pad :: "bytes \<Rightarrow> bytes" where
  "base32_no_pad input =
     (case base32_loop input 0 0 [] of (buffer, bits, out) \<Rightarrow>
        if 0 < bits then
          let idx = unat ((push_bit (5 - bits) buffer) AND 0x1f) in out @ [BASE32_ALPHABET ! idx]
        else out)"

definition pin_fingerprint :: "(bytes \<Rightarrow> bytes) \<Rightarrow> bytes \<Rightarrow> bytes \<Rightarrow> bytes" where
  "pin_fingerprint sha cert_der dir_der =
     (let preimage = DOMAIN_SEP @ be_bytes 4 (unat (word_of_nat (length cert_der) :: u32)) @ cert_der @
        be_bytes 4 (unat (word_of_nat (length dir_der) :: u32)) @ dir_der;
          digest = sha preimage
      in base32_no_pad (take 20 digest))"

text \<open>\<open>normalize_fp\<close>: no byte of a multi-byte character is in the kept ASCII ranges.\<close>

definition normalize_fp :: "bytes \<Rightarrow> bytes" where
  "normalize_fp s = filter (\<lambda>c. (0x41 \<le> c \<and> c \<le> 0x5A) \<or> (0x32 \<le> c \<and> c \<le> 0x37)) (map to_ascii_upper s)"

definition split_once :: "byte \<Rightarrow> bytes \<Rightarrow> (bytes \<times> bytes) option" where
  "split_once b s = (if b \<in> set s then Some (takeWhile (\<lambda>c. c \<noteq> b) s, tl (dropWhile (\<lambda>c. c \<noteq> b) s)) else None)"

text \<open>\<open>trim\<close> is the standard library's Unicode \<open>str::trim\<close>.\<close>

definition parse_connection_code :: "(bytes \<Rightarrow> bytes) \<Rightarrow> bytes \<Rightarrow> (bytes \<times> bytes) option" where
  "parse_connection_code trim code =
     Option.bind (split_once 0x23 (trim code)) (\<lambda>(addr, fp).
     let addr = trim addr in
     if addr = [] then None
     else let fp = normalize_fp fp in
       if length fp \<noteq> 32 then None else Some (addr, fp))"

end
