(* ===== verification/Directory.thy ===== *)
theory Directory
  imports Delegation Transparency Revocation DekWrap
begin

text \<open>
  \<^verbatim>\<open>crates/client-core/src/directory.rs\<close>: the check of a served directory binding before its keys are
  used. The trait \<open>TrustStore\<close> is the locale \<open>trust_store\<close>, the in-memory store its instance; the
  operations take its two functions and return the store after the call.
\<close>

record trust_record =
  tr_key_version :: u64
  tr_fingerprint :: bytes

type_synonym memory_trust_store = "bytes \<rightharpoonup> trust_record"

definition memory_trust_new :: memory_trust_store where "memory_trust_new = Map.empty"

definition trust_get :: "memory_trust_store \<Rightarrow> bytes \<Rightarrow> trust_record option" where
  "trust_get store user_id = store user_id"

definition trust_put :: "memory_trust_store \<Rightarrow> bytes \<Rightarrow> trust_record \<Rightarrow> memory_trust_store" where
  "trust_put store user_id record = store(user_id \<mapsto> record)"

record verified_binding =
  vb_user_id :: bytes
  vb_enc_pub :: bytes
  vb_sig_pub :: bytes
  vb_key_version :: u64
  vb_roles :: "role list"
  vb_fingerprint :: bytes
  vb_mlkem_pub :: "bytes option"

datatype verify_error = BindingBadSignature
  | BindingRollback (remembered_key_version: u64) (served_key_version: u64)
  | KeyChanged (changed_fingerprint: bytes) | NotYetValid | Expired | Revoked | NotInLog kt_error
  | DelegationInvalid | BindingDelegationExpired

record authorized_recipient =
  ar_user_id :: bytes
  ar_enc_pub :: bytes
  ar_sig_pub :: bytes
  ar_key_version :: u64
  ar_effective_roles :: "role list"
  ar_fingerprint :: bytes
  ar_mlkem_pub :: "bytes option"

datatype directory_verifier = DirectoryVerifier (dv_dir_pub: bytes)

definition verifier_new :: "bytes \<Rightarrow> directory_verifier" where
  "verifier_new pinned_dir_pub = DirectoryVerifier pinned_dir_pub"

definition with_delegation :: "primitives \<Rightarrow> bytes \<Rightarrow> bytes \<Rightarrow> u64 \<Rightarrow> verify_error + directory_verifier" where
  "with_delegation P pinned_d5 delegation_bytes now_secs =
     (case dd_verify (pr_vk_valid P) (pr_strict P) pinned_d5 delegation_bytes now_secs of
        Inr operational_pub \<Rightarrow> Inr (DirectoryVerifier operational_pub)
      | Inl DelegationExpired \<Rightarrow> Inl BindingDelegationExpired
      | Inl _ \<Rightarrow> Inl DelegationInvalid)"

definition check_signature :: "primitives \<Rightarrow> directory_verifier \<Rightarrow> dir_binding \<Rightarrow> bytes \<Rightarrow> verify_error + unit" where
  "check_signature P self binding signature =
     map_err (\<lambda>_. BindingBadSignature)
       (rbind (vk_from_bytes (pr_vk_valid P) (dv_dir_pub self)) (\<lambda>vk.
          verify_canonical (pr_strict P) vk L_DIRBINDING TYPE_DIR_BINDING put_dir_binding binding signature))"

definition check_validity :: "dir_binding \<Rightarrow> u64 \<Rightarrow> verify_error + unit" where
  "check_validity binding now_ms =
     (if now_ms < ts_raw (db_not_before binding) then Inl NotYetValid
      else if ts_raw (db_not_after binding) < now_ms then Inl Expired
      else Inr ())"

definition verified :: "dir_binding \<Rightarrow> bytes \<Rightarrow> verified_binding" where
  "verified binding fp = \<lparr>vb_user_id = id_raw (db_user_id binding), vb_enc_pub = b32_raw (db_enc_pub binding),
     vb_sig_pub = b32_raw (db_sig_pub binding), vb_key_version = db_key_version binding,
     vb_roles = roles (db_roles binding), vb_fingerprint = fp,
     vb_mlkem_pub = map_option mlkem_raw (db_mlkem_pub binding)\<rparr>"

text \<open>The fingerprint of a binding's two classical keys.\<close>

definition binding_fingerprint :: "primitives \<Rightarrow> dir_binding \<Rightarrow> bytes" where
  "binding_fingerprint P binding = fingerprint P (b32_raw (db_enc_pub binding)) (b32_raw (db_sig_pub binding))"

text \<open>Step 3 of \<open>verify_binding\<close>: \<open>Inr True\<close> is a first contact.\<close>

definition check_trust :: "trust_record option \<Rightarrow> u64 \<Rightarrow> bytes \<Rightarrow> verify_error + bool" where
  "check_trust known served_kv fp =
     (case known of
        None \<Rightarrow> Inr True
      | Some prev \<Rightarrow>
          if served_kv < tr_key_version prev then Inl (BindingRollback (tr_key_version prev) served_kv)
          else if tr_key_version prev < served_kv \<or> fp \<noteq> tr_fingerprint prev then Inl (KeyChanged fp)
          else Inr False)"

definition verify_binding :: "('m \<Rightarrow> bytes \<Rightarrow> trust_record option) \<Rightarrow> ('m \<Rightarrow> bytes \<Rightarrow> trust_record \<Rightarrow> 'm)
    \<Rightarrow> primitives \<Rightarrow> directory_verifier \<Rightarrow> dir_binding \<Rightarrow> bytes \<Rightarrow> u64 \<Rightarrow> 'm
    \<Rightarrow> (verify_error + verified_binding) \<times> 'm" where
  "verify_binding get put P self binding signature now_ms trust =
     (case check_signature P self binding signature of
        Inl e \<Rightarrow> (Inl e, trust)
      | Inr _ \<Rightarrow>
          let user_id = id_raw (db_user_id binding);
              served_kv = db_key_version binding;
              fp = binding_fingerprint P binding
          in case check_trust (get trust user_id) served_kv fp of
               Inl e \<Rightarrow> (Inl e, trust)
             | Inr first_contact \<Rightarrow>
                 case check_validity binding now_ms of
                   Inl e \<Rightarrow> (Inl e, trust)
                 | Inr _ \<Rightarrow> (Inr (verified binding fp),
                     if first_contact then put trust user_id \<lparr>tr_key_version = served_kv, tr_fingerprint = fp\<rparr>
                     else trust))"

record kt_context =
  kx_inclusion :: inclusion_proof
  kx_checkpoint :: kt_checkpoint
  kx_consistency :: "bytes list"
  kx_log_pubs :: "bytes list"
  kx_store :: kt_store

text \<open>The context's store is a mutable reference: the context after the call carries it.\<close>

definition verify_binding_with_kt :: "('m \<Rightarrow> bytes \<Rightarrow> trust_record option)
    \<Rightarrow> ('m \<Rightarrow> bytes \<Rightarrow> trust_record \<Rightarrow> 'm) \<Rightarrow> primitives \<Rightarrow> directory_verifier \<Rightarrow> dir_binding \<Rightarrow> bytes
    \<Rightarrow> u64 \<Rightarrow> 'm \<Rightarrow> kt_context option
    \<Rightarrow> (verify_error + verified_binding) \<times> 'm \<times> kt_context option" where
  "verify_binding_with_kt get put P self binding signature now_ms trust kt =
     (case kt of
        None \<Rightarrow> (case verify_binding get put P self binding signature now_ms trust of (r, t) \<Rightarrow> (r, t, None))
      | Some k \<Rightarrow>
          if get trust (id_raw (db_user_id binding)) = None then
            let leaf = encode TYPE_DIR_BINDING put_dir_binding binding in
            case verify_binding_in_log (pr_sha P) (pr_vk_valid P) (pr_strict P) leaf (kx_inclusion k)
                (kx_checkpoint k) (kx_consistency k) (kx_log_pubs k) (kx_store k) of
              (Inl e, store) \<Rightarrow> (Inl (NotInLog e), trust, Some (k\<lparr>kx_store := store\<rparr>))
            | (Inr _, store) \<Rightarrow>
                (case verify_binding get put P self binding signature now_ms trust of
                   (r, t) \<Rightarrow> (r, t, Some (k\<lparr>kx_store := store\<rparr>)))
          else (case verify_binding get put P self binding signature now_ms trust of (r, t) \<Rightarrow> (r, t, Some k)))"

definition authorize_recipient :: "('m \<Rightarrow> bytes \<Rightarrow> trust_record option)
    \<Rightarrow> ('m \<Rightarrow> bytes \<Rightarrow> trust_record \<Rightarrow> 'm) \<Rightarrow> primitives \<Rightarrow> directory_verifier \<Rightarrow> dir_binding \<Rightarrow> bytes
    \<Rightarrow> u64 \<Rightarrow> 'm \<Rightarrow> tombstone_set \<Rightarrow> (verify_error + authorized_recipient) \<times> 'm" where
  "authorize_recipient get put P self binding signature now_ms trust tombstones =
     (case verify_binding get put P self binding signature now_ms trust of
        (Inl e, t) \<Rightarrow> (Inl e, t)
      | (Inr v, t) \<Rightarrow>
          if is_account_revoked tombstones (vb_user_id v) then (Inl Revoked, t)
          else (Inr \<lparr>ar_user_id = vb_user_id v, ar_enc_pub = vb_enc_pub v, ar_sig_pub = vb_sig_pub v,
            ar_key_version = vb_key_version v,
            ar_effective_roles = effective_roles tombstones (vb_user_id v) (vb_roles v),
            ar_fingerprint = vb_fingerprint v, ar_mlkem_pub = vb_mlkem_pub v\<rparr>, t))"

definition accept_key_change :: "('m \<Rightarrow> bytes \<Rightarrow> trust_record \<Rightarrow> 'm) \<Rightarrow> primitives \<Rightarrow> directory_verifier
    \<Rightarrow> dir_binding \<Rightarrow> bytes \<Rightarrow> u64 \<Rightarrow> 'm \<Rightarrow> (verify_error + verified_binding) \<times> 'm" where
  "accept_key_change put P self binding signature now_ms trust =
     (case rbind (check_signature P self binding signature) (\<lambda>_. check_validity binding now_ms) of
        Inl e \<Rightarrow> (Inl e, trust)
      | Inr _ \<Rightarrow>
          let fp = binding_fingerprint P binding in
          (Inr (verified binding fp),
           put trust (id_raw (db_user_id binding)) \<lparr>tr_key_version = db_key_version binding, tr_fingerprint = fp\<rparr>))"

end
