(* ===== verification/Directory_Laws.thy ===== *)
theory Directory_Laws
  imports Directory GrantChain
begin

text \<open>
  What the directory check guarantees: acceptance is exact, a user's classical keys stay pinned over any sequence of
  calls (the post-quantum key does not), a first contact behind the transparency gate is a logged binding, and an operational key counts
  only under a delegation of the pinned root.
\<close>

section \<open>Acceptance\<close>

definition binding_signed :: "primitives \<Rightarrow> bytes \<Rightarrow> dir_binding \<Rightarrow> bytes \<Rightarrow> bool" where
  "binding_signed P key b sig \<longleftrightarrow> pr_vk_valid P key \<and>
     pr_strict P key (signing_message L_DIRBINDING TYPE_DIR_BINDING put_dir_binding b) sig"

definition in_window :: "dir_binding \<Rightarrow> u64 \<Rightarrow> bool" where
  "in_window b now \<longleftrightarrow> ts_raw (db_not_before b) \<le> now \<and> now \<le> ts_raw (db_not_after b)"

definition binding_pin :: "primitives \<Rightarrow> dir_binding \<Rightarrow> trust_record" where
  "binding_pin P b = \<lparr>tr_key_version = db_key_version b, tr_fingerprint = binding_fingerprint P b\<rparr>"

abbreviation binding_user :: "dir_binding \<Rightarrow> bytes" where "binding_user b \<equiv> id_raw (db_user_id b)"

lemma check_signature_Inr: "check_signature P dv b sig = Inr u \<longleftrightarrow> binding_signed P (dv_dir_pub dv) b sig"
  by (auto simp: check_signature_def binding_signed_def verify_canonical_def result_simps)

lemma check_validity_Inr: "check_validity b now = Inr u \<longleftrightarrow> in_window b now"
  by (auto simp: check_validity_def in_window_def not_less)

lemma check_trust_Inr:
  "check_trust known (db_key_version b) (binding_fingerprint P b) = Inr first \<longleftrightarrow>
     (first \<longleftrightarrow> known = None) \<and> (known = None \<or> known = Some (binding_pin P b))"
proof (cases known)
  case (Some r)
  then show ?thesis by (cases r) (auto simp: check_trust_def binding_pin_def)
qed (auto simp: check_trust_def)

lemma verify_binding_cases:
  obtains (refused) e where "verify_binding get put P dv b sig now m = (Inl e, m)"
  | (opened) "verify_binding get put P dv b sig now m =
        (Inr (verified b (binding_fingerprint P b)),
         if get m (binding_user b) = None then put m (binding_user b) (binding_pin P b) else m)"
      "binding_signed P (dv_dir_pub dv) b sig" "in_window b now"
      "get m (binding_user b) = None \<or> get m (binding_user b) = Some (binding_pin P b)"
proof (cases "check_signature P dv b sig")
  case (Inl e)
  then show ?thesis using refused by (simp add: verify_binding_def)
next
  case sig: (Inr u)
  let ?t = "check_trust (get m (binding_user b)) (db_key_version b) (binding_fingerprint P b)"
  show ?thesis
  proof (cases "?t")
    case (Inl e)
    with sig show ?thesis using refused by (simp add: verify_binding_def Let_def)
  next
    case first: (Inr f)
    show ?thesis
    proof (cases "check_validity b now")
      case (Inl e)
      with sig first show ?thesis using refused by (simp add: verify_binding_def Let_def)
    next
      case (Inr w)
      from first have f: "f \<longleftrightarrow> get m (binding_user b) = None"
        "get m (binding_user b) = None \<or> get m (binding_user b) = Some (binding_pin P b)"
        by (simp_all add: check_trust_Inr)
      have "binding_signed P (dv_dir_pub dv) b sig" "in_window b now"
        using sig Inr by (simp_all add: check_signature_Inr check_validity_Inr)
      moreover have "verify_binding get put P dv b sig now m = (Inr (verified b (binding_fingerprint P b)),
          if get m (binding_user b) = None then put m (binding_user b) (binding_pin P b) else m)"
        using sig first Inr f(1) by (simp add: verify_binding_def Let_def binding_pin_def)
      ultimately show ?thesis using opened f(2) by blast
    qed
  qed
qed

lemma verify_binding_Inr:
  "fst (verify_binding get put P dv b sig now m) = Inr v \<longleftrightarrow>
     binding_signed P (dv_dir_pub dv) b sig \<and> in_window b now \<and>
     (get m (binding_user b) = None \<or> get m (binding_user b) = Some (binding_pin P b)) \<and>
     v = verified b (binding_fingerprint P b)"
proof -
  have "check_signature P dv b sig = Inr () \<longleftrightarrow> binding_signed P (dv_dir_pub dv) b sig"
    "check_validity b now = Inr () \<longleftrightarrow> in_window b now" by (rule check_signature_Inr check_validity_Inr)+
  moreover have "get m (binding_user b) = None \<or> get m (binding_user b) = Some (binding_pin P b) \<Longrightarrow>
      check_trust (get m (binding_user b)) (db_key_version b) (binding_fingerprint P b) =
        Inr (get m (binding_user b) = None)" by (simp add: check_trust_Inr)
  ultimately have "binding_signed P (dv_dir_pub dv) b sig \<Longrightarrow> in_window b now \<Longrightarrow>
      get m (binding_user b) = None \<or> get m (binding_user b) = Some (binding_pin P b) \<Longrightarrow>
      fst (verify_binding get put P dv b sig now m) = Inr (verified b (binding_fingerprint P b))"
    by (simp add: verify_binding_def Let_def)
  moreover have "binding_signed P (dv_dir_pub dv) b sig \<and> in_window b now \<and>
      (get m (binding_user b) = None \<or> get m (binding_user b) = Some (binding_pin P b)) \<and>
      v = verified b (binding_fingerprint P b)"
    if "fst (verify_binding get put P dv b sig now m) = Inr v"
    using that by (cases rule: verify_binding_cases [of get put P dv b sig now m]) auto
  ultimately show ?thesis by blast
qed

lemma accept_key_change_cases:
  obtains (refused) e where "accept_key_change put P dv b sig now m = (Inl e, m)"
  | (opened) "accept_key_change put P dv b sig now m =
        (Inr (verified b (binding_fingerprint P b)), put m (binding_user b) (binding_pin P b))"
      "binding_signed P (dv_dir_pub dv) b sig" "in_window b now"
proof (cases "rbind (check_signature P dv b sig) (\<lambda>_. check_validity b now)")
  case (Inl e)
  then show ?thesis using refused by (simp add: accept_key_change_def)
next
  case (Inr u)
  moreover from this have "binding_signed P (dv_dir_pub dv) b sig" "in_window b now"
    by (auto simp: result_simps check_signature_Inr check_validity_Inr)
  ultimately show ?thesis using opened by (simp add: accept_key_change_def binding_pin_def Let_def)
qed

text \<open>The gate can only refuse, or let \<open>verify_binding\<close> decide.\<close>

lemma verify_binding_with_kt_cases:
  obtains (refused) e kt' where "verify_binding_with_kt get put P dv b sig now m kt = (Inl e, m, kt')"
  | (decided) kt' where "verify_binding_with_kt get put P dv b sig now m kt =
      (fst (verify_binding get put P dv b sig now m), snd (verify_binding get put P dv b sig now m), kt')"
proof (cases kt)
  case None
  then show ?thesis using decided by (simp add: verify_binding_with_kt_def split: prod.splits)
next
  case (Some k)
  show ?thesis
  proof (cases "get m (binding_user b)")
    case None
    obtain r store where "verify_binding_in_log (pr_sha P) (pr_vk_valid P) (pr_strict P)
        (encode TYPE_DIR_BINDING put_dir_binding b) (kx_inclusion k) (kx_checkpoint k) (kx_consistency k)
        (kx_log_pubs k) (kx_store k) = (r, store)" by fastforce
    with Some None show ?thesis using refused decided
      by (cases r) (simp_all add: verify_binding_with_kt_def Let_def split: prod.splits)
  next
    case (Some r)
    with \<open>kt = Some k\<close> show ?thesis using decided
      by (simp add: verify_binding_with_kt_def split: prod.splits)
  qed
qed

section \<open>Any sequence of calls\<close>

datatype dir_op = OpVerify dir_binding bytes u64 "kt_context option" | OpAuthorize dir_binding bytes u64 tombstone_set
  | OpAcceptChange dir_binding bytes u64

fun op_binding :: "dir_op \<Rightarrow> dir_binding" where
  "op_binding (OpVerify b _ _ _) = b"
| "op_binding (OpAuthorize b _ _ _) = b"
| "op_binding (OpAcceptChange b _ _) = b"

fun op_sig :: "dir_op \<Rightarrow> bytes" where
  "op_sig (OpVerify _ sig _ _) = sig"
| "op_sig (OpAuthorize _ sig _ _) = sig"
| "op_sig (OpAcceptChange _ sig _) = sig"

fun op_now :: "dir_op \<Rightarrow> u64" where
  "op_now (OpVerify _ _ now _) = now"
| "op_now (OpAuthorize _ _ now _) = now"
| "op_now (OpAcceptChange _ _ now) = now"

fun confirms :: "dir_op \<Rightarrow> bool" where
  "confirms (OpAcceptChange _ _ _) \<longleftrightarrow> True"
| "confirms _ \<longleftrightarrow> False"

text \<open>An answer: whether the user had confirmed a change, and what is handed to the caller: the version with the two
  classical keys, and the post-quantum key, if any.\<close>

type_synonym key_set = "u64 \<times> bytes \<times> bytes"
type_synonym dir_answer = "bool \<times> key_set \<times> bytes option"

definition vb_keys :: "verified_binding \<Rightarrow> bytes \<times> key_set \<times> bytes option" where
  "vb_keys v = (vb_user_id v, (vb_key_version v, vb_enc_pub v, vb_sig_pub v), vb_mlkem_pub v)"

definition ar_keys :: "authorized_recipient \<Rightarrow> bytes \<times> key_set \<times> bytes option" where
  "ar_keys a = (ar_user_id a, (ar_key_version a, ar_enc_pub a, ar_sig_pub a), ar_mlkem_pub a)"

definition keys_of :: "dir_binding \<Rightarrow> key_set" where
  "keys_of b = (db_key_version b, b32_raw (db_enc_pub b), b32_raw (db_sig_pub b))"

definition mlkem_of :: "dir_binding \<Rightarrow> bytes option" where
  "mlkem_of b = map_option mlkem_raw (db_mlkem_pub b)"

fun dir_step :: "('m \<Rightarrow> bytes \<Rightarrow> trust_record option) \<Rightarrow> ('m \<Rightarrow> bytes \<Rightarrow> trust_record \<Rightarrow> 'm) \<Rightarrow> primitives
    \<Rightarrow> directory_verifier \<Rightarrow> dir_op \<Rightarrow> 'm \<Rightarrow> (bool \<times> bytes \<times> key_set \<times> bytes option) option \<times> 'm" where
  "dir_step get put P dv (OpVerify b sig now kt) m =
     (case verify_binding_with_kt get put P dv b sig now m kt of
        (Inl e, m', _) \<Rightarrow> (None, m') | (Inr v, m', _) \<Rightarrow> (Some (False, vb_keys v), m'))"
| "dir_step get put P dv (OpAuthorize b sig now ts) m =
     (case authorize_recipient get put P dv b sig now m ts of
        (Inl e, m') \<Rightarrow> (None, m') | (Inr a, m') \<Rightarrow> (Some (False, ar_keys a), m'))"
| "dir_step get put P dv (OpAcceptChange b sig now) m =
     (case accept_key_change put P dv b sig now m of
        (Inl e, m') \<Rightarrow> (None, m') | (Inr v, m') \<Rightarrow> (Some (True, vb_keys v), m'))"

text \<open>The answers about one user over a sequence of calls, in order.\<close>

fun answers :: "('m \<Rightarrow> bytes \<Rightarrow> trust_record option) \<Rightarrow> ('m \<Rightarrow> bytes \<Rightarrow> trust_record \<Rightarrow> 'm) \<Rightarrow> primitives
    \<Rightarrow> directory_verifier \<Rightarrow> bytes \<Rightarrow> dir_op list \<Rightarrow> 'm \<Rightarrow> dir_answer list" where
  "answers get put P dv user [] m = []"
| "answers get put P dv user (op # ops) m =
     (case dir_step get put P dv op m of
        (None, m') \<Rightarrow> answers get put P dv user ops m'
      | (Some (confirmed, u, keys), m') \<Rightarrow>
          (if u = user then [(confirmed, keys)] else []) @ answers get put P dv user ops m')"

text \<open>What the trust memory sees of an answer.\<close>

definition classical :: "dir_answer \<Rightarrow> bool \<times> key_set" where
  "classical a = (case a of (confirmed, ks, mk) \<Rightarrow> (confirmed, ks))"

lemma classical_simp [simp]: "classical (confirmed, ks, mk) = (confirmed, ks)"
  by (simp add: classical_def)

text \<open>Unless confirmed, an answer repeats the previous one.\<close>

fun pinned :: "'r option \<Rightarrow> (bool \<times> 'r) list \<Rightarrow> bool" where
  "pinned prior [] = True"
| "pinned prior ((confirmed, r) # rs) \<longleftrightarrow> (confirmed \<or> prior = None \<or> prior = Some r) \<and> pinned (Some r) rs"

lemma pinned_None: "pinned prior rs \<Longrightarrow> pinned None rs"
  by (cases rs) auto

lemma pinned_map: "pinned prior rs \<Longrightarrow> pinned (map_option h prior) (map (map_prod (\<lambda>x. x) h) rs)"
  by (induction prior rs rule: pinned.induct) auto

lemma dir_step_cases:
  obtains (silent) "dir_step get put P dv op m = (None, m)"
  | (pins) "dir_step get put P dv op m = (None, put m (binding_user (op_binding op)) (binding_pin P (op_binding op)))"
      "get m (binding_user (op_binding op)) = None"
  | (answer) c m' where "dir_step get put P dv op m = (Some (c, binding_user (op_binding op),
        keys_of (op_binding op), mlkem_of (op_binding op)), m')"
      "c \<longleftrightarrow> confirms op" "binding_signed P (dv_dir_pub dv) (op_binding op) (op_sig op)" "in_window (op_binding op) (op_now op)"
      "m' = put m (binding_user (op_binding op)) (binding_pin P (op_binding op)) \<or>
       (m' = m \<and> get m (binding_user (op_binding op)) = Some (binding_pin P (op_binding op)))"
      "c \<or> get m (binding_user (op_binding op)) = None \<or>
       get m (binding_user (op_binding op)) = Some (binding_pin P (op_binding op))"
proof (cases op)
  case (OpVerify b sig now kt)
  then show ?thesis
    using that by (cases rule: verify_binding_cases [of get put P dv b sig now m];
      cases rule: verify_binding_with_kt_cases [of get put P dv b sig now m kt])
     (auto simp: vb_keys_def verified_def keys_of_def mlkem_of_def split: if_splits)
next
  case (OpAuthorize b sig now ts)
  show ?thesis
  proof (cases rule: verify_binding_cases [of get put P dv b sig now m])
    case (refused e)
    with OpAuthorize show ?thesis using that(1) by (simp add: authorize_recipient_def)
  next
    case opened
    with OpAuthorize show ?thesis
      using that by (cases "is_account_revoked ts (binding_user b)")
        (auto simp: authorize_recipient_def verified_def ar_keys_def keys_of_def mlkem_of_def split: if_splits)
  qed
next
  case (OpAcceptChange b sig now)
  then show ?thesis
    using that by (cases rule: accept_key_change_cases [of put P dv b sig now m]) (auto simp: vb_keys_def verified_def keys_of_def mlkem_of_def)
qed

definition pin_of :: "primitives \<Rightarrow> key_set \<Rightarrow> trust_record" where
  "pin_of P ks = (case ks of (kv, enc, sig) \<Rightarrow> \<lparr>tr_key_version = kv, tr_fingerprint = fingerprint P enc sig\<rparr>)"

locale trust_store =
  fixes get :: "'m \<Rightarrow> bytes \<Rightarrow> trust_record option"
    and put :: "'m \<Rightarrow> bytes \<Rightarrow> trust_record \<Rightarrow> 'm"
  assumes get_put: "get (put m k r) k' = (if k' = k then Some r else get m k')"
begin

lemma answers_pinned:
  "pinned (get m user) (map (map_prod (\<lambda>x. x) (pin_of P) \<circ> classical) (answers get put P dv user ops m))"
proof (induction ops arbitrary: m)
  case (Cons op ops)
  let ?b = "op_binding op"
  have pin: "pin_of P (keys_of ?b) = binding_pin P ?b"
    by (simp add: pin_of_def keys_of_def binding_pin_def binding_fingerprint_def)
  show ?case
  proof (cases rule: dir_step_cases [of get put P dv op m])
    case silent
    with Cons show ?thesis by simp
  next
    case pins
    with Cons.IH [of "put m (binding_user ?b) (binding_pin P ?b)"] show ?thesis
      by (cases "user = binding_user ?b") (auto simp: get_put intro: pinned_None)
  next
    case (answer c m')
    with Cons.IH [of m'] pin show ?thesis by (cases "user = binding_user ?b") (auto simp: get_put)
  qed
qed simp

end

interpretation trust_memory: trust_store trust_get trust_put
  by unfold_locales (simp add: trust_get_def trust_put_def)

definition fingerprint_preimage :: "dir_binding \<Rightarrow> bytes" where
  "fingerprint_preimage b = encode TYPE_FINGERPRINT_INPUT put_fingerprint_input
     \<lparr>fi_enc_pub = db_enc_pub b, fi_sig_pub = db_sig_pub b\<rparr>"

definition ok_keys :: "dir_binding \<Rightarrow> bool" where
  "ok_keys b \<longleftrightarrow> ok_b32 (db_enc_pub b) \<and> ok_b32 (db_sig_pub b)"

lemma answer_served:
  "(c, ks, mk) \<in> set (answers get put P dv user ops m) \<Longrightarrow> \<exists>op \<in> set ops. binding_user (op_binding op) = user \<and>
     binding_signed P (dv_dir_pub dv) (op_binding op) (op_sig op) \<and> in_window (op_binding op) (op_now op) \<and>
     (c \<longleftrightarrow> confirms op) \<and> ks = keys_of (op_binding op) \<and> mk = mlkem_of (op_binding op)"
proof (induction ops arbitrary: m)
  case (Cons op ops)
  show ?case
    by (cases rule: dir_step_cases [of get put P dv op m]) (use Cons in \<open>auto split: if_splits\<close>)
qed simp

lemma pin_of_keys: "pin_of P (keys_of b) = binding_pin P b"
  by (simp add: pin_of_def keys_of_def binding_pin_def binding_fingerprint_def)

lemma pins_determine_keys:
  assumes "inj_on (pr_sha P) (fingerprint_preimage ` bs)" and "\<And>b. b \<in> bs \<Longrightarrow> ok_keys b"
  shows "inj_on (pin_of P) (keys_of ` bs)"
proof (rule inj_onI)
  fix x y assume "x \<in> keys_of ` bs" "y \<in> keys_of ` bs" and eq: "pin_of P x = pin_of P y"
  then obtain a b where ab: "a \<in> bs" "b \<in> bs" "x = keys_of a" "y = keys_of b" by blast
  from eq have "pr_sha P (fingerprint_preimage a) = pr_sha P (fingerprint_preimage b)"
    and kv: "db_key_version a = db_key_version b"
    by (simp_all add: ab pin_of_keys binding_pin_def binding_fingerprint_def fingerprint_def fingerprint_preimage_def)
  with assms(1) ab have "fingerprint_preimage a = fingerprint_preimage b" by (auto dest: inj_onD)
  moreover have "ok_keys a" "ok_keys b" using assms(2) ab by blast+
  ultimately have "\<lparr>fi_enc_pub = db_enc_pub a, fi_sig_pub = db_sig_pub a\<rparr> =
      \<lparr>fi_enc_pub = db_enc_pub b, fi_sig_pub = db_sig_pub b\<rparr>"
    by (intro fingerprint_input.encode_inj)
      (simp_all add: fingerprint_preimage_def ok_keys_def ok_fingerprint_input_def)
  with kv show "x = y" by (simp add: ab keys_of_def)
qed

section \<open>The guarantees\<close>

text \<open>C27: The classical keys of a user stay pinned: over any sequence of directory checks from a fresh memory, whatever
  bindings, signatures, clocks and log proofs are served, every answer about a user carries the key version and the two
  classical public keys of the previous answer, unless the user confirmed the change with \<open>accept_key_change\<close>. The
  post-quantum key is not part of the pin, so of it only this holds: like everything in an answer it is the one of a
  binding of this user that was served in that sequence, under the signature of the pinned directory key and inside its
  validity window. SHA-256 must not collide on the fingerprints of the bindings served.\<close>

theorem classical_keys_stay_pinned:
  assumes "inj_on (pr_sha P) (fingerprint_preimage ` op_binding ` set ops)"
    and "\<forall>op \<in> set ops. ok_keys (op_binding op)"
  shows "pinned None (map classical (answers trust_get trust_put P dv user ops memory_trust_new)) \<and>
     (\<forall>(c, ks, mk) \<in> set (answers trust_get trust_put P dv user ops memory_trust_new).
        \<exists>op \<in> set ops. binding_user (op_binding op) = user \<and>
          binding_signed P (dv_dir_pub dv) (op_binding op) (op_sig op) \<and> in_window (op_binding op) (op_now op) \<and>
          (c \<longleftrightarrow> confirms op) \<and> ks = keys_of (op_binding op) \<and> mk = mlkem_of (op_binding op))"
proof
  let ?as = "answers trust_get trust_put P dv user ops memory_trust_new"
  let ?h = "inv_into (keys_of ` op_binding ` set ops) (pin_of P)"
  have inj: "inj_on (pin_of P) (keys_of ` op_binding ` set ops)"
    by (rule pins_determine_keys) (use assms in auto)
  have "map_prod (\<lambda>x. x) ?h (map_prod (\<lambda>x. x) (pin_of P) (classical a)) = classical a" if "a \<in> set ?as" for a
  proof -
    obtain c ks mk where a: "a = (c, ks, mk)" by (metis prod.exhaust)
    with that answer_served have "ks \<in> keys_of ` op_binding ` set ops" by fastforce
    with inj show ?thesis by (simp add: a inv_into_f_f)
  qed
  then have restored: "map (map_prod (\<lambda>x. x) ?h) (map (map_prod (\<lambda>x. x) (pin_of P) \<circ> classical) ?as) = map classical ?as"
    by simp
  have "trust_get memory_trust_new user = None" by (simp add: trust_get_def memory_trust_new_def)
  with pinned_map [OF trust_memory.answers_pinned [of memory_trust_new user P dv ops], of ?h]
  show "pinned None (map classical ?as)" by (simp only: restored option.map)
qed (use answer_served in fast)

definition toy_binding :: "byte \<Rightarrow> u64 \<Rightarrow> dir_binding" where
  "toy_binding key kv = \<lparr>db_username = Text [], db_user_id = uid 1, db_enc_pub = Bytes32 (replicate 32 key),
     db_sig_pub = Bytes32 (replicate 32 key), db_key_version = kv, db_roles = RoleSet [], db_not_before = Timestamp 0,
     db_not_after = Timestamp 9, db_mlkem_pub = None\<rparr>"

theorem classical_keys_stay_pinned_witness:
  "pinned None (map classical (answers trust_get trust_put toy_prims (verifier_new [3]) (replicate 16 1)
     [OpVerify (toy_binding 5 1) [3] 4 None, OpVerify (toy_binding 6 1) [3] 4 None,
      OpAcceptChange (toy_binding 6 1) [3] 4, OpVerify (toy_binding 6 1) [3] 4 None] memory_trust_new))"
proof (rule classical_keys_stay_pinned [THEN conjunct1])
  show "inj_on (pr_sha toy_prims) A" for A by (simp add: toy_prims_with_def inj_on_def)
  show "\<forall>op \<in> set [OpVerify (toy_binding 5 1) [3] 4 None, OpVerify (toy_binding 6 1) [3] 4 None,
      OpAcceptChange (toy_binding 6 1) [3] 4, OpVerify (toy_binding 6 1) [3] 4 None]. ok_keys (op_binding op)"
    by (simp add: ok_keys_def toy_binding_def ok_b32_def)
qed

text \<open>Key transparency at first contact: when a client accepts a user it did not know, behind the gate and
  with a remembered checkpoint, the log of the served checkpoint extends the log it remembers, the accepted
  binding is the leaf of that log at the claimed index, and the client remembers the checkpoint and the
  binding's version and keys.\<close>

theorem first_contact_is_logged:
  assumes "verify_binding_with_kt trust_get trust_put P dv b sig now m (Some k) = (Inr v, m', kt')"
    and "trust_get m (binding_user b) = None" and "kx_store k = Some prev"
    and "commits (pr_sha P) prev old" and "commits (pr_sha P) (kx_checkpoint k) new"
    and "merkle_ext_safe (pr_sha P) old new (kx_consistency k)" and "root_safe (pr_sha P) old new"
    and "merkle_incl_safe (pr_sha P) (encode TYPE_DIR_BINDING put_dir_binding b) (ip_index (kx_inclusion k))
      (kc_tree_size (kx_checkpoint k)) (ip_path (kx_inclusion k)) new"
  shows "take (length old) new = old \<and> unat (ip_index (kx_inclusion k)) < length new \<and>
    new ! unat (ip_index (kx_inclusion k)) = encode TYPE_DIR_BINDING put_dir_binding b \<and>
    kt' = Some (k\<lparr>kx_store := Some (kx_checkpoint k)\<rparr>) \<and>
    trust_get m' (binding_user b) = Some (binding_pin P b) \<and> v = verified b (binding_fingerprint P b)"
proof -
  let ?leaf = "encode TYPE_DIR_BINDING put_dir_binding b"
  obtain r store where log: "verify_binding_in_log (pr_sha P) (pr_vk_valid P) (pr_strict P) ?leaf (kx_inclusion k)
      (kx_checkpoint k) (kx_consistency k) (kx_log_pubs k) (Some prev) = (r, store)" by (rule prod.exhaust)
  obtain r' t where vb: "verify_binding trust_get trust_put P dv b sig now m = (r', t)" by (rule prod.exhaust)
  from assms(1-3) log vb have ok: "r = Inr ()" "r' = Inr v" "t = m'" "kt' = Some (k\<lparr>kx_store := store\<rparr>)"
    by (auto simp: verify_binding_with_kt_def Let_def split: sum.splits)
  from binding_extends_view [OF log [unfolded ok(1)] assms(4-8)]
  have "take (length old) new = old \<and> unat (ip_index (kx_inclusion k)) < length new \<and>
    new ! unat (ip_index (kx_inclusion k)) = ?leaf \<and> store = Some (kx_checkpoint k)" .
  moreover have "trust_get m' (binding_user b) = Some (binding_pin P b) \<and> v = verified b (binding_fingerprint P b)"
    using vb assms(2) ok
    by (cases rule: verify_binding_cases [of trust_get trust_put P dv b sig now m]) (auto simp: trust_memory.get_put)
  ultimately show ?thesis using ok(4) by simp
qed

definition flat_prims :: primitives where
  "flat_prims = toy_prims\<lparr>pr_sha := (\<lambda>_. replicate 32 0)\<rparr>"

theorem first_contact_is_logged_witness:
  "\<exists>v m' kt'. verify_binding_with_kt trust_get trust_put flat_prims (verifier_new [3]) (toy_binding 5 1) [3] 4
      memory_trust_new (Some \<lparr>kx_inclusion = \<lparr>ip_index = 0, ip_tree_size = 1, ip_path = []\<rparr>,
        kx_checkpoint = \<lparr>kc_tree_size = 1, kc_root = replicate 32 0, kc_sig = [8]\<rparr>, kx_consistency = [],
        kx_log_pubs = [[8]], kx_store = Some \<lparr>kc_tree_size = 1, kc_root = replicate 32 0, kc_sig = [8]\<rparr>\<rparr>) =
      (Inr v, m', kt') \<and> trust_get m' (replicate 16 1) = Some (binding_pin flat_prims (toy_binding 5 1))"
proof -
  let ?leaf = "encode TYPE_DIR_BINDING put_dir_binding (toy_binding 5 1)"
  let ?cp = "\<lparr>kc_tree_size = 1, kc_root = replicate 32 0, kc_sig = [8]\<rparr>"
  let ?k = "\<lparr>kx_inclusion = \<lparr>ip_index = 0, ip_tree_size = 1, ip_path = []\<rparr>, kx_checkpoint = ?cp, kx_consistency = [],
        kx_log_pubs = [[8]], kx_store = Some ?cp\<rparr>"
  let ?sha = "\<lambda>_ :: bytes. replicate 32 0 :: bytes"
  have sha: "pr_sha flat_prims = ?sha" "pr_vk_valid flat_prims = (\<lambda>_. True)" "pr_strict flat_prims = (\<lambda>k m s. s = k)"
    by (simp_all add: flat_prims_def toy_prims_with_def)
  have user: "binding_user (toy_binding 5 1) = replicate 16 1" by (simp add: toy_binding_def uid_def)
  have root: "merkle_root ?sha [?leaf] = replicate 32 0" by (simp add: merkle_root.simps leaf_hash_def)
  have "verify_inclusion ?sha ?leaf 0 1 [] (replicate 32 0)"
    by (simp add: verify_inclusion_climb climb.simps leaf_hash_def)
  then have log: "verify_binding_in_log ?sha (\<lambda>_. True) (\<lambda>k m s. s = k) ?leaf (kx_inclusion ?k) ?cp [] [[8]] (Some ?cp) =
      (Inr (), Some ?cp)"
    by (simp add: verify_binding_in_log_Inr verify_checkpoint_sig_def any_key_verifies_iff check_gossip_def)
  have "binding_signed flat_prims (dv_dir_pub (verifier_new [3])) (toy_binding 5 1) [3]" "in_window (toy_binding 5 1) 4"
    by (simp_all add: binding_signed_def sha verifier_new_def in_window_def toy_binding_def)
  then have vb: "fst (verify_binding trust_get trust_put flat_prims (verifier_new [3]) (toy_binding 5 1) [3] 4
      memory_trust_new) = Inr (verified (toy_binding 5 1) (binding_fingerprint flat_prims (toy_binding 5 1)))"
    unfolding verify_binding_Inr by (simp add: trust_get_def memory_trust_new_def)
  then obtain m' where m': "verify_binding trust_get trust_put flat_prims (verifier_new [3]) (toy_binding 5 1) [3] 4
      memory_trust_new = (Inr (verified (toy_binding 5 1) (binding_fingerprint flat_prims (toy_binding 5 1))), m')"
    by (cases "verify_binding trust_get trust_put flat_prims (verifier_new [3]) (toy_binding 5 1) [3] 4 memory_trust_new") auto
  have new: "trust_get memory_trust_new (binding_user (toy_binding 5 1)) = None"
    by (simp add: trust_get_def memory_trust_new_def)
  have run: "verify_binding_with_kt trust_get trust_put flat_prims (verifier_new [3]) (toy_binding 5 1) [3] 4
      memory_trust_new (Some ?k) = (Inr (verified (toy_binding 5 1) (binding_fingerprint flat_prims (toy_binding 5 1))),
        m', Some ?k)"
    using log m' new by (simp add: verify_binding_with_kt_def Let_def sha)
  have "tree_inputs ?sha [?leaf] = {0 # ?leaf}" by (simp add: tree_inputs_def node_inputs.simps)
  moreover have "inclusion_inputs ?sha ?leaf 0 1 [] = {0 # ?leaf}" by (simp add: inclusion_inputs_def climb_inputs.simps)
  moreover have "consistency_inputs ?sha 1 (replicate 32 0) 1 [] = {}"
    by (simp add: consistency_inputs_def climb_right_edge.simps climb_inputs.simps)
  ultimately have "merkle_ext_safe ?sha [?leaf] [?leaf] []" "root_safe ?sha [?leaf] [?leaf]"
    "merkle_incl_safe ?sha ?leaf 0 1 [] [?leaf]" "commits ?sha ?cp [?leaf]"
    by (simp_all add: merkle_ext_safe_def root_safe_def merkle_incl_safe_def commits_def root no_collision_def)
  then show ?thesis
    using first_contact_is_logged [OF run new, of ?cp "[?leaf]" "[?leaf]"] run by (auto simp: sha user)
qed

text \<open>Offline root: through a delegated verifier a binding is accepted exactly when the pinned root signed a
  delegation of some operational key for a window containing now, that key signed the binding, and the
  binding passes the memory and its own window; the delegation alone never makes the root's own signature
  count.\<close>

theorem delegated_binding_iff:
  "(\<exists>dv. with_delegation P d5 cert_bytes now_secs = Inr dv \<and>
      fst (verify_binding trust_get trust_put P dv b sig now_ms m) = Inr v) \<longleftrightarrow>
   (\<exists>c. ok_delegation c \<and> cert_bytes = dd_serialize c \<and> pr_vk_valid P d5 \<and>
      pr_strict P d5 (signing_input L_DIRECTORY_DELEGATION
        (body_bytes (dd_operational_pub c) (dd_valid_from c) (dd_valid_until c))) (dd_signature c) \<and>
      dd_valid_from c \<le> now_secs \<and> now_secs \<le> dd_valid_until c \<and>
      binding_signed P (dd_operational_pub c) b sig \<and> in_window b now_ms \<and>
      (trust_get m (binding_user b) = None \<or> trust_get m (binding_user b) = Some (binding_pin P b)) \<and>
      v = verified b (binding_fingerprint P b))"
proof -
  have "with_delegation P d5 cert_bytes now_secs = Inr dv \<longleftrightarrow>
      dd_verify (pr_vk_valid P) (pr_strict P) d5 cert_bytes now_secs = Inr (dv_dir_pub dv)" for dv
    by (cases dv) (auto simp: with_delegation_def split: sum.splits crypto_error.splits)
  then have eq: "(\<exists>dv. with_delegation P d5 cert_bytes now_secs = Inr dv \<and> Q (dv_dir_pub dv)) \<longleftrightarrow>
      (\<exists>p. dd_verify (pr_vk_valid P) (pr_strict P) d5 cert_bytes now_secs = Inr p \<and> Q p)" for Q
    by (metis directory_verifier.sel)
  show ?thesis
    unfolding verify_binding_Inr eq [of "\<lambda>p. binding_signed P p b sig \<and> in_window b now_ms \<and>
      (trust_get m (binding_user b) = None \<or> trust_get m (binding_user b) = Some (binding_pin P b)) \<and>
      v = verified b (binding_fingerprint P b)"]
      dd_verify_exact [THEN conjunct1]
    by blast
qed

text \<open>The post-quantum key is outside the pin: for a pinned user, a second binding signed by the directory key
  that differs only in its ML-KEM key, or adds or drops it, is accepted silently and handed out.\<close>

theorem mlkem_key_is_not_pinned:
  assumes "trust_get m (binding_user b) = Some (binding_pin P b)"
    and "binding_signed P (dv_dir_pub dv) (b\<lparr>db_mlkem_pub := mk\<rparr>) sig" and "in_window b now"
  shows "\<exists>v. verify_binding trust_get trust_put P dv (b\<lparr>db_mlkem_pub := mk\<rparr>) sig now m = (Inr v, m) \<and>
    vb_mlkem_pub v = map_option mlkem_raw mk"
proof -
  have same: "binding_pin P (b\<lparr>db_mlkem_pub := mk\<rparr>) = binding_pin P b" "in_window (b\<lparr>db_mlkem_pub := mk\<rparr>) now = in_window b now"
    by (simp_all add: binding_pin_def binding_fingerprint_def in_window_def)
  have "fst (verify_binding trust_get trust_put P dv (b\<lparr>db_mlkem_pub := mk\<rparr>) sig now m) =
      Inr (verified (b\<lparr>db_mlkem_pub := mk\<rparr>) (binding_fingerprint P (b\<lparr>db_mlkem_pub := mk\<rparr>)))"
    using assms by (simp add: verify_binding_Inr same)
  then show ?thesis
    using assms(1) by (cases rule: verify_binding_cases [of trust_get trust_put P dv "b\<lparr>db_mlkem_pub := mk\<rparr>" sig now m])
      (auto simp: verified_def)
qed

theorem mlkem_key_is_not_pinned_witness:
  "\<exists>v. verify_binding trust_get trust_put toy_prims (verifier_new [3])
      ((toy_binding 5 1)\<lparr>db_mlkem_pub := Some (MlKemPub (replicate 1184 0))\<rparr>) [3] 4
      (trust_put memory_trust_new (replicate 16 1) (binding_pin toy_prims (toy_binding 5 1))) =
     (Inr v, trust_put memory_trust_new (replicate 16 1) (binding_pin toy_prims (toy_binding 5 1))) \<and>
     vb_mlkem_pub v = map_option mlkem_raw (Some (MlKemPub (replicate 1184 0)))"
  by (rule mlkem_key_is_not_pinned)
    (simp_all add: toy_binding_def uid_def trust_memory.get_put binding_signed_def toy_prims_with_def verifier_new_def in_window_def)

end
