(* ===== verification/Sharing.thy ===== *)
theory Sharing
  imports Upload
begin

text \<open>
  \<^verbatim>\<open>crates/client-core/src/reshare.rs\<close> and \<^verbatim>\<open>rotate.rs\<close>: extending read access to another user, and
  authoring the next version for the readers that may keep it. The randomness of keys and wraps is an
  argument; \<open>rnd i\<close> is the draw of the candidate at position \<open>i\<close>.
\<close>

section \<open>Re-share\<close>

record reshare_params =
  rp_granter :: identity
  rp_granter_id :: ident
  rp_file_id :: ident
  rp_version :: u64
  rp_dek_commit :: bytes
  rp_recipient_id :: ident
  rp_recipient_enc_pub :: bytes
  rp_suite :: suite
  rp_recipient_mlkem_pub :: "bytes option"
  rp_created_at :: timestamp

datatype reshare_error = ReshareDekCommitMismatch | ReshareRecipientRevoked | RecipientIsRecovery | WrapFailed
  | ResharePqKeyMissing

definition reshare_wrap :: "primitives \<Rightarrow> draw \<Rightarrow> reshare_params \<Rightarrow> dek \<Rightarrow> wrap_context \<Rightarrow> reshare_error + wrapped_dek" where
  "reshare_wrap P r params dek ctx =
     (case rp_suite params of
        SuiteV1 \<Rightarrow> map_err (\<lambda>_. WrapFailed) (wrap_dek P (snd r) (rp_recipient_enc_pub params) dek ctx)
      | SuiteV2 \<Rightarrow>
          rbind (ok_or (rp_recipient_mlkem_pub params) ResharePqKeyMissing) (\<lambda>mlkem.
          let hybrid_pub = \<lparr>hp_x25519 = rp_recipient_enc_pub params, hp_mlkem = mlkem\<rparr> in
          rbind (map_err (\<lambda>_. WrapFailed) (wrap_dek_hybrid P (fst r) (snd r) hybrid_pub dek ctx)) (\<lambda>hybrid.
          Inr (pack_hybrid_wrap hybrid))))"

definition build_reshare :: "primitives \<Rightarrow> draw \<Rightarrow> reshare_params \<Rightarrow> dek \<Rightarrow> tombstone_set \<Rightarrow> reshare_error + wrap_out" where
  "build_reshare P r params dek tombstones =
     (if commit P dek \<noteq> rp_dek_commit params then Inl ReshareDekCommitMismatch
      else if rp_recipient_id params = RECOVERY_ID then Inl RecipientIsRecovery
      else if is_account_revoked tombstones (id_raw (rp_recipient_id params)) \<or>
          is_revoked tombstones (id_raw (rp_recipient_id params)) (id_raw (rp_file_id params)) (rp_version params)
      then Inl ReshareRecipientRevoked
      else
        let ctx = \<lparr>wc_file_id = rp_file_id params, wc_version = rp_version params,
          wc_recipient_id = rp_recipient_id params\<rparr> in
        rbind (reshare_wrap P r params dek ctx) (\<lambda>wrapped_dek.
        let grant = \<lparr>gr_file_id = rp_file_id params, gr_file_version = rp_version params,
              gr_recipient_id = rp_recipient_id params, gr_recipient_type = RtUser,
              gr_dek_commit = Bytes32 (rp_dek_commit params), gr_granted_by = rp_granter_id params,
              gr_created_at = rp_created_at params\<rparr>;
            grant_sig = id_sign P (rp_granter params) L_GRANT TYPE_GRANT put_grant grant
        in Inr \<lparr>wo_recipient_id = rp_recipient_id params, wo_recipient_type = RtUser,
          wo_wrapped_dek = wrapped_dek, wo_granted_by = rp_granter_id params, wo_grant = grant,
          wo_grant_sig = grant_sig\<rparr>))"

section \<open>Rotation\<close>

record carry_forward_candidate =
  cf_recipient_id :: ident
  cf_recipient_enc_pub :: bytes
  cf_recipient_mlkem_pub :: "bytes option"
  cf_leaf_grant_bytes :: bytes
  cf_leaf_grant_sig :: bytes
  cf_ancestor_grants :: "(bytes \<times> bytes) list"

record rotate_params =
  ro_owner :: identity
  ro_owner_id :: ident
  ro_file_id :: ident
  ro_file_type :: file_type
  ro_new_version :: u64
  ro_chunk_size :: u32
  ro_recovery_pub :: bytes
  ro_suite :: suite
  ro_recovery_mlkem_pub :: "bytes option"
  ro_created_at :: timestamp
  ro_prior_version :: u64
  ro_prior_dek_commit :: bytes
  ro_prior_author_id :: ident
  ro_prior_author_sig_pub :: bytes

record rotation_bundle =
  rb_file_id :: ident
  rb_file_type :: file_type
  rb_manifest :: manifest
  rb_manifest_sig :: bytes
  rb_streams :: "sealed_stream_out list"
  rb_wraps :: "wrap_out list"

datatype rotate_error = RotChunkSizeOutOfRange u32 | PriorDekMismatch | RotUpload upload_error | RotPqKeyMissing

definition wrap_under_suite :: "primitives \<Rightarrow> draw \<Rightarrow> suite \<Rightarrow> identity \<Rightarrow> ident \<Rightarrow> u64 \<Rightarrow> ident \<Rightarrow> recipient_type
    \<Rightarrow> bytes \<Rightarrow> bytes option \<Rightarrow> dek \<Rightarrow> bytes \<Rightarrow> ident \<Rightarrow> timestamp \<Rightarrow> rotate_error + wrap_out" where
  "wrap_under_suite P r suite signer file_id version recipient_id recipient_type enc_pub mlkem_pub dek dek_commit
       granted_by created_at =
     (case suite of
        SuiteV1 \<Rightarrow> map_err RotUpload (wrap_and_grant P r signer file_id version recipient_id recipient_type enc_pub
          dek dek_commit granted_by created_at None)
      | SuiteV2 \<Rightarrow>
          rbind (ok_or mlkem_pub RotPqKeyMissing) (\<lambda>mlkem.
          let hpub = \<lparr>hp_x25519 = enc_pub, hp_mlkem = mlkem\<rparr> in
          map_err RotUpload (wrap_and_grant_hybrid P r signer file_id version recipient_id recipient_type hpub
            dek dek_commit granted_by created_at None)))"

definition candidate_survives :: "primitives \<Rightarrow> carry_forward_candidate \<Rightarrow> rotate_params \<Rightarrow> tombstone_set
    \<Rightarrow> (ident \<Rightarrow> bytes option) \<Rightarrow> bool" where
  "candidate_survives P c params tombstones granter_sig_pub =
     (case decode_grant (cf_leaf_grant_bytes c) of
        Inl _ \<Rightarrow> False
      | Inr leaf \<Rightarrow>
          let prior_commit = Bytes32 (ro_prior_dek_commit params) in
          if gr_file_id leaf \<noteq> ro_file_id params \<or> gr_file_version leaf \<noteq> ro_prior_version params \<or>
             gr_dek_commit leaf \<noteq> prior_commit \<or> gr_recipient_id leaf \<noteq> cf_recipient_id c \<or>
             gr_recipient_type leaf \<noteq> RtUser
          then False
          else if \<not> is_ok (verify_grant_chain P leaf (cf_leaf_grant_sig c) (cf_ancestor_grants c)
              (ro_file_id params) (ro_prior_version params) prior_commit (ro_prior_author_id params)
              (ro_prior_author_sig_pub params) granter_sig_pub None)
          then False
          else \<not> (is_account_revoked tombstones (id_raw (cf_recipient_id c)) \<or>
            is_revoked tombstones (id_raw (cf_recipient_id c)) (id_raw (ro_file_id params)) (ro_new_version params)))"

definition owner_rotation_wrap :: "primitives \<Rightarrow> draw \<Rightarrow> rotate_params \<Rightarrow> dek \<Rightarrow> bytes \<Rightarrow> rotate_error + wrap_out" where
  "owner_rotation_wrap P r params dek dek_commit =
     (let owner = ro_owner params in
      case ro_suite params of
        SuiteV1 \<Rightarrow> map_err RotUpload (wrap_and_grant P r owner (ro_file_id params) (ro_new_version params)
          (ro_owner_id params) RtUser (enc_pub_bytes owner) dek dek_commit (ro_owner_id params)
          (ro_created_at params) (Some (enc_secret owner)))
      | SuiteV2 \<Rightarrow>
          rbind (ok_or (mlkem_pub_bytes owner) RotPqKeyMissing) (\<lambda>owner_mlkem.
          rbind (ok_or (mlkem_seed_of owner) RotPqKeyMissing) (\<lambda>owner_seed.
          let hpub = \<lparr>hp_x25519 = enc_pub_bytes owner, hp_mlkem = owner_mlkem\<rparr>;
              hsec = from_components (enc_secret owner) owner_seed
          in map_err RotUpload (wrap_and_grant_hybrid P r owner (ro_file_id params) (ro_new_version params)
               (ro_owner_id params) RtUser hpub dek dek_commit (ro_owner_id params) (ro_created_at params)
               (Some hsec)))))"

text \<open>The candidate loop.\<close>

fun carry_wraps :: "primitives \<Rightarrow> (nat \<Rightarrow> draw) \<Rightarrow> nat \<Rightarrow> rotate_params \<Rightarrow> dek \<Rightarrow> bytes \<Rightarrow> tombstone_set
    \<Rightarrow> (ident \<Rightarrow> bytes option) \<Rightarrow> carry_forward_candidate list \<Rightarrow> wrap_out list \<Rightarrow> rotate_error + wrap_out list" where
  "carry_wraps P rnd i params dek dek_commit tombstones granter_sig_pub [] wraps = Inr wraps"
| "carry_wraps P rnd i params dek dek_commit tombstones granter_sig_pub (c # cs) wraps =
     (if cf_recipient_id c = ro_owner_id params \<or> cf_recipient_id c = RECOVERY_ID
      then carry_wraps P rnd (Suc i) params dek dek_commit tombstones granter_sig_pub cs wraps
      else if \<not> candidate_survives P c params tombstones granter_sig_pub
      then carry_wraps P rnd (Suc i) params dek dek_commit tombstones granter_sig_pub cs wraps
      else rbind (wrap_under_suite P (rnd i) (ro_suite params) (ro_owner params) (ro_file_id params)
          (ro_new_version params) (cf_recipient_id c) RtUser (cf_recipient_enc_pub c) (cf_recipient_mlkem_pub c)
          dek dek_commit (ro_owner_id params) (ro_created_at params)) (\<lambda>w.
        carry_wraps P rnd (Suc i) params dek dek_commit tombstones granter_sig_pub cs (wraps @ [w])))"

definition build_next_version :: "primitives \<Rightarrow> bytes \<Rightarrow> draw \<Rightarrow> draw \<Rightarrow> (nat \<Rightarrow> draw) \<Rightarrow> rotate_params
    \<Rightarrow> plaintext_streams \<Rightarrow> dek \<Rightarrow> carry_forward_candidate list \<Rightarrow> tombstone_set \<Rightarrow> (ident \<Rightarrow> bytes option)
    \<Rightarrow> rotate_error + rotation_bundle" where
  "build_next_version P random r1 r2 rnd params streams prior_dek candidates tombstones granter_sig_pub =
     (if ro_chunk_size params < CHUNK_SIZE_MIN \<or> ro_chunk_size params > CHUNK_SIZE_MAX
      then Inl (RotChunkSizeOutOfRange (ro_chunk_size params))
      else if commit P prior_dek \<noteq> ro_prior_dek_commit params then Inl PriorDekMismatch
      else
        let dek = dek_generate random;
            dek_commit = commit P dek
        in rbind (map_err RotUpload (seal_streams P dek (ro_file_id params) (ro_new_version params)
             (ro_chunk_size params) streams)) (\<lambda>(manifest_streams, sealed_out).
           rbind (owner_rotation_wrap P r1 params dek dek_commit) (\<lambda>owner_wrap.
           rbind (wrap_under_suite P r2 (ro_suite params) (ro_owner params) (ro_file_id params)
             (ro_new_version params) RECOVERY_ID RtRecovery (ro_recovery_pub params) (ro_recovery_mlkem_pub params)
             dek dek_commit (ro_owner_id params) (ro_created_at params)) (\<lambda>recovery_wrap.
           rbind (carry_wraps P rnd 0 params dek dek_commit tombstones granter_sig_pub candidates
             [owner_wrap, recovery_wrap]) (\<lambda>wraps.
           let manifest = \<lparr>ma_file_id = ro_file_id params, ma_version = ro_new_version params,
                 ma_file_type = ro_file_type params, ma_alg = ro_suite params,
                 ma_chunk_size = ro_chunk_size params, ma_dek_commit = Bytes32 dek_commit,
                 ma_streams = manifest_streams, ma_recovery_present = True,
                 ma_author_id = ro_owner_id params, ma_created_at = ro_created_at params\<rparr>;
               manifest_sig = id_sign P (ro_owner params) L_MANIFEST TYPE_MANIFEST put_manifest manifest
           in Inr \<lparr>rb_file_id = ro_file_id params, rb_file_type = ro_file_type params, rb_manifest = manifest,
             rb_manifest_sig = manifest_sig, rb_streams = sealed_out, rb_wraps = wraps\<rparr>)))))"

end
