(* ===== verification/Sharing_Laws.thy ===== *)
theory Sharing_Laws
  imports Sharing Upload_Laws
begin

text \<open>
  Re-share and rotation against download: a re-shared file opens for the new reader, a rotation keeps exactly
  the readers that held the key and are not revoked, and each of them opens the new version.
\<close>

section \<open>Wraps\<close>

lemma wrap_and_grant_unchecked:
  "wrap_and_grant P r signer f v rid rt pk d c by_id t self = Inr w \<Longrightarrow>
     wrap_and_grant P r signer f v rid rt pk d c by_id t None = Inr w"
  "wrap_and_grant_hybrid P r signer f v rid rt hpk d c by_id t hself = Inr w \<Longrightarrow>
     wrap_and_grant_hybrid P r signer f v rid rt hpk d c by_id t None = Inr w"
  by (auto simp: wrap_and_grant_def wrap_and_grant_hybrid_def result_simps Let_def)

lemma wrap_under_suite_shape:
  assumes "wrap_under_suite P r suite signer f v rid rt pk mlkem d c by_id t = Inr w"
  obtains wd where "w = wrap_out_of P signer f v rid rt c by_id t wd"
  using assms by (auto simp: wrap_under_suite_def wrap_and_grant_def wrap_and_grant_hybrid_def result_simps Let_def
      split: suite.splits)

lemma wrap_under_suite_opens:
  assumes "wrap_under_suite P r suite signer f v rid rt pk mlkem d (commit P d) by_id t = Inr w"
    and "key_pair P sk seed pk mlkem" and "aead_ok P" and "length (dek_raw d) = 32"
  obtains wd where "w = wrap_out_of P signer f v rid rt (commit P d) by_id t wd"
    "opens_as P suite sk seed wd \<lparr>wc_file_id = f, wc_version = v, wc_recipient_id = rid\<rparr> d"
proof (cases suite)
  case SuiteV1
  have "hpke_pair P sk pk" using assms(2) by (simp add: key_pair_def)
  then obtain wd where "wrap_and_grant P r signer f v rid rt pk d (commit P d) by_id t None =
      Inr (wrap_out_of P signer f v rid rt (commit P d) by_id t wd)"
    "opens_as P SuiteV1 sk seed wd \<lparr>wc_file_id = f, wc_version = v, wc_recipient_id = rid\<rparr> d"
    by (rule wrap_and_grant_opens [OF _ assms(4) disjI1 [OF refl]])
  with assms(1) SuiteV1 show ?thesis by (intro that [of wd]) (simp_all add: wrap_under_suite_def)
next
  case SuiteV2
  with assms(1) obtain ek where ek: "mlkem = Some ek" by (auto simp: wrap_under_suite_def result_simps)
  with assms(2) obtain s where s: "seed = Some s"
    "hybrid_pair P (from_components sk s) \<lparr>hp_x25519 = pk, hp_mlkem = ek\<rparr>"
    by (auto simp: key_pair_def split: option.splits)
  obtain wd where "wrap_and_grant_hybrid P r signer f v rid rt \<lparr>hp_x25519 = pk, hp_mlkem = ek\<rparr> d (commit P d) by_id t None =
      Inr (wrap_out_of P signer f v rid rt (commit P d) by_id t wd)"
    "opens_as P SuiteV2 sk (Some s) wd \<lparr>wc_file_id = f, wc_version = v, wc_recipient_id = rid\<rparr> d"
    by (rule wrap_and_grant_hybrid_opens [OF s(2) assms(3,4) disjI1 [OF refl]])
  with assms(1) SuiteV2 ek s(1) show ?thesis by (intro that [of wd]) (simp_all add: wrap_under_suite_def)
qed

section \<open>Who a rotation wraps to\<close>

definition eligible :: "primitives \<Rightarrow> rotate_params \<Rightarrow> tombstone_set \<Rightarrow> (ident \<Rightarrow> bytes option)
    \<Rightarrow> carry_forward_candidate \<Rightarrow> bool" where
  "eligible P params ts gsp c \<longleftrightarrow> cf_recipient_id c \<noteq> ro_owner_id params \<and> cf_recipient_id c \<noteq> RECOVERY_ID \<and>
     candidate_survives P c params ts gsp"

type_synonym wrap_target = "ident \<times> recipient_type \<times> bytes \<times> bytes option"

definition wrap_targets :: "primitives \<Rightarrow> rotate_params \<Rightarrow> carry_forward_candidate list \<Rightarrow> tombstone_set
    \<Rightarrow> (ident \<Rightarrow> bytes option) \<Rightarrow> wrap_target list" where
  "wrap_targets P params cs ts gsp =
     [(ro_owner_id params, RtUser, enc_pub_bytes (ro_owner params), mlkem_pub_bytes (ro_owner params)),
      (RECOVERY_ID, RtRecovery, ro_recovery_pub params, ro_recovery_mlkem_pub params)] @
     map (\<lambda>c. (cf_recipient_id c, RtUser, cf_recipient_enc_pub c, cf_recipient_mlkem_pub c))
       (filter (eligible P params ts gsp) cs)"

definition target_wrap :: "primitives \<Rightarrow> rotate_params \<Rightarrow> dek \<Rightarrow> wrap_target \<Rightarrow> wrap_out \<Rightarrow> bool" where
  "target_wrap P params d = (\<lambda>(rid, rt, pk, mlkem) w. \<exists>r. wrap_under_suite P r (ro_suite params) (ro_owner params)
     (ro_file_id params) (ro_new_version params) rid rt pk mlkem d (commit P d) (ro_owner_id params)
     (ro_created_at params) = Inr w)"

lemma carry_wraps_targets:
  "carry_wraps P rnd i params d (commit P d) ts gsp cs ws = Inr out \<Longrightarrow>
     \<exists>new. out = ws @ new \<and> list_all2 (target_wrap P params d)
       (map (\<lambda>c. (cf_recipient_id c, RtUser, cf_recipient_enc_pub c, cf_recipient_mlkem_pub c))
         (filter (eligible P params ts gsp) cs)) new"
proof (induction cs arbitrary: i ws)
  case (Cons c cs)
  show ?case
  proof (cases "eligible P params ts gsp c")
    case True
    with Cons.prems obtain w where w: "wrap_under_suite P (rnd i) (ro_suite params) (ro_owner params) (ro_file_id params)
          (ro_new_version params) (cf_recipient_id c) RtUser (cf_recipient_enc_pub c) (cf_recipient_mlkem_pub c)
          d (commit P d) (ro_owner_id params) (ro_created_at params) = Inr w"
      "carry_wraps P rnd (Suc i) params d (commit P d) ts gsp cs (ws @ [w]) = Inr out"
      by (auto simp: eligible_def result_simps)
    from Cons.IH [OF w(2)] obtain new where "out = ws @ w # new" "list_all2 (target_wrap P params d)
       (map (\<lambda>c. (cf_recipient_id c, RtUser, cf_recipient_enc_pub c, cf_recipient_mlkem_pub c))
         (filter (eligible P params ts gsp) cs)) new" by auto
    moreover have "target_wrap P params d (cf_recipient_id c, RtUser, cf_recipient_enc_pub c, cf_recipient_mlkem_pub c) w"
      unfolding target_wrap_def prod.case using w(1) by (rule exI)
    ultimately show ?thesis using True by (intro exI [of _ "w # new"]) simp
  next
    case False
    with Cons show ?thesis by (auto simp: eligible_def split: if_splits)
  qed
qed simp

lemma owner_rotation_wrap_target:
  "owner_rotation_wrap P r params d (commit P d) = Inr w \<Longrightarrow>
     target_wrap P params d (ro_owner_id params, RtUser, enc_pub_bytes (ro_owner params), mlkem_pub_bytes (ro_owner params)) w"
  unfolding owner_rotation_wrap_def target_wrap_def wrap_under_suite_def Let_def
  by (cases "ro_suite params") (auto simp: result_simps simp del: split_paired_Ex intro!: exI [of _ r]
      intro: wrap_and_grant_unchecked)

text \<open>What a built rotation is.\<close>

lemma build_next_version_Inr:
  assumes "build_next_version P random r1 r2 rnd params streams prior cs ts gsp = Inr rb"
  defines "d \<equiv> dek_generate random"
  shows "list_all2 (target_wrap P params d) (wrap_targets P params cs ts gsp) (rb_wraps rb)"
    "commit P prior = ro_prior_dek_commit params"
    "CHUNK_SIZE_MIN \<le> ro_chunk_size params" "ro_chunk_size params \<le> CHUNK_SIZE_MAX"
    "rb_manifest rb = \<lparr>ma_file_id = ro_file_id params, ma_version = ro_new_version params,
      ma_file_type = ro_file_type params, ma_alg = ro_suite params, ma_chunk_size = ro_chunk_size params,
      ma_dek_commit = Bytes32 (commit P d), ma_streams = map (manifest_entry P d (ro_file_id params)
        (ro_new_version params) (ro_chunk_size params)) (plaintext_inputs streams),
      ma_recovery_present = True, ma_author_id = ro_owner_id params, ma_created_at = ro_created_at params\<rparr>"
    "rb_manifest_sig rb = id_sign P (ro_owner params) L_MANIFEST TYPE_MANIFEST put_manifest (rb_manifest rb)"
    "rb_streams rb = map (sealed_entry P d (ro_file_id params) (ro_new_version params) (ro_chunk_size params))
      (plaintext_inputs streams)"
proof -
  from assms(1) show cs: "CHUNK_SIZE_MIN \<le> ro_chunk_size params" "ro_chunk_size params \<le> CHUNK_SIZE_MAX"
    and "commit P prior = ro_prior_dek_commit params"
    by (auto simp: build_next_version_def split: if_splits)
  have "0 < unat (ro_chunk_size params)" using cs by (auto simp: CHUNK_SIZE_MIN_def word_le_nat_alt)
  note seal = seal_inputs_Inr [OF this]
  from assms(1) obtain ow rw where ow: "owner_rotation_wrap P r1 params d (commit P d) = Inr ow"
    and rw: "wrap_under_suite P r2 (ro_suite params) (ro_owner params) (ro_file_id params)
             (ro_new_version params) RECOVERY_ID RtRecovery (ro_recovery_pub params) (ro_recovery_mlkem_pub params)
             d (commit P d) (ro_owner_id params) (ro_created_at params) = Inr rw"
    and cw: "carry_wraps P rnd 0 params d (commit P d) ts gsp cs [ow, rw] = Inr (rb_wraps rb)"
    and "rb_manifest rb = \<lparr>ma_file_id = ro_file_id params, ma_version = ro_new_version params,
      ma_file_type = ro_file_type params, ma_alg = ro_suite params, ma_chunk_size = ro_chunk_size params,
      ma_dek_commit = Bytes32 (commit P d), ma_streams = map (manifest_entry P d (ro_file_id params)
        (ro_new_version params) (ro_chunk_size params)) (plaintext_inputs streams),
      ma_recovery_present = True, ma_author_id = ro_owner_id params, ma_created_at = ro_created_at params\<rparr>"
    "rb_manifest_sig rb = id_sign P (ro_owner params) L_MANIFEST TYPE_MANIFEST put_manifest (rb_manifest rb)"
    "rb_streams rb = map (sealed_entry P d (ro_file_id params) (ro_new_version params) (ro_chunk_size params))
      (plaintext_inputs streams)"
    unfolding build_next_version_def d_def [symmetric] seal_streams_def seal Let_def
    by (auto simp: result_simps guard_Inr simp del: seal_inputs.simps)
  then show "rb_manifest rb = \<lparr>ma_file_id = ro_file_id params, ma_version = ro_new_version params,
      ma_file_type = ro_file_type params, ma_alg = ro_suite params, ma_chunk_size = ro_chunk_size params,
      ma_dek_commit = Bytes32 (commit P d), ma_streams = map (manifest_entry P d (ro_file_id params)
        (ro_new_version params) (ro_chunk_size params)) (plaintext_inputs streams),
      ma_recovery_present = True, ma_author_id = ro_owner_id params, ma_created_at = ro_created_at params\<rparr>"
    "rb_manifest_sig rb = id_sign P (ro_owner params) L_MANIFEST TYPE_MANIFEST put_manifest (rb_manifest rb)"
    "rb_streams rb = map (sealed_entry P d (ro_file_id params) (ro_new_version params) (ro_chunk_size params))
      (plaintext_inputs streams)" by blast+
  have "target_wrap P params d (RECOVERY_ID, RtRecovery, ro_recovery_pub params, ro_recovery_mlkem_pub params) rw"
    unfolding target_wrap_def prod.case using rw by (rule exI)
  with owner_rotation_wrap_target [OF ow] carry_wraps_targets [OF cw]
  show "list_all2 (target_wrap P params d) (wrap_targets P params cs ts gsp) (rb_wraps rb)"
    by (auto simp: wrap_targets_def)
qed

section \<open>Exactly the readers that held the key\<close>

definition holds_prior_key :: "primitives \<Rightarrow> rotate_params \<Rightarrow> (ident \<Rightarrow> bytes option) \<Rightarrow> carry_forward_candidate \<Rightarrow> bool" where
  "holds_prior_key P params gsp c \<longleftrightarrow> (\<exists>leaf idx n. decode_grant (cf_leaf_grant_bytes c) = Inr leaf \<and>
     binds leaf (ro_file_id params) (ro_prior_version params) (Bytes32 (ro_prior_dek_commit params)) \<and>
     gr_recipient_id leaf = cf_recipient_id c \<and>
     index_ancestors (cf_ancestor_grants c) (ro_file_id params) (ro_prior_version params)
       (Bytes32 (ro_prior_dek_commit params)) Map.empty = Inr idx \<and> n \<le> MAX_GRANT_CHAIN_DEPTH \<and>
     rooted P (ro_prior_author_id params) (ro_prior_author_sig_pub params) gsp None idx n leaf (cf_leaf_grant_sig c))"

definition revoked_next :: "tombstone_set \<Rightarrow> rotate_params \<Rightarrow> ident \<Rightarrow> bool" where
  "revoked_next ts params rid \<longleftrightarrow> is_account_revoked ts (id_raw rid) \<or>
     is_revoked ts (id_raw rid) (id_raw (ro_file_id params)) (ro_new_version params)"

lemma candidate_survives_iff:
  "candidate_survives P c params ts gsp \<longleftrightarrow>
     holds_prior_key P params gsp c \<and> \<not> revoked_next ts params (cf_recipient_id c)"
proof (cases "decode_grant (cf_leaf_grant_bytes c)")
  case (Inl e)
  then show ?thesis by (simp add: candidate_survives_def holds_prior_key_def)
next
  case (Inr leaf)
  have ok: "is_ok r \<longleftrightarrow> r = Inr ()" for r :: "download_error + unit" by (cases r) simp_all
  show ?thesis
    unfolding candidate_survives_def holds_prior_key_def revoked_next_def Inr sum.case Let_def ok grant_chain_rooted
    by (auto simp: binds_def)
qed

lemma target_wrap_recipient: "target_wrap P params d x w \<Longrightarrow> wo_recipient_id w = fst x"
  by (auto simp: target_wrap_def wrap_out_of_def build_grant_def Let_def split: prod.splits elim!: wrap_under_suite_shape)

lemma rotation_recipients:
  assumes "build_next_version P random r1 r2 rnd params streams prior cs ts gsp = Inr rb"
  shows "map wo_recipient_id (rb_wraps rb) = map fst (wrap_targets P params cs ts gsp)"
  using build_next_version_Inr(1) [OF assms]
  by (induction rule: list_all2_induct) (simp_all add: target_wrap_recipient)

text \<open>C40: Rotation keeps exactly the entitled readers: a built next version is wrapped to the owner, to the recovery
  account, and to a candidate precisely when the served records prove that he was granted the prior
  version's key along signed edges from its author, with no administrator edge, and no active tombstone
  covers him for the new version; a row the server injected gains nobody access.\<close>

theorem rotation_readers_exact:
  assumes "build_next_version P random r1 r2 rnd params streams prior cs ts gsp = Inr rb"
  shows "rid \<in> wo_recipient_id ` set (rb_wraps rb) \<longleftrightarrow> rid = ro_owner_id params \<or> rid = RECOVERY_ID \<or>
    (\<exists>c \<in> set cs. cf_recipient_id c = rid \<and> holds_prior_key P params gsp c \<and> \<not> revoked_next ts params rid)"
proof -
  have "wo_recipient_id ` set (rb_wraps rb) = fst ` set (wrap_targets P params cs ts gsp)"
    using arg_cong [OF rotation_recipients [OF assms], of set] by simp
  then show ?thesis by (auto simp: wrap_targets_def eligible_def candidate_survives_iff image_iff)
qed

section \<open>The next version opens\<close>

definition rotation_bundle_for :: "rotation_bundle \<Rightarrow> bytes \<Rightarrow> bytes \<Rightarrow> wrap_out \<Rightarrow> download_bundle" where
  "rotation_bundle_for rb genesis_bytes genesis_sig w = \<lparr>db_manifest_bytes = encode TYPE_MANIFEST put_manifest (rb_manifest rb),
     db_manifest_sig = rb_manifest_sig rb, db_genesis_bytes = genesis_bytes, db_genesis_sig = genesis_sig,
     db_wrapped_dek = wo_wrapped_dek w, db_grant_bytes = encode TYPE_GRANT put_grant (wo_grant w),
     db_grant_sig = wo_grant_sig w, db_ancestor_grants = [],
     db_recovery_grant_bytes = encode TYPE_GRANT put_grant (wo_grant (rb_wraps rb ! 1)),
     db_recovery_grant_sig = wo_grant_sig (rb_wraps rb ! 1), db_streams = map served_chunks (rb_streams rb)\<rparr>"

text \<open>The new version opens for everyone it is wrapped to: whoever holds the keys a wrap targets, and has the
  owner's key, the file's genesis and no tombstone or later version against it, opens the rotated version
  to the new plaintext, under either suite.\<close>

theorem rotated_version_opens:
  assumes "build_next_version P random r1 r2 rnd params streams prior cs ts gsp = Inr rb"
    and "primitives_ok P" and "length random = 32" and "ok_id (ro_file_id params)" and "ok_id (ro_owner_id params)"
    and "list_all (\<lambda>(t, b). fits (ro_chunk_size params) b) (plaintext_inputs streams)"
    and "(rid, rt, pk, mlkem) \<in> set (wrap_targets P params cs ts gsp)" and "ok_id rid"
    and "key_pair P (vx_recipient_secret ctx) (vx_recipient_mlkem_seed ctx) pk mlkem"
    and "vx_file_id ctx = ro_file_id params" and "vx_author_sig_pub ctx = sig_pub_bytes P (ro_owner params)"
    and "vx_recipient_id ctx = rid" and "vx_recipient_type ctx = rt"
    and "owner_genesis P ctx gb gs (ro_owner_id params)" and "unrevoked ctx (rb_manifest rb)"
    and "fresh_version (ro_new_version params) (vx_seen_max_version ctx)"
  shows "\<exists>w \<in> set (rb_wraps rb). \<exists>f. wo_recipient_id w = rid \<and>
    verify_and_open P ctx (rotation_bundle_for rb gb gs w) = Inr f \<and> of_version f = ro_new_version params \<and>
    of_streams f = opened_plaintext streams \<and> of_recovery_grant_ok f"
proof -
  let ?d = "dek_generate random" and ?f = "ro_file_id params" and ?v = "ro_new_version params"
  let ?t = "ro_created_at params" and ?oid = "ro_owner_id params"
  note built = build_next_version_Inr [OF assms(1)]
  have d32: "length (dek_raw ?d) = 32" using assms(3) by (simp add: dek_generate_def)
  have aead: "aead_ok P" using assms(2) by (simp add: primitives_ok_def)
  from built(1) assms(7) obtain w where w: "w \<in> set (rb_wraps rb)" "target_wrap P params ?d (rid, rt, pk, mlkem) w"
    unfolding list_all2_conv_all_nth in_set_conv_nth by metis
  from w(2) obtain r where "wrap_under_suite P r (ro_suite params) (ro_owner params) ?f ?v rid rt pk mlkem ?d
      (commit P ?d) ?oid ?t = Inr w" unfolding target_wrap_def prod.case by (rule exE)
  from wrap_under_suite_opens [OF this assms(9) aead d32] obtain wd where
    wd: "w = wrap_out_of P (ro_owner params) ?f ?v rid rt (commit P ?d) ?oid ?t wd"
      "opens_as P (ro_suite params) (vx_recipient_secret ctx) (vx_recipient_mlkem_seed ctx) wd
        \<lparr>wc_file_id = ?f, wc_version = ?v, wc_recipient_id = rid\<rparr> ?d" .
  have "target_wrap P params ?d (wrap_targets P params cs ts gsp ! 1) (rb_wraps rb ! 1)"
    by (rule list_all2_nthD [OF built(1)]) (simp add: wrap_targets_def)
  then obtain wd' where rec: "rb_wraps rb ! 1 = wrap_out_of P (ro_owner params) ?f ?v RECOVERY_ID RtRecovery
      (commit P ?d) ?oid ?t wd'"
    by (auto simp: wrap_targets_def target_wrap_def simp del: split_paired_Ex elim!: wrap_under_suite_shape)
  have rt: "rt = RtRecovery \<Longrightarrow> rid = RECOVERY_ID" using assms(7) by (auto simp: wrap_targets_def)
  have sig: "rb_manifest_sig rb = id_sign P (ro_owner params) L_MANIFEST TYPE_MANIFEST put_manifest (rb_manifest rb)"
    by (rule built(6))
  have streams: "rb_streams rb = map (sealed_entry P ?d ?f ?v (ro_chunk_size params)) (plaintext_inputs streams)"
    by (rule built(7))
  have b: "rotation_bundle_for rb gb gs w = \<lparr>db_manifest_bytes = encode TYPE_MANIFEST put_manifest (rb_manifest rb),
      db_manifest_sig = id_sign P (ro_owner params) L_MANIFEST TYPE_MANIFEST put_manifest (rb_manifest rb),
      db_genesis_bytes = gb, db_genesis_sig = gs, db_wrapped_dek = wo_wrapped_dek w,
      db_grant_bytes = encode TYPE_GRANT put_grant (wo_grant w), db_grant_sig = wo_grant_sig w,
      db_ancestor_grants = [], db_recovery_grant_bytes = encode TYPE_GRANT put_grant (wo_grant (rb_wraps rb ! 1)),
      db_recovery_grant_sig = wo_grant_sig (rb_wraps rb ! 1),
      db_streams = map (served_chunks \<circ> sealed_entry P ?d ?f ?v (ro_chunk_size params)) (plaintext_inputs streams)\<rparr>"
    unfolding rotation_bundle_for_def streams sig by simp
  have "verify_and_open P ctx (rotation_bundle_for rb gb gs w) = Inr \<lparr>of_version = ?v, of_file_type = ro_file_type params,
    of_content_digest = content_digest_of (ma_streams (rb_manifest rb)) (replicate 32 0), of_recovery_grant_ok = True,
    of_streams = opened_plaintext streams\<rparr>"
    by (rule authored_version_opens [OF assms(2) built(5) assms(4,5,8) rt built(3,4) assms(6,10,11,12,13) refl refl
        assms(14,15,16) wd(1) rec wd(2) b])
  moreover have "wo_recipient_id w = rid" using target_wrap_recipient [OF w(2)] by simp
  ultimately show ?thesis using w(1) by (intro bexI [of _ w]) auto
qed

section \<open>A re-shared file opens\<close>

lemma rooted_extend:
  "rooted P a ap gp ad idx n g s \<Longrightarrow> idx k = None \<Longrightarrow> (\<And>admins. ad = Some admins \<Longrightarrow> admins k = None) \<Longrightarrow>
     rooted P a ap (gp(k := pub)) ad (idx(k \<mapsto> x)) n g s"
proof (induction rule: rooted.induct)
  case (author_edge g sig)
  then show ?case by (blast intro: rooted.author_edge)
next
  case (operator_edge g admins pub sig)
  then have "gr_granted_by g \<noteq> k" by auto
  then show ?case using operator_edge.hyps(1,2) by (intro rooted.operator_edge [OF _ _ operator_edge.hyps(3-5)]) auto
next
  case (reshare_edge g g' sig' pub sig n)
  then have "gr_granted_by g \<noteq> k" by auto
  with reshare_edge show ?case by (intro rooted.reshare_edge [of _ _ _ g' sig' _ pub]) auto
qed

lemma index_ancestors_snoc:
  "index_ancestors (as @ [(b, sig)]) f v c idx = rbind (index_ancestors as f v c idx) (\<lambda>idx'.
     index_ancestors [(b, sig)] f v c idx')"
proof (induction as arbitrary: idx)
  case (Cons a as)
  show ?case by (cases a) (simp only: append_Cons index_ancestors.simps Cons.IH rbind_assoc)
qed simp

text \<open>The granter's records serve the new reader: his own grant joins the ancestors.\<close>

definition reshared_bundle :: "download_bundle \<Rightarrow> wrap_out \<Rightarrow> download_bundle" where
  "reshared_bundle b w = b\<lparr>db_wrapped_dek := wo_wrapped_dek w, db_grant_bytes := encode TYPE_GRANT put_grant (wo_grant w),
     db_grant_sig := wo_grant_sig w, db_ancestor_grants := db_ancestor_grants b @ [(db_grant_bytes b, db_grant_sig b)]\<rparr>"

text \<open>The new reader resolves the granter's signing key and otherwise sees the file as the granter does.\<close>

definition reshare_reader :: "primitives \<Rightarrow> verify_context \<Rightarrow> reshare_params \<Rightarrow> bytes \<Rightarrow> bytes option \<Rightarrow> verify_context" where
  "reshare_reader P ctx params secret seed = ctx\<lparr>vx_recipient_id := rp_recipient_id params, vx_recipient_type := RtUser,
     vx_recipient_secret := secret, vx_recipient_mlkem_seed := seed,
     vx_granter_sig_pub := (vx_granter_sig_pub ctx)(rp_granter_id params := Some (sig_pub_bytes P (rp_granter params)))\<rparr>"

text \<open>The parameters a client takes from the version it opened as \<open>m\<close>.\<close>

definition reshare_of :: "verify_context \<Rightarrow> manifest \<Rightarrow> reshare_params \<Rightarrow> bool" where
  "reshare_of ctx m params \<longleftrightarrow> rp_granter_id params = vx_recipient_id ctx \<and> rp_file_id params = vx_file_id ctx \<and>
     rp_version params = ma_version m \<and> rp_dek_commit params = b32_raw (ma_dek_commit m) \<and> rp_suite params = ma_alg m"

text \<open>The granter's own chain leaves room for one more edge, and no other served grant names him.\<close>

definition room_to_reshare :: "primitives \<Rightarrow> verify_context \<Rightarrow> manifest \<Rightarrow> download_bundle \<Rightarrow> bool" where
  "room_to_reshare P ctx m b \<longleftrightarrow> (\<exists>g idx n. decode_grant (db_grant_bytes b) = Inr g \<and>
     index_ancestors (db_ancestor_grants b) (ma_file_id m) (ma_version m) (ma_dek_commit m) Map.empty = Inr idx \<and>
     idx (vx_recipient_id ctx) = None \<and> vx_admin_sig_pub ctx (vx_recipient_id ctx) = None \<and>
     n < MAX_GRANT_CHAIN_DEPTH \<and>
     rooted P (ma_author_id m) (vx_author_sig_pub ctx) (vx_granter_sig_pub ctx) (Some (vx_admin_sig_pub ctx)) idx n g
       (db_grant_sig b))"

lemma reshare_wrap_opens:
  assumes "reshare_wrap P r params d c = Inr wd" and "key_pair P sk seed (rp_recipient_enc_pub params) (rp_recipient_mlkem_pub params)"
    and "aead_ok P" and "length (dek_raw d) = 32"
  shows "opens_as P (rp_suite params) sk seed wd c d"
proof (cases "rp_suite params")
  case SuiteV1
  have "hpke_pair P sk (rp_recipient_enc_pub params)" using assms(2) by (simp add: key_pair_def)
  from wrap_unwrap [OF this assms(4), of "snd r" c] SuiteV1 assms(1) show ?thesis
    by (auto simp: reshare_wrap_def opens_as_def result_simps)
next
  case SuiteV2
  with assms(1) obtain ek where ek: "rp_recipient_mlkem_pub params = Some ek" by (auto simp: reshare_wrap_def result_simps)
  with assms(2) obtain s where s: "seed = Some s"
    "hybrid_pair P (from_components sk s) \<lparr>hp_x25519 = rp_recipient_enc_pub params, hp_mlkem = ek\<rparr>"
    by (auto simp: key_pair_def split: option.splits)
  from wrap_unwrap_hybrid [OF s(2) assms(3,4), of "fst r" "snd r" c] SuiteV2 ek s(1) assms(1) show ?thesis
    by (auto simp: reshare_wrap_def opens_as_def result_simps Let_def)
qed

lemma build_reshare_Inr:
  assumes "build_reshare P r params d ts = Inr w"
  obtains wd where "commit P d = rp_dek_commit params" "rp_recipient_id params \<noteq> RECOVERY_ID"
    "\<not> is_account_revoked ts (id_raw (rp_recipient_id params))"
    "\<not> is_revoked ts (id_raw (rp_recipient_id params)) (id_raw (rp_file_id params)) (rp_version params)"
    "reshare_wrap P r params d \<lparr>wc_file_id = rp_file_id params, wc_version = rp_version params,
       wc_recipient_id = rp_recipient_id params\<rparr> = Inr wd"
    "w = wrap_out_of P (rp_granter params) (rp_file_id params) (rp_version params) (rp_recipient_id params) RtUser
       (rp_dek_commit params) (rp_granter_id params) (rp_created_at params) wd"
  using assms by (auto simp: build_reshare_def result_simps wrap_out_of_def build_grant_def Let_def split: if_splits)

text \<open>C39: Any reader can share: when a client that opened a version re-shares it, the new reader, served the
  granter's records with the granter's own grant among the ancestors, opens the same version to the same
  streams, provided the granter's chain has room for one more edge; and the new reader is neither the
  recovery account nor under an active tombstone.\<close>

theorem reshared_file_opens:
  assumes "primitives_ok P" and "verify_and_open P ctx b = Inr f" and "vx_recipient_type ctx = RtUser"
    and "decode TYPE_MANIFEST put_manifest get_manifest (db_manifest_bytes b) = Inr m"
    and "unwrap_for P ctx m (db_wrapped_dek b) = Inr d" and "length (dek_raw d) = 32"
    and "reshare_of ctx m params" and "build_reshare P r params d ts = Inr w"
    and "rp_granter_id params = ma_author_id m \<Longrightarrow> vx_author_sig_pub ctx = sig_pub_bytes P (rp_granter params)"
    and "key_pair P sk seed (rp_recipient_enc_pub params) (rp_recipient_mlkem_pub params)"
    and "room_to_reshare P ctx m b" and "ok_id (rp_recipient_id params)" and "ok_id (rp_granter_id params)"
    and "unrevoked (reshare_reader P ctx params sk seed) m"
  shows "verify_and_open P (reshare_reader P ctx params sk seed) (reshared_bundle b w) = Inr f \<and>
    rp_recipient_id params \<noteq> RECOVERY_ID \<and> \<not> is_account_revoked ts (id_raw (rp_recipient_id params)) \<and>
    \<not> is_revoked ts (id_raw (rp_recipient_id params)) (id_raw (rp_file_id params)) (rp_version params)"
proof -
  let ?ctx = "reshare_reader P ctx params sk seed" and ?k = "rp_granter_id params"
  note of = assms(7) [unfolded reshare_of_def]
  obtain wd where live: "rp_recipient_id params \<noteq> RECOVERY_ID"
      "\<not> is_account_revoked ts (id_raw (rp_recipient_id params))"
      "\<not> is_revoked ts (id_raw (rp_recipient_id params)) (id_raw (rp_file_id params)) (rp_version params)"
    and wrap: "reshare_wrap P r params d \<lparr>wc_file_id = rp_file_id params, wc_version = rp_version params,
       wc_recipient_id = rp_recipient_id params\<rparr> = Inr wd"
    and w: "w = wrap_out_of P (rp_granter params) (rp_file_id params) (rp_version params) (rp_recipient_id params) RtUser
       (rp_dek_commit params) (rp_granter_id params) (rp_created_at params) wd"
    by (rule build_reshare_Inr [OF assms(8)])
  have aead: "aead_ok P" using assms(1) by (simp add: primitives_ok_def)
  from assms(2) [unfolded verify_and_open_Inr] obtain m' d' where
    sm: "signed_manifest P ctx (db_manifest_bytes b) (db_manifest_sig b) m'"
    and gen: "owner_genesis P ctx (db_genesis_bytes b) (db_genesis_sig b) (ma_author_id m')"
    and fresh: "fresh_version (ma_version m') (vx_seen_max_version ctx)"
    and gr: "granted_read P ctx (db_grant_bytes b) (db_grant_sig b) (db_ancestor_grants b) m'"
    and un: "unwrap_for P ctx m' (db_wrapped_dek b) = Inr d'" and cm: "commit P d' = b32_raw (ma_dek_commit m')"
    and st: "list_all2 (stream_opens P ctx m' d' (db_streams b)) (ma_streams m') (of_streams f)"
    and fs: "of_version f = ma_version m' \<and> of_file_type f = ma_file_type m' \<and>
      of_content_digest f = content_digest_of (ma_streams m') (replicate 32 0) \<and>
      of_recovery_grant_ok f = recovery_grant_valid P (db_recovery_grant_bytes b) (db_recovery_grant_sig b) m'
        (vx_author_sig_pub ctx) (ma_author_id m')" by blast
  from sm assms(4) have "m' = m" by (simp add: signed_manifest_def manifest.decode_iff) (metis Inr_inject manifest.decode_iff assms(4))
  with un assms(5) have md: "m' = m" "d' = d" by simp_all
  have mf: "ma_file_id m = vx_file_id ctx" using sm by (simp add: signed_manifest_def md)
  have sm': "signed_manifest P ?ctx (db_manifest_bytes b) (db_manifest_sig b) m"
    using sm by (simp add: signed_manifest_def reshare_reader_def md)
  have gen': "owner_genesis P ?ctx (db_genesis_bytes b) (db_genesis_sig b) (ma_author_id m)"
    using gen by (simp add: owner_genesis_def reshare_reader_def md genesis_after_compromise_def)
  have fresh': "fresh_version (ma_version m) (vx_seen_max_version ?ctx)" using fresh by (simp add: reshare_reader_def md)
  have "stream_opens P ?ctx m d ss = stream_opens P ctx m d ss" for ss
    by (intro ext) (simp add: stream_opens_def open_declared_def reshare_reader_def Let_def)
  with st have st': "list_all2 (stream_opens P ?ctx m d (db_streams b)) (ma_streams m) (of_streams f)" by (simp add: md)
  have ww: "wo_wrapped_dek w = wd" by (simp add: w wrap_out_of_def build_grant_def Let_def)
  have "opens_as P (ma_alg m) sk seed wd \<lparr>wc_file_id = vx_file_id ctx, wc_version = ma_version m,
      wc_recipient_id = rp_recipient_id params\<rparr> d"
    using reshare_wrap_opens [OF wrap assms(10) aead assms(6)] of by simp
  then have un': "unwrap_for P ?ctx m (wo_wrapped_dek w) = Inr d"
    by (intro unwrap_for_opens) (simp add: ww reshare_reader_def)
  define g where "g = wo_grant w"
  have g: "g = \<lparr>gr_file_id = vx_file_id ctx, gr_file_version = ma_version m, gr_recipient_id = rp_recipient_id params,
      gr_recipient_type = RtUser, gr_dek_commit = ma_dek_commit m, gr_granted_by = ?k, gr_created_at = rp_created_at params\<rparr>"
    "wo_grant_sig w = id_sign P (rp_granter params) L_GRANT TYPE_GRANT put_grant g"
    using of by (simp_all add: g_def w wrap_out_of_def build_grant_def Let_def)
  have signed: "signed_grant P (sig_pub_bytes P (rp_granter params)) g (wo_grant_sig w)"
    by (simp add: signed_grant_def g(2) own_signature [OF assms(1)])
  from assms(11) obtain g0 idx n where room: "decode_grant (db_grant_bytes b) = Inr g0"
    "index_ancestors (db_ancestor_grants b) (ma_file_id m) (ma_version m) (ma_dek_commit m) Map.empty = Inr idx"
    "idx ?k = None" "vx_admin_sig_pub ctx ?k = None" "n < MAX_GRANT_CHAIN_DEPTH"
    "rooted P (ma_author_id m) (vx_author_sig_pub ctx) (vx_granter_sig_pub ctx) (Some (vx_admin_sig_pub ctx)) idx n g0
       (db_grant_sig b)" unfolding room_to_reshare_def using of by auto
  from gr obtain g1 where g1: "decode_grant (db_grant_bytes b) = Inr g1" "gr_file_id g1 = vx_file_id ctx"
    "gr_file_version g1 = ma_version m" "gr_recipient_id g1 = vx_recipient_id ctx" "gr_recipient_type g1 = RtUser"
    "gr_dek_commit g1 = ma_dek_commit m" unfolding granted_read_def md decode_grant_iff assms(3) by blast
  with room(1) have "g1 = g0" by simp
  with g1 of mf have g0: "binds g0 (ma_file_id m) (ma_version m) (ma_dek_commit m)" "gr_recipient_id g0 = ?k"
    by (simp_all add: binds_def)
  then have idx': "index_ancestors (db_ancestor_grants b @ [(db_grant_bytes b, db_grant_sig b)]) (ma_file_id m)
      (ma_version m) (ma_dek_commit m) Map.empty = Inr (idx(?k \<mapsto> (g0, db_grant_sig b)))"
    using room(1,2) by (simp add: index_ancestors_snoc check_ancestor_fields_Inr result_simps)
  have "rooted P (ma_author_id m) (vx_author_sig_pub ctx) (vx_granter_sig_pub ?ctx) (Some (vx_admin_sig_pub ctx))
      (idx(?k \<mapsto> (g0, db_grant_sig b))) (if ?k = ma_author_id m then 0 else Suc n) g (wo_grant_sig w)"
  proof (cases "?k = ma_author_id m")
    case True
    with signed assms(9) show ?thesis by (auto simp: g(1) intro: rooted.author_edge)
  next
    case False
    have "rooted P (ma_author_id m) (vx_author_sig_pub ctx) (vx_granter_sig_pub ?ctx) (Some (vx_admin_sig_pub ctx))
      (idx(?k \<mapsto> (g0, db_grant_sig b))) n g0 (db_grant_sig b)"
      using rooted_extend [OF room(6,3)] room(4) by (simp add: reshare_reader_def)
    with False signed show ?thesis
      by (auto simp: g(1) reshare_reader_def intro!: rooted.reshare_edge)
  qed
  moreover have "(if ?k = ma_author_id m then 0 else Suc n) \<le> MAX_GRANT_CHAIN_DEPTH" using room(5) by simp
  ultimately have chain: "verify_grant_chain P g (wo_grant_sig w) (db_ancestor_grants b @ [(db_grant_bytes b, db_grant_sig b)])
      (ma_file_id m) (ma_version m) (ma_dek_commit m) (ma_author_id m) (vx_author_sig_pub ctx) (vx_granter_sig_pub ?ctx)
      (Some (vx_admin_sig_pub ctx)) = Inr ()"
    unfolding grant_chain_rooted using idx' by blast
  have "ok_grant g" using assms(12,13) sm mf by (auto simp: g(1) ok_grant_def signed_manifest_def ok_manifest_def md)
  with chain have gr': "granted_read P ?ctx (encode TYPE_GRANT put_grant g) (wo_grant_sig w)
      (db_ancestor_grants b @ [(db_grant_bytes b, db_grant_sig b)]) m"
    unfolding granted_read_def by (intro exI [of _ g]) (simp add: g(1) reshare_reader_def)
  have "verify_and_open P ?ctx (reshared_bundle b w) = Inr f"
    unfolding verify_and_open_Inr
    by (rule exI [of _ m], rule exI [of _ d])
      (use sm' gen' fresh' gr' un' st' cm fs assms(14) in \<open>simp add: reshared_bundle_def g_def md, simp add: reshare_reader_def\<close>)
  with live show ?thesis by blast
qed

section \<open>A concrete rotation and re-share\<close>

definition toy_rotate :: rotate_params where
  "toy_rotate = \<lparr>ro_owner = toy_identity, ro_owner_id = uid 1, ro_file_id = uid 7, ro_file_type = FtBlog, ro_new_version = 2,
     ro_chunk_size = 4096, ro_recovery_pub = [], ro_suite = SuiteV1, ro_recovery_mlkem_pub = None,
     ro_created_at = Timestamp 0, ro_prior_version = 1, ro_prior_dek_commit = replicate 32 0,
     ro_prior_author_id = uid 1, ro_prior_author_sig_pub = [1]\<rparr>"

definition toy_candidate :: "byte \<Rightarrow> bytes \<Rightarrow> carry_forward_candidate" where
  "toy_candidate u sig = \<lparr>cf_recipient_id = uid u, cf_recipient_enc_pub = [], cf_recipient_mlkem_pub = None,
     cf_leaf_grant_bytes = encode TYPE_GRANT put_grant (grant_from 1 u), cf_leaf_grant_sig = sig, cf_ancestor_grants = []\<rparr>"

text \<open>User 2 was granted the key by the author; the row of user 3 carries a signature of someone else.\<close>

abbreviation toy_candidates :: "carry_forward_candidate list" where
  "toy_candidates \<equiv> [toy_candidate 2 [1], toy_candidate 3 [3]]"

lemma toy_up_verify [simp]: "verify toy_up_prims pub l t put v sig \<longleftrightarrow> sig = pub"
  by (simp add: verify_def toy_up_prims_def toy_prims_with_def vk_from_bytes_def verify_canonical_def)

lemma toy_survives: "candidate_survives toy_up_prims (toy_candidate u sig) toy_rotate (TombstoneSet []) no_granters \<longleftrightarrow> sig = [1]"
proof -
  have "decode_grant (encode TYPE_GRANT put_grant (grant_from 1 u)) = Inr (grant_from 1 u)" by (simp add: decode_grant_iff)
  then show ?thesis
    by (simp add: candidate_survives_def toy_candidate_def toy_rotate_def grant_from_def verify_grant_chain_def
        chain_walk.simps [of _ _ _ _ _ _ _ "\<lparr>gr_file_id = uid 7, gr_file_version = 1, gr_recipient_id = uid u,
     gr_recipient_type = RtUser, gr_dek_commit = Bytes32 (replicate 32 0), gr_granted_by = uid 1,
     gr_created_at = Timestamp 0\<rparr>"] is_account_revoked_def is_revoked_def revocations_in_def List.map_filter_def)
qed

lemma toy_wraps: "length (dek_raw d) = 32 \<Longrightarrow> self = None \<or> self = Some [] \<Longrightarrow>
   \<exists>w. wrap_and_grant toy_up_prims r signer f v rid rt pk d (commit toy_up_prims d) by_id t self = Inr w"
  using wrap_and_grant_opens [of toy_up_prims "[]" pk d self r signer f v rid rt by_id t] toy_key_pair [of "[]" s pk ek for s ek]
  by (metis key_pair_def)

lemma toy_built: "\<exists>rb. build_next_version toy_up_prims (replicate 32 1) r1 r2 rnd toy_rotate toy_streams
     (Dek (replicate 32 2)) toy_candidates (TombstoneSet []) no_granters = Inr rb"
proof -
  let ?d = "dek_generate (replicate 32 1)" and ?P = toy_up_prims
  have seal: "seal_streams ?P ?d (uid 7) 2 4096 toy_streams = Inr (map (manifest_entry ?P ?d (uid 7) 2 4096) (plaintext_inputs toy_streams),
      map (sealed_entry ?P ?d (uid 7) 2 4096) (plaintext_inputs toy_streams))"
    by (simp add: seal_streams_def seal_inputs_Inr)
  have "length (dek_raw ?d) = 32" by (simp add: dek_generate_def)
  note w = toy_wraps [OF this]
  obtain w1 where w1: "wrap_and_grant ?P r1 toy_identity (uid 7) 2 (uid 1) RtUser [] ?d (commit ?P ?d) (uid 1) (Timestamp 0) (Some []) = Inr w1"
    using w by blast
  obtain w2 where w2: "wrap_and_grant ?P r2 toy_identity (uid 7) 2 RECOVERY_ID RtRecovery [] ?d (commit ?P ?d) (uid 1) (Timestamp 0) None = Inr w2"
    using w by blast
  obtain w3 where w3: "wrap_and_grant ?P (rnd 0) toy_identity (uid 7) 2 (uid 2) RtUser [] ?d (commit ?P ?d) (uid 1) (Timestamp 0) None = Inr w3"
    using w by blast
  have c: "commit ?P (Dek (replicate 32 2)) = replicate 32 0" by (simp add: commit_def toy_up_prims_def toy_prims_with_def)
  have r: "uid u \<noteq> RECOVERY_ID" if "u = 2 \<or> u = 3" for u using that by (auto simp: uid_def RECOVERY_ID_def)
  have ow: "owner_rotation_wrap ?P r1 toy_rotate ?d (commit ?P ?d) = Inr w1"
    using w1 by (simp add: owner_rotation_wrap_def toy_rotate_def toy_identity_def enc_pub_bytes_def enc_secret_def)
  have s: "candidate_survives ?P (toy_candidate 2 [1]) toy_rotate (TombstoneSet []) no_granters"
    "\<not> candidate_survives ?P (toy_candidate 3 [3]) toy_rotate (TombstoneSet []) no_granters" by (simp_all add: toy_survives)
  have cw: "carry_wraps ?P rnd 0 toy_rotate ?d (commit ?P ?d) (TombstoneSet []) no_granters toy_candidates [w1, w2] = Inr [w1, w2, w3]"
    using w3 s r by (simp add: wrap_under_suite_def) (simp add: toy_candidate_def toy_rotate_def)
  show ?thesis
    using ow w2 cw seal c by (simp add: build_next_version_def wrap_under_suite_def Let_def)
      (simp add: toy_rotate_def CHUNK_SIZE_MIN_def CHUNK_SIZE_MAX_def)
qed

lemma toy_holds: "holds_prior_key toy_up_prims toy_rotate no_granters (toy_candidate u sig) \<and>
    \<not> revoked_next (TombstoneSet []) toy_rotate (uid u) \<longleftrightarrow> sig = [1]"
  using toy_survives [of u sig] by (simp add: candidate_survives_iff toy_candidate_def)

theorem rotation_readers_exact_witness:
  "\<exists>rb. build_next_version toy_up_prims (replicate 32 1) ([], []) ([], []) (\<lambda>_. ([], [])) toy_rotate toy_streams
     (Dek (replicate 32 2)) toy_candidates (TombstoneSet []) no_granters = Inr rb \<and>
     uid 2 \<in> wo_recipient_id ` set (rb_wraps rb) \<and> uid 3 \<notin> wo_recipient_id ` set (rb_wraps rb)"
proof -
  obtain rb where rb: "build_next_version toy_up_prims (replicate 32 1) ([], []) ([], []) (\<lambda>_. ([], [])) toy_rotate toy_streams
     (Dek (replicate 32 2)) toy_candidates (TombstoneSet []) no_granters = Inr rb" using toy_built by blast
  have ids: "cf_recipient_id (toy_candidate u sig) = uid u" for u sig by (simp add: toy_candidate_def)
  have "uid 3 \<noteq> RECOVERY_ID" by (simp add: uid_def RECOVERY_ID_def)
  then have "uid 2 \<in> wo_recipient_id ` set (rb_wraps rb)" "uid 3 \<notin> wo_recipient_id ` set (rb_wraps rb)"
    unfolding rotation_readers_exact [OF rb] using toy_holds [of 2 "[1]"] toy_holds [of 3 "[3]"]
    by (auto simp: ids toy_rotate_def [THEN arg_cong, of ro_owner_id])
  with rb show ?thesis by blast
qed

definition toy_file_genesis :: genesis where
  "toy_file_genesis = \<lparr>ge_file_id = uid 7, ge_owner_id = uid 1, ge_owner_key_version = 1, ge_created_at = Timestamp 0\<rparr>"

theorem rotated_version_opens_witness:
  "\<exists>rb w f. w \<in> set (rb_wraps rb) \<and> wo_recipient_id w = uid 2 \<and>
     verify_and_open toy_up_prims (toy_reader (uid 2) RtUser None)
       (rotation_bundle_for rb (encode TYPE_GENESIS put_genesis toy_file_genesis) [1] w) = Inr f \<and> of_version f = 2"
proof -
  obtain rb where rb: "build_next_version toy_up_prims (replicate 32 1) ([], []) ([], []) (\<lambda>_. ([], [])) toy_rotate toy_streams
     (Dek (replicate 32 2)) toy_candidates (TombstoneSet []) no_granters = Inr rb" using toy_built by blast
  have gen: "owner_genesis toy_up_prims (toy_reader (uid 2) RtUser None) (encode TYPE_GENESIS put_genesis toy_file_genesis) [1]
      (ro_owner_id toy_rotate)"
    unfolding owner_genesis_def by (intro exI [of _ toy_file_genesis])
      (simp add: toy_file_genesis_def toy_reader_def toy_rotate_def ok_genesis_def genesis_after_compromise_def)
  have target: "(uid 2, RtUser, [], None) \<in> set (wrap_targets toy_up_prims toy_rotate toy_candidates (TombstoneSet []) no_granters)"
    using toy_survives [of 2 "[1]"]
    by (simp add: wrap_targets_def eligible_def) (simp add: toy_candidate_def toy_rotate_def uid_def RECOVERY_ID_def)
  have "\<exists>w \<in> set (rb_wraps rb). \<exists>f. wo_recipient_id w = uid 2 \<and> verify_and_open toy_up_prims (toy_reader (uid 2) RtUser None)
      (rotation_bundle_for rb (encode TYPE_GENESIS put_genesis toy_file_genesis) [1] w) = Inr f \<and>
      of_version f = ro_new_version toy_rotate \<and> of_streams f = opened_plaintext toy_streams \<and> of_recovery_grant_ok f"
    by (rule rotated_version_opens [OF rb toy_primitives_ok(1) _ _ _ _ target _ _ _ _ _ _ gen])
      (simp_all add: toy_rotate_def toy_reader_def toy_streams_def plaintext_inputs_def present_def toy_small_stream
        key_pair_def hpke_pair_def toy_up_prims_def toy_prims_with_def unrevoked_def fresh_version_def
        FIRST_CONTACT_VERSION_CEILING_def sig_pub_bytes_def toy_identity_def)
  moreover have "ro_new_version toy_rotate = 2" by (simp add: toy_rotate_def)
  ultimately show ?thesis by auto
qed

definition toy_reshare :: reshare_params where
  "toy_reshare = \<lparr>rp_granter = toy_identity, rp_granter_id = uid 1, rp_file_id = uid 7, rp_version = 1,
     rp_dek_commit = replicate 32 0, rp_recipient_id = uid 2, rp_recipient_enc_pub = [], rp_suite = SuiteV2,
     rp_recipient_mlkem_pub = Some [5], rp_created_at = Timestamp 0\<rparr>"

lemma toy_reshared: "\<exists>w. build_reshare toy_up_prims r toy_reshare (Dek (replicate 32 1)) (TombstoneSet []) = Inr w"
proof -
  let ?d = "Dek (replicate 32 1)"
  have "hybrid_pair toy_up_prims (from_components [] [5]) \<lparr>hp_x25519 = [], hp_mlkem = [5]\<rparr>"
    using toy_key_pair [of "[]" "[5]" "[]" "[5]"] by (simp add: key_pair_def)
  from wrap_unwrap_hybrid [OF this toy_primitives_ok(2), of ?d "fst r" "snd r" "\<lparr>wc_file_id = uid 7, wc_version = 1, wc_recipient_id = uid 2\<rparr>"]
  obtain h where "wrap_dek_hybrid toy_up_prims (fst r) (snd r) \<lparr>hp_x25519 = [], hp_mlkem = [5]\<rparr> ?d
      \<lparr>wc_file_id = uid 7, wc_version = 1, wc_recipient_id = uid 2\<rparr> = Inr h" by auto
  then show ?thesis
    by (simp add: build_reshare_def reshare_wrap_def toy_reshare_def uid_def RECOVERY_ID_def is_account_revoked_def
        is_revoked_def revocations_in_def List.map_filter_def Let_def)
      (simp add: commit_def toy_up_prims_def toy_prims_with_def)
qed

theorem reshared_file_opens_witness:
  "\<exists>b w f. verify_and_open toy_up_prims (toy_reader (uid 1) RtUser (Some [5])) b = Inr f \<and>
     build_reshare toy_up_prims ([], []) toy_reshare (Dek (replicate 32 1)) (TombstoneSet []) = Inr w \<and>
     verify_and_open toy_up_prims (reshare_reader toy_up_prims (toy_reader (uid 1) RtUser (Some [5])) toy_reshare [] (Some [5]))
       (reshared_bundle b w) = Inr f"
proof -
  let ?P = toy_up_prims and ?d = "Dek (replicate 32 1)" and ?ctx = "toy_reader (uid 1) RtUser (Some [5])"
  have fields: "up_owner_id toy_params = uid 1" "enc_secret (up_owner toy_params) = []"
    "mlkem_seed_of (up_owner toy_params) = Some [5]" "up_recovery_mlkem_pub toy_params = Some [6]"
    "up_file_id toy_params = uid 7" "up_owner toy_params = toy_identity" "up_created_at toy_params = Timestamp 0"
    "mlkem_pub_bytes toy_identity = Some [5]"
    by (simp_all add: toy_params_def toy_identity_def enc_secret_def mlkem_seed_of_def mlkem_pub_bytes_def)
  obtain m ms ge gs w1 w2 ws wr ub where asm: "assemble_records ?P ([], []) ([], []) ?d (commit ?P ?d) toy_params
      (map (manifest_entry ?P ?d (up_file_id toy_params) 1 (up_chunk_size toy_params)) (plaintext_inputs toy_streams)) =
      Inr (m, ms, ge, gs, [ws, wr])"
    and ub: "ub = \<lparr>ub_file_id = up_file_id toy_params, ub_file_type = up_file_type toy_params, ub_genesis = ge, ub_genesis_sig = gs,
      ub_manifest = m, ub_manifest_sig = ms, ub_streams = map (sealed_entry ?P ?d (up_file_id toy_params) 1
        (up_chunk_size toy_params)) (plaintext_inputs toy_streams), ub_wraps = [ws, wr]\<rparr>"
    and ws: "ws = wrap_out_of ?P (up_owner toy_params) (up_file_id toy_params) 1 (up_owner_id toy_params) RtUser
      (commit ?P ?d) (up_owner_id toy_params) (up_created_at toy_params) w1"
    and wr: "wr = wrap_out_of ?P (up_owner toy_params) (up_file_id toy_params) 1 RECOVERY_ID RtRecovery
      (commit ?P ?d) (up_owner_id toy_params) (up_created_at toy_params) w2"
    and opens: "opens_as ?P (ma_alg m) (enc_secret (up_owner toy_params)) (mlkem_seed_of (up_owner toy_params)) w1
      \<lparr>wc_file_id = up_file_id toy_params, wc_version = 1, wc_recipient_id = up_owner_id toy_params\<rparr> ?d"
    by (rule upload_builds [OF toy_primitives_ok(1) toy_upload_ok toy_key_pair [of "[]" "[6]" "up_recovery_pub toy_params" "[6]",
        folded fields(4)] refl refl refl refl refl, of "([], [])" "([], [])"])
  let ?b = "bundle_for ub ws wr"
  obtain f where f: "verify_and_open ?P ?ctx ?b = Inr f"
  proof -
    have rd: "reader_of ?P toy_params (up_owner_id toy_params) RtUser [] (Some [5]) ?ctx"
      using toy_reader_of [of "up_owner_id toy_params" RtUser "Some [5]"] by (simp add: fields)
    show thesis
      by (rule built_wrap_opens [OF toy_primitives_ok(1) toy_upload_ok rd asm ws wr opens [unfolded fields(2,3)] _ _ _ _ _ _ _ that])
        (simp_all add: ub fields)
  qed
  from asm have m: "ma_file_id m = uid 7" "ma_version m = 1" "ma_alg m = SuiteV2" "ma_author_id m = uid 1"
    "ma_dek_commit m = Bytes32 (commit ?P ?d)"
    by (auto simp: assemble_records_def result_simps FIRST_VERSION_def fields opt_zip_def Let_def)
  have c: "commit ?P ?d = replicate 32 0" by (simp add: commit_def toy_up_prims_def toy_prims_with_def)
  from asm have "ma_streams m = map (manifest_entry ?P ?d (up_file_id toy_params) 1 (up_chunk_size toy_params))
      (plaintext_inputs toy_streams)" by (auto simp: assemble_records_def result_simps Let_def)
  then have "ok_manifest m" by (intro authored_manifest_ok [OF toy_primitives_ok(1) m(5)]) (simp_all add: m)
  then have dec: "decode TYPE_MANIFEST put_manifest get_manifest (db_manifest_bytes ?b) = Inr m"
    by (simp add: manifest.decode_iff bundle_for_def ub)
  have wd: "db_wrapped_dek ?b = w1" by (simp add: bundle_for_def ws wrap_out_of_def build_grant_def Let_def)
  have un: "unwrap_for ?P ?ctx m (db_wrapped_dek ?b) = Inr ?d"
    unfolding wd by (rule unwrap_for_opens) (use opens [unfolded fields(2,3)] in \<open>simp add: fields toy_reader_def m(2)\<close>)
  define g where "g = wo_grant ws"
  have g: "g = \<lparr>gr_file_id = uid 7, gr_file_version = 1, gr_recipient_id = uid 1, gr_recipient_type = RtUser,
      gr_dek_commit = Bytes32 (replicate 32 0), gr_granted_by = uid 1, gr_created_at = Timestamp 0\<rparr>" "wo_grant_sig ws = [1]"
    by (simp_all add: g_def ws wrap_out_of_def build_grant_def fields c Let_def)
      (simp add: id_sign_def sign_canonical_def toy_identity_def toy_up_prims_def toy_prims_with_def)
  have "rooted ?P (uid 1) (vx_author_sig_pub ?ctx) (vx_granter_sig_pub ?ctx) (Some (vx_admin_sig_pub ?ctx)) Map.empty 0 g [1]"
    by (rule rooted.author_edge) (simp_all add: g signed_grant_def toy_reader_def)
  moreover have "decode_grant (db_grant_bytes ?b) = Inr g" "db_grant_sig ?b = [1]" "db_ancestor_grants ?b = []"
    by (simp_all add: bundle_for_def g_def [symmetric] decode_grant_iff g ok_grant_def ok_b32_def)
  ultimately have room: "room_to_reshare ?P ?ctx m ?b"
    unfolding room_to_reshare_def
    by (intro exI [of _ g] exI [of _ Map.empty] exI [of _ 0])
      (simp add: m toy_reader_def no_granters_def MAX_GRANT_CHAIN_DEPTH_def)
  obtain w where w: "build_reshare ?P ([], []) toy_reshare ?d (TombstoneSet []) = Inr w" using toy_reshared by blast
  have "verify_and_open ?P (reshare_reader ?P ?ctx toy_reshare [] (Some [5])) (reshared_bundle ?b w) = Inr f"
  proof (rule conjunct1, rule reshared_file_opens [OF toy_primitives_ok(1) f _ dec un _ _ w _ _ room])
    show "reshare_of ?ctx m toy_reshare" by (simp add: reshare_of_def toy_reader_def toy_reshare_def m c)
    show "key_pair ?P [] (Some [5]) (rp_recipient_enc_pub toy_reshare) (rp_recipient_mlkem_pub toy_reshare)"
      using toy_key_pair by (simp add: toy_reshare_def)
    show "vx_author_sig_pub ?ctx = sig_pub_bytes ?P (rp_granter toy_reshare)"
      by (simp add: toy_reader_def toy_reshare_def sig_pub_bytes_def toy_identity_def toy_up_prims_def toy_prims_with_def)
  qed (simp_all add: toy_reader_def toy_reshare_def unrevoked_def reshare_reader_def)
  with f w show ?thesis by blast
qed

end
