(* ===== verification/Detection.thy ===== *)
theory Detection
  imports Prelude "HOL-Library.AList" "HOL-Library.List_Lexorder"
begin

text \<open>
  \<^verbatim>\<open>crates/server/src/detect.rs\<close>: the anomaly rules over the audit events, and the in-memory audit and alert
  sinks of \<^verbatim>\<open>audit.rs\<close> and \<^verbatim>\<open>detect.rs\<close>. Additions are checked, so a rule that slides a window returns an
  option, \<open>None\<close> being the overflow panic. The map from granters to times is an association list in order
  of first occurrence; the code sorts the granters it reports.
\<close>

section \<open>Audit sink\<close>

datatype grant_action = GaAuthor | GaReshare | GaSoftRevoke

record grant_edge =
  ge_edge_file_id :: bytes
  ge_edge_granted_by :: bytes
  ge_edge_recipient_id :: bytes
  ge_edge_action :: grant_action
  ge_edge_at_ms :: u64

record sink_state =
  sk_edges :: "grant_edge list"
  sk_next_pos :: u64
  sk_head :: "(u64 \<times> bytes) option"
  sk_control_pos :: "u64 list"
  sk_genesis_pos :: "bytes \<rightharpoonup> u64"
  sk_dir_bindings :: "bytes list"

definition audit_new :: sink_state where
  "audit_new = \<lparr>sk_edges = [], sk_next_pos = 0, sk_head = None, sk_control_pos = [], sk_genesis_pos = Map.empty,
     sk_dir_bindings = []\<rparr>"

definition record_grant_edge :: "grant_edge \<Rightarrow> sink_state \<Rightarrow> sink_state" where
  "record_grant_edge edge st = st\<lparr>sk_edges := sk_edges st @ [edge]\<rparr>"

definition publish_control_record :: "(bytes \<Rightarrow> bytes) \<Rightarrow> bytes \<Rightarrow> sink_state \<Rightarrow> sink_state option" where
  "publish_control_record sha record_bytes st =
     (let head = sha record_bytes; pos = sk_next_pos st in
      Option.bind (checked_add (sk_next_pos st) 1) (\<lambda>next.
      let st = st\<lparr>sk_next_pos := next\<rparr>;
          st = st\<lparr>sk_control_pos := sk_control_pos st @ [pos]\<rparr>;
          chain_seq = word_of_nat (length (sk_control_pos st))
      in Some (st\<lparr>sk_head := Some (chain_seq, head)\<rparr>)))"

definition audit_anchor_genesis :: "bytes \<Rightarrow> sink_state \<Rightarrow> sink_state option" where
  "audit_anchor_genesis file_id st =
     (let pos = sk_next_pos st in
      Option.bind (checked_add (sk_next_pos st) 1) (\<lambda>next.
      let st = st\<lparr>sk_next_pos := next\<rparr> in Some (st\<lparr>sk_genesis_pos := (sk_genesis_pos st)(file_id \<mapsto> pos)\<rparr>)))"

definition publish_dir_binding :: "bytes \<Rightarrow> sink_state \<Rightarrow> sink_state" where
  "publish_dir_binding binding_bytes st = st\<lparr>sk_dir_bindings := sk_dir_bindings st @ [binding_bytes]\<rparr>"

definition audit_control_pos :: "u64 \<Rightarrow> sink_state \<Rightarrow> u64 option" where
  "audit_control_pos chain_seq st =
     (if chain_seq = 0 then None
      else let i = unat (chain_seq - 1) in
        if i < length (sk_control_pos st) then Some (sk_control_pos st ! i) else None)"

definition audit_genesis_pos :: "bytes \<Rightarrow> sink_state \<Rightarrow> u64 option" where
  "audit_genesis_pos file_id st = sk_genesis_pos st file_id"

section \<open>Events and alerts\<close>

datatype detect_event = AuthDenied (ad_user_id: bytes) (ad_at_ms: u64)
  | EvGrant (eg_granted_by: bytes) (eg_recipient_id: bytes) (eg_action: grant_action) (eg_file_id: bytes) (eg_at_ms: u64)
  | UserRevoked bytes u64
  | TombstoneGapReported bytes u64
  | VersionFinalized bytes u64 bool u64
  | DirectoryBindingChanged bytes u64 u64

datatype alert = AuthFailureSpike u64 u64
  | HighReshareFanout bytes u64 u64
  | GrantBySoonRevoked bytes bytes bytes
  | TombstoneGap bytes
  | MissingRecoveryGrant bytes u64
  | DirectoryChangeOffCeremony bytes u64

record thresholds =
  th_auth_failures_per_window :: u64
  th_auth_window_ms :: u64
  th_reshare_fanout_per_window :: u64
  th_reshare_window_ms :: u64
  th_soon_revoked_window_ms :: u64
  th_ceremony_windows :: "(u64 \<times> u64) list"

definition thresholds_default :: thresholds where
  "thresholds_default = \<lparr>th_auth_failures_per_window = 20, th_auth_window_ms = 60000,
     th_reshare_fanout_per_window = 10, th_reshare_window_ms = 3600000, th_soon_revoked_window_ms = 86400000,
     th_ceremony_windows = []\<rparr>"

section \<open>Sliding windows\<close>

text \<open>The inner \<open>while\<close>, evaluating the sum only while \<open>right\<close> is in range.\<close>

function advance :: "u64 list \<Rightarrow> u64 \<Rightarrow> nat \<Rightarrow> nat \<Rightarrow> nat option" where
  "advance ts window left right =
     (if right < length ts then
        (case checked_add (ts ! left) window of
           None \<Rightarrow> None
         | Some bound \<Rightarrow> if ts ! right < bound then advance ts window left (right + 1) else Some right)
      else Some right)"
  by pat_completeness auto
termination by (relation "measure (\<lambda>(ts, _, _, right). length ts - right)") auto

declare advance.simps [simp del]

text \<open>The loop over \<open>left\<close>, the same in both sliding rules.\<close>

fun window_loop :: "u64 list \<Rightarrow> u64 \<Rightarrow> nat list \<Rightarrow> nat \<Rightarrow> u64 \<Rightarrow> u64 option" where
  "window_loop ts window [] right peak = Some peak"
| "window_loop ts window (left # lefts) right peak =
     (let right = (if right < left then left else right) in
      Option.bind (advance ts window left right) (\<lambda>right.
      window_loop ts window lefts right (max peak (word_of_nat (right - left)))))"

definition window_peak :: "u64 list \<Rightarrow> u64 \<Rightarrow> u64 option" where
  "window_peak ts window = window_loop ts window [0..<length ts] 0 0"

section \<open>The rules\<close>

definition auth_failure_spike :: "detect_event list \<Rightarrow> thresholds \<Rightarrow> alert list option" where
  "auth_failure_spike events t =
     (let ts = sort (List.map_filter (\<lambda>e. case e of AuthDenied _ at_ms \<Rightarrow> Some at_ms | _ \<Rightarrow> None) events) in
      Option.bind (window_peak ts (th_auth_window_ms t)) (\<lambda>peak.
      Some (if th_auth_failures_per_window t < peak then [AuthFailureSpike peak (th_auth_window_ms t)] else [])))"

text \<open>\<open>entry(g).or_default().push(at)\<close> over the re-share grants.\<close>

fun push_reshare :: "detect_event \<Rightarrow> (bytes \<times> u64 list) list \<Rightarrow> (bytes \<times> u64 list) list" where
  "push_reshare (EvGrant granted_by _ GaReshare _ at_ms) by_granter =
     AList.update granted_by
       ((case map_of by_granter granted_by of None \<Rightarrow> [] | Some ts \<Rightarrow> ts) @ [at_ms]) by_granter"
| "push_reshare _ by_granter = by_granter"

fun fanout_hits :: "thresholds \<Rightarrow> (bytes \<times> u64 list) list \<Rightarrow> (bytes \<times> u64) list option" where
  "fanout_hits t [] = Some []"
| "fanout_hits t ((granter, ts) # rest) =
     Option.bind (window_peak (sort ts) (th_reshare_window_ms t)) (\<lambda>peak.
     Option.bind (fanout_hits t rest) (\<lambda>hits.
     Some (if th_reshare_fanout_per_window t < peak then (granter, peak) # hits else hits)))"

definition high_reshare_fanout :: "detect_event list \<Rightarrow> thresholds \<Rightarrow> alert list option" where
  "high_reshare_fanout events t =
     (let by_granter = fold push_reshare events [] in
      map_option (\<lambda>hits. map (\<lambda>(granted_by, count). HighReshareFanout granted_by count (th_reshare_window_ms t))
        (sort_key fst hits)) (fanout_hits t by_granter))"

fun note_revoked :: "detect_event \<Rightarrow> (bytes \<rightharpoonup> u64) \<Rightarrow> (bytes \<rightharpoonup> u64)" where
  "note_revoked (UserRevoked user_id at_ms) revoked_at =
     revoked_at(user_id \<mapsto> (case revoked_at user_id of None \<Rightarrow> at_ms | Some t \<Rightarrow> min t at_ms))"
| "note_revoked _ revoked_at = revoked_at"

definition soon_revoked_alert :: "(bytes \<rightharpoonup> u64) \<Rightarrow> thresholds \<Rightarrow> detect_event \<Rightarrow> alert option" where
  "soon_revoked_alert revoked_at t e =
     (case e of
        EvGrant granted_by recipient_id action file_id at_ms \<Rightarrow>
          if action = GaSoftRevoke then None
          else (case revoked_at granted_by of
              None \<Rightarrow> None
            | Some revoked \<Rightarrow>
                if at_ms \<le> revoked \<and> revoked - at_ms \<le> th_soon_revoked_window_ms t
                then Some (GrantBySoonRevoked granted_by recipient_id file_id) else None)
      | _ \<Rightarrow> None)"

definition grant_by_soon_revoked :: "detect_event list \<Rightarrow> thresholds \<Rightarrow> alert list" where
  "grant_by_soon_revoked events t =
     (let revoked_at = fold note_revoked events Map.empty
      in List.map_filter (soon_revoked_alert revoked_at t) events)"

definition tombstone_gaps :: "detect_event list \<Rightarrow> alert list" where
  "tombstone_gaps events = List.map_filter (\<lambda>e. case e of
     TombstoneGapReported reported_by _ \<Rightarrow> Some (TombstoneGap reported_by) | _ \<Rightarrow> None) events"

definition missing_recovery_grants :: "detect_event list \<Rightarrow> alert list" where
  "missing_recovery_grants events = List.map_filter (\<lambda>e. case e of
     VersionFinalized file_id version recovery_present _ \<Rightarrow>
       if recovery_present then None else Some (MissingRecoveryGrant file_id version)
   | _ \<Rightarrow> None) events"

definition directory_off_ceremony :: "detect_event list \<Rightarrow> thresholds \<Rightarrow> alert list" where
  "directory_off_ceremony events t = List.map_filter (\<lambda>e. case e of
     DirectoryBindingChanged user_id _ at_ms \<Rightarrow>
       (let in_window = list_ex (\<lambda>(start, end_ms). start \<le> at_ms \<and> at_ms \<le> end_ms) (th_ceremony_windows t)
        in if in_window then None else Some (DirectoryChangeOffCeremony user_id at_ms))
   | _ \<Rightarrow> None) events"

definition analyze :: "detect_event list \<Rightarrow> thresholds \<Rightarrow> alert list option" where
  "analyze events t =
     Option.bind (auth_failure_spike events t) (\<lambda>a.
     Option.bind (high_reshare_fanout events t) (\<lambda>b.
     Some (a @ b @ grant_by_soon_revoked events t @ tombstone_gaps events @ missing_recovery_grants events @
       directory_off_ceremony events t)))"

section \<open>The sliding window is the densest window\<close>

text \<open>How many of the times lie in \<open>[s, s + window)\<close>.\<close>

definition within :: "u64 list \<Rightarrow> u64 \<Rightarrow> nat \<Rightarrow> nat" where
  "within ts window s = length (filter (\<lambda>t. s \<le> unat t \<and> unat t < s + unat window) ts)"

text \<open>How many of them lie before \<open>b\<close>; in a sorted list they are a prefix.\<close>

definition before :: "u64 list \<Rightarrow> nat \<Rightarrow> nat" where
  "before ts b = length (filter (\<lambda>t. unat t < b) ts)"

lemma before_le: "before ts b \<le> length ts"
  by (simp add: before_def)

lemma sorted_before:
  assumes "sorted ts" and "i < length ts"
  shows "unat (ts ! i) < b \<longleftrightarrow> i < before ts b"
  using assms
proof (induction ts arbitrary: i)
  case (Cons t ts)
  show ?case
  proof (cases "unat t < b")
    case True
    with Cons show ?thesis by (cases i) (simp_all add: before_def)
  next
    case False
    then have "\<forall>x \<in> set (t # ts). \<not> unat x < b" using Cons.prems(1) by (auto simp: word_le_nat_alt)
    then have "before (t # ts) b = 0" unfolding before_def by (simp add: filter_empty_conv)
    with \<open>\<forall>x \<in> set (t # ts). \<not> unat x < b\<close> nth_mem [OF Cons.prems(2)] show ?thesis by auto
  qed
qed simp

lemma advance_before:
  assumes "sorted ts" and "left < length ts" and "unat (ts ! left) + unat window < 2 ^ 64"
    and "right \<le> before ts (unat (ts ! left) + unat window)"
  shows "advance ts window left right = Some (before ts (unat (ts ! left) + unat window))"
  using assms(4)
proof (induction "length ts - right" arbitrary: right)
  case 0
  then have "right = length ts" "before ts (unat (ts ! left) + unat window) = length ts"
    using before_le [of ts "unat (ts ! left) + unat window"] by linarith+
  then show ?case by (simp add: advance.simps)
next
  case (Suc k)
  let ?b = "unat (ts ! left) + unat window"
  have r: "right < length ts" using Suc.hyps(2) by simp
  have add: "checked_add (ts ! left) window = Some (ts ! left + window)" "unat (ts ! left + window) = ?b"
    using assms(3) by (simp_all add: checked_add_def unat_word_ariths)
  have lt: "ts ! right < ts ! left + window \<longleftrightarrow> right < before ts ?b"
    using sorted_before [OF assms(1) r, of ?b] add(2) by (simp add: word_less_nat_alt)
  show ?case
  proof (cases "right < before ts ?b")
    case True
    with Suc r add lt show ?thesis by (subst advance.simps) simp
  next
    case False
    with Suc.prems have "right = before ts ?b" by simp
    with False r add lt show ?thesis by (subst advance.simps) simp
  qed
qed

text \<open>What the window at \<open>left\<close> counts.\<close>

definition run_at :: "u64 list \<Rightarrow> u64 \<Rightarrow> nat \<Rightarrow> nat" where
  "run_at ts window left = before ts (unat (ts ! left) + unat window) - left"

lemma before_mono: "b \<le> c \<Longrightarrow> before ts b \<le> before ts c"
  unfolding before_def by (induction ts) auto

lemma window_loop_peak:
  assumes "sorted ts" and "\<forall>t \<in> set ts. unat t + unat window < 2 ^ 64" and "length ts < 2 ^ 64"
  shows "lefts = [k..<length ts] \<Longrightarrow> (k < length ts \<Longrightarrow> right \<le> max k (before ts (unat (ts ! k) + unat window))) \<Longrightarrow>
    window_loop ts window lefts right peak =
      Some (fold (\<lambda>left p. max p (word_of_nat (run_at ts window left))) lefts peak)"
proof (induction lefts arbitrary: k right peak)
  case (Cons left lefts)
  note c = Cons.prems(1) [symmetric, unfolded upt_eq_Cons_conv]
  note k = conjunct1 [OF c] conjunct1 [OF conjunct2 [OF c], symmetric]
    conjunct2 [OF conjunct2 [OF c], symmetric, unfolded Suc_eq_plus1 [symmetric]]
  let ?b = "unat (ts ! k) + unat window"
  have ov: "?b < 2 ^ 64" using assms(2) k(1) by simp
  show ?case
  proof (cases "k \<le> before ts ?b")
    case True
    have "(if right < k then k else right) \<le> before ts ?b" using Cons.prems(2) [OF k(1)] True by simp
    from advance_before [OF assms(1) k(1) ov this]
    have adv: "advance ts window k (if right < k then k else right) = Some (before ts ?b)" .
    have "before ts ?b \<le> max (Suc k) (before ts (unat (ts ! Suc k) + unat window))" if "Suc k < length ts"
      using that assms(1) sorted_nth_mono [OF assms(1), of k "Suc k"]
      by (intro le_trans [OF before_mono max.cobounded2]) (simp add: word_le_nat_alt)
    from Cons.IH [OF k(3) this, of "max peak (word_of_nat (run_at ts window k))"] adv k show ?thesis
      by (simp add: run_at_def)
  next
    case False
    then have w0: "window = 0" using sorted_before [OF assms(1) k(1), of ?b] by (simp add: unat_eq_0 [symmetric])
    have r: "(if right < k then k else right) = k" using Cons.prems(2) [OF k(1)] False by auto
    have "advance ts window k k = Some k"
      using k(1) ov by (simp add: advance.simps [of ts 0 k k] checked_add_def w0)
    moreover have "k \<le> max (Suc k) (before ts (unat (ts ! Suc k) + unat window))" by simp
    ultimately show ?thesis
      using Cons.IH [OF k(3), of k "max peak (word_of_nat (run_at ts window k))"] k r False by (simp add: run_at_def)
  qed
qed simp

end
