(* ===== verification/Detection_Laws.thy ===== *)
theory Detection_Laws
  imports Detection
begin

text \<open>
  What the anomaly rules of \<^verbatim>\<open>crates/server/src/detect.rs\<close> report: the two sliding rules against the definition
  of a dense window, and the rule for soon-revoked granters against its documentation.
\<close>

section \<open>Counting in a window\<close>

lemma within_before: "within ts window s + before ts s = before ts (s + unat window)"
  unfolding within_def before_def by (induction ts) auto

lemma within_sort: "within (sort ts) window s = within ts window s"
  by (simp add: within_def filter_sort)

definition densest :: "u64 list \<Rightarrow> u64 \<Rightarrow> nat \<Rightarrow> bool" where
  "densest ts window c \<longleftrightarrow> (\<forall>s. within ts window s \<le> c) \<and> (\<exists>s. within ts window s = c)"

lemma densest_unique: "densest ts window c \<Longrightarrow> densest ts window d \<Longrightarrow> c = d"
  unfolding densest_def by (metis le_antisym)

lemma densest_sort: "densest (sort ts) window c = densest ts window c"
  by (simp add: densest_def within_sort)

lemma run_at_within:
  assumes "sorted ts" and "left < length ts"
  shows "run_at ts window left \<le> within ts window (unat (ts ! left))"
proof -
  have "before ts (unat (ts ! left)) \<le> left"
    using sorted_before [OF assms, of "unat (ts ! left)"] by simp
  with within_before [of ts window "unat (ts ! left)"] show ?thesis by (simp add: run_at_def)
qed

lemma within_run_at:
  assumes "sorted ts" and "0 < within ts window s"
  shows "before ts s < length ts \<and> within ts window s \<le> run_at ts window (before ts s)"
proof
  from within_before [of ts window s] assms(2) before_le [of ts "s + unat window"]
  show lt: "before ts s < length ts" by linarith
  have "\<not> unat (ts ! before ts s) < s" using sorted_before [OF assms(1) lt, of s] by simp
  then have "before ts (s + unat window) \<le> before ts (unat (ts ! before ts s) + unat window)"
    by (intro before_mono) simp
  with within_before [of ts window s] show "within ts window s \<le> run_at ts window (before ts s)"
    by (simp add: run_at_def)
qed

lemma fold_max:
  fixes f :: "'a \<Rightarrow> u64"
  defines "r xs p \<equiv> fold (\<lambda>x p. max p (f x)) xs p"
  shows "p \<le> r xs p \<and> (\<forall>x \<in> set xs. f x \<le> r xs p) \<and> (r xs p = p \<or> (\<exists>x \<in> set xs. r xs p = f x))"
  unfolding r_def
proof (induction xs arbitrary: p)
  case (Cons x xs)
  from Cons [of "max p (f x)"] show ?case by (auto simp: max_def split: if_splits)
qed simp

definition no_overflow :: "u64 list \<Rightarrow> u64 \<Rightarrow> bool" where
  "no_overflow ts window \<longleftrightarrow> length ts < 2 ^ 64 \<and> (\<forall>t \<in> set ts. unat t + unat window < 2 ^ 64)"

lemma window_peak_densest:
  assumes "sorted ts" and "no_overflow ts window"
  obtains p where "window_peak ts window = Some p" "densest ts window (unat p)"
proof -
  let ?f = "\<lambda>left. word_of_nat (run_at ts window left) :: u64"
  let ?p = "fold (\<lambda>left p. max p (?f left)) [0..<length ts] 0"
  have n: "length ts < 2 ^ 64" using assms(2) by (simp add: no_overflow_def)
  have f: "unat (?f left) = run_at ts window left" for left
    using before_le [of ts "unat (ts ! left) + unat window"] n by (simp add: run_at_def unat_of_nat)
  have peak: "window_peak ts window = Some ?p"
    unfolding window_peak_def
    by (rule window_loop_peak [OF assms(1), of window _ 0]) (use assms(2) in \<open>auto simp: no_overflow_def\<close>)
  note max = fold_max [of 0 ?f "[0..<length ts]"]
  have "within ts window s \<le> unat ?p" for s
  proof (cases "0 < within ts window s")
    case True
    from within_run_at [OF assms(1) True] have lt: "before ts s < length ts"
      and le: "within ts window s \<le> run_at ts window (before ts s)" by simp_all
    from max lt have "?f (before ts s) \<le> ?p" by simp
    with le f show ?thesis by (simp add: word_le_nat_alt)
  qed simp
  moreover have "\<exists>s. within ts window s = unat ?p"
  proof (cases "?p = 0")
    case True
    with calculation have "within ts window 0 = unat ?p" by (metis le_zero_eq unat_0)
    then show ?thesis by blast
  next
    case False
    with max obtain left where "left < length ts" "?p = ?f left" by auto
    with f run_at_within [OF assms(1)] have "unat ?p \<le> within ts window (unat (ts ! left))" by metis
    with calculation show ?thesis by (metis le_antisym)
  qed
  ultimately have "densest ts window (unat ?p)" by (simp add: densest_def)
  with peak that show ?thesis by blast
qed

lemma no_overflow_sort [simp]: "no_overflow (sort ts) window = no_overflow ts window"
  by (simp add: no_overflow_def)

section \<open>Authentication failures\<close>

definition denied :: "detect_event list \<Rightarrow> u64 list" where
  "denied events = List.map_filter (\<lambda>e. case e of AuthDenied _ at_ms \<Rightarrow> Some at_ms | _ \<Rightarrow> None) events"

lemma auth_failure_spike_densest:
  assumes "no_overflow (denied events) (th_auth_window_ms t)"
  obtains p where "densest (denied events) (th_auth_window_ms t) (unat p)"
    "auth_failure_spike events t = Some (if th_auth_failures_per_window t < p
       then [AuthFailureSpike p (th_auth_window_ms t)] else [])"
proof -
  obtain p where "window_peak (sort (denied events)) (th_auth_window_ms t) = Some p"
    "densest (sort (denied events)) (th_auth_window_ms t) (unat p)"
    by (rule window_peak_densest [of "sort (denied events)" "th_auth_window_ms t"]) (use assms in simp_all)
  then show ?thesis using that by (simp add: auth_failure_spike_def denied_def densest_sort)
qed

section \<open>Re-share fan-out\<close>

definition reshares :: "bytes \<Rightarrow> detect_event list \<Rightarrow> u64 list" where
  "reshares g events = List.map_filter (\<lambda>e. case e of
     EvGrant by_id _ GaReshare _ at_ms \<Rightarrow> if by_id = g then Some at_ms else None | _ \<Rightarrow> None) events"

lemma push_reshare_entry:
  "map_of (push_reshare e m) g = (case e of
     EvGrant by_id _ GaReshare _ at_ms \<Rightarrow>
       if by_id = g then Some ((case map_of m g of None \<Rightarrow> [] | Some ts \<Rightarrow> ts) @ [at_ms]) else map_of m g
   | _ \<Rightarrow> map_of m g)"
  by (cases "(e, m)" rule: push_reshare.cases) (simp_all add: update_conv)

lemma push_reshare_distinct: "distinct (map fst m) \<Longrightarrow> distinct (map fst (push_reshare e m))"
  by (cases "(e, m)" rule: push_reshare.cases) (simp_all add: distinct_update)

lemma fold_push_reshare:
  "map_of (fold push_reshare events m) g =
     (if reshares g events = [] then map_of m g
      else Some ((case map_of m g of None \<Rightarrow> [] | Some ts \<Rightarrow> ts) @ reshares g events))"
proof (induction events arbitrary: m)
  case (Cons e events)
  show ?case
    by (auto simp: Cons.IH push_reshare_entry reshares_def List.map_filter_simps
        split: option.splits detect_event.splits grant_action.splits)
qed (simp add: reshares_def List.map_filter_simps)

lemma fold_push_reshare_distinct:
  "distinct (map fst m) \<Longrightarrow> distinct (map fst (fold push_reshare events m))"
  by (induction events arbitrary: m) (simp_all add: push_reshare_distinct)

lemma fanout_hits_exact:
  assumes "\<forall>(g, ts) \<in> set m. no_overflow ts (th_reshare_window_ms t)"
  obtains hits where "fanout_hits t m = Some hits"
    "\<And>g c. (g, c) \<in> set hits \<longleftrightarrow> (\<exists>ts. (g, ts) \<in> set m \<and> densest ts (th_reshare_window_ms t) (unat c) \<and>
       th_reshare_fanout_per_window t < c)"
  using assms
proof (induction m arbitrary: thesis)
  case Nil
  then show ?case by simp
next
  case (Cons x m)
  obtain g ts where x: "x = (g, ts)" by fastforce
  from Cons.prems(2) obtain hits where hits: "fanout_hits t m = Some hits"
    "\<And>g c. (g, c) \<in> set hits \<longleftrightarrow> (\<exists>ts. (g, ts) \<in> set m \<and> densest ts (th_reshare_window_ms t) (unat c) \<and>
       th_reshare_fanout_per_window t < c)" using Cons.IH by auto
  obtain p where p: "window_peak (sort ts) (th_reshare_window_ms t) = Some p"
    "densest ts (th_reshare_window_ms t) (unat p)"
    by (rule window_peak_densest [of "sort ts" "th_reshare_window_ms t"])
      (use Cons.prems(2) x in \<open>auto simp: densest_sort\<close>)
  have c: "densest ts (th_reshare_window_ms t) (unat c) \<longleftrightarrow> c = p" for c
    using p(2) densest_unique by (metis word_unat_eq_iff)
  show ?case
    by (rule Cons.prems(1) [OF _ , of "if th_reshare_fanout_per_window t < p then (g, p) # hits else hits"])
      (auto simp: x p hits c)
qed

text \<open>The reported alerts of the fan-out rule.\<close>

lemma high_reshare_fanout_exact:
  assumes "\<forall>g. no_overflow (reshares g events) (th_reshare_window_ms t)"
  obtains alerts where "high_reshare_fanout events t = Some alerts"
    "\<And>a. a \<in> set alerts \<longleftrightarrow> (\<exists>g c. a = HighReshareFanout g c (th_reshare_window_ms t) \<and>
       densest (reshares g events) (th_reshare_window_ms t) (unat c) \<and> th_reshare_fanout_per_window t < c)"
proof -
  let ?m = "fold push_reshare events []" and ?w = "th_reshare_window_ms t"
  have entry: "(g, ts) \<in> set ?m \<longleftrightarrow> reshares g events \<noteq> [] \<and> ts = reshares g events" for g ts
  proof -
    have "(g, ts) \<in> set ?m \<longleftrightarrow> map_of ?m g = Some ts"
      by (rule map_of_eq_Some_iff [symmetric]) (rule fold_push_reshare_distinct, simp)
    then show ?thesis by (auto simp: fold_push_reshare)
  qed
  obtain hits where hits: "fanout_hits t ?m = Some hits"
    "\<And>g c. (g, c) \<in> set hits \<longleftrightarrow> (\<exists>ts. (g, ts) \<in> set ?m \<and> densest ts ?w (unat c) \<and> th_reshare_fanout_per_window t < c)"
    by (rule fanout_hits_exact [of ?m t]) (use assms entry in auto)
  have none: "densest [] ?w (unat c) \<Longrightarrow> \<not> th_reshare_fanout_per_window t < c" for c
    by (simp add: densest_def within_def word_less_nat_alt)
  have "(g, c) \<in> set hits \<longleftrightarrow> densest (reshares g events) ?w (unat c) \<and> th_reshare_fanout_per_window t < c" for g c
    using none [of c] by (cases "reshares g events = []") (auto simp: hits(2) entry)
  moreover have "a \<in> set (map (\<lambda>(granted_by, count). HighReshareFanout granted_by count ?w) (sort_key fst hits)) \<longleftrightarrow>
      (\<exists>g c. (g, c) \<in> set hits \<and> a = HighReshareFanout g c ?w)" for a by force
  ultimately show ?thesis
    using hits(1) by (intro that [of "map (\<lambda>(granted_by, count). HighReshareFanout granted_by count ?w) (sort_key fst hits)"])
      (simp_all add: high_reshare_fanout_def, blast)
qed

section \<open>Grants before a revocation\<close>

definition revocations_of :: "bytes \<Rightarrow> detect_event list \<Rightarrow> u64 list" where
  "revocations_of g events = List.map_filter (\<lambda>e. case e of UserRevoked u at_ms \<Rightarrow>
     if u = g then Some at_ms else None | _ \<Rightarrow> None) events"

lemma fold_note_revoked:
  "fold note_revoked events m g =
     (let S = set (revocations_of g events) \<union> set_option (m g) in if S = {} then None else Some (Min S))"
proof (induction events arbitrary: m)
  case Nil
  then show ?case by (cases "m g") (simp_all add: revocations_of_def List.map_filter_simps)
next
  case (Cons e events)
  show ?case
  proof (cases e)
    case (UserRevoked u at_ms)
    have "Min (insert (min x at_ms) A) = Min (insert at_ms (insert x A))" if "finite A" for A :: "u64 set" and x
      using that by (cases "A = {}") (simp_all add: min.commute min.left_commute)
    with UserRevoked Cons.IH show ?thesis
      by (cases "m u") (auto simp: revocations_of_def List.map_filter_simps Let_def insert_commute)
  qed (use Cons.IH in \<open>simp_all add: revocations_of_def List.map_filter_simps\<close>)
qed

lemma soon_revoked_exact:
  "GrantBySoonRevoked g r f \<in> set (grant_by_soon_revoked events t) \<longleftrightarrow>
     (\<exists>action at_ms. EvGrant g r action f at_ms \<in> set events \<and> action \<noteq> GaSoftRevoke \<and>
        revocations_of g events \<noteq> [] \<and> at_ms \<le> Min (set (revocations_of g events)) \<and>
        Min (set (revocations_of g events)) - at_ms \<le> th_soon_revoked_window_ms t)"
proof -
  have first: "fold note_revoked events Map.empty g =
      (if revocations_of g events = [] then None else Some (Min (set (revocations_of g events))))" for g
    by (simp add: fold_note_revoked Let_def)
  have one: "soon_revoked_alert (fold note_revoked events Map.empty) t e = Some (GrantBySoonRevoked g r f) \<longleftrightarrow>
      (\<exists>action at_ms. e = EvGrant g r action f at_ms \<and> action \<noteq> GaSoftRevoke \<and> revocations_of g events \<noteq> [] \<and>
        at_ms \<le> Min (set (revocations_of g events)) \<and>
        Min (set (revocations_of g events)) - at_ms \<le> th_soon_revoked_window_ms t)" for e
  proof (cases e)
    case (EvGrant g' r' action f' at_ms)
    show ?thesis
      by (simp only: EvGrant soon_revoked_alert_def first detect_event.simps) (auto split: if_splits)
  qed (simp_all add: soon_revoked_alert_def)
  show ?thesis unfolding grant_by_soon_revoked_def Let_def in_map_filter one by fast
qed

text \<open>Each rule raises its own kind of alert.\<close>

lemma rule_alerts:
  "a \<in> set (grant_by_soon_revoked events t) \<Longrightarrow> \<exists>g r f. a = GrantBySoonRevoked g r f"
  "a \<in> set (tombstone_gaps events) \<Longrightarrow> \<exists>u. a = TombstoneGap u"
  "a \<in> set (missing_recovery_grants events) \<Longrightarrow> \<exists>f v. a = MissingRecoveryGrant f v"
  "a \<in> set (directory_off_ceremony events t) \<Longrightarrow> \<exists>u at. a = DirectoryChangeOffCeremony u at"
proof -
  have "soon_revoked_alert m t e = Some a \<Longrightarrow> \<exists>g r f. a = GrantBySoonRevoked g r f" for m e
    by (cases e) (auto simp: soon_revoked_alert_def split: if_splits option.splits)
  then show "a \<in> set (grant_by_soon_revoked events t) \<Longrightarrow> \<exists>g r f. a = GrantBySoonRevoked g r f"
    unfolding grant_by_soon_revoked_def Let_def in_map_filter by blast
  have each: "\<exists>e. f e = Some a" if "a \<in> set (List.map_filter f events)" for f
    using that unfolding in_map_filter by blast
  show "a \<in> set (tombstone_gaps events) \<Longrightarrow> \<exists>u. a = TombstoneGap u"
    unfolding tombstone_gaps_def by (drule each, erule exE, rename_tac e, case_tac e) auto
  show "a \<in> set (missing_recovery_grants events) \<Longrightarrow> \<exists>f v. a = MissingRecoveryGrant f v"
    unfolding missing_recovery_grants_def by (drule each, erule exE, rename_tac e, case_tac e) (auto split: if_splits)
  show "a \<in> set (directory_off_ceremony events t) \<Longrightarrow> \<exists>u at. a = DirectoryChangeOffCeremony u at"
    unfolding directory_off_ceremony_def
    by (drule each, erule exE, rename_tac e, case_tac e) (auto simp: Let_def split: if_splits)
qed

section \<open>The guarantees\<close>

text \<open>The sliding rules are exact: unless a time overflows, the analysis of a batch in any order raises an
  authentication spike precisely when some window of the configured width holds more denials than the
  threshold, and a fan-out alert for a granter precisely when some window holds more of his re-shares; the
  reported count is that of the densest window.\<close>

theorem window_alerts_exact:
  assumes "no_overflow (denied events) (th_auth_window_ms t)"
    and "\<forall>g. no_overflow (reshares g events) (th_reshare_window_ms t)"
  shows "\<exists>alerts. analyze events t = Some alerts \<and>
    (\<forall>c w. AuthFailureSpike c w \<in> set alerts \<longleftrightarrow> w = th_auth_window_ms t \<and>
       th_auth_failures_per_window t < c \<and> densest (denied events) w (unat c)) \<and>
    (\<forall>g c w. HighReshareFanout g c w \<in> set alerts \<longleftrightarrow> w = th_reshare_window_ms t \<and>
       th_reshare_fanout_per_window t < c \<and> densest (reshares g events) w (unat c))"
proof -
  obtain p where p: "densest (denied events) (th_auth_window_ms t) (unat p)"
    "auth_failure_spike events t = Some (if th_auth_failures_per_window t < p
       then [AuthFailureSpike p (th_auth_window_ms t)] else [])"
    by (rule auth_failure_spike_densest [OF assms(1)])
  obtain fan where fan: "high_reshare_fanout events t = Some fan"
    "\<And>a. a \<in> set fan \<longleftrightarrow> (\<exists>g c. a = HighReshareFanout g c (th_reshare_window_ms t) \<and>
       densest (reshares g events) (th_reshare_window_ms t) (unat c) \<and> th_reshare_fanout_per_window t < c)"
    by (rule high_reshare_fanout_exact [OF assms(2)]) blast
  let ?rest = "grant_by_soon_revoked events t @ tombstone_gaps events @ missing_recovery_grants events @
    directory_off_ceremony events t"
  have rest: "AuthFailureSpike c w \<notin> set ?rest" "HighReshareFanout g c w \<notin> set ?rest" for g c w
    by (auto dest: rule_alerts)
  have c: "densest (denied events) (th_auth_window_ms t) (unat c) \<longleftrightarrow> c = p" for c
    using p(1) densest_unique by (metis word_unat_eq_iff)
  show ?thesis
    by (intro exI [of _ "(if th_auth_failures_per_window t < p then [AuthFailureSpike p (th_auth_window_ms t)] else [])
        @ fan @ ?rest"] conjI allI)
      (use rest c in \<open>auto simp: analyze_def p(2) fan(1) fan(2)\<close>)
qed

theorem window_alerts_exact_witness:
  "\<exists>alerts. analyze [AuthDenied [] 5, AuthDenied [] 3, AuthDenied [] 4] (thresholds_default\<lparr>th_auth_failures_per_window := 2\<rparr>) = Some alerts \<and>
     AuthFailureSpike 3 60000 \<in> set alerts"
proof -
  let ?es = "[AuthDenied [] 5, AuthDenied [] 3, AuthDenied [] 4]" and ?t = "thresholds_default\<lparr>th_auth_failures_per_window := 2\<rparr>"
  have den: "denied ?es = [5, 3, 4]" and none: "reshares g ?es = []" for g
    by (simp_all add: denied_def reshares_def List.map_filter_simps)
  have "no_overflow (denied ?es) (th_auth_window_ms ?t)" "\<forall>g. no_overflow (reshares g ?es) (th_reshare_window_ms ?t)"
    by (simp_all add: den none no_overflow_def thresholds_default_def)
  from window_alerts_exact [OF this] obtain alerts where "analyze ?es ?t = Some alerts"
    "AuthFailureSpike 3 60000 \<in> set alerts \<longleftrightarrow> densest (denied ?es) 60000 3"
    by (auto simp: thresholds_default_def)
  moreover have "densest [5, 3, 4] 60000 3"
  proof -
    have "within [5, 3, 4] 60000 3 = 3" by (simp add: within_def)
    moreover have "within [5, 3, 4] 60000 s \<le> 3" for s
      using length_filter_le [of "\<lambda>t :: u64. s \<le> unat t \<and> unat t < s + unat (60000 :: u64)" "[5, 3, 4]"] by (simp add: within_def)
    ultimately show ?thesis unfolding densest_def by blast
  qed
  ultimately show ?thesis unfolding den by blast
qed

text \<open>A second revocation is not seen: once a granter was revoked before he granted, as after a reinstatement,
  the rule for soon-revoked granters stays silent on the grant, whatever revocation follows it.\<close>

theorem second_revocation_missed:
  assumes "UserRevoked g t0 \<in> set events"
    and "\<And>action at_ms. EvGrant g r action f at_ms \<in> set events \<Longrightarrow> t0 < at_ms"
  shows "GrantBySoonRevoked g r f \<notin> set (grant_by_soon_revoked events t)"
proof
  assume "GrantBySoonRevoked g r f \<in> set (grant_by_soon_revoked events t)"
  then obtain action at_ms where "EvGrant g r action f at_ms \<in> set events"
    "at_ms \<le> Min (set (revocations_of g events))" unfolding soon_revoked_exact by blast
  moreover have "t0 \<in> set (revocations_of g events)"
    using assms(1) unfolding revocations_of_def in_map_filter by (intro bexI [OF _ assms(1)]) simp
  then have "Min (set (revocations_of g events)) \<le> t0" by simp
  ultimately show False using assms(2) [of action at_ms] by simp
qed

theorem second_revocation_missed_witness:
  "let events = [UserRevoked [1] 10, EvGrant [1] [2] GaReshare [7] 100, UserRevoked [1] 150] in
   GrantBySoonRevoked [1] [2] [7] \<notin> set (grant_by_soon_revoked events thresholds_default) \<and>
   150 - 100 \<le> th_soon_revoked_window_ms thresholds_default"
proof -
  have "GrantBySoonRevoked [1] [2] [7] \<notin> set (grant_by_soon_revoked
      [UserRevoked [1] 10, EvGrant [1] [2] GaReshare [7] 100, UserRevoked [1] 150] thresholds_default)"
    by (rule second_revocation_missed [of _ 10]) auto
  then show ?thesis by (simp add: thresholds_default_def)
qed

end
