(* ===== verification/ServerDelegation.thy ===== *)
theory ServerDelegation
  imports Delegation
begin

text \<open>
  \<^verbatim>\<open>crates/server/src/delegation.rs\<close>: what the server keeps of the directory delegation, and the two
  operations that install one. Each holds its write lock for the whole body, so it is one step on the
  context. The persistence seam is a function from the call to its fault, \<open>None\<close> being success; the
  diagnostic lines on the error stream are left out. The outer option of a result is the \<open>expect\<close>.
\<close>

definition MAX_DELEGATION_WINDOW_SECS :: u64 where "MAX_DELEGATION_WINDOW_SECS = 366 * 86400"

datatype persist_call = PersistDirectoryPub bytes | PersistDelegation bytes | BurnToken

type_synonym io_error = string

type_synonym delegation_persist = "persist_call \<Rightarrow> io_error option"

definition null_persist :: delegation_persist where "null_persist = (\<lambda>_. None)"

record installed =
  is_directory_pub :: bytes
  is_delegation_bytes :: bytes

datatype dmode = Dev | Prod

datatype bootstrap_result = BsOk u64 | BsNotAwaiting | BsBadToken | BsBadSignature | BsOpKeyMismatch | BsBadWindow
  | BsPersist io_error

datatype renew_result = RnOk u64 | RnNotDelegated | RnBadSignature | RnOpKeyMismatch | RnBadWindow
  | RnPersist io_error

record delegation_ctx =
  dc_mode :: dmode
  dc_operational_pub :: bytes
  dc_installed :: "installed option"
  dc_bootstrap_token_hash :: "bytes option"

definition ctx_dev :: "bytes \<Rightarrow> bytes \<Rightarrow> delegation_ctx" where
  "ctx_dev directory_pub delegation_bytes =
     \<lparr>dc_mode = Dev, dc_operational_pub = directory_pub,
      dc_installed = Some \<lparr>is_directory_pub = directory_pub, is_delegation_bytes = delegation_bytes\<rparr>,
      dc_bootstrap_token_hash = None\<rparr>"

definition ctx_prod :: "bytes \<Rightarrow> (bytes \<times> bytes) option \<Rightarrow> bytes option \<Rightarrow> delegation_ctx" where
  "ctx_prod operational_pub installed bootstrap_token_hash =
     \<lparr>dc_mode = Prod, dc_operational_pub = operational_pub,
      dc_installed = map_option (\<lambda>(directory_pub, delegation_bytes).
        \<lparr>is_directory_pub = directory_pub, is_delegation_bytes = delegation_bytes\<rparr>) installed,
      dc_bootstrap_token_hash = bootstrap_token_hash\<rparr>"

definition ctx_enrollment_open :: "vk_check \<Rightarrow> ed_strict \<Rightarrow> u64 \<Rightarrow> delegation_ctx \<Rightarrow> bool" where
  "ctx_enrollment_open vk_valid strict now_secs c =
     (case dc_mode c of
        Dev \<Rightarrow> True
      | Prod \<Rightarrow>
          (case dc_installed c of
             Some i \<Rightarrow> is_ok (dd_verify vk_valid strict (is_directory_pub i) (is_delegation_bytes i) now_secs)
           | None \<Rightarrow> False))"

definition ctx_current :: "delegation_ctx \<Rightarrow> (bytes \<times> bytes) option" where
  "ctx_current c = map_option (\<lambda>i. (is_directory_pub i, is_delegation_bytes i)) (dc_installed c)"

definition sane_window :: "bytes \<Rightarrow> u64 \<Rightarrow> bool" where
  "sane_window cert now_secs =
     (case dd_parse cert of
        Inl _ \<Rightarrow> False
      | Inr d \<Rightarrow>
          let vf = dd_valid_from d; vu = dd_valid_until d
          in now_secs < vu \<and> vf \<le> vu \<and> saturating_sub vu vf \<le> MAX_DELEGATION_WINDOW_SECS \<and>
             vf \<le> saturating_add now_secs DELEGATION_CLOCK_SKEW_SECS)"

definition install_bootstrap :: "(bytes \<Rightarrow> bytes) \<Rightarrow> vk_check \<Rightarrow> ed_strict \<Rightarrow> delegation_persist \<Rightarrow> bytes \<Rightarrow> bytes
    \<Rightarrow> bytes \<Rightarrow> u64 \<Rightarrow> delegation_ctx \<Rightarrow> (bootstrap_result \<times> delegation_ctx) option" where
  "install_bootstrap sha vk_valid strict persist token directory_pub cert now_secs c =
     (if dc_installed c \<noteq> None then Some (BsNotAwaiting, c)
      else (case dc_bootstrap_token_hash c of
        None \<Rightarrow> Some (BsNotAwaiting, c)
      | Some expected \<Rightarrow>
          if sha token \<noteq> expected then Some (BsBadToken, c)
          else (case dd_verify vk_valid strict directory_pub cert now_secs of
              Inl DelegationExpired \<Rightarrow> Some (BsBadWindow, c)
            | Inl _ \<Rightarrow> Some (BsBadSignature, c)
            | Inr op_pub \<Rightarrow>
                if op_pub \<noteq> dc_operational_pub c then Some (BsOpKeyMismatch, c)
                else if \<not> sane_window cert now_secs then Some (BsBadWindow, c)
                else (case persist (PersistDirectoryPub directory_pub) of Some e \<Rightarrow> Some (BsPersist e, c) | None \<Rightarrow>
                  (case persist (PersistDelegation cert) of Some e \<Rightarrow> Some (BsPersist e, c) | None \<Rightarrow>
                  (case persist BurnToken of Some e \<Rightarrow> Some (BsPersist e, c) | None \<Rightarrow>
                  (case dd_parse cert of
                     Inl _ \<Rightarrow> None
                   | Inr d \<Rightarrow>
                       let valid_until = dd_valid_until d;
                           c = c\<lparr>dc_installed := Some \<lparr>is_directory_pub = directory_pub, is_delegation_bytes = cert\<rparr>\<rparr>;
                           c = c\<lparr>dc_bootstrap_token_hash := None\<rparr>
                       in Some (BsOk valid_until, c))))))))"

definition install_renewal :: "vk_check \<Rightarrow> ed_strict \<Rightarrow> delegation_persist \<Rightarrow> bytes \<Rightarrow> u64 \<Rightarrow> delegation_ctx
    \<Rightarrow> (renew_result \<times> delegation_ctx) option" where
  "install_renewal vk_valid strict persist cert now_secs c =
     (case dc_installed c of
        None \<Rightarrow> Some (RnNotDelegated, c)
      | Some cur \<Rightarrow>
          (case dd_verify vk_valid strict (is_directory_pub cur) cert now_secs of
             Inl DelegationExpired \<Rightarrow> Some (RnBadWindow, c)
           | Inl _ \<Rightarrow> Some (RnBadSignature, c)
           | Inr op_pub \<Rightarrow>
               if op_pub \<noteq> dc_operational_pub c then Some (RnOpKeyMismatch, c)
               else if \<not> sane_window cert now_secs then Some (RnBadWindow, c)
               else (case persist (PersistDelegation cert) of Some e \<Rightarrow> Some (RnPersist e, c) | None \<Rightarrow>
                 (case dd_parse cert of
                    Inl _ \<Rightarrow> None
                  | Inr d \<Rightarrow>
                      let valid_until = dd_valid_until d
                      in Some (RnOk valid_until, c\<lparr>dc_installed :=
                        Some \<lparr>is_directory_pub = is_directory_pub cur, is_delegation_bytes = cert\<rparr>\<rparr>)))))"

section \<open>One installation\<close>

lemma dd_verify_parses: "dd_verify vk_valid strict d5 cert now = Inr op \<Longrightarrow> \<exists>d. dd_parse cert = Inr d \<and> dd_operational_pub d = op"
  by (auto simp: dd_verify_def result_simps guard_Inr)

text \<open>The certificate an installation leaves behind: signed by the pinned root for this server's key, with a
  sane window around the time of installation.\<close>

definition good_cert :: "vk_check \<Rightarrow> ed_strict \<Rightarrow> bytes \<Rightarrow> installed \<Rightarrow> u64 \<Rightarrow> bool" where
  "good_cert vk_valid strict op i now_secs \<longleftrightarrow>
     dd_verify vk_valid strict (is_directory_pub i) (is_delegation_bytes i) now_secs = Inr op \<and>
     sane_window (is_delegation_bytes i) now_secs"

lemma install_bootstrap_cases:
  obtains (refused) r where "install_bootstrap sha vk_valid strict persist token d5 cert now c = Some (r, c)" "\<nexists>u. r = BsOk u"
  | (installed) u where "install_bootstrap sha vk_valid strict persist token d5 cert now c = Some (BsOk u,
        c\<lparr>dc_installed := Some \<lparr>is_directory_pub = d5, is_delegation_bytes = cert\<rparr>, dc_bootstrap_token_hash := None\<rparr>)"
      "dc_installed c = None" "dc_bootstrap_token_hash c = Some (sha token)"
      "good_cert vk_valid strict (dc_operational_pub c) \<lparr>is_directory_pub = d5, is_delegation_bytes = cert\<rparr> now"
proof (cases "dc_installed c = None \<and> dc_bootstrap_token_hash c = Some (sha token) \<and>
    dd_verify vk_valid strict d5 cert now = Inr (dc_operational_pub c) \<and> sane_window cert now")
  case True
  then obtain d where "dd_parse cert = Inr d" using dd_verify_parses by blast
  show ?thesis
  proof (cases "persist (PersistDirectoryPub d5) = None \<and> persist (PersistDelegation cert) = None \<and> persist BurnToken = None")
    case ok: True
    show ?thesis
      by (rule installed [of "dd_valid_until d"])
        (use True ok \<open>dd_parse cert = Inr d\<close> in \<open>simp_all add: install_bootstrap_def good_cert_def\<close>)
  next
    case False
    then have "\<exists>e. install_bootstrap sha vk_valid strict persist token d5 cert now c = Some (BsPersist e, c)"
      using True by (auto simp: install_bootstrap_def split: option.splits)
    then show ?thesis using refused by blast
  qed
next
  case False
  then have "\<exists>r. install_bootstrap sha vk_valid strict persist token d5 cert now c = Some (r, c) \<and> (\<nexists>u. r = BsOk u)"
    by (auto simp: install_bootstrap_def split: option.splits sum.splits crypto_error.splits)
  then show ?thesis using refused by blast
qed

lemma install_renewal_cases:
  obtains (refused) r where "install_renewal vk_valid strict persist cert now c = Some (r, c)" "\<nexists>u. r = RnOk u"
  | (renewed) u cur where "dc_installed c = Some cur"
      "install_renewal vk_valid strict persist cert now c = Some (RnOk u,
        c\<lparr>dc_installed := Some (cur\<lparr>is_delegation_bytes := cert\<rparr>)\<rparr>)"
      "good_cert vk_valid strict (dc_operational_pub c) (cur\<lparr>is_delegation_bytes := cert\<rparr>) now"
proof (cases "dc_installed c")
  case None
  then show ?thesis using refused by (auto simp: install_renewal_def)
next
  case (Some cur)
  show ?thesis
  proof (cases "dd_verify vk_valid strict (is_directory_pub cur) cert now = Inr (dc_operational_pub c) \<and> sane_window cert now")
    case True
    then obtain d where "dd_parse cert = Inr d" using dd_verify_parses by blast
    show ?thesis
    proof (cases "persist (PersistDelegation cert)")
      case None
      show ?thesis
        by (rule renewed [OF Some, of "dd_valid_until d"])
          (use True None Some \<open>dd_parse cert = Inr d\<close> in \<open>simp_all add: install_renewal_def good_cert_def\<close>)
    next
      case (Some e)
      then show ?thesis
        by (intro refused [of "RnPersist e"]) (use True \<open>dc_installed c = Some cur\<close> in \<open>simp_all add: install_renewal_def\<close>)
    qed
  next
    case False
    then have "\<exists>r. install_renewal vk_valid strict persist cert now c = Some (r, c) \<and> (\<nexists>u. r = RnOk u)"
      by (auto simp: install_renewal_def Some split: option.splits sum.splits crypto_error.splits)
    then show ?thesis using refused by blast
  qed
qed

section \<open>Runs\<close>

text \<open>The requests that reach the context, each with what its caller posted, the clock and the disk faults.\<close>

datatype delegation_req = Bootstrap bytes bytes bytes u64 delegation_persist | Renewal bytes u64 delegation_persist

datatype delegation_out = BootstrapOut bootstrap_result | RenewalOut renew_result

fun ctx_step :: "(bytes \<Rightarrow> bytes) \<Rightarrow> vk_check \<Rightarrow> ed_strict \<Rightarrow> delegation_req \<Rightarrow> delegation_ctx
    \<Rightarrow> (delegation_out \<times> delegation_ctx) option" where
  "ctx_step sha vk_valid strict (Bootstrap token d5 cert now persist) c =
     map_option (map_prod BootstrapOut id) (install_bootstrap sha vk_valid strict persist token d5 cert now c)"
| "ctx_step sha vk_valid strict (Renewal cert now persist) c =
     map_option (map_prod RenewalOut id) (install_renewal vk_valid strict persist cert now c)"

fun ctx_run :: "(bytes \<Rightarrow> bytes) \<Rightarrow> vk_check \<Rightarrow> ed_strict \<Rightarrow> delegation_req list \<Rightarrow> delegation_ctx
    \<Rightarrow> (delegation_out list \<times> delegation_ctx) option" where
  "ctx_run sha vk_valid strict [] c = Some ([], c)"
| "ctx_run sha vk_valid strict (r # rs) c =
     Option.bind (ctx_step sha vk_valid strict r c) (\<lambda>(out, c).
     Option.bind (ctx_run sha vk_valid strict rs c) (\<lambda>(outs, c). Some (out # outs, c)))"

fun opened :: "delegation_out \<Rightarrow> bool" where
  "opened (BootstrapOut (BsOk u)) = True"
| "opened _ = False"

fun req_cert :: "delegation_req \<Rightarrow> bytes \<times> u64" where
  "req_cert (Bootstrap token d5 cert now persist) = (cert, now)"
| "req_cert (Renewal cert now persist) = (cert, now)"

text \<open>What a run over \<open>reqs\<close> leaves installed: the root some bootstrap posted with the right token, and a
  certificate of that root that a request brought while it was good.\<close>

definition earned :: "(bytes \<Rightarrow> bytes) \<Rightarrow> vk_check \<Rightarrow> ed_strict \<Rightarrow> bytes \<Rightarrow> bytes \<Rightarrow> delegation_req list \<Rightarrow> installed \<Rightarrow> bool" where
  "earned sha vk_valid strict op h reqs i \<longleftrightarrow>
     (\<exists>token cert now persist. Bootstrap token (is_directory_pub i) cert now persist \<in> set reqs \<and> sha token = h) \<and>
     (\<exists>r \<in> set reqs. is_delegation_bytes i = fst (req_cert r) \<and> good_cert vk_valid strict op i (snd (req_cert r)))"

definition ctx_state :: "(bytes \<Rightarrow> bytes) \<Rightarrow> vk_check \<Rightarrow> ed_strict \<Rightarrow> bytes \<Rightarrow> bytes \<Rightarrow> delegation_req list \<Rightarrow> delegation_ctx \<Rightarrow> bool" where
  "ctx_state sha vk_valid strict op h reqs c \<longleftrightarrow> dc_mode c = Prod \<and> dc_operational_pub c = op \<and>
     (case dc_installed c of None \<Rightarrow> dc_bootstrap_token_hash c = Some h
      | Some i \<Rightarrow> dc_bootstrap_token_hash c = None \<and> earned sha vk_valid strict op h reqs i)"

lemma earned_bootstrap:
  "good_cert vk_valid strict op \<lparr>is_directory_pub = d5, is_delegation_bytes = cert\<rparr> now \<Longrightarrow>
    earned sha vk_valid strict op (sha token) (done @ [Bootstrap token d5 cert now persist])
      \<lparr>is_directory_pub = d5, is_delegation_bytes = cert\<rparr>"
  unfolding earned_def installed.select_convs
  by (intro conjI exI [of _ token] exI [of _ cert] exI [of _ now] exI [of _ persist]
      bexI [of _ "Bootstrap token d5 cert now persist"]) simp_all

lemma earned_mono: "earned sha vk_valid strict op h done i \<Longrightarrow> earned sha vk_valid strict op h (done @ [r]) i"
  by (auto simp: earned_def)

lemma earned_renewal:
  "earned sha vk_valid strict op h done cur \<Longrightarrow> good_cert vk_valid strict op (cur\<lparr>is_delegation_bytes := cert\<rparr>) now \<Longrightarrow>
    earned sha vk_valid strict op h (done @ [Renewal cert now persist]) (cur\<lparr>is_delegation_bytes := cert\<rparr>)"
  unfolding earned_def
proof (elim conjE, rule conjI)
  assume "\<exists>token c now persist. Bootstrap token (is_directory_pub cur) c now persist \<in> set done \<and> sha token = h"
  then obtain token c n f where "Bootstrap token (is_directory_pub cur) c n f \<in> set done" "sha token = h" by blast
  then show "\<exists>token c now' persist'. Bootstrap token (is_directory_pub (cur\<lparr>is_delegation_bytes := cert\<rparr>)) c now' persist'
      \<in> set (done @ [Renewal cert now persist]) \<and> sha token = h"
    by (intro exI [of _ token] exI [of _ c] exI [of _ n] exI [of _ f]) simp
qed (intro bexI [of _ "Renewal cert now persist"]; simp)

lemma ctx_step_state:
  assumes "ctx_state sha vk_valid strict op h done c"
  obtains out c' where "ctx_step sha vk_valid strict r c = Some (out, c')"
    "ctx_state sha vk_valid strict op h (done @ [r]) c'"
    "opened out \<longleftrightarrow> dc_installed c = None \<and> dc_installed c' \<noteq> None"
    "dc_installed c \<noteq> None \<longrightarrow> map_option is_directory_pub (dc_installed c') = map_option is_directory_pub (dc_installed c)"
proof (cases r)
  case (Bootstrap token d5 cert now persist)
  show ?thesis
  proof (cases rule: install_bootstrap_cases [of sha vk_valid strict persist token d5 cert now c])
    case (refused res)
    then show ?thesis using assms
      by (intro that [of "BootstrapOut res" c]; cases res)
        (auto simp: Bootstrap ctx_state_def earned_mono split: option.splits)
  next
    case (installed u)
    then show ?thesis using assms
      by (intro that [of "BootstrapOut (BsOk u)"])
        (auto simp: Bootstrap ctx_state_def earned_bootstrap split: option.splits)
  qed
next
  case (Renewal cert now persist)
  show ?thesis
  proof (cases rule: install_renewal_cases [of vk_valid strict persist cert now c])
    case (refused res)
    then show ?thesis using assms
      by (intro that [of "RenewalOut res" c]) (auto simp: Renewal ctx_state_def earned_mono split: option.splits)
  next
    case (renewed u cur)
    then show ?thesis using assms
      by (intro that [of "RenewalOut (RnOk u)"])
        (auto simp: Renewal ctx_state_def earned_renewal split: option.splits)
  qed
qed

lemma ctx_run_state:
  assumes "ctx_state sha vk_valid strict op h done c"
  shows "\<exists>outs c'. ctx_run sha vk_valid strict rs c = Some (outs, c') \<and> ctx_state sha vk_valid strict op h (done @ rs) c' \<and>
    length (filter opened outs) = (if dc_installed c = None \<and> dc_installed c' \<noteq> None then 1 else 0) \<and>
    (dc_installed c \<noteq> None \<longrightarrow> map_option is_directory_pub (dc_installed c') = map_option is_directory_pub (dc_installed c))"
  using assms
proof (induction rs arbitrary: c "done")
  case (Cons r rs)
  obtain out c1 where c1: "ctx_step sha vk_valid strict r c = Some (out, c1)"
    "ctx_state sha vk_valid strict op h (done @ [r]) c1"
    "opened out \<longleftrightarrow> dc_installed c = None \<and> dc_installed c1 \<noteq> None"
    "dc_installed c \<noteq> None \<longrightarrow> map_option is_directory_pub (dc_installed c1) = map_option is_directory_pub (dc_installed c)"
    by (rule ctx_step_state [OF Cons.prems, of r])
  obtain outs c' where "ctx_run sha vk_valid strict rs c1 = Some (outs, c')"
    "ctx_state sha vk_valid strict op h (done @ r # rs) c'"
    "length (filter opened outs) = (if dc_installed c1 = None \<and> dc_installed c' \<noteq> None then 1 else 0)"
    "dc_installed c1 \<noteq> None \<longrightarrow> map_option is_directory_pub (dc_installed c') = map_option is_directory_pub (dc_installed c1)"
    using Cons.IH [OF c1(2)] by auto
  with c1 show ?case
    by (intro exI [of _ "out # outs"] exI [of _ c']) (auto split: if_splits)
next
  case Nil
  then show ?case by (cases "dc_installed c") auto
qed

text \<open>C38: The root is pinned once: from a server awaiting its ceremony, whatever requests arrive with whatever clocks
  and disk faults, every one is answered; at most one bootstrap succeeds, and it spends the token; what is
  installed afterwards is a root posted with that token and a certificate of this root for this server's key,
  good when it was installed; and enrolment is open at a time exactly when that certificate then verifies.\<close>

theorem delegation_root_pinned_once:
  "\<exists>outs c. ctx_run sha vk_valid strict reqs (ctx_prod op None (Some h)) = Some (outs, c) \<and>
     ctx_state sha vk_valid strict op h reqs c \<and>
     length (filter opened outs) = (if dc_installed c = None then 0 else 1) \<and>
     (\<forall>now. ctx_enrollment_open vk_valid strict now c \<longleftrightarrow>
        (\<exists>i. dc_installed c = Some i \<and> dd_verify vk_valid strict (is_directory_pub i) (is_delegation_bytes i) now = Inr op))"
proof -
  have "ctx_state sha vk_valid strict op h [] (ctx_prod op None (Some h))" by (simp add: ctx_state_def ctx_prod_def)
  from ctx_run_state [OF this, of reqs] obtain outs c where c:
    "ctx_run sha vk_valid strict reqs (ctx_prod op None (Some h)) = Some (outs, c)"
    "ctx_state sha vk_valid strict op h reqs c"
    "length (filter opened outs) = (if dc_installed c = None then 0 else 1)"
    by (auto simp: ctx_prod_def)
  have "dd_verify vk_valid strict (is_directory_pub i) (is_delegation_bytes i) now = Inr op"
    if "dc_installed c = Some i" "is_ok (dd_verify vk_valid strict (is_directory_pub i) (is_delegation_bytes i) now)" for i now
  proof -
    from that c(2) obtain t where "dd_verify vk_valid strict (is_directory_pub i) (is_delegation_bytes i) t = Inr op"
      by (auto simp: ctx_state_def earned_def good_cert_def)
    then obtain d where "dd_parse (is_delegation_bytes i) = Inr d" "dd_operational_pub d = op"
      using dd_verify_parses by blast
    moreover from that(2) obtain op' where op': "dd_verify vk_valid strict (is_directory_pub i) (is_delegation_bytes i) now = Inr op'"
      by (auto simp: is_ok_def split: sum.splits)
    moreover from dd_verify_parses [OF op'] have "op' = op" using calculation by auto
    ultimately show ?thesis by simp
  qed
  with c show ?thesis
    by (intro exI [of _ outs] exI [of _ c])
      (auto simp: ctx_enrollment_open_def ctx_state_def split: option.splits)
qed

end
