(* ===== verification/ServerAuth.thy ===== *)
theory ServerAuth
  imports ServerAccounts Identity ServerDelegation
begin

text \<open>
  The login service: \<^verbatim>\<open>crates/server/src/ratelimit.rs\<close>, \<^verbatim>\<open>auth.rs\<close>, \<^verbatim>\<open>recovery.rs\<close> and the decision
  errors of \<^verbatim>\<open>error.rs\<close>, over the in-memory store. A backend fault is a value of \<open>store_faults\<close>, which
  says for each store call of a request whether it fails; a failed call leaves the store as it was. The
  outer option of a result is a panic (a clock that overflows, an empty queue at a cap of zero). Fresh
  randomness is an argument.
\<close>

section \<open>Rate limits\<close>

record rate_limit_config =
  rl_backoff_base_ms :: u64
  rl_backoff_cap_ms :: u64
  rl_challenge_window_ms :: u64
  rl_challenge_max_per_window :: u32

definition rate_limit_default :: rate_limit_config where
  "rate_limit_default = \<lparr>rl_backoff_base_ms = 1000, rl_backoff_cap_ms = 60000, rl_challenge_window_ms = 60000,
     rl_challenge_max_per_window = 30\<rparr>"

record account =
  ac_fail_count :: u32
  ac_blocked_until_ms :: u64
  ac_challenges :: "u64 list"

type_synonym accounts = "string \<rightharpoonup> account"

definition account_default :: account where
  "account_default = \<lparr>ac_fail_count = 0, ac_blocked_until_ms = 0, ac_challenges = []\<rparr>"

definition entry_or_default :: "string \<Rightarrow> accounts \<Rightarrow> account" where
  "entry_or_default username accounts = (case accounts username of None \<Rightarrow> account_default | Some a \<Rightarrow> a)"

definition div_ceil :: "u64 \<Rightarrow> u64 \<Rightarrow> u64" where
  "div_ceil x y = (if x mod y = 0 then x div y else x div y + 1)"

definition secs_until :: "u64 \<Rightarrow> u64 \<Rightarrow> u64" where
  "secs_until now_ms until_ms = (if until_ms \<le> now_ms then 0 else div_ceil (until_ms - now_ms) 1000)"

text \<open>The \<open>while let Some(&front)\<close> loop.\<close>

fun drop_aged :: "u64 \<Rightarrow> u64 \<Rightarrow> u64 list \<Rightarrow> u64 list option" where
  "drop_aged window now_ms [] = Some []"
| "drop_aged window now_ms (front # rest) =
     (case checked_add front window of
        None \<Rightarrow> None
      | Some e \<Rightarrow> if e \<le> now_ms then drop_aged window now_ms rest else Some (front # rest))"

definition admit_challenge :: "rate_limit_config \<Rightarrow> string \<Rightarrow> u64 \<Rightarrow> accounts \<Rightarrow> ((u64 + unit) \<times> accounts) option" where
  "admit_challenge cfg username now_ms accounts =
     (let a = entry_or_default username accounts; window = rl_challenge_window_ms cfg in
      Option.bind (drop_aged window now_ms (ac_challenges a)) (\<lambda>challenges.
      let a = a\<lparr>ac_challenges := challenges\<rparr> in
      if rl_challenge_max_per_window cfg \<le> word_of_nat (length (ac_challenges a))
      then (case ac_challenges a of
          [] \<Rightarrow> None
        | oldest # _ \<Rightarrow> Option.bind (checked_add oldest window) (\<lambda>until.
            Some (Inl (secs_until now_ms until), accounts(username \<mapsto> a))))
      else Some (Inr (), accounts(username \<mapsto> a\<lparr>ac_challenges := ac_challenges a @ [now_ms]\<rparr>))))"

definition admit_proof :: "string \<Rightarrow> u64 \<Rightarrow> accounts \<Rightarrow> u64 + unit" where
  "admit_proof username now_ms accounts =
     (case accounts username of
        Some a \<Rightarrow> if now_ms < ac_blocked_until_ms a then Inl (secs_until now_ms (ac_blocked_until_ms a)) else Inr ()
      | None \<Rightarrow> Inr ())"

text \<open>\<open>1u64.checked_shl(n).unwrap_or(u64::MAX)\<close>.\<close>

definition backoff_factor :: "u32 \<Rightarrow> u64" where
  "backoff_factor n = (if unat n < 64 then push_bit (unat n) 1 else - 1)"

definition record_proof :: "rate_limit_config \<Rightarrow> string \<Rightarrow> u64 \<Rightarrow> bool \<Rightarrow> accounts \<Rightarrow> accounts option" where
  "record_proof cfg username now_ms success accounts =
     (let a = entry_or_default username accounts in
      if success then Some (accounts(username \<mapsto> a\<lparr>ac_fail_count := 0, ac_blocked_until_ms := 0\<rparr>))
      else
        let a = a\<lparr>ac_fail_count := (if ac_fail_count a = - 1 then - 1 else ac_fail_count a + 1)\<rparr>;
            factor = backoff_factor (ac_fail_count a - 1);
            step = min (saturating_mul (rl_backoff_base_ms cfg) factor) (rl_backoff_cap_ms cfg)
        in Option.bind (checked_add now_ms step) (\<lambda>until.
           Some (accounts(username \<mapsto> a\<lparr>ac_blocked_until_ms := until\<rparr>))))"

section \<open>The service\<close>

datatype auth_error = AeUnauthorized | AeInternal store_error

datatype challenge_error = CeRateLimited u64 | CeInternal store_error

datatype prove_error = PeUnauthorized | PeRateLimited u64 | PeInternal store_error

record challenge =
  ch_nonce :: bytes
  ch_server_id :: bytes
  ch_expires_in_s :: u64

datatype session_token = SessionToken (token_bytes: bytes)

definition token_to_hex :: "session_token \<Rightarrow> string" where
  "token_to_hex t = concat (map hex2 (token_bytes t))"

record auth_config =
  ag_server_id :: bytes
  ag_nonce_ttl_ms :: u64
  ag_session_ttl_ms :: u64
  ag_rate_limit :: rate_limit_config
  ag_directory_pub :: "bytes option"

definition auth_config_default :: auth_config where
  "auth_config_default = \<lparr>ag_server_id = str_bytes ''maxsecu-dev-1'', ag_nonce_ttl_ms = 60000,
     ag_session_ttl_ms = 3600000, ag_rate_limit = rate_limit_default, ag_directory_pub = None\<rparr>"

definition with_directory_pub :: "bytes \<Rightarrow> auth_config \<Rightarrow> auth_config" where
  "with_directory_pub dir_pub cfg = cfg\<lparr>ag_directory_pub := Some dir_pub\<rparr>"

definition AUTH_PRUNE_GRACE_MS :: u64 where "AUTH_PRUNE_GRACE_MS = 7 * 24 * 60 * 60 * 1000"
definition AUTH_PRUNE_BATCH :: u32 where "AUTH_PRUNE_BATCH = 5000"

text \<open>The store and the limiter are the mutable parts of \<open>AuthService\<close>; its configuration is an argument of the
  methods.\<close>

record auth_service =
  av_store :: inner
  av_accounts :: accounts

definition auth_new :: "inner \<Rightarrow> auth_service" where
  "auth_new store = \<lparr>av_store = store, av_accounts = Map.empty\<rparr>"

definition binding_verify_pub :: "auth_config \<Rightarrow> delegation_ctx option \<Rightarrow> bytes option" where
  "binding_verify_pub cfg delegation =
     (case delegation of Some ctx \<Rightarrow> Some (dc_operational_pub ctx) | None \<Rightarrow> ag_directory_pub cfg)"

definition enrollment_open :: "vk_check \<Rightarrow> ed_strict \<Rightarrow> delegation_ctx option \<Rightarrow> u64 \<Rightarrow> bool" where
  "enrollment_open vk_valid strict delegation now_secs =
     (case delegation of Some ctx \<Rightarrow> ctx_enrollment_open vk_valid strict now_secs ctx | None \<Rightarrow> True)"

text \<open>The store calls a request makes.\<close>

datatype store_call = CallUserByName | CallOutstandingNonces | CallInsertNonce | CallConsumeNonce | CallInsertSession
  | CallGetSession | CallRevokeSession | CallPrune | CallRecoveryAccount

type_synonym store_faults = "store_call \<Rightarrow> store_error option"

definition auth_challenge :: "auth_config \<Rightarrow> store_faults \<Rightarrow> bytes \<Rightarrow> string \<Rightarrow> u64 \<Rightarrow> auth_service
    \<Rightarrow> ((challenge_error + challenge) \<times> auth_service) option" where
  "auth_challenge cfg faults nonce username now_ms sv =
     Option.bind (admit_challenge (ag_rate_limit cfg) username now_ms (av_accounts sv)) (\<lambda>(admitted, accounts).
     let sv = sv\<lparr>av_accounts := accounts\<rparr> in
     (case admitted of
        Inl retry_after_s \<Rightarrow> Some (Inl (CeRateLimited retry_after_s), sv)
      | Inr _ \<Rightarrow>
          Option.bind (checked_add now_ms (ag_nonce_ttl_ms cfg)) (\<lambda>expires_at_ms.
          (case faults CallInsertNonce of
             Some e \<Rightarrow> Some (Inl (CeInternal e), sv)
           | None \<Rightarrow>
               let sv = sv\<lparr>av_store := insert_nonce nonce username expires_at_ms (av_store sv)\<rparr>
               in Some (Inr \<lparr>ch_nonce = nonce, ch_server_id = ag_server_id cfg,
                   ch_expires_in_s = ag_nonce_ttl_ms cfg div 1000\<rparr>, sv)))))"

text \<open>\<open>auth.rs\<close> and \<open>recovery.rs\<close> each have a copy of this function.\<close>

definition verify_proof :: "primitives \<Rightarrow> (bytes \<Rightarrow> bytes) \<Rightarrow> bytes \<Rightarrow> bytes \<Rightarrow> bytes \<Rightarrow> bytes \<Rightarrow> u64 \<Rightarrow> bytes \<Rightarrow> bool" where
  "verify_proof P to_nfc sig_pub server_id exporter nonce timestamp proof =
     (case text_new to_nfc server_id of
        Inl _ \<Rightarrow> False
      | Inr sid \<Rightarrow>
          let ctx = \<lparr>ap_server_id = sid, ap_tls_exporter = Bytes32 exporter, ap_nonce = Bytes32 nonce,
            ap_timestamp = Timestamp timestamp\<rparr>
          in is_ok (rbind (vk_from_bytes (pr_vk_valid P) sig_pub) (\<lambda>vk.
               verify_canonical (pr_strict P) vk L_AUTH TYPE_AUTH_PROOF_CONTEXT put_auth_proof_context ctx proof)))"

text \<open>The loop over the outstanding nonces up to the first one that verifies; the check an unknown user gets is
  against the zero key and its result is discarded.\<close>

fun match_nonce :: "(bytes \<Rightarrow> bytes \<Rightarrow> bool) \<Rightarrow> user_record option \<Rightarrow> bytes list \<Rightarrow> (bytes \<times> user_record) option" where
  "match_nonce verifies user [] = None"
| "match_nonce verifies user (nonce # rest) =
     (case user of
        Some u \<Rightarrow> if verifies (us_sig_pub u) nonce then Some (nonce, u) else match_nonce verifies user rest
      | None \<Rightarrow> (let _ = verifies (replicate 32 0) nonce in match_nonce verifies user rest))"

text \<open>\<open>prove\<close> reads first: the limiter, the user and the outstanding nonces, and finds the nonce the proof is for.\<close>

definition prove_find :: "primitives \<Rightarrow> (bytes \<Rightarrow> bytes) \<Rightarrow> auth_config \<Rightarrow> store_faults \<Rightarrow> string \<Rightarrow> u64 \<Rightarrow> bytes \<Rightarrow> bytes
    \<Rightarrow> u64 \<Rightarrow> auth_service \<Rightarrow> prove_error + (bytes \<times> user_record) option" where
  "prove_find P to_nfc cfg faults username timestamp proof exporter now_ms sv =
     (case admit_proof username now_ms (av_accounts sv) of
        Inl retry_after_s \<Rightarrow> Inl (PeRateLimited retry_after_s)
      | Inr _ \<Rightarrow>
          (case faults CallUserByName of Some e \<Rightarrow> Inl (PeInternal e) | None \<Rightarrow>
           let user = user_by_name username (av_store sv) in
          (case faults CallOutstandingNonces of Some e \<Rightarrow> Inl (PeInternal e) | None \<Rightarrow>
           Inr (match_nonce (\<lambda>pk nonce. verify_proof P to_nfc pk (ag_server_id cfg) exporter nonce timestamp proof)
             user (outstanding_nonces username now_ms (av_store sv))))))"

text \<open>Then it writes: a verified proof consumes its nonce, clears the backoff and mints the session; a failed one
  extends the backoff.\<close>

definition prove_commit :: "primitives \<Rightarrow> auth_config \<Rightarrow> store_faults \<Rightarrow> bytes \<Rightarrow> string \<Rightarrow> bytes \<Rightarrow> u64
    \<Rightarrow> (bytes \<times> user_record) option \<Rightarrow> auth_service \<Rightarrow> ((prove_error + session_token) \<times> auth_service) option" where
  "prove_commit P cfg faults token username exporter now_ms found sv =
     (case found of
        None \<Rightarrow>
          Option.bind (record_proof (ag_rate_limit cfg) username now_ms False (av_accounts sv)) (\<lambda>accounts.
          Some (Inl PeUnauthorized, sv\<lparr>av_accounts := accounts\<rparr>))
      | Some (nonce, u) \<Rightarrow>
          (case faults CallConsumeNonce of Some e \<Rightarrow> Some (Inl (PeInternal e), sv) | None \<Rightarrow>
           let sv = sv\<lparr>av_store := consume_nonce nonce (av_store sv)\<rparr> in
           Option.bind (record_proof (ag_rate_limit cfg) username now_ms True (av_accounts sv)) (\<lambda>accounts.
           let sv = sv\<lparr>av_accounts := accounts\<rparr> in
           Option.bind (checked_add now_ms (ag_session_ttl_ms cfg)) (\<lambda>expires_at_ms.
           (case faults CallInsertSession of Some e \<Rightarrow> Some (Inl (PeInternal e), sv) | None \<Rightarrow>
            let sv = sv\<lparr>av_store := insert_session (pr_sha P token)
                 \<lparr>se_user_id = us_user_id u, se_tls_exporter = exporter, se_expires_at_ms = expires_at_ms,
                  se_revoked = False\<rparr> (av_store sv)\<rparr>
            in Some (Inr (SessionToken token), sv))))))"

definition prove :: "primitives \<Rightarrow> (bytes \<Rightarrow> bytes) \<Rightarrow> auth_config \<Rightarrow> store_faults \<Rightarrow> bytes \<Rightarrow> string \<Rightarrow> u64 \<Rightarrow> bytes
    \<Rightarrow> bytes \<Rightarrow> u64 \<Rightarrow> auth_service \<Rightarrow> ((prove_error + session_token) \<times> auth_service) option" where
  "prove P to_nfc cfg faults token username timestamp proof exporter now_ms sv =
     (case prove_find P to_nfc cfg faults username timestamp proof exporter now_ms sv of
        Inl e \<Rightarrow> Some (Inl e, sv)
      | Inr found \<Rightarrow> prove_commit P cfg faults token username exporter now_ms found sv)"

definition validate_session :: "primitives \<Rightarrow> store_faults \<Rightarrow> bytes \<Rightarrow> bytes \<Rightarrow> u64 \<Rightarrow> auth_service
    \<Rightarrow> auth_error + bytes" where
  "validate_session P faults token exporter now_ms sv =
     (case faults CallGetSession of
        Some e \<Rightarrow> Inl (AeInternal e)
      | None \<Rightarrow>
          (case get_session (pr_sha P token) (av_store sv) of
             None \<Rightarrow> Inl AeUnauthorized
           | Some s \<Rightarrow>
               if se_revoked s \<or> se_expires_at_ms s \<le> now_ms \<or> se_tls_exporter s \<noteq> exporter
               then Inl AeUnauthorized else Inr (se_user_id s)))"

definition auth_logout :: "primitives \<Rightarrow> store_faults \<Rightarrow> bytes \<Rightarrow> auth_service \<Rightarrow> (store_error + unit) \<times> auth_service" where
  "auth_logout P faults token sv =
     (case faults CallRevokeSession of
        Some e \<Rightarrow> (Inl e, sv)
      | None \<Rightarrow> (Inr (), sv\<lparr>av_store := revoke_session (pr_sha P token) (av_store sv)\<rparr>))"

definition auth_prune :: "store_faults \<Rightarrow> u64 \<Rightarrow> auth_service \<Rightarrow> (store_error + prune_counts) \<times> auth_service" where
  "auth_prune faults now_ms sv =
     (case faults CallPrune of
        Some e \<Rightarrow> (Inl e, sv)
      | None \<Rightarrow>
          let (counts, store) = prune_expired_auth_rows now_ms AUTH_PRUNE_GRACE_MS AUTH_PRUNE_BATCH (av_store sv)
          in (Inr counts, sv\<lparr>av_store := store\<rparr>))"

section \<open>The recovery login\<close>

record recovery_challenge =
  rc_challenge_id :: bytes
  rc_wrapped_blob :: bytes
  rc_hybrid :: bool

datatype recovery_error = ReNoAccount | ReUnauthorized | ReWrapFailed | ReInternal store_error

definition recovery_nonce_key :: "bytes \<Rightarrow> string" where
  "recovery_nonce_key challenge_id =
     CHR 0x00 # ''recovery'' @ CHR 0x00 # concat (map hex2 challenge_id)"

definition challenge_wrap_ctx :: "bytes \<Rightarrow> wrap_context" where
  "challenge_wrap_ctx challenge_id =
     \<lparr>wc_file_id = Id challenge_id, wc_version = 0, wc_recipient_id = RECOVERY_ID\<rparr>"

definition serialize_classical_wrap :: "wrapped_dek \<Rightarrow> bytes" where
  "serialize_classical_wrap w = wd_enc w @ wd_ct w"

text \<open>\<open>eph\<close> and \<open>random\<close> are what the wrap draws.\<close>

definition auth_recovery_challenge :: "primitives \<Rightarrow> auth_config \<Rightarrow> store_faults \<Rightarrow> bytes \<Rightarrow> bytes \<Rightarrow> bytes \<Rightarrow> bytes \<Rightarrow> u64
    \<Rightarrow> auth_service \<Rightarrow> ((recovery_error + recovery_challenge) \<times> auth_service) option" where
  "auth_recovery_challenge P cfg faults nonce challenge_id eph random now_ms sv =
     (case faults CallRecoveryAccount of Some e \<Rightarrow> Some (Inl (ReInternal e), sv) | None \<Rightarrow>
     (case get_recovery_account (av_store sv) of
        None \<Rightarrow> Some (Inl ReNoAccount, sv)
      | Some acct \<Rightarrow>
          Option.bind (checked_add now_ms (ag_nonce_ttl_ms cfg)) (\<lambda>expires_at_ms.
          (case faults CallInsertNonce of Some e \<Rightarrow> Some (Inl (ReInternal e), sv) | None \<Rightarrow>
           let sv = sv\<lparr>av_store := insert_nonce nonce (recovery_nonce_key challenge_id) expires_at_ms (av_store sv)\<rparr>;
               ctx = challenge_wrap_ctx challenge_id;
               dek = dek_from_bytes nonce;
               wrapped = (case ra_mlkem_pub acct of
                   Some mlkem \<Rightarrow>
                     rbind (map_err (\<lambda>_. ReWrapFailed)
                       (wrap_dek_hybrid P eph random \<lparr>hp_x25519 = ra_enc_pub acct, hp_mlkem = mlkem\<rparr> dek ctx)) (\<lambda>w.
                     Inr (serialize_hybrid_wrap w, True))
                 | None \<Rightarrow>
                     rbind (map_err (\<lambda>_. ReWrapFailed) (wrap_dek P random (ra_enc_pub acct) dek ctx)) (\<lambda>w.
                     Inr (serialize_classical_wrap w, False)))
           in Some (rbind wrapped (\<lambda>(wrapped_blob, hybrid).
                Inr \<lparr>rc_challenge_id = challenge_id, rc_wrapped_blob = wrapped_blob, rc_hybrid = hybrid\<rparr>), sv)))))"

text \<open>Like \<open>prove\<close>: reads, then writes.\<close>

definition recovery_find :: "primitives \<Rightarrow> (bytes \<Rightarrow> bytes) \<Rightarrow> auth_config \<Rightarrow> store_faults \<Rightarrow> bytes \<Rightarrow> u64 \<Rightarrow> bytes
    \<Rightarrow> bytes \<Rightarrow> u64 \<Rightarrow> auth_service \<Rightarrow> recovery_error + bytes" where
  "recovery_find P to_nfc cfg faults challenge_id timestamp proof exporter now_ms sv =
     (case faults CallRecoveryAccount of Some e \<Rightarrow> Inl (ReInternal e) | None \<Rightarrow>
     (case get_recovery_account (av_store sv) of
        None \<Rightarrow> Inl ReUnauthorized
      | Some acct \<Rightarrow>
          (case faults CallOutstandingNonces of Some e \<Rightarrow> Inl (ReInternal e) | None \<Rightarrow>
           ok_or (find (\<lambda>nonce. verify_proof P to_nfc (ra_sig_pub acct) (ag_server_id cfg) exporter nonce timestamp proof)
             (outstanding_nonces (recovery_nonce_key challenge_id) now_ms (av_store sv))) ReUnauthorized)))"

definition recovery_commit :: "primitives \<Rightarrow> auth_config \<Rightarrow> store_faults \<Rightarrow> bytes \<Rightarrow> bytes \<Rightarrow> u64 \<Rightarrow> bytes \<Rightarrow> auth_service
    \<Rightarrow> ((recovery_error + session_token) \<times> auth_service) option" where
  "recovery_commit P cfg faults token exporter now_ms nonce sv =
     (case faults CallConsumeNonce of Some e \<Rightarrow> Some (Inl (ReInternal e), sv) | None \<Rightarrow>
      let sv = sv\<lparr>av_store := consume_nonce nonce (av_store sv)\<rparr> in
      Option.bind (checked_add now_ms (ag_session_ttl_ms cfg)) (\<lambda>expires_at_ms.
      (case faults CallInsertSession of Some e \<Rightarrow> Some (Inl (ReInternal e), sv) | None \<Rightarrow>
       let sv = sv\<lparr>av_store := insert_session (pr_sha P token)
            \<lparr>se_user_id = id_raw RECOVERY_ID, se_tls_exporter = exporter, se_expires_at_ms = expires_at_ms,
             se_revoked = False\<rparr> (av_store sv)\<rparr>
       in Some (Inr (SessionToken token), sv))))"

definition auth_recovery_verify :: "primitives \<Rightarrow> (bytes \<Rightarrow> bytes) \<Rightarrow> auth_config \<Rightarrow> store_faults \<Rightarrow> bytes \<Rightarrow> bytes \<Rightarrow> u64
    \<Rightarrow> bytes \<Rightarrow> bytes \<Rightarrow> u64 \<Rightarrow> auth_service \<Rightarrow> ((recovery_error + session_token) \<times> auth_service) option" where
  "auth_recovery_verify P to_nfc cfg faults token challenge_id timestamp proof exporter now_ms sv =
     (case recovery_find P to_nfc cfg faults challenge_id timestamp proof exporter now_ms sv of
        Inl e \<Rightarrow> Some (Inl e, sv)
      | Inr nonce \<Rightarrow> recovery_commit P cfg faults token exporter now_ms nonce sv)"

end
