(* ===== verification/ServerAuth_Sessions.thy ===== *)
theory ServerAuth_Sessions
  imports ServerAuth GrantChain
begin

text \<open>
  Sessions of the login service: an honest login succeeds; in every interleaving of requests, whoever a session
  token admits has shown a valid proof on the session's channel over a nonce the server issued; and one nonce
  mints one session as long as requests do not overlap.
\<close>

section \<open>Honest login\<close>

text \<open>The signature scheme accepts the identity's own signatures.\<close>

definition can_sign :: "primitives \<Rightarrow> identity \<Rightarrow> bool" where
  "can_sign P i \<longleftrightarrow> pr_vk_valid P (sig_pub_bytes P i) \<and>
     (\<forall>m. pr_strict P (sig_pub_bytes P i) m (pr_ed_sign P (idn_sig i) m))"

definition no_faults :: store_faults where "no_faults = (\<lambda>_. None)"

lemma no_faults_simp [simp]: "no_faults c = None"
  by (simp add: no_faults_def)

lemma honest_proof_verifies:
  "can_sign P i \<Longrightarrow> build_login_proof P to_nfc i server_id exporter nonce timestamp = Inr proof \<Longrightarrow>
    verify_proof P to_nfc (sig_pub_bytes P i) server_id exporter nonce timestamp proof"
  by (auto simp: build_login_proof_def auth_context_def verify_proof_def id_sign_def sign_canonical_def can_sign_def
      verify_canonical_def vk_from_bytes_def rbind_eq_Inr map_err_def split: sum.splits)

lemma match_nonce_Some:
  "match_nonce verifies user ns = Some (n, u) \<Longrightarrow> user = Some u \<and> n \<in> set ns \<and> verifies (us_sig_pub u) n"
  by (induction ns) (auto split: option.splits if_splits)

lemma match_nonce_finds:
  "user = Some u \<Longrightarrow> n \<in> set ns \<Longrightarrow> verifies (us_sig_pub u) n \<Longrightarrow> \<exists>n'. match_nonce verifies user ns = Some (n', u)"
  by (induction ns) auto

lemma outstanding_nonces_iff:
  "n \<in> set (outstanding_nonces u now s) \<longleftrightarrow>
     (\<exists>r. (n, r) \<in> set (in_nonces s) \<and> no_username r = u \<and> \<not> no_used r \<and> now < no_expires_at_ms r)"
  by (force simp: outstanding_nonces_def)

lemma update_entry: "(k, v) \<in> set (AList.update k v m)"
  by (induction m) auto

lemma insert_nonce_outstanding: "now < expires \<Longrightarrow> n \<in> set (outstanding_nonces u now (insert_nonce n u expires s))"
  by (auto simp: outstanding_nonces_iff insert_nonce_def intro!: exI update_entry)

lemma challenge_issued:
  assumes "auth_challenge cfg faults nonce u now sv = Some (Inr ch, sv')"
  shows "ch_nonce ch = nonce \<and> ch_server_id ch = ag_server_id cfg \<and>
    (\<exists>expires. unat expires = unat now + unat (ag_nonce_ttl_ms cfg) \<and>
       av_store sv' = insert_nonce nonce u expires (av_store sv))"
proof -
  from assms obtain a accounts where "admit_challenge (ag_rate_limit cfg) u now (av_accounts sv) = Some (a, accounts)"
    by (auto simp: auth_challenge_def bind_eq_Some_conv)
  with assms show ?thesis
    by (cases a) (auto simp: auth_challenge_def bind_eq_Some_conv checked_add_Some Let_def split: option.splits)
qed

lemma honest_login:
  assumes "can_sign P i" and "user_by_name name (av_store sv) = Some user" and "us_sig_pub user = sig_pub_bytes P i"
    and "auth_challenge cfg no_faults nonce name t0 sv = Some (Inr ch, sv1)"
    and "build_login_proof P to_nfc i (ch_server_id ch) exporter (ch_nonce ch) timestamp = Inr proof"
    and "unat t < unat t0 + unat (ag_nonce_ttl_ms cfg)" and "admit_proof name t (av_accounts sv1) = Inr ()"
    and "unat t + unat (ag_session_ttl_ms cfg) < 2 ^ 64"
  shows "\<exists>sv2. prove P to_nfc cfg no_faults token name timestamp proof exporter t sv1 = Some (Inr (SessionToken token), sv2) \<and>
    (\<forall>t'. unat t' < unat t + unat (ag_session_ttl_ms cfg) \<longrightarrow>
       validate_session P no_faults token exporter t' sv2 = Inr (us_user_id user))"
proof -
  from challenge_issued [OF assms(4)] obtain expires where ch: "ch_nonce ch = nonce" "ch_server_id ch = ag_server_id cfg"
    "unat expires = unat t0 + unat (ag_nonce_ttl_ms cfg)" "av_store sv1 = insert_nonce nonce name expires (av_store sv)"
    by blast
  have "t < expires" using assms(6) ch(3) by (simp add: word_less_nat_alt)
  then have out: "nonce \<in> set (outstanding_nonces name t (av_store sv1))"
    unfolding ch(4) by (rule insert_nonce_outstanding)
  have user: "user_by_name name (av_store sv1) = Some user"
    using assms(2) by (simp add: ch(4) user_by_name_def insert_nonce_def)
  let ?v = "\<lambda>pk nonce. verify_proof P to_nfc pk (ag_server_id cfg) exporter nonce timestamp proof"
  have "?v (us_sig_pub user) nonce" using honest_proof_verifies [OF assms(1,5)] ch assms(3) by simp
  from match_nonce_finds [of _ user nonce _ ?v, OF refl out this]
  obtain n where "match_nonce ?v (Some user) (outstanding_nonces name t (av_store sv1)) = Some (n, user)" by blast
  then have found: "prove_find P to_nfc cfg no_faults name timestamp proof exporter t sv1 = Inr (Some (n, user))"
    using assms(7) user by (simp add: prove_find_def)
  obtain until where until: "checked_add t (ag_session_ttl_ms cfg) = Some until"
    "unat until = unat t + unat (ag_session_ttl_ms cfg)"
    using assms(8) by (auto simp: checked_add_def checked_add_Some unat_word_ariths)
  then have live: "unat t' < unat t + unat (ag_session_ttl_ms cfg) \<Longrightarrow> \<not> until \<le> t'" for t'
    by (simp add: word_le_nat_alt)
  show ?thesis
    by (auto simp: prove_def found prove_commit_def Let_def record_proof_def until(1) validate_session_def
        get_session_def insert_session_def update_conv live)
qed

text \<open>C37: An honest login succeeds: a registered user who answers a fresh challenge with his own proof on the same
  channel, in the nonce's lifetime and not in a backoff, gets a token, and until its session expires that token
  is accepted on this channel as him.\<close>

theorem login_succeeds:
  assumes "can_sign P i" and "user_by_name name (av_store sv) = Some user" and "us_sig_pub user = sig_pub_bytes P i"
    and "auth_challenge cfg no_faults nonce name t0 sv = Some (Inr ch, sv1)"
    and "build_login_proof P to_nfc i (ch_server_id ch) exporter (ch_nonce ch) timestamp = Inr proof"
    and "unat t < unat t0 + unat (ag_nonce_ttl_ms cfg)" and "admit_proof name t (av_accounts sv1) = Inr ()"
    and "unat t + unat (ag_session_ttl_ms cfg) < 2 ^ 64"
  shows "\<exists>sv2. prove P to_nfc cfg no_faults token name timestamp proof exporter t sv1 = Some (Inr (SessionToken token), sv2) \<and>
    (\<forall>t'. unat t' < unat t + unat (ag_session_ttl_ms cfg) \<longrightarrow>
       validate_session P no_faults token exporter t' sv2 = Inr (us_user_id user))"
  by (rule honest_login [OF assms])

text \<open>A concrete login.\<close>

definition toy_user :: user_record where "toy_user = \<lparr>us_user_id = [9], us_enc_pub = [4], us_sig_pub = [1]\<rparr>"

definition toy_signer :: identity where "toy_signer = \<lparr>idn_enc_sk = [], idn_enc_pk = [], idn_sig = [1], idn_mlkem = None\<rparr>"

definition toy_service :: auth_service where "toy_service = auth_new (snd (create_user ''alice'' [4] [1] [9] store_new))"

definition toy_issued :: challenge where
  "toy_issued = \<lparr>ch_nonce = [7], ch_server_id = ag_server_id auth_config_default, ch_expires_in_s = 60\<rparr>"

lemma toy_login:
  "can_sign toy_prims toy_signer" "user_by_name ''alice'' (av_store toy_service) = Some toy_user"
  "us_sig_pub toy_user = sig_pub_bytes toy_prims toy_signer"
  "build_login_proof toy_prims id toy_signer (ch_server_id toy_issued) [6] (ch_nonce toy_issued) 5 = Inr [1]"
  "\<exists>sv1. auth_challenge auth_config_default no_faults [7] ''alice'' 1000 toy_service = Some (Inr toy_issued, sv1) \<and>
     admit_proof ''alice'' 2000 (av_accounts sv1) = Inr ()"
proof -
  show "can_sign toy_prims toy_signer" by (simp add: can_sign_def toy_prims_with_def sig_pub_bytes_def)
  show "user_by_name ''alice'' (av_store toy_service) = Some toy_user"
    by (simp add: user_by_name_def auth_new_def create_user_def store_new_def toy_service_def toy_user_def)
  show "us_sig_pub toy_user = sig_pub_bytes toy_prims toy_signer"
    by (simp add: toy_user_def toy_signer_def sig_pub_bytes_def toy_prims_with_def)
  show "build_login_proof toy_prims id toy_signer (ch_server_id toy_issued) [6] (ch_nonce toy_issued) 5 = Inr [1]"
    by (simp add: build_login_proof_def auth_context_def text_new_def auth_config_default_def MAX_TEXT_def str_bytes_def
        map_err_def id_sign_def sign_canonical_def toy_prims_with_def toy_issued_def toy_signer_def)
  show "\<exists>sv1. auth_challenge auth_config_default no_faults [7] ''alice'' 1000 toy_service = Some (Inr toy_issued, sv1) \<and>
     admit_proof ''alice'' 2000 (av_accounts sv1) = Inr ()"
    by (simp add: auth_challenge_def admit_challenge_def Let_def auth_new_def entry_or_default_def account_default_def
        auth_config_default_def rate_limit_default_def checked_add_def admit_proof_def word_le_nat_alt toy_service_def toy_issued_def)
qed

theorem login_succeeds_witness:
  "\<exists>sv1 sv2. auth_challenge auth_config_default no_faults [7] ''alice'' 1000 toy_service = Some (Inr toy_issued, sv1) \<and>
     prove toy_prims id auth_config_default no_faults [8] ''alice'' 5 [1] [6] 2000 sv1 = Some (Inr (SessionToken [8]), sv2) \<and>
     validate_session toy_prims no_faults [8] [6] 3000 sv2 = Inr [9]"
proof -
  obtain sv1 where ch: "auth_challenge auth_config_default no_faults [7] ''alice'' 1000 toy_service = Some (Inr toy_issued, sv1)"
    "admit_proof ''alice'' 2000 (av_accounts sv1) = Inr ()" using toy_login(5) by blast
  obtain sv2 where "prove toy_prims id auth_config_default no_faults [8] ''alice'' 5 [1] [6] 2000 sv1 = Some (Inr (SessionToken [8]), sv2)"
    "\<forall>t'. unat t' < 3602000 \<longrightarrow> validate_session toy_prims no_faults [8] [6] t' sv2 = Inr (us_user_id toy_user)"
    using login_succeeds [OF toy_login(1-3) ch(1) toy_login(4) _ ch(2), of "[8]"] by (auto simp: auth_config_default_def)
  then have "validate_session toy_prims no_faults [8] [6] 3000 sv2 = Inr [9]" by (simp add: toy_user_def)
  with ch(1) \<open>prove _ _ _ _ _ _ _ _ _ _ sv1 = _\<close> show ?thesis by blast
qed

section \<open>Interleavings\<close>

text \<open>A request between its reads and its writes.\<close>

datatype flight = ProveFlight string bytes u64 "(bytes \<times> user_record) option" | RecoveryFlight bytes bytes u64 bytes

text \<open>The service with the requests in flight, and what an observer saw: the nonces it issued, for whom, and the
  login proofs shown to it, each with its account, its signed time, its channel and the clock.\<close>

record world =
  wd_service :: auth_service
  wd_flights :: "flight list"
  wd_issued :: "(bytes \<times> string) set"
  wd_shown :: "(string \<times> u64 \<times> bytes \<times> bytes \<times> u64) set"

definition world_new :: world where
  "world_new = \<lparr>wd_service = auth_new store_new, wd_flights = [], wd_issued = {}, wd_shown = {}\<rparr>"

text \<open>What the other requests of the server may do to the store: anything but sessions and nonces, and they do not
  take a user or the recovery account away or replace their keys.\<close>

definition auth_frame :: "inner \<Rightarrow> inner \<Rightarrow> bool" where
  "auth_frame s s' \<longleftrightarrow> in_sessions s' = in_sessions s \<and> in_nonces s' = in_nonces s \<and> in_users s \<subseteq>\<^sub>m in_users s' \<and>
     (\<forall>acct. in_recovery_account s = Some acct \<longrightarrow> in_recovery_account s' = Some acct)"

lemma auth_frame_ops:
  "auth_frame s (snd (create_user name enc sig fresh s))"
  "auth_frame s (snd (enroll key user_id name enc sig ub ab s))"
  "auth_frame s (snd (set_recovery_account enc sig mlkem s))"
  "auth_frame s (put_binding user_id v b sig s)" "auth_frame s (issue_registration_key key s)"
  "auth_frame s (snd (consume_registration_key key s))" "auth_frame s (snd (append_control sha rb sig co s))"
  by (auto simp: auth_frame_def create_user_def enroll_def set_recovery_account_def put_binding_def Let_def
      issue_registration_key_def consume_registration_key_def append_control_def map_le_def split: option.splits)

inductive auth_step :: "primitives \<Rightarrow> (bytes \<Rightarrow> bytes) \<Rightarrow> auth_config \<Rightarrow> world \<Rightarrow> world \<Rightarrow> bool"
  for P to_nfc cfg where
  challenge: "auth_challenge cfg faults nonce name now (wd_service w) = Some (r, sv) \<Longrightarrow>
    auth_step P to_nfc cfg w (w\<lparr>wd_service := sv,
      wd_issued := (case r of Inl _ \<Rightarrow> {} | Inr _ \<Rightarrow> {(nonce, name)}) \<union> wd_issued w\<rparr>)"
| prove_read: "prove_find P to_nfc cfg faults name timestamp proof exporter now (wd_service w) = Inr found \<Longrightarrow>
    auth_step P to_nfc cfg w (w\<lparr>wd_flights := ProveFlight name exporter now found # wd_flights w,
      wd_shown := insert (name, timestamp, proof, exporter, now) (wd_shown w)\<rparr>)"
| prove_write: "ProveFlight name exporter now found \<in> set (wd_flights w) \<Longrightarrow>
    prove_commit P cfg faults token name exporter now found (wd_service w) = Some (r, sv) \<Longrightarrow>
    auth_step P to_nfc cfg w (w\<lparr>wd_service := sv,
      wd_flights := remove1 (ProveFlight name exporter now found) (wd_flights w)\<rparr>)"
| recovery_challenge: "auth_recovery_challenge P cfg faults nonce cid eph random now (wd_service w) = Some (r, sv) \<Longrightarrow>
    auth_step P to_nfc cfg w (w\<lparr>wd_service := sv,
      wd_issued := (if r = Inl ReNoAccount then {} else {(nonce, recovery_nonce_key cid)}) \<union> wd_issued w\<rparr>)"
| recovery_read: "recovery_find P to_nfc cfg faults cid timestamp proof exporter now (wd_service w) = Inr nonce \<Longrightarrow>
    auth_step P to_nfc cfg w (w\<lparr>wd_flights := RecoveryFlight cid exporter now nonce # wd_flights w,
      wd_shown := insert (recovery_nonce_key cid, timestamp, proof, exporter, now) (wd_shown w)\<rparr>)"
| recovery_write: "RecoveryFlight cid exporter now nonce \<in> set (wd_flights w) \<Longrightarrow>
    recovery_commit P cfg faults token exporter now nonce (wd_service w) = Some (r, sv) \<Longrightarrow>
    auth_step P to_nfc cfg w (w\<lparr>wd_service := sv,
      wd_flights := remove1 (RecoveryFlight cid exporter now nonce) (wd_flights w)\<rparr>)"
| logout: "auth_step P to_nfc cfg w (w\<lparr>wd_service := snd (auth_logout P faults token (wd_service w))\<rparr>)"
| prune: "auth_step P to_nfc cfg w (w\<lparr>wd_service := snd (auth_prune faults now (wd_service w))\<rparr>)"
| other: "auth_frame (av_store (wd_service w)) s \<Longrightarrow>
    auth_step P to_nfc cfg w (w\<lparr>wd_service := (wd_service w)\<lparr>av_store := s\<rparr>\<rparr>)"

inductive auth_reach :: "primitives \<Rightarrow> (bytes \<Rightarrow> bytes) \<Rightarrow> auth_config \<Rightarrow> world \<Rightarrow> bool" for P to_nfc cfg where
  start: "auth_reach P to_nfc cfg world_new"
| step: "auth_reach P to_nfc cfg w \<Longrightarrow> auth_step P to_nfc cfg w w' \<Longrightarrow> auth_reach P to_nfc cfg w'"

section \<open>Every session was earned\<close>

text \<open>A proof for the account \<open>name\<close> on the channel \<open>exporter\<close>, shown at \<open>now\<close>, valid under \<open>key\<close> for a nonce issued to
  this account.\<close>

definition shown_proof :: "primitives \<Rightarrow> (bytes \<Rightarrow> bytes) \<Rightarrow> auth_config \<Rightarrow> world \<Rightarrow> string \<Rightarrow> bytes \<Rightarrow> bytes \<Rightarrow> u64 \<Rightarrow> bool" where
  "shown_proof P to_nfc cfg w name key exporter now \<longleftrightarrow>
     (\<exists>nonce timestamp proof. (nonce, name) \<in> wd_issued w \<and> (name, timestamp, proof, exporter, now) \<in> wd_shown w \<and>
        verify_proof P to_nfc key (ag_server_id cfg) exporter nonce timestamp proof)"

definition user_login :: "primitives \<Rightarrow> (bytes \<Rightarrow> bytes) \<Rightarrow> auth_config \<Rightarrow> world \<Rightarrow> bytes \<Rightarrow> bytes \<Rightarrow> u64 \<Rightarrow> bool" where
  "user_login P to_nfc cfg w user_id exporter now \<longleftrightarrow>
     (\<exists>name u. user_by_name name (av_store (wd_service w)) = Some u \<and> us_user_id u = user_id \<and>
        shown_proof P to_nfc cfg w name (us_sig_pub u) exporter now)"

definition recovery_login :: "primitives \<Rightarrow> (bytes \<Rightarrow> bytes) \<Rightarrow> auth_config \<Rightarrow> world \<Rightarrow> bytes \<Rightarrow> u64 \<Rightarrow> bool" where
  "recovery_login P to_nfc cfg w exporter now \<longleftrightarrow>
     (\<exists>acct cid. get_recovery_account (av_store (wd_service w)) = Some acct \<and>
        shown_proof P to_nfc cfg w (recovery_nonce_key cid) (ra_sig_pub acct) exporter now)"

definition earned_session :: "primitives \<Rightarrow> (bytes \<Rightarrow> bytes) \<Rightarrow> auth_config \<Rightarrow> world \<Rightarrow> session_record \<Rightarrow> bool" where
  "earned_session P to_nfc cfg w r \<longleftrightarrow> (\<exists>now. unat (se_expires_at_ms r) = unat now + unat (ag_session_ttl_ms cfg) \<and>
     (user_login P to_nfc cfg w (se_user_id r) (se_tls_exporter r) now \<or>
      se_user_id r = id_raw RECOVERY_ID \<and> recovery_login P to_nfc cfg w (se_tls_exporter r) now))"

fun flight_ok :: "primitives \<Rightarrow> (bytes \<Rightarrow> bytes) \<Rightarrow> auth_config \<Rightarrow> world \<Rightarrow> flight \<Rightarrow> bool" where
  "flight_ok P to_nfc cfg w (ProveFlight name exporter now None) = True"
| "flight_ok P to_nfc cfg w (ProveFlight name exporter now (Some (nonce, u))) = user_login P to_nfc cfg w (us_user_id u) exporter now"
| "flight_ok P to_nfc cfg w (RecoveryFlight cid exporter now nonce) = recovery_login P to_nfc cfg w exporter now"

definition world_ok :: "primitives \<Rightarrow> (bytes \<Rightarrow> bytes) \<Rightarrow> auth_config \<Rightarrow> world \<Rightarrow> bool" where
  "world_ok P to_nfc cfg w \<longleftrightarrow>
     (\<forall>(n, r) \<in> set (in_nonces (av_store (wd_service w))). (n, no_username r) \<in> wd_issued w) \<and>
     (\<forall>f \<in> set (wd_flights w). flight_ok P to_nfc cfg w f) \<and>
     (\<forall>(h, r) \<in> set (in_sessions (av_store (wd_service w))). earned_session P to_nfc cfg w r)"

text \<open>Evidence is never lost.\<close>

definition evidence_grows :: "world \<Rightarrow> world \<Rightarrow> bool" where
  "evidence_grows w w' \<longleftrightarrow> wd_issued w \<subseteq> wd_issued w' \<and> wd_shown w \<subseteq> wd_shown w' \<and>
     in_users (av_store (wd_service w)) \<subseteq>\<^sub>m in_users (av_store (wd_service w')) \<and>
     (\<forall>acct. in_recovery_account (av_store (wd_service w)) = Some acct \<longrightarrow> in_recovery_account (av_store (wd_service w')) = Some acct)"

lemma shown_proof_mono: "evidence_grows w w' \<Longrightarrow> shown_proof P to_nfc cfg w name key exporter now \<Longrightarrow>
    shown_proof P to_nfc cfg w' name key exporter now"
  unfolding shown_proof_def evidence_grows_def by blast

lemma user_login_mono:
  assumes "evidence_grows w w'" and "user_login P to_nfc cfg w uid' exporter now"
  shows "user_login P to_nfc cfg w' uid' exporter now"
proof -
  from assms(2) obtain name u where "user_by_name name (av_store (wd_service w)) = Some u" "us_user_id u = uid'"
    "shown_proof P to_nfc cfg w name (us_sig_pub u) exporter now" unfolding user_login_def by blast
  moreover from this(1) assms(1) have "user_by_name name (av_store (wd_service w')) = Some u"
    unfolding evidence_grows_def user_by_name_def by (metis domI map_le_def)
  ultimately show ?thesis using shown_proof_mono [OF assms(1)] unfolding user_login_def by blast
qed

lemma recovery_login_mono: "evidence_grows w w' \<Longrightarrow> recovery_login P to_nfc cfg w exporter now \<Longrightarrow>
    recovery_login P to_nfc cfg w' exporter now"
  unfolding recovery_login_def get_recovery_account_def by (metis shown_proof_mono evidence_grows_def)

lemma earned_session_mono: "evidence_grows w w' \<Longrightarrow> earned_session P to_nfc cfg w r \<Longrightarrow> earned_session P to_nfc cfg w' r"
  unfolding earned_session_def using user_login_mono recovery_login_mono by blast

lemma flight_ok_mono: "evidence_grows w w' \<Longrightarrow> flight_ok P to_nfc cfg w f \<Longrightarrow> flight_ok P to_nfc cfg w' f"
  by (cases "(P, to_nfc, cfg, w, f)" rule: flight_ok.cases) (auto intro: user_login_mono recovery_login_mono)

text \<open>What the store operations can add to the two tables.\<close>

definition nonce_pairs :: "inner \<Rightarrow> (bytes \<times> string) set" where
  "nonce_pairs s = (\<lambda>(n, r). (n, no_username r)) ` set (in_nonces s)"

definition session_facts :: "inner \<Rightarrow> (bytes \<times> bytes \<times> u64) set" where
  "session_facts s = (\<lambda>(h, r). (se_user_id r, se_tls_exporter r, se_expires_at_ms r)) ` set (in_sessions s)"

lemma set_update_sub: "set (AList.update k v m) \<subseteq> insert (k, v) (set m)"
  by (induction m) auto

lemma set_fold_delete_sub: "set (fold AList.delete ks m) \<subseteq> set m"
proof (induction ks arbitrary: m)
  case (Cons k ks)
  have "set (fold AList.delete ks (AList.delete k m)) \<subseteq> set (AList.delete k m)" by (rule Cons.IH)
  also have "\<dots> \<subseteq> set m" by (auto simp: AList.delete_eq)
  finally show ?case by simp
qed simp

lemma set_sweep_sub: "set (snd (sweep expiry cutoff limit m)) \<subseteq> set m"
  using set_fold_delete_sub by (auto simp: sweep_def Let_def)

lemma insert_nonce_pairs: "nonce_pairs (insert_nonce n u e s) \<subseteq> insert (n, u) (nonce_pairs s)"
  using set_update_sub by (fastforce simp: nonce_pairs_def insert_nonce_def)

lemma consume_nonce_pairs: "nonce_pairs (consume_nonce n s) \<subseteq> nonce_pairs s"
proof (cases "map_of (in_nonces s) n")
  case (Some r)
  from map_of_SomeD [OF Some] have "(n, no_username r) \<in> nonce_pairs s" by (force simp: nonce_pairs_def)
  with Some show ?thesis using set_update_sub [of n "r\<lparr>no_used := True\<rparr>" "in_nonces s"]
    by (fastforce simp: nonce_pairs_def consume_nonce_def)
qed (simp add: consume_nonce_def)

lemma insert_session_facts: "session_facts (insert_session h r s) \<subseteq>
    insert (se_user_id r, se_tls_exporter r, se_expires_at_ms r) (session_facts s)"
  using set_update_sub by (fastforce simp: session_facts_def insert_session_def)

lemma revoke_session_facts: "session_facts (revoke_session h s) \<subseteq> session_facts s"
proof (cases "map_of (in_sessions s) h")
  case (Some r)
  from map_of_SomeD [OF Some] have "(se_user_id r, se_tls_exporter r, se_expires_at_ms r) \<in> session_facts s"
    by (force simp: session_facts_def)
  with Some show ?thesis using set_update_sub [of h "r\<lparr>se_revoked := True\<rparr>" "in_sessions s"]
    by (fastforce simp: session_facts_def revoke_session_def)
qed (simp add: revoke_session_def)

lemma other_table [simp]:
  "session_facts (insert_nonce n u e s) = session_facts s" "session_facts (consume_nonce n s) = session_facts s"
  "nonce_pairs (insert_session h r s) = nonce_pairs s" "nonce_pairs (revoke_session h s) = nonce_pairs s"
  by (auto simp: session_facts_def nonce_pairs_def insert_nonce_def consume_nonce_def insert_session_def
      revoke_session_def split: option.splits)

lemma accounts_kept [simp]:
  "in_users (insert_nonce n u e s) = in_users s" "in_users (consume_nonce n s) = in_users s"
  "in_users (insert_session h r s) = in_users s" "in_users (revoke_session h s) = in_users s"
  "in_recovery_account (insert_nonce n u e s) = in_recovery_account s"
  "in_recovery_account (consume_nonce n s) = in_recovery_account s"
  "in_recovery_account (insert_session h r s) = in_recovery_account s"
  "in_recovery_account (revoke_session h s) = in_recovery_account s"
  by (auto simp: insert_nonce_def consume_nonce_def insert_session_def revoke_session_def split: option.splits)

lemma prune_tables:
  assumes "prune_expired_auth_rows now grace batch s = (c, s')"
  shows "nonce_pairs s' \<subseteq> nonce_pairs s \<and> session_facts s' \<subseteq> session_facts s \<and>
    in_users s' = in_users s \<and> in_recovery_account s' = in_recovery_account s"
proof -
  obtain a t where a: "sweep se_expires_at_ms (saturating_sub now grace) (unat batch) (in_sessions s) = (a, t)" by fastforce
  obtain b u where b: "sweep no_expires_at_ms (saturating_sub now grace) (unat batch) (in_nonces s) = (b, u)" by fastforce
  have "s' = s\<lparr>in_sessions := t, in_nonces := u\<rparr>"
    using assms a b by (simp add: prune_expired_auth_rows_def Let_def)
  moreover have "set t \<subseteq> set (in_sessions s)" "set u \<subseteq> set (in_nonces s)"
    using set_sweep_sub a b by (metis snd_conv)+
  ultimately show ?thesis by (auto simp: nonce_pairs_def session_facts_def)
qed

text \<open>The invariant in these terms, and the one argument all steps share.\<close>

definition earned_facts :: "primitives \<Rightarrow> (bytes \<Rightarrow> bytes) \<Rightarrow> auth_config \<Rightarrow> world \<Rightarrow> bytes \<times> bytes \<times> u64 \<Rightarrow> bool" where
  "earned_facts P to_nfc cfg w = (\<lambda>(u, x, e). earned_session P to_nfc cfg w
     \<lparr>se_user_id = u, se_tls_exporter = x, se_expires_at_ms = e, se_revoked = False\<rparr>)"

lemma world_ok_iff:
  "world_ok P to_nfc cfg w \<longleftrightarrow> nonce_pairs (av_store (wd_service w)) \<subseteq> wd_issued w \<and>
     (\<forall>f \<in> set (wd_flights w). flight_ok P to_nfc cfg w f) \<and>
     (\<forall>x \<in> session_facts (av_store (wd_service w)). earned_facts P to_nfc cfg w x)"
  unfolding world_ok_def nonce_pairs_def session_facts_def earned_facts_def earned_session_def by auto

lemma world_ok_grow:
  assumes "world_ok P to_nfc cfg w" and "evidence_grows w w'"
    and "nonce_pairs (av_store (wd_service w')) \<subseteq> nonce_pairs (av_store (wd_service w)) \<union> wd_issued w'"
    and "\<And>f. f \<in> set (wd_flights w') \<Longrightarrow> f \<in> set (wd_flights w) \<or> flight_ok P to_nfc cfg w' f"
    and "\<And>x. x \<in> session_facts (av_store (wd_service w')) \<Longrightarrow>
      x \<in> session_facts (av_store (wd_service w)) \<or> earned_facts P to_nfc cfg w' x"
  shows "world_ok P to_nfc cfg w'"
proof -
  have "earned_facts P to_nfc cfg w' x" if "earned_facts P to_nfc cfg w x" for x
    using that earned_session_mono [OF assms(2)] by (auto simp: earned_facts_def)
  moreover have "wd_issued w \<subseteq> wd_issued w'" using assms(2) by (simp add: evidence_grows_def)
  ultimately show ?thesis
    using assms(1,3,4,5) flight_ok_mono [OF assms(2)] unfolding world_ok_iff by blast
qed

lemma user_login_found:
  assumes "nonce_pairs (av_store (wd_service w)) \<subseteq> wd_issued w"
    and "prove_find P to_nfc cfg faults name timestamp proof exporter now (wd_service w) = Inr (Some (n, u))"
    and "w' = w\<lparr>wd_flights := fs, wd_shown := insert (name, timestamp, proof, exporter, now) (wd_shown w)\<rparr>"
  shows "user_login P to_nfc cfg w' (us_user_id u) exporter now"
proof -
  from assms(2) have "match_nonce (\<lambda>pk nonce. verify_proof P to_nfc pk (ag_server_id cfg) exporter nonce timestamp proof)
      (user_by_name name (av_store (wd_service w))) (outstanding_nonces name now (av_store (wd_service w))) = Some (n, u)"
    by (auto simp: prove_find_def split: sum.splits option.splits)
  from match_nonce_Some [OF this] have u: "user_by_name name (av_store (wd_service w)) = Some u"
    and n: "n \<in> set (outstanding_nonces name now (av_store (wd_service w)))"
    and v: "verify_proof P to_nfc (us_sig_pub u) (ag_server_id cfg) exporter n timestamp proof" by simp_all
  from n have "(n, name) \<in> nonce_pairs (av_store (wd_service w))"
    by (force simp: outstanding_nonces_iff nonce_pairs_def)
  with assms(1) have "(n, name) \<in> wd_issued w" by blast
  then have "shown_proof P to_nfc cfg w' name (us_sig_pub u) exporter now"
    unfolding shown_proof_def assms(3)
    by (intro exI [of _ n] exI [of _ timestamp] exI [of _ "proof"]) (simp add: v)
  with u show ?thesis unfolding user_login_def assms(3) by auto
qed

lemma recovery_login_found:
  assumes "nonce_pairs (av_store (wd_service w)) \<subseteq> wd_issued w"
    and "recovery_find P to_nfc cfg faults cid timestamp proof exporter now (wd_service w) = Inr n"
    and "w' = w\<lparr>wd_flights := fs, wd_shown := insert (recovery_nonce_key cid, timestamp, proof, exporter, now) (wd_shown w)\<rparr>"
  shows "recovery_login P to_nfc cfg w' exporter now"
proof -
  from assms(2) obtain acct where acct: "get_recovery_account (av_store (wd_service w)) = Some acct"
    and "find (\<lambda>nonce. verify_proof P to_nfc (ra_sig_pub acct) (ag_server_id cfg) exporter nonce timestamp proof)
      (outstanding_nonces (recovery_nonce_key cid) now (av_store (wd_service w))) = Some n"
    by (auto simp: recovery_find_def ok_or_def split: option.splits)
  then have n: "n \<in> set (outstanding_nonces (recovery_nonce_key cid) now (av_store (wd_service w)))"
    and v: "verify_proof P to_nfc (ra_sig_pub acct) (ag_server_id cfg) exporter n timestamp proof"
    by (auto simp: find_Some_iff)
  from n have "(n, recovery_nonce_key cid) \<in> nonce_pairs (av_store (wd_service w))"
    by (force simp: outstanding_nonces_iff nonce_pairs_def)
  with assms(1) have "(n, recovery_nonce_key cid) \<in> wd_issued w" by blast
  then have "shown_proof P to_nfc cfg w' (recovery_nonce_key cid) (ra_sig_pub acct) exporter now"
    unfolding shown_proof_def assms(3)
    by (intro exI [of _ n] exI [of _ timestamp] exI [of _ "proof"]) (simp add: v)
  with acct show ?thesis unfolding recovery_login_def assms(3) by auto
qed

text \<open>What the writing halves do to the store.\<close>

lemma prove_commit_store:
  assumes "prove_commit P cfg faults token name exporter now found sv = Some (r, sv')"
  shows "nonce_pairs (av_store sv') \<subseteq> nonce_pairs (av_store sv) \<and>
    in_users (av_store sv') = in_users (av_store sv) \<and> in_recovery_account (av_store sv') = in_recovery_account (av_store sv) \<and>
    (\<forall>x \<in> session_facts (av_store sv'). x \<in> session_facts (av_store sv) \<or>
       (\<exists>n u e. found = Some (n, u) \<and> unat e = unat now + unat (ag_session_ttl_ms cfg) \<and> x = (us_user_id u, exporter, e)))"
proof (cases found)
  case None
  then show ?thesis using assms by (auto simp: prove_commit_def bind_eq_Some_conv)
next
  case (Some f)
  obtain n u where f: "f = (n, u)" by fastforce
  show ?thesis
  proof (cases "faults CallConsumeNonce")
    case None
    obtain e where add: "checked_add now (ag_session_ttl_ms cfg) = Some e"
      using assms Some f None by (auto simp: prove_commit_def bind_eq_Some_conv Let_def)
    then have e: "unat e = unat now + unat (ag_session_ttl_ms cfg)" by (simp add: checked_add_Some)
    have s: "av_store sv' = consume_nonce n (av_store sv) \<or> (\<exists>h. av_store sv' = insert_session h
        \<lparr>se_user_id = us_user_id u, se_tls_exporter = exporter, se_expires_at_ms = e, se_revoked = False\<rparr>
        (consume_nonce n (av_store sv)))"
      using assms Some f None add by (auto simp: prove_commit_def bind_eq_Some_conv Let_def split: option.splits)
    from s show ?thesis
    proof
      assume "av_store sv' = consume_nonce n (av_store sv)"
      then show ?thesis using consume_nonce_pairs by auto
    next
      assume "\<exists>h. av_store sv' = insert_session h
        \<lparr>se_user_id = us_user_id u, se_tls_exporter = exporter, se_expires_at_ms = e, se_revoked = False\<rparr>
        (consume_nonce n (av_store sv))"
      then show ?thesis using consume_nonce_pairs insert_session_facts Some f e by fastforce
    qed
  qed (use assms Some f in \<open>auto simp: prove_commit_def\<close>)
qed

lemma recovery_commit_store:
  assumes "recovery_commit P cfg faults token exporter now n sv = Some (r, sv')"
  shows "nonce_pairs (av_store sv') \<subseteq> nonce_pairs (av_store sv) \<and>
    in_users (av_store sv') = in_users (av_store sv) \<and> in_recovery_account (av_store sv') = in_recovery_account (av_store sv) \<and>
    (\<forall>x \<in> session_facts (av_store sv'). x \<in> session_facts (av_store sv) \<or>
       (\<exists>e. unat e = unat now + unat (ag_session_ttl_ms cfg) \<and> x = (id_raw RECOVERY_ID, exporter, e)))"
proof (cases "faults CallConsumeNonce")
  case None
  obtain e where add: "checked_add now (ag_session_ttl_ms cfg) = Some e"
    using assms None by (auto simp: recovery_commit_def bind_eq_Some_conv Let_def)
  then have e: "unat e = unat now + unat (ag_session_ttl_ms cfg)" by (simp add: checked_add_Some)
  have s: "av_store sv' = consume_nonce n (av_store sv) \<or> (\<exists>h. av_store sv' = insert_session h
      \<lparr>se_user_id = id_raw RECOVERY_ID, se_tls_exporter = exporter, se_expires_at_ms = e, se_revoked = False\<rparr>
      (consume_nonce n (av_store sv)))"
    using assms None add by (auto simp: recovery_commit_def bind_eq_Some_conv Let_def split: option.splits)
  from s show ?thesis
  proof
    assume "av_store sv' = consume_nonce n (av_store sv)"
    then show ?thesis using consume_nonce_pairs by auto
  next
    assume "\<exists>h. av_store sv' = insert_session h
      \<lparr>se_user_id = id_raw RECOVERY_ID, se_tls_exporter = exporter, se_expires_at_ms = e, se_revoked = False\<rparr>
      (consume_nonce n (av_store sv))"
    then show ?thesis using consume_nonce_pairs insert_session_facts e by fastforce
  qed
qed (use assms in \<open>auto simp: recovery_commit_def\<close>)

lemma challenge_store:
  assumes "auth_challenge cfg faults nonce name now sv = Some (r, sv')"
  shows "nonce_pairs (av_store sv') \<subseteq> nonce_pairs (av_store sv) \<union> (case r of Inl _ \<Rightarrow> {} | Inr _ \<Rightarrow> {(nonce, name)}) \<and>
    session_facts (av_store sv') = session_facts (av_store sv) \<and> in_users (av_store sv') = in_users (av_store sv) \<and>
    in_recovery_account (av_store sv') = in_recovery_account (av_store sv)"
proof -
  from assms obtain a accounts where "admit_challenge (ag_rate_limit cfg) name now (av_accounts sv) = Some (a, accounts)"
    by (auto simp: auth_challenge_def bind_eq_Some_conv)
  with assms show ?thesis
    by (cases a) (auto dest!: insert_nonce_pairs [THEN subsetD] simp: auth_challenge_def bind_eq_Some_conv Let_def split: option.splits)
qed

lemma recovery_challenge_store:
  assumes "auth_recovery_challenge P cfg faults nonce cid eph random now sv = Some (r, sv')"
  shows "nonce_pairs (av_store sv') \<subseteq> nonce_pairs (av_store sv) \<union>
      (if r = Inl ReNoAccount then {} else {(nonce, recovery_nonce_key cid)}) \<and>
    session_facts (av_store sv') = session_facts (av_store sv) \<and> in_users (av_store sv') = in_users (av_store sv) \<and>
    in_recovery_account (av_store sv') = in_recovery_account (av_store sv)"
proof -
  consider "av_store sv' = av_store sv"
    | e where "av_store sv' = insert_nonce nonce (recovery_nonce_key cid) e (av_store sv)" "r \<noteq> Inl ReNoAccount"
  proof (cases "faults CallRecoveryAccount = None \<and> get_recovery_account (av_store sv) \<noteq> None \<and> faults CallInsertNonce = None")
    case True
    then obtain acct where acct: "get_recovery_account (av_store sv) = Some acct" by blast
    obtain e where e: "checked_add now (ag_nonce_ttl_ms cfg) = Some e"
      using assms True acct by (auto simp: auth_recovery_challenge_def bind_eq_Some_conv)
    have "r \<noteq> Inl ReNoAccount"
      using assms True acct e by (cases "ra_mlkem_pub acct")
        (auto simp: auth_recovery_challenge_def Let_def rbind_eq_Inl map_err_eq_Inl)
    then show thesis
      using assms True acct e that(2) [of e] by (auto simp: auth_recovery_challenge_def Let_def)
  next
    case False
    then show thesis
      using assms that(1) by (auto simp: auth_recovery_challenge_def bind_eq_Some_conv split: option.splits)
  qed
  then show ?thesis by cases (auto dest!: insert_nonce_pairs [THEN subsetD])
qed

lemma auth_step_ok:
  assumes "auth_step P to_nfc cfg w w'" and "world_ok P to_nfc cfg w"
  shows "world_ok P to_nfc cfg w'"
proof -
  have pairs: "nonce_pairs (av_store (wd_service w)) \<subseteq> wd_issued w" using assms(2) by (simp add: world_ok_iff)
  from assms(1) show ?thesis
  proof cases
    case (challenge faults nonce name now r sv)
    note store = challenge_store [OF challenge(2)]
    show ?thesis
      by (rule world_ok_grow [OF assms(2)]) (use store in \<open>auto simp: challenge(1) evidence_grows_def\<close>)
  next
    case (prove_read faults name timestamp "proof" exporter now found)
    have "flight_ok P to_nfc cfg w' (ProveFlight name exporter now found)"
    proof (cases found)
      case (Some f)
      obtain n u where f: "f = (n, u)" by fastforce
      from user_login_found [OF pairs prove_read(2) [unfolded Some f] prove_read(1)] Some f show ?thesis by simp
    qed simp
    then show ?thesis
      by (intro world_ok_grow [OF assms(2)]) (auto simp: prove_read(1) evidence_grows_def)
  next
    case (prove_write name exporter now found faults token r sv)
    note store = prove_commit_store [OF prove_write(3)]
    have grows: "evidence_grows w w'" using store by (simp add: prove_write(1) evidence_grows_def)
    from assms(2) prove_write(2) have "flight_ok P to_nfc cfg w (ProveFlight name exporter now found)"
      unfolding world_ok_iff by blast
    then have ok: "flight_ok P to_nfc cfg w' (ProveFlight name exporter now found)" by (rule flight_ok_mono [OF grows])
    show ?thesis
    proof (rule world_ok_grow [OF assms(2) grows])
      fix x assume "x \<in> session_facts (av_store (wd_service w'))"
      then show "x \<in> session_facts (av_store (wd_service w)) \<or> earned_facts P to_nfc cfg w' x"
        using store ok by (fastforce simp: prove_write(1) earned_facts_def earned_session_def)
    qed (use store in \<open>auto simp: prove_write(1) dest: set_remove1_subset [THEN subsetD]\<close>)
  next
    case (recovery_challenge faults nonce cid eph random now r sv)
    note store = recovery_challenge_store [OF recovery_challenge(2)]
    show ?thesis
      by (rule world_ok_grow [OF assms(2)]) (use store in \<open>auto simp: recovery_challenge(1) evidence_grows_def\<close>)
  next
    case (recovery_read faults cid timestamp "proof" exporter now nonce)
    from recovery_login_found [OF pairs recovery_read(2,1)] show ?thesis
      by (intro world_ok_grow [OF assms(2)]) (auto simp: recovery_read(1) evidence_grows_def)
  next
    case (recovery_write cid exporter now nonce faults token r sv)
    note store = recovery_commit_store [OF recovery_write(3)]
    have grows: "evidence_grows w w'" using store by (simp add: recovery_write(1) evidence_grows_def)
    from assms(2) recovery_write(2) have "flight_ok P to_nfc cfg w (RecoveryFlight cid exporter now nonce)"
      unfolding world_ok_iff by blast
    then have ok: "flight_ok P to_nfc cfg w' (RecoveryFlight cid exporter now nonce)" by (rule flight_ok_mono [OF grows])
    show ?thesis
    proof (rule world_ok_grow [OF assms(2) grows])
      fix x assume "x \<in> session_facts (av_store (wd_service w'))"
      then show "x \<in> session_facts (av_store (wd_service w)) \<or> earned_facts P to_nfc cfg w' x"
        using store ok by (fastforce simp: recovery_write(1) earned_facts_def earned_session_def)
    qed (use store in \<open>auto simp: recovery_write(1) dest: set_remove1_subset [THEN subsetD]\<close>)
  next
    case (logout faults token)
    show ?thesis
      by (rule world_ok_grow [OF assms(2)])
        (use revoke_session_facts in \<open>auto simp: logout evidence_grows_def auth_logout_def split: option.splits\<close>)
  next
    case (prune faults now)
    obtain c s' where p: "prune_expired_auth_rows now AUTH_PRUNE_GRACE_MS AUTH_PRUNE_BATCH (av_store (wd_service w)) = (c, s')"
      by fastforce
    show ?thesis
      by (rule world_ok_grow [OF assms(2)])
        (use prune_tables [OF p] in \<open>auto simp: prune evidence_grows_def auth_prune_def p split: option.splits\<close>)
  next
    case (other s)
    then show ?thesis
      by (intro world_ok_grow [OF assms(2)])
        (auto simp: auth_frame_def evidence_grows_def nonce_pairs_def session_facts_def)
  qed
qed

lemma world_new_ok: "world_ok P to_nfc cfg world_new"
  by (simp add: world_ok_def world_new_def auth_new_def store_new_def)

text \<open>C5: No session without a login: in every interleaving of requests, with whatever backend faults, clocks, logouts and
  prunings, whoever a token admits on a channel is a registered user, or the recovery principal, for whose account
  a valid proof over a nonce issued to this account was shown on the same channel less than a session lifetime ago.\<close>

theorem session_was_earned:
  assumes "auth_reach P to_nfc cfg w" and "validate_session P faults token exporter now (wd_service w) = Inr user_id"
  shows "\<exists>t. unat now < unat t + unat (ag_session_ttl_ms cfg) \<and>
    (user_login P to_nfc cfg w user_id exporter t \<or>
     user_id = id_raw RECOVERY_ID \<and> recovery_login P to_nfc cfg w exporter t)"
proof -
  from assms(1) have ok: "world_ok P to_nfc cfg w"
    by induction (auto intro: world_new_ok auth_step_ok)
  from assms(2) obtain r where r: "get_session (pr_sha P token) (av_store (wd_service w)) = Some r" "now < se_expires_at_ms r"
    "se_tls_exporter r = exporter" "se_user_id r = user_id"
    by (auto simp: validate_session_def not_le split: option.splits if_splits)
  from map_of_SomeD [OF r(1) [unfolded get_session_def]] ok have "earned_session P to_nfc cfg w r"
    by (auto simp: world_ok_def)
  with r show ?thesis unfolding earned_session_def by (auto simp: word_less_nat_alt)
qed

lemma toy_session:
  "\<exists>w. auth_reach toy_prims id auth_config_default w \<and>
     validate_session toy_prims no_faults [8] [6] 3000 (wd_service w) = Inr [9]"
proof -
  let ?R = "auth_reach toy_prims id auth_config_default"
  obtain sv1 where ch: "auth_challenge auth_config_default no_faults [7] ''alice'' 1000 toy_service = Some (Inr toy_issued, sv1)"
    "admit_proof ''alice'' 2000 (av_accounts sv1) = Inr ()" using toy_login(5) by blast
  obtain sv2 where p: "prove toy_prims id auth_config_default no_faults [8] ''alice'' 5 [1] [6] 2000 sv1 = Some (Inr (SessionToken [8]), sv2)"
    and v: "\<forall>t'. unat t' < 3602000 \<longrightarrow> validate_session toy_prims no_faults [8] [6] t' sv2 = Inr (us_user_id toy_user)"
    using honest_login [OF toy_login(1-3) ch(1) toy_login(4) _ ch(2), of "[8]"] by (auto simp: auth_config_default_def)
  from p obtain found where f: "prove_find toy_prims id auth_config_default no_faults ''alice'' 5 [1] [6] 2000 sv1 = Inr found"
    "prove_commit toy_prims auth_config_default no_faults [8] ''alice'' [6] 2000 found sv1 = Some (Inr (SessionToken [8]), sv2)"
    by (auto simp: prove_def split: sum.splits)
  have "\<exists>w. ?R w \<and> wd_service w = toy_service"
    using auth_reach.step [OF auth_reach.start auth_step.other [OF auth_frame_ops(1) [of _ "''alice''" "[4]" "[1]" "[9]"]]]
    by (force simp: toy_service_def world_new_def auth_new_def)
  then obtain w where "?R w" "wd_service w = toy_service" by blast
  with auth_reach.step [OF this(1) auth_step.challenge] ch(1) obtain w where w: "?R w" "wd_service w = sv1" by force
  from auth_reach.step [OF w(1) auth_step.prove_read] f(1) w(2)
  obtain w' where w': "?R w'" "wd_service w' = sv1" "ProveFlight ''alice'' [6] 2000 found \<in> set (wd_flights w')" by force
  from auth_reach.step [OF w'(1) auth_step.prove_write [OF w'(3)]] f(2) w'(2)
  obtain w'' where "?R w''" "wd_service w'' = sv2" by force
  with v show ?thesis by (auto simp: toy_user_def)
qed

theorem session_was_earned_witness:
  "\<exists>w t. user_login toy_prims id auth_config_default w [9] [6] t \<and> 3000 < unat t + 3600000"
proof -
  from toy_session obtain w where w: "auth_reach toy_prims id auth_config_default w"
    "validate_session toy_prims no_faults [8] [6] 3000 (wd_service w) = Inr [9]" by blast
  have "[9] \<noteq> id_raw RECOVERY_ID"
    by (simp add: RECOVERY_ID_def numeral_eq_Suc)
  with session_was_earned [OF w] show ?thesis
    by (auto simp: auth_config_default_def)
qed

section \<open>One nonce, one session\<close>

text \<open>Requests that do not overlap, with their outcomes.\<close>

datatype auth_event = Challenged string "challenge_error + challenge" | Proved string "prove_error + session_token"

inductive auth_run :: "primitives \<Rightarrow> (bytes \<Rightarrow> bytes) \<Rightarrow> auth_config \<Rightarrow> auth_service \<Rightarrow> auth_event list \<Rightarrow> auth_service \<Rightarrow> bool"
  for P to_nfc cfg where
  idle: "auth_run P to_nfc cfg sv [] sv"
| challenge: "auth_run P to_nfc cfg sv es sv1 \<Longrightarrow> auth_challenge cfg faults nonce name now sv1 = Some (r, sv2) \<Longrightarrow>
    auth_run P to_nfc cfg sv (es @ [Challenged name r]) sv2"
| prove: "auth_run P to_nfc cfg sv es sv1 \<Longrightarrow>
    prove P to_nfc cfg faults token name timestamp proof exporter now sv1 = Some (r, sv2) \<Longrightarrow>
    auth_run P to_nfc cfg sv (es @ [Proved name r]) sv2"

fun granted :: "string \<Rightarrow> auth_event \<Rightarrow> bool" where
  "granted name (Challenged n (Inr c)) = (n = name)"
| "granted name _ = False"

fun minted :: "string \<Rightarrow> auth_event \<Rightarrow> bool" where
  "minted name (Proved n (Inr t)) = (n = name)"
| "minted name _ = False"

definition unused :: "string \<Rightarrow> inner \<Rightarrow> nat" where
  "unused name s = length (filter (\<lambda>(n, r). no_username r = name \<and> \<not> no_used r) (in_nonces s))"

lemma filter_update_le:
  "length (filter A (AList.update k v m)) \<le> length (filter A m) + (if A (k, v) then 1 else 0)"
  by (induction m) auto

lemma filter_update_less:
  "map_of m k = Some v \<Longrightarrow> A (k, v) \<Longrightarrow> \<not> A (k, v') \<Longrightarrow> length (filter A (AList.update k v' m)) < length (filter A m)"
  by (induction m) (auto split: if_splits)

lemma unused_insert: "unused name (insert_nonce n name' e s) \<le> unused name s + (if name = name' then 1 else 0)"
  using filter_update_le [of "\<lambda>(n, r). no_username r = name \<and> \<not> no_used r" n "\<lparr>no_username = name', no_expires_at_ms = e, no_used = False\<rparr>" "in_nonces s"]
  by (auto simp: unused_def insert_nonce_def)

lemma unused_consume_le: "unused name (consume_nonce n s) \<le> unused name s"
proof (cases "map_of (in_nonces s) n")
  case (Some r)
  then show ?thesis
    using filter_update_le [of "\<lambda>(n, r). no_username r = name \<and> \<not> no_used r" n "r\<lparr>no_used := True\<rparr>" "in_nonces s"]
    by (auto simp: unused_def consume_nonce_def)
qed (simp add: consume_nonce_def)

lemma unused_consume_less:
  assumes "n \<in> set (outstanding_nonces name now s)" and "distinct (map fst (in_nonces s))"
  shows "unused name (consume_nonce n s) < unused name s"
proof -
  from assms(1) obtain r where r: "(n, r) \<in> set (in_nonces s)" "no_username r = name" "\<not> no_used r"
    by (auto simp: outstanding_nonces_iff)
  with assms(2) have "map_of (in_nonces s) n = Some r" by simp
  with r show ?thesis
    using filter_update_less [of "in_nonces s" n r "\<lambda>(n, r). no_username r = name \<and> \<not> no_used r" "r\<lparr>no_used := True\<rparr>"]
    by (simp add: unused_def consume_nonce_def)
qed

lemma nonces_distinct:
  "distinct (map fst (in_nonces s)) \<Longrightarrow> distinct (map fst (in_nonces (insert_nonce n u e s)))"
  "distinct (map fst (in_nonces s)) \<Longrightarrow> distinct (map fst (in_nonces (consume_nonce n s)))"
  by (auto simp: insert_nonce_def consume_nonce_def distinct_update split: option.splits)

lemma insert_session_nonces [simp]: "in_nonces (insert_session h r s) = in_nonces s"
  by (simp add: insert_session_def)

lemma unused_insert_session [simp]: "unused name (insert_session h r s) = unused name s"
  by (simp add: unused_def)

lemma challenge_unused:
  assumes "auth_challenge cfg faults nonce name' now sv = Some (r, sv')" and "distinct (map fst (in_nonces (av_store sv)))"
  shows "unused name (av_store sv') \<le> unused name (av_store sv) + (if granted name (Challenged name' r) then 1 else 0) \<and>
    distinct (map fst (in_nonces (av_store sv')))"
proof -
  from assms obtain a accounts where "admit_challenge (ag_rate_limit cfg) name' now (av_accounts sv) = Some (a, accounts)"
    by (auto simp: auth_challenge_def bind_eq_Some_conv)
  then consider "av_store sv' = av_store sv" | e c where "av_store sv' = insert_nonce nonce name' e (av_store sv)" "r = Inr c"
    using assms(1) by (cases a) (auto simp: auth_challenge_def bind_eq_Some_conv Let_def split: option.splits)
  then show ?thesis
    using unused_insert [of name nonce name' _ "av_store sv"] nonces_distinct(1) assms(2) by cases auto
qed

lemma prove_unused:
  assumes "prove P to_nfc cfg faults token name' timestamp proof exporter now sv = Some (r, sv')"
    and "distinct (map fst (in_nonces (av_store sv)))"
  shows "unused name (av_store sv') + (if minted name (Proved name' r) then 1 else 0) \<le> unused name (av_store sv) \<and>
    distinct (map fst (in_nonces (av_store sv')))"
proof (cases "prove_find P to_nfc cfg faults name' timestamp proof exporter now sv")
  case (Inl e)
  then show ?thesis using assms by (auto simp: prove_def)
next
  case found: (Inr found)
  show ?thesis
  proof (cases found)
    case None
    then show ?thesis using assms found by (auto simp: prove_def prove_commit_def bind_eq_Some_conv)
  next
    case (Some f)
    obtain n u where f: "f = (n, u)" by fastforce
    with found Some have "match_nonce (\<lambda>pk nonce. verify_proof P to_nfc pk (ag_server_id cfg) exporter nonce timestamp proof)
        (user_by_name name' (av_store sv)) (outstanding_nonces name' now (av_store sv)) = Some (n, u)"
      by (auto simp: prove_find_def split: sum.splits option.splits)
    then have out: "n \<in> set (outstanding_nonces name' now (av_store sv))" by (auto dest: match_nonce_Some)
    consider "av_store sv' = av_store sv" "\<not> minted name (Proved name' r)"
      | "unused name (av_store sv') = unused name (consume_nonce n (av_store sv))"
        "in_nonces (av_store sv') = in_nonces (consume_nonce n (av_store sv))"
      using assms(1) found Some f
      by (auto simp: prove_def prove_commit_def bind_eq_Some_conv Let_def split: option.splits)
    then show ?thesis
    proof cases
      case 1
      then show ?thesis using assms(2) by simp
    next
      case 2
      then show ?thesis
        using unused_consume_le [of name n "av_store sv"] unused_consume_less [OF out assms(2)] nonces_distinct(2) [OF assms(2)]
        by (cases r) auto
    qed
  qed
qed

text \<open>One session per challenge: as long as no two requests overlap, an account has at most as many sessions minted
  as challenges were granted to it, so a proof is good for one session.\<close>

theorem one_session_per_challenge:
  assumes "auth_run P to_nfc cfg sv es sv'" and "in_nonces (av_store sv) = []"
  shows "length (filter (minted name) es) + unused name (av_store sv') \<le> length (filter (granted name) es)"
proof -
  have "auth_run P to_nfc cfg sv es sv' \<Longrightarrow> in_nonces (av_store sv) = [] \<Longrightarrow>
      length (filter (minted name) es) + unused name (av_store sv') \<le> length (filter (granted name) es) \<and>
      distinct (map fst (in_nonces (av_store sv')))"
  proof (induction rule: auth_run.induct)
    case (idle sv)
    then show ?case by (simp add: unused_def)
  next
    case (challenge sv es sv1 faults nonce name' now r sv2)
    then show ?case using challenge_unused [OF challenge(2), of name] by auto
  next
    case (prove sv es sv1 faults token name' timestamp "proof" exporter now r sv2)
    then show ?case using prove_unused [OF prove(2), of name] by auto
  qed
  with assms show ?thesis by simp
qed

lemma toy_run:
  "\<exists>sv1 sv2 f. auth_challenge auth_config_default no_faults [7] ''alice'' 1000 toy_service = Some (Inr toy_issued, sv1) \<and>
     prove_find toy_prims id auth_config_default no_faults ''alice'' 5 [1] [6] 2000 sv1 = Inr (Some f) \<and>
     prove toy_prims id auth_config_default no_faults [8] ''alice'' 5 [1] [6] 2000 sv1 = Some (Inr (SessionToken [8]), sv2)"
proof -
  obtain sv1 where ch: "auth_challenge auth_config_default no_faults [7] ''alice'' 1000 toy_service = Some (Inr toy_issued, sv1)"
    "admit_proof ''alice'' 2000 (av_accounts sv1) = Inr ()" using toy_login(5) by blast
  obtain sv2 where p: "prove toy_prims id auth_config_default no_faults [8] ''alice'' 5 [1] [6] 2000 sv1 = Some (Inr (SessionToken [8]), sv2)"
    using honest_login [OF toy_login(1-3) ch(1) toy_login(4) _ ch(2), of "[8]"] by (auto simp: auth_config_default_def)
  then obtain found where f: "prove_find toy_prims id auth_config_default no_faults ''alice'' 5 [1] [6] 2000 sv1 = Inr found"
    "prove_commit toy_prims auth_config_default no_faults [8] ''alice'' [6] 2000 found sv1 = Some (Inr (SessionToken [8]), sv2)"
    by (auto simp: prove_def split: sum.splits)
  then have "found \<noteq> None" by (cases found) (auto simp: prove_commit_def bind_eq_Some_conv)
  with ch(1) p f(1) show ?thesis by auto
qed

theorem one_session_per_challenge_witness:
  "\<exists>sv2. auth_run toy_prims id auth_config_default toy_service
       [Challenged ''alice'' (Inr toy_issued), Proved ''alice'' (Inr (SessionToken [8]))] sv2 \<and>
     unused ''alice'' (av_store sv2) = 0"
proof -
  from toy_run obtain sv1 sv2 where
    ch: "auth_challenge auth_config_default no_faults [7] ''alice'' 1000 toy_service = Some (Inr toy_issued, sv1)"
    and p: "prove toy_prims id auth_config_default no_faults [8] ''alice'' 5 [1] [6] 2000 sv1 = Some (Inr (SessionToken [8]), sv2)"
    by blast
  from auth_run.prove [OF auth_run.challenge [OF auth_run.idle ch] p]
  have run: "auth_run toy_prims id auth_config_default toy_service
       [Challenged ''alice'' (Inr toy_issued), Proved ''alice'' (Inr (SessionToken [8]))] sv2" by simp
  have "in_nonces (av_store toy_service) = []"
    by (simp add: toy_service_def auth_new_def create_user_def store_new_def)
  from one_session_per_challenge [OF run this, of "''alice''"] run show ?thesis by auto
qed

text \<open>Requests that overlap break this: \<open>consume_nonce\<close> does not say whether the nonce was still unused, so two
  proofs that were both checked before either consumed the nonce each mint a session.\<close>

theorem overlapping_proofs_both_mint:
  assumes "prove_find P to_nfc cfg no_faults name timestamp proof exporter now sv = Inr (Some f)"
    and "unat now + unat (ag_session_ttl_ms cfg) < 2 ^ 64" and "pr_sha P token1 \<noteq> pr_sha P token2"
    and "0 < ag_session_ttl_ms cfg"
  shows "\<exists>sv1 sv2. prove_commit P cfg no_faults token1 name exporter now (Some f) sv = Some (Inr (SessionToken token1), sv1) \<and>
    prove_commit P cfg no_faults token2 name exporter now (Some f) sv1 = Some (Inr (SessionToken token2), sv2) \<and>
    validate_session P no_faults token1 exporter now sv2 = Inr (us_user_id (snd f)) \<and>
    validate_session P no_faults token2 exporter now sv2 = Inr (us_user_id (snd f))"
proof -
  obtain until where until: "checked_add now (ag_session_ttl_ms cfg) = Some until"
    using assms(2) by (auto simp: checked_add_def)
  then have "\<not> until \<le> now" using assms(4) by (auto simp: checked_add_Some word_le_nat_alt word_less_nat_alt)
  moreover have "in_sessions (consume_nonce n s) = in_sessions s" for n s
    by (simp add: consume_nonce_def split: option.splits)
  ultimately show ?thesis
    using assms(3) by (cases f) (auto simp: prove_commit_def record_proof_def Let_def until validate_session_def get_session_def
        insert_session_def update_conv)
qed

theorem overlapping_proofs_both_mint_witness:
  "\<exists>sv user_id. validate_session toy_prims no_faults [8] [6] 2000 sv = Inr user_id \<and>
     validate_session toy_prims no_faults [3] [6] 2000 sv = Inr user_id"
proof -
  from toy_run obtain sv1 f where
    "prove_find toy_prims id auth_config_default no_faults ''alice'' 5 [1] [6] 2000 sv1 = Inr (Some f)" by blast
  from overlapping_proofs_both_mint [OF this, of "[8]" "[3]"] show ?thesis
    by (auto simp: auth_config_default_def toy_prims_with_def)
qed

end
