(* ===== verification/AdminCore.thy ===== *)
theory AdminCore
  imports Revocation Directory Download
begin

text \<open>
  The offline ceremonies: \<^verbatim>\<open>crates/admin-core/src/control.rs\<close>, \<^verbatim>\<open>directory.rs\<close>, \<^verbatim>\<open>recovery.rs\<close>,
  \<^verbatim>\<open>subtree.rs\<close> and \<^verbatim>\<open>sweep.rs\<close>. A signing key is its secret, used through \<open>pr_ed_sign\<close>. The three record families
  of \<open>ControlRecord\<close> are those of \<open>decoded\<close>. The outer option of an issuing operation is the overflow
  panic of an epoch counter.
\<close>

datatype ceremony_error = FingerprintMismatch | DualControlRequired

section \<open>Control records\<close>

type_synonym control_record = decoded

record co_sign =
  cs_admin_id :: ident
  cs_key :: bytes

record revoke_params =
  rp_scope :: file_scope
  rp_revoked_user_id :: ident
  rp_revoked_capability :: "role option"
  rp_from_version :: u64
  rp_issued_by :: ident
  rp_created_at :: timestamp

record reinstate_params =
  sp_scope :: file_scope
  sp_reinstated_user_id :: ident
  sp_supersedes_epoch :: u64
  sp_issued_by :: ident
  sp_created_at :: timestamp

record key_compromise_params =
  kp_user_id :: ident
  kp_key_version :: u64
  kp_effective_from :: timestamp
  kp_issued_by :: ident
  kp_created_at :: timestamp

record signed_control_record =
  sr_record :: control_record
  sr_bytes :: bytes
  sr_head :: bytes
  sr_sig :: bytes
  sr_co_sig :: "bytes option"

fun record_label :: "control_record \<Rightarrow> string" where
  "record_label (DRevocation _) = L_REVOCATION"
| "record_label (DReinstatement _) = L_REINSTATEMENT"
| "record_label (DKeyCompromise _) = L_KEY_COMPROMISE"

fun record_sign :: "primitives \<Rightarrow> bytes \<Rightarrow> control_record \<Rightarrow> bytes" where
  "record_sign P key (DRevocation r) = sign_canonical (pr_ed_sign P) key L_REVOCATION TYPE_REVOCATION put_revocation r"
| "record_sign P key (DReinstatement r) =
     sign_canonical (pr_ed_sign P) key L_REINSTATEMENT TYPE_REINSTATEMENT put_reinstatement r"
| "record_sign P key (DKeyCompromise r) =
     sign_canonical (pr_ed_sign P) key L_KEY_COMPROMISE TYPE_KEY_COMPROMISE put_key_compromise r"

text \<open>\<open>prev_head\<close>, \<open>canonical\<close> and \<open>verify_with\<close> of \<open>ControlRecord\<close> are \<open>d_prev_head\<close>, \<open>d_bytes\<close> and
  \<open>verify_canonical_of\<close> of the client's record type, which has the same three families.\<close>

fun record_epoch :: "signed_control_record \<Rightarrow> u64 option" where
  "record_epoch s = (case sr_record s of
     DRevocation r \<Rightarrow> Some (rv_revocation_epoch r)
   | DReinstatement r \<Rightarrow> Some (ri_reinstatement_epoch r)
   | DKeyCompromise _ \<Rightarrow> None)"

definition signed_verify :: "primitives \<Rightarrow> signed_control_record \<Rightarrow> bytes \<Rightarrow> crypto_error + unit" where
  "signed_verify P s issuer_pub =
     rbind (vk_from_bytes (pr_vk_valid P) issuer_pub) (\<lambda>vk. verify_canonical_of (pr_strict P) vk (sr_sig s) (sr_record s))"

definition verify_co_sign :: "primitives \<Rightarrow> signed_control_record \<Rightarrow> bytes \<Rightarrow> crypto_error + unit" where
  "verify_co_sign P s co_pub =
     rbind (ok_or (sr_co_sig s) SignatureError) (\<lambda>sig.
     rbind (vk_from_bytes (pr_vk_valid P) co_pub) (\<lambda>vk. verify_canonical_of (pr_strict P) vk sig (sr_record s)))"

section \<open>The chain\<close>

type_synonym epochs = "bytes option \<rightharpoonup> u64"

record control_chain =
  cc_head :: bytes
  cc_revoke_epochs :: epochs
  cc_reinstate_epochs :: epochs

definition chain_resume :: "bytes \<Rightarrow> control_chain" where
  "chain_resume head = \<lparr>cc_head = head, cc_revoke_epochs = Map.empty, cc_reinstate_epochs = Map.empty\<rparr>"

definition chain_new :: control_chain where "chain_new = chain_resume (b32_raw GENESIS_HEAD)"

definition next_epoch :: "epochs \<Rightarrow> file_scope \<Rightarrow> (u64 \<times> epochs) option" where
  "next_epoch epochs scope =
     (let key = (case scope of Specific i \<Rightarrow> Some (id_raw i) | AccountWide \<Rightarrow> None);
          e = (case epochs key of None \<Rightarrow> 0 | Some e \<Rightarrow> e)
      in Option.bind (checked_add e 1) (\<lambda>e. Some (e, epochs(key \<mapsto> e))))"

text \<open>\<open>finish\<close>: canonicalize, hash into the head, sign and co-sign, advance.\<close>

definition chain_finish :: "primitives \<Rightarrow> control_record \<Rightarrow> bytes \<Rightarrow> bytes option \<Rightarrow> control_chain
    \<Rightarrow> signed_control_record \<times> control_chain" where
  "chain_finish P record issuer co_key c =
     (let bytes = d_bytes record;
          head = pr_sha P bytes;
          sig = record_sign P issuer record;
          co_sig = map_option (\<lambda>k. record_sign P k record) co_key;
          c = c\<lparr>cc_head := head\<rparr>
      in (\<lparr>sr_record = record, sr_bytes = bytes, sr_head = head, sr_sig = sig, sr_co_sig = co_sig\<rparr>, c))"

definition revoke :: "primitives \<Rightarrow> bytes \<Rightarrow> revoke_params \<Rightarrow> co_sign option \<Rightarrow> control_chain
    \<Rightarrow> ((ceremony_error + signed_control_record) \<times> control_chain) option" where
  "revoke P issuer params co_sign c =
     (if rp_scope params = AccountWide \<and> co_sign = None then Some (Inl DualControlRequired, c)
      else Option.bind (next_epoch (cc_revoke_epochs c) (rp_scope params)) (\<lambda>(epoch, epochs).
        let c = c\<lparr>cc_revoke_epochs := epochs\<rparr>;
            record = DRevocation \<lparr>rv_scope = rp_scope params, rv_revoked_user_id = rp_revoked_user_id params,
              rv_revoked_capability = rp_revoked_capability params, rv_from_version = rp_from_version params,
              rv_revocation_epoch = epoch, rv_prev_head = Bytes32 (cc_head c), rv_issued_by = rp_issued_by params,
              rv_co_signed_by = map_option cs_admin_id co_sign, rv_created_at = rp_created_at params\<rparr>;
            (signed, c) = chain_finish P record issuer (map_option cs_key co_sign) c
        in Some (Inr signed, c)))"

definition reinstate :: "primitives \<Rightarrow> bytes \<Rightarrow> reinstate_params \<Rightarrow> co_sign \<Rightarrow> control_chain
    \<Rightarrow> (signed_control_record \<times> control_chain) option" where
  "reinstate P issuer params co_sign c =
     Option.bind (next_epoch (cc_reinstate_epochs c) (sp_scope params)) (\<lambda>(epoch, epochs).
     let c = c\<lparr>cc_reinstate_epochs := epochs\<rparr>;
         record = DReinstatement \<lparr>ri_scope = sp_scope params, ri_reinstated_user_id = sp_reinstated_user_id params,
           ri_supersedes_epoch = sp_supersedes_epoch params, ri_reinstatement_epoch = epoch,
           ri_prev_head = Bytes32 (cc_head c), ri_issued_by = sp_issued_by params,
           ri_co_signed_by = cs_admin_id co_sign, ri_created_at = sp_created_at params\<rparr>
     in Some (chain_finish P record issuer (Some (cs_key co_sign)) c))"

definition compromise :: "primitives \<Rightarrow> bytes \<Rightarrow> key_compromise_params \<Rightarrow> co_sign \<Rightarrow> control_chain
    \<Rightarrow> signed_control_record \<times> control_chain" where
  "compromise P issuer params co_sign c =
     (let record = DKeyCompromise \<lparr>kc_user_id = kp_user_id params, kc_key_version = kp_key_version params,
        kc_effective_from = kp_effective_from params, kc_prev_head = Bytes32 (cc_head c),
        kc_issued_by = kp_issued_by params, kc_co_signed_by = cs_admin_id co_sign, kc_created_at = kp_created_at params\<rparr>
      in chain_finish P record issuer (Some (cs_key co_sign)) c)"

section \<open>Enrolment\<close>

record signed_binding =
  sb_binding :: dir_binding
  sb_binding_sig :: bytes

definition sign_binding :: "primitives \<Rightarrow> bytes \<Rightarrow> dir_binding \<Rightarrow> mlkem_pub option \<Rightarrow> signed_binding" where
  "sign_binding P d5 binding mlkem =
     (let binding = binding\<lparr>db_mlkem_pub := mlkem\<rparr>
      in \<lparr>sb_binding = binding,
          sb_binding_sig = sign_canonical (pr_ed_sign P) d5 L_DIRBINDING TYPE_DIR_BINDING put_dir_binding binding\<rparr>)"

definition sign_enrollment :: "primitives \<Rightarrow> bytes \<Rightarrow> dir_binding \<Rightarrow> bytes \<Rightarrow> ceremony_error + signed_binding" where
  "sign_enrollment P d5 binding confirmed_fingerprint =
     (if fingerprint P (b32_raw (db_enc_pub binding)) (b32_raw (db_sig_pub binding)) \<noteq> confirmed_fingerprint
      then Inl FingerprintMismatch
      else Inr (sign_binding P d5 binding (db_mlkem_pub binding)))"

definition signed_fingerprint :: "primitives \<Rightarrow> signed_binding \<Rightarrow> bytes" where
  "signed_fingerprint P s =
     fingerprint P (b32_raw (db_enc_pub (sb_binding s))) (b32_raw (db_sig_pub (sb_binding s)))"

definition signed_binding_verify :: "primitives \<Rightarrow> signed_binding \<Rightarrow> bytes \<Rightarrow> crypto_error + unit" where
  "signed_binding_verify P s dir_pub =
     rbind (vk_from_bytes (pr_vk_valid P) dir_pub) (\<lambda>vk.
     verify_canonical (pr_strict P) vk L_DIRBINDING TYPE_DIR_BINDING put_dir_binding (sb_binding s) (sb_binding_sig s))"

section \<open>Recovery grants and the sweep\<close>

record recovery_grant_params =
  rg_admin_sig :: bytes
  rg_admin_id :: ident
  rg_file_id :: ident
  rg_version :: u64
  rg_dek_commit :: bytes
  rg_recipient_id :: ident
  rg_recipient_enc_pub :: bytes
  rg_created_at :: timestamp

record recovery_grant_out =
  ro_recipient_id :: ident
  ro_wrapped_dek :: wrapped_dek
  ro_grant :: grant
  ro_grant_sig :: bytes

datatype recovery_grant_error = RgDekCommitMismatch | RgWrapFailed

definition build_recovery_grant :: "primitives \<Rightarrow> bytes \<Rightarrow> recovery_grant_params \<Rightarrow> dek
    \<Rightarrow> recovery_grant_error + recovery_grant_out" where
  "build_recovery_grant P random params dek =
     (if commit P dek \<noteq> rg_dek_commit params then Inl RgDekCommitMismatch
      else
        let ctx = \<lparr>wc_file_id = rg_file_id params, wc_version = rg_version params,
              wc_recipient_id = rg_recipient_id params\<rparr>
        in rbind (map_err (\<lambda>_. RgWrapFailed) (wrap_dek P random (rg_recipient_enc_pub params) dek ctx)) (\<lambda>wrapped_dek.
           let grant = \<lparr>gr_file_id = rg_file_id params, gr_file_version = rg_version params,
                 gr_recipient_id = rg_recipient_id params, gr_recipient_type = RtUser,
                 gr_dek_commit = Bytes32 (rg_dek_commit params), gr_granted_by = rg_admin_id params,
                 gr_created_at = rg_created_at params\<rparr>;
               grant_sig = sign_canonical (pr_ed_sign P) (rg_admin_sig params) L_GRANT TYPE_GRANT put_grant grant
           in Inr \<lparr>ro_recipient_id = rg_recipient_id params, ro_wrapped_dek = wrapped_dek, ro_grant = grant,
                ro_grant_sig = grant_sig\<rparr>))"

record recovery_wrap_ctx =
  rw_file_id :: ident
  rw_version :: u64

datatype sweep_error = WrapUndecryptable | WrapMismatch

definition validate_recovery_wrap :: "primitives \<Rightarrow> bytes \<Rightarrow> bytes \<Rightarrow> bytes \<Rightarrow> recovery_wrap_ctx \<Rightarrow> sweep_error + unit" where
  "validate_recovery_wrap P recovery_priv wrap dek_commit ctx =
     (if length wrap < 32 then Inl WrapUndecryptable
      else
        let wrapped = \<lparr>wd_enc = take 32 wrap, wd_ct = drop 32 wrap\<rparr>;
            wrap_ctx = \<lparr>wc_file_id = rw_file_id ctx, wc_version = rw_version ctx, wc_recipient_id = RECOVERY_ID\<rparr>
        in rbind (map_err (\<lambda>_. WrapUndecryptable) (unwrap_dek P recovery_priv wrapped wrap_ctx)) (\<lambda>dek.
           if commit P dek \<noteq> dek_commit then Inl WrapMismatch else Inr ()))"

record recovery_sample =
  rs_file_id :: ident
  rs_version :: u64
  rs_wrap :: bytes
  rs_dek_commit :: bytes

record sweep_report =
  sw_checked :: nat
  sw_bad :: "recovery_wrap_ctx list"

definition run_sweep :: "primitives \<Rightarrow> bytes \<Rightarrow> recovery_sample list \<Rightarrow> sweep_report" where
  "run_sweep P recovery_priv samples =
     (let bad = List.map_filter (\<lambda>s.
        let ctx = \<lparr>rw_file_id = rs_file_id s, rw_version = rs_version s\<rparr>
        in if \<not> is_ok (validate_recovery_wrap P recovery_priv (rs_wrap s) (rs_dek_commit s) ctx) then Some ctx else None)
        samples
      in \<lparr>sw_checked = length samples, sw_bad = bad\<rparr>)"

section \<open>The subtree of a revoked user\<close>

record audit_edge =
  ae_file_id :: ident
  ae_granted_by :: ident
  ae_recipient :: ident

text \<open>The inner loop over the edges of a node: new recipients are marked and pushed.\<close>

fun push_recipients :: "ident set \<Rightarrow> audit_edge list \<Rightarrow> ident list \<times> ident set \<Rightarrow> ident list \<times> ident set" where
  "push_recipients avoid [] state = state"
| "push_recipients avoid (e # es) (stack, seen) =
     (if ae_recipient e \<in> avoid then push_recipients avoid es (stack, seen)
      else if ae_recipient e \<in> seen then push_recipients avoid es (stack, seen)
      else push_recipients avoid es (ae_recipient e # stack, insert (ae_recipient e) seen))"

lemma push_recipients_measure:
  "push_recipients avoid es (stack, seen) = (stack', seen') \<Longrightarrow> finite U \<Longrightarrow> ae_recipient ` set es \<subseteq> U \<Longrightarrow>
    2 * card (U - seen') + length stack' \<le> 2 * card (U - seen) + length stack"
proof (induction avoid es "(stack, seen)" arbitrary: stack seen rule: push_recipients.induct)
  case (2 avoid e es stack seen)
  show ?case
  proof (cases "ae_recipient e \<in> avoid \<or> ae_recipient e \<in> seen")
    case True
    with 2 show ?thesis by (auto split: if_splits)
  next
    case False
    then have new: "ae_recipient e \<in> U - seen" using 2(6) by auto
    have "U - insert (ae_recipient e) seen = (U - seen) - {ae_recipient e}" by auto
    then have "card (U - insert (ae_recipient e) seen) + 1 = card (U - seen)"
      using card_Suc_Diff1 [OF finite_Diff [OF 2(5)] new] by simp
    with 2(3) 2(4-6) False show ?thesis by auto
  qed
qed simp

text \<open>The head of the list is the top of the stack.\<close>

function reach_loop :: "audit_edge list \<Rightarrow> ident \<Rightarrow> ident set \<Rightarrow> ident list \<Rightarrow> ident set \<Rightarrow> ident set" where
  "reach_loop edges file_id avoid [] seen = seen"
| "reach_loop edges file_id avoid (node # stack) seen =
     (if node \<in> avoid then reach_loop edges file_id avoid stack seen
      else (case push_recipients avoid [e \<leftarrow> edges. ae_file_id e = file_id \<and> ae_granted_by e = node] (stack, seen) of
         (stack, seen) \<Rightarrow> reach_loop edges file_id avoid stack seen))"
  by pat_completeness auto
termination
proof (relation "measure (\<lambda>(edges, _, _, stack, seen). 2 * card (ae_recipient ` set edges - seen) + length stack)", goal_cases)
  case (3 edges file_id avoid node stack seen stack' seen')
  have "ae_recipient ` set [e \<leftarrow> edges. ae_file_id e = file_id \<and> ae_granted_by e = node] \<subseteq> ae_recipient ` set edges" by auto
  from push_recipients_measure [OF 3(2) [symmetric] _ this] show ?case by simp
qed auto

definition reachable_from :: "ident \<Rightarrow> audit_edge list \<Rightarrow> ident \<Rightarrow> ident set \<Rightarrow> ident set" where
  "reachable_from start edges file_id avoid = reach_loop edges file_id avoid [start] {}"

definition revocation_subtree :: "audit_edge list \<Rightarrow> ident \<Rightarrow> ident \<Rightarrow> ident \<Rightarrow> ident set" where
  "revocation_subtree edges file_id r owner =
     (let blocked = {r};
          authorized = reachable_from owner edges file_id blocked;
          from_r = reachable_from r edges file_id {}
      in insert r {node \<in> from_r. node \<notin> authorized})"

end
