(* ===== verification/AdminCore_Laws.thy ===== *)
theory AdminCore_Laws
  imports AdminCore GrantChain
begin

text \<open>
  What the ceremonies guarantee to the parties that consume their output: the client accepts an authorised record
  on top of the log it verified, the subtree of a revoked user is the reachability set it is documented as, and
  epochs identify revocations within one chain, but not across resumed ones.
\<close>

section \<open>Subtree\<close>

text \<open>The grants for a file, into users outside \<open>avoid\<close>.\<close>

definition grants :: "audit_edge list \<Rightarrow> ident \<Rightarrow> ident set \<Rightarrow> (ident \<times> ident) set" where
  "grants edges file_id avoid =
     {(ae_granted_by e, ae_recipient e) | e. e \<in> set edges \<and> ae_file_id e = file_id \<and> ae_recipient e \<notin> avoid}"

lemma push_recipients_spec:
  "push_recipients avoid es (stack, seen) = (stack', seen') \<Longrightarrow>
    seen' = seen \<union> (ae_recipient ` set es - avoid) \<and> set stack' = set stack \<union> (ae_recipient ` set es - avoid - seen)"
  by (induction avoid es "(stack, seen)" arbitrary: stack seen rule: push_recipients.induct) (auto split: if_splits)

text \<open>Marked nodes are expanded or still on the stack.\<close>

definition expanded :: "('a \<times> 'a) set \<Rightarrow> 'a set \<Rightarrow> 'a set \<Rightarrow> bool" where
  "expanded E stack seen \<longleftrightarrow> (\<forall>a \<in> seen. a \<in> stack \<or> E `` {a} \<subseteq> seen)"

lemma expanded_reach:
  assumes "expanded E stack seen" and "(a, b) \<in> E\<^sup>+" and "a \<in> seen"
  shows "b \<in> seen \<union> E\<^sup>+ `` stack"
  using assms(2)
proof (induction rule: trancl_induct)
  case (base y)
  with assms(1,3) show ?case by (auto simp: expanded_def)
next
  case (step y z)
  then show ?case using assms(1) by (auto simp: expanded_def intro: trancl_into_trancl)
qed

lemma reach_loop_set:
  assumes "expanded (grants edges file_id avoid) (set stack - avoid) seen"
  shows "reach_loop edges file_id avoid stack seen = seen \<union> (grants edges file_id avoid)\<^sup>+ `` (set stack - avoid)"
  using assms
proof (induction edges file_id avoid stack seen rule: reach_loop.induct)
  case (2 edges file_id avoid node stack seen)
  let ?E = "grants edges file_id avoid" and ?S = "set stack - avoid"
  show ?case
  proof (cases "node \<in> avoid")
    case True
    with 2(1) [OF True] 2(3) show ?thesis by simp
  next
    case False
    obtain stack' seen' where p: "push_recipients avoid [e \<leftarrow> edges. ae_file_id e = file_id \<and> ae_granted_by e = node] (stack, seen) = (stack', seen')"
      by fastforce
    have "ae_recipient ` set [e \<leftarrow> edges. ae_file_id e = file_id \<and> ae_granted_by e = node] - avoid = ?E `` {node}"
      by (auto simp: grants_def)
    with push_recipients_spec [OF p] have s: "seen' = seen \<union> ?E `` {node}" "set stack' - avoid = ?S \<union> (?E `` {node} - seen)"
      by (auto simp: grants_def)
    have ex: "expanded ?E (set stack' - avoid) seen'" using 2(3) s False by (auto simp: expanded_def)
    have loop: "reach_loop edges file_id avoid (node # stack) seen = seen' \<union> ?E\<^sup>+ `` (set stack' - avoid)"
      using 2(2) [OF False p [symmetric] ex] False p by simp
    have "b \<in> seen' \<union> ?E\<^sup>+ `` (set stack' - avoid)" if "(node, b) \<in> ?E\<^sup>+" for b
    proof -
      from that obtain a where a: "(node, a) \<in> ?E" "b = a \<or> (a, b) \<in> ?E\<^sup>+" by (metis converse_tranclE)
      then have "a \<in> seen'" using s by blast
      with a(2) expanded_reach [OF ex] show ?thesis by blast
    qed
    then have "?E\<^sup>+ `` {node} \<subseteq> seen' \<union> ?E\<^sup>+ `` (set stack' - avoid)" by blast
    moreover have "seen' \<subseteq> seen \<union> ?E\<^sup>+ `` {node}" using s by auto
    moreover have "?E\<^sup>+ `` (?E `` {node}) \<subseteq> ?E\<^sup>+ `` {node}" by (auto intro: trancl_into_trancl2)
    then have "?E\<^sup>+ `` (set stack' - avoid) \<subseteq> ?E\<^sup>+ `` ?S \<union> ?E\<^sup>+ `` {node}" using s by blast
    moreover have "?E\<^sup>+ `` ?S \<subseteq> ?E\<^sup>+ `` (set stack' - avoid)" using s by blast
    moreover have "?E\<^sup>+ `` (set (node # stack) - avoid) = ?E\<^sup>+ `` ?S \<union> ?E\<^sup>+ `` {node}" using False by auto
    moreover have "seen \<subseteq> seen'" using s by blast
    ultimately show ?thesis unfolding loop by blast
  qed
qed simp

lemma reachable_from_set:
  "reachable_from start edges file_id avoid = (if start \<in> avoid then {} else (grants edges file_id avoid)\<^sup>+ `` {start})"
  unfolding reachable_from_def by (subst reach_loop_set) (auto simp: expanded_def)

text \<open>C12: The tombstones of a strong revocation: the revoked user and exactly those users some chain of grants for the
  file leads to from him but no chain of grants leads to from the owner without him. The walk over the edges
  ends on every graph, cyclic ones included.\<close>

theorem revocation_subtree_exact:
  "revocation_subtree edges file_id r owner =
     insert r ((grants edges file_id {})\<^sup>+ `` {r} - (if owner = r then {} else (grants edges file_id {r})\<^sup>+ `` {owner}))"
  by (auto simp: revocation_subtree_def reachable_from_set)

section \<open>Records the client accepts\<close>

text \<open>The commands of a ceremony; a refusal or an overflowing counter issues nothing.\<close>

datatype issue = Revoke bytes revoke_params "co_sign option" | Reinstate bytes reinstate_params co_sign
  | Compromise bytes key_compromise_params co_sign

fun issue_record :: "primitives \<Rightarrow> issue \<Rightarrow> control_chain \<Rightarrow> (signed_control_record \<times> control_chain) option" where
  "issue_record P (Revoke key params co) c =
     (case revoke P key params co c of Some (Inr s, c) \<Rightarrow> Some (s, c) | _ \<Rightarrow> None)"
| "issue_record P (Reinstate key params co) c = reinstate P key params co c"
| "issue_record P (Compromise key params co) c = Some (compromise P key params co c)"

text \<open>The directory knows the signer under the identity the record names, as an admin the log has not stripped.\<close>

definition admin_key :: "primitives \<Rightarrow> (ident \<Rightarrow> issuer_info option) \<Rightarrow> decoded list \<Rightarrow> ident \<Rightarrow> bytes \<Rightarrow> bool" where
  "admin_key P issuer ds who key \<longleftrightarrow> (\<exists>info. issuer who = Some info \<and> ii_sig_pub info = pr_ed_pub P key \<and>
     prefix_is_admin ds who (ii_roles info))"

fun by_admins :: "primitives \<Rightarrow> (ident \<Rightarrow> issuer_info option) \<Rightarrow> decoded list \<Rightarrow> issue \<Rightarrow> bool" where
  "by_admins P issuer ds (Revoke key params co) \<longleftrightarrow> admin_key P issuer ds (rp_issued_by params) key \<and>
     (case co of None \<Rightarrow> True
      | Some c \<Rightarrow> cs_admin_id c \<noteq> rp_issued_by params \<and> admin_key P issuer ds (cs_admin_id c) (cs_key c))"
| "by_admins P issuer ds (Reinstate key params c) \<longleftrightarrow> admin_key P issuer ds (sp_issued_by params) key \<and>
     cs_admin_id c \<noteq> sp_issued_by params \<and> admin_key P issuer ds (cs_admin_id c) (cs_key c)"
| "by_admins P issuer ds (Compromise key params c) \<longleftrightarrow> admin_key P issuer ds (kp_issued_by params) key \<and>
     cs_admin_id c \<noteq> kp_issued_by params \<and> admin_key P issuer ds (cs_admin_id c) (cs_key c)"

definition ed_ok :: "primitives \<Rightarrow> bool" where
  "ed_ok P \<longleftrightarrow> (\<forall>sk. pr_vk_valid P (pr_ed_pub P sk) \<and> (\<forall>m. pr_strict P (pr_ed_pub P sk) m (pr_ed_sign P sk m)))"

lemma record_sign_verifies:
  "ed_ok P \<Longrightarrow> verify_sig (pr_vk_valid P) (pr_strict P) (pr_ed_pub P key) (record_sign P key d) d"
  by (cases d) (simp_all add: ed_ok_def verify_sig_def vk_from_bytes_def sign_canonical_def verify_canonical_def)

text \<open>What every issuing command has in common.\<close>

definition shaped :: "primitives \<Rightarrow> control_chain \<Rightarrow> signed_control_record \<Rightarrow> control_chain \<Rightarrow> bytes \<Rightarrow> co_sign option \<Rightarrow> bool" where
  "shaped P c s c' key co \<longleftrightarrow> sr_bytes s = d_bytes (sr_record s) \<and> sr_head s = pr_sha P (sr_bytes s) \<and> cc_head c' = sr_head s \<and>
     d_prev_head (sr_record s) = cc_head c \<and> sr_sig s = record_sign P key (sr_record s) \<and>
     sr_co_sig s = map_option (\<lambda>k. record_sign P (cs_key k) (sr_record s)) co \<and>
     d_co_signed_by (sr_record s) = map_option cs_admin_id co \<and> (requires_dual_control (sr_record s) \<longrightarrow> co \<noteq> None)"

lemma chain_finish_shaped:
  assumes "chain_finish P d key (map_option cs_key co) c1 = (s, c')" and "cc_head c1 = cc_head c"
    and "d_prev_head d = cc_head c" and "d_co_signed_by d = map_option cs_admin_id co" and "requires_dual_control d \<longrightarrow> co \<noteq> None"
  shows "shaped P c s c' key co \<and> sr_record s = d"
  using assms by (auto simp: chain_finish_def Let_def shaped_def map_option.compositionality comp_def)

lemma revoke_record:
  assumes "revoke P key params co c = Some (Inr s, c')"
  obtains e es where "next_epoch (cc_revoke_epochs c) (rp_scope params) = Some (e, es)"
    "is_account_wide (rp_scope params) \<longrightarrow> co \<noteq> None"
    "chain_finish P (DRevocation \<lparr>rv_scope = rp_scope params, rv_revoked_user_id = rp_revoked_user_id params,
       rv_revoked_capability = rp_revoked_capability params, rv_from_version = rp_from_version params,
       rv_revocation_epoch = e, rv_prev_head = Bytes32 (cc_head c), rv_issued_by = rp_issued_by params,
       rv_co_signed_by = map_option cs_admin_id co, rv_created_at = rp_created_at params\<rparr>) key (map_option cs_key co)
       (c\<lparr>cc_revoke_epochs := es\<rparr>) = (s, c')"
proof -
  from assms have dual: "rp_scope params = AccountWide \<longrightarrow> co \<noteq> None" by (cases co) (auto simp: revoke_def)
  from assms obtain e es where n: "next_epoch (cc_revoke_epochs c) (rp_scope params) = Some (e, es)"
    by (auto simp: revoke_def bind_eq_Some_conv split: if_splits)
  have "is_account_wide (rp_scope params) \<longrightarrow> co \<noteq> None" using dual by (cases "rp_scope params") auto
  with assms n dual show thesis by (intro that [OF n]) (simp_all add: revoke_def Let_def split: prod.splits if_splits)
qed

lemma chain_finish_record: "chain_finish P d key co c = (s, c') \<Longrightarrow> sr_record s = d \<and> c' = c\<lparr>cc_head := pr_sha P (d_bytes d)\<rparr>"
  by (auto simp: chain_finish_def Let_def)

lemma revoke_issued:
  assumes "revoke P key params co c = Some (Inr s, c')"
  shows "shaped P c s c' key co \<and> d_issued_by (sr_record s) = rp_issued_by params"
proof (rule revoke_record [OF assms])
  fix e es
  assume "is_account_wide (rp_scope params) \<longrightarrow> co \<noteq> None"
    and f: "chain_finish P (DRevocation \<lparr>rv_scope = rp_scope params, rv_revoked_user_id = rp_revoked_user_id params,
       rv_revoked_capability = rp_revoked_capability params, rv_from_version = rp_from_version params,
       rv_revocation_epoch = e, rv_prev_head = Bytes32 (cc_head c), rv_issued_by = rp_issued_by params,
       rv_co_signed_by = map_option cs_admin_id co, rv_created_at = rp_created_at params\<rparr>) key (map_option cs_key co)
       (c\<lparr>cc_revoke_epochs := es\<rparr>) = (s, c')"
  with chain_finish_shaped [OF f, of c] show ?thesis by simp
qed

lemma reinstate_issued:
  assumes "reinstate P key params k c = Some (s, c')"
  shows "shaped P c s c' key (Some k) \<and> d_issued_by (sr_record s) = sp_issued_by params"
proof -
  from assms obtain e es where "next_epoch (cc_reinstate_epochs c) (sp_scope params) = Some (e, es)"
    by (auto simp: reinstate_def bind_eq_Some_conv)
  with assms have "chain_finish P (DReinstatement \<lparr>ri_scope = sp_scope params, ri_reinstated_user_id = sp_reinstated_user_id params,
      ri_supersedes_epoch = sp_supersedes_epoch params, ri_reinstatement_epoch = e,
      ri_prev_head = Bytes32 (cc_head c), ri_issued_by = sp_issued_by params,
      ri_co_signed_by = cs_admin_id k, ri_created_at = sp_created_at params\<rparr>) key (map_option cs_key (Some k))
      (c\<lparr>cc_reinstate_epochs := es\<rparr>) = (s, c')" by (simp add: reinstate_def Let_def)
  from chain_finish_shaped [OF this, of c] show ?thesis by simp
qed

lemma compromise_issued:
  assumes "compromise P key params k c = (s, c')"
  shows "shaped P c s c' key (Some k) \<and> d_issued_by (sr_record s) = kp_issued_by params"
proof -
  from assms have "chain_finish P (DKeyCompromise \<lparr>kc_user_id = kp_user_id params, kc_key_version = kp_key_version params,
      kc_effective_from = kp_effective_from params, kc_prev_head = Bytes32 (cc_head c), kc_issued_by = kp_issued_by params,
      kc_co_signed_by = cs_admin_id k, kc_created_at = kp_created_at params\<rparr>) key (map_option cs_key (Some k)) c = (s, c')"
    by (simp add: compromise_def Let_def)
  from chain_finish_shaped [OF this, of c] show ?thesis by simp
qed

lemma issue_record_shape:
  assumes "issue_record P i c = Some (s, c')" and "by_admins P issuer ds i"
  shows "\<exists>key co. shaped P c s c' key co \<and> admin_key P issuer ds (d_issued_by (sr_record s)) key \<and>
    (\<forall>k. co = Some k \<longrightarrow> cs_admin_id k \<noteq> d_issued_by (sr_record s) \<and> admin_key P issuer ds (cs_admin_id k) (cs_key k))"
proof (cases i)
  case (Revoke key params co)
  with assms(1) have "revoke P key params co c = Some (Inr s, c')" by (auto split: option.splits sum.splits)
  from revoke_issued [OF this] assms(2) Revoke show ?thesis by (intro exI [of _ key] exI [of _ co]) auto
next
  case (Reinstate key params k)
  with assms reinstate_issued [of P key params k c s c'] show ?thesis by (intro exI [of _ key] exI [of _ "Some k"]) auto
next
  case (Compromise key params k)
  with assms compromise_issued [of P key params k c s c'] show ?thesis by (intro exI [of _ key] exI [of _ "Some k"]) auto
qed

definition served :: "signed_control_record \<Rightarrow> control_record_in" where
  "served s = \<lparr>cr_bytes = sr_bytes s, cr_sig = sr_sig s, cr_co_sig = sr_co_sig s\<rparr>"

lemma verify_authenticated_append:
  assumes "verify_authenticated sha vk_valid strict recs h issuer = Inr (TombstoneSet ds)"
    and "from_bytes (cr_bytes rec) = Inr d" and "d_prev_head d = h" and "authorised vk_valid strict issuer ds d rec"
  shows "verify_authenticated sha vk_valid strict (recs @ [rec]) (sha (cr_bytes rec)) issuer = Inr (TombstoneSet (ds @ [d]))"
proof -
  have loop: "ts_auth_loop sha vk_valid strict issuer (recs @ rs) head acc =
      rbind (ts_auth_loop sha vk_valid strict issuer recs head acc) (\<lambda>(head, acc). ts_auth_loop sha vk_valid strict issuer rs head acc)"
    for rs head acc
    by (induction recs arbitrary: head acc) (auto simp: rbind_def split: sum.splits)
  from assms(1) have "ts_auth_loop sha vk_valid strict issuer recs (b32_raw GENESIS_HEAD) [] = Inr (h, ds)"
    by (auto simp: verify_authenticated_def rbind_eq_Inr split: if_splits)
  moreover have "authenticate_authority vk_valid strict d rec ds issuer = Inr ()"
    using assms(4) by (simp add: authenticate_authority_Inr)
  ultimately show ?thesis using assms(2,3) by (simp add: verify_authenticated_def loop)
qed

text \<open>A ceremony's record is accepted: whatever admins of the log verified so far issue with a chain at its head,
  with a second admin where the action needs one, the sink appends, moving to the chain's new head, and the client
  that verified the log accepts the log with it, under the same directory.\<close>

theorem ceremony_record_accepted:
  assumes "ed_ok P"
    and "verify_authenticated (pr_sha P) (pr_vk_valid P) (pr_strict P) recs (cc_head c) issuer = Inr (TombstoneSet ds)"
    and "issue_record P i c = Some (s, c')" and "by_admins P issuer ds i" and "d_ok (sr_record s)"
    and "cl_head st = cc_head c"
  shows "verify_authenticated (pr_sha P) (pr_vk_valid P) (pr_strict P) (recs @ [served s]) (cc_head c') issuer =
      Inr (TombstoneSet (ds @ [sr_record s])) \<and>
    (\<exists>a st'. control_log_append (pr_sha P) (sr_bytes s) st = (Inr a, st') \<and> cl_head st' = cc_head c')"
proof -
  obtain key co where shape: "shaped P c s c' key co" and issuer: "admin_key P issuer ds (d_issued_by (sr_record s)) key"
    and co: "\<forall>k. co = Some k \<longrightarrow> cs_admin_id k \<noteq> d_issued_by (sr_record s) \<and> admin_key P issuer ds (cs_admin_id k) (cs_key k)"
    using issue_record_shape [OF assms(3,4)] by blast
  note s = shape [unfolded shaped_def]
  have signed: "admin_signed (pr_vk_valid P) (pr_strict P) issuer ds (sr_record s) who (record_sign P k (sr_record s))"
    if "admin_key P issuer ds who k" for who k
    using that record_sign_verifies [OF assms(1), of k "sr_record s"] by (auto simp: admin_key_def admin_signed_def)
  have auth: "authorised (pr_vk_valid P) (pr_strict P) issuer ds (sr_record s) (served s)"
    using s signed [OF issuer] co signed by (auto simp: authorised_def served_def)
  have dec: "from_bytes (sr_bytes s) = Inr (sr_record s)" using assms(5) s by (simp add: from_bytes_iff)
  then have "peek_prev_head (sr_bytes s) = Inr (cc_head c)" using s by (simp add: peek_prev_head_from_bytes)
  then have "\<exists>a st'. control_log_append (pr_sha P) (sr_bytes s) st = (Inr a, st') \<and> cl_head st' = cc_head c'"
    using assms(6) s by (simp add: control_log_append_def Let_def)
  moreover have "verify_authenticated (pr_sha P) (pr_vk_valid P) (pr_strict P) (recs @ [served s]) (pr_sha P (cr_bytes (served s))) issuer =
      Inr (TombstoneSet (ds @ [sr_record s]))"
    by (rule verify_authenticated_append [OF assms(2) _ _ auth]) (use dec s in \<open>simp_all add: served_def\<close>)
  ultimately show ?thesis using s by (simp add: served_def)
qed

text \<open>A concrete ceremony: the first record of a log, by a known admin.\<close>

definition toy_issuer :: "ident \<Rightarrow> issuer_info option" where
  "toy_issuer i = (if i = uid 1 then Some \<lparr>ii_sig_pub = [1], ii_roles = [RoleAdmin], ii_key_version = 1\<rparr> else None)"

definition toy_revoke :: issue where
  "toy_revoke = Revoke [1] \<lparr>rp_scope = Specific (uid 7), rp_revoked_user_id = uid 3, rp_revoked_capability = None,
     rp_from_version = 2, rp_issued_by = uid 1, rp_created_at = Timestamp 5\<rparr> None"

theorem ceremony_record_accepted_witness:
  "\<exists>s c'. issue_record toy_prims toy_revoke chain_new = Some (s, c') \<and>
     verify_authenticated (pr_sha toy_prims) (pr_vk_valid toy_prims) (pr_strict toy_prims) [served s] (cc_head c') toy_issuer =
       Inr (TombstoneSet [sr_record s])"
proof -
  have ed: "ed_ok toy_prims" by (simp add: ed_ok_def toy_prims_with_def)
  have empty: "verify_authenticated (pr_sha toy_prims) (pr_vk_valid toy_prims) (pr_strict toy_prims) [] (cc_head chain_new) toy_issuer =
      Inr (TombstoneSet [])" by (simp add: verify_authenticated_def chain_new_def chain_resume_def)
  have by_admin: "by_admins toy_prims toy_issuer [] toy_revoke"
    by (simp add: toy_revoke_def admin_key_def toy_issuer_def toy_prims_with_def prefix_is_admin_def effective_roles_in_def
        revocations_in_def List.map_filter_simps)
  obtain s c' where s: "issue_record toy_prims toy_revoke chain_new = Some (s, c')"
    and ok: "d_ok (sr_record s)"
    by (simp add: toy_revoke_def revoke_def next_epoch_def chain_finish_def Let_def chain_new_def chain_resume_def checked_add_def
        ok_revocation_def ok_b32_def GENESIS_HEAD_def)
  have "cl_head control_log_new = cc_head chain_new" by (simp add: control_log_new_def chain_new_def chain_resume_def)
  from ceremony_record_accepted [OF ed empty s by_admin ok this] s show ?thesis by auto
qed

section \<open>Epochs\<close>

fun issue_run :: "primitives \<Rightarrow> issue list \<Rightarrow> control_chain \<Rightarrow> (signed_control_record list \<times> control_chain) option" where
  "issue_run P [] c = Some ([], c)"
| "issue_run P (i # is) c =
     Option.bind (issue_record P i c) (\<lambda>(s, c). Option.bind (issue_run P is c) (\<lambda>(ss, c). Some (s # ss, c)))"

fun scope_key :: "file_scope \<Rightarrow> bytes option" where
  "scope_key (Specific i) = Some (id_raw i)"
| "scope_key AccountWide = None"

definition counter :: "file_scope \<Rightarrow> control_chain \<Rightarrow> nat" where
  "counter sc c = (case cc_revoke_epochs c (scope_key sc) of None \<Rightarrow> 0 | Some e \<Rightarrow> unat e)"

definition revocation_epochs :: "decoded list \<Rightarrow> (file_scope \<times> nat) list" where
  "revocation_epochs ds = map (\<lambda>r. (rv_scope r, unat (rv_revocation_epoch r))) (revocations_in ds)"

lemma scope_key_inj: "scope_key a = scope_key b \<Longrightarrow> a = b"
  by (cases a; cases b) (auto intro: ident.expand)

lemma next_epoch_counter:
  assumes "next_epoch (cc_revoke_epochs c) sc = Some (e, es)"
  shows "unat e = counter sc c + 1 \<and> (\<forall>sc'. counter sc' (c\<lparr>cc_revoke_epochs := es, cc_head := h\<rparr>) = (if sc' = sc then counter sc c + 1 else counter sc' c))"
proof -
  have key: "(case sc of Specific i \<Rightarrow> Some (id_raw i) | AccountWide \<Rightarrow> None) = scope_key sc" by (cases sc) simp_all
  from assms obtain e0 where e0: "e0 = (case cc_revoke_epochs c (scope_key sc) of None \<Rightarrow> 0 | Some e \<Rightarrow> e)"
    "checked_add e0 1 = Some e" "es = (cc_revoke_epochs c)(scope_key sc \<mapsto> e)"
    by (auto simp: next_epoch_def key bind_eq_Some_conv Let_def)
  then have "unat e = counter sc c + 1" by (auto simp: counter_def checked_add_Some split: option.splits)
  with e0(3) show ?thesis by (auto simp: counter_def dest: scope_key_inj)
qed

lemma issue_record_epochs:
  assumes "issue_record P i c = Some (s, c')"
  shows "revocation_epochs [sr_record s] = [] \<and> (\<forall>sc. counter sc c' = counter sc c) \<or>
    (\<exists>sc. revocation_epochs [sr_record s] = [(sc, counter sc c + 1)] \<and>
      (\<forall>sc'. counter sc' c' = (if sc' = sc then counter sc c + 1 else counter sc' c)))"
proof (cases i)
  case (Revoke key params co)
  with assms have r: "revoke P key params co c = Some (Inr s, c')" by (auto split: option.splits sum.splits)
  show ?thesis
  proof (rule revoke_record [OF r])
    fix e es
    assume n: "next_epoch (cc_revoke_epochs c) (rp_scope params) = Some (e, es)"
      and f: "chain_finish P (DRevocation \<lparr>rv_scope = rp_scope params, rv_revoked_user_id = rp_revoked_user_id params,
       rv_revoked_capability = rp_revoked_capability params, rv_from_version = rp_from_version params,
       rv_revocation_epoch = e, rv_prev_head = Bytes32 (cc_head c), rv_issued_by = rp_issued_by params,
       rv_co_signed_by = map_option cs_admin_id co, rv_created_at = rp_created_at params\<rparr>) key (map_option cs_key co)
       (c\<lparr>cc_revoke_epochs := es\<rparr>) = (s, c')"
    note d = chain_finish_record [OF f]
    then show ?thesis using next_epoch_counter [OF n, of "cc_head c'"]
      by (auto simp: revocation_epochs_def revocations_in_def List.map_filter_simps)
  qed
next
  case (Reinstate key params k)
  with assms show ?thesis
    by (auto simp: reinstate_def bind_eq_Some_conv chain_finish_def Let_def revocation_epochs_def revocations_in_def
        List.map_filter_simps counter_def)
next
  case (Compromise key params k)
  with assms show ?thesis
    by (auto simp: compromise_def chain_finish_def Let_def revocation_epochs_def revocations_in_def
        List.map_filter_simps counter_def)
qed

lemma revocation_epochs_Cons: "revocation_epochs (d # ds) = revocation_epochs [d] @ revocation_epochs ds"
  by (simp add: revocation_epochs_def revocations_in_def List.map_filter_simps split: decoded.splits)

text \<open>Within one chain a scope and an epoch name one revocation.\<close>

lemma chain_epochs_distinct:
  "issue_run P is c = Some (ss, c') \<Longrightarrow> distinct (revocation_epochs (map sr_record ss)) \<and>
    (\<forall>(sc, e) \<in> set (revocation_epochs (map sr_record ss)). counter sc c < e)"
proof (induction "is" arbitrary: c ss)
  case (Cons i "is")
  then obtain s c1 ss' where s: "issue_record P i c = Some (s, c1)" "issue_run P is c1 = Some (ss', c')" "ss = s # ss'"
    by (auto simp: bind_eq_Some_conv)
  from Cons.IH [OF s(2)] have IH: "distinct (revocation_epochs (map sr_record ss'))"
    "\<forall>(sc, e) \<in> set (revocation_epochs (map sr_record ss')). counter sc c1 < e" by auto
  from issue_record_epochs [OF s(1)] show ?case
  proof
    assume "revocation_epochs [sr_record s] = [] \<and> (\<forall>sc. counter sc c1 = counter sc c)"
    with IH show ?thesis by (auto simp: s(3) revocation_epochs_Cons [of "sr_record s" "map sr_record ss'"])
  next
    assume "\<exists>sc. revocation_epochs [sr_record s] = [(sc, counter sc c + 1)] \<and>
      (\<forall>sc'. counter sc' c1 = (if sc' = sc then counter sc c + 1 else counter sc' c))"
    then obtain sc where sc: "revocation_epochs [sr_record s] = [(sc, counter sc c + 1)]"
      "\<And>sc'. counter sc' c1 = (if sc' = sc then counter sc c + 1 else counter sc' c)" by blast
    have "(sc, counter sc c + 1) \<notin> set (revocation_epochs (map sr_record ss'))" using IH(2) sc(2) [of sc] by auto
    moreover have "counter sc' c < e" if "(sc', e) \<in> set (revocation_epochs (map sr_record ss'))" for sc' e
      using that IH(2) sc(2) [of sc'] by (fastforce split: if_splits)
    ultimately show ?thesis using IH(1) by (auto simp: s(3) revocation_epochs_Cons [of "sr_record s" "map sr_record ss'"] sc(1))
  qed
qed (simp add: revocation_epochs_def revocations_in_def List.map_filter_simps)

text \<open>C13: Across chains it does not: a chain resumed from a head counts its epochs from one again. Once the first
  revocation of a user in a scope has been lifted, the first revocation a resumed chain issues for him in this
  scope is already superseded by that old reinstatement: it is signed, accepted, and revokes nothing.\<close>

theorem resumed_revocation_void:
  assumes "revoke P key params co (chain_resume head) = Some (Inr s, c')"
    and "DReinstatement r \<in> set ds" and "ri_scope r = rp_scope params"
    and "ri_reinstated_user_id r = rp_revoked_user_id params" and "ri_supersedes_epoch r = 1"
  shows "is_revoked (TombstoneSet (ds @ [sr_record s])) u f v = is_revoked (TombstoneSet ds) u f v"
proof -
  obtain d where d: "sr_record s = DRevocation d" "rv_scope d = rp_scope params"
    "rv_revoked_user_id d = rp_revoked_user_id params" "rv_revocation_epoch d = 1"
  proof (rule revoke_record [OF assms(1)])
    fix e es
    assume n: "next_epoch (cc_revoke_epochs (chain_resume head)) (rp_scope params) = Some (e, es)"
      and f: "chain_finish P (DRevocation \<lparr>rv_scope = rp_scope params, rv_revoked_user_id = rp_revoked_user_id params,
       rv_revoked_capability = rp_revoked_capability params, rv_from_version = rp_from_version params,
       rv_revocation_epoch = e, rv_prev_head = Bytes32 (cc_head (chain_resume head)), rv_issued_by = rp_issued_by params,
       rv_co_signed_by = map_option cs_admin_id co, rv_created_at = rp_created_at params\<rparr>) key (map_option cs_key co)
       (chain_resume head\<lparr>cc_revoke_epochs := es\<rparr>) = (s, c')"
    from n have "e = 1" by (auto simp: next_epoch_def chain_resume_def checked_add_def Let_def)
    with chain_finish_record [OF f] that show thesis by simp
  qed
  with assms(2-5) have "is_superseded_in ds d" by (auto simp: is_superseded_iff)
  moreover have "is_superseded_in (ds @ [DRevocation d]) x \<longleftrightarrow> is_superseded_in ds x" for x
    by (simp add: is_superseded_append) (simp add: is_superseded_in_def)
  moreover have "DRevocation x \<in> set (ds @ [DRevocation d]) \<longleftrightarrow> DRevocation x \<in> set ds \<or> x = d" for x by auto
  ultimately show ?thesis unfolding is_revoked_iff d(1) by metis
qed

theorem resumed_revocation_void_witness:
  "\<exists>s c'. issue_record toy_prims toy_revoke (chain_resume [3]) = Some (s, c') \<and>
     \<not> is_revoked (TombstoneSet ([DReinstatement \<lparr>ri_scope = Specific (uid 7), ri_reinstated_user_id = uid 3,
       ri_supersedes_epoch = 1, ri_reinstatement_epoch = 1, ri_prev_head = GENESIS_HEAD, ri_issued_by = uid 1,
       ri_co_signed_by = uid 2, ri_created_at = Timestamp 4\<rparr>] @ [sr_record s])) (id_raw (uid 3)) (id_raw (uid 7)) 9"
proof -
  let ?params = "\<lparr>rp_scope = Specific (uid 7), rp_revoked_user_id = uid 3, rp_revoked_capability = None,
     rp_from_version = 2, rp_issued_by = uid 1, rp_created_at = Timestamp 5\<rparr>"
  obtain s c' where s: "revoke toy_prims [1] ?params None (chain_resume [3]) = Some (Inr s, c')"
    by (simp add: revoke_def next_epoch_def chain_finish_def Let_def chain_resume_def checked_add_def)
  then have "issue_record toy_prims toy_revoke (chain_resume [3]) = Some (s, c')" by (simp add: toy_revoke_def)
  moreover let ?r = "\<lparr>ri_scope = Specific (uid 7), ri_reinstated_user_id = uid 3,
       ri_supersedes_epoch = 1, ri_reinstatement_epoch = 1, ri_prev_head = GENESIS_HEAD, ri_issued_by = uid 1,
       ri_co_signed_by = uid 2, ri_created_at = Timestamp 4\<rparr>"
  have "is_revoked (TombstoneSet ([DReinstatement ?r] @ [sr_record s])) (id_raw (uid 3)) (id_raw (uid 7)) 9 =
      is_revoked (TombstoneSet [DReinstatement ?r]) (id_raw (uid 3)) (id_raw (uid 7)) 9"
    by (rule resumed_revocation_void [OF s, of ?r]) simp_all
  moreover have "\<not> is_revoked (TombstoneSet [DReinstatement ?r]) (id_raw (uid 3)) (id_raw (uid 7)) 9"
    by (simp add: is_revoked_iff)
  ultimately show ?thesis by blast
qed

section \<open>Enrolment and recovery grants\<close>

text \<open>What the ceremony signs for a confirmed fingerprint, the client verifies against the pinned root.\<close>

lemma enrolled_binding_verifies:
  assumes "ed_ok P" and "sign_enrollment P d5 binding fp = Inr b"
  shows "check_signature P (verifier_new (pr_ed_pub P d5)) (sb_binding b) (sb_binding_sig b) = Inr () \<and>
    binding_fingerprint P (sb_binding b) = fp"
  using assms by (auto simp: sign_enrollment_def sign_binding_def check_signature_def verifier_new_def ed_ok_def vk_from_bytes_def
      verify_canonical_def verify_raw_def sign_canonical_def binding_fingerprint_def map_err_def Let_def split: if_splits)

text \<open>A recovery grant is always a classical wrap, so for a file under the hybrid suite, which is what an upload
  with ML-KEM keys produces, the recipient cannot unwrap it.\<close>

lemma recovery_grant_unopenable:
  assumes "build_recovery_grant P random params d = Inr out" and "length (wd_ct (ro_wrapped_dek out)) = 48"
    and "ma_alg m = SuiteV2"
  shows "\<exists>e. unwrap_for P ctx m (ro_wrapped_dek out) = Inl e"
proof -
  from assms(1) have "length (wd_enc (ro_wrapped_dek out)) = 32"
    by (auto simp: build_recovery_grant_def wrap_dek_def ser32_def Let_def rbind_eq_Inr map_err_def split: if_splits sum.splits)
  with assms(2) have "unpack_hybrid_wrap (ro_wrapped_dek out) = Inl BadLength"
    by (simp add: unpack_hybrid_wrap_def deserialize_hybrid_wrap_def hybrid_lengths)
  with assms(3) show ?thesis by (auto simp: unwrap_for_def ok_or_def split: option.splits)
qed

end
