(* ===== verification/Requests.thy ===== *)
theory Requests
  imports Prelude
begin

text \<open>
  Requests on a state that may fail, as the asynchronous operations of the server are: an operation returns its result
  and the state it left. The definitions are shared by the blob tiers, the Postgres store and the backups.
\<close>

text \<open>\<open>sbind m f\<close> is \<open>f(m?)\<close> on a state: an error keeps the state the failing call left.\<close>

definition sbind :: "('s \<Rightarrow> ('e + 'a) \<times> 's) \<Rightarrow> ('a \<Rightarrow> 's \<Rightarrow> ('e + 'b) \<times> 's) \<Rightarrow> 's \<Rightarrow> ('e + 'b) \<times> 's" where
  "sbind m f s = (case m s of (Inl e, s') \<Rightarrow> (Inl e, s') | (Inr x, s') \<Rightarrow> f x s')"

definition sret :: "'a \<Rightarrow> 's \<Rightarrow> ('e + 'a) \<times> 's" where
  "sret x s = (Inr x, s)"

definition smodify :: "('s \<Rightarrow> 's) \<Rightarrow> 's \<Rightarrow> ('e + unit) \<times> 's" where
  "smodify f s = (Inr (), f s)"

text \<open>A check that does not touch the state, and a loop over a list.\<close>

definition check :: "'e + 'a \<Rightarrow> 's \<Rightarrow> ('e + 'a) \<times> 's" where
  "check x s = (x, s)"

primrec sfor :: "'x list \<Rightarrow> ('x \<Rightarrow> 's \<Rightarrow> ('e + unit) \<times> 's) \<Rightarrow> 's \<Rightarrow> ('e + unit) \<times> 's" where
  "sfor [] f = sret ()"
| "sfor (x # xs) f = sbind (f x) (\<lambda>_. sfor xs f)"

text \<open>A request on one half of a pair of states.\<close>

definition on_fst :: "('s \<Rightarrow> ('e + 'a) \<times> 's) \<Rightarrow> 's \<times> 't \<Rightarrow> ('e + 'a) \<times> 's \<times> 't" where
  "on_fst m w = (case m (fst w) of (x, s) \<Rightarrow> (x, s, snd w))"

definition on_snd :: "('t \<Rightarrow> ('e + 'a) \<times> 't) \<Rightarrow> 's \<times> 't \<Rightarrow> ('e + 'a) \<times> 's \<times> 't" where
  "on_snd m w = (case m (snd w) of (x, t) \<Rightarrow> (x, fst w, t))"

lemma sbind_cases:
  assumes "sbind m f s = (x, s'')"
  obtains (failed) e where "m s = (Inl e, s'')" "x = Inl e"
    | (ok) y s' where "m s = (Inr y, s')" "f y s' = (x, s'')"
  using assms by (auto simp: sbind_def split: prod.splits sum.splits)

lemma sbind_eq_Inr: "sbind m f s = (Inr y, s'') \<longleftrightarrow> (\<exists>x s'. m s = (Inr x, s') \<and> f x s' = (Inr y, s''))"
  by (auto simp: sbind_def split: prod.splits sum.splits)

lemma check_eq_Inr: "check x s = (Inr y, s') \<longleftrightarrow> x = Inr y \<and> s' = s"
  by (auto simp: check_def)

lemma sret_eq_Inr: "sret x s = (Inr y, s') \<longleftrightarrow> y = x \<and> s' = s"
  by (auto simp: sret_def)

lemmas request_ok = sbind_eq_Inr check_eq_Inr sret_eq_Inr

text \<open>What every step of a request keeps, the request keeps; \<open>keeps P m\<close> is that of a predicate on states.\<close>

definition keeps :: "('s \<Rightarrow> 's \<Rightarrow> bool) \<Rightarrow> ('s \<Rightarrow> ('e + 'a) \<times> 's) \<Rightarrow> bool" where
  "keeps R m \<longleftrightarrow> (\<forall>s. R s (snd (m s)))"

lemma keepsD: "keeps R m \<Longrightarrow> m s = (x, s') \<Longrightarrow> R s s'"
  unfolding keeps_def by (metis snd_conv)

lemma keeps_sbind [intro]:
  assumes "transp R" "keeps R m" "\<And>x. keeps R (f x)"
  shows "keeps R (sbind m f)"
  unfolding keeps_def sbind_def
proof (rule allI)
  fix s
  obtain x s' where m: "m s = (x, s')" by fastforce
  have step: "R s s'" using assms(2) m by (rule keepsD)
  show "R s (snd (case m s of (Inl e, s') \<Rightarrow> (Inl e, s') | (Inr x, s') \<Rightarrow> f x s'))"
  proof (cases x)
    case (Inr y)
    have "R s' (snd (f y s'))" using assms(3) by (simp add: keeps_def)
    with step assms(1) show ?thesis using m Inr by (auto dest: transpD)
  qed (use m step in simp)
qed

lemma keeps_check: "reflp R \<Longrightarrow> keeps R (check x)"
  by (simp add: keeps_def check_def reflpD)

lemma keeps_sret: "reflp R \<Longrightarrow> keeps R (sret x)"
  by (simp add: keeps_def sret_def reflpD)

lemma keeps_sfor: "reflp R \<Longrightarrow> transp R \<Longrightarrow> (\<And>x. x \<in> set xs \<Longrightarrow> keeps R (f x)) \<Longrightarrow> keeps R (sfor xs f)"
  by (induction xs) (auto simp: keeps_sret)

end
