(* ===== verification/BlobTiers.thy ===== *)
theory BlobTiers
  imports ServerFiles Requests "HOL-Library.AList" "HOL-Library.List_Lexorder" "HOL-Library.Char_ord"
begin

text \<open>
  The ciphertext tiers of the server: \<^verbatim>\<open>crates/server/src/blob.rs\<close> (the \<open>BlobStore\<close> trait and its in-memory
  implementation), \<^verbatim>\<open>tier.rs\<close> (the \<open>ColdTier\<close> trait, its in-memory implementation, \<open>CacheIndex\<close> and the
  write-through \<open>TieredBlobStore\<close>) and \<^verbatim>\<open>writeback_tier.rs\<close> (\<open>LocalIndex\<close> and \<open>WriteBackTier\<close>). A trait object is a
  record of operations over a state of its own; a hash map is an association list, whose order stands for the
  iteration order; \<open>u64\<close> counters and byte totals are natural numbers. The clock is read once per request.
\<close>

section \<open>Blob stores\<close>

record blob_error =
  be_op :: string
  be_detail :: string

datatype fetch_source = Cache | ColdFetching | ColdReady

record chunk_status =
  ct_source :: fetch_source
  ct_fetched_bytes :: nat
  ct_total_bytes :: nat

record direct_link =
  dl_url :: string
  dl_expires_in_s :: u64

record 's blob_ops =
  op_put :: "string \<Rightarrow> u64 \<Rightarrow> bytes \<Rightarrow> 's \<Rightarrow> (blob_error + unit) \<times> 's"
  op_get :: "string \<Rightarrow> u64 \<Rightarrow> 's \<Rightarrow> (blob_error + bytes option) \<times> 's"
  op_count :: "string \<Rightarrow> 's \<Rightarrow> (blob_error + nat) \<times> 's"
  op_delete_stream :: "string \<Rightarrow> 's \<Rightarrow> (blob_error + unit) \<times> 's"
  op_delete_chunk :: "string \<Rightarrow> u64 \<Rightarrow> 's \<Rightarrow> (blob_error + unit) \<times> 's"

definition default_chunk_status :: "('s, 'm) blob_ops_scheme \<Rightarrow> string \<Rightarrow> u64 \<Rightarrow> 's \<Rightarrow> (blob_error + chunk_status option) \<times> 's" where
  "default_chunk_status ops r i = sbind (op_get ops r i)
     (\<lambda>b. sret (map_option (\<lambda>b. \<lparr>ct_source = Cache, ct_fetched_bytes = length b, ct_total_bytes = length b\<rparr>) b))"

definition default_broker_direct_link :: "string \<Rightarrow> u64 \<Rightarrow> u64 \<Rightarrow> 's \<Rightarrow> (blob_error + direct_link option) \<times> 's" where
  "default_broker_direct_link r i ttl_secs = sret None"

type_synonym memory_store = "(string \<times> (u64 \<times> bytes) list) list"

definition mem_put :: "string \<Rightarrow> u64 \<Rightarrow> bytes \<Rightarrow> memory_store \<Rightarrow> memory_store" where
  "mem_put r i b s = AList.update r (AList.update i b (case map_of s r of Some m \<Rightarrow> m | None \<Rightarrow> [])) s"

definition mem_get :: "string \<Rightarrow> u64 \<Rightarrow> memory_store \<Rightarrow> bytes option" where
  "mem_get r i s = Option.bind (map_of s r) (\<lambda>m. map_of m i)"

definition mem_count :: "string \<Rightarrow> memory_store \<Rightarrow> nat" where
  "mem_count r s = (case map_of s r of Some m \<Rightarrow> length m | None \<Rightarrow> 0)"

definition mem_delete_stream :: "string \<Rightarrow> memory_store \<Rightarrow> memory_store" where
  "mem_delete_stream r s = AList.delete r s"

definition mem_delete_chunk :: "string \<Rightarrow> u64 \<Rightarrow> memory_store \<Rightarrow> memory_store" where
  "mem_delete_chunk r i s = (case map_of s r of Some m \<Rightarrow> AList.update r (AList.delete i m) s | None \<Rightarrow> s)"

definition memory_ops :: "memory_store blob_ops" where
  "memory_ops = \<lparr>op_put = (\<lambda>r i b. smodify (mem_put r i b)), op_get = (\<lambda>r i s. (Inr (mem_get r i s), s)),
     op_count = (\<lambda>r s. (Inr (mem_count r s), s)), op_delete_stream = (\<lambda>r. smodify (mem_delete_stream r)),
     op_delete_chunk = (\<lambda>r i. smodify (mem_delete_chunk r i))\<rparr>"

section \<open>Relative paths\<close>

text \<open>\<open>std::path::Path::components\<close> on a Unix path.\<close>

datatype path_component = RootDir | CurDir | ParentDir | NormalComp string

fun split_on :: "char \<Rightarrow> string \<Rightarrow> string list" where
  "split_on c [] = [[]]"
| "split_on c (x # xs) = (if x = c then [] # split_on c xs
     else (case split_on c xs of [] \<Rightarrow> [[x]] | p # ps \<Rightarrow> (x # p) # ps))"

definition path_components :: "string \<Rightarrow> path_component list" where
  "path_components p = (let parts = split_on (CHR ''/'') p in
     (if p \<noteq> [] \<and> hd p = CHR ''/'' then [RootDir] else if hd parts = ''.'' then [CurDir] else []) @
     List.map_filter (\<lambda>s. if s = [] \<or> s = ''.'' then None
       else if s = ''..'' then Some ParentDir else Some (NormalComp s)) parts)"

definition is_normal :: "path_component \<Rightarrow> bool" where
  "is_normal c = (case c of NormalComp _ \<Rightarrow> True | _ \<Rightarrow> False)"

text \<open>\<open>FsBlobStore::stream_dir\<close>: the containment guard (the resulting path is \<open>base/blob_ref\<close>).\<close>

definition stream_dir :: "string \<Rightarrow> string \<Rightarrow> blob_error + string" where
  "stream_dir base r = (if list_all is_normal (path_components r) then Inr (base @ ''/'' @ r)
     else Inl \<lparr>be_op = ''stream_dir'', be_detail = ''unsafe blob_ref component''\<rparr>)"

definition guard_prefix :: "string \<Rightarrow> blob_error + unit" where
  "guard_prefix pre = (if pre = [] then Inl \<lparr>be_op = ''list_prefix'', be_detail = ''empty prefix''\<rparr>
     else if list_all is_normal (path_components pre) then Inr ()
     else Inl \<lparr>be_op = ''list_prefix'', be_detail = ''unsafe prefix component''\<rparr>)"

definition strip_prefix :: "string \<Rightarrow> string \<Rightarrow> string option" where
  "strip_prefix head p = (if take (length head) p = head then Some (drop (length head) p) else None)"

definition trim_end :: "char \<Rightarrow> string \<Rightarrow> string" where
  "trim_end c s = rev (dropWhile (\<lambda>x. x = c) (rev s))"

text \<open>A \<open>BTreeSet\<close> read in order.\<close>

definition sorted_names :: "string list \<Rightarrow> string list" where
  "sorted_names names = sort (remdups names)"

definition children_of :: "string \<Rightarrow> string list \<Rightarrow> string list" where
  "children_of pre paths = (let head = trim_end (CHR ''/'') pre @ ''/'' in
     sorted_names (List.map_filter (\<lambda>p. Option.bind (strip_prefix head p) (\<lambda>rest.
       let name = hd (split_on (CHR ''/'') rest) in if name \<noteq> [] then Some name else None)) paths))"

section \<open>Cold tiers\<close>

record 's cold_ops = "'s blob_ops" +
  op_has_chunk :: "string \<Rightarrow> u64 \<Rightarrow> 's \<Rightarrow> (blob_error + bool) \<times> 's"
  op_broker :: "string \<Rightarrow> u64 \<Rightarrow> u64 \<Rightarrow> 's \<Rightarrow> (blob_error + direct_link option) \<times> 's"
  op_list_prefix :: "string \<Rightarrow> 's \<Rightarrow> (blob_error + string list option) \<times> 's"

text \<open>\<open>random\<close> is the sixteen bytes the random number generator gives.\<close>

definition mint_direct_link :: "bytes \<Rightarrow> string \<Rightarrow> string \<Rightarrow> u64 \<Rightarrow> u64 \<Rightarrow> direct_link option" where
  "mint_direct_link random master_token r index ttl_secs = (if master_token = [] then None
     else Some \<lparr>dl_url = ''https://cold.invalid/scoped/'' @ r @ ''/'' @ dec (unat index) @ ''?cap=''
         @ concat (map hex2 random) @ ''&exp='' @ dec (unat ttl_secs),
       dl_expires_in_s = ttl_secs\<rparr>)"

definition chunk_path :: "string \<Rightarrow> u64 \<Rightarrow> string" where
  "chunk_path r i = r @ ''/'' @ dec (unat i)"

record memory_cold =
  mc_inner :: memory_store
  mc_master_token :: string
  mc_paths :: "string list"

definition with_master_token :: "string \<Rightarrow> memory_cold" where
  "with_master_token token = \<lparr>mc_inner = [], mc_master_token = token, mc_paths = []\<rparr>"

definition cold_put :: "string \<Rightarrow> u64 \<Rightarrow> bytes \<Rightarrow> memory_cold \<Rightarrow> memory_cold" where
  "cold_put r i b s = s\<lparr>mc_inner := mem_put r i b (mc_inner s), mc_paths := List.insert (chunk_path r i) (mc_paths s)\<rparr>"

definition cold_delete_stream :: "string \<Rightarrow> memory_cold \<Rightarrow> memory_cold" where
  "cold_delete_stream r s = s\<lparr>mc_inner := mem_delete_stream r (mc_inner s),
     mc_paths := filter (\<lambda>p. strip_prefix (r @ ''/'') p = None) (mc_paths s)\<rparr>"

definition cold_delete_chunk :: "string \<Rightarrow> u64 \<Rightarrow> memory_cold \<Rightarrow> memory_cold" where
  "cold_delete_chunk r i s = s\<lparr>mc_inner := mem_delete_chunk r i (mc_inner s),
     mc_paths := removeAll (chunk_path r i) (mc_paths s)\<rparr>"

definition cold_has_chunk :: "string \<Rightarrow> u64 \<Rightarrow> memory_cold \<Rightarrow> bool" where
  "cold_has_chunk r i s = (mem_get r i (mc_inner s) \<noteq> None)"

definition cold_list_prefix :: "string \<Rightarrow> memory_cold \<Rightarrow> blob_error + string list option" where
  "cold_list_prefix pre s = rbind (guard_prefix pre) (\<lambda>_. Inr (Some (children_of pre (mc_paths s))))"

definition cold_broker :: "bytes \<Rightarrow> string \<Rightarrow> u64 \<Rightarrow> u64 \<Rightarrow> memory_cold \<Rightarrow> direct_link option" where
  "cold_broker random r i ttl_secs s =
     (if cold_has_chunk r i s then mint_direct_link random (mc_master_token s) r i ttl_secs else None)"

definition memory_cold_ops :: "bytes \<Rightarrow> memory_cold cold_ops" where
  "memory_cold_ops random = \<lparr>op_put = (\<lambda>r i b. smodify (cold_put r i b)),
     op_get = (\<lambda>r i s. (Inr (mem_get r i (mc_inner s)), s)),
     op_count = (\<lambda>r s. (Inr (mem_count r (mc_inner s)), s)),
     op_delete_stream = (\<lambda>r. smodify (cold_delete_stream r)),
     op_delete_chunk = (\<lambda>r i. smodify (cold_delete_chunk r i)),
     op_has_chunk = (\<lambda>r i s. (Inr (cold_has_chunk r i s), s)),
     op_broker = (\<lambda>r i ttl s. (Inr (cold_broker random r i ttl s), s)),
     op_list_prefix = (\<lambda>p s. (cold_list_prefix p s, s))\<rparr>"

section \<open>The cache index\<close>

record chunk_key =
  ck_blob_ref :: string
  ck_index :: u64

record cache_entry =
  cen_size :: nat
  cen_last_tick :: nat

record cache_index =
  ci_capacity :: nat
  ci_total :: nat
  ci_tick :: nat
  ci_entries :: "(chunk_key \<times> cache_entry) list"

definition cache_index_new :: "nat \<Rightarrow> cache_index" where
  "cache_index_new capacity = \<lparr>ci_capacity = capacity, ci_total = 0, ci_tick = 0, ci_entries = []\<rparr>"

lemma length_delete_less:
  assumes "(k, v) \<in> set es"
  shows "length (AList.delete k es) < length es"
  using length_filter_less [of "(k, v)" es "\<lambda>(k', _). k \<noteq> k'"] assms by (simp add: AList.delete_eq)

text \<open>The eviction loop of \<open>record_insert\<close>: least recently used first, and never the last entry.\<close>

function cache_evict :: "nat \<Rightarrow> nat \<Rightarrow> (chunk_key \<times> cache_entry) list
    \<Rightarrow> nat \<times> (chunk_key \<times> cache_entry) list \<times> chunk_key list" where
  "cache_evict capacity used es =
     (if capacity < used \<and> 1 < length es then
        let (k, e) = arg_min_list (\<lambda>(k, e). cen_last_tick e) es;
            (used, es, evicted) = cache_evict capacity (used - cen_size e) (AList.delete k es)
        in (used, es, k # evicted)
      else (used, es, []))"
  by auto
termination
proof (relation "measure (\<lambda>(_, _, es). length es)")
  fix capacity used :: nat and es :: "(chunk_key \<times> cache_entry) list" and p k e
  assume "capacity < used \<and> 1 < length es" "p = arg_min_list (\<lambda>(k, e). cen_last_tick e) es" "(k, e) = p"
  moreover from this have "es \<noteq> []" by auto
  ultimately have "(k, e) \<in> set es" using arg_min_list_in [of es "\<lambda>(k, e). cen_last_tick e"] by metis
  then show "((capacity, used - cen_size e, AList.delete k es), capacity, used, es)
      \<in> measure (\<lambda>(_, _, es). length es)"
    by (simp add: length_delete_less)
qed simp

declare cache_evict.simps [simp del]

definition record_insert :: "chunk_key \<Rightarrow> nat \<Rightarrow> cache_index \<Rightarrow> chunk_key list \<times> cache_index" where
  "record_insert key sz ix =
     (let now = ci_tick ix + 1;
          used = (case map_of (ci_entries ix) key of Some prev \<Rightarrow> ci_total ix - cen_size prev | None \<Rightarrow> ci_total ix) + sz;
          (used, es, evicted) = cache_evict (ci_capacity ix) used
            (AList.update key \<lparr>cen_size = sz, cen_last_tick = now\<rparr> (ci_entries ix))
      in (evicted, ix\<lparr>ci_tick := now, ci_total := used, ci_entries := es\<rparr>))"

definition record_access :: "chunk_key \<Rightarrow> cache_index \<Rightarrow> cache_index" where
  "record_access key ix = (let now = ci_tick ix + 1 in
     case map_of (ci_entries ix) key of
       Some e \<Rightarrow> ix\<lparr>ci_tick := now, ci_entries := AList.update key (e\<lparr>cen_last_tick := now\<rparr>) (ci_entries ix)\<rparr>
     | None \<Rightarrow> ix\<lparr>ci_tick := now\<rparr>)"

definition cache_remove :: "chunk_key \<Rightarrow> cache_index \<Rightarrow> bool \<times> cache_index" where
  "cache_remove key ix = (case map_of (ci_entries ix) key of
       Some e \<Rightarrow> (True, ix\<lparr>ci_total := ci_total ix - cen_size e, ci_entries := AList.delete key (ci_entries ix)\<rparr>)
     | None \<Rightarrow> (False, ix))"

definition stream_keys :: "string \<Rightarrow> (chunk_key \<times> 'e) list \<Rightarrow> chunk_key list" where
  "stream_keys r es = filter (\<lambda>k. ck_blob_ref k = r) (map fst es)"

definition cache_remove_stream :: "string \<Rightarrow> cache_index \<Rightarrow> nat \<times> cache_index" where
  "cache_remove_stream r ix = (let victims = stream_keys r (ci_entries ix) in
     (length victims, fold (\<lambda>k ix. snd (cache_remove k ix)) victims ix))"

definition cache_size_of :: "chunk_key \<Rightarrow> cache_index \<Rightarrow> nat option" where
  "cache_size_of key ix = map_option cen_size (map_of (ci_entries ix) key)"

section \<open>The write-through tier\<close>

record ('h, 'c) tiered =
  ti_cache :: 'h
  ti_cold :: 'c
  ti_index :: cache_index
  ti_fetching :: "(string \<times> u64) list"

definition tiered_new :: "'h \<Rightarrow> 'c \<Rightarrow> nat \<Rightarrow> ('h, 'c) tiered" where
  "tiered_new cache cold capacity = \<lparr>ti_cache = cache, ti_cold = cold, ti_index = cache_index_new capacity, ti_fetching = []\<rparr>"

definition on_cache :: "('h \<Rightarrow> 'r \<times> 'h) \<Rightarrow> ('h, 'c) tiered \<Rightarrow> 'r \<times> ('h, 'c) tiered" where
  "on_cache m t = (let (x, h) = m (ti_cache t) in (x, t\<lparr>ti_cache := h\<rparr>))"

definition on_cold :: "('c \<Rightarrow> 'r \<times> 'c) \<Rightarrow> ('h, 'c) tiered \<Rightarrow> 'r \<times> ('h, 'c) tiered" where
  "on_cold m t = (let (x, c) = m (ti_cold t) in (x, t\<lparr>ti_cold := c\<rparr>))"

fun delete_evicted :: "('h, 'hm) blob_ops_scheme \<Rightarrow> chunk_key list \<Rightarrow> ('h, 'c) tiered \<Rightarrow> (blob_error + unit) \<times> ('h, 'c) tiered" where
  "delete_evicted H [] = sret ()"
| "delete_evicted H (k # ks) = sbind (on_cache (op_delete_chunk H (ck_blob_ref k) (ck_index k))) (\<lambda>_. delete_evicted H ks)"

definition cache_and_evict :: "('h, 'hm) blob_ops_scheme \<Rightarrow> string \<Rightarrow> u64 \<Rightarrow> nat \<Rightarrow> ('h, 'c) tiered
    \<Rightarrow> (blob_error + unit) \<times> ('h, 'c) tiered" where
  "cache_and_evict H r i sz t = (let (evicted, ix) = record_insert \<lparr>ck_blob_ref = r, ck_index = i\<rparr> sz (ti_index t)
     in delete_evicted H evicted (t\<lparr>ti_index := ix\<rparr>))"

definition tiered_put :: "('h, 'hm) blob_ops_scheme \<Rightarrow> ('c, 'cm) cold_ops_scheme \<Rightarrow> string \<Rightarrow> u64 \<Rightarrow> bytes
    \<Rightarrow> ('h, 'c) tiered \<Rightarrow> (blob_error + unit) \<times> ('h, 'c) tiered" where
  "tiered_put H C r i b = sbind (on_cold (op_put C r i b)) (\<lambda>_.
     sbind (on_cache (op_put H r i b)) (\<lambda>_. cache_and_evict H r i (length b)))"

definition tiered_get :: "('h, 'hm) blob_ops_scheme \<Rightarrow> ('c, 'cm) cold_ops_scheme \<Rightarrow> string \<Rightarrow> u64
    \<Rightarrow> ('h, 'c) tiered \<Rightarrow> (blob_error + bytes option) \<times> ('h, 'c) tiered" where
  "tiered_get H C r i = sbind (on_cache (op_get H r i)) (\<lambda>hit.
     case hit of
       Some b \<Rightarrow> sbind (smodify (\<lambda>t. t\<lparr>ti_index := record_access \<lparr>ck_blob_ref = r, ck_index = i\<rparr> (ti_index t)\<rparr>)) (\<lambda>_. sret (Some b))
     | None \<Rightarrow>
         sbind (smodify (\<lambda>t. t\<lparr>ti_fetching := List.insert (r, i) (ti_fetching t)\<rparr>)) (\<lambda>_ t.
         case on_cold (op_get C r i) t of (fetched, t) \<Rightarrow>
         let t = t\<lparr>ti_fetching := removeAll (r, i) (ti_fetching t)\<rparr> in
         case fetched of
           Inl e \<Rightarrow> (Inl e, t)
         | Inr (Some b) \<Rightarrow> sbind (on_cache (op_put H r i b)) (\<lambda>_.
             sbind (cache_and_evict H r i (length b)) (\<lambda>_. sret (Some b))) t
         | Inr None \<Rightarrow> (Inr None, t)))"

definition tiered_count :: "('c, 'cm) cold_ops_scheme \<Rightarrow> string \<Rightarrow> ('h, 'c) tiered \<Rightarrow> (blob_error + nat) \<times> ('h, 'c) tiered" where
  "tiered_count C r = on_cold (op_count C r)"

definition tiered_delete_stream :: "('h, 'hm) blob_ops_scheme \<Rightarrow> ('c, 'cm) cold_ops_scheme \<Rightarrow> string
    \<Rightarrow> ('h, 'c) tiered \<Rightarrow> (blob_error + unit) \<times> ('h, 'c) tiered" where
  "tiered_delete_stream H C r = sbind (on_cold (op_delete_stream C r)) (\<lambda>_.
     sbind (on_cache (op_delete_stream H r)) (\<lambda>_.
     smodify (\<lambda>t. t\<lparr>ti_index := snd (cache_remove_stream r (ti_index t))\<rparr>)))"

definition tiered_delete_chunk :: "('h, 'hm) blob_ops_scheme \<Rightarrow> ('c, 'cm) cold_ops_scheme \<Rightarrow> string \<Rightarrow> u64
    \<Rightarrow> ('h, 'c) tiered \<Rightarrow> (blob_error + unit) \<times> ('h, 'c) tiered" where
  "tiered_delete_chunk H C r i = sbind (on_cold (op_delete_chunk C r i)) (\<lambda>_.
     sbind (on_cache (op_delete_chunk H r i)) (\<lambda>_.
     smodify (\<lambda>t. t\<lparr>ti_index := snd (cache_remove \<lparr>ck_blob_ref = r, ck_index = i\<rparr> (ti_index t))\<rparr>)))"

definition cached_status :: "nat \<Rightarrow> chunk_status" where
  "cached_status sz = \<lparr>ct_source = Cache, ct_fetched_bytes = sz, ct_total_bytes = sz\<rparr>"

definition remote_status :: "fetch_source \<Rightarrow> chunk_status" where
  "remote_status src = \<lparr>ct_source = src, ct_fetched_bytes = 0, ct_total_bytes = 0\<rparr>"

definition tiered_status :: "('c, 'cm) cold_ops_scheme \<Rightarrow> string \<Rightarrow> u64 \<Rightarrow> ('h, 'c) tiered
    \<Rightarrow> (blob_error + chunk_status option) \<times> ('h, 'c) tiered" where
  "tiered_status C r i t = (case cache_size_of \<lparr>ck_blob_ref = r, ck_index = i\<rparr> (ti_index t) of
       Some sz \<Rightarrow> (Inr (Some (cached_status sz)), t)
     | None \<Rightarrow> if (r, i) \<in> set (ti_fetching t) then (Inr (Some (remote_status ColdFetching)), t)
         else sbind (on_cold (op_has_chunk C r i)) (\<lambda>present.
           sret (if present then Some (remote_status ColdReady) else None)) t)"

definition tiered_broker :: "('c, 'cm) cold_ops_scheme \<Rightarrow> string \<Rightarrow> u64 \<Rightarrow> u64 \<Rightarrow> ('h, 'c) tiered
    \<Rightarrow> (blob_error + direct_link option) \<times> ('h, 'c) tiered" where
  "tiered_broker C r i ttl = on_cold (op_broker C r i ttl)"

end
