(* ===== verification/WriteBack.thy ===== *)
theory WriteBack
  imports BlobTiers
begin

text \<open>
  \<^verbatim>\<open>crates/server/src/writeback_tier.rs\<close>: fresh uploads stay on the local store, cold chunks are offloaded to the
  cold tier and keep their copy there. \<open>SystemTime\<close> is an integer of nanoseconds, \<open>Duration\<close> a natural number of them;
  the clock is read once per request.
\<close>

section \<open>Pinned streams\<close>

text \<open>\<open>str::parse::<u8>\<close>: an optional plus sign, then decimal digits.\<close>

definition is_digit :: "char \<Rightarrow> bool" where
  "is_digit c \<longleftrightarrow> 48 \<le> (of_char c :: nat) \<and> of_char c \<le> (57 :: nat)"

definition digits_val :: "string \<Rightarrow> nat" where
  "digits_val s = foldl (\<lambda>n c. 10 * n + (of_char c - 48)) 0 s"

definition parse_u8 :: "string \<Rightarrow> byte option" where
  "parse_u8 s = (let ds = (case s of c # cs \<Rightarrow> if c = CHR ''+'' then cs else s | [] \<Rightarrow> s)
     in if ds \<noteq> [] \<and> list_all is_digit ds \<and> digits_val ds < 256 then Some (word_of_nat (digits_val ds)) else None)"

definition is_pinned_stream :: "string \<Rightarrow> bool" where
  "is_pinned_stream r = (case parse_u8 (last (split_on (CHR ''/'') r)) of
       None \<Rightarrow> False
     | Some st \<Rightarrow> st = stream_type_cp StThumbnail \<or> st = stream_type_cp StPreview)"

section \<open>The local index\<close>

record victim =
  vi_key :: chunk_key
  vi_in_cold :: bool

record local_entry =
  le_size :: nat
  le_last_tick :: nat
  le_last_access :: int
  le_in_cold :: bool
  le_pinned :: bool

type_synonym local_entries = "(chunk_key \<times> local_entry) list"

record local_index =
  li_capacity :: nat
  li_total :: nat
  li_tick :: nat
  li_entries :: local_entries

definition local_index_new :: "nat \<Rightarrow> local_index" where
  "local_index_new capacity = \<lparr>li_capacity = capacity, li_total = 0, li_tick = 0, li_entries = []\<rparr>"

text \<open>The oldest entry that is neither pinned nor the one just recorded.\<close>

definition li_victim :: "chunk_key \<Rightarrow> local_entries \<Rightarrow> (chunk_key \<times> local_entry) option" where
  "li_victim key es = (case filter (\<lambda>(k, e). \<not> le_pinned e \<and> k \<noteq> key) es of
       [] \<Rightarrow> None
     | c # cs \<Rightarrow> Some (arg_min_list (\<lambda>(k, e). le_last_tick e) (c # cs)))"

lemma li_victim_in:
  assumes "li_victim key es = Some (k, e)"
  shows "(k, e) \<in> set es" "\<not> le_pinned e" "k \<noteq> key"
proof -
  define cs where "cs = filter (\<lambda>(k, e). \<not> le_pinned e \<and> k \<noteq> key) es"
  have "cs \<noteq> []" "(k, e) = arg_min_list (\<lambda>(k, e). le_last_tick e) cs"
    using assms by (auto simp: li_victim_def cs_def split: list.splits)
  then have "(k, e) \<in> set cs" using arg_min_list_in by metis
  then show "(k, e) \<in> set es" "\<not> le_pinned e" "k \<noteq> key" by (auto simp: cs_def)
qed

function li_evict :: "nat \<Rightarrow> chunk_key \<Rightarrow> nat \<Rightarrow> local_entries \<Rightarrow> nat \<times> local_entries \<times> victim list" where
  "li_evict capacity key used es =
     (if used \<le> capacity then (used, es, [])
      else (case li_victim key es of
          None \<Rightarrow> (used, es, [])
        | Some (k, e) \<Rightarrow>
            let (used, es, victims) = li_evict capacity key (used - le_size e) (AList.delete k es)
            in (used, es, \<lparr>vi_key = k, vi_in_cold = le_in_cold e\<rparr> # victims)))"
  by auto
termination
  by (relation "measure (\<lambda>(_, _, _, es). length es)") (auto dest!: li_victim_in(1) intro: length_delete_less)

declare li_evict.simps [simp del]

definition record_put :: "chunk_key \<Rightarrow> nat \<Rightarrow> int \<Rightarrow> bool \<Rightarrow> bool \<Rightarrow> local_index \<Rightarrow> victim list \<times> local_index" where
  "record_put key sz now in_cold pinned ix =
     (let t = li_tick ix + 1;
          used = (case map_of (li_entries ix) key of Some prev \<Rightarrow> li_total ix - le_size prev | None \<Rightarrow> li_total ix) + sz;
          (used, es, victims) = li_evict (li_capacity ix) key used
            (AList.update key \<lparr>le_size = sz, le_last_tick = t, le_last_access = now, le_in_cold = in_cold,
               le_pinned = pinned\<rparr> (li_entries ix))
      in (victims, ix\<lparr>li_tick := t, li_total := used, li_entries := es\<rparr>))"

definition li_record_access :: "chunk_key \<Rightarrow> int \<Rightarrow> local_index \<Rightarrow> local_index" where
  "li_record_access key now ix = (let t = li_tick ix + 1 in
     case map_of (li_entries ix) key of
       Some e \<Rightarrow> ix\<lparr>li_tick := t,
         li_entries := AList.update key (e\<lparr>le_last_tick := t, le_last_access := now\<rparr>) (li_entries ix)\<rparr>
     | None \<Rightarrow> ix\<lparr>li_tick := t\<rparr>)"

definition li_remove :: "chunk_key \<Rightarrow> local_index \<Rightarrow> local_index" where
  "li_remove key ix = (case map_of (li_entries ix) key of
       Some e \<Rightarrow> ix\<lparr>li_total := li_total ix - le_size e, li_entries := AList.delete key (li_entries ix)\<rparr>
     | None \<Rightarrow> ix)"

definition li_remove_stream :: "string \<Rightarrow> local_index \<Rightarrow> local_index" where
  "li_remove_stream r ix = fold li_remove (stream_keys r (li_entries ix)) ix"

definition li_contains :: "chunk_key \<Rightarrow> local_index \<Rightarrow> bool" where
  "li_contains key ix = (map_of (li_entries ix) key \<noteq> None)"

definition li_size_of :: "chunk_key \<Rightarrow> local_index \<Rightarrow> nat option" where
  "li_size_of key ix = map_option le_size (map_of (li_entries ix) key)"

definition in_cold_of :: "chunk_key \<Rightarrow> local_index \<Rightarrow> bool option" where
  "in_cold_of key ix = map_option le_in_cold (map_of (li_entries ix) key)"

definition overlap_count :: "string \<Rightarrow> local_index \<Rightarrow> nat" where
  "overlap_count r ix = length (filter (\<lambda>(k, e). ck_blob_ref k = r \<and> le_in_cold e) (li_entries ix))"

text \<open>\<open>SystemTime::checked_sub\<close>: seconds before the epoch are a signed 64-bit count.\<close>

definition checked_sub_time :: "int \<Rightarrow> nat \<Rightarrow> int option" where
  "checked_sub_time now idle = (if now - int idle < - (2 ^ 63) * 1000000000 then None else Some (now - int idle))"

definition idle_victims :: "int \<Rightarrow> nat \<Rightarrow> local_index \<Rightarrow> victim list" where
  "idle_victims now idle ix = (case checked_sub_time now idle of
       None \<Rightarrow> []
     | Some cutoff \<Rightarrow> map (\<lambda>(k, e). \<lparr>vi_key = k, vi_in_cold = le_in_cold e\<rparr>)
         (filter (\<lambda>(k, e). \<not> le_pinned e \<and> le_last_access e \<le> cutoff) (li_entries ix)))"

section \<open>The tier\<close>

record ('l, 'c) write_back =
  wb_local :: 'l
  wb_cold :: 'c
  wb_index :: local_index
  wb_idle :: nat
  wb_fetching :: "(string \<times> u64) list"

definition write_back_new :: "'l \<Rightarrow> 'c \<Rightarrow> nat \<Rightarrow> nat \<Rightarrow> ('l, 'c) write_back" where
  "write_back_new local cold capacity idle =
     \<lparr>wb_local = local, wb_cold = cold, wb_index = local_index_new capacity, wb_idle = idle, wb_fetching = []\<rparr>"

definition on_local :: "('l \<Rightarrow> 'r \<times> 'l) \<Rightarrow> ('l, 'c) write_back \<Rightarrow> 'r \<times> ('l, 'c) write_back" where
  "on_local m w = (let (x, l) = m (wb_local w) in (x, w\<lparr>wb_local := l\<rparr>))"

definition on_remote :: "('c \<Rightarrow> 'r \<times> 'c) \<Rightarrow> ('l, 'c) write_back \<Rightarrow> 'r \<times> ('l, 'c) write_back" where
  "on_remote m w = (let (x, c) = m (wb_cold w) in (x, w\<lparr>wb_cold := c\<rparr>))"

definition offload :: "('l, 'lm) blob_ops_scheme \<Rightarrow> ('c, 'cm) cold_ops_scheme \<Rightarrow> chunk_key \<Rightarrow> bool
    \<Rightarrow> ('l, 'c) write_back \<Rightarrow> (blob_error + unit) \<times> ('l, 'c) write_back" where
  "offload L C k in_cold =
     (if in_cold then on_local (op_delete_chunk L (ck_blob_ref k) (ck_index k))
      else sbind (on_local (op_get L (ck_blob_ref k) (ck_index k))) (\<lambda>found. case found of
          None \<Rightarrow> sret ()
        | Some b \<Rightarrow> sbind (on_remote (op_put C (ck_blob_ref k) (ck_index k) b)) (\<lambda>_.
            on_local (op_delete_chunk L (ck_blob_ref k) (ck_index k)))))"

text \<open>The victims of the \<open>record_put\<close> inside are dropped, as in the code.\<close>

definition readopt :: "('l, 'lm) blob_ops_scheme \<Rightarrow> int \<Rightarrow> victim \<Rightarrow> ('l, 'c) write_back \<Rightarrow> ('l, 'c) write_back" where
  "readopt L now v w =
     (case on_local (op_get L (ck_blob_ref (vi_key v)) (ck_index (vi_key v))) w of
        (Inr (Some b), w) \<Rightarrow> w\<lparr>wb_index := snd (record_put (vi_key v) (length b) now (vi_in_cold v) False (wb_index w))\<rparr>
      | (_, w) \<Rightarrow> w)"

fun offload_victims :: "('l, 'lm) blob_ops_scheme \<Rightarrow> ('c, 'cm) cold_ops_scheme \<Rightarrow> int \<Rightarrow> victim list
    \<Rightarrow> ('l, 'c) write_back \<Rightarrow> ('l, 'c) write_back" where
  "offload_victims L C now [] w = w"
| "offload_victims L C now (v # vs) w =
     (case offload L C (vi_key v) (vi_in_cold v) w of
        (Inl e, w) \<Rightarrow> fold (readopt L now) (v # vs) w
      | (Inr _, w) \<Rightarrow> offload_victims L C now vs w)"

definition run_idle_sweep :: "('l, 'lm) blob_ops_scheme \<Rightarrow> ('c, 'cm) cold_ops_scheme \<Rightarrow> int
    \<Rightarrow> ('l, 'c) write_back \<Rightarrow> ('l, 'c) write_back" where
  "run_idle_sweep L C now w = offload_victims L C now (idle_victims now (wb_idle w) (wb_index w)) w"

text \<open>Recording a resident chunk and pushing out what no longer fits.\<close>

definition admit :: "('l, 'lm) blob_ops_scheme \<Rightarrow> ('c, 'cm) cold_ops_scheme \<Rightarrow> int \<Rightarrow> string \<Rightarrow> u64 \<Rightarrow> nat \<Rightarrow> bool
    \<Rightarrow> ('l, 'c) write_back \<Rightarrow> ('l, 'c) write_back" where
  "admit L C now r i sz in_cold w =
     (let (victims, ix) = record_put \<lparr>ck_blob_ref = r, ck_index = i\<rparr> sz now in_cold (is_pinned_stream r) (wb_index w)
      in offload_victims L C now victims (w\<lparr>wb_index := ix\<rparr>))"

definition wb_put :: "('l, 'lm) blob_ops_scheme \<Rightarrow> ('c, 'cm) cold_ops_scheme \<Rightarrow> int \<Rightarrow> string \<Rightarrow> u64 \<Rightarrow> bytes
    \<Rightarrow> ('l, 'c) write_back \<Rightarrow> (blob_error + unit) \<times> ('l, 'c) write_back" where
  "wb_put L C now r i b = sbind (on_local (op_put L r i b)) (\<lambda>_. smodify (admit L C now r i (length b) False))"

text \<open>A local hit, which also adopts a chunk the index has not seen.\<close>

definition note_hit :: "int \<Rightarrow> string \<Rightarrow> u64 \<Rightarrow> nat \<Rightarrow> local_index \<Rightarrow> local_index" where
  "note_hit now r i sz ix = (let key = \<lparr>ck_blob_ref = r, ck_index = i\<rparr> in
     if li_contains key ix then li_record_access key now ix
     else snd (record_put key sz now False (is_pinned_stream r) ix))"

definition wb_get :: "('l, 'lm) blob_ops_scheme \<Rightarrow> ('c, 'cm) cold_ops_scheme \<Rightarrow> int \<Rightarrow> string \<Rightarrow> u64
    \<Rightarrow> ('l, 'c) write_back \<Rightarrow> (blob_error + bytes option) \<times> ('l, 'c) write_back" where
  "wb_get L C now r i = sbind (on_local (op_get L r i)) (\<lambda>hit.
     case hit of
       Some b \<Rightarrow> sbind (smodify (\<lambda>w. w\<lparr>wb_index := note_hit now r i (length b) (wb_index w)\<rparr>)) (\<lambda>_. sret (Some b))
     | None \<Rightarrow>
         sbind (smodify (\<lambda>w. w\<lparr>wb_fetching := List.insert (r, i) (wb_fetching w)\<rparr>)) (\<lambda>_ w.
         case on_remote (op_get C r i) w of (fetched, w) \<Rightarrow>
         let w = w\<lparr>wb_fetching := removeAll (r, i) (wb_fetching w)\<rparr> in
         case fetched of
           Inl e \<Rightarrow> (Inl e, w)
         | Inr (Some b) \<Rightarrow> sbind (on_local (op_put L r i b)) (\<lambda>_.
             sbind (smodify (admit L C now r i (length b) True)) (\<lambda>_. sret (Some b))) w
         | Inr None \<Rightarrow> (Inr None, w)))"

text \<open>\<open>saturating_sub\<close> is the subtraction of natural numbers.\<close>

definition wb_count :: "('l, 'lm) blob_ops_scheme \<Rightarrow> ('c, 'cm) cold_ops_scheme \<Rightarrow> string
    \<Rightarrow> ('l, 'c) write_back \<Rightarrow> (blob_error + nat) \<times> ('l, 'c) write_back" where
  "wb_count L C r = sbind (on_local (op_count L r)) (\<lambda>n_local w.
     case on_remote (op_count C r) w of
       (Inl e, w) \<Rightarrow> (Inr n_local, w)
     | (Inr n_cold, w) \<Rightarrow> (Inr (n_local + n_cold - overlap_count r (wb_index w)), w))"

definition wb_delete_stream :: "('l, 'lm) blob_ops_scheme \<Rightarrow> ('c, 'cm) cold_ops_scheme \<Rightarrow> string
    \<Rightarrow> ('l, 'c) write_back \<Rightarrow> (blob_error + unit) \<times> ('l, 'c) write_back" where
  "wb_delete_stream L C r = sbind (on_local (op_delete_stream L r)) (\<lambda>_.
     sbind (on_remote (op_delete_stream C r)) (\<lambda>_.
     smodify (\<lambda>w. w\<lparr>wb_index := li_remove_stream r (wb_index w)\<rparr>)))"

definition wb_delete_chunk :: "('l, 'lm) blob_ops_scheme \<Rightarrow> ('c, 'cm) cold_ops_scheme \<Rightarrow> string \<Rightarrow> u64
    \<Rightarrow> ('l, 'c) write_back \<Rightarrow> (blob_error + unit) \<times> ('l, 'c) write_back" where
  "wb_delete_chunk L C r i = sbind (on_local (op_delete_chunk L r i)) (\<lambda>_.
     sbind (on_remote (op_delete_chunk C r i)) (\<lambda>_.
     smodify (\<lambda>w. w\<lparr>wb_index := li_remove \<lparr>ck_blob_ref = r, ck_index = i\<rparr> (wb_index w)\<rparr>)))"

definition wb_status :: "('c, 'cm) cold_ops_scheme \<Rightarrow> string \<Rightarrow> u64 \<Rightarrow> ('l, 'c) write_back
    \<Rightarrow> (blob_error + chunk_status option) \<times> ('l, 'c) write_back" where
  "wb_status C r i w = (case li_size_of \<lparr>ck_blob_ref = r, ck_index = i\<rparr> (wb_index w) of
       Some sz \<Rightarrow> (Inr (Some (cached_status sz)), w)
     | None \<Rightarrow> if (r, i) \<in> set (wb_fetching w) then (Inr (Some (remote_status ColdFetching)), w)
         else sbind (on_remote (op_has_chunk C r i)) (\<lambda>present.
           sret (if present then Some (remote_status ColdReady) else None)) w)"

definition wb_broker :: "('c, 'cm) cold_ops_scheme \<Rightarrow> string \<Rightarrow> u64 \<Rightarrow> u64 \<Rightarrow> ('l, 'c) write_back
    \<Rightarrow> (blob_error + direct_link option) \<times> ('l, 'c) write_back" where
  "wb_broker C r i ttl w = (if in_cold_of \<lparr>ck_blob_ref = r, ck_index = i\<rparr> (wb_index w) = Some False then (Inr None, w)
     else on_remote (op_broker C r i ttl) w)"

section \<open>Operator backup\<close>

record copy_report =
  cr_copied :: nat
  cr_already_cold :: nat
  cr_missing :: "(string \<times> u64) list"

definition copy_report_default :: copy_report where
  "copy_report_default = \<lparr>cr_copied = 0, cr_already_cold = 0, cr_missing = []\<rparr>"

definition is_complete :: "copy_report \<Rightarrow> bool" where
  "is_complete rep \<longleftrightarrow> cr_missing rep = []"

definition copy_chunk :: "('l, 'lm) blob_ops_scheme \<Rightarrow> ('c, 'cm) cold_ops_scheme \<Rightarrow> string \<Rightarrow> u64 \<Rightarrow> copy_report
    \<Rightarrow> ('l, 'c) write_back \<Rightarrow> (blob_error + copy_report) \<times> ('l, 'c) write_back" where
  "copy_chunk L C r i rep = sbind (on_remote (op_has_chunk C r i)) (\<lambda>present.
     if present then sret (rep\<lparr>cr_already_cold := cr_already_cold rep + 1\<rparr>)
     else sbind (on_local (op_get L r i)) (\<lambda>found. case found of
         None \<Rightarrow> sbind (on_remote (op_has_chunk C r i)) (\<lambda>present.
           sret (if present then rep\<lparr>cr_already_cold := cr_already_cold rep + 1\<rparr>
             else rep\<lparr>cr_missing := cr_missing rep @ [(r, i)]\<rparr>))
       | Some b \<Rightarrow> sbind (on_remote (op_put C r i b)) (\<lambda>_. sret (rep\<lparr>cr_copied := cr_copied rep + 1\<rparr>))))"

fun copy_chunks :: "('l, 'lm) blob_ops_scheme \<Rightarrow> ('c, 'cm) cold_ops_scheme \<Rightarrow> (string \<times> u64) list \<Rightarrow> copy_report
    \<Rightarrow> ('l, 'c) write_back \<Rightarrow> (blob_error + copy_report) \<times> ('l, 'c) write_back" where
  "copy_chunks L C [] rep = sret rep"
| "copy_chunks L C ((r, i) # ks) rep = sbind (copy_chunk L C r i rep) (copy_chunks L C ks)"

definition chunks_of_ref :: "string \<times> u64 \<Rightarrow> (string \<times> u64) list" where
  "chunks_of_ref rc = (case rc of (r, n) \<Rightarrow> map (\<lambda>i. (r, word_of_nat i)) [0..<unat n])"

definition backup_copy_refs :: "('l, 'lm) blob_ops_scheme \<Rightarrow> ('c, 'cm) cold_ops_scheme \<Rightarrow> (string \<times> u64) list
    \<Rightarrow> ('l, 'c) write_back \<Rightarrow> (blob_error + copy_report) \<times> ('l, 'c) write_back" where
  "backup_copy_refs L C refs = copy_chunks L C (concat (map chunks_of_ref refs)) copy_report_default"

end
