(* ===== verification/WriteBack_Laws.thy ===== *)
theory WriteBack_Laws
  imports WriteBack
begin

text \<open>
  The contracts of the two traits as locales, and what the write-back tier promises over any two stores that keep
  them: whatever fails and whatever is offloaded, it serves exactly the bytes of one flat store. The index evicts the
  least recently used chunks that are not pinned and keeps the byte total exact.
\<close>

section \<open>The contracts\<close>

type_synonym blobs = "string \<times> u64 \<Rightarrow> bytes option"

definition without_stream :: "string \<Rightarrow> blobs \<Rightarrow> blobs" where
  "without_stream r m = m |` {k. fst k \<noteq> r}"

text \<open>A store that may fail: a failed write or deletion may or may not have happened, and touches no other chunk.\<close>

locale blob_tier =
  fixes ops :: "('s, 'm) blob_ops_scheme" and holds :: "'s \<Rightarrow> blobs"
  assumes put_law: "op_put ops r i b s = (x, s') \<Longrightarrow>
      holds s' = (holds s)((r, i) \<mapsto> b) \<or> isl x \<and> holds s' = holds s"
    and get_law: "op_get ops r i s = (y, s') \<Longrightarrow> holds s' = holds s \<and> (\<forall>v. y = Inr v \<longrightarrow> v = holds s (r, i))"
    and count_law: "op_count ops r s = (n, s') \<Longrightarrow> holds s' = holds s"
    and delete_stream_law: "op_delete_stream ops r s = (x, s') \<Longrightarrow>
      without_stream r (holds s') = without_stream r (holds s) \<and> holds s' \<subseteq>\<^sub>m holds s \<and>
      (\<not> isl x \<longrightarrow> holds s' = without_stream r (holds s))"
    and delete_chunk_law: "op_delete_chunk ops r i s = (x, s') \<Longrightarrow>
      holds s' = (holds s)((r, i) := None) \<or> isl x \<and> holds s' = holds s"

text \<open>A local store writes to a sibling and renames, so a failed write changes nothing.\<close>

locale local_store = blob_tier +
  assumes put_atomic: "op_put ops r i b s = (Inl e, s') \<Longrightarrow> holds s' = holds s"

locale cold_tier = blob_tier ops holds for ops :: "('s, 'm) cold_ops_scheme" and holds +
  assumes has_law: "op_has_chunk ops r i s = (z, s') \<Longrightarrow> holds s' = holds s \<and> (\<forall>p. z = Inr p \<longrightarrow> p = (holds s (r, i) \<noteq> None))"
    and broker_law: "op_broker ops r i ttl s = (l, s') \<Longrightarrow> holds s' = holds s"

section \<open>The in-memory stores keep the contracts\<close>

definition mem_holds :: "memory_store \<Rightarrow> blobs" where
  "mem_holds s = (\<lambda>(r, i). mem_get r i s)"

lemma mem_holds_at [simp]: "mem_holds s (r, i) = mem_get r i s"
  by (simp add: mem_holds_def)

lemma mem_holds_put: "mem_holds (mem_put r i b s) = (mem_holds s)((r, i) \<mapsto> b)"
proof (rule ext, clarify)
  show "mem_holds (mem_put r i b s) (q, j) = ((mem_holds s)((r, i) \<mapsto> b)) (q, j)" for q j
    by (cases "q = r") (auto simp: mem_put_def mem_get_def update_conv' split: option.splits)
qed

lemma mem_holds_delete_stream: "mem_holds (mem_delete_stream r s) = without_stream r (mem_holds s)"
  by (rule ext) (auto simp: mem_delete_stream_def mem_get_def delete_conv' without_stream_def restrict_map_def)

lemma mem_holds_delete_chunk: "mem_holds (mem_delete_chunk r i s) = (mem_holds s)((r, i) := None)"
proof (rule ext, clarify)
  show "mem_holds (mem_delete_chunk r i s) (q, j) = ((mem_holds s)((r, i) := None)) (q, j)" for q j
    by (cases "q = r") (auto simp: mem_delete_chunk_def mem_get_def update_conv' delete_conv' split: option.splits)
qed

lemma without_stream_le: "without_stream r m \<subseteq>\<^sub>m m"
  by (auto simp: without_stream_def map_le_def restrict_map_def)

lemma without_stream_twice [simp]: "without_stream r (without_stream r m) = without_stream r m"
  by (simp add: without_stream_def)

interpretation memory: local_store memory_ops mem_holds
  by unfold_locales (auto simp: memory_ops_def smodify_def mem_holds_put mem_holds_delete_stream mem_holds_delete_chunk
    without_stream_le)

interpretation memory_cold: cold_tier "memory_cold_ops random" "\<lambda>s. mem_holds (mc_inner s)" for random
  by unfold_locales (auto simp: memory_cold_ops_def smodify_def cold_put_def cold_delete_stream_def cold_delete_chunk_def
    cold_has_chunk_def mem_holds_put mem_holds_delete_stream mem_holds_delete_chunk without_stream_le)

section \<open>What the tier holds\<close>

definition place :: "chunk_key \<Rightarrow> string \<times> u64" where
  "place k = (ck_blob_ref k, ck_index k)"

lemma place_key [simp]: "place \<lparr>ck_blob_ref = r, ck_index = i\<rparr> = (r, i)"
  by (simp add: place_def)

lemma place_eq: "place k = (r, i) \<longleftrightarrow> k = \<lparr>ck_blob_ref = r, ck_index = i\<rparr>"
  by (cases k) (auto simp: place_def)

lemma place_inj [simp]: "place k = place k' \<longleftrightarrow> k = k'"
  by (cases k; cases k') (auto simp: place_def)

text \<open>The local copy is the one served.\<close>

definition tier_content :: "('l \<Rightarrow> blobs) \<Rightarrow> ('c \<Rightarrow> blobs) \<Rightarrow> ('l, 'c) write_back \<Rightarrow> blobs" where
  "tier_content lh ch w = ch (wb_cold w) ++ lh (wb_local w)"

text \<open>Dropping the local copy of a coherent chunk loses nothing.\<close>

definition coherent_at :: "('l \<Rightarrow> blobs) \<Rightarrow> ('c \<Rightarrow> blobs) \<Rightarrow> ('l, 'c) write_back \<Rightarrow> string \<times> u64 \<Rightarrow> bool" where
  "coherent_at lh ch w p \<longleftrightarrow> (\<forall>b. lh (wb_local w) p = Some b \<longrightarrow> ch (wb_cold w) p = Some b)"

definition cold_backed :: "local_index \<Rightarrow> chunk_key set" where
  "cold_backed ix = {k. \<exists>e. (k, e) \<in> set (li_entries ix) \<and> le_in_cold e}"

definition index_ok :: "('l \<Rightarrow> blobs) \<Rightarrow> ('c \<Rightarrow> blobs) \<Rightarrow> ('l, 'c) write_back \<Rightarrow> bool" where
  "index_ok lh ch w \<longleftrightarrow> (\<forall>k \<in> cold_backed (wb_index w). coherent_at lh ch w (place k))"

definition victims_ok :: "('l \<Rightarrow> blobs) \<Rightarrow> ('c \<Rightarrow> blobs) \<Rightarrow> ('l, 'c) write_back \<Rightarrow> victim list \<Rightarrow> bool" where
  "victims_ok lh ch w vs \<longleftrightarrow> (\<forall>v \<in> set vs. vi_in_cold v \<longrightarrow> coherent_at lh ch w (place (vi_key v)))"

section \<open>The local index\<close>

definition li_sizes :: "local_entries \<Rightarrow> nat" where
  "li_sizes es = (\<Sum>(k, e) \<leftarrow> es. le_size e)"

text \<open>Keys and ticks are unique, no tick is in the future, and the byte total is the sum of the sizes.\<close>

definition index_valid :: "local_index \<Rightarrow> bool" where
  "index_valid ix \<longleftrightarrow> distinct (map fst (li_entries ix)) \<and> inj_on (\<lambda>(k, e). le_last_tick e) (set (li_entries ix)) \<and>
     (\<forall>(k, e) \<in> set (li_entries ix). le_last_tick e \<le> li_tick ix) \<and> li_total ix = li_sizes (li_entries ix)"

definition evictable :: "chunk_key \<Rightarrow> chunk_key \<times> local_entry \<Rightarrow> bool" where
  "evictable key ke \<longleftrightarrow> \<not> le_pinned (snd ke) \<and> fst ke \<noteq> key"

lemma sizes_delete:
  assumes "distinct (map fst es)" "(k, e) \<in> set es"
  shows "li_sizes es = le_size e + li_sizes (AList.delete k es)"
  using assms
proof (induction es)
  case (Cons x es)
  have "AList.delete k es = es" if "k \<notin> fst ` set es"
    using that by (simp add: delete_notin_dom)
  then show ?case using Cons by (cases x) (auto simp: li_sizes_def image_iff)
qed simp

lemma arg_min_list_le:
  assumes "x \<in> set xs"
  shows "f (arg_min_list f xs) \<le> (f x :: nat)"
proof -
  have "xs \<noteq> []" using assms by auto
  then have "f (arg_min_list f xs) = Min (f ` set xs)" by (rule f_arg_min_list_f)
  with assms show ?thesis by simp
qed

lemma li_victim_oldest:
  assumes "li_victim key es = Some (k, e)" "ke \<in> set es" "evictable key ke"
  shows "le_last_tick e \<le> le_last_tick (snd ke)"
proof -
  define cs where "cs = filter (\<lambda>(k, e). \<not> le_pinned e \<and> k \<noteq> key) es"
  have "ke \<in> set cs" using assms(2,3) by (auto simp: cs_def evictable_def)
  moreover have "(k, e) = arg_min_list (\<lambda>(k, e). le_last_tick e) cs"
    using assms(1) by (auto simp: li_victim_def cs_def split: list.splits)
  ultimately show ?thesis
    using arg_min_list_le [of ke cs "\<lambda>(k, e). le_last_tick e"] by (metis (no_types, lifting) case_prod_beta snd_conv)
qed

lemma li_victim_None: "li_victim key es = None \<longleftrightarrow> (\<forall>ke \<in> set es. \<not> evictable key ke)"
proof -
  have "li_victim key es = None \<longleftrightarrow> filter (\<lambda>(k, e). \<not> le_pinned e \<and> k \<noteq> key) es = []"
    by (simp add: li_victim_def split: list.split)
  then show ?thesis by (auto simp: filter_empty_conv evictable_def)
qed

lemma li_evict_stop: "used \<le> capacity \<or> li_victim key es = None \<Longrightarrow> li_evict capacity key used es = (used, es, [])"
  by (auto simp: li_evict.simps [of capacity key used es])

lemma li_evict_step:
  assumes "\<not> used \<le> capacity" "li_victim key es = Some (k, e)"
    "li_evict capacity key (used - le_size e) (AList.delete k es) = (used', es', vs)"
  shows "li_evict capacity key used es = (used', es', \<lparr>vi_key = k, vi_in_cold = le_in_cold e\<rparr> # vs)"
  using assms by (simp add: li_evict.simps [of capacity key used es])

text \<open>What one run of the loop does.\<close>

definition evicted_from :: "chunk_key \<Rightarrow> local_entries \<Rightarrow> local_entries \<Rightarrow> victim \<Rightarrow> bool" where
  "evicted_from key es es' v \<longleftrightarrow> (\<exists>e. (vi_key v, e) \<in> set es \<and> vi_in_cold v = le_in_cold e \<and> evictable key (vi_key v, e) \<and>
     (\<forall>ke \<in> set es'. evictable key ke \<longrightarrow> le_last_tick e \<le> le_last_tick (snd ke)))"

lemma li_evict_spec:
  assumes "distinct (map fst es)" "used = li_sizes es" "li_evict capacity key used es = (used', es', vs)"
  shows "es' = filter (\<lambda>(k, e). k \<notin> vi_key ` set vs) es \<and> used' = li_sizes es' \<and>
    (\<forall>v \<in> set vs. evicted_from key es es' v) \<and> (used' \<le> capacity \<or> (\<forall>ke \<in> set es'. \<not> evictable key ke))"
  using assms
proof (induction capacity key used es arbitrary: used' es' vs rule: li_evict.induct)
  case (1 capacity key used es)
  show ?case
  proof (cases "used \<le> capacity \<or> li_victim key es = None")
    case True
    from li_evict_stop [OF this] True show ?thesis
      using "1.prems" by (auto simp: li_victim_None intro!: filter_True [symmetric])
  next
    case False
    then obtain k e where v: "li_victim key es = Some (k, e)" and over: "\<not> used \<le> capacity" by auto
    obtain u2 es2 vs2 where rest: "li_evict capacity key (used - le_size e) (AList.delete k es) = (u2, es2, vs2)"
      by (metis prod_cases3)
    have out: "used' = u2" "es' = es2" "vs = \<lparr>vi_key = k, vi_in_cold = le_in_cold e\<rparr> # vs2"
      using "1.prems"(3) li_evict_step [OF over v rest] by auto
    note IH = "1.IH" [OF over v refl distinct_delete [OF "1.prems"(1)] _ rest]
    have "used - le_size e = li_sizes (AList.delete k es)"
      using sizes_delete [OF "1.prems"(1) li_victim_in(1) [OF v]] "1.prems"(2) by simp
    note IH = IH [OF this]
    have sub: "set (AList.delete k es) \<subseteq> set es" by (auto simp: AList.delete_eq)
    have sub2: "set es2 \<subseteq> set es" using IH sub by auto
    have first: "evicted_from key es es2 \<lparr>vi_key = k, vi_in_cold = le_in_cold e\<rparr>"
      using li_victim_in [OF v] li_victim_oldest [OF v] sub2
      by (auto simp: evicted_from_def evictable_def intro!: exI [of _ e])
    have others: "evicted_from key es es2 w" if "w \<in> set vs2" for w
      using IH that sub unfolding evicted_from_def by blast
    have "es2 = filter (\<lambda>(k', e). k' \<notin> vi_key ` set vs) es"
      using IH out(3) by (auto simp: AList.delete_eq intro!: filter_cong)
    then show ?thesis using IH first others out by auto
  qed
qed

lemma sizes_update:
  assumes "distinct (map fst es)"
  shows "li_sizes (AList.update k v es) =
    (case map_of es k of Some prev \<Rightarrow> li_sizes es - le_size prev | None \<Rightarrow> li_sizes es) + le_size v"
  using assms
proof (induction es)
  case (Cons x es)
  obtain k' v' where x: "x = (k', v')" by fastforce
  show ?case
  proof (cases "k' = k")
    case False
    have "le_size prev \<le> li_sizes es" if "map_of es k = Some prev" for prev
      using sizes_delete [of es k prev] Cons.prems map_of_SomeD [OF that] by simp
    then show ?thesis using Cons x False by (auto simp: li_sizes_def split: option.splits)
  qed (simp add: x li_sizes_def)
qed (simp add: li_sizes_def)

lemma set_update_distinct:
  "distinct (map fst es) \<Longrightarrow> set (AList.update k v es) = insert (k, v) {ke \<in> set es. fst ke \<noteq> k}"
proof (induction es)
  case (Cons x es)
  then show ?case by (cases x) (force simp: image_iff)
qed simp

lemma record_put_spec:
  assumes valid: "index_valid ix" and put: "record_put key sz now in_cold pinned ix = (vs, ix')"
  defines "new \<equiv> \<lparr>le_size = sz, le_last_tick = li_tick ix + 1, le_last_access = now, le_in_cold = in_cold, le_pinned = pinned\<rparr>"
  defines "es \<equiv> AList.update key new (li_entries ix)"
  shows "index_valid ix'" "li_capacity ix' = li_capacity ix" "li_entries ix' = filter (\<lambda>(k, e). k \<notin> vi_key ` set vs) es"
    "index_valid (ix\<lparr>li_tick := li_tick ix + 1, li_total := li_sizes es, li_entries := es\<rparr>)"
    "v \<in> set vs \<Longrightarrow> evicted_from key es (li_entries ix') v"
    "li_total ix' \<le> li_capacity ix \<or> (\<forall>ke \<in> set (li_entries ix'). \<not> evictable key ke)"
proof -
  let ?old = "li_entries ix"
  have dist: "distinct (map fst ?old)" and tot: "li_total ix = li_sizes ?old"
    using valid by (simp_all add: index_valid_def)
  obtain used es' vs' where loop: "li_evict (li_capacity ix) key (li_sizes es) es = (used, es', vs')"
    by (metis prod_cases3)
  have "(case map_of ?old key of Some prev \<Rightarrow> li_total ix - le_size prev | None \<Rightarrow> li_total ix) + sz = li_sizes es"
    unfolding tot es_def sizes_update [OF dist] by (simp add: new_def)
  then have "record_put key sz now in_cold pinned ix =
      (vs', ix\<lparr>li_tick := li_tick ix + 1, li_total := used, li_entries := es'\<rparr>)"
    using loop unfolding record_put_def Let_def es_def new_def by simp
  then have vs: "vs' = vs" and ix': "ix' = ix\<lparr>li_tick := li_tick ix + 1, li_total := used, li_entries := es'\<rparr>"
    using put by simp_all
  note loop = loop [unfolded vs]
  have esd: "distinct (map fst es)" using dist by (simp add: es_def distinct_update)
  have members: "set es = insert (key, new) {ke \<in> set ?old. fst ke \<noteq> key}"
    unfolding es_def by (rule set_update_distinct [OF dist])
  have past: "le_last_tick e \<le> li_tick ix" if "(k, e) \<in> set ?old" for k e
    using valid that by (auto simp: index_valid_def)
  have "inj_on (\<lambda>(k, e). le_last_tick e) (set ?old)" using valid by (simp add: index_valid_def)
  then have "inj_on (\<lambda>(k, e). le_last_tick e) {ke \<in> set ?old. fst ke \<noteq> key}"
    by (rule inj_on_subset) auto
  then have inj: "inj_on (\<lambda>(k, e). le_last_tick e) (set es)"
    using past unfolding members by (fastforce simp: new_def)
  show es_valid: "index_valid (ix\<lparr>li_tick := li_tick ix + 1, li_total := li_sizes es, li_entries := es\<rparr>)"
    using esd inj past by (auto simp: index_valid_def members new_def le_SucI)
  note spec = li_evict_spec [OF esd refl loop]
  show "li_entries ix' = filter (\<lambda>(k, e). k \<notin> vi_key ` set vs) es" using spec ix' by simp
  show "li_capacity ix' = li_capacity ix" by (simp add: ix')
  have now_in: "li_entries ix' = es'" "li_total ix' = used" by (simp_all add: ix')
  show "v \<in> set vs \<Longrightarrow> evicted_from key es (li_entries ix') v" using spec unfolding now_in by blast
  show "li_total ix' \<le> li_capacity ix \<or> (\<forall>ke \<in> set (li_entries ix'). \<not> evictable key ke)"
    using spec unfolding now_in by blast
  have "set es' \<subseteq> set es" "distinct (map fst es')"
    using spec esd by (auto simp: distinct_map_filter)
  then show "index_valid ix'" using es_valid spec ix' by (auto simp: index_valid_def inj_on_subset)
qed

lemma put_evicts_oldest:
  assumes valid: "index_valid ix" and put: "record_put key sz now in_cold pinned ix = (vs, ix')"
  shows "index_valid ix' \<and> (li_total ix' \<le> li_capacity ix' \<or> (\<forall>(k, e) \<in> set (li_entries ix'). le_pinned e \<or> k = key)) \<and>
    (\<forall>v \<in> set vs. \<exists>e. (vi_key v, e) \<in> set (li_entries ix) \<and> vi_key v \<noteq> key \<and> \<not> le_pinned e \<and> vi_in_cold v = le_in_cold e \<and>
      (\<forall>(k, e') \<in> set (li_entries ix'). \<not> le_pinned e' \<and> k \<noteq> key \<longrightarrow> le_last_tick e < le_last_tick e')) \<and>
    (\<forall>ke \<in> set (li_entries ix). fst ke \<noteq> key \<longrightarrow> ke \<in> set (li_entries ix') \<or> fst ke \<in> vi_key ` set vs)"
proof -
  define es where "es = AList.update key \<lparr>le_size = sz, le_last_tick = li_tick ix + 1, le_last_access = now,
    le_in_cold = in_cold, le_pinned = pinned\<rparr> (li_entries ix)"
  note spec = record_put_spec [OF valid put, folded es_def]
  have members: "set es = insert (key, \<lparr>le_size = sz, le_last_tick = li_tick ix + 1, le_last_access = now,
    le_in_cold = in_cold, le_pinned = pinned\<rparr>) {ke \<in> set (li_entries ix). fst ke \<noteq> key}"
    unfolding es_def using valid by (intro set_update_distinct) (simp add: index_valid_def)
  have inj: "inj_on (\<lambda>(k, e). le_last_tick e) (set es)" using spec(4) by (simp add: index_valid_def)
  have victims: "\<exists>e. (vi_key v, e) \<in> set (li_entries ix) \<and> vi_key v \<noteq> key \<and> \<not> le_pinned e \<and> vi_in_cold v = le_in_cold e \<and>
      (\<forall>(k, e') \<in> set (li_entries ix'). \<not> le_pinned e' \<and> k \<noteq> key \<longrightarrow> le_last_tick e < le_last_tick e')" if v: "v \<in> set vs" for v
  proof -
    obtain e where e: "(vi_key v, e) \<in> set es" "vi_in_cold v = le_in_cold e" "evictable key (vi_key v, e)"
        "\<And>ke. ke \<in> set (li_entries ix') \<Longrightarrow> evictable key ke \<Longrightarrow> le_last_tick e \<le> le_last_tick (snd ke)"
      using spec(5) [OF v] unfolding evicted_from_def by blast
    have "le_last_tick e < le_last_tick e'" if "(k, e') \<in> set (li_entries ix')" "\<not> le_pinned e'" "k \<noteq> key" for k e'
    proof -
      have "(k, e') \<in> set es" "k \<noteq> vi_key v" using that(1) v unfolding spec(3) by auto
      then have "le_last_tick e \<noteq> le_last_tick e'" using inj_onD [OF inj, of "(vi_key v, e)" "(k, e')"] e(1) by auto
      then show ?thesis using e(4) [of "(k, e')"] that by (simp add: evictable_def)
    qed
    then show ?thesis using e(1-3) by (intro exI [of _ e]) (auto simp: members evictable_def)
  qed
  have "\<forall>ke \<in> set (li_entries ix). fst ke \<noteq> key \<longrightarrow> ke \<in> set (li_entries ix') \<or> fst ke \<in> vi_key ` set vs"
    unfolding spec(3) by (auto simp: members)
  moreover have "li_total ix' \<le> li_capacity ix' \<or> (\<forall>(k, e) \<in> set (li_entries ix'). le_pinned e \<or> k = key)"
    using spec(6) by (auto simp: evictable_def spec(2))
  ultimately show ?thesis using spec(1) victims by blast
qed

text \<open>Recording a chunk in the local index makes room by evicting the least recently used chunks and only those it may
  evict: no victim is pinned or the chunk just recorded, every victim is older than every evictable chunk that stays, and
  the bytes stay within the capacity unless only pinned chunks and the new one are left. The byte total stays exact.\<close>

theorem eviction_least_recent:
  assumes valid: "index_valid ix" and put: "record_put key sz now in_cold pinned ix = (vs, ix')"
  shows "index_valid ix' \<and> (li_total ix' \<le> li_capacity ix' \<or> (\<forall>(k, e) \<in> set (li_entries ix'). le_pinned e \<or> k = key)) \<and>
    (\<forall>v \<in> set vs. \<exists>e. (vi_key v, e) \<in> set (li_entries ix) \<and> vi_key v \<noteq> key \<and> \<not> le_pinned e \<and> vi_in_cold v = le_in_cold e \<and>
      (\<forall>(k, e') \<in> set (li_entries ix'). \<not> le_pinned e' \<and> k \<noteq> key \<longrightarrow> le_last_tick e < le_last_tick e')) \<and>
    (\<forall>ke \<in> set (li_entries ix). fst ke \<noteq> key \<longrightarrow> ke \<in> set (li_entries ix') \<or> fst ke \<in> vi_key ` set vs)"
  using put_evicts_oldest [OF valid put] by simp

lemma record_put_backed:
  assumes valid: "index_valid ix" and put: "record_put key sz now in_cold pinned ix = (vs, ix')"
  shows "k \<in> cold_backed ix' \<Longrightarrow> if k = key then in_cold else k \<in> cold_backed ix"
    and "v \<in> set vs \<Longrightarrow> vi_in_cold v \<Longrightarrow> vi_key v \<noteq> key \<and> vi_key v \<in> cold_backed ix"
proof -
  let ?new = "\<lparr>le_size = sz, le_last_tick = li_tick ix + 1, le_last_access = now, le_in_cold = in_cold, le_pinned = pinned\<rparr>"
  have members: "set (AList.update key ?new (li_entries ix)) = insert (key, ?new) {ke \<in> set (li_entries ix). fst ke \<noteq> key}"
    using valid by (intro set_update_distinct) (simp add: index_valid_def)
  note spec = record_put_spec [OF valid put]
  have "set (li_entries ix') \<subseteq> insert (key, ?new) {ke \<in> set (li_entries ix). fst ke \<noteq> key}"
    unfolding spec(3) members [symmetric] by auto
  then show "k \<in> cold_backed ix' \<Longrightarrow> if k = key then in_cold else k \<in> cold_backed ix"
    by (fastforce simp: cold_backed_def)
  show "vi_key v \<noteq> key \<and> vi_key v \<in> cold_backed ix" if "v \<in> set vs" "vi_in_cold v"
    using spec(5) [OF that(1)] that(2) unfolding evicted_from_def members
    by (auto simp: cold_backed_def evictable_def)
qed

lemma li_remove_valid:
  assumes "index_valid ix"
  shows "index_valid (li_remove key ix)" "cold_backed (li_remove key ix) \<subseteq> cold_backed ix"
proof -
  have sub: "set (AList.delete key (li_entries ix)) \<subseteq> set (li_entries ix)" by (auto simp: AList.delete_eq)
  have "li_sizes (li_entries ix) - le_size e = li_sizes (AList.delete key (li_entries ix))"
    if "map_of (li_entries ix) key = Some e" for e
    using sizes_delete [of "li_entries ix" key e] assms map_of_SomeD [OF that] by (simp add: index_valid_def)
  then show "index_valid (li_remove key ix)"
    using assms sub by (auto simp: index_valid_def li_remove_def distinct_delete intro: inj_on_subset split: option.splits)
  show "cold_backed (li_remove key ix) \<subseteq> cold_backed ix"
    using sub by (auto simp: cold_backed_def li_remove_def split: option.splits)
qed

lemma li_remove_stream_valid:
  assumes "index_valid ix"
  shows "index_valid (li_remove_stream r ix) \<and> cold_backed (li_remove_stream r ix) \<subseteq> cold_backed ix"
proof -
  have "index_valid (fold li_remove ks ix) \<and> cold_backed (fold li_remove ks ix) \<subseteq> cold_backed ix" for ks
    using assms
  proof (induction ks arbitrary: ix)
    case (Cons k ks)
    show ?case using Cons.IH [OF li_remove_valid(1) [OF Cons.prems, of k]] li_remove_valid(2) [OF Cons.prems, of k] by auto
  qed simp
  then show ?thesis by (simp add: li_remove_stream_def)
qed

lemma li_record_access_valid:
  assumes "index_valid ix"
  shows "index_valid (li_record_access key now ix)" "cold_backed (li_record_access key now ix) \<subseteq> cold_backed ix"
proof -
  have dist: "distinct (map fst (li_entries ix))" using assms by (simp add: index_valid_def)
  show "index_valid (li_record_access key now ix)"
  proof (cases "map_of (li_entries ix) key")
    case None
    then show ?thesis using assms by (auto simp: li_record_access_def index_valid_def)
  next
    case (Some e)
    let ?e = "e\<lparr>le_last_tick := li_tick ix + 1, le_last_access := now\<rparr>"
    have members: "set (AList.update key ?e (li_entries ix)) = insert (key, ?e) {ke \<in> set (li_entries ix). fst ke \<noteq> key}"
      by (rule set_update_distinct [OF dist])
    have past: "le_last_tick e' \<le> li_tick ix" if "(k, e') \<in> set (li_entries ix)" for k e'
      using assms that by (auto simp: index_valid_def)
    have "inj_on (\<lambda>(k, e). le_last_tick e) {ke \<in> set (li_entries ix). fst ke \<noteq> key}"
      using assms by (auto simp: index_valid_def intro: inj_on_subset)
    then have "inj_on (\<lambda>(k, e). le_last_tick e) (set (AList.update key ?e (li_entries ix)))"
      using past unfolding members by (fastforce)
    moreover have "li_sizes (AList.update key ?e (li_entries ix)) = li_sizes (li_entries ix)"
      using sizes_update [OF dist, of key ?e] sizes_delete [OF dist, of key e] map_of_SomeD [OF Some] Some by simp
    moreover have "\<forall>(k', e') \<in> set (AList.update key ?e (li_entries ix)). le_last_tick e' \<le> li_tick ix + 1"
      unfolding members using past by (auto intro: le_SucI)
    ultimately show ?thesis using assms Some
      by (simp add: li_record_access_def index_valid_def distinct_update)
  qed
  show "cold_backed (li_record_access key now ix) \<subseteq> cold_backed ix"
    using set_update_distinct [OF dist] map_of_SomeD [of "li_entries ix" key]
    by (fastforce simp: cold_backed_def li_record_access_def Let_def split: option.splits)
qed

lemma index_valid_new [simp]: "index_valid (local_index_new capacity)" "cold_backed (local_index_new capacity) = {}"
  by (simp_all add: index_valid_def cold_backed_def local_index_new_def li_sizes_def)

section \<open>Two stores behind one tier\<close>

definition tier_ok :: "('l \<Rightarrow> blobs) \<Rightarrow> ('c \<Rightarrow> blobs) \<Rightarrow> ('l, 'c) write_back \<Rightarrow> bool" where
  "tier_ok lh ch w \<longleftrightarrow> index_valid (wb_index w) \<and> index_ok lh ch w"

locale write_back_env = loc: local_store L lh + rem: cold_tier C ch
  for L :: "('l, 'lm) blob_ops_scheme" and lh :: "'l \<Rightarrow> blobs"
    and C :: "('c, 'cm) cold_ops_scheme" and ch :: "'c \<Rightarrow> blobs"
begin

lemma on_localE:
  assumes "on_local m w = (x, w')"
  obtains l where "m (wb_local w) = (x, l)" "w' = w\<lparr>wb_local := l\<rparr>"
  using assms by (auto simp: on_local_def split: prod.splits)

lemma on_remoteE:
  assumes "on_remote m w = (x, w')"
  obtains c where "m (wb_cold w) = (x, c)" "w' = w\<lparr>wb_cold := c\<rparr>"
  using assms by (auto simp: on_remote_def split: prod.splits)

text \<open>A step that keeps what is served, and makes no chunk incoherent.\<close>

definition quiet :: "('l, 'c) write_back \<Rightarrow> ('l, 'c) write_back \<Rightarrow> bool" where
  "quiet w w' \<longleftrightarrow> tier_content lh ch w' = tier_content lh ch w \<and> wb_index w' = wb_index w \<and>
     (\<forall>p. coherent_at lh ch w p \<longrightarrow> coherent_at lh ch w' p)"

lemma quietI:
  assumes "\<And>p. tier_content lh ch w' p = tier_content lh ch w p" "wb_index w' = wb_index w"
    "\<And>p. coherent_at lh ch w p \<Longrightarrow> coherent_at lh ch w' p"
  shows "quiet w w'"
  using assms unfolding quiet_def fun_eq_iff by blast

lemma quiet_refl [simp]: "quiet w w"
  by (simp add: quiet_def)

lemma quiet_trans: "quiet w w' \<Longrightarrow> quiet w' w'' \<Longrightarrow> quiet w w''"
  by (simp add: quiet_def)

lemma quiet_same: "lh (wb_local w') = lh (wb_local w) \<Longrightarrow> ch (wb_cold w') = ch (wb_cold w) \<Longrightarrow> wb_index w' = wb_index w
    \<Longrightarrow> quiet w w'"
  by (simp add: quiet_def tier_content_def coherent_at_def)

lemma quiet_local_get: "on_local (op_get L r i) w = (x, w') \<Longrightarrow>
    quiet w w' \<and> lh (wb_local w') = lh (wb_local w) \<and> ch (wb_cold w') = ch (wb_cold w) \<and> (\<forall>v. x = Inr v \<longrightarrow> v = lh (wb_local w) (r, i))"
  by (erule on_localE) (auto dest!: loc.get_law intro!: quiet_same)

lemma quiet_drop:
  assumes "on_local (op_delete_chunk L r i) w = (x, w')" "coherent_at lh ch w (r, i)"
  shows "quiet w w'"
proof -
  obtain l where l: "op_delete_chunk L r i (wb_local w) = (x, l)" "w' = w\<lparr>wb_local := l\<rparr>"
    using assms(1) by (rule on_localE)
  have "lh l = (lh (wb_local w))((r, i) := None) \<or> lh l = lh (wb_local w)"
    using loc.delete_chunk_law [OF l(1)] by auto
  then have at: "lh (wb_local w') p = lh (wb_local w) p \<or> p = (r, i) \<and> lh (wb_local w') p = None" for p
    using l(2) by (auto split: if_splits)
  show ?thesis
  proof (rule quietI)
    show "tier_content lh ch w' p = tier_content lh ch w p" for p
      using at [of p] assms(2) l(2) by (auto simp: tier_content_def coherent_at_def map_add_def split: option.split)
    show "coherent_at lh ch w p \<Longrightarrow> coherent_at lh ch w' p" for p
      using at [of p] l(2) by (auto simp: coherent_at_def)
  qed (simp add: l(2))
qed

lemma quiet_copy:
  assumes "on_remote (op_put C r i b) w = (x, w')" "lh (wb_local w) (r, i) = Some b"
  shows "quiet w w' \<and> (\<not> isl x \<longrightarrow> coherent_at lh ch w' (r, i)) \<and> lh (wb_local w') = lh (wb_local w)"
proof -
  obtain c where c: "op_put C r i b (wb_cold w) = (x, c)" "w' = w\<lparr>wb_cold := c\<rparr>"
    using assms(1) by (rule on_remoteE)
  have "ch c = (ch (wb_cold w))((r, i) \<mapsto> b) \<or> isl x \<and> ch c = ch (wb_cold w)"
    using rem.put_law [OF c(1)] .
  then have at: "ch (wb_cold w') p = ch (wb_cold w) p \<or> p = (r, i) \<and> ch (wb_cold w') p = Some b" for p
    using c(2) by (auto split: if_splits)
  have "quiet w w'"
  proof (rule quietI)
    show "tier_content lh ch w' p = tier_content lh ch w p" for p
      using at [of p] assms(2) c(2) by (auto simp: tier_content_def map_add_def split: option.split)
    show "coherent_at lh ch w p \<Longrightarrow> coherent_at lh ch w' p" for p
      using at [of p] assms(2) c(2) by (auto simp: coherent_at_def)
  qed (simp add: c(2))
  moreover have "\<not> isl x \<longrightarrow> coherent_at lh ch w' (r, i)"
    using \<open>ch c = (ch (wb_cold w))((r, i) \<mapsto> b) \<or> isl x \<and> ch c = ch (wb_cold w)\<close> assms(2) c(2)
    by (auto simp: coherent_at_def)
  ultimately show ?thesis by (simp add: c(2))
qed

lemma quiet_coherent: "quiet w w' \<Longrightarrow> coherent_at lh ch w p \<Longrightarrow> coherent_at lh ch w' p"
  unfolding quiet_def by blast

lemma offload_quiet:
  assumes "offload L C k in_cold w = (x, w')" "in_cold \<Longrightarrow> coherent_at lh ch w (place k)"
  shows "quiet w w'"
proof (cases in_cold)
  case True
  then show ?thesis using assms quiet_drop [of "ck_blob_ref k" "ck_index k" w x w'] by (simp add: offload_def place_def)
next
  case False
  let ?r = "ck_blob_ref k" and ?i = "ck_index k"
  from assms(1) False have "sbind (on_local (op_get L ?r ?i)) (\<lambda>found. case found of None \<Rightarrow> sret ()
      | Some b \<Rightarrow> sbind (on_remote (op_put C ?r ?i b)) (\<lambda>_. on_local (op_delete_chunk L ?r ?i))) w = (x, w')"
    by (simp add: offload_def)
  then show ?thesis
  proof (cases rule: sbind_cases)
    case (failed e)
    then show ?thesis using quiet_local_get by blast
  next
    case (ok found w1)
    note g = quiet_local_get [OF ok(1)]
    show ?thesis
    proof (cases found)
      case None
      then show ?thesis using ok(2) g by (simp add: sret_def)
    next
      case (Some b)
      then have b: "lh (wb_local w1) (?r, ?i) = Some b" using g by simp
      from ok(2) Some have "sbind (on_remote (op_put C ?r ?i b)) (\<lambda>_. on_local (op_delete_chunk L ?r ?i)) w1 = (x, w')" by simp
      then show ?thesis
      proof (cases rule: sbind_cases)
        case (failed e)
        then show ?thesis using quiet_copy [OF failed(1) b] g quiet_trans by blast
      next
        case (ok y w2)
        have c: "quiet w1 w2" "coherent_at lh ch w2 (?r, ?i)" using quiet_copy [OF ok(1) b] by simp_all
        show ?thesis using quiet_drop [OF ok(2) c(2)] c(1) g quiet_trans by blast
      qed
    qed
  qed
qed

text \<open>The same for a step that may change the index.\<close>

definition keeps :: "('l, 'c) write_back \<Rightarrow> ('l, 'c) write_back \<Rightarrow> bool" where
  "keeps w w' \<longleftrightarrow> tier_content lh ch w' = tier_content lh ch w \<and>
     (\<forall>p. coherent_at lh ch w p \<longrightarrow> coherent_at lh ch w' p) \<and> tier_ok lh ch w'"

lemma keeps_trans: "keeps w w' \<Longrightarrow> keeps w' w'' \<Longrightarrow> keeps w w''"
  unfolding keeps_def by simp

lemma keeps_quiet: "quiet w w' \<Longrightarrow> tier_ok lh ch w \<Longrightarrow> keeps w w'"
  unfolding keeps_def quiet_def tier_ok_def index_ok_def by metis

lemma keeps_coherent: "keeps w w' \<Longrightarrow> coherent_at lh ch w p \<Longrightarrow> coherent_at lh ch w' p"
  unfolding keeps_def by blast

lemma keeps_victims: "keeps w w' \<Longrightarrow> victims_ok lh ch w vs \<Longrightarrow> victims_ok lh ch w' vs"
  unfolding keeps_def victims_ok_def by blast

lemma keeps_index:
  assumes "tier_ok lh ch w" "index_valid ix" "\<And>k. k \<in> cold_backed ix \<Longrightarrow> k \<in> cold_backed (wb_index w) \<or> coherent_at lh ch w (place k)"
  shows "keeps w (w\<lparr>wb_index := ix\<rparr>)"
proof -
  have "coherent_at lh ch (w\<lparr>wb_index := ix\<rparr>) p = coherent_at lh ch w p" for p
    by (simp add: coherent_at_def)
  then show ?thesis using assms by (auto simp: keeps_def tier_content_def tier_ok_def index_ok_def)
qed

lemma readopt_keeps:
  assumes "tier_ok lh ch w" "vi_in_cold v \<Longrightarrow> coherent_at lh ch w (place (vi_key v))"
  shows "keeps w (readopt L now v w)"
proof -
  obtain x w1 where g: "on_local (op_get L (ck_blob_ref (vi_key v)) (ck_index (vi_key v))) w = (x, w1)" by fastforce
  note q = quiet_local_get [OF g]
  then have k1: "keeps w w1" using keeps_quiet assms(1) by blast
  show ?thesis
  proof (cases "\<exists>b. x = Inr (Some b)")
    case False
    then show ?thesis using g k1 by (auto simp: readopt_def split: sum.splits option.splits)
  next
    case True
    then obtain b where x: "x = Inr (Some b)" by blast
    obtain vs ix where put: "record_put (vi_key v) (length b) now (vi_in_cold v) False (wb_index w1) = (vs, ix)" by fastforce
    have valid: "index_valid (wb_index w1)" and ok1: "tier_ok lh ch w1" using k1 by (auto simp: keeps_def tier_ok_def)
    have "keeps w1 (w1\<lparr>wb_index := ix\<rparr>)"
    proof (rule keeps_index [OF ok1 record_put_spec(1) [OF valid put]])
      show "k \<in> cold_backed (wb_index w1) \<or> coherent_at lh ch w1 (place k)" if "k \<in> cold_backed ix" for k
        using record_put_backed(1) [OF valid put that] assms(2) keeps_coherent [OF k1] by (auto split: if_splits)
    qed
    then show ?thesis using g x put k1 keeps_trans by (auto simp: readopt_def)
  qed
qed

lemma fold_readopt_keeps:
  "tier_ok lh ch w \<Longrightarrow> victims_ok lh ch w vs \<Longrightarrow> keeps w (fold (readopt L now) vs w)"
proof (induction vs arbitrary: w)
  case Nil
  then show ?case by (simp add: keeps_quiet)
next
  case (Cons v vs)
  have k: "keeps w (readopt L now v w)"
    using Cons.prems by (intro readopt_keeps) (auto simp: victims_ok_def)
  moreover have "victims_ok lh ch (readopt L now v w) vs"
    using keeps_victims [OF k, of vs] Cons.prems(2) by (simp add: victims_ok_def)
  ultimately show ?case using Cons.IH keeps_trans by (fastforce simp: keeps_def)
qed

lemma offload_victims_keeps:
  "tier_ok lh ch w \<Longrightarrow> victims_ok lh ch w vs \<Longrightarrow> keeps w (offload_victims L C now vs w)"
proof (induction vs arbitrary: w)
  case Nil
  then show ?case by (simp add: keeps_quiet)
next
  case (Cons v vs)
  obtain x w1 where o: "offload L C (vi_key v) (vi_in_cold v) w = (x, w1)" by fastforce
  have "quiet w w1" using offload_quiet [OF o] Cons.prems(2) by (simp add: victims_ok_def)
  then have k: "keeps w w1" using Cons.prems(1) by (rule keeps_quiet)
  then have ok1: "tier_ok lh ch w1" and v1: "victims_ok lh ch w1 (v # vs)"
    using keeps_victims Cons.prems(2) by (auto simp: keeps_def)
  show ?case
  proof (cases x)
    case (Inl e)
    then show ?thesis using o fold_readopt_keeps [OF ok1 v1, of now] k keeps_trans by (auto simp del: fold.simps)
  next
    case (Inr u)
    then show ?thesis using o Cons.IH [OF ok1] v1 k keeps_trans by (auto simp: victims_ok_def)
  qed
qed

lemma sweep_keeps:
  assumes "tier_ok lh ch w"
  shows "keeps w (run_idle_sweep L C now w)"
proof -
  have "vi_key v \<in> cold_backed (wb_index w)" if "v \<in> set (idle_victims now (wb_idle w) (wb_index w))" "vi_in_cold v" for v
    using that by (auto simp: idle_victims_def cold_backed_def split: option.splits)
  then have "victims_ok lh ch w (idle_victims now (wb_idle w) (wb_index w))"
    using assms by (simp add: victims_ok_def tier_ok_def index_ok_def)
  then show ?thesis unfolding run_idle_sweep_def by (rule offload_victims_keeps [OF assms])
qed

text \<open>Recording a chunk: its own entry is replaced, so only the others need to be coherent before.\<close>

lemma admit_keeps:
  assumes valid: "index_valid (wb_index w)"
    and others: "\<And>k. k \<in> cold_backed (wb_index w) \<Longrightarrow> place k \<noteq> (r, i) \<Longrightarrow> coherent_at lh ch w (place k)"
    and own: "in_cold \<Longrightarrow> coherent_at lh ch w (r, i)"
  shows "tier_content lh ch (admit L C now r i sz in_cold w) = tier_content lh ch w" "tier_ok lh ch (admit L C now r i sz in_cold w)"
proof -
  let ?key = "\<lparr>ck_blob_ref = r, ck_index = i\<rparr>"
  obtain vs ix where put: "record_put ?key sz now in_cold (is_pinned_stream r) (wb_index w) = (vs, ix)" by fastforce
  let ?w = "w\<lparr>wb_index := ix\<rparr>"
  have same: "coherent_at lh ch ?w p = coherent_at lh ch w p" for p by (simp add: coherent_at_def)
  have "coherent_at lh ch w (place k)" if "k \<in> cold_backed ix" for k
    using record_put_backed(1) [OF valid put that] others own by (cases "k = ?key") (auto simp: place_eq)
  then have ok: "tier_ok lh ch ?w"
    using record_put_spec(1) [OF valid put] by (simp add: tier_ok_def index_ok_def same)
  have "victims_ok lh ch ?w vs"
    using record_put_backed(2) [OF valid put] others by (auto simp: victims_ok_def same place_eq)
  from offload_victims_keeps [OF ok this, of now]
  show "tier_content lh ch (admit L C now r i sz in_cold w) = tier_content lh ch w" "tier_ok lh ch (admit L C now r i sz in_cold w)"
    using put by (simp_all add: admit_def keeps_def tier_content_def)
qed

end

definition toy_index :: local_index where
  "toy_index = snd (record_put \<lparr>ck_blob_ref = ''a'', ck_index = 0\<rparr> 2 1 False False (local_index_new 3))"

theorem eviction_least_recent_witness:
  "\<exists>vs ix. record_put \<lparr>ck_blob_ref = ''a'', ck_index = 1\<rparr> 2 2 False False toy_index = (vs, ix) \<and> vs \<noteq> [] \<and> index_valid ix \<and>
     li_total ix \<le> li_capacity ix"
proof -
  have valid: "index_valid toy_index"
    by (simp add: toy_index_def record_put_def local_index_new_def li_evict.simps index_valid_def li_sizes_def)
  obtain vs ix where put: "record_put \<lparr>ck_blob_ref = ''a'', ck_index = 1\<rparr> 2 2 False False toy_index = (vs, ix)" by fastforce
  have "vs \<noteq> []" "li_total ix \<le> li_capacity ix"
    using put by (auto simp: toy_index_def record_put_def local_index_new_def li_evict.simps li_victim_def)
  then show ?thesis using put eviction_least_recent [OF valid put] by blast
qed

end
