(* ===== verification/WriteBack_Serving.thy ===== *)
theory WriteBack_Serving
  imports WriteBack_Laws
begin

text \<open>
  The requests of the write-back tier against one flat store: the simulation, its consequences for a sequence of
  requests with failures and restarts, the operator's blob copy, and the cases where the index and the tiers disagree.
\<close>

lemma without_stream_add: "without_stream r (a ++ b) = without_stream r a ++ without_stream r b"
  by (auto simp: without_stream_def fun_eq_iff restrict_map_def map_add_def)

lemma stream_dropped:
  assumes "without_stream r a = without_stream r b"
  shows "a p = b p \<or> without_stream r m p = None"
proof (cases "fst p = r")
  case False
  then show ?thesis using fun_cong [OF assms, of p] by (simp add: without_stream_def)
qed (simp add: without_stream_def)

section \<open>One request\<close>

context write_back_env
begin

lemma quiet_served: "quiet w w' \<Longrightarrow> tier_ok lh ch w \<Longrightarrow> tier_ok lh ch w' \<and> tier_content lh ch w' = tier_content lh ch w"
  by (drule (1) keeps_quiet) (simp add: keeps_def)

lemma put_served:
  assumes ok: "tier_ok lh ch w" and put: "wb_put L C now r i b w = (x, w')"
  shows "tier_ok lh ch w' \<and> tier_content lh ch w' = (if isl x then tier_content lh ch w else (tier_content lh ch w)((r, i) \<mapsto> b))"
proof -
  from put have "sbind (on_local (op_put L r i b)) (\<lambda>_. smodify (admit L C now r i (length b) False)) w = (x, w')"
    by (simp add: wb_put_def)
  then show ?thesis
  proof (cases rule: sbind_cases)
    case (failed e)
    obtain l where l: "op_put L r i b (wb_local w) = (Inl e, l)" "w' = w\<lparr>wb_local := l\<rparr>"
      using failed(1) by (rule on_localE)
    have "quiet w w'" using loc.put_atomic [OF l(1)] l(2) by (intro quiet_same) simp_all
    from quiet_served [OF this assms(1)] show ?thesis using failed(2) by simp
  next
    case (ok u w1)
    obtain l where l: "op_put L r i b (wb_local w) = (Inr u, l)" "w1 = w\<lparr>wb_local := l\<rparr>"
      using ok(1) by (rule on_localE)
    have lh: "lh l = (lh (wb_local w))((r, i) \<mapsto> b)" using loc.put_law [OF l(1)] by simp
    have content: "tier_content lh ch w1 = (tier_content lh ch w)((r, i) \<mapsto> b)"
      by (simp add: tier_content_def l(2) lh)
    have valid1: "index_valid (wb_index w1)" using assms(1) by (simp add: tier_ok_def l(2))
    have others1: "coherent_at lh ch w1 (place k)" if "k \<in> cold_backed (wb_index w1)" "place k \<noteq> (r, i)" for k
      using that assms(1) by (simp add: tier_ok_def index_ok_def coherent_at_def l(2) lh)
    have "tier_content lh ch (admit L C now r i (length b) False w1) = tier_content lh ch w1"
      by (rule admit_keeps(1) [OF valid1 others1]; simp)
    moreover have "tier_ok lh ch (admit L C now r i (length b) False w1)"
      by (rule admit_keeps(2) [OF valid1 others1]; simp)
    ultimately show ?thesis using ok(2) content by (auto simp: smodify_def)
  qed
qed

lemma hit_keeps:
  assumes "tier_ok lh ch w"
  shows "keeps w (w\<lparr>wb_index := note_hit now r i sz (wb_index w)\<rparr>)"
proof -
  let ?key = "\<lparr>ck_blob_ref = r, ck_index = i\<rparr>"
  have valid: "index_valid (wb_index w)" using assms by (simp add: tier_ok_def)
  show ?thesis
  proof (cases "li_contains ?key (wb_index w)")
    case True
    then show ?thesis using li_record_access_valid [OF valid, of ?key now]
      by (intro keeps_index [OF assms]) (auto simp: note_hit_def Let_def)
  next
    case False
    obtain vs ix where put: "record_put ?key sz now False (is_pinned_stream r) (wb_index w) = (vs, ix)" by fastforce
    have "k \<in> cold_backed (wb_index w)" if "k \<in> cold_backed ix" for k
      using record_put_backed(1) [OF valid put that] by (simp split: if_splits)
    then show ?thesis using False record_put_spec(1) [OF valid put] put
      by (intro keeps_index [OF assms]) (auto simp: note_hit_def Let_def)
  qed
qed

lemma fetching_irrelevant: "tier_ok lh ch (w\<lparr>wb_fetching := f\<rparr>) = tier_ok lh ch w"
    "tier_content lh ch (w\<lparr>wb_fetching := f\<rparr>) = tier_content lh ch w"
  by (simp_all add: tier_ok_def index_ok_def coherent_at_def tier_content_def)

lemma quiet_remote: "on_remote m w = (x, w') \<Longrightarrow> (\<And>c c' y. m c = (y, c') \<Longrightarrow> ch c' = ch c) \<Longrightarrow>
    quiet w w' \<and> lh (wb_local w') = lh (wb_local w) \<and> ch (wb_cold w') = ch (wb_cold w) \<and> wb_index w' = wb_index w"
  by (erule on_remoteE) (auto intro!: quiet_same)

text \<open>Bringing a chunk back from the cold tier.\<close>

lemma rehydrate_served:
  assumes ok: "tier_ok lh ch w" and absent: "lh (wb_local w) (r, i) = None" and cold: "ch (wb_cold w) (r, i) = Some b"
    and fetch: "sbind (on_local (op_put L r i b)) (\<lambda>_. sbind (smodify (admit L C now r i (length b) True)) (\<lambda>_. sret (Some b))) w = (x, w')"
  shows "tier_ok lh ch w' \<and> tier_content lh ch w' = tier_content lh ch w \<and> (\<forall>v. x = Inr v \<longrightarrow> v = Some b)"
  using fetch
proof (cases rule: sbind_cases)
  case (failed e)
  obtain l where l: "op_put L r i b (wb_local w) = (Inl e, l)" "w' = w\<lparr>wb_local := l\<rparr>"
    using failed(1) by (rule on_localE)
  have "quiet w w'" using loc.put_atomic [OF l(1)] l(2) by (intro quiet_same) simp_all
  from quiet_served [OF this assms(1)] show ?thesis using failed(2) by simp
next
  case (ok u w1)
  obtain l where l: "op_put L r i b (wb_local w) = (Inr u, l)" "w1 = w\<lparr>wb_local := l\<rparr>"
    using ok(1) by (rule on_localE)
  have lh: "lh l = (lh (wb_local w))((r, i) \<mapsto> b)" using loc.put_law [OF l(1)] by simp
  have content: "tier_content lh ch w1 = tier_content lh ch w"
    using absent cold by (auto simp: tier_content_def l(2) lh fun_eq_iff map_add_def split: option.split)
  have valid1: "index_valid (wb_index w1)" using assms(1) by (simp add: tier_ok_def l(2))
  have others1: "coherent_at lh ch w1 (place k)" if "k \<in> cold_backed (wb_index w1)" "place k \<noteq> (r, i)" for k
    using that assms(1) by (simp add: tier_ok_def index_ok_def coherent_at_def l(2) lh)
  have own: "coherent_at lh ch w1 (r, i)" using cold by (simp add: coherent_at_def l(2) lh)
  have "tier_content lh ch (admit L C now r i (length b) True w1) = tier_content lh ch w1"
    by (rule admit_keeps(1) [OF valid1 others1 own])
  moreover have "tier_ok lh ch (admit L C now r i (length b) True w1)"
    by (rule admit_keeps(2) [OF valid1 others1 own])
  ultimately show ?thesis using ok(2) content by (auto simp: smodify_def sbind_def sret_def)
qed

lemma get_served:
  assumes ok: "tier_ok lh ch w" and get: "wb_get L C now r i w = (x, w')"
  shows "tier_ok lh ch w' \<and> tier_content lh ch w' = tier_content lh ch w \<and> (\<forall>v. x = Inr v \<longrightarrow> v = tier_content lh ch w (r, i))"
proof -
  from get [unfolded wb_get_def] show ?thesis
  proof (cases rule: sbind_cases)
    case (failed e)
    have "quiet w w'" using quiet_local_get [OF failed(1)] by simp
    from quiet_served [OF this assms(1)] show ?thesis using failed(2) by simp
  next
    case (ok hit w1)
    note g = quiet_local_get [OF ok(1)]
    have ok1: "tier_ok lh ch w1" and content1: "tier_content lh ch w1 = tier_content lh ch w"
      using g quiet_served [of w w1] assms(1) by simp_all
    show ?thesis
    proof (cases hit)
      case (Some b)
      have "lh (wb_local w) (r, i) = Some b" using g Some by simp
      then have "tier_content lh ch w (r, i) = Some b" by (simp add: tier_content_def)
      then show ?thesis using ok(2) Some hit_keeps [OF ok1, of now r i "length b"] content1
        by (auto simp: smodify_def sbind_def sret_def keeps_def)
    next
      case None
      let ?w2 = "w1\<lparr>wb_fetching := List.insert (r, i) (wb_fetching w1)\<rparr>"
      obtain y w3 where f: "on_remote (op_get C r i) ?w2 = (y, w3)" by fastforce
      obtain c where c: "op_get C r i (wb_cold ?w2) = (y, c)" "w3 = ?w2\<lparr>wb_cold := c\<rparr>" using f by (rule on_remoteE)
      have cc: "ch c = ch (wb_cold w1)" "\<And>v. y = Inr v \<Longrightarrow> v = ch (wb_cold w1) (r, i)"
        using rem.get_law [OF c(1)] by auto
      let ?w4 = "w3\<lparr>wb_fetching := removeAll (r, i) (wb_fetching w3)\<rparr>"
      have "quiet w1 w3" by (rule quiet_same) (simp_all add: c(2) cc)
      then have "keeps w1 w3" using ok1 by (rule keeps_quiet)
      then have ok4: "tier_ok lh ch ?w4" and content4: "tier_content lh ch ?w4 = tier_content lh ch w"
        using content1 by (simp_all add: fetching_irrelevant keeps_def)
      have absent: "lh (wb_local ?w4) (r, i) = None" using g None by (simp add: c(2))
      have at: "tier_content lh ch w (r, i) = ch (wb_cold w1) (r, i)"
        using g None by (simp add: tier_content_def map_add_def)
      have rest: "(case y of Inl e \<Rightarrow> (Inl e, ?w4)
          | Inr (Some b) \<Rightarrow> sbind (on_local (op_put L r i b)) (\<lambda>_.
              sbind (smodify (admit L C now r i (length b) True)) (\<lambda>_. sret (Some b))) ?w4
          | Inr None \<Rightarrow> (Inr None, ?w4)) = (x, w')"
        using ok(2) None f by (simp add: sbind_def smodify_def Let_def)
      show ?thesis
      proof (cases y)
        case (Inl e)
        then show ?thesis using rest ok4 content4 by auto
      next
        case (Inr v)
        show ?thesis
        proof (cases v)
          case None
          then show ?thesis using rest ok4 content4 at cc(2) [OF Inr] Inr by auto
        next
          case (Some b)
          have "ch (wb_cold ?w4) (r, i) = Some b" using cc Inr Some by (simp add: c(2))
          from rehydrate_served [OF ok4 absent this, of now x w'] rest Inr Some content4 at cc(2) [OF Inr]
          show ?thesis by auto
        qed
      qed
    qed
  qed
qed

lemma count_served:
  assumes ok: "tier_ok lh ch w" and count: "wb_count L C r w = (x, w')"
  shows "tier_ok lh ch w' \<and> tier_content lh ch w' = tier_content lh ch w"
proof -
  have q: "quiet w w1" if "on_local (op_count L r) w = (y, w1)" for y w1
    using that loc.count_law by (auto elim!: on_localE intro!: quiet_same)
  have q2: "quiet w1 w2" if "on_remote (op_count C r) w1 = (y, w2)" for y w1 w2
    using that rem.count_law by (auto elim!: on_remoteE intro!: quiet_same)
  from count [unfolded wb_count_def] have "quiet w w'"
    by (cases rule: sbind_cases) (auto dest: q q2 intro: quiet_trans split: prod.splits sum.splits)
  then show ?thesis using ok by (rule quiet_served)
qed

lemma status_served:
  assumes ok: "tier_ok lh ch w" and status: "wb_status C r i w = (x, w')"
  shows "tier_ok lh ch w' \<and> tier_content lh ch w' = tier_content lh ch w"
proof -
  have q: "quiet w w1" if "on_remote (op_has_chunk C r i) w = (y, w1)" for y w1
    using that rem.has_law by (auto elim!: on_remoteE intro!: quiet_same)
  have "quiet w w'" using status q
    by (auto simp: wb_status_def sbind_def sret_def split: option.splits if_splits prod.splits sum.splits)
  then show ?thesis using ok by (rule quiet_served)
qed

lemma broker_served:
  assumes ok: "tier_ok lh ch w" and link: "wb_broker C r i ttl w = (x, w')"
  shows "tier_ok lh ch w' \<and> tier_content lh ch w' = tier_content lh ch w"
proof -
  have "quiet w w'" using link rem.broker_law
    by (auto simp: wb_broker_def elim!: on_remoteE intro!: quiet_same split: if_splits)
  then show ?thesis using ok by (rule quiet_served)
qed

lemma sweep_served:
  assumes "tier_ok lh ch w"
  shows "tier_ok lh ch (run_idle_sweep L C now w) \<and> tier_content lh ch (run_idle_sweep L C now w) = tier_content lh ch w"
  using sweep_keeps [OF assms, of now] by (simp add: keeps_def)

text \<open>Removal: the local copies go first, so a coherent chunk stays coherent.\<close>

lemma fewer_local:
  assumes "tier_ok lh ch w" "lh l \<subseteq>\<^sub>m lh (wb_local w)"
  shows "tier_ok lh ch (w\<lparr>wb_local := l\<rparr>)"
proof -
  have "coherent_at lh ch (w\<lparr>wb_local := l\<rparr>) p" if "coherent_at lh ch w p" for p
    using that assms(2) by (simp add: coherent_at_def map_le_def) (metis domI)
  then show ?thesis using assms(1) by (simp add: tier_ok_def index_ok_def)
qed

lemma cold_changed:
  assumes "tier_ok lh ch w" "\<And>p. ch c p = ch (wb_cold w) p \<or> lh (wb_local w) p = None"
  shows "tier_ok lh ch (w\<lparr>wb_cold := c\<rparr>)"
proof -
  have "coherent_at lh ch (w\<lparr>wb_cold := c\<rparr>) p" if "coherent_at lh ch w p" for p
    using that assms(2) [of p] by (auto simp: coherent_at_def)
  then show ?thesis using assms(1) by (simp add: tier_ok_def index_ok_def)
qed

lemma index_shrunk:
  assumes "tier_ok lh ch w" "index_valid ix" "cold_backed ix \<subseteq> cold_backed (wb_index w)"
  shows "tier_ok lh ch (w\<lparr>wb_index := ix\<rparr>)"
  using assms by (auto simp: tier_ok_def index_ok_def coherent_at_def)

lemma delete_stream_served:
  assumes ok: "tier_ok lh ch w" and del: "wb_delete_stream L C r w = (x, w')"
  shows "tier_ok lh ch w' \<and> without_stream r (tier_content lh ch w') = without_stream r (tier_content lh ch w) \<and>
    (\<not> isl x \<longrightarrow> tier_content lh ch w' = without_stream r (tier_content lh ch w))"
  using del [unfolded wb_delete_stream_def]
proof (cases rule: sbind_cases)
  case (failed e)
  obtain l where l: "op_delete_stream L r (wb_local w) = (Inl e, l)" "w' = w\<lparr>wb_local := l\<rparr>"
    using failed(1) by (rule on_localE)
  note law = loc.delete_stream_law [OF l(1)]
  have "tier_ok lh ch w'" using fewer_local [OF ok] law unfolding l(2) by blast
  then show ?thesis using law failed(2) by (simp add: l(2) tier_content_def without_stream_add)
next
  case (ok u w1)
  obtain l where l: "op_delete_stream L r (wb_local w) = (Inr u, l)" "w1 = w\<lparr>wb_local := l\<rparr>"
    using ok(1) by (rule on_localE)
  note law = loc.delete_stream_law [OF l(1)]
  have ok1: "tier_ok lh ch w1" using fewer_local [OF assms(1)] law unfolding l(2) by blast
  have gone: "lh (wb_local w1) = without_stream r (lh (wb_local w))" using law by (simp add: l(2))
  from ok(2) show ?thesis
  proof (cases rule: sbind_cases)
    case (failed e)
    obtain c where c: "op_delete_stream C r (wb_cold w1) = (Inl e, c)" "w' = w1\<lparr>wb_cold := c\<rparr>"
      using failed(1) by (rule on_remoteE)
    note claw = rem.delete_stream_law [OF c(1)]
    have "tier_ok lh ch w'" unfolding c(2)
    proof (rule cold_changed [OF ok1])
      show "ch c p = ch (wb_cold w1) p \<or> lh (wb_local w1) p = None" for p
        unfolding gone by (rule stream_dropped) (use claw in simp)
    qed
    then show ?thesis using claw gone failed(2) by (simp add: c(2) l(2) tier_content_def without_stream_add)
  next
    case (ok v w2)
    obtain c where c: "op_delete_stream C r (wb_cold w1) = (Inr v, c)" "w2 = w1\<lparr>wb_cold := c\<rparr>"
      using ok(1) by (rule on_remoteE)
    note claw = rem.delete_stream_law [OF c(1)]
    have ok2: "tier_ok lh ch w2" unfolding c(2)
    proof (rule cold_changed [OF ok1])
      show "ch c p = ch (wb_cold w1) p \<or> lh (wb_local w1) p = None" for p
        unfolding gone by (rule stream_dropped) (use claw in simp)
    qed
    have w': "w' = w2\<lparr>wb_index := li_remove_stream r (wb_index w2)\<rparr>" "\<not> isl x"
      using ok(2) by (auto simp: smodify_def)
    have "index_valid (wb_index w2)" using ok2 by (simp add: tier_ok_def)
    then have "tier_ok lh ch w'" unfolding w'(1)
      using li_remove_stream_valid [of "wb_index w2" r] by (intro index_shrunk [OF ok2]) simp_all
    then show ?thesis using claw gone w' by (simp add: c(2) l(2) tier_content_def without_stream_add)
  qed
qed

lemma delete_chunk_served:
  assumes ok: "tier_ok lh ch w" and del: "wb_delete_chunk L C r i w = (x, w')"
  shows "tier_ok lh ch w' \<and> (\<forall>p. p \<noteq> (r, i) \<longrightarrow> tier_content lh ch w' p = tier_content lh ch w p) \<and>
    (\<not> isl x \<longrightarrow> tier_content lh ch w' (r, i) = None)"
  using del [unfolded wb_delete_chunk_def]
proof (cases rule: sbind_cases)
  case (failed e)
  obtain l where l: "op_delete_chunk L r i (wb_local w) = (Inl e, l)" "w' = w\<lparr>wb_local := l\<rparr>"
    using failed(1) by (rule on_localE)
  have law: "lh l \<subseteq>\<^sub>m lh (wb_local w)" "\<And>p. p \<noteq> (r, i) \<Longrightarrow> lh l p = lh (wb_local w) p"
    using loc.delete_chunk_law [OF l(1)] by (auto simp: map_le_def split: if_splits)
  show ?thesis using fewer_local [OF ok law(1)] law(2) failed(2) by (simp add: l(2) tier_content_def map_add_def)
next
  case (ok u w1)
  obtain l where l: "op_delete_chunk L r i (wb_local w) = (Inr u, l)" "w1 = w\<lparr>wb_local := l\<rparr>"
    using ok(1) by (rule on_localE)
  have gone: "lh (wb_local w1) = (lh (wb_local w))((r, i) := None)"
    using loc.delete_chunk_law [OF l(1)] by (simp add: l(2))
  have ok1: "tier_ok lh ch w1"
    using fewer_local [OF assms(1), of l] gone by (simp add: l(2) map_le_def)
  from ok(2) show ?thesis
  proof (cases rule: sbind_cases)
    case (failed e)
    obtain c where c: "op_delete_chunk C r i (wb_cold w1) = (Inl e, c)" "w' = w1\<lparr>wb_cold := c\<rparr>"
      using failed(1) by (rule on_remoteE)
    have law: "ch c p = ch (wb_cold w1) p \<or> p = (r, i)" for p
      using rem.delete_chunk_law [OF c(1)] by auto
    have "tier_ok lh ch w'" unfolding c(2)
      by (rule cold_changed [OF ok1]) (use law gone in \<open>metis fun_upd_same\<close>)
    moreover have "tier_content lh ch w' p = tier_content lh ch w p" if "p \<noteq> (r, i)" for p
      using law [of p] gone that by (simp add: tier_content_def map_add_def c(2) l(2) split: option.split)
    ultimately show ?thesis using failed(2) by simp
  next
    case (ok v w2)
    obtain c where c: "op_delete_chunk C r i (wb_cold w1) = (Inr v, c)" "w2 = w1\<lparr>wb_cold := c\<rparr>"
      using ok(1) by (rule on_remoteE)
    have law: "ch c = (ch (wb_cold w1))((r, i) := None)" using rem.delete_chunk_law [OF c(1)] by simp
    have ok2: "tier_ok lh ch w2" unfolding c(2)
      by (rule cold_changed [OF ok1]) (simp add: law gone)
    have w': "w' = w2\<lparr>wb_index := li_remove \<lparr>ck_blob_ref = r, ck_index = i\<rparr> (wb_index w2)\<rparr>" "\<not> isl x"
      using ok(2) by (auto simp: smodify_def)
    have "index_valid (wb_index w2)" using ok2 by (simp add: tier_ok_def)
    then have "tier_ok lh ch w'" unfolding w'(1)
      using li_remove_valid [of "wb_index w2"] by (intro index_shrunk [OF ok2]) simp_all
    moreover have "tier_content lh ch w' = (tier_content lh ch w)((r, i) := None)"
      using law gone by (auto simp: w' tier_content_def c(2) l(2) fun_eq_iff map_add_def split: option.splits)
    ultimately show ?thesis by simp
  qed
qed

lemma copy_chunk_served:
  assumes ok: "tier_ok lh ch w" and copy: "copy_chunk L C r i rep w = (x, w')"
  shows "tier_ok lh ch w' \<and> tier_content lh ch w' = tier_content lh ch w"
proof -
  have has: "quiet w1 w2" if "on_remote (op_has_chunk C r i) w1 = (y, w2)" for y w1 w2
    using that rem.has_law by (auto elim!: on_remoteE intro!: quiet_same)
  have "quiet w w'" using copy [unfolded copy_chunk_def]
  proof (cases rule: sbind_cases)
    case (ok present w1)
    have q1: "quiet w w1" using has [OF ok(1)] .
    show ?thesis
    proof (cases present)
      case False
      have "sbind (on_local (op_get L r i)) (\<lambda>found. case found of
          None \<Rightarrow> sbind (on_remote (op_has_chunk C r i)) (\<lambda>present.
            sret (if present then rep\<lparr>cr_already_cold := cr_already_cold rep + 1\<rparr>
              else rep\<lparr>cr_missing := cr_missing rep @ [(r, i)]\<rparr>))
        | Some b \<Rightarrow> sbind (on_remote (op_put C r i b)) (\<lambda>_. sret (rep\<lparr>cr_copied := cr_copied rep + 1\<rparr>))) w1 = (x, w')"
        using ok(2) by (simp only: False if_False)
      then show ?thesis
      proof (cases rule: sbind_cases)
        case (failed e)
        then show ?thesis using q1 quiet_local_get quiet_trans by blast
      next
        case (ok found w2)
        note g = quiet_local_get [OF ok(1)]
        have q2: "quiet w w2" using q1 g quiet_trans by blast
        show ?thesis
        proof (cases found)
          case None
          with ok(2) show ?thesis using q2 has quiet_trans
            by (auto simp: sbind_def sret_def split: prod.splits sum.splits)
        next
          case (Some b)
          then have b: "lh (wb_local w2) (r, i) = Some b" using g by simp
          from ok(2) Some show ?thesis using q2 quiet_copy [OF _ b] quiet_trans
            by (auto simp: sbind_def sret_def split: prod.splits sum.splits)
        qed
      qed
    qed (use ok q1 in \<open>simp add: sret_def\<close>)
  qed (use has in blast)
  then show ?thesis using ok by (rule quiet_served)
qed

lemma copy_chunks_served:
  assumes "tier_ok lh ch w" "copy_chunks L C ks rep w = (x, w')"
  shows "tier_ok lh ch w' \<and> tier_content lh ch w' = tier_content lh ch w"
  using assms
proof (induction ks arbitrary: rep w)
  case (Cons k ks)
  obtain r i where k: "k = (r, i)" by fastforce
  from Cons.prems(2) [unfolded k copy_chunks.simps] show ?case
  proof (cases rule: sbind_cases)
    case (ok rep1 w1)
    then show ?thesis using copy_chunk_served [OF Cons.prems(1) ok(1)] Cons.IH [of w1 rep1] by simp
  qed (use copy_chunk_served [OF Cons.prems(1)] in blast)
qed (simp add: sret_def)

end

interpretation memory_tier: write_back_env memory_ops mem_holds "memory_cold_ops random" "\<lambda>s. mem_holds (mc_inner s)" for random
  by unfold_locales

section \<open>A sequence of requests\<close>

datatype tier_request = TrPut string u64 bytes | TrGet string u64 | TrCount string | TrDeleteStream string
  | TrDeleteChunk string u64 | TrStatus string u64 | TrBroker string u64 u64 | TrSweep | TrCopy "(string \<times> u64) list"

datatype tier_reply = TpDone | TpFailed | TpBytes "bytes option" | TpOther

definition reply_of :: "('x \<Rightarrow> tier_reply) \<Rightarrow> (blob_error + 'x) \<times> 'w \<Rightarrow> tier_reply \<times> 'w" where
  "reply_of f y = (case y of (Inl e, w) \<Rightarrow> (TpFailed, w) | (Inr x, w) \<Rightarrow> (f x, w))"

fun tier_step :: "('l, 'lm) blob_ops_scheme \<Rightarrow> ('c, 'cm) cold_ops_scheme \<Rightarrow> int \<Rightarrow> tier_request
    \<Rightarrow> ('l, 'c) write_back \<Rightarrow> tier_reply \<times> ('l, 'c) write_back" where
  "tier_step L C now (TrPut r i b) w = reply_of (\<lambda>_. TpDone) (wb_put L C now r i b w)"
| "tier_step L C now (TrGet r i) w = reply_of TpBytes (wb_get L C now r i w)"
| "tier_step L C now (TrCount r) w = reply_of (\<lambda>_. TpOther) (wb_count L C r w)"
| "tier_step L C now (TrDeleteStream r) w = reply_of (\<lambda>_. TpDone) (wb_delete_stream L C r w)"
| "tier_step L C now (TrDeleteChunk r i) w = reply_of (\<lambda>_. TpDone) (wb_delete_chunk L C r i w)"
| "tier_step L C now (TrStatus r i) w = reply_of (\<lambda>_. TpOther) (wb_status C r i w)"
| "tier_step L C now (TrBroker r i ttl) w = reply_of (\<lambda>_. TpOther) (wb_broker C r i ttl w)"
| "tier_step L C now TrSweep w = (TpDone, run_idle_sweep L C now w)"
| "tier_step L C now (TrCopy refs) w = reply_of (\<lambda>_. TpOther) (backup_copy_refs L C refs w)"

fun tier_run :: "('l, 'lm) blob_ops_scheme \<Rightarrow> ('c, 'cm) cold_ops_scheme \<Rightarrow> (int \<times> tier_request) list
    \<Rightarrow> ('l, 'c) write_back \<Rightarrow> (tier_request \<times> tier_reply) list \<times> ('l, 'c) write_back" where
  "tier_run L C [] w = ([], w)"
| "tier_run L C ((now, rq) # rqs) w = (let (rp, w) = tier_step L C now rq w; (log, w) = tier_run L C rqs w in ((rq, rp) # log, w))"

text \<open>One flat store: a failed write changes nothing, a failed deletion touches only what it names.\<close>

fun store_step :: "tier_request \<Rightarrow> tier_reply \<Rightarrow> blobs \<Rightarrow> blobs \<Rightarrow> bool" where
  "store_step (TrPut r i b) TpDone m m' \<longleftrightarrow> m' = m((r, i) \<mapsto> b)"
| "store_step (TrGet r i) (TpBytes x) m m' \<longleftrightarrow> m' = m \<and> x = m (r, i)"
| "store_step (TrDeleteStream r) TpDone m m' \<longleftrightarrow> m' = without_stream r m"
| "store_step (TrDeleteStream r) TpFailed m m' \<longleftrightarrow> without_stream r m' = without_stream r m"
| "store_step (TrDeleteChunk r i) TpDone m m' \<longleftrightarrow> m' = m((r, i) := None)"
| "store_step (TrDeleteChunk r i) TpFailed m m' \<longleftrightarrow> (\<forall>p. p \<noteq> (r, i) \<longrightarrow> m' p = m p)"
| "store_step rq rp m m' \<longleftrightarrow> m' = m"

fun store_run :: "(tier_request \<times> tier_reply) list \<Rightarrow> blobs \<Rightarrow> blobs \<Rightarrow> bool" where
  "store_run [] m m' \<longleftrightarrow> m' = m"
| "store_run ((rq, rp) # log) m m'' \<longleftrightarrow> (\<exists>m'. store_step rq rp m m' \<and> store_run log m' m'')"

lemma reply_ofE:
  assumes "reply_of f y = (rp, w)"
  obtains (failed) e where "y = (Inl e, w)" "rp = TpFailed" | (ok) x where "y = (Inr x, w)" "rp = f x"
  using assms by (auto simp: reply_of_def split: prod.splits sum.splits)

context write_back_env
begin

lemma step_refines:
  assumes ok: "tier_ok lh ch w" and step: "tier_step L C now rq w = (rp, w')"
  shows "tier_ok lh ch w' \<and> store_step rq rp (tier_content lh ch w) (tier_content lh ch w')"
proof (cases rq)
  case (TrPut r i b)
  from step show ?thesis unfolding TrPut tier_step.simps
    by (cases rule: reply_ofE; insert put_served [OF ok]; fastforce)
next
  case (TrGet r i)
  from step show ?thesis unfolding TrGet tier_step.simps
    by (cases rule: reply_ofE; insert get_served [OF ok]; fastforce)
next
  case (TrCount r)
  from step show ?thesis unfolding TrCount tier_step.simps
    by (cases rule: reply_ofE; insert count_served [OF ok]; fastforce)
next
  case (TrDeleteStream r)
  from step [unfolded TrDeleteStream tier_step.simps] show ?thesis
  proof (cases rule: reply_ofE)
    case (failed e)
    then show ?thesis using delete_stream_served [OF ok failed(1)] TrDeleteStream by simp
  next
    case (ok x)
    then show ?thesis using delete_stream_served [OF assms(1) ok(1)] TrDeleteStream by simp
  qed
next
  case (TrDeleteChunk r i)
  from step [unfolded TrDeleteChunk tier_step.simps] show ?thesis
  proof (cases rule: reply_ofE)
    case (failed e)
    then show ?thesis using delete_chunk_served [OF ok failed(1)] TrDeleteChunk by simp
  next
    case (ok x)
    note d = delete_chunk_served [OF assms(1) ok(1)]
    then have "tier_content lh ch w' = (tier_content lh ch w)((r, i) := None)" unfolding fun_eq_iff fun_upd_def by simp
    then show ?thesis using d ok(2) TrDeleteChunk by simp
  qed
next
  case (TrStatus r i)
  from step show ?thesis unfolding TrStatus tier_step.simps
    by (cases rule: reply_ofE; insert status_served [OF ok]; fastforce)
next
  case (TrBroker r i ttl)
  from step show ?thesis unfolding TrBroker tier_step.simps
    by (cases rule: reply_ofE; insert broker_served [OF ok]; fastforce)
next
  case TrSweep
  then show ?thesis using step sweep_served [OF ok, of now] by auto
next
  case (TrCopy refs)
  from step show ?thesis unfolding TrCopy tier_step.simps backup_copy_refs_def
    by (cases rule: reply_ofE; insert copy_chunks_served [OF ok]; fastforce)
qed

lemma run_refines:
  assumes "tier_ok lh ch w" "tier_run L C rqs w = (log, w')"
  shows "store_run log (tier_content lh ch w) (tier_content lh ch w')"
  using assms
proof (induction rqs arbitrary: w log)
  case (Cons x rqs)
  obtain now rq where x: "x = (now, rq)" by fastforce
  obtain rp w1 where s: "tier_step L C now rq w = (rp, w1)" by fastforce
  obtain log1 where r: "tier_run L C rqs w1 = (log1, w')" "log = (rq, rp) # log1"
    using Cons.prems(2) s by (auto simp: x split: prod.splits)
  show ?case using step_refines [OF Cons.prems(1) s] Cons.IH [OF _ r(1)] r(2) by auto
qed simp

lemma new_tier_ok: "tier_ok lh ch (write_back_new l c capacity idle)"
  by (simp add: tier_ok_def write_back_new_def index_ok_def)

end

text \<open>C28: The write-back tier refines one flat store. Start it over any contents of the local and the cold store (a
  restart: its index is empty) and let any requests run, with failures of either store: what every read returns is what
  the last completed write put there, and no offload, rehydration, sweep, eviction or operator copy changes it.\<close>

theorem write_back_refines_store:
  assumes "write_back_env L lh C ch" and "tier_run L C rqs (write_back_new l c capacity idle) = (log, w')"
  shows "store_run log (ch c ++ lh l) (tier_content lh ch w')"
  using write_back_env.run_refines [OF assms(1) write_back_env.new_tier_ok [OF assms(1)] assms(2)]
  by (simp add: tier_content_def write_back_new_def)

definition toy_requests :: "(int \<times> tier_request) list" where
  "toy_requests = [(1, TrPut ''a/1/1'' 0 [1, 2]), (2, TrPut ''a/1/1'' 1 [3, 4]), (3, TrGet ''a/1/1'' 0), (4, TrSweep)]"

theorem write_back_refines_store_witness:
  "\<exists>log w. tier_run memory_ops (memory_cold_ops []) toy_requests (write_back_new [] (with_master_token ''t'') 3 10) = (log, w)
     \<and> store_run log Map.empty (tier_content mem_holds (\<lambda>s. mem_holds (mc_inner s)) w)"
proof -
  obtain log w where run: "tier_run memory_ops (memory_cold_ops []) toy_requests (write_back_new [] (with_master_token ''t'') 3 10) = (log, w)"
    by fastforce
  have "mem_holds (mc_inner (with_master_token ''t'')) ++ mem_holds [] = Map.empty"
    by (rule ext) (simp add: with_master_token_def mem_holds_def mem_get_def split: prod.splits)
  then show ?thesis
    using run write_back_refines_store [OF memory_tier.write_back_env_axioms run] by metis
qed

section \<open>The operator's copy\<close>

context write_back_env
begin

text \<open>One chunk of a copy: recorded as missing, or durable afterwards; the cold tier loses nothing and a coherent chunk
  stays coherent.\<close>

lemma copy_chunk_durable:
  assumes copy: "copy_chunk L C r i rep w = (Inr rep', w')"
  shows "(cr_missing rep' = cr_missing rep @ [(r, i)] \<or> cr_missing rep' = cr_missing rep \<and> ch (wb_cold w') (r, i) \<noteq> None) \<and>
    dom (ch (wb_cold w)) \<subseteq> dom (ch (wb_cold w')) \<and> lh (wb_local w') = lh (wb_local w) \<and>
    (\<forall>p. coherent_at lh ch w p \<longrightarrow> coherent_at lh ch w' p)"
proof -
  have has: "ch (wb_cold w2) = ch (wb_cold w1) \<and> lh (wb_local w2) = lh (wb_local w1) \<and> (\<forall>p. y = Inr p \<longrightarrow> p = (ch (wb_cold w1) (r, i) \<noteq> None))"
    if h: "on_remote (op_has_chunk C r i) w1 = (y, w2)" for y w1 w2
  proof -
    obtain c where c: "op_has_chunk C r i (wb_cold w1) = (y, c)" "w2 = w1\<lparr>wb_cold := c\<rparr>" using h by (rule on_remoteE)
    show ?thesis using rem.has_law [OF c(1)] by (simp add: c(2))
  qed
  have same: "coherent_at lh ch w2 p = coherent_at lh ch w1 p"
    if "ch (wb_cold w2) = ch (wb_cold w1)" "lh (wb_local w2) = lh (wb_local w1)" for w1 w2 p
    using that by (simp add: coherent_at_def)
  from copy [unfolded copy_chunk_def] show ?thesis
  proof (cases rule: sbind_cases)
    case (ok present w1)
    note h1 = has [OF ok(1)]
    show ?thesis
    proof (cases present)
      case True
      then show ?thesis using ok(2) h1 same [of w1 w] by (auto simp: sret_def)
    next
      case False
      have "sbind (on_local (op_get L r i)) (\<lambda>found. case found of
          None \<Rightarrow> sbind (on_remote (op_has_chunk C r i)) (\<lambda>present.
            sret (if present then rep\<lparr>cr_already_cold := cr_already_cold rep + 1\<rparr>
              else rep\<lparr>cr_missing := cr_missing rep @ [(r, i)]\<rparr>))
        | Some b \<Rightarrow> sbind (on_remote (op_put C r i b)) (\<lambda>_. sret (rep\<lparr>cr_copied := cr_copied rep + 1\<rparr>))) w1 = (Inr rep', w')"
        using ok(2) by (simp only: False if_False)
      then show ?thesis
      proof (cases rule: sbind_cases)
        case (ok found w2)
        note g = quiet_local_get [OF ok(1)]
        show ?thesis
        proof (cases found)
          case None
          with ok(2) have "sbind (on_remote (op_has_chunk C r i)) (\<lambda>present.
            sret (if present then rep\<lparr>cr_already_cold := cr_already_cold rep + 1\<rparr>
              else rep\<lparr>cr_missing := cr_missing rep @ [(r, i)]\<rparr>)) w2 = (Inr rep', w')" by simp
          then show ?thesis
          proof (cases rule: sbind_cases)
            case (ok p w3)
            note h3 = has [OF ok(1)]
            have "ch (wb_cold w') = ch (wb_cold w) \<and> lh (wb_local w') = lh (wb_local w)"
              using ok(2) h3 g h1 by (simp add: sret_def)
            then show ?thesis using ok(2) h3 same [of w' w] by (auto simp: sret_def)
          qed simp
        next
          case (Some b)
          then have b: "lh (wb_local w2) (r, i) = Some b" using g by simp
          from ok(2) Some have "sbind (on_remote (op_put C r i b)) (\<lambda>_. sret (rep\<lparr>cr_copied := cr_copied rep + 1\<rparr>)) w2 = (Inr rep', w')" by simp
          then show ?thesis
          proof (cases rule: sbind_cases)
            case (ok u w3)
            obtain c where c: "op_put C r i b (wb_cold w2) = (Inr u, c)" "w3 = w2\<lparr>wb_cold := c\<rparr>"
              using ok(1) by (rule on_remoteE)
            have "ch c = (ch (wb_cold w2))((r, i) \<mapsto> b)" using rem.put_law [OF c(1)] by simp
            moreover have "coherent_at lh ch w' p" if "coherent_at lh ch w p" for p
            proof (rule quiet_coherent)
              show "quiet w2 w'" using quiet_copy [OF ok(1) b] ok(2) by (simp add: sret_def)
              show "coherent_at lh ch w2 p" using that same [of w2 w p] g h1 by simp
            qed
            ultimately show ?thesis using ok(2) c(2) g h1 by (auto simp: sret_def)
          qed simp
        qed
      qed simp
    qed
  qed simp
qed

lemma copy_chunks_durable:
  assumes "copy_chunks L C ks rep w = (Inr rep', w')"
  shows "(\<exists>more. cr_missing rep' = cr_missing rep @ more \<and> set ks - set more \<subseteq> dom (ch (wb_cold w'))) \<and>
    dom (ch (wb_cold w)) \<subseteq> dom (ch (wb_cold w')) \<and> lh (wb_local w') = lh (wb_local w) \<and>
    (\<forall>p. coherent_at lh ch w p \<longrightarrow> coherent_at lh ch w' p)"
  using assms
proof (induction ks arbitrary: rep w)
  case (Cons k ks)
  obtain r i where k: "k = (r, i)" by fastforce
  from Cons.prems [unfolded k copy_chunks.simps] show ?case
  proof (cases rule: sbind_cases)
    case (ok rep1 w1)
    note one = copy_chunk_durable [OF ok(1)] and rest = Cons.IH [OF ok(2)]
    from rest obtain more where more: "cr_missing rep' = cr_missing rep1 @ more" "set ks - set more \<subseteq> dom (ch (wb_cold w'))"
      by blast
    have "\<exists>more. cr_missing rep' = cr_missing rep @ more \<and> set (k # ks) - set more \<subseteq> dom (ch (wb_cold w'))"
    proof (cases "cr_missing rep1 = cr_missing rep @ [(r, i)]")
      case True
      then show ?thesis using more k by (intro exI [of _ "(r, i) # more"]) auto
    next
      case False
      then have "cr_missing rep1 = cr_missing rep" "(r, i) \<in> dom (ch (wb_cold w'))" using one rest by auto
      then show ?thesis using more k by (intro exI [of _ more]) auto
    qed
    moreover have "dom (ch (wb_cold w)) \<subseteq> dom (ch (wb_cold w'))" "\<forall>p. coherent_at lh ch w p \<longrightarrow> coherent_at lh ch w' p"
      using one rest by blast+
    ultimately show ?thesis using one rest by simp
  qed simp
qed (simp add: sret_def)

end

text \<open>A blob copy that reports itself complete is: every chunk of every stream it was given is in the cold tier, the
  local copies are untouched, and a chunk whose cold copy was the current one before is backed with the bytes it
  serves.\<close>

theorem complete_copy_is_durable:
  assumes env: "write_back_env L lh C ch" and run: "backup_copy_refs L C refs w = (Inr rep, w')" and complete: "is_complete rep"
    and chunk: "(r, n) \<in> set refs" "i < n"
  shows "ch (wb_cold w') (r, i) \<noteq> None \<and> lh (wb_local w') = lh (wb_local w) \<and>
    (coherent_at lh ch w (r, i) \<longrightarrow> ch (wb_cold w') (r, i) = tier_content lh ch w' (r, i))"
proof -
  let ?ks = "concat (map chunks_of_ref refs)"
  note d = write_back_env.copy_chunks_durable [OF env run [unfolded backup_copy_refs_def]]
  have "unat i < unat n" using chunk(2) by (simp add: word_less_nat_alt)
  then have "(r, i) \<in> set (chunks_of_ref (r, n))"
    by (auto simp: chunks_of_ref_def intro!: image_eqI [of _ _ "unat i"])
  then have "(r, i) \<in> set ?ks" using chunk(1) by auto
  then have "(r, i) \<in> dom (ch (wb_cold w'))"
    using d complete by (auto simp: is_complete_def copy_report_default_def)
  moreover have "ch (wb_cold w') (r, i) = tier_content lh ch w' (r, i)" if "coherent_at lh ch w (r, i)"
    using d that by (auto simp: coherent_at_def tier_content_def map_add_def split: option.split)
  ultimately show ?thesis using d by auto
qed

definition toy_copy :: "(memory_store, memory_cold) write_back" where
  "toy_copy = write_back_new [(''a/1/3'', [(0, [7]), (1, [8])])] (with_master_token ''t'') 100 10"

theorem complete_copy_is_durable_witness:
  "\<exists>rep w. backup_copy_refs memory_ops (memory_cold_ops []) [(''a/1/3'', 2)] toy_copy = (Inr rep, w) \<and> is_complete rep \<and>
     mem_holds (mc_inner (wb_cold w)) (''a/1/3'', 1) \<noteq> None"
proof -
  obtain rep w where run: "backup_copy_refs memory_ops (memory_cold_ops []) [(''a/1/3'', 2)] toy_copy = (Inr rep, w)" "is_complete rep"
    by (simp add: backup_copy_refs_def chunks_of_ref_def upt_rec toy_copy_def write_back_new_def copy_chunk_def sbind_def sret_def
      on_remote_def on_local_def memory_ops_def memory_cold_ops_def cold_has_chunk_def with_master_token_def mem_get_def
      smodify_def cold_put_def mem_put_def copy_report_default_def is_complete_def)
  show ?thesis
    using run complete_copy_is_durable [OF memory_tier.write_back_env_axioms run, of "''a/1/3''" 2 1] by auto
qed

section \<open>Where the index and the tiers disagree\<close>

text \<open>A chunk that went cold and is uploaded again (a resumed upload) is counted in both tiers: two chunks count three,
  so the completeness check of a finalize, which wants exactly the number of chunks, refuses the upload.\<close>

definition resumed_upload :: "(int \<times> tier_request) list" where
  "resumed_upload = [(1, TrPut ''a/1/1'' 0 [1, 2]), (2, TrPut ''a/1/1'' 1 [3, 4]), (3, TrPut ''a/1/1'' 0 [1, 2])]"

lemmas tier_eval = Let_def wb_put_def wb_get_def sbind_def sret_def smodify_def on_local_def on_remote_def
  admit_def offload_def record_put_def li_evict.simps li_victim_def is_pinned_stream_def parse_u8_def is_digit_def digits_val_def
  memory_ops_def memory_cold_ops_def mem_put_def mem_get_def mem_delete_chunk_def cold_put_def reply_of_def
  write_back_new_def local_index_new_def with_master_token_def chunk_path_def wb_count_def mem_count_def overlap_count_def
  readopt_def wb_status_def li_size_of_def cold_has_chunk_def

theorem reuploaded_chunk_counts_twice:
  "let w = snd (tier_run memory_ops (memory_cold_ops []) resumed_upload (write_back_new [] (with_master_token ''t'') 3 10))
   in fst (wb_count memory_ops (memory_cold_ops []) ''a/1/1'' w) = Inr 3 \<and>
      fst (wb_get memory_ops (memory_cold_ops []) 4 ''a/1/1'' 2 w) = Inr None"
  by (simp add: tier_eval resumed_upload_def)

text \<open>While the cold tier is down, re-adopting a chunk whose offload failed drops another one from the index without
  offloading it: it is still served, but its status is that of an absent chunk and no sweep will ever move it.\<close>

definition down_cold_ops :: "memory_cold cold_ops" where
  "down_cold_ops = memory_cold_ops []\<lparr>op_put := (\<lambda>r i b s. (Inl \<lparr>be_op = ''put_chunk'', be_detail = ''down''\<rparr>, s))\<rparr>"

theorem failed_offload_drops_accounting:
  "let w = snd (tier_run memory_ops down_cold_ops
       [(1, TrPut ''a/1/1'' 0 [1, 2]), (2, TrPut ''a/1/1'' 1 [3, 4]), (3, TrPut ''a/1/1'' 2 [5, 6])]
       (write_back_new [] (with_master_token ''t'') 5 10))
   in fst (wb_status down_cold_ops ''a/1/1'' 1 w) = Inr None \<and>
      fst (wb_get memory_ops down_cold_ops 4 ''a/1/1'' 1 w) = Inr (Some [3, 4])"
  by (simp add: tier_eval down_cold_ops_def note_hit_def li_contains_def)

end
