(* ===== verification/BackupFormat.thy ===== *)
theory BackupFormat
  imports KeyBlob
begin

text \<open>
  \<^verbatim>\<open>crates/server/src/backup/format.rs\<close>: the sealed parts of a backup bundle. A passphrase is its UTF-8 bytes; the
  salt and the nonce base come from the random number generator and are arguments.
\<close>

unbundle bit_operations_syntax

definition MXBU_MAGIC :: bytes where "MXBU_MAGIC = str_bytes ''MXBU''"
definition MXBU_VERSION_V1 :: byte where "MXBU_VERSION_V1 = 1"
definition MXBU_TAG_LEN :: nat where "MXBU_TAG_LEN = 16"
definition MAX_ARGON_M_KIB :: u32 where "MAX_ARGON_M_KIB = 4 * 1024 * 1024"
definition MAX_ARGON_T :: u32 where "MAX_ARGON_T = 64"
definition MAX_ARGON_P :: u32 where "MAX_ARGON_P = 16"
definition MXBU_HEADER_LEN :: nat where "MXBU_HEADER_LEN = 4 + 1 + 4 + 4 + 4 + 16 + 12"
definition MIN_PASSPHRASE_CHARS :: nat where "MIN_PASSPHRASE_CHARS = 12"

datatype mxbu_error = PassphraseTooShort nat nat | CorruptPart | UnsupportedVersion byte | MxBelowArgonFloor
  | MxKeyDerivation | Unauthentic

definition from_crypto :: "crypto_error \<Rightarrow> mxbu_error" where
  "from_crypto e = (case e of BelowArgonFloor \<Rightarrow> MxBelowArgonFloor | _ \<Rightarrow> MxKeyDerivation)"

definition mx_build_header :: "argon2_params \<Rightarrow> bytes \<Rightarrow> bytes \<Rightarrow> bytes" where
  "mx_build_header params salt nonce_base = header_with MXBU_MAGIC MXBU_VERSION_V1 params salt nonce_base"

definition parse_header :: "bytes \<Rightarrow> mxbu_error + bytes \<times> argon2_params" where
  "parse_header part =
     (if length part < MXBU_HEADER_LEN + MXBU_TAG_LEN then Inl CorruptPart
      else if bslice 0 4 part \<noteq> MXBU_MAGIC then Inl CorruptPart
      else if part ! 4 \<noteq> MXBU_VERSION_V1 then Inl (UnsupportedVersion (part ! 4))
      else
        let params = header_params part in
        if MAX_ARGON_M_KIB < ar_m_kib params \<or> MAX_ARGON_T < ar_t params \<or> MAX_ARGON_P < ar_p params
        then Inl CorruptPart
        else Inr (bslice 0 MXBU_HEADER_LEN part, params))"

definition nonce_base :: "bytes \<Rightarrow> bytes" where
  "nonce_base header = bslice 33 45 header"

definition salt_of :: "bytes \<Rightarrow> bytes" where
  "salt_of header = bslice 17 33 header"

definition part_nonce :: "bytes \<Rightarrow> u32 \<Rightarrow> bytes" where
  "part_nonce base part_index = take 8 base @ map2 (XOR) (drop 8 base) (be_bytes 4 (unat part_index))"

definition part_aad :: "bytes \<Rightarrow> u32 \<Rightarrow> bool \<Rightarrow> bytes" where
  "part_aad header part_index is_last = header @ be_bytes 4 (unat part_index) @ [if is_last then 1 else 0]"

record mxbu_sealer =
  ms_header :: bytes
  ms_key :: bytes

record mxbu_opener =
  mo_header :: bytes
  mo_key :: bytes

definition sealer_new :: "argon2 \<Rightarrow> bytes \<Rightarrow> bytes \<Rightarrow> bytes \<Rightarrow> argon2_params \<Rightarrow> mxbu_error + mxbu_sealer" where
  "sealer_new argon2 salt base passphrase params =
     (let chars = chars_count passphrase in
      if chars < MIN_PASSPHRASE_CHARS then Inl (PassphraseTooShort chars MIN_PASSPHRASE_CHARS)
      else rbind (map_err from_crypto (derive_key argon2 passphrase salt params)) (\<lambda>key.
        Inr \<lparr>ms_header = mx_build_header params salt base, ms_key = key\<rparr>))"

definition seal_part :: "gcm_seal \<Rightarrow> mxbu_sealer \<Rightarrow> u32 \<Rightarrow> bool \<Rightarrow> bytes \<Rightarrow> bytes" where
  "seal_part gcm_seal s part_index is_last plaintext =
     ms_header s @ seal1 gcm_seal (ms_key s) (part_nonce (nonce_base (ms_header s)) part_index)
       (part_aad (ms_header s) part_index is_last) plaintext"

definition from_part :: "argon2 \<Rightarrow> bytes \<Rightarrow> bytes \<Rightarrow> mxbu_error + mxbu_opener" where
  "from_part argon2 passphrase part =
     rbind (parse_header part) (\<lambda>(header, params).
     rbind (map_err from_crypto (derive_key argon2 passphrase (salt_of header) params)) (\<lambda>key.
     Inr \<lparr>mo_header = header, mo_key = key\<rparr>))"

definition open_part :: "gcm_open \<Rightarrow> mxbu_opener \<Rightarrow> u32 \<Rightarrow> bool \<Rightarrow> bytes \<Rightarrow> mxbu_error + bytes" where
  "open_part gcm_open opn part_index is_last part =
     (if length part < MXBU_HEADER_LEN + MXBU_TAG_LEN \<or> take MXBU_HEADER_LEN part \<noteq> mo_header opn then Inl CorruptPart
      else map_err (\<lambda>_. Unauthentic) (open1 gcm_open (mo_key opn) (part_nonce (nonce_base (mo_header opn)) part_index)
        (part_aad (mo_header opn) part_index is_last) (drop MXBU_HEADER_LEN part)))"

section \<open>Laws\<close>

lemma xor_left_cancel:
  assumes "a XOR x = a XOR (y :: byte)"
  shows "x = y"
proof -
  have undo: "a XOR (a XOR z) = z" for z by (rule bit_eqI) (auto simp: bit_xor_iff)
  have "x = a XOR (a XOR x)" by (simp only: undo)
  also have "\<dots> = y" by (simp only: assms undo)
  finally show ?thesis .
qed

lemma part_nonce_inj:
  assumes "length base = 12"
  shows "part_nonce base i = part_nonce base j \<longleftrightarrow> i = j"
proof
  assume eq: "part_nonce base i = part_nonce base j"
  have "map2 (XOR) b x = map2 (XOR) b y \<Longrightarrow> length b = length x \<Longrightarrow> length x = length y \<Longrightarrow> x = y" for b x y :: bytes
  proof (induction b arbitrary: x y)
    case (Cons a b)
    from Cons.prems(2,3) obtain x0 xs y0 ys where xy: "x = x0 # xs" "y = y0 # ys" by (cases x; cases y; simp)
    have "a XOR x0 = a XOR y0" "map2 (XOR) b xs = map2 (XOR) b ys" "length b = length xs" "length xs = length ys"
      using Cons.prems xy by simp_all
    then show ?case using xor_left_cancel [of a x0 y0] Cons.IH [of xs ys] xy by simp
  qed simp
  from this [of "drop 8 base"] eq assms have "be_bytes 4 (unat i) = be_bytes 4 (unat j)"
    by (simp add: part_nonce_def)
  then show "i = j" by (metis be_val_u32)
qed simp

lemma part_aad_inj:
  assumes "length h = length h'" "part_aad h i b = part_aad h' j c"
  shows "h = h' \<and> i = j \<and> b = c"
proof -
  have "h = h'" "be_bytes 4 (unat i) @ [if b then 1 else 0] = be_bytes 4 (unat j) @ [if c then 1 else 0 :: byte]"
    using assms by (auto simp: part_aad_def)
  then have "be_bytes 4 (unat i) = be_bytes 4 (unat j)" "b = c"
    by (auto split: if_splits)
  then show ?thesis using \<open>h = h'\<close> by (metis be_val_u32)
qed

end
