(* ===== verification/BackupBundle.thy ===== *)
theory BackupBundle
  imports BackupFormat BlobTiers Encoding_Laws
begin

text \<open>
  \<^verbatim>\<open>crates/server/src/backup/mod.rs\<close>: the container of a backup bundle over a cold tier. A Rust string is the HOL
  string of its UTF-8 bytes; the tier is a \<open>cold_ops\<close> record over a state of its own; a \<open>Read\<close> source is the list of
  what its \<open>read\<close> calls find. JSON is the \<^verbatim>\<open>serde_json\<close> package's and a parameter. Byte totals are natural numbers.
\<close>

section \<open>Scopes and errors\<close>

datatype component = CompDb | CompState

fun component_str :: "component \<Rightarrow> string" where
  "component_str CompDb = ''db''"
| "component_str CompState = ''state''"

datatype db_mode = DbMerge | DbReplace

record only_scope =
  on_db :: bool
  on_state :: bool
  on_code :: bool
  on_blobs :: bool

definition default_restore :: only_scope where
  "default_restore = \<lparr>on_db = True, on_state = True, on_code = True, on_blobs = False\<rparr>"

definition only_components :: only_scope where
  "only_components = \<lparr>on_db = True, on_state = True, on_code = False, on_blobs = False\<rparr>"

fun selects :: "only_scope \<Rightarrow> component \<Rightarrow> bool" where
  "selects sc CompDb = on_db sc"
| "selects sc CompState = on_state sc"

datatype backup_error = BeTier blob_error | BeIo | BeMxbu mxbu_error | BeDecode decode_error | BadStamp string
  | BadGitSha string | BadPartSize nat | TooManyParts | NoSuchBundle string | MissingPart component u32
  | PartDigestMismatch component u32 | EntryDigestMismatch string | UnsafeEntryPath string | PayloadLenMismatch nat nat
  | MalformedPayload | GitShaDisagreement "string option" "string option" | CreatedAtDisagreement u64 u64
  | ComponentMismatch component | StampMismatch string string | TierCannotList | LiveDbRequired
  | ReplaceOverLiveDbNeedsForce | ServerStillConnected int | OwnerUsernameCollision "string list" | DbFault

record bundle_meta =
  bm_component :: component
  bm_stamp :: string
  bm_git_sha :: "string option"
  bm_created_at :: u64
  bm_entries :: "backup_entry list"
  bm_parts :: "backup_part list"

definition part_count :: "bundle_meta \<Rightarrow> nat" where
  "part_count m = length (bm_parts m) + 1"

section \<open>Helpers\<close>

definition AEAD_TAG_LEN :: nat where "AEAD_TAG_LEN = 16"
definition PART_OVERHEAD :: nat where "PART_OVERHEAD = MXBU_HEADER_LEN + AEAD_TAG_LEN"
definition MAX_PART_SIZE :: nat where "MAX_PART_SIZE = 8 * 1024 * 1024"
definition PART0_IS_LAST :: bool where "PART0_IS_LAST = False"

definition max_part_bytes :: "nat \<Rightarrow> nat" where
  "max_part_bytes part_size = part_size + PART_OVERHEAD"

definition component_ref :: "string \<Rightarrow> component \<Rightarrow> string" where
  "component_ref stamp c = ''_backup/'' @ stamp @ ''/'' @ component_str c"

definition manifest_ref :: "string \<Rightarrow> string" where
  "manifest_ref stamp = ''_backup/'' @ stamp @ ''/manifest''"

definition code_of :: "char \<Rightarrow> nat" where
  "code_of c = of_char c"

definition is_ascii_alnum :: "char \<Rightarrow> bool" where
  "is_ascii_alnum c \<longleftrightarrow> (48 \<le> code_of c \<and> code_of c \<le> 57) \<or> (65 \<le> code_of c \<and> code_of c \<le> 90) \<or> (97 \<le> code_of c \<and> code_of c \<le> 122)"

definition is_ascii_hex :: "char \<Rightarrow> bool" where
  "is_ascii_hex c \<longleftrightarrow> (48 \<le> code_of c \<and> code_of c \<le> 57) \<or> (65 \<le> code_of c \<and> code_of c \<le> 70) \<or> (97 \<le> code_of c \<and> code_of c \<le> 102)"

definition stamp_ok :: "string \<Rightarrow> bool" where
  "stamp_ok stamp \<longleftrightarrow> stamp \<noteq> [] \<and> length stamp \<le> 32 \<and> list_all (\<lambda>b. is_ascii_alnum b \<or> b = CHR ''-'') stamp"

definition validate_stamp :: "string \<Rightarrow> backup_error + unit" where
  "validate_stamp stamp = (if stamp_ok stamp then Inr () else Inl (BadStamp stamp))"

definition sha_ok :: "string \<Rightarrow> bool" where
  "sha_ok s \<longleftrightarrow> s \<noteq> [] \<and> length s \<le> 64 \<and> list_all is_ascii_hex s"

definition validate_git_sha :: "string option \<Rightarrow> backup_error + unit" where
  "validate_git_sha git_sha = (case git_sha of None \<Rightarrow> Inr ()
     | Some s \<Rightarrow> if sha_ok s then Inr () else Inl (BadGitSha s))"

definition check_part_size :: "nat \<Rightarrow> backup_error + unit" where
  "check_part_size part_size = (if part_size = 0 \<or> MAX_PART_SIZE < part_size then Inl (BadPartSize part_size) else Inr ())"

text \<open>A path below the staging directory is the list of its component names; \<open>join\<close> appends the components of a path
  without a root.\<close>

type_synonym fs_path = "string list"

fun comp_name :: "path_component \<Rightarrow> string" where
  "comp_name (NormalComp s) = s"
| "comp_name RootDir = ''/''"
| "comp_name CurDir = ''.''"
| "comp_name ParentDir = ''..''"

definition safe_relative_join :: "fs_path \<Rightarrow> string \<Rightarrow> backup_error + fs_path" where
  "safe_relative_join base rel = (if list_all is_normal (path_components rel) then Inr (base @ map comp_name (path_components rel))
     else Inl (UnsafeEntryPath rel))"

definition bytes_str :: "bytes \<Rightarrow> string" where
  "bytes_str bs = map (\<lambda>b. char_of (unat b)) bs"

definition opt_to_text :: "(bytes \<Rightarrow> bytes) \<Rightarrow> string option \<Rightarrow> backup_error + utext" where
  "opt_to_text to_nfc git_sha = map_err BeDecode (text_new to_nfc (str_bytes (case git_sha of None \<Rightarrow> [] | Some s \<Rightarrow> s)))"

definition text_to_opt :: "utext \<Rightarrow> string option" where
  "text_to_opt t = (if text_str t = [] then None else Some (bytes_str (text_str t)))"

definition hex_str :: "bytes \<Rightarrow> string" where
  "hex_str bs = concat (map hex2 bs)"

text \<open>A tier operation of the engine.\<close>

definition on_tier :: "('c \<Rightarrow> (blob_error + 'a) \<times> 'c) \<Rightarrow> 'c \<Rightarrow> (backup_error + 'a) \<times> 'c" where
  "on_tier m c = (case m c of (x, c) \<Rightarrow> (map_err BeTier x, c))"

function read_frame_loop :: "nat \<Rightarrow> bytes \<Rightarrow> read_result list \<Rightarrow> (backup_error + bytes) \<times> read_result list" where
  "read_frame_loop part_size buf r =
     (if length buf < part_size then
        (case read (part_size - length buf) r of
           (None, r) \<Rightarrow> (Inl BeIo, r)
         | (Some d, r) \<Rightarrow> if d = [] then (Inr buf, r) else read_frame_loop part_size (buf @ d) r)
      else (Inr buf, r))"
  by pat_completeness auto
termination
  by (relation "measure (\<lambda>(part_size, buf, _). part_size - length buf)") (auto simp flip: length_greater_0_conv)

declare read_frame_loop.simps [simp del]

definition read_frame :: "read_result list \<Rightarrow> nat \<Rightarrow> (backup_error + bytes) \<times> read_result list" where
  "read_frame r part_size = read_frame_loop part_size [] r"

lemma read_frame_loop_size:
  "read_frame_loop n buf r = (Inr b, r') \<Longrightarrow> reader_size r' + length b = reader_size r + length buf"
proof (induction n buf r arbitrary: b r' rule: read_frame_loop.induct)
  case (1 n buf r)
  show ?case
  proof (cases "length buf < n")
    case True
    obtain d r1 where rd: "read (n - length buf) r = (d, r1)" by fastforce
    show ?thesis
    proof (cases "d = None \<or> d = Some []")
      case False
      then obtain x where x: "d = Some x" "x \<noteq> []" by auto
      with "1.prems" True rd have "read_frame_loop n (buf @ x) r1 = (Inr b, r')"
        by (simp add: read_frame_loop.simps [of n buf r])
      from "1.IH" [OF True rd [symmetric] x this] read_size [OF rd [unfolded x]] show ?thesis by simp
    qed (use "1.prems" True rd read_size [of _ r "[]" r1] in \<open>auto simp: read_frame_loop.simps [of n buf r]\<close>)
  qed (use "1.prems" in \<open>simp add: read_frame_loop.simps [of n buf r]\<close>)
qed

lemma read_frame_size: "read_frame r n = (Inr b, r') \<Longrightarrow> reader_size r' + length b = reader_size r"
  unfolding read_frame_def using read_frame_loop_size [of n "[]" r b r'] by simp

section \<open>Sealing a component\<close>

record part_hint =
  ph_len :: u64
  ph_digest :: string

record component_hint =
  chn_parts :: "part_hint list"

record bundle_manifest =
  mf_stamp :: string
  mf_git_sha :: "string option"
  mf_created_at :: u64
  mf_components :: "(string \<times> component_hint) list"

text \<open>The code that is not in the repository: the primitives, Argon2, Unicode normalisation, JSON.\<close>

record backup_env =
  bv_prims :: primitives
  bv_argon2 :: argon2
  bv_to_nfc :: "bytes \<Rightarrow> bytes"
  bv_is_nfc :: "bytes \<Rightarrow> bool"
  bv_to_json :: "bundle_manifest \<Rightarrow> bytes option"
  bv_from_json :: "bytes \<Rightarrow> bundle_manifest option"

definition bv_sha :: "backup_env \<Rightarrow> bytes \<Rightarrow> bytes" where
  "bv_sha E = pr_sha (bv_prims E)"

function seal_payload :: "backup_env \<Rightarrow> ('c, 'm) cold_ops_scheme \<Rightarrow> mxbu_sealer \<Rightarrow> string \<Rightarrow> nat \<Rightarrow> read_result list \<Rightarrow> bytes
    \<Rightarrow> u32 \<Rightarrow> nat \<Rightarrow> backup_part list \<Rightarrow> 'c \<Rightarrow> (backup_error + nat \<times> backup_part list) \<times> 'c" where
  "seal_payload E C s bref n r pending idx total_payload parts c =
     (if pending = [] then (Inr (total_payload, parts), c)
      else (case read_frame r n of
          (Inl e, r) \<Rightarrow> (Inl e, c)
        | (Inr nxt, r) \<Rightarrow>
            let is_last = (nxt = []);
                sealed = seal_part (pr_gcm_seal (bv_prims E)) s idx is_last pending;
                parts = parts @ [\<lparr>bpart_len = word_of_nat (length sealed), bpart_digest = Bytes32 (bv_sha E sealed)\<rparr>]
            in (case on_tier (op_put C bref (ucast idx) sealed) c of
                (Inl e, c) \<Rightarrow> (Inl e, c)
              | (Inr _, c) \<Rightarrow> if idx = - 1 then (Inl TooManyParts, c)
                  else seal_payload E C s bref n r nxt (idx + 1) (total_payload + length pending) parts c)))"
  by pat_completeness auto
termination
  by (relation "measure (\<lambda>(_, _, _, _, _, r, pending, _, _, _, _). reader_size r + length pending)")
    (auto simp flip: length_greater_0_conv dest!: read_frame_size [OF sym])

declare seal_payload.simps [simp del]

definition declared_len :: "backup_entry list \<Rightarrow> nat" where
  "declared_len entries = (\<Sum>e \<leftarrow> entries. unat (bent_len e))"

definition seal_index :: "backup_env \<Rightarrow> ('c, 'm) cold_ops_scheme \<Rightarrow> mxbu_sealer \<Rightarrow> string \<Rightarrow> string option \<Rightarrow> component
    \<Rightarrow> backup_entry list \<Rightarrow> backup_part list \<Rightarrow> u64 \<Rightarrow> 'c \<Rightarrow> (backup_error + bundle_meta) \<times> 'c" where
  "seal_index E C s stamp git_sha cpt entries parts created_at =
     sbind (check (opt_to_text (bv_to_nfc E) git_sha)) (\<lambda>sha.
       let ix = \<lparr>bx_git_sha = sha, bx_entries = entries, bx_parts = parts, bx_created_at = Timestamp created_at\<rparr>;
           body = encode TYPE_BACKUP_INDEX put_backup_index ix;
           part0 = seal_part (pr_gcm_seal (bv_prims E)) s 0 PART0_IS_LAST body
       in sbind (on_tier (op_put C (component_ref stamp cpt) 0 part0)) (\<lambda>_.
          sret \<lparr>bm_component = cpt, bm_stamp = stamp, bm_git_sha = text_to_opt sha, bm_created_at = created_at,
            bm_entries = entries, bm_parts = parts\<rparr>))"

definition seal_component :: "backup_env \<Rightarrow> ('c, 'm) cold_ops_scheme \<Rightarrow> bytes \<Rightarrow> bytes \<times> bytes \<Rightarrow> string \<Rightarrow> string option
    \<Rightarrow> component \<Rightarrow> backup_entry list \<Rightarrow> read_result list \<Rightarrow> argon2_params \<Rightarrow> nat \<Rightarrow> u64
    \<Rightarrow> 'c \<Rightarrow> (backup_error + bundle_meta) \<times> 'c" where
  "seal_component E C passphrase random stamp git_sha cpt entries src argon part_size created_at =
     sbind (check (validate_stamp stamp)) (\<lambda>_.
     sbind (check (check_part_size part_size)) (\<lambda>_.
     sbind (check (map_err BeMxbu (sealer_new (bv_argon2 E) (fst random) (snd random) passphrase argon))) (\<lambda>s.
       case read_frame src part_size of
         (Inl e, _) \<Rightarrow> check (Inl e)
       | (Inr pending, r) \<Rightarrow>
           sbind (seal_payload E C s (component_ref stamp cpt) part_size r pending 1 0 []) (\<lambda>(total_payload, parts).
           if entries \<noteq> [] \<and> declared_len entries \<noteq> total_payload
           then check (Inl (PayloadLenMismatch (declared_len entries) total_payload))
           else seal_index E C s stamp git_sha cpt entries parts created_at))))"

section \<open>Opening a component\<close>

definition read_index :: "backup_env \<Rightarrow> ('c, 'm) cold_ops_scheme \<Rightarrow> bytes \<Rightarrow> string \<Rightarrow> component
    \<Rightarrow> 'c \<Rightarrow> (backup_error + mxbu_opener \<times> bundle_meta) \<times> 'c" where
  "read_index E C passphrase stamp cpt =
     sbind (check (validate_stamp stamp)) (\<lambda>_.
     sbind (on_tier (op_get C (component_ref stamp cpt) 0)) (\<lambda>found.
     sbind (check (ok_or found (MissingPart cpt 0))) (\<lambda>part0.
     sbind (check (map_err BeMxbu (from_part (bv_argon2 E) passphrase part0))) (\<lambda>opn.
     sbind (check (map_err BeMxbu (open_part (pr_gcm_open (bv_prims E)) opn 0 PART0_IS_LAST part0))) (\<lambda>body.
     sbind (check (map_err BeDecode (decode TYPE_BACKUP_INDEX put_backup_index (get_backup_index (bv_is_nfc E)) body))) (\<lambda>ix.
     sret (opn, \<lparr>bm_component = cpt, bm_stamp = stamp, bm_git_sha = text_to_opt (bx_git_sha ix),
       bm_created_at = ts_raw (bx_created_at ix), bm_entries = bx_entries ix, bm_parts = bx_parts ix\<rparr>)))))))"

text \<open>The payload goes to a writer of its own state \<open>'o\<close>: \<open>write d\<close> appends \<open>d\<close> or fails. A \<open>Vec\<close> never fails.\<close>

type_synonym 'o writer = "bytes \<Rightarrow> 'o \<Rightarrow> (backup_error + unit) \<times> 'o"

definition vec_write :: "bytes writer" where
  "vec_write d out = (Inr (), out @ d)"

fun open_parts :: "backup_env \<Rightarrow> ('c, 'm) cold_ops_scheme \<Rightarrow> 'o writer \<Rightarrow> mxbu_opener \<Rightarrow> bundle_meta \<Rightarrow> nat
    \<Rightarrow> backup_part list \<Rightarrow> 'c \<times> 'o \<Rightarrow> (backup_error + unit) \<times> 'c \<times> 'o" where
  "open_parts E C write opn m pos [] = sret ()"
| "open_parts E C write opn m pos (p # ps) =
     (let i = word_of_nat (pos + 1) in
      sbind (on_fst (on_tier (op_get C (component_ref (bm_stamp m) (bm_component m)) (ucast i)))) (\<lambda>found.
      sbind (check (ok_or found (MissingPart (bm_component m) i))) (\<lambda>part.
      if word_of_nat (length part) \<noteq> bpart_len p \<or> Bytes32 (bv_sha E part) \<noteq> bpart_digest p
      then check (Inl (PartDigestMismatch (bm_component m) i))
      else sbind (check (map_err BeMxbu (open_part (pr_gcm_open (bv_prims E)) opn i (pos + 1 = length (bm_parts m)) part))) (\<lambda>pt.
        sbind (on_snd (write pt)) (\<lambda>_. open_parts E C write opn m (pos + 1) ps)))))"

definition open_payload :: "backup_env \<Rightarrow> ('c, 'm) cold_ops_scheme \<Rightarrow> 'o writer \<Rightarrow> mxbu_opener \<Rightarrow> bundle_meta
    \<Rightarrow> 'c \<times> 'o \<Rightarrow> (backup_error + unit) \<times> 'c \<times> 'o" where
  "open_payload E C write opn m = open_parts E C write opn m 0 (bm_parts m)"

definition open_component :: "backup_env \<Rightarrow> ('c, 'm) cold_ops_scheme \<Rightarrow> 'o writer \<Rightarrow> bytes \<Rightarrow> string \<Rightarrow> component
    \<Rightarrow> 'c \<times> 'o \<Rightarrow> (backup_error + bundle_meta) \<times> 'c \<times> 'o" where
  "open_component E C write passphrase stamp cpt =
     sbind (on_fst (read_index E C passphrase stamp cpt)) (\<lambda>(opn, m).
     sbind (open_payload E C write opn m) (\<lambda>_. sret m))"

end
