(* ===== verification/BackupOps.thy ===== *)
theory BackupOps
  imports BackupBundle
begin

text \<open>
  \<^verbatim>\<open>crates/server/src/backup/mod.rs\<close>: manifests, listing, pruning, the blob probe, and the backup, plan and restore
  requests. Files that a backup reads are given by what reading them finds; what a restore writes is a log of
  file-system calls, any of which may fail.
\<close>

section \<open>The manifest\<close>

definition component_hints :: "bundle_meta list \<Rightarrow> (string \<times> component_hint) list" where
  "component_hints metas = foldl (\<lambda>cs m. AList.update (component_str (bm_component m))
     \<lparr>chn_parts = map (\<lambda>p. \<lparr>ph_len = bpart_len p, ph_digest = hex_str (b32_raw (bpart_digest p))\<rparr>) (bm_parts m)\<rparr> cs) [] metas"

definition write_manifest :: "backup_env \<Rightarrow> ('c, 'm) cold_ops_scheme \<Rightarrow> string \<Rightarrow> string option \<Rightarrow> u64 \<Rightarrow> bundle_meta list
    \<Rightarrow> 'c \<Rightarrow> (backup_error + unit) \<times> 'c" where
  "write_manifest E C stamp git_sha created_at metas =
     sbind (check (ok_or (bv_to_json E \<lparr>mf_stamp = stamp, mf_git_sha = git_sha, mf_created_at = created_at,
         mf_components = component_hints metas\<rparr>) BeIo)) (\<lambda>bs.
     on_tier (op_put C (manifest_ref stamp) 0 bs))"

definition read_manifest :: "backup_env \<Rightarrow> ('c, 'm) cold_ops_scheme \<Rightarrow> string \<Rightarrow> 'c \<Rightarrow> (backup_error + bundle_manifest) \<times> 'c" where
  "read_manifest E C stamp =
     sbind (on_tier (op_get C (manifest_ref stamp) 0)) (\<lambda>found.
     sbind (check (ok_or found (NoSuchBundle stamp))) (\<lambda>bs.
     sbind (check (ok_or (bv_from_json E bs) BeIo)) (\<lambda>m.
     if mf_stamp m \<noteq> stamp then check (Inl (StampMismatch stamp (mf_stamp m)))
     else sbind (check (validate_git_sha (mf_git_sha m))) (\<lambda>_. sret m))))"

section \<open>Listing and pruning\<close>

record backup_summary =
  bs_stamp :: string
  bs_git_sha :: "string option"
  bs_created_at :: u64
  bs_db_parts :: nat
  bs_state_parts :: nat

definition hinted_parts :: "string \<Rightarrow> bundle_manifest \<Rightarrow> nat" where
  "hinted_parts key m = (case map_of (mf_components m) key of None \<Rightarrow> 0 | Some h \<Rightarrow> length (chn_parts h) + 1)"

definition summary_of :: "bundle_manifest \<Rightarrow> backup_summary" where
  "summary_of m = \<lparr>bs_stamp = mf_stamp m, bs_git_sha = mf_git_sha m, bs_created_at = mf_created_at m,
     bs_db_parts = hinted_parts ''db'' m, bs_state_parts = hinted_parts ''state'' m\<rparr>"

text \<open>One listed name: a summary when its manifest is readable, declares this stamp and the stamp is valid.\<close>

definition listed_summary :: "backup_env \<Rightarrow> string \<Rightarrow> bytes option \<Rightarrow> backup_summary option" where
  "listed_summary E stamp found = Option.bind found (\<lambda>bs. Option.bind (bv_from_json E bs) (\<lambda>m.
     if mf_stamp m \<noteq> stamp then None else if \<not> stamp_ok (mf_stamp m) then None else Some (summary_of m)))"

fun list_stamps :: "backup_env \<Rightarrow> ('c, 'm) cold_ops_scheme \<Rightarrow> string list \<Rightarrow> 'c \<Rightarrow> (backup_error + backup_summary list) \<times> 'c" where
  "list_stamps E C [] = sret []"
| "list_stamps E C (stamp # stamps) =
     sbind (on_tier (op_get C (manifest_ref stamp) 0)) (\<lambda>found.
     sbind (list_stamps E C stamps) (\<lambda>out.
     sret (case listed_summary E stamp found of Some b \<Rightarrow> b # out | None \<Rightarrow> out)))"

text \<open>A stable sort by creation time of what is sorted by stamp.\<close>

definition sort_summaries :: "backup_summary list \<Rightarrow> backup_summary list" where
  "sort_summaries bs = sort_key bs_created_at (sort_key bs_stamp bs)"

definition list_backups :: "backup_env \<Rightarrow> ('c, 'm) cold_ops_scheme \<Rightarrow> 'c \<Rightarrow> (backup_error + backup_summary list) \<times> 'c" where
  "list_backups E C =
     sbind (on_tier (op_list_prefix C ''_backup'')) (\<lambda>names.
     sbind (check (ok_or names TierCannotList)) (\<lambda>stamps.
     sbind (list_stamps E C stamps) (\<lambda>out. sret (sort_summaries out))))"

fun with_manifest :: "('c, 'm) cold_ops_scheme \<Rightarrow> string list \<Rightarrow> 'c \<Rightarrow> (backup_error + string list) \<times> 'c" where
  "with_manifest C [] = sret []"
| "with_manifest C (stamp # stamps) =
     sbind (on_tier (op_get C (manifest_ref stamp) 0)) (\<lambda>found.
     sbind (with_manifest C stamps) (\<lambda>out. sret (if found \<noteq> None then stamp # out else out)))"

fun delete_bundles :: "('c, 'm) cold_ops_scheme \<Rightarrow> string list \<Rightarrow> 'c \<Rightarrow> (backup_error + unit) \<times> 'c" where
  "delete_bundles C [] = sret ()"
| "delete_bundles C (stamp # stamps) =
     sbind (on_tier (op_delete_stream C (manifest_ref stamp))) (\<lambda>_.
     sbind (on_tier (op_delete_stream C (component_ref stamp CompDb))) (\<lambda>_.
     sbind (on_tier (op_delete_stream C (component_ref stamp CompState))) (\<lambda>_.
     delete_bundles C stamps)))"

definition prune_victims :: "nat \<Rightarrow> string option \<Rightarrow> string list \<Rightarrow> string list" where
  "prune_victims keep protect bundles =
     filter (\<lambda>s. Some s \<noteq> protect) (take (length bundles - keep) bundles)"

definition prune_protecting :: "('c, 'm) cold_ops_scheme \<Rightarrow> nat \<Rightarrow> string option \<Rightarrow> 'c \<Rightarrow> (backup_error + string list) \<times> 'c" where
  "prune_protecting C keep protect =
     sbind (on_tier (op_list_prefix C ''_backup'')) (\<lambda>names. case names of
       None \<Rightarrow> sret []
     | Some stamps \<Rightarrow>
         sbind (with_manifest C (sort stamps)) (\<lambda>bundles.
         if length bundles \<le> keep then sret []
         else let victims = prune_victims keep protect bundles in
           sbind (delete_bundles C victims) (\<lambda>_. sret victims)))"

definition prune :: "('c, 'm) cold_ops_scheme \<Rightarrow> nat \<Rightarrow> 'c \<Rightarrow> (backup_error + string list) \<times> 'c" where
  "prune C keep = prune_protecting C keep None"

section \<open>The blob probe\<close>

record blob_resolution =
  brs_missing :: "(bytes \<times> string) list"
  brs_faults :: "(string \<times> blob_error) list"
  brs_present :: nat

definition resolution_clean :: "blob_resolution \<Rightarrow> bool" where
  "resolution_clean b \<longleftrightarrow> brs_missing b = [] \<and> brs_faults b = []"

definition missing_file_ids :: "blob_resolution \<Rightarrow> bytes list" where
  "missing_file_ids b = rev (remdups (rev (map fst (brs_missing b))))"

fun verify_stream_blobs :: "('c, 'm) cold_ops_scheme \<Rightarrow> (bytes \<times> string) list \<Rightarrow> blob_resolution \<Rightarrow> 'c \<Rightarrow> blob_resolution \<times> 'c" where
  "verify_stream_blobs C [] out c = (out, c)"
| "verify_stream_blobs C ((fid, r) # refs) out c =
     (case op_has_chunk C r 0 c of
        (Inr True, c) \<Rightarrow> verify_stream_blobs C refs (out\<lparr>brs_present := brs_present out + 1\<rparr>) c
      | (Inr False, c) \<Rightarrow> verify_stream_blobs C refs (out\<lparr>brs_missing := brs_missing out @ [(fid, r)]\<rparr>) c
      | (Inl e, c) \<Rightarrow> verify_stream_blobs C refs (out\<lparr>brs_faults := brs_faults out @ [(r, e)]\<rparr>) c)"

section \<open>Backup\<close>

text \<open>A \<open>StateFile\<close> is its bundle path and what reading its source finds.\<close>

record backup_request =
  bq_passphrase :: bytes
  bq_stamp :: string
  bq_git_sha :: "string option"
  bq_only :: only_scope
  bq_argon :: argon2_params
  bq_part_size :: nat
  bq_created_at :: u64
  bq_keep :: nat
  bq_db_dump :: "read_result list option option"
  bq_state_files :: "(string \<times> bytes option) list"

fun read_state_files :: "backup_env \<Rightarrow> (string \<times> bytes option) list \<Rightarrow> backup_error + backup_entry list \<times> bytes" where
  "read_state_files E [] = Inr ([], [])"
| "read_state_files E ((path, source) # files) =
     rbind (ok_or source BeIo) (\<lambda>bs.
     rbind (map_err BeDecode (text_new (bv_to_nfc E) (str_bytes path))) (\<lambda>p.
     rbind (read_state_files E files) (\<lambda>(entries, payload).
     Inr (\<lparr>bent_path = p, bent_len = word_of_nat (length bs), bent_digest = Bytes32 (bv_sha E bs)\<rparr> # entries, bs @ payload))))"

text \<open>A \<open>Cursor\<close> over a byte vector as a reader.\<close>

definition cursor :: "bytes \<Rightarrow> read_result list" where
  "cursor bs = (if bs = [] then [] else [RData bs])"

definition backup_db :: "backup_env \<Rightarrow> ('c, 'm) cold_ops_scheme \<Rightarrow> (component \<Rightarrow> bytes \<times> bytes) \<Rightarrow> backup_request
    \<Rightarrow> 'c \<Rightarrow> (backup_error + bundle_meta list) \<times> 'c" where
  "backup_db E C random q = (if \<not> on_db (bq_only q) then sret []
     else sbind (check (ok_or (Option.bind (bq_db_dump q) (\<lambda>f. f)) BeIo)) (\<lambda>src.
       sbind (seal_component E C (bq_passphrase q) (random CompDb) (bq_stamp q) (bq_git_sha q) CompDb [] src
         (bq_argon q) (bq_part_size q) (bq_created_at q)) (\<lambda>m. sret [m])))"

definition backup_state :: "backup_env \<Rightarrow> ('c, 'm) cold_ops_scheme \<Rightarrow> (component \<Rightarrow> bytes \<times> bytes) \<Rightarrow> backup_request
    \<Rightarrow> 'c \<Rightarrow> (backup_error + bundle_meta list) \<times> 'c" where
  "backup_state E C random q = (if \<not> on_state (bq_only q) then sret []
     else sbind (check (read_state_files E (bq_state_files q))) (\<lambda>(entries, payload).
       sbind (seal_component E C (bq_passphrase q) (random CompState) (bq_stamp q) (bq_git_sha q) CompState entries
         (cursor payload) (bq_argon q) (bq_part_size q) (bq_created_at q)) (\<lambda>m. sret [m])))"

definition backup :: "backup_env \<Rightarrow> ('c, 'm) cold_ops_scheme \<Rightarrow> (component \<Rightarrow> bytes \<times> bytes) \<Rightarrow> backup_request
    \<Rightarrow> 'c \<Rightarrow> (backup_error + string \<times> bundle_meta list) \<times> 'c" where
  "backup E C random q =
     sbind (check (validate_stamp (bq_stamp q))) (\<lambda>_.
     sbind (check (check_part_size (bq_part_size q))) (\<lambda>_.
     sbind (backup_db E C random q) (\<lambda>db.
     sbind (backup_state E C random q) (\<lambda>state.
     sret (bq_stamp q, db @ state)))))"

definition commit_bundle :: "backup_env \<Rightarrow> ('c, 'm) cold_ops_scheme \<Rightarrow> backup_request \<Rightarrow> bundle_meta list
    \<Rightarrow> 'c \<Rightarrow> (backup_error + string list) \<times> 'c" where
  "commit_bundle E C q metas =
     sbind (write_manifest E C (bq_stamp q) (bq_git_sha q) (bq_created_at q) metas) (\<lambda>_.
     prune_protecting C (bq_keep q) (Some (bq_stamp q)))"

section \<open>Plan\<close>

record merge_preview =
  mp_inserts :: "(string \<times> nat) list"
  mp_subtrees_skipped :: nat
  mp_wraps_revoked :: nat
  mp_wraps_superseded :: nat
  mp_restored_whole :: nat

definition merge_preview_default :: merge_preview where
  "merge_preview_default = \<lparr>mp_inserts = [], mp_subtrees_skipped = 0, mp_wraps_revoked = 0, mp_wraps_superseded = 0,
     mp_restored_whole = 0\<rparr>"

datatype db_plan = PlanMerge merge_preview | PlanReplace bool

record restore_plan =
  rp_stamp :: string
  rp_git_sha :: "string option"
  rp_db :: "db_plan option"
  rp_state :: "(string \<times> u64) list option"
  rp_code :: "string option option"
  rp_blobs :: "bool option"
  rp_dry_run :: bool

record restore_request =
  rq_passphrase :: bytes
  rq_from :: string
  rq_only :: only_scope
  rq_db_mode :: db_mode
  rq_dry_run :: bool
  rq_force :: bool
  rq_live_db :: bool

definition reconcile_sha :: "string option option \<Rightarrow> string option \<Rightarrow> string option \<Rightarrow> backup_error + string option option" where
  "reconcile_sha seen hint sealed =
     (if hint \<noteq> sealed then Inl (GitShaDisagreement hint sealed)
      else case seen of
          Some prev \<Rightarrow> if prev \<noteq> sealed then Inl (GitShaDisagreement prev sealed) else Inr (Some sealed)
        | None \<Rightarrow> Inr (Some sealed))"

definition reconcile_created_at :: "u64 \<Rightarrow> u64 \<Rightarrow> backup_error + unit" where
  "reconcile_created_at hint sealed = (if hint \<noteq> sealed then Inl (CreatedAtDisagreement hint sealed) else Inr ())"

definition build_db_plan :: "restore_request \<Rightarrow> backup_error + db_plan" where
  "build_db_plan q = (case rq_db_mode q of
       DbMerge \<Rightarrow> if \<not> rq_live_db q then Inl LiveDbRequired else Inr (PlanMerge merge_preview_default)
     | DbReplace \<Rightarrow> if rq_live_db q \<and> \<not> rq_force q then Inl ReplaceOverLiveDbNeedsForce
         else Inr (PlanReplace (rq_live_db q)))"

definition resolve_stamp :: "backup_env \<Rightarrow> ('c, 'm) cold_ops_scheme \<Rightarrow> string \<Rightarrow> 'c \<Rightarrow> (backup_error + string) \<times> 'c" where
  "resolve_stamp E C from =
     (if from = ''latest'' then
        sbind (list_backups E C) (\<lambda>summaries.
        if summaries = [] then check (Inl (NoSuchBundle ''latest''))
        else let stamp = bs_stamp (last summaries) in sbind (check (validate_stamp stamp)) (\<lambda>_. sret stamp))
      else sbind (check (validate_stamp from)) (\<lambda>_. sbind (read_manifest E C from) (\<lambda>_. sret from)))"

text \<open>Opening the index of one selected component and reconciling it with the manifest.\<close>

definition plan_component :: "backup_env \<Rightarrow> ('c, 'm) cold_ops_scheme \<Rightarrow> restore_request \<Rightarrow> bundle_manifest \<Rightarrow> string \<Rightarrow> component
    \<Rightarrow> string option option \<Rightarrow> 'c \<Rightarrow> (backup_error + bundle_meta \<times> string option option) \<times> 'c" where
  "plan_component E C q m stamp cpt seen =
     (if map_of (mf_components m) (component_str cpt) = None then check (Inl (ComponentMismatch cpt))
      else sbind (read_index E C (rq_passphrase q) stamp cpt) (\<lambda>(opn, meta).
        sbind (check (reconcile_sha seen (mf_git_sha m) (bm_git_sha meta))) (\<lambda>seen.
        sbind (check (reconcile_created_at (mf_created_at m) (bm_created_at meta))) (\<lambda>_. sret (meta, seen)))))"

definition plan :: "backup_env \<Rightarrow> ('c, 'm) cold_ops_scheme \<Rightarrow> restore_request \<Rightarrow> 'c \<Rightarrow> (backup_error + restore_plan) \<times> 'c" where
  "plan E C q =
     sbind (resolve_stamp E C (rq_from q)) (\<lambda>stamp.
     sbind (read_manifest E C stamp) (\<lambda>m.
     sbind (if on_db (rq_only q) then sbind (plan_component E C q m stamp CompDb None) (\<lambda>(_, seen).
         sbind (check (build_db_plan q)) (\<lambda>p. sret (Some p, seen))) else sret (None, None)) (\<lambda>(db, seen).
     sbind (if on_state (rq_only q) then sbind (plan_component E C q m stamp CompState seen) (\<lambda>(meta, seen).
         sret (Some (map (\<lambda>e. (bytes_str (text_str (bent_path e)), bent_len e)) (bm_entries meta)), seen))
       else sret (None, seen)) (\<lambda>(state, seen).
     let effective = (case seen of Some s \<Rightarrow> s | None \<Rightarrow> mf_git_sha m) in
     sbind (check (validate_git_sha effective)) (\<lambda>_.
     sret \<lparr>rp_stamp = stamp, rp_git_sha = effective, rp_db = db, rp_state = state,
       rp_code = (if on_code (rq_only q) then Some effective else None),
       rp_blobs = (if on_blobs (rq_only q) then Some False else None), rp_dry_run = rq_dry_run q\<rparr>)))))"

section \<open>Restore\<close>

datatype fs_op = CreateDirAll fs_path | SetMode fs_path nat | WriteFile fs_path bytes | CreateFile fs_path
  | AppendFile fs_path bytes

record restore_report =
  rr_stamp :: string
  rr_dry_run :: bool
  rr_db_dump :: "fs_path option"
  rr_state_dir :: "fs_path option"
  rr_plan_json :: "fs_path option"
  rr_files :: "string list"

text \<open>The state is the tier's and the log of the calls that took effect, oldest first.\<close>

type_synonym 'c restore_world = "'c \<times> fs_op list"

text \<open>\<open>fs_fails log f\<close> tells whether the call \<open>f\<close> fails after the calls in \<open>log\<close>; a failing call has no effect. A mode
  change that fails is ignored.\<close>

type_synonym fs_faults = "fs_op list \<Rightarrow> fs_op \<Rightarrow> bool"

definition fs_write :: "fs_faults \<Rightarrow> fs_op \<Rightarrow> fs_op list \<Rightarrow> (backup_error + unit) \<times> fs_op list" where
  "fs_write F f log = (if F log f then (Inl BeIo, log) else (Inr (), log @ [f]))"

definition fs_call :: "fs_faults \<Rightarrow> fs_op \<Rightarrow> 'c restore_world \<Rightarrow> (backup_error + unit) \<times> 'c restore_world" where
  "fs_call F f = on_snd (fs_write F f)"

definition harden :: "fs_faults \<Rightarrow> fs_path \<Rightarrow> nat \<Rightarrow> 'c restore_world \<Rightarrow> (backup_error + unit) \<times> 'c restore_world" where
  "harden F p mode w = (Inr (), snd (fs_call F (SetMode p mode) w))"

fun restore_entries :: "backup_env \<Rightarrow> fs_faults \<Rightarrow> bytes \<Rightarrow> nat \<Rightarrow> backup_entry list \<Rightarrow> string list
    \<Rightarrow> 'c restore_world \<Rightarrow> (backup_error + string list) \<times> 'c restore_world" where
  "restore_entries E F payload off [] files = sret files"
| "restore_entries E F payload off (e # es) files =
     (let end' = off + unat (bent_len e); path = bytes_str (text_str (bent_path e)); piece = bslice off end' payload in
      if 2 ^ 64 \<le> end' \<or> length payload < end' then check (Inl MalformedPayload)
      else if Bytes32 (bv_sha E piece) \<noteq> bent_digest e then check (Inl (EntryDigestMismatch path))
      else sbind (check (safe_relative_join [''state''] path)) (\<lambda>dest.
        sbind (fs_call F (CreateDirAll (butlast dest))) (\<lambda>_.
        sbind (harden F (butlast dest) 448) (\<lambda>_.
        sbind (fs_call F (WriteFile dest piece)) (\<lambda>_.
        sbind (harden F dest 384) (\<lambda>_.
        restore_entries E F payload end' es (files @ [path])))))))"

definition restore_state :: "backup_env \<Rightarrow> ('c, 'm) cold_ops_scheme \<Rightarrow> fs_faults \<Rightarrow> bytes \<Rightarrow> string
    \<Rightarrow> 'c restore_world \<Rightarrow> (backup_error + string list) \<times> 'c restore_world" where
  "restore_state E C F passphrase stamp =
     sbind (on_fst (read_index E C passphrase stamp CompState)) (\<lambda>(opn, meta).
     sbind (\<lambda>w. case open_payload E C vec_write opn meta (fst w, []) of (x, c, payload) \<Rightarrow>
         (map_sum id (\<lambda>_. payload) x, c, snd w)) (\<lambda>payload.
     sbind (fs_call F (CreateDirAll [''state''])) (\<lambda>_.
     sbind (harden F [''state''] 448) (\<lambda>_.
     restore_entries E F payload 0 (bm_entries meta) []))))"

definition restore_dump :: "backup_env \<Rightarrow> ('c, 'm) cold_ops_scheme \<Rightarrow> fs_faults \<Rightarrow> bytes \<Rightarrow> string
    \<Rightarrow> 'c restore_world \<Rightarrow> (backup_error + unit) \<times> 'c restore_world" where
  "restore_dump E C F passphrase stamp =
     sbind (on_fst (read_index E C passphrase stamp CompDb)) (\<lambda>(opn, meta).
     sbind (fs_call F (CreateFile [''db.dump''])) (\<lambda>_.
     sbind (open_payload E C (\<lambda>d. fs_write F (AppendFile [''db.dump''] d)) opn meta) (\<lambda>_.
     harden F [''db.dump''] 384)))"

text \<open>\<open>plan_json\<close> is \<^verbatim>\<open>serde_json::to_vec_pretty\<close> of the plan.\<close>

definition restore :: "backup_env \<Rightarrow> ('c, 'm) cold_ops_scheme \<Rightarrow> (restore_plan \<Rightarrow> bytes option) \<Rightarrow> fs_faults \<Rightarrow> restore_request
    \<Rightarrow> restore_plan \<Rightarrow> 'c restore_world \<Rightarrow> (backup_error + restore_report) \<times> 'c restore_world" where
  "restore E C plan_json F q p =
     (if rq_dry_run q then sret \<lparr>rr_stamp = rp_stamp p, rr_dry_run = True, rr_db_dump = None, rr_state_dir = None,
        rr_plan_json = None, rr_files = []\<rparr>
      else
        sbind (fs_call F (CreateDirAll [])) (\<lambda>_.
        sbind (harden F [] 448) (\<lambda>_.
        sbind (if rp_state p = None then sret [] else restore_state E C F (rq_passphrase q) (rp_stamp p)) (\<lambda>files.
        sbind (if rp_db p = None then sret () else restore_dump E C F (rq_passphrase q) (rp_stamp p)) (\<lambda>_.
        sbind (check (ok_or (plan_json p) BeIo)) (\<lambda>json.
        sbind (fs_call F (WriteFile [''plan.json''] json)) (\<lambda>_.
        sret \<lparr>rr_stamp = rp_stamp p, rr_dry_run = False, rr_db_dump = (if rp_db p = None then None else Some [''db.dump'']),
          rr_state_dir = (if rp_state p = None then None else Some [''state'']), rr_plan_json = Some [''plan.json''],
          rr_files = files\<rparr>)))))))"

end
