(* ===== verification/PgTables.thy ===== *)
theory PgTables
  imports ServerAccounts Requests
begin

text \<open>
  The tables of the server's Postgres database (\<^verbatim>\<open>migrations/0001_baseline.sql\<close>, \<^verbatim>\<open>0002_delete_tombstones.sql\<close>) and the
  statements \<^verbatim>\<open>pg.rs\<close> and \<^verbatim>\<open>backup/merge.rs\<close> run on them: a table is the list of its rows with its column checks, its
  unique indexes, its foreign keys and its guard trigger. A \<open>BIGINT\<close> keeps the bits of the \<open>u64\<close> it is cast from; a
  \<open>TIMESTAMPTZ\<close> is its nanoseconds since the epoch.
\<close>

section \<open>Rows\<close>

record user_row =
  usr_id :: bytes
  usr_name :: string
  usr_enc_pub :: bytes
  usr_sig_pub :: bytes
  usr_key_version :: u64
  usr_roles :: "string list"
  usr_status :: string
  usr_enrolled_at :: int
  usr_signed_at :: "int option"

record binding_row =
  bnd_user_id :: bytes
  bnd_key_version :: u64
  bnd_enc_pub :: bytes
  bnd_sig_pub :: bytes
  bnd_roles :: "string list"
  bnd_not_before :: int
  bnd_not_after :: int
  bnd_binding_bytes :: bytes
  bnd_signature :: bytes
  bnd_created_at :: int

record reg_key_row =
  rgk_key_hash :: bytes
  rgk_issued_at :: int
  rgk_expires_at :: int
  rgk_used_at :: "int option"

record first_admin_row =
  fac_id :: bool
  fac_claimed_at :: int

record recovery_row =
  rca_id :: bool
  rca_enc_pub :: bytes
  rca_sig_pub :: bytes
  rca_mlkem_pub :: "bytes option"
  rca_registered_at :: int

record session_row =
  ses_token_hash :: bytes
  ses_user_id :: bytes
  ses_tls_exporter :: bytes
  ses_issued_at :: int
  ses_expires_at :: int
  ses_revoked_at :: "int option"

record nonce_row =
  non_nonce :: bytes
  non_username :: string
  non_issued_at :: int
  non_expires_at :: int
  non_used_at :: "int option"

record file_row =
  fil_id :: bytes
  fil_owner_id :: bytes
  fil_type :: i16
  fil_current_version :: u64
  fil_listed :: bool
  fil_bundle_id :: "bytes option"
  fil_created_at :: int
  fil_updated_at :: int

record genesis_db_row =
  gen_file_id :: bytes
  gen_owner_id :: bytes
  gen_owner_key_version :: u64
  gen_bytes :: bytes
  gen_sig :: bytes
  gen_created_at :: int

record version_row =
  ver_file_id :: bytes
  ver_version :: u64
  ver_manifest_bytes :: bytes
  ver_manifest_sig :: bytes
  ver_author_id :: bytes
  ver_alg :: i32
  ver_finalized :: bool
  ver_created_at :: int

text \<open>A \<open>file_streams\<close> row and a \<open>file_key_wraps\<close> row hold a stream and a wrap of the request beside their keys.\<close>

record stream_db_row =
  str_file_id :: bytes
  str_version :: u64
  str_stream :: stream_row

record wrap_row =
  wrp_file_id :: bytes
  wrp_version :: u64
  wrp_wrap :: wrap_input
  wrp_created_at :: int

record tombstone_row =
  tmb_file_id :: bytes
  tmb_deleted_at :: int

record revocation_row =
  rvk_file_id :: bytes
  rvk_version :: u64
  rvk_recipient_id :: bytes
  rvk_revoked_at :: int

record control_row =
  ctl_decoded :: decoded_control
  ctl_record_bytes :: bytes
  ctl_sig :: bytes
  ctl_co_sig :: "bytes option"

record tables =
  tb_users :: "user_row list"
  tb_bindings :: "binding_row list"
  tb_reg_keys :: "reg_key_row list"
  tb_first_admin :: "first_admin_row list"
  tb_recovery :: "recovery_row list"
  tb_sessions :: "session_row list"
  tb_nonces :: "nonce_row list"
  tb_files :: "file_row list"
  tb_genesis :: "genesis_db_row list"
  tb_versions :: "version_row list"
  tb_streams :: "stream_db_row list"
  tb_wraps :: "wrap_row list"
  tb_tombstones :: "tombstone_row list"
  tb_revocations :: "revocation_row list"
  tb_control :: "control_row list"

definition empty_tables :: tables where
  "empty_tables = \<lparr>tb_users = [], tb_bindings = [], tb_reg_keys = [], tb_first_admin = [], tb_recovery = [],
     tb_sessions = [], tb_nonces = [], tb_files = [], tb_genesis = [], tb_versions = [], tb_streams = [], tb_wraps = [],
     tb_tombstones = [], tb_revocations = [], tb_control = []\<rparr>"

section \<open>Statements on a table\<close>

datatype sql_error = UniqueViolation | CheckViolation | ForeignKeyViolation | RaisedException
  | InvalidArgument | ConnectionFault

text \<open>\<open>t_check\<close> holds of the rows a column check admits, \<open>t_clash\<close> of two rows that no unique index lets coexist,
  \<open>t_refs\<close> of a row whose references exist, \<open>t_frozen\<close> of a row whose update the guard trigger refuses.\<close>

record 'r sql_table =
  t_get :: "tables \<Rightarrow> 'r list"
  t_put :: "'r list \<Rightarrow> tables \<Rightarrow> tables"
  t_check :: "'r \<Rightarrow> bool"
  t_clash :: "'r \<Rightarrow> 'r \<Rightarrow> bool"
  t_refs :: "tables \<Rightarrow> 'r \<Rightarrow> bool"
  t_frozen :: "'r \<Rightarrow> bool"

definition sql_insert :: "'r sql_table \<Rightarrow> 'r \<Rightarrow> tables \<Rightarrow> sql_error + unit \<times> tables" where
  "sql_insert T r db =
     (if \<not> t_check T r then Inl CheckViolation
      else if list_ex (t_clash T r) (t_get T db) then Inl UniqueViolation
      else if \<not> t_refs T db r then Inl ForeignKeyViolation
      else Inr ((), t_put T (t_get T db @ [r]) db))"

text \<open>\<open>INSERT \<dots> ON CONFLICT DO NOTHING\<close> of a list of rows, with the number of rows it adds.\<close>

fun add_missing :: "('r \<Rightarrow> 'r \<Rightarrow> bool) \<Rightarrow> 'r list \<Rightarrow> 'r list \<Rightarrow> 'r list" where
  "add_missing clash tab [] = tab"
| "add_missing clash tab (r # rs) = add_missing clash (if list_ex (clash r) tab then tab else tab @ [r]) rs"

definition sql_insert_missing :: "'r sql_table \<Rightarrow> 'r list \<Rightarrow> tables \<Rightarrow> sql_error + nat \<times> tables" where
  "sql_insert_missing T rows db =
     (if \<not> list_all (t_check T) rows then Inl CheckViolation
      else
        let tab = add_missing (t_clash T) (t_get T db) rows; added = drop (length (t_get T db)) tab in
        if \<not> list_all (t_refs T db) added then Inl ForeignKeyViolation
        else Inr (length added, t_put T tab db))"

text \<open>\<open>UPDATE \<dots> SET \<dots> WHERE p\<close> of columns that are in no unique index, with the number of rows it matches.\<close>

definition sql_update :: "'r sql_table \<Rightarrow> ('r \<Rightarrow> bool) \<Rightarrow> ('r \<Rightarrow> 'r) \<Rightarrow> tables \<Rightarrow> sql_error + nat \<times> tables" where
  "sql_update T p f db =
     (let hit = filter p (t_get T db) in
      if list_ex (t_frozen T) hit then Inl RaisedException
      else if \<not> list_all (t_check T) (map f hit) then Inl CheckViolation
      else Inr (length hit, t_put T (map (\<lambda>r. if p r then f r else r) (t_get T db)) db))"

definition sql_delete :: "'r sql_table \<Rightarrow> ('r \<Rightarrow> bool) \<Rightarrow> tables \<Rightarrow> sql_error + nat \<times> tables" where
  "sql_delete T p db =
     Inr (length (filter p (t_get T db)), t_put T (filter (\<lambda>r. \<not> p r) (t_get T db)) db)"

section \<open>The schema\<close>

text \<open>A \<open>TEXT\<close> column holds no zero byte.\<close>

definition text_ok :: "string \<Rightarrow> bool" where
  "text_ok s \<longleftrightarrow> CHR 0x00 \<notin> set s"

definition at_least :: "u64 \<Rightarrow> u64 \<Rightarrow> bool" where
  "at_least low v \<longleftrightarrow> sint low \<le> sint v"

definition opt_width :: "nat \<Rightarrow> bytes option \<Rightarrow> bool" where
  "opt_width n b \<longleftrightarrow> (case b of None \<Rightarrow> True | Some x \<Rightarrow> length x = n)"

definition users_table :: "user_row sql_table" where
  "users_table = \<lparr>t_get = tb_users, t_put = (\<lambda>x. tb_users_update (\<lambda>_. x)),
     t_check = (\<lambda>r. length (usr_id r) = 16 \<and> text_ok (usr_name r) \<and> length (usr_enc_pub r) = 32 \<and>
       length (usr_sig_pub r) = 32 \<and> at_least 1 (usr_key_version r) \<and>
       usr_status r \<in> {''active'', ''revoked'', ''suspended''}),
     t_clash = (\<lambda>r s. usr_id r = usr_id s \<or> usr_name r = usr_name s),
     t_refs = (\<lambda>_ _. True), t_frozen = (\<lambda>_. False)\<rparr>"

definition bindings_table :: "binding_row sql_table" where
  "bindings_table = \<lparr>t_get = tb_bindings, t_put = (\<lambda>x. tb_bindings_update (\<lambda>_. x)),
     t_check = (\<lambda>r. length (bnd_user_id r) = 16 \<and> at_least 1 (bnd_key_version r) \<and> length (bnd_enc_pub r) = 32 \<and>
       length (bnd_sig_pub r) = 32 \<and> length (bnd_signature r) = 64),
     t_clash = (\<lambda>r s. bnd_user_id r = bnd_user_id s \<and> bnd_key_version r = bnd_key_version s),
     t_refs = (\<lambda>_ _. True), t_frozen = (\<lambda>_. True)\<rparr>"

definition reg_keys_table :: "reg_key_row sql_table" where
  "reg_keys_table = \<lparr>t_get = tb_reg_keys, t_put = (\<lambda>x. tb_reg_keys_update (\<lambda>_. x)),
     t_check = (\<lambda>r. length (rgk_key_hash r) = 32), t_clash = (\<lambda>r s. rgk_key_hash r = rgk_key_hash s),
     t_refs = (\<lambda>_ _. True), t_frozen = (\<lambda>_. False)\<rparr>"

definition first_admin_table :: "first_admin_row sql_table" where
  "first_admin_table = \<lparr>t_get = tb_first_admin, t_put = (\<lambda>x. tb_first_admin_update (\<lambda>_. x)),
     t_check = fac_id, t_clash = (\<lambda>r s. fac_id r = fac_id s), t_refs = (\<lambda>_ _. True), t_frozen = (\<lambda>_. False)\<rparr>"

definition recovery_table :: "recovery_row sql_table" where
  "recovery_table = \<lparr>t_get = tb_recovery, t_put = (\<lambda>x. tb_recovery_update (\<lambda>_. x)),
     t_check = (\<lambda>r. rca_id r \<and> length (rca_enc_pub r) = 32 \<and> length (rca_sig_pub r) = 32 \<and>
       opt_width 1184 (rca_mlkem_pub r)),
     t_clash = (\<lambda>r s. rca_id r = rca_id s), t_refs = (\<lambda>_ _. True), t_frozen = (\<lambda>_. False)\<rparr>"

definition sessions_table :: "session_row sql_table" where
  "sessions_table = \<lparr>t_get = tb_sessions, t_put = (\<lambda>x. tb_sessions_update (\<lambda>_. x)),
     t_check = (\<lambda>r. length (ses_token_hash r) = 32 \<and> length (ses_tls_exporter r) = 32),
     t_clash = (\<lambda>r s. ses_token_hash r = ses_token_hash s), t_refs = (\<lambda>_ _. True), t_frozen = (\<lambda>_. False)\<rparr>"

definition nonces_table :: "nonce_row sql_table" where
  "nonces_table = \<lparr>t_get = tb_nonces, t_put = (\<lambda>x. tb_nonces_update (\<lambda>_. x)),
     t_check = (\<lambda>r. length (non_nonce r) = 32 \<and> text_ok (non_username r)),
     t_clash = (\<lambda>r s. non_nonce r = non_nonce s), t_refs = (\<lambda>_ _. True), t_frozen = (\<lambda>_. False)\<rparr>"

definition files_table :: "file_row sql_table" where
  "files_table = \<lparr>t_get = tb_files, t_put = (\<lambda>x. tb_files_update (\<lambda>_. x)),
     t_check = (\<lambda>r. length (fil_id r) = 16 \<and> fil_type r \<in> {1, 2, 3, 4, 5} \<and> at_least 0 (fil_current_version r) \<and>
       opt_width 16 (fil_bundle_id r)),
     t_clash = (\<lambda>r s. fil_id r = fil_id s),
     t_refs = (\<lambda>db r. fil_owner_id r \<in> set (map usr_id (tb_users db))), t_frozen = (\<lambda>_. False)\<rparr>"

definition genesis_table :: "genesis_db_row sql_table" where
  "genesis_table = \<lparr>t_get = tb_genesis, t_put = (\<lambda>x. tb_genesis_update (\<lambda>_. x)),
     t_check = (\<lambda>r. at_least 1 (gen_owner_key_version r) \<and> length (gen_sig r) = 64),
     t_clash = (\<lambda>r s. gen_file_id r = gen_file_id s),
     t_refs = (\<lambda>db r. gen_file_id r \<in> set (map fil_id (tb_files db))), t_frozen = (\<lambda>_. True)\<rparr>"

definition versions_table :: "version_row sql_table" where
  "versions_table = \<lparr>t_get = tb_versions, t_put = (\<lambda>x. tb_versions_update (\<lambda>_. x)),
     t_check = (\<lambda>r. at_least 1 (ver_version r) \<and> length (ver_manifest_sig r) = 64),
     t_clash = (\<lambda>r s. ver_file_id r = ver_file_id s \<and> ver_version r = ver_version s),
     t_refs = (\<lambda>db r. ver_file_id r \<in> set (map fil_id (tb_files db))), t_frozen = ver_finalized\<rparr>"

definition has_version :: "tables \<Rightarrow> bytes \<Rightarrow> u64 \<Rightarrow> bool" where
  "has_version db i v \<longleftrightarrow> list_ex (\<lambda>r. ver_file_id r = i \<and> ver_version r = v) (tb_versions db)"

definition streams_table :: "stream_db_row sql_table" where
  "streams_table = \<lparr>t_get = tb_streams, t_put = (\<lambda>x. tb_streams_update (\<lambda>_. x)),
     t_check = (\<lambda>r. let s = str_stream r in
       sr_stream_type s \<in> {1, 2, 3, 4} \<and> sr_compression s \<in> {0, 1} \<and> 4096 \<le> sint (sr_chunk_size s) \<and>
       sint (sr_chunk_size s) \<le> 8388608 \<and> at_least 0 (sr_chunk_count s) \<and> at_least 0 (sr_total_bytes s) \<and>
       length (sr_digest s) = 32 \<and> text_ok (sr_blob_ref s)),
     t_clash = (\<lambda>r s. str_file_id r = str_file_id s \<and> str_version r = str_version s \<and>
       sr_stream_type (str_stream r) = sr_stream_type (str_stream s)),
     t_refs = (\<lambda>db r. has_version db (str_file_id r) (str_version r)), t_frozen = (\<lambda>_. False)\<rparr>"

definition wraps_table :: "wrap_row sql_table" where
  "wraps_table = \<lparr>t_get = tb_wraps, t_put = (\<lambda>x. tb_wraps_update (\<lambda>_. x)),
     t_check = (\<lambda>r. let w = wrp_wrap r in
       length (wi_recipient_id w) = 16 \<and> wi_recipient_type w \<in> {1, 2} \<and> length (wi_granted_by w) = 16 \<and>
       length (wi_grant_sig w) = 64 \<and> \<not> half_recovery w),
     t_clash = (\<lambda>r s. wrp_file_id r = wrp_file_id s \<and> wrp_version r = wrp_version s \<and>
       wi_recipient_id (wrp_wrap r) = wi_recipient_id (wrp_wrap s)),
     t_refs = (\<lambda>db r. has_version db (wrp_file_id r) (wrp_version r)), t_frozen = (\<lambda>_. False)\<rparr>"

definition tombstones_table :: "tombstone_row sql_table" where
  "tombstones_table = \<lparr>t_get = tb_tombstones, t_put = (\<lambda>x. tb_tombstones_update (\<lambda>_. x)),
     t_check = (\<lambda>r. length (tmb_file_id r) = 16), t_clash = (\<lambda>r s. tmb_file_id r = tmb_file_id s),
     t_refs = (\<lambda>_ _. True), t_frozen = (\<lambda>_. True)\<rparr>"

definition revocations_table :: "revocation_row sql_table" where
  "revocations_table = \<lparr>t_get = tb_revocations, t_put = (\<lambda>x. tb_revocations_update (\<lambda>_. x)),
     t_check = (\<lambda>r. length (rvk_file_id r) = 16 \<and> length (rvk_recipient_id r) = 16),
     t_clash = (\<lambda>r s. rvk_file_id r = rvk_file_id s \<and> rvk_version r = rvk_version s \<and>
       rvk_recipient_id r = rvk_recipient_id s),
     t_refs = (\<lambda>_ _. True), t_frozen = (\<lambda>_. True)\<rparr>"

text \<open>Deleting a version takes its streams and wraps along. A finalized version is deleted only under the owner-delete
  setting; a genesis row only under it; a file only when no genesis and no version refers to it.\<close>

definition delete_versions :: "bool \<Rightarrow> (version_row \<Rightarrow> bool) \<Rightarrow> tables \<Rightarrow> sql_error + nat \<times> tables" where
  "delete_versions owner_delete p db =
     (let hit = filter p (tb_versions db);
          gone = (\<lambda>i v. list_ex (\<lambda>r. ver_file_id r = i \<and> ver_version r = v) hit) in
      if \<not> owner_delete \<and> list_ex ver_finalized hit then Inl RaisedException
      else Inr (length hit, db\<lparr>tb_versions := filter (\<lambda>r. \<not> p r) (tb_versions db),
        tb_streams := filter (\<lambda>r. \<not> gone (str_file_id r) (str_version r)) (tb_streams db),
        tb_wraps := filter (\<lambda>r. \<not> gone (wrp_file_id r) (wrp_version r)) (tb_wraps db)\<rparr>))"

definition delete_genesis :: "bool \<Rightarrow> (genesis_db_row \<Rightarrow> bool) \<Rightarrow> tables \<Rightarrow> sql_error + nat \<times> tables" where
  "delete_genesis owner_delete p db =
     (if \<not> owner_delete \<and> list_ex p (tb_genesis db) then Inl RaisedException else sql_delete genesis_table p db)"

definition delete_files :: "(file_row \<Rightarrow> bool) \<Rightarrow> tables \<Rightarrow> sql_error + nat \<times> tables" where
  "delete_files p db =
     (let gone = map fil_id (filter p (tb_files db)) in
      if list_ex (\<lambda>r. gen_file_id r \<in> set gone) (tb_genesis db) \<or> list_ex (\<lambda>r. ver_file_id r \<in> set gone) (tb_versions db)
      then Inl ForeignKeyViolation else sql_delete files_table p db)"

section \<open>Connections\<close>

text \<open>What the database may do: \<open>pe_fault n\<close> when its \<open>n\<close>-th call fails, \<open>pe_commit_lost n\<close> when a commit that is
  reported as failed took effect, and the text of an error.\<close>

record pg_env =
  pe_fault :: "nat \<Rightarrow> bool"
  pe_commit_lost :: "nat \<Rightarrow> bool"
  pe_text :: "sql_error \<Rightarrow> string"

type_synonym pg = "tables \<times> nat"

definition statement :: "pg_env \<Rightarrow> (sql_error \<Rightarrow> 'e) \<Rightarrow> (tables \<Rightarrow> sql_error + 'a \<times> tables) \<Rightarrow> pg \<Rightarrow> ('e + 'a) \<times> pg" where
  "statement E err m s = (case s of (db, n) \<Rightarrow>
     if pe_fault E n then (Inl (err ConnectionFault), (db, n + 1))
     else (case m db of Inl e \<Rightarrow> (Inl (err e), (db, n + 1)) | Inr (x, db) \<Rightarrow> (Inr x, (db, n + 1))))"

definition query :: "pg_env \<Rightarrow> (sql_error \<Rightarrow> 'e) \<Rightarrow> (tables \<Rightarrow> 'a) \<Rightarrow> pg \<Rightarrow> ('e + 'a) \<times> pg" where
  "query E err q = statement E err (\<lambda>db. Inr (q db, db))"

text \<open>A transaction: an error rolls back, a commit may fail.\<close>

definition transaction :: "pg_env \<Rightarrow> (sql_error \<Rightarrow> 'e) \<Rightarrow> (pg \<Rightarrow> ('e + 'a) \<times> pg) \<Rightarrow> pg \<Rightarrow> ('e + 'a) \<times> pg" where
  "transaction E err body s = (case s of (db, n) \<Rightarrow>
     if pe_fault E n then (Inl (err ConnectionFault), (db, n + 1))
     else (case body (db, n + 1) of
         (Inl e, (_, k)) \<Rightarrow> (Inl e, (db, k))
       | (Inr x, (db', k)) \<Rightarrow>
           if pe_fault E k then (Inl (err ConnectionFault), (if pe_commit_lost E k then db' else db, k + 1))
           else (Inr x, (db', k + 1))))"

definition store_err :: "pg_env \<Rightarrow> string \<Rightarrow> sql_error \<Rightarrow> store_error" where
  "store_err E op e = \<lparr>se_context = op, se_detail = pe_text E e\<rparr>"

definition col_fixed :: "nat \<Rightarrow> string \<Rightarrow> string \<Rightarrow> bytes \<Rightarrow> store_error + bytes" where
  "col_fixed n op col v = (if length v = n then Inr v
     else Inl \<lparr>se_context = op, se_detail = ''column `'' @ col @ ''` has unexpected width''\<rparr>)"

end
