(* ===== verification/BackupMerge.thy ===== *)
theory BackupMerge
  imports BackupOps PgTables
begin

text \<open>
  \<^verbatim>\<open>crates/server/src/backup/gate.rs\<close> and \<^verbatim>\<open>merge.rs\<close>: merging the database of a backup, restored into a scratch
  database, into the live one. The gate decides from the live facts which rows come back; the merge inserts them, table
  by table, in one transaction that a dry run rolls back.
\<close>

section \<open>The gate\<close>

record live_facts =
  lv_tombstoned :: "bytes set"
  lv_files :: "bytes set"
  lv_current_version :: "bytes \<rightharpoonup> u64"
  lv_revoked :: "(bytes \<times> u64 \<times> bytes) set"

datatype wrap_verdict = KeepWrap | SkipSuperseded | SkipRevoked

record file_gate =
  fg_survivors :: "bytes \<rightharpoonup> u64"
  fg_skipped_tombstoned :: nat
  fg_restored_whole :: nat

definition gate_default :: file_gate where
  "gate_default = \<lparr>fg_survivors = Map.empty, fg_skipped_tombstoned = 0, fg_restored_whole = 0\<rparr>"

definition gate_step :: "live_facts \<Rightarrow> file_gate \<Rightarrow> bytes \<times> u64 \<Rightarrow> file_gate" where
  "gate_step live gate p = (let (fid, staged_cur) = p in
     if fid \<in> lv_tombstoned live \<and> fid \<notin> lv_files live
     then gate\<lparr>fg_skipped_tombstoned := fg_skipped_tombstoned gate + 1\<rparr>
     else
       let cur = (case lv_current_version live fid of Some c \<Rightarrow> c | None \<Rightarrow> staged_cur);
           gate = gate\<lparr>fg_survivors := (fg_survivors gate)(fid \<mapsto> cur)\<rparr>
       in if fid \<notin> lv_files live then gate\<lparr>fg_restored_whole := fg_restored_whole gate + 1\<rparr> else gate)"

definition plan_file_gate :: "(bytes \<times> u64) list \<Rightarrow> live_facts \<Rightarrow> file_gate" where
  "plan_file_gate staged_files live = foldl (gate_step live) gate_default staged_files"

definition keep_stream :: "u64 \<Rightarrow> u64 \<Rightarrow> bool" where
  "keep_stream survivor_cur version \<longleftrightarrow> version = survivor_cur"

definition wrap_verdict_of :: "live_facts \<Rightarrow> bytes \<Rightarrow> u64 \<Rightarrow> u64 \<Rightarrow> bytes \<Rightarrow> wrap_verdict" where
  "wrap_verdict_of live file_id survivor_cur file_version recipient_id =
     (if file_version \<noteq> survivor_cur then SkipSuperseded
      else if (file_id, file_version, recipient_id) \<in> lv_revoked live then SkipRevoked
      else KeepWrap)"

section \<open>Statements of the merge\<close>

text \<open>The staged scratch database: the tables the dump held, the two absence tables only in a dump young enough.\<close>

record staged_db =
  sd_tables :: tables
  sd_has_tombstones :: bool
  sd_has_revocations :: bool

type_synonym merge_state = "pg \<times> merge_preview"

definition m_read :: "pg_env \<Rightarrow> (tables \<Rightarrow> 'a) \<Rightarrow> merge_state \<Rightarrow> (backup_error + 'a) \<times> merge_state" where
  "m_read E q = on_fst (query E (\<lambda>_. DbFault) q)"

text \<open>Rows of the staged database: a read on its own pool.\<close>

definition m_staged :: "pg_env \<Rightarrow> 'a \<Rightarrow> merge_state \<Rightarrow> (backup_error + 'a) \<times> merge_state" where
  "m_staged E rows = m_read E (\<lambda>_. rows)"

definition get16 :: "bytes \<Rightarrow> backup_error + bytes" where
  "get16 v = (if length v = 16 then Inr v else Inl BeIo)"

fun get16s :: "bytes list \<Rightarrow> backup_error + bytes list" where
  "get16s [] = Inr []"
| "get16s (v # vs) = rbind (get16 v) (\<lambda>x. rbind (get16s vs) (\<lambda>xs. Inr (x # xs)))"

text \<open>\<open>BTreeMap\<close>: the counts are kept in the order of the table names.\<close>

definition record_inserts :: "string \<Rightarrow> nat \<Rightarrow> merge_preview \<Rightarrow> merge_preview" where
  "record_inserts table n p = (if n = 0 then p
     else p\<lparr>mp_inserts := (case map_of (mp_inserts p) table of
         None \<Rightarrow> insort_key fst (table, n) (mp_inserts p)
       | Some k \<Rightarrow> AList.update table (k + n) (mp_inserts p))\<rparr>)"

definition m_insert :: "pg_env \<Rightarrow> 'r sql_table \<Rightarrow> 'r list \<Rightarrow> merge_state \<Rightarrow> (backup_error + nat) \<times> merge_state" where
  "m_insert E T rows = on_fst (statement E (\<lambda>_. DbFault) (sql_insert_missing T rows))"

definition m_count :: "string \<Rightarrow> nat \<Rightarrow> merge_state \<Rightarrow> (backup_error + unit) \<times> merge_state" where
  "m_count table n = on_snd (smodify (record_inserts table n))"

text \<open>One bulk insert, skipped when there is nothing to insert; and the row-by-row insert, which also tells the rows it
  did not add.\<close>

definition merge_rows :: "pg_env \<Rightarrow> string \<Rightarrow> 'r sql_table \<Rightarrow> 'r list \<Rightarrow> merge_state \<Rightarrow> (backup_error + unit) \<times> merge_state" where
  "merge_rows E table T rows = (if rows = [] then sret () else sbind (m_insert E T rows) (m_count table))"

fun insert_each :: "pg_env \<Rightarrow> 'r sql_table \<Rightarrow> 'r list \<Rightarrow> merge_state \<Rightarrow> (backup_error + nat \<times> 'r list) \<times> merge_state" where
  "insert_each E T [] = sret (0, [])"
| "insert_each E T (r # rs) =
     sbind (m_insert E T [r]) (\<lambda>n.
     sbind (insert_each E T rs) (\<lambda>(m, suppressed). sret (n + m, if n = 0 then r # suppressed else suppressed)))"

definition read_live_facts :: "pg_env \<Rightarrow> merge_state \<Rightarrow> (backup_error + live_facts) \<times> merge_state" where
  "read_live_facts E =
     sbind (m_read E (map tmb_file_id \<circ> tb_tombstones)) (\<lambda>tombstoned.
     sbind (check (get16s tombstoned)) (\<lambda>_.
     sbind (m_read E (map (\<lambda>r. (fil_id r, fil_current_version r)) \<circ> tb_files)) (\<lambda>files.
     sbind (check (get16s (map fst files))) (\<lambda>_.
     sbind (m_read E (map (\<lambda>r. (rvk_file_id r, rvk_version r, rvk_recipient_id r)) \<circ> tb_revocations)) (\<lambda>revoked.
     sbind (check (get16s (concat (map (\<lambda>(i, _, w). [i, w]) revoked)))) (\<lambda>_.
     sret \<lparr>lv_tombstoned = set tombstoned, lv_files = set (map fst files), lv_current_version = map_of (rev files),
       lv_revoked = set revoked\<rparr>))))))"

section \<open>Never-gated tables\<close>

definition merge_users :: "pg_env \<Rightarrow> staged_db \<Rightarrow> merge_state \<Rightarrow> (backup_error + (bytes \<times> string) list) \<times> merge_state" where
  "merge_users E sd =
     sbind (m_staged E (tb_users (sd_tables sd))) (\<lambda>rows.
     sbind (insert_each E users_table rows) (\<lambda>(inserted, suppressed).
     sbind (m_count ''users'' inserted) (\<lambda>_. sret (map (\<lambda>r. (usr_id r, usr_name r)) suppressed))))"

definition unmerged_users :: "pg_env \<Rightarrow> (bytes \<times> string) list \<Rightarrow> merge_state \<Rightarrow> (backup_error + (bytes \<rightharpoonup> string)) \<times> merge_state" where
  "unmerged_users E suppressed =
     (let absent = map_of (rev suppressed) in
      if suppressed = [] then sret absent
      else sbind (m_read E (\<lambda>db. filter (\<lambda>i. i \<in> set (map fst suppressed)) (map usr_id (tb_users db)))) (\<lambda>found.
        sret (\<lambda>i. if i \<in> set found then None else absent i)))"

definition merge_directory_bindings :: "pg_env \<Rightarrow> staged_db \<Rightarrow> merge_state \<Rightarrow> (backup_error + unit) \<times> merge_state" where
  "merge_directory_bindings E sd =
     sbind (m_staged E (tb_bindings (sd_tables sd))) (\<lambda>rows.
     sbind (insert_each E bindings_table rows) (\<lambda>(inserted, _). m_count ''directory_bindings'' inserted))"

definition merge_registration_keys :: "pg_env \<Rightarrow> staged_db \<Rightarrow> merge_state \<Rightarrow> (backup_error + unit) \<times> merge_state" where
  "merge_registration_keys E sd =
     sbind (m_staged E (tb_reg_keys (sd_tables sd))) (merge_rows E ''registration_keys'' reg_keys_table)"

definition merge_first_admin_claim :: "pg_env \<Rightarrow> staged_db \<Rightarrow> merge_state \<Rightarrow> (backup_error + unit) \<times> merge_state" where
  "merge_first_admin_claim E sd =
     sbind (m_staged E (tb_first_admin (sd_tables sd))) (merge_rows E ''first_admin_claim'' first_admin_table)"

definition merge_recovery_account :: "pg_env \<Rightarrow> staged_db \<Rightarrow> merge_state \<Rightarrow> (backup_error + unit) \<times> merge_state" where
  "merge_recovery_account E sd =
     sbind (m_staged E (tb_recovery (sd_tables sd))) (merge_rows E ''recovery_account'' recovery_table)"

definition merge_sessions :: "pg_env \<Rightarrow> staged_db \<Rightarrow> merge_state \<Rightarrow> (backup_error + unit) \<times> merge_state" where
  "merge_sessions E sd =
     sbind (m_staged E (tb_sessions (sd_tables sd))) (merge_rows E ''sessions'' sessions_table)"

definition merge_auth_nonces :: "pg_env \<Rightarrow> staged_db \<Rightarrow> merge_state \<Rightarrow> (backup_error + unit) \<times> merge_state" where
  "merge_auth_nonces E sd =
     sbind (m_staged E (tb_nonces (sd_tables sd))) (merge_rows E ''auth_nonces'' nonces_table)"

section \<open>The gated file family\<close>

definition survives :: "file_gate \<Rightarrow> bytes \<Rightarrow> bool" where
  "survives gate i \<longleftrightarrow> fg_survivors gate i \<noteq> None"

definition merge_files :: "pg_env \<Rightarrow> staged_db \<Rightarrow> live_facts \<Rightarrow> (bytes \<rightharpoonup> string) \<Rightarrow> merge_state
    \<Rightarrow> (backup_error + file_gate) \<times> merge_state" where
  "merge_files E sd live unmerged_owners =
     sbind (m_staged E (tb_files (sd_tables sd))) (\<lambda>rows.
     sbind (check (get16s (map fil_id rows))) (\<lambda>_.
     let gate = plan_file_gate (map (\<lambda>r. (fil_id r, fil_current_version r)) rows) live;
         kept = filter (survives gate \<circ> fil_id) rows;
         orphaned = List.map_filter (unmerged_owners \<circ> fil_owner_id) kept
     in if orphaned \<noteq> [] then check (Inl (OwnerUsernameCollision (sort (remdups orphaned))))
        else sbind (merge_rows E ''files'' files_table kept) (\<lambda>_. sret gate)))"

definition merge_file_genesis :: "pg_env \<Rightarrow> staged_db \<Rightarrow> file_gate \<Rightarrow> merge_state \<Rightarrow> (backup_error + unit) \<times> merge_state" where
  "merge_file_genesis E sd gate =
     sbind (m_staged E (tb_genesis (sd_tables sd))) (\<lambda>rows.
     sbind (check (get16s (map gen_file_id rows))) (\<lambda>_.
     merge_rows E ''file_genesis'' genesis_table (filter (survives gate \<circ> gen_file_id) rows)))"

definition merge_file_versions :: "pg_env \<Rightarrow> staged_db \<Rightarrow> file_gate \<Rightarrow> merge_state \<Rightarrow> (backup_error + unit) \<times> merge_state" where
  "merge_file_versions E sd gate =
     sbind (m_staged E (filter ver_finalized (tb_versions (sd_tables sd)))) (\<lambda>rows.
     sbind (check (get16s (map ver_file_id rows))) (\<lambda>_.
     merge_rows E ''file_versions'' versions_table (filter (survives gate \<circ> ver_file_id) rows)))"

text \<open>The join of a staged stream or wrap with its version, which must be finalized.\<close>

definition staged_finalized :: "staged_db \<Rightarrow> bytes \<Rightarrow> u64 \<Rightarrow> bool" where
  "staged_finalized sd i v \<longleftrightarrow>
     list_ex (\<lambda>r. ver_file_id r = i \<and> ver_version r = v \<and> ver_finalized r) (tb_versions (sd_tables sd))"

definition stream_kept :: "file_gate \<Rightarrow> stream_db_row \<Rightarrow> bool" where
  "stream_kept gate r \<longleftrightarrow> (case fg_survivors gate (str_file_id r) of None \<Rightarrow> False
     | Some cur \<Rightarrow> keep_stream cur (str_version r))"

definition merge_file_streams :: "pg_env \<Rightarrow> staged_db \<Rightarrow> file_gate \<Rightarrow> merge_state \<Rightarrow> (backup_error + unit) \<times> merge_state" where
  "merge_file_streams E sd gate =
     sbind (m_staged E (filter (\<lambda>r. staged_finalized sd (str_file_id r) (str_version r)) (tb_streams (sd_tables sd)))) (\<lambda>rows.
     sbind (check (get16s (map str_file_id rows))) (\<lambda>_.
     merge_rows E ''file_streams'' streams_table (filter (stream_kept gate) rows)))"

definition verdict :: "live_facts \<Rightarrow> file_gate \<Rightarrow> wrap_row \<Rightarrow> wrap_verdict option" where
  "verdict live gate r = map_option (\<lambda>cur. wrap_verdict_of live (wrp_file_id r) cur (wrp_version r)
     (wi_recipient_id (wrp_wrap r))) (fg_survivors gate (wrp_file_id r))"

definition count_verdicts :: "live_facts \<Rightarrow> file_gate \<Rightarrow> wrap_row list \<Rightarrow> merge_preview \<Rightarrow> merge_preview" where
  "count_verdicts live gate rows p =
     p\<lparr>mp_wraps_superseded := mp_wraps_superseded p + length (filter (\<lambda>r. verdict live gate r = Some SkipSuperseded) rows),
       mp_wraps_revoked := mp_wraps_revoked p + length (filter (\<lambda>r. verdict live gate r = Some SkipRevoked) rows)\<rparr>"

definition merge_file_key_wraps :: "pg_env \<Rightarrow> staged_db \<Rightarrow> file_gate \<Rightarrow> live_facts \<Rightarrow> merge_state
    \<Rightarrow> (backup_error + unit) \<times> merge_state" where
  "merge_file_key_wraps E sd gate live =
     sbind (m_staged E (filter (\<lambda>r. staged_finalized sd (wrp_file_id r) (wrp_version r)) (tb_wraps (sd_tables sd)))) (\<lambda>rows.
     sbind (check (get16s (map wrp_file_id rows))) (\<lambda>_.
     sbind (check (get16s (map (wi_recipient_id \<circ> wrp_wrap) (filter (survives gate \<circ> wrp_file_id) rows)))) (\<lambda>_.
     sbind (on_snd (smodify (count_verdicts live gate rows))) (\<lambda>_.
     merge_rows E ''file_key_wraps'' wraps_table (filter (\<lambda>r. verdict live gate r = Some KeepWrap) rows)))))"

section \<open>The absence records\<close>

definition merge_file_tombstones :: "pg_env \<Rightarrow> staged_db \<Rightarrow> merge_state \<Rightarrow> (backup_error + unit) \<times> merge_state" where
  "merge_file_tombstones E sd =
     sbind (m_staged E (sd_has_tombstones sd)) (\<lambda>present. if \<not> present then sret ()
     else sbind (m_staged E (tb_tombstones (sd_tables sd))) (merge_rows E ''file_tombstones'' tombstones_table))"

definition merge_wrap_revocations :: "pg_env \<Rightarrow> staged_db \<Rightarrow> merge_state \<Rightarrow> (backup_error + unit) \<times> merge_state" where
  "merge_wrap_revocations E sd =
     sbind (m_staged E (sd_has_revocations sd)) (\<lambda>present. if \<not> present then sret ()
     else sbind (m_staged E (tb_revocations (sd_tables sd))) (merge_rows E ''wrap_revocations'' revocations_table))"

section \<open>The merge\<close>

definition merge_body :: "pg_env \<Rightarrow> staged_db \<Rightarrow> int \<Rightarrow> merge_state \<Rightarrow> (backup_error + unit) \<times> merge_state" where
  "merge_body E sd others =
     sbind (m_read E (\<lambda>_. ())) (\<lambda>_.
     sbind (m_read E (\<lambda>_. others)) (\<lambda>others.
     if 0 < others then check (Inl (ServerStillConnected others))
     else
       sbind (read_live_facts E) (\<lambda>live.
       sbind (merge_users E sd) (\<lambda>suppressed.
       sbind (unmerged_users E suppressed) (\<lambda>unmerged_owners.
       sbind (merge_directory_bindings E sd) (\<lambda>_.
       sbind (merge_registration_keys E sd) (\<lambda>_.
       sbind (merge_first_admin_claim E sd) (\<lambda>_.
       sbind (merge_recovery_account E sd) (\<lambda>_.
       sbind (merge_sessions E sd) (\<lambda>_.
       sbind (merge_auth_nonces E sd) (\<lambda>_.
       sbind (merge_files E sd live unmerged_owners) (\<lambda>gate.
       sbind (on_snd (smodify (\<lambda>p. p\<lparr>mp_subtrees_skipped := fg_skipped_tombstoned gate,
         mp_restored_whole := fg_restored_whole gate\<rparr>))) (\<lambda>_.
       sbind (merge_file_genesis E sd gate) (\<lambda>_.
       sbind (merge_file_versions E sd gate) (\<lambda>_.
       sbind (merge_file_streams E sd gate) (\<lambda>_.
       sbind (merge_file_key_wraps E sd gate live) (\<lambda>_.
       sbind (merge_file_tombstones E sd) (\<lambda>_.
       merge_wrap_revocations E sd))))))))))))))))))"

definition merge_run :: "pg_env \<Rightarrow> staged_db \<Rightarrow> int \<Rightarrow> bool \<Rightarrow> pg \<Rightarrow> (backup_error + merge_preview) \<times> pg" where
  "merge_run E sd others apply s = (case s of (db, n) \<Rightarrow>
     if pe_fault E n then (Inl DbFault, (db, n + 1))
     else (case merge_body E sd others ((db, n + 1), merge_preview_default) of
         (Inl e, ((_, k), _)) \<Rightarrow> (Inl e, (db, k))
       | (Inr _, ((db', k), preview)) \<Rightarrow>
           if pe_fault E k then (Inl DbFault, (if apply \<and> pe_commit_lost E k then db' else db, k + 1))
           else (Inr preview, (if apply then db' else db, k + 1))))"

end
