(* ===== verification/PgTables_Laws.thy ===== *)
theory PgTables_Laws
  imports PgTables
begin

text \<open>
  Laws of the statements on a table: what an \<open>INSERT \<dots> ON CONFLICT DO NOTHING\<close> adds and leaves alone, and the schema's
  constraints as an invariant of the tables.
\<close>

section \<open>Inserting what is missing\<close>

definition unclashed :: "('r \<Rightarrow> 'r \<Rightarrow> bool) \<Rightarrow> 'r list \<Rightarrow> bool" where
  "unclashed clash tab \<longleftrightarrow> sorted_wrt (\<lambda>r s. \<not> clash r s) tab"

lemma unclashed_simps [simp]:
  "unclashed clash []"
  "unclashed clash (r # tab) \<longleftrightarrow> (\<forall>s \<in> set tab. \<not> clash r s) \<and> unclashed clash tab"
  by (simp_all add: unclashed_def)

lemma unclashed_append:
  "unclashed clash (xs @ ys) \<longleftrightarrow> unclashed clash xs \<and> unclashed clash ys \<and> (\<forall>x \<in> set xs. \<forall>y \<in> set ys. \<not> clash x y)"
  by (auto simp: unclashed_def sorted_wrt_append)

lemma unclashed_filter: "unclashed clash tab \<Longrightarrow> unclashed clash (filter p tab)"
  by (induction tab) auto

lemma unclashed_map: "unclashed clash (map f tab) \<longleftrightarrow> unclashed (\<lambda>r s. clash (f r) (f s)) tab"
  by (simp add: unclashed_def sorted_wrt_map)

lemma unclashed_same:
  assumes "unclashed clash tab" "r \<in> set tab" "s \<in> set tab" "clash r s" "clash s r"
  shows "r = s"
  using assms by (induction tab) auto

lemma add_missing_extends:
  "\<exists>added. add_missing clash tab rows = tab @ added \<and> set added \<subseteq> set rows"
proof (induction rows arbitrary: tab)
  case (Cons r rows)
  show ?case
  proof (cases "list_ex (clash r) tab")
    case True
    then show ?thesis using Cons [of tab] by auto
  next
    case False
    from Cons [of "tab @ [r]"] obtain added where "add_missing clash (tab @ [r]) rows = (tab @ [r]) @ added" "set added \<subseteq> set rows" by blast
    with False have "add_missing clash tab (r # rows) = tab @ (r # added)" "set (r # added) \<subseteq> set (r # rows)" by auto
    then show ?thesis by blast
  qed
qed simp

definition added_rows :: "('r \<Rightarrow> 'r \<Rightarrow> bool) \<Rightarrow> 'r list \<Rightarrow> 'r list \<Rightarrow> 'r list" where
  "added_rows clash tab rows = drop (length tab) (add_missing clash tab rows)"

lemma add_missing_eq: "add_missing clash tab rows = tab @ added_rows clash tab rows"
  using add_missing_extends [of clash tab rows] by (auto simp: added_rows_def)

lemma added_rows_subset: "set (added_rows clash tab rows) \<subseteq> set rows"
  using add_missing_extends [of clash tab rows] by (auto simp: added_rows_def)

lemma set_add_missing: "set tab \<subseteq> set (add_missing clash tab rows)" "set (add_missing clash tab rows) \<subseteq> set tab \<union> set rows"
  using added_rows_subset [of clash tab rows] by (auto simp: add_missing_eq)

lemma add_missing_append: "add_missing clash tab (rows @ later) = add_missing clash (add_missing clash tab rows) later"
  by (induction rows arbitrary: tab) simp_all

lemma added_rows_append:
  "added_rows clash tab (rows @ later) = added_rows clash tab rows @ added_rows clash (add_missing clash tab rows) later"
proof -
  let ?tab' = "add_missing clash tab rows"
  have "add_missing clash tab (rows @ later) = ?tab' @ added_rows clash ?tab' later"
    unfolding add_missing_append by (rule add_missing_eq)
  moreover have "?tab' = tab @ added_rows clash tab rows" by (rule add_missing_eq)
  ultimately have "add_missing clash tab (rows @ later) = tab @ added_rows clash tab rows @ added_rows clash ?tab' later"
    by (metis append_assoc)
  then show ?thesis unfolding added_rows_def [of clash tab "rows @ later"] by simp
qed

lemma add_missing_old: "(\<And>r. r \<in> set rows \<Longrightarrow> \<exists>s \<in> set tab. clash r s) \<Longrightarrow> add_missing clash tab rows = tab"
  by (induction rows) (auto simp: list_ex_iff)

lemma add_missing_unclashed:
  assumes "\<And>r s. clash r s \<Longrightarrow> clash s r"
  shows "unclashed clash tab \<Longrightarrow> unclashed clash (add_missing clash tab rows)"
proof (induction rows arbitrary: tab)
  case (Cons r rows)
  have "unclashed clash (tab @ [r])" if "\<not> list_ex (clash r) tab"
    using that Cons.prems assms by (auto simp: unclashed_append list_ex_iff)
  with Cons show ?case by simp
qed simp

lemma add_missing_present:
  assumes "\<And>r. clash r r"
  shows "r \<in> set rows \<Longrightarrow> \<exists>s \<in> set (add_missing clash tab rows). clash r s"
proof (induction rows arbitrary: tab)
  case (Cons q rows)
  show ?case
  proof (cases "r = q")
    case True
    have "\<exists>s \<in> set (if list_ex (clash q) tab then tab else tab @ [q]). clash q s"
      using assms by (auto simp: list_ex_iff)
    then show ?thesis using True set_add_missing(1) [of "if list_ex (clash q) tab then tab else tab @ [q]" clash rows]
      by (auto split: if_splits)
  next
    case False
    then show ?thesis using Cons by simp
  qed
qed simp

text \<open>A row that clashes with no stored row and with no other row of the statement is inserted.\<close>

lemma add_missing_new:
  "r \<in> set rows \<Longrightarrow> unclashed clash rows \<Longrightarrow> (\<And>p q. clash p q \<Longrightarrow> clash q p) \<Longrightarrow> (\<And>s. s \<in> set tab \<Longrightarrow> \<not> clash r s) \<Longrightarrow>
    r \<in> set (add_missing clash tab rows)"
proof (induction rows arbitrary: tab)
  case (Cons q rows)
  show ?case
  proof (cases "r = q")
    case True
    then have "\<not> list_ex (clash q) tab" using Cons.prems by (auto simp: list_ex_iff)
    then show ?thesis using True set_add_missing(1) [of "tab @ [q]" clash rows] by auto
  next
    case False
    then have "r \<in> set rows" "\<not> clash q r" using Cons.prems by auto
    then have "\<not> clash r q" using Cons.prems(3) by blast
    have clear: "\<not> clash r s" if "s \<in> set (if list_ex (clash q) tab then tab else tab @ [q])" for s
      using that \<open>\<not> clash r q\<close> Cons.prems(4) by (auto split: if_splits)
    have "unclashed clash rows" using Cons.prems(2) by simp
    from Cons.IH [OF \<open>r \<in> set rows\<close> this Cons.prems(3) clear] show ?thesis by simp
  qed
qed simp

section \<open>Tables\<close>

text \<open>Rows are only added: every reference stays good.\<close>

definition grows :: "tables \<Rightarrow> tables \<Rightarrow> bool" where
  "grows db db' \<longleftrightarrow> set (map usr_id (tb_users db)) \<subseteq> set (map usr_id (tb_users db')) \<and>
     set (map fil_id (tb_files db)) \<subseteq> set (map fil_id (tb_files db')) \<and>
     (\<forall>i v. has_version db i v \<longrightarrow> has_version db' i v)"

lemma grows_refl: "grows db db"
  by (simp add: grows_def)

lemma grows_trans: "grows a b \<Longrightarrow> grows b c \<Longrightarrow> grows a c"
  unfolding grows_def by blast

text \<open>The laws of a table: its rows are a field of the database, clashing is reflexive and symmetric, and what a row
  refers to is in other tables.\<close>

locale lawful_table =
  fixes T :: "'r sql_table"
  assumes get_put: "t_get T (t_put T x db) = x"
    and put_get: "t_put T (t_get T db) db = db"
    and put_put: "t_put T x (t_put T y db) = t_put T x db"
    and clash_refl: "t_clash T r r"
    and clash_sym: "t_clash T r s \<Longrightarrow> t_clash T s r"
    and refs_put: "t_refs T (t_put T x db) r = t_refs T db r"
    and refs_grow: "grows db db' \<Longrightarrow> t_refs T db r \<Longrightarrow> t_refs T db' r"
begin

lemma insert_missing_ok:
  assumes "sql_insert_missing T rows db = Inr (n, db')"
  shows "db' = t_put T (add_missing (t_clash T) (t_get T db) rows) db"
    and "t_get T db' = add_missing (t_clash T) (t_get T db) rows"
    and "\<And>r. r \<in> set rows \<Longrightarrow> t_check T r"
    and "\<And>r. r \<in> set (added_rows (t_clash T) (t_get T db) rows) \<Longrightarrow> t_refs T db r"
    and "n = length (added_rows (t_clash T) (t_get T db) rows)"
  using assms
  by (auto simp: sql_insert_missing_def Let_def added_rows_def list_all_iff get_put split: if_splits)

lemma insert_missing_nothing:
  assumes "\<And>r. r \<in> set rows \<Longrightarrow> \<exists>s \<in> set (t_get T db). t_clash T r s" "\<And>r. r \<in> set rows \<Longrightarrow> t_check T r"
  shows "sql_insert_missing T rows db = Inr (0, db)"
  using assms add_missing_old [of rows "t_get T db" "t_clash T"]
  by (simp add: sql_insert_missing_def Let_def put_get list_all_iff)

lemma insert_ok:
  assumes "sql_insert T r db = Inr (u, db')"
  shows "db' = t_put T (t_get T db @ [r]) db" "t_get T db' = t_get T db @ [r]" "t_check T r" "t_refs T db r"
    "\<And>s. s \<in> set (t_get T db) \<Longrightarrow> \<not> t_clash T r s"
  using assms by (auto simp: sql_insert_def list_ex_iff get_put split: if_splits)

end

lemmas table_defs = users_table_def bindings_table_def reg_keys_table_def first_admin_table_def recovery_table_def
  sessions_table_def nonces_table_def files_table_def genesis_table_def versions_table_def streams_table_def
  wraps_table_def tombstones_table_def revocations_table_def

interpretation users: lawful_table users_table
  by unfold_locales (auto simp: users_table_def grows_def)

interpretation bindings: lawful_table bindings_table
  by unfold_locales (auto simp: bindings_table_def grows_def)

interpretation reg_keys: lawful_table reg_keys_table
  by unfold_locales (auto simp: reg_keys_table_def grows_def)

interpretation first_admin: lawful_table first_admin_table
  by unfold_locales (auto simp: first_admin_table_def grows_def)

interpretation recovery: lawful_table recovery_table
  by unfold_locales (auto simp: recovery_table_def grows_def)

interpretation sessions: lawful_table sessions_table
  by unfold_locales (auto simp: sessions_table_def grows_def)

interpretation nonces: lawful_table nonces_table
  by unfold_locales (auto simp: nonces_table_def grows_def)

interpretation files: lawful_table files_table
  by unfold_locales (auto simp: files_table_def grows_def)

interpretation genesis: lawful_table genesis_table
  by unfold_locales (auto simp: genesis_table_def grows_def)

interpretation versions: lawful_table versions_table
  by unfold_locales (auto simp: versions_table_def grows_def)

interpretation streams: lawful_table streams_table
  by unfold_locales (auto simp: streams_table_def has_version_def grows_def)

interpretation wraps: lawful_table wraps_table
  by unfold_locales (auto simp: wraps_table_def has_version_def grows_def)

interpretation tombstones: lawful_table tombstones_table
  by unfold_locales (auto simp: tombstones_table_def grows_def)

interpretation revocations: lawful_table revocations_table
  by unfold_locales (auto simp: revocations_table_def grows_def)

section \<open>The schema as an invariant\<close>

definition table_ok :: "'r sql_table \<Rightarrow> tables \<Rightarrow> bool" where
  "table_ok T db \<longleftrightarrow> (\<forall>r \<in> set (t_get T db). t_check T r \<and> t_refs T db r) \<and> unclashed (t_clash T) (t_get T db)"

definition tables_ok :: "tables \<Rightarrow> bool" where
  "tables_ok db \<longleftrightarrow> table_ok users_table db \<and> table_ok bindings_table db \<and> table_ok reg_keys_table db \<and>
     table_ok first_admin_table db \<and> table_ok recovery_table db \<and> table_ok sessions_table db \<and>
     table_ok nonces_table db \<and> table_ok files_table db \<and> table_ok genesis_table db \<and> table_ok versions_table db \<and>
     table_ok streams_table db \<and> table_ok wraps_table db \<and> table_ok tombstones_table db \<and>
     table_ok revocations_table db"

lemma tables_ok_empty: "tables_ok empty_tables"
  by (simp add: tables_ok_def table_ok_def table_defs empty_tables_def)

end
