(* ===== verification/BackupMerge_Laws.thy ===== *)
theory BackupMerge_Laws
  imports BackupMerge PgTables_Laws
begin

text \<open>
  What a merge of a backup into the live database does. The statements of \<open>merge_run\<close>, whichever of them the database
  lets through, compute \<open>merged\<close>; from it follow what a merge may never bring back, what it must bring back, that it
  only adds rows, and that merging twice is merging once.
\<close>

section \<open>The rows the gate keeps\<close>

definition live_facts_of :: "tables \<Rightarrow> live_facts" where
  "live_facts_of db = \<lparr>lv_tombstoned = set (map tmb_file_id (tb_tombstones db)), lv_files = set (map fil_id (tb_files db)),
     lv_current_version = map_of (rev (map (\<lambda>r. (fil_id r, fil_current_version r)) (tb_files db))),
     lv_revoked = set (map (\<lambda>r. (rvk_file_id r, rvk_version r, rvk_recipient_id r)) (tb_revocations db))\<rparr>"

definition gate_of :: "staged_db \<Rightarrow> live_facts \<Rightarrow> file_gate" where
  "gate_of sd live = plan_file_gate (map (\<lambda>r. (fil_id r, fil_current_version r)) (tb_files (sd_tables sd))) live"

definition destroyed :: "live_facts \<Rightarrow> bytes \<Rightarrow> bool" where
  "destroyed live i \<longleftrightarrow> i \<in> lv_tombstoned live \<and> i \<notin> lv_files live"

definition gated_version :: "live_facts \<Rightarrow> bytes \<Rightarrow> u64 \<Rightarrow> u64" where
  "gated_version live i c = (case lv_current_version live i of Some l \<Rightarrow> l | None \<Rightarrow> c)"

lemma gate_step_survivors:
  "fg_survivors (gate_step live gate (j, c)) i =
     (if j = i \<and> \<not> destroyed live i then Some (gated_version live i c) else fg_survivors gate i)"
  by (simp add: gate_step_def Let_def destroyed_def gated_version_def)

lemma gate_survivors:
  "fg_survivors (foldl (gate_step live) gate xs) i = (case map_of (rev xs) i of None \<Rightarrow> fg_survivors gate i
     | Some c \<Rightarrow> if destroyed live i then fg_survivors gate i else Some (gated_version live i c))"
proof (induction xs arbitrary: gate)
  case (Cons x xs)
  obtain j c where x: "x = (j, c)" by fastforce
  show ?case by (cases "map_of (rev xs) i") (auto simp: Cons x gate_step_survivors map_add_def)
qed simp

lemma survivors_of:
  "fg_survivors (gate_of sd live) i = (if destroyed live i then None else map_option (gated_version live i)
     (map_of (rev (map (\<lambda>r. (fil_id r, fil_current_version r)) (tb_files (sd_tables sd)))) i))"
  by (simp add: gate_of_def plan_file_gate_def gate_survivors gate_default_def split: option.splits)

definition kept_files :: "staged_db \<Rightarrow> live_facts \<Rightarrow> file_row list" where
  "kept_files sd live = filter (survives (gate_of sd live) \<circ> fil_id) (tb_files (sd_tables sd))"

definition kept_genesis :: "staged_db \<Rightarrow> live_facts \<Rightarrow> genesis_db_row list" where
  "kept_genesis sd live = filter (survives (gate_of sd live) \<circ> gen_file_id) (tb_genesis (sd_tables sd))"

definition kept_versions :: "staged_db \<Rightarrow> live_facts \<Rightarrow> version_row list" where
  "kept_versions sd live =
     filter (survives (gate_of sd live) \<circ> ver_file_id) (filter ver_finalized (tb_versions (sd_tables sd)))"

definition kept_streams :: "staged_db \<Rightarrow> live_facts \<Rightarrow> stream_db_row list" where
  "kept_streams sd live = filter (stream_kept (gate_of sd live))
     (filter (\<lambda>r. staged_finalized sd (str_file_id r) (str_version r)) (tb_streams (sd_tables sd)))"

definition kept_wraps :: "staged_db \<Rightarrow> live_facts \<Rightarrow> wrap_row list" where
  "kept_wraps sd live = filter (\<lambda>r. verdict live (gate_of sd live) r = Some KeepWrap)
     (filter (\<lambda>r. staged_finalized sd (wrp_file_id r) (wrp_version r)) (tb_wraps (sd_tables sd)))"

definition kept_tombstones :: "staged_db \<Rightarrow> tombstone_row list" where
  "kept_tombstones sd = (if sd_has_tombstones sd then tb_tombstones (sd_tables sd) else [])"

definition kept_revocations :: "staged_db \<Rightarrow> revocation_row list" where
  "kept_revocations sd = (if sd_has_revocations sd then tb_revocations (sd_tables sd) else [])"

text \<open>The specification of a merge: every table with the rows it lacks.\<close>

definition extended :: "'r sql_table \<Rightarrow> 'r list \<Rightarrow> tables \<Rightarrow> 'r list" where
  "extended T rows db = add_missing (t_clash T) (t_get T db) rows"

definition merged :: "staged_db \<Rightarrow> tables \<Rightarrow> tables" where
  "merged sd db = (let live = live_facts_of db; st = sd_tables sd in db
     \<lparr>tb_users := extended users_table (tb_users st) db,
       tb_bindings := extended bindings_table (tb_bindings st) db,
       tb_reg_keys := extended reg_keys_table (tb_reg_keys st) db,
       tb_first_admin := extended first_admin_table (tb_first_admin st) db,
       tb_recovery := extended recovery_table (tb_recovery st) db,
       tb_sessions := extended sessions_table (tb_sessions st) db,
       tb_nonces := extended nonces_table (tb_nonces st) db,
       tb_files := extended files_table (kept_files sd live) db,
       tb_genesis := extended genesis_table (kept_genesis sd live) db,
       tb_versions := extended versions_table (kept_versions sd live) db,
       tb_streams := extended streams_table (kept_streams sd live) db,
       tb_wraps := extended wraps_table (kept_wraps sd live) db,
       tb_tombstones := extended tombstones_table (kept_tombstones sd) db,
       tb_revocations := extended revocations_table (kept_revocations sd) db\<rparr>)"

section \<open>The statements\<close>

text \<open>The steps of the merge as seen from the database.\<close>

lemma m_read_ok: "m_read E q s = (Inr x, s') \<longleftrightarrow>
    \<not> pe_fault E (snd (fst s)) \<and> x = q (fst (fst s)) \<and> s' = ((fst (fst s), snd (fst s) + 1), snd s)"
  by (cases s; cases "fst s") (auto simp: m_read_def on_fst_def query_def statement_def)

lemma m_insert_ok: "m_insert E T rows s = (Inr k, s') \<longleftrightarrow>
    \<not> pe_fault E (snd (fst s)) \<and> (\<exists>db. sql_insert_missing T rows (fst (fst s)) = Inr (k, db) \<and>
      s' = ((db, snd (fst s) + 1), snd s))"
  by (cases s; cases "fst s") (auto simp: m_insert_def on_fst_def statement_def split: sum.splits)

lemma m_count_ok: "m_count t n s = (Inr u, s') \<longleftrightarrow> s' = (fst s, record_inserts t n (snd s))"
  by (cases s) (auto simp: m_count_def on_snd_def smodify_def)

lemma on_snd_smodify_ok: "on_snd (smodify f) s = (Inr u, s') \<longleftrightarrow> s' = (fst s, f (snd s))"
  by (cases s) (auto simp: on_snd_def smodify_def)

lemmas merge_ok = request_ok m_read_ok m_insert_ok m_count_ok on_snd_smodify_ok

text \<open>\<open>grown T rows db db'\<close>: the table took the rows it lacked.\<close>

definition grown :: "'r sql_table \<Rightarrow> 'r list \<Rightarrow> tables \<Rightarrow> tables \<Rightarrow> bool" where
  "grown T rows db db' \<longleftrightarrow> db' = t_put T (extended T rows db) db \<and> (\<forall>r \<in> set rows. t_check T r) \<and>
     (\<forall>r \<in> set (added_rows (t_clash T) (t_get T db) rows). t_refs T db r)"

context lawful_table
begin

lemma insert_grown: "sql_insert_missing T rows db = Inr (n, db') \<Longrightarrow> grown T rows db db'"
  using insert_missing_ok [of rows db n db'] by (simp add: grown_def extended_def)

lemma grown_nil: "grown T [] db db"
  by (simp add: grown_def extended_def put_get added_rows_def)

lemma grown_get: "grown T rows db db' \<Longrightarrow> t_get T db' = extended T rows db"
  by (simp add: grown_def get_put)

lemma merge_rows_grown:
  "merge_rows E name T rows s = (Inr u, s') \<Longrightarrow> grown T rows (fst (fst s)) (fst (fst s'))"
  by (auto simp: merge_rows_def merge_ok insert_grown grown_nil split: if_splits)

lemma grown_append:
  assumes "grown T rows db db'" "grown T later db' db''"
  shows "grown T (rows @ later) db db''"
proof -
  note tab = grown_get [OF assms(1)]
  have put: "t_put T x db' = t_put T x db" for x using assms(1) by (simp add: grown_def put_put)
  have ext: "extended T (rows @ later) db = extended T later db'"
    using tab by (simp add: extended_def add_missing_append)
  have added: "added_rows (t_clash T) (t_get T db) (rows @ later) =
      added_rows (t_clash T) (t_get T db) rows @ added_rows (t_clash T) (t_get T db') later"
    by (simp add: added_rows_append tab extended_def)
  have refs: "t_refs T db' r = t_refs T db r" for r using assms(1) by (simp add: grown_def refs_put)
  show ?thesis using assms unfolding grown_def ext added put refs by auto
qed

lemma insert_each_grown:
  "insert_each E T rows s = (Inr x, s') \<Longrightarrow> grown T rows (fst (fst s)) (fst (fst s'))"
proof (induction rows arbitrary: s x)
  case (Cons r rows)
  then obtain n db y where step: "sql_insert_missing T [r] (fst (fst s)) = Inr (n, db)"
    "insert_each E T rows ((db, snd (fst s) + 1), snd s) = (Inr y, s')"
    by (auto simp: merge_ok)
  from grown_append [OF insert_grown [OF step(1)]] Cons.IH [OF step(2)] show ?case by simp
qed (simp add: merge_ok grown_nil)

end

text \<open>The table taken apart.\<close>

lemma table_simps:
  "t_get users_table db = tb_users db" "t_put users_table u db = db\<lparr>tb_users := u\<rparr>"
  "t_get bindings_table db = tb_bindings db" "t_put bindings_table b db = db\<lparr>tb_bindings := b\<rparr>"
  "t_get reg_keys_table db = tb_reg_keys db" "t_put reg_keys_table k db = db\<lparr>tb_reg_keys := k\<rparr>"
  "t_get first_admin_table db = tb_first_admin db" "t_put first_admin_table a db = db\<lparr>tb_first_admin := a\<rparr>"
  "t_get recovery_table db = tb_recovery db" "t_put recovery_table r db = db\<lparr>tb_recovery := r\<rparr>"
  "t_get sessions_table db = tb_sessions db" "t_put sessions_table s db = db\<lparr>tb_sessions := s\<rparr>"
  "t_get nonces_table db = tb_nonces db" "t_put nonces_table n db = db\<lparr>tb_nonces := n\<rparr>"
  "t_get files_table db = tb_files db" "t_put files_table f db = db\<lparr>tb_files := f\<rparr>"
  "t_get genesis_table db = tb_genesis db" "t_put genesis_table g db = db\<lparr>tb_genesis := g\<rparr>"
  "t_get versions_table db = tb_versions db" "t_put versions_table v db = db\<lparr>tb_versions := v\<rparr>"
  "t_get streams_table db = tb_streams db" "t_put streams_table st db = db\<lparr>tb_streams := st\<rparr>"
  "t_get wraps_table db = tb_wraps db" "t_put wraps_table w db = db\<lparr>tb_wraps := w\<rparr>"
  "t_get tombstones_table db = tb_tombstones db" "t_put tombstones_table t db = db\<lparr>tb_tombstones := t\<rparr>"
  "t_get revocations_table db = tb_revocations db" "t_put revocations_table rv db = db\<lparr>tb_revocations := rv\<rparr>"
  by (simp_all add: table_defs)

text \<open>The steps, each on its table.\<close>

lemma read_live_facts_ok:
  "read_live_facts E s = (Inr live, s') \<Longrightarrow> live = live_facts_of (fst (fst s)) \<and> fst (fst s') = fst (fst s)"
  by (auto simp: read_live_facts_def merge_ok live_facts_of_def image_image comp_def)

lemma merge_users_ok:
  "merge_users E sd s = (Inr x, s') \<Longrightarrow> grown users_table (tb_users (sd_tables sd)) (fst (fst s)) (fst (fst s'))"
  by (auto simp: merge_users_def m_staged_def merge_ok dest: users.insert_each_grown)

lemma unmerged_users_ok: "unmerged_users E refused s = (Inr x, s') \<Longrightarrow> fst (fst s') = fst (fst s)"
  by (auto simp: unmerged_users_def Let_def merge_ok split: if_splits)

lemma never_gated_ok:
  "merge_directory_bindings E sd s = (Inr u, s') \<Longrightarrow> grown bindings_table (tb_bindings (sd_tables sd)) (fst (fst s)) (fst (fst s'))"
  "merge_registration_keys E sd s = (Inr u, s') \<Longrightarrow> grown reg_keys_table (tb_reg_keys (sd_tables sd)) (fst (fst s)) (fst (fst s'))"
  "merge_first_admin_claim E sd s = (Inr u, s') \<Longrightarrow> grown first_admin_table (tb_first_admin (sd_tables sd)) (fst (fst s)) (fst (fst s'))"
  "merge_recovery_account E sd s = (Inr u, s') \<Longrightarrow> grown recovery_table (tb_recovery (sd_tables sd)) (fst (fst s)) (fst (fst s'))"
  "merge_sessions E sd s = (Inr u, s') \<Longrightarrow> grown sessions_table (tb_sessions (sd_tables sd)) (fst (fst s)) (fst (fst s'))"
  "merge_auth_nonces E sd s = (Inr u, s') \<Longrightarrow> grown nonces_table (tb_nonces (sd_tables sd)) (fst (fst s)) (fst (fst s'))"
  by (auto simp: merge_directory_bindings_def merge_registration_keys_def merge_first_admin_claim_def
      merge_recovery_account_def merge_sessions_def merge_auth_nonces_def m_staged_def merge_ok
      dest: bindings.insert_each_grown reg_keys.merge_rows_grown first_admin.merge_rows_grown
        recovery.merge_rows_grown sessions.merge_rows_grown nonces.merge_rows_grown)

lemma merge_files_ok:
  "merge_files E sd live owners s = (Inr gate, s') \<Longrightarrow>
     gate = gate_of sd live \<and> grown files_table (kept_files sd live) (fst (fst s)) (fst (fst s'))"
  by (auto simp: merge_files_def m_staged_def merge_ok Let_def gate_of_def kept_files_def split: if_splits
      dest: files.merge_rows_grown)

lemma file_family_ok:
  "merge_file_genesis E sd (gate_of sd live) s = (Inr u, s') \<Longrightarrow> grown genesis_table (kept_genesis sd live) (fst (fst s)) (fst (fst s'))"
  "merge_file_versions E sd (gate_of sd live) s = (Inr u, s') \<Longrightarrow> grown versions_table (kept_versions sd live) (fst (fst s)) (fst (fst s'))"
  "merge_file_streams E sd (gate_of sd live) s = (Inr u, s') \<Longrightarrow> grown streams_table (kept_streams sd live) (fst (fst s)) (fst (fst s'))"
  "merge_file_key_wraps E sd (gate_of sd live) live s = (Inr u, s') \<Longrightarrow> grown wraps_table (kept_wraps sd live) (fst (fst s)) (fst (fst s'))"
  by (auto simp: merge_file_genesis_def merge_file_versions_def merge_file_streams_def merge_file_key_wraps_def
      kept_genesis_def kept_versions_def kept_streams_def kept_wraps_def m_staged_def merge_ok
      dest: genesis.merge_rows_grown versions.merge_rows_grown streams.merge_rows_grown wraps.merge_rows_grown)

lemma absence_ok:
  "merge_file_tombstones E sd s = (Inr u, s') \<Longrightarrow> grown tombstones_table (kept_tombstones sd) (fst (fst s)) (fst (fst s'))"
  "merge_wrap_revocations E sd s = (Inr u, s') \<Longrightarrow> grown revocations_table (kept_revocations sd) (fst (fst s)) (fst (fst s'))"
  by (auto simp: merge_file_tombstones_def merge_wrap_revocations_def kept_tombstones_def kept_revocations_def
      m_staged_def merge_ok tombstones.grown_nil revocations.grown_nil split: if_splits
      dest: tombstones.merge_rows_grown revocations.merge_rows_grown)

lemma merge_body_merged:
  assumes "merge_body E sd others s = (Inr u, s')"
  shows "fst (fst s') = merged sd (fst (fst s))"
proof -
  define live where "live = live_facts_of (fst (fst s))"
  obtain s0 s1 s2 s3 s4 s5 s6 s7 s8 s9 s10 s11 s12 s13 s14 s15 s16 s17 refused own gate where steps:
    "fst (fst s1) = fst (fst s)" "merge_users E sd s1 = (Inr refused, s2)" "unmerged_users E refused s2 = (Inr own, s3)"
    "merge_directory_bindings E sd s3 = (Inr (), s4)" "merge_registration_keys E sd s4 = (Inr (), s5)"
    "merge_first_admin_claim E sd s5 = (Inr (), s6)" "merge_recovery_account E sd s6 = (Inr (), s7)"
    "merge_sessions E sd s7 = (Inr (), s8)" "merge_auth_nonces E sd s8 = (Inr (), s9)"
    "merge_files E sd live own s9 = (Inr gate, s10)" "fst (fst s11) = fst (fst s10)"
    "merge_file_genesis E sd gate s11 = (Inr (), s12)" "merge_file_versions E sd gate s12 = (Inr (), s13)"
    "merge_file_streams E sd gate s13 = (Inr (), s14)" "merge_file_key_wraps E sd gate live s14 = (Inr (), s15)"
    "merge_file_tombstones E sd s15 = (Inr (), s16)" "merge_wrap_revocations E sd s16 = (Inr u, s')"
    using assms unfolding merge_body_def live_def
    by (auto simp: merge_ok split: if_splits dest!: read_live_facts_ok)
  note gate = merge_files_ok [OF steps(10)]
  note family = steps(12-15) [unfolded conjunct1 [OF gate]]
  note grown = merge_users_ok [OF steps(2)] never_gated_ok(1) [OF steps(4)] never_gated_ok(2) [OF steps(5)]
    never_gated_ok(3) [OF steps(6)] never_gated_ok(4) [OF steps(7)] never_gated_ok(5) [OF steps(8)]
    never_gated_ok(6) [OF steps(9)] conjunct2 [OF gate] file_family_ok(1) [OF family(1)] file_family_ok(2) [OF family(2)]
    file_family_ok(3) [OF family(3)] file_family_ok(4) [OF family(4)] absence_ok(1) [OF steps(16)] absence_ok(2) [OF steps(17)]
  show ?thesis
    using grown unmerged_users_ok [OF steps(3)] steps(1,11)
    by (simp add: grown_def extended_def table_simps merged_def Let_def live_def)
qed

lemma merge_run_cases:
  assumes "merge_run E sd others apply s = (x, (db', n'))"
  obtains (kept) "db' = fst s"
    | (applied) "apply" "db' = merged sd (fst s)"
  using assms merge_body_merged [of E sd others "((fst s, snd s + 1), merge_preview_default)"]
  by (cases s) (auto simp: merge_run_def split: if_splits prod.splits sum.splits)

lemma merge_run_ok:
  assumes "merge_run E sd others True s = (Inr preview, (db', n'))"
  shows "db' = merged sd (fst s)"
  using assms merge_body_merged [of E sd others "((fst s, snd s + 1), merge_preview_default)"]
  by (cases s) (auto simp: merge_run_def split: if_splits prod.splits sum.splits)

end
