(* ===== verification/BackupMerge_Spec.thy ===== *)
theory BackupMerge_Spec
  imports BackupMerge_Laws
begin

text \<open>
  The specification \<open>merged\<close> table by table, and progress: on a database that answers, a merge of a bundle whose accounts
  do not collide with the live ones goes through; the gate never leads it into a constraint.
\<close>

section \<open>The specification, table by table\<close>

lemma merged_get:
  "tb_users (merged sd db) = extended users_table (tb_users (sd_tables sd)) db"
  "tb_bindings (merged sd db) = extended bindings_table (tb_bindings (sd_tables sd)) db"
  "tb_reg_keys (merged sd db) = extended reg_keys_table (tb_reg_keys (sd_tables sd)) db"
  "tb_first_admin (merged sd db) = extended first_admin_table (tb_first_admin (sd_tables sd)) db"
  "tb_recovery (merged sd db) = extended recovery_table (tb_recovery (sd_tables sd)) db"
  "tb_sessions (merged sd db) = extended sessions_table (tb_sessions (sd_tables sd)) db"
  "tb_nonces (merged sd db) = extended nonces_table (tb_nonces (sd_tables sd)) db"
  "tb_files (merged sd db) = extended files_table (kept_files sd (live_facts_of db)) db"
  "tb_genesis (merged sd db) = extended genesis_table (kept_genesis sd (live_facts_of db)) db"
  "tb_versions (merged sd db) = extended versions_table (kept_versions sd (live_facts_of db)) db"
  "tb_streams (merged sd db) = extended streams_table (kept_streams sd (live_facts_of db)) db"
  "tb_wraps (merged sd db) = extended wraps_table (kept_wraps sd (live_facts_of db)) db"
  "tb_tombstones (merged sd db) = extended tombstones_table (kept_tombstones sd) db"
  "tb_revocations (merged sd db) = extended revocations_table (kept_revocations sd) db"
  "tb_control (merged sd db) = tb_control db"
  by (simp_all add: merged_def Let_def)

lemma extend_subset: "set (extended T rows db) \<subseteq> set (t_get T db) \<union> set rows"
  unfolding extended_def by (rule set_add_missing(2))

lemma extend_superset: "set (t_get T db) \<subseteq> set (extended T rows db)"
  unfolding extended_def by (rule set_add_missing(1))

lemma extend_added: "extended T rows db = t_get T db @ added_rows (t_clash T) (t_get T db) rows"
  unfolding extended_def by (rule add_missing_eq)

context lawful_table
begin

lemma extend_unclashed: "unclashed (t_clash T) (t_get T db) \<Longrightarrow> unclashed (t_clash T) (extended T rows db)"
  unfolding extended_def by (rule add_missing_unclashed [OF clash_sym])

lemma extend_present: "r \<in> set rows \<Longrightarrow> \<exists>s \<in> set (extended T rows db). t_clash T r s"
  unfolding extended_def by (rule add_missing_present [OF clash_refl])

lemma extend_new:
  assumes "r \<in> set rows" "unclashed (t_clash T) rows" "\<And>s. s \<in> set (t_get T db) \<Longrightarrow> \<not> t_clash T r s"
  shows "r \<in> set (extended T rows db)"
  unfolding extended_def using assms(1,2) clash_sym assms(3) by (rule add_missing_new)

lemma extend_old:
  assumes "\<And>r. r \<in> set rows \<Longrightarrow> \<exists>s \<in> set (t_get T db). t_clash T r s"
  shows "extended T rows db = t_get T db"
  unfolding extended_def by (rule add_missing_old [OF assms])

lemma extend_again:
  assumes "t_get T db' = extended T rows db" "set later \<subseteq> set rows"
  shows "extended T later db' = t_get T db'"
proof (rule extend_old)
  fix r assume "r \<in> set later"
  then have "r \<in> set rows" using assms(2) by blast
  then show "\<exists>s \<in> set (t_get T db'). t_clash T r s" unfolding assms(1) by (rule extend_present)
qed

lemma same_row:
  assumes "table_ok T db" "r \<in> set (t_get T db)" "s \<in> set (t_get T db)" "t_clash T r s"
  shows "r = s"
  using assms(1) unfolding table_ok_def by (blast intro: unclashed_same [OF _ assms(2,3,4) clash_sym [OF assms(4)]])

end

lemma kept_simps:
  "r \<in> set (kept_files sd live) \<longleftrightarrow> r \<in> set (tb_files (sd_tables sd)) \<and> survives (gate_of sd live) (fil_id r)"
  "g \<in> set (kept_genesis sd live) \<longleftrightarrow> g \<in> set (tb_genesis (sd_tables sd)) \<and> survives (gate_of sd live) (gen_file_id g)"
  "v \<in> set (kept_versions sd live) \<longleftrightarrow> v \<in> set (tb_versions (sd_tables sd)) \<and> ver_finalized v \<and>
     survives (gate_of sd live) (ver_file_id v)"
  "s \<in> set (kept_streams sd live) \<longleftrightarrow> s \<in> set (tb_streams (sd_tables sd)) \<and>
     staged_finalized sd (str_file_id s) (str_version s) \<and> fg_survivors (gate_of sd live) (str_file_id s) = Some (str_version s)"
  "w \<in> set (kept_wraps sd live) \<longleftrightarrow> w \<in> set (tb_wraps (sd_tables sd)) \<and>
     staged_finalized sd (wrp_file_id w) (wrp_version w) \<and> fg_survivors (gate_of sd live) (wrp_file_id w) = Some (wrp_version w) \<and>
     (wrp_file_id w, wrp_version w, wi_recipient_id (wrp_wrap w)) \<notin> lv_revoked live"
  by (auto simp: kept_files_def kept_genesis_def kept_versions_def kept_streams_def kept_wraps_def stream_kept_def
      keep_stream_def verdict_def wrap_verdict_of_def split: option.splits if_splits)

lemma survives_not_destroyed: "survives (gate_of sd live) i \<Longrightarrow> \<not> destroyed live i"
  by (simp add: survives_def survivors_of split: if_splits)

lemma survivor_not_destroyed: "fg_survivors (gate_of sd live) i = Some c \<Longrightarrow> \<not> destroyed live i"
  by (rule survives_not_destroyed [of sd]) (simp add: survives_def)

lemma live_facts_simps:
  "i \<in> lv_tombstoned (live_facts_of db) \<longleftrightarrow> i \<in> set (map tmb_file_id (tb_tombstones db))"
  "i \<in> lv_files (live_facts_of db) \<longleftrightarrow> i \<in> set (map fil_id (tb_files db))"
  "t \<in> lv_revoked (live_facts_of db) \<longleftrightarrow> t \<in> set (map (\<lambda>r. (rvk_file_id r, rvk_version r, rvk_recipient_id r)) (tb_revocations db))"
  by (simp_all add: live_facts_of_def)

text \<open>The lookup of a file row by its id, in a table without duplicates.\<close>

lemma lookup_file:
  assumes "table_ok files_table db" "f \<in> set (tb_files db)"
  shows "map_of (rev (map (\<lambda>r. (fil_id r, fil_current_version r)) (tb_files db))) (fil_id f) = Some (fil_current_version f)"
proof -
  have inj: "r = f" if "r \<in> set (tb_files db)" "fil_id r = fil_id f" for r
    using files.same_row [OF assms(1), of r f] that assms(2) by (simp add: table_simps files_table_def)
  obtain c where c: "map_of (rev (map (\<lambda>r. (fil_id r, fil_current_version r)) (tb_files db))) (fil_id f) = Some c"
    using assms(2) by (cases "map_of (rev (map (\<lambda>r. (fil_id r, fil_current_version r)) (tb_files db))) (fil_id f)")
      (auto simp: map_of_eq_None_iff image_image)
  from map_of_SomeD [OF c] inj show ?thesis using c by auto
qed

lemma lookup_file_None:
  "map_of (rev (map (\<lambda>r. (fil_id r, fil_current_version r)) fs)) i = None \<longleftrightarrow> i \<notin> set (map fil_id fs)"
  by (auto simp: map_of_eq_None_iff image_image)

lemma lookup_file_Some:
  "map_of (rev (map (\<lambda>r. (fil_id r, fil_current_version r)) fs)) i = Some c \<Longrightarrow>
     \<exists>f \<in> set fs. fil_id f = i \<and> fil_current_version f = c"
  by (drule map_of_SomeD) auto

text \<open>A file the live database lost is inserted with the staged row.\<close>

lemma lost_file_inserted:
  assumes "table_ok files_table (sd_tables sd)" "f \<in> set (tb_files (sd_tables sd))"
    "survives (gate_of sd (live_facts_of db)) (fil_id f)" "fil_id f \<notin> set (map fil_id (tb_files db))"
  shows "f \<in> set (tb_files (merged sd db))"
  unfolding merged_get
proof (rule files.extend_new)
  show "f \<in> set (kept_files sd (live_facts_of db))" using assms by (simp add: kept_simps)
  show "unclashed (t_clash files_table) (kept_files sd (live_facts_of db))"
    using assms(1) by (simp add: table_ok_def kept_files_def unclashed_filter table_simps)
  show "\<not> t_clash files_table f s" if "s \<in> set (t_get files_table db)" for s
    using that assms(4) by (auto simp: files_table_def)
qed

text \<open>The version a survivor is gated on is the current version of its row after the merge.\<close>

lemma survivor_current:
  assumes "table_ok files_table (sd_tables sd)" "fg_survivors (gate_of sd (live_facts_of db)) i = Some c"
  shows "\<exists>f \<in> set (tb_files (merged sd db)). fil_id f = i \<and> fil_current_version f = c"
proof -
  from assms(2) obtain c0 where c0:
    "map_of (rev (map (\<lambda>r. (fil_id r, fil_current_version r)) (tb_files (sd_tables sd)))) i = Some c0"
    "c = gated_version (live_facts_of db) i c0" by (auto simp: survivors_of split: if_splits)
  show ?thesis
  proof (cases "lv_current_version (live_facts_of db) i")
    case None
    then have "i \<notin> set (map fil_id (tb_files db))" by (simp add: live_facts_of_def lookup_file_None)
    moreover from lookup_file_Some [OF c0(1)] obtain f where f: "f \<in> set (tb_files (sd_tables sd))" "fil_id f = i"
      "fil_current_version f = c0" by blast
    moreover have "c = c0" using c0(2) None by (simp add: gated_version_def)
    ultimately show ?thesis using lost_file_inserted [OF assms(1) f(1)] assms(2) by (auto simp: survives_def)
  next
    case (Some l)
    then have "c = l" using c0(2) by (simp add: gated_version_def)
    with lookup_file_Some [of "tb_files db" i l] Some obtain f where "f \<in> set (tb_files db)" "fil_id f = i"
      "fil_current_version f = c" by (auto simp: live_facts_of_def)
    then show ?thesis using extend_superset [of files_table db "kept_files sd (live_facts_of db)"]
      by (auto simp: merged_get table_simps)
  qed
qed

lemma has_version_file:
  assumes "table_ok versions_table db" "has_version db i v"
  shows "i \<in> set (map fil_id (tb_files db))"
proof -
  from assms(2) obtain r where r: "r \<in> set (tb_versions db)" "ver_file_id r = i" by (auto simp: has_version_def list_ex_iff)
  with assms(1) have "t_refs versions_table db r" by (simp add: table_ok_def table_simps)
  with r(2) show ?thesis by (simp add: versions_table_def)
qed

section \<open>Progress\<close>

text \<open>\<open>works m P db db'\<close>: on a database that answers, \<open>m\<close> takes \<open>db\<close> to \<open>db'\<close> with a result in \<open>P\<close>.\<close>

definition works :: "(merge_state \<Rightarrow> (backup_error + 'a) \<times> merge_state) \<Rightarrow> ('a \<Rightarrow> bool) \<Rightarrow> tables \<Rightarrow> tables \<Rightarrow> bool" where
  "works m P db db' \<longleftrightarrow> (\<forall>k p. \<exists>x k' p'. m ((db, k), p) = (Inr x, ((db', k'), p')) \<and> P x)"

lemma works_sbind:
  assumes "works m P db db1" "\<And>x. P x \<Longrightarrow> works (f x) Q db1 db2"
  shows "works (sbind m f) Q db db2"
  unfolding works_def
proof (intro allI)
  fix k p
  obtain x k1 p1 where x: "m ((db, k), p) = (Inr x, ((db1, k1), p1))" "P x" using assms(1) by (fastforce simp: works_def)
  from assms(2) [OF x(2)] obtain y k2 p2 where "f x ((db1, k1), p1) = (Inr y, ((db2, k2), p2))" "Q y"
    by (fastforce simp: works_def)
  then show "\<exists>y k' p'. sbind m f ((db, k), p) = (Inr y, ((db2, k'), p')) \<and> Q y" using x by (simp add: sbind_def)
qed

lemma works_sret: "P x \<Longrightarrow> works (sret x) P db db"
  by (simp add: works_def sret_def)

lemma works_check: "P x \<Longrightarrow> works (check (Inr x)) P db db"
  by (simp add: works_def check_def)

lemma works_on_snd: "works (on_snd (smodify f)) (\<lambda>_. True) db db"
  by (simp add: works_def on_snd_def smodify_def)

definition reliable :: "pg_env" where
  "reliable = \<lparr>pe_fault = (\<lambda>_. False), pe_commit_lost = (\<lambda>_. False), pe_text = (\<lambda>_. [])\<rparr>"

lemma works_m_read: "works (m_read reliable q) (\<lambda>x. x = q db) db db"
  by (simp add: works_def m_read_def on_fst_def query_def statement_def reliable_def)

lemma works_m_staged: "works (m_staged reliable rows) (\<lambda>x. x = rows) db db"
  unfolding m_staged_def using works_m_read [of "\<lambda>_. rows" db] .

lemma works_staged_rows:
  "works (f rows) Q db db' \<Longrightarrow> works (sbind (m_staged reliable rows) f) Q db db'"
  by (rule works_sbind [OF works_m_staged]) simp

lemma get16s_ok: "(\<And>v. v \<in> set vs \<Longrightarrow> length v = 16) \<Longrightarrow> get16s vs = Inr vs"
  by (induction vs) (auto simp: get16_def)

lemma works_get16s: "(\<And>v. v \<in> set vs \<Longrightarrow> length v = 16) \<Longrightarrow> works (check (get16s vs)) (\<lambda>_. True) db db"
  by (simp add: get16s_ok works_check)

context lawful_table
begin

lemma insert_missing_works:
  assumes "\<And>r. r \<in> set rows \<Longrightarrow> t_check T r" "\<And>r. r \<in> set rows \<Longrightarrow> t_refs T db r"
  shows "\<exists>n. sql_insert_missing T rows db = Inr (n, t_put T (extended T rows db) db)"
proof -
  have "t_refs T db r" if "r \<in> set (drop (length (t_get T db)) (add_missing (t_clash T) (t_get T db) rows))" for r
    using that assms(2) added_rows_subset [of "t_clash T" "t_get T db" rows] by (auto simp: added_rows_def)
  then show ?thesis using assms(1) by (simp add: sql_insert_missing_def Let_def list_all_iff extended_def)
qed

lemma m_insert_works:
  assumes "\<And>r. r \<in> set rows \<Longrightarrow> t_check T r" "\<And>r. r \<in> set rows \<Longrightarrow> t_refs T db r"
  shows "works (m_insert reliable T rows) (\<lambda>_. True) db (t_put T (extended T rows db) db)"
  using insert_missing_works [of rows db] assms
  by (auto simp: works_def m_insert_def on_fst_def statement_def reliable_def)

lemma merge_rows_works:
  assumes "\<And>r. r \<in> set rows \<Longrightarrow> t_check T r" "\<And>r. r \<in> set rows \<Longrightarrow> t_refs T db r"
  shows "works (merge_rows reliable name T rows) (\<lambda>_. True) db (t_put T (extended T rows db) db)"
proof (cases "rows = []")
  case True
  then show ?thesis by (simp add: merge_rows_def extended_def put_get works_sret)
next
  case False
  then show ?thesis unfolding merge_rows_def m_count_def
    using works_sbind [OF m_insert_works [OF assms] works_on_snd] by simp
qed

lemma insert_each_works:
  assumes "\<And>r. r \<in> set rows \<Longrightarrow> t_check T r" "\<And>r. r \<in> set rows \<Longrightarrow> t_refs T db r"
  shows "works (insert_each reliable T rows) (\<lambda>x. set (snd x) \<subseteq> set rows) db (t_put T (extended T rows db) db)"
  using assms
proof (induction rows arbitrary: db)
  case Nil
  then show ?case by (simp add: extended_def put_get works_sret)
next
  case (Cons r rows)
  let ?db1 = "t_put T (extended T [r] db) db"
  have refs: "t_refs T ?db1 q" if "q \<in> set rows" for q using Cons.prems(2) that by (simp add: refs_put)
  have put: "t_put T (extended T rows ?db1) ?db1 = t_put T (extended T (r # rows) db) db"
    by (simp add: put_put extended_def get_put)
  have one: "works (m_insert reliable T [r]) (\<lambda>_. True) db ?db1"
    using Cons.prems by (intro m_insert_works) auto
  have rest: "works (insert_each reliable T rows) (\<lambda>x. set (snd x) \<subseteq> set rows) ?db1 (t_put T (extended T (r # rows) db) db)"
    using Cons.IH [of ?db1] Cons.prems(1) refs unfolding put by simp
  show ?case unfolding insert_each.simps
    by (rule works_sbind [OF one], rule works_sbind [OF rest]) (auto intro!: works_sret split: prod.split)
qed

end

lemma rows_of:
  assumes "table_ok T st" "r \<in> set (t_get T st)"
  shows "t_check T r" "t_refs T st r"
  using assms by (simp_all add: table_ok_def)

lemma works_mono: "works m P db db' \<Longrightarrow> (\<And>x. P x \<Longrightarrow> Q x) \<Longrightarrow> works m Q db db'"
  unfolding works_def by blast

lemma works_read_live_facts:
  assumes "tables_ok db"
  shows "works (read_live_facts reliable) (\<lambda>x. x = live_facts_of db) db db"
proof -
  have ok: "table_ok tombstones_table db" "table_ok files_table db" "table_ok revocations_table db"
    using assms by (simp_all add: tables_ok_def)
  have widths: "length (tmb_file_id t) = 16" "length (fil_id f) = 16"
    "length (rvk_file_id r) = 16 \<and> length (rvk_recipient_id r) = 16"
    if "t \<in> set (tb_tombstones db)" "f \<in> set (tb_files db)" "r \<in> set (tb_revocations db)" for t f r
    using ok that by (simp_all add: table_ok_def table_defs)
  have "\<exists>k' p'. read_live_facts reliable ((db, k), p) = (Inr (live_facts_of db), ((db, k'), p'))" for k p
  proof -
    have t: "get16s (map tmb_file_id (tb_tombstones db)) = Inr (map tmb_file_id (tb_tombstones db))"
      using ok(1) by (intro get16s_ok) (auto simp: table_ok_def tombstones_table_def)
    have f: "get16s (map fil_id (tb_files db)) = Inr (map fil_id (tb_files db))"
      using ok(2) by (intro get16s_ok) (auto simp: table_ok_def files_table_def)
    have r: "get16s (concat (map (\<lambda>x. [rvk_file_id x, rvk_recipient_id x]) (tb_revocations db))) =
        Inr (concat (map (\<lambda>x. [rvk_file_id x, rvk_recipient_id x]) (tb_revocations db)))"
      using ok(3) by (intro get16s_ok) (auto simp: table_ok_def revocations_table_def)
    show ?thesis
      by (simp add: read_live_facts_def sbind_def m_read_def on_fst_def query_def statement_def reliable_def check_def
          sret_def comp_def t f r live_facts_of_def image_image)
  qed
  then show ?thesis by (simp add: works_def)
qed

text \<open>No staged account collides by name alone with a live one.\<close>

definition accounts_merge :: "staged_db \<Rightarrow> tables \<Rightarrow> bool" where
  "accounts_merge sd db \<longleftrightarrow> (\<forall>u \<in> set (tb_users (sd_tables sd)).
     usr_id u \<in> set (map usr_id (tb_users db)) \<or> usr_name u \<notin> set (map usr_name (tb_users db)))"

lemma staged_account_present:
  assumes "accounts_merge sd db" "tables_ok (sd_tables sd)" "u \<in> set (tb_users (sd_tables sd))"
  shows "usr_id u \<in> set (map usr_id (extended users_table (tb_users (sd_tables sd)) db))"
proof (cases "usr_id u \<in> set (map usr_id (tb_users db))")
  case True
  then show ?thesis using extend_superset [of users_table db "tb_users (sd_tables sd)"] by (auto simp: table_simps)
next
  case False
  then have "usr_name u \<notin> set (map usr_name (tb_users db))" using assms(1,3) by (auto simp: accounts_merge_def)
  then have "u \<in> set (extended users_table (tb_users (sd_tables sd)) db)"
    using assms(2,3) False
    by (intro users.extend_new) (auto simp: tables_ok_def table_ok_def table_simps users_table_def)
  then show ?thesis by auto
qed

lemma works_merge_users:
  assumes "table_ok users_table (sd_tables sd)"
  shows "works (merge_users reliable sd) (\<lambda>x. set (map fst x) \<subseteq> set (map usr_id (tb_users (sd_tables sd)))) db
    (t_put users_table (extended users_table (tb_users (sd_tables sd)) db) db)"
proof -
  have rows: "t_check users_table r" "t_refs users_table db r" if "r \<in> set (tb_users (sd_tables sd))" for r
    using rows_of [OF assms] that by (simp_all add: users_table_def)
  show ?thesis
    unfolding merge_users_def m_count_def
    by (intro works_staged_rows, rule works_sbind [OF users.insert_each_works [OF rows]])
      (auto intro!: works_sbind [OF works_on_snd] works_sret imageI split: prod.split)
qed

lemma works_unmerged_users:
  assumes "set (map fst refused) \<subseteq> set (map usr_id (tb_users db))"
  shows "works (unmerged_users reliable refused) (\<lambda>x. x = Map.empty) db db"
proof (cases "refused = []")
  case True
  then show ?thesis by (auto simp: unmerged_users_def Let_def intro!: works_sret)
next
  case False
  have "(\<lambda>i. if i \<in> set (filter (\<lambda>i. i \<in> set (map fst refused)) (map usr_id (tb_users db))) then None
      else map_of (rev refused) i) = Map.empty"
  proof
    fix i
    show "(if i \<in> set (filter (\<lambda>i. i \<in> set (map fst refused)) (map usr_id (tb_users db))) then None
      else map_of (rev refused) i) = None"
      using assms by (auto simp: map_of_eq_None_iff)
  qed
  then show ?thesis using False unfolding unmerged_users_def Let_def
    by (simp only: if_False) (rule works_sbind [OF works_m_read], auto intro!: works_sret)
qed

lemma works_never_gated:
  assumes "tables_ok (sd_tables sd)"
  shows "works (merge_directory_bindings reliable sd) (\<lambda>_. True) db
      (t_put bindings_table (extended bindings_table (tb_bindings (sd_tables sd)) db) db)"
    "works (merge_registration_keys reliable sd) (\<lambda>_. True) db
      (t_put reg_keys_table (extended reg_keys_table (tb_reg_keys (sd_tables sd)) db) db)"
    "works (merge_first_admin_claim reliable sd) (\<lambda>_. True) db
      (t_put first_admin_table (extended first_admin_table (tb_first_admin (sd_tables sd)) db) db)"
    "works (merge_recovery_account reliable sd) (\<lambda>_. True) db
      (t_put recovery_table (extended recovery_table (tb_recovery (sd_tables sd)) db) db)"
    "works (merge_sessions reliable sd) (\<lambda>_. True) db
      (t_put sessions_table (extended sessions_table (tb_sessions (sd_tables sd)) db) db)"
    "works (merge_auth_nonces reliable sd) (\<lambda>_. True) db
      (t_put nonces_table (extended nonces_table (tb_nonces (sd_tables sd)) db) db)"
    "works (merge_file_tombstones reliable sd) (\<lambda>_. True) db
      (t_put tombstones_table (extended tombstones_table (kept_tombstones sd) db) db)"
    "works (merge_wrap_revocations reliable sd) (\<lambda>_. True) db
      (t_put revocations_table (extended revocations_table (kept_revocations sd) db) db)"
proof -
  have ok: "table_ok bindings_table (sd_tables sd)" "table_ok reg_keys_table (sd_tables sd)"
    "table_ok first_admin_table (sd_tables sd)" "table_ok recovery_table (sd_tables sd)"
    "table_ok sessions_table (sd_tables sd)" "table_ok nonces_table (sd_tables sd)"
    "table_ok tombstones_table (sd_tables sd)" "table_ok revocations_table (sd_tables sd)"
    using assms by (simp_all add: tables_ok_def)
  have b: "t_check bindings_table r" "t_refs bindings_table db r" if "r \<in> set (tb_bindings (sd_tables sd))" for r
    using rows_of [OF ok(1)] that by (simp_all add: bindings_table_def)
  show "works (merge_directory_bindings reliable sd) (\<lambda>_. True) db
      (t_put bindings_table (extended bindings_table (tb_bindings (sd_tables sd)) db) db)"
    unfolding merge_directory_bindings_def m_count_def
    by (intro works_staged_rows, rule works_sbind [OF bindings.insert_each_works [OF b]])
      (auto intro!: works_on_snd split: prod.split)
  show "works (merge_registration_keys reliable sd) (\<lambda>_. True) db
      (t_put reg_keys_table (extended reg_keys_table (tb_reg_keys (sd_tables sd)) db) db)"
    unfolding merge_registration_keys_def
    by (intro works_staged_rows reg_keys.merge_rows_works) (use rows_of [OF ok(2)] in \<open>auto simp: reg_keys_table_def\<close>)
  show "works (merge_first_admin_claim reliable sd) (\<lambda>_. True) db
      (t_put first_admin_table (extended first_admin_table (tb_first_admin (sd_tables sd)) db) db)"
    unfolding merge_first_admin_claim_def
    by (intro works_staged_rows first_admin.merge_rows_works) (use rows_of [OF ok(3)] in \<open>auto simp: first_admin_table_def\<close>)
  show "works (merge_recovery_account reliable sd) (\<lambda>_. True) db
      (t_put recovery_table (extended recovery_table (tb_recovery (sd_tables sd)) db) db)"
    unfolding merge_recovery_account_def
    by (intro works_staged_rows recovery.merge_rows_works) (use rows_of [OF ok(4)] in \<open>auto simp: recovery_table_def\<close>)
  show "works (merge_sessions reliable sd) (\<lambda>_. True) db
      (t_put sessions_table (extended sessions_table (tb_sessions (sd_tables sd)) db) db)"
    unfolding merge_sessions_def
    by (intro works_staged_rows sessions.merge_rows_works) (use rows_of [OF ok(5)] in \<open>auto simp: sessions_table_def\<close>)
  show "works (merge_auth_nonces reliable sd) (\<lambda>_. True) db
      (t_put nonces_table (extended nonces_table (tb_nonces (sd_tables sd)) db) db)"
    unfolding merge_auth_nonces_def
    by (intro works_staged_rows nonces.merge_rows_works) (use rows_of [OF ok(6)] in \<open>auto simp: nonces_table_def\<close>)
  show "works (merge_file_tombstones reliable sd) (\<lambda>_. True) db
      (t_put tombstones_table (extended tombstones_table (kept_tombstones sd) db) db)"
  proof -
    have rows: "t_check tombstones_table r" "t_refs tombstones_table db r" if "r \<in> set (tb_tombstones (sd_tables sd))" for r
      using rows_of [OF ok(7)] that by (simp_all add: tombstones_table_def)
    show ?thesis
    proof (cases "sd_has_tombstones sd")
      case True
      show ?thesis unfolding merge_file_tombstones_def kept_tombstones_def if_P [OF True]
        by (rule works_staged_rows, simp add: True, rule works_staged_rows, rule tombstones.merge_rows_works [OF rows])
    next
      case False
      then show ?thesis unfolding merge_file_tombstones_def kept_tombstones_def
        by (auto intro!: works_staged_rows works_sret simp: extended_def tombstones.put_get)
    qed
  qed
  show "works (merge_wrap_revocations reliable sd) (\<lambda>_. True) db
      (t_put revocations_table (extended revocations_table (kept_revocations sd) db) db)"
  proof -
    have rows: "t_check revocations_table r" "t_refs revocations_table db r" if "r \<in> set (tb_revocations (sd_tables sd))" for r
      using rows_of [OF ok(8)] that by (simp_all add: revocations_table_def)
    show ?thesis
    proof (cases "sd_has_revocations sd")
      case True
      show ?thesis unfolding merge_wrap_revocations_def kept_revocations_def if_P [OF True]
        by (rule works_staged_rows, simp add: True, rule works_staged_rows, rule revocations.merge_rows_works [OF rows])
    next
      case False
      then show ?thesis unfolding merge_wrap_revocations_def kept_revocations_def
        by (auto intro!: works_staged_rows works_sret simp: extended_def revocations.put_get)
    qed
  qed
qed

lemma list_map_filter_empty: "List.map_filter (Map.empty \<circ> f) xs = []"
  by (induction xs) (simp_all add: List.map_filter_simps)

lemma works_merge_files:
  assumes "tables_ok (sd_tables sd)" "set (map usr_id (tb_users (sd_tables sd))) \<subseteq> set (map usr_id (tb_users db))"
  shows "works (merge_files reliable sd live Map.empty) (\<lambda>x. x = gate_of sd live) db
    (t_put files_table (extended files_table (kept_files sd live) db) db)"
proof -
  have ok: "table_ok files_table (sd_tables sd)" using assms(1) by (simp add: tables_ok_def)
  have widths: "length v = 16" if "v \<in> set (map fil_id (tb_files (sd_tables sd)))" for v
    using that ok by (auto simp: table_ok_def files_table_def)
  have rows: "t_check files_table r" "t_refs files_table db r" if "r \<in> set (kept_files sd live)" for r
    using rows_of [OF ok, of r] that assms(2) by (auto simp: kept_simps files_table_def)
  show ?thesis
    unfolding merge_files_def
    by (rule works_staged_rows, unfold Let_def gate_of_def [symmetric] kept_files_def [symmetric] list_map_filter_empty,
        rule works_sbind [OF works_get16s [OF widths]], assumption,
        simp, rule works_sbind [OF files.merge_rows_works [OF rows]]) (auto intro: works_sret)
qed

lemma works_file_family:
  assumes "tables_ok (sd_tables sd)"
    and "\<And>i. survives (gate_of sd live) i \<Longrightarrow> i \<in> set (map fil_id (tb_files db))"
  shows "works (merge_file_genesis reliable sd (gate_of sd live)) (\<lambda>_. True) db
      (t_put genesis_table (extended genesis_table (kept_genesis sd live) db) db)"
    "works (merge_file_versions reliable sd (gate_of sd live)) (\<lambda>_. True) db
      (t_put versions_table (extended versions_table (kept_versions sd live) db) db)"
proof -
  have ok: "table_ok genesis_table (sd_tables sd)" "table_ok versions_table (sd_tables sd)" "table_ok files_table (sd_tables sd)"
    using assms(1) by (simp_all add: tables_ok_def)
  have fwidth: "length v = 16" if "v \<in> set (map fil_id (tb_files (sd_tables sd)))" for v
    using that ok(3) by (auto simp: table_ok_def files_table_def)
  have gw: "length v = 16" if "v \<in> set (map gen_file_id (tb_genesis (sd_tables sd)))" for v
    using that ok(1) fwidth by (auto simp: table_ok_def genesis_table_def)
  have vw: "length v = 16" if "v \<in> set (map ver_file_id (filter ver_finalized (tb_versions (sd_tables sd))))" for v
    using that ok(2) fwidth by (auto simp: table_ok_def versions_table_def)
  have g: "t_check genesis_table r" "t_refs genesis_table db r" if "r \<in> set (kept_genesis sd live)" for r
    using rows_of [OF ok(1), of r] that assms(2) by (auto simp: kept_simps genesis_table_def)
  have v: "t_check versions_table r" "t_refs versions_table db r" if "r \<in> set (kept_versions sd live)" for r
    using rows_of [OF ok(2), of r] that assms(2) by (auto simp: kept_simps versions_table_def)
  show "works (merge_file_genesis reliable sd (gate_of sd live)) (\<lambda>_. True) db
      (t_put genesis_table (extended genesis_table (kept_genesis sd live) db) db)"
    unfolding merge_file_genesis_def
    by (rule works_staged_rows, unfold kept_genesis_def [symmetric], rule works_sbind [OF works_get16s [OF gw]], assumption, rule genesis.merge_rows_works [OF g])
  show "works (merge_file_versions reliable sd (gate_of sd live)) (\<lambda>_. True) db
      (t_put versions_table (extended versions_table (kept_versions sd live) db) db)"
    unfolding merge_file_versions_def
    by (rule works_staged_rows, unfold kept_versions_def [symmetric], rule works_sbind [OF works_get16s [OF vw]], assumption, rule versions.merge_rows_works [OF v])
qed

lemma works_contents:
  assumes "tables_ok (sd_tables sd)"
    and "\<And>i v. survives (gate_of sd live) i \<Longrightarrow> staged_finalized sd i v \<Longrightarrow> has_version db i v"
  shows "works (merge_file_streams reliable sd (gate_of sd live)) (\<lambda>_. True) db
      (t_put streams_table (extended streams_table (kept_streams sd live) db) db)"
    "works (merge_file_key_wraps reliable sd (gate_of sd live) live) (\<lambda>_. True) db
      (t_put wraps_table (extended wraps_table (kept_wraps sd live) db) db)"
proof -
  have ok: "table_ok streams_table (sd_tables sd)" "table_ok wraps_table (sd_tables sd)" "table_ok versions_table (sd_tables sd)"
    "table_ok files_table (sd_tables sd)" using assms(1) by (simp_all add: tables_ok_def)
  have vwidth: "length i = 16" if "has_version (sd_tables sd) i v" for i v
    using has_version_file [OF ok(3) that] ok(4) by (auto simp: table_ok_def files_table_def)
  have sw: "length i = 16" if "i \<in> set (map str_file_id (filter (\<lambda>r. staged_finalized sd (str_file_id r) (str_version r)) (tb_streams (sd_tables sd))))" for i
    using that ok(1) vwidth by (auto simp: table_ok_def streams_table_def)
  have ww: "length i = 16" if "i \<in> set (map wrp_file_id (filter (\<lambda>r. staged_finalized sd (wrp_file_id r) (wrp_version r)) (tb_wraps (sd_tables sd))))" for i
    using that ok(2) vwidth by (auto simp: table_ok_def wraps_table_def)
  have rw: "length i = 16" if "i \<in> set (map (wi_recipient_id \<circ> wrp_wrap) (filter (survives (gate_of sd live) \<circ> wrp_file_id)
      (filter (\<lambda>r. staged_finalized sd (wrp_file_id r) (wrp_version r)) (tb_wraps (sd_tables sd)))))" for i
    using that ok(2) by (auto simp: table_ok_def wraps_table_def Let_def)
  have s: "t_check streams_table r" "t_refs streams_table db r" if "r \<in> set (kept_streams sd live)" for r
    using rows_of [OF ok(1), of r] that assms(2) [of "str_file_id r" "str_version r"]
    by (auto simp: kept_simps streams_table_def survives_def)
  have w: "t_check wraps_table r" "t_refs wraps_table db r" if "r \<in> set (kept_wraps sd live)" for r
    using rows_of [OF ok(2), of r] that assms(2) [of "wrp_file_id r" "wrp_version r"]
    by (auto simp: kept_simps wraps_table_def survives_def)
  show "works (merge_file_streams reliable sd (gate_of sd live)) (\<lambda>_. True) db
      (t_put streams_table (extended streams_table (kept_streams sd live) db) db)"
    unfolding merge_file_streams_def
    by (rule works_staged_rows, unfold kept_streams_def [symmetric], rule works_sbind [OF works_get16s [OF sw]], assumption, rule streams.merge_rows_works [OF s])
  show "works (merge_file_key_wraps reliable sd (gate_of sd live) live) (\<lambda>_. True) db
      (t_put wraps_table (extended wraps_table (kept_wraps sd live) db) db)"
    unfolding merge_file_key_wraps_def
    by (rule works_staged_rows, unfold kept_wraps_def [symmetric], rule works_sbind [OF works_get16s [OF ww]], assumption,
        rule works_sbind [OF works_get16s [OF rw]], assumption, rule works_sbind [OF works_on_snd],
        rule wraps.merge_rows_works [OF w])
qed

lemma merged_chain:
  "t_put revocations_table (extended revocations_table (kept_revocations sd) d13) d13 = merged sd db"
  if "d1 = t_put users_table (extended users_table (tb_users (sd_tables sd)) db) db"
    "d2 = t_put bindings_table (extended bindings_table (tb_bindings (sd_tables sd)) d1) d1"
    "d3 = t_put reg_keys_table (extended reg_keys_table (tb_reg_keys (sd_tables sd)) d2) d2"
    "d4 = t_put first_admin_table (extended first_admin_table (tb_first_admin (sd_tables sd)) d3) d3"
    "d5 = t_put recovery_table (extended recovery_table (tb_recovery (sd_tables sd)) d4) d4"
    "d6 = t_put sessions_table (extended sessions_table (tb_sessions (sd_tables sd)) d5) d5"
    "d7 = t_put nonces_table (extended nonces_table (tb_nonces (sd_tables sd)) d6) d6"
    "d8 = t_put files_table (extended files_table (kept_files sd (live_facts_of db)) d7) d7"
    "d9 = t_put genesis_table (extended genesis_table (kept_genesis sd (live_facts_of db)) d8) d8"
    "d10 = t_put versions_table (extended versions_table (kept_versions sd (live_facts_of db)) d9) d9"
    "d11 = t_put streams_table (extended streams_table (kept_streams sd (live_facts_of db)) d10) d10"
    "d12 = t_put wraps_table (extended wraps_table (kept_wraps sd (live_facts_of db)) d11) d11"
    "d13 = t_put tombstones_table (extended tombstones_table (kept_tombstones sd) d12) d12"
  using that by (simp add: extended_def table_simps merged_def Let_def)

lemma merge_body_works:
  assumes "tables_ok db" "tables_ok (sd_tables sd)" "accounts_merge sd db" "others \<le> 0"
  shows "works (merge_body reliable sd others) (\<lambda>_. True) db (merged sd db)"
proof -
  define live where "live = live_facts_of db"
  define d1 where "d1 = t_put users_table (extended users_table (tb_users (sd_tables sd)) db) db"
  define d2 where "d2 = t_put bindings_table (extended bindings_table (tb_bindings (sd_tables sd)) d1) d1"
  define d3 where "d3 = t_put reg_keys_table (extended reg_keys_table (tb_reg_keys (sd_tables sd)) d2) d2"
  define d4 where "d4 = t_put first_admin_table (extended first_admin_table (tb_first_admin (sd_tables sd)) d3) d3"
  define d5 where "d5 = t_put recovery_table (extended recovery_table (tb_recovery (sd_tables sd)) d4) d4"
  define d6 where "d6 = t_put sessions_table (extended sessions_table (tb_sessions (sd_tables sd)) d5) d5"
  define d7 where "d7 = t_put nonces_table (extended nonces_table (tb_nonces (sd_tables sd)) d6) d6"
  define d8 where "d8 = t_put files_table (extended files_table (kept_files sd live) d7) d7"
  define d9 where "d9 = t_put genesis_table (extended genesis_table (kept_genesis sd live) d8) d8"
  define d10 where "d10 = t_put versions_table (extended versions_table (kept_versions sd live) d9) d9"
  define d11 where "d11 = t_put streams_table (extended streams_table (kept_streams sd live) d10) d10"
  define d12 where "d12 = t_put wraps_table (extended wraps_table (kept_wraps sd live) d11) d11"
  define d13 where "d13 = t_put tombstones_table (extended tombstones_table (kept_tombstones sd) d12) d12"
  note chain = merged_chain [OF d1_def d2_def d3_def d4_def d5_def d6_def d7_def d8_def [unfolded live_def]
      d9_def [unfolded live_def] d10_def [unfolded live_def] d11_def [unfolded live_def] d12_def [unfolded live_def] d13_def]
  have users: "table_ok users_table (sd_tables sd)" "table_ok files_table (sd_tables sd)" using assms(2) by (simp_all add: tables_ok_def)
  have accounts: "set (map usr_id (tb_users (sd_tables sd))) \<subseteq> set (map usr_id (tb_users d1))"
    using staged_account_present [OF assms(3,2)] by (auto simp: d1_def table_simps)
  have owners: "set (map usr_id (tb_users (sd_tables sd))) \<subseteq> set (map usr_id (tb_users d7))"
    using accounts by (simp add: d7_def d6_def d5_def d4_def d3_def d2_def table_simps)
  have files: "i \<in> set (map fil_id (tb_files d8))" if "survives (gate_of sd live) i" for i
  proof -
    have "tb_files d8 = tb_files (merged sd db)"
      by (simp add: d8_def d7_def d6_def d5_def d4_def d3_def d2_def d1_def table_simps merged_get extended_def live_def)
    then show ?thesis using survivor_current [OF users(2), of db i] that by (auto simp: survives_def live_def)
  qed
  have versions: "has_version d10 i v" if "survives (gate_of sd live) i" "staged_finalized sd i v" for i v
  proof -
    from that(2) obtain r where r: "r \<in> set (tb_versions (sd_tables sd))" "ver_file_id r = i" "ver_version r = v" "ver_finalized r"
      by (auto simp: staged_finalized_def list_ex_iff)
    with that(1) have "r \<in> set (kept_versions sd live)" by (simp add: kept_simps)
    from versions.extend_present [OF this, of d9] r show ?thesis
      by (auto simp: has_version_def list_ex_iff d10_def table_simps versions_table_def)
  qed
  note gated = works_never_gated [OF assms(2)]
  have fam: "\<And>i. survives (gate_of sd live) i \<Longrightarrow> i \<in> set (map fil_id (tb_files d9))"
    using files by (simp add: d9_def table_simps)
  have vers: "has_version d11 i v" if "survives (gate_of sd live) i" "staged_finalized sd i v" for i v
    using versions [OF that] by (simp add: d11_def table_simps has_version_def)
  have idle: "\<not> 0 < others" using assms(4) by simp
  have refused: "works (unmerged_users reliable x) (\<lambda>y. y = Map.empty) d1 d1"
    if "set (map fst x) \<subseteq> set (map usr_id (tb_users (sd_tables sd)))" for x
    by (rule works_unmerged_users) (use that accounts in blast)
  show ?thesis
    unfolding merge_body_def chain [symmetric] live_def [symmetric]
    by (rule works_sbind [OF works_m_read], rule works_sbind [OF works_m_read], hypsubst, unfold if_not_P [OF idle],
        rule works_sbind [OF works_read_live_facts [OF assms(1), folded live_def]], hypsubst,
        rule works_sbind [OF works_merge_users [OF users(1), of db, folded d1_def]],
        rule works_sbind [OF refused], assumption, hypsubst,
        rule works_sbind [OF gated(1) [of d1, folded d2_def]], rule works_sbind [OF gated(2) [of d2, folded d3_def]],
        rule works_sbind [OF gated(3) [of d3, folded d4_def]], rule works_sbind [OF gated(4) [of d4, folded d5_def]],
        rule works_sbind [OF gated(5) [of d5, folded d6_def]], rule works_sbind [OF gated(6) [of d6, folded d7_def]],
        rule works_sbind [OF works_merge_files [OF assms(2) owners, of live, folded d8_def]], hypsubst,
        rule works_sbind [OF works_on_snd],
        rule works_sbind [OF works_file_family(1) [of sd live d8, OF assms(2), folded d9_def]], erule files,
        rule works_sbind [OF works_file_family(2) [of sd live d9, OF assms(2), folded d10_def]], erule fam,
        rule works_sbind [OF works_contents(1) [of sd live d10, OF assms(2), folded d11_def]], erule versions, assumption,
        rule works_sbind [OF works_contents(2) [of sd live d11, OF assms(2), folded d12_def]], erule vers, assumption,
        rule works_sbind [OF gated(7) [of d12, folded d13_def]], rule gated(8))
qed

lemma merge_run_works:
  assumes "tables_ok db" "tables_ok (sd_tables sd)" "accounts_merge sd db" "others \<le> 0"
  shows "\<exists>preview m. merge_run reliable sd others True (db, n) = (Inr preview, (merged sd db, m))"
proof -
  from merge_body_works [OF assms] obtain k p where
    "merge_body reliable sd others ((db, n + 1), merge_preview_default) = (Inr (), ((merged sd db, k), p))"
    by (fastforce simp: works_def)
  then show ?thesis by (simp add: merge_run_def reliable_def)
qed

end
