(* ===== verification/PgStore.thy ===== *)
theory PgStore
  imports PgTables ServerRecords
begin

text \<open>
  \<^verbatim>\<open>crates/server/src/pg.rs\<close>: the file half of \<open>PgStore\<close>, the production implementation of the \<open>Store\<close> trait, statement by
  statement over the tables of \<open>PgTables\<close>. An operation takes the database clock as \<open>now\<close> and a connection, whose calls may
  fail one by one. Transactions run one at a time; the row locks they take (\<open>FOR UPDATE\<close>) are how Postgres makes it so.
\<close>

section \<open>Timestamps\<close>

definition TS_MIN :: int where "TS_MIN = -377705116800000000000"
definition TS_MAX :: int where "TS_MAX = 253402300799999999999"

text \<open>\<open>from_unix_timestamp_nanos\<close> fails out of range: \<open>ms_to_ts\<close> then panics, \<open>try_ms_to_ts\<close> returns an error.\<close>

definition ms_to_ts :: "u64 \<Rightarrow> int option" where
  "ms_to_ts ms = (let t = uint ms * 1000000 in if TS_MIN \<le> t \<and> t \<le> TS_MAX then Some t else None)"

definition try_ms_to_ts :: "u64 \<Rightarrow> string \<Rightarrow> store_error + int" where
  "try_ms_to_ts ms op = ok_or (ms_to_ts ms) \<lparr>se_context = op, se_detail = ''timestamp out of representable range''\<rparr>"

definition ts_to_ms :: "int \<Rightarrow> u64" where
  "ts_to_ms ts = word_of_int (if 0 \<le> ts then ts div 1000000 else - ((- ts) div 1000000))"

datatype 'e stop = Failed 'e | Panicked

section \<open>Rows of a file\<close>

definition file_of :: "bytes \<Rightarrow> tables \<Rightarrow> file_row option" where
  "file_of i db = find (\<lambda>r. fil_id r = i) (tb_files db)"

definition version_of :: "bytes \<Rightarrow> u64 \<Rightarrow> tables \<Rightarrow> version_row option" where
  "version_of i v db = find (\<lambda>r. ver_file_id r = i \<and> ver_version r = v) (tb_versions db)"

definition genesis_of :: "bytes \<Rightarrow> tables \<Rightarrow> genesis_db_row option" where
  "genesis_of i db = find (\<lambda>r. gen_file_id r = i) (tb_genesis db)"

definition streams_of :: "bytes \<Rightarrow> u64 \<Rightarrow> tables \<Rightarrow> stream_row list" where
  "streams_of i v db = map str_stream (filter (\<lambda>r. str_file_id r = i \<and> str_version r = v) (tb_streams db))"

definition wraps_of :: "bytes \<Rightarrow> u64 \<Rightarrow> tables \<Rightarrow> wrap_input list" where
  "wraps_of i v db = map wrp_wrap (filter (\<lambda>r. wrp_file_id r = i \<and> wrp_version r = v) (tb_wraps db))"

text \<open>A \<open>SMALLINT\<close> sorts signed.\<close>

definition stream_key :: "stream_row \<Rightarrow> int" where
  "stream_key r = sint (sr_stream_type r)"

definition read_wrap :: "string \<Rightarrow> wrap_input \<Rightarrow> store_error + wrap_input" where
  "read_wrap op w =
     rbind (col_fixed 16 op ''recipient_id'' (wi_recipient_id w)) (\<lambda>recipient_id.
     rbind (col_fixed 16 op ''granted_by'' (wi_granted_by w)) (\<lambda>granted_by.
     rbind (col_fixed 64 op ''grant_sig'' (wi_grant_sig w)) (\<lambda>grant_sig.
     Inr \<lparr>wi_recipient_id = recipient_id, wi_recipient_type = wi_recipient_type w, wi_wrapped_dek = wi_wrapped_dek w,
       wi_wrap_alg = 1, wi_granted_by = granted_by, wi_grant_bytes = wi_grant_bytes w, wi_grant_sig = grant_sig\<rparr>)))"

fun rmap :: "('a \<Rightarrow> 'e + 'b) \<Rightarrow> 'a list \<Rightarrow> 'e + 'b list" where
  "rmap f [] = Inr []"
| "rmap f (x # xs) = rbind (f x) (\<lambda>y. rbind (rmap f xs) (\<lambda>ys. Inr (y # ys)))"

definition opt_fixed :: "nat \<Rightarrow> string \<Rightarrow> string \<Rightarrow> bytes option \<Rightarrow> store_error + bytes option" where
  "opt_fixed n op col v = (case v of None \<Rightarrow> Inr None | Some x \<Rightarrow> rbind (col_fixed n op col x) (\<lambda>y. Inr (Some y)))"

section \<open>Staging and finalizing\<close>

definition new_file_row :: "int \<Rightarrow> parsed_stage \<Rightarrow> genesis_row \<Rightarrow> file_row" where
  "new_file_row now p g = \<lparr>fil_id = ps_file_id p, fil_owner_id = gw_owner_id g, fil_type = ps_file_type p,
     fil_current_version = 0, fil_listed = ps_listed p, fil_bundle_id = ps_bundle_id p, fil_created_at = now,
     fil_updated_at = now\<rparr>"

definition new_genesis_row :: "int \<Rightarrow> parsed_stage \<Rightarrow> genesis_row \<Rightarrow> genesis_db_row" where
  "new_genesis_row now p g = \<lparr>gen_file_id = ps_file_id p, gen_owner_id = gw_owner_id g,
     gen_owner_key_version = gw_owner_key_version g, gen_bytes = gw_genesis_bytes g, gen_sig = gw_genesis_sig g,
     gen_created_at = now\<rparr>"

definition new_version_row :: "int \<Rightarrow> parsed_stage \<Rightarrow> version_row" where
  "new_version_row now p = \<lparr>ver_file_id = ps_file_id p, ver_version = ps_version p,
     ver_manifest_bytes = ps_manifest_bytes p, ver_manifest_sig = ps_manifest_sig p, ver_author_id = ps_author_id p,
     ver_alg = ps_alg p, ver_finalized = False, ver_created_at = now\<rparr>"

definition new_stream_row :: "parsed_stage \<Rightarrow> stream_row \<Rightarrow> stream_db_row" where
  "new_stream_row p s = \<lparr>str_file_id = ps_file_id p, str_version = ps_version p, str_stream = s\<rparr>"

definition new_wrap_row :: "int \<Rightarrow> bytes \<Rightarrow> u64 \<Rightarrow> wrap_input \<Rightarrow> wrap_row" where
  "new_wrap_row now i v w = \<lparr>wrp_file_id = i, wrp_version = v, wrp_wrap = w, wrp_created_at = now\<rparr>"

text \<open>The two branches on the genesis: creating the file, or rotating one the author owns.\<close>

definition stage_file :: "pg_env \<Rightarrow> int \<Rightarrow> parsed_stage \<Rightarrow> bytes option \<Rightarrow> pg \<Rightarrow> (stage_error + unit) \<times> pg" where
  "stage_file E now p existing_owner =
     (let err = StStore \<circ> store_err E ''stage_version'' in case ps_genesis p of
        Some g \<Rightarrow>
          if existing_owner \<noteq> None \<and> existing_owner \<noteq> Some (gw_owner_id g) then check (Inl StNotOwner)
          else
            sbind (statement E err (sql_insert_missing files_table [new_file_row now p g])) (\<lambda>_.
            sbind (statement E err (sql_insert_missing genesis_table [new_genesis_row now p g])) (\<lambda>_. sret ()))
      | None \<Rightarrow> (case existing_owner of
            None \<Rightarrow> check (Inl NoSuchFile)
          | Some own \<Rightarrow> if own \<noteq> ps_author_id p then check (Inl StNotOwner) else sret ()))"

definition pg_stage_version :: "pg_env \<Rightarrow> int \<Rightarrow> parsed_stage \<Rightarrow> pg \<Rightarrow> (stage_error + u64) \<times> pg" where
  "pg_stage_version E now p =
     (let op = ''stage_version''; err = StStore \<circ> store_err E op; i = ps_file_id p; v = ps_version p in
      transaction E err (
        sbind (query E err (map_option fil_owner_id \<circ> file_of i)) (\<lambda>owner_row.
        sbind (check (map_err StStore (opt_fixed 16 op ''owner_id'' owner_row))) (\<lambda>existing_owner.
        sbind (query E err (map_option ver_finalized \<circ> version_of i v)) (\<lambda>finalized.
        if finalized = Some True then check (Inl StAlreadyFinalized)
        else
          sbind (stage_file E now p existing_owner) (\<lambda>_.
          sbind (statement E err (delete_versions False (\<lambda>r. ver_file_id r = i \<and> ver_version r = v \<and> \<not> ver_finalized r))) (\<lambda>_.
          sbind (statement E err (sql_insert versions_table (new_version_row now p))) (\<lambda>_.
          sbind (sfor (ps_streams p) (\<lambda>s. statement E err (sql_insert streams_table (new_stream_row p s)))) (\<lambda>_.
          sbind (sfor (ps_wraps p) (\<lambda>w. statement E err (sql_insert wraps_table (new_wrap_row now i v w)))) (\<lambda>_.
          sret v))))))))))"

definition pg_finalize_version :: "pg_env \<Rightarrow> int \<Rightarrow> bytes \<Rightarrow> u64 \<Rightarrow> bytes \<Rightarrow> pg \<Rightarrow> (finalize_error + unit) \<times> pg" where
  "pg_finalize_version E now i v caller_id =
     (let op = ''finalize_version''; err = FzStore \<circ> store_err E op in
      transaction E err (
        sbind (query E err (file_of i)) (\<lambda>frow. case frow of
          None \<Rightarrow> check (Inl NoSuchVersion)
        | Some frow \<Rightarrow>
          sbind (check (map_err FzStore (col_fixed 16 op ''owner_id'' (fil_owner_id frow)))) (\<lambda>own.
          if own \<noteq> caller_id then check (Inl FzNotOwner)
          else let current = fil_current_version frow in
          sbind (query E err (map_option ver_finalized \<circ> version_of i v)) (\<lambda>finalized. case finalized of
            None \<Rightarrow> check (Inl NoSuchVersion)
          | Some True \<Rightarrow> check (Inl FzAlreadyFinalized)
          | Some False \<Rightarrow>
            let expected = current + 1 in
            if v \<noteq> expected then check (Inl (VersionConflict expected v))
            else
              sbind (statement E err (sql_update versions_table (\<lambda>r. ver_file_id r = i \<and> ver_version r = v)
                (\<lambda>r. r\<lparr>ver_finalized := True\<rparr>))) (\<lambda>_.
              sbind (statement E err (sql_update files_table (\<lambda>r. fil_id r = i)
                (\<lambda>r. r\<lparr>fil_current_version := v, fil_updated_at := now\<rparr>))) (\<lambda>_.
              if at_least 1 current then
                sbind (statement E err (sql_delete streams_table (\<lambda>r. str_file_id r = i \<and> str_version r = current))) (\<lambda>_.
                sbind (statement E err (sql_delete wraps_table (\<lambda>r. wrp_file_id r = i \<and> wrp_version r = current))) (\<lambda>_.
                sret ()))
              else sret ())))))))"

section \<open>Reading\<close>

definition pg_get_file :: "pg_env \<Rightarrow> bytes \<Rightarrow> version_selector \<Rightarrow> bytes \<Rightarrow> pg \<Rightarrow> (store_error + file_view option) \<times> pg" where
  "pg_get_file E i selector caller_id =
     (let op = ''get_file''; err = store_err E op in
      sbind (case selector of SpecificVersion v \<Rightarrow> sret (Some v)
        | Latest \<Rightarrow> query E err (map_option fil_current_version \<circ> file_of i)) (\<lambda>version. case version of
        None \<Rightarrow> sret None
      | Some version \<Rightarrow>
        if version = 0 then sret None
        else sbind (query E err (\<lambda>db. Option.bind (version_of i version db) (\<lambda>r. if ver_finalized r then Some r else None))) (\<lambda>vrow. case vrow of
          None \<Rightarrow> sret None
        | Some vrow \<Rightarrow>
          sbind (query E err (wraps_of i version)) (\<lambda>wrows.
          sbind (check (rmap (read_wrap op) wrows)) (\<lambda>wraps. case find_wrap caller_id wraps of
            None \<Rightarrow> sret None
          | Some my \<Rightarrow>
            let recovery_grant = map_option (\<lambda>w. (wi_grant_bytes w, wi_grant_sig w)) (find (\<lambda>w. wi_recipient_type w = 2) wraps) in
            sbind (query E err (map_option fil_owner_id \<circ> file_of i)) (\<lambda>orow. case orow of
              None \<Rightarrow> sret None
            | Some orow \<Rightarrow>
              sbind (check (col_fixed 16 op ''owner_id'' orow)) (\<lambda>owner_id.
              sbind (query E err (genesis_of i)) (\<lambda>grow. case grow of
                None \<Rightarrow> sret None
              | Some grow \<Rightarrow>
                sbind (query E err (sort_key stream_key \<circ> streams_of i version)) (\<lambda>srows.
                sbind (check (col_fixed 64 op ''manifest_sig'' (ver_manifest_sig vrow))) (\<lambda>manifest_sig.
                sbind (check (col_fixed 64 op ''genesis_sig'' (gen_sig grow))) (\<lambda>genesis_sig.
                sret (Some \<lparr>fv_version = version, fv_manifest_bytes = ver_manifest_bytes vrow,
                  fv_manifest_sig = manifest_sig, fv_genesis_bytes = gen_bytes grow, fv_genesis_sig = genesis_sig,
                  fv_my_wrap = \<lparr>wv_wrapped_dek = wi_wrapped_dek my, wv_grant_bytes = wi_grant_bytes my,
                    wv_grant_sig = wi_grant_sig my, wv_ancestor_grants = ancestor_chain wraps my owner_id\<rparr>,
                  fv_recovery_grant = recovery_grant, fv_streams = map stream_view_of srows\<rparr>))))))))))))"

text \<open>The predicate the count and the page share.\<close>

definition pg_listed :: "list_filter \<Rightarrow> tables \<Rightarrow> file_row \<Rightarrow> bool" where
  "pg_listed filt db r \<longleftrightarrow> at_least 1 (fil_current_version r) \<and> fil_listed r \<and>
     (case lf_file_type filt of None \<Rightarrow> True | Some t \<Rightarrow> fil_type r = t) \<and>
     (\<not> lf_owner_only filt \<or> fil_owner_id r = lf_caller_id filt) \<and>
     list_ex (\<lambda>w. wi_recipient_id w = lf_caller_id filt) (wraps_of (fil_id r) (fil_current_version r) db)"

text \<open>\<open>bytea\<close> compares bytewise, as the order on byte lists does.\<close>

fun page_le :: "list_sort \<Rightarrow> file_row \<Rightarrow> file_row \<Rightarrow> bool" where
  "page_le Newest a b \<longleftrightarrow> fil_updated_at b < fil_updated_at a \<or> fil_updated_at a = fil_updated_at b \<and> fil_id a \<le> fil_id b"
| "page_le Oldest a b \<longleftrightarrow> fil_updated_at a < fil_updated_at b \<or> fil_updated_at a = fil_updated_at b \<and> fil_id a \<le> fil_id b"

text \<open>\<open>limit\<close> and \<open>offset\<close> as \<open>i64\<close>: a negative one is an error of the statement.\<close>

definition list_page :: "list_filter \<Rightarrow> tables \<Rightarrow> sql_error + file_row list \<times> tables" where
  "list_page filt db =
     (let offset = sint (lf_offset filt); limit = sint (word_of_nat (lf_limit filt) :: u64) in
      if limit < 0 \<or> offset < 0 then Inl InvalidArgument
      else Inr (take (nat limit) (drop (nat offset) (sort_by (page_le (lf_sort filt)) (filter (pg_listed filt db) (tb_files db)))), db))"

fun list_entries :: "pg_env \<Rightarrow> file_row list \<Rightarrow> pg \<Rightarrow> (store_error + file_list_entry list) \<times> pg" where
  "list_entries E [] = sret []"
| "list_entries E (r # rs) =
     sbind (check (col_fixed 16 ''list_files'' ''file_id'' (fil_id r))) (\<lambda>file_id.
     sbind (query E (store_err E ''list_files'') (\<lambda>db. sort_key stream_key
       (filter (\<lambda>s. sr_stream_type s \<noteq> 1) (streams_of file_id (fil_current_version r) db)))) (\<lambda>srows.
     sbind (list_entries E rs) (\<lambda>entries.
     sret (\<lparr>fl_file_id = file_id, fl_file_type = fil_type r, fl_version = fil_current_version r,
       fl_updated_at_ms = ts_to_ms (fil_updated_at r),
       fl_small_streams = map (\<lambda>s. (sr_stream_type s, sr_total_bytes s)) srows\<rparr> # entries))))"

definition pg_list_files :: "pg_env \<Rightarrow> list_filter \<Rightarrow> pg \<Rightarrow> (store_error + file_list_page) \<times> pg" where
  "pg_list_files E filt =
     (let err = store_err E ''list_files'' in
      transaction E err (
        sbind (statement E err (\<lambda>db. Inr ((), db))) (\<lambda>_.
        sbind (query E err (\<lambda>db. length (filter (pg_listed filt db) (tb_files db)))) (\<lambda>total_rows.
        sbind (statement E err (list_page filt)) (\<lambda>rows.
        sbind (list_entries E rows) (\<lambda>entries.
        sret \<lparr>fp_entries = entries, fp_total = word_of_nat total_rows\<rparr>))))))"

definition pg_version_meta :: "pg_env \<Rightarrow> bytes \<Rightarrow> u64 \<Rightarrow> pg \<Rightarrow> (store_error + version_meta_view option) \<times> pg" where
  "pg_version_meta E i v =
     (let op = ''version_meta''; err = store_err E op in
      sbind (query E err (\<lambda>db. case (version_of i v db, file_of i db) of
          (Some r, Some f) \<Rightarrow> Some (fil_owner_id f, ver_finalized r) | _ \<Rightarrow> None)) (\<lambda>frow. case frow of
        None \<Rightarrow> sret None
      | Some (own, finalized) \<Rightarrow>
        sbind (query E err (sort_key stream_key \<circ> streams_of i v)) (\<lambda>srows.
        sbind (check (col_fixed 16 op ''owner_id'' own)) (\<lambda>owner_id.
        sret (Some \<lparr>vm_owner_id = owner_id, vm_finalized = finalized, vm_streams = map (\<lambda>r.
          \<lparr>cs_stream_type = sr_stream_type r, cs_blob_ref = sr_blob_ref r, cs_chunk_count = sr_chunk_count r,
            cs_chunk_size = sr_chunk_size r\<rparr>) srows\<rparr>)))))"

definition pg_get_file_meta :: "pg_env \<Rightarrow> bytes \<Rightarrow> pg \<Rightarrow> (store_error + file_meta option) \<times> pg" where
  "pg_get_file_meta E i =
     (let op = ''get_file_meta'' in
      sbind (query E (store_err E op) (file_of i)) (\<lambda>row. case row of
        None \<Rightarrow> sret None
      | Some row \<Rightarrow>
        sbind (check (opt_fixed 16 op ''bundle_id'' (fil_bundle_id row))) (\<lambda>bundle_id.
        sbind (check (col_fixed 16 op ''owner_id'' (fil_owner_id row))) (\<lambda>owner_id.
        sret (Some \<lparr>fm_owner_id = owner_id, fm_file_type = fil_type row, fm_listed = fil_listed row,
          fm_bundle_id = bundle_id\<rparr>)))))"

section \<open>Sharing\<close>

text \<open>\<open>INSERT \<dots> ON CONFLICT (file_id, file_version, recipient_id) DO UPDATE\<close>: a replaced row keeps its place and its
  \<open>created_at\<close>.\<close>

definition upsert_wrap :: "wrap_row \<Rightarrow> tables \<Rightarrow> sql_error + unit \<times> tables" where
  "upsert_wrap r db =
     (if \<not> t_check wraps_table r then Inl CheckViolation
      else if list_ex (t_clash wraps_table r) (tb_wraps db) then
        Inr ((), db\<lparr>tb_wraps := map (\<lambda>s. if t_clash wraps_table r s then s\<lparr>wrp_wrap := wrp_wrap r\<rparr> else s) (tb_wraps db)\<rparr>)
      else sql_insert wraps_table r db)"

text \<open>\<open>add_wrap\<close> runs its statements one by one, each its own transaction.\<close>

definition pg_add_wrap :: "pg_env \<Rightarrow> int \<Rightarrow> bytes \<Rightarrow> wrap_input \<Rightarrow> bytes \<Rightarrow> u64 \<Rightarrow> pg \<Rightarrow> (add_wrap_error stop + unit) \<times> pg" where
  "pg_add_wrap E now i w caller_id now_ms =
     (let op = ''add_wrap''; err = (\<lambda>e. Failed (AwStore (store_err E op e))) in
      if wi_granted_by w \<noteq> caller_id \<or> wi_recipient_type w \<noteq> 1 \<or> wi_recipient_id w = id_raw RECOVERY_ID
      then check (Inl (Failed BadRequest))
      else
        sbind (query E err (map_option fil_current_version \<circ> file_of i)) (\<lambda>frow. case frow of
          None \<Rightarrow> check (Inl (Failed NoAccess))
        | Some version \<Rightarrow>
          if version = 0 then check (Inl (Failed NoAccess))
          else
            sbind (query E err (\<lambda>db. find_wrap caller_id (wraps_of i version db))) (\<lambda>holds.
            if holds = None then check (Inl (Failed NoAccess))
            else
              sbind (statement E err (upsert_wrap (new_wrap_row now i version w))) (\<lambda>_.
              sbind (check (ok_or (ms_to_ts now_ms) Panicked)) (\<lambda>t.
              sbind (statement E err (sql_update files_table (\<lambda>r. fil_id r = i) (\<lambda>r. r\<lparr>fil_updated_at := t\<rparr>))) (\<lambda>_.
              sret ()))))))"

definition pg_delete_wrap :: "pg_env \<Rightarrow> int \<Rightarrow> bytes \<Rightarrow> bytes \<Rightarrow> bytes \<Rightarrow> pg \<Rightarrow> (delete_wrap_error + unit) \<times> pg" where
  "pg_delete_wrap E now i recipient_id caller_id =
     (let op = ''delete_wrap''; err = DwStore \<circ> store_err E op in
      if recipient_id = id_raw RECOVERY_ID then check (Inl RecoveryProtected)
      else transaction E err (
        sbind (query E err (file_of i)) (\<lambda>frow. case frow of
          None \<Rightarrow> check (Inl DwNotFound)
        | Some frow \<Rightarrow>
          sbind (check (map_err DwStore (col_fixed 16 op ''owner_id'' (fil_owner_id frow)))) (\<lambda>owner_id.
          let version = fil_current_version frow in
          if version = 0 then check (Inl DwNotFound)
          else
            sbind (query E err (\<lambda>db. find_wrap recipient_id (wraps_of i version db))) (\<lambda>wrow. case wrow of
              None \<Rightarrow> check (Inl DwNotFound)
            | Some wrow \<Rightarrow>
              sbind (check (map_err DwStore (col_fixed 16 op ''granted_by'' (wi_granted_by wrow)))) (\<lambda>granted_by.
              if wi_recipient_type wrow = 2 then check (Inl RecoveryProtected)
              else if caller_id \<noteq> owner_id \<and> caller_id \<noteq> granted_by then check (Inl NotAuthorized)
              else
                sbind (statement E err (sql_delete wraps_table (\<lambda>r. wrp_file_id r = i \<and> wrp_version r = version \<and>
                  wi_recipient_id (wrp_wrap r) = recipient_id))) (\<lambda>_.
                sbind (statement E err (sql_insert_missing revocations_table [\<lparr>rvk_file_id = i, rvk_version = version,
                  rvk_recipient_id = recipient_id, rvk_revoked_at = now\<rparr>])) (\<lambda>_.
                sret ()))))))))"

definition pg_list_recipients :: "pg_env \<Rightarrow> bytes \<Rightarrow> bytes \<Rightarrow> pg \<Rightarrow> (store_error + recipient_view list option) \<times> pg" where
  "pg_list_recipients E i caller_id =
     (let op = ''list_recipients''; err = store_err E op in
      sbind (query E err (file_of i)) (\<lambda>frow. case frow of
        None \<Rightarrow> sret None
      | Some frow \<Rightarrow>
        sbind (check (col_fixed 16 op ''owner_id'' (fil_owner_id frow))) (\<lambda>owner_id.
        if owner_id \<noteq> caller_id then sret None
        else let version = fil_current_version frow in
          if version = 0 then sret None
          else
            sbind (query E err (wraps_of i version)) (\<lambda>wrows.
            sbind (check (rmap (read_wrap op) wrows)) (\<lambda>wraps.
            sret (Some (map (\<lambda>w. \<lparr>rc_recipient_id = wi_recipient_id w, rc_granted_by = wi_granted_by w,
                rc_grant_bytes = wi_grant_bytes w, rc_grant_sig = wi_grant_sig w,
                rc_ancestor_grants = ancestor_chain wraps w owner_id\<rparr>)
              (filter (\<lambda>w. wi_recipient_type w = 1) wraps))))))))"

section \<open>Removing\<close>

definition staged_blob_refs :: "bytes \<Rightarrow> tables \<Rightarrow> string list" where
  "staged_blob_refs i db = map (sr_blob_ref \<circ> str_stream) (filter (\<lambda>r. str_file_id r = i \<and>
     (case version_of i (str_version r) db of None \<Rightarrow> False | Some v \<Rightarrow> \<not> ver_finalized v)) (tb_streams db))"

definition pg_discard_unfinalized :: "pg_env \<Rightarrow> bytes \<Rightarrow> bytes \<Rightarrow> pg \<Rightarrow> (discard_error + string list) \<times> pg" where
  "pg_discard_unfinalized E i caller_id =
     (let op = ''discard_unfinalized''; err = DcStore \<circ> store_err E op in
      sbind (query E err (file_of i)) (\<lambda>frow. case frow of
        None \<Rightarrow> sret []
      | Some frow \<Rightarrow>
        sbind (check (map_err DcStore (col_fixed 16 op ''owner_id'' (fil_owner_id frow)))) (\<lambda>owner_id.
        if owner_id \<noteq> caller_id then check (Inl DcNotFound)
        else if at_least 1 (fil_current_version frow) then check (Inl HasFinalizedVersion)
        else
          sbind (query E err (staged_blob_refs i)) (\<lambda>blob_refs.
          sbind (statement E err (delete_versions False (\<lambda>r. ver_file_id r = i \<and> \<not> ver_finalized r))) (\<lambda>_.
          sret blob_refs)))))"

definition pg_delete_file :: "pg_env \<Rightarrow> int \<Rightarrow> bytes \<Rightarrow> bytes \<Rightarrow> pg \<Rightarrow> (delete_error + string list) \<times> pg" where
  "pg_delete_file E now i owner_id =
     (let op = ''delete_file''; err = DlStore \<circ> store_err E op in
      transaction E err (
        sbind (statement E err (\<lambda>db. Inr ((), db))) (\<lambda>_.
        sbind (query E err (file_of i)) (\<lambda>frow. case frow of
          None \<Rightarrow> check (Inl DlNotFound)
        | Some frow \<Rightarrow>
          sbind (check (map_err DlStore (col_fixed 16 op ''owner_id'' (fil_owner_id frow)))) (\<lambda>target_owner.
          if target_owner \<noteq> owner_id then check (Inl DlNotFound)
          else
            sbind (if fil_type frow = BUNDLE_FILE_TYPE
              then query E err (\<lambda>db. map fil_id (filter (\<lambda>r. fil_bundle_id r = Some i \<and> fil_owner_id r = owner_id) (tb_files db)))
              else sret []) (\<lambda>mrows.
            sbind (check (map_err DlStore (rmap (col_fixed 16 op ''file_id'') mrows))) (\<lambda>members.
            let targets = i # members in
            sbind (query E err (\<lambda>db. map (sr_blob_ref \<circ> str_stream) (filter (\<lambda>r. str_file_id r \<in> set targets) (tb_streams db)))) (\<lambda>blob_refs.
            sbind (statement E err (delete_versions True (\<lambda>r. ver_file_id r \<in> set targets))) (\<lambda>_.
            sbind (statement E err (delete_genesis True (\<lambda>r. gen_file_id r \<in> set targets))) (\<lambda>_.
            sbind (statement E err (delete_files (\<lambda>r. fil_id r \<in> set targets))) (\<lambda>_.
            sbind (statement E err (sql_insert_missing tombstones_table (map (\<lambda>t. \<lparr>tmb_file_id = t, tmb_deleted_at = now\<rparr>) targets))) (\<lambda>_.
            sret blob_refs))))))))))))"

end
