(* ===== verification/BackupMerge_Safety.thy ===== *)
theory BackupMerge_Safety
  imports BackupMerge_Spec PgStore
begin

text \<open>
  What merging a backup promises to the files of the live database: nothing deleted, superseded or revoked comes back; a
  file the database lost comes back whole; the merge only adds rows, a dry run changes nothing and reports the same;
  merging again changes nothing. And one thing it does not: a bundle newer than the live database leaves a file that can
  no longer be rotated.
\<close>

section \<open>Nothing comes back that was taken away\<close>

definition file_gone :: "bytes \<Rightarrow> tables \<Rightarrow> bool" where
  "file_gone i db \<longleftrightarrow> i \<notin> set (map fil_id (tb_files db)) \<and> i \<notin> set (map gen_file_id (tb_genesis db)) \<and>
     i \<notin> set (map ver_file_id (tb_versions db)) \<and> i \<notin> set (map str_file_id (tb_streams db)) \<and>
     i \<notin> set (map wrp_file_id (tb_wraps db))"

lemma file_goneI:
  assumes "\<And>r. r \<in> set (tb_files db) \<Longrightarrow> fil_id r \<noteq> i" "\<And>r. r \<in> set (tb_genesis db) \<Longrightarrow> gen_file_id r \<noteq> i"
    "\<And>r. r \<in> set (tb_versions db) \<Longrightarrow> ver_file_id r \<noteq> i" "\<And>r. r \<in> set (tb_streams db) \<Longrightarrow> str_file_id r \<noteq> i"
    "\<And>r. r \<in> set (tb_wraps db) \<Longrightarrow> wrp_file_id r \<noteq> i"
  shows "file_gone i db"
  using assms unfolding file_gone_def set_map image_iff by blast

lemma absent_file_gone:
  assumes "tables_ok db" "i \<notin> set (map fil_id (tb_files db))"
  shows "file_gone i db"
proof -
  have ok: "table_ok genesis_table db" "table_ok versions_table db" "table_ok streams_table db" "table_ok wraps_table db"
    using assms(1) by (simp_all add: tables_ok_def)
  have g: "gen_file_id r \<noteq> i" if "r \<in> set (tb_genesis db)" for r
    using ok(1) that assms(2) by (auto simp: table_ok_def genesis_table_def)
  have v: "ver_file_id r \<noteq> i" if "r \<in> set (tb_versions db)" for r
    using ok(2) that assms(2) by (auto simp: table_ok_def versions_table_def)
  have s: "str_file_id r \<noteq> i" if "r \<in> set (tb_streams db)" for r
    using ok(3) that assms(2) has_version_file [OF ok(2), of i "str_version r"] by (auto simp: table_ok_def streams_table_def)
  have w: "wrp_file_id r \<noteq> i" if "r \<in> set (tb_wraps db)" for r
    using ok(4) that assms(2) has_version_file [OF ok(2), of i "wrp_version r"] by (auto simp: table_ok_def wraps_table_def)
  show ?thesis by (rule file_goneI [OF _ g v s w]) (use assms(2) in auto)
qed

text \<open>The rows of a table after a merge are old or kept.\<close>

lemma merged_rows:
  "f \<in> set (tb_files (merged sd db)) \<Longrightarrow> f \<in> set (tb_files db) \<or> f \<in> set (kept_files sd (live_facts_of db))"
  "g \<in> set (tb_genesis (merged sd db)) \<Longrightarrow> g \<in> set (tb_genesis db) \<or> g \<in> set (kept_genesis sd (live_facts_of db))"
  "v \<in> set (tb_versions (merged sd db)) \<Longrightarrow> v \<in> set (tb_versions db) \<or> v \<in> set (kept_versions sd (live_facts_of db))"
  "s \<in> set (tb_streams (merged sd db)) \<Longrightarrow> s \<in> set (tb_streams db) \<or> s \<in> set (kept_streams sd (live_facts_of db))"
  "w \<in> set (tb_wraps (merged sd db)) \<Longrightarrow> w \<in> set (tb_wraps db) \<or> w \<in> set (kept_wraps sd (live_facts_of db))"
  using extend_subset [of files_table "kept_files sd (live_facts_of db)" db]
    extend_subset [of genesis_table "kept_genesis sd (live_facts_of db)" db]
    extend_subset [of versions_table "kept_versions sd (live_facts_of db)" db]
    extend_subset [of streams_table "kept_streams sd (live_facts_of db)" db]
    extend_subset [of wraps_table "kept_wraps sd (live_facts_of db)" db]
  unfolding merged_get table_simps by blast+

lemma destroyed_stays_gone:
  assumes "tables_ok db" "destroyed (live_facts_of db) i"
  shows "file_gone i (merged sd db)"
proof -
  have old: "file_gone i db" using assms by (simp add: absent_file_gone destroyed_def live_facts_simps)
  have not: "\<not> survives (gate_of sd (live_facts_of db)) i"
    using assms(2) survives_not_destroyed by blast
  then have none: "fg_survivors (gate_of sd (live_facts_of db)) i = None" by (simp add: survives_def)
  have f: "fil_id r \<noteq> i" if "r \<in> set (tb_files (merged sd db))" for r
    using merged_rows(1) [OF that] old not by (auto simp: file_gone_def kept_simps)
  have g: "gen_file_id r \<noteq> i" if "r \<in> set (tb_genesis (merged sd db))" for r
    using merged_rows(2) [OF that] old not by (auto simp: file_gone_def kept_simps)
  have v: "ver_file_id r \<noteq> i" if "r \<in> set (tb_versions (merged sd db))" for r
    using merged_rows(3) [OF that] old not by (auto simp: file_gone_def kept_simps)
  have s: "str_file_id r \<noteq> i" if "r \<in> set (tb_streams (merged sd db))" for r
    using merged_rows(4) [OF that] old none by (auto simp: file_gone_def kept_simps)
  have w: "wrp_file_id r \<noteq> i" if "r \<in> set (tb_wraps (merged sd db))" for r
    using merged_rows(5) [OF that] old none by (auto simp: file_gone_def kept_simps)
  show ?thesis by (rule file_goneI [OF f g v s w])
qed

definition holds_wrap :: "tables \<Rightarrow> bytes \<Rightarrow> u64 \<Rightarrow> bytes \<Rightarrow> bool" where
  "holds_wrap db i v r \<longleftrightarrow> r \<in> set (map wi_recipient_id (wraps_of i v db))"

lemma holds_wrap_iff:
  "holds_wrap db i v r \<longleftrightarrow> (\<exists>w \<in> set (tb_wraps db). wrp_file_id w = i \<and> wrp_version w = v \<and> wi_recipient_id (wrp_wrap w) = r)"
  by (auto simp: holds_wrap_def wraps_of_def)

definition was_revoked :: "tables \<Rightarrow> bytes \<Rightarrow> u64 \<Rightarrow> bytes \<Rightarrow> bool" where
  "was_revoked db i v r \<longleftrightarrow> (\<exists>q \<in> set (tb_revocations db). rvk_file_id q = i \<and> rvk_version q = v \<and> rvk_recipient_id q = r)"

lemma merged_wraps:
  assumes "table_ok files_table (sd_tables sd)" "holds_wrap (merged sd db) i v r" "\<not> holds_wrap db i v r"
  shows "\<not> was_revoked db i v r" "\<exists>f \<in> set (tb_files (merged sd db)). fil_id f = i \<and> fil_current_version f = v"
proof -
  from assms(2,3) extend_subset [of wraps_table "kept_wraps sd (live_facts_of db)" db]
  obtain w where w: "w \<in> set (kept_wraps sd (live_facts_of db))" "wrp_file_id w = i" "wrp_version w = v"
    "wi_recipient_id (wrp_wrap w) = r" by (auto simp: holds_wrap_iff merged_get table_simps)
  then show "\<not> was_revoked db i v r" by (force simp: kept_simps was_revoked_def live_facts_simps)
  from w have "fg_survivors (gate_of sd (live_facts_of db)) i = Some v" by (simp add: kept_simps)
  from survivor_current [OF assms(1) this]
  show "\<exists>f \<in> set (tb_files (merged sd db)). fil_id f = i \<and> fil_current_version f = v" .
qed

lemma merged_streams:
  assumes "table_ok files_table (sd_tables sd)" "s \<in> set (tb_streams (merged sd db))" "s \<notin> set (tb_streams db)"
  shows "\<exists>f \<in> set (tb_files (merged sd db)). fil_id f = str_file_id s \<and> fil_current_version f = str_version s"
proof -
  have "s \<in> set (kept_streams sd (live_facts_of db))"
    using assms(2,3) extend_subset [of streams_table "kept_streams sd (live_facts_of db)" db]
    by (auto simp: merged_get table_simps)
  then have "fg_survivors (gate_of sd (live_facts_of db)) (str_file_id s) = Some (str_version s)" by (simp add: kept_simps)
  then show ?thesis by (rule survivor_current [OF assms(1)])
qed

text \<open>C29: Merging a backup never undoes a deletion, a revocation or a rotation: a file the owner destroyed (a tombstone
  and no file row) has no row in any table afterwards, whatever the bundle holds; a recipient whose wrap was revoked and
  is absent does not get it back; and every wrap and stream that is new belongs to the current version of its file. This
  holds for every outcome, applied, rolled back, failed or cut off.\<close>

theorem merge_resurrects_nothing:
  assumes "tables_ok db" "table_ok files_table (sd_tables sd)"
    "merge_run E sd others apply (db, n) = (x, (db', n'))"
  shows "(\<forall>i. i \<in> set (map tmb_file_id (tb_tombstones db)) \<and> i \<notin> set (map fil_id (tb_files db)) \<longrightarrow> file_gone i db') \<and>
    (\<forall>i v r. was_revoked db i v r \<and> \<not> holds_wrap db i v r \<longrightarrow> \<not> holds_wrap db' i v r) \<and>
    (\<forall>i v r. holds_wrap db' i v r \<and> \<not> holds_wrap db i v r \<longrightarrow>
       (\<exists>f \<in> set (tb_files db'). fil_id f = i \<and> fil_current_version f = v)) \<and>
    (\<forall>s \<in> set (tb_streams db') - set (tb_streams db).
       \<exists>f \<in> set (tb_files db'). fil_id f = str_file_id s \<and> fil_current_version f = str_version s)"
  using assms(3)
proof (cases rule: merge_run_cases)
  case kept
  then show ?thesis using assms(1) by (simp add: absent_file_gone)
next
  case applied
  then have db': "db' = merged sd db" by simp
  show ?thesis unfolding db'
    using destroyed_stays_gone [OF assms(1)] merged_wraps [OF assms(2)] merged_streams [OF assms(2)]
    by (auto simp: destroyed_def live_facts_simps)
qed

section \<open>What must come back\<close>

lemma kept_unclashed:
  assumes "tables_ok (sd_tables sd)"
  shows "unclashed (t_clash files_table) (kept_files sd live)" "unclashed (t_clash genesis_table) (kept_genesis sd live)"
    "unclashed (t_clash versions_table) (kept_versions sd live)" "unclashed (t_clash streams_table) (kept_streams sd live)"
    "unclashed (t_clash wraps_table) (kept_wraps sd live)"
  using assms by (simp_all add: tables_ok_def table_ok_def table_simps kept_files_def kept_genesis_def kept_versions_def
      kept_streams_def kept_wraps_def unclashed_filter)

text \<open>C30: A file that the live database lost, row, versions and all, and that nobody deleted, is restored whole by a merge
  that is applied: its row as staged, its genesis, every finalized version, and the streams and the wraps of its current
  version, but for the recipients the live database records as revoked.\<close>

theorem lost_file_restored_whole:
  assumes "tables_ok db" "tables_ok (sd_tables sd)" "merge_run E sd others True (db, n) = (Inr preview, (db', n'))"
    and "f \<in> set (tb_files (sd_tables sd))" "fil_id f \<notin> set (map fil_id (tb_files db))"
    "fil_id f \<notin> set (map tmb_file_id (tb_tombstones db))"
  shows "f \<in> set (tb_files db') \<and>
    (\<forall>g \<in> set (tb_genesis (sd_tables sd)). gen_file_id g = fil_id f \<longrightarrow> g \<in> set (tb_genesis db')) \<and>
    (\<forall>v \<in> set (tb_versions (sd_tables sd)). ver_file_id v = fil_id f \<and> ver_finalized v \<longrightarrow> v \<in> set (tb_versions db')) \<and>
    (\<forall>s \<in> set (tb_streams (sd_tables sd)). str_file_id s = fil_id f \<and> str_version s = fil_current_version f \<and>
       staged_finalized sd (fil_id f) (fil_current_version f) \<longrightarrow> s \<in> set (tb_streams db')) \<and>
    (\<forall>w \<in> set (tb_wraps (sd_tables sd)). wrp_file_id w = fil_id f \<and> wrp_version w = fil_current_version f \<and>
       staged_finalized sd (fil_id f) (fil_current_version f) \<and>
       \<not> was_revoked db (fil_id f) (fil_current_version f) (wi_recipient_id (wrp_wrap w)) \<longrightarrow> w \<in> set (tb_wraps db'))"
proof -
  define live where "live = live_facts_of db"
  have db': "db' = merged sd db" using merge_run_ok [OF assms(3)] by simp
  have ok: "table_ok files_table (sd_tables sd)" "table_ok genesis_table (sd_tables sd)" "table_ok versions_table (sd_tables sd)"
    "table_ok streams_table (sd_tables sd)" "table_ok wraps_table (sd_tables sd)"
    using assms(2) by (simp_all add: tables_ok_def)
  have gone: "file_gone (fil_id f) db" using absent_file_gone [OF assms(1,5)] .
  have alive: "\<not> destroyed live (fil_id f)" using assms(6) by (simp add: destroyed_def live_def live_facts_simps)
  have unknown: "lv_current_version live (fil_id f) = None"
    using assms(5) unfolding live_def by (simp add: live_facts_of_def lookup_file_None)
  have cur: "fg_survivors (gate_of sd live) (fil_id f) = Some (fil_current_version f)"
    using alive lookup_file [OF ok(1) assms(4)] unknown by (simp add: survivors_of gated_version_def)
  then have surv: "survives (gate_of sd live) (fil_id f)" by (simp add: survives_def)
  have "f \<in> set (tb_files db')"
    unfolding db' using lost_file_inserted [OF ok(1) assms(4)] surv assms(5) by (simp add: live_def)
  moreover have "g \<in> set (tb_genesis db')" if "g \<in> set (tb_genesis (sd_tables sd))" "gen_file_id g = fil_id f" for g
    unfolding db' merged_get live_def [symmetric]
    by (rule genesis.extend_new [OF _ kept_unclashed(2) [OF assms(2)]])
      (use that surv gone in \<open>auto simp: kept_simps file_gone_def genesis_table_def\<close>)
  moreover have "v \<in> set (tb_versions db')"
    if "v \<in> set (tb_versions (sd_tables sd))" "ver_file_id v = fil_id f" "ver_finalized v" for v
    unfolding db' merged_get live_def [symmetric]
    by (rule versions.extend_new [OF _ kept_unclashed(3) [OF assms(2)]])
      (use that surv gone in \<open>auto simp: kept_simps file_gone_def versions_table_def\<close>)
  moreover have "s \<in> set (tb_streams db')"
    if "s \<in> set (tb_streams (sd_tables sd))" "str_file_id s = fil_id f" "str_version s = fil_current_version f"
      "staged_finalized sd (fil_id f) (fil_current_version f)" for s
    unfolding db' merged_get live_def [symmetric]
    by (rule streams.extend_new [OF _ kept_unclashed(4) [OF assms(2)]])
      (use that cur gone in \<open>auto simp: kept_simps file_gone_def streams_table_def\<close>)
  moreover have "w \<in> set (tb_wraps db')"
    if "w \<in> set (tb_wraps (sd_tables sd))" "wrp_file_id w = fil_id f" "wrp_version w = fil_current_version f"
      "staged_finalized sd (fil_id f) (fil_current_version f)"
      "\<not> was_revoked db (fil_id f) (fil_current_version f) (wi_recipient_id (wrp_wrap w))" for w
  proof -
    have "w \<in> set (kept_wraps sd live)"
      using that cur unfolding live_def by (auto simp: kept_simps live_facts_simps was_revoked_def)
    then show ?thesis
      unfolding db' merged_get live_def [symmetric]
      by (rule wraps.extend_new [OF _ kept_unclashed(5) [OF assms(2)]])
        (use that gone in \<open>auto simp: file_gone_def wraps_table_def\<close>)
  qed
  ultimately show ?thesis by blast
qed

section \<open>Merging twice\<close>

lemma merged_files_ok:
  assumes "tables_ok db"
  shows "unclashed (t_clash files_table) (tb_files (merged sd db))"
  unfolding merged_get by (rule files.extend_unclashed) (use assms in \<open>simp add: tables_ok_def table_ok_def table_simps\<close>)

text \<open>The live rows after a merge: the old file rows, and the staged rows of the files that were lost.\<close>

lemma merged_lookup:
  assumes "tables_ok db" "f \<in> set (tb_files (merged sd db))"
  shows "lv_current_version (live_facts_of (merged sd db)) (fil_id f) = Some (fil_current_version f)"
proof -
  define g where "g = (\<lambda>r :: file_row. (fil_id r, fil_current_version r))"
  have inj: "r = f" if "r \<in> set (tb_files (merged sd db))" "fil_id r = fil_id f" for r
    using unclashed_same [OF merged_files_ok [OF assms(1)] that(1) assms(2)] that(2) by (simp add: files_table_def)
  obtain c where c: "map_of (rev (map g (tb_files (merged sd db)))) (fil_id f) = Some c"
    using assms(2) lookup_file_None [of "tb_files (merged sd db)" "fil_id f"] unfolding g_def by fastforce
  from lookup_file_Some [OF c [unfolded g_def]] inj have "c = fil_current_version f" by auto
  with c show ?thesis by (simp add: live_facts_of_def g_def)
qed

lemma gate_stable:
  assumes "tables_ok db" "tables_ok (sd_tables sd)"
  shows "fg_survivors (gate_of sd (live_facts_of (merged sd db))) i = fg_survivors (gate_of sd (live_facts_of db)) i"
proof (cases "i \<in> set (map fil_id (tb_files (sd_tables sd)))")
  case False
  then have "map_of (rev (map (\<lambda>r. (fil_id r, fil_current_version r)) (tb_files (sd_tables sd)))) i = None"
    by (simp only: lookup_file_None not_False_eq_True)
  then show ?thesis by (simp add: survivors_of)
next
  case True
  have ok: "table_ok files_table (sd_tables sd)" using assms(2) by (simp add: tables_ok_def)
  have tombs: "set (tb_tombstones db) \<subseteq> set (tb_tombstones (merged sd db))"
    using extend_superset [of tombstones_table db "kept_tombstones sd"] by (simp add: merged_get table_simps)
  show ?thesis
  proof (cases "fg_survivors (gate_of sd (live_facts_of db)) i")
    case None
    have lost: "destroyed (live_facts_of db) i"
    proof (rule ccontr)
      assume "\<not> destroyed (live_facts_of db) i"
      moreover have "map_of (rev (map (\<lambda>r. (fil_id r, fil_current_version r)) (tb_files (sd_tables sd)))) i \<noteq> None"
        using True lookup_file_None [of "tb_files (sd_tables sd)" i] by blast
      ultimately show False using None by (simp add: survivors_of)
    qed
    then have "file_gone i (merged sd db)" by (rule destroyed_stays_gone [OF assms(1)])
    then have "destroyed (live_facts_of (merged sd db)) i"
      using lost tombs by (auto simp: destroyed_def live_facts_simps file_gone_def)
    then show ?thesis using lost by (simp add: survivors_of)
  next
    case (Some c)
    from survivor_current [OF ok Some] obtain f where f: "f \<in> set (tb_files (merged sd db))" "fil_id f = i"
      "fil_current_version f = c" by blast
    then have "\<not> destroyed (live_facts_of (merged sd db)) i"
      by (auto simp: destroyed_def live_facts_simps)
    moreover have "map_of (rev (map (\<lambda>r. (fil_id r, fil_current_version r)) (tb_files (sd_tables sd)))) i \<noteq> None"
      using True lookup_file_None [of "tb_files (sd_tables sd)" i] by blast
    moreover have "lv_current_version (live_facts_of (merged sd db)) i = Some c"
      using merged_lookup [OF assms(1) f(1)] f(2,3) by simp
    ultimately show ?thesis unfolding Some by (auto simp: survivors_of gated_version_def)
  qed
qed

lemma kept_stable:
  assumes "tables_ok db" "tables_ok (sd_tables sd)"
  shows "set (kept_files sd (live_facts_of (merged sd db))) \<subseteq> set (kept_files sd (live_facts_of db))"
    "set (kept_genesis sd (live_facts_of (merged sd db))) \<subseteq> set (kept_genesis sd (live_facts_of db))"
    "set (kept_versions sd (live_facts_of (merged sd db))) \<subseteq> set (kept_versions sd (live_facts_of db))"
    "set (kept_streams sd (live_facts_of (merged sd db))) \<subseteq> set (kept_streams sd (live_facts_of db))"
    "set (kept_wraps sd (live_facts_of (merged sd db))) \<subseteq> set (kept_wraps sd (live_facts_of db))"
proof -
  have revs: "lv_revoked (live_facts_of db) \<subseteq> lv_revoked (live_facts_of (merged sd db))"
    using extend_superset [of revocations_table db "kept_revocations sd"]
    by (auto simp: live_facts_of_def merged_get table_simps)
  show "set (kept_files sd (live_facts_of (merged sd db))) \<subseteq> set (kept_files sd (live_facts_of db))"
    "set (kept_genesis sd (live_facts_of (merged sd db))) \<subseteq> set (kept_genesis sd (live_facts_of db))"
    "set (kept_versions sd (live_facts_of (merged sd db))) \<subseteq> set (kept_versions sd (live_facts_of db))"
    "set (kept_streams sd (live_facts_of (merged sd db))) \<subseteq> set (kept_streams sd (live_facts_of db))"
    "set (kept_wraps sd (live_facts_of (merged sd db))) \<subseteq> set (kept_wraps sd (live_facts_of db))"
    using revs by (auto simp: kept_simps survives_def gate_stable [OF assms])
qed

lemma merged_again:
  "t_get users_table (merged sd db) = extended users_table (tb_users (sd_tables sd)) db"
  "t_get bindings_table (merged sd db) = extended bindings_table (tb_bindings (sd_tables sd)) db"
  "t_get reg_keys_table (merged sd db) = extended reg_keys_table (tb_reg_keys (sd_tables sd)) db"
  "t_get first_admin_table (merged sd db) = extended first_admin_table (tb_first_admin (sd_tables sd)) db"
  "t_get recovery_table (merged sd db) = extended recovery_table (tb_recovery (sd_tables sd)) db"
  "t_get sessions_table (merged sd db) = extended sessions_table (tb_sessions (sd_tables sd)) db"
  "t_get nonces_table (merged sd db) = extended nonces_table (tb_nonces (sd_tables sd)) db"
  "t_get files_table (merged sd db) = extended files_table (kept_files sd (live_facts_of db)) db"
  "t_get genesis_table (merged sd db) = extended genesis_table (kept_genesis sd (live_facts_of db)) db"
  "t_get versions_table (merged sd db) = extended versions_table (kept_versions sd (live_facts_of db)) db"
  "t_get streams_table (merged sd db) = extended streams_table (kept_streams sd (live_facts_of db)) db"
  "t_get wraps_table (merged sd db) = extended wraps_table (kept_wraps sd (live_facts_of db)) db"
  "t_get tombstones_table (merged sd db) = extended tombstones_table (kept_tombstones sd) db"
  "t_get revocations_table (merged sd db) = extended revocations_table (kept_revocations sd) db"
  by (simp_all add: table_simps merged_get)

lemma merged_twice:
  assumes "tables_ok db" "tables_ok (sd_tables sd)"
  shows "merged sd (merged sd db) = merged sd db"
proof -
  let ?m = "merged sd db"
  note kept = kept_stable [OF assms]
  have "extended users_table (tb_users (sd_tables sd)) ?m = tb_users ?m"
    "extended bindings_table (tb_bindings (sd_tables sd)) ?m = tb_bindings ?m"
    "extended reg_keys_table (tb_reg_keys (sd_tables sd)) ?m = tb_reg_keys ?m"
    "extended first_admin_table (tb_first_admin (sd_tables sd)) ?m = tb_first_admin ?m"
    "extended recovery_table (tb_recovery (sd_tables sd)) ?m = tb_recovery ?m"
    "extended sessions_table (tb_sessions (sd_tables sd)) ?m = tb_sessions ?m"
    "extended nonces_table (tb_nonces (sd_tables sd)) ?m = tb_nonces ?m"
    using users.extend_again [OF merged_again(1) order_refl] bindings.extend_again [OF merged_again(2) order_refl]
      reg_keys.extend_again [OF merged_again(3) order_refl] first_admin.extend_again [OF merged_again(4) order_refl]
      recovery.extend_again [OF merged_again(5) order_refl] sessions.extend_again [OF merged_again(6) order_refl]
      nonces.extend_again [OF merged_again(7) order_refl]
    by (simp_all add: table_simps)
  moreover have "extended files_table (kept_files sd (live_facts_of ?m)) ?m = tb_files ?m"
    "extended genesis_table (kept_genesis sd (live_facts_of ?m)) ?m = tb_genesis ?m"
    "extended versions_table (kept_versions sd (live_facts_of ?m)) ?m = tb_versions ?m"
    "extended streams_table (kept_streams sd (live_facts_of ?m)) ?m = tb_streams ?m"
    "extended wraps_table (kept_wraps sd (live_facts_of ?m)) ?m = tb_wraps ?m"
    "extended tombstones_table (kept_tombstones sd) ?m = tb_tombstones ?m"
    "extended revocations_table (kept_revocations sd) ?m = tb_revocations ?m"
    using files.extend_again [OF merged_again(8) kept(1)] genesis.extend_again [OF merged_again(9) kept(2)]
      versions.extend_again [OF merged_again(10) kept(3)] streams.extend_again [OF merged_again(11) kept(4)]
      wraps.extend_again [OF merged_again(12) kept(5)] tombstones.extend_again [OF merged_again(13) order_refl]
      revocations.extend_again [OF merged_again(14) order_refl]
    by (simp_all add: table_simps)
  ultimately show ?thesis by (simp add: merged_def [of sd ?m] Let_def)
qed

text \<open>C31: A merge is idempotent: after one that was applied, merging the same bundle again, applied or not, failing or
  not, leaves the database as it is.\<close>

theorem merge_idempotent:
  assumes "tables_ok db" "tables_ok (sd_tables sd)" "merge_run E sd others True (db, n) = (Inr preview, (db1, n1))"
    "merge_run E' sd others' apply (db1, m) = (x, (db2, m'))"
  shows "db2 = db1"
  using assms(4)
proof (cases rule: merge_run_cases)
  case applied
  then show ?thesis using merge_run_ok [OF assms(3)] merged_twice [OF assms(1,2)] by simp
qed simp

section \<open>All or nothing\<close>

definition adds_only :: "'r sql_table \<Rightarrow> tables \<Rightarrow> tables \<Rightarrow> tables \<Rightarrow> bool" where
  "adds_only T staged db db' \<longleftrightarrow> (\<exists>added. t_get T db' = t_get T db @ added \<and> set added \<subseteq> set (t_get T staged))"

lemma adds_only_extended:
  assumes "t_get T db' = extended T rows db" "set rows \<subseteq> set (t_get T st)"
  shows "adds_only T st db db'"
  unfolding adds_only_def
proof (intro exI conjI)
  show "t_get T db' = t_get T db @ added_rows (t_clash T) (t_get T db) rows" using assms(1) extend_added by metis
  show "set (added_rows (t_clash T) (t_get T db) rows) \<subseteq> set (t_get T st)"
    using added_rows_subset assms(2) by (rule subset_trans)
qed

definition merge_adds_only :: "staged_db \<Rightarrow> tables \<Rightarrow> tables \<Rightarrow> bool" where
  "merge_adds_only sd db db' \<longleftrightarrow> (let st = sd_tables sd in adds_only users_table st db db' \<and> adds_only bindings_table st db db' \<and>
     adds_only reg_keys_table st db db' \<and> adds_only first_admin_table st db db' \<and> adds_only recovery_table st db db' \<and>
     adds_only sessions_table st db db' \<and> adds_only nonces_table st db db' \<and> adds_only files_table st db db' \<and>
     adds_only genesis_table st db db' \<and> adds_only versions_table st db db' \<and> adds_only streams_table st db db' \<and>
     adds_only wraps_table st db db' \<and> adds_only tombstones_table st db db' \<and> adds_only revocations_table st db db' \<and>
     tb_control db' = tb_control db)"

lemma merged_adds_only: "merge_adds_only sd db (merged sd db)"
  unfolding merge_adds_only_def Let_def
  using merged_again [of sd db] merged_get(15) [of sd db]
  by (auto intro!: adds_only_extended simp: table_simps kept_simps kept_tombstones_def kept_revocations_def)

text \<open>A merge is one transaction that only adds: a dry run leaves the database alone and reports exactly what the
  applied merge reports, error or preview; an applied merge leaves either the database it found or the specified union,
  in which every live row stands where it stood and every new one is a row of the bundle.\<close>

theorem merge_all_or_nothing:
  "fst (snd (merge_run E sd others False s)) = fst s \<and>
   fst (merge_run E sd others False s) = fst (merge_run E sd others True s) \<and>
   fst (snd (merge_run E sd others True s)) \<in> {fst s, merged sd (fst s)} \<and>
   merge_adds_only sd (fst s) (merged sd (fst s))"
proof -
  obtain db n where s: "s = (db, n)" by fastforce
  have "fst (merge_run E sd others False s) = fst (merge_run E sd others True s)"
    by (simp add: merge_run_def s split: sum.split prod.split)
  moreover have "fst (snd (merge_run E sd others False s)) = fst s"
    using merge_run_cases [of E sd others False s] by (metis prod.collapse)
  moreover have "fst (snd (merge_run E sd others True s)) \<in> {fst s, merged sd (fst s)}"
    using merge_run_cases [of E sd others True s] by (metis insertI1 insertI2 prod.collapse)
  ultimately show ?thesis using merged_adds_only by blast
qed

section \<open>A bundle newer than the database\<close>

lemma live_file_stays:
  assumes "tables_ok db" "f \<in> set (tb_files db)"
  shows "file_of (fil_id f) (merged sd db) = Some f"
proof -
  have mem: "f \<in> set (tb_files (merged sd db))"
    using extend_superset [of files_table db "kept_files sd (live_facts_of db)"] assms(2)
    by (auto simp: merged_get table_simps)
  obtain g where g: "file_of (fil_id f) (merged sd db) = Some g"
    using mem by (cases "file_of (fil_id f) (merged sd db)") (auto simp: file_of_def find_None_iff)
  then have "g \<in> set (tb_files (merged sd db))" "fil_id g = fil_id f" by (auto simp: file_of_def find_Some_iff)
  then have "g = f"
    using unclashed_same [OF merged_files_ok [OF assms(1), of sd] _ mem] by (simp add: files_table_def)
  with g show ?thesis by simp
qed

lemma fresh_version_inserted:
  assumes "tables_ok db" "tables_ok (sd_tables sd)" "f \<in> set (tb_files db)" "v \<in> set (tb_versions (sd_tables sd))"
    "ver_file_id v = fil_id f" "ver_finalized v" "\<not> has_version db (fil_id f) (ver_version v)"
  shows "v \<in> set (tb_versions (merged sd db))"
  unfolding merged_get
proof (rule versions.extend_new [OF _ kept_unclashed(3) [OF assms(2)]])
  have "table_ok versions_table (sd_tables sd)" using assms(2) by (simp add: tables_ok_def)
  then have "fil_id f \<in> set (map fil_id (tb_files (sd_tables sd)))"
    using has_version_file [of "sd_tables sd" "fil_id f" "ver_version v"] assms(4,5)
    by (auto simp: has_version_def list_ex_iff)
  then have "map_of (rev (map (\<lambda>r. (fil_id r, fil_current_version r)) (tb_files (sd_tables sd)))) (fil_id f) \<noteq> None"
    using lookup_file_None [of "tb_files (sd_tables sd)" "fil_id f"] by blast
  moreover have "\<not> destroyed (live_facts_of db) (fil_id f)" using assms(3) by (simp add: destroyed_def live_facts_simps)
  ultimately have "survives (gate_of sd (live_facts_of db)) (fil_id f)" by (auto simp: survives_def survivors_of)
  then show "v \<in> set (kept_versions sd (live_facts_of db))" using assms(4-6) by (simp add: kept_simps)
  show "\<not> t_clash versions_table v s" if "s \<in> set (t_get versions_table db)" for s
    using that assms(5,7) by (auto simp: versions_table_def has_version_def list_ex_iff)
qed

lemma versions_merged_ok:
  assumes "tables_ok db"
  shows "unclashed (t_clash versions_table) (tb_versions (merged sd db))"
  unfolding merged_get by (rule versions.extend_unclashed) (use assms in \<open>simp add: tables_ok_def table_ok_def table_simps\<close>)

lemma version_of_row:
  assumes "unclashed (t_clash versions_table) (tb_versions db)" "v \<in> set (tb_versions db)"
  shows "version_of (ver_file_id v) (ver_version v) db = Some v"
proof -
  obtain w where w: "version_of (ver_file_id v) (ver_version v) db = Some w"
    using assms(2) by (cases "version_of (ver_file_id v) (ver_version v) db") (auto simp: version_of_def find_None_iff)
  then have "w \<in> set (tb_versions db)" "ver_file_id w = ver_file_id v" "ver_version w = ver_version v"
    by (auto simp: version_of_def find_Some_iff)
  then have "w = v" using unclashed_same [OF assms(1) _ assms(2)] by (simp add: versions_table_def)
  with w show ?thesis by simp
qed

lemma dangling_version_empty:
  assumes "tables_ok db" "table_ok files_table (sd_tables sd)" "\<not> has_version db (fil_id f) v" "f \<in> set (tb_files db)"
    "v \<noteq> fil_current_version f"
  shows "streams_of (fil_id f) v (merged sd db) = []" "wraps_of (fil_id f) v (merged sd db) = []"
proof -
  have ok: "table_ok streams_table db" "table_ok wraps_table db" "table_ok files_table db"
    using assms(1) by (simp_all add: tables_ok_def)
  have cur: "lv_current_version (live_facts_of db) (fil_id f) = Some (fil_current_version f)"
    using lookup_file [OF ok(3) assms(4)] by (simp add: live_facts_of_def)
  have gate: "fg_survivors (gate_of sd (live_facts_of db)) (fil_id f) \<noteq> Some v"
    using cur assms(5) by (auto simp: survivors_of gated_version_def)
  have "\<not> (str_file_id s = fil_id f \<and> str_version s = v)" if "s \<in> set (tb_streams (merged sd db))" for s
    using merged_rows(4) [OF that] ok(1) assms(3) gate by (auto simp: kept_simps table_ok_def streams_table_def)
  then show "streams_of (fil_id f) v (merged sd db) = []" by (simp add: streams_of_def filter_empty_conv)
  have "\<not> (wrp_file_id w = fil_id f \<and> wrp_version w = v)" if "w \<in> set (tb_wraps (merged sd db))" for w
    using merged_rows(5) [OF that] ok(2) assms(3) gate by (auto simp: kept_simps table_ok_def wraps_table_def)
  then show "wraps_of (fil_id f) v (merged sd db) = []" by (simp add: wraps_of_def filter_empty_conv)
qed

lemma staging_finalized_refused:
  assumes "file_of (ps_file_id p) db = Some f" "length (fil_owner_id f) = 16"
    "version_of (ps_file_id p) (ps_version p) db = Some v" "ver_finalized v"
  shows "fst (pg_stage_version reliable now p (db, k)) = Inl StAlreadyFinalized"
  using assms by (simp add: pg_stage_version_def transaction_def reliable_def Let_def sbind_def query_def statement_def
      check_def opt_fixed_def col_fixed_def)

text \<open>C32: Merging a bundle that is newer than the live database wedges a file: when the bundle finalized the version after
  the live file's current one, the merge brings that version's row and neither its streams nor its wraps, and leaves the
  current version where it is. The version serves nobody, and in the state the merge leaves every attempt to rotate the
  file, by whatever request and at any time, is refused as already finalized, even by a database without faults.\<close>

theorem newer_bundle_wedges_file:
  assumes "tables_ok db" "tables_ok (sd_tables sd)" "merge_run E sd others True (db, n) = (Inr preview, (db', n'))"
    and "f \<in> set (tb_files db)" "v \<in> set (tb_versions (sd_tables sd))" "ver_file_id v = fil_id f" "ver_finalized v"
    and "ver_version v = fil_current_version f + 1" "\<not> has_version db (fil_id f) (ver_version v)"
    and "ps_file_id p = fil_id f" "ps_version p = fil_current_version f + 1"
  shows "file_of (fil_id f) db' = Some f \<and> streams_of (fil_id f) (ver_version v) db' = [] \<and>
    wraps_of (fil_id f) (ver_version v) db' = [] \<and>
    fst (pg_stage_version reliable now p (db', k)) = Inl StAlreadyFinalized"
proof -
  have db': "db' = merged sd db" using merge_run_ok [OF assms(3)] by simp
  have ok: "table_ok files_table (sd_tables sd)" "table_ok files_table db" "table_ok users_table db"
    using assms(1,2) by (simp_all add: tables_ok_def)
  have row: "file_of (fil_id f) db' = Some f" unfolding db' by (rule live_file_stays [OF assms(1,4)])
  have "fil_owner_id f \<in> set (map usr_id (tb_users db))" using ok(2) assms(4) by (simp add: table_ok_def files_table_def)
  then have width: "length (fil_owner_id f) = 16" using ok(3) by (auto simp: table_ok_def users_table_def)
  have "v \<in> set (tb_versions db')"
    unfolding db' by (rule fresh_version_inserted [OF assms(1,2,4,5,6,7,9)])
  then have version: "version_of (fil_id f) (fil_current_version f + 1) db' = Some v"
    using version_of_row [of db' v] versions_merged_ok [OF assms(1)] assms(6,8) by (simp add: db')
  have "ver_version v \<noteq> fil_current_version f" using assms(8) by simp
  note empty = dangling_version_empty [OF assms(1) ok(1) assms(9,4) this]
  show ?thesis
    using row empty staging_finalized_refused [of p db' f v now k] width version assms(7,10,11) by (simp add: db')
qed

section \<open>A small database\<close>

text \<open>One owner, one reader. The live database holds file \<open>1\<close> at its first version, has deleted file \<open>2\<close> and has revoked the
  reader's wrap of file \<open>1\<close>; the bundle holds files \<open>1\<close> (rotated), \<open>2\<close> and \<open>3\<close>, which the live database lost.\<close>

definition ex_id :: "byte \<Rightarrow> bytes" where "ex_id b = replicate 16 b"

definition ex_user :: user_row where
  "ex_user = \<lparr>usr_id = ex_id 7, usr_name = ''amy'', usr_enc_pub = replicate 32 0, usr_sig_pub = replicate 32 0,
     usr_key_version = 1, usr_roles = [''user''], usr_status = ''active'', usr_enrolled_at = 0, usr_signed_at = None\<rparr>"

definition ex_file :: "byte \<Rightarrow> u64 \<Rightarrow> file_row" where
  "ex_file i v = \<lparr>fil_id = ex_id i, fil_owner_id = ex_id 7, fil_type = 4, fil_current_version = v, fil_listed = True,
     fil_bundle_id = None, fil_created_at = 0, fil_updated_at = 0\<rparr>"

definition ex_version :: "byte \<Rightarrow> u64 \<Rightarrow> version_row" where
  "ex_version i v = \<lparr>ver_file_id = ex_id i, ver_version = v, ver_manifest_bytes = [], ver_manifest_sig = replicate 64 0,
     ver_author_id = ex_id 7, ver_alg = 1, ver_finalized = True, ver_created_at = 0\<rparr>"

definition ex_wrap :: "byte \<Rightarrow> u64 \<Rightarrow> byte \<Rightarrow> wrap_row" where
  "ex_wrap i v r = \<lparr>wrp_file_id = ex_id i, wrp_version = v, wrp_wrap = \<lparr>wi_recipient_id = ex_id r, wi_recipient_type = 1,
     wi_wrapped_dek = [], wi_wrap_alg = 1, wi_granted_by = ex_id 7, wi_grant_bytes = [], wi_grant_sig = replicate 64 0\<rparr>,
     wrp_created_at = 0\<rparr>"

definition ex_live :: tables where
  "ex_live = empty_tables\<lparr>tb_users := [ex_user], tb_files := [ex_file 1 1], tb_versions := [ex_version 1 1],
     tb_wraps := [ex_wrap 1 1 7], tb_tombstones := [\<lparr>tmb_file_id = ex_id 2, tmb_deleted_at = 0\<rparr>],
     tb_revocations := [\<lparr>rvk_file_id = ex_id 1, rvk_version = 1, rvk_recipient_id = ex_id 9, rvk_revoked_at = 0\<rparr>]\<rparr>"

definition ex_staged :: staged_db where
  "ex_staged = \<lparr>sd_tables = empty_tables\<lparr>tb_users := [ex_user], tb_files := [ex_file 1 2, ex_file 2 1, ex_file 3 1],
       tb_versions := [ex_version 1 1, ex_version 1 2, ex_version 2 1, ex_version 3 1],
       tb_wraps := [ex_wrap 1 1 9, ex_wrap 1 2 7, ex_wrap 2 1 7, ex_wrap 3 1 7]\<rparr>,
     sd_has_tombstones = True, sd_has_revocations = True\<rparr>"

lemma ex_id_eq [simp]: "ex_id a = ex_id b \<longleftrightarrow> a = b" "length (ex_id a) = 16"
  by (auto simp: ex_id_def replicate_eq_replicate)

lemma ex_recovery [simp]: "ex_id a = id_raw RECOVERY_ID \<longleftrightarrow> a = 0"
  by (auto simp: ex_id_def RECOVERY_ID_def replicate_eq_replicate)

lemmas ex_rows = ex_user_def ex_file_def ex_version_def ex_wrap_def

lemma ex_live_ok: "tables_ok ex_live"
  by (simp add: tables_ok_def table_ok_def table_defs ex_live_def empty_tables_def ex_rows at_least_def text_ok_def
      opt_width_def half_recovery_def has_version_def)

lemma ex_staged_ok: "tables_ok (sd_tables ex_staged)"
  by (simp add: tables_ok_def table_ok_def table_defs ex_staged_def empty_tables_def ex_rows at_least_def text_ok_def
      opt_width_def half_recovery_def has_version_def)

lemma ex_accounts: "accounts_merge ex_staged ex_live"
  by (simp add: accounts_merge_def ex_staged_def ex_live_def empty_tables_def)

text \<open>Nothing in the gate leads a merge into a constraint: on a database that answers, with no other client connected,
  a bundle none of whose accounts collides by name with a live one is merged, applied as specified; in particular the
  foreign keys of files, versions, streams and wraps all hold when their rows are inserted.\<close>

theorem merge_goes_through:
  assumes "tables_ok db" "tables_ok (sd_tables sd)" "accounts_merge sd db" "others \<le> 0"
  shows "\<exists>preview m. merge_run reliable sd others True (db, n) = (Inr preview, (merged sd db, m))"
  using assms by (rule merge_run_works)

theorem merge_goes_through_witness:
  "\<exists>preview m. merge_run reliable ex_staged 0 True (ex_live, 0) = (Inr preview, (merged ex_staged ex_live, m))"
  using merge_goes_through [OF ex_live_ok ex_staged_ok ex_accounts, of 0 0] by simp

lemma ex_merge: "\<exists>preview m. merge_run reliable ex_staged 0 True (ex_live, 0) = (Inr preview, (merged ex_staged ex_live, m))"
  using merge_run_works [OF ex_live_ok ex_staged_ok ex_accounts, of 0 0] by simp

lemma ex_staged_files: "table_ok files_table (sd_tables ex_staged)"
  using ex_staged_ok by (simp add: tables_ok_def)

theorem merge_resurrects_nothing_witness:
  "file_gone (ex_id 2) (merged ex_staged ex_live) \<and> \<not> holds_wrap (merged ex_staged ex_live) (ex_id 1) 1 (ex_id 9)"
proof -
  obtain preview m where run: "merge_run reliable ex_staged 0 True (ex_live, 0) = (Inr preview, (merged ex_staged ex_live, m))"
    using ex_merge by blast
  have "ex_id 2 \<in> set (map tmb_file_id (tb_tombstones ex_live))" "ex_id 2 \<notin> set (map fil_id (tb_files ex_live))"
    "was_revoked ex_live (ex_id 1) 1 (ex_id 9)" "\<not> holds_wrap ex_live (ex_id 1) 1 (ex_id 9)"
    by (simp_all add: ex_live_def empty_tables_def ex_rows was_revoked_def holds_wrap_iff)
  then show ?thesis using merge_resurrects_nothing [OF ex_live_ok ex_staged_files run] by blast
qed

theorem lost_file_restored_whole_witness:
  "ex_file 3 1 \<in> set (tb_files (merged ex_staged ex_live)) \<and> ex_wrap 3 1 7 \<in> set (tb_wraps (merged ex_staged ex_live))"
proof -
  obtain preview m where run: "merge_run reliable ex_staged 0 True (ex_live, 0) = (Inr preview, (merged ex_staged ex_live, m))"
    using ex_merge by blast
  have f: "ex_file 3 1 \<in> set (tb_files (sd_tables ex_staged))" "fil_id (ex_file 3 1) \<notin> set (map fil_id (tb_files ex_live))"
    "fil_id (ex_file 3 1) \<notin> set (map tmb_file_id (tb_tombstones ex_live))"
    by (simp_all add: ex_staged_def ex_live_def empty_tables_def ex_rows)
  have w: "ex_wrap 3 1 7 \<in> set (tb_wraps (sd_tables ex_staged))" "wrp_file_id (ex_wrap 3 1 7) = fil_id (ex_file 3 1)"
    "wrp_version (ex_wrap 3 1 7) = fil_current_version (ex_file 3 1)"
    "staged_finalized ex_staged (fil_id (ex_file 3 1)) (fil_current_version (ex_file 3 1))"
    "\<not> was_revoked ex_live (fil_id (ex_file 3 1)) (fil_current_version (ex_file 3 1)) (wi_recipient_id (wrp_wrap (ex_wrap 3 1 7)))"
    by (simp_all add: ex_staged_def ex_live_def empty_tables_def ex_rows staged_finalized_def was_revoked_def)
  show ?thesis using lost_file_restored_whole [OF ex_live_ok ex_staged_ok run f] w by blast
qed

theorem merge_idempotent_witness:
  "fst (snd (merge_run reliable ex_staged 0 True (merged ex_staged ex_live, 0))) = merged ex_staged ex_live"
proof -
  obtain preview m where run: "merge_run reliable ex_staged 0 True (ex_live, 0) = (Inr preview, (merged ex_staged ex_live, m))"
    using ex_merge by blast
  obtain x db2 m' where again: "merge_run reliable ex_staged 0 True (merged ex_staged ex_live, 0) = (x, (db2, m'))"
    by (metis prod.collapse)
  show ?thesis using merge_idempotent [OF ex_live_ok ex_staged_ok run again] again by simp
qed

definition ex_rotation :: parsed_stage where
  "ex_rotation = \<lparr>ps_file_id = ex_id 1, ps_file_type = 4, ps_version = 2, ps_author_id = ex_id 7, ps_alg = 1,
     ps_manifest_bytes = [], ps_manifest_sig = replicate 64 0, ps_genesis = None, ps_streams = [],
     ps_wraps = [wrp_wrap (ex_wrap 1 2 7)], ps_recovery_present = False, ps_listed = True, ps_bundle_id = None\<rparr>"

theorem newer_bundle_wedges_file_witness:
  "fst (pg_stage_version reliable 0 ex_rotation (ex_live, 0)) = Inr 2 \<and>
   fst (pg_stage_version reliable 0 ex_rotation (merged ex_staged ex_live, 0)) = Inl StAlreadyFinalized"
proof
  show "fst (pg_stage_version reliable 0 ex_rotation (ex_live, 0)) = Inr 2"
    by (simp add: pg_stage_version_def stage_file_def transaction_def reliable_def Let_def sbind_def query_def
        statement_def check_def sret_def opt_fixed_def col_fixed_def file_of_def version_of_def ex_live_def ex_rotation_def
        empty_tables_def ex_rows delete_versions_def sql_insert_def table_defs has_version_def at_least_def
        half_recovery_def new_version_row_def new_wrap_row_def)
  obtain preview m where run: "merge_run reliable ex_staged 0 True (ex_live, 0) = (Inr preview, (merged ex_staged ex_live, m))"
    using ex_merge by blast
  have f: "ex_file 1 1 \<in> set (tb_files ex_live)" "ex_version 1 2 \<in> set (tb_versions (sd_tables ex_staged))"
    "ver_file_id (ex_version 1 2) = fil_id (ex_file 1 1)" "ver_finalized (ex_version 1 2)"
    "ver_version (ex_version 1 2) = fil_current_version (ex_file 1 1) + 1"
    "\<not> has_version ex_live (fil_id (ex_file 1 1)) (ver_version (ex_version 1 2))"
    "ps_file_id ex_rotation = fil_id (ex_file 1 1)" "ps_version ex_rotation = fil_current_version (ex_file 1 1) + 1"
    by (simp_all add: ex_staged_def ex_live_def empty_tables_def ex_rows has_version_def ex_rotation_def)
  show "fst (pg_stage_version reliable 0 ex_rotation (merged ex_staged ex_live, 0)) = Inl StAlreadyFinalized"
    using newer_bundle_wedges_file [OF ex_live_ok ex_staged_ok run f, of 0 0] by blast
qed

end
