(* ===== verification/BackupBundle_Laws.thy ===== *)
theory BackupBundle_Laws
  imports BackupOps KeyBlob_Laws WriteBack_Laws
begin

text \<open>
  Backup bundles over any cold tier that keeps its contract: a sealed component opens to exactly the payload and the
  index that were sealed, or the tier fails; whatever a tier serves, a component that opens is one that was sealed
  under the passphrase, whole and in order; and the place a component is read from is not part of what is sealed.
\<close>

section \<open>Parts as one list\<close>

text \<open>The sealed parts of the frames \<open>fs\<close>, numbered from \<open>i\<close>; the last frame carries the flag.\<close>

fun sealed_parts :: "gcm_seal \<Rightarrow> mxbu_sealer \<Rightarrow> nat \<Rightarrow> bytes list \<Rightarrow> bytes list" where
  "sealed_parts gs s i [] = []"
| "sealed_parts gs s i (f # fs) = seal_part gs s (word_of_nat i) (fs = []) f # sealed_parts gs s (Suc i) fs"

definition part_entry :: "backup_env \<Rightarrow> bytes \<Rightarrow> backup_part" where
  "part_entry E x = \<lparr>bpart_len = word_of_nat (length x), bpart_digest = Bytes32 (bv_sha E x)\<rparr>"

fun stored :: "blobs \<Rightarrow> string \<Rightarrow> nat \<Rightarrow> bytes list \<Rightarrow> bool" where
  "stored m r i [] \<longleftrightarrow> True"
| "stored m r i (x # xs) \<longleftrightarrow> m (r, word_of_nat i) = Some x \<and> stored m r (Suc i) xs"

text \<open>Two tiers hold the same, but for the chunks of \<open>r\<close> from \<open>i\<close> on.\<close>

definition same_below :: "string \<Rightarrow> nat \<Rightarrow> blobs \<Rightarrow> blobs \<Rightarrow> bool" where
  "same_below r i m m' \<longleftrightarrow> (\<forall>q k. q \<noteq> r \<or> unat k < i \<longrightarrow> m' (q, k) = m (q, k))"

lemma same_below_refl [simp]: "same_below r i m m"
  by (simp add: same_below_def)

lemma same_below_trans: "same_below r i m m' \<Longrightarrow> same_below r (Suc i) m' m'' \<Longrightarrow> same_below r i m m''"
  by (simp add: same_below_def less_Suc_eq)

lemma same_below_put: "i \<le> unat k \<Longrightarrow> same_below r i m (m((r, k) \<mapsto> b))"
  by (auto simp: same_below_def)

lemma length_sealed_parts [simp]: "length (sealed_parts gs s i fs) = length fs"
  by (induction fs arbitrary: i) simp_all

lemma stored_cong: "(\<And>k. i \<le> unat k \<Longrightarrow> m' (r, k) = m (r, k)) \<Longrightarrow> i + length xs < 2 ^ 64 \<Longrightarrow> stored m' r i xs \<longleftrightarrow> stored m r i xs"
  by (induction xs arbitrary: i) (auto simp: unat_of_nat)

lemma read_frame_loop_delivers:
  "delivers r d \<Longrightarrow> \<exists>r'. read_frame_loop n buf r = (Inr (buf @ take (n - length buf) d), r') \<and>
     delivers r' (drop (n - length buf) d)"
proof (induction n buf r arbitrary: d rule: read_frame_loop.induct)
  case (1 n buf r)
  show ?case
  proof (cases "length buf < n")
    case True
    then have "0 < n - length buf" by simp
    from read_delivers [OF "1.prems" this] obtain x r1 where rd: "read (n - length buf) r = (Some x, r1)"
      "delivers r1 (drop (length x) d)" "x = take (length x) d" "length x \<le> n - length buf" "x = [] \<longleftrightarrow> d = []" by blast
    show ?thesis
    proof (cases "x = []")
      case True
      then show ?thesis using rd \<open>length buf < n\<close> by (auto simp: read_frame_loop.simps [of n buf r])
    next
      case False
      from "1.IH" [OF True rd(1) [symmetric] refl False rd(2)] obtain r' where
        r': "read_frame_loop n (buf @ x) r1 = (Inr ((buf @ x) @ take (n - length (buf @ x)) (drop (length x) d)), r')"
        "delivers r' (drop (n - length (buf @ x)) (drop (length x) d))" by blast
      have eq: "length x + (n - length (buf @ x)) = n - length buf" using rd(4) by simp
      then have "take (n - length buf) d = take (length x + (n - length (buf @ x))) d" by (simp only:)
      also have "\<dots> = x @ take (n - length (buf @ x)) (drop (length x) d)"
        by (simp only: take_add rd(3) [symmetric])
      finally have "x @ take (n - length (buf @ x)) (drop (length x) d) = take (n - length buf) d" ..
      moreover have "drop (n - length (buf @ x)) (drop (length x) d) = drop (n - length buf) d"
        by (simp only: drop_drop eq add.commute [of _ "length x"])
      ultimately show ?thesis using r' True False rd(1) by (simp add: read_frame_loop.simps [of n buf r])
    qed
  next
    case False
    then show ?thesis using "1.prems" by (simp add: read_frame_loop.simps [of n buf r])
  qed
qed

lemma read_frame_delivers:
  assumes "delivers r d"
  obtains r' where "read_frame r n = (Inr (take n d), r')" "delivers r' (drop n d)"
  using read_frame_loop_delivers [OF assms, of n "[]"] by (auto simp: read_frame_def)

section \<open>What sealing leaves in the tier\<close>

lemma unat_next_u32:
  assumes "idx \<noteq> (- 1 :: u32)"
  shows "unat (idx + 1) = Suc (unat idx)"
proof -
  have "unat idx \<noteq> unat (- 1 :: u32)" using assms by (metis word_unat_eq_iff)
  then have "unat idx + 1 < 2 ^ 32" using unat_u32_bound [of idx] by (simp add: unsigned_minus_1_eq_mask mask_eq_exp_minus_1)
  then show ?thesis by (simp add: unat_word_ariths)
qed

lemma unat_u32_u64 [simp]: "unat (ucast (i :: u32) :: u64) = unat i"
  using unat_u32_bound [of i] by (simp add: unsigned_ucast_eq take_bit_nat_eq_self)

lemma ucast_u32_u64: "(ucast (i :: u32) :: u64) = word_of_nat (unat i)"
  by (simp add: word_unat_eq_iff unat_of_nat)

context cold_tier
begin

lemma on_tier_put:
  "on_tier (op_put ops r k b) c = (Inr u, c') \<Longrightarrow> holds c' = (holds c)((r, k) \<mapsto> b)"
  using put_law [of r k b c] by (auto simp: on_tier_def map_err_eq_Inr split: prod.splits)

lemma seal_payload_parts:
  "0 < n \<Longrightarrow> delivers r (drop n d) \<Longrightarrow>
   seal_payload E ops s bref n r (take n d) idx tot parts c = (Inr (tot', parts'), c') \<Longrightarrow>
   tot' = tot + length d \<and> unat idx + length (slices n d) < 2 ^ 32 \<and>
   (let xs = sealed_parts (pr_gcm_seal (bv_prims E)) s (unat idx) (slices n d) in
      parts' = parts @ map (part_entry E) xs \<and> stored (holds c') bref (unat idx) xs) \<and>
   same_below bref (unat idx) (holds c) (holds c')"
proof (induction "length d" arbitrary: d r idx tot parts c rule: less_induct)
  case less
  show ?case
  proof (cases "d = []")
    case True
    with less.prems(3) show ?thesis
      by (simp add: seal_payload.simps [of _ _ _ _ _ _ "[]"] slices.simps [of n "[]"] unat_u32_bound [of idx, simplified])
  next
    case False
    then have pend: "take n d \<noteq> []" using less.prems(1) by simp
    from read_frame_delivers [OF less.prems(2)] obtain r' where
      rf: "read_frame r n = (Inr (take n (drop n d)), r')" "delivers r' (drop n (drop n d))" .
    define sealed where "sealed = seal_part (pr_gcm_seal (bv_prims E)) s idx (drop n d = []) (take n d)"
    have flag: "take n (drop n d) = [] \<longleftrightarrow> drop n d = []" using less.prems(1) by auto
    note step = less.prems(3) [unfolded seal_payload.simps [of E ops s bref n r "take n d"], simplified pend rf Let_def
        prod.case sum.case if_False flag, folded sealed_def]
    from step obtain u c1 where put: "on_tier (op_put ops bref (ucast idx) sealed) c = (Inr u, c1)"
      by (auto split: prod.splits sum.splits)
    have last: "idx \<noteq> - 1" using step put by auto
    with step put have rest: "seal_payload E ops s bref n r' (take n (drop n d)) (idx + 1) (tot + length (take n d))
        (parts @ [part_entry E sealed]) c1 = (Inr (tot', parts'), c')"
      by (simp add: part_entry_def)
    have next_idx: "unat (idx + 1) = Suc (unat idx)" using last by (rule unat_next_u32)
    have h1: "holds c1 = (holds c)((bref, ucast idx) \<mapsto> sealed)" by (rule on_tier_put [OF put])
    have "length (drop n d) < length d" using False less.prems(1) by simp
    from less.hyps [OF this less.prems(1) rf(2) rest] have ih:
      "tot' = tot + length (take n d) + length (drop n d)" "Suc (unat idx) + length (slices n (drop n d)) < 2 ^ 32"
      "parts' = (parts @ [part_entry E sealed]) @ map (part_entry E)
         (sealed_parts (pr_gcm_seal (bv_prims E)) s (Suc (unat idx)) (slices n (drop n d)))"
      "stored (holds c') bref (Suc (unat idx))
         (sealed_parts (pr_gcm_seal (bv_prims E)) s (Suc (unat idx)) (slices n (drop n d)))"
      "same_below bref (Suc (unat idx)) (holds c1) (holds c')"
      by (simp_all add: next_idx Let_def)
    have sl: "slices n d = take n d # slices n (drop n d)" using False less.prems(1) by (simp add: slices.simps [of n d])
    have empty: "slices n (drop n d) = [] \<longleftrightarrow> drop n d = []" using less.prems(1) by (simp add: slices.simps [of n "drop n d"])
    have at: "holds c' (bref, word_of_nat (unat idx)) = Some sealed"
    proof -
      have "holds c' (bref, ucast idx) = holds c1 (bref, ucast idx)" using ih(5) by (simp add: same_below_def)
      then have "holds c' (bref, ucast idx) = Some sealed" by (simp add: h1)
      then show ?thesis by (simp only: ucast_u32_u64)
    qed
    have below: "same_below bref (unat idx) (holds c) (holds c')"
      by (rule same_below_trans [OF _ ih(5)]) (unfold h1, rule same_below_put, simp)
    have "tot' = tot + length d" using ih(1) by simp
    moreover have "unat idx + length (slices n d) < 2 ^ 32" using ih(2) sl by simp
    moreover have parts: "sealed_parts (pr_gcm_seal (bv_prims E)) s (unat idx) (slices n d) =
        sealed # sealed_parts (pr_gcm_seal (bv_prims E)) s (Suc (unat idx)) (slices n (drop n d))"
      by (simp add: sl empty sealed_def)
    moreover have "parts' = parts @ map (part_entry E) (sealed_parts (pr_gcm_seal (bv_prims E)) s (unat idx) (slices n d))"
      by (simp add: parts ih(3))
    moreover have "stored (holds c') bref (unat idx) (sealed_parts (pr_gcm_seal (bv_prims E)) s (unat idx) (slices n d))"
      unfolding parts stored.simps using at ih(4) by (rule conjI)
    ultimately show ?thesis using below unfolding Let_def by (intro conjI)
  qed
qed

lemma on_tier_get:
  "on_tier (op_get ops r k) c = (x, c') \<Longrightarrow> holds c' = holds c \<and> (x = Inr (holds c (r, k)) \<or> (\<exists>e. x = Inl (BeTier e)))"
  using get_law [of r k c] by (cases "op_get ops r k c"; cases "fst (op_get ops r k c)") (auto simp: on_tier_def)

end

section \<open>Opening what was sealed\<close>

lemma mxbu_header:
  assumes "length salt = 16" "length base = 12"
  shows "ok_header MXBU_MAGIC salt base" "length (mx_build_header ps salt base) = MXBU_HEADER_LEN"
proof -
  show ok: "ok_header MXBU_MAGIC salt base" using assms by (simp add: ok_header_def MXBU_MAGIC_def str_bytes_def)
  show "length (mx_build_header ps salt base) = MXBU_HEADER_LEN"
    using header_length [OF ok] by (simp add: mx_build_header_def HEADER_LEN_def MXBU_HEADER_LEN_def)
qed

lemma seal_part_length:
  assumes "aead_ok P" "length (ms_header s) = MXBU_HEADER_LEN"
  shows "length (seal_part (pr_gcm_seal P) s i l pt) = MXBU_HEADER_LEN + length pt + MXBU_TAG_LEN"
  using assms by (simp add: seal_part_def aead_open_seal TAG_LEN_def MXBU_TAG_LEN_def)

lemma open_seal_part:
  assumes "aead_ok P" "length (ms_header s) = MXBU_HEADER_LEN"
  shows "open_part (pr_gcm_open P) \<lparr>mo_header = ms_header s, mo_key = ms_key s\<rparr> i l (seal_part (pr_gcm_seal P) s i l pt) = Inr pt"
proof -
  have "\<not> length (seal_part (pr_gcm_seal P) s i l pt) < MXBU_HEADER_LEN + MXBU_TAG_LEN"
    by (simp add: seal_part_length [OF assms])
  then show ?thesis using assms by (simp add: open_part_def seal_part_def aead_open_seal)
qed

definition within_caps :: "argon2_params \<Rightarrow> bool" where
  "within_caps ps \<longleftrightarrow> ar_m_kib ps \<le> MAX_ARGON_M_KIB \<and> ar_t ps \<le> MAX_ARGON_T \<and> ar_p ps \<le> MAX_ARGON_P"

lemma from_headed_part:
  assumes len: "length salt = 16" "length base = 12" and long: "MXBU_TAG_LEN \<le> length ct"
    and new: "sealer_new argon2 salt base pw ps = Inr s"
  shows "length (ms_header s) = MXBU_HEADER_LEN"
    "from_part argon2 pw (ms_header s @ ct) =
       (if within_caps ps then Inr \<lparr>mo_header = ms_header s, mo_key = ms_key s\<rparr> else Inl CorruptPart)"
proof -
  from new obtain k where k: "derive_key argon2 pw salt ps = Inr k" and s: "s = \<lparr>ms_header = mx_build_header ps salt base, ms_key = k\<rparr>"
    by (auto simp: sealer_new_def Let_def result_simps split: if_splits)
  let ?h = "header_with MXBU_MAGIC MXBU_VERSION_V1 ps salt base"
  show hl: "length (ms_header s) = MXBU_HEADER_LEN" by (simp add: s mxbu_header [OF len])
  then have h: "ms_header s = ?h" "length ?h = MXBU_HEADER_LEN" by (simp_all add: s mx_build_header_def)
  note hf = header_fields [OF mxbu_header(1) [OF len], of MXBU_VERSION_V1 ps ct]
  have hlen: "HEADER_LEN = MXBU_HEADER_LEN" by (simp add: HEADER_LEN_def MXBU_HEADER_LEN_def)
  have parsed: "parse_header (?h @ ct) = (if within_caps ps then Inr (?h, ps) else Inl CorruptPart)"
    using long h(2) hf(1,2,5,6) unfolding parse_header_def within_caps_def Let_def hlen by (auto simp: not_less not_le)
  have salt: "salt_of ?h = salt" using header_fields(3) [OF mxbu_header(1) [OF len], of MXBU_VERSION_V1 ps "[]"]
    by (simp add: salt_of_def)
  show "from_part argon2 pw (ms_header s @ ct) =
       (if within_caps ps then Inr \<lparr>mo_header = ms_header s, mo_key = ms_key s\<rparr> else Inl CorruptPart)"
    unfolding from_part_def h parsed by (simp add: salt k) (simp add: s mx_build_header_def)
qed

lemma from_sealed_part:
  assumes aead: "aead_ok P" and len: "length salt = 16" "length base = 12"
    and new: "sealer_new argon2 salt base pw ps = Inr s"
  shows "length (ms_header s) = MXBU_HEADER_LEN"
    "from_part argon2 pw (seal_part (pr_gcm_seal P) s i l pt) =
       (if within_caps ps then Inr \<lparr>mo_header = ms_header s, mo_key = ms_key s\<rparr> else Inl CorruptPart)"
  using from_headed_part(1) [OF len _ new, of "replicate 16 0"] from_headed_part(2) [OF len _ new]
  by (simp_all add: seal_part_def aead_open_seal(2) [OF aead] TAG_LEN_def MXBU_TAG_LEN_def)

context cold_tier
begin

lemma open_parts_stored:
  assumes aead: "aead_ok (bv_prims E)" and hl: "length (ms_header s) = MXBU_HEADER_LEN"
  shows "stored (holds c) (component_ref (bm_stamp m) (bm_component m)) (Suc pos) (sealed_parts (pr_gcm_seal (bv_prims E)) s (Suc pos) fs) \<Longrightarrow>
   length (bm_parts m) = pos + length fs \<Longrightarrow> pos + length fs < 2 ^ 32 \<Longrightarrow>
   open_parts E ops vec_write \<lparr>mo_header = ms_header s, mo_key = ms_key s\<rparr> m pos
     (map (part_entry E) (sealed_parts (pr_gcm_seal (bv_prims E)) s (Suc pos) fs)) (c, out) = (x, c', out') \<Longrightarrow>
   x = Inr () \<and> out' = out @ concat fs \<or> (\<exists>e. x = Inl (BeTier e))"
proof (induction fs arbitrary: pos c out)
  case (Cons f fs)
  let ?part = "seal_part (pr_gcm_seal (bv_prims E)) s (word_of_nat (Suc pos)) (fs = []) f"
  let ?ref = "component_ref (bm_stamp m) (bm_component m)"
  have "unat (word_of_nat (Suc pos) :: u32) = Suc pos" unfolding unat_of_nat using Cons.prems(3) by simp
  then have idx: "(ucast (word_of_nat (Suc pos) :: u32) :: u64) = word_of_nat (Suc pos)" by (simp only: ucast_u32_u64)
  obtain y c1 where got: "on_tier (op_get ops ?ref (word_of_nat (Suc pos))) c = (y, c1)" by fastforce
  have at: "holds c (?ref, word_of_nat (Suc pos)) = Some ?part" using Cons.prems(1) by simp
  note g = on_tier_get [OF got, unfolded at]
  have last: "pos + 1 = length (bm_parts m) \<longleftrightarrow> fs = []" using Cons.prems(2) by simp
  show ?case
  proof (cases y)
    case (Inl e)
    with g Cons.prems(4) got idx show ?thesis by (auto simp: sbind_def on_fst_def Let_def)
  next
    case (Inr found)
    with g have found: "found = Some ?part" by simp
    have "open_parts E ops vec_write \<lparr>mo_header = ms_header s, mo_key = ms_key s\<rparr> m (Suc pos)
        (map (part_entry E) (sealed_parts (pr_gcm_seal (bv_prims E)) s (Suc (Suc pos)) fs)) (c1, out @ f) = (x, c', out')"
      using Cons.prems(4) got idx Inr found last open_seal_part [OF aead hl, of "word_of_nat (Suc pos)" "fs = []" f]
      by (simp add: sbind_def on_fst_def on_snd_def check_def Let_def part_entry_def [abs_def] vec_write_def [abs_def])
    from Cons.IH [OF _ _ _ this] Cons.prems(1-3) g show ?thesis by simp
  qed
qed (simp add: sret_def)

end

text \<open>The documented behaviour of the packages that bundles rely on.\<close>

definition backup_env_ok :: "backup_env \<Rightarrow> bool" where
  "backup_env_ok E \<longleftrightarrow> aead_ok (bv_prims E) \<and> (\<forall>x. length (bv_sha E x) = 32) \<and>
     (\<forall>s. utf8_valid s \<longrightarrow> utf8_valid (bv_to_nfc E s)) \<and> (\<forall>s. bv_is_nfc E (bv_to_nfc E s))"

lemma ok_part_entry: "backup_env_ok E \<Longrightarrow> ok_backup_part (part_entry E x)"
  by (simp add: backup_env_ok_def ok_backup_part_def part_entry_def ok_b32_def)

definition str_ok :: "string option \<Rightarrow> bool" where
  "str_ok s = (case s of None \<Rightarrow> True | Some s \<Rightarrow> utf8_valid (str_bytes s))"

lemma opt_to_text_ok:
  assumes "backup_env_ok E" "str_ok sha" "opt_to_text (bv_to_nfc E) sha = Inr t"
  shows "ok_text (bv_is_nfc E) t"
  proof -
  have "utf8_valid (str_bytes [])" by (simp add: str_bytes_def utf8_valid.simps)
  with assms show ?thesis by (cases sha) (auto simp: opt_to_text_def text_new_def backup_env_ok_def str_ok_def ok_text_def
      Let_def map_err_eq_Inr split: if_splits)
qed

text \<open>What a sealed component leaves in a tier: part 0 is the index and the parts from 1 on the payload.\<close>

definition holds_component :: "backup_env \<Rightarrow> blobs \<Rightarrow> string \<Rightarrow> mxbu_sealer \<Rightarrow> backup_index \<Rightarrow> bytes list \<Rightarrow> bool" where
  "holds_component E m r s ix fs \<longleftrightarrow>
     m (r, 0) = Some (seal_part (pr_gcm_seal (bv_prims E)) s 0 PART0_IS_LAST (encode TYPE_BACKUP_INDEX put_backup_index ix)) \<and>
     stored m r 1 (sealed_parts (pr_gcm_seal (bv_prims E)) s 1 fs) \<and> Suc (length fs) < 2 ^ 32 \<and>
     bx_parts ix = map (part_entry E) (sealed_parts (pr_gcm_seal (bv_prims E)) s 1 fs)"

definition meta_of :: "string \<Rightarrow> component \<Rightarrow> backup_index \<Rightarrow> bundle_meta" where
  "meta_of stamp cpt ix = \<lparr>bm_component = cpt, bm_stamp = stamp, bm_git_sha = text_to_opt (bx_git_sha ix),
     bm_created_at = ts_raw (bx_created_at ix), bm_entries = bx_entries ix, bm_parts = bx_parts ix\<rparr>"

context cold_tier
begin

lemma seal_component_holds:
  assumes src: "delivers src payload"
    and seal: "seal_component E ops pw random stamp sha cpt entries src argon n at c = (Inr m, c')"
  obtains s ix where "sealer_new (bv_argon2 E) (fst random) (snd random) pw argon = Inr s" "stamp_ok stamp"
    "holds_component E (holds c') (component_ref stamp cpt) s ix (slices n payload)" "m = meta_of stamp cpt ix"
    "opt_to_text (bv_to_nfc E) sha = Inr (bx_git_sha ix)" "bx_entries ix = entries" "bx_created_at ix = Timestamp at"
    "entries \<noteq> [] \<longrightarrow> declared_len entries = length payload" "0 < n"
proof -
  obtain r where rf: "read_frame src n = (Inr (take n payload), r)" "delivers r (drop n payload)"
    using read_frame_delivers [OF src] .
  from seal rf obtain s tot parts c1 where s: "sealer_new (bv_argon2 E) (fst random) (snd random) pw argon = Inr s"
    and st: "stamp_ok stamp" and n: "0 < n"
    and pay: "seal_payload E ops s (component_ref stamp cpt) n r (take n payload) 1 0 [] c = (Inr (tot, parts), c1)"
    and len: "entries \<noteq> [] \<longrightarrow> declared_len entries = tot"
    and ind: "seal_index E ops s stamp sha cpt entries parts at c1 = (Inr m, c')"
    by (auto simp: seal_component_def request_ok validate_stamp_def check_part_size_def map_err_eq_Inr split: if_splits)
  note p = seal_payload_parts [OF n rf(2) pay, unfolded Let_def, simplified]
  from ind obtain t u where t: "opt_to_text (bv_to_nfc E) sha = Inr t"
    and put: "on_tier (op_put ops (component_ref stamp cpt) 0 (seal_part (pr_gcm_seal (bv_prims E)) s 0 PART0_IS_LAST
      (encode TYPE_BACKUP_INDEX put_backup_index \<lparr>bx_git_sha = t, bx_entries = entries, bx_parts = parts,
        bx_created_at = Timestamp at\<rparr>))) c1 = (Inr u, c')"
    and m: "m = \<lparr>bm_component = cpt, bm_stamp = stamp, bm_git_sha = text_to_opt t, bm_created_at = at,
      bm_entries = entries, bm_parts = parts\<rparr>"
    by (auto simp: seal_index_def request_ok Let_def)
  let ?ix = "\<lparr>bx_git_sha = t, bx_entries = entries, bx_parts = parts, bx_created_at = Timestamp at\<rparr>"
  let ?xs = "sealed_parts (pr_gcm_seal (bv_prims E)) s 1 (slices n payload)"
  note h = on_tier_put [OF put]
  have "stored (holds c') (component_ref stamp cpt) 1 ?xs \<longleftrightarrow> stored (holds c1) (component_ref stamp cpt) 1 ?xs"
    by (rule stored_cong) (use p in \<open>auto simp: h\<close>)
  then have "holds_component E (holds c') (component_ref stamp cpt) s ?ix (slices n payload)"
    using p by (simp add: holds_component_def h)
  moreover have "m = meta_of stamp cpt ?ix" by (simp add: m meta_of_def)
  ultimately show thesis using p len by (intro that [of s ?ix]) (simp_all add: s st t n)
qed

lemma open_component_holds:
  assumes E: "backup_env_ok E" and len: "length (fst random) = 16" "length (snd random) = 12"
    and s: "sealer_new (bv_argon2 E) (fst random) (snd random) pw argon = Inr s" and st: "stamp_ok stamp"
    and ix: "ok_backup_index (bv_is_nfc E) ix"
    and held: "holds_component E (holds c) (component_ref stamp cpt) s ix fs"
    and opened: "open_component E ops vec_write pw stamp cpt (c, []) = (x, c', out)"
  shows "within_caps argon \<and> x = Inr (meta_of stamp cpt ix) \<and> out = concat fs \<or>
     \<not> within_caps argon \<and> x = Inl (BeMxbu CorruptPart) \<or> (\<exists>e. x = Inl (BeTier e))"
proof -
  have aead: "aead_ok (bv_prims E)" using E by (simp add: backup_env_ok_def)
  let ?part0 = "seal_part (pr_gcm_seal (bv_prims E)) s 0 PART0_IS_LAST (encode TYPE_BACKUP_INDEX put_backup_index ix)"
  let ?opn = "\<lparr>mo_header = ms_header s, mo_key = ms_key s\<rparr>"
  note opener = from_sealed_part [OF aead len s]
  obtain y c1 where got: "on_tier (op_get ops (component_ref stamp cpt) 0) c = (y, c1)" by fastforce
  have at: "holds c (component_ref stamp cpt, 0) = Some ?part0" using held by (simp add: holds_component_def)
  note g = on_tier_get [OF got, unfolded at]
  show ?thesis
  proof (cases "\<exists>e. y = Inl (BeTier e)")
    case True
    with opened got st show ?thesis
      by (auto simp: open_component_def read_index_def sbind_def on_fst_def check_def validate_stamp_def)
  next
    case False
    with g have y: "y = Inr (Some ?part0)" by blast
    have body: "open_part (pr_gcm_open (bv_prims E)) ?opn 0 PART0_IS_LAST ?part0 = Inr (encode TYPE_BACKUP_INDEX put_backup_index ix)"
      by (rule open_seal_part [OF aead opener(1)])
    have dec: "decode TYPE_BACKUP_INDEX put_backup_index (get_backup_index (bv_is_nfc E)) (encode TYPE_BACKUP_INDEX put_backup_index ix) = Inr ix"
      by (rule backup_index.decode_encode [OF ix])
    show ?thesis
    proof (cases "within_caps argon")
      case True
      then have index: "on_fst (read_index E ops pw stamp cpt) (c, [] :: bytes) = (Inr (?opn, meta_of stamp cpt ix), c1, [])"
        using got y st by (simp add: read_index_def sbind_def on_fst_def check_def validate_stamp_def opener(2) body dec
            sret_def meta_of_def)
      obtain z c2 out2 where pay: "open_payload E ops vec_write ?opn (meta_of stamp cpt ix) (c1, []) = (z, c2, out2)"
        by (metis prod_cases3)
      have "z = Inr () \<and> out2 = [] @ concat fs \<or> (\<exists>e. z = Inl (BeTier e))"
        using open_parts_stored [OF aead opener(1), of c1 "meta_of stamp cpt ix" 0 fs "[]" z c2 out2] pay held g
        by (simp add: open_payload_def holds_component_def meta_of_def)
      with opened index pay True show ?thesis
        by (auto simp: open_component_def sbind_def sret_def split: sum.splits)
    next
      case False
      with opened got y st show ?thesis
        by (simp add: open_component_def read_index_def sbind_def on_fst_def check_def validate_stamp_def opener(2))
    qed
  qed
qed

end

section \<open>On a tier that never fails\<close>

definition never_fails :: "('c, 'm) cold_ops_scheme \<Rightarrow> bool" where
  "never_fails C \<longleftrightarrow> (\<forall>r k b c. \<exists>c'. op_put C r k b c = (Inr (), c')) \<and> (\<forall>r k c. \<not> isl (fst (op_get C r k c)))"

lemma memory_cold_get: "op_get (memory_cold_ops rnd) r k c = (Inr (mem_get r k (mc_inner c)), c)"
  by (simp add: memory_cold_ops_def)

lemma on_tier_memory_get: "on_tier (op_get (memory_cold_ops rnd) r k) c = (Inr (mem_get r k (mc_inner c)), c)"
  by (simp add: on_tier_def memory_cold_get)

lemma memory_cold_never_fails: "never_fails (memory_cold_ops random)"
  by (simp add: never_fails_def memory_cold_ops_def smodify_def)

lemma seal_payload_works:
  assumes "never_fails C" "0 < n"
  shows "delivers r (drop n d) \<Longrightarrow> unat idx + length (slices n d) < 2 ^ 32 \<Longrightarrow>
    \<exists>parts' c'. seal_payload E C s bref n r (take n d) idx tot parts c = (Inr (tot + length d, parts'), c')"
proof (induction "length d" arbitrary: d r idx tot parts c rule: less_induct)
  case less
  show ?case
  proof (cases "d = []")
    case True
    then show ?thesis by (simp add: seal_payload.simps [of _ _ _ _ _ _ "[]"])
  next
    case False
    then have pend: "take n d \<noteq> []" using assms(2) by simp
    from read_frame_delivers [OF less.prems(1)] obtain r' where
      rf: "read_frame r n = (Inr (take n (drop n d)), r')" "delivers r' (drop n (drop n d))" .
    have flag: "take n (drop n d) = [] \<longleftrightarrow> drop n d = []" using assms(2) by auto
    let ?x = "seal_part (pr_gcm_seal (bv_prims E)) s idx (drop n d = []) (take n d)"
    from assms(1) obtain c1 where put: "op_put C bref (ucast idx) ?x c = (Inr (), c1)" unfolding never_fails_def by metis
    have sl: "slices n d = take n d # slices n (drop n d)" using False assms(2) by (simp add: slices.simps [of n d])
    have last: "idx \<noteq> - 1"
    proof
      assume "idx = - 1"
      then have "unat idx = 2 ^ 32 - 1" by (simp add: unsigned_minus_1_eq_mask mask_eq_exp_minus_1)
      with less.prems(2) sl show False by simp
    qed
    have "length (drop n d) < length d" using False assms(2) by simp
    from less.hyps [OF this rf(2), of "idx + 1" "tot + length (take n d)"
        "parts @ [part_entry E ?x]" c1] less.prems(2) sl obtain parts' c' where
      "seal_payload E C s bref n r' (take n (drop n d)) (idx + 1) (tot + length (take n d)) (parts @ [part_entry E ?x]) c1 =
        (Inr (tot + length (take n d) + length (drop n d), parts'), c')"
      by (auto simp: unat_next_u32 [OF last])
    then show ?thesis using pend rf flag put last
      by (simp add: seal_payload.simps [of E C s bref n r "take n d"] Let_def on_tier_def part_entry_def min_def)
  qed
qed

lemma seal_component_works:
  assumes "never_fails C" "stamp_ok stamp" "0 < n" "n \<le> MAX_PART_SIZE" "delivers src payload"
    and "sealer_new (bv_argon2 E) (fst random) (snd random) pw argon = Inr s"
    and "Suc (length (slices n payload)) < 2 ^ 32" "entries = [] \<or> declared_len entries = length payload"
    and "opt_to_text (bv_to_nfc E) sha = Inr t"
  shows "\<exists>m c'. seal_component E C pw random stamp sha cpt entries src argon n at c = (Inr m, c')"
proof -
  obtain r where rf: "read_frame src n = (Inr (take n payload), r)" "delivers r (drop n payload)"
    using read_frame_delivers [OF assms(5)] .
  obtain parts c1 where pay: "seal_payload E C s (component_ref stamp cpt) n r (take n payload) 1 0 [] c = (Inr (length payload, parts), c1)"
    using seal_payload_works [OF assms(1,3) rf(2), of 1 E s "component_ref stamp cpt" 0 "[]" c] assms(7) by auto
  let ?part0 = "seal_part (pr_gcm_seal (bv_prims E)) s 0 PART0_IS_LAST (encode TYPE_BACKUP_INDEX put_backup_index
    \<lparr>bx_git_sha = t, bx_entries = entries, bx_parts = parts, bx_created_at = Timestamp at\<rparr>)"
  obtain c2 where "op_put C (component_ref stamp cpt) 0 ?part0 c1 = (Inr (), c2)" using assms(1) unfolding never_fails_def by metis
  then show ?thesis using assms(2-4,6,8,9) rf pay
    by (auto simp: seal_component_def sbind_def check_def validate_stamp_def check_part_size_def seal_index_def on_tier_def
        sret_def Let_def)
qed

lemma open_parts_no_fault:
  "never_fails C \<Longrightarrow> fst (open_parts E C vec_write opn m pos ps w) \<noteq> Inl (BeTier e)"
proof (induction ps arbitrary: pos w)
  case (Cons p ps)
  obtain y c1 where g: "op_get C (component_ref (bm_stamp m) (bm_component m)) (ucast (word_of_nat (pos + 1) :: u32)) (fst w) = (Inr y, c1)"
    using Cons.prems unfolding never_fails_def by (metis (no_types, lifting) isl_def obj_sumE prod.collapse sum.disc(1))
  show ?case using Cons g
    by (auto simp: sbind_def on_fst_def on_snd_def check_def on_tier_def Let_def vec_write_def [abs_def] ok_or_def map_err_def
        split: option.splits sum.splits prod.splits)
qed (simp add: sret_def)

lemma open_component_no_fault:
  assumes "never_fails C"
  shows "fst (open_component E C vec_write pw stamp cpt (c, out)) \<noteq> Inl (BeTier e)"
proof -
  obtain y c1 where g: "op_get C (component_ref stamp cpt) 0 c = (Inr y, c1)"
    using assms unfolding never_fails_def by (metis (no_types, lifting) isl_def obj_sumE prod.collapse sum.disc(1))
  have pay: "open_parts E C vec_write opn m pos ps w \<noteq> (Inl (BeTier e), w')" for opn m pos ps w w'
    using open_parts_no_fault [OF assms, of E opn m pos ps w e] by auto
  show ?thesis using g
    by (auto simp: pay open_component_def read_index_def open_payload_def sbind_def on_fst_def check_def on_tier_def sret_def
        ok_or_def map_err_def validate_stamp_def split: option.splits sum.splits prod.splits)
qed

text \<open>C34: A sealed component comes back whole. After a seal that succeeded, on any tier that keeps its contract, opening
  the component under the same passphrase yields exactly the metadata that sealing reported and exactly the bytes the
  source delivered, however it delivered them and whatever the part size; the only other outcomes are a fault of a tier
  that can fail and, when the Argon2 parameters were above the caps that only reading enforces, a corrupt part.\<close>

theorem sealed_component_opens:
  assumes "cold_tier C holds" and "backup_env_ok E" and "length (fst random) = 16" and "length (snd random) = 12"
    and "str_ok sha" and "length entries < 2 ^ 32" and "\<forall>e \<in> set entries. ok_backup_entry (bv_is_nfc E) e"
    and "delivers src payload"
    and "seal_component E C pw random stamp sha cpt entries src argon part_size created_at c = (Inr m, c')"
    and "open_component E C vec_write pw stamp cpt (c', []) = (x, c'', out)"
  shows "within_caps argon \<and> x = Inr m \<and> out = payload \<or>
     \<not> within_caps argon \<and> x = Inl (BeMxbu CorruptPart) \<or> \<not> never_fails C \<and> (\<exists>e. x = Inl (BeTier e))"
proof -
  obtain s ix where h: "sealer_new (bv_argon2 E) (fst random) (snd random) pw argon = Inr s" "stamp_ok stamp"
    "holds_component E (holds c') (component_ref stamp cpt) s ix (slices part_size payload)" "m = meta_of stamp cpt ix"
    "opt_to_text (bv_to_nfc E) sha = Inr (bx_git_sha ix)" "bx_entries ix = entries" "0 < part_size"
    using cold_tier.seal_component_holds [OF assms(1,8,9)] by blast
  have "length (bx_parts ix) < 2 ^ 32" "\<forall>p \<in> set (bx_parts ix). ok_backup_part p"
    using h(3) ok_part_entry [OF assms(2)] by (auto simp: holds_component_def)
  with opt_to_text_ok [OF assms(2,5) h(5)] have ix: "ok_backup_index (bv_is_nfc E) ix"
    using assms(6,7) by (simp add: ok_backup_index_def h(6))
  have "concat (slices part_size payload) = payload"
    using concat_stream_frames [OF h(7), of payload] by (cases "slices part_size payload = []") (simp_all add: stream_frames_def)
  with cold_tier.open_component_holds [OF assms(1-4) h(1,2) ix h(3) assms(10)]
    open_component_no_fault [of C E pw stamp cpt c' "[]"] show ?thesis by (auto simp: h(4) assms(10))
qed

text \<open>A bundle to run the properties on: twelve characters of passphrase, the floor's parameters, frames of four bytes.\<close>

definition toy_backup_env :: backup_env where
  "toy_backup_env = \<lparr>bv_prims = toy_prims\<lparr>pr_sha := \<lambda>_. replicate 32 0\<rparr>, bv_argon2 = toy_argon2, bv_to_nfc = (\<lambda>s. s),
     bv_is_nfc = (\<lambda>_. True), bv_to_json = (\<lambda>_. Some []), bv_from_json = (\<lambda>_. Some \<lparr>mf_stamp = ''s'', mf_git_sha = None, mf_created_at = 7,
       mf_components = [(''db'', \<lparr>chn_parts = []\<rparr>)]\<rparr>)\<rparr>"

definition toy_passphrase :: bytes where
  "toy_passphrase = replicate 12 97"

definition toy_random :: "bytes \<times> bytes" where
  "toy_random = (replicate 16 1, replicate 12 2)"

lemma toy_backup_env_ok: "backup_env_ok toy_backup_env"
  by (simp add: backup_env_ok_def toy_backup_env_def aead_ok_def aead_correct_def toy_prims_with_def toy_gcm_seal_def
      toy_gcm_open_def TAG_LEN_def bv_sha_def)

definition toy_bundle_tier :: "memory_cold cold_ops" where
  "toy_bundle_tier = memory_cold_ops []"

definition toy_sealer :: mxbu_sealer where
  "toy_sealer = \<lparr>ms_header = mx_build_header ARGON2_FLOOR (replicate 16 1) (replicate 12 2), ms_key = replicate 32 0\<rparr>"

lemma toy_sealer_new: "sealer_new toy_argon2 (fst toy_random) (snd toy_random) toy_passphrase ARGON2_FLOOR = Inr toy_sealer"
  by (simp add: sealer_new_def toy_passphrase_def chars_count_def utf8_cont_def MIN_PASSPHRASE_CHARS_def derive_key_def
      meets_floor_def ARGON2_FLOOR_def toy_argon2_def toy_random_def toy_sealer_def)

lemma toy_seals: "\<exists>m c'. seal_component toy_backup_env toy_bundle_tier toy_passphrase toy_random ''s'' (Some ''ab'') CompDb []
    [RData [1, 2], RData [3, 4, 5]] ARGON2_FLOOR 4 7 (with_master_token []) = (Inr m, c')"
proof (rule seal_component_works)
  show "never_fails toy_bundle_tier" unfolding toy_bundle_tier_def by (rule memory_cold_never_fails)
  show "stamp_ok ''s''" by (simp add: stamp_ok_def is_ascii_alnum_def code_of_def)
  show "delivers [RData [1, 2], RData [3, 4, 5]] [1, 2, 3, 4, 5]" by (simp add: delivers_Data delivers_Nil)
  show "sealer_new (bv_argon2 toy_backup_env) (fst toy_random) (snd toy_random) toy_passphrase ARGON2_FLOOR = Inr toy_sealer"
    using toy_sealer_new by (simp add: toy_backup_env_def)
  show "opt_to_text (bv_to_nfc toy_backup_env) (Some ''ab'') = Inr (Text (str_bytes ''ab''))"
    by (simp add: opt_to_text_def text_new_def toy_backup_env_def str_bytes_def MAX_TEXT_def)
  show "Suc (length (slices 4 [1, 2, 3, 4, 5])) < 2 ^ 32" by (simp add: slices.simps)
qed (simp_all add: MAX_PART_SIZE_def)

theorem sealed_component_opens_witness:
  "\<exists>m c'. seal_component toy_backup_env toy_bundle_tier toy_passphrase toy_random ''s'' (Some ''ab'') CompDb []
      [RData [1, 2], RData [3, 4, 5]] ARGON2_FLOOR 4 7 (with_master_token []) = (Inr m, c') \<and>
    (\<exists>c''. open_component toy_backup_env toy_bundle_tier vec_write toy_passphrase ''s'' CompDb (c', []) =
      (Inr m, c'', [1, 2, 3, 4, 5]))"
proof -
  obtain m c' where seal: "seal_component toy_backup_env toy_bundle_tier toy_passphrase toy_random ''s'' (Some ''ab'') CompDb []
      [RData [1, 2], RData [3, 4, 5]] ARGON2_FLOOR 4 7 (with_master_token []) = (Inr m, c')"
    using toy_seals by blast
  obtain x c'' out where opened: "open_component toy_backup_env toy_bundle_tier vec_write toy_passphrase ''s'' CompDb (c', []) =
      (x, c'', out)" by (metis prod_cases3)
  have tier: "cold_tier toy_bundle_tier (\<lambda>s. mem_holds (mc_inner s))"
    unfolding toy_bundle_tier_def by (rule memory_cold.cold_tier_axioms)
  have "utf8_valid (str_bytes ''ab'')" by (simp add: str_bytes_def utf8_valid.simps)
  then have sha: "str_ok (Some ''ab'')" by (simp add: str_ok_def)
  have src: "delivers [RData [1, 2], RData [3, 4, 5]] [1, 2, 3, 4, 5]" by (simp add: delivers_Data delivers_Nil)
  have caps: "within_caps ARGON2_FLOOR"
    by (simp add: within_caps_def ARGON2_FLOOR_def MAX_ARGON_M_KIB_def MAX_ARGON_T_def MAX_ARGON_P_def)
  have nf: "never_fails toy_bundle_tier" unfolding toy_bundle_tier_def by (rule memory_cold_never_fails)
  have len: "length (fst toy_random) = 16" "length (snd toy_random) = 12" "length ([] :: backup_entry list) < 2 ^ 32"
    "\<forall>e \<in> set []. ok_backup_entry (bv_is_nfc toy_backup_env) e" by (simp_all add: toy_random_def)
  from sealed_component_opens [OF tier toy_backup_env_ok len(1,2) sha len(3,4) src seal opened] caps nf seal opened
  show ?thesis by auto
qed

section \<open>What a passphrase opens\<close>

text \<open>What sealing a component passes to the cipher: the index at position 0, the frames from 1 on.\<close>

definition sealed_at :: "backup_index \<Rightarrow> bytes list \<Rightarrow> u32 \<Rightarrow> bool \<Rightarrow> bytes \<Rightarrow> bool" where
  "sealed_at ix fs j l pt \<longleftrightarrow> j = 0 \<and> l = PART0_IS_LAST \<and> pt = encode TYPE_BACKUP_INDEX put_backup_index ix \<or>
     (\<exists>i < length fs. j = word_of_nat (Suc i) \<and> l = (Suc i = length fs) \<and> pt = fs ! i)"

text \<open>The components sealed under a passphrase: header, index and frames. Salt and nonce base are drawn per component, so
  no two components share a header.\<close>

type_synonym ledger = "(bytes \<times> backup_index \<times> bytes list) set"

definition ledger_ok :: "backup_env \<Rightarrow> ledger \<Rightarrow> bool" where
  "ledger_ok E L \<longleftrightarrow> (\<forall>(h, ix, fs) \<in> L. length h = MXBU_HEADER_LEN \<and> ok_backup_index (bv_is_nfc E) ix \<and>
      length (bx_parts ix) = length fs \<and> Suc (length fs) < 2 ^ 32) \<and> inj_on fst L"

text \<open>Ciphertext integrity for every key that the passphrase can yield: it opens only what was sealed.\<close>

definition opens_only_sealed :: "backup_env \<Rightarrow> bytes \<Rightarrow> ledger \<Rightarrow> bool" where
  "opens_only_sealed E pw L \<longleftrightarrow> (\<forall>salt ps key n a ct pt. bv_argon2 E ps pw salt = Some key \<longrightarrow>
     pr_gcm_open (bv_prims E) key n a ct = Some pt \<longrightarrow>
     (\<exists>(h, ix, fs) \<in> L. \<exists>j l. sealed_at ix fs j l pt \<and> n = part_nonce (nonce_base h) j \<and> a = part_aad h j l))"

lemma part_index_eq: "i < 2 ^ 32 \<Longrightarrow> k < 2 ^ 32 \<Longrightarrow> word_of_nat i = (word_of_nat k :: u32) \<longleftrightarrow> i = k"
  by (auto simp: word_unat_eq_iff unat_of_nat)

lemma open_part_sealed:
  assumes "opens_only_sealed E pw L" "ledger_ok E L"
    and "from_part (bv_argon2 E) pw part0 = Inr opn" "open_part (pr_gcm_open (bv_prims E)) opn j l part = Inr pt"
  obtains ix fs where "(mo_header opn, ix, fs) \<in> L" "sealed_at ix fs j l pt"
proof -
  from assms(3) obtain ps where key: "derive_key (bv_argon2 E) pw (salt_of (mo_header opn)) ps = Inr (mo_key opn)"
    and h: "parse_header part0 = Inr (mo_header opn, ps)"
    by (auto simp: from_part_def result_simps)
  have hl: "length (mo_header opn) = MXBU_HEADER_LEN"
  proof -
    from h have "mo_header opn = bslice 0 MXBU_HEADER_LEN part0" "MXBU_HEADER_LEN \<le> length part0"
      by (auto simp: parse_header_def Let_def split: if_splits)
    then show ?thesis by (simp add: bslice_def)
  qed
  have "bv_argon2 E ps pw (salt_of (mo_header opn)) = Some (mo_key opn)"
    using key by (auto simp: derive_key_def ok_or_eq_Inr split: if_splits)
  moreover have "pr_gcm_open (bv_prims E) (mo_key opn) (part_nonce (nonce_base (mo_header opn)) j)
      (part_aad (mo_header opn) j l) (drop MXBU_HEADER_LEN part) = Some pt"
    using assms(4) by (auto simp: open_part_def open1_def map_err_eq_Inr ok_or_eq_Inr split: if_splits)
  ultimately obtain h' ix fs j' l' where e: "(h', ix, fs) \<in> L" "sealed_at ix fs j' l' pt"
    "part_aad (mo_header opn) j l = part_aad h' j' l'"
    using assms(1) unfolding opens_only_sealed_def by blast
  have "length h' = MXBU_HEADER_LEN" using assms(2) e(1) by (auto simp: ledger_ok_def)
  with part_aad_inj [OF _ e(3)] hl have "mo_header opn = h' \<and> j = j' \<and> l = l'" by simp
  with e show thesis using that by blast
qed

lemma opened_frame:
  assumes "opens_only_sealed E pw L" "ledger_ok E L" "from_part (bv_argon2 E) pw part0 = Inr opn"
    and "(mo_header opn, ix, fs) \<in> L"
    and op: "open_part (pr_gcm_open (bv_prims E)) opn (word_of_nat (Suc pos)) l part = Inr pt" and "pos < length fs"
  shows "pt = fs ! pos"
proof -
  from open_part_sealed [OF assms(1-3) op] obtain ix' fs' where e: "(mo_header opn, ix', fs') \<in> L"
    "sealed_at ix' fs' (word_of_nat (Suc pos)) l pt" .
  have bound: "Suc (length fs) < 2 ^ 32" using assms(2,4) by (auto simp: ledger_ok_def)
  have "inj_on fst L" using assms(2) by (simp add: ledger_ok_def)
  from inj_onD [OF this _ e(1) assms(4)] have same: "fs' = fs" by simp
  have pos_at: "word_of_nat (Suc pos) \<noteq> (0 :: u32)" "i < length fs \<Longrightarrow> word_of_nat (Suc pos) = (word_of_nat (Suc i) :: u32) \<Longrightarrow> i = pos" for i
    using part_index_eq [of "Suc pos" 0] part_index_eq [of "Suc pos" "Suc i"] bound assms(6) by (simp_all del: of_nat_Suc)
  from e(2) show "pt = fs ! pos"
    unfolding sealed_at_def same using pos_at by (auto simp del: word_of_nat_eq_0_iff of_nat_Suc)
qed

lemma on_snd_vec_write: "on_snd (vec_write pt) w = (Inr (), fst w, snd w @ pt)"
  by (simp add: on_snd_def vec_write_def)

lemma open_parts_sealed:
  assumes "opens_only_sealed E pw L" "ledger_ok E L" "from_part (bv_argon2 E) pw part0 = Inr opn"
    and "(mo_header opn, ix, fs) \<in> L"
  shows "open_parts E C vec_write opn m pos ps (c, out) = (Inr u, c', out') \<Longrightarrow> pos + length ps = length fs \<Longrightarrow>
    length (bm_parts m) = length fs \<Longrightarrow> out' = out @ concat (drop pos fs)"
proof (induction ps arbitrary: pos c out)
  case (Cons p ps)
  from Cons.prems(1) obtain part c1 pt where
    op: "open_part (pr_gcm_open (bv_prims E)) opn (word_of_nat (Suc pos)) (Suc pos = length (bm_parts m)) part = Inr pt"
    and rest: "open_parts E C vec_write opn m (Suc pos) ps (c1, out @ pt) = (Inr u, c', out')"
    by (auto simp: Let_def on_fst_def on_snd_vec_write request_ok map_err_eq_Inr ok_or_eq_Inr
        split: if_splits prod.splits)
  have "pos < length fs" using Cons.prems(2) by simp
  then have "pt = fs ! pos" using opened_frame [OF assms op] Cons.prems(3) by simp
  with Cons.IH [OF rest] Cons.prems(2,3) \<open>pos < length fs\<close> show ?case by (simp add: Cons_nth_drop_Suc [symmetric])
qed (simp add: sret_def)

lemma opened_index:
  assumes only: "opens_only_sealed E pw L" and L: "ledger_ok E L" and opn: "from_part (bv_argon2 E) pw part0 = Inr opn"
    and op: "open_part (pr_gcm_open (bv_prims E)) opn 0 PART0_IS_LAST part = Inr body"
    and dec: "decode TYPE_BACKUP_INDEX put_backup_index (get_backup_index (bv_is_nfc E)) body = Inr ix0"
  obtains fs where "(mo_header opn, ix0, fs) \<in> L"
proof -
  from open_part_sealed [OF only L opn op] obtain ix fs where e: "(mo_header opn, ix, fs) \<in> L"
    "sealed_at ix fs 0 PART0_IS_LAST body" .
  with L have ok: "ok_backup_index (bv_is_nfc E) ix" "length (bx_parts ix) = length fs" "Suc (length fs) < 2 ^ 32"
    by (auto simp: ledger_ok_def)
  have not_zero: "(0 :: u32) \<noteq> word_of_nat (Suc i)" if "i < length fs" for i
    using part_index_eq [of 0 "Suc i"] ok(3) that by (simp del: of_nat_Suc)
  with e(2) have "body = encode TYPE_BACKUP_INDEX put_backup_index ix"
    unfolding sealed_at_def using not_zero by (auto simp del: word_of_nat_eq_0_iff of_nat_Suc)
  with dec backup_index.decode_encode [OF ok(1)] have "ix0 = ix" by simp
  with dec backup_index.decode_encode [OF ok(1)] have "ix0 = ix" by simp
  with e(1) that show thesis by blast
qed

lemma opened_was_sealed:
  assumes only: "opens_only_sealed E pw L" and L: "ledger_ok E L"
    and opened: "open_component E C vec_write pw stamp cpt (c, []) = (Inr m, c', out)"
  shows "\<exists>(h, ix, fs) \<in> L. m = meta_of stamp cpt ix \<and> out = concat fs"
proof -
  from opened obtain part0 opn body ix0 c1 u where
    opn: "from_part (bv_argon2 E) pw part0 = Inr opn"
    and op: "open_part (pr_gcm_open (bv_prims E)) opn 0 PART0_IS_LAST part0 = Inr body"
    and dec: "decode TYPE_BACKUP_INDEX put_backup_index (get_backup_index (bv_is_nfc E)) body = Inr ix0"
    and pay: "open_parts E C vec_write opn (meta_of stamp cpt ix0) 0 (bx_parts ix0) (c1, []) = (Inr u, c', out)"
    and m: "m = meta_of stamp cpt ix0"
    by (auto simp: open_component_def read_index_def open_payload_def meta_of_def on_fst_def request_ok map_err_eq_Inr
        ok_or_eq_Inr split: prod.splits)
  from opened_index [OF only L opn op dec] obtain fs where e: "(mo_header opn, ix0, fs) \<in> L" .
  with L have "length (bx_parts ix0) = length fs" by (auto simp: ledger_ok_def)
  with open_parts_sealed [OF only L opn e pay] m e show ?thesis by (force simp: meta_of_def)
qed

text \<open>C33: An opened component is one that was sealed. Whatever a tier serves - it need keep no contract - a component that
  opens under a passphrase is one of those sealed under it, whole: its index is that component's and the payload is all of
  its frames in order. No part can be dropped, repeated, moved within a component or taken from another one.\<close>

theorem opened_component_was_sealed:
  assumes "opens_only_sealed E pw L" and "ledger_ok E L"
    and "open_component E C vec_write pw stamp cpt (c, []) = (Inr m, c', out)"
  shows "\<exists>(h, ix, fs) \<in> L. m = meta_of stamp cpt ix \<and> out = concat fs"
  by (rule opened_was_sealed [OF assms])

text \<open>A cipher that opens exactly the two parts of one component, and a tier that holds them.\<close>

definition toy_index :: backup_index where
  "toy_index = \<lparr>bx_git_sha = Text [], bx_entries = [], bx_parts = [\<lparr>bpart_len = 61, bpart_digest = Bytes32 (replicate 32 0)\<rparr>],
     bx_created_at = Timestamp 7\<rparr>"

definition toy_table_open :: gcm_open where
  "toy_table_open k n a ct = (let h = ms_header toy_sealer in
     if n = part_nonce (nonce_base h) 0 \<and> a = part_aad h 0 False then Some (encode TYPE_BACKUP_INDEX put_backup_index toy_index)
     else if n = part_nonce (nonce_base h) 1 \<and> a = part_aad h 1 True then Some [1, 2] else None)"

definition toy_table_env :: backup_env where
  "toy_table_env = toy_backup_env\<lparr>bv_prims := (toy_prims_with toy_table_open)\<lparr>pr_sha := \<lambda>_. replicate 32 0\<rparr>\<rparr>"

definition toy_ledger :: ledger where
  "toy_ledger = {(ms_header toy_sealer, toy_index, [[1, 2]])}"

definition toy_part :: bytes where
  "toy_part = ms_header toy_sealer @ replicate 16 0"

definition toy_place :: "string \<Rightarrow> component \<Rightarrow> memory_cold" where
  "toy_place stamp cpt = (with_master_token [])\<lparr>mc_inner := [(component_ref stamp cpt, [(0, toy_part), (1, toy_part)])]\<rparr>"

lemma toy_header_length: "length (ms_header toy_sealer) = MXBU_HEADER_LEN"
  using mxbu_header(2) [of "replicate 16 1" "replicate 12 2"] by (simp add: toy_sealer_def)

lemma toy_index_ok: "ok_backup_index is_nfc toy_index" if "is_nfc []" for is_nfc
  using that by (simp add: toy_index_def ok_backup_index_def ok_text_def utf8_valid.simps ok_backup_part_def ok_b32_def)

abbreviation toy_opener :: mxbu_opener where
  "toy_opener \<equiv> \<lparr>mo_header = ms_header toy_sealer, mo_key = ms_key toy_sealer\<rparr>"

lemma toy_part_length: "length toy_part = 61"
  by (simp add: toy_part_def toy_header_length MXBU_HEADER_LEN_def)

lemma toy_open_part:
  "open_part (pr_gcm_open (bv_prims toy_table_env)) toy_opener 0 False toy_part =
     Inr (encode TYPE_BACKUP_INDEX put_backup_index toy_index)"
  "open_part (pr_gcm_open (bv_prims toy_table_env)) toy_opener 1 True toy_part = Inr [1, 2]"
proof -
  have go: "pr_gcm_open (bv_prims toy_table_env) = toy_table_open" by (simp add: toy_table_env_def toy_prims_with_def)
  show "open_part (pr_gcm_open (bv_prims toy_table_env)) toy_opener 0 False toy_part =
     Inr (encode TYPE_BACKUP_INDEX put_backup_index toy_index)"
    "open_part (pr_gcm_open (bv_prims toy_table_env)) toy_opener 1 True toy_part = Inr [1, 2]"
    using part_nonce_inj [of "nonce_base (ms_header toy_sealer)" 0 1] part_aad_inj [of "ms_header toy_sealer" "ms_header toy_sealer" 1 True 0 False]
    unfolding go by (auto simp: toy_part_def open_part_def toy_header_length MXBU_TAG_LEN_def open1_def toy_table_open_def Let_def)
qed

lemma toy_read_index:
  assumes "mem_get (component_ref ''s'' cpt) 0 (mc_inner c) = Some toy_part"
  shows "read_index toy_table_env (memory_cold_ops []) toy_passphrase ''s'' cpt c = (Inr (toy_opener, meta_of ''s'' cpt toy_index), c)"
proof -
  have st: "stamp_ok ''s''" by (simp add: stamp_ok_def is_ascii_alnum_def code_of_def)
  have caps: "within_caps ARGON2_FLOOR"
    by (simp add: within_caps_def ARGON2_FLOOR_def MAX_ARGON_M_KIB_def MAX_ARGON_T_def MAX_ARGON_P_def)
  have opn: "from_part (bv_argon2 toy_table_env) toy_passphrase toy_part = Inr toy_opener"
    using from_headed_part(2) [OF _ _ _ toy_sealer_new, of "replicate 16 0"] caps
    by (simp add: toy_part_def toy_random_def MXBU_TAG_LEN_def toy_table_env_def toy_backup_env_def)
  have dec: "decode TYPE_BACKUP_INDEX put_backup_index (get_backup_index (bv_is_nfc toy_table_env))
      (encode TYPE_BACKUP_INDEX put_backup_index toy_index) = Inr toy_index"
    by (rule backup_index.decode_encode, rule toy_index_ok) (simp add: toy_table_env_def toy_backup_env_def)
  show ?thesis
    by (simp add: read_index_def sbind_def check_def on_tier_memory_get st validate_stamp_def assms opn PART0_IS_LAST_def
        toy_open_part dec sret_def meta_of_def)
qed

lemma toy_meta: "bm_parts (meta_of ''s'' cpt toy_index) = [\<lparr>bpart_len = 61, bpart_digest = Bytes32 (replicate 32 0)\<rparr>]"
    "bm_stamp (meta_of ''s'' cpt toy_index) = ''s''" "bm_component (meta_of ''s'' cpt toy_index) = cpt"
  by (simp_all add: meta_of_def toy_index_def)

lemma toy_open_payload:
  assumes "mem_get (component_ref ''s'' cpt) 1 (mc_inner c) = Some toy_part"
  shows "open_payload toy_table_env (memory_cold_ops []) write toy_opener (meta_of ''s'' cpt toy_index) (c, out) =
    sbind (on_snd (write [1, 2])) (\<lambda>_. sret ()) (c, out)"
proof -
  have "on_fst (on_tier (op_get (memory_cold_ops []) (component_ref ''s'' cpt) 1)) (c, out) = (Inr (Some toy_part), c, out)"
    by (simp add: on_fst_def on_tier_memory_get assms)
  moreover have "bv_sha toy_table_env x = replicate 32 0" for x by (simp add: bv_sha_def toy_table_env_def)
  ultimately show ?thesis
    by (simp add: open_payload_def toy_meta sbind_def check_def toy_part_length toy_open_part)
qed

lemma toy_place_get: "mem_get (component_ref stamp cpt) k (mc_inner (toy_place stamp cpt)) = (if k = 0 \<or> k = 1 then Some toy_part else None)"
  by (simp add: toy_place_def mem_get_def)

lemma toy_bundle_opens: "open_component toy_table_env (memory_cold_ops []) vec_write toy_passphrase ''s'' cpt (toy_place ''s'' cpt, []) =
    (Inr (meta_of ''s'' cpt toy_index), toy_place ''s'' cpt, [1, 2])"
  by (simp add: open_component_def sbind_def on_fst_def toy_read_index toy_place_get toy_open_payload on_snd_vec_write sret_def)

lemma toy_table_only: "opens_only_sealed toy_table_env toy_passphrase toy_ledger"
  by (auto simp: opens_only_sealed_def toy_table_env_def toy_prims_with_def toy_table_open_def toy_ledger_def sealed_at_def
      PART0_IS_LAST_def Let_def split: if_splits)

lemma toy_ledger_ok: "ledger_ok toy_table_env toy_ledger"
  using toy_index_ok [of "bv_is_nfc toy_table_env"]
  by (simp add: ledger_ok_def toy_ledger_def toy_header_length) (simp add: toy_index_def toy_table_env_def toy_backup_env_def)

theorem opened_component_was_sealed_witness:
  "\<exists>m c' out. open_component toy_table_env (memory_cold_ops []) vec_write toy_passphrase ''s'' CompDb (toy_place ''s'' CompDb, []) =
      (Inr m, c', out) \<and> (\<exists>(h, ix, fs) \<in> toy_ledger. m = meta_of ''s'' CompDb ix \<and> out = concat fs)"
proof -
  have "\<exists>(h, ix, fs) \<in> toy_ledger. meta_of ''s'' CompDb toy_index = meta_of ''s'' CompDb ix \<and> [1, 2] = concat fs"
    by (rule opened_component_was_sealed [OF toy_table_only toy_ledger_ok toy_bundle_opens])
  with toy_bundle_opens [of CompDb] show ?thesis by (intro exI conjI)
qed

section \<open>What is not sealed\<close>

text \<open>\<open>d\<close> serves at the second place what \<open>c\<close> serves at the first.\<close>

definition serves_as :: "string \<times> component \<Rightarrow> memory_cold \<Rightarrow> string \<times> component \<Rightarrow> memory_cold \<Rightarrow> bool" where
  "serves_as p c q d \<longleftrightarrow> (\<forall>k. mem_get (component_ref (fst q) (snd q)) k (mc_inner d) =
     mem_get (component_ref (fst p) (snd p)) k (mc_inner c))"

definition moved_to :: "string \<times> component \<Rightarrow> bundle_meta \<Rightarrow> bundle_meta" where
  "moved_to q m = m\<lparr>bm_stamp := fst q, bm_component := snd q\<rparr>"

lemma moved_to_simps [simp]: "bm_stamp (moved_to q m) = fst q" "bm_component (moved_to q m) = snd q" "bm_parts (moved_to q m) = bm_parts m"
    "bm_entries (moved_to q m) = bm_entries m" "bm_git_sha (moved_to q m) = bm_git_sha m" "bm_created_at (moved_to q m) = bm_created_at m"
  by (simp_all add: moved_to_def)

lemma read_index_moved:
  assumes "serves_as (stamp, cpt) c (stamp', cpt') d" "stamp_ok stamp'"
    and "read_index E (memory_cold_ops rnd) pw stamp cpt c = (Inr (opn, m), c')"
  shows "read_index E (memory_cold_ops rnd) pw stamp' cpt' d = (Inr (opn, moved_to (stamp', cpt') m), d)"
proof -
  have same: "mem_get (component_ref stamp' cpt') 0 (mc_inner d) = mem_get (component_ref stamp cpt) 0 (mc_inner c)"
    using assms(1) by (simp add: serves_as_def)
  from assms(3) obtain part0 body ix where
    "mem_get (component_ref stamp cpt) 0 (mc_inner c) = Some part0" "from_part (bv_argon2 E) pw part0 = Inr opn"
    "open_part (pr_gcm_open (bv_prims E)) opn 0 PART0_IS_LAST part0 = Inr body"
    "decode TYPE_BACKUP_INDEX put_backup_index (get_backup_index (bv_is_nfc E)) body = Inr ix"
    "m = \<lparr>bm_component = cpt, bm_stamp = stamp, bm_git_sha = text_to_opt (bx_git_sha ix),
       bm_created_at = ts_raw (bx_created_at ix), bm_entries = bx_entries ix, bm_parts = bx_parts ix\<rparr>"
    by (auto simp: read_index_def request_ok on_tier_memory_get map_err_eq_Inr ok_or_eq_Inr)
  with same assms(2) show ?thesis
    by (simp add: read_index_def sbind_def check_def on_tier_memory_get validate_stamp_def sret_def moved_to_def)
qed

lemma open_parts_moved:
  assumes "serves_as (bm_stamp m, bm_component m) c (stamp', cpt') d"
  shows "open_parts E (memory_cold_ops rnd) vec_write opn m pos ps (c, out) = (Inr u, c', out') \<Longrightarrow>
    open_parts E (memory_cold_ops rnd) vec_write opn (moved_to (stamp', cpt') m) pos ps (d, out) = (Inr u, d, out')"
proof (induction ps arbitrary: pos out)
  case (Cons p ps)
  let ?i = "word_of_nat (pos + 1) :: u32"
  have same: "mem_get (component_ref stamp' cpt') k (mc_inner d) = mem_get (component_ref (bm_stamp m) (bm_component m)) k (mc_inner c)" for k
    using assms by (simp add: serves_as_def)
  have got: "on_fst (on_tier (op_get (memory_cold_ops rnd) r k)) (c, out) = (Inr (mem_get r k (mc_inner c)), c, out)" for c out r k
    by (simp add: on_fst_def on_tier_memory_get)
  from Cons.prems obtain part pt where g: "mem_get (component_ref (bm_stamp m) (bm_component m)) (ucast ?i) (mc_inner c) = Some part"
    and fits: "word_of_nat (length part) = bpart_len p" "Bytes32 (bv_sha E part) = bpart_digest p"
    and op: "open_part (pr_gcm_open (bv_prims E)) opn ?i (pos + 1 = length (bm_parts m)) part = Inr pt"
    and rest: "open_parts E (memory_cold_ops rnd) vec_write opn m (pos + 1) ps (c, out @ pt) = (Inr u, c', out')"
    by (auto simp: Let_def got on_snd_vec_write request_ok map_err_eq_Inr ok_or_eq_Inr split: if_splits)
  from Cons.IH [OF rest] g fits op same show ?case
    by (simp add: Let_def got sbind_def check_def on_snd_vec_write)
qed (simp add: sret_def)

lemma opened_moved:
  assumes "serves_as (stamp, cpt) c (stamp', cpt') d" "stamp_ok stamp'"
    and "open_component E (memory_cold_ops rnd) vec_write pw stamp cpt (c, []) = (Inr m, c', out)"
  shows "open_component E (memory_cold_ops rnd) vec_write pw stamp' cpt' (d, []) = (Inr (moved_to (stamp', cpt') m), d, out)"
proof -
  from assms(3) obtain opn c1 u where index: "read_index E (memory_cold_ops rnd) pw stamp cpt c = (Inr (opn, m), c1)"
    and pay: "open_parts E (memory_cold_ops rnd) vec_write opn m 0 (bm_parts m) (c1, []) = (Inr u, c', out)"
    by (auto simp: open_component_def open_payload_def on_fst_def request_ok split: prod.splits)
  have here: "c1 = c" "bm_stamp m = stamp" "bm_component m = cpt"
    using index by (auto simp: read_index_def request_ok on_tier_memory_get)
  note pay' = open_parts_moved [of m c stamp' cpt' d E rnd opn 0 "bm_parts m" "[]" u c' out, unfolded here(2,3), OF assms(1) pay [unfolded here(1)]]
  show ?thesis using read_index_moved [OF assms(1,2) index] pay'
    by (simp add: open_component_def open_payload_def on_fst_def sbind_def sret_def)
qed

text \<open>Where a component lies is not sealed. Neither the stamp nor the component's name enters a part's associated data or
  the index, so a tier may serve any sealed component - the other one of the bundle, or one of an older bundle - at any
  place: it opens there, under the passphrase, to the same index and the same payload.\<close>

theorem component_place_unbound:
  assumes "serves_as (stamp, cpt) c (stamp', cpt') d" and "stamp_ok stamp'"
    and "open_component E (memory_cold_ops random) vec_write pw stamp cpt (c, []) = (Inr m, c', out)"
  shows "open_component E (memory_cold_ops random) vec_write pw stamp' cpt' (d, []) =
    (Inr (m\<lparr>bm_stamp := stamp', bm_component := cpt'\<rparr>), d, out)"
  using opened_moved [OF assms] by (simp add: moved_to_def)

theorem component_place_unbound_witness:
  "\<exists>d. open_component toy_table_env (memory_cold_ops []) vec_write toy_passphrase ''t'' CompState (d, []) =
    (Inr ((meta_of ''s'' CompDb toy_index)\<lparr>bm_stamp := ''t'', bm_component := CompState\<rparr>), d, [1, 2])"
proof -
  have "serves_as (''s'', CompDb) (toy_place ''s'' CompDb) (''t'', CompState) (toy_place ''t'' CompState)"
    by (simp add: serves_as_def toy_place_def mem_get_def)
  moreover have "stamp_ok ''t''" by (simp add: stamp_ok_def is_ascii_alnum_def code_of_def)
  ultimately show ?thesis using component_place_unbound [OF _ _ toy_bundle_opens [of CompDb]] by blast
qed

end
