(* ===== verification/BackupOps_Laws.thy ===== *)
theory BackupOps_Laws
  imports BackupBundle_Laws
begin

text \<open>
  The backup engine's requests: pruning keeps the newest bundles and the protected one; a restore stays below the staging
  directory and writes exactly what a sealed component held; and what a plan reports of the selected components is what
  was sealed.
\<close>

section \<open>Pruning\<close>

lemma split_on_no_sep: "p \<in> set (split_on c s) \<Longrightarrow> c \<notin> set p"
proof (induction s arbitrary: p)
  case (Cons x xs)
  show ?case
  proof (cases "x = c")
    case True
    then show ?thesis using Cons by auto
  next
    case False
    with Cons.prems have "p = [x] \<and> split_on c xs = [] \<or> (\<exists>q qs. split_on c xs = q # qs \<and> (p = x # q \<or> p \<in> set qs))"
      by (auto split: list.splits)
    then show ?thesis using Cons.IH False by auto
  qed
qed simp

lemma split_on_nonempty: "split_on c s \<noteq> []"
  by (induction s) (auto split: list.splits)

lemma children_no_slash: "name \<in> set (children_of pre paths) \<Longrightarrow> CHR ''/'' \<notin> set name"
  using split_on_no_sep [of _ "CHR ''/''"] hd_in_set [OF split_on_nonempty [of "CHR ''/''"]]
  by (auto simp: children_of_def sorted_names_def in_map_filter Let_def bind_eq_Some_conv split: if_splits)

text \<open>The three streams of a bundle.\<close>

definition bundle_refs :: "string \<Rightarrow> string set" where
  "bundle_refs stamp = {manifest_ref stamp, component_ref stamp CompDb, component_ref stamp CompState}"

lemma bundle_refs_form: "r \<in> bundle_refs s \<Longrightarrow> \<exists>tail. r = ''_backup/'' @ s @ CHR ''/'' # tail"
  by (auto simp: bundle_refs_def manifest_ref_def component_ref_def)

lemma bundle_refs_disjoint:
  "CHR ''/'' \<notin> set s \<Longrightarrow> CHR ''/'' \<notin> set t \<Longrightarrow> s \<noteq> t \<Longrightarrow> r \<in> bundle_refs s \<Longrightarrow> r \<notin> bundle_refs t"
  using slash_split [of s _ t] by (auto simp del: append_Cons dest!: bundle_refs_form)

text \<open>The stamps under which a tier lists a manifest, in order.\<close>

definition bundles_in :: "memory_cold \<Rightarrow> string list" where
  "bundles_in c = filter (\<lambda>s. mem_get (manifest_ref s) 0 (mc_inner c) \<noteq> None) (children_of ''_backup'' (mc_paths c))"

lemma with_manifest_memory: "with_manifest (memory_cold_ops rnd) stamps c =
    (Inr (filter (\<lambda>s. mem_get (manifest_ref s) 0 (mc_inner c) \<noteq> None) stamps), c)"
  by (induction stamps) (simp_all add: sret_def sbind_def on_tier_memory_get)

definition deleted :: "string list \<Rightarrow> memory_cold \<Rightarrow> memory_cold" where
  "deleted stamps c = fold (\<lambda>s c. cold_delete_stream (component_ref s CompState)
      (cold_delete_stream (component_ref s CompDb) (cold_delete_stream (manifest_ref s) c))) stamps c"

lemma delete_bundles_memory: "delete_bundles (memory_cold_ops rnd) stamps c =
    (Inr (), deleted stamps c)"
  unfolding deleted_def by (induction stamps arbitrary: c) (simp_all add: sret_def sbind_def on_tier_def memory_cold_ops_def smodify_def)

lemma get_after_delete: "mem_get r k (mc_inner (cold_delete_stream q c)) = (if r = q then None else mem_get r k (mc_inner c))"
  by (simp add: cold_delete_stream_def mem_delete_stream_def mem_get_def delete_conv')

lemma get_after_deletes: "mem_get r k (mc_inner (deleted stamps c)) =
    (if \<exists>s \<in> set stamps. r \<in> bundle_refs s then None else mem_get r k (mc_inner c))"
  unfolding deleted_def by (induction stamps arbitrary: c) (auto simp: get_after_delete bundle_refs_def)

lemma guard_backup: "guard_prefix ''_backup'' = Inr ()"
  by code_simp

lemma sorted_children: "sort (children_of pre paths) = children_of pre paths" "distinct (children_of pre paths)" "sorted (children_of pre paths)"
  by (simp_all add: children_of_def sorted_names_def Let_def sort_key_id_if_sorted)

lemma prune_memory: "prune_protecting (memory_cold_ops rnd) keep protect c =
   (Inr (prune_victims keep protect (bundles_in c)), deleted (prune_victims keep protect (bundles_in c)) c)"
proof -
  have list: "on_tier (op_list_prefix (memory_cold_ops rnd) ''_backup'') c = (Inr (Some (children_of ''_backup'' (mc_paths c))), c)"
    by (simp add: on_tier_def memory_cold_ops_def cold_list_prefix_def guard_backup)
  have none: "length bs \<le> keep \<Longrightarrow> prune_victims keep protect bs = []" for bs by (simp add: prune_victims_def)
  have bundles: "with_manifest (memory_cold_ops rnd) (sort (children_of ''_backup'' (mc_paths c))) c = (Inr (bundles_in c), c)"
    by (simp only: with_manifest_memory sorted_children bundles_in_def)
  have "prune_protecting (memory_cold_ops rnd) keep protect c = (if length (bundles_in c) \<le> keep then (Inr [], c)
      else (Inr (prune_victims keep protect (bundles_in c)), deleted (prune_victims keep protect (bundles_in c)) c))"
    by (simp add: prune_protecting_def sbind_def list bundles sret_def delete_bundles_memory Let_def)
  then show ?thesis using none [of "bundles_in c"] by (simp add: deleted_def split: if_splits)
qed

lemma oldest_by_rank:
  assumes "sorted bs" and "distinct (bs :: string list)"
  shows "b \<in> set (take (length bs - keep) bs) \<longleftrightarrow> b \<in> set bs \<and> keep \<le> card {s \<in> set bs. b < s}"
proof (cases "b \<in> set bs")
  case True
  then obtain i where i: "i < length bs" "b = bs ! i" by (metis in_set_conv_nth)
  have strict: "bs ! j < bs ! k \<longleftrightarrow> j < k" if "j < length bs" "k < length bs" for j k
    using assms that by (metis nth_eq_iff_index_eq order_less_le sorted_nth_mono linorder_neqE_nat not_less)
  have "{s \<in> set bs. b < s} = (\<lambda>k. bs ! k) ` {Suc i..<length bs}"
    using i strict by (auto simp: in_set_conv_nth image_iff Suc_le_eq)
  moreover have "inj_on (\<lambda>k. bs ! k) {Suc i..<length bs}" using assms(2) by (auto simp: inj_on_def nth_eq_iff_index_eq)
  ultimately have card: "card {s \<in> set bs. b < s} = length bs - Suc i" by (simp add: card_image)
  have "b \<in> set (take (length bs - keep) bs) \<longleftrightarrow> i < length bs - keep"
    using i assms(2) by (auto simp: in_set_conv_nth nth_eq_iff_index_eq)
  with True i(1) card show ?thesis by auto
qed (auto dest: in_set_takeD)

text \<open>C36: Pruning deletes exactly the surplus: on the in-memory tier it never fails; a complete bundle is deleted if and
  only if at least \<open>keep\<close> complete bundles are newer than it and it is not the protected one. Of a deleted bundle no chunk
  remains, and every other chunk of the tier is as before. So at least the newest \<open>keep\<close> bundles (all, when there are
  fewer) remain, with all their chunks.\<close>

theorem prune_keeps_newest:
  assumes "prune_protecting (memory_cold_ops random) keep protect c = (x, c')"
  shows "\<exists>victims. x = Inr victims \<and> sorted victims \<and> distinct victims \<and>
     (\<forall>b. b \<in> set victims \<longleftrightarrow> b \<in> set (bundles_in c) \<and> protect \<noteq> Some b \<and> keep \<le> card {s \<in> set (bundles_in c). b < s}) \<and>
     (\<forall>r k. mem_get r k (mc_inner c') = (if \<exists>v \<in> set victims. r \<in> bundle_refs v then None else mem_get r k (mc_inner c))) \<and>
     (\<forall>b \<in> set (bundles_in c) - set victims. \<forall>r \<in> bundle_refs b. \<forall>k. mem_get r k (mc_inner c') = mem_get r k (mc_inner c)) \<and>
     min keep (length (bundles_in c)) \<le> length (filter (\<lambda>s. s \<notin> set victims) (bundles_in c))"
proof -
  define bs where "bs = bundles_in c"
  define victims where "victims = prune_victims keep protect bs"
  define m where "m = length bs - keep"
  have sd: "sorted bs" "distinct bs"
    by (simp_all only: bs_def bundles_in_def sorted_children distinct_filter sorted_wrt_filter)
  have noslash: "CHR ''/'' \<notin> set b" if "b \<in> set bs" for b
    using that children_no_slash by (auto simp: bs_def bundles_in_def)
  have v: "set victims = {s \<in> set (take m bs). Some s \<noteq> protect}" by (simp add: victims_def prune_victims_def m_def)
  have order: "sorted victims" "distinct victims"
    using sd by (simp_all add: victims_def prune_victims_def sorted_wrt_filter sorted_wrt_take)
  have exact: "b \<in> set victims \<longleftrightarrow> b \<in> set bs \<and> protect \<noteq> Some b \<and> keep \<le> card {s \<in> set bs. b < s}" for b
    using oldest_by_rank [OF sd, of b keep] unfolding v m_def by auto
  have x: "x = Inr victims" and after: "\<And>r k. mem_get r k (mc_inner c') =
      (if \<exists>s \<in> set victims. r \<in> bundle_refs s then None else mem_get r k (mc_inner c))"
    using assms by (auto simp: prune_memory get_after_deletes victims_def bs_def)
  have drop: "filter (\<lambda>s. s \<notin> set victims) (drop m bs) = drop m bs"
  proof -
    have "s \<notin> set victims" if "s \<in> set (drop m bs)" for s
      using that v sd(2) distinct_append [of "take m bs" "drop m bs"] by auto
    then show ?thesis by (simp add: filter_id_conv)
  qed
  have "filter (\<lambda>s. s \<notin> set victims) bs = filter (\<lambda>s. s \<notin> set victims) (take m bs) @ drop m bs"
    by (metis append_take_drop_id drop filter_append)
  then have count: "min keep (length bs) \<le> length (filter (\<lambda>s. s \<notin> set victims) bs)" by (simp add: m_def)
  have intact: "mem_get r k (mc_inner c') = mem_get r k (mc_inner c)" if "b \<in> set bs - set victims" "r \<in> bundle_refs b" for b r k
    using that bundle_refs_disjoint [of b _ r] noslash exact by (auto simp: after)
  show ?thesis unfolding bs_def [symmetric]
    by (intro exI [of _ victims] conjI allI ballI)
      (rule x order exact after count | erule (1) intact)+
qed

definition toy_bundles :: memory_cold where
  "toy_bundles = fold (\<lambda>s. cold_put (manifest_ref s) 0 []) [''a'', ''b'', ''c''] (with_master_token [])"

theorem prune_keeps_newest_witness:
  "\<exists>c'. prune_protecting (memory_cold_ops []) 1 (Some ''a'') toy_bundles = (Inr [''b''], c') \<and>
     mem_get (manifest_ref ''b'') 0 (mc_inner c') = None"
proof -
  have "prune_victims 1 (Some ''a'') (bundles_in toy_bundles) = [''b'']" by code_simp
  with prune_memory [of "[]" 1 "Some ''a''" toy_bundles]
  obtain c' where c': "prune_protecting (memory_cold_ops []) 1 (Some ''a'') toy_bundles = (Inr [''b''], c')" by auto
  from prune_keeps_newest [OF c'] have "\<forall>r k. mem_get r k (mc_inner c') =
      (if \<exists>v \<in> set [''b'']. r \<in> bundle_refs v then None else mem_get r k (mc_inner toy_bundles))"
    by auto
  then have "mem_get (manifest_ref ''b'') 0 (mc_inner c') = None" by (simp add: bundle_refs_def)
  with c' show ?thesis by blast
qed

section \<open>Confinement of a restore\<close>

text \<open>A path below the staging directory names it by its components; a plain name cannot leave the directory it is in.\<close>

definition plain_name :: "string \<Rightarrow> bool" where
  "plain_name s \<longleftrightarrow> s \<noteq> [] \<and> s \<noteq> ''.'' \<and> s \<noteq> ''..'' \<and> CHR ''/'' \<notin> set s"

lemma plain_names [simp]: "plain_name ''state''" "plain_name ''db.dump''" "plain_name ''plan.json''"
  by (simp_all add: plain_name_def)

fun op_path :: "fs_op \<Rightarrow> fs_path" where
  "op_path (CreateDirAll p) = p"
| "op_path (SetMode p m) = p"
| "op_path (WriteFile p b) = p"
| "op_path (CreateFile p) = p"
| "op_path (AppendFile p b) = p"

definition confined :: "fs_op \<Rightarrow> bool" where
  "confined f \<longleftrightarrow> list_all plain_name (op_path f)"

lemma normal_components_plain:
  assumes "list_all is_normal (path_components rel)" "k \<in> set (path_components rel)"
  shows "plain_name (comp_name k)"
proof -
  from assms obtain s where k: "k = NormalComp s" by (cases k) (auto simp: list_all_iff is_normal_def)
  with assms(2) have "s \<in> set (split_on (CHR ''/'') rel)" "s \<noteq> []" "s \<noteq> ''.''" "s \<noteq> ''..''"
    by (auto simp: path_components_def Let_def in_map_filter split: if_splits)
  with split_on_no_sep [of s "CHR ''/''" rel] k show ?thesis by (simp add: plain_name_def)
qed

lemma safe_join_plain:
  "safe_relative_join base rel = Inr p \<Longrightarrow> list_all plain_name base \<Longrightarrow> list_all plain_name p"
  using normal_components_plain [of rel] by (auto simp: safe_relative_join_def list_all_iff split: if_splits)

definition logs :: "'c restore_world \<Rightarrow> 'c restore_world \<Rightarrow> bool" where
  "logs w w' \<longleftrightarrow> (\<exists>ops. snd w' = snd w @ ops \<and> list_all confined ops)"

lemma logs_order: "reflp logs" "transp logs"
  by (auto simp: logs_def reflp_def transp_def)

lemma keeps_if: "keeps R f \<Longrightarrow> keeps R g \<Longrightarrow> keeps R (if b then f else g)"
  by simp

lemma keeps_case_prod: "(\<And>a b. keeps R (f a b)) \<Longrightarrow> keeps R (case z of (a, b) \<Rightarrow> f a b)"
  by (cases z) simp

lemmas keeps_logs = keeps_sbind [OF logs_order(2)] keeps_check [OF logs_order(1)] keeps_sret [OF logs_order(1)] keeps_if keeps_case_prod

lemma keeps_on_fst: "keeps logs (on_fst m)"
  by (simp add: keeps_def logs_def on_fst_def split: prod.splits)

lemma keeps_fs_call: "confined f \<Longrightarrow> keeps logs (fs_call F f)"
  by (simp add: keeps_def logs_def fs_call_def on_snd_def fs_write_def split: prod.splits)

lemma keeps_harden: "list_all plain_name p \<Longrightarrow> keeps logs (harden F p mode)"
  using keeps_fs_call [of "SetMode p mode" F] by (simp add: keeps_def harden_def confined_def)

lemma keeps_join:
  assumes "\<And>dest. list_all plain_name dest \<Longrightarrow> keeps logs (f dest)"
  shows "keeps logs (sbind (check (safe_relative_join [''state''] path)) f)"
proof (cases "safe_relative_join [''state''] path")
  case (Inl e)
  then show ?thesis by (simp add: keeps_def sbind_def check_def logs_def)
next
  case (Inr dest)
  have "list_all plain_name [''state'']" by (simp add: plain_name_def)
  with assms [OF safe_join_plain [OF Inr]] Inr show ?thesis by (simp add: keeps_def sbind_def check_def)
qed

lemma plain_paths: "list_all plain_name []" "list_all plain_name [''state'']" "list_all plain_name [''db.dump'']" "list_all plain_name [''plan.json'']"
    "list_all plain_name dest \<Longrightarrow> list_all plain_name (butlast dest)"
  by (auto simp: plain_name_def list_all_iff dest: in_set_butlastD)

lemma keeps_restore_entries: "keeps logs (restore_entries E F payload off es files)"
proof (induction es arbitrary: off files)
  case (Cons e es)
  show ?case unfolding restore_entries.simps Let_def
    by (intro keeps_join keeps_logs keeps_fs_call keeps_harden Cons.IH) (simp_all add: confined_def plain_paths)
qed (simp add: keeps_logs)

lemma keeps_open_dump: "keeps logs (open_parts E C (\<lambda>d. fs_write F (AppendFile [''db.dump''] d)) opn m pos ps)"
proof (induction ps arbitrary: pos)
  case (Cons p ps)
  have app: "keeps logs (on_snd (fs_write F (AppendFile [''db.dump''] d)))" for d
    using keeps_fs_call [of "AppendFile [''db.dump''] d" F] by (simp add: fs_call_def confined_def plain_paths)
  show ?case unfolding open_parts.simps Let_def by (intro keeps_logs keeps_on_fst app Cons.IH)
qed (simp add: keeps_logs)

lemma keeps_restore_dump: "keeps logs (restore_dump E C F pw stamp)"
  unfolding restore_dump_def open_payload_def
  by (intro keeps_logs keeps_on_fst keeps_fs_call keeps_open_dump keeps_harden) (simp_all add: confined_def plain_paths)

lemma keeps_restore_state: "keeps logs (restore_state E C F pw stamp)"
  unfolding restore_state_def
  by (intro keeps_logs keeps_on_fst keeps_fs_call keeps_harden keeps_restore_entries)
    (simp_all add: confined_def plain_paths keeps_def logs_def split: prod.splits)

lemma keeps_restore: "keeps logs (restore E C plan_json F q p)"
  unfolding restore_def
  by (intro keeps_logs keeps_fs_call keeps_harden keeps_restore_state keeps_restore_dump) (simp_all add: confined_def plain_paths)

section \<open>What a restore writes\<close>

text \<open>The files written whole and the data appended, in order, of a log.\<close>

definition written :: "fs_op list \<Rightarrow> (fs_path \<times> bytes) list" where
  "written ops = List.map_filter (\<lambda>f. case f of WriteFile p b \<Rightarrow> Some (p, b) | _ \<Rightarrow> None) ops"

definition appended :: "fs_op list \<Rightarrow> bytes" where
  "appended ops = concat (List.map_filter (\<lambda>f. case f of AppendFile p d \<Rightarrow> Some d | _ \<Rightarrow> None) ops)"

lemma written_simps [simp]: "written [] = []" "written (a @ b) = written a @ written b" "written [CreateDirAll p] = []"
    "written [SetMode p m] = []" "written [WriteFile p d] = [(p, d)]" "written [CreateFile p] = []" "written [AppendFile p d] = []"
    "appended [] = []" "appended (a @ b) = appended a @ appended b" "appended [CreateDirAll p] = []"
    "appended [SetMode p m] = []" "appended [WriteFile p d] = []" "appended [CreateFile p] = []" "appended [AppendFile p d] = d"
  by (simp_all add: written_def appended_def map_filter_def)

text \<open>\<open>adds w w' fs d\<close>: from \<open>w\<close> to \<open>w'\<close> exactly the files \<open>fs\<close> were written and \<open>d\<close> appended.\<close>

definition adds :: "'c restore_world \<Rightarrow> 'c restore_world \<Rightarrow> (fs_path \<times> bytes) list \<Rightarrow> bytes \<Rightarrow> bool" where
  "adds w w' fs d \<longleftrightarrow> (\<exists>ops. snd w' = snd w @ ops \<and> written ops = fs \<and> appended ops = d)"

lemma adds_refl: "snd w' = snd w \<Longrightarrow> adds w w' [] []"
  by (auto simp: adds_def intro: exI [of _ "[]"])

lemma adds_trans: "adds w w' fs d \<Longrightarrow> adds w' w'' fs' d' \<Longrightarrow> adds w w'' (fs @ fs') (d @ d')"
proof -
  assume "adds w w' fs d" "adds w' w'' fs' d'"
  then obtain ops ops' where "snd w'' = snd w @ ops @ ops'" "written ops = fs" "appended ops = d" "written ops' = fs'" "appended ops' = d'"
    by (auto simp: adds_def)
  then show "adds w w'' (fs @ fs') (d @ d')" unfolding adds_def by (intro exI [of _ "ops @ ops'"]) simp
qed

lemma fs_call_adds: "fs_call F f w = (Inr u, w') \<Longrightarrow> adds w w' (written [f]) (appended [f])"
  by (auto simp: fs_call_def on_snd_def fs_write_def adds_def split: if_splits prod.splits)

lemma harden_adds: "harden F p mode w = (x, w') \<Longrightarrow> adds w w' [] []"
  by (auto simp: harden_def fs_call_def on_snd_def fs_write_def adds_def split: if_splits prod.splits)

fun entry_pieces :: "bytes \<Rightarrow> nat \<Rightarrow> backup_entry list \<Rightarrow> (string \<times> bytes) list" where
  "entry_pieces payload off [] = []"
| "entry_pieces payload off (e # es) = (bytes_str (text_str (bent_path e)), bslice off (off + unat (bent_len e)) payload) #
     entry_pieces payload (off + unat (bent_len e)) es"

definition state_path :: "string \<Rightarrow> fs_path" where
  "state_path rel = ''state'' # map comp_name (path_components rel)"

text \<open>Every piece has its entry's length and digest.\<close>

definition pieces_match :: "backup_env \<Rightarrow> backup_entry list \<Rightarrow> (string \<times> bytes) list \<Rightarrow> bool" where
  "pieces_match E es ps \<longleftrightarrow> list_all2 (\<lambda>e (path, b). path = bytes_str (text_str (bent_path e)) \<and>
     length b = unat (bent_len e) \<and> Bytes32 (bv_sha E b) = bent_digest e) es ps"

lemma restore_entries_adds:
  "restore_entries E F payload off es files w = (Inr files', w') \<Longrightarrow>
   adds w w' (map (\<lambda>(p, b). (state_path p, b)) (entry_pieces payload off es)) [] \<and>
   files' = files @ map fst (entry_pieces payload off es) \<and> pieces_match E es (entry_pieces payload off es)"
proof (induction es arbitrary: off files w)
  case (Cons e es)
  let ?stop = "off + unat (bent_len e)" and ?path = "bytes_str (text_str (bent_path e))"
  from Cons.prems obtain dest w1 w2 w3 w4 where
    ok: "\<not> (2 ^ 64 \<le> ?stop \<or> length payload < ?stop)" "Bytes32 (bv_sha E (bslice off ?stop payload)) = bent_digest e"
    and dest: "safe_relative_join [''state''] ?path = Inr dest"
    and steps: "fs_call F (CreateDirAll (butlast dest)) w = (Inr (), w1)" "harden F (butlast dest) 448 w1 = (Inr (), w2)"
      "fs_call F (WriteFile dest (bslice off ?stop payload)) w2 = (Inr (), w3)" "harden F dest 384 w3 = (Inr (), w4)"
    and rest: "restore_entries E F payload ?stop es (files @ [?path]) w4 = (Inr files', w')"
    by (auto simp: Let_def request_ok split: if_splits)
  have d: "dest = state_path ?path" using dest by (auto simp: safe_relative_join_def state_path_def split: if_splits)
  have len: "length (bslice off ?stop payload) = unat (bent_len e)" using ok(1) by (auto simp: bslice_def min_def)
  note a = adds_trans [OF adds_trans [OF adds_trans [OF fs_call_adds [OF steps(1)] harden_adds [OF steps(2)]] fs_call_adds [OF steps(3)]]
      harden_adds [OF steps(4)]]
  have "adds w w' ([(dest, bslice off ?stop payload)] @ map (\<lambda>(p, b). (state_path p, b)) (entry_pieces payload ?stop es)) []"
    using adds_trans [OF a conjunct1 [OF Cons.IH [OF rest]]] by simp
  with Cons.IH [OF rest] d len ok(2) show ?case by (simp add: pieces_match_def)
qed (auto simp: sret_def adds_refl pieces_match_def)

lemma open_parts_appends:
  assumes "opens_only_sealed E pw L" "ledger_ok E L" "from_part (bv_argon2 E) pw part0 = Inr opn"
    and "(mo_header opn, ix, fs) \<in> L"
  shows "open_parts E C (\<lambda>d. fs_write F (AppendFile [''db.dump''] d)) opn m pos ps w = (Inr u, w') \<Longrightarrow> pos + length ps = length fs \<Longrightarrow>
    length (bm_parts m) = length fs \<Longrightarrow> adds w w' [] (concat (drop pos fs))"
proof (induction ps arbitrary: pos w)
  case (Cons p ps)
  from Cons.prems(1) obtain part w1 w2 pt v found where
    got: "on_fst (on_tier (op_get C (component_ref (bm_stamp m) (bm_component m)) (ucast (word_of_nat (Suc pos) :: u32)))) w = (Inr found, w1)"
    and op: "open_part (pr_gcm_open (bv_prims E)) opn (word_of_nat (Suc pos)) (Suc pos = length (bm_parts m)) part = Inr pt"
    and app: "fs_call F (AppendFile [''db.dump''] pt) w1 = (Inr v, w2)"
    and rest: "open_parts E C (\<lambda>d. fs_write F (AppendFile [''db.dump''] d)) opn m (Suc pos) ps w2 = (Inr u, w')"
    by (auto simp: Let_def fs_call_def request_ok map_err_eq_Inr ok_or_eq_Inr split: if_splits)
  have same: "adds w w1 [] []" using got by (auto simp: on_fst_def intro: adds_refl split: prod.splits)
  have here: "pos < length fs" using Cons.prems(2) by simp
  have pt: "pt = fs ! pos" using opened_frame [OF assms op] Cons.prems(3) here by simp
  from adds_trans [OF adds_trans [OF same fs_call_adds [OF app]] Cons.IH [OF rest]] Cons.prems(2,3) here
  show ?case by (simp add: Cons_nth_drop_Suc [symmetric] pt)
qed (auto simp: sret_def adds_refl)

lemma index_was_sealed:
  assumes "opens_only_sealed E pw L" "ledger_ok E L"
    and "read_index E C pw stamp cpt c = (Inr (opn, m), c')"
  obtains part0 ix fs where "from_part (bv_argon2 E) pw part0 = Inr opn" "(mo_header opn, ix, fs) \<in> L" "m = meta_of stamp cpt ix"
    "length (bx_parts ix) = length fs"
proof -
  from assms(3) obtain part0 body ix0 where opn: "from_part (bv_argon2 E) pw part0 = Inr opn"
    and op: "open_part (pr_gcm_open (bv_prims E)) opn 0 PART0_IS_LAST part0 = Inr body"
    and dec: "decode TYPE_BACKUP_INDEX put_backup_index (get_backup_index (bv_is_nfc E)) body = Inr ix0"
    and m: "m = meta_of stamp cpt ix0"
    by (auto simp: read_index_def meta_of_def request_ok map_err_eq_Inr ok_or_eq_Inr)
  from opened_index [OF assms(1,2) opn op dec] obtain fs where "(mo_header opn, ix0, fs) \<in> L" .
  moreover from this assms(2) have "length (bx_parts ix0) = length fs" by (auto simp: ledger_ok_def)
  ultimately show thesis using that opn m by blast
qed

lemma map_sum_eq_Inr: "map_sum id f x = Inr y \<longleftrightarrow> (\<exists>z. x = Inr z \<and> y = f z)"
  by (cases x) auto

lemma restore_state_adds:
  assumes "opens_only_sealed E pw L" "ledger_ok E L" and run: "restore_state E C F pw stamp w = (Inr files, w')"
  shows "\<exists>(h, ix, fs) \<in> L. adds w w' (map (\<lambda>(p, b). (state_path p, b)) (entry_pieces (concat fs) 0 (bx_entries ix))) [] \<and>
    files = map fst (entry_pieces (concat fs) 0 (bx_entries ix)) \<and> pieces_match E (bx_entries ix) (entry_pieces (concat fs) 0 (bx_entries ix))"
proof -
  obtain y c1 where ri: "read_index E C pw stamp CompState (fst w) = (y, c1)" by fastforce
  with run obtain opn m where "y = Inr (opn, m)" by (cases y) (auto simp: restore_state_def on_fst_def sbind_def)
  with ri have index: "read_index E C pw stamp CompState (fst w) = (Inr (opn, m), c1)" by simp
  obtain x c2 payload where pay: "open_parts E C vec_write opn m 0 (bm_parts m) (c1, []) = (x, c2, payload)"
    by (metis prod_cases3)
  from run index pay obtain w3 w4 where x: "x = Inr ()"
    and dir: "fs_call F (CreateDirAll [''state'']) (c2, snd w) = (Inr (), w3)" "harden F [''state''] 448 w3 = (Inr (), w4)"
    and rest: "restore_entries E F payload 0 (bm_entries m) [] w4 = (Inr files, w')"
    by (auto simp: restore_state_def open_payload_def on_fst_def request_ok map_sum_eq_Inr)
  from index_was_sealed [OF assms(1,2) index] obtain part0 ix fs where
    e: "from_part (bv_argon2 E) pw part0 = Inr opn" "(mo_header opn, ix, fs) \<in> L" "m = meta_of stamp CompState ix"
    "length (bx_parts ix) = length fs" .
  have "payload = concat fs"
    using open_parts_sealed [OF assms(1,2) e(1,2) pay [unfolded x]] e(3,4) by (simp add: meta_of_def)
  moreover have start: "adds w (c2, snd w) [] []" by (simp add: adds_refl)
  note a = adds_trans [OF adds_trans [OF start fs_call_adds [OF dir(1)]] harden_adds [OF dir(2)]]
  ultimately have "adds w w' (map (\<lambda>(p, b). (state_path p, b)) (entry_pieces (concat fs) 0 (bx_entries ix))) [] \<and>
    files = map fst (entry_pieces (concat fs) 0 (bx_entries ix)) \<and> pieces_match E (bx_entries ix) (entry_pieces (concat fs) 0 (bx_entries ix))"
    using restore_entries_adds [OF rest] adds_trans [OF a conjunct1 [OF restore_entries_adds [OF rest]]] e(3)
    by (simp add: meta_of_def)
  with e(2) show ?thesis by blast
qed

lemma restore_dump_adds:
  assumes "opens_only_sealed E pw L" "ledger_ok E L" and run: "restore_dump E C F pw stamp w = (Inr u, w')"
  shows "\<exists>(h, ix, fs) \<in> L. adds w w' [] (concat fs)"
proof -
  from run obtain opn m c1 w2 w3 v where
    index: "read_index E C pw stamp CompDb (fst w) = (Inr (opn, m), c1)"
    and create: "fs_call F (CreateFile [''db.dump'']) (c1, snd w) = (Inr (), w2)"
    and pay: "open_parts E C (\<lambda>d. fs_write F (AppendFile [''db.dump''] d)) opn m 0 (bm_parts m) w2 = (Inr v, w3)"
    and last: "harden F [''db.dump''] 384 w3 = (Inr u, w')"
    by (auto simp: restore_dump_def open_payload_def on_fst_def request_ok split: prod.splits)
  from index_was_sealed [OF assms(1,2) index] obtain part0 ix fs where
    e: "from_part (bv_argon2 E) pw part0 = Inr opn" "(mo_header opn, ix, fs) \<in> L" "m = meta_of stamp CompDb ix"
    "length (bx_parts ix) = length fs" .
  have "adds w2 w3 [] (concat fs)"
    using open_parts_appends [OF assms(1,2) e(1,2) pay] e(3,4) by (simp add: meta_of_def)
  moreover have "adds w (c1, snd w) [] []" by (simp add: adds_refl)
  from adds_trans [OF this fs_call_adds [OF create]] have "adds w w2 [] []" by simp
  ultimately have "adds w w' [] (concat fs)" using adds_trans [OF adds_trans] harden_adds [OF last] by fastforce
  with e(2) show ?thesis by blast
qed

text \<open>What a log holds of the state directory: the files whose path starts there.\<close>

definition state_files :: "fs_op list \<Rightarrow> (fs_path \<times> bytes) list" where
  "state_files ops = filter (\<lambda>(p, b). p \<noteq> [''plan.json'']) (written ops)"

lemma state_path_ne_plan: "state_path p \<noteq> [''plan.json'']"
  by (simp add: state_path_def)

lemmas state_path_not_plan = state_path_ne_plan state_path_ne_plan [symmetric]

lemma restore_adds:
  assumes "opens_only_sealed E (rq_passphrase q) L" "ledger_ok E L" "\<not> rq_dry_run q"
    and run: "restore E C plan_json F q p w = (Inr rep, w')"
  shows "\<exists>ops. snd w' = snd w @ ops \<and>
    (if rp_state p = None then state_files ops = [] \<and> rr_files rep = [] else \<exists>(h, ix, fs) \<in> L.
       state_files ops = map (\<lambda>(p, b). (state_path p, b)) (entry_pieces (concat fs) 0 (bx_entries ix)) \<and>
       rr_files rep = map fst (entry_pieces (concat fs) 0 (bx_entries ix)) \<and>
       pieces_match E (bx_entries ix) (entry_pieces (concat fs) 0 (bx_entries ix))) \<and>
    (if rp_db p = None then appended ops = [] else \<exists>(h, ix, fs) \<in> L. appended ops = concat fs)"
proof -
  from run assms(3) obtain w1 w2 files w3 u w4 json where
    start: "fs_call F (CreateDirAll []) w = (Inr (), w1)" "harden F [] 448 w1 = (Inr (), w2)"
    and state: "(if rp_state p = None then sret [] else restore_state E C F (rq_passphrase q) (rp_stamp p)) w2 = (Inr files, w3)"
    and db: "(if rp_db p = None then sret () else restore_dump E C F (rq_passphrase q) (rp_stamp p)) w3 = (Inr u, w4)"
    and fin: "fs_call F (WriteFile [''plan.json''] json) w4 = (Inr (), w')" and files: "rr_files rep = files"
    by (auto simp: restore_def request_ok)
  have st: "\<exists>sf. adds w2 w3 sf [] \<and> (if rp_state p = None then sf = [] \<and> files = [] else \<exists>(h, ix, fs) \<in> L.
      sf = map (\<lambda>(p, b). (state_path p, b)) (entry_pieces (concat fs) 0 (bx_entries ix)) \<and>
      files = map fst (entry_pieces (concat fs) 0 (bx_entries ix)) \<and>
      pieces_match E (bx_entries ix) (entry_pieces (concat fs) 0 (bx_entries ix)))"
  proof (cases "rp_state p = None")
    case True
    with state show ?thesis by (auto simp: sret_def intro!: exI [of _ "[]"] adds_refl)
  next
    case False
    with restore_state_adds [OF assms(1,2)] state show ?thesis by fastforce
  qed
  then obtain sf where sf: "adds w2 w3 sf []" "if rp_state p = None then sf = [] \<and> files = [] else \<exists>(h, ix, fs) \<in> L.
      sf = map (\<lambda>(p, b). (state_path p, b)) (entry_pieces (concat fs) 0 (bx_entries ix)) \<and>
      files = map fst (entry_pieces (concat fs) 0 (bx_entries ix)) \<and>
      pieces_match E (bx_entries ix) (entry_pieces (concat fs) 0 (bx_entries ix))" by blast
  have "\<exists>d. adds w3 w4 [] d \<and> (if rp_db p = None then d = [] else \<exists>(h, ix, fs) \<in> L. d = concat fs)"
  proof (cases "rp_db p = None")
    case True
    with db show ?thesis by (auto simp: sret_def intro!: exI [of _ "[]"] adds_refl)
  next
    case False
    with restore_dump_adds [OF assms(1,2)] db show ?thesis by fastforce
  qed
  then obtain d where d: "adds w3 w4 [] d" "if rp_db p = None then d = [] else \<exists>(h, ix, fs) \<in> L. d = concat fs" by blast
  have "adds w w' (sf @ [([''plan.json''], json)]) d"
    using adds_trans [OF adds_trans [OF adds_trans [OF adds_trans [OF fs_call_adds [OF start(1)] harden_adds [OF start(2)]] sf(1)] d(1)]
      fs_call_adds [OF fin]] by simp
  then obtain ops where ops: "snd w' = snd w @ ops" "written ops = sf @ [([''plan.json''], json)]" "appended ops = d"
    by (auto simp: adds_def)
  have "filter (\<lambda>(p, b). p \<noteq> [''plan.json'']) sf = sf"
    using sf(2) by (auto simp: filter_id_conv state_path_not_plan split: if_splits)
  then have "state_files ops = sf" by (simp add: state_files_def ops(2))
  with sf(2) d(2) files ops(1,3) show ?thesis by (intro exI [of _ ops]) (simp split: if_splits)
qed

text \<open>C35: A restore writes only what was sealed, and only below the staging directory. Every call it makes - also when it
  fails half-way - names a path whose components are plain names, so none escapes the directory; a dry run makes none. A
  restore that succeeds wrote exactly the files of a component sealed under the passphrase, each with its entry's length
  and digest, and as the database dump exactly the frames of a sealed component; of a failed restore, and of \<open>plan.json\<close>,
  its own report, only the confinement is claimed.\<close>

theorem restore_writes_sealed:
  assumes "opens_only_sealed E (rq_passphrase q) L" and "ledger_ok E L"
    and "restore E C plan_json F q p (c, log) = (x, c', log')"
  shows "\<exists>ops. log' = log @ ops \<and> list_all confined ops \<and> (rq_dry_run q \<longrightarrow> ops = []) \<and>
    (\<forall>rep. x = Inr rep \<and> \<not> rq_dry_run q \<longrightarrow>
      (if rp_state p = None then state_files ops = [] \<and> rr_files rep = [] else \<exists>(h, ix, fs) \<in> L.
         state_files ops = map (\<lambda>(p, b). (state_path p, b)) (entry_pieces (concat fs) 0 (bx_entries ix)) \<and>
         rr_files rep = map fst (entry_pieces (concat fs) 0 (bx_entries ix)) \<and>
         pieces_match E (bx_entries ix) (entry_pieces (concat fs) 0 (bx_entries ix))) \<and>
      (if rp_db p = None then appended ops = [] else \<exists>(h, ix, fs) \<in> L. appended ops = concat fs))"
proof -
  have "logs (c, log) (c', log')" using keepsD [OF keeps_restore assms(3)] .
  then obtain ops where ops: "log' = log @ ops" "list_all confined ops" by (auto simp: logs_def)
  have "ops = []" if "rq_dry_run q" using assms(3) ops(1) that by (auto simp: restore_def sret_def)
  with ops restore_adds [OF assms(1,2), where w = "(c, log)" and w' = "(c', log')"] assms(3) show ?thesis
    by (intro exI [of _ ops]) force
qed

definition toy_restore :: restore_request where
  "toy_restore = \<lparr>rq_passphrase = toy_passphrase, rq_from = ''s'', rq_only = \<lparr>on_db = True, on_state = False, on_code = True,
     on_blobs = False\<rparr>, rq_db_mode = DbReplace, rq_dry_run = False, rq_force = False, rq_live_db = False\<rparr>"

definition toy_plan :: restore_plan where
  "toy_plan = \<lparr>rp_stamp = ''s'', rp_git_sha = None, rp_db = Some (PlanReplace False), rp_state = None, rp_code = Some None,
     rp_blobs = None, rp_dry_run = False\<rparr>"

theorem restore_writes_sealed_witness:
  "\<exists>rep c' ops. restore toy_table_env (memory_cold_ops []) (\<lambda>_. Some [9]) (\<lambda>_ _. False) toy_restore toy_plan (toy_place ''s'' CompDb, []) =
     (Inr rep, c', ops) \<and> appended ops = [1, 2] \<and> list_all confined ops"
proof -
  have p: "rq_passphrase toy_restore = toy_passphrase" by (simp add: toy_restore_def)
  have dump: "restore_dump toy_table_env (memory_cold_ops []) (\<lambda>_ _. False) toy_passphrase ''s'' (toy_place ''s'' CompDb, log) =
      (Inr (), toy_place ''s'' CompDb, log @ [CreateFile [''db.dump''], AppendFile [''db.dump''] [1, 2], SetMode [''db.dump''] 384])" for log
    by (simp add: restore_dump_def sbind_def on_fst_def on_snd_def toy_read_index toy_place_get toy_open_payload fs_call_def fs_write_def
        harden_def sret_def)
  obtain rep ops where r: "restore toy_table_env (memory_cold_ops []) (\<lambda>_. Some [9]) (\<lambda>_ _. False) toy_restore toy_plan (toy_place ''s'' CompDb, []) =
     (Inr rep, toy_place ''s'' CompDb, ops)"
    by (simp add: restore_def p toy_plan_def dump) (simp add: toy_restore_def sbind_def fs_call_def on_snd_def fs_write_def harden_def sret_def check_def dump)
  from restore_writes_sealed [OF toy_table_only [folded p] toy_ledger_ok r] r show ?thesis
    by (auto simp: toy_ledger_def toy_plan_def toy_restore_def)
qed

section \<open>What a plan reports\<close>

lemma plan_component_sealed:
  assumes "opens_only_sealed E (rq_passphrase q) L" "ledger_ok E L"
    and "plan_component E C q m stamp cpt seen c = (Inr (meta, seen'), c')"
  shows "\<exists>(h, ix, fs) \<in> L. meta = meta_of stamp cpt ix" "seen' = Some (mf_git_sha m)" "bm_git_sha meta = mf_git_sha m"
    "bm_created_at meta = mf_created_at m"
proof -
  from assms(3) obtain opn c1 where index: "read_index E C (rq_passphrase q) stamp cpt c = (Inr (opn, meta), c1)"
    and sha: "reconcile_sha seen (mf_git_sha m) (bm_git_sha meta) = Inr seen'"
    and at: "reconcile_created_at (mf_created_at m) (bm_created_at meta) = Inr ()"
    by (auto simp: plan_component_def request_ok split: if_splits)
  obtain ix fs where "(mo_header opn, ix, fs) \<in> L" "meta = meta_of stamp cpt ix"
    using index_was_sealed [OF assms(1,2) index] by metis
  then show "\<exists>(h, ix, fs) \<in> L. meta = meta_of stamp cpt ix" by blast
  from sha show "seen' = Some (mf_git_sha m)" "bm_git_sha meta = mf_git_sha m"
    by (auto simp: reconcile_sha_def split: if_splits option.splits)
  from at show "bm_created_at meta = mf_created_at m" by (simp add: reconcile_created_at_def split: if_splits)
qed

lemma resolved_stamp_ok: "resolve_stamp E C from' c = (Inr stamp, c') \<Longrightarrow> stamp_ok stamp"
  by (auto simp: resolve_stamp_def request_ok validate_stamp_def Let_def split: if_splits)

lemma plan_sealed:
  assumes "opens_only_sealed E (rq_passphrase q) L" "ledger_ok E L" and run: "plan E C q c = (Inr p, c')"
  shows "stamp_ok (rp_stamp p) \<and> validate_git_sha (rp_git_sha p) = Inr () \<and>
    (if on_db (rq_only q) then build_db_plan q = map_sum id the (Inr (rp_db p)) \<and> rp_db p \<noteq> None \<and>
        (\<exists>(h, ix, fs) \<in> L. rp_git_sha p = text_to_opt (bx_git_sha ix))
     else rp_db p = None) \<and>
    (if on_state (rq_only q) then \<exists>(h, ix, fs) \<in> L. rp_git_sha p = text_to_opt (bx_git_sha ix) \<and>
        rp_state p = Some (map (\<lambda>e. (bytes_str (text_str (bent_path e)), bent_len e)) (bx_entries ix))
     else rp_state p = None)"
proof -
  define plan_db where "plan_db m stamp = (if on_db (rq_only q) then sbind (plan_component E C q m stamp CompDb None) (\<lambda>(_, seen).
         sbind (check (build_db_plan q)) (\<lambda>p. sret (Some p, seen))) else sret (None, None))" for m stamp
  define plan_state where "plan_state m stamp seen = (if on_state (rq_only q) then sbind (plan_component E C q m stamp CompState seen)
       (\<lambda>(meta, seen). sret (Some (map (\<lambda>e. (bytes_str (text_str (bent_path e)), bent_len e)) (bm_entries meta)), seen))
       else sret (None, seen))" for m stamp seen
  from run obtain stamp c1 m c2 db seen c3 state seen' c4 where
    stamp: "resolve_stamp E C (rq_from q) c = (Inr stamp, c1)" and m: "read_manifest E C stamp c1 = (Inr m, c2)"
    and db: "plan_db m stamp c2 = (Inr (db, seen), c3)" and state: "plan_state m stamp seen c3 = (Inr (state, seen'), c4)"
    and sha: "validate_git_sha (case seen' of Some s \<Rightarrow> s | None \<Rightarrow> mf_git_sha m) = Inr ()"
    and p: "rp_stamp p = stamp" "rp_git_sha p = (case seen' of Some s \<Rightarrow> s | None \<Rightarrow> mf_git_sha m)" "rp_db p = db" "rp_state p = state"
    by (auto simp: plan_def plan_db_def [symmetric] plan_state_def [symmetric] request_ok Let_def split: prod.splits)
  have d: "if on_db (rq_only q) then build_db_plan q = map_sum id the (Inr db) \<and> db \<noteq> None \<and> seen = Some (mf_git_sha m) \<and>
      (\<exists>(h, ix, fs) \<in> L. mf_git_sha m = text_to_opt (bx_git_sha ix)) else db = None \<and> seen = None"
  proof (cases "on_db (rq_only q)")
    case True
    with db obtain meta c5 where pc: "plan_component E C q m stamp CompDb None c2 = (Inr (meta, seen), c5)"
      and "build_db_plan q = map_sum id the (Inr db)" "db \<noteq> None"
      by (auto simp: plan_db_def request_ok split: prod.splits)
    moreover obtain h ix fs where "(h, ix, fs) \<in> L" "meta = meta_of stamp CompDb ix"
      using plan_component_sealed(1) [OF assms(1,2) pc] by blast
    ultimately show ?thesis using True plan_component_sealed(2,3) [OF assms(1,2) pc]
      by (auto simp: meta_of_def intro!: bexI [of _ "(h, ix, fs)"])
  qed (use db in \<open>simp add: plan_db_def sret_def\<close>)
  have st: "if on_state (rq_only q) then seen' = Some (mf_git_sha m) \<and> (\<exists>(h, ix, fs) \<in> L. mf_git_sha m = text_to_opt (bx_git_sha ix) \<and>
      state = Some (map (\<lambda>e. (bytes_str (text_str (bent_path e)), bent_len e)) (bx_entries ix))) else state = None \<and> seen' = seen"
  proof (cases "on_state (rq_only q)")
    case True
    with state obtain meta c5 where pc: "plan_component E C q m stamp CompState seen c3 = (Inr (meta, seen'), c5)"
      and "state = Some (map (\<lambda>e. (bytes_str (text_str (bent_path e)), bent_len e)) (bm_entries meta))"
      by (auto simp: plan_state_def request_ok split: prod.splits)
    moreover obtain h ix fs where "(h, ix, fs) \<in> L" "meta = meta_of stamp CompState ix"
      using plan_component_sealed(1) [OF assms(1,2) pc] by blast
    ultimately show ?thesis using True plan_component_sealed(2,3) [OF assms(1,2) pc]
      by (auto simp: meta_of_def intro!: bexI [of _ "(h, ix, fs)"])
  qed (use state in \<open>simp add: plan_state_def sret_def\<close>)
  have "rp_git_sha p = mf_git_sha m" using d st by (auto simp: p split: if_splits)
  with d st sha resolved_stamp_ok [OF stamp] show ?thesis by (auto simp: p split: if_splits)
qed

text \<open>What a plan tells of the selected components is authentic. When the database or the state is selected, the
  commit the plan names (the one a code rollback checks out) and the files it lists are those of a component sealed under
  the passphrase, although the manifest is not authenticated; the stamp and the commit are well-formed in every case; and a
  merge is planned only over a live database, a replacement over a live one only by force.\<close>

theorem plan_is_sealed:
  assumes "opens_only_sealed E (rq_passphrase q) L" and "ledger_ok E L" and "plan E C q c = (Inr p, c')"
  shows "stamp_ok (rp_stamp p) \<and> (\<forall>s. rp_git_sha p = Some s \<longrightarrow> sha_ok s) \<and>
    (on_db (rq_only q) \<longrightarrow> (\<exists>(h, ix, fs) \<in> L. rp_git_sha p = text_to_opt (bx_git_sha ix)) \<and>
      (if rq_db_mode q = DbMerge then rq_live_db q \<and> rp_db p = Some (PlanMerge merge_preview_default)
       else (rq_live_db q \<longrightarrow> rq_force q) \<and> rp_db p = Some (PlanReplace (rq_live_db q)))) \<and>
    (on_state (rq_only q) \<longrightarrow> (\<exists>(h, ix, fs) \<in> L. rp_git_sha p = text_to_opt (bx_git_sha ix) \<and>
      rp_state p = Some (map (\<lambda>e. (bytes_str (text_str (bent_path e)), bent_len e)) (bx_entries ix)))) \<and>
    (\<not> on_db (rq_only q) \<longrightarrow> rp_db p = None) \<and> (\<not> on_state (rq_only q) \<longrightarrow> rp_state p = None)"
proof -
  note p = plan_sealed [OF assms]
  have sha: "\<forall>s. rp_git_sha p = Some s \<longrightarrow> sha_ok s" using conjunct1 [OF conjunct2 [OF p]]
    by (auto simp: validate_git_sha_def split: if_splits)
  have db: "if rq_db_mode q = DbMerge then rq_live_db q \<and> rp_db p = Some (PlanMerge merge_preview_default)
      else (rq_live_db q \<longrightarrow> rq_force q) \<and> rp_db p = Some (PlanReplace (rq_live_db q))" if "on_db (rq_only q)"
    using p that by (cases "rq_db_mode q"; cases "rp_db p") (auto simp: build_db_plan_def split: if_splits)
  from p sha db show ?thesis by (simp split: if_splits)
qed

theorem plan_is_sealed_witness:
  "\<exists>c p c'. plan toy_table_env (memory_cold_ops []) toy_restore c = (Inr p, c') \<and> rp_db p = Some (PlanReplace False)"
proof -
  define c where "c = cold_put (manifest_ref ''s'') 0 [] (toy_place ''s'' CompDb)"
  have stored: "mem_get (manifest_ref ''s'') 0 (mc_inner c) = Some []" "mem_get (component_ref ''s'' CompDb) 0 (mc_inner c) = Some toy_part"
    by (simp_all add: c_def cold_put_def toy_place_def mem_put_def mem_get_def manifest_ref_def component_ref_def)
  have st: "stamp_ok ''s''" by (simp add: stamp_ok_def is_ascii_alnum_def code_of_def)
  have json: "bv_from_json toy_table_env bs = Some \<lparr>mf_stamp = ''s'', mf_git_sha = None, mf_created_at = 7,
      mf_components = [(''db'', \<lparr>chn_parts = []\<rparr>)]\<rparr>" for bs by (simp add: toy_table_env_def toy_backup_env_def)
  obtain p where p: "plan toy_table_env (memory_cold_ops []) toy_restore c = (Inr p, c)"
    using toy_read_index [of CompDb c] stored st
    by (simp add: plan_def resolve_stamp_def read_manifest_def plan_component_def toy_restore_def sbind_def check_def sret_def
        on_tier_memory_get validate_stamp_def json validate_git_sha_def reconcile_sha_def reconcile_created_at_def meta_of_def
        toy_index_def text_to_opt_def build_db_plan_def Let_def)
  have q: "rq_passphrase toy_restore = toy_passphrase" by (simp add: toy_restore_def)
  from plan_is_sealed [OF toy_table_only [folded q] toy_ledger_ok p] p show ?thesis by (auto simp: toy_restore_def)
qed

end
