(* ===== verification/HttpBase.thy ===== *)
theory HttpBase
  imports ServerAuth ServerRecords Detection BlobTiers
begin

text \<open>
  \<^verbatim>\<open>crates/server/src/http.rs\<close>: the shared state of the handlers, wire encodings, listing cursors and the three session
  extractors. A Rust string is the HOL string of its UTF-8 bytes, base64 is the \<^verbatim>\<open>base64\<close> package's and a parameter, a
  JSON body is its record of fields. A handler is a function on the shared state: \<open>None\<close> is a panic, a left value an early
  return with that response.
\<close>

section \<open>Responses and requests\<close>

record stream_out =
  so_stream_type :: string
  so_chunk_count :: u64
  so_chunk_size :: u32
  so_blob_ref :: string

record grant_out =
  go_grant_b64 :: string
  go_grant_sig_b64 :: string

record file_res =
  fr_version :: u64
  fr_manifest_b64 :: string
  fr_manifest_sig_b64 :: string
  fr_genesis_b64 :: string
  fr_genesis_sig_b64 :: string
  fr_wrapped_dek_b64 :: string
  fr_my_grant :: grant_out
  fr_ancestor_grants :: "grant_out list"
  fr_recovery_grant :: "grant_out option"
  fr_streams :: "stream_out list"

record recipient_out =
  ro_recipient_id :: string
  ro_granted_by :: string
  ro_grant :: grant_out
  ro_ancestor_grants :: "grant_out list"

record list_entry_res =
  le_file_id :: string
  le_file_type :: string
  le_version :: u64
  le_updated_at :: u64
  le_streams :: "(string \<times> u64) list"

record control_record_json =
  cj_kind :: string
  cj_record_b64 :: string
  cj_sig_b64 :: string
  cj_co_sig_b64 :: "string option"
  cj_chain_head_b64 :: string

datatype body = NoBody | Octets bytes | JCode string | JUserId string | JRegistrationKey string
  | JOperationalKey string u64 | JDelegationDoc string string | JInstalled string u64 | JDelegationError string string
  | JRecoveryPubkey string "string option" | JRecoveryChallenge string bytes string string | JSession string u64
  | JChallenge string bytes u64 | JBinding string string | JRevocations "control_record_json list" | JChainHead string
  | JStaged string u64 | JChunkStatus string nat nat | JDirectLink string u64 | JFile file_res
  | JRecipients "recipient_out list" | JList "list_entry_res list" "string option" u64

record response =
  hr_status :: nat
  hr_retry_after :: "u64 option"
  hr_body :: body

definition bare :: "nat \<Rightarrow> response" where
  "bare code = \<lparr>hr_status = code, hr_retry_after = None, hr_body = NoBody\<rparr>"

definition with_body :: "nat \<Rightarrow> body \<Rightarrow> response" where
  "with_body code b = \<lparr>hr_status = code, hr_retry_after = None, hr_body = b\<rparr>"

definition rate_limited :: "u64 \<Rightarrow> response" where
  "rate_limited retry_after_s = \<lparr>hr_status = 429, hr_retry_after = Some retry_after_s, hr_body = NoBody\<rparr>"

definition internal_error :: response where
  "internal_error = bare 500"

section \<open>State and context\<close>

record 's serving_ops = "'s blob_ops" +
  op_status :: "string \<Rightarrow> u64 \<Rightarrow> 's \<Rightarrow> (blob_error + chunk_status option) \<times> 's"
  op_direct :: "string \<Rightarrow> u64 \<Rightarrow> u64 \<Rightarrow> 's \<Rightarrow> (blob_error + direct_link option) \<times> 's"

record 'b app_state =
  ap_auth :: auth_service
  ap_delegation :: "delegation_ctx option"
  ap_blobs :: 'b
  ap_audit :: sink_state

text \<open>What is fixed while the server runs, and the packages. \<open>hv_dir_signer\<close> is the seed of the binding signer.\<close>

record http_env =
  hv_prims :: primitives
  hv_to_nfc :: "bytes \<Rightarrow> bytes"
  hv_is_nfc :: "bytes \<Rightarrow> bool"
  hv_b64_enc :: "bytes \<Rightarrow> string"
  hv_b64_dec :: "string \<Rightarrow> bytes option"
  hv_url_enc :: "bytes \<Rightarrow> string"
  hv_url_dec :: "string \<Rightarrow> bytes option"
  hv_auth :: auth_config
  hv_dir_signer :: "bytes option"
  hv_direct_links_enabled :: bool
  hv_max_file_bytes :: "u64 option"

text \<open>Of one request: the connection's exporter, the authorization header (when it is text), the clock at each of its
  readings, what the random number generator gives, and which calls of the backend fail.\<close>

datatype clock_read = AtSession | AtWindow | AtCall | AtAudit

datatype file_call = CallEnroll | CallIssueKey | CallSetRecovery | CallGetRecovery | CallBinding | CallPutBinding
  | CallControlRecords | CallAppendControl | CallStage | CallMeta u64 | CallFinalize | CallGetFile | CallAddWrap
  | CallDeleteWrap | CallDiscard | CallDelete | CallRecipients | CallList

record http_ctx =
  hx_exporter :: "bytes option"
  hx_authorization :: "string option"
  hx_clock :: "clock_read \<Rightarrow> u64"
  hx_random16 :: bytes
  hx_random32 :: bytes
  hx_token :: bytes
  hx_eph :: bytes
  hx_wrap_random :: bytes
  hx_auth_faults :: store_faults
  hx_file_faults :: "file_call \<Rightarrow> store_error option"
  hx_persist :: delegation_persist

type_synonym ('s, 'a) serve = "'s \<Rightarrow> ((response + 'a) \<times> 's) option"

definition hbind :: "('s, 'a) serve \<Rightarrow> ('a \<Rightarrow> ('s, 'c) serve) \<Rightarrow> ('s, 'c) serve" where
  "hbind m f s = (case m s of None \<Rightarrow> None | Some (Inl r, s') \<Rightarrow> Some (Inl r, s') | Some (Inr x, s') \<Rightarrow> f x s')"

definition hret :: "'a \<Rightarrow> ('s, 'a) serve" where
  "hret x s = Some (Inr x, s)"

definition halt :: "response \<Rightarrow> ('s, 'a) serve" where
  "halt r s = Some (Inl r, s)"

definition reads :: "('s \<Rightarrow> 'a) \<Rightarrow> ('s, 'a) serve" where
  "reads f s = Some (Inr (f s), s)"

definition panics :: "('s \<Rightarrow> 's option) \<Rightarrow> ('s, unit) serve" where
  "panics f s = map_option (\<lambda>s'. (Inr (), s')) (f s)"

text \<open>\<open>let Some(x) = x else \<dots>\<close>, and a check that returns early.\<close>

definition require :: "'a option \<Rightarrow> response \<Rightarrow> ('s, 'a) serve" where
  "require x r = (case x of Some v \<Rightarrow> hret v | None \<Rightarrow> halt r)"

definition ensure :: "bool \<Rightarrow> response \<Rightarrow> ('s, unit) serve" where
  "ensure b r = (if b then hret () else halt r)"

text \<open>A store call that may fail; every handler answers a backend fault alike.\<close>

definition backend :: "http_ctx \<Rightarrow> file_call \<Rightarrow> ('s, unit) serve" where
  "backend R call = (case hx_file_faults R call of Some e \<Rightarrow> halt internal_error | None \<Rightarrow> hret ())"

definition on_store :: "(inner \<Rightarrow> 'r \<times> inner) \<Rightarrow> ('b app_state, 'r) serve" where
  "on_store f s = (case f (av_store (ap_auth s)) of (x, st) \<Rightarrow>
     Some (Inr x, s\<lparr>ap_auth := (ap_auth s)\<lparr>av_store := st\<rparr>\<rparr>))"

definition from_store :: "(inner \<Rightarrow> 'r) \<Rightarrow> ('b app_state, 'r) serve" where
  "from_store f = reads (\<lambda>s. f (av_store (ap_auth s)))"

definition on_auth :: "(auth_service \<Rightarrow> ('r \<times> auth_service) option) \<Rightarrow> ('b app_state, 'r) serve" where
  "on_auth f s = map_option (\<lambda>(x, sv). (Inr x, s\<lparr>ap_auth := sv\<rparr>)) (f (ap_auth s))"

definition on_blobs :: "('b \<Rightarrow> (blob_error + 'r) \<times> 'b) \<Rightarrow> ('b app_state, 'r) serve" where
  "on_blobs f s = (case f (ap_blobs s) of
       (Inl e, b) \<Rightarrow> Some (Inl internal_error, s\<lparr>ap_blobs := b\<rparr>) | (Inr x, b) \<Rightarrow> Some (Inr x, s\<lparr>ap_blobs := b\<rparr>))"

definition on_audit :: "(sink_state \<Rightarrow> sink_state) \<Rightarrow> ('b app_state, unit) serve" where
  "on_audit f s = Some (Inr (), s\<lparr>ap_audit := f (ap_audit s)\<rparr>)"

definition on_audit_panics :: "(sink_state \<Rightarrow> sink_state option) \<Rightarrow> ('b app_state, unit) serve" where
  "on_audit_panics f = panics (\<lambda>s. map_option (\<lambda>a. s\<lparr>ap_audit := a\<rparr>) (f (ap_audit s)))"

section \<open>Wire encodings\<close>

definition ascii_code :: "char \<Rightarrow> nat" where
  "ascii_code c = of_char c"

text \<open>\<open>char::to_digit(16)\<close> and \<open>u8::from_str_radix(_, 16)\<close> of two characters, which takes a plus sign.\<close>

definition hex_digit :: "char \<Rightarrow> nat option" where
  "hex_digit c = (let n = ascii_code c in
     if 48 \<le> n \<and> n \<le> 57 then Some (n - 48) else if 97 \<le> n \<and> n \<le> 102 then Some (n - 87)
     else if 65 \<le> n \<and> n \<le> 70 then Some (n - 55) else None)"

definition hex_byte :: "char \<Rightarrow> char \<Rightarrow> byte option" where
  "hex_byte a b = (if a = CHR ''+'' then map_option word_of_nat (hex_digit b)
     else Option.bind (hex_digit a) (\<lambda>x. map_option (\<lambda>y. word_of_nat (16 * x + y)) (hex_digit b)))"

fun hex_pairs :: "string \<Rightarrow> bytes option" where
  "hex_pairs [] = Some []"
| "hex_pairs [a] = None"
| "hex_pairs (a # b # rest) = Option.bind (hex_byte a b) (\<lambda>x. map_option (\<lambda>xs. x # xs) (hex_pairs rest))"

definition hex_fixed :: "nat \<Rightarrow> string \<Rightarrow> bytes option" where
  "hex_fixed n s = (if \<not> list_all (\<lambda>c. ascii_code c < 128) s \<or> length s \<noteq> 2 * n then None else hex_pairs s)"

definition hex_encode :: "bytes \<Rightarrow> string" where
  "hex_encode b = concat (map hex2 b)"

definition b64_fixed :: "http_env \<Rightarrow> nat \<Rightarrow> string \<Rightarrow> bytes option" where
  "b64_fixed E n s = Option.bind (hv_b64_dec E s) (\<lambda>v. if length v = n then Some v else None)"

definition b64_vec :: "http_env \<Rightarrow> string \<Rightarrow> bytes option" where
  "b64_vec E s = hv_b64_dec E s"

text \<open>\<open>str::parse\<close> into an unsigned integer below \<open>bound\<close>.\<close>

definition is_dec_digit :: "char \<Rightarrow> bool" where
  "is_dec_digit c \<longleftrightarrow> 48 \<le> ascii_code c \<and> ascii_code c \<le> 57"

definition parse_nat :: "nat \<Rightarrow> string \<Rightarrow> nat option" where
  "parse_nat bound s =
     (let ds = (if s \<noteq> [] \<and> hd s = CHR ''+'' \<and> tl s \<noteq> [] then tl s else s) in
      if ds = [] \<or> \<not> list_all is_dec_digit ds then None
      else if undec ds < bound then Some (undec ds) else None)"

definition parse_u64 :: "string \<Rightarrow> u64 option" where
  "parse_u64 s = map_option word_of_nat (parse_nat (2 ^ 64) s)"

definition file_type_code :: "string \<Rightarrow> i16 option" where
  "file_type_code s = map_of [(''video'', 1), (''image'', 2), (''blog'', 3), (''generic'', 4), (''bundle'', 5)] s"

definition file_type_name :: "i16 \<Rightarrow> string" where
  "file_type_name c = (if c = 1 then ''video'' else if c = 2 then ''image'' else if c = 3 then ''blog''
     else if c = 4 then ''generic'' else if c = 5 then ''bundle'' else ''unknown'')"

definition stream_type_code :: "string \<Rightarrow> i16 option" where
  "stream_type_code s = map_of [(''content'', 1), (''metadata'', 2), (''thumbnail'', 3), (''preview'', 4)] s"

definition stream_type_name :: "i16 \<Rightarrow> string" where
  "stream_type_name c = (if c = 1 then ''content'' else if c = 2 then ''metadata'' else if c = 3 then ''thumbnail''
     else if c = 4 then ''preview'' else ''unknown'')"

definition recipient_type_code :: "string \<Rightarrow> i16 option" where
  "recipient_type_code s = map_of [(''user'', 1), (''recovery'', 2)] s"

definition parse_recipient_id :: "string \<Rightarrow> bytes option" where
  "parse_recipient_id s = (if s = ''recovery'' then Some (replicate 16 0) else hex_fixed 16 s)"

definition kind_str :: "i16 \<Rightarrow> string" where
  "kind_str kind = (if kind = 6 then ''revocation'' else if kind = 7 then ''reinstatement''
     else if kind = 8 then ''key_compromise'' else ''unknown'')"

definition upload_token :: "bytes \<Rightarrow> u64 \<Rightarrow> string" where
  "upload_token file_id version = hex_encode file_id @ ''.'' @ dec (unat version)"

definition session_expires_in_s :: "u64 \<Rightarrow> u64" where
  "session_expires_in_s ttl_ms = (if ttl_ms = 0 then 0 else max (ttl_ms div 1000) 1)"

section \<open>Listing cursors\<close>

definition CURSOR_V :: string where "CURSOR_V = ''1''"

definition sort_name :: "list_sort \<Rightarrow> string" where
  "sort_name srt = (case srt of Newest \<Rightarrow> ''newest'' | Oldest \<Rightarrow> ''oldest'')"

definition cursor_fp :: "http_env \<Rightarrow> i16 option \<Rightarrow> list_sort \<Rightarrow> bool \<Rightarrow> string" where
  "cursor_fp E file_type srt owner_only =
     (let t = (case file_type of None \<Rightarrow> [] | Some c \<Rightarrow> file_type_name c);
          o' = (if owner_only then ''me'' else []);
          digest = pr_sha (hv_prims E) (str_bytes (''type='' @ t @ '';sort='' @ sort_name srt @ '';owner='' @ o'))
      in take 16 (hex_encode digest))"

definition encode_cursor :: "http_env \<Rightarrow> u64 \<Rightarrow> string \<Rightarrow> string" where
  "encode_cursor E next_offset fp =
     hv_url_enc E (str_bytes (CURSOR_V @ ''|'' @ dec (unat next_offset) @ ''|'' @ fp))"

datatype cursor_error = CursorMalformed | QueryMismatch

text \<open>The decoded bytes as a string, when they are UTF-8.\<close>

definition bytes_string :: "bytes \<Rightarrow> string" where
  "bytes_string bs = map (\<lambda>b. char_of (unat b)) bs"

definition decode_cursor :: "http_env \<Rightarrow> string \<Rightarrow> string \<Rightarrow> cursor_error + u64" where
  "decode_cursor E cursor want_fp =
     rbind (ok_or (hv_url_dec E cursor) CursorMalformed) (\<lambda>raw.
     if \<not> utf8_valid raw then Inl CursorMalformed
     else case split_on (CHR ''|'') (bytes_string raw) of
       [v, off, fp] \<Rightarrow>
         if v \<noteq> CURSOR_V then Inl CursorMalformed
         else rbind (ok_or (parse_nat (2 ^ 32) off) CursorMalformed) (\<lambda>offset.
           if fp \<noteq> want_fp then Inl QueryMismatch else Inr (word_of_nat offset))
     | _ \<Rightarrow> Inl CursorMalformed)"

section \<open>Sessions\<close>

definition session_header :: "http_ctx \<Rightarrow> bytes option" where
  "session_header R = Option.bind (hx_authorization R) (\<lambda>h.
     Option.bind (strip_prefix ''MaxSecu-Session '' h) (hex_fixed 32))"

definition resolve_session :: "http_env \<Rightarrow> http_ctx \<Rightarrow> ('b app_state, bytes \<times> bytes) serve" where
  "resolve_session E R =
     hbind (require (hx_exporter R) (bare 500)) (\<lambda>exporter.
     hbind (require (session_header R) (bare 401)) (\<lambda>token.
     hbind (reads (\<lambda>s. validate_session (hv_prims E) (hx_auth_faults R) token exporter (hx_clock R AtSession) (ap_auth s))) (\<lambda>v.
     case v of
       Inl AeUnauthorized \<Rightarrow> halt (bare 401)
     | Inl (AeInternal e) \<Rightarrow> halt (bare 500)
     | Inr user_id \<Rightarrow> hret (user_id, token))))"

definition authed_session :: "http_env \<Rightarrow> http_ctx \<Rightarrow> ('b app_state, bytes) serve" where
  "authed_session E R =
     hbind (resolve_session E R) (\<lambda>(user_id, token).
     if user_id = id_raw RECOVERY_ID then halt (bare 403) else hret user_id)"

definition recovery_ok_session :: "http_env \<Rightarrow> http_ctx \<Rightarrow> ('b app_state, bytes \<times> bytes) serve" where
  "recovery_ok_session E R = resolve_session E R"

definition admin_binding :: "http_env \<Rightarrow> bytes \<Rightarrow> u64 \<Rightarrow> stored_binding \<Rightarrow> bool" where
  "admin_binding E dir_pub now stored =
     (case decode TYPE_DIR_BINDING put_dir_binding (get_dir_binding (hv_is_nfc E)) (sb_binding_bytes stored) of
        Inl _ \<Rightarrow> False
      | Inr binding \<Rightarrow>
          is_ok (rbind (vk_from_bytes (pr_vk_valid (hv_prims E)) dir_pub) (\<lambda>vk.
            verify_canonical (pr_strict (hv_prims E)) vk L_DIRBINDING TYPE_DIR_BINDING put_dir_binding binding (sb_signature stored))) \<and>
          ts_raw (db_not_before binding) \<le> now \<and> now \<le> ts_raw (db_not_after binding) \<and>
          RoleAdmin \<in> set (roles (db_roles binding)))"

definition admin_session :: "http_env \<Rightarrow> http_ctx \<Rightarrow> ('b app_state, bytes) serve" where
  "admin_session E R =
     hbind (resolve_session E R) (\<lambda>(user_id, token).
     if user_id = id_raw RECOVERY_ID then hret user_id
     else
       hbind (reads (\<lambda>s. binding_verify_pub (hv_auth E) (ap_delegation s))) (\<lambda>found.
       hbind (require found (bare 403)) (\<lambda>dir_pub.
       hbind (backend R CallBinding) (\<lambda>_.
       hbind (from_store (binding_by_user_id user_id)) (\<lambda>found.
       hbind (require found (bare 403)) (\<lambda>stored.
       hbind (ensure (admin_binding E dir_pub (hx_clock R AtWindow) stored) (bare 403)) (\<lambda>_.
       hret user_id)))))))"

end
