(* ===== verification/HttpApi.thy ===== *)
theory HttpApi
  imports HttpBase
begin

text \<open>
  \<^verbatim>\<open>crates/server/src/http.rs\<close>: the handlers of the control plane, one definition each, and the router. The file store
  and the account store are the in-memory one; the blob store is any \<open>serving_ops\<close>.
\<close>

section \<open>Enrolment\<close>

definition BINDING_NOT_BEFORE_MS :: u64 where "BINDING_NOT_BEFORE_MS = 0"
definition BINDING_NOT_AFTER_MS :: u64 where "BINDING_NOT_AFTER_MS = 4102444800000"
definition REG_KEY_TTL_MS :: u64 where "REG_KEY_TTL_MS = 7 * 24 * 60 * 60 * 1000"

record register_req =
  rg_username :: string
  rg_enc_pub_b64 :: string
  rg_sig_pub_b64 :: string
  rg_mlkem_pub_b64 :: "string option"
  rg_registration_key :: string

text \<open>An optional field: absent, or decoded, or the request is malformed.\<close>

definition optional_field :: "('a \<Rightarrow> 'c option) \<Rightarrow> 'a option \<Rightarrow> ('s, 'c option) serve" where
  "optional_field f x = (case x of None \<Rightarrow> hret None
     | Some v \<Rightarrow> hbind (require (f v) (bare 400)) (\<lambda>y. hret (Some y)))"

definition sign_enrolment_binding :: "http_env \<Rightarrow> bytes \<Rightarrow> dir_binding \<Rightarrow> stored_binding" where
  "sign_enrolment_binding E signer binding =
     \<lparr>sb_binding_bytes = encode TYPE_DIR_BINDING put_dir_binding binding,
      sb_signature = sign_canonical (pr_ed_sign (hv_prims E)) signer L_DIRBINDING TYPE_DIR_BINDING put_dir_binding binding\<rparr>"

definition enrolment_binding :: "utext \<Rightarrow> bytes \<Rightarrow> bytes \<Rightarrow> bytes \<Rightarrow> bytes option \<Rightarrow> role list \<Rightarrow> dir_binding" where
  "enrolment_binding username user_id enc_pub sig_pub mlkem_pub rs =
     \<lparr>db_username = username, db_user_id = Id user_id, db_enc_pub = Bytes32 enc_pub, db_sig_pub = Bytes32 sig_pub,
      db_key_version = 1, db_roles = role_set_new rs, db_not_before = Timestamp BINDING_NOT_BEFORE_MS,
      db_not_after = Timestamp BINDING_NOT_AFTER_MS, db_mlkem_pub = map_option MlKemPub mlkem_pub\<rparr>"

definition enrolment_is_open :: "http_env \<Rightarrow> http_ctx \<Rightarrow> 'b app_state \<Rightarrow> bool" where
  "enrolment_is_open E R s = enrollment_open (pr_vk_valid (hv_prims E)) (pr_strict (hv_prims E)) (ap_delegation s)
     (hx_clock R AtWindow div 1000)"

definition register :: "http_env \<Rightarrow> http_ctx \<Rightarrow> register_req \<Rightarrow> ('b app_state, response) serve" where
  "register E R q =
     hbind (require (b64_fixed E 32 (rg_enc_pub_b64 q)) (bare 400)) (\<lambda>enc_pub.
     hbind (require (b64_fixed E 32 (rg_sig_pub_b64 q)) (bare 400)) (\<lambda>sig_pub.
     hbind (require (case text_new (hv_to_nfc E) (str_bytes (rg_username q)) of Inl _ \<Rightarrow> None | Inr t \<Rightarrow> Some t) (bare 400)) (\<lambda>username.
     hbind (require (hv_dir_signer E) (bare 403)) (\<lambda>signer.
     hbind (reads (enrolment_is_open E R)) (\<lambda>is_open.
     hbind (ensure is_open (bare 403)) (\<lambda>_.
     hbind (optional_field (b64_fixed E MLKEM768_PUB_LEN) (rg_mlkem_pub_b64 q)) (\<lambda>mlkem_pub.
     let user_id = hx_random16 R;
         sign_for = (\<lambda>rs. sign_enrolment_binding E signer (enrolment_binding username user_id enc_pub sig_pub mlkem_pub rs));
         user_binding = sign_for [RoleUser]; admin_binding = sign_for [RoleUser, RoleAdmin];
         key_hash = pr_sha (hv_prims E) (str_bytes (rg_registration_key q)) in
     hbind (backend R CallEnroll) (\<lambda>_.
     hbind (on_store (enroll key_hash user_id (rg_username q) enc_pub sig_pub user_binding admin_binding)) (\<lambda>outcome.
     case outcome of
       Enrolled is_admin \<Rightarrow>
         let logged = (if is_admin then admin_binding else user_binding) in
         hbind (on_audit (publish_dir_binding (sb_binding_bytes logged))) (\<lambda>_.
         hret (with_body 201 (JUserId (hex_encode user_id))))
     | KeyInvalid \<Rightarrow> halt (bare 403)
     | UsernameTaken \<Rightarrow> halt (bare 409))))))))))"

definition mint_registration_key :: "http_env \<Rightarrow> http_ctx \<Rightarrow> ('b app_state, response) serve" where
  "mint_registration_key E R =
     hbind (admin_session E R) (\<lambda>_.
     let key = hex_encode (hx_random32 R); key_hash = pr_sha (hv_prims E) (str_bytes key) in
     hbind (panics (\<lambda>s. map_option (\<lambda>_. s) (checked_add (hx_clock R AtCall) REG_KEY_TTL_MS))) (\<lambda>_.
     hbind (backend R CallIssueKey) (\<lambda>_.
     hbind (on_store (\<lambda>st. ((), issue_registration_key key_hash st))) (\<lambda>_.
     hret (with_body 201 (JRegistrationKey key))))))"

section \<open>Delegation\<close>

definition bootstrap_operational_key :: "http_env \<Rightarrow> http_ctx \<Rightarrow> ('b app_state, response) serve" where
  "bootstrap_operational_key E R =
     hbind (reads ap_delegation) (\<lambda>found.
     hbind (require found (bare 404)) (\<lambda>ctx.
     hret (with_body 200 (JOperationalKey (hv_b64_enc E (dc_operational_pub ctx)) (hx_clock R AtCall div 1000)))))"

definition get_delegation_doc :: "http_env \<Rightarrow> ('b app_state, response) serve" where
  "get_delegation_doc E =
     hbind (reads (\<lambda>s. Option.bind (ap_delegation s) ctx_current)) (\<lambda>found.
     hbind (require found (bare 404)) (\<lambda>(dir, cert).
     hret (with_body 200 (JDelegationDoc (hv_b64_enc E dir) (hv_b64_enc E cert)))))"

definition BAD_SIGNATURE_DETAIL :: string where
  "BAD_SIGNATURE_DETAIL = ''the delegation signature or certificate format did not verify against the posted directory (D5) key''"
definition OP_KEY_MISMATCH_DETAIL :: string where
  "OP_KEY_MISMATCH_DETAIL = ''the delegation authorizes a different operational key than this server holds (the server may have been reinstalled or reset since the token was issued)''"
definition BAD_WINDOW_DETAIL :: string where
  "BAD_WINDOW_DETAIL = ''the delegation window is not valid for the server's current clock (almost always clock skew - sync NTP on both machines, then re-run)''"

definition delegation_reason_400 :: "string \<Rightarrow> string \<Rightarrow> response" where
  "delegation_reason_400 err detail = with_body 400 (JDelegationError err detail)"

definition bootstrap_response :: "bootstrap_result \<Rightarrow> response" where
  "bootstrap_response r = (case r of
       BsOk valid_until \<Rightarrow> with_body 201 (JInstalled ''delegated'' valid_until)
     | BsNotAwaiting \<Rightarrow> bare 409
     | BsBadToken \<Rightarrow> bare 403
     | BsBadSignature \<Rightarrow> delegation_reason_400 ''bad_signature'' BAD_SIGNATURE_DETAIL
     | BsOpKeyMismatch \<Rightarrow> delegation_reason_400 ''op_key_mismatch'' OP_KEY_MISMATCH_DETAIL
     | BsBadWindow \<Rightarrow> delegation_reason_400 ''bad_window'' BAD_WINDOW_DETAIL
     | BsPersist e \<Rightarrow> internal_error)"

definition renewal_response :: "renew_result \<Rightarrow> response" where
  "renewal_response r = (case r of
       RnOk valid_until \<Rightarrow> with_body 200 (JInstalled ''renewed'' valid_until)
     | RnNotDelegated \<Rightarrow> bare 409
     | RnBadSignature \<Rightarrow> delegation_reason_400 ''bad_signature'' BAD_SIGNATURE_DETAIL
     | RnOpKeyMismatch \<Rightarrow> delegation_reason_400 ''op_key_mismatch'' OP_KEY_MISMATCH_DETAIL
     | RnBadWindow \<Rightarrow> delegation_reason_400 ''bad_window'' BAD_WINDOW_DETAIL
     | RnPersist e \<Rightarrow> internal_error)"

text \<open>An operation on the installed delegation context.\<close>

definition on_delegation :: "delegation_ctx \<Rightarrow> (delegation_ctx \<Rightarrow> ('r \<times> delegation_ctx) option) \<Rightarrow> ('b app_state, 'r) serve" where
  "on_delegation ctx f s = map_option (\<lambda>(x, ctx'). (Inr x, s\<lparr>ap_delegation := Some ctx'\<rparr>)) (f ctx)"

definition post_bootstrap_delegation :: "http_env \<Rightarrow> http_ctx \<Rightarrow> string \<Rightarrow> string \<Rightarrow> string \<Rightarrow> ('b app_state, response) serve" where
  "post_bootstrap_delegation E R token directory_pub_b64 cert_b64 =
     hbind (reads ap_delegation) (\<lambda>found.
     hbind (require found (bare 404)) (\<lambda>ctx.
     hbind (require (b64_fixed E 32 directory_pub_b64) (bare 400)) (\<lambda>dir_pub.
     hbind (require (b64_vec E cert_b64) (bare 400)) (\<lambda>cert.
     hbind (on_delegation ctx (install_bootstrap (pr_sha (hv_prims E)) (pr_vk_valid (hv_prims E)) (pr_strict (hv_prims E))
       (hx_persist R) (str_bytes token) dir_pub cert (hx_clock R AtCall div 1000))) (\<lambda>r.
     hret (bootstrap_response r))))))"

definition post_admin_delegation :: "http_env \<Rightarrow> http_ctx \<Rightarrow> string \<Rightarrow> ('b app_state, response) serve" where
  "post_admin_delegation E R cert_b64 =
     hbind (admin_session E R) (\<lambda>_.
     hbind (reads ap_delegation) (\<lambda>found.
     hbind (require found (bare 404)) (\<lambda>ctx.
     hbind (require (b64_vec E cert_b64) (bare 400)) (\<lambda>cert.
     hbind (on_delegation ctx (install_renewal (pr_vk_valid (hv_prims E)) (pr_strict (hv_prims E)) (hx_persist R) cert
       (hx_clock R AtCall div 1000))) (\<lambda>r.
     hret (renewal_response r))))))"

section \<open>Recovery login\<close>

definition recovery_register :: "http_env \<Rightarrow> http_ctx \<Rightarrow> string \<Rightarrow> string \<Rightarrow> string option \<Rightarrow> ('b app_state, response) serve" where
  "recovery_register E R enc_pub_b64 sig_pub_b64 mlkem_pub_b64 =
     hbind (require (b64_fixed E 32 enc_pub_b64) (bare 400)) (\<lambda>enc_pub.
     hbind (require (b64_fixed E 32 sig_pub_b64) (bare 400)) (\<lambda>sig_pub.
     hbind (optional_field (b64_fixed E MLKEM768_PUB_LEN) mlkem_pub_b64) (\<lambda>mlkem_pub.
     hbind (backend R CallSetRecovery) (\<lambda>_.
     hbind (on_store (set_recovery_account enc_pub sig_pub mlkem_pub)) (\<lambda>first.
     hret (if first then bare 201 else bare 409))))))"

definition recovery_pubkey :: "http_env \<Rightarrow> http_ctx \<Rightarrow> ('b app_state, response) serve" where
  "recovery_pubkey E R =
     hbind (backend R CallGetRecovery) (\<lambda>_.
     hbind (from_store get_recovery_account) (\<lambda>found.
     hbind (require found (bare 404)) (\<lambda>a.
     hret (with_body 200 (JRecoveryPubkey (hv_b64_enc E (ra_enc_pub a)) (map_option (hv_b64_enc E) (ra_mlkem_pub a)))))))"

definition http_recovery_challenge :: "http_env \<Rightarrow> http_ctx \<Rightarrow> ('b app_state, response) serve" where
  "http_recovery_challenge E R =
     hbind (on_auth (auth_recovery_challenge (hv_prims E) (hv_auth E) (hx_auth_faults R) (hx_random32 R) (hx_random16 R)
       (hx_eph R) (hx_wrap_random R) (hx_clock R AtCall))) (\<lambda>r.
     case r of
       Inr ch \<Rightarrow> hret (with_body 200 (JRecoveryChallenge (hex_encode (rc_challenge_id ch)) (ag_server_id (hv_auth E))
         (hv_b64_enc E (rc_wrapped_blob ch)) (if rc_hybrid ch then ''v2'' else ''v1'')))
     | Inl ReNoAccount \<Rightarrow> hret (bare 404)
     | Inl ReWrapFailed \<Rightarrow> hret internal_error
     | Inl (ReInternal e) \<Rightarrow> hret internal_error
     | Inl ReUnauthorized \<Rightarrow> hret (bare 401))"

definition recovery_verify :: "http_env \<Rightarrow> http_ctx \<Rightarrow> string \<Rightarrow> string \<Rightarrow> u64 \<Rightarrow> ('b app_state, response) serve" where
  "recovery_verify E R challenge_id_hex proof_b64 timestamp =
     hbind (require (hx_exporter R) (bare 500)) (\<lambda>exporter.
     hbind (require (hex_fixed 16 challenge_id_hex) (bare 400)) (\<lambda>challenge_id.
     hbind (require (b64_fixed E 64 proof_b64) (bare 400)) (\<lambda>proof'.
     hbind (on_auth (auth_recovery_verify (hv_prims E) (hv_to_nfc E) (hv_auth E) (hx_auth_faults R) (hx_token R) challenge_id
       timestamp proof' exporter (hx_clock R AtCall))) (\<lambda>r.
     case r of
       Inr token \<Rightarrow> hret (with_body 200 (JSession (token_to_hex token) (session_expires_in_s (ag_session_ttl_ms (hv_auth E)))))
     | Inl (ReInternal e) \<Rightarrow> hret internal_error
     | Inl _ \<Rightarrow> hret (bare 401)))))"

section \<open>Login\<close>

definition MAX_SESSION_USERNAME_BYTES :: nat where "MAX_SESSION_USERNAME_BYTES = 4 * MAX_TEXT"

definition http_challenge :: "http_env \<Rightarrow> http_ctx \<Rightarrow> string \<Rightarrow> ('b app_state, response) serve" where
  "http_challenge E R username =
     (if MAX_SESSION_USERNAME_BYTES < length username then halt (bare 400)
      else hbind (on_auth (auth_challenge (hv_auth E) (hx_auth_faults R) (hx_random32 R) username (hx_clock R AtCall))) (\<lambda>r.
        case r of
          Inr ch \<Rightarrow> hret (with_body 200 (JChallenge (hv_b64_enc E (ch_nonce ch)) (ch_server_id ch) (ch_expires_in_s ch)))
        | Inl (CeRateLimited retry_after_s) \<Rightarrow> hret (rate_limited retry_after_s)
        | Inl (CeInternal e) \<Rightarrow> hret internal_error))"

definition http_prove :: "http_env \<Rightarrow> http_ctx \<Rightarrow> string \<Rightarrow> u64 \<Rightarrow> string \<Rightarrow> ('b app_state, response) serve" where
  "http_prove E R username timestamp proof_b64 =
     hbind (require (hx_exporter R) (bare 500)) (\<lambda>exporter.
     if MAX_SESSION_USERNAME_BYTES < length username then halt (bare 400)
     else
       hbind (require (b64_fixed E 64 proof_b64) (bare 400)) (\<lambda>proof'.
       hbind (on_auth (prove (hv_prims E) (hv_to_nfc E) (hv_auth E) (hx_auth_faults R) (hx_token R) username timestamp proof'
         exporter (hx_clock R AtCall))) (\<lambda>r.
       case r of
         Inr token \<Rightarrow> hret (with_body 200 (JSession (token_to_hex token) (session_expires_in_s (ag_session_ttl_ms (hv_auth E)))))
       | Inl PeUnauthorized \<Rightarrow> hret (bare 401)
       | Inl (PeRateLimited retry_after_s) \<Rightarrow> hret (rate_limited retry_after_s)
       | Inl (PeInternal e) \<Rightarrow> hret internal_error)))"

definition http_logout :: "http_env \<Rightarrow> http_ctx \<Rightarrow> ('b app_state, response) serve" where
  "http_logout E R =
     hbind (recovery_ok_session E R) (\<lambda>(user_id, token).
     hbind (on_auth (\<lambda>sv. Some (auth_logout (hv_prims E) (hx_auth_faults R) token sv))) (\<lambda>r.
     hret (case r of Inr _ \<Rightarrow> bare 204 | Inl e \<Rightarrow> bare 500)))"

section \<open>Directory and control log\<close>

definition binding_response :: "http_env \<Rightarrow> stored_binding option \<Rightarrow> response" where
  "binding_response E b = (case b of
       Some b \<Rightarrow> with_body 200 (JBinding (hv_b64_enc E (sb_binding_bytes b)) (hv_b64_enc E (sb_signature b)))
     | None \<Rightarrow> bare 404)"

definition directory_by_username :: "http_env \<Rightarrow> http_ctx \<Rightarrow> string \<Rightarrow> ('b app_state, response) serve" where
  "directory_by_username E R username =
     hbind (backend R CallBinding) (\<lambda>_.
     hbind (from_store (binding_by_username username)) (\<lambda>b. hret (binding_response E b)))"

definition directory_by_id :: "http_env \<Rightarrow> http_ctx \<Rightarrow> string \<Rightarrow> ('b app_state, response) serve" where
  "directory_by_id E R user_id_hex =
     hbind (require (hex_fixed 16 user_id_hex) (bare 400)) (\<lambda>user_id.
     hbind (backend R CallBinding) (\<lambda>_.
     hbind (from_store (binding_by_user_id user_id)) (\<lambda>b. hret (binding_response E b))))"

definition publish_binding :: "http_env \<Rightarrow> http_ctx \<Rightarrow> string \<Rightarrow> string \<Rightarrow> ('b app_state, response) serve" where
  "publish_binding E R binding_b64 signature_b64 =
     hbind (require (ag_directory_pub (hv_auth E)) (bare 403)) (\<lambda>dir_pub.
     hbind (require (b64_vec E binding_b64) (bare 400)) (\<lambda>bs.
     hbind (require (b64_fixed E 64 signature_b64) (bare 400)) (\<lambda>sig.
     case decode TYPE_DIR_BINDING put_dir_binding (get_dir_binding (hv_is_nfc E)) bs of
       Inl _ \<Rightarrow> halt (bare 400)
     | Inr binding \<Rightarrow>
         let verified = is_ok (rbind (vk_from_bytes (pr_vk_valid (hv_prims E)) dir_pub) (\<lambda>vk.
           verify_canonical (pr_strict (hv_prims E)) vk L_DIRBINDING TYPE_DIR_BINDING put_dir_binding binding sig)) in
         hbind (ensure verified (bare 403)) (\<lambda>_.
         hbind (backend R CallPutBinding) (\<lambda>_.
         hbind (on_store (\<lambda>st. ((), put_binding (id_raw (db_user_id binding)) (db_key_version binding) bs sig st))) (\<lambda>_.
         hret (bare 201)))))))"

definition control_json :: "http_env \<Rightarrow> stored_control_record \<Rightarrow> control_record_json" where
  "control_json E r = \<lparr>cj_kind = kind_str (sc_kind r), cj_record_b64 = hv_b64_enc E (sc_record_bytes r),
     cj_sig_b64 = hv_b64_enc E (sc_sig r), cj_co_sig_b64 = map_option (hv_b64_enc E) (sc_co_sig r),
     cj_chain_head_b64 = hv_b64_enc E (sc_head r)\<rparr>"

definition get_revocations :: "http_env \<Rightarrow> http_ctx \<Rightarrow> ('b app_state, response) serve" where
  "get_revocations E R =
     hbind (backend R CallControlRecords) (\<lambda>_.
     hbind (from_store control_records) (\<lambda>records.
     hret (with_body 200 (JRevocations (map (control_json E) records)))))"

definition post_control :: "http_env \<Rightarrow> http_ctx \<Rightarrow> string \<Rightarrow> string \<Rightarrow> string option \<Rightarrow> ('b app_state, response) serve" where
  "post_control E R record_b64 sig_b64 co_sig_b64 =
     hbind (admin_session E R) (\<lambda>_.
     hbind (require (b64_vec E record_b64) (bare 400)) (\<lambda>record_bytes.
     hbind (require (b64_fixed E 64 sig_b64) (bare 400)) (\<lambda>sig.
     hbind (optional_field (b64_fixed E 64) co_sig_b64) (\<lambda>co_sig.
     hbind (backend R CallAppendControl) (\<lambda>_.
     hbind (on_store (append_control (pr_sha (hv_prims E)) record_bytes sig co_sig)) (\<lambda>r.
     case r of
       Inr head \<Rightarrow>
         hbind (on_audit_panics (publish_control_record (pr_sha (hv_prims E)) record_bytes)) (\<lambda>_.
         hret (with_body 201 (JChainHead (hv_b64_enc E head))))
     | Inl CaConflict \<Rightarrow> hret (bare 409)
     | Inl CaMalformed \<Rightarrow> hret (bare 400)
     | Inl (CaStore e) \<Rightarrow> hret internal_error))))))"

end
