(* ===== verification/HttpFiles.thy ===== *)
theory HttpFiles
  imports HttpApi
begin

text \<open>
  \<^verbatim>\<open>crates/server/src/http.rs\<close>: the handlers of files, their chunks and wraps, the listing, and the router. The session
  extractor of a handler runs before its path and body are looked at. Bodies are the records of the JSON fields.
\<close>

section \<open>Requests\<close>

record stream_req =
  tr_stream_type :: string
  tr_total_bytes :: u64

record wrap_req =
  wr_recipient_id :: string
  wr_recipient_type :: string
  wr_wrapped_dek_b64 :: string
  wr_wrap_alg :: "u32 option"
  wr_granted_by :: string
  wr_grant_b64 :: string
  wr_grant_sig_b64 :: string

record stage_version_req =
  vr_file_type :: string
  vr_manifest_b64 :: string
  vr_manifest_sig_b64 :: string
  vr_streams :: "stream_req list"
  vr_wraps :: "wrap_req list"

record create_file_req = stage_version_req +
  cr_file_id :: string
  cr_genesis_b64 :: string
  cr_genesis_sig_b64 :: string
  cr_listed :: "bool option"
  cr_bundle_id :: "string option"

definition build_wrap :: "http_env \<Rightarrow> wrap_req \<Rightarrow> wrap_input option" where
  "build_wrap E w =
     Option.bind (parse_recipient_id (wr_recipient_id w)) (\<lambda>recipient_id.
     Option.bind (recipient_type_code (wr_recipient_type w)) (\<lambda>recipient_type.
     Option.bind (b64_vec E (wr_wrapped_dek_b64 w)) (\<lambda>wrapped_dek.
     Option.bind (hex_fixed 16 (wr_granted_by w)) (\<lambda>granted_by.
     Option.bind (b64_vec E (wr_grant_b64 w)) (\<lambda>grant_bytes.
     Option.bind (b64_fixed E 64 (wr_grant_sig_b64 w)) (\<lambda>grant_sig.
     Some \<lparr>wi_recipient_id = recipient_id, wi_recipient_type = recipient_type, wi_wrapped_dek = wrapped_dek,
       wi_wrap_alg = (case wr_wrap_alg w of Some a \<Rightarrow> a | None \<Rightarrow> 1), wi_granted_by = granted_by,
       wi_grant_bytes = grant_bytes, wi_grant_sig = grant_sig\<rparr>))))))"

definition build_wraps :: "http_env \<Rightarrow> wrap_req list \<Rightarrow> wrap_input list option" where
  "build_wraps E reqs = those (map (build_wrap E) reqs)"

definition build_stream_totals :: "stream_req list \<Rightarrow> (i16 \<times> u64) list option" where
  "build_stream_totals reqs =
     those (map (\<lambda>s. map_option (\<lambda>c. (c, tr_total_bytes s)) (stream_type_code (tr_stream_type s))) reqs)"

section \<open>Staging\<close>

definition stage_status :: "stage_error \<Rightarrow> response" where
  "stage_status e = (case e of
       SizeBoundExceeded \<Rightarrow> bare 413
     | StNotOwner \<Rightarrow> bare 403
     | NoSuchFile \<Rightarrow> bare 404
     | StAlreadyFinalized \<Rightarrow> bare 409
     | StStore e \<Rightarrow> internal_error
     | _ \<Rightarrow> bare 400)"

definition over_quota :: "http_env \<Rightarrow> parsed_stage \<Rightarrow> bool" where
  "over_quota E parsed = (case hv_max_file_bytes E of None \<Rightarrow> False
     | Some limit \<Rightarrow> (case find (\<lambda>s. sr_stream_type s = 1) (ps_streams parsed) of None \<Rightarrow> False
         | Some s \<Rightarrow> limit < saturating_mul (sr_chunk_count s) (ucast (sr_chunk_size s))))"

definition grant_edge_of :: "bytes \<Rightarrow> grant_action \<Rightarrow> u64 \<Rightarrow> bytes \<times> bytes \<Rightarrow> grant_edge" where
  "grant_edge_of file_id action now e = \<lparr>ge_edge_file_id = file_id, ge_edge_granted_by = fst e,
     ge_edge_recipient_id = snd e, ge_edge_action = action, ge_edge_at_ms = now\<rparr>"

definition stage_and_respond :: "http_env \<Rightarrow> http_ctx \<Rightarrow> stage_input \<Rightarrow> ('b app_state, response) serve" where
  "stage_and_respond E R input =
     (let file_id = si_file_id input; has_genesis = (si_genesis input \<noteq> None) in
      case parse_stage input of
        Inl e \<Rightarrow> halt (stage_status e)
      | Inr parsed \<Rightarrow>
          hbind (ensure (\<not> over_quota E parsed) (bare 413)) (\<lambda>_.
          let edges = map (\<lambda>w. (wi_granted_by w, wi_recipient_id w)) (ps_wraps parsed) in
          hbind (backend R CallStage) (\<lambda>_.
          hbind (on_store (stage_version parsed (hx_clock R AtCall))) (\<lambda>r.
          case r of
            Inl e \<Rightarrow> halt (stage_status e)
          | Inr version \<Rightarrow>
              hbind (on_audit (fold record_grant_edge (map (grant_edge_of file_id GaAuthor (hx_clock R AtAudit)) edges))) (\<lambda>_.
              hbind (if has_genesis then on_audit_panics (audit_anchor_genesis file_id) else hret ()) (\<lambda>_.
              hret (with_body 201 (JStaged (upload_token file_id version) version))))))))"

definition create_file :: "http_env \<Rightarrow> http_ctx \<Rightarrow> create_file_req \<Rightarrow> ('b app_state, response) serve" where
  "create_file E R q =
     hbind (authed_session E R) (\<lambda>user_id.
     hbind (require (hex_fixed 16 (cr_file_id q)) (bare 400)) (\<lambda>file_id.
     hbind (require (file_type_code (vr_file_type q)) (bare 400)) (\<lambda>file_type.
     hbind (require (b64_vec E (vr_manifest_b64 q)) (bare 400)) (\<lambda>manifest_bytes.
     hbind (require (b64_fixed E 64 (vr_manifest_sig_b64 q)) (bare 400)) (\<lambda>manifest_sig.
     hbind (require (b64_vec E (cr_genesis_b64 q)) (bare 400)) (\<lambda>genesis_bytes.
     hbind (require (b64_fixed E 64 (cr_genesis_sig_b64 q)) (bare 400)) (\<lambda>genesis_sig.
     hbind (require (build_wraps E (vr_wraps q)) (bare 400)) (\<lambda>wraps.
     hbind (require (build_stream_totals (vr_streams q)) (bare 400)) (\<lambda>stream_totals.
     hbind (optional_field (hex_fixed 16) (cr_bundle_id q)) (\<lambda>bundle_id.
     stage_and_respond E R
       \<lparr>si_file_id = file_id, si_caller_id = user_id, si_file_type_advisory = file_type,
        si_genesis = Some \<lparr>gi_genesis_bytes = genesis_bytes, gi_genesis_sig = genesis_sig\<rparr>,
        si_manifest_bytes = manifest_bytes, si_manifest_sig = manifest_sig, si_wraps = wraps,
        si_stream_totals = stream_totals, si_proposed_version = 1,
        si_listed = (case cr_listed q of Some l \<Rightarrow> l | None \<Rightarrow> True), si_bundle_id = bundle_id\<rparr>))))))))))"

definition http_stage_version :: "http_env \<Rightarrow> http_ctx \<Rightarrow> string \<Rightarrow> stage_version_req \<Rightarrow> ('b app_state, response) serve" where
  "http_stage_version E R file_id_hex q =
     hbind (authed_session E R) (\<lambda>user_id.
     hbind (require (hex_fixed 16 file_id_hex) (bare 400)) (\<lambda>file_id.
     hbind (require (file_type_code (vr_file_type q)) (bare 400)) (\<lambda>file_type.
     hbind (require (b64_vec E (vr_manifest_b64 q)) (bare 400)) (\<lambda>manifest_bytes.
     hbind (require (b64_fixed E 64 (vr_manifest_sig_b64 q)) (bare 400)) (\<lambda>manifest_sig.
     hbind (require (build_wraps E (vr_wraps q)) (bare 400)) (\<lambda>wraps.
     hbind (require (build_stream_totals (vr_streams q)) (bare 400)) (\<lambda>stream_totals.
     let proposed_version = (case decode TYPE_MANIFEST put_manifest get_manifest manifest_bytes of
       Inr m \<Rightarrow> ma_version m | Inl _ \<Rightarrow> 0) in
     stage_and_respond E R
       \<lparr>si_file_id = file_id, si_caller_id = user_id, si_file_type_advisory = file_type, si_genesis = None,
        si_manifest_bytes = manifest_bytes, si_manifest_sig = manifest_sig, si_wraps = wraps,
        si_stream_totals = stream_totals, si_proposed_version = proposed_version, si_listed = True,
        si_bundle_id = None\<rparr>)))))))"

section \<open>Finalizing\<close>

text \<open>The completeness loop: every staged stream holds exactly its chunks.\<close>

fun all_complete :: "('b, 'm) blob_ops_scheme \<Rightarrow> chunk_slot list \<Rightarrow> ('b app_state, unit) serve" where
  "all_complete B [] = hret ()"
| "all_complete B (s # slots) =
     hbind (on_blobs (op_count B (cs_blob_ref s))) (\<lambda>got.
     hbind (ensure (got = unat (cs_chunk_count s)) (bare 400)) (\<lambda>_.
     all_complete B slots))"

text \<open>Deleting streams, best effort: a failure is logged.\<close>

fun teardown :: "('b, 'm) blob_ops_scheme \<Rightarrow> string list \<Rightarrow> 'b \<Rightarrow> 'b" where
  "teardown B [] b = b"
| "teardown B (r # rs) b = teardown B rs (snd (op_delete_stream B r b))"

definition on_teardown :: "('b, 'm) blob_ops_scheme \<Rightarrow> string list \<Rightarrow> ('b app_state, unit) serve" where
  "on_teardown B refs = panics (\<lambda>s. Some (s\<lparr>ap_blobs := teardown B refs (ap_blobs s)\<rparr>))"

definition the_meta :: "http_ctx \<Rightarrow> bytes \<Rightarrow> u64 \<Rightarrow> ('b app_state, version_meta_view option) serve" where
  "the_meta R file_id version =
     hbind (backend R (CallMeta version)) (\<lambda>_. from_store (version_meta file_id version))"

definition finalize_response :: "finalize_error \<Rightarrow> response" where
  "finalize_response e = (case e of
       FzNotOwner \<Rightarrow> bare 403
     | NoSuchVersion \<Rightarrow> bare 404
     | VersionConflict _ _ \<Rightarrow> bare 409
     | FzAlreadyFinalized \<Rightarrow> bare 409
     | FzStore e \<Rightarrow> internal_error)"

definition http_finalize :: "http_env \<Rightarrow> ('b, 'm) blob_ops_scheme \<Rightarrow> http_ctx \<Rightarrow> string \<Rightarrow> string
    \<Rightarrow> ('b app_state, response) serve" where
  "http_finalize E B R file_id_hex v =
     hbind (authed_session E R) (\<lambda>user_id.
     hbind (require (parse_u64 v) (bare 400)) (\<lambda>version.
     hbind (require (hex_fixed 16 file_id_hex) (bare 400)) (\<lambda>file_id.
     hbind (the_meta R file_id version) (\<lambda>found.
     hbind (require found (bare 404)) (\<lambda>meta.
     hbind (all_complete B (vm_streams meta)) (\<lambda>_.
     hbind (if 2 \<le> version
            then hbind (the_meta R file_id (version - 1)) (\<lambda>found.
              hret (case found of Some m \<Rightarrow> map cs_blob_ref (vm_streams m) | None \<Rightarrow> []))
            else hret []) (\<lambda>prior_refs.
     hbind (backend R CallFinalize) (\<lambda>_.
     hbind (on_store (finalize_version file_id version user_id (hx_clock R AtCall))) (\<lambda>r.
     case r of
       Inl e \<Rightarrow> hret (finalize_response e)
     | Inr _ \<Rightarrow> hbind (on_teardown B prior_refs) (\<lambda>_. hret (bare 200)))))))))))"

section \<open>Chunks\<close>

definition AEAD_TAG_LEN_http :: u64 where "AEAD_TAG_LEN_http = 16"

definition DIRECT_LINK_TTL_S :: u64 where "DIRECT_LINK_TTL_S = 900"

text \<open>The path of a chunk: the extractor parses the numbers, the handler the identifier and the stream type.\<close>

record chunk_path_args =
  pa_file_id :: string
  pa_version :: string
  pa_stream_type :: string
  pa_index :: string

definition chunk_path_of :: "chunk_path_args \<Rightarrow> ('s, bytes \<times> u64 \<times> i16 \<times> u64) serve" where
  "chunk_path_of p =
     hbind (require (parse_u64 (pa_version p)) (bare 400)) (\<lambda>version.
     hbind (require (parse_u64 (pa_index p)) (bare 400)) (\<lambda>index.
     hbind (require (hex_fixed 16 (pa_file_id p)) (bare 400)) (\<lambda>file_id.
     hbind (require (stream_type_code (pa_stream_type p)) (bare 400)) (\<lambda>stype.
     hret (file_id, version, stype, index)))))"

definition http_put_chunk :: "http_env \<Rightarrow> ('b, 'm) blob_ops_scheme \<Rightarrow> http_ctx \<Rightarrow> chunk_path_args \<Rightarrow> bytes
    \<Rightarrow> ('b app_state, response) serve" where
  "http_put_chunk E B R p body =
     hbind (authed_session E R) (\<lambda>user_id.
     hbind (chunk_path_of p) (\<lambda>(file_id, version, stype, index).
     hbind (the_meta R file_id version) (\<lambda>found.
     hbind (require found (bare 404)) (\<lambda>meta.
     hbind (ensure (vm_owner_id meta = user_id) (bare 403)) (\<lambda>_.
     hbind (ensure (\<not> vm_finalized meta) (bare 409)) (\<lambda>_.
     hbind (require (find (\<lambda>s. cs_stream_type s = stype) (vm_streams meta)) (bare 404)) (\<lambda>slot.
     hbind (ensure (index < cs_chunk_count slot) (bare 413)) (\<lambda>_.
     hbind (ensure (length body \<le> unat (cs_chunk_size slot) + unat AEAD_TAG_LEN_http) (bare 413)) (\<lambda>_.
     hbind (on_blobs (op_put B (cs_blob_ref slot) index body)) (\<lambda>_.
     hret (bare 200)))))))))))"

text \<open>The gate the three readers of a chunk share: the slot, when the caller may read the version.\<close>

definition readable_slot :: "http_ctx \<Rightarrow> bytes \<Rightarrow> bytes \<Rightarrow> u64 \<Rightarrow> i16 \<Rightarrow> ('b app_state, chunk_slot) serve" where
  "readable_slot R user_id file_id version stype =
     hbind (the_meta R file_id version) (\<lambda>found.
     hbind (require found (bare 404)) (\<lambda>meta.
     hbind (if vm_owner_id meta = user_id then hret True
            else hbind (backend R CallGetFile) (\<lambda>_.
              hbind (from_store (get_file file_id (SpecificVersion version) user_id)) (\<lambda>view. hret (view \<noteq> None))))
       (\<lambda>allowed.
     hbind (ensure allowed (bare 404)) (\<lambda>_.
     require (find (\<lambda>s. cs_stream_type s = stype) (vm_streams meta)) (bare 404)))))"

definition http_get_chunk :: "http_env \<Rightarrow> ('b, 'm) blob_ops_scheme \<Rightarrow> http_ctx \<Rightarrow> chunk_path_args
    \<Rightarrow> ('b app_state, response) serve" where
  "http_get_chunk E B R p =
     hbind (recovery_ok_session E R) (\<lambda>(user_id, token).
     hbind (chunk_path_of p) (\<lambda>(file_id, version, stype, index).
     hbind (readable_slot R user_id file_id version stype) (\<lambda>slot.
     hbind (on_blobs (op_get B (cs_blob_ref slot) index)) (\<lambda>found.
     hbind (require found (bare 404)) (\<lambda>bs.
     hret (with_body 200 (Octets bs)))))))"

definition source_name :: "fetch_source \<Rightarrow> string" where
  "source_name src = (case src of Cache \<Rightarrow> ''cache'' | ColdFetching \<Rightarrow> ''cold-fetching'' | ColdReady \<Rightarrow> ''cold-ready'')"

definition http_chunk_status :: "http_env \<Rightarrow> ('b, 'm) serving_ops_scheme \<Rightarrow> http_ctx \<Rightarrow> chunk_path_args
    \<Rightarrow> ('b app_state, response) serve" where
  "http_chunk_status E B R p =
     hbind (recovery_ok_session E R) (\<lambda>(user_id, token).
     hbind (chunk_path_of p) (\<lambda>(file_id, version, stype, index).
     hbind (readable_slot R user_id file_id version stype) (\<lambda>slot.
     hbind (on_blobs (op_status B (cs_blob_ref slot) index)) (\<lambda>found.
     hbind (require found (bare 404)) (\<lambda>st.
     hret (with_body 200 (JChunkStatus (source_name (ct_source st)) (ct_fetched_bytes st) (ct_total_bytes st))))))))"

definition http_direct_link :: "http_env \<Rightarrow> ('b, 'm) serving_ops_scheme \<Rightarrow> http_ctx \<Rightarrow> chunk_path_args
    \<Rightarrow> ('b app_state, response) serve" where
  "http_direct_link E B R p =
     hbind (authed_session E R) (\<lambda>user_id.
     hbind (require (parse_u64 (pa_version p)) (bare 400)) (\<lambda>version.
     hbind (require (parse_u64 (pa_index p)) (bare 400)) (\<lambda>index.
     hbind (ensure (hv_direct_links_enabled E) (with_body 403 (JCode ''direct_disabled''))) (\<lambda>_.
     hbind (require (hex_fixed 16 (pa_file_id p)) (bare 400)) (\<lambda>file_id.
     hbind (require (stream_type_code (pa_stream_type p)) (bare 400)) (\<lambda>stype.
     hbind (readable_slot R user_id file_id version stype) (\<lambda>slot.
     hbind (on_blobs (op_direct B (cs_blob_ref slot) index DIRECT_LINK_TTL_S)) (\<lambda>found.
     hbind (require found (bare 404)) (\<lambda>link.
     hret (with_body 200 (JDirectLink (dl_url link) (dl_expires_in_s link))))))))))))"

section \<open>Records\<close>

definition grant_out_of :: "http_env \<Rightarrow> bytes \<times> bytes \<Rightarrow> grant_out" where
  "grant_out_of E g = \<lparr>go_grant_b64 = hv_b64_enc E (fst g), go_grant_sig_b64 = hv_b64_enc E (snd g)\<rparr>"

definition file_view_to_res :: "http_env \<Rightarrow> file_view \<Rightarrow> file_res" where
  "file_view_to_res E v =
     \<lparr>fr_version = fv_version v, fr_manifest_b64 = hv_b64_enc E (fv_manifest_bytes v),
      fr_manifest_sig_b64 = hv_b64_enc E (fv_manifest_sig v), fr_genesis_b64 = hv_b64_enc E (fv_genesis_bytes v),
      fr_genesis_sig_b64 = hv_b64_enc E (fv_genesis_sig v),
      fr_wrapped_dek_b64 = hv_b64_enc E (wv_wrapped_dek (fv_my_wrap v)),
      fr_my_grant = grant_out_of E (wv_grant_bytes (fv_my_wrap v), wv_grant_sig (fv_my_wrap v)),
      fr_ancestor_grants = map (grant_out_of E) (wv_ancestor_grants (fv_my_wrap v)),
      fr_recovery_grant = map_option (grant_out_of E) (fv_recovery_grant v),
      fr_streams = map (\<lambda>s. \<lparr>so_stream_type = stream_type_name (sv_stream_type s), so_chunk_count = sv_chunk_count s,
        so_chunk_size = sv_chunk_size s, so_blob_ref = sv_blob_ref s\<rparr>) (fv_streams v)\<rparr>"

definition parse_selector :: "string option \<Rightarrow> version_selector option" where
  "parse_selector q = (case q of
       None \<Rightarrow> Some Latest
     | Some v \<Rightarrow> if v = ''latest'' then Some Latest else map_option SpecificVersion (parse_u64 v))"

definition http_get_file :: "http_env \<Rightarrow> http_ctx \<Rightarrow> string \<Rightarrow> string option \<Rightarrow> ('b app_state, response) serve" where
  "http_get_file E R file_id_hex q =
     hbind (recovery_ok_session E R) (\<lambda>(user_id, token).
     hbind (require (hex_fixed 16 file_id_hex) (bare 400)) (\<lambda>file_id.
     hbind (require (parse_selector q) (bare 400)) (\<lambda>selector.
     hbind (backend R CallGetFile) (\<lambda>_.
     hbind (from_store (get_file file_id selector user_id)) (\<lambda>found.
     hbind (require found (bare 404)) (\<lambda>view.
     hret (with_body 200 (JFile (file_view_to_res E view)))))))))"

definition http_add_wrap :: "http_env \<Rightarrow> http_ctx \<Rightarrow> string \<Rightarrow> wrap_req \<Rightarrow> ('b app_state, response) serve" where
  "http_add_wrap E R file_id_hex q =
     hbind (authed_session E R) (\<lambda>user_id.
     hbind (require (hex_fixed 16 file_id_hex) (bare 400)) (\<lambda>file_id.
     hbind (require (build_wrap E q) (bare 400)) (\<lambda>wrap.
     hbind (backend R CallAddWrap) (\<lambda>_.
     hbind (on_store (add_wrap file_id wrap user_id (hx_clock R AtCall))) (\<lambda>r.
     case r of
       Inr _ \<Rightarrow>
         hbind (on_audit (record_grant_edge (grant_edge_of file_id GaReshare (hx_clock R AtAudit)
           (wi_granted_by wrap, wi_recipient_id wrap)))) (\<lambda>_.
         hret (bare 201))
     | Inl BadRequest \<Rightarrow> hret (bare 400)
     | Inl NoAccess \<Rightarrow> hret (bare 404)
     | Inl (AwStore e) \<Rightarrow> hret internal_error)))))"

definition recovery_protected :: response where
  "recovery_protected = with_body 403 (JCode ''recovery_protected'')"

definition http_delete_wrap :: "http_env \<Rightarrow> http_ctx \<Rightarrow> string \<Rightarrow> string \<Rightarrow> ('b app_state, response) serve" where
  "http_delete_wrap E R file_id_hex recipient_hex =
     hbind (authed_session E R) (\<lambda>user_id.
     hbind (require (hex_fixed 16 file_id_hex) (bare 400)) (\<lambda>file_id.
     hbind (require (hex_fixed 16 recipient_hex) (bare 400)) (\<lambda>recipient.
     hbind (ensure (recipient \<noteq> id_raw RECOVERY_ID) recovery_protected) (\<lambda>_.
     hbind (backend R CallDeleteWrap) (\<lambda>_.
     hbind (on_store (delete_wrap file_id recipient user_id)) (\<lambda>r.
     case r of
       Inr _ \<Rightarrow>
         hbind (on_audit (record_grant_edge (grant_edge_of file_id GaSoftRevoke (hx_clock R AtAudit) (user_id, recipient)))) (\<lambda>_.
         hret (bare 204))
     | Inl NotAuthorized \<Rightarrow> hret (bare 403)
     | Inl RecoveryProtected \<Rightarrow> hret recovery_protected
     | Inl DwNotFound \<Rightarrow> hret (bare 404)
     | Inl (DwStore e) \<Rightarrow> hret internal_error))))))"

definition http_discard_file :: "http_env \<Rightarrow> ('b, 'm) blob_ops_scheme \<Rightarrow> http_ctx \<Rightarrow> string \<Rightarrow> ('b app_state, response) serve" where
  "http_discard_file E B R file_id_hex =
     hbind (authed_session E R) (\<lambda>user_id.
     hbind (require (hex_fixed 16 file_id_hex) (bare 400)) (\<lambda>file_id.
     hbind (backend R CallDiscard) (\<lambda>_.
     hbind (on_store (discard_unfinalized file_id user_id)) (\<lambda>r.
     case r of
       Inr blob_refs \<Rightarrow> hbind (on_teardown B blob_refs) (\<lambda>_. hret (bare 204))
     | Inl DcNotFound \<Rightarrow> hret (bare 404)
     | Inl HasFinalizedVersion \<Rightarrow>
         hbind (backend R CallDelete) (\<lambda>_.
         hbind (on_store (delete_file file_id user_id)) (\<lambda>r.
         case r of
           Inr blob_refs \<Rightarrow> hbind (on_teardown B blob_refs) (\<lambda>_. hret (bare 204))
         | Inl DlNotFound \<Rightarrow> hret (bare 404)
         | Inl (DlStore e) \<Rightarrow> hret internal_error))
     | Inl (DcStore e) \<Rightarrow> hret internal_error))))"

definition recipient_out_of :: "http_env \<Rightarrow> recipient_view \<Rightarrow> recipient_out" where
  "recipient_out_of E r = \<lparr>ro_recipient_id = hex_encode (rc_recipient_id r), ro_granted_by = hex_encode (rc_granted_by r),
     ro_grant = grant_out_of E (rc_grant_bytes r, rc_grant_sig r),
     ro_ancestor_grants = map (grant_out_of E) (rc_ancestor_grants r)\<rparr>"

definition http_list_recipients :: "http_env \<Rightarrow> http_ctx \<Rightarrow> string \<Rightarrow> ('b app_state, response) serve" where
  "http_list_recipients E R file_id_hex =
     hbind (authed_session E R) (\<lambda>user_id.
     hbind (require (hex_fixed 16 file_id_hex) (bare 400)) (\<lambda>file_id.
     hbind (backend R CallRecipients) (\<lambda>_.
     hbind (from_store (list_recipients file_id user_id)) (\<lambda>found.
     hbind (require found (bare 404)) (\<lambda>rs.
     hret (with_body 200 (JRecipients (map (recipient_out_of E) rs))))))))"

section \<open>Listing\<close>

record list_query =
  lq_file_type :: "string option"
  lq_limit :: "nat option"
  lq_offset :: "u32 option"
  lq_cursor :: "string option"
  lq_sort :: "string option"
  lq_owner :: "string option"

definition bad_query :: "string \<Rightarrow> response" where
  "bad_query code = with_body 400 (JCode code)"

definition parse_sort :: "string option \<Rightarrow> list_sort option" where
  "parse_sort q = (case q of None \<Rightarrow> Some Newest
     | Some v \<Rightarrow> if v = ''newest'' then Some Newest else if v = ''oldest'' then Some Oldest else None)"

definition parse_owner :: "string option \<Rightarrow> bool option" where
  "parse_owner q = (case q of None \<Rightarrow> Some False | Some v \<Rightarrow> if v = ''me'' then Some True else None)"

definition parse_offset :: "http_env \<Rightarrow> string \<Rightarrow> list_query \<Rightarrow> response + u64" where
  "parse_offset E fp q = (case lq_cursor q of
       Some c \<Rightarrow> map_err (\<lambda>e. bad_query (case e of CursorMalformed \<Rightarrow> ''bad_cursor''
         | QueryMismatch \<Rightarrow> ''cursor_query_mismatch'')) (decode_cursor E c fp)
     | None \<Rightarrow> Inr (case lq_offset q of Some o' \<Rightarrow> ucast o' | None \<Rightarrow> 0))"

text \<open>A JSON object: the last value of a key stays.\<close>

definition list_entry_out :: "file_list_entry \<Rightarrow> list_entry_res" where
  "list_entry_out e = \<lparr>le_file_id = hex_encode (fl_file_id e), le_file_type = file_type_name (fl_file_type e),
     le_version = fl_version e, le_updated_at = fl_updated_at_ms e,
     le_streams = fold (\<lambda>(c, b) m. AList.update (stream_type_name c) b m) (fl_small_streams e) []\<rparr>"

definition list_response :: "http_env \<Rightarrow> string \<Rightarrow> u64 \<Rightarrow> file_list_page \<Rightarrow> body" where
  "list_response E fp offset page =
     (let files = map list_entry_out (fp_entries page);
          next_offset = saturating_add offset (word_of_nat (length files))
      in JList files (if files \<noteq> [] \<and> next_offset < fp_total page then Some (encode_cursor E next_offset fp) else None)
           (fp_total page))"

definition http_list_files :: "http_env \<Rightarrow> http_ctx \<Rightarrow> list_query \<Rightarrow> ('b app_state, response) serve" where
  "http_list_files E R q =
     hbind (recovery_ok_session E R) (\<lambda>(user_id, token).
     hbind (require (parse_sort (lq_sort q)) (bad_query ''bad_sort'')) (\<lambda>srt.
     hbind (require (parse_owner (lq_owner q)) (bad_query ''bad_owner'')) (\<lambda>owner_only.
     hbind (case lq_file_type q of None \<Rightarrow> hret None
            | Some t \<Rightarrow> (case file_type_code t of Some c \<Rightarrow> hret (Some c)
                | None \<Rightarrow> halt (with_body 200 (JList [] None 0)))) (\<lambda>file_type.
     let limit = min (case lq_limit q of Some l \<Rightarrow> l | None \<Rightarrow> 50) 200; fp = cursor_fp E file_type srt owner_only in
     case parse_offset E fp q of
       Inl r \<Rightarrow> halt r
     | Inr offset \<Rightarrow>
         hbind (backend R CallList) (\<lambda>_.
         hbind (from_store (list_files \<lparr>lf_file_type = file_type, lf_limit = limit, lf_offset = offset, lf_sort = srt,
           lf_owner_only = owner_only, lf_caller_id = user_id\<rparr>)) (\<lambda>page.
         hret (with_body 200 (list_response E fp offset page))))))))"

section \<open>The router\<close>

datatype http_request =
    PostUsers register_req
  | PostRegistrationKeys
  | GetOperationalKey
  | GetDelegation
  | PostDelegation string string string
  | PostAdminDelegation string
  | PostRecoveryRegister string string "string option"
  | GetRecoveryPubkey
  | PostRecoveryChallenge
  | PostRecoveryVerify string string u64
  | PostSessionChallenge string
  | PostSessionProof string u64 string
  | PostSessionLogout
  | PostDirectory string string
  | GetDirectoryById string
  | GetDirectoryByName string
  | GetRevocations
  | PostControl string string "string option"
  | GetFiles list_query
  | PostFiles create_file_req
  | GetFile string "string option"
  | DeleteFile string
  | GetRecipients string
  | PostWraps string wrap_req
  | DeleteWraps string string
  | PostVersions string stage_version_req
  | PostFinalize string string
  | PutChunk chunk_path_args bytes
  | GetChunk chunk_path_args
  | GetChunkStatus chunk_path_args
  | PostDirectLink chunk_path_args

text \<open>The three control routes share one handler. \<open>route\<close> is the response and the state after it.\<close>

fun dispatch :: "http_env \<Rightarrow> ('b, 'm) serving_ops_scheme \<Rightarrow> http_ctx \<Rightarrow> http_request \<Rightarrow> ('b app_state, response) serve" where
  "dispatch E B R (PostUsers q) = register E R q"
| "dispatch E B R PostRegistrationKeys = mint_registration_key E R"
| "dispatch E B R GetOperationalKey = bootstrap_operational_key E R"
| "dispatch E B R GetDelegation = get_delegation_doc E"
| "dispatch E B R (PostDelegation t d c) = post_bootstrap_delegation E R t d c"
| "dispatch E B R (PostAdminDelegation c) = post_admin_delegation E R c"
| "dispatch E B R (PostRecoveryRegister e s m) = recovery_register E R e s m"
| "dispatch E B R GetRecoveryPubkey = recovery_pubkey E R"
| "dispatch E B R PostRecoveryChallenge = http_recovery_challenge E R"
| "dispatch E B R (PostRecoveryVerify c p t) = recovery_verify E R c p t"
| "dispatch E B R (PostSessionChallenge u) = http_challenge E R u"
| "dispatch E B R (PostSessionProof u t p) = http_prove E R u t p"
| "dispatch E B R PostSessionLogout = http_logout E R"
| "dispatch E B R (PostDirectory b s) = publish_binding E R b s"
| "dispatch E B R (GetDirectoryById u) = directory_by_id E R u"
| "dispatch E B R (GetDirectoryByName u) = directory_by_username E R u"
| "dispatch E B R GetRevocations = get_revocations E R"
| "dispatch E B R (PostControl r s c) = post_control E R r s c"
| "dispatch E B R (GetFiles q) = http_list_files E R q"
| "dispatch E B R (PostFiles q) = create_file E R q"
| "dispatch E B R (GetFile f v) = http_get_file E R f v"
| "dispatch E B R (DeleteFile f) = http_discard_file E B R f"
| "dispatch E B R (GetRecipients f) = http_list_recipients E R f"
| "dispatch E B R (PostWraps f q) = http_add_wrap E R f q"
| "dispatch E B R (DeleteWraps f r) = http_delete_wrap E R f r"
| "dispatch E B R (PostVersions f q) = http_stage_version E R f q"
| "dispatch E B R (PostFinalize f v) = http_finalize E B R f v"
| "dispatch E B R (PutChunk p b) = http_put_chunk E B R p b"
| "dispatch E B R (GetChunk p) = http_get_chunk E B R p"
| "dispatch E B R (GetChunkStatus p) = http_chunk_status E B R p"
| "dispatch E B R (PostDirectLink p) = http_direct_link E B R p"

definition route :: "http_env \<Rightarrow> ('b, 'm) serving_ops_scheme \<Rightarrow> http_ctx \<Rightarrow> http_request \<Rightarrow> 'b app_state
    \<Rightarrow> (response \<times> 'b app_state) option" where
  "route E B R q s = map_option (\<lambda>(r, s'). (case r of Inl x \<Rightarrow> x | Inr x \<Rightarrow> x, s')) (dispatch E B R q s)"

end
