(* ===== verification/HttpFiles_Laws.thy ===== *)
theory HttpFiles_Laws
  imports HttpFiles ServerRecords_Serving ServerAuth_Sessions
begin

text \<open>
  What a request may change and what it may read: rules that follow a handler call by call, and the properties of the
  router over all its routes.
\<close>

section \<open>Following a handler\<close>

text \<open>\<open>preserves v m\<close>: whatever the outcome, the view \<open>v\<close> of the state is as before. \<open>answers P m\<close>: every response
  satisfies \<open>P\<close>.\<close>

definition preserves :: "('s \<Rightarrow> 'v) \<Rightarrow> ('s, 'a) serve \<Rightarrow> bool" where
  "preserves v m \<longleftrightarrow> (\<forall>s x s'. m s = Some (x, s') \<longrightarrow> v s' = v s)"

definition unhalted :: "('s, 'a) serve \<Rightarrow> bool" where
  "unhalted m \<longleftrightarrow> (\<forall>s x s'. m s = Some (x, s') \<longrightarrow> (\<exists>y. x = Inr y))"

definition response_of :: "response + response \<Rightarrow> response" where
  "response_of x = (case x of Inl r \<Rightarrow> r | Inr r \<Rightarrow> r)"

definition answers :: "(response \<Rightarrow> bool) \<Rightarrow> ('s, response) serve \<Rightarrow> bool" where
  "answers P m \<longleftrightarrow> (\<forall>s x s'. m s = Some (x, s') \<longrightarrow> P (response_of x))"

definition store_of :: "'b app_state \<Rightarrow> inner" where
  "store_of s = av_store (ap_auth s)"

named_theorems preserving

lemma hbind_eq_Some:
  "hbind m f s = Some (x, s') \<longleftrightarrow>
     (\<exists>r. m s = Some (Inl r, s') \<and> x = Inl r) \<or> (\<exists>y t. m s = Some (Inr y, t) \<and> f y t = Some (x, s'))"
  by (auto simp: hbind_def split: option.splits sum.splits prod.splits)

lemma preserves_hbind [preserving]:
  "preserves v m \<Longrightarrow> (\<And>x. preserves v (f x)) \<Longrightarrow> preserves v (hbind m f)"
  unfolding preserves_def hbind_eq_Some by metis

lemma preserves_basic [preserving]:
  "preserves v (hret x)" "preserves v (halt r)" "preserves v (reads g)" "preserves v (require o' r)"
  "preserves v (ensure b r)" "preserves v (backend R call)"
  by (auto simp: preserves_def hret_def halt_def reads_def require_def ensure_def backend_def
      split: option.splits if_splits)

lemma preserves_from_store [preserving]: "preserves v (from_store h)"
  by (simp add: from_store_def preserves_basic)

lemma preserves_panics: "(\<And>s s'. f s = Some s' \<Longrightarrow> v s' = v s) \<Longrightarrow> preserves v (panics f)"
  by (auto simp: preserves_def panics_def)

lemma preserves_on_store:
  "(\<And>s. v (s\<lparr>ap_auth := (ap_auth s)\<lparr>av_store := snd (op (store_of s))\<rparr>\<rparr>) = v s) \<Longrightarrow> preserves v (on_store op)"
  by (auto simp: preserves_def on_store_def store_of_def split: prod.splits dest: sym) (metis snd_conv)

lemma preserves_on_auth:
  "(\<And>s x sv. op (ap_auth s) = Some (x, sv) \<Longrightarrow> v (s\<lparr>ap_auth := sv\<rparr>) = v s) \<Longrightarrow> preserves v (on_auth op)"
  by (auto simp: preserves_def on_auth_def split: prod.splits)

lemma preserves_on_blobs:
  "(\<And>s b. v (s\<lparr>ap_blobs := b\<rparr>) = v s) \<Longrightarrow> preserves v (on_blobs op)"
  by (auto simp: preserves_def on_blobs_def split: prod.splits sum.splits)

lemma preserves_on_audit: "(\<And>s a. v (s\<lparr>ap_audit := a\<rparr>) = v s) \<Longrightarrow> preserves v (on_audit op)"
  by (auto simp: preserves_def on_audit_def)

lemma preserves_on_audit_panics: "(\<And>s a. v (s\<lparr>ap_audit := a\<rparr>) = v s) \<Longrightarrow> preserves v (on_audit_panics op)"
  by (auto simp: preserves_def on_audit_panics_def panics_def)

lemma preserves_cases [preserving]:
  "(\<And>e. preserves v (f e)) \<Longrightarrow> (\<And>y. preserves v (g y)) \<Longrightarrow> preserves v (case x of Inl e \<Rightarrow> f e | Inr y \<Rightarrow> g y)"
  "preserves v n \<Longrightarrow> (\<And>y. preserves v (g y)) \<Longrightarrow> preserves v (case o' of None \<Rightarrow> n | Some y \<Rightarrow> g y)"
  "(\<And>a b. preserves v (h a b)) \<Longrightarrow> preserves v (case p of (a, b) \<Rightarrow> h a b)"
  "preserves v n \<Longrightarrow> preserves v n' \<Longrightarrow> preserves v (if c then n else n')"
  by (auto split: sum.splits option.splits prod.splits)

lemma preserves_optional [preserving]: "preserves v (optional_field f x)"
  unfolding optional_field_def by (intro preserving)

lemma preserves_session [preserving]:
  "preserves v (resolve_session E R)" "preserves v (recovery_ok_session E R)" "preserves v (authed_session E R)"
proof -
  show r: "preserves v (resolve_session E R)"
    by (auto simp: resolve_session_def split: sum.splits auth_error.splits intro!: preserving)
  show "preserves v (recovery_ok_session E R)" using r by (simp add: recovery_ok_session_def)
  show "preserves v (authed_session E R)" unfolding authed_session_def by (intro preserving r)
qed

lemma preserves_admin [preserving]: "preserves v (admin_session E R)"
  unfolding admin_session_def by (intro preserving)

lemma preserves_meta [preserving]: "preserves v (the_meta R i w)"
  unfolding the_meta_def by (intro preserving)

lemma preserves_chunk_path [preserving]: "preserves v (chunk_path_of p)"
  unfolding chunk_path_of_def by (intro preserving)

lemma preserves_slot [preserving]: "preserves v (readable_slot R u i w t)"
  unfolding readable_slot_def by (intro preserving)

lemma preserves_complete:
  "(\<And>s b. v (s\<lparr>ap_blobs := b\<rparr>) = v s) \<Longrightarrow> preserves v (all_complete B slots)"
  by (induction slots) (auto intro!: preserving preserves_on_blobs)

lemma preserves_teardown: "(\<And>s b. v (s\<lparr>ap_blobs := b\<rparr>) = v s) \<Longrightarrow> preserves v (on_teardown B refs)"
  unfolding on_teardown_def by (auto intro: preserves_panics)

lemma quiet_hbind [intro]: "unhalted m \<Longrightarrow> (\<And>x. unhalted (f x)) \<Longrightarrow> unhalted (hbind m f)"
  unfolding unhalted_def hbind_eq_Some by blast

lemma quiet_basic [intro]:
  "unhalted (hret x)" "unhalted (panics f)" "unhalted (on_audit g)" "unhalted (on_audit_panics h)" "unhalted (on_teardown B refs)"
  by (auto simp: unhalted_def hret_def panics_def on_audit_def on_audit_panics_def on_teardown_def)

lemma answers_hbind: "unhalted m \<Longrightarrow> (\<And>x. answers P (f x)) \<Longrightarrow> answers P (hbind m f)"
  unfolding answers_def unhalted_def hbind_eq_Some by blast

lemma answers_hret: "P r \<Longrightarrow> answers P (hret r)"
  by (auto simp: answers_def hret_def response_of_def)

section \<open>A refused request changes no record\<close>

text \<open>Everything that outlives a login: accounts, registration keys, bindings, the control log, files and the audit
  trail. The nonces, sessions, attempt counters, the delegation context and the blobs are left out.\<close>

definition records :: "'b app_state \<Rightarrow> inner \<times> sink_state" where
  "records s = ((store_of s)\<lparr>in_nonces := [], in_sessions := []\<rparr>, ap_audit s)"

definition refused_clean :: "('b app_state, response) serve \<Rightarrow> bool" where
  "refused_clean m \<longleftrightarrow> (\<forall>s x s'. m s = Some (x, s') \<longrightarrow> 400 \<le> hr_status (response_of x) \<longrightarrow> records s' = records s)"

lemma clean_preserves: "preserves records m \<Longrightarrow> refused_clean m"
  by (auto simp: refused_clean_def preserves_def)

lemma clean_answers: "answers (\<lambda>r. hr_status r < 400) m \<Longrightarrow> refused_clean m"
  unfolding refused_clean_def answers_def by (meson not_le)

lemma clean_hbind:
  "preserves records m \<Longrightarrow> (\<And>x. refused_clean (f x)) \<Longrightarrow> refused_clean (hbind m f)"
  unfolding refused_clean_def preserves_def hbind_eq_Some by metis

text \<open>The committing call: an answer after which nothing changed, or after which no refusal follows.\<close>

lemma clean_commit:
  assumes "\<And>st x st'. op st = (x, st') \<Longrightarrow> st' = st \<and> refused_clean (f x) \<or> answers (\<lambda>r. hr_status r < 400) (f x)"
  shows "refused_clean (hbind (on_store op) f)"
  unfolding refused_clean_def
proof (intro allI impI)
  fix s x s'
  assume run: "hbind (on_store op) f s = Some (x, s')" and bad: "400 \<le> hr_status (response_of x)"
  obtain y st' where op: "op (store_of s) = (y, st')" by fastforce
  then have f: "f y (s\<lparr>ap_auth := (ap_auth s)\<lparr>av_store := st'\<rparr>\<rparr>) = Some (x, s')"
    using run by (simp add: hbind_def on_store_def store_of_def)
  from assms [OF op] show "records s' = records s"
  proof
    assume a: "st' = store_of s \<and> refused_clean (f y)"
    then have "s\<lparr>ap_auth := (ap_auth s)\<lparr>av_store := st'\<rparr>\<rparr> = s" by (simp add: store_of_def)
    then show ?thesis using a f bad by (auto simp: refused_clean_def)
  next
    assume "answers (\<lambda>r. hr_status r < 400) (f y)"
    then show ?thesis using f bad unfolding answers_def by fastforce
  qed
qed

lemma clean_cases:
  "(\<And>e. x = Inl e \<Longrightarrow> refused_clean (f e)) \<Longrightarrow> (\<And>y. x = Inr y \<Longrightarrow> refused_clean (g y)) \<Longrightarrow>
     refused_clean (case x of Inl e \<Rightarrow> f e | Inr y \<Rightarrow> g y)"
  "refused_clean n \<Longrightarrow> (\<And>y. refused_clean (g y)) \<Longrightarrow> refused_clean (case o' of None \<Rightarrow> n | Some y \<Rightarrow> g y)"
  "(\<And>a b. refused_clean (h a b)) \<Longrightarrow> refused_clean (case p of (a, b) \<Rightarrow> h a b)"
  "refused_clean n \<Longrightarrow> refused_clean n' \<Longrightarrow> refused_clean (if c then n else n')"
  by (auto split: sum.splits option.splits prod.splits)

text \<open>The login operations touch nonces and sessions only.\<close>

definition erase :: "inner \<Rightarrow> inner" where
  "erase st = st\<lparr>in_nonces := [], in_sessions := []\<rparr>"

lemma erase_simps [simp]:
  "erase (insert_nonce n u t st) = erase st" "erase (consume_nonce n st) = erase st"
  "erase (insert_session h se st) = erase st" "erase (revoke_session h st) = erase st"
  by (simp_all add: erase_def insert_nonce_def consume_nonce_def insert_session_def revoke_session_def
      split: option.splits)

lemma records_erase: "records s = (erase (store_of s), ap_audit s)"
  by (simp add: records_def erase_def)

lemma auth_challenge_erase:
  assumes "auth_challenge cfg fl n u t sv = Some (x, sv')"
  shows "erase (av_store sv') = erase (av_store sv)"
proof -
  obtain a b where ab: "admit_challenge (ag_rate_limit cfg) u t (av_accounts sv) = Some (a, b)"
    using assms by (auto simp: auth_challenge_def bind_eq_Some_conv)
  show ?thesis
  proof (cases a)
    case (Inl r)
    then show ?thesis using assms ab by (auto simp: auth_challenge_def)
  next
    case (Inr r)
    then show ?thesis using assms ab
      by (auto simp: auth_challenge_def Let_def bind_eq_Some_conv split: option.splits)
  qed
qed

lemma prove_erase:
  "prove P nfc cfg fl tok u t pf ex now sv = Some (x, sv') \<Longrightarrow> erase (av_store sv') = erase (av_store sv)"
  by (auto simp: prove_def prove_commit_def Let_def bind_eq_Some_conv split: sum.splits option.splits if_splits prod.splits)

lemma recovery_challenge_erase:
  "auth_recovery_challenge P cfg fl n c e rnd now sv = Some (x, sv') \<Longrightarrow> erase (av_store sv') = erase (av_store sv)"
  by (auto simp: auth_recovery_challenge_def Let_def bind_eq_Some_conv split: option.splits)

lemma recovery_verify_erase:
  "auth_recovery_verify P nfc cfg fl tok c t pf ex now sv = Some (x, sv') \<Longrightarrow> erase (av_store sv') = erase (av_store sv)"
  by (auto simp: auth_recovery_verify_def recovery_commit_def Let_def bind_eq_Some_conv split: option.splits sum.splits)

lemma logout_erase: "erase (av_store (snd (auth_logout P fl tok sv))) = erase (av_store sv)"
  by (auto simp: auth_logout_def split: option.splits)

lemma records_updates [simp]:
  "records (s\<lparr>ap_blobs := b\<rparr>) = records s" "records (s\<lparr>ap_delegation := d\<rparr>) = records s"
  by (simp_all add: records_def store_of_def)

lemmas records_preserving = preserves_on_blobs [of records] preserves_complete [of records] preserves_teardown [of records]

lemma on_auth_records:
  assumes "\<And>sv x sv'. op sv = Some (x, sv') \<Longrightarrow> erase (av_store sv') = erase (av_store sv)"
  shows "preserves records (on_auth op)"
  by (rule preserves_on_auth) (simp add: records_erase store_of_def assms)

lemma on_delegation_records: "preserves records (on_delegation ctx f)"
  by (auto simp: preserves_def on_delegation_def)

text \<open>Handlers that write no record at all.\<close>

lemma login_preserves:
  "preserves records (http_challenge E R u)" "preserves records (http_prove E R u t p)"
  "preserves records (http_logout E R)" "preserves records (http_recovery_challenge E R)"
  "preserves records (recovery_verify E R c p t)"
  unfolding http_challenge_def http_prove_def http_logout_def http_recovery_challenge_def recovery_verify_def
  by (auto intro!: preserving on_auth_records
      split: sum.splits challenge_error.splits prove_error.splits recovery_error.splits
      dest: auth_challenge_erase prove_erase recovery_challenge_erase recovery_verify_erase
      simp: logout_erase) (metis logout_erase snd_conv)

lemma delegation_preserves:
  "preserves records (bootstrap_operational_key E R)" "preserves records (get_delegation_doc E)"
  "preserves records (post_bootstrap_delegation E R t d c)" "preserves records (post_admin_delegation E R c)"
  unfolding bootstrap_operational_key_def get_delegation_doc_def post_bootstrap_delegation_def post_admin_delegation_def
  by (intro preserving on_delegation_records)+

lemma reading_preserves:
  "preserves v (recovery_pubkey E R)" "preserves v (directory_by_username E R u)" "preserves v (directory_by_id E R i)"
  "preserves v (get_revocations E R)" "preserves v (http_get_file E R f q)" "preserves v (http_list_recipients E R f)"
  unfolding recovery_pubkey_def directory_by_username_def directory_by_id_def get_revocations_def http_get_file_def
    http_list_recipients_def
  by (intro preserving)+

lemma listing_preserves: "preserves v (http_list_files E R q)"
  unfolding http_list_files_def Let_def by (intro preserving)

lemma chunk_preserves:
  assumes "\<And>s b. v (s\<lparr>ap_blobs := b\<rparr>) = v s"
  shows "preserves v (http_put_chunk E B R p body)" "preserves v (http_get_chunk E B R p)"
    "preserves v (http_chunk_status E D R p)" "preserves v (http_direct_link E D R p)"
  unfolding http_put_chunk_def http_get_chunk_def http_chunk_status_def http_direct_link_def
  by (intro preserving preserves_on_blobs assms)+

lemma clean_hret: "refused_clean (hret r)" "refused_clean (halt r)"
  by (rule clean_preserves, rule preserving)+

lemma on_audit_low: "(\<And>x. answers (\<lambda>r. hr_status r < 400) (f x)) \<Longrightarrow> answers (\<lambda>r. hr_status r < 400) (hbind (on_audit g) f)"
  by (rule answers_hbind) auto

lemma status_simps [simp]:
  "hr_status (bare c) = c" "hr_status (with_body c b) = c" "hr_status internal_error = 500"
  by (simp_all add: bare_def with_body_def internal_error_def)

lemma register_clean: "refused_clean (register E R q)"
  unfolding register_def Let_def
  by (intro clean_hbind preserving clean_commit)
    (auto simp: enroll_def Let_def split: if_splits intro!: clean_hret answers_hbind answers_hret)

lemma mint_clean: "refused_clean (mint_registration_key E R)"
  unfolding mint_registration_key_def Let_def
  by (intro clean_hbind preserving preserves_panics clean_commit)
    (auto intro!: answers_hret)

lemma recovery_register_clean: "refused_clean (recovery_register E R e g m)"
  unfolding recovery_register_def
  by (intro clean_hbind preserving clean_commit)
    (auto simp: set_recovery_account_def split: if_splits intro!: clean_hret answers_hret)

lemma publish_clean: "refused_clean (publish_binding E R b g)"
  unfolding publish_binding_def Let_def
  by (intro clean_hbind clean_cases preserving clean_commit clean_hret)
    (auto intro!: answers_hret)

lemma control_clean: "refused_clean (post_control E R r g c)"
  unfolding post_control_def
  by (intro clean_hbind preserving clean_commit)
    (auto simp: append_control_def Let_def split: option.splits if_splits intro!: clean_hret answers_hbind answers_hret)

lemma stage_clean: "refused_clean (stage_and_respond E R input)"
  unfolding stage_and_respond_def Let_def
  by (intro clean_cases clean_hret clean_hbind preserving clean_commit)
    (auto dest: stage_refused split: sum.splits intro!: clean_hret answers_hbind answers_hret)

lemma create_clean: "refused_clean (create_file E R q)" "refused_clean (http_stage_version E R f v)"
  unfolding create_file_def http_stage_version_def Let_def
  by (intro clean_hbind preserving stage_clean)+

lemma finalize_clean: "refused_clean (http_finalize E B R f v)"
  unfolding http_finalize_def
  by (intro clean_hbind preserving clean_commit records_preserving records_updates)
    (auto dest: finalize_refused split: sum.splits intro!: clean_hret answers_hbind answers_hret)

lemma add_wrap_clean: "refused_clean (http_add_wrap E R f q)"
  unfolding http_add_wrap_def
  by (intro clean_hbind preserving clean_commit)
    (auto dest: add_wrap_refused split: sum.splits add_wrap_error.splits intro!: clean_hret answers_hbind answers_hret)

lemma delete_wrap_clean: "refused_clean (http_delete_wrap E R f r)"
  unfolding http_delete_wrap_def
  by (intro clean_hbind preserving clean_commit)
    (auto dest: delete_wrap_refused split: sum.splits delete_wrap_error.splits
      intro!: clean_hret answers_hbind answers_hret)

lemma delete_commit_clean:
  "refused_clean (hbind (on_store (delete_file i u)) (\<lambda>r. case r of
       Inr blob_refs \<Rightarrow> hbind (on_teardown B blob_refs) (\<lambda>_. hret (bare 204))
     | Inl DlNotFound \<Rightarrow> hret (bare 404)
     | Inl (DlStore e) \<Rightarrow> hret internal_error))"
  by (intro clean_commit)
    (auto dest: delete_refused split: sum.splits delete_error.splits intro!: clean_hret answers_hbind answers_hret)

lemma discard_clean: "refused_clean (http_discard_file E B R f)"
  unfolding http_discard_file_def
  by (intro clean_hbind preserving clean_commit)
    (auto dest: discard_refused split: sum.splits discard_error.splits
      intro!: clean_hret answers_hbind answers_hret clean_hbind [OF preserves_basic(6)] delete_commit_clean)

lemmas writing_clean = register_clean mint_clean recovery_register_clean publish_clean control_clean create_clean
  finalize_clean add_wrap_clean delete_wrap_clean discard_clean

lemma dispatch_clean: "refused_clean (dispatch E B R q)"
  by (cases q) (auto intro: writing_clean clean_preserves login_preserves delegation_preserves reading_preserves
      listing_preserves chunk_preserves [OF records_updates(1)])

lemma route_Some: "route E B R q s = Some (r, s') \<longleftrightarrow> (\<exists>x. dispatch E B R q s = Some (x, s') \<and> r = response_of x)"
  by (auto simp: route_def response_of_def)

section \<open>Who may change a file\<close>

definition session_user :: "http_env \<Rightarrow> http_ctx \<Rightarrow> 'b app_state \<Rightarrow> bytes option" where
  "session_user E R s = Option.bind (hx_exporter R) (\<lambda>exporter. Option.bind (session_header R) (\<lambda>token.
     case validate_session (hv_prims E) (hx_auth_faults R) token exporter (hx_clock R AtSession) (ap_auth s) of
       Inl _ \<Rightarrow> None | Inr u \<Rightarrow> Some u))"

lemma resolve_user:
  assumes "resolve_session E R s = Some (Inr (u, t), s')"
  shows "s' = s \<and> session_user E R s = Some u"
  using assms by (auto simp: resolve_session_def session_user_def hbind_def require_def hret_def halt_def reads_def
      split: option.splits sum.splits auth_error.splits)

lemma authed_user:
  assumes "authed_session E R s = Some (Inr u, s')"
  shows "s' = s \<and> session_user E R s = Some u \<and> u \<noteq> id_raw RECOVERY_ID"
  using assms resolve_user [of E R s]
  by (auto simp: authed_session_def hbind_eq_Some halt_def hret_def split: prod.splits if_splits)

text \<open>A file rewrapped by someone who holds or granted a wrap of the current version: the wraps of that version change,
  save the escrow's, and perhaps the time stamp. A file staged again: an unfinalized version 1 is replaced.\<close>

definition escrow :: "wrap_input list \<Rightarrow> wrap_input list" where
  "escrow ws = [w \<leftarrow> ws. wi_recipient_id w = id_raw RECOVERY_ID]"

definition rewrapped :: "bytes \<Rightarrow> file_entry \<Rightarrow> file_entry \<Rightarrow> bool" where
  "rewrapped u f f' \<longleftrightarrow> (\<exists>ver ws t. map_of (fe_versions f) (fe_current_version f) = Some ver \<and>
     (\<exists>w \<in> set (ve_wraps ver). wi_recipient_id w = u \<or> wi_granted_by w = u) \<and> escrow ws = escrow (ve_wraps ver) \<and>
     f' = (put_version (fe_current_version f) (ver\<lparr>ve_wraps := ws\<rparr>) f)\<lparr>fe_updated_at_ms := t\<rparr>)"

definition restaged :: "file_entry \<Rightarrow> file_entry \<Rightarrow> bool" where
  "restaged f f' \<longleftrightarrow> \<not> version_finalized f 1 \<and> (\<exists>ver. \<not> ve_finalized ver \<and> f' = put_version 1 ver f)"

fun permitted :: "bytes \<Rightarrow> file_entry option \<Rightarrow> file_entry option \<Rightarrow> bool" where
  "permitted u None None \<longleftrightarrow> True"
| "permitted u None (Some f') \<longleftrightarrow> fe_owner_id f' = u"
| "permitted u (Some f) None \<longleftrightarrow> fe_owner_id f = u"
| "permitted u (Some f) (Some f') \<longleftrightarrow> fe_owner_id f = u \<or> rewrapped u f f' \<or> restaged f f'"

type_synonym files = "(bytes \<times> file_entry) list"

definition files_of :: "'b app_state \<Rightarrow> files" where
  "files_of s = in_files (store_of s)"

definition allowed :: "bytes \<Rightarrow> files \<Rightarrow> files \<Rightarrow> bool" where
  "allowed u fs fs' \<longleftrightarrow> (distinct (map fst fs) \<longrightarrow> distinct (map fst fs') \<and>
     (\<forall>i. map_of fs' i \<noteq> map_of fs i \<longrightarrow> permitted u (map_of fs i) (map_of fs' i)))"

lemma allowed_refl [simp]: "allowed u fs fs"
  by (simp add: allowed_def)

lemma allowed_put:
  "permitted u (map_of fs i) (Some f) \<Longrightarrow> allowed u fs (AList.update i f fs)"
  by (auto simp: allowed_def AList.update_conv' distinct_update)

lemma parse_stage_owner:
  assumes "parse_stage input = Inr p"
  shows "ps_author_id p = si_caller_id input"
    and "ps_genesis p = Some g \<Longrightarrow> gw_owner_id g = si_caller_id input \<and> ps_version p = 1"
  using assms
  by (auto simp: parse_stage_def rbind_eq_Inr map_err_eq_Inr Let_def parse_genesis_def split: if_splits option.splits bool.splits)

lemma restagedI: "\<not> version_finalized f 1 \<Longrightarrow> \<not> ve_finalized ver \<Longrightarrow> restaged f (put_version 1 ver f)"
  by (auto simp: restaged_def)

lemma stage_allowed:
  assumes "parse_stage input = Inr p"
  shows "allowed (si_caller_id input) (in_files st) (in_files (snd (stage_version p t st)))"
  using parse_stage_owner [OF assms]
  by (auto simp: stage_version_def Let_def restagedI split: option.splits intro!: allowed_put)

lemma finalize_allowed: "allowed u (in_files st) (in_files (snd (finalize_version i v u t st)))"
  by (auto simp: finalize_version_def Let_def split: option.splits intro!: allowed_put)

lemma rewrapped_add:
  assumes "map_of (fe_versions f) (fe_current_version f) = Some e" and "c \<in> wi_recipient_id ` set (ve_wraps e)"
    and "wi_recipient_id w \<noteq> id_raw RECOVERY_ID"
  shows "rewrapped c f ((put_version (fe_current_version f)
     (e\<lparr>ve_wraps := [x \<leftarrow> ve_wraps e. wi_recipient_id x \<noteq> wi_recipient_id w] @ [w]\<rparr>) f)\<lparr>fe_updated_at_ms := t\<rparr>)"
  unfolding rewrapped_def
proof (intro exI conjI)
  show "escrow ([x \<leftarrow> ve_wraps e. wi_recipient_id x \<noteq> wi_recipient_id w] @ [w]) = escrow (ve_wraps e)"
    using assms(3) by (auto simp: escrow_def intro!: filter_cong)
qed (use assms in auto)

lemma add_wrap_allowed: "allowed u (in_files st) (in_files (snd (add_wrap i w u t st)))"
  by (auto simp: add_wrap_def Let_def list_ex_iff image_iff split: option.splits intro!: allowed_put rewrapped_add)

lemma rewrapped_delete:
  assumes "map_of (fe_versions f) (fe_current_version f) = Some e" and "find_wrap r (ve_wraps e) = Some w"
    and "wi_granted_by w = c" and "r \<noteq> id_raw RECOVERY_ID"
  shows "rewrapped c f (put_version (fe_current_version f) (e\<lparr>ve_wraps := [x \<leftarrow> ve_wraps e. wi_recipient_id x \<noteq> r]\<rparr>) f)"
  unfolding rewrapped_def
proof (intro exI conjI)
  show "escrow [x \<leftarrow> ve_wraps e. wi_recipient_id x \<noteq> r] = escrow (ve_wraps e)"
    using assms(4) by (auto simp: escrow_def intro!: filter_cong)
  show "put_version (fe_current_version f) (e\<lparr>ve_wraps := [x \<leftarrow> ve_wraps e. wi_recipient_id x \<noteq> r]\<rparr>) f =
      (put_version (fe_current_version f) (e\<lparr>ve_wraps := [x \<leftarrow> ve_wraps e. wi_recipient_id x \<noteq> r]\<rparr>) f)
        \<lparr>fe_updated_at_ms := fe_updated_at_ms f\<rparr>" by (simp add: put_version_def)
qed (use assms find_wrap_Some in auto)

lemma delete_wrap_allowed: "allowed u (in_files st) (in_files (snd (delete_wrap i r u st)))"
  by (auto simp: delete_wrap_def Let_def split: option.splits intro!: allowed_put intro: rewrapped_delete)

lemma discard_allowed: "allowed u (in_files st) (in_files (snd (discard_unfinalized i u st)))"
  by (auto simp: discard_unfinalized_def Let_def split: option.splits intro!: allowed_put)

lemma delete_fold: "map_of (fold AList.delete ids fs) j = (if j \<in> set ids then None else map_of fs j)"
  by (induction ids arbitrary: fs) (auto simp: AList.delete_conv')

lemma distinct_fold: "distinct (map fst fs) \<Longrightarrow> distinct (map fst (fold AList.delete ids fs))"
  by (induction ids arbitrary: fs) (auto simp: AList.distinct_delete)

lemma delete_allowed: "allowed u (in_files st) (in_files (snd (delete_file i u st)))"
proof (cases "delete_file i u st")
  case (Pair x st')
  then show ?thesis
  proof (cases rule: delete_file_cases)
    case (deleted f)
    have "permitted u (map_of (in_files st) j) None" if "distinct (map fst (in_files st))" "j \<in> set (doomed_files i u f st)" for j
    proof -
      from that deleted(1,2) obtain g where "(j, g) \<in> set (in_files st)" "fe_owner_id g = u"
        by (auto simp: doomed_files_def split: if_splits dest: map_of_SomeD)
      then show ?thesis using that(1) by simp
    qed
    then show ?thesis using deleted
      unfolding allowed_def Pair snd_conv by (auto simp: delete_fold distinct_fold)
  qed (simp add: Pair)
qed


text \<open>\<open>permits u m\<close>: what \<open>m\<close> does to the files, \<open>u\<close> may do.\<close>

definition permits :: "bytes \<Rightarrow> ('b app_state, 'a) serve \<Rightarrow> bool" where
  "permits u m \<longleftrightarrow> (\<forall>s x s'. m s = Some (x, s') \<longrightarrow> allowed u (files_of s) (files_of s'))"

lemma permits_preserves: "preserves files_of m \<Longrightarrow> permits u m"
  by (auto simp: permits_def preserves_def)

lemma permits_hbind: "preserves files_of m \<Longrightarrow> (\<And>x. permits u (f x)) \<Longrightarrow> permits u (hbind m f)"
  unfolding permits_def preserves_def hbind_eq_Some by (metis allowed_refl)

text \<open>A parsed identifier, an accepted request: what the check guarantees is at hand afterwards.\<close>

lemma permits_parse:
  "(\<And>e. permits u (f e)) \<Longrightarrow> (\<And>y. x = Inr y \<Longrightarrow> permits u (g y)) \<Longrightarrow> permits u (case x of Inl e \<Rightarrow> f e | Inr y \<Rightarrow> g y)"
  by (cases x) auto

lemma permits_commit:
  assumes "\<And>st x st'. op st = (x, st') \<Longrightarrow> st' = st \<and> permits u (f x) \<or>
      allowed u (in_files st) (in_files st') \<and> preserves files_of (f x)"
  shows "permits u (hbind (on_store op) f)"
  unfolding permits_def
proof (intro allI impI)
  fix s x s'
  assume run: "hbind (on_store op) f s = Some (x, s')"
  obtain y st' where op: "op (store_of s) = (y, st')" by fastforce
  then have f: "f y (s\<lparr>ap_auth := (ap_auth s)\<lparr>av_store := st'\<rparr>\<rparr>) = Some (x, s')"
    using run by (simp add: hbind_def on_store_def store_of_def)
  from assms [OF op] show "allowed u (files_of s) (files_of s')"
  proof
    assume a: "st' = store_of s \<and> permits u (f y)"
    then have "s\<lparr>ap_auth := (ap_auth s)\<lparr>av_store := st'\<rparr>\<rparr> = s" by (simp add: store_of_def)
    then show ?thesis using a f by (auto simp: permits_def)
  next
    assume a: "allowed u (in_files (store_of s)) (in_files st') \<and> preserves files_of (f y)"
    then have "files_of s' = files_of (s\<lparr>ap_auth := (ap_auth s)\<lparr>av_store := st'\<rparr>\<rparr>)"
      using f unfolding preserves_def by blast
    then show ?thesis using a by (simp add: files_of_def store_of_def)
  qed
qed

lemma permits_commit_any:
  assumes "\<And>st. allowed u (in_files st) (in_files (snd (op st)))" and "\<And>x. preserves files_of (f x)"
  shows "permits u (hbind (on_store op) f)"
proof (rule permits_commit)
  fix st x st' assume "op st = (x, st')"
  then show "st' = st \<and> permits u (f x) \<or> allowed u (in_files st) (in_files st') \<and> preserves files_of (f x)"
    using assms(1) [of st] assms(2) by simp
qed

lemma files_updates [simp]:
  "files_of (s\<lparr>ap_blobs := b\<rparr>) = files_of s" "files_of (s\<lparr>ap_delegation := d\<rparr>) = files_of s"
  "files_of (s\<lparr>ap_audit := a\<rparr>) = files_of s"
  by (simp_all add: files_of_def store_of_def)

lemmas files_preserving = preserves_on_blobs [of files_of] preserves_complete [of files_of] preserves_teardown [of files_of]
  preserves_on_audit [of files_of] preserves_on_audit_panics [of files_of]

lemma stage_permits: "si_caller_id input = u \<Longrightarrow> permits u (stage_and_respond E R input)"
  unfolding stage_and_respond_def Let_def
  by (intro permits_parse permits_preserves [OF preserves_basic(2)] permits_hbind preserving permits_commit_any
      files_preserving files_updates) (use stage_allowed in auto)

definition by_user :: "http_env \<Rightarrow> http_ctx \<Rightarrow> ('b app_state, response) serve \<Rightarrow> bool" where
  "by_user E R m \<longleftrightarrow> (\<forall>s x s'. m s = Some (x, s') \<longrightarrow> files_of s' = files_of s \<or>
     (\<exists>u. session_user E R s = Some u \<and> u \<noteq> id_raw RECOVERY_ID \<and> allowed u (files_of s) (files_of s')))"

lemma by_user_session:
  assumes "\<And>u. permits u (k u)"
  shows "by_user E R (hbind (authed_session E R) k)"
  unfolding by_user_def hbind_eq_Some
proof (intro allI impI, elim disjE exE conjE)
  fix s :: "'a app_state" and x s' r assume "authed_session E R s = Some (Inl r, s')"
  then have "files_of s' = files_of s" using preserves_session(3) [of files_of E R] unfolding preserves_def by blast
  then show "files_of s' = files_of s \<or> (\<exists>u. session_user E R s = Some u \<and> u \<noteq> id_raw RECOVERY_ID \<and>
      allowed u (files_of s) (files_of s'))" ..
next
  fix s :: "'a app_state" and x s' u t
  assume "authed_session E R s = Some (Inr u, t)" and "k u t = Some (x, s')"
  then show "files_of s' = files_of s \<or> (\<exists>u. session_user E R s = Some u \<and> u \<noteq> id_raw RECOVERY_ID \<and>
      allowed u (files_of s) (files_of s'))"
    using authed_user [of E R s u t] assms [of u] unfolding permits_def by blast
qed

lemma create_by_user: "by_user E R (create_file E R q)" "by_user E R (http_stage_version E R f v)"
  unfolding create_file_def http_stage_version_def Let_def
  by (intro by_user_session permits_hbind preserving stage_permits; simp)+

lemma finalize_by_user: "by_user E R (http_finalize E B R f v)"
  unfolding http_finalize_def
  by (intro by_user_session permits_hbind preserving permits_commit_any files_preserving files_updates finalize_allowed)

lemma add_by_user: "by_user E R (http_add_wrap E R f q)"
  unfolding http_add_wrap_def
  by (intro by_user_session permits_hbind preserving permits_commit_any add_wrap_allowed)
    (auto intro!: preserving files_preserving split: sum.splits add_wrap_error.splits)

lemma delete_by_user: "by_user E R (http_delete_wrap E R f q)"
  unfolding http_delete_wrap_def
  by (intro by_user_session permits_hbind preserving permits_commit_any delete_wrap_allowed)
    (auto intro!: preserving files_preserving split: sum.splits delete_wrap_error.splits)

lemma delete_commit_permits:
  "permits u (hbind (on_store (delete_file i u)) (\<lambda>r. case r of
       Inr blob_refs \<Rightarrow> hbind (on_teardown B blob_refs) (\<lambda>_. hret (bare 204))
     | Inl DlNotFound \<Rightarrow> hret (bare 404)
     | Inl (DlStore e) \<Rightarrow> hret internal_error))"
  by (rule permits_commit_any [OF delete_allowed])
    (auto intro!: preserving files_preserving split: sum.splits delete_error.splits)

lemma discard_commit_permits:
  "permits u (hbind (on_store (discard_unfinalized i u)) (\<lambda>r. case r of
       Inr blob_refs \<Rightarrow> hbind (on_teardown B blob_refs) (\<lambda>_. hret (bare 204))
     | Inl DcNotFound \<Rightarrow> hret (bare 404)
     | Inl HasFinalizedVersion \<Rightarrow>
         hbind (backend R CallDelete) (\<lambda>_. hbind (on_store (delete_file i u)) (\<lambda>r. case r of
           Inr blob_refs \<Rightarrow> hbind (on_teardown B blob_refs) (\<lambda>_. hret (bare 204))
         | Inl DlNotFound \<Rightarrow> hret (bare 404)
         | Inl (DlStore e) \<Rightarrow> hret internal_error))
     | Inl (DcStore e) \<Rightarrow> hret internal_error))" (is "permits u (hbind _ ?f)")
proof (rule permits_commit)
  fix st x st'
  assume op: "discard_unfinalized i u st = (x, st')"
  show "st' = st \<and> permits u (?f x) \<or> allowed u (in_files st) (in_files st') \<and> preserves files_of (?f x)"
  proof (cases x)
    case (Inl e)
    then have "st' = st" using op discard_refused by blast
    moreover have "permits u (?f x)" unfolding Inl
      by (auto split: discard_error.splits intro!: permits_preserves [OF preserves_basic(1)]
          permits_hbind [OF preserves_basic(6)] delete_commit_permits)
    ultimately show ?thesis by blast
  next
    case (Inr refs)
    then show ?thesis using discard_allowed [of u st i] op
      by (auto intro!: preserving files_preserving)
  qed
qed

lemma discard_by_user: "by_user E R (http_discard_file E B R f)"
  unfolding http_discard_file_def
  by (intro by_user_session permits_hbind [OF preserves_basic(4)] permits_hbind [OF preserves_basic(6)] discard_commit_permits)

text \<open>The other handlers that write leave the files alone.\<close>

lemma in_files_account_ops [simp]:
  "in_files (snd (enroll k u n e g ub ab st)) = in_files st" "in_files (issue_registration_key k st) = in_files st"
  "in_files (snd (set_recovery_account e g m st)) = in_files st"
  "in_files (put_binding u v b g st) = in_files st" "in_files (snd (append_control sha r g c st)) = in_files st"
  by (auto simp: enroll_def issue_registration_key_def set_recovery_account_def put_binding_def append_control_def Let_def
      split: option.splits)

lemma on_store_files: "(\<And>st. in_files (snd (op st)) = in_files st) \<Longrightarrow> preserves files_of (on_store op)"
  by (rule preserves_on_store) (simp add: files_of_def store_of_def)

lemma in_files_auth:
  "erase st' = erase st \<Longrightarrow> in_files st' = in_files st"
  unfolding erase_def by (metis inner.select_convs(10) inner.surjective inner.update_convs(2,3))

lemma account_files:
  "preserves files_of (register E R q)" "preserves files_of (mint_registration_key E R)"
  "preserves files_of (recovery_register E R e g m)" "preserves files_of (publish_binding E R b g)"
  "preserves files_of (post_control E R r g c)"
  unfolding register_def mint_registration_key_def recovery_register_def publish_binding_def post_control_def Let_def
  by (auto intro!: preserving files_preserving on_store_files preserves_panics
      split: enroll_outcome.splits sum.splits control_append_error.splits)

lemma records_files: "preserves records m \<Longrightarrow> preserves files_of m"
  unfolding preserves_def records_erase files_of_def using in_files_auth by blast

lemma by_user_preserves: "preserves files_of m \<Longrightarrow> by_user E R m"
  by (auto simp: by_user_def preserves_def)

lemma dispatch_by_user: "by_user E R (dispatch E B R q)"
  by (cases q) (auto intro: create_by_user finalize_by_user add_by_user delete_by_user discard_by_user
      by_user_preserves account_files records_files login_preserves delegation_preserves reading_preserves
      listing_preserves chunk_preserves [OF files_updates(1)])

section \<open>Hexadecimal\<close>

lemma hex_digit_char [simp]: "n < 16 \<Longrightarrow> hex_digit (digit_char n) = Some n \<and> digit_char n \<noteq> CHR ''+'' \<and> ascii_code (digit_char n) < 128"
proof -
  have "list_all (\<lambda>k. hex_digit (digit_char k) = Some k \<and> digit_char k \<noteq> CHR ''+'' \<and> ascii_code (digit_char k) < 128) [0..<16]"
    by code_simp
  moreover assume "n < 16"
  ultimately show ?thesis by (simp add: list_all_iff)
qed

lemma hex_byte_hex2: "hex_byte (digit_char (unat b div 16)) (digit_char (unat b mod 16)) = Some b"
proof -
  have "unat b div 16 < 16" using unat_byte_less [of b] by (simp add: less_mult_imp_div_less)
  moreover have "word_of_nat (16 * (unat b div 16) + unat b mod 16) = b" by (simp del: of_nat_add of_nat_mult)
  ultimately show ?thesis by (simp add: hex_byte_def del: of_nat_add of_nat_mult)
qed

lemma hex_pairs_encode: "hex_pairs (hex_encode bs) = Some bs"
  by (induction bs) (simp_all add: hex_encode_def hex2_def hex_byte_hex2)

lemma hex_encode_ascii: "list_all (\<lambda>c. ascii_code c < 128) (hex_encode bs) \<and> length (hex_encode bs) = 2 * length bs"
proof (induction bs)
  case (Cons b bs)
  have "unat b div 16 < 16" using unat_byte_less [of b] by (simp add: less_mult_imp_div_less)
  with Cons show ?case by (simp add: hex_encode_def hex2_def)
qed (simp add: hex_encode_def)

lemma hex_round_trip: "length bs = n \<Longrightarrow> hex_fixed n (hex_encode bs) = Some bs"
  using hex_encode_ascii [of bs] by (simp add: hex_fixed_def hex_pairs_encode)

section \<open>A small deployment\<close>

text \<open>The server of one file behind the in-memory blob store, with one live session.\<close>

definition memory_serving :: "memory_store serving_ops" where
  "memory_serving = \<lparr>op_put = op_put memory_ops, op_get = op_get memory_ops, op_count = op_count memory_ops,
     op_delete_stream = op_delete_stream memory_ops, op_delete_chunk = op_delete_chunk memory_ops,
     op_status = default_chunk_status memory_ops, op_direct = default_broker_direct_link\<rparr>"

definition env0 :: http_env where
  "env0 = \<lparr>hv_prims = toy_prims, hv_to_nfc = id, hv_is_nfc = (\<lambda>_. True), hv_b64_enc = bytes_string,
     hv_b64_dec = (\<lambda>s. Some (str_bytes s)), hv_url_enc = bytes_string, hv_url_dec = (\<lambda>s. Some (str_bytes s)),
     hv_auth = auth_config_default, hv_dir_signer = None, hv_direct_links_enabled = False, hv_max_file_bytes = None\<rparr>"

definition ctx0 :: http_ctx where
  "ctx0 = \<lparr>hx_exporter = Some [6], hx_authorization = Some (''MaxSecu-Session '' @ hex_encode (replicate 32 1)),
     hx_clock = (\<lambda>_. 5), hx_random16 = [], hx_random32 = [], hx_token = [], hx_eph = [], hx_wrap_random = [],
     hx_auth_faults = no_faults, hx_file_faults = (\<lambda>_. None), hx_persist = null_persist\<rparr>"

definition app0 :: "bytes \<Rightarrow> memory_store app_state" where
  "app0 u = \<lparr>ap_auth = auth_new (server0\<lparr>in_sessions :=
       [(replicate 32 1, \<lparr>se_user_id = u, se_tls_exporter = [6], se_expires_at_ms = 100, se_revoked = False\<rparr>)]\<rparr>),
     ap_delegation = None, ap_blobs = [], ap_audit = audit_new\<rparr>"

lemma header0: "session_header ctx0 = Some (replicate 32 1)"
  by (simp add: session_header_def ctx0_def strip_prefix_def hex_round_trip)

lemma session0 [simp]: "resolve_session env0 ctx0 (app0 u) = Some (Inr (u, replicate 32 1), app0 u)"
  unfolding resolve_session_def hbind_def header0
  by (simp add: ctx0_def require_def hret_def reads_def validate_session_def env0_def toy_prims_with_def get_session_def
      app0_def auth_new_def)

lemma authed0: "u \<noteq> id_raw RECOVERY_ID \<Longrightarrow> authed_session env0 ctx0 (app0 u) = Some (Inr u, app0 u)"
  by (simp add: authed_session_def hbind_def hret_def)

lemma user0: "session_user env0 ctx0 (app0 u) = Some u"
  using resolve_user [OF session0 [of u]] by simp

lemma backend0 [simp]: "backend ctx0 c s = Some (Inr (), s)"
  by (simp add: backend_def ctx0_def hret_def)

lemma files0 [simp]: "files_of (app0 u) = in_files server0" "store_of (app0 u) = server0\<lparr>in_sessions :=
       [(replicate 32 1, \<lparr>se_user_id = u, se_tls_exporter = [6], se_expires_at_ms = 100, se_revoked = False\<rparr>)]\<rparr>"
  by (simp_all add: files_of_def store_of_def app0_def auth_new_def)

lemma distinct0: "distinct (map fst (in_files server0))"
  using files_ok_run [of requests0 "\<lambda>x. x"] by (simp add: server0_def requests0_def files_ok_def)

section \<open>The two properties\<close>

text \<open>C21: A request that is refused or fails (a response of 400 and above) has left no trace in the records: whatever
  the route, the caller, the body, and whichever call of the backend or of the blob store failed, the accounts, the
  registration keys, the directory, the control log, the files and the audit trail are as before.\<close>

theorem refusal_leaves_records:
  assumes "route E B R q s = Some (r, s')" and "400 \<le> hr_status r"
  shows "records s' = records s"
  using dispatch_clean [of E B R q] assms unfolding refused_clean_def route_Some by blast

theorem refusal_leaves_records_witness:
  "\<exists>s'. route env0 memory_serving ctx0 (PostUsers \<lparr>rg_username = ''bob'', rg_enc_pub_b64 = replicate 32 CHR ''a'',
       rg_sig_pub_b64 = replicate 32 CHR ''b'', rg_mlkem_pub_b64 = None, rg_registration_key = ''x''\<rparr>) (app0 owner0) =
     Some (bare 403, s') \<and> records s' = records (app0 owner0)"
proof -
  let ?q = "PostUsers \<lparr>rg_username = ''bob'', rg_enc_pub_b64 = replicate 32 CHR ''a'',
       rg_sig_pub_b64 = replicate 32 CHR ''b'', rg_mlkem_pub_b64 = None, rg_registration_key = ''x''\<rparr>"
  have "b64_fixed env0 32 (replicate 32 c) = Some (str_bytes (replicate 32 c))" for c
    by (simp add: b64_fixed_def env0_def str_bytes_def)
  moreover have "\<exists>t. text_new (hv_to_nfc env0) (str_bytes ''bob'') = Inr t"
    by (simp add: text_new_def env0_def str_bytes_def MAX_TEXT_def)
  ultimately obtain s' where r: "route env0 memory_serving ctx0 ?q (app0 owner0) = Some (bare 403, s')"
    by (auto simp: route_def register_def hbind_def require_def hret_def halt_def env0_def)
  from refusal_leaves_records [OF r] show ?thesis using r by auto
qed

text \<open>C7: Whatever request arrives, the files change only at the hands of a user with a live session on the same TLS
  connection, never the recovery principal, and only as this user may: a new file is the user's own, an existing one
  changes at will only for its owner. Someone else can alter no more than the wraps of the current version, when they
  hold or granted one of them, and never the escrow's; or replace the unfinalized version 1 of a file (which the
  staging route lets anyone do). The identifiers stay distinct.\<close>

theorem files_change_by_right:
  assumes "route E B R q s = Some (r, s')" and "distinct (map fst (files_of s))"
  shows "distinct (map fst (files_of s')) \<and> (files_of s' = files_of s \<or>
     (\<exists>u. session_user E R s = Some u \<and> u \<noteq> id_raw RECOVERY_ID \<and>
        (\<forall>i. map_of (files_of s') i \<noteq> map_of (files_of s) i \<longrightarrow>
           permitted u (map_of (files_of s) i) (map_of (files_of s') i))))"
proof -
  from dispatch_by_user [of E R B q] assms(1) have "files_of s' = files_of s \<or>
     (\<exists>u. session_user E R s = Some u \<and> u \<noteq> id_raw RECOVERY_ID \<and> allowed u (files_of s) (files_of s'))"
    unfolding by_user_def route_Some by blast
  with assms(2) show ?thesis unfolding allowed_def by (metis (no_types, lifting))
qed

theorem files_change_by_right_witness:
  "\<exists>s'. route env0 memory_serving ctx0 (DeleteFile (hex_encode file0)) (app0 owner0) = Some (bare 204, s') \<and>
     map_of (files_of s') file0 = None \<and> distinct (map fst (files_of s'))"
proof -
  obtain f where f: "map_of (in_files server0) file0 = Some f" "fe_owner_id f = owner0" "fe_current_version f = 1"
    using server0 by blast
  let ?st = "store_of (app0 owner0)"
  have d: "discard_unfinalized file0 owner0 ?st = (Inl HasFinalizedVersion, ?st)"
    using f by (simp add: discard_unfinalized_def)
  obtain refs st' where st': "delete_file file0 owner0 ?st = (Inr refs, st')" "map_of (in_files st') file0 = None"
  proof (cases "delete_file file0 owner0 ?st")
    case (Pair x st')
    then show ?thesis
    proof (cases rule: delete_file_cases)
      case refused
      then show ?thesis using f by simp
    next
      case (deleted g)
      then have "map_of (in_files st') file0 = None" 
        by (simp add: delete_fold) (simp add: doomed_files_def)
      then show ?thesis using that Pair deleted(3) by blast
    qed
  qed
  have on: "on_store (discard_unfinalized file0 owner0) (app0 owner0) = Some (Inr (Inl HasFinalizedVersion), app0 owner0)"
    using d by (simp add: on_store_def store_of_def)
  have on': "on_store (delete_file file0 owner0) (app0 owner0) =
      Some (Inr (Inr refs), (app0 owner0)\<lparr>ap_auth := (ap_auth (app0 owner0))\<lparr>av_store := st'\<rparr>\<rparr>)"
    using st'(1) by (simp add: on_store_def store_of_def)
  obtain s' where r: "route env0 memory_serving ctx0 (DeleteFile (hex_encode file0)) (app0 owner0) = Some (bare 204, s')"
    and "files_of s' = in_files st'"
    by (simp add: route_def http_discard_file_def hbind_def authed0 hex_round_trip require_def hret_def on on'
        on_teardown_def panics_def files_of_def store_of_def)
  then show ?thesis using files_change_by_right [OF r] distinct0 st'(2) by auto
qed

end
