(* ===== verification/HttpReads_Laws.thy ===== *)
theory HttpReads_Laws
  imports HttpFiles_Laws
begin

text \<open>
  What the reading routes give away: chunks only to readers, and nothing at all about a file to a stranger.
\<close>

section \<open>Chunks are read by right\<close>

text \<open>The owner, or whoever holds a wrap of that finalized version.\<close>

definition may_read :: "bytes \<Rightarrow> bytes \<Rightarrow> u64 \<Rightarrow> inner \<Rightarrow> bool" where
  "may_read u i w st \<longleftrightarrow> (\<exists>f ver. map_of (in_files st) i = Some f \<and> map_of (fe_versions f) w = Some ver \<and>
     (fe_owner_id f = u \<or> ve_finalized ver \<and> u \<in> wi_recipient_id ` set (ve_wraps ver)))"

lemma get_file_reads: "get_file i (SpecificVersion w) u st = Some view \<Longrightarrow> may_read u i w st"
  using find_wrap_Some [of u]
  by (fastforce simp: get_file_def may_read_def wrap_for_def Let_def image_iff split: option.splits if_splits)

definition staged_slot :: "bytes \<Rightarrow> u64 \<Rightarrow> chunk_slot \<Rightarrow> inner \<Rightarrow> bool" where
  "staged_slot i w slot st \<longleftrightarrow> (\<exists>m. version_meta i w st = Some m \<and> slot \<in> set (vm_streams m))"

lemma meta_Some: "the_meta R i w s = Some (Inr found, s') \<longleftrightarrow>
    hx_file_faults R (CallMeta w) = None \<and> s' = s \<and> found = version_meta i w (store_of s)"
  by (auto simp: the_meta_def hbind_def backend_def halt_def hret_def from_store_def reads_def store_of_def split: option.splits)

lemma owner_meta:
  "version_meta i w st = Some m \<Longrightarrow> vm_owner_id m = u \<Longrightarrow> may_read u i w st"
  by (auto simp: version_meta_def may_read_def split: option.splits)

lemma readable_slot_Some:
  assumes "readable_slot R u i w t s = Some (Inr slot, s')"
  shows "s' = s \<and> may_read u i w (store_of s) \<and> staged_slot i w slot (store_of s) \<and> cs_stream_type slot = t"
  using assms
  by (auto simp: readable_slot_def hbind_eq_Some meta_Some require_def hret_def halt_def ensure_def backend_def
      from_store_def reads_def staged_slot_def store_of_def find_Some_iff
      split: option.splits if_splits intro: owner_meta get_file_reads dest: nth_mem)

lemma session_Some:
  "recovery_ok_session E R s = Some (Inr (u, t), s') \<Longrightarrow> s' = s \<and> session_user E R s = Some u"
  unfolding recovery_ok_session_def by (rule resolve_user)

lemma chunk_path_Some:
  assumes "chunk_path_of p s = Some (Inr (i, w, t, ix), s')"
  shows "s' = s \<and> hex_fixed 16 (pa_file_id p) = Some i \<and> parse_u64 (pa_version p) = Some w \<and>
    stream_type_code (pa_stream_type p) = Some t \<and> parse_u64 (pa_index p) = Some ix"
  using assms
  by (auto simp: chunk_path_of_def hbind_eq_Some require_def hret_def halt_def split: option.splits)

text \<open>No handler answers early with a body of octets.\<close>

definition no_octets :: "('s, 'a) serve \<Rightarrow> bool" where
  "no_octets m \<longleftrightarrow> (\<forall>s r s'. m s = Some (Inl r, s') \<longrightarrow> (\<forall>bs. hr_body r \<noteq> Octets bs))"

lemma no_octets_hbind [preserving]: "no_octets m \<Longrightarrow> (\<And>x. no_octets (f x)) \<Longrightarrow> no_octets (hbind m f)"
  unfolding no_octets_def hbind_eq_Some by blast

lemma body_simps [simp]: "hr_body (bare c) = NoBody" "hr_body (with_body c b) = b" "hr_body internal_error = NoBody"
  by (simp_all add: bare_def with_body_def internal_error_def)

lemma no_octets_basic [preserving]:
  "no_octets (hret x)" "no_octets (require o' (bare c))" "no_octets (ensure b (bare c))" "no_octets (backend R call)"
  "no_octets (reads g)" "no_octets (halt (bare c))"
  by (auto simp: no_octets_def hret_def require_def ensure_def backend_def reads_def halt_def split: option.splits if_splits)

lemma no_octets_on [preserving]: "no_octets (from_store g)" "no_octets (on_blobs h)"
  by (auto simp: no_octets_def from_store_def reads_def on_blobs_def split: prod.splits sum.splits)

lemma no_octets_session: "no_octets (recovery_ok_session E R)"
  unfolding recovery_ok_session_def resolve_session_def
  by (auto intro!: preserving split: sum.splits auth_error.splits)

lemma no_octets_chunk:
  "no_octets (chunk_path_of p)" "no_octets (readable_slot R u i w t)"
proof -
  show "no_octets (chunk_path_of p)" unfolding chunk_path_of_def by (intro preserving)
  show "no_octets (readable_slot R u i w t)" unfolding readable_slot_def the_meta_def
    by (auto intro!: preserving)
qed

lemma on_blobs_Some:
  "on_blobs h s = Some (Inr x, s') \<longleftrightarrow> fst (h (ap_blobs s)) = Inr x \<and> s' = s\<lparr>ap_blobs := snd (h (ap_blobs s))\<rparr>"
  by (auto simp: on_blobs_def split: prod.splits sum.splits)

text \<open>C19: A chunk leaves the server only for its readers: if a chunk download answers with octets, then the session on
  this TLS connection belongs to a user who owns the file of the path or holds a wrap of that version, which is then
  finalized; the octets are what the blob store has under the reference of the named stream of that very version at
  that index, and nothing but the blob store (its cache) may have changed.\<close>

theorem chunk_reads_by_right:
  assumes "route E B R (GetChunk p) s = Some (r, s')" and "hr_body r = Octets bs"
  shows "\<exists>u i w t ix slot. session_user E R s = Some u \<and> hex_fixed 16 (pa_file_id p) = Some i \<and>
     parse_u64 (pa_version p) = Some w \<and> stream_type_code (pa_stream_type p) = Some t \<and> parse_u64 (pa_index p) = Some ix \<and>
     may_read u i w (store_of s) \<and> staged_slot i w slot (store_of s) \<and> cs_stream_type slot = t \<and>
     fst (op_get B (cs_blob_ref slot) ix (ap_blobs s)) = Inr (Some bs) \<and>
     s' = s\<lparr>ap_blobs := snd (op_get B (cs_blob_ref slot) ix (ap_blobs s))\<rparr>"
proof -
  obtain x where x: "http_get_chunk E B R p s = Some (x, s')" "r = response_of x"
    using assms(1) by (auto simp: route_Some)
  have unhalted: "no_octets (http_get_chunk E B R p)"
    unfolding http_get_chunk_def by (auto intro!: preserving no_octets_session no_octets_chunk split: prod.splits)
  obtain y where y: "x = Inr y"
    using x unhalted assms(2) unfolding no_octets_def response_of_def by (cases x) auto
  from x(1) [unfolded y http_get_chunk_def] obtain u t i w st ix slot found s1 s2 s3 s4 where
    1: "recovery_ok_session E R s = Some (Inr (u, t), s1)" and 2: "chunk_path_of p s1 = Some (Inr (i, w, st, ix), s2)" and
    3: "readable_slot R u i w st s2 = Some (Inr slot, s3)" and
    4: "on_blobs (op_get B (cs_blob_ref slot) ix) s3 = Some (Inr found, s4)" and
    5: "found = Some bs" "s' = s4"
    using x(2) y assms(2)
    by (auto simp: hbind_eq_Some response_of_def require_def hret_def halt_def split: prod.splits option.splits)
  note 1 = session_Some [OF 1] and 2 = chunk_path_Some [OF 2] and 3 = readable_slot_Some [OF 3]
  then show ?thesis using 4 5 unfolding on_blobs_Some by blast
qed

lemma server0_files:
  "\<exists>f e. in_files server0 = [(file0, f)] \<and> map_of (fe_versions f) 1 = Some e \<and> fe_owner_id f = owner0 \<and>
     ve_streams e = ps_streams parsed0"
proof -
  obtain g where g: "ps_genesis parsed0 = Some g" "gw_owner_id g = owner0" using parsed0_simps(5) by blast
  have "in_files (snd (stage_version parsed0 5 store_new)) =
      [(file0, \<lparr>fe_owner_id = owner0, fe_file_type = ps_file_type parsed0,
        fe_listed = ps_listed parsed0, fe_bundle_id = ps_bundle_id parsed0, fe_current_version = 0,
        fe_updated_at_ms = 5, fe_genesis_bytes = gw_genesis_bytes g, fe_genesis_sig = gw_genesis_sig g,
        fe_versions = [(1, \<lparr>ve_manifest_bytes = ps_manifest_bytes parsed0,
          ve_manifest_sig = ps_manifest_sig parsed0, ve_finalized = False,
          ve_streams = ps_streams parsed0, ve_wraps = [self_wrap0, recovery_wrap0]\<rparr>)]\<rparr>)]"
    using no_half0 g by (simp add: stage_version_def store_new_def Let_def put_version_def)
  then show ?thesis
    by (simp add: server0_def requests0_def store_run_def parsed0 finalize_version_def Let_def put_version_def)
qed

lemma parse_stage_streams:
  assumes "parse_stage input = Inr p" and "decode TYPE_MANIFEST put_manifest get_manifest (si_manifest_bytes input) = Inr m"
  shows "ps_streams p = map (stream_row_of input m) (ma_streams m)"
  using assms by (auto simp: parse_stage_def rbind_eq_Inr map_err_eq_Inr Let_def split: if_splits)

lemma streams0: "ps_streams parsed0 = map (stream_row_of stage0 manifest0) (ma_streams manifest0)"
  by (rule parse_stage_streams [OF parsed0]) (simp add: stage0_def manifest.decode_encode ok_manifest0)

definition slot0 :: chunk_slot where
  "slot0 = (let r = stream_row_of stage0 manifest0 (hd (ma_streams manifest0)) in
     \<lparr>cs_stream_type = sr_stream_type r, cs_blob_ref = sr_blob_ref r, cs_chunk_count = sr_chunk_count r,
      cs_chunk_size = sr_chunk_size r\<rparr>)"

lemma slots0: "map (\<lambda>r. \<lparr>cs_stream_type = sr_stream_type r, cs_blob_ref = sr_blob_ref r,
     cs_chunk_count = sr_chunk_count r, cs_chunk_size = sr_chunk_size r\<rparr>) (ps_streams parsed0) = [slot0]"
  by (simp add: streams0 slot0_def manifest0_def Let_def)

lemma meta0: "\<exists>m. version_meta file0 1 (store_of (app0 owner0)) = Some m \<and> vm_owner_id m = owner0 \<and> vm_streams m = [slot0]"
proof -
  obtain f e where "in_files server0 = [(file0, f)]" "map_of (fe_versions f) 1 = Some e" "fe_owner_id f = owner0"
    "ve_streams e = ps_streams parsed0" using server0_files by blast
  then show ?thesis using slots0 by (simp add: version_meta_def)
qed

definition chunk_app0 :: "memory_store app_state" where
  "chunk_app0 = (app0 owner0)\<lparr>ap_blobs := [(cs_blob_ref slot0, [(0, [42])])]\<rparr>"

definition chunk_path0 :: chunk_path_args where
  "chunk_path0 = \<lparr>pa_file_id = hex_encode file0, pa_version = ''1'', pa_stream_type = ''content'', pa_index = ''0''\<rparr>"

lemma session_blobs:
  "resolve_session E R s = Some (Inr x, s) \<Longrightarrow> resolve_session E R (s\<lparr>ap_blobs := b\<rparr>) = Some (Inr x, s\<lparr>ap_blobs := b\<rparr>)"
  by (auto simp: resolve_session_def hbind_def require_def hret_def halt_def reads_def
      split: option.splits sum.splits auth_error.splits)

lemma parse0: "parse_u64 ''1'' = Some 1" "parse_u64 ''0'' = Some 0"
  by (simp_all add: parse_u64_def parse_nat_def undec_def is_dec_digit_def ascii_code_def)

lemma chunk_path0: "chunk_path_of chunk_path0 s = Some (Inr (file0, 1, 1, 0), s)"
  by (simp add: chunk_path_of_def chunk_path0_def parse0 hbind_def require_def hret_def hex_round_trip stream_type_code_def)

lemma slot0: "cs_stream_type slot0 = 1"
  by (simp add: slot0_def manifest0_def stream_row_of_def Let_def)

lemma readable0: "readable_slot ctx0 owner0 file0 1 1 chunk_app0 = Some (Inr slot0, chunk_app0)"
proof -
  obtain m where m: "version_meta file0 1 (store_of (app0 owner0)) = Some m" "vm_owner_id m = owner0" "vm_streams m = [slot0]"
    using meta0 by blast
  have "the_meta ctx0 file0 1 chunk_app0 = Some (Inr (Some m), chunk_app0)"
    unfolding meta_Some using m(1) by (simp add: ctx0_def chunk_app0_def store_of_def)
  then show ?thesis using m(2,3) slot0
    by (simp add: readable_slot_def hbind_def require_def hret_def ensure_def)
qed

theorem chunk_reads_by_right_witness:
  "\<exists>s'. route env0 memory_serving ctx0 (GetChunk chunk_path0) chunk_app0 = Some (with_body 200 (Octets [42]), s') \<and>
     s' = chunk_app0 \<and> session_user env0 ctx0 chunk_app0 = Some owner0"
proof -
  have "recovery_ok_session env0 ctx0 chunk_app0 = Some (Inr (owner0, replicate 32 1), chunk_app0)"
    unfolding recovery_ok_session_def chunk_app0_def by (rule session_blobs) simp
  moreover have "on_blobs (op_get memory_serving (cs_blob_ref slot0) 0) chunk_app0 = Some (Inr (Some [42]), chunk_app0)"
    by (simp add: on_blobs_Some memory_serving_def memory_ops_def mem_get_def chunk_app0_def)
  ultimately have r: "route env0 memory_serving ctx0 (GetChunk chunk_path0) chunk_app0 = Some (with_body 200 (Octets [42]), chunk_app0)"
    by (simp add: route_def http_get_chunk_def hbind_def chunk_path0 readable0 require_def hret_def)
  then show ?thesis using chunk_reads_by_right [OF r, of "[42]"] resolve_user [of env0 ctx0 chunk_app0]
      session_blobs [OF session0 [of owner0], of "ap_blobs chunk_app0"]
    by (auto simp: chunk_app0_def)
qed

section \<open>Missing and forbidden look the same\<close>

definition without :: "bytes \<Rightarrow> 'b app_state \<Rightarrow> 'b app_state" where
  "without i s = s\<lparr>ap_auth := (ap_auth s)\<lparr>av_store := (store_of s)\<lparr>in_files := AList.delete i (files_of s)\<rparr>\<rparr>\<rparr>"

definition hidden :: "bytes \<Rightarrow> bytes \<Rightarrow> inner \<Rightarrow> bool" where
  "hidden u i st \<longleftrightarrow> (\<forall>f. map_of (in_files st) i = Some f \<longrightarrow> fe_owner_id f \<noteq> u \<and>
     (\<forall>w ver. map_of (fe_versions f) w = Some ver \<longrightarrow> ve_finalized ver \<longrightarrow> u \<notin> wi_recipient_id ` set (ve_wraps ver)))"

text \<open>The requests about the file \<open>i\<close> that answer a stranger as if it did not exist.\<close>

fun probes :: "bytes \<Rightarrow> http_request \<Rightarrow> bool" where
  "probes i (GetFile f _) \<longleftrightarrow> hex_fixed 16 f = Some i"
| "probes i (GetChunk p) \<longleftrightarrow> hex_fixed 16 (pa_file_id p) = Some i"
| "probes i (GetChunkStatus p) \<longleftrightarrow> hex_fixed 16 (pa_file_id p) = Some i"
| "probes i (PostDirectLink p) \<longleftrightarrow> hex_fixed 16 (pa_file_id p) = Some i"
| "probes i (GetRecipients f) \<longleftrightarrow> hex_fixed 16 f = Some i"
| "probes i (PostWraps f _) \<longleftrightarrow> hex_fixed 16 f = Some i"
| "probes i _ \<longleftrightarrow> False"

lemma hidden_file: "hidden u i st \<Longrightarrow> get_file i sel u st = None"
  by (auto simp: hidden_def get_file_def wrap_for_def Let_def split: option.splits) (metis find_wrap_Some imageI)

lemma hidden_recipients: "hidden u i st \<Longrightarrow> list_recipients i u st = None"
  by (auto simp: hidden_def list_recipients_def split: option.splits)

lemma hidden_meta: "hidden u i st \<Longrightarrow> version_meta i w st = Some m \<Longrightarrow> vm_owner_id m \<noteq> u"
  by (auto simp: hidden_def version_meta_def split: option.splits)

lemma hidden_add_wrap:
  "hidden u i st \<Longrightarrow> add_wrap i w u t st = (Inl (if wi_granted_by w \<noteq> u \<or> wi_recipient_type w \<noteq> 1 \<or>
     wi_recipient_id w = id_raw RECOVERY_ID then BadRequest else NoAccess), st)"
  by (auto simp: hidden_def add_wrap_def Let_def list_ex_recipient split: option.splits)

lemma hidden_without: "hidden u i (store_of (without i s))"
  by (simp add: hidden_def without_def store_of_def AList.delete_conv')

text \<open>The response alone, computed along the handler.\<close>

definition resp :: "('s, response) serve \<Rightarrow> 's \<Rightarrow> response option" where
  "resp m s = map_option (\<lambda>(x, _). response_of x) (m s)"

lemma resp_hret [simp]: "resp (hret r) s = Some r" "resp (halt r) s = Some r"
  by (simp_all add: resp_def hret_def halt_def response_of_def)

lemma resp_assoc [simp]: "resp (hbind (hbind m g) h) s = resp (hbind m (\<lambda>x. hbind (g x) h)) s"
  by (simp add: resp_def hbind_def split: option.splits sum.splits prod.splits)

lemma resp_then [simp]: "resp (hbind (hret x) f) s = resp (f x) s"
  by (simp add: resp_def hbind_def hret_def)

lemma resp_require [simp]: "resp (hbind (require o' r) f) s = (case o' of None \<Rightarrow> Some r | Some v \<Rightarrow> resp (f v) s)"
  by (simp add: resp_def hbind_def hret_def halt_def require_def response_of_def split: option.splits)

lemma resp_ensure [simp]: "resp (hbind (ensure b r) f) s = (if b then resp (f ()) s else Some r)"
  by (simp add: resp_def hbind_def hret_def halt_def ensure_def response_of_def)

lemma resp_backend [simp]:
  "resp (hbind (backend R c) f) s = (if hx_file_faults R c = None then resp (f ()) s else Some internal_error)"
  by (auto simp: resp_def hbind_def hret_def halt_def backend_def response_of_def split: option.splits)

lemma resp_from_store [simp]: "resp (hbind (from_store g) f) s = resp (f (g (store_of s))) s"
  by (simp add: resp_def hbind_def from_store_def reads_def store_of_def)

lemma resp_if: "resp (hbind (if c then m else m') f) s = (if c then resp (hbind m f) s else resp (hbind m' f) s)"
  by simp

lemma resp_readable:
  assumes "hidden u i (store_of s)" and "hx_file_faults R CallGetFile = None"
  shows "resp (hbind (readable_slot R u i w t) f) s =
     Some (if hx_file_faults R (CallMeta w) = None then bare 404 else internal_error)"
  using assms hidden_meta [OF assms(1)] hidden_file [OF assms(1)]
  by (auto simp: readable_slot_def the_meta_def resp_if split: option.splits)

lemma resp_session:
  assumes "session_user E R s = Some u"
  shows "\<exists>t. session_header R = Some t \<and> (\<forall>f. resp (hbind (recovery_ok_session E R) f) s = resp (f (u, t)) s) \<and>
     (\<forall>f. resp (hbind (authed_session E R) f) s = (if u = id_raw RECOVERY_ID then Some (bare 403) else resp (f u) s))"
proof -
  obtain t where t: "resolve_session E R s = Some (Inr (u, t), s)" "session_header R = Some t"
  proof -
    obtain e t where "hx_exporter R = Some e" "session_header R = Some t"
      "validate_session (hv_prims E) (hx_auth_faults R) t e (hx_clock R AtSession) (ap_auth s) = Inr u"
      using assms unfolding session_user_def bind_eq_Some_conv
      by (metis (no_types, lifting) sum.case_eq_if option.distinct(1) option.inject sum.collapse(2))
    then show ?thesis by (intro that [of t]) (simp_all add: resolve_session_def hbind_def require_def hret_def reads_def)
  qed
  then show ?thesis
    by (auto simp: recovery_ok_session_def authed_session_def resp_def hbind_def halt_def hret_def response_of_def)
qed

lemma session_without: "session_user E R (without i s) = session_user E R s"
proof -
  have "validate_session P fl t e n (ap_auth (without i s)) = validate_session P fl t e n (ap_auth s)" for P fl t e n
    by (auto simp: validate_session_def without_def store_of_def get_session_def split: option.splits)
  then show ?thesis by (simp add: session_user_def)
qed

text \<open>What such a request answers does not depend on the state.\<close>

lemma resp_hidden:
  assumes "session_user E R s = Some u" and "hidden u i (store_of s)" and "probes i q"
    and "hx_file_faults R CallGetFile = None"
    and "session_user E R s' = Some u" and "hidden u i (store_of s')"
  shows "resp (dispatch E B R q) s' = resp (dispatch E B R q) s"
proof -
  obtain t where t: "session_header R = Some t"
    and s: "\<And>f. resp (hbind (recovery_ok_session E R) f) s = resp (f (u, t)) s"
    "\<And>f. resp (hbind (authed_session E R) f) s = (if u = id_raw RECOVERY_ID then Some (bare 403) else resp (f u) s)"
    and s': "\<And>f. resp (hbind (recovery_ok_session E R) f) s' = resp (f (u, t)) s'"
    "\<And>f. resp (hbind (authed_session E R) f) s' = (if u = id_raw RECOVERY_ID then Some (bare 403) else resp (f u) s')"
    using resp_session [OF assms(1)] resp_session [OF assms(5)] by force
  note simps = s s' resp_readable [OF assms(2,4)] resp_readable [OF assms(6,4)] hidden_file [OF assms(2)]
    hidden_file [OF assms(6)] hidden_recipients [OF assms(2)] hidden_recipients [OF assms(6)]
  have add: "resp (hbind (on_store (add_wrap i w u c)) f) s =
      resp (f (Inl (if wi_granted_by w \<noteq> u \<or> wi_recipient_type w \<noteq> 1 \<or> wi_recipient_id w = id_raw RECOVERY_ID
         then BadRequest else NoAccess))) s"
    if "hidden u i (store_of s)" for s :: "'a app_state" and w c f
    using hidden_add_wrap [OF that] by (simp add: resp_def hbind_def on_store_def store_of_def)
  show ?thesis
  proof (cases q)
    case (GetFile f v)
    then show ?thesis using assms(3) by (simp add: http_get_file_def simps assms(4) split: option.splits)
  next
    case (GetRecipients f)
    then show ?thesis using assms(3) by (simp add: http_list_recipients_def simps split: option.splits)
  next
    case (GetChunk p)
    then show ?thesis using assms(3) by (simp add: http_get_chunk_def chunk_path_of_def simps split: option.splits)
  next
    case (GetChunkStatus p)
    then show ?thesis using assms(3) by (simp add: http_chunk_status_def chunk_path_of_def simps split: option.splits)
  next
    case (PostDirectLink p)
    then show ?thesis using assms(3) by (simp add: http_direct_link_def simps split: option.splits)
  next
    case (PostWraps f w)
    then show ?thesis using assms(3) by (simp add: http_add_wrap_def simps add [OF assms(2)] add [OF assms(6)] split: option.splits)
  qed (use assms(3) in simp_all)
qed

text \<open>C20: No access oracle: someone who neither owns a file nor holds a wrap in one of its finalized versions gets, from
  the download routes (the file, its chunks, their status and links, its readers) and from the re-share route, exactly
  the response that a server without that file would give. So these routes do not even tell that the file exists.\<close>

theorem missing_and_forbidden_alike:
  assumes "session_user E R s = Some u" and "hidden u i (store_of s)" and "probes i q"
    and "hx_file_faults R CallGetFile = None"
  shows "map_option fst (route E B R q s) = map_option fst (route E B R q (without i s))"
proof -
  have "resp (dispatch E B R q) (without i s) = resp (dispatch E B R q) s"
    using resp_hidden [OF assms] session_without [of E R i s] assms(1) hidden_without by metis
  moreover have "map_option fst (route E B R q s) = resp (dispatch E B R q) s" for s
    by (simp add: route_def resp_def response_of_def option.map_comp comp_def split_def)
  ultimately show ?thesis by simp
qed

theorem missing_and_forbidden_alike_witness:
  "map_option fst (route env0 memory_serving ctx0 (GetFile (hex_encode file0) None) (app0 (replicate 16 9))) =
     map_option fst (route env0 memory_serving ctx0 (GetFile (hex_encode file0) None) (without file0 (app0 (replicate 16 9))))"
proof (rule missing_and_forbidden_alike [OF user0])
  obtain f e where f: "map_of (in_files server0) file0 = Some f" "fe_owner_id f = owner0" "fe_current_version f = 1"
    "map_of (fe_versions f) 1 = Some e" "ve_wraps e = [self_wrap0, recovery_wrap0]" using server0 by blast
  have "file_ok (length requests0) f"
    by (rule files_ok_file [OF files_ok_run [of requests0 "\<lambda>x. x"]]) (use f(1) in \<open>simp_all add: server0_def requests0_def\<close>)
  then have one: "version_finalized f w \<longleftrightarrow> w = 1" for w
    using f(3) by (metis file_ok_def order_antisym order_refl)
  have "ve = e" if v: "map_of (fe_versions f) w = Some ve" "ve_finalized ve" for w ve
  proof -
    have "version_finalized f w" using v by (simp add: version_finalized_def)
    then show ?thesis using one v f(4) by simp
  qed
  then show "hidden (replicate 16 9) file0 (store_of (app0 (replicate 16 9)))"
    using f by (fastforce simp: hidden_def self_wrap0_recipient recovery_wrap0_recipient RECOVERY_ID_def
        replicate_eq_replicate)
  show "probes file0 (GetFile (hex_encode file0) None)" by (simp add: hex_round_trip)
  show "hx_file_faults ctx0 CallGetFile = None" by (simp add: ctx0_def)
qed

end
