(* ===== verification/HttpListing_Laws.thy ===== *)
theory HttpListing_Laws
  imports HttpReads_Laws
begin

text \<open>
  The listing route: a cursor comes back as the offset it was made from, and a client that follows \<open>next_cursor\<close> is through
  after finitely many pages and has seen every entry once.
\<close>

section \<open>Cursors come back\<close>

lemma split_on_append: "c \<notin> set p \<Longrightarrow> split_on c (p @ c # r) = p # split_on c r"
  by (induction p) auto

lemma split_on_single: "c \<notin> set p \<Longrightarrow> split_on c p = [p]"
  by (induction p) auto

lemma dec_digits: "list_all is_dec_digit (dec n) \<and> dec n \<noteq> []"
proof (induction n rule: dec.induct)
  case (1 n)
  have d: "is_dec_digit (digit_char k)" if "k < 10" for k
    using digit_char_code [OF that] that by (simp add: is_dec_digit_def ascii_code_def)
  show ?case
  proof (cases "n < 10")
    case True
    then show ?thesis using d [of n] by (simp add: dec.simps)
  next
    case False
    then show ?thesis using 1 d [of "n mod 10"] by (subst dec.simps) (simp add: dec.simps [of n])
  qed
qed

lemma parse_nat_dec: "n < bound \<Longrightarrow> parse_nat bound (dec n) = Some n"
proof -
  assume n: "n < bound"
  have "hd (dec n) \<noteq> CHR ''+''"
  proof
    assume "hd (dec n) = CHR ''+''"
    moreover have "is_dec_digit (hd (dec n))" using dec_digits [of n] by (cases "dec n") auto
    ultimately show False by (simp add: is_dec_digit_def ascii_code_def)
  qed
  then show ?thesis using n dec_digits [of n] by (simp add: parse_nat_def undec_dec)
qed

lemma unat_of_char: "unat (of_char c :: byte) = of_char c"
proof -
  have "(of_char c :: byte) = word_of_nat (of_char c)" by (simp only: of_nat_of_char)
  then show ?thesis by (simp add: unat_of_nat del: of_nat_of_char)
qed

definition ascii_text :: "string \<Rightarrow> bool" where
  "ascii_text s \<longleftrightarrow> list_all (\<lambda>c. ascii_code c < 128) s"

lemma ascii_utf8: "ascii_text s \<Longrightarrow> utf8_valid (str_bytes s)"
proof (induction s)
  case (Cons c s)
  have "(of_char c :: byte) < 0x80"
    using Cons.prems by (simp add: ascii_text_def ascii_code_def word_less_nat_alt unat_of_char)
  then show ?case using Cons by (simp add: str_bytes_def ascii_text_def utf8_valid.simps)
qed (simp add: str_bytes_def utf8_valid.simps)

lemma string_bytes_string: "bytes_string (str_bytes s) = s"
  by (induction s) (simp_all add: bytes_string_def str_bytes_def unat_of_char)

lemma digit_facts: "is_dec_digit c \<Longrightarrow> ascii_code c < 128 \<and> c \<noteq> CHR ''|''"
  by (auto simp: is_dec_digit_def ascii_code_def)

lemma hex_no_bar: "CHR ''|'' \<notin> set (hex_encode b)"
proof (induction b)
  case (Cons x b)
  have "digit_char k \<noteq> CHR ''|''" if "k < 16" for k
    using hex_digit_char [OF that] by (auto simp: hex_digit_def ascii_code_def)
  moreover have "unat x div 16 < 16" using unat_byte_less [of x] by (simp add: less_mult_imp_div_less)
  ultimately show ?case using Cons by (auto simp: hex_encode_def hex2_def dest: sym)
qed (simp add: hex_encode_def)

lemma cursor_fp_plain: "ascii_text (cursor_fp E t srt o') \<and> CHR ''|'' \<notin> set (cursor_fp E t srt o')"
  using hex_encode_ascii hex_no_bar
  by (auto simp: cursor_fp_def Let_def ascii_text_def list_all_iff dest!: in_set_takeD)

lemma cursor_round_trip:
  assumes "hv_url_dec E (hv_url_enc E (str_bytes (''1|'' @ dec (unat n) @ ''|'' @ fp))) = Some (str_bytes (''1|'' @ dec (unat n) @ ''|'' @ fp))"
    and "unat n < 2 ^ 32" and "ascii_text fp" and "CHR ''|'' \<notin> set fp"
  shows "decode_cursor E (encode_cursor E n fp) fp = Inr n"
proof -
  let ?s = "''1|'' @ dec (unat n) @ ''|'' @ fp"
  have bar: "CHR ''|'' \<notin> set (dec (unat n))" and "ascii_text (dec (unat n))"
    using dec_digits [of "unat n"] digit_facts by (auto simp: list_all_iff ascii_text_def)
  then have "ascii_text ?s" using assms(3) by (simp add: ascii_text_def ascii_code_def)
  moreover have "split_on CHR ''|'' ?s = [''1'', dec (unat n), fp]"
    using split_on_append [of "CHR ''|''" "''1''"] split_on_append [OF bar] split_on_single [OF assms(4)] by simp
  ultimately show ?thesis
    using assms(1,2) ascii_utf8 [of ?s]
    by (simp add: decode_cursor_def encode_cursor_def CURSOR_V_def ok_or_def string_bytes_string parse_nat_dec)
qed


section \<open>Walking through the listing\<close>

text \<open>The client: ask for a page, and for the next one as long as there is a cursor; \<open>None\<close> when a request fails or
  the pages do not end within the fuel.\<close>

fun walk :: "http_env \<Rightarrow> ('b, 'm) serving_ops_scheme \<Rightarrow> http_ctx \<Rightarrow> nat \<Rightarrow> list_query \<Rightarrow> 'b app_state
    \<Rightarrow> list_entry_res list option" where
  "walk E B R 0 q s = None"
| "walk E B R (Suc n) q s = (case route E B R (GetFiles q) s of
       Some (r, s') \<Rightarrow> (case hr_body r of
           JList es None all \<Rightarrow> if hr_status r = 200 then Some es else None
         | JList es (Some c) all \<Rightarrow>
             if hr_status r = 200 then map_option (\<lambda>rest. es @ rest) (walk E B R n (q\<lparr>lq_cursor := Some c\<rparr>) s') else None
         | _ \<Rightarrow> None)
     | None \<Rightarrow> None)"

text \<open>Everything the caller is to see, in order.\<close>

definition visible :: "bytes \<Rightarrow> i16 option \<Rightarrow> list_sort \<Rightarrow> bool \<Rightarrow> inner \<Rightarrow> file_list_entry list" where
  "visible u ft srt mine st = listing \<lparr>lf_file_type = ft, lf_limit = 0, lf_offset = 0, lf_sort = srt,
     lf_owner_only = mine, lf_caller_id = u\<rparr> st"

definition page_limit :: "list_query \<Rightarrow> nat" where
  "page_limit q = min (case lq_limit q of Some l \<Rightarrow> l | None \<Rightarrow> 50) 200"

definition asks :: "list_query \<Rightarrow> i16 option \<Rightarrow> list_sort \<Rightarrow> bool \<Rightarrow> bool" where
  "asks q ft srt mine \<longleftrightarrow> parse_sort (lq_sort q) = Some srt \<and> parse_owner (lq_owner q) = Some mine \<and>
     map_option file_type_code (lq_file_type q) = map_option Some ft"

lemma list_files_visible:
  "list_files \<lparr>lf_file_type = ft, lf_limit = l, lf_offset = k, lf_sort = srt, lf_owner_only = mine, lf_caller_id = u\<rparr> st =
     \<lparr>fp_entries = take l (drop (unat k) (visible u ft srt mine st)), fp_total = word_of_nat (length (visible u ft srt mine st))\<rparr>"
proof -
  have "listed_for \<lparr>lf_file_type = ft, lf_limit = l, lf_offset = k, lf_sort = srt, lf_owner_only = mine, lf_caller_id = u\<rparr> =
      listed_for \<lparr>lf_file_type = ft, lf_limit = 0, lf_offset = 0, lf_sort = srt, lf_owner_only = mine, lf_caller_id = u\<rparr>"
    by (rule ext) (auto simp: listed_for_def split: option.splits)
  then show ?thesis by (simp add: list_files_window visible_def listing_def)
qed

lemma list_route:
  assumes "session_user E R s = Some u" and "asks q ft srt mine" and "hx_file_faults R CallList = None"
    and "parse_offset E (cursor_fp E ft srt mine) q = Inr k"
  shows "route E B R (GetFiles q) s = Some (with_body 200 (list_response E (cursor_fp E ft srt mine) k
     \<lparr>fp_entries = take (page_limit q) (drop (unat k) (visible u ft srt mine (store_of s))),
      fp_total = word_of_nat (length (visible u ft srt mine (store_of s)))\<rparr>), s)"
proof -
  have ft: "lq_file_type q = None \<and> ft = None \<or> (\<exists>t c. lq_file_type q = Some t \<and> file_type_code t = Some c \<and> ft = Some c)"
    using assms(2) by (cases "lq_file_type q"; cases ft) (auto simp: asks_def)
  obtain t where "resolve_session E R s = Some (Inr (u, t), s)"
  proof -
    obtain e t where "hx_exporter R = Some e" "session_header R = Some t"
      "validate_session (hv_prims E) (hx_auth_faults R) t e (hx_clock R AtSession) (ap_auth s) = Inr u"
      using assms(1) unfolding session_user_def bind_eq_Some_conv
      by (metis (no_types, lifting) sum.case_eq_if option.distinct(1) option.inject sum.collapse(2))
    then show ?thesis by (intro that [of t]) (simp_all add: resolve_session_def hbind_def require_def hret_def reads_def)
  qed
  then show ?thesis
    using ft assms(2-4)
    by (auto simp: route_def http_list_files_def hbind_def recovery_ok_session_def asks_def require_def hret_def backend_def
        from_store_def reads_def list_files_visible page_limit_def store_of_def)
qed

lemma next_offset:
  assumes "k + j < 2 ^ 32"
  shows "saturating_add (word_of_nat k) (word_of_nat j) = word_of_nat (k + j)" and "unat (word_of_nat (k + j) :: u64) = k + j"
proof -
  show u: "unat (word_of_nat (k + j) :: u64) = k + j" using assms by (simp add: unat_of_nat del: of_nat_add)
  have "unat (word_of_nat k :: u64) = k" "unat (word_of_nat j :: u64) = j" using assms by (simp_all add: unat_of_nat)
  then show "saturating_add (word_of_nat k) (word_of_nat j) = word_of_nat (k + j)"
    using assms by (simp add: Prelude.saturating_add_def checked_add_def)
qed

lemma walk_from:
  assumes "session_user E R s = Some u" and "asks q ft srt mine" and "hx_file_faults R CallList = None"
    and "0 < page_limit q" and "\<forall>b. hv_url_dec E (hv_url_enc E b) = Some b"
    and "all = visible u ft srt mine (store_of s)" and "length all < 2 ^ 32"
    and "parse_offset E (cursor_fp E ft srt mine) q = Inr (word_of_nat k)" and "k \<le> length all" and "length all - k < n"
  shows "walk E B R n q s = Some (map list_entry_out (drop k all))"
  using assms(2,4,8-10)
proof (induction n arbitrary: q k)
  case (Suc n)
  let ?fp = "cursor_fp E ft srt mine" and ?l = "page_limit q"
  have k: "unat (word_of_nat k :: u64) = k" using next_offset(2) [of k 0] Suc.prems(4) assms(7) by simp
  note r = list_route [OF assms(1) Suc.prems(1) assms(3) Suc.prems(3), of B, unfolded k assms(6) [symmetric]]
  let ?es = "take ?l (drop k all)" and ?j = "min (length all - k) ?l"
  have len: "length ?es = ?j" by simp
  have nx: "saturating_add (word_of_nat k) (word_of_nat ?j) = (word_of_nat (k + ?j) :: u64)"
    "unat (word_of_nat (k + ?j) :: u64) = k + ?j"
    using next_offset [of k ?j] Suc.prems(4) assms(7) by simp_all
  have less: "(word_of_nat (k + ?j) :: u64) < word_of_nat (length all) \<longleftrightarrow> k + ?j < length all"
    using nx(2) next_offset(2) [of "length all" 0] assms(7) by (simp add: word_less_nat_alt)
  show ?case
  proof (cases "k + ?j < length all")
    case True
    let ?c = "encode_cursor E (word_of_nat (k + ?j)) ?fp"
    have ne: "map list_entry_out ?es \<noteq> []" using True Suc.prems(2) by auto
    have "decode_cursor E ?c ?fp = Inr (word_of_nat (k + ?j))"
      by (rule cursor_round_trip) (use assms(5,7) nx(2) True cursor_fp_plain [of E ft srt mine] in auto)
    then have off: "parse_offset E ?fp (q\<lparr>lq_cursor := Some ?c\<rparr>) = Inr (word_of_nat (k + ?j))"
      by (simp add: parse_offset_def)
    have "walk E B R n (q\<lparr>lq_cursor := Some ?c\<rparr>) s = Some (map list_entry_out (drop (k + ?j) all))"
      by (rule Suc.IH [OF _ _ off]) (use Suc.prems True in \<open>auto simp: asks_def page_limit_def\<close>)
    moreover have "list_response E ?fp (word_of_nat k) \<lparr>fp_entries = ?es, fp_total = word_of_nat (length all)\<rparr> =
        JList (map list_entry_out ?es) (Some ?c) (word_of_nat (length all))"
      using ne True less nx(1) by (simp add: list_response_def Let_def del: of_nat_add)
    moreover have "map list_entry_out ?es @ map list_entry_out (drop (k + ?j) all) = map list_entry_out (drop k all)"
      using True by (simp add: min_def map_append [symmetric] del: map_append split: if_splits)
        (metis add.commute append_take_drop_id drop_drop)
    ultimately show ?thesis by (simp add: r)
  next
    case False
    then have "?es = drop k all" using Suc.prems(4) by (simp add: min_def split: if_splits)
    then have "list_response E ?fp (word_of_nat k) \<lparr>fp_entries = ?es, fp_total = word_of_nat (length all)\<rparr> =
        JList (map list_entry_out (drop k all)) None (word_of_nat (length all))"
      using False less nx(1) len Suc.prems(4) by (simp add: list_response_def Let_def del: of_nat_add)
    then show ?thesis by (simp add: r)
  qed
qed simp


text \<open>C22: Paging ends and misses nothing. Whoever has a session and asks for a listing with any filter, order and page
  size (but zero), and then follows \<open>next_cursor\<close>, is through after at most one page more than there are entries, every
  page is answered, and the pages put together are all the entries visible to the caller, each once and in order. This
  holds while nobody changes the files, below \<open>2 ^ 32\<close> entries, the range of the offsets a cursor can carry.\<close>

theorem paging_visits_all:
  assumes "session_user E R s = Some u" and "asks q ft srt mine" and "lq_cursor q = None" and "lq_offset q = None"
    and "lq_limit q \<noteq> Some 0" and "hx_file_faults R CallList = None"
    and "\<forall>b. hv_url_dec E (hv_url_enc E b) = Some b" and "length (visible u ft srt mine (store_of s)) < 2 ^ 32"
  shows "walk E B R (Suc (length (visible u ft srt mine (store_of s)))) q s =
     Some (map list_entry_out (visible u ft srt mine (store_of s)))"
proof -
  have "0 < page_limit q" using assms(5) by (auto simp: page_limit_def split: option.splits)
  moreover have "parse_offset E (cursor_fp E ft srt mine) q = Inr (word_of_nat 0)"
    using assms(3,4) by (simp add: parse_offset_def)
  ultimately show ?thesis
    using walk_from [where B = B and k = 0, OF assms(1,2,6) _ assms(7) refl assms(8)] by (simp del: walk.simps)
qed

lemma bytes_string_bytes: "str_bytes (bytes_string b) = b"
proof (induction b)
  case (Cons x b)
  have "(of_char (char_of (unat x) :: char) :: byte) = word_of_nat (of_char (char_of (unat x) :: char))"
    by (simp only: of_nat_of_char)
  also have "\<dots> = x" using unat_byte_less [of x] by (simp add: of_char_of del: of_nat_of_char)
  finally show ?case using Cons by (simp add: bytes_string_def str_bytes_def)
qed (simp add: bytes_string_def str_bytes_def)

lemma length_visible: "length (visible u ft srt mine st) \<le> length (in_files st)"
proof -
  have "length (List.map_filter list_entry xs) \<le> length xs" for xs by (simp add: List.map_filter_def)
  then have "length (List.map_filter list_entry [p \<leftarrow> in_files st. P p]) \<le> length (in_files st)" for P
    by (meson length_filter_le order_trans)
  moreover have "length (sort_by le xs) = length xs" for le and xs :: "file_list_entry list"
    by (metis mset_sort_by size_mset)
  ultimately show ?thesis by (simp add: visible_def listing_def)
qed

lemma one_file0: "length (in_files server0) = 1"
  using server0_files by auto

theorem paging_visits_all_witness:
  "walk env0 memory_serving ctx0 (Suc (length (visible owner0 None Newest False (store_of (app0 owner0)))))
     \<lparr>lq_file_type = None, lq_limit = Some 1, lq_offset = None, lq_cursor = None, lq_sort = None, lq_owner = None\<rparr> (app0 owner0) =
   Some (map list_entry_out (visible owner0 None Newest False (store_of (app0 owner0))))"
proof (rule paging_visits_all [OF user0])
  show "\<forall>b. hv_url_dec env0 (hv_url_enc env0 b) = Some b" by (simp add: env0_def bytes_string_bytes)
  show "length (visible owner0 None Newest False (store_of (app0 owner0))) < 2 ^ 32"
    using length_visible [of owner0 None Newest False "store_of (app0 owner0)"] one_file0 by simp
qed (simp_all add: asks_def parse_sort_def parse_owner_def ctx0_def)

end
