(* ===== verification/Spec2Isabelle.thy ===== *)
theory Spec2Isabelle
  imports Encoding_Laws Merkle_Log Delegation Revocation Transparency ServerRecords_Serving VersionMemory Upload_Laws
    KeyBlob_Laws ClientPolicies Directory_Laws Sharing_Laws Detection_Laws ServerAuth_Laws ServerAuth_Sessions AdminCore_Laws WriteBack_Serving BackupMerge_Safety BackupOps_Laws
    HttpListing_Laws
begin

text \<open>
  MaxSecu is an end-to-end encrypted file vault: clients hold the keys, a server stores inert signed
  bytes, and an external sink keeps the logs the server must not be able to rewrite. This library models
  the parts of the Rust workspace that carry its trust argument and proves what each part relies on.

  \<^bold>\<open>Encoding\<close> (\<^verbatim>\<open>crates/encoding\<close>). \<open>Primitives\<close> is the byte writer and reader of
  \<^verbatim>\<open>primitives.rs\<close> with the error values of \<^verbatim>\<open>error.rs\<close>; \<open>Field_Types\<close> and \<open>Enum_Types\<close> are the
  fields of \<^verbatim>\<open>types.rs\<close>, each an interpretation of the locale \<open>field\<close>, which is the \<open>Field\<close> trait with
  its laws; \<open>Canonical\<close> is \<open>encode\<close>, \<open>read_struct\<close>, \<open>decode\<close> and the signing frames of \<^verbatim>\<open>lib.rs\<close>, with the
  locale \<open>canonical_struct\<close> for the \<open>Canonical\<close> trait; \<open>Structs\<close> has the fourteen structures of
  \<^verbatim>\<open>structs.rs\<close>, field by field in wire order; \<open>Encoding_Laws\<close> shows that decoding accepts exactly the
  canonical encodings and that signed messages cannot be confused across roles. Unicode normalisation
  (\<open>is_nfc\<close>, \<open>to_nfc\<close>) is a third-party package and stays a parameter.

  \<^bold>\<open>Merkle logs\<close> (\<^verbatim>\<open>crates/crypto/src/merkle.rs\<close>). \<open>Merkle\<close> has the root, both provers and both verifiers
  with their \<open>u64\<close> counters; \<open>Merkle_Levels\<close>, \<open>Merkle_Inclusion\<close> and \<open>Merkle_Consistency\<close> hold the lemmas
  and \<open>Merkle_Log\<close> the locale \<open>authenticated_log\<close> and its interpretation. SHA-256 is a parameter;
  soundness holds for any hash without a collision among the nodes at hand, completeness for every hash.
  The loops are structural or have a measure; the bound on tree sizes is the one the counters need.

  \<^bold>\<open>Signatures and delegation\<close> (\<^verbatim>\<open>crates/crypto/src/sign.rs\<close>, \<^verbatim>\<open>delegation.rs\<close>). \<open>Signing\<close> takes key
  validation and strict Ed25519 verification as parameters; \<open>Delegation\<close> models the certificate, its
  wire form and its windowed verification.

  \<^bold>\<open>Control log\<close> (\<^verbatim>\<open>crates/sink-server/src/chain.rs\<close>, \<^verbatim>\<open>position.rs\<close>, \<^verbatim>\<open>crates/server/src/control.rs\<close>,
  \<^verbatim>\<open>crates/client-core/src/revocation.rs\<close>). \<open>ControlLog\<close> has the sink's hash chain and positions, the
  server's projection, and the locale \<open>chained_log\<close>: what a provider of the log serves chains up to the
  head it reports. It is interpreted for the sink and, in \<open>ServerAccounts_Laws\<close>, for the server's store.
  \<open>Revocation\<close> is the client: verifying the served log, the authority of each record over its prefix, and
  evaluating revocations.

  \<^bold>\<open>Key transparency\<close> (\<^verbatim>\<open>crates/sink-server/src/dirlog.rs\<close>, \<^verbatim>\<open>anchor.rs\<close>,
  \<^verbatim>\<open>crates/client-core/src/transparency.rs\<close>, \<^verbatim>\<open>sink.rs\<close>). \<open>Transparency\<close> composes the log, the client's
  gossip state and the head anchoring.

  \<^bold>\<open>Server\<close> (\<^verbatim>\<open>crates/server/src/files.rs\<close>, \<^verbatim>\<open>store.rs\<close>). \<open>ServerFiles\<close> has the posted records and
  \<open>parse_stage\<close>; \<open>ServerAccounts\<close> the state of the in-memory store with its account, session, enrolment and
  control-log operations; \<open>ServerRecords\<close> the file operations. Each operation holds the store's single
  mutex for its whole body, so it is one step on the state record \<open>inner\<close>, returned updated; \<open>account_run\<close>
  and \<open>store_run\<close> are the interleavings of requests. \<open>ServerAccounts_Laws\<close> shows single use of keys, nonces
  and of the first-administrator role, the bounded sweep, and that the server's log refines the sink's.
  \<open>ServerRecords_Laws\<close> has the invariant of stored files (contiguous finalized versions, keys only in the
  current one, the recovery wrap always present) and the refinement of sharing to a set of readers;
  \<open>ServerRecords_Serving\<close> what is served, listed and deleted. Iteration over a hash map is in list order
  here, which the code leaves open; no property depends on it. The bound of \<open>2 ^ 64\<close> requests in these
  properties keeps the \<open>u64\<close> version counter from wrapping.

  \<^bold>\<open>Files at the client\<close> (\<^verbatim>\<open>crates/crypto/src/aead.rs\<close>, \<^verbatim>\<open>dek.rs\<close>, \<^verbatim>\<open>wrap.rs\<close>, \<^verbatim>\<open>hybrid.rs\<close>;
  \<^verbatim>\<open>crates/client-core/src\<close>). \<open>Aead\<close> is the chunk framing over AES-GCM, \<open>DekWrap\<close> the file key and its two kinds of
  wraps, \<open>Identity\<close> the unlocked identity and the login proof, \<open>Upload\<close> what \<^verbatim>\<open>upload.rs\<close> builds, \<open>Download\<close> and
  \<open>DownloadStream\<close> the verification ladder and the four ways of opening in \<^verbatim>\<open>download.rs\<close>, \<open>VersionMemory\<close> the memory of
  \<^verbatim>\<open>version_memory.rs\<close> behind the locale \<open>version_store\<close>, \<open>Sharing\<close> the re-share and the rotation. Their laws:
  \<open>Aead_Laws\<close> (an opened stream is a sealed stream), \<open>DekWrap_Laws\<close> (wraps open, and bind their context), \<open>GrantChain\<close>
  (the walk over grants accepts exactly the rooted ones within the depth bound of 32), \<open>Download_Laws\<close> (acceptance is
  exactly authenticity), \<open>Upload_Laws\<close> and \<open>Sharing_Laws\<close> (what one side builds the other side opens).

  \<^bold>\<open>Secrets, directory and policies of the client.\<close> \<open>KeyBlob\<close> and \<open>KeyBlob_Laws\<close> hold the password-sealed blobs
  (\<^verbatim>\<open>pwkdf.rs\<close>, \<^verbatim>\<open>keyblob.rs\<close>, \<^verbatim>\<open>seedblob.rs\<close>, \<^verbatim>\<open>password.rs\<close>); \<open>ClientPolicies\<close> updates, export names and the unlock plan;
  \<open>Directory\<close> and \<open>Directory_Laws\<close> the check of a binding against the pins of the locale \<open>trust_store\<close> and the transparency
  gate (the pin holds the key version and the two classical keys of a user; his ML-KEM key is outside it).

  \<^bold>\<open>Server: logins, delegation, detection.\<close> \<open>ServerAuth\<close> has the rate limits, challenges, proofs, sessions and the
  recovery login; its requests are split into the reads and the writes that other requests may fall between, and
  \<open>ServerAuth_Sessions\<close> follows every interleaving. \<open>ServerDelegation\<close> is the installed directory delegation, \<open>Detection\<close>
  and \<open>Detection_Laws\<close> the anomaly rules and the in-memory audit trail.

  \<^bold>\<open>Server: HTTP\<close> (\<^verbatim>\<open>crates/server/src/http.rs\<close>). \<open>HttpBase\<close> has the state shared by the handlers, the wire encodings, the
  listing cursors and the three session extractors; \<open>HttpApi\<close> the handlers of accounts, logins, delegation, directory and
  control log; \<open>HttpFiles\<close> those of files, chunks, wraps and listings, and the router \<open>dispatch\<close>. A handler is a function
  in the type \<open>serve\<close>: it returns early with a response, or panics. \<open>HttpFiles_Laws\<close> has rules that follow a handler call
  by call and shows over all routes that a refused request leaves no record behind and that files change only by right;
  \<open>HttpReads_Laws\<close> that chunks go to readers only and that missing and forbidden files look alike; \<open>HttpListing_Laws\<close> that
  paging ends. The handlers run over the in-memory store, one at a time, and over any blob store.

  \<^bold>\<open>Server: storage.\<close> \<open>BlobTiers\<close> has the blob stores, the cold tier, the cache index and the write-through store,
  \<open>WriteBack\<close> the write-back tier. \<open>WriteBack_Laws\<close> states the two traits as the locales of their contracts, interpreted on
  the in-memory stores, and \<open>WriteBack_Serving\<close> shows that the tier simulates one flat store whatever fails. \<open>PgTables\<close> is
  the database schema (migrations) as tables with their constraints, \<open>PgStore\<close> the file half of \<^verbatim>\<open>pg.rs\<close> statement by
  statement, \<open>PgTables_Laws\<close> the laws of the statements and the constraints as an invariant.

  \<^bold>\<open>Server: backups\<close> (\<^verbatim>\<open>crates/server/src/backup\<close>). \<open>BackupFormat\<close>, \<open>BackupBundle\<close> and \<open>BackupOps\<close> are the sealed parts, the
  container over a cold tier, and the requests (backup, list, prune, plan, restore); \<open>BackupBundle_Laws\<close> and
  \<open>BackupOps_Laws\<close> show that what opens is what was sealed, whatever the tier serves, and that a prune
  deletes exactly the surplus bundles. \<open>BackupMerge\<close> merges a restored database into the live one;
  \<open>BackupMerge_Laws\<close>, \<open>BackupMerge_Spec\<close> and \<open>BackupMerge_Safety\<close> give the
  union it computes
  and what it can never bring back.

  \<^bold>\<open>Ceremonies\<close> (\<^verbatim>\<open>crates/admin-core\<close>). \<open>AdminCore\<close> and \<open>AdminCore_Laws\<close> have the offline issuing of control records,
  enrolment, the recovery checks, the subtree of a revoked user and the recovery sweep.

  \<^bold>\<open>Conventions.\<close> \<open>Prelude\<close> fixes them: machine integers are words of their width, byte arrays are lists
  with their length in the well-formedness predicates, \<open>Result\<close> is a sum with \<open>Inl\<close> for the error and
  \<open>rbind\<close> for the \<open>?\<close> operator, and every early return is a branch. Arithmetic overflow panics in this workspace (the
  release profile keeps the checks), so an operation that may overflow returns an option, \<open>None\<close> being the panic.
  \<open>Requests\<close> has operations on a state that may fail; a failing backend is an argument, and the properties quantify over it.
  The primitives are the record \<open>primitives\<close> of \<open>DekWrap\<close>; hypotheses about them name documented behaviour (a
  signature verifies, an opened message was sealed under that key, no collision among the inputs at hand) and each
  property that uses them has an instance where they hold. Randomness is an argument. Recursion is structural or has a
  measure; the one fuel is that of the paging client, which one page more than there are entries exhausts.

  \<^bold>\<open>Not modelled.\<close> The cryptographic primitives and Unicode normalisation (packages); JSON, TLS and socket handling
  around the handlers, the sink's HTTP routes and its client; the database engine under the SQL statements (transactions
  run one at a time) and the account half of \<^verbatim>\<open>pg.rs\<close>; the Dropbox client; image and video decoding and sandboxing; the
  desktop client, portable server, media launcher and the tools, which call operating-system and user-interface
  libraries. Requests are interleaved for the accounts, logins and the in-memory store; the handlers above them run whole.
\<close>

end
